(* ===== verification/Prelude.thy ===== *)
theory Prelude
  imports Main "HOL-Library.Word" "HOL-Library.Monad_Syntax"
begin

text \<open>
  Shared ground of the development: the machine integer types of the Rust sources, the
  error-propagation combinator that stands for the question-mark operator, big-endian byte
  strings, \<open>partition_point\<close> and \<open>retain\<close>-style list facts, and the arithmetic of
  wrapping 16-bit differences. Nothing here is specific to one component.
\<close>

unbundle bit_operations_syntax

section \<open>Machine types\<close>

type_synonym u8 = "8 word"
type_synonym u16 = "16 word"
type_synonym u32 = "32 word"
type_synonym u64 = "64 word"
type_synonym bytes = "u8 list"

text \<open>
  A \<open>Duration\<close> is a number of nanoseconds; \<open>saturating_sub\<close> of durations is the
  truncated subtraction of \<open>nat\<close>. A \<open>usize\<close> is a \<open>nat\<close>, with the overflow of a
  64-bit target written out where the code checks for it.
\<close>

type_synonym duration = nat

definition usize_max :: nat where
  "usize_max = 2 ^ 64 - 1"

definition checked_add :: "nat \<Rightarrow> nat \<Rightarrow> nat option" where
  "checked_add a b = (if a + b \<le> usize_max then Some (a + b) else None)"

definition checked_mul :: "nat \<Rightarrow> nat \<Rightarrow> nat option" where
  "checked_mul a b = (if a * b \<le> usize_max then Some (a * b) else None)"

definition checked_sub :: "nat \<Rightarrow> nat \<Rightarrow> nat option" where
  "checked_sub a b = (if b \<le> a then Some (a - b) else None)"

section \<open>Results\<close>

text \<open>
  A fallible operation returns \<open>Inl\<close> of its error or \<open>Inr\<close> of its value;
  \<open>and_then\<close> is the early return of Rust's question-mark operator, \<open>ok_or\<close> turns a
  missing value into an error.
\<close>

definition and_then :: "'e + 'a \<Rightarrow> ('a \<Rightarrow> 'e + 'b) \<Rightarrow> 'e + 'b" where
  "and_then m f = (case m of Inl e \<Rightarrow> Inl e | Inr x \<Rightarrow> f x)"

definition ok_or :: "'a option \<Rightarrow> 'e \<Rightarrow> 'e + 'a" where
  "ok_or x e = (case x of None \<Rightarrow> Inl e | Some v \<Rightarrow> Inr v)"

lemma and_then_simps [simp]:
  "and_then (Inl e) f = Inl e"
  "and_then (Inr x) f = f x"
  by (simp_all add: and_then_def)

lemma and_then_cong [fundef_cong]:
  "m = m' \<Longrightarrow> (\<And>x. m' = Inr x \<Longrightarrow> f x = g x) \<Longrightarrow> and_then m f = and_then m' g"
  by (auto simp: and_then_def split: sum.splits)

lemma and_then_Inr_iff:
  "and_then m f = Inr y \<longleftrightarrow> (\<exists>x. m = Inr x \<and> f x = Inr y)"
  by (cases m) auto

lemma ok_or_simps [simp]:
  "ok_or None e = Inl e"
  "ok_or (Some v) e = Inr v"
  by (simp_all add: ok_or_def)

section \<open>Big-endian byte strings\<close>

text \<open>\<open>to_be_bytes\<close> and \<open>from_be_bytes\<close> of Rust's integers, for a width of \<open>k\<close> bytes.\<close>

definition be_bytes :: "nat \<Rightarrow> nat \<Rightarrow> bytes" where
  "be_bytes k n = map (\<lambda>i. word_of_nat (n div 256 ^ i)) (rev [0..<k])"

definition be_nat :: "bytes \<Rightarrow> nat" where
  "be_nat bs = foldl (\<lambda>acc b. 256 * acc + unat b) 0 bs"

lemma length_be_bytes [simp]: "length (be_bytes k n) = k"
  by (simp add: be_bytes_def)

lemma be_bytes_Suc: "be_bytes (Suc k) n = word_of_nat (n div 256 ^ k) # be_bytes k n"
  by (simp add: be_bytes_def)

lemma be_bytes_numeral:
  "be_bytes 0 n = []"
  "be_bytes (numeral k) n = word_of_nat (n div 256 ^ pred_numeral k) # be_bytes (pred_numeral k) n"
  by (simp_all add: be_bytes_Suc numeral_eq_Suc) (simp add: be_bytes_def)

lemma be_nat_acc: "foldl (\<lambda>acc b. 256 * acc + unat b) a bs = a * 256 ^ length bs + be_nat bs"
  for bs :: bytes
proof (induction bs arbitrary: a)
  case Nil
  then show ?case by (simp add: be_nat_def)
next
  case (Cons b bs)
  have "be_nat (b # bs) = unat b * 256 ^ length bs + be_nat bs"
    using Cons.IH [of "unat b"] by (simp add: be_nat_def)
  with Cons.IH [of "256 * a + unat b"] show ?case
    by (simp add: algebra_simps)
qed

lemma be_nat_Cons: "be_nat (b # bs) = unat b * 256 ^ length bs + be_nat bs"
  using be_nat_acc [of "unat b" bs] by (simp add: be_nat_def)

lemma be_nat_Nil [simp]: "be_nat [] = 0"
  by (simp add: be_nat_def)

lemma be_nat_be_bytes: "be_nat (be_bytes k n) = n mod 256 ^ k"
proof (induction k)
  case 0
  then show ?case by (simp add: be_bytes_def)
next
  case (Suc k)
  have "unat (word_of_nat (n div 256 ^ k) :: u8) = n div 256 ^ k mod 256"
    by (simp add: unat_of_nat)
  moreover have "n mod (256 * 256 ^ k) = 256 ^ k * (n div 256 ^ k mod 256) + n mod 256 ^ k"
    using mod_mult2_eq [of n "256 ^ k" 256] by (simp add: mult.commute)
  ultimately show ?case
    by (simp add: be_bytes_Suc be_nat_Cons Suc)
qed

lemma be_nat_less: "be_nat bs < 256 ^ length bs"
proof (induction bs)
  case Nil
  then show ?case by simp
next
  case (Cons b bs)
  have "unat b \<le> 255"
    using unsigned_less [of b, where ?'a = nat] by simp
  then have "unat b * 256 ^ length bs \<le> 255 * 256 ^ length bs"
    by (rule mult_le_mono1)
  with Cons have "unat b * 256 ^ length bs + be_nat bs < 256 * 256 ^ length bs"
    by linarith
  then show ?case by (simp add: be_nat_Cons)
qed

section \<open>Lists\<close>

text \<open>
  \<open>partition_point P xs\<close> is the index of the first element that does not satisfy \<open>P\<close>,
  for a sequence partitioned by \<open>P\<close>, as the standard library documents it.
\<close>

definition partition_point :: "('a \<Rightarrow> bool) \<Rightarrow> 'a list \<Rightarrow> nat" where
  "partition_point P xs = length (takeWhile P xs)"

lemma partition_point_le [simp]: "partition_point P xs \<le> length xs"
  by (simp add: partition_point_def length_takeWhile_le)

lemma take_partition_point [simp]: "take (partition_point P xs) xs = takeWhile P xs"
  by (simp add: partition_point_def takeWhile_eq_take [symmetric])

lemma drop_partition_point [simp]: "drop (partition_point P xs) xs = dropWhile P xs"
  by (simp add: partition_point_def dropWhile_eq_drop [symmetric])

text \<open>A loop whose body is guarded runs over the elements that pass the guard.\<close>

lemma fold_if: "fold (\<lambda>x s. if P x then f x s else s) xs s = fold f (filter P xs) s"
  by (induction xs arbitrary: s) auto

section \<open>Wrapping differences of 16-bit identifiers\<close>

text \<open>
  Reading the difference of two wrapped counters as a signed number gives the difference of the
  counters, as long as they are less than half of the range apart.
\<close>

lemma sint_word_of_int_16:
  "- (2 ^ 15) \<le> k \<Longrightarrow> k < 2 ^ 15 \<Longrightarrow> sint (word_of_int k :: u16) = k"
  by (simp add: sint_sbintrunc' signed_take_bit_int_eq_self)

lemma sint_diff_16:
  assumes "- (2 ^ 15) \<le> m - n" and "m - n < 2 ^ 15"
  shows "sint (word_of_int m - word_of_int n :: u16) = m - n"
proof -
  have "(word_of_int m - word_of_int n :: u16) = word_of_int (m - n)"
    by simp
  then show ?thesis
    using assms by (simp only: sint_word_of_int_16)
qed

lemma sint_zero_16_iff [simp]: "sint (w :: u16) = 0 \<longleftrightarrow> w = 0"
  by (metis signed_0 signed_word_eqI)

end
