(* ===== verification/Serde.thy ===== *)
theory Serde
  imports Prelude
begin

text \<open>
  The wire primitives of \<open>crates/transport/serde\<close>: the cursor \<open>Reader\<close>, the integer
  reads and writes, the variable-length integers of \<open>varint.rs\<close> and the \<open>ToBytes\<close>
  implementations for options, byte strings, small integers, pairs, vectors and hash maps. The
  \<open>ToBytes\<close> trait itself is the locale \<open>codec\<close>; every implementation is shown to be one.
  A writer is the list of bytes written so far.
\<close>

section \<open>Errors\<close>

datatype io_error = UnexpectedEof | Other

text \<open>
  The variants of the Rust enum; \<open>Panicked\<close> is not one of them, it stands for the panic of
  \<open>unreachable!()\<close>, so that a theorem about a result also excludes the panic.
\<close>

datatype serialization_error =
    Io io_error
  | InvalidPacketType
  | InvalidValue
  | SubtractionOverflow
  | Postcard
  | Panicked

type_synonym 'a serde_result = "serialization_error + 'a"

section \<open>Variable-length integers: varint.rs\<close>

definition varint_len :: "u64 \<Rightarrow> nat option" where
  "varint_len v =
     (if v \<le> 63 then Some 1
      else if v \<le> 16383 then Some 2
      else if v \<le> 1073741823 then Some 4
      else if v \<le> 4611686018427387903 then Some 8
      else None)"

definition varint_parse_len :: "u8 \<Rightarrow> nat option" where
  "varint_parse_len first =
     (let k = drop_bit 6 first in
      if k = 0 then Some 1
      else if k = 1 then Some 2
      else if k = 2 then Some 4
      else if k = 3 then Some 8
      else None)"

section \<open>The reader: reader.rs\<close>

record reader =
  rd_buf :: bytes
  rd_pos :: nat

definition reader_from :: "bytes \<Rightarrow> reader" where
  "reader_from bs = \<lparr>rd_buf = bs, rd_pos = 0\<rparr>"

definition reader_len :: "reader \<Rightarrow> nat" where
  "reader_len r = length (rd_buf r)"

definition reader_is_empty :: "reader \<Rightarrow> bool" where
  "reader_is_empty r \<longleftrightarrow> reader_len r = 0"

definition remaining :: "reader \<Rightarrow> nat" where
  "remaining r = reader_len r - rd_pos r"

definition has_remaining :: "reader \<Rightarrow> bool" where
  "has_remaining r \<longleftrightarrow> remaining r > 0"

definition remaining_slice :: "reader \<Rightarrow> bytes" where
  "remaining_slice r = drop (rd_pos r) (rd_buf r)"

definition set_position :: "nat \<Rightarrow> reader \<Rightarrow> reader" where
  "set_position p r = r\<lparr>rd_pos := p\<rparr>"

text \<open>\<open>Buf::advance\<close> asserts that enough bytes remain; \<open>None\<close> is the failed assertion.\<close>

definition advance :: "nat \<Rightarrow> reader \<Rightarrow> reader option" where
  "advance cnt r = (if cnt \<le> remaining r then Some (r\<lparr>rd_pos := rd_pos r + cnt\<rparr>) else None)"

definition split_len :: "nat \<Rightarrow> reader \<Rightarrow> (bytes \<times> reader) serde_result" where
  "split_len len r =
     (case checked_add (rd_pos r) len of
        None \<Rightarrow> Inl (Io UnexpectedEof)
      | Some new_pos \<Rightarrow>
          if new_pos \<le> reader_len r
          then Inr (take len (drop (rd_pos r) (rd_buf r)), r\<lparr>rd_pos := new_pos\<rparr>)
          else Inl (Io UnexpectedEof))"

text \<open>
  \<open>take_remaining\<close> splits the buffer at the cursor and keeps the front; \<open>split_off\<close> beyond
  the end of the buffer panics, which is \<open>None\<close>.
\<close>

definition take_remaining :: "reader \<Rightarrow> (bytes \<times> reader) option" where
  "take_remaining r =
     (if rd_pos r \<le> reader_len r
      then Some (drop (rd_pos r) (rd_buf r), r\<lparr>rd_buf := take (rd_pos r) (rd_buf r)\<rparr>)
      else None)"

text \<open>\<open>Read::read_exact\<close> of a cursor: the next \<open>n\<close> bytes, or end of file.\<close>

definition read_exact :: "nat \<Rightarrow> reader \<Rightarrow> (bytes \<times> reader) serde_result" where
  "read_exact n r =
     (if n \<le> remaining r
      then Inr (take n (remaining_slice r), r\<lparr>rd_pos := rd_pos r + n\<rparr>)
      else Inl (Io UnexpectedEof))"

definition read_u8 :: "reader \<Rightarrow> (u8 \<times> reader) serde_result" where
  "read_u8 r = and_then (read_exact 1 r) (\<lambda>(buf, r). Inr (word_of_nat (be_nat buf), r))"

definition read_u16 :: "reader \<Rightarrow> (u16 \<times> reader) serde_result" where
  "read_u16 r = and_then (read_exact 2 r) (\<lambda>(buf, r). Inr (word_of_nat (be_nat buf), r))"

definition read_u32 :: "reader \<Rightarrow> (u32 \<times> reader) serde_result" where
  "read_u32 r = and_then (read_exact 4 r) (\<lambda>(buf, r). Inr (word_of_nat (be_nat buf), r))"

definition read_u64 :: "reader \<Rightarrow> (u64 \<times> reader) serde_result" where
  "read_u64 r = and_then (read_exact 8 r) (\<lambda>(buf, r). Inr (word_of_nat (be_nat buf), r))"

text \<open>The signed reads and writes go through the two's complement reading of the same bytes.\<close>

definition read_i8 :: "reader \<Rightarrow> (int \<times> reader) serde_result" where
  "read_i8 r = and_then (read_exact 1 r) (\<lambda>(buf, r). Inr (sint (word_of_nat (be_nat buf) :: u8), r))"

definition read_i16 :: "reader \<Rightarrow> (int \<times> reader) serde_result" where
  "read_i16 r = and_then (read_exact 2 r) (\<lambda>(buf, r). Inr (sint (word_of_nat (be_nat buf) :: u16), r))"

definition read_i32 :: "reader \<Rightarrow> (int \<times> reader) serde_result" where
  "read_i32 r = and_then (read_exact 4 r) (\<lambda>(buf, r). Inr (sint (word_of_nat (be_nat buf) :: u32), r))"

definition read_i64 :: "reader \<Rightarrow> (int \<times> reader) serde_result" where
  "read_i64 r = and_then (read_exact 8 r) (\<lambda>(buf, r). Inr (sint (word_of_nat (be_nat buf) :: u64), r))"

definition read_varint :: "reader \<Rightarrow> (u64 \<times> reader) serde_result" where
  "read_varint r =
     and_then (read_u8 r) (\<lambda>(first, r).
       case varint_parse_len first of
         None \<Rightarrow> Inl Panicked
       | Some len \<Rightarrow>
           if len = 1 then Inr (ucast first, r)
           else if len = 2 then
             and_then (read_exact 1 r) (\<lambda>(rest, r).
               Inr (ucast ((word_of_nat (be_nat (first # rest)) :: u16) AND 0x3fff), r))
           else if len = 4 then
             and_then (read_exact 3 r) (\<lambda>(rest, r).
               Inr (ucast ((word_of_nat (be_nat (first # rest)) :: u32) AND 0x3fffffff), r))
           else if len = 8 then
             and_then (read_exact 7 r) (\<lambda>(rest, r).
               Inr ((word_of_nat (be_nat (first # rest)) :: u64) AND 0x3fffffffffffffff, r))
           else Inl (Io Other))"

section \<open>The writer: writer.rs\<close>

definition write_all :: "bytes \<Rightarrow> bytes \<Rightarrow> bytes serde_result" where
  "write_all src buf = Inr (buf @ src)"

definition write_u8 :: "u8 \<Rightarrow> bytes \<Rightarrow> bytes serde_result" where
  "write_u8 n buf = write_all [n] buf"

definition write_u16 :: "u16 \<Rightarrow> bytes \<Rightarrow> bytes serde_result" where
  "write_u16 n buf = write_all (be_bytes 2 (unat n)) buf"

definition write_u32 :: "u32 \<Rightarrow> bytes \<Rightarrow> bytes serde_result" where
  "write_u32 n buf = write_all (be_bytes 4 (unat n)) buf"

definition write_u64 :: "u64 \<Rightarrow> bytes \<Rightarrow> bytes serde_result" where
  "write_u64 n buf = write_all (be_bytes 8 (unat n)) buf"

definition write_i8 :: "int \<Rightarrow> bytes \<Rightarrow> bytes serde_result" where
  "write_i8 n buf = write_u8 (word_of_int n) buf"

definition write_i16 :: "int \<Rightarrow> bytes \<Rightarrow> bytes serde_result" where
  "write_i16 n buf = write_u16 (word_of_int n) buf"

definition write_i32 :: "int \<Rightarrow> bytes \<Rightarrow> bytes serde_result" where
  "write_i32 n buf = write_u32 (word_of_int n) buf"

definition write_i64 :: "int \<Rightarrow> bytes \<Rightarrow> bytes serde_result" where
  "write_i64 n buf = write_u64 (word_of_int n) buf"

definition write_varint :: "u64 \<Rightarrow> bytes \<Rightarrow> bytes serde_result" where
  "write_varint value buf =
     (case varint_len value of
        None \<Rightarrow> Inl Panicked
      | Some len \<Rightarrow>
          if len = 1 then write_u8 (ucast value) buf
          else if len = 2 then write_u16 (ucast value OR 0x4000) buf
          else if len = 4 then write_u32 (ucast value OR 0x80000000) buf
          else if len = 8 then write_u64 (value OR 0xc000000000000000) buf
          else Inl (Io Other))"

section \<open>ToBytes implementations: lib.rs\<close>

definition option_bytes_len :: "('a \<Rightarrow> nat option) \<Rightarrow> 'a option \<Rightarrow> nat option" where
  "option_bytes_len len v =
     (case v of Some x \<Rightarrow> do { n \<leftarrow> len x; Some (1 + n) } | None \<Rightarrow> Some 1)"

definition option_to_bytes ::
    "('a \<Rightarrow> bytes \<Rightarrow> bytes serde_result) \<Rightarrow> 'a option \<Rightarrow> bytes \<Rightarrow> bytes serde_result" where
  "option_to_bytes put v buf =
     (case v of
        Some x \<Rightarrow> and_then (write_u8 1 buf) (put x)
      | None \<Rightarrow> write_u8 0 buf)"

definition option_from_bytes ::
    "(reader \<Rightarrow> ('a \<times> reader) serde_result) \<Rightarrow> reader \<Rightarrow> ('a option \<times> reader) serde_result" where
  "option_from_bytes get r =
     and_then (read_u8 r) (\<lambda>(b, r).
       let has_value = (b \<noteq> 0) in
       if has_value then and_then (get r) (\<lambda>(x, r). Inr (Some x, r)) else Inr (None, r))"

definition bytes_bytes_len :: "bytes \<Rightarrow> nat option" where
  "bytes_bytes_len bs = do { n \<leftarrow> varint_len (word_of_nat (length bs)); Some (n + length bs) }"

definition bytes_to_bytes :: "bytes \<Rightarrow> bytes \<Rightarrow> bytes serde_result" where
  "bytes_to_bytes bs buf = and_then (write_varint (word_of_nat (length bs)) buf) (write_all bs)"

definition bytes_from_bytes :: "reader \<Rightarrow> (bytes \<times> reader) serde_result" where
  "bytes_from_bytes r = and_then (read_varint r) (\<lambda>(len, r). split_len (unat len) r)"

definition u8_bytes_len :: "u8 \<Rightarrow> nat option" where
  "u8_bytes_len n = Some 1"

definition u8_to_bytes :: "u8 \<Rightarrow> bytes \<Rightarrow> bytes serde_result" where
  "u8_to_bytes n buf = write_u8 n buf"

definition u8_from_bytes :: "reader \<Rightarrow> (u8 \<times> reader) serde_result" where
  "u8_from_bytes r = read_u8 r"

definition u16_bytes_len :: "u16 \<Rightarrow> nat option" where
  "u16_bytes_len n = varint_len (ucast n)"

definition u16_to_bytes :: "u16 \<Rightarrow> bytes \<Rightarrow> bytes serde_result" where
  "u16_to_bytes n buf = write_varint (ucast n) buf"

definition u16_from_bytes :: "reader \<Rightarrow> (u16 \<times> reader) serde_result" where
  "u16_from_bytes r = and_then (read_varint r) (\<lambda>(v, r). Inr (ucast v, r))"

text \<open>The macro \<open>impl_tuple_query_data\<close> at arity two; longer tuples nest it.\<close>

definition pair_bytes_len ::
    "('a \<Rightarrow> nat option) \<Rightarrow> ('b \<Rightarrow> nat option) \<Rightarrow> 'a \<times> 'b \<Rightarrow> nat option" where
  "pair_bytes_len la lb p = do { m \<leftarrow> la (fst p); n \<leftarrow> lb (snd p); Some (m + n) }"

definition pair_to_bytes ::
    "('a \<Rightarrow> bytes \<Rightarrow> bytes serde_result) \<Rightarrow> ('b \<Rightarrow> bytes \<Rightarrow> bytes serde_result) \<Rightarrow>
     'a \<times> 'b \<Rightarrow> bytes \<Rightarrow> bytes serde_result" where
  "pair_to_bytes pa pb p buf = and_then (pa (fst p) buf) (pb (snd p))"

definition pair_from_bytes ::
    "(reader \<Rightarrow> ('a \<times> reader) serde_result) \<Rightarrow> (reader \<Rightarrow> ('b \<times> reader) serde_result) \<Rightarrow>
     reader \<Rightarrow> (('a \<times> 'b) \<times> reader) serde_result" where
  "pair_from_bytes ga gb r =
     and_then (ga r) (\<lambda>(a, r). and_then (gb r) (\<lambda>(b, r). Inr ((a, b), r)))"

fun sum_bytes_len :: "('a \<Rightarrow> nat option) \<Rightarrow> 'a list \<Rightarrow> nat option" where
  "sum_bytes_len len [] = Some 0"
| "sum_bytes_len len (x # xs) = do { m \<leftarrow> len x; n \<leftarrow> sum_bytes_len len xs; Some (m + n) }"

definition vec_bytes_len :: "('a \<Rightarrow> nat option) \<Rightarrow> 'a list \<Rightarrow> nat option" where
  "vec_bytes_len len xs =
     do { n \<leftarrow> varint_len (word_of_nat (length xs)); m \<leftarrow> sum_bytes_len len xs; Some (n + m) }"

fun try_for_each_to_bytes ::
    "('a \<Rightarrow> bytes \<Rightarrow> bytes serde_result) \<Rightarrow> 'a list \<Rightarrow> bytes \<Rightarrow> bytes serde_result" where
  "try_for_each_to_bytes put [] buf = Inr buf"
| "try_for_each_to_bytes put (x # xs) buf =
     and_then (put x buf) (\<lambda>buf. try_for_each_to_bytes put xs buf)"

definition vec_to_bytes ::
    "('a \<Rightarrow> bytes \<Rightarrow> bytes serde_result) \<Rightarrow> 'a list \<Rightarrow> bytes \<Rightarrow> bytes serde_result" where
  "vec_to_bytes put xs buf =
     and_then (write_varint (word_of_nat (length xs)) buf) (try_for_each_to_bytes put xs)"

text \<open>The loop \<open>for _ in 0..len\<close> that pushes one decoded element per round.\<close>

fun read_n ::
    "(reader \<Rightarrow> ('a \<times> reader) serde_result) \<Rightarrow> nat \<Rightarrow> reader \<Rightarrow> ('a list \<times> reader) serde_result" where
  "read_n get 0 r = Inr ([], r)"
| "read_n get (Suc n) r =
     and_then (get r) (\<lambda>(x, r). and_then (read_n get n r) (\<lambda>(xs, r). Inr (x # xs, r)))"

definition vec_from_bytes ::
    "(reader \<Rightarrow> ('a \<times> reader) serde_result) \<Rightarrow> reader \<Rightarrow> ('a list \<times> reader) serde_result" where
  "vec_from_bytes get r = and_then (read_varint r) (\<lambda>(len, r). read_n get (unat len) r)"

text \<open>
  A hash map is serialised in its iteration order, here the list of its entries; reading inserts
  one entry per round into a fresh map.
\<close>

definition hash_map_bytes_len ::
    "('k \<Rightarrow> nat option) \<Rightarrow> ('v \<Rightarrow> nat option) \<Rightarrow> ('k \<times> 'v) list \<Rightarrow> nat option" where
  "hash_map_bytes_len lk lv entries =
     do { n \<leftarrow> varint_len (word_of_nat (length entries)); m \<leftarrow> sum_bytes_len (pair_bytes_len lk lv) entries;
          Some (n + m) }"

definition hash_map_to_bytes ::
    "('k \<Rightarrow> bytes \<Rightarrow> bytes serde_result) \<Rightarrow> ('v \<Rightarrow> bytes \<Rightarrow> bytes serde_result) \<Rightarrow>
     ('k \<times> 'v) list \<Rightarrow> bytes \<Rightarrow> bytes serde_result" where
  "hash_map_to_bytes pk pv entries buf =
     and_then (write_varint (word_of_nat (length entries)) buf)
       (try_for_each_to_bytes (pair_to_bytes pk pv) entries)"

fun read_entries ::
    "(reader \<Rightarrow> ('k \<times> reader) serde_result) \<Rightarrow> (reader \<Rightarrow> ('v \<times> reader) serde_result) \<Rightarrow>
     nat \<Rightarrow> ('k \<rightharpoonup> 'v) \<Rightarrow> reader \<Rightarrow> (('k \<rightharpoonup> 'v) \<times> reader) serde_result" where
  "read_entries gk gv 0 res r = Inr (res, r)"
| "read_entries gk gv (Suc n) res r =
     and_then (gk r) (\<lambda>(k, r). and_then (gv r) (\<lambda>(v, r).
       read_entries gk gv n (res(k \<mapsto> v)) r))"

definition hash_map_from_bytes ::
    "(reader \<Rightarrow> ('k \<times> reader) serde_result) \<Rightarrow> (reader \<Rightarrow> ('v \<times> reader) serde_result) \<Rightarrow>
     reader \<Rightarrow> (('k \<rightharpoonup> 'v) \<times> reader) serde_result" where
  "hash_map_from_bytes gk gv r =
     and_then (read_varint r) (\<lambda>(len, r). read_entries gk gv (unat len) Map.empty r)"

section \<open>Specification vocabulary\<close>

text \<open>
  A reader is well formed when its cursor is inside the buffer and the buffer fits in memory;
  \<open>skip\<close> moves the cursor; \<open>varint_bytes\<close> is the encoding a variable-length integer is
  meant to have.
\<close>

definition wf_reader :: "reader \<Rightarrow> bool" where
  "wf_reader r \<longleftrightarrow> rd_pos r \<le> length (rd_buf r) \<and> length (rd_buf r) \<le> usize_max"

definition skip :: "nat \<Rightarrow> reader \<Rightarrow> reader" where
  "skip n r = r\<lparr>rd_pos := rd_pos r + n\<rparr>"

definition varint_bytes :: "u64 \<Rightarrow> bytes" where
  "varint_bytes v =
     (if v \<le> 63 then [ucast v]
      else if v \<le> 16383 then be_bytes 2 (unat v + 0x4000)
      else if v \<le> 1073741823 then be_bytes 4 (unat v + 0x80000000)
      else be_bytes 8 (unat v + 0xc000000000000000))"

abbreviation varint_ok :: "u64 \<Rightarrow> bool" where
  "varint_ok v \<equiv> v \<le> 4611686018427387903"

text \<open>Values of the derived implementations that have an encoding, and their encodings.\<close>

definition count_ok :: "nat \<Rightarrow> bool" where
  "count_ok n \<longleftrightarrow> n < 2 ^ 62"

definition option_enc :: "('a \<Rightarrow> bytes) \<Rightarrow> 'a option \<Rightarrow> bytes" where
  "option_enc enc v = (case v of None \<Rightarrow> [0] | Some x \<Rightarrow> 1 # enc x)"

definition bytes_enc :: "bytes \<Rightarrow> bytes" where
  "bytes_enc bs = varint_bytes (word_of_nat (length bs)) @ bs"

definition vec_enc :: "('a \<Rightarrow> bytes) \<Rightarrow> 'a list \<Rightarrow> bytes" where
  "vec_enc enc xs = varint_bytes (word_of_nat (length xs)) @ concat (map enc xs)"

definition insert_entry :: "('k \<rightharpoonup> 'v) \<Rightarrow> 'k \<times> 'v \<Rightarrow> ('k \<rightharpoonup> 'v)" where
  "insert_entry m e = m(fst e \<mapsto> snd e)"

section \<open>Bytes, tags and variable-length integers\<close>

lemma nat_or_tag: "n < 2 ^ k \<Longrightarrow> n OR (m * 2 ^ k) = n + m * 2 ^ k" for n m :: nat
proof -
  assume n: "n < 2 ^ k"
  have "\<not> bit n j \<or> \<not> bit (push_bit k m) j" for j
  proof (cases "j < k")
    case True
    then show ?thesis by (simp add: bit_push_bit_iff)
  next
    case False
    then have "(2::nat) ^ k \<le> 2 ^ j" by (simp add: power_increasing)
    with n have "n < 2 ^ j" by linarith
    then have "n div 2 ^ j = 0" by simp
    then show ?thesis by (simp add: bit_iff_odd)
  qed
  then have "n + push_bit k m = n OR push_bit k m"
    by (rule disjunctive_add)
  then show ?thesis by (simp add: push_bit_eq_mult)
qed

lemma unat_or_tag_16: "v \<le> 16383 \<Longrightarrow> unat ((ucast v :: u16) OR 0x4000) = unat v + 16384" for v :: u64
proof -
  assume v: "v \<le> 16383"
  then have n: "unat v < 2 ^ 14" by (simp add: word_le_nat_alt)
  then have "unat (ucast v :: u16) = unat v" by (simp add: unsigned_ucast_eq take_bit_nat_eq_self)
  moreover have "unat (0x4000 :: u16) = 1 * 2 ^ 14" by simp
  ultimately show ?thesis
    using nat_or_tag [OF n, of 1] by (simp add: unsigned_or_eq)
qed
lemma unat_or_tag_32: "v \<le> 1073741823 \<Longrightarrow> unat ((ucast v :: u32) OR 0x80000000) = unat v + 0x80000000" for v :: u64
proof -
  assume v: "v \<le> 1073741823"
  then have n: "unat v < 2 ^ 30" by (simp add: word_le_nat_alt)
  then have "unat (ucast v :: u32) = unat v" by (simp add: unsigned_ucast_eq take_bit_nat_eq_self)
  moreover have "unat (0x80000000 :: u32) = 2 * 2 ^ 30" by simp
  ultimately show ?thesis
    using nat_or_tag [OF n, of 2] by (simp add: unsigned_or_eq)
qed
lemma unat_or_tag_64: "v \<le> 4611686018427387903 \<Longrightarrow> unat (v OR 0xc000000000000000) = unat v + 0xc000000000000000" for v :: u64
proof -
  assume v: "v \<le> 4611686018427387903"
  then have n: "unat v < 2 ^ 62" by (simp add: word_le_nat_alt)
  moreover have "unat (0xc000000000000000 :: u64) = 3 * 2 ^ 62" by simp
  ultimately show ?thesis
    using nat_or_tag [OF n, of 3] by (simp add: unsigned_or_eq)
qed

lemma unat_and_mask: "unat (w AND mask k) = unat w mod 2 ^ k" for w :: "'a::len word"
  by (simp only: take_bit_eq_mask [symmetric] unsigned_take_bit_eq) (simp add: take_bit_eq_mod)

lemma unat_drop_bit_6: "unat (drop_bit 6 b) = unat b div 64" for b :: u8
  by (simp only: unat_drop_bit_eq) (simp add: drop_bit_eq_div)

lemma varint_parse_len_nat:
  "varint_parse_len b = Some (if unat b < 64 then 1 else if unat b < 128 then 2
     else if unat b < 192 then 4 else 8)"
proof -
  have "unat b < 256" using unsigned_less [of b, where ?'a = nat] by simp
  then have "unat b div 64 = 0 \<or> unat b div 64 = 1 \<or> unat b div 64 = 2 \<or> unat b div 64 = 3" by arith
  then show ?thesis
    by (auto simp: varint_parse_len_def Let_def word_unat_eq_iff unat_drop_bit_6)
qed

lemma skip_skip [simp]: "skip m (skip n r) = skip (n + m) r"
  by (simp add: skip_def algebra_simps)

lemma remaining_slice_skip [simp]: "remaining_slice (skip n r) = drop n (remaining_slice r)"
  by (simp add: remaining_slice_def skip_def add.commute)

lemma remaining_eq_length: "remaining r = length (remaining_slice r)"
  by (simp add: remaining_def remaining_slice_def reader_len_def)

lemma wf_reader_skip: "wf_reader r \<Longrightarrow> n \<le> length (remaining_slice r) \<Longrightarrow> wf_reader (skip n r)"
  by (auto simp: wf_reader_def skip_def remaining_slice_def)

lemma read_exact_append:
  "remaining_slice r = bs @ rest \<Longrightarrow> n = length bs \<Longrightarrow> read_exact n r = Inr (bs, skip n r)"
  by (simp add: read_exact_def remaining_eq_length skip_def)

lemma read_u8_append:
  "remaining_slice r = b # rest \<Longrightarrow> read_u8 r = Inr (b, skip 1 r)"
  using read_exact_append [of r "[b]" rest 1] by (simp add: read_u8_def be_nat_Cons)

lemma word_of_be_nat: "LENGTH('a) \<le> 8 * k \<Longrightarrow> word_of_nat (be_nat (be_bytes k (unat n))) = n"
  for n :: "'a::len word"
proof -
  assume k: "LENGTH('a) \<le> 8 * k"
  have "unat n < 2 ^ LENGTH('a)"
    by (rule unsigned_less)
  also have "\<dots> \<le> 2 ^ (8 * k)"
    using k by (intro power_increasing) auto
  also have "\<dots> = 256 ^ k"
    by (simp add: power_mult)
  finally show ?thesis
    by (simp add: be_nat_be_bytes)
qed

lemma read_u16_append:
  "remaining_slice r = be_bytes 2 (unat n) @ rest \<Longrightarrow> read_u16 r = Inr (n, skip 2 r)"
  by (simp add: read_u16_def read_exact_append word_of_be_nat)

lemma read_u32_append:
  "remaining_slice r = be_bytes 4 (unat n) @ rest \<Longrightarrow> read_u32 r = Inr (n, skip 4 r)"
  by (simp add: read_u32_def read_exact_append word_of_be_nat)

lemma read_u64_append:
  "remaining_slice r = be_bytes 8 (unat n) @ rest \<Longrightarrow> read_u64 r = Inr (n, skip 8 r)"
  by (simp add: read_u64_def read_exact_append word_of_be_nat)

lemmas write_defs = write_u8_def write_u16_def write_u32_def write_u64_def write_all_def

lemma split_len_append:
  "wf_reader r \<Longrightarrow> remaining_slice r = bs @ rest \<Longrightarrow> split_len (length bs) r = Inr (bs, skip (length bs) r)"
proof -
  assume wf: "wf_reader r" and r: "remaining_slice r = bs @ rest"
  from r have "length (rd_buf r) - rd_pos r = length bs + length rest"
    by (metis length_append length_drop remaining_slice_def)
  with wf have "rd_pos r + length bs \<le> length (rd_buf r)" and "length (rd_buf r) \<le> usize_max"
    by (auto simp: wf_reader_def)
  then show ?thesis
    using r by (simp add: split_len_def checked_add_def reader_len_def remaining_slice_def skip_def)
qed

lemma varint_len_eq: "varint_ok v \<Longrightarrow> varint_len v = Some (length (varint_bytes v))"
  by (simp add: varint_len_def varint_bytes_def)

lemma write_varint_eq: "varint_ok v \<Longrightarrow> write_varint v buf = Inr (buf @ varint_bytes v)"
  by (simp add: write_varint_def varint_len_def varint_bytes_def write_all_def write_u8_def
      write_u16_def write_u32_def write_u64_def unat_or_tag_16 unat_or_tag_32 unat_or_tag_64)


lemma be_bytes_head:
  assumes "be_bytes (Suc k) n = b # bs"
  shows "unat b = n div 256 ^ k mod 256" and "length bs = k" and "be_nat (b # bs) = n mod 256 ^ Suc k"
proof -
  show "unat b = n div 256 ^ k mod 256"
    using assms by (auto simp: be_bytes_Suc unat_of_nat)
  show "length bs = k"
    using assms by (auto simp: be_bytes_Suc)
  show "be_nat (b # bs) = n mod 256 ^ Suc k"
    using assms be_nat_be_bytes [of "Suc k" n] by simp
qed

text \<open>A tagged string of \<open>Suc k\<close> bytes starts with the tag in its two top bits.\<close>

lemma tagged_bytes:
  assumes "be_bytes (Suc k) (n + t * 64 * 256 ^ k) = b # bs" and "n < 64 * 256 ^ k" and "t < 4"
  shows "unat b div 64 = t" and "length bs = k" and "be_nat (b # bs) = n + t * 64 * 256 ^ k"
proof -
  have lt: "n + t * 64 * 256 ^ k < 256 * 256 ^ k"
  proof -
    from assms(3) have "t * 64 \<le> 192" by simp
    then have "t * 64 * 256 ^ k \<le> 192 * 256 ^ k" by (rule mult_le_mono1)
    with assms(2) show ?thesis by linarith
  qed
  then have "(n + t * 64 * 256 ^ k) div 256 ^ k < 256"
    by (rule less_mult_imp_div_less)
  then have "unat b = (n + t * 64 * 256 ^ k) div 256 ^ k"
    using be_bytes_head(1) [OF assms(1)] by simp
  also have "\<dots> = n div 256 ^ k + t * 64" by simp
  finally have "unat b = n div 256 ^ k + t * 64" .
  moreover have "n div 256 ^ k < 64"
    using assms(2) by (simp add: less_mult_imp_div_less)
  ultimately show "unat b div 64 = t" by simp
  show "length bs = k"
    by (rule be_bytes_head(2) [OF assms(1)])
  show "be_nat (b # bs) = n + t * 64 * 256 ^ k"
    using be_bytes_head(3) [OF assms(1)] lt by simp
qed

lemma varint_parse_len_div:
  "unat b div 64 = 1 \<Longrightarrow> varint_parse_len b = Some 2"
  "unat b div 64 = 2 \<Longrightarrow> varint_parse_len b = Some 4"
  "unat b div 64 = 3 \<Longrightarrow> varint_parse_len b = Some 8"
  by (auto simp: varint_parse_len_nat)

lemma unat_untag:
  shows "unat ((word_of_nat n :: u16) AND 0x3fff) = n mod 2 ^ 14"
    and "unat ((word_of_nat n :: u32) AND 0x3fffffff) = n mod 2 ^ 30"
    and "unat ((word_of_nat n :: u64) AND 0x3fffffffffffffff) = n mod 2 ^ 62"
proof -
  have m: "(0x3fff :: u16) = mask 14" "(0x3fffffff :: u32) = mask 30"
      "(0x3fffffffffffffff :: u64) = mask 62"
    by (simp_all add: mask_eq_exp_minus_1)
  show "unat ((word_of_nat n :: u16) AND 0x3fff) = n mod 2 ^ 14"
    unfolding m by (simp only: unat_and_mask unat_of_nat) (simp add: mod_mod_cancel)
  show "unat ((word_of_nat n :: u32) AND 0x3fffffff) = n mod 2 ^ 30"
    unfolding m by (simp only: unat_and_mask unat_of_nat) (simp add: mod_mod_cancel)
  show "unat ((word_of_nat n :: u64) AND 0x3fffffffffffffff) = n mod 2 ^ 62"
    unfolding m by (simp only: unat_and_mask unat_of_nat) (simp add: mod_mod_cancel)
qed

lemma ucast_eq_unat: "unat w = unat v \<Longrightarrow> (ucast w :: 'b::len word) = v"
  by (metis of_nat_unat ucast_id)

lemma mod_untag: "n < d \<Longrightarrow> (n + t * d) mod d = n" for n t d :: nat
  by simp

lemma word_of_nat_untag:
  fixes v :: u64
  shows "unat v < 2 ^ 14 \<Longrightarrow> ucast ((word_of_nat (unat v + 1 * 64 * 256 ^ 1) :: u16) AND 0x3fff) = v"
    and "unat v < 2 ^ 30 \<Longrightarrow> ucast ((word_of_nat (unat v + 2 * 64 * 256 ^ 3) :: u32) AND 0x3fffffff) = v"
    and "unat v < 2 ^ 62 \<Longrightarrow> (word_of_nat (unat v + 3 * 64 * 256 ^ 7) :: u64) AND 0x3fffffffffffffff = v"
proof -
  have e: "1 * 64 * 256 ^ 1 = 1 * (2 ^ 14 :: nat)" "2 * 64 * 256 ^ 3 = 2 * (2 ^ 30 :: nat)"
      "3 * 64 * 256 ^ 7 = 3 * (2 ^ 62 :: nat)"
    by simp_all
  show "unat v < 2 ^ 14 \<Longrightarrow> ucast ((word_of_nat (unat v + 1 * 64 * 256 ^ 1) :: u16) AND 0x3fff) = v"
    by (rule ucast_eq_unat) (simp only: e unat_untag mod_untag)
  show "unat v < 2 ^ 30 \<Longrightarrow> ucast ((word_of_nat (unat v + 2 * 64 * 256 ^ 3) :: u32) AND 0x3fffffff) = v"
    by (rule ucast_eq_unat) (simp only: e unat_untag mod_untag)
  show "unat v < 2 ^ 62 \<Longrightarrow> (word_of_nat (unat v + 3 * 64 * 256 ^ 7) :: u64) AND 0x3fffffffffffffff = v"
    by (rule word_unat_eq_iff [THEN iffD2]) (simp only: e unat_untag mod_untag)
qed

lemma read_varint_tagged:
  assumes "remaining_slice r = be_bytes K (unat v + T) @ rest" and "K = Suc k" and "T = t * 64 * 256 ^ k"
    and "unat v < 64 * 256 ^ k" and "(t, k) \<in> {(1, 1), (2, 3), (3, 7)}"
  shows "read_varint r = Inr (v, skip K r)"
proof -
  obtain b bs where eq: "be_bytes (Suc k) (unat v + t * 64 * 256 ^ k) = b # bs"
    by (cases "be_bytes (Suc k) (unat v + t * 64 * 256 ^ k)") (auto simp: be_bytes_Suc)
  from assms(5) have "t < 4" by auto
  note tag = tagged_bytes [OF eq assms(4) this]
  have r: "remaining_slice r = b # bs @ rest"
    using assms(1,2,3) eq by simp
  have first: "read_u8 r = Inr (b, skip 1 r)"
    by (rule read_u8_append [OF r])
  have rest: "read_exact k (skip 1 r) = Inr (bs, skip (Suc k) r)"
    using read_exact_append [of "skip 1 r" bs rest k] r tag(2) by simp
  from assms(5) consider "t = 1 \<and> k = 1" | "t = 2 \<and> k = 3" | "t = 3 \<and> k = 7" by auto
  then show ?thesis
  proof cases
    case 1
    with assms(2,4) first rest tag varint_parse_len_div(1) [of b] word_of_nat_untag(1) [of v]
    show ?thesis by (simp add: read_varint_def)
  next
    case 2
    with assms(2,4) first rest tag varint_parse_len_div(2) [of b] word_of_nat_untag(2) [of v]
    show ?thesis by (simp add: read_varint_def)
  next
    case 3
    with assms(2,4) first rest tag varint_parse_len_div(3) [of b] word_of_nat_untag(3) [of v]
    show ?thesis by (simp add: read_varint_def)
  qed
qed

lemma read_varint_append:
  assumes "remaining_slice r = varint_bytes v @ rest" and "varint_ok v"
  shows "read_varint r = Inr (v, skip (length (varint_bytes v)) r)"
proof -
  consider (a) "v \<le> 63" | (b) "\<not> v \<le> 63" "v \<le> 16383" 
    | (c) "\<not> v \<le> 63" "\<not> v \<le> 16383" "v \<le> 1073741823"
    | (d) "\<not> v \<le> 63" "\<not> v \<le> 16383" "\<not> v \<le> 1073741823" by blast
  then show ?thesis
  proof cases
    case a
    then have "unat v \<le> 63" by (simp add: word_le_nat_alt)
    then have u: "unat (ucast v :: u8) = unat v"
      by (simp add: unsigned_ucast_eq take_bit_nat_eq_self)
    with a assms have "read_u8 r = Inr (ucast v, skip 1 r)"
      by (simp add: varint_bytes_def read_u8_append)
    moreover have "varint_parse_len (ucast v) = Some 1"
      using u \<open>unat v \<le> 63\<close> by (simp add: varint_parse_len_nat)
    moreover have "ucast (ucast v :: u8) = v"
      using u by (simp add: word_unat_eq_iff unsigned_ucast_eq unsigned_take_bit_eq take_bit_nat_eq_self)
    ultimately show ?thesis
      using a by (simp add: read_varint_def varint_bytes_def)
  next
    case b
    have "unat v < 64 * 256 ^ 1"
      using b(2) by (simp add: word_le_nat_alt)
    moreover have "remaining_slice r = be_bytes 2 (unat v + 0x4000) @ rest"
      using b assms(1) by (simp add: varint_bytes_def)
    ultimately have "read_varint r = Inr (v, skip 2 r)"
      by (intro read_varint_tagged [where T = "0x4000" and k = 1 and t = 1]) auto
    with b show ?thesis by (simp add: varint_bytes_def)
  next
    case c
    have "unat v < 64 * 256 ^ 3"
      using c(3) by (simp add: word_le_nat_alt)
    moreover have "remaining_slice r = be_bytes 4 (unat v + 0x80000000) @ rest"
      using c assms(1) by (simp add: varint_bytes_def)
    ultimately have "read_varint r = Inr (v, skip 4 r)"
      by (intro read_varint_tagged [where T = "0x80000000" and k = 3 and t = 2]) auto
    with c show ?thesis by (simp add: varint_bytes_def)
  next
    case d
    have "unat v < 64 * 256 ^ 7"
      using assms(2) by (simp add: word_le_nat_alt)
    moreover have "remaining_slice r = be_bytes 8 (unat v + 0xc000000000000000) @ rest"
      using d assms(1) by (simp add: varint_bytes_def)
    ultimately have "read_varint r = Inr (v, skip 8 r)"
      by (intro read_varint_tagged [where T = "0xc000000000000000" and k = 7 and t = 3]) auto
    with d show ?thesis by (simp add: varint_bytes_def)
  qed
qed

section \<open>The ToBytes contract and its implementations\<close>

text \<open>
  The \<open>ToBytes\<close> trait: the three operations of an implementation, with the byte string
  \<open>enc x\<close> a value is meant to have on the wire and the values \<open>ok\<close> that have one.
\<close>

locale codec =
  fixes blen :: "'a \<Rightarrow> nat option"
    and put :: "'a \<Rightarrow> bytes \<Rightarrow> bytes serde_result"
    and get :: "reader \<Rightarrow> ('a \<times> reader) serde_result"
    and enc :: "'a \<Rightarrow> bytes"
    and ok :: "'a \<Rightarrow> bool"
  assumes blen_ok: "ok x \<Longrightarrow> blen x = Some (length (enc x))"
    and put_ok: "ok x \<Longrightarrow> put x buf = Inr (buf @ enc x)"
    and get_ok: "ok x \<Longrightarrow> wf_reader r \<Longrightarrow> remaining_slice r = enc x @ rest \<Longrightarrow>
      get r = Inr (x, skip (length (enc x)) r)"
begin

text \<open>Reading a field in the middle of a record, after the fields encoded by \<open>pre\<close>.\<close>

lemma get_at:
  assumes "ok x" and "wf_reader r" and "remaining_slice r = pre @ enc x @ rest"
  shows "get (skip (length pre) r) = Inr (x, skip (length pre + length (enc x)) r)"
  using get_ok [OF assms(1) wf_reader_skip [OF assms(2)], of "length pre" rest] assms(3) by simp

lemma put_length: "ok x \<Longrightarrow> put x buf = Inr out \<Longrightarrow> blen x = Some (length out - length buf)"
  by (auto simp: blen_ok put_ok)

lemma decode_encoded:
  assumes "ok x" and "length (enc x) \<le> usize_max" and "put x [] = Inr out"
  shows "get (reader_from out) = Inr (x, skip (length out) (reader_from out))"
proof -
  have "out = enc x"
    using assms put_ok [of x "[]"] by simp
  then show ?thesis
    using get_ok [OF assms(1), of "reader_from out" "[]"] assms(2)
    by (simp add: reader_from_def remaining_slice_def wf_reader_def)
qed

lemma enc_prefix_free:
  assumes "ok x" and "ok y" and "enc x @ a = enc y @ b" and "length (enc x @ a) \<le> usize_max"
  shows "x = y \<and> a = b"
proof -
  let ?r = "reader_from (enc x @ a)"
  have wf: "wf_reader ?r" and rs: "remaining_slice ?r = enc x @ a"
    using assms(4) by (simp_all add: reader_from_def remaining_slice_def wf_reader_def)
  have "get ?r = Inr (x, skip (length (enc x)) ?r)"
    by (rule get_ok [OF assms(1) wf rs])
  moreover have "get ?r = Inr (y, skip (length (enc y)) ?r)"
    by (rule get_ok [OF assms(2) wf, of b]) (use rs assms(3) in simp)
  ultimately have "x = y" by simp
  with assms(3) show ?thesis by simp
qed

lemma sum_bytes_len_ok:
  "list_all ok xs \<Longrightarrow> sum_bytes_len blen xs = Some (length (concat (map enc xs)))"
  by (induction xs) (auto simp: blen_ok)

lemma try_for_each_ok:
  "list_all ok xs \<Longrightarrow> try_for_each_to_bytes put xs buf = Inr (buf @ concat (map enc xs))"
  by (induction xs arbitrary: buf) (auto simp: put_ok)

lemma read_n_ok:
  "list_all ok xs \<Longrightarrow> wf_reader r \<Longrightarrow> remaining_slice r = concat (map enc xs) @ rest \<Longrightarrow>
   read_n get (length xs) r = Inr (xs, skip (length (concat (map enc xs))) r)"
proof (induction xs arbitrary: r)
  case Nil
  then show ?case by (simp add: skip_def)
next
  case (Cons x xs)
  have 1: "get r = Inr (x, skip (length (enc x)) r)"
    using Cons.prems by (intro get_ok [where rest = "concat (map enc xs) @ rest"]) auto
  have 2: "wf_reader (skip (length (enc x)) r)"
    using Cons.prems by (intro wf_reader_skip) auto
  have 3: "read_n get (length xs) (skip (length (enc x)) r) =
      Inr (xs, skip (length (concat (map enc xs))) (skip (length (enc x)) r))"
    using Cons.prems 2 by (intro Cons.IH) auto
  show ?case using 1 3 by simp
qed

end

lemma count_ok_varint: "count_ok n \<Longrightarrow> varint_ok (word_of_nat n) \<and> unat (word_of_nat n :: u64) = n"
  by (simp add: count_ok_def word_le_nat_alt unat_of_nat)

interpretation u8_codec: codec u8_bytes_len u8_to_bytes u8_from_bytes "\<lambda>b. [b]" "\<lambda>_. True"
  by unfold_locales
    (simp_all add: u8_bytes_len_def u8_to_bytes_def u8_from_bytes_def write_u8_def write_all_def
      read_u8_append)

interpretation varint_codec: codec varint_len write_varint read_varint varint_bytes varint_ok
  by unfold_locales (simp_all add: varint_len_eq write_varint_eq read_varint_append)

lemma ucast_u16_ok: "varint_ok (ucast n) \<and> (ucast (ucast n :: u64) :: u16) = n" for n :: u16
proof -
  have "unat n < 2 ^ 16"
    using unsigned_less [of n, where ?'a = nat] by simp
  then have "unat (ucast n :: u64) = unat n"
    by (simp add: unsigned_ucast_eq take_bit_nat_eq_self)
  with \<open>unat n < 2 ^ 16\<close> show ?thesis
    by (simp add: word_le_nat_alt ucast_eq_unat)
qed

interpretation u16_codec: codec u16_bytes_len u16_to_bytes u16_from_bytes "\<lambda>n. varint_bytes (ucast n)" "\<lambda>_. True"
proof unfold_locales
  fix x :: u16 and r rest
  assume "wf_reader r" and "remaining_slice r = varint_bytes (ucast x) @ rest"
  then show "u16_from_bytes r = Inr (x, skip (length (varint_bytes (ucast x))) r)"
    using ucast_u16_ok [of x] by (simp add: u16_from_bytes_def read_varint_append)
qed (use ucast_u16_ok in \<open>simp_all add: u16_bytes_len_def u16_to_bytes_def varint_len_eq write_varint_eq\<close>)

interpretation bytes_codec: codec bytes_bytes_len bytes_to_bytes bytes_from_bytes bytes_enc
  "\<lambda>bs. count_ok (length bs)"
proof unfold_locales
  fix x r rest
  assume ok: "count_ok (length x)" and wf: "wf_reader r" and rs: "remaining_slice r = bytes_enc x @ rest"
  let ?v = "varint_bytes (word_of_nat (length x))"
  have 1: "read_varint r = Inr (word_of_nat (length x), skip (length ?v) r)"
    using rs count_ok_varint [OF ok] by (intro read_varint_append [where rest = "x @ rest"]) (auto simp: bytes_enc_def)
  have 2: "split_len (length x) (skip (length ?v) r) = Inr (x, skip (length x) (skip (length ?v) r))"
    using wf rs by (intro split_len_append [where rest = rest] wf_reader_skip) (auto simp: bytes_enc_def)
  show "bytes_from_bytes r = Inr (x, skip (length (bytes_enc x)) r)"
    using 1 2 count_ok_varint [OF ok] by (simp add: bytes_from_bytes_def bytes_enc_def)
qed (auto dest: count_ok_varint
      simp: bytes_bytes_len_def bytes_to_bytes_def bytes_enc_def varint_len_eq write_varint_eq write_all_def)

lemma codec_option:
  assumes "codec blen put get enc ok"
  shows "codec (option_bytes_len blen) (option_to_bytes put) (option_from_bytes get) (option_enc enc)
    (\<lambda>v. case v of None \<Rightarrow> True | Some x \<Rightarrow> ok x)"
proof
  fix x buf
  assume "case x of None \<Rightarrow> True | Some x \<Rightarrow> ok x"
  then show "option_bytes_len blen x = Some (length (option_enc enc x))"
    and "option_to_bytes put x buf = Inr (buf @ option_enc enc x)"
    using assms by (auto simp: option_bytes_len_def option_to_bytes_def option_enc_def write_u8_def
        write_all_def codec.blen_ok codec.put_ok split: option.splits)
next
  fix x r rest
  assume *: "case x of None \<Rightarrow> True | Some x \<Rightarrow> ok x" "wf_reader r" "remaining_slice r = option_enc enc x @ rest"
  show "option_from_bytes get r = Inr (x, skip (length (option_enc enc x)) r)"
  proof (cases x)
    case None
    with * show ?thesis by (simp add: option_enc_def option_from_bytes_def read_u8_append)
  next
    case (Some y)
    have 1: "read_u8 r = Inr (1, skip 1 r)"
      using * Some by (intro read_u8_append [where rest = "enc y @ rest"]) (simp add: option_enc_def)
    have 2: "get (skip 1 r) = Inr (y, skip (length (enc y)) (skip 1 r))"
      using * Some by (intro codec.get_ok [OF assms] wf_reader_skip) (auto simp: option_enc_def)
    show ?thesis using 1 2 Some by (simp add: option_enc_def option_from_bytes_def)
  qed
qed

lemma codec_vec:
  assumes "codec blen put get enc ok"
  shows "codec (vec_bytes_len blen) (vec_to_bytes put) (vec_from_bytes get) (vec_enc enc)
    (\<lambda>xs. count_ok (length xs) \<and> list_all ok xs)"
proof
  fix xs buf
  assume "count_ok (length xs) \<and> list_all ok xs"
  then show "vec_bytes_len blen xs = Some (length (vec_enc enc xs))"
    and "vec_to_bytes put xs buf = Inr (buf @ vec_enc enc xs)"
    using codec.sum_bytes_len_ok [OF assms] codec.try_for_each_ok [OF assms]
    by (auto dest: count_ok_varint
        simp: vec_bytes_len_def vec_to_bytes_def vec_enc_def varint_len_eq write_varint_eq)
next
  fix xs r rest
  assume *: "count_ok (length xs) \<and> list_all ok xs" "wf_reader r" "remaining_slice r = vec_enc enc xs @ rest"
  let ?v = "varint_bytes (word_of_nat (length xs))"
  have 1: "read_varint r = Inr (word_of_nat (length xs), skip (length ?v) r)"
    using * count_ok_varint by (intro read_varint_append [where rest = "concat (map enc xs) @ rest"]) (auto simp: vec_enc_def)
  have 2: "read_n get (length xs) (skip (length ?v) r) =
      Inr (xs, skip (length (concat (map enc xs))) (skip (length ?v) r))"
    using * by (intro codec.read_n_ok [OF assms] wf_reader_skip) (auto simp: vec_enc_def)
  show "vec_from_bytes get r = Inr (xs, skip (length (vec_enc enc xs)) r)"
    using 1 2 * count_ok_varint [of "length xs"] by (simp add: vec_from_bytes_def vec_enc_def)
qed

lemma codec_pair:
  assumes a: "codec la pa ga ea oka" and b: "codec lb pb gb eb okb"
  shows "codec (pair_bytes_len la lb) (pair_to_bytes pa pb) (pair_from_bytes ga gb)
    (\<lambda>p. ea (fst p) @ eb (snd p)) (\<lambda>p. oka (fst p) \<and> okb (snd p))"
proof
  fix p buf
  assume "oka (fst p) \<and> okb (snd p)"
  then show "pair_bytes_len la lb p = Some (length (ea (fst p) @ eb (snd p)))"
    and "pair_to_bytes pa pb p buf = Inr (buf @ ea (fst p) @ eb (snd p))"
    using a b by (simp_all add: pair_bytes_len_def pair_to_bytes_def codec.blen_ok codec.put_ok)
next
  fix p r rest
  assume *: "oka (fst p) \<and> okb (snd p)" "wf_reader r" "remaining_slice r = (ea (fst p) @ eb (snd p)) @ rest"
  have 1: "ga r = Inr (fst p, skip (length (ea (fst p))) r)"
    using * by (intro codec.get_ok [OF a, where rest = "eb (snd p) @ rest"]) auto
  have 2: "gb (skip (length (ea (fst p))) r) =
      Inr (snd p, skip (length (eb (snd p))) (skip (length (ea (fst p))) r))"
    using * by (intro codec.get_ok [OF b] wf_reader_skip) auto
  show "pair_from_bytes ga gb r = Inr (p, skip (length (ea (fst p) @ eb (snd p))) r)"
    using 1 2 by (simp add: pair_from_bytes_def)
qed

text \<open>A hash map comes back whatever the order its entries were written in.\<close>

lemma insert_entry_Pair [simp]: "insert_entry m (k, v) = m(k \<mapsto> v)"
  by (simp add: insert_entry_def)

lemma read_entries_eq:
  "read_entries gk gv n res r =
     and_then (read_n (pair_from_bytes gk gv) n r) (\<lambda>(xs, r). Inr (foldl insert_entry res xs, r))"
proof (induction n arbitrary: res r)
  case 0
  then show ?case by simp
next
  case (Suc n)
  then show ?case
    by (auto simp: pair_from_bytes_def and_then_def split: sum.splits)
qed

lemma foldl_insert_entry:
  "distinct (map fst xs) \<Longrightarrow> foldl insert_entry res xs = res ++ map_of xs"
proof (induction xs arbitrary: res)
  case Nil
  then show ?case by simp
next
  case (Cons x xs)
  then have "map_of xs (fst x) = None"
    by (simp add: map_of_eq_None_iff)
  with Cons show ?case
    by (auto simp: insert_entry_def fun_eq_iff map_add_def split: option.splits)
qed

text \<open>
  A hash map written entry by entry in any iteration order is read back as the same map, with
  the cursor right behind it, and the entry count and every key and value are bounded only by what
  the variable-length integers can express.
\<close>

theorem hash_map_roundtrip:
  assumes k: "codec lk pk gk ek okk" and v: "codec lv pv gv ev okv"
    and "distinct (map fst entries)" and "count_ok (length entries)"
    and "\<forall>(a, b) \<in> set entries. okk a \<and> okv b"
  shows "\<exists>out. hash_map_to_bytes pk pv entries buf = Inr (buf @ out) \<and>
    hash_map_bytes_len lk lv entries = Some (length out) \<and>
    (\<forall>r rest. wf_reader r \<longrightarrow> remaining_slice r = out @ rest \<longrightarrow>
       hash_map_from_bytes gk gv r = Inr (map_of entries, skip (length out) r))"
proof -
  note p = codec_vec [OF codec_pair [OF k v]]
  let ?out = "vec_enc (\<lambda>p. ek (fst p) @ ev (snd p)) entries"
  have ok: "count_ok (length entries) \<and> list_all (\<lambda>p. okk (fst p) \<and> okv (snd p)) entries"
    using assms(4,5) by (auto simp: list_all_iff)
  have "hash_map_to_bytes pk pv entries buf = Inr (buf @ ?out)"
    using codec.put_ok [OF p ok, of buf] by (simp add: hash_map_to_bytes_def vec_to_bytes_def)
  moreover have "hash_map_bytes_len lk lv entries = Some (length ?out)"
    using codec.blen_ok [OF p ok] by (simp add: hash_map_bytes_len_def vec_bytes_len_def)
  moreover have "hash_map_from_bytes gk gv r = Inr (map_of entries, skip (length ?out) r)"
    if "wf_reader r" "remaining_slice r = ?out @ rest" for r rest
  proof -
    have "vec_from_bytes (pair_from_bytes gk gv) r = Inr (entries, skip (length ?out) r)"
      using codec.get_ok [OF p ok that] .
    then have "hash_map_from_bytes gk gv r = Inr (foldl insert_entry Map.empty entries, skip (length ?out) r)"
      by (auto simp: hash_map_from_bytes_def vec_from_bytes_def read_entries_eq and_then_def
          split: sum.splits prod.splits)
    then show ?thesis
      using assms(3) by (simp add: foldl_insert_entry)
  qed
  ultimately show ?thesis by blast
qed

theorem hash_map_roundtrip_witness:
  "hash_map_from_bytes u8_from_bytes u8_from_bytes (reader_from [2, 3, 4, 1, 2, 9]) =
     Inr (map_of [(3, 4), (1, 2)], skip 5 (reader_from [2, 3, 4, 1, 2, 9]))"
proof -
  have out: "hash_map_to_bytes u8_to_bytes u8_to_bytes [(3, 4), (1, 2)] [] = Inr [2, 3, 4, 1, 2]"
    by (simp add: hash_map_to_bytes_def write_varint_def varint_len_def pair_to_bytes_def
        u8_to_bytes_def write_u8_def write_all_def)
  have r: "wf_reader (reader_from [2, 3, 4, 1, 2, 9])"
    "remaining_slice (reader_from [2, 3, 4, 1, 2, 9]) = [2, 3, 4, 1, 2] @ [9]"
    by (simp_all add: wf_reader_def usize_max_def reader_from_def remaining_slice_def)
  have "\<exists>o'. hash_map_to_bytes u8_to_bytes u8_to_bytes [(3, 4), (1, 2)] [] = Inr ([] @ o') \<and>
    hash_map_bytes_len u8_bytes_len u8_bytes_len [(3, 4), (1, 2)] = Some (length o') \<and>
    (\<forall>r rest. wf_reader r \<longrightarrow> remaining_slice r = o' @ rest \<longrightarrow>
       hash_map_from_bytes u8_from_bytes u8_from_bytes r =
         Inr (map_of [(3, 4), (1, 2)], skip (length o') r))"
    by (rule hash_map_roundtrip [OF u8_codec.codec_axioms u8_codec.codec_axioms])
      (simp_all add: count_ok_def)
  then have "\<forall>r rest. wf_reader r \<longrightarrow> remaining_slice r = [2, 3, 4, 1, 2] @ rest \<longrightarrow>
       hash_map_from_bytes u8_from_bytes u8_from_bytes r =
         Inr (map_of [(3, 4), (1, 2)], skip (length [2, 3, 4, 1, 2 :: u8]) r)"
    unfolding out by (auto simp del: map_of.simps)
  from this [rule_format, OF r] show ?thesis by (simp add: eval_nat_numeral)
qed

end
