(* ===== verification/Wrapping_Id.thy ===== *)
theory Wrapping_Id
  imports Serde
begin

text \<open>
  Wrapping 16-bit identifiers (\<open>crates/core/utils/src/wrapping_id.rs\<close>), the type behind packet
  and message identifiers, and the fixed-size \<open>SequenceBuffer\<close> indexed by them. The lemmas
  compare wrapped identifiers with the unbounded counters they come from.
\<close>

section \<open>Wrapping identifiers\<close>

type_synonym wrapping_id = u16

datatype ordering = Less | Equal | Greater

definition wrapping_diff :: "u16 \<Rightarrow> u16 \<Rightarrow> int" where
  "wrapping_diff a b = sint (b - a)"

definition wid_partial_cmp :: "wrapping_id \<Rightarrow> wrapping_id \<Rightarrow> ordering option" where
  "wid_partial_cmp a b =
     (let x = wrapping_diff a b in
      Some (if x = 0 then Equal else if x > 0 then Less else Greater))"

definition wid_sub :: "wrapping_id \<Rightarrow> wrapping_id \<Rightarrow> int" where
  "wid_sub a b = sint (a - b)"

definition wid_sub_u16 :: "wrapping_id \<Rightarrow> u16 \<Rightarrow> wrapping_id" where
  "wid_sub_u16 a n = a - n"

definition wid_add :: "wrapping_id \<Rightarrow> wrapping_id \<Rightarrow> wrapping_id" where
  "wid_add a b = a + b"

definition wid_add_assign :: "wrapping_id \<Rightarrow> u16 \<Rightarrow> wrapping_id" where
  "wid_add_assign a n = a + n"

definition wid_add_i16 :: "wrapping_id \<Rightarrow> int \<Rightarrow> wrapping_id" where
  "wid_add_i16 a n = a + word_of_int n"

definition wid_rem :: "wrapping_id \<Rightarrow> nat \<Rightarrow> nat" where
  "wid_rem a n = unat a mod n"

text \<open>The operators \<open><\<close> and \<open>>\<close> that Rust derives from \<open>partial_cmp\<close>.\<close>

definition wid_lt :: "wrapping_id \<Rightarrow> wrapping_id \<Rightarrow> bool" where
  "wid_lt a b \<longleftrightarrow> wid_partial_cmp a b = Some Less"

definition wid_gt :: "wrapping_id \<Rightarrow> wrapping_id \<Rightarrow> bool" where
  "wid_gt a b \<longleftrightarrow> wid_partial_cmp a b = Some Greater"

definition wid_bytes_len :: "wrapping_id \<Rightarrow> nat option" where
  "wid_bytes_len n = Some 2"

definition wid_to_bytes :: "wrapping_id \<Rightarrow> bytes \<Rightarrow> bytes serde_result" where
  "wid_to_bytes n buf = write_u16 n buf"

definition wid_from_bytes :: "reader \<Rightarrow> (wrapping_id \<times> reader) serde_result" where
  "wid_from_bytes r = read_u16 r"

section \<open>The sequence buffer\<close>

text \<open>The array of \<open>N\<close> slots is a list; its length is the const generic \<open>N\<close>.\<close>

type_synonym 't sequence_buffer = "'t option list"

definition sb_new :: "nat \<Rightarrow> 't sequence_buffer" where
  "sb_new n = replicate n None"

definition sb_index :: "'t sequence_buffer \<Rightarrow> wrapping_id \<Rightarrow> nat" where
  "sb_index b key = wid_rem key (length b)"

definition sb_push :: "wrapping_id \<Rightarrow> 't \<Rightarrow> 't sequence_buffer \<Rightarrow> 't sequence_buffer" where
  "sb_push key value b = b[sb_index b key := Some value]"

definition sb_get :: "wrapping_id \<Rightarrow> 't sequence_buffer \<Rightarrow> 't option" where
  "sb_get key b = b ! sb_index b key"

definition sb_remove :: "wrapping_id \<Rightarrow> 't sequence_buffer \<Rightarrow> 't option \<times> 't sequence_buffer" where
  "sb_remove key b = (b ! sb_index b key, b[sb_index b key := None])"

definition sb_clear :: "'t sequence_buffer \<Rightarrow> 't sequence_buffer" where
  "sb_clear b = map (\<lambda>_. None) b"

section \<open>Identifiers as wrapped counters\<close>

text \<open>The identifier of the \<open>n\<close>-th element of a stream.\<close>

abbreviation wid_of :: "nat \<Rightarrow> wrapping_id" where
  "wid_of n \<equiv> word_of_nat n"

lemma wid_sub_of:
  assumes "\<bar>int m - int n\<bar> < 2 ^ 15"
  shows "wid_sub (wid_of m) (wid_of n) = int m - int n"
  using assms sint_diff_16 [of "int m" "int n"] by (simp add: wid_sub_def)

lemma wrapping_diff_wid_sub: "wrapping_diff a b = wid_sub b a"
  by (simp add: wrapping_diff_def wid_sub_def)

lemma wid_lt_of:
  "\<bar>int m - int n\<bar> < 2 ^ 15 \<Longrightarrow> wid_lt (wid_of m) (wid_of n) \<longleftrightarrow> m < n"
  by (auto simp: wid_lt_def wid_partial_cmp_def Let_def wrapping_diff_wid_sub wid_sub_of)

lemma wid_gt_of:
  "\<bar>int m - int n\<bar> < 2 ^ 15 \<Longrightarrow> wid_gt (wid_of m) (wid_of n) \<longleftrightarrow> n < m"
  by (auto simp: wid_gt_def wid_partial_cmp_def Let_def wrapping_diff_wid_sub wid_sub_of)

lemma wid_of_eq_iff:
  assumes "\<bar>int m - int n\<bar> < 2 ^ 15"
  shows "wid_of m = wid_of n \<longleftrightarrow> m = n"
  using wid_sub_of [OF assms] by (auto simp: wid_sub_def)

lemma wid_add_assign_of [simp]: "wid_add_assign (wid_of n) 1 = wid_of (Suc n)"
  by (simp add: wid_add_assign_def)

lemma wid_eq_iff_wid_sub: "wid_sub a b = 0 \<longleftrightarrow> a = b"
  by (simp add: wid_sub_def)

text \<open>Every identifier near a counter value is the wrapped form of a nearby counter.\<close>

lemma wid_near:
  assumes "- int n \<le> wid_sub a (wid_of n)"
  shows "a = wid_of (nat (int n + wid_sub a (wid_of n)))"
proof -
  have "a = wid_of n + word_of_int (wid_sub a (wid_of n))"
    by (simp add: wid_sub_def)
  also have "\<dots> = word_of_int (int n + wid_sub a (wid_of n))"
    by simp
  also have "\<dots> = wid_of (nat (int n + wid_sub a (wid_of n)))"
    using assms by (simp add: word_of_int_nat)
  finally show ?thesis .
qed

lemma wid_sub_bounds: "- (2 ^ 15) \<le> wid_sub a b \<and> wid_sub a b < 2 ^ 15"
  using sint_range_size [of "a - b"] by (simp add: wid_sub_def word_size)

text \<open>
  C10: identifiers compare as the counters they were wrapped from, across the rollover of the
  16-bit range, whenever the counters are less than half of the range apart; the difference and
  the increment also agree with the counters.
\<close>

theorem wrapping_order_matches_counters:
  assumes "\<bar>int m - int n\<bar> < 2 ^ 15"
  shows "wid_partial_cmp (wid_of m) (wid_of n) =
      Some (if m = n then Equal else if m < n then Less else Greater) \<and>
    wid_sub (wid_of m) (wid_of n) = int m - int n \<and>
    wid_add_i16 (wid_of n) (int m - int n) = wid_of m"
proof (intro conjI)
  show sub: "wid_sub (wid_of m) (wid_of n) = int m - int n"
    by (rule wid_sub_of [OF assms])
  have "\<bar>int n - int m\<bar> < 2 ^ 15" using assms by linarith
  then show "wid_partial_cmp (wid_of m) (wid_of n) =
      Some (if m = n then Equal else if m < n then Less else Greater)"
    by (auto simp: wid_partial_cmp_def Let_def wrapping_diff_wid_sub wid_sub_of)
  show "wid_add_i16 (wid_of n) (int m - int n) = wid_of m"
    by (simp add: wid_add_i16_def)
qed

theorem wrapping_order_matches_counters_witness:
  "wid_partial_cmp (wid_of 65535) (wid_of 65536) = Some Less"
  using wrapping_order_matches_counters [of 65535 65536] by simp

interpretation wid_codec: codec wid_bytes_len wid_to_bytes wid_from_bytes
  "\<lambda>n. be_bytes 2 (unat n)" "\<lambda>_. True"
proof unfold_locales
  fix x :: wrapping_id and r rest
  assume "wf_reader r" and "remaining_slice r = be_bytes 2 (unat x) @ rest"
  then show "wid_from_bytes r = Inr (x, skip (length (be_bytes 2 (unat x))) r)"
    by (simp add: wid_from_bytes_def read_u16_append)
qed (simp_all add: wid_bytes_len_def wid_to_bytes_def write_defs)

section \<open>The sequence buffer as a bounded map\<close>

text \<open>
  A lookup in the sequence buffer after a push returns the pushed value for every key of the
  same residue class and is unchanged for every other key; removing takes the value out and
  empties the slot; clearing empties every slot.
\<close>

theorem sequence_buffer_lookup:
  assumes "0 < length b"
  shows "sb_get k' (sb_push k v b) =
      (if wid_rem k' (length b) = wid_rem k (length b) then Some v else sb_get k' b) \<and>
    fst (sb_remove k (sb_push k v b)) = Some v \<and>
    sb_get k' (snd (sb_remove k b)) =
      (if wid_rem k' (length b) = wid_rem k (length b) then None else sb_get k' b) \<and>
    sb_get k' (sb_clear b) = None"
proof -
  have "wid_rem k n < n" if "0 < n" for k n
    using that by (simp add: wid_rem_def)
  with assms show ?thesis
    by (simp add: sb_get_def sb_push_def sb_remove_def sb_clear_def sb_index_def nth_list_update)
qed

theorem sequence_buffer_lookup_witness:
  "sb_get 33 (sb_push 1 (7 :: nat) (sb_new 32)) = Some 7"
  using sequence_buffer_lookup [of "sb_new 32" 33 1 "7 :: nat"]
  by (simp add: sb_new_def wid_rem_def)

end
