(* ===== verification/Tick.thy ===== *)
theory Tick
  imports Serde
begin

text \<open>
  Simulation ticks (\<open>crates/core/core/src/tick.rs\<close>): a 32-bit counter with saturating
  arithmetic, and \<open>AtomicTick\<close>, a minimum shared by concurrent writers through a
  compare-exchange loop. The loop is modelled by a step relation over any number of threads,
  in which a load may return any value of the location's modification order, as the memory
  orderings of the source allow.
\<close>

section \<open>Ticks\<close>

type_synonym tick = u32

definition i32_min :: int where "i32_min = - (2 ^ 31)"
definition i32_max :: int where "i32_max = 2 ^ 31 - 1"

definition tick_sub :: "tick \<Rightarrow> tick \<Rightarrow> int" where
  "tick_sub a b =
     (let difference = uint a - uint b in max i32_min (min i32_max difference))"

definition tick_sub_u32 :: "tick \<Rightarrow> u32 \<Rightarrow> tick" where
  "tick_sub_u32 a n = (if a < n then 0 else a - n)"

definition saturating_add_u32 :: "u32 \<Rightarrow> u32 \<Rightarrow> u32" where
  "saturating_add_u32 a b = (if uint a + uint b < 2 ^ 32 then a + b else - 1)"

definition tick_add :: "tick \<Rightarrow> tick \<Rightarrow> tick" where
  "tick_add a b = saturating_add_u32 a b"

definition tick_add_assign :: "tick \<Rightarrow> u32 \<Rightarrow> tick" where
  "tick_add_assign a n = saturating_add_u32 a n"

text \<open>\<open>saturating_add_signed\<close> clamps the exact sum to the unsigned range.\<close>

definition tick_add_i32 :: "tick \<Rightarrow> int \<Rightarrow> tick" where
  "tick_add_i32 a n = word_of_int (max 0 (min (2 ^ 32 - 1) (uint a + n)))"

definition tick_bytes_len :: "tick \<Rightarrow> nat option" where
  "tick_bytes_len t = Some 4"

definition tick_to_bytes :: "tick \<Rightarrow> bytes \<Rightarrow> bytes serde_result" where
  "tick_to_bytes t buf = write_u32 t buf"

definition tick_from_bytes :: "reader \<Rightarrow> (tick \<times> reader) serde_result" where
  "tick_from_bytes r = read_u32 r"

section \<open>The shared minimum\<close>

text \<open>
  A thread that runs \<open>set_if_lower v\<close> is before its load, in its loop with the value
  \<open>current\<close> it last saw, or finished. The shared location is its modification order, the newest
  value first.
\<close>

datatype set_if_lower_pc = Start u32 | Loop u32 u32 | Finished u32

record atomic_state =
  history :: "u32 list"
  threads :: "nat \<Rightarrow> set_if_lower_pc option"

definition atomic_get :: "atomic_state \<Rightarrow> u32" where
  "atomic_get s = hd (history s)"

definition atomic_new_max :: u32 where
  "atomic_new_max = - 1"

definition atomic_init :: "u32 \<Rightarrow> u32 list \<Rightarrow> atomic_state" where
  "atomic_init v0 vs =
     \<lparr>history = [v0], threads = (\<lambda>i. if i < length vs then Some (Start (vs ! i)) else None)\<rparr>"

inductive set_if_lower_step :: "atomic_state \<Rightarrow> atomic_state \<Rightarrow> bool" where
  load: "threads s i = Some (Start v) \<Longrightarrow> c \<in> set (history s) \<Longrightarrow>
     set_if_lower_step s (s\<lparr>threads := (threads s)(i \<mapsto> Loop v c)\<rparr>)"
| not_lower: "threads s i = Some (Loop v c) \<Longrightarrow> c \<le> v \<Longrightarrow>
     set_if_lower_step s (s\<lparr>threads := (threads s)(i \<mapsto> Finished v)\<rparr>)"
| exchanged: "threads s i = Some (Loop v c) \<Longrightarrow> v < c \<Longrightarrow> atomic_get s = c \<Longrightarrow>
     set_if_lower_step s
       (s\<lparr>history := v # history s, threads := (threads s)(i \<mapsto> Finished v)\<rparr>)"
| exchange_failed: "threads s i = Some (Loop v c) \<Longrightarrow> v < c \<Longrightarrow>
     c' \<in> set (history s) \<Longrightarrow> c' \<noteq> c \<Longrightarrow>
     set_if_lower_step s (s\<lparr>threads := (threads s)(i \<mapsto> Loop v c')\<rparr>)"

inductive_cases set_if_lower_stepE: "set_if_lower_step s t"

inductive atomic_reachable :: "u32 \<Rightarrow> u32 list \<Rightarrow> atomic_state \<Rightarrow> bool" for v0 vs where
  init: "atomic_reachable v0 vs (atomic_init v0 vs)"
| step: "atomic_reachable v0 vs s \<Longrightarrow> set_if_lower_step s t \<Longrightarrow> atomic_reachable v0 vs t"

section \<open>Tick arithmetic\<close>

text \<open>
  Tick arithmetic never wraps: an addition gives the exact sum or the largest tick, a
  subtraction the exact difference or zero, a signed addition the exact sum clamped to the tick
  range, and the signed difference of two ticks is the exact difference clamped to \<open>i32\<close>, so
  its sign always agrees with the numeric order.
\<close>

theorem tick_arithmetic_saturates:
  "uint (tick_add a b) = min (2 ^ 32 - 1) (uint a + uint b) \<and>
   uint (tick_add_assign a b) = min (2 ^ 32 - 1) (uint a + uint b) \<and>
   uint (tick_sub_u32 a b) = max 0 (uint a - uint b) \<and>
   uint (tick_add_i32 a n) = max 0 (min (2 ^ 32 - 1) (uint a + n)) \<and>
   tick_sub a b = max (- (2 ^ 31)) (min (2 ^ 31 - 1) (uint a - uint b)) \<and>
   (tick_sub a b < 0 \<longleftrightarrow> a < b) \<and> (tick_sub a b = 0 \<longleftrightarrow> a = b)"
proof -
  have b: "0 \<le> uint x \<and> uint x < 2 ^ 32" for x :: u32
    using uint_lt2p [of x] by simp
  have sat: "uint (saturating_add_u32 a b) = min (2 ^ 32 - 1) (uint a + uint b)" for a b
    using b [of a] b [of b] by (auto simp: saturating_add_u32_def uint_word_ariths)
  have "(uint a - uint b) mod 2 ^ 32 = uint a - uint b" if "uint b \<le> uint a"
    using that b [of a] b [of b] by (intro mod_pos_pos_trivial) linarith+
  then have sub: "uint (tick_sub_u32 a b) = max 0 (uint a - uint b)"
    by (auto simp: tick_sub_u32_def uint_word_ariths word_less_def max_def)
  have add: "uint (tick_add_i32 a n) = max 0 (min (2 ^ 32 - 1) (uint a + n))"
    by (simp add: tick_add_i32_def uint_word_of_int)
  show ?thesis
    using sat sub add b [of a] b [of b]
    by (auto simp: tick_add_def tick_add_assign_def tick_sub_def i32_min_def i32_max_def Let_def
        word_less_def word_uint_eq_iff)
qed

interpretation tick_codec: codec tick_bytes_len tick_to_bytes tick_from_bytes
  "\<lambda>n. be_bytes 4 (unat n)" "\<lambda>_. True"
proof unfold_locales
  fix x :: tick and r rest
  assume "wf_reader r" and "remaining_slice r = be_bytes 4 (unat x) @ rest"
  then show "tick_from_bytes r = Inr (x, skip (length (be_bytes 4 (unat x))) r)"
    by (simp add: tick_from_bytes_def read_u32_append)
qed (simp_all add: tick_bytes_len_def tick_to_bytes_def write_defs)

section \<open>The shared minimum under every interleaving\<close>

text \<open>
  The invariant: the newest value is the least of the modification order and one of the values
  offered, a thread in its loop holds a value of that order, a finished thread's value is not below
  the newest one, and every thread still carries the value it was started with.
\<close>

definition pc_value :: "set_if_lower_pc \<Rightarrow> u32" where
  "pc_value pc = (case pc of Start v \<Rightarrow> v | Loop v c \<Rightarrow> v | Finished v \<Rightarrow> v)"

definition atomic_inv :: "u32 \<Rightarrow> u32 list \<Rightarrow> atomic_state \<Rightarrow> bool" where
  "atomic_inv v0 vs s \<longleftrightarrow>
     history s \<noteq> [] \<and> set (history s) \<subseteq> insert v0 (set vs) \<and> v0 \<in> set (history s) \<and>
     (\<forall>h \<in> set (history s). atomic_get s \<le> h) \<and>
     (\<forall>i. map_option pc_value (threads s i) = (if i < length vs then Some (vs ! i) else None)) \<and>
     (\<forall>i v c. threads s i = Some (Loop v c) \<longrightarrow> c \<in> set (history s)) \<and>
     (\<forall>i v. threads s i = Some (Finished v) \<longrightarrow> atomic_get s \<le> v)"

lemma atomic_inv_init: "atomic_inv v0 vs (atomic_init v0 vs)"
  by (auto simp: atomic_inv_def atomic_init_def atomic_get_def pc_value_def)

lemma thread_value:
  assumes "atomic_inv v0 vs s" and "threads s i = Some pc"
  shows "i < length vs" and "vs ! i = pc_value pc"
proof -
  have eq: "map_option pc_value (threads s i) = (if i < length vs then Some (vs ! i) else None)"
    using assms(1) by (simp add: atomic_inv_def)
  show "i < length vs" and "vs ! i = pc_value pc"
    using eq assms(2) by (auto split: if_splits)
qed

lemma atomic_inv_step:
  assumes "set_if_lower_step s t" and "atomic_inv v0 vs s"
  shows "atomic_inv v0 vs t"
  using assms(1)
proof cases
  case (load i v c)
  with assms(2) thread_value [OF assms(2) load(2)] show ?thesis
    by (auto simp: atomic_inv_def atomic_get_def pc_value_def split: if_splits)
next
  case (not_lower i v c)
  have "atomic_get s \<le> c"
    using assms(2) not_lower(2) by (auto simp: atomic_inv_def)
  with not_lower(3) have "atomic_get s \<le> v" by simp
  with assms(2) not_lower thread_value [OF assms(2) not_lower(2)] show ?thesis
    by (auto simp: atomic_inv_def atomic_get_def pc_value_def split: if_splits)
next
  case (exchanged i v c)
  note th = thread_value [OF assms(2) exchanged(2)]
  then have "v \<in> set vs" by (auto simp: pc_value_def)
  moreover have "v \<le> h" if "h \<in> set (history s)" for h
    using that exchanged(3,4) assms(2) by (force simp: atomic_inv_def)
  moreover have "v \<le> w" if "threads s j = Some (Finished w)" for j w
    using that exchanged(3,4) assms(2) by (force simp: atomic_inv_def)
  ultimately show ?thesis
    using assms(2) exchanged th
    by (auto simp: atomic_inv_def atomic_get_def pc_value_def split: if_splits)
next
  case (exchange_failed i v c c')
  with assms(2) thread_value [OF assms(2) exchange_failed(2)] show ?thesis
    by (auto simp: atomic_inv_def atomic_get_def pc_value_def split: if_splits)
qed

lemma atomic_reachable_inv: "atomic_reachable v0 vs s \<Longrightarrow> atomic_inv v0 vs s"
  by (induction rule: atomic_reachable.induct) (auto intro: atomic_inv_init atomic_inv_step)

text \<open>
  C9: whatever the interleaving of the threads that call \<open>set_if_lower\<close>, and whatever stale
  values their loads return, once all of them have finished the tick is the minimum of its initial
  value and of all the values offered.
\<close>

theorem set_if_lower_computes_minimum:
  assumes "atomic_reachable v0 vs s"
    and "\<forall>i < length vs. \<exists>v. threads s i = Some (Finished v)"
  shows "atomic_get s = Min (insert v0 (set vs))"
proof -
  have inv: "atomic_inv v0 vs s"
    by (rule atomic_reachable_inv [OF assms(1)])
  have "atomic_get s \<le> v" if "v \<in> set vs" for v
  proof -
    obtain i where i: "i < length vs" "vs ! i = v"
      using \<open>v \<in> set vs\<close> by (auto simp: in_set_conv_nth)
    then obtain w where w: "threads s i = Some (Finished w)"
      using assms(2) by blast
    then have "w = v"
      using thread_value(2) [OF inv w] i by (simp add: pc_value_def)
    with w inv show ?thesis by (auto simp: atomic_inv_def)
  qed
  moreover have "atomic_get s \<le> v0"
    using inv by (auto simp: atomic_inv_def)
  moreover have "atomic_get s \<in> insert v0 (set vs)"
    using inv hd_in_set [of "history s"] unfolding atomic_inv_def atomic_get_def by blast
  ultimately show ?thesis
    by (intro Min_eqI [symmetric]) auto
qed

lemma atomic_run_5:
  "atomic_reachable 10 [5]
     \<lparr>history = [5, 10], threads = (\<lambda>i. if i < 1 then Some (Start 5) else None)
        (0 \<mapsto> Loop 5 10, 0 \<mapsto> Finished 5)\<rparr>"
proof -
  let ?t0 = "\<lambda>i. if i < 1 then Some (Start 5) else None"
  have 1: "atomic_reachable 10 [5] \<lparr>history = [10], threads = ?t0\<rparr>"
    using atomic_reachable.init [of 10 "[5]"]
    by (simp add: atomic_init_def if_distrib nth_Cons' cong: if_cong)
  have 2: "set_if_lower_step \<lparr>history = [10], threads = ?t0\<rparr>
      \<lparr>history = [10], threads = ?t0(0 \<mapsto> Loop 5 10)\<rparr>"
    using set_if_lower_step.load [of "\<lparr>history = [10], threads = ?t0\<rparr>" 0 5 10] by simp
  have 3: "set_if_lower_step \<lparr>history = [10], threads = ?t0(0 \<mapsto> Loop 5 10)\<rparr>
      \<lparr>history = [5, 10], threads = ?t0(0 \<mapsto> Loop 5 10, 0 \<mapsto> Finished 5)\<rparr>"
    using set_if_lower_step.exchanged [of "\<lparr>history = [10], threads = ?t0(0 \<mapsto> Loop 5 10)\<rparr>" 0 5 10]
    by (simp add: atomic_get_def)
  show ?thesis
    by (rule atomic_reachable.step [OF atomic_reachable.step [OF 1 2] 3])
qed

theorem set_if_lower_computes_minimum_witness:
  "atomic_get \<lparr>history = [5, 10], threads = (\<lambda>i. if i < (1 :: nat) then Some (Start 5) else None)
        (0 \<mapsto> Loop 5 10, 0 \<mapsto> Finished 5)\<rparr> = Min (insert 10 (set [5]))"
  by (rule set_if_lower_computes_minimum [OF atomic_run_5]) simp

end
