(* ===== verification/Ready_Buffer.thy ===== *)
theory Ready_Buffer
  imports Prelude "HOL-Library.Multiset"
begin

text \<open>
  The ready buffer (\<open>crates/core/utils/src/ready_buffer.rs\<close>), a min-heap of keyed items that are
  taken out once their key is due, and the rolling packet statistics built on it
  (\<open>crates/transport/transport/src/packet/stats_manager.rs\<close>). The standard library's heap is kept
  as a list sorted by key. It does not promise an order among items of equal keys, nor an order
  of \<open>drain\<close>; the lemmas therefore speak of multisets of items and of the order of the keys.
\<close>

section \<open>The ready buffer\<close>

type_synonym ('k, 't) ready_buffer = "('k \<times> 't) list"

definition heap_push :: "('k::linorder \<times> 't) \<Rightarrow> ('k, 't) ready_buffer \<Rightarrow> ('k, 't) ready_buffer" where
  "heap_push x h = insort_key fst x h"

definition heap_peek :: "('k, 't) ready_buffer \<Rightarrow> ('k \<times> 't) option" where
  "heap_peek h = (case h of [] \<Rightarrow> None | x # _ \<Rightarrow> Some x)"

definition heap_pop :: "('k, 't) ready_buffer \<Rightarrow> ('k \<times> 't) option \<times> ('k, 't) ready_buffer" where
  "heap_pop h = (case h of [] \<Rightarrow> (None, []) | x # h' \<Rightarrow> (Some x, h'))"

definition rb_new :: "('k, 't) ready_buffer" where
  "rb_new = []"

definition rb_push :: "'k::linorder \<Rightarrow> 't \<Rightarrow> ('k, 't) ready_buffer \<Rightarrow> ('k, 't) ready_buffer" where
  "rb_push key item h = heap_push (key, item) h"

definition peek_max_item :: "('k, 't) ready_buffer \<Rightarrow> ('k \<times> 't) option" where
  "peek_max_item h = heap_peek h"

definition has_item :: "'k::linorder \<Rightarrow> ('k, 't) ready_buffer \<Rightarrow> bool" where
  "has_item current_key h =
     (case heap_peek h of Some item \<Rightarrow> fst item \<le> current_key | None \<Rightarrow> False)"

definition peek_item :: "'k::linorder \<Rightarrow> ('k, 't) ready_buffer \<Rightarrow> ('k \<times> 't) option" where
  "peek_item current_key h = (if has_item current_key h then heap_peek h else None)"

definition pop_item ::
  "'k::linorder \<Rightarrow> ('k, 't) ready_buffer \<Rightarrow> ('k \<times> 't) option \<times> ('k, 't) ready_buffer" where
  "pop_item current_key h = (if has_item current_key h then heap_pop h else (None, h))"

fun pop_until_loop ::
  "'k::linorder \<Rightarrow> ('k \<times> 't) option \<Rightarrow> ('k, 't) ready_buffer \<Rightarrow> ('k \<times> 't) option \<times> ('k, 't) ready_buffer"
where
  "pop_until_loop key val [] = (val, [])"
| "pop_until_loop key val (x # h) =
     (if fst x > key then (val, x # h) else pop_until_loop key (Some x) h)"

definition pop_until ::
  "'k::linorder \<Rightarrow> ('k, 't) ready_buffer \<Rightarrow> ('k \<times> 't) option \<times> ('k, 't) ready_buffer" where
  "pop_until key h = (if h = [] then (None, h) else pop_until_loop key None h)"

fun drain_until_loop ::
  "'k::linorder \<Rightarrow> ('k \<times> 't) list \<Rightarrow> ('k, 't) ready_buffer \<Rightarrow> ('k \<times> 't) list \<times> ('k, 't) ready_buffer"
where
  "drain_until_loop key val [] = (val, [])"
| "drain_until_loop key val (x # h) =
     (if fst x > key then (val, x # h) else drain_until_loop key (val @ [x]) h)"

definition drain_until ::
  "'k::linorder \<Rightarrow> ('k, 't) ready_buffer \<Rightarrow> ('k \<times> 't) list \<times> ('k, 't) ready_buffer" where
  "drain_until key h = (if h = [] then ([], h) else drain_until_loop key [] h)"

definition rb_drain :: "('k, 't) ready_buffer \<Rightarrow> ('k \<times> 't) list \<times> ('k, 't) ready_buffer" where
  "rb_drain h = (h, [])"

text \<open>
  The loop of \<open>drain_after\<close> returns the older items it popped, the newer item it stopped at, if
  any, and the rest of the heap.
\<close>

fun drain_after_loop ::
  "'k::linorder \<Rightarrow> ('k \<times> 't) list \<Rightarrow> ('k, 't) ready_buffer \<Rightarrow>
   ('k \<times> 't) list \<times> ('k \<times> 't) list \<times> ('k, 't) ready_buffer"
where
  "drain_after_loop key older [] = (older, [], [])"
| "drain_after_loop key older (x # h) =
     (if fst x < key then drain_after_loop key (older @ [x]) h else (older, [x], h))"

definition drain_after ::
  "'k::linorder \<Rightarrow> ('k, 't) ready_buffer \<Rightarrow> ('k \<times> 't) list \<times> ('k, 't) ready_buffer" where
  "drain_after key h =
     (if h = [] then ([], h)
      else let (older, newer, rest) = drain_after_loop key [] h
           in (newer @ fst (rb_drain rest), fold heap_push older (snd (rb_drain rest))))"

definition rb_len :: "('k, 't) ready_buffer \<Rightarrow> nat" where
  "rb_len h = length h"

definition rb_is_empty :: "('k, 't) ready_buffer \<Rightarrow> bool" where
  "rb_is_empty h = (h = [])"

definition rb_clear :: "('k, 't) ready_buffer \<Rightarrow> ('k, 't) ready_buffer" where
  "rb_clear h = []"

section \<open>Packet statistics\<close>

record packet_stats =
  num_sent_ack_eliciting_packets :: u32
  num_sent_packets_acked :: u32
  num_sent_packets_lost :: u32
  num_received_packets :: u32

definition packet_stats_default :: packet_stats where
  "packet_stats_default = \<lparr>num_sent_ack_eliciting_packets = 0, num_sent_packets_acked = 0,
     num_sent_packets_lost = 0, num_received_packets = 0\<rparr>"

definition stats_add_assign :: "packet_stats \<Rightarrow> packet_stats \<Rightarrow> packet_stats" where
  "stats_add_assign s t =
     \<lparr>num_sent_ack_eliciting_packets =
        num_sent_ack_eliciting_packets s + num_sent_ack_eliciting_packets t,
      num_sent_packets_acked = num_sent_packets_acked s + num_sent_packets_acked t,
      num_sent_packets_lost = num_sent_packets_lost s + num_sent_packets_lost t,
      num_received_packets = num_received_packets s + num_received_packets t\<rparr>"

definition stats_sub_assign :: "packet_stats \<Rightarrow> packet_stats \<Rightarrow> packet_stats" where
  "stats_sub_assign s t =
     \<lparr>num_sent_ack_eliciting_packets =
        num_sent_ack_eliciting_packets s - num_sent_ack_eliciting_packets t,
      num_sent_packets_acked = num_sent_packets_acked s - num_sent_packets_acked t,
      num_sent_packets_lost = num_sent_packets_lost s - num_sent_packets_lost t,
      num_received_packets = num_received_packets s - num_received_packets t\<rparr>"

text \<open>
  The loss ratio is a 32-bit float, an abstract type \<open>'f\<close> here: the division of two counters
  is the argument \<open>ratio\<close> of the operations that compute it.
\<close>

record 'f packet_stats_manager =
  stats_buffer :: "(duration, packet_stats) ready_buffer"
  rolling_stats :: packet_stats
  current_stats :: packet_stats
  stats_buffer_duration :: duration
  packet_loss :: 'f

definition psm_new :: "'f \<Rightarrow> duration \<Rightarrow> 'f packet_stats_manager" where
  "psm_new zero d = \<lparr>stats_buffer = rb_new, rolling_stats = packet_stats_default,
     current_stats = packet_stats_default, stats_buffer_duration = d, packet_loss = zero\<rparr>"

definition compute_stats ::
  "(u32 \<Rightarrow> u32 \<Rightarrow> 'f) \<Rightarrow> 'f packet_stats_manager \<Rightarrow> 'f packet_stats_manager" where
  "compute_stats ratio m =
     (if num_sent_ack_eliciting_packets (rolling_stats m) > 0
      then m\<lparr>packet_loss := ratio (num_sent_packets_lost (rolling_stats m))
               (num_sent_ack_eliciting_packets (rolling_stats m))\<rparr>
      else m)"

function expire_stats :: "duration \<Rightarrow> 'f packet_stats_manager \<Rightarrow> 'f packet_stats_manager" where
  "expire_stats oldest_retained m =
     (case pop_item oldest_retained (stats_buffer m) of
        (Some (_, stats), h) \<Rightarrow>
          expire_stats oldest_retained
            (m\<lparr>stats_buffer := h, rolling_stats := stats_sub_assign (rolling_stats m) stats\<rparr>)
      | (None, h) \<Rightarrow> m\<lparr>stats_buffer := h\<rparr>)"
  by auto
termination
  by (relation "measure (\<lambda>(_, m). length (stats_buffer m))")
    (auto simp: pop_item_def heap_pop_def split: if_splits list.splits)

declare expire_stats.simps [simp del]

definition psm_update ::
  "(u32 \<Rightarrow> u32 \<Rightarrow> 'f) \<Rightarrow> duration \<Rightarrow> 'f packet_stats_manager \<Rightarrow> 'f packet_stats_manager" where
  "psm_update ratio real m =
     (let oldest_retained = real - stats_buffer_duration m;
          m = expire_stats oldest_retained m;
          current = current_stats m;
          m = m\<lparr>current_stats := packet_stats_default\<rparr>;
          m = m\<lparr>rolling_stats := stats_add_assign (rolling_stats m) current\<rparr>;
          m = m\<lparr>stats_buffer := rb_push real current (stats_buffer m)\<rparr>
      in compute_stats ratio m)"

definition sent_ack_eliciting_packet :: "'f packet_stats_manager \<Rightarrow> 'f packet_stats_manager" where
  "sent_ack_eliciting_packet m = m\<lparr>current_stats := (current_stats m)
     \<lparr>num_sent_ack_eliciting_packets := num_sent_ack_eliciting_packets (current_stats m) + 1\<rparr>\<rparr>"

definition sent_ack_only_packet :: "'f packet_stats_manager \<Rightarrow> 'f packet_stats_manager" where
  "sent_ack_only_packet m = m"

definition sent_packet_lost :: "'f packet_stats_manager \<Rightarrow> 'f packet_stats_manager" where
  "sent_packet_lost m = m\<lparr>current_stats := (current_stats m)
     \<lparr>num_sent_packets_lost := num_sent_packets_lost (current_stats m) + 1\<rparr>\<rparr>"

definition sent_packet_acked :: "'f packet_stats_manager \<Rightarrow> 'f packet_stats_manager" where
  "sent_packet_acked m = m\<lparr>current_stats := (current_stats m)
     \<lparr>num_sent_packets_acked := num_sent_packets_acked (current_stats m) + 1\<rparr>\<rparr>"

definition received_packet :: "'f packet_stats_manager \<Rightarrow> 'f packet_stats_manager" where
  "received_packet m = m\<lparr>current_stats := (current_stats m)
     \<lparr>num_received_packets := num_received_packets (current_stats m) + 1\<rparr>\<rparr>"

section \<open>Due items\<close>

definition rb_wf :: "('k::linorder, 't) ready_buffer \<Rightarrow> bool" where
  "rb_wf h = sorted (map fst h)"

definition due :: "'k::linorder \<Rightarrow> ('k \<times> 't) multiset \<Rightarrow> ('k \<times> 't) multiset" where
  "due key = filter_mset (\<lambda>x. fst x \<le> key)"

lemma rb_wf_push [simp, intro]: "rb_wf h \<Longrightarrow> rb_wf (rb_push k x h)"
  by (simp add: rb_wf_def rb_push_def heap_push_def sorted_insort_key)

lemma mset_heap_push [simp]: "mset (heap_push x h) = add_mset x (mset h)"
  by (induction h) (auto simp: heap_push_def)

lemma sorted_heap_push [simp, intro]: "rb_wf h \<Longrightarrow> rb_wf (heap_push x h)"
  by (simp add: rb_wf_def heap_push_def sorted_insort_key)

lemma rb_wf_Cons [simp]: "rb_wf (x # h) \<longleftrightarrow> (\<forall>y \<in> set h. fst x \<le> fst y) \<and> rb_wf h"
  by (auto simp: rb_wf_def)

lemma rb_wf_Nil [simp]: "rb_wf []"
  by (simp add: rb_wf_def)

lemma pop_until_loop_wf:
  "rb_wf h \<Longrightarrow> pop_until_loop key val h =
     (if takeWhile (\<lambda>x. fst x \<le> key) h = [] then val
      else Some (last (takeWhile (\<lambda>x. fst x \<le> key) h)),
      dropWhile (\<lambda>x. fst x \<le> key) h)"
  by (induction h arbitrary: val) (auto simp: not_le)

lemma drain_until_loop_wf:
  "rb_wf h \<Longrightarrow> drain_until_loop key val h =
     (val @ takeWhile (\<lambda>x. fst x \<le> key) h, dropWhile (\<lambda>x. fst x \<le> key) h)"
  by (induction h arbitrary: val) (auto simp: not_le)

lemma drain_after_loop_wf:
  "rb_wf h \<Longrightarrow> drain_after_loop key older h =
     (older @ takeWhile (\<lambda>x. fst x < key) h,
      take 1 (dropWhile (\<lambda>x. fst x < key) h), drop 1 (dropWhile (\<lambda>x. fst x < key) h))"
  by (induction h arbitrary: older) auto

lemma takeWhile_wf:
  assumes "rb_wf h" and mono: "\<And>a b. a \<le> b \<Longrightarrow> P b \<Longrightarrow> P a"
  shows "takeWhile (\<lambda>x. P (fst x)) h = filter (\<lambda>x. P (fst x)) h"
    and "dropWhile (\<lambda>x. P (fst x)) h = filter (\<lambda>x. \<not> P (fst x)) h"
proof -
  have "takeWhile (\<lambda>x. P (fst x)) h = filter (\<lambda>x. P (fst x)) h \<and>
      dropWhile (\<lambda>x. P (fst x)) h = filter (\<lambda>x. \<not> P (fst x)) h"
    using assms(1) by (induction h) (auto intro!: filter_True [symmetric] filter_False [symmetric] dest: mono)
  then show "takeWhile (\<lambda>x. P (fst x)) h = filter (\<lambda>x. P (fst x)) h"
    and "dropWhile (\<lambda>x. P (fst x)) h = filter (\<lambda>x. \<not> P (fst x)) h" by auto
qed

lemma rb_wf_filter [intro]: "rb_wf h \<Longrightarrow> rb_wf (filter P h)"
  by (induction h) auto

lemma mset_fold_heap_push: "mset (fold heap_push xs h) = mset xs + mset h"
  by (induction xs arbitrary: h) auto

lemma rb_wf_fold_heap_push [intro]: "rb_wf h \<Longrightarrow> rb_wf (fold heap_push xs h)"
  by (induction xs arbitrary: h) auto

text \<open>The heaps a program can build: every sequence of pushes keeps the order.\<close>

lemma rb_wf_pushes: "rb_wf (fold (\<lambda>(k, x). rb_push k x) items rb_new)"
proof -
  have "rb_wf h \<Longrightarrow> rb_wf (fold (\<lambda>(k, x). rb_push k x) items h)" for h
    by (induction items arbitrary: h) auto
  then show ?thesis by (simp add: rb_new_def)
qed

text \<open>
  Draining a ready buffer that was filled by any sequence of pushes takes out exactly the
  items whose key is due, in the order of their keys, and leaves exactly the others; \<open>pop_until\<close>
  leaves the same items and returns one with the largest due key; \<open>drain_after\<close> returns exactly
  the items that are not older than the key and keeps the older ones.
\<close>

theorem ready_buffer_drains_due_items:
  assumes "h = fold (\<lambda>(k, x). rb_push k x) items rb_new"
  shows "mset (fst (drain_until key h)) = due key (mset items) \<and>
    sorted (map fst (fst (drain_until key h))) \<and>
    mset (snd (drain_until key h)) + due key (mset items) = mset items \<and>
    snd (pop_until key h) = snd (drain_until key h) \<and>
    (case fst (pop_until key h) of
       None \<Rightarrow> due key (mset items) = {#}
     | Some x \<Rightarrow> x \<in># due key (mset items) \<and> (\<forall>y \<in># due key (mset items). fst y \<le> fst x)) \<and>
    mset (fst (drain_after key h)) = filter_mset (\<lambda>x. key \<le> fst x) (mset items) \<and>
    mset (snd (drain_after key h)) = filter_mset (\<lambda>x. fst x < key) (mset items) \<and>
    rb_wf (snd (drain_until key h)) \<and> rb_wf (snd (drain_after key h))"
proof -
  have wf: "rb_wf h"
    unfolding assms by (rule rb_wf_pushes)
  have items: "mset h = mset items"
  proof -
    have "mset (fold (\<lambda>(k, x). rb_push k x) items h) = mset items + mset h" for h :: "('a \<times> 'b) list"
      by (induction items arbitrary: h) (auto simp: rb_push_def)
    then show ?thesis by (simp add: assms rb_new_def)
  qed
  note le = takeWhile_wf [OF wf, of "\<lambda>k. k \<le> key"] and lt = takeWhile_wf [OF wf, of "\<lambda>k. k < key"]
  have until: "drain_until key h = (filter (\<lambda>x. fst x \<le> key) h, filter (\<lambda>x. \<not> fst x \<le> key) h)"
    using le by (auto simp: drain_until_def drain_until_loop_wf [OF wf])
  have pop: "pop_until key h =
      (if filter (\<lambda>x. fst x \<le> key) h = [] then None else Some (last (filter (\<lambda>x. fst x \<le> key) h)),
       filter (\<lambda>x. \<not> fst x \<le> key) h)"
    using le by (auto simp: pop_until_def pop_until_loop_wf [OF wf])
  have split: "mset (take 1 xs @ drop 1 xs) = mset xs" for xs :: "('a \<times> 'b) list"
    by (simp only: append_take_drop_id)
  have after: "mset (fst (drain_after key h)) = filter_mset (\<lambda>x. key \<le> fst x) (mset h) \<and>
      mset (snd (drain_after key h)) = filter_mset (\<lambda>x. fst x < key) (mset h) \<and>
      rb_wf (snd (drain_after key h))"
    using lt split [of "dropWhile (\<lambda>x. fst x < key) h"]
    by (auto simp: drain_after_def drain_after_loop_wf [OF wf] rb_drain_def mset_fold_heap_push
        not_less)
  have sorted: "rb_wf (filter (\<lambda>x. fst x \<le> key) h)"
    using wf by blast
  have last: "fst y \<le> fst (last xs)" if "rb_wf xs" "y \<in> set xs" for y and xs :: "('a \<times> 'b) list"
    using that by (induction xs) auto
  let ?d = "filter (\<lambda>x. fst x \<le> key) h"
  have due: "due key (mset h) = mset ?d"
    by (simp add: due_def)
  have popped: "case fst (pop_until key h) of
       None \<Rightarrow> due key (mset h) = {#}
     | Some x \<Rightarrow> x \<in># due key (mset h) \<and> (\<forall>y \<in># due key (mset h). fst y \<le> fst x)"
    using last [OF sorted] last_in_set [of ?d] unfolding pop due set_mset_mset by auto
  show ?thesis
    unfolding items [symmetric]
    using after sorted popped wf
    by (simp add: until pop due_def rb_wf_filter rb_wf_def [symmetric])
qed

theorem ready_buffer_drains_due_items_witness:
  "mset (fst (drain_until (2 :: nat) [(1 :: nat, True), (2, False), (4, True)])) =
     {#(1, True), (2, False)#}"
  using ready_buffer_drains_due_items [of "[(1, True), (2, False), (4, True)]"
      "[(4, True), (1, True), (2, False)]" "2 :: nat"]
  by (simp add: rb_push_def heap_push_def rb_new_def due_def)

text \<open>
  The operation \<open>peek_max_item\<close> is documented to return the item with the highest key; on every buffer
  built by pushes it returns an item with the smallest key, which is the highest one only when
  all keys are equal.
\<close>

theorem peek_max_item_returns_smallest_key:
  assumes "h = fold (\<lambda>(k, x). rb_push k x) items rb_new" and "items \<noteq> []"
  shows "\<exists>x \<in> set items. peek_max_item h = Some x \<and> (\<forall>y \<in> set items. fst x \<le> fst y) \<and>
    ((\<forall>y \<in> set items. fst y \<le> fst x) \<longleftrightarrow> (\<forall>y \<in> set items. \<forall>z \<in> set items. fst y = fst z))"
proof -
  have wf: "rb_wf h"
    unfolding assms by (rule rb_wf_pushes)
  have "set (fold (\<lambda>(k, x). rb_push k x) items h) = set items \<union> set h" for h :: "('a \<times> 'b) list"
    by (induction items arbitrary: h) (auto simp: rb_push_def heap_push_def set_insort_key)
  then have items: "set h = set items"
    by (simp add: assms rb_new_def)
  with assms(2) obtain x t where h: "h = x # t"
    by (cases h) auto
  then have min: "\<forall>y \<in> set items. fst x \<le> fst y"
    using wf by (simp flip: items)
  have "x \<in> set items" "peek_max_item h = Some x"
    by (simp_all add: peek_max_item_def heap_peek_def h flip: items)
  moreover have "(\<forall>y \<in> set items. fst y \<le> fst x) \<longleftrightarrow>
      (\<forall>y \<in> set items. \<forall>z \<in> set items. fst y = fst z)"
    using min \<open>x \<in> set items\<close> by (metis order.antisym order_refl)
  ultimately show ?thesis
    using min by blast
qed

theorem peek_max_item_returns_smallest_key_witness:
  "peek_max_item [(1 :: nat, True), (3, False)] = Some (1, True)"
  using peek_max_item_returns_smallest_key [of "[(1 :: nat, True), (3, False)]" "[(3, False), (1, True)]"]
  by (auto simp: rb_push_def heap_push_def rb_new_def)

section \<open>Rolling statistics\<close>

text \<open>The statistics of a list of frames, added up the way the counters wrap.\<close>

primrec stats_sum :: "packet_stats list \<Rightarrow> packet_stats" where
  "stats_sum [] = packet_stats_default"
| "stats_sum (s # ss) = stats_add_assign s (stats_sum ss)"

definition psm_inv :: "'f packet_stats_manager \<Rightarrow> bool" where
  "psm_inv m \<longleftrightarrow> rb_wf (stats_buffer m) \<and>
     rolling_stats m = stats_sum (map snd (stats_buffer m))"

lemma stats_add_commute: "stats_add_assign s t = stats_add_assign t s"
  by (simp add: stats_add_assign_def)

lemma stats_add_left_commute:
  "stats_add_assign s (stats_add_assign t u) = stats_add_assign t (stats_add_assign s u)"
  by (simp add: stats_add_assign_def)

lemma stats_sub_add [simp]: "stats_sub_assign (stats_add_assign s t) s = t"
  by (simp add: stats_add_assign_def stats_sub_assign_def)

lemma stats_sum_insort:
  "stats_sum (map snd (heap_push (k, s) h)) = stats_add_assign s (stats_sum (map snd h))"
  by (induction h) (auto simp: heap_push_def stats_add_left_commute)

lemma expire_stats_inv:
  assumes "psm_inv m"
  shows "expire_stats t m = m\<lparr>stats_buffer := filter (\<lambda>x. t < fst x) (stats_buffer m),
    rolling_stats := stats_sum (map snd (filter (\<lambda>x. t < fst x) (stats_buffer m)))\<rparr>"
  using assms
proof (induction t m rule: expire_stats.induct)
  case (1 t m)
  show ?case
  proof (cases "stats_buffer m")
    case Nil
    with "1.prems" show ?thesis
      by (subst expire_stats.simps)
        (simp add: pop_item_def has_item_def heap_peek_def psm_inv_def)
  next
    case (Cons x h)
    show ?thesis
    proof (cases "fst x \<le> t")
      case True
      then have pop: "pop_item t (stats_buffer m) = (Some x, h)"
        by (simp add: Cons pop_item_def has_item_def heap_peek_def heap_pop_def)
      let ?m = "m\<lparr>stats_buffer := h, rolling_stats := stats_sub_assign (rolling_stats m) (snd x)\<rparr>"
      have "psm_inv ?m"
        using "1.prems" by (simp add: psm_inv_def Cons)
      then have "expire_stats t ?m = ?m\<lparr>stats_buffer := filter (\<lambda>x. t < fst x) h,
          rolling_stats := stats_sum (map snd (filter (\<lambda>x. t < fst x) h))\<rparr>"
        using "1.IH" [of "Some x" h x "fst x" "snd x"] pop by simp
      with True show ?thesis
        by (subst expire_stats.simps) (simp add: pop [unfolded Cons] Cons case_prod_unfold)
    next
      case False
      then have "\<forall>y \<in> set (stats_buffer m). t < fst y"
        using "1.prems" by (auto simp: psm_inv_def Cons)
      then have "filter (\<lambda>x. t < fst x) (stats_buffer m) = stats_buffer m"
        by simp
      with False "1.prems" show ?thesis
        by (subst expire_stats.simps)
          (simp add: pop_item_def has_item_def heap_peek_def Cons psm_inv_def)
    qed
  qed
qed

text \<open>
  C11: every frame the statistics manager drops the frames that left its window, adds the current
  frame and keeps the rolling counters equal, modulo the 32-bit range, to the sum over exactly the
  frames of the window; the loss ratio is recomputed from those counters unless no packet that
  elicits an acknowledgement was sent in the window, in which case it keeps its last value. The
  counters of the operations in between only touch the current frame.
\<close>

theorem psm_update_keeps_rolling_sum:
  assumes "psm_inv m"
  shows "let m' = psm_update ratio real m;
             window = filter (\<lambda>x. real - stats_buffer_duration m < fst x) (stats_buffer m)
    in psm_inv m' \<and> mset (stats_buffer m') = add_mset (real, current_stats m) (mset window) \<and>
       rolling_stats m' = stats_add_assign (current_stats m) (stats_sum (map snd window)) \<and>
       current_stats m' = packet_stats_default \<and>
       packet_loss m' =
         (if num_sent_ack_eliciting_packets (rolling_stats m') = 0 then packet_loss m
          else ratio (num_sent_packets_lost (rolling_stats m'))
                 (num_sent_ack_eliciting_packets (rolling_stats m'))) \<and>
       psm_inv (sent_ack_eliciting_packet m) \<and> psm_inv (sent_ack_only_packet m) \<and>
       psm_inv (sent_packet_lost m) \<and> psm_inv (sent_packet_acked m) \<and> psm_inv (received_packet m)"
proof -
  note ops = sent_ack_eliciting_packet_def sent_ack_only_packet_def sent_packet_lost_def
    sent_packet_acked_def received_packet_def
  show ?thesis
    using assms
    by (simp add: psm_update_def Let_def expire_stats_inv [OF assms] compute_stats_def psm_inv_def
        rb_push_def stats_sum_insort stats_add_commute rb_wf_filter ops word_gt_0)
qed

theorem psm_update_keeps_rolling_sum_witness:
  "num_sent_packets_lost (rolling_stats (psm_update (\<lambda>a b. uint a + uint b) 9
     (sent_packet_lost (psm_new 0 5)))) = 1"
  using psm_update_keeps_rolling_sum [of "sent_packet_lost (psm_new 0 5)" "\<lambda>a b. uint a + uint b" 9]
  by (simp add: psm_inv_def psm_new_def rb_new_def sent_packet_lost_def packet_stats_default_def
      Let_def stats_add_assign_def)

end
