(* ===== verification/Collections.thy ===== *)
theory Collections
  imports Prelude "HOL-Library.DAList" "HOL-Library.Multiset"
begin

text \<open>
  The interfaces of the two third-party containers the transport keeps its packet bookkeeping in:
  the fixed-capacity ring buffer of the \<open>ringbuffer\<close> crate and the insertion-ordered hash map of
  the \<open>indexmap\<close> crate. The operations the transport calls are the fields of a record that its
  definitions take as an argument; the documented behaviour of the crates is the set of laws of a
  locale. Each locale is interpreted on a list implementation of that documented behaviour.
\<close>

section \<open>Ring buffers\<close>

text \<open>
  \<open>ring_set_signed i x b\<close> is an assignment through \<open>get_mut_signed(i)\<close>, \<open>None\<close> when the crate
  returns no reference; index \<open>-1\<close> is the element pushed last. \<open>ring_iter\<close> lists the elements
  from the oldest to the newest.
\<close>

record ('a, 'b) ring_ops =
  ring_new :: 'b
  ring_fill :: "'a \<Rightarrow> 'b \<Rightarrow> 'b"
  ring_enqueue :: "'a \<Rightarrow> 'b \<Rightarrow> 'b"
  ring_set_signed :: "int \<Rightarrow> 'a \<Rightarrow> 'b \<Rightarrow> 'b option"
  ring_iter :: "'b \<Rightarrow> 'a list"

locale ring_buffer =
  fixes R :: "('a, 'b) ring_ops" and capacity :: nat
  assumes capacity_pos: "0 < capacity"
    and iter_new: "ring_iter R (ring_new R) = []"
    and iter_fill: "ring_iter R (ring_fill R x b) = replicate capacity x"
    and iter_enqueue: "length (ring_iter R b) \<le> capacity \<Longrightarrow> ring_iter R (ring_enqueue R x b) =
      (if length (ring_iter R b) < capacity then ring_iter R b else tl (ring_iter R b)) @ [x]"
    and iter_set_signed: "\<lbrakk>i < 0; - int (length (ring_iter R b)) \<le> i\<rbrakk> \<Longrightarrow>
      \<exists>b'. ring_set_signed R i x b = Some b' \<and>
           ring_iter R b' = (ring_iter R b)[nat (int (length (ring_iter R b)) + i) := x]"
begin

text \<open>Enqueueing into a full buffer drops as many of the oldest elements.\<close>

lemma full_enqueues:
  assumes "length (ring_iter R b) = capacity"
  shows "ring_iter R (((ring_enqueue R x) ^^ n) b) =
      drop n (ring_iter R b) @ replicate (min n capacity) x"
proof (induction n)
  case (Suc n)
  let ?b = "(ring_enqueue R x ^^ n) b"
  have "length (ring_iter R ?b) = capacity"
    using assms by (simp add: Suc.IH)
  then have "ring_iter R (ring_enqueue R x ?b) = tl (ring_iter R ?b) @ [x]"
    by (simp add: iter_enqueue)
  also have "\<dots> = drop (Suc n) (ring_iter R b) @ replicate (min (Suc n) capacity) x"
  proof (cases "n < capacity")
    case True
    then have "drop n (ring_iter R b) \<noteq> []"
      using assms by simp
    with True show ?thesis
      by (simp add: Suc.IH min_def drop_Suc tl_drop flip: replicate_append_same)
  next
    case False
    then show ?thesis
      using assms capacity_pos
      by (cases capacity) (simp_all add: Suc.IH min_def flip: replicate_append_same)
  qed
  finally show ?case by simp
qed (use assms in simp)

lemma full_enqueue_length:
  "length (ring_iter R b) = capacity \<Longrightarrow> length (ring_iter R (ring_enqueue R x b)) = capacity"
  using capacity_pos by (simp add: iter_enqueue)

end

definition list_ring :: "nat \<Rightarrow> ('a, 'a list) ring_ops" where
  "list_ring n = \<lparr>ring_new = [], ring_fill = (\<lambda>x _. replicate n x),
     ring_enqueue = (\<lambda>x b. (if length b < n then b else tl b) @ [x]),
     ring_set_signed = (\<lambda>i x b.
       if b = [] then None
       else Some (b[nat ((if i < 0 then int (length b) + i else i) mod int (length b)) := x])),
     ring_iter = (\<lambda>b. b)\<rparr>"

lemma ring_buffer_list_ring:
  assumes "0 < n"
  shows "ring_buffer (list_ring n) n"
proof
  fix i and b :: "'a list" and x
  assume i: "i < 0" "- int (length (ring_iter (list_ring n) b)) \<le> i"
  then have "(int (length b) + i) mod int (length b) = int (length b) + i"
    by (intro mod_pos_pos_trivial) (simp_all add: list_ring_def)
  with i show "\<exists>b'. ring_set_signed (list_ring n) i x b = Some b' \<and>
      ring_iter (list_ring n) b' =
        (ring_iter (list_ring n) b)[nat (int (length (ring_iter (list_ring n) b)) + i) := x]"
    by (auto simp: list_ring_def)
qed (use assms in \<open>auto simp: list_ring_def\<close>)

interpretation ack_ring: ring_buffer "list_ring 32" 32
  by (rule ring_buffer_list_ring) simp

section \<open>Index maps\<close>

text \<open>
  \<open>im_retain\<close> keeps the entries that satisfy a predicate; the crate visits them in the order of
  \<open>im_iter\<close>, which is the order in which a closure with effects sees them.
\<close>

record ('k, 'v, 'm) index_ops =
  im_new :: 'm
  im_insert :: "'k \<Rightarrow> 'v \<Rightarrow> 'm \<Rightarrow> 'm"
  im_get :: "'k \<Rightarrow> 'm \<Rightarrow> 'v option"
  im_swap_remove :: "'k \<Rightarrow> 'm \<Rightarrow> 'v option \<times> 'm"
  im_retain :: "('k \<Rightarrow> 'v \<Rightarrow> bool) \<Rightarrow> 'm \<Rightarrow> 'm"
  im_iter :: "'m \<Rightarrow> ('k \<times> 'v) list"

locale index_map =
  fixes I :: "('k, 'v, 'm) index_ops"
  assumes iter_new: "im_iter I (im_new I) = []"
    and iter_distinct: "distinct (map fst (im_iter I m))"
    and get_iter: "im_get I k m = map_of (im_iter I m) k"
    and iter_insert: "im_iter I (im_insert I k v m) =
      (if im_get I k m = None then im_iter I m @ [(k, v)]
       else map (\<lambda>(k', v'). if k' = k then (k', v) else (k', v')) (im_iter I m))"
    and swap_remove_value: "fst (im_swap_remove I k m) = im_get I k m"
    and swap_remove_get: "im_get I k' (snd (im_swap_remove I k m)) =
      (if k' = k then None else im_get I k' m)"
    and iter_retain: "im_iter I (im_retain I P m) = filter (\<lambda>(k, v). P k v) (im_iter I m)"
begin

lemma get_new [simp]: "im_get I k (im_new I) = None"
  by (simp add: get_iter iter_new)

lemma get_insert [simp]: "im_get I k' (im_insert I k v m) = (if k' = k then Some v else im_get I k' m)"
proof (cases "im_get I k m")
  case None
  then show ?thesis
    by (auto simp: get_iter iter_insert map_add_def split: option.splits)
next
  case (Some w)
  have "map_of (map (\<lambda>(k', v'). if k' = k then (k', v) else (k', v')) xs) k' =
      (if k' = k \<and> map_of xs k \<noteq> None then Some v else if k' = k then None else map_of xs k')" for xs
    by (induction xs) auto
  moreover have "map_of (im_iter I m) k \<noteq> None"
    using Some by (simp add: get_iter)
  ultimately show ?thesis
    using Some by (simp add: get_iter [of k'] iter_insert)
qed

lemma get_retain [simp]:
  "im_get I k (im_retain I P m) =
     (case im_get I k m of None \<Rightarrow> None | Some v \<Rightarrow> if P k v then Some v else None)"
proof -
  have "map_of (filter (\<lambda>(k, v). P k v) xs) k =
      (case map_of xs k of None \<Rightarrow> None | Some v \<Rightarrow> if P k v then Some v else None)"
    if "distinct (map fst xs)" for xs
    using that by (induction xs) (auto split: option.splits simp: map_of_eq_None_iff image_iff)
  then show ?thesis
    by (simp add: get_iter iter_retain iter_distinct)
qed

lemma in_iter_iff: "(k, v) \<in> set (im_iter I m) \<longleftrightarrow> im_get I k m = Some v"
  by (simp add: get_iter iter_distinct)

end

text \<open>
  The list implementation: \<open>swap_remove\<close> puts the last entry in the place of the removed one.
\<close>

fun swap_remove_entries :: "'k \<Rightarrow> ('k \<times> 'v) list \<Rightarrow> ('k \<times> 'v) list" where
  "swap_remove_entries k [] = []"
| "swap_remove_entries k (x # xs) =
     (if fst x = k then (if xs = [] then [] else last xs # butlast xs)
      else x # swap_remove_entries k xs)"

lemma set_swap_remove_entries:
  "distinct (map fst xs) \<Longrightarrow> set (swap_remove_entries k xs) = {x \<in> set xs. fst x \<noteq> k}"
proof (induction xs)
  case (Cons x xs)
  have "set (last xs # butlast xs) = set xs" if "xs \<noteq> []"
    using that by (metis append_butlast_last_id list.simps(15) set_append Un_insert_right
        list.set(1) sup_bot.right_neutral)
  with Cons show ?case by (auto simp: image_iff)
qed simp

lemma distinct_swap_remove_entries:
  "distinct (map fst xs) \<Longrightarrow> distinct (map fst (swap_remove_entries k xs))"
proof (induction xs)
  case (Cons x xs)
  have "distinct (map fst (last xs # butlast xs))" if "xs \<noteq> []"
  proof -
    have "mset (last xs # butlast xs) = mset xs"
      using that by (metis add_mset_add_single append_butlast_last_id mset.simps mset_append
          union_mset_add_mset_left add.commute add_0)
    then show ?thesis
      using Cons.prems by (metis distinct.simps(2) list.simps(9) mset_eq_imp_distinct_iff mset_map)
  qed
  with Cons show ?case by (auto simp: set_swap_remove_entries)
qed simp

lift_definition swap_remove_alist :: "'k \<Rightarrow> ('k, 'v) alist \<Rightarrow> ('k, 'v) alist"
  is swap_remove_entries
  by (simp add: distinct_swap_remove_entries)

definition alist_index_map :: "('k, 'v, ('k, 'v) alist) index_ops" where
  "alist_index_map = \<lparr>im_new = DAList.empty, im_insert = DAList.update,
     im_get = (\<lambda>k m. DAList.lookup m k),
     im_swap_remove = (\<lambda>k m. (DAList.lookup m k, swap_remove_alist k m)),
     im_retain = (\<lambda>P. DAList.filter (\<lambda>(k, v). P k v)),
     im_iter = DAList.impl_of\<rparr>"

lemma alist_update_entries:
  "distinct (map fst xs) \<Longrightarrow> AList.update k v xs =
     (if map_of xs k = None then xs @ [(k, v)]
      else map (\<lambda>(k', v'). if k' = k then (k', v) else (k', v')) xs)"
  by (induction xs) (auto simp: map_of_eq_None_iff image_iff intro!: map_idI [symmetric])

interpretation alist_index: index_map alist_index_map
proof
  fix k k' :: 'a and m :: "('a, 'b) alist"
  have "map_of (swap_remove_entries k (DAList.impl_of m)) k' =
      (if k' = k then None else map_of (DAList.impl_of m) k')"
  proof -
    have d: "distinct (map fst (DAList.impl_of m))"
      by simp
    show ?thesis
      using map_of_eq_Some_iff [OF distinct_swap_remove_entries [OF d, of k], of k']
        map_of_eq_Some_iff [OF d, of k'] set_swap_remove_entries [OF d, of k]
      by (cases "map_of (DAList.impl_of m) k'"; cases "map_of (swap_remove_entries k (DAList.impl_of m)) k'")
        auto
  qed
  then show "im_get alist_index_map k' (snd (im_swap_remove alist_index_map k m)) =
      (if k' = k then None else im_get alist_index_map k' m)"
    by (simp add: alist_index_map_def DAList.lookup.rep_eq swap_remove_alist.rep_eq)
next
  fix k :: 'a and v :: 'b and m :: "('a, 'b) alist"
  show "im_iter alist_index_map (im_insert alist_index_map k v m) =
      (if im_get alist_index_map k m = None then im_iter alist_index_map m @ [(k, v)]
       else map (\<lambda>(k', v'). if k' = k then (k', v) else (k', v')) (im_iter alist_index_map m))"
    by (simp add: alist_index_map_def DAList.lookup.rep_eq DAList.update.rep_eq alist_update_entries
        map_of_eq_None_iff)
qed (simp_all add: alist_index_map_def DAList.lookup.rep_eq DAList.empty.rep_eq DAList.filter.rep_eq)

end
