(* ===== verification/Packet_Header.thy ===== *)
theory Packet_Header
  imports Wrapping_Id Tick Ready_Buffer Collections
begin

text \<open>
  Packet headers and acknowledgements: the packet types (\<open>packet_type.rs\<close>), the loss timeout
  (\<open>nack.rs\<close>), the header codec, the receive buffer behind the acknowledgement bitfield and the
  header manager (\<open>header.rs\<close>), all under \<open>crates/transport/transport/src/packet/\<close>. The ring
  buffer and the index maps are arguments of the operations (theory \<open>Collections\<close>). A 32-bit
  float is an abstract type \<open>'f\<close>, and the standard library's \<open>Duration::mul_f32\<close>, which panics
  when the product is not a duration, an argument that returns an option.
\<close>

section \<open>Packet types\<close>

datatype packet_type = Data | DataFragment | DataCompressed | DataFragmentCompressed | AckOnly

definition packet_type_as_u8 :: "packet_type \<Rightarrow> u8" where
  "packet_type_as_u8 t =
     (case t of Data \<Rightarrow> 0 | DataFragment \<Rightarrow> 1 | DataCompressed \<Rightarrow> 2
      | DataFragmentCompressed \<Rightarrow> 3 | AckOnly \<Rightarrow> 4)"

definition packet_type_try_from :: "u8 \<Rightarrow> packet_type serde_result" where
  "packet_type_try_from v =
     (if v = 0 then Inr Data else if v = 1 then Inr DataFragment
      else if v = 2 then Inr DataCompressed else if v = 3 then Inr DataFragmentCompressed
      else if v = 4 then Inr AckOnly else Inl InvalidPacketType)"

definition is_compressed :: "packet_type \<Rightarrow> bool" where
  "is_compressed t = (t = DataCompressed \<or> t = DataFragmentCompressed)"

definition compressed_variant :: "packet_type \<Rightarrow> packet_type option" where
  "compressed_variant t =
     (case t of Data \<Rightarrow> Some DataCompressed | DataFragment \<Rightarrow> Some DataFragmentCompressed
      | DataCompressed \<Rightarrow> None | DataFragmentCompressed \<Rightarrow> None | AckOnly \<Rightarrow> None)"

definition uncompressed_variant :: "packet_type \<Rightarrow> packet_type" where
  "uncompressed_variant t =
     (case t of Data \<Rightarrow> Data | DataCompressed \<Rightarrow> Data | DataFragment \<Rightarrow> DataFragment
      | DataFragmentCompressed \<Rightarrow> DataFragment | AckOnly \<Rightarrow> AckOnly)"

definition is_ack_eliciting :: "packet_type \<Rightarrow> bool" where
  "is_ack_eliciting t = (t \<noteq> AckOnly)"

section \<open>Loss timeout\<close>

record link_stats =
  rtt :: duration
  jitter :: duration

record 'f packet_nack_settings =
  rtt_multiplier :: 'f
  jitter_multiplier :: 'f
  minimum_timeout :: duration
  maximum_timeout :: duration

definition duration_max :: duration where
  "duration_max = (2 ^ 64 - 1) * 1000000000 + 999999999"

definition nack_timeout ::
  "(duration \<Rightarrow> 'f \<Rightarrow> duration option) \<Rightarrow> 'f packet_nack_settings \<Rightarrow> link_stats \<Rightarrow> duration option"
where
  "nack_timeout mul_f32 s ls =
     (case mul_f32 (rtt ls) (rtt_multiplier s) of
        None \<Rightarrow> None
      | Some a \<Rightarrow>
          (case mul_f32 (jitter ls) (jitter_multiplier s) of
             None \<Rightarrow> None
           | Some b \<Rightarrow>
               Some (max (min (min (a + b) duration_max) (maximum_timeout s)) (minimum_timeout s))))"

section \<open>Packet headers\<close>

type_synonym packet_id = wrapping_id

record packet_header =
  hd_packet_type :: packet_type
  hd_packet_id :: packet_id
  last_ack_packet_id :: packet_id
  ack_bitfield :: u32
  hd_tick :: tick

definition header_bytes_len :: "packet_header \<Rightarrow> nat option" where
  "header_bytes_len h =
     (case (wid_bytes_len (hd_packet_id h), wid_bytes_len (last_ack_packet_id h),
            tick_bytes_len (hd_tick h)) of
        (Some a, Some b, Some c) \<Rightarrow> Some (1 + a + b + 4 + c)
      | _ \<Rightarrow> None)"

definition header_to_bytes :: "packet_header \<Rightarrow> bytes \<Rightarrow> bytes serde_result" where
  "header_to_bytes h buf =
     and_then (write_u8 (packet_type_as_u8 (hd_packet_type h)) buf) (\<lambda>buf.
     and_then (write_u16 (hd_packet_id h) buf) (\<lambda>buf.
     and_then (write_u16 (last_ack_packet_id h) buf) (\<lambda>buf.
     and_then (write_u32 (ack_bitfield h) buf) (\<lambda>buf.
     write_u32 (hd_tick h) buf))))"

definition header_from_bytes :: "reader \<Rightarrow> (packet_header \<times> reader) serde_result" where
  "header_from_bytes r =
     and_then (read_u8 r) (\<lambda>(packet_type, r).
     and_then (read_u16 r) (\<lambda>(packet_id, r).
     and_then (read_u16 r) (\<lambda>(last_ack, r).
     and_then (read_u32 r) (\<lambda>(bitfield, r).
     and_then (read_u32 r) (\<lambda>(tick, r).
     and_then (packet_type_try_from packet_type) (\<lambda>t.
     Inr (\<lparr>hd_packet_type = t, hd_packet_id = packet_id, last_ack_packet_id = last_ack,
           ack_bitfield = bitfield, hd_tick = tick\<rparr>, r)))))))"

definition header_BYTES :: nat where
  "header_BYTES = 13"

definition read_from_prefix :: "bytes \<Rightarrow> packet_header serde_result" where
  "read_from_prefix bs =
     (if length bs < header_BYTES then Inl InvalidValue
      else and_then (packet_type_try_from (bs ! 0)) (\<lambda>t.
        Inr \<lparr>hd_packet_type = t,
             hd_packet_id = word_of_nat (be_nat (take 2 (drop 1 bs))),
             last_ack_packet_id = word_of_nat (be_nat (take 2 (drop 3 bs))),
             ack_bitfield = word_of_nat (be_nat (take 4 (drop 5 bs))),
             hd_tick = word_of_nat (be_nat (take 4 (drop 9 bs)))\<rparr>))"

definition get_bitfield_bit :: "packet_header \<Rightarrow> nat \<Rightarrow> bool" where
  "get_bitfield_bit h i = (ack_bitfield h AND push_bit i 1 \<noteq> 0)"

section \<open>The receive buffer\<close>

definition ACK_BITFIELD_SIZE :: nat where
  "ACK_BITFIELD_SIZE = 32"

record 'b receive_buffer =
  last_recv_packet_id :: "packet_id option"
  rb_buffer :: 'b

definition receive_buffer_new :: "(bool, 'b) ring_ops \<Rightarrow> 'b receive_buffer" where
  "receive_buffer_new R =
     \<lparr>last_recv_packet_id = None, rb_buffer = ring_fill R False (ring_new R)\<rparr>"

text \<open>\<open>None\<close> stands for the panic of \<open>expect\<close>.\<close>

definition recv_packet ::
  "(bool, 'b) ring_ops \<Rightarrow> packet_id \<Rightarrow> 'b receive_buffer \<Rightarrow> 'b receive_buffer option" where
  "recv_packet R pid b =
     (case last_recv_packet_id b of
        None \<Rightarrow> Some (b\<lparr>last_recv_packet_id := Some pid\<rparr>)
      | Some last_id \<Rightarrow>
          (let bitfield_size = int ACK_BITFIELD_SIZE; diff = wid_sub last_id pid in
           if diff > bitfield_size then Some b
           else if diff > 0 then
             map_option (\<lambda>buf. b\<lparr>rb_buffer := buf\<rparr>) (ring_set_signed R (- diff) True (rb_buffer b))
           else if diff < 0 then
             (let buf = (if diff < - (bitfield_size + 1) then ring_fill R False (rb_buffer b)
                         else (ring_enqueue R False ^^ nat (\<bar>diff\<bar> - 1))
                                (ring_enqueue R True (rb_buffer b)))
              in Some (b\<lparr>rb_buffer := buf, last_recv_packet_id := Some pid\<rparr>))
           else Some b))"

definition get_bitfield :: "(bool, 'b) ring_ops \<Rightarrow> 'b receive_buffer \<Rightarrow> u32" where
  "get_bitfield R b =
     fst (fold (\<lambda>exists (bitfield, mask).
             (if exists then bitfield OR mask else bitfield, drop_bit 1 mask))
           (ring_iter R (rb_buffer b)) (0, push_bit (ACK_BITFIELD_SIZE - 1) 1))"

section \<open>The header manager\<close>

record ('f, 'b, 'm) packet_header_manager =
  next_packet_id :: packet_id
  sent_packets_not_acked :: 'm
  stats_manager :: "'f packet_stats_manager"
  lost_packets :: "packet_id list"
  newly_acked_packets :: 'm
  newly_acked_packet_scratch :: "(packet_id \<times> duration) list"
  recv_buffer :: "'b receive_buffer"
  ack_pending :: bool
  nack_settings :: "'f packet_nack_settings"

definition with_nack_settings ::
  "(bool, 'b) ring_ops \<Rightarrow> (packet_id, duration, 'm) index_ops \<Rightarrow> 'f \<Rightarrow> 'f packet_nack_settings \<Rightarrow>
   ('f, 'b, 'm) packet_header_manager" where
  "with_nack_settings R I zero s =
     \<lparr>next_packet_id = 0, sent_packets_not_acked = im_new I,
      stats_manager = psm_new zero 5000000000, lost_packets = [],
      newly_acked_packets = im_new I, newly_acked_packet_scratch = [],
      recv_buffer = receive_buffer_new R, ack_pending = False, nack_settings = s\<rparr>"

text \<open>Whether \<open>update\<close> gives a sent packet up: the condition of its \<open>retain\<close> closure.\<close>

definition packet_got_lost :: "duration \<Rightarrow> duration \<Rightarrow> packet_id \<Rightarrow> packet_id \<Rightarrow> duration \<Rightarrow> bool" where
  "packet_got_lost real nack_duration next packet_id time_sent =
     (real - time_sent > nack_duration \<or> wid_sub next packet_id > 32767 div 3)"

definition phm_update ::
  "(packet_id, duration, 'm) index_ops \<Rightarrow> (duration \<Rightarrow> 'f \<Rightarrow> duration option) \<Rightarrow> (u32 \<Rightarrow> u32 \<Rightarrow> 'f) \<Rightarrow>
   duration \<Rightarrow> link_stats \<Rightarrow> ('f, 'b, 'm) packet_header_manager \<Rightarrow>
   ('f, 'b, 'm) packet_header_manager option" where
  "phm_update I mul_f32 ratio real ls m =
     (let m = m\<lparr>stats_manager := psm_update ratio real (stats_manager m)\<rparr> in
      case nack_timeout mul_f32 (nack_settings m) ls of
        None \<Rightarrow> None
      | Some nack_duration \<Rightarrow>
          (let gone = packet_got_lost real nack_duration (next_packet_id m);
               lost = map fst (filter (\<lambda>(p, t). gone p t) (im_iter I (sent_packets_not_acked m)))
           in Some (m\<lparr>
                sent_packets_not_acked :=
                  im_retain I (\<lambda>p t. \<not> gone p t) (sent_packets_not_acked m),
                lost_packets := lost_packets m @ lost,
                stats_manager := (sent_packet_lost ^^ length lost) (stats_manager m)\<rparr>)))"

definition record_newly_acked_packet ::
  "(packet_id, duration, 'm) index_ops \<Rightarrow> packet_id \<Rightarrow> duration \<Rightarrow> duration \<Rightarrow>
   ('f, 'b, 'm) packet_header_manager \<Rightarrow> ('f, 'b, 'm) packet_header_manager" where
  "record_newly_acked_packet I packet real time_sent m =
     (let m = m\<lparr>stats_manager := sent_packet_acked (stats_manager m)\<rparr>;
          rtt_sample = real - time_sent;
          m = m\<lparr>newly_acked_packets := im_insert I packet rtt_sample (newly_acked_packets m)\<rparr>
      in m\<lparr>newly_acked_packet_scratch := newly_acked_packet_scratch m @ [(packet, rtt_sample)]\<rparr>)"

definition update_sent_packets_not_acked ::
  "(packet_id, duration, 'm) index_ops \<Rightarrow> packet_id \<Rightarrow> ('f, 'b, 'm) packet_header_manager \<Rightarrow>
   (packet_id \<times> duration) option \<times> ('f, 'b, 'm) packet_header_manager" where
  "update_sent_packets_not_acked I p m =
     (if im_get I p (sent_packets_not_acked m) \<noteq> None then
        (let (v, sent) = im_swap_remove I p (sent_packets_not_acked m);
             m = m\<lparr>sent_packets_not_acked := sent\<rparr>
         in case v of None \<Rightarrow> (None, m) | Some time_sent \<Rightarrow> (Some (p, time_sent), m))
      else (None, m))"

text \<open>One \<open>if let\<close> of \<open>process_recv_packet_header\<close>: take the packet out and record it.\<close>

definition ack_packet ::
  "(packet_id, duration, 'm) index_ops \<Rightarrow> duration \<Rightarrow> packet_id \<Rightarrow>
   ('f, 'b, 'm) packet_header_manager \<Rightarrow> ('f, 'b, 'm) packet_header_manager" where
  "ack_packet I real p m =
     (case update_sent_packets_not_acked I p m of
        (Some (packet, time_sent), m) \<Rightarrow> record_newly_acked_packet I packet real time_sent m
      | (None, m) \<Rightarrow> m)"

definition process_recv_packet_header ::
  "(bool, 'b) ring_ops \<Rightarrow> (packet_id, duration, 'm) index_ops \<Rightarrow> packet_header \<Rightarrow> duration \<Rightarrow>
   ('f, 'b, 'm) packet_header_manager \<Rightarrow>
   ((packet_id \<times> duration) list \<times> ('f, 'b, 'm) packet_header_manager) option" where
  "process_recv_packet_header R I header real m =
     (let m = m\<lparr>newly_acked_packet_scratch := []\<rparr>;
          m = m\<lparr>stats_manager := received_packet (stats_manager m)\<rparr>
      in case recv_packet R (hd_packet_id header) (recv_buffer m) of
           None \<Rightarrow> None
         | Some b \<Rightarrow>
             (let m = m\<lparr>recv_buffer := b,
                        ack_pending := ack_pending m \<or> is_ack_eliciting (hd_packet_type header)\<rparr>;
                  m = ack_packet I real (packet_header.last_ack_packet_id header) m;
                  m = fold (\<lambda>i m.
                        if get_bitfield_bit header (i - 1)
                        then ack_packet I real
                               (packet_header.last_ack_packet_id header - word_of_nat i) m
                        else m) [1..<ACK_BITFIELD_SIZE + 1] m
              in Some (newly_acked_packet_scratch m, m)))"

definition preview_send_packet_header ::
  "(bool, 'b) ring_ops \<Rightarrow> packet_type \<Rightarrow> tick \<Rightarrow> ('f, 'b, 'm) packet_header_manager \<Rightarrow> packet_header"
where
  "preview_send_packet_header R t tick m =
     (let last_ack = (case last_recv_packet_id (recv_buffer m) of Some p \<Rightarrow> p | None \<Rightarrow> 65535)
      in \<lparr>hd_packet_type = t, hd_packet_id = next_packet_id m, last_ack_packet_id = last_ack,
          ack_bitfield = get_bitfield R (recv_buffer m), hd_tick = tick\<rparr>)"

definition commit_send_packet ::
  "(packet_id, duration, 'm) index_ops \<Rightarrow> packet_id \<Rightarrow> duration \<Rightarrow>
   ('f, 'b, 'm) packet_header_manager \<Rightarrow> ('f, 'b, 'm) packet_header_manager" where
  "commit_send_packet I p real m =
     m\<lparr>stats_manager := sent_ack_eliciting_packet (stats_manager m),
       sent_packets_not_acked := im_insert I p real (sent_packets_not_acked m),
       next_packet_id := wid_add_assign (next_packet_id m) 1,
       ack_pending := False\<rparr>"

definition commit_send_ack_only ::
  "packet_id \<Rightarrow> ('f, 'b, 'm) packet_header_manager \<Rightarrow> ('f, 'b, 'm) packet_header_manager" where
  "commit_send_ack_only p m =
     m\<lparr>stats_manager := sent_ack_only_packet (stats_manager m),
       next_packet_id := wid_add_assign (next_packet_id m) 1,
       ack_pending := False\<rparr>"

definition has_pending_ack :: "('f, 'b, 'm) packet_header_manager \<Rightarrow> bool" where
  "has_pending_ack m = ack_pending m"

section \<open>The header on the wire\<close>

definition header_enc :: "packet_header \<Rightarrow> bytes" where
  "header_enc h = packet_type_as_u8 (hd_packet_type h) # be_bytes 2 (unat (hd_packet_id h)) @
     be_bytes 2 (unat (packet_header.last_ack_packet_id h)) @ be_bytes 4 (unat (ack_bitfield h)) @
     be_bytes 4 (unat (hd_tick h))"

lemma packet_type_roundtrip [simp]: "packet_type_try_from (packet_type_as_u8 t) = Inr t"
  by (cases t) (simp_all add: packet_type_try_from_def packet_type_as_u8_def)

lemma length_header_enc [simp]: "length (header_enc h) = 13"
  by (simp add: header_enc_def)

lemma header_from_bytes_append:
  assumes "remaining_slice r = header_enc h @ rest"
  shows "header_from_bytes r = Inr (h, skip 13 r)"
proof -
  from assms have r: "remaining_slice r = packet_type_as_u8 (hd_packet_type h) #
      be_bytes 2 (unat (hd_packet_id h)) @ be_bytes 2 (unat (packet_header.last_ack_packet_id h)) @
      be_bytes 4 (unat (ack_bitfield h)) @ be_bytes 4 (unat (hd_tick h)) @ rest"
    by (simp add: header_enc_def)
  have "read_u8 r = Inr (packet_type_as_u8 (hd_packet_type h), skip 1 r)"
    using r by (rule read_u8_append)
  moreover have "read_u16 (skip 1 r) = Inr (hd_packet_id h, skip 2 (skip 1 r))"
    by (rule read_u16_append) (simp add: r)
  moreover have "read_u16 (skip 3 r) = Inr (packet_header.last_ack_packet_id h, skip 2 (skip 3 r))"
    by (rule read_u16_append) (simp add: r)
  moreover have "read_u32 (skip 5 r) = Inr (ack_bitfield h, skip 4 (skip 5 r))"
    by (rule read_u32_append) (simp add: r)
  moreover have "read_u32 (skip 9 r) = Inr (hd_tick h, skip 4 (skip 9 r))"
    by (rule read_u32_append) (simp add: r)
  ultimately show "header_from_bytes r = Inr (h, skip 13 r)"
    by (simp add: header_from_bytes_def eval_nat_numeral)
qed

interpretation header_codec: codec header_bytes_len header_to_bytes header_from_bytes header_enc "\<lambda>_. True"
  by unfold_locales
    (simp_all add: header_from_bytes_append header_bytes_len_def wid_bytes_len_def
      tick_bytes_len_def header_to_bytes_def write_defs header_enc_def)

lemma header_read_from_prefix: "read_from_prefix (header_enc h @ payload) = Inr h"
  by (simp add: read_from_prefix_def header_BYTES_def header_enc_def word_of_be_nat)

text \<open>
  A packet header takes exactly 13 bytes on the wire, the number its \<open>bytes_len\<close> announces,
  and the receiver reads the same header back from the front of every packet, both through the
  reader, which ends up right after the header, and from the borrowed payload.
\<close>

theorem packet_header_roundtrip:
  "\<exists>wire. header_to_bytes h buf = Inr (buf @ wire) \<and> length wire = header_BYTES \<and>
     header_bytes_len h = Some (length wire) \<and>
     header_from_bytes (reader_from (wire @ payload)) =
       Inr (h, \<lparr>rd_buf = wire @ payload, rd_pos = 13\<rparr>) \<and>
     read_from_prefix (wire @ payload) = Inr h"
proof (intro exI conjI)
  show "header_to_bytes h buf = Inr (buf @ header_enc h)"
    by (rule header_codec.put_ok) simp
  show "header_bytes_len h = Some (length (header_enc h))"
    by (rule header_codec.blen_ok) simp
  show "header_from_bytes (reader_from (header_enc h @ payload)) =
      Inr (h, \<lparr>rd_buf = header_enc h @ payload, rd_pos = 13\<rparr>)"
    using header_from_bytes_append [of "reader_from (header_enc h @ payload)" h payload]
    by (simp add: reader_from_def remaining_slice_def skip_def)
qed (simp_all add: header_BYTES_def header_read_from_prefix)

section \<open>The receive buffer against the set of received packets\<close>

text \<open>
  Packets are numbered by an unbounded counter, of which the identifier keeps 16 bits. The
  abstract state of a receiver is the newest counter received and the set of all of them.
  \<open>within_window\<close> says that every packet arrives while the newest one is less than half of the
  identifier range away.
\<close>

definition recv_all ::
  "(bool, 'b) ring_ops \<Rightarrow> packet_id list \<Rightarrow> 'b receive_buffer \<Rightarrow> 'b receive_buffer option" where
  "recv_all R ids b =
     foldl (\<lambda>acc p. case acc of None \<Rightarrow> None | Some b \<Rightarrow> recv_packet R p b) (Some b) ids"

fun within_window :: "nat option \<Rightarrow> nat list \<Rightarrow> bool" where
  "within_window newest [] = True"
| "within_window None (n # ns) = within_window (Some n) ns"
| "within_window (Some m) (n # ns) =
     (\<bar>int n - int m\<bar> < 2 ^ 15 \<and> within_window (Some (max m n)) ns)"

definition recv_inv ::
  "(bool, 'b) ring_ops \<Rightarrow> nat option \<Rightarrow> nat set \<Rightarrow> 'b receive_buffer \<Rightarrow> bool" where
  "recv_inv R newest S b \<longleftrightarrow>
     length (ring_iter R (rb_buffer b)) = 32 \<and>
     last_recv_packet_id b = map_option wid_of newest \<and>
     (case newest of
        None \<Rightarrow> S = {} \<and> ring_iter R (rb_buffer b) = replicate 32 False
      | Some m \<Rightarrow> m \<in> S \<and> (\<forall>s \<in> S. s \<le> m) \<and>
          (\<forall>i < 32. ring_iter R (rb_buffer b) ! (31 - i) \<longleftrightarrow> (\<exists>s \<in> S. s + i + 1 = m)))"

lemma get_bitfield_fold:
  fixes acc :: u32
  assumes "length xs = Suc m" and "m < 32"
  shows "bit (fst (fold (\<lambda>exists (bitfield, mask).
      (if exists then bitfield OR mask else bitfield, drop_bit 1 mask)) xs (acc, push_bit m 1))) i \<longleftrightarrow>
    bit acc i \<or> i \<le> m \<and> xs ! (m - i)"
  using assms
proof (induction xs arbitrary: m acc)
  case (Cons x xs)
  have mask: "bit (push_bit m 1 :: u32) i \<longleftrightarrow> i = m"
    using Cons.prems(2) by (auto simp: bit_simps)
  show ?case
  proof (cases m)
    case 0
    then show ?thesis
      using Cons.prems mask by (auto simp: bit_simps)
  next
    case (Suc k)
    have "drop_bit 1 (push_bit m 1 :: u32) = push_bit k 1"
      using Cons.prems(2) Suc by (intro bit_word_eqI) (auto simp: bit_simps)
    then show ?thesis
      using Cons.IH [of k "if x then acc OR push_bit m 1 else acc"] Cons.prems Suc mask
      by (auto simp: bit_simps nth_Cons' Suc_diff_le le_Suc_eq)
  qed
qed simp

lemma bit_get_bitfield:
  assumes "length (ring_iter R (rb_buffer b)) = 32"
  shows "bit (get_bitfield R b) i \<longleftrightarrow> i < 32 \<and> ring_iter R (rb_buffer b) ! (31 - i)"
  using get_bitfield_fold [of "ring_iter R (rb_buffer b)" 31 0 i] assms
  by (auto simp: get_bitfield_def ACK_BITFIELD_SIZE_def)

context ring_buffer
begin

lemma enqueue_run:
  assumes "length (ring_iter R b) = capacity" and "n < capacity"
  shows "ring_iter R ((ring_enqueue R y ^^ n) (ring_enqueue R x b)) =
    drop (Suc n) (ring_iter R b) @ x # replicate n y"
proof -
  have "ring_iter R (ring_enqueue R x b) = tl (ring_iter R b) @ [x]"
    using assms by (simp add: iter_enqueue)
  moreover have "length (ring_iter R (ring_enqueue R x b)) = capacity"
    using assms(1) by (rule full_enqueue_length)
  ultimately show ?thesis
    using assms by (simp add: full_enqueues min_def drop_Suc)
qed

end

text \<open>The ring buffer of the receive buffer: 32 booleans.\<close>

locale ack_ring_buffer = ring_buffer R 32
  for R :: "(bool, 'b) ring_ops"
begin

lemma enqueue_run_33:
  assumes "length (ring_iter R b) = 32"
  shows "ring_iter R ((ring_enqueue R y ^^ 32) (ring_enqueue R x b)) = replicate 32 y"
  using assms full_enqueues [OF full_enqueue_length [OF assms], of 32 y x]
    full_enqueue_length [OF assms] by simp

lemma recv_inv_new: "recv_inv R None {} (receive_buffer_new R)"
  by (simp add: recv_inv_def receive_buffer_new_def iter_fill)

lemma recv_inv_first:
  assumes "recv_inv R None S b"
  shows "\<exists>b'. recv_packet R (wid_of n) b = Some b' \<and> recv_inv R (Some n) (insert n S) b'"
  using assms by (auto simp: recv_inv_def recv_packet_def)

lemma recv_inv_old:
  assumes inv: "recv_inv R (Some m) S b" and "n \<le> m" and near: "\<bar>int m - int n\<bar> < 2 ^ 15"
  shows "\<exists>b'. recv_packet R (wid_of n) b = Some b' \<and> recv_inv R (Some m) (insert n S) b'"
proof -
  have diff: "wid_sub (wid_of m) (wid_of n) = int m - int n"
    by (rule wid_sub_of [OF near])
  have last_id: "last_recv_packet_id b = Some (wid_of m)"
    and len: "length (ring_iter R (rb_buffer b)) = 32"
    using inv by (simp_all add: recv_inv_def)
  consider "m = n" | "32 < m - n" | "n < m" "m - n \<le> 32"
    using \<open>n \<le> m\<close> by linarith
  then show ?thesis
  proof cases
    case 3
    define d where "d = m - n"
    have d: "0 < d" "d \<le> 32" "m = n + d" "wid_sub (wid_of m) (wid_of n) = int d"
      using 3 diff by (auto simp: d_def of_nat_diff)
    obtain buf where buf: "ring_set_signed R (- int d) True (rb_buffer b) = Some buf"
      "ring_iter R buf = (ring_iter R (rb_buffer b))[nat (32 - int d) := True]"
      using iter_set_signed [of "- int d" "rb_buffer b" True] d len by auto
    have pos: "nat (32 - int d) = 32 - d"
      using d by linarith
    have "ring_iter R buf ! (31 - i) \<longleftrightarrow> n + i + 1 = m \<or> ring_iter R (rb_buffer b) ! (31 - i)"
      if "i < 32" for i
    proof -
      have "31 - i = 32 - d \<longleftrightarrow> n + i + 1 = m"
        using that d by auto
      moreover have "32 - d < length (ring_iter R (rb_buffer b))"
        using len d by simp
      ultimately show ?thesis
        by (simp add: buf(2) pos nth_list_update eq_commute [of "32 - d"])
    qed
    then have "recv_inv R (Some m) (insert n S) (b\<lparr>rb_buffer := buf\<rparr>)"
      using inv \<open>n \<le> m\<close> by (auto simp: recv_inv_def buf(2))
    moreover have "recv_packet R (wid_of n) b = Some (b\<lparr>rb_buffer := buf\<rparr>)"
      using d(1,2) buf(1) by (simp add: recv_packet_def last_id Let_def d(4) ACK_BITFIELD_SIZE_def)
    ultimately show ?thesis by blast
  next
    case 1
    then have "recv_packet R (wid_of n) b = Some b" and "insert n S = S"
      using inv diff by (auto simp: recv_inv_def recv_packet_def)
    then show ?thesis using inv by simp
  next
    case 2
    then have "32 < int m - int n"
      by linarith
    then have "recv_packet R (wid_of n) b = Some b"
      using diff last_id by (simp add: recv_packet_def ACK_BITFIELD_SIZE_def Let_def)
    moreover have "recv_inv R (Some m) (insert n S) b"
      using inv 2 by (auto simp: recv_inv_def)
    ultimately show ?thesis by blast
  qed
qed

lemma recv_inv_newer:
  assumes inv: "recv_inv R (Some m) S b" and "m < n" and near: "\<bar>int m - int n\<bar> < 2 ^ 15"
  shows "\<exists>b'. recv_packet R (wid_of n) b = Some b' \<and> recv_inv R (Some n) (insert n S) b'"
proof -
  let ?xs = "ring_iter R (rb_buffer b)"
  have last_id: "last_recv_packet_id b = Some (wid_of m)" and len: "length ?xs = 32"
    using inv by (simp_all add: recv_inv_def)
  define d where "d = n - m"
  have n: "n = m + d" "0 < d" using \<open>m < n\<close> by (auto simp: d_def)
  have diff: "wid_sub (wid_of m) (wid_of n) = - int d"
    using wid_sub_of [OF near] n(1) by simp
  define buf where "buf = (if 33 < d then ring_fill R False (rb_buffer b)
    else (ring_enqueue R False ^^ (d - 1)) (ring_enqueue R True (rb_buffer b)))"
  have recv: "recv_packet R (wid_of n) b = Some (b\<lparr>rb_buffer := buf, last_recv_packet_id := Some (wid_of n)\<rparr>)"
    using n(2) by (simp add: recv_packet_def last_id Let_def diff ACK_BITFIELD_SIZE_def buf_def nat_diff_distrib)
  have iter: "ring_iter R buf =
      (if d \<le> 32 then drop d ?xs @ True # replicate (d - 1) False else replicate 32 False)"
  proof -
    consider "d \<le> 32" | "d = 33" | "33 < d" by linarith
    then show ?thesis
    proof cases
      case 1
      then show ?thesis
        using enqueue_run [OF len, of "d - 1"] n by (simp add: buf_def)
    qed (use enqueue_run_33 [OF len] in \<open>simp_all add: buf_def iter_fill\<close>)
  qed
  have len': "length (ring_iter R buf) = 32"
    using len n by (simp add: iter)
  have bits: "ring_iter R buf ! (31 - i) \<longleftrightarrow> (\<exists>s \<in> insert n S. s + i + 1 = n)" if "i < 32" for i
  proof -
    have S: "m \<in> S" "\<forall>s \<in> S. s \<le> m" and old: "\<And>j. j < 32 \<Longrightarrow> ?xs ! (31 - j) \<longleftrightarrow> (\<exists>s \<in> S. s + j + 1 = m)"
      using inv by (simp_all add: recv_inv_def)
    consider "i + 1 < d" | "i + 1 = d" | "d < i + 1" by linarith
    then show ?thesis
    proof cases
      case 1
      then have "\<not> (\<exists>s \<in> insert n S. s + i + 1 = n)"
        using S(2) n by fastforce
      moreover have "\<not> ring_iter R buf ! (31 - i)"
        using 1 \<open>i < 32\<close> len by (auto simp: iter nth_append nth_Cons')
      ultimately show ?thesis by blast
    next
      case 2
      then show ?thesis
        using S n \<open>i < 32\<close> len by (auto simp: iter nth_append nth_Cons')
    next
      case 3
      then have "ring_iter R buf ! (31 - i) \<longleftrightarrow> ?xs ! (31 - (i - d))"
        using \<open>i < 32\<close> len diff_less_mono2 [of d "Suc i" 32]
        by (simp add: iter nth_append Suc_diff_le add.commute)
      also have "\<dots> \<longleftrightarrow> (\<exists>s \<in> S. s + (i - d) + 1 = m)"
        using \<open>i < 32\<close> by (intro old) simp
      also have "\<dots> \<longleftrightarrow> (\<exists>s \<in> insert n S. s + i + 1 = n)"
      proof -
        have "s + (i - d) + 1 = m \<longleftrightarrow> s + i + 1 = n" for s
          using 3 n by linarith
        then show ?thesis by simp
      qed
      finally show ?thesis .
    qed
  qed
  have "recv_inv R (Some n) (insert n S) (b\<lparr>rb_buffer := buf, last_recv_packet_id := Some (wid_of n)\<rparr>)"
    using inv \<open>m < n\<close> len' bits by (auto simp: recv_inv_def)
  with recv show ?thesis by blast
qed

text \<open>Without any assumption on the identifiers, receiving keeps the ring full and never panics.\<close>

lemma recv_packet_total:
  assumes "length (ring_iter R (rb_buffer b)) = 32"
  shows "\<exists>b'. recv_packet R p b = Some b' \<and> length (ring_iter R (rb_buffer b')) = 32"
proof (cases "last_recv_packet_id b")
  case (Some q)
  have enqueues: "length (ring_iter R ((ring_enqueue R x ^^ k) (ring_enqueue R y (rb_buffer b)))) = 32" for x y k
    using full_enqueue_length [OF assms, of y] by (simp add: full_enqueues)
  show ?thesis
  proof (cases "0 < wid_sub q p \<and> wid_sub q p \<le> 32")
    case True
    then show ?thesis
      using iter_set_signed [of "- wid_sub q p" "rb_buffer b" True] Some assms
      by (auto simp: recv_packet_def Let_def ACK_BITFIELD_SIZE_def)
  qed (use Some assms enqueues in
      \<open>auto simp: recv_packet_def Let_def ACK_BITFIELD_SIZE_def iter_fill\<close>)
qed (use assms in \<open>auto simp: recv_packet_def\<close>)

lemma recv_inv_step:
  assumes "recv_inv R newest S b" and "within_window newest (n # ns)"
  shows "\<exists>b' m. recv_packet R (wid_of n) b = Some b' \<and> recv_inv R (Some m) (insert n S) b' \<and>
    within_window (Some m) ns"
proof (cases newest)
  case None
  then show ?thesis
    using assms recv_inv_first by fastforce
next
  case (Some m)
  then have near: "\<bar>int m - int n\<bar> < 2 ^ 15" and rest: "within_window (Some (max m n)) ns"
    using assms(2) by (simp_all add: abs_minus_commute)
  show ?thesis
  proof (cases "n \<le> m")
    case True
    then show ?thesis
      using recv_inv_old [OF assms(1) [unfolded Some] True near] rest by (auto simp: max_def)
  next
    case False
    then show ?thesis
      using recv_inv_newer [OF assms(1) [unfolded Some] _ near] rest by (auto simp: max_def)
  qed
qed

lemma recv_inv_run:
  assumes "recv_inv R newest S b" and "within_window newest ns"
  shows "\<exists>b' newest'. recv_all R (map wid_of ns) b = Some b' \<and> recv_inv R newest' (S \<union> set ns) b'"
  using assms
proof (induction ns arbitrary: newest S b)
  case (Cons n ns)
  obtain b' m where step: "recv_packet R (wid_of n) b = Some b'"
    "recv_inv R (Some m) (insert n S) b'" "within_window (Some m) ns"
    using recv_inv_step [OF Cons.prems] by blast
  then show ?case
    using Cons.IH [OF step(2,3)] by (auto simp: recv_all_def)
qed (auto simp: recv_all_def)

text \<open>The state a receiver is in after any run of packets, and what its bitfield says.\<close>

lemma recv_run_bitfield:
  assumes "within_window None ns" and "ns \<noteq> []"
  obtains b where "recv_all R (map wid_of ns) (receive_buffer_new R) = Some b"
    and "last_recv_packet_id b = Some (wid_of (Max (set ns)))"
    and "\<And>i. bit (get_bitfield R b) i \<longleftrightarrow> i < 32 \<and> (\<exists>n \<in> set ns. n + i + 1 = Max (set ns))"
proof -
  obtain b newest where b: "recv_all R (map wid_of ns) (receive_buffer_new R) = Some b"
    and inv: "recv_inv R newest (set ns) b"
    using recv_inv_run [OF recv_inv_new assms(1)] by auto
  then obtain m where m: "newest = Some m" "m \<in> set ns" "\<forall>s \<in> set ns. s \<le> m"
    using assms(2) by (cases newest) (auto simp: recv_inv_def)
  then have "Max (set ns) = m"
    by (intro Max_eqI) auto
  then show thesis
    using that [OF b] inv m by (auto simp: recv_inv_def bit_get_bitfield)
qed

end

interpretation ack_list_ring: ack_ring_buffer "list_ring 32"
  by (simp add: ack_ring_buffer_def ring_buffer_list_ring)

text \<open>
  C5: whatever order packets arrive in, with duplicates and losses, as long as each arrives within
  half of the identifier range of the newest one, the receive buffer never panics, its last
  received identifier is the newest packet's, and bit \<open>i\<close> of its bitfield is set exactly when the
  packet \<open>i + 1\<close> before the newest one has been received.
\<close>

theorem ack_bitfield_reports_received:
  assumes "ring_buffer R 32" and "within_window None ns" and "ns \<noteq> []"
  shows "\<exists>b. recv_all R (map wid_of ns) (receive_buffer_new R) = Some b \<and>
    last_recv_packet_id b = Some (wid_of (Max (set ns))) \<and>
    (\<forall>i. bit (get_bitfield R b) i \<longleftrightarrow> i < 32 \<and> (\<exists>n \<in> set ns. n + i + 1 = Max (set ns)))"
  using ack_ring_buffer.recv_run_bitfield [OF _ assms(2,3), of R] assms(1)
  by (metis ack_ring_buffer.intro)

theorem ack_bitfield_reports_received_witness:
  "map_option (\<lambda>b. bit (get_bitfield (list_ring 32) b) 2)
     (recv_all (list_ring 32) (map wid_of [65534, 65537, 65535]) (receive_buffer_new (list_ring 32)))
   = Some True"
  using ack_bitfield_reports_received [OF ring_buffer_list_ring [of 32], where ns = "[65534, 65537, 65535]"]
  by auto

section \<open>Acknowledged packets\<close>

text \<open>The identifiers a header acknowledges, in the order in which the manager looks at them.\<close>

definition header_acks :: "packet_header \<Rightarrow> packet_id list" where
  "header_acks h = packet_header.last_ack_packet_id h #
     map (\<lambda>i. packet_header.last_ack_packet_id h - word_of_nat i)
       (filter (\<lambda>i. get_bitfield_bit h (i - 1)) [1..<33])"

lemma get_bitfield_bit_iff: "i < 32 \<Longrightarrow> get_bitfield_bit h i \<longleftrightarrow> bit (ack_bitfield h) i"
  by (auto simp: get_bitfield_bit_def bit_iff_and_push_bit_not_eq_0)

lemma wid_minus_inj:
  "inj_on (\<lambda>i. q - word_of_nat i :: u16) {..<33}"
proof (rule inj_onI)
  fix i j assume "i \<in> {..<33}" "j \<in> {..<33}" and "q - word_of_nat i = (q - word_of_nat j :: u16)"
  then show "i = j"
    using wid_of_eq_iff [of i j] by auto
qed

lemma distinct_header_acks: "distinct (header_acks h)"
proof -
  let ?q = "packet_header.last_ack_packet_id h"
  let ?is = "filter (\<lambda>i. get_bitfield_bit h (i - 1)) [1..<33]"
  have "inj_on (\<lambda>i. ?q - word_of_nat i) (set (0 # ?is))"
    by (rule inj_on_subset [OF wid_minus_inj]) auto
  moreover have "distinct (0 # ?is)"
    by simp
  ultimately have "distinct (map (\<lambda>i. ?q - word_of_nat i) (0 # ?is))"
    by (simp only: distinct_map)
  then show ?thesis
    by (simp add: header_acks_def)
qed

lemma in_header_acks_iff:
  "p \<in> set (header_acks h) \<longleftrightarrow> p = packet_header.last_ack_packet_id h \<or>
     (\<exists>i < 32. bit (ack_bitfield h) i \<and> p = packet_header.last_ack_packet_id h - word_of_nat (i + 1))"
proof -
  have "(\<exists>i \<in> {1..<33}. get_bitfield_bit h (i - 1) \<and> p = q - word_of_nat i) \<longleftrightarrow>
      (\<exists>i < 32. bit (ack_bitfield h) i \<and> p = q - word_of_nat (i + 1))" for q :: packet_id
  proof
    assume "\<exists>i \<in> {1..<33}. get_bitfield_bit h (i - 1) \<and> p = q - word_of_nat i"
    then obtain i where i: "i \<in> {1..<33}" "get_bitfield_bit h (i - 1)" "p = q - word_of_nat i"
      by blast
    then have "i - 1 < 32" "i - 1 + 1 = i" by auto
    then show "\<exists>i < 32. bit (ack_bitfield h) i \<and> p = q - word_of_nat (i + 1)"
      using i get_bitfield_bit_iff by metis
  next
    assume "\<exists>i < 32. bit (ack_bitfield h) i \<and> p = q - word_of_nat (i + 1)"
    then obtain i where "i < 32" "bit (ack_bitfield h) i" "p = q - word_of_nat (i + 1)"
      by blast
    then show "\<exists>i \<in> {1..<33}. get_bitfield_bit h (i - 1) \<and> p = q - word_of_nat i"
      by (intro bexI [of _ "i + 1"]) (auto simp: get_bitfield_bit_iff)
  qed
  moreover have "p \<in> set (header_acks h) \<longleftrightarrow> p = packet_header.last_ack_packet_id h \<or>
      (\<exists>i \<in> {1..<33}. get_bitfield_bit h (i - 1) \<and> p = packet_header.last_ack_packet_id h - word_of_nat i)"
    by (auto simp: header_acks_def image_iff)
  ultimately show ?thesis by blast
qed

text \<open>
  Within a quarter of the identifier range, the identifiers named by a bitfield determine the
  counters they were wrapped from.
\<close>

lemma acked_window_iff:
  assumes "ns \<noteq> []" and near: "\<bar>int c - int (Max (set ns))\<bar> < 2 ^ 14"
  shows "wid_of c = wid_of (Max (set ns)) \<or>
      (\<exists>i < 32. (i < 32 \<and> (\<exists>n \<in> set ns. n + i + 1 = Max (set ns))) \<and>
         wid_of c = wid_of (Max (set ns)) - word_of_nat (i + 1)) \<longleftrightarrow>
    c \<in> set ns \<and> Max (set ns) \<le> c + 32"
proof -
  let ?M = "Max (set ns)"
  have "wid_of c = wid_of ?M \<longleftrightarrow> c = ?M"
    using near by (intro wid_of_eq_iff) simp
  moreover have "wid_of c = wid_of ?M - word_of_nat (i + 1) \<longleftrightarrow> c = n"
    if "i < 32" "n + i + 1 = ?M" for i n
  proof -
    have "wid_of ?M - word_of_nat (i + 1) = wid_of n"
      by (simp flip: that(2))
    moreover have "\<bar>int c - int n\<bar> < 2 ^ 15"
      using near that by (simp flip: that(2))
    ultimately show ?thesis
      using wid_of_eq_iff by simp
  qed
  moreover have "?M \<in> set ns" "c \<in> set ns \<Longrightarrow> c \<le> ?M"
    using assms(1) by auto
  ultimately have eq: "wid_of c = wid_of ?M \<longleftrightarrow> c = ?M"
    and prev: "\<And>i n. \<lbrakk>i < 32; n + i + 1 = ?M\<rbrakk> \<Longrightarrow> wid_of c = wid_of ?M - word_of_nat (i + 1) \<longleftrightarrow> c = n"
    and max: "?M \<in> set ns" "c \<in> set ns \<Longrightarrow> c \<le> ?M"
    by blast+
  show ?thesis (is "?l \<longleftrightarrow> ?r")
  proof
    assume ?l
    then show ?r
      using eq prev max by fastforce
  next
    assume r: ?r
    show ?l
    proof (cases "c = ?M")
      case False
      define i where "i = ?M - c - 1"
      have "c < ?M"
        using False r max(2) by (simp add: le_neq_implies_less)
      then have i: "i < 32" "c + i + 1 = ?M"
        using r by (auto simp: i_def)
      then have "wid_of c = wid_of ?M - word_of_nat (i + 1)"
        using prev by blast
      then show ?thesis
        using i r by blast
    qed simp
  qed
qed

definition ack_samples :: "('k \<Rightarrow> duration option) \<Rightarrow> duration \<Rightarrow> 'k list \<Rightarrow> ('k \<times> duration) list" where
  "ack_samples sent real ps =
     concat (map (\<lambda>p. case sent p of None \<Rightarrow> [] | Some t \<Rightarrow> [(p, real - t)]) ps)"

lemma set_ack_samples:
  "(p, d) \<in> set (ack_samples sent real ps) \<longleftrightarrow> p \<in> set ps \<and> (\<exists>t. sent p = Some t \<and> d = real - t)"
  by (force simp: ack_samples_def split: option.splits)

lemma distinct_ack_samples: "distinct ps \<Longrightarrow> distinct (map fst (ack_samples sent real ps))"
proof (induction ps)
  case (Cons p ps)
  have "fst ` set (ack_samples sent real ps) \<subseteq> set ps"
    by (auto simp: set_ack_samples)
  with Cons show ?case
    by (auto simp: ack_samples_def split: option.splits)
qed (simp add: ack_samples_def)

lemma ack_samples_cong:
  "(\<And>p. p \<in> set ps \<Longrightarrow> sent p = sent' p) \<Longrightarrow> ack_samples sent real ps = ack_samples sent' real ps"
  by (auto simp: ack_samples_def intro!: arg_cong [where f = concat])

text \<open>The index map of the header manager, from packet identifiers to send times.\<close>

locale packet_index = index_map I
  for I :: "(packet_id, duration, 'm) index_ops"
begin

lemma ack_packet_effect:
  "im_get I q (sent_packets_not_acked (ack_packet I real p m)) =
     (if q = p then None else im_get I q (sent_packets_not_acked m))"
  "newly_acked_packet_scratch (ack_packet I real p m) = newly_acked_packet_scratch m @
     ack_samples (\<lambda>p. im_get I p (sent_packets_not_acked m)) real [p]"
  "im_get I q (newly_acked_packets (ack_packet I real p m)) =
     (case im_get I p (sent_packets_not_acked m) of
        Some t \<Rightarrow> if q = p then Some (real - t) else im_get I q (newly_acked_packets m)
      | None \<Rightarrow> im_get I q (newly_acked_packets m))"
  "ack_pending (ack_packet I real p m) = ack_pending m"
  "recv_buffer (ack_packet I real p m) = recv_buffer m"
  "next_packet_id (ack_packet I real p m) = next_packet_id m"
  using swap_remove_value [of p "sent_packets_not_acked m"]
    swap_remove_get [of _ p "sent_packets_not_acked m"]
  by (auto simp: ack_packet_def update_sent_packets_not_acked_def Let_def case_prod_unfold
      record_newly_acked_packet_def ack_samples_def split: option.splits)

lemma ack_packets_effect:
  assumes "distinct ps"
  shows "im_get I q (sent_packets_not_acked (fold (ack_packet I real) ps m)) =
      (if q \<in> set ps then None else im_get I q (sent_packets_not_acked m))"
    and "newly_acked_packet_scratch (fold (ack_packet I real) ps m) = newly_acked_packet_scratch m @
      ack_samples (\<lambda>p. im_get I p (sent_packets_not_acked m)) real ps"
    and "ack_pending (fold (ack_packet I real) ps m) = ack_pending m"
    and "recv_buffer (fold (ack_packet I real) ps m) = recv_buffer m"
    and "next_packet_id (fold (ack_packet I real) ps m) = next_packet_id m"
proof -
  have "im_get I q (sent_packets_not_acked (fold (ack_packet I real) ps m)) =
      (if q \<in> set ps then None else im_get I q (sent_packets_not_acked m)) \<and>
    newly_acked_packet_scratch (fold (ack_packet I real) ps m) = newly_acked_packet_scratch m @
      ack_samples (\<lambda>p. im_get I p (sent_packets_not_acked m)) real ps \<and>
    ack_pending (fold (ack_packet I real) ps m) = ack_pending m \<and>
    recv_buffer (fold (ack_packet I real) ps m) = recv_buffer m \<and>
    next_packet_id (fold (ack_packet I real) ps m) = next_packet_id m"
    using assms
  proof (induction ps arbitrary: m)
    case (Cons p ps)
    have "ack_samples (\<lambda>q. if q = p then None else im_get I q (sent_packets_not_acked m)) real ps =
        ack_samples (\<lambda>q. im_get I q (sent_packets_not_acked m)) real ps"
      using Cons.prems by (intro ack_samples_cong) auto
    with Cons show ?case
      by (auto simp: ack_packet_effect) (auto simp: ack_samples_def)
  qed (simp add: ack_samples_def)
  then show "im_get I q (sent_packets_not_acked (fold (ack_packet I real) ps m)) =
      (if q \<in> set ps then None else im_get I q (sent_packets_not_acked m))"
    and "newly_acked_packet_scratch (fold (ack_packet I real) ps m) = newly_acked_packet_scratch m @
      ack_samples (\<lambda>p. im_get I p (sent_packets_not_acked m)) real ps"
    and "ack_pending (fold (ack_packet I real) ps m) = ack_pending m"
    and "recv_buffer (fold (ack_packet I real) ps m) = recv_buffer m"
    and "next_packet_id (fold (ack_packet I real) ps m) = next_packet_id m"
    by blast+
qed

lemma process_effect:
  assumes "recv_packet R (hd_packet_id h) (recv_buffer m) = Some b"
  obtains m' where "process_recv_packet_header R I h real m =
      Some (ack_samples (\<lambda>p. im_get I p (sent_packets_not_acked m)) real (header_acks h), m')"
    and "\<And>q. im_get I q (sent_packets_not_acked m') =
      (if q \<in> set (header_acks h) then None else im_get I q (sent_packets_not_acked m))"
    and "recv_buffer m' = b" and "next_packet_id m' = next_packet_id m"
    and "ack_pending m' = (ack_pending m \<or> hd_packet_type h \<noteq> AckOnly)"
proof -
  define m0 where "m0 = m\<lparr>newly_acked_packet_scratch := [],
    stats_manager := received_packet (stats_manager m), recv_buffer := b,
    ack_pending := ack_pending m \<or> is_ack_eliciting (hd_packet_type h)\<rparr>"
  define m' where "m' = fold (ack_packet I real) (header_acks h) m0"
  let ?q = "packet_header.last_ack_packet_id h"
  have "fold (\<lambda>i m. if get_bitfield_bit h (i - 1) then ack_packet I real (?q - word_of_nat i) m else m)
      [1..<33] (ack_packet I real ?q m0) = m'"
    unfolding m'_def header_acks_def by (simp add: fold_if fold_map comp_def)
  then have "process_recv_packet_header R I h real m = Some (newly_acked_packet_scratch m', m')"
    using assms by (simp add: process_recv_packet_header_def Let_def m0_def ACK_BITFIELD_SIZE_def
        del: upt_conv_Cons)
  then show thesis
    using that [of m'] ack_packets_effect [OF distinct_header_acks, where real = real and m = m0]
    by (simp add: m'_def m0_def is_ack_eliciting_def)
qed

end

interpretation packet_alist_index: packet_index alist_index_map
  by unfold_locales

text \<open>
  Processing a received header acknowledges exactly the pending packets that the header names
  by its last acknowledged identifier and its bitfield, each once: they are returned with their
  round-trip sample in header order and leave the pending map, every other pending packet stays,
  and an acknowledgement of our own becomes pending unless the packet is header-only.
\<close>

theorem process_header_acks_named_packets:
  assumes "index_map I" and "ring_buffer R 32"
    and "length (ring_iter R (rb_buffer (recv_buffer m))) = 32"
  shows "\<exists>acks m'. process_recv_packet_header R I h real m = Some (acks, m') \<and>
    acks = ack_samples (\<lambda>p. im_get I p (sent_packets_not_acked m)) real (header_acks h) \<and>
    distinct (map fst acks) \<and>
    (\<forall>p. im_get I p (sent_packets_not_acked m') =
       (if p \<in> set (header_acks h) then None else im_get I p (sent_packets_not_acked m))) \<and>
    recv_packet R (hd_packet_id h) (recv_buffer m) = Some (recv_buffer m') \<and>
    next_packet_id m' = next_packet_id m \<and>
    has_pending_ack m' = (has_pending_ack m \<or> hd_packet_type h \<noteq> AckOnly)"
proof -
  have idx: "packet_index I"
    using assms(1) by (rule packet_index.intro)
  obtain b where b: "recv_packet R (hd_packet_id h) (recv_buffer m) = Some b"
    using ack_ring_buffer.recv_packet_total [OF ack_ring_buffer.intro [OF assms(2)] assms(3)] by blast
  show ?thesis
    by (rule packet_index.process_effect [OF idx b, of real])
      (auto simp: b has_pending_ack_def distinct_ack_samples distinct_header_acks)
qed

text \<open>A manager that has sent packet 0 at time 5, and a header that acknowledges it.\<close>

definition example_manager :: "(unit, bool list, (packet_id, duration) alist) packet_header_manager" where
  "example_manager = commit_send_packet alist_index_map 0 5
     (with_nack_settings (list_ring 32) alist_index_map ()
        \<lparr>rtt_multiplier = (), jitter_multiplier = (), minimum_timeout = 10, maximum_timeout = 20\<rparr>)"

definition example_header :: packet_header where
  "example_header = \<lparr>hd_packet_type = Data, hd_packet_id = 0, last_ack_packet_id = 0,
     ack_bitfield = 0, hd_tick = 1\<rparr>"

lemma example_manager_ring [simp]:
  "length (ring_iter (list_ring 32) (rb_buffer (recv_buffer example_manager))) = 32"
  by (simp add: example_manager_def commit_send_packet_def with_nack_settings_def
      receive_buffer_new_def list_ring_def)

lemma example_manager_pending [simp]:
  "im_get alist_index_map p (sent_packets_not_acked example_manager) = (if p = 0 then Some 5 else None)"
  by (simp add: example_manager_def commit_send_packet_def with_nack_settings_def)

theorem process_header_acks_named_packets_witness:
  "map_option fst (process_recv_packet_header (list_ring 32) alist_index_map example_header 12
     example_manager) = Some [(0, 7)]"
proof -
  have "header_acks example_header = [0]"
    by (simp add: header_acks_def example_header_def get_bitfield_bit_def)
  then show ?thesis
    using process_header_acks_named_packets [OF alist_index.index_map_axioms
        ring_buffer_list_ring [of 32] example_manager_ring, of example_header 12]
    by (auto simp: ack_samples_def)
qed

text \<open>
  C4: acknowledgements are sound and complete end to end. A receiver that has got any run of the
  sender's packets builds a header; when the sender processes it, a pending packet is taken for
  delivered exactly when the receiver did get it and it is at most 32 packets older than the newest
  one the receiver got. Otherwise it stays pending.
\<close>

theorem acks_sound_and_complete:
  assumes "ring_buffer R 32" and "index_map I"
    and "within_window None ns" and "ns \<noteq> []"
    and "recv_all R (map wid_of ns) (receive_buffer_new R) = Some (recv_buffer receiver)"
    and "length (ring_iter R (rb_buffer (recv_buffer sender))) = 32"
    and "im_get I (wid_of c) (sent_packets_not_acked sender) = Some t"
    and "\<bar>int c - int (Max (set ns))\<bar> < 2 ^ 14"
  shows "\<exists>acks sender'. process_recv_packet_header R I
      (preview_send_packet_header R ptype tick receiver) real sender = Some (acks, sender') \<and>
    (let delivered = (c \<in> set ns \<and> Max (set ns) \<le> c + 32) in
       ((wid_of c, real - t) \<in> set acks \<longleftrightarrow> delivered) \<and>
       im_get I (wid_of c) (sent_packets_not_acked sender') = (if delivered then None else Some t))"
proof -
  let ?M = "Max (set ns)"
  define h where "h = preview_send_packet_header R ptype tick receiver"
  have idx: "packet_index I"
    using assms(2) by (rule packet_index.intro)
  obtain b where b: "recv_packet R (hd_packet_id h) (recv_buffer sender) = Some b"
    using ack_ring_buffer.recv_packet_total [OF ack_ring_buffer.intro [OF assms(1)] assms(6)] by blast
  obtain rb where "recv_all R (map wid_of ns) (receive_buffer_new R) = Some rb"
    and last_id: "last_recv_packet_id rb = Some (wid_of ?M)"
    and bits: "\<And>i. bit (get_bitfield R rb) i \<longleftrightarrow> i < 32 \<and> (\<exists>n \<in> set ns. n + i + 1 = ?M)"
    using ack_ring_buffer.recv_run_bitfield [OF ack_ring_buffer.intro [OF assms(1)] assms(3,4)]
    by metis
  then have rb: "recv_buffer receiver = rb"
    using assms(5) by simp
  have h: "packet_header.last_ack_packet_id h = wid_of ?M" "ack_bitfield h = get_bitfield R rb"
    by (simp_all add: h_def preview_send_packet_header_def rb last_id)
  have named: "wid_of c \<in> set (header_acks h) \<longleftrightarrow> c \<in> set ns \<and> ?M \<le> c + 32"
    unfolding in_header_acks_iff h bits by (rule acked_window_iff [OF assms(4,8)])
  show ?thesis
    unfolding h_def [symmetric]
    by (rule packet_index.process_effect [OF idx b, of real])
      (auto simp: set_ack_samples named assms(7) Let_def)
qed

theorem acks_sound_and_complete_witness:
  "\<exists>acks sender'. process_recv_packet_header (list_ring 32) alist_index_map
     (preview_send_packet_header (list_ring 32) Data 1
        (example_manager\<lparr>recv_buffer := \<lparr>last_recv_packet_id = Some 0, rb_buffer = replicate 32 False\<rparr>\<rparr>))
     12 example_manager = Some (acks, sender') \<and> (0, 7) \<in> set acks"
proof -
  let ?r = "example_manager\<lparr>recv_buffer := \<lparr>last_recv_packet_id = Some 0, rb_buffer = replicate 32 False\<rparr>\<rparr>"
  have "recv_all (list_ring 32) (map wid_of [0]) (receive_buffer_new (list_ring 32)) = Some (recv_buffer ?r)"
    by (simp add: recv_all_def recv_packet_def receive_buffer_new_def list_ring_def)
  from acks_sound_and_complete [OF ring_buffer_list_ring [of 32] alist_index.index_map_axioms _ _ this
      example_manager_ring, of 0 5 Data 1 12]
  show ?thesis by auto
qed

text \<open>
  The per-frame update gives up exactly the pending packets that are older than the loss
  timeout or more than a third of the positive identifier range behind the next identifier,
  appends each once to the lost packets, and keeps the others; afterwards every pending packet is
  recent in both senses. The timeout lies between its configured bounds.
\<close>

theorem nack_update_gives_up_old_packets:
  assumes "index_map I" and "nack_timeout mul_f32 (nack_settings m) ls = Some d"
  shows "\<exists>m' lost. phm_update I mul_f32 ratio real ls m = Some m' \<and>
    lost_packets m' = lost_packets m @ lost \<and> distinct lost \<and>
    (\<forall>p. p \<in> set lost \<longleftrightarrow> (\<exists>t. im_get I p (sent_packets_not_acked m) = Some t \<and>
       (d < real - t \<or> 10922 < wid_sub (next_packet_id m) p))) \<and>
    (\<forall>p. im_get I p (sent_packets_not_acked m') =
       (if p \<in> set lost then None else im_get I p (sent_packets_not_acked m))) \<and>
    (\<forall>p t. im_get I p (sent_packets_not_acked m') = Some t \<longrightarrow>
       real - t \<le> d \<and> wid_sub (next_packet_id m') p \<le> 10922) \<and>
    minimum_timeout (nack_settings m) \<le> d \<and>
    (minimum_timeout (nack_settings m) \<le> maximum_timeout (nack_settings m) \<longrightarrow>
       d \<le> maximum_timeout (nack_settings m))"
proof -
  let ?gone = "packet_got_lost real d (next_packet_id m)"
  let ?sent = "sent_packets_not_acked m"
  define lost where "lost = map fst (filter (\<lambda>(p, t). ?gone p t) (im_iter I ?sent))"
  have in_lost: "p \<in> set lost \<longleftrightarrow> (\<exists>t. im_get I p ?sent = Some t \<and> ?gone p t)" for p
    by (force simp: lost_def index_map.in_iter_iff [OF assms(1), symmetric])
  have "distinct lost"
    unfolding lost_def using index_map.iter_distinct [OF assms(1)] by (rule distinct_map_filter)
  moreover have "minimum_timeout (nack_settings m) \<le> d \<and>
      (minimum_timeout (nack_settings m) \<le> maximum_timeout (nack_settings m) \<longrightarrow>
       d \<le> maximum_timeout (nack_settings m))"
    using assms(2) by (auto simp: nack_timeout_def split: option.splits)
  moreover obtain m' where "phm_update I mul_f32 ratio real ls m = Some m'"
    and "sent_packets_not_acked m' = im_retain I (\<lambda>p t. \<not> ?gone p t) ?sent"
    and "lost_packets m' = lost_packets m @ lost" and "next_packet_id m' = next_packet_id m"
    using assms(2) by (simp add: phm_update_def Let_def lost_def)
  ultimately show ?thesis
    by (intro exI [of _ m'] exI [of _ lost])
      (auto simp: in_lost index_map.get_retain [OF assms(1)] packet_got_lost_def not_less split: option.splits)
qed

theorem nack_update_gives_up_old_packets_witness:
  "\<exists>m'. phm_update alist_index_map (\<lambda>x _. Some x) (\<lambda>_ _. ()) 100 \<lparr>rtt = 4, jitter = 0\<rparr> example_manager =
     Some m' \<and> 0 \<in> set (lost_packets m')"
proof -
  have "nack_timeout (\<lambda>x _. Some x) (nack_settings example_manager) \<lparr>rtt = 4, jitter = 0\<rparr> = Some 10"
    by (simp add: example_manager_def commit_send_packet_def with_nack_settings_def nack_timeout_def
        duration_max_def)
  from nack_update_gives_up_old_packets [OF alist_index.index_map_axioms this,
      where ratio = "\<lambda>_ _. ()" and real = 100]
  obtain m' lost where "phm_update alist_index_map (\<lambda>x _. Some x) (\<lambda>_ _. ()) 100
      \<lparr>rtt = 4, jitter = 0\<rparr> example_manager = Some m'"
    and "lost_packets m' = lost_packets example_manager @ lost"
    and "\<forall>p. p \<in> set lost \<longleftrightarrow> (\<exists>t. im_get alist_index_map p (sent_packets_not_acked example_manager) = Some t \<and>
       (10 < 100 - t \<or> 10922 < wid_sub (next_packet_id example_manager) p))"
    by auto
  then show ?thesis by auto
qed

end
