(* ===== verification/Compression.thy ===== *)
theory Compression
  imports Packet_Header
begin

text \<open>
  Packet and fragment compression (\<open>crates/transport/transport/src/packet/compression.rs\<close>) and
  the error types of the packet and channel layers (\<open>packet/error.rs\<close>, \<open>channel/receive.rs\<close>). The
  block codec of the \<open>lz4_flex\<close> crate is an argument of the operations; what the code relies on
  is the locale \<open>block_codec\<close>. The reusable output buffers and hash table of the compressor only
  save allocations: an operation here returns the bytes it leaves in them.
\<close>

section \<open>Errors\<close>

text \<open>
  The variants of the two Rust enums. \<open>RecvPanicked\<close> stands for a panic inside the receiving
  code (an allocation whose size overflows, an index out of range, \<open>expect\<close>).
\<close>

datatype channel_receive_error =
    MissingMessageId
  | InvalidFragmentCount u64
  | InvalidFragmentIndex u64 u64
  | FragmentCountMismatch nat nat
  | FragmentedMessageSizeOverflow
  | FragmentCompressionMismatch string string
  | MissingFragmentCompression
  | UnsupportedFragmentCompression string
  | FragmentDecompressionFailed
  | FragmentDecompressedPayloadTooLarge nat nat
  | InvalidNonFinalFragmentSize nat nat
  | InvalidFinalFragmentSize nat nat
  | RecvPanicked

datatype packet_error =
    Serialization serialization_error
  | ChannelNotFound
  | ChannelReceiveError channel_receive_error
  | UnsupportedCompression
  | CompressionFailed
  | DecompressionFailed
  | DecompressedPayloadTooLarge nat nat
  | PacketTooLarge nat nat
  | PacketMtuTooSmall nat nat

section \<open>Configuration and outcomes\<close>

datatype compression_algorithm = Lz4_algorithm

record compression_config =
  algorithm :: "compression_algorithm option"
  min_payload_size :: nat
  max_decompressed_payload_size :: nat

definition DISABLED :: compression_config where
  "DISABLED = \<lparr>algorithm = None, min_payload_size = 128, max_decompressed_payload_size = 64 * 1024\<rparr>"

definition LZ4 :: compression_config where
  "LZ4 = \<lparr>algorithm = Some Lz4_algorithm, min_payload_size = 128,
     max_decompressed_payload_size = 64 * 1024\<rparr>"

definition compression_is_enabled :: "compression_config \<Rightarrow> bool" where
  "compression_is_enabled c = (algorithm c \<noteq> None)"

datatype compression_outcome =
    Outcome_Disabled
  | AlreadyCompressed
  | Outcome_TooSmall nat
  | Outcome_TooLargeForDecompressionLimit nat nat
  | Outcome_NotSmaller nat nat
  | Outcome_Compressed nat nat

datatype payload_compression_candidate =
    Candidate_Disabled
  | Candidate_TooSmall nat
  | Candidate_TooLargeForDecompressionLimit nat nat
  | Candidate_NotSmaller nat nat
  | Candidate_Compressed bytes nat nat

section \<open>The block codec\<close>

text \<open>
  \<open>lz4_compress\<close> is \<open>compress_into_with_table\<close> into a buffer of the maximal output size;
  \<open>lz4_uncompressed_size\<close> splits off the 4-byte little-endian size prefix;
  \<open>lz4_decompress_into b n\<close> decodes into a buffer of \<open>n\<close> bytes and gives the bytes decoded.
\<close>

record block_ops =
  lz4_compress :: "bytes \<Rightarrow> bytes option"
  lz4_uncompressed_size :: "bytes \<Rightarrow> (nat \<times> bytes) option"
  lz4_decompress_into :: "bytes \<Rightarrow> nat \<Rightarrow> bytes option"

definition le_bytes :: "nat \<Rightarrow> nat \<Rightarrow> bytes" where
  "le_bytes k n = rev (be_bytes k n)"

locale block_codec =
  fixes Z :: block_ops
  assumes size_prefix: "n < 2 ^ 32 \<Longrightarrow> lz4_uncompressed_size Z (le_bytes 4 n @ b) = Some (n, b)"
    and decompress_compress: "lz4_compress Z p = Some b \<Longrightarrow> lz4_decompress_into Z b (length p) = Some p"
    and decompress_bound: "lz4_decompress_into Z b n = Some p \<Longrightarrow> length p \<le> n"

section \<open>Compressing and decompressing\<close>

definition compress_lz4 :: "block_ops \<Rightarrow> bytes \<Rightarrow> packet_error + bytes" where
  "compress_lz4 Z payload =
     (if length payload \<ge> 2 ^ 32 then Inl CompressionFailed
      else and_then (ok_or (lz4_compress Z payload) CompressionFailed) (\<lambda>compressed.
        Inr (le_bytes 4 (length payload) @ compressed)))"

definition compress_into :: "block_ops \<Rightarrow> compression_algorithm \<Rightarrow> bytes \<Rightarrow> packet_error + bytes" where
  "compress_into Z a payload = (case a of Lz4_algorithm \<Rightarrow> compress_lz4 Z payload)"

definition HEADER_BYTES :: nat where
  "HEADER_BYTES = header_BYTES"

definition lift_serde :: "'a serde_result \<Rightarrow> packet_error + 'a" where
  "lift_serde r = (case r of Inl e \<Rightarrow> Inl (Serialization e) | Inr x \<Rightarrow> Inr x)"

text \<open>Returns the outcome together with the bytes left in the output buffer.\<close>

definition evaluate_packet_compression ::
  "block_ops \<Rightarrow> bytes \<Rightarrow> compression_config \<Rightarrow> nat \<Rightarrow> packet_error + (compression_outcome \<times> bytes)"
where
  "evaluate_packet_compression Z packet_payload config mtu =
     (case algorithm config of
        None \<Rightarrow> Inr (Outcome_Disabled, [])
      | Some a \<Rightarrow>
          if length packet_payload \<le> HEADER_BYTES then Inr (Outcome_TooSmall 0, [])
          else
            and_then (lift_serde (packet_type_try_from (packet_payload ! 0))) (\<lambda>packet_type.
            if compressed_variant packet_type = None then Inr (AlreadyCompressed, [])
            else
              let payload_len = length packet_payload - HEADER_BYTES in
              if payload_len < min_payload_size config then Inr (Outcome_TooSmall payload_len, [])
              else if payload_len > max_decompressed_payload_size config
              then Inr (Outcome_TooLargeForDecompressionLimit payload_len
                          (max_decompressed_payload_size config), [])
              else
                and_then (compress_into Z a (drop HEADER_BYTES packet_payload)) (\<lambda>compressed_payload.
                let original_len = length packet_payload;
                    compressed_len = HEADER_BYTES + length compressed_payload
                in if compressed_len \<ge> original_len \<or> compressed_len > mtu
                   then Inr (Outcome_NotSmaller original_len compressed_len, compressed_payload)
                   else Inr (Outcome_Compressed original_len compressed_len, compressed_payload))))"

record packet_compression_info =
  original_len :: nat
  compressed_len :: nat

text \<open>The payload and compression fields of a \<open>Packet\<close>, the ones compression touches.\<close>

definition compress_packet ::
  "block_ops \<Rightarrow> bytes \<times> packet_compression_info option \<Rightarrow> compression_config \<Rightarrow> nat \<Rightarrow>
   packet_error + (compression_outcome \<times> bytes \<times> packet_compression_info option)" where
  "compress_packet Z packet config mtu =
     and_then (evaluate_packet_compression Z (fst packet) config mtu) (\<lambda>(outcome, out).
     case outcome of
       Outcome_Compressed olen clen \<Rightarrow>
         and_then (lift_serde (packet_type_try_from (fst packet ! 0))) (\<lambda>packet_type.
         case compressed_variant packet_type of
           None \<Rightarrow> Inl (ChannelReceiveError RecvPanicked)
         | Some compressed_packet_type \<Rightarrow>
             let payload = (fst packet)[0 := packet_type_as_u8 compressed_packet_type];
                 payload = take HEADER_BYTES payload;
                 payload = payload @ take (clen - HEADER_BYTES) out
             in Inr (outcome, payload, Some \<lparr>original_len = olen, compressed_len = clen\<rparr>))
     | _ \<Rightarrow> Inr (outcome, packet))"

definition compress_fragment ::
  "block_ops \<Rightarrow> bytes \<Rightarrow> compression_config \<Rightarrow> packet_error + payload_compression_candidate" where
  "compress_fragment Z payload config =
     (case algorithm config of
        None \<Rightarrow> Inr Candidate_Disabled
      | Some a \<Rightarrow>
          let payload_len = length payload in
          if payload_len < min_payload_size config then Inr (Candidate_TooSmall payload_len)
          else if payload_len > max_decompressed_payload_size config
          then Inr (Candidate_TooLargeForDecompressionLimit payload_len
                      (max_decompressed_payload_size config))
          else
            and_then (compress_into Z a payload) (\<lambda>out.
            let compressed_len = length out in
            if compressed_len \<ge> payload_len then Inr (Candidate_NotSmaller payload_len compressed_len)
            else Inr (Candidate_Compressed out payload_len compressed_len)))"

definition decompress_lz4 :: "block_ops \<Rightarrow> bytes \<Rightarrow> compression_config \<Rightarrow> packet_error + bytes" where
  "decompress_lz4 Z compressed_payload config =
     and_then (ok_or (lz4_uncompressed_size Z compressed_payload) DecompressionFailed)
       (\<lambda>(uncompressed_size, compressed_payload).
     if uncompressed_size > max_decompressed_payload_size config
     then Inl (DecompressedPayloadTooLarge uncompressed_size (max_decompressed_payload_size config))
     else
       and_then (ok_or (lz4_decompress_into Z compressed_payload uncompressed_size) DecompressionFailed)
         (\<lambda>decompressed.
       if length decompressed \<noteq> uncompressed_size then Inl DecompressionFailed else Inr decompressed))"

definition decompress_payload :: "block_ops \<Rightarrow> bytes \<Rightarrow> compression_config \<Rightarrow> packet_error + bytes" where
  "decompress_payload Z compressed_payload config =
     (case algorithm config of
        None \<Rightarrow> Inl UnsupportedCompression
      | Some Lz4_algorithm \<Rightarrow> decompress_lz4 Z compressed_payload config)"

section \<open>Round trips\<close>

context block_codec
begin

lemma decompress_compress_lz4:
  assumes "compress_lz4 Z p = Inr c" and "algorithm config \<noteq> None"
    and "length p \<le> max_decompressed_payload_size config"
  shows "decompress_payload Z c config = Inr p"
proof -
  obtain b where b: "lz4_compress Z p = Some b" and c: "c = le_bytes 4 (length p) @ b"
    and len: "length p < 2 ^ 32"
    using assms(1) by (cases "lz4_compress Z p") (auto simp: compress_lz4_def split: if_splits)
  from assms(2) have "decompress_payload Z c config = decompress_lz4 Z c config"
    by (auto simp: decompress_payload_def split: compression_algorithm.splits)
  also have "\<dots> = Inr p"
    using assms(3) by (simp add: decompress_lz4_def c size_prefix [OF len] decompress_compress [OF b])
  finally show ?thesis .
qed

end

text \<open>
  A concrete block codec: run-length encoding behind the same size prefix.
\<close>

fun rle :: "bytes \<Rightarrow> bytes" where
  "rle [] = []"
| "rle (x # xs) =
     (case rle xs of
        n # y # r \<Rightarrow> if y = x \<and> n \<noteq> 255 then (n + 1) # y # r else 1 # x # n # y # r
      | _ \<Rightarrow> [1, x])"

fun unrle :: "bytes \<Rightarrow> bytes" where
  "unrle (n # y # r) = replicate (unat n) y @ unrle r"
| "unrle _ = []"

definition rle_block :: block_ops where
  "rle_block = \<lparr>lz4_compress = (\<lambda>p. Some (rle p)),
     lz4_uncompressed_size = (\<lambda>b. if length b < 4 then None
       else Some (be_nat (rev (take 4 b)), drop 4 b)),
     lz4_decompress_into = (\<lambda>b n. if length (unrle b) \<le> n then Some (unrle b) else None)\<rparr>"

lemma rle_shape: "rle xs = [] \<and> xs = [] \<or> (\<exists>n y r. rle xs = n # y # r)"
  by (induction xs) (auto split: list.splits)

lemma unrle_rle: "unrle (rle xs) = xs"
proof (induction xs)
  case (Cons x xs)
  have "unat (n + 1) = Suc (unat n)" if "n \<noteq> 255" for n :: u8
  proof -
    have "1 + n \<noteq> 0"
      using that by (auto simp: add_eq_0_iff)
    then show ?thesis
      using unatSuc [of n] by (simp add: add.commute)
  qed
  with Cons rle_shape [of xs] show ?case
    by (auto split: list.splits)
qed simp

interpretation rle_codec: block_codec rle_block
proof
  fix n :: nat and b :: bytes
  assume n: "n < 2 ^ 32"
  have "be_nat (rev (take 4 (le_bytes 4 n @ b))) = n"
    using n by (simp add: le_bytes_def be_nat_be_bytes)
  then show "lz4_uncompressed_size rle_block (le_bytes 4 n @ b) = Some (n, b)"
    by (simp add: rle_block_def le_bytes_def)
qed (auto simp: rle_block_def unrle_rle split: if_splits)

lemma evaluate_compressed:
  assumes "evaluate_packet_compression Z p config mtu = Inr (Outcome_Compressed olen clen, out)"
  shows "olen = length p" and "clen = HEADER_BYTES + length out" and "clen < olen" and "clen \<le> mtu"
    and "compress_lz4 Z (drop HEADER_BYTES p) = Inr out"
    and "\<exists>t t'. packet_type_try_from (p ! 0) = Inr t \<and> compressed_variant t = Some t'"
  using assms
  by (auto simp: evaluate_packet_compression_def and_then_Inr_iff Let_def compress_into_def lift_serde_def
      split: option.splits if_splits compression_algorithm.splits sum.splits)

lemma uncompressed_compressed_variant:
  "compressed_variant t = Some t' \<Longrightarrow> uncompressed_variant t' = t"
  by (auto simp: compressed_variant_def uncompressed_variant_def split: packet_type.splits)

lemma compress_packet_spec:
  assumes "block_codec Z" and "HEADER_BYTES < length payload"
    and "compress_packet Z (payload, info) config mtu = Inr (outcome, payload', info')"
  shows "case outcome of
      Outcome_Compressed olen clen \<Rightarrow>
        olen = length payload \<and> clen = length payload' \<and> clen < olen \<and> clen \<le> mtu \<and>
        info' = Some \<lparr>original_len = olen, compressed_len = clen\<rparr> \<and>
        (\<exists>t t'. packet_type_try_from (payload ! 0) = Inr t \<and> compressed_variant t = Some t' \<and>
           packet_type_try_from (payload' ! 0) = Inr t' \<and> uncompressed_variant t' = t) \<and>
        take 12 (drop 1 payload') = take 12 (drop 1 payload) \<and>
        (\<forall>receiver. algorithm receiver \<noteq> None \<longrightarrow>
           length payload - HEADER_BYTES \<le> max_decompressed_payload_size receiver \<longrightarrow>
           decompress_payload Z (drop HEADER_BYTES payload') receiver = Inr (drop HEADER_BYTES payload))
    | _ \<Rightarrow> payload' = payload \<and> info' = info"
proof -
  obtain o' out where ev': "evaluate_packet_compression Z payload config mtu = Inr (o', out)"
    using assms(3) by (auto simp: compress_packet_def and_then_Inr_iff)
  then have "outcome = o'"
    using assms(3) by (cases o')
      (auto simp: compress_packet_def and_then_Inr_iff Let_def split: option.splits)
  with ev' have ev: "evaluate_packet_compression Z payload config mtu = Inr (outcome, out)"
    by simp
  show ?thesis
  proof (cases outcome)
    case (Outcome_Compressed olen clen)
    note e = evaluate_compressed [OF ev [unfolded Outcome_Compressed]]
    obtain t t' where t: "packet_type_try_from (payload ! 0) = Inr t" "compressed_variant t = Some t'"
      using e(6) by blast
    obtain x xs where payload: "payload = x # xs"
      using assms(2) by (cases payload) auto
    have out: "payload' = packet_type_as_u8 t' # take 12 xs @ out"
      and info: "info' = Some \<lparr>original_len = olen, compressed_len = clen\<rparr>"
      using assms(3) e(2) t unfolding Outcome_Compressed
      by (simp_all add: compress_packet_def ev [unfolded Outcome_Compressed payload] lift_serde_def payload
          HEADER_BYTES_def header_BYTES_def)
    have drop: "drop HEADER_BYTES payload' = out"
      using assms(2) by (simp add: out payload HEADER_BYTES_def header_BYTES_def)
    moreover have "length payload' = clen"
      using assms(2) e(2) by (simp add: out payload HEADER_BYTES_def header_BYTES_def)
    ultimately show ?thesis
      using e t info assms(2) block_codec.decompress_compress_lz4 [OF assms(1) e(5)]
      by (simp add: Outcome_Compressed out payload uncompressed_compressed_variant HEADER_BYTES_def header_BYTES_def)
  qed (use assms(3) ev in \<open>auto simp: compress_packet_def\<close>)
qed

text \<open>
  C12: compressing a packet either leaves it as it is or replaces its body. In the second case the
  packet gets strictly smaller and fits the MTU, only the type byte of its header changes, to the
  compressed variant, and every receiver with compression enabled and a limit that admits the
  body decompresses the new body to the old one.
\<close>

theorem packet_compression_roundtrip:
  assumes "block_codec Z" and "HEADER_BYTES < length payload"
    and "compress_packet Z (payload, info) config mtu = Inr (outcome, payload', info')"
  shows "case outcome of
      Outcome_Compressed olen clen \<Rightarrow>
        olen = length payload \<and> clen = length payload' \<and> clen < olen \<and> clen \<le> mtu \<and>
        info' = Some \<lparr>original_len = olen, compressed_len = clen\<rparr> \<and>
        (\<exists>t t'. packet_type_try_from (payload ! 0) = Inr t \<and> compressed_variant t = Some t' \<and>
           packet_type_try_from (payload' ! 0) = Inr t' \<and> uncompressed_variant t' = t) \<and>
        take 12 (drop 1 payload') = take 12 (drop 1 payload) \<and>
        (\<forall>receiver. algorithm receiver \<noteq> None \<longrightarrow>
           length payload - HEADER_BYTES \<le> max_decompressed_payload_size receiver \<longrightarrow>
           decompress_payload Z (drop HEADER_BYTES payload') receiver = Inr (drop HEADER_BYTES payload))
    | _ \<Rightarrow> payload' = payload \<and> info' = info"
  by (rule compress_packet_spec [OF assms])

definition example_packet :: bytes where
  "example_packet = [0, 0, 0, 0, 0, 0, 0, 0, 0, 0, 0, 0, 0, 7, 7, 7, 7, 7, 7, 7, 7]"

lemma example_packet_compressed:
  "compress_packet rle_block (example_packet, None)
     \<lparr>algorithm = Some Lz4_algorithm, min_payload_size = 8, max_decompressed_payload_size = 64\<rparr> 30 =
   Inr (Outcome_Compressed 21 19, [2, 0, 0, 0, 0, 0, 0, 0, 0, 0, 0, 0, 0, 8, 0, 0, 0, 8, 7],
        Some \<lparr>original_len = 21, compressed_len = 19\<rparr>)"
proof -
  have len: "length [7, 7, 7, 7, 7, 7, 7, 7 :: u8] = 8" and enc: "be_bytes 4 8 = [0, 0, 0, 8]"
    by (simp_all add: be_bytes_numeral be_bytes_Suc)
  have "compress_lz4 rle_block [7, 7, 7, 7, 7, 7, 7, 7] = Inr [8, 0, 0, 0, 8, 7]"
    unfolding compress_lz4_def len le_bytes_def enc by (simp add: rle_block_def)
  then show ?thesis
    by (simp add: compress_packet_def evaluate_packet_compression_def example_packet_def
        HEADER_BYTES_def header_BYTES_def lift_serde_def packet_type_try_from_def compressed_variant_def
        compress_into_def packet_type_as_u8_def)
qed

theorem packet_compression_roundtrip_witness:
  "decompress_payload rle_block [8, 0, 0, 0, 8, 7] LZ4 = Inr [7, 7, 7, 7, 7, 7, 7, 7]"
proof -
  have "HEADER_BYTES < length example_packet"
    by (simp add: HEADER_BYTES_def header_BYTES_def example_packet_def)
  from packet_compression_roundtrip [OF rle_codec.block_codec_axioms this example_packet_compressed]
  show ?thesis
    by (simp add: LZ4_def HEADER_BYTES_def header_BYTES_def example_packet_def)
qed

end
