(* ===== verification/Message.thy ===== *)
theory Message
  imports Compression
begin

text \<open>
  Messages and fragments (\<open>crates/transport/transport/src/packet/message.rs\<close>) with their wire
  codecs, and the choice of the fragment size from a link's minimum MTU (\<open>packet/packet.rs\<close>).
\<close>

section \<open>Messages\<close>

type_synonym message_id = wrapping_id
type_synonym fragment_index = u64
type_synonym channel_id = u16

datatype send_message_key =
    UnreliableSingle nat
  | UnreliableFragment nat
  | ReliableSingle message_id
  | ReliableFragment message_id fragment_index

definition unreliable_send_order :: "send_message_key \<Rightarrow> u64 option" where
  "unreliable_send_order k =
     (case k of UnreliableSingle i \<Rightarrow> Some (word_of_nat i) | UnreliableFragment i \<Rightarrow> Some (word_of_nat i)
      | ReliableSingle _ \<Rightarrow> None | ReliableFragment _ _ \<Rightarrow> None)"

definition packing_tiebreaker :: "send_message_key \<Rightarrow> u64" where
  "packing_tiebreaker k = (case k of ReliableFragment _ fragment_id \<Rightarrow> fragment_id | _ \<Rightarrow> 0)"

datatype fragment_compression = NoCompression | Lz4

definition fragment_compression_as_str :: "fragment_compression \<Rightarrow> string" where
  "fragment_compression_as_str c = (case c of NoCompression \<Rightarrow> ''none'' | Lz4 \<Rightarrow> ''lz4'')"

record single_data =
  sd_id :: "message_id option"
  sd_bytes :: bytes

record fragment_data =
  fd_message_id :: message_id
  fd_fragment_id :: fragment_index
  fd_num_fragments :: fragment_index
  fd_compression :: "fragment_compression option"
  fd_bytes :: bytes

datatype message_data = Single single_data | Fragment fragment_data

record 'f send_message =
  sm_data :: message_data
  sm_priority :: 'f

record receive_message =
  rm_data :: message_data
  remote_sent_tick :: tick
  rm_compression :: compression_config

record message_ack =
  ma_message_id :: message_id
  ma_fragment_id :: "fragment_index option"

record ('c, 'f) send_candidate =
  sc_channel_kind :: 'c
  sc_channel_id :: channel_id
  sc_key :: send_message_key
  sc_send_order :: u64
  sc_message :: "'f send_message"
  sc_effective_priority :: 'f

definition new_with_send_order ::
  "'c \<Rightarrow> channel_id \<Rightarrow> send_message_key \<Rightarrow> u64 \<Rightarrow> 'f send_message \<Rightarrow> ('c, 'f) send_candidate" where
  "new_with_send_order kind cid key order m =
     \<lparr>sc_channel_kind = kind, sc_channel_id = cid, sc_key = key, sc_send_order = order,
      sc_message = m, sc_effective_priority = sm_priority m\<rparr>"

text \<open>\<open>None\<close> is the panic of \<open>expect\<close> on a reliable key.\<close>

definition send_candidate_new ::
  "'c \<Rightarrow> channel_id \<Rightarrow> send_message_key \<Rightarrow> 'f send_message \<Rightarrow> ('c, 'f) send_candidate option" where
  "send_candidate_new kind cid key m =
     map_option (\<lambda>order. new_with_send_order kind cid key order m) (unreliable_send_order key)"

definition send_candidate_new_reliable ::
  "'c \<Rightarrow> channel_id \<Rightarrow> send_message_key \<Rightarrow> u64 \<Rightarrow> 'f send_message \<Rightarrow> ('c, 'f) send_candidate" where
  "send_candidate_new_reliable kind cid key order m = new_with_send_order kind cid key order m"

section \<open>Codecs\<close>

definition is_initial_fragment :: "fragment_data \<Rightarrow> bool" where
  "is_initial_fragment d = (fd_fragment_id d = 0)"

definition is_last_fragment :: "fragment_data \<Rightarrow> bool" where
  "is_last_fragment d = (fd_fragment_id d = fd_num_fragments d - 1)"

definition single_data_bytes_len :: "single_data \<Rightarrow> nat option" where
  "single_data_bytes_len d =
     do { a \<leftarrow> option_bytes_len wid_bytes_len (sd_id d); b \<leftarrow> bytes_bytes_len (sd_bytes d); Some (a + b) }"

definition single_data_to_bytes :: "single_data \<Rightarrow> bytes \<Rightarrow> bytes serde_result" where
  "single_data_to_bytes d buf =
     and_then (option_to_bytes wid_to_bytes (sd_id d) buf) (bytes_to_bytes (sd_bytes d))"

definition single_data_from_bytes :: "reader \<Rightarrow> (single_data \<times> reader) serde_result" where
  "single_data_from_bytes r =
     and_then (option_from_bytes wid_from_bytes r) (\<lambda>(i, r).
     and_then (bytes_from_bytes r) (\<lambda>(bs, r). Inr (\<lparr>sd_id = i, sd_bytes = bs\<rparr>, r)))"

definition fragment_index_bytes_len :: "fragment_index \<Rightarrow> nat option" where
  "fragment_index_bytes_len i = varint_len i"

definition fragment_index_to_bytes :: "fragment_index \<Rightarrow> bytes \<Rightarrow> bytes serde_result" where
  "fragment_index_to_bytes i buf = write_varint i buf"

definition fragment_index_from_bytes :: "reader \<Rightarrow> (fragment_index \<times> reader) serde_result" where
  "fragment_index_from_bytes r = read_varint r"

definition fragment_compression_bytes_len :: "fragment_compression \<Rightarrow> nat option" where
  "fragment_compression_bytes_len c = Some 1"

definition fragment_compression_to_bytes :: "fragment_compression \<Rightarrow> bytes \<Rightarrow> bytes serde_result" where
  "fragment_compression_to_bytes c buf =
     (case c of NoCompression \<Rightarrow> u8_to_bytes 0 buf | Lz4 \<Rightarrow> u8_to_bytes 1 buf)"

definition fragment_compression_from_bytes :: "reader \<Rightarrow> (fragment_compression \<times> reader) serde_result" where
  "fragment_compression_from_bytes r =
     and_then (u8_from_bytes r) (\<lambda>(b, r).
       if b = 0 then Inr (NoCompression, r) else if b = 1 then Inr (Lz4, r) else Inl InvalidValue)"

definition fragment_data_bytes_len :: "fragment_data \<Rightarrow> nat option" where
  "fragment_data_bytes_len d =
     do { a \<leftarrow> wid_bytes_len (fd_message_id d);
          b \<leftarrow> fragment_index_bytes_len (fd_fragment_id d);
          c \<leftarrow> fragment_index_bytes_len (fd_num_fragments d);
          e \<leftarrow> (if is_initial_fragment d then fragment_compression_bytes_len NoCompression else Some 0);
          f \<leftarrow> bytes_bytes_len (fd_bytes d);
          Some (a + b + c + e + f) }"

definition fragment_data_to_bytes :: "fragment_data \<Rightarrow> bytes \<Rightarrow> bytes serde_result" where
  "fragment_data_to_bytes d buf =
     and_then (wid_to_bytes (fd_message_id d) buf) (\<lambda>buf.
     and_then (fragment_index_to_bytes (fd_fragment_id d) buf) (\<lambda>buf.
     and_then (fragment_index_to_bytes (fd_num_fragments d) buf) (\<lambda>buf.
     and_then (if is_initial_fragment d
               then fragment_compression_to_bytes
                      (case fd_compression d of None \<Rightarrow> NoCompression | Some c \<Rightarrow> c) buf
               else Inr buf) (\<lambda>buf.
     bytes_to_bytes (fd_bytes d) buf))))"

definition fragment_data_from_bytes :: "reader \<Rightarrow> (fragment_data \<times> reader) serde_result" where
  "fragment_data_from_bytes r =
     and_then (wid_from_bytes r) (\<lambda>(mid, r).
     and_then (fragment_index_from_bytes r) (\<lambda>(fid, r).
     and_then (fragment_index_from_bytes r) (\<lambda>(n, r).
     and_then (if fid = 0
               then and_then (fragment_compression_from_bytes r) (\<lambda>(c, r). Inr (Some c, r))
               else Inr (None, r)) (\<lambda>(c, r).
     and_then (bytes_from_bytes r) (\<lambda>(bs, r).
     Inr (\<lparr>fd_message_id = mid, fd_fragment_id = fid, fd_num_fragments = n, fd_compression = c,
           fd_bytes = bs\<rparr>, r))))))"

definition message_data_message_id :: "message_data \<Rightarrow> message_id option" where
  "message_data_message_id d =
     (case d of Single s \<Rightarrow> sd_id s | Fragment f \<Rightarrow> Some (fd_message_id f))"

definition message_data_bytes_len :: "message_data \<Rightarrow> nat option" where
  "message_data_bytes_len d =
     (case d of Single s \<Rightarrow> single_data_bytes_len s | Fragment f \<Rightarrow> fragment_data_bytes_len f)"

section \<open>Fragment size\<close>

definition DEFAULT_MTU :: nat where
  "DEFAULT_MTU = 1200"

definition FIXED_FRAGMENT_METADATA_BYTES :: nat where
  "FIXED_FRAGMENT_METADATA_BYTES = the (varint_len 65535) + 2 + 8 + 8 + 1"

definition FIXED_FRAGMENT_PACKET_BYTES :: nat where
  "FIXED_FRAGMENT_PACKET_BYTES = HEADER_BYTES + FIXED_FRAGMENT_METADATA_BYTES"

definition MIN_FRAGMENT_PACKET_SIZE :: nat where
  "MIN_FRAGMENT_PACKET_SIZE = FIXED_FRAGMENT_PACKET_BYTES + 1 + 1"

text \<open>The outer \<open>None\<close> is the panic of \<open>varint_len\<close> on a size it cannot encode.\<close>

fun fragment_size_loop :: "nat \<Rightarrow> nat \<Rightarrow> nat option option" where
  "fragment_size_loop available 0 = Some None"
| "fragment_size_loop available (Suc n) =
     (case varint_len (word_of_nat (Suc n)) of
        None \<Rightarrow> None
      | Some length_prefix_bytes \<Rightarrow>
          if Suc n \<le> available - length_prefix_bytes then Some (Some (Suc n))
          else fragment_size_loop available n)"

definition fragment_size_for_min_mtu :: "nat \<Rightarrow> nat option option" where
  "fragment_size_for_min_mtu min_mtu =
     (case checked_sub min_mtu FIXED_FRAGMENT_PACKET_BYTES of
        None \<Rightarrow> Some None
      | Some available \<Rightarrow> fragment_size_loop available available)"

definition FRAGMENT_SIZE :: nat where
  "FRAGMENT_SIZE = (case fragment_size_for_min_mtu DEFAULT_MTU of Some (Some n) \<Rightarrow> n | _ \<Rightarrow> 0)"

section \<open>Messages on the wire\<close>

definition wid_enc :: "wrapping_id \<Rightarrow> bytes" where
  "wid_enc n = be_bytes 2 (unat n)"

definition single_data_enc :: "single_data \<Rightarrow> bytes" where
  "single_data_enc d = option_enc wid_enc (sd_id d) @ bytes_enc (sd_bytes d)"

definition fragment_compression_enc :: "fragment_compression \<Rightarrow> bytes" where
  "fragment_compression_enc c = [case c of NoCompression \<Rightarrow> 0 | Lz4 \<Rightarrow> 1]"

definition fragment_data_enc :: "fragment_data \<Rightarrow> bytes" where
  "fragment_data_enc d = wid_enc (fd_message_id d) @ varint_bytes (fd_fragment_id d) @
     varint_bytes (fd_num_fragments d) @
     (case fd_compression d of Some c \<Rightarrow> fragment_compression_enc c | None \<Rightarrow> []) @ bytes_enc (fd_bytes d)"

text \<open>
  The fragments that can go on the wire: indices a variable-length integer can hold, and the
  compression field present exactly on the first fragment.
\<close>

definition fragment_data_ok :: "fragment_data \<Rightarrow> bool" where
  "fragment_data_ok d \<longleftrightarrow> varint_ok (fd_fragment_id d) \<and> varint_ok (fd_num_fragments d) \<and>
     (fd_compression d \<noteq> None \<longleftrightarrow> fd_fragment_id d = 0) \<and> count_ok (length (fd_bytes d))"

lemma wid_codec_enc: "codec wid_bytes_len wid_to_bytes wid_from_bytes wid_enc (\<lambda>_. True)"
  unfolding wid_enc_def by (rule wid_codec.codec_axioms)

lemma option_wid_codec:
  "codec (option_bytes_len wid_bytes_len) (option_to_bytes wid_to_bytes) (option_from_bytes wid_from_bytes)
     (option_enc wid_enc) (\<lambda>_. True)"
proof -
  have "(\<lambda>v. case v of None \<Rightarrow> True | Some x \<Rightarrow> True) = (\<lambda>_ :: wrapping_id option. True)"
    by (auto split: option.splits)
  then show ?thesis
    using codec_option [OF wid_codec_enc] by simp
qed

interpretation fragment_compression_codec: codec fragment_compression_bytes_len
  fragment_compression_to_bytes fragment_compression_from_bytes fragment_compression_enc "\<lambda>_. True"
  by unfold_locales
    (auto simp: fragment_compression_bytes_len_def fragment_compression_to_bytes_def
      fragment_compression_from_bytes_def fragment_compression_enc_def u8_codec.put_ok
      u8_from_bytes_def read_u8_append split: fragment_compression.splits)

interpretation single_data_codec: codec single_data_bytes_len single_data_to_bytes
  single_data_from_bytes single_data_enc "\<lambda>d. count_ok (length (sd_bytes d))"
proof unfold_locales
  fix d :: single_data and r rest
  assume ok: "count_ok (length (sd_bytes d))" and wf: "wf_reader r"
    and r: "remaining_slice r = single_data_enc d @ rest"
  have "option_from_bytes wid_from_bytes r = Inr (sd_id d, skip (length (option_enc wid_enc (sd_id d))) r)"
    using codec.get_ok [OF option_wid_codec _ wf, of "sd_id d"] r by (simp add: single_data_enc_def)
  moreover have "bytes_from_bytes (skip (length (option_enc wid_enc (sd_id d))) r) =
      Inr (sd_bytes d, skip (length (option_enc wid_enc (sd_id d)) + length (bytes_enc (sd_bytes d))) r)"
    using bytes_codec.get_at [OF ok wf] r by (simp add: single_data_enc_def)
  ultimately show "single_data_from_bytes r = Inr (d, skip (length (single_data_enc d)) r)"
    by (simp add: single_data_from_bytes_def single_data_enc_def)
qed (simp_all add: single_data_bytes_len_def single_data_to_bytes_def single_data_enc_def
      codec.blen_ok [OF option_wid_codec] codec.put_ok [OF option_wid_codec] bytes_codec.blen_ok
      bytes_codec.put_ok)

interpretation fragment_data_codec: codec fragment_data_bytes_len fragment_data_to_bytes
  fragment_data_from_bytes fragment_data_enc fragment_data_ok
proof unfold_locales
  fix d :: fragment_data and r rest
  assume ok: "fragment_data_ok d" and wf: "wf_reader r"
    and r: "remaining_slice r = fragment_data_enc d @ rest"
  let ?a = "wid_enc (fd_message_id d)" and ?b = "varint_bytes (fd_fragment_id d)"
    and ?c = "varint_bytes (fd_num_fragments d)" and ?f = "bytes_enc (fd_bytes d)"
    and ?e = "case fd_compression d of Some c \<Rightarrow> fragment_compression_enc c | None \<Rightarrow> []"
  have v: "varint_ok (fd_fragment_id d)" "varint_ok (fd_num_fragments d)" "count_ok (length (fd_bytes d))"
    using ok by (simp_all add: fragment_data_ok_def)
  have 1: "wid_from_bytes r = Inr (fd_message_id d, skip (length ?a) r)"
    using codec.get_ok [OF wid_codec_enc _ wf, of "fd_message_id d"] r by (simp add: fragment_data_enc_def)
  have 2: "read_varint (skip (length ?a) r) = Inr (fd_fragment_id d, skip (length ?a + length ?b) r)"
    using varint_codec.get_at [OF v(1) wf, of ?a] r by (simp add: fragment_data_enc_def)
  have 3: "read_varint (skip (length ?a + length ?b) r) =
      Inr (fd_num_fragments d, skip (length ?a + length ?b + length ?c) r)"
    using varint_codec.get_at [OF v(2) wf, of "?a @ ?b"] r by (simp add: fragment_data_enc_def)
  have 4: "(if fd_fragment_id d = 0
       then and_then (fragment_compression_from_bytes (skip (length ?a + length ?b + length ?c) r))
              (\<lambda>(c, r). Inr (Some c, r))
       else Inr (None, skip (length ?a + length ?b + length ?c) r)) =
      Inr (fd_compression d, skip (length ?a + length ?b + length ?c + length ?e) r)"
  proof (cases "fd_compression d")
    case (Some c)
    then show ?thesis
      using fragment_compression_codec.get_at [OF TrueI wf, of "?a @ ?b @ ?c" c] r ok
      by (simp add: fragment_data_enc_def fragment_data_ok_def add.assoc)
  qed (use ok in \<open>simp add: fragment_data_ok_def\<close>)
  have 5: "bytes_from_bytes (skip (length ?a + length ?b + length ?c + length ?e) r) =
      Inr (fd_bytes d, skip (length (fragment_data_enc d)) r)"
    using bytes_codec.get_at [OF v(3) wf, of "?a @ ?b @ ?c @ ?e"] r
    by (simp add: fragment_data_enc_def add.assoc)
  show "fragment_data_from_bytes r = Inr (d, skip (length (fragment_data_enc d)) r)"
    by (simp add: fragment_data_from_bytes_def fragment_index_from_bytes_def 1 2 3 4 5)
next
  fix d :: fragment_data and buf
  assume "fragment_data_ok d"
  then show "fragment_data_bytes_len d = Some (length (fragment_data_enc d))"
    and "fragment_data_to_bytes d buf = Inr (buf @ fragment_data_enc d)"
    by (auto simp: fragment_data_ok_def fragment_data_bytes_len_def fragment_data_to_bytes_def
        fragment_data_enc_def is_initial_fragment_def fragment_index_bytes_len_def
        fragment_index_to_bytes_def codec.blen_ok [OF wid_codec_enc] codec.put_ok [OF wid_codec_enc]
        varint_codec.blen_ok varint_codec.put_ok bytes_codec.blen_ok bytes_codec.put_ok
        fragment_compression_codec.blen_ok fragment_compression_codec.put_ok fragment_compression_enc_def
        split: option.splits)
qed

text \<open>
  Every fragment that can go on the wire, and every whole message, is read back unchanged by
  the receiver, which ends up right after it; \<open>bytes_len\<close> announces the exact number of bytes.
\<close>

theorem message_data_roundtrip:
  assumes "fragment_data_ok d" and "count_ok (length (sd_bytes m))"
  shows "(\<exists>wire. fragment_data_to_bytes d buf = Inr (buf @ wire) \<and>
      fragment_data_bytes_len d = Some (length wire) \<and>
      (\<forall>r rest. wf_reader r \<longrightarrow> remaining_slice r = wire @ rest \<longrightarrow>
         fragment_data_from_bytes r = Inr (d, skip (length wire) r))) \<and>
    (\<exists>wire. single_data_to_bytes m buf = Inr (buf @ wire) \<and>
      single_data_bytes_len m = Some (length wire) \<and>
      (\<forall>r rest. wf_reader r \<longrightarrow> remaining_slice r = wire @ rest \<longrightarrow>
         single_data_from_bytes r = Inr (m, skip (length wire) r)))"
  using fragment_data_codec.put_ok [OF assms(1)] fragment_data_codec.blen_ok [OF assms(1)]
    fragment_data_codec.get_ok [OF assms(1)] single_data_codec.put_ok [OF assms(2)]
    single_data_codec.blen_ok [OF assms(2)] single_data_codec.get_ok [OF assms(2)]
  by blast

theorem message_data_roundtrip_witness:
  "single_data_from_bytes (reader_from [1, 0, 7, 2, 3, 4, 9]) =
     Inr (\<lparr>sd_id = Some 7, sd_bytes = [3, 4]\<rparr>, \<lparr>rd_buf = [1, 0, 7, 2, 3, 4, 9], rd_pos = 6\<rparr>)"
proof -
  let ?m = "\<lparr>sd_id = Some 7, sd_bytes = [3, 4]\<rparr>"
  let ?d = "\<lparr>fd_message_id = 0, fd_fragment_id = 1, fd_num_fragments = 2, fd_compression = None, fd_bytes = []\<rparr>"
  let ?r = "reader_from [1, 0, 7, 2, 3, 4, 9]"
  have out: "single_data_to_bytes ?m [] = Inr [1, 0, 7, 2, 3, 4]"
    by (simp add: single_data_to_bytes_def option_to_bytes_def wid_to_bytes_def bytes_to_bytes_def
        write_defs be_bytes_numeral be_bytes_Suc write_varint_def varint_len_def)
  have "fragment_data_ok ?d" "count_ok (length (sd_bytes ?m))"
    by (simp_all add: fragment_data_ok_def count_ok_def)
  from message_data_roundtrip [OF this, of "[]"]
  have "\<forall>rest. wf_reader ?r \<longrightarrow> remaining_slice ?r = [1, 0, 7, 2, 3, 4] @ rest \<longrightarrow>
      single_data_from_bytes ?r = Inr (?m, skip (length [1, 0, 7, 2, 3, 4 :: u8]) ?r)"
    unfolding out by auto
  then show ?thesis
    by (simp add: wf_reader_def usize_max_def reader_from_def remaining_slice_def skip_def)
qed

section \<open>Fragments fit the link\<close>

definition varint_size :: "nat \<Rightarrow> nat" where
  "varint_size n = length (varint_bytes (word_of_nat n))"

lemma varint_size_eq:
  "n < 2 ^ 62 \<Longrightarrow> varint_size n = (if n < 64 then 1 else if n < 16384 then 2 else if n < 1073741824 then 4 else 8)"
  by (simp add: varint_size_def varint_bytes_def word_le_nat_alt unat_of_nat)

lemma varint_size_mono: "m \<le> n \<Longrightarrow> n < 2 ^ 62 \<Longrightarrow> varint_size m \<le> varint_size n"
  by (simp add: varint_size_eq)

lemma varint_len_of_nat: "n < 2 ^ 62 \<Longrightarrow> varint_len (word_of_nat n) = Some (varint_size n)"
  by (simp add: varint_size_eq varint_len_def word_le_nat_alt unat_of_nat)

lemma varint_size_pos: "0 < varint_size n"
  by (simp add: varint_size_def varint_bytes_def del: length_greater_0_conv)

lemma varint_bytes_le: "length (varint_bytes v) \<le> 8"
  by (simp add: varint_bytes_def)

lemma fragment_size_loop_Suc:
  assumes "Suc n < 2 ^ 62"
  shows "fragment_size_loop available (Suc n) =
    (if Suc n + varint_size (Suc n) \<le> available then Some (Some (Suc n))
     else fragment_size_loop available n)"
proof -
  have "Suc n \<le> available - varint_size (Suc n) \<longleftrightarrow> Suc n + varint_size (Suc n) \<le> available"
    by linarith
  then show ?thesis
    by (simp add: varint_len_of_nat [OF assms] del: of_nat_Suc)
qed

definition largest_fit :: "nat \<Rightarrow> nat \<Rightarrow> nat option \<Rightarrow> bool" where
  "largest_fit available n res =
     (case res of
        None \<Rightarrow> \<forall>m. 0 < m \<longrightarrow> m \<le> n \<longrightarrow> available < m + varint_size m
      | Some k \<Rightarrow> 0 < k \<and> k \<le> n \<and> k + varint_size k \<le> available \<and>
          (\<forall>m. k < m \<longrightarrow> m \<le> n \<longrightarrow> available < m + varint_size m))"

lemma fragment_size_loop_eq:
  "n < 2 ^ 62 \<Longrightarrow> \<exists>res. fragment_size_loop available n = Some res \<and> largest_fit available n res"
proof (induction n)
  case (Suc n)
  then obtain res where res: "fragment_size_loop available n = Some res" "largest_fit available n res"
    by auto
  show ?case
  proof (cases "Suc n + varint_size (Suc n) \<le> available")
    case True
    then show ?thesis
      using fragment_size_loop_Suc [OF Suc.prems, of available] by (auto simp: largest_fit_def)
  next
    case False
    then have "largest_fit available (Suc n) res"
      using res(2) by (auto simp: largest_fit_def le_Suc_eq split: option.splits)
    then show ?thesis
      using fragment_size_loop_Suc [OF Suc.prems, of available] False res(1) by auto
  qed
qed (simp add: largest_fit_def)

lemma FIXED_FRAGMENT_PACKET_BYTES_eq: "FIXED_FRAGMENT_PACKET_BYTES = 36"
  by (simp add: FIXED_FRAGMENT_PACKET_BYTES_def HEADER_BYTES_def header_BYTES_def
      FIXED_FRAGMENT_METADATA_BYTES_def varint_len_def)

lemma fragment_enc_bound:
  assumes "fragment_data_ok d" and "length (fd_bytes d) \<le> n" and "n < 2 ^ 62"
  shows "length (fragment_data_enc d) \<le> 19 + varint_size n + n"
proof -
  have "length (bytes_enc (fd_bytes d)) \<le> varint_size n + n"
    using varint_size_mono [OF assms(2,3)] assms(2) by (simp add: bytes_enc_def varint_size_def)
  then show ?thesis
    using varint_bytes_le [of "fd_fragment_id d"] varint_bytes_le [of "fd_num_fragments d"]
    by (auto simp: fragment_data_enc_def wid_enc_def fragment_compression_enc_def split: option.splits)
qed

text \<open>
  C13: the fragment size derived from a link's minimum MTU is the largest one that works. There is
  none exactly for an MTU below \<open>MIN_FRAGMENT_PACKET_SIZE\<close>; otherwise a packet that carries a
  header, any channel identifier and any fragment of up to that many bytes fits the MTU, and no
  larger payload does once the identifiers take their longest encodings.
\<close>

theorem fragment_size_is_largest_that_fits:
  assumes "mtu < 2 ^ 62"
  shows "\<exists>res. fragment_size_for_min_mtu mtu = Some res \<and>
    (res = None \<longleftrightarrow> mtu < MIN_FRAGMENT_PACKET_SIZE) \<and>
    (\<forall>n. res = Some n \<longrightarrow> 0 < n \<and>
       (\<forall>m > n. mtu < FIXED_FRAGMENT_PACKET_BYTES + varint_size m + m) \<and>
       (\<forall>d channel. fragment_data_ok d \<longrightarrow> length (fd_bytes d) \<le> n \<longrightarrow>
          (\<exists>a b. u16_bytes_len channel = Some a \<and> fragment_data_bytes_len d = Some b \<and>
             HEADER_BYTES + a + b \<le> mtu)))"
proof (cases "mtu < 36")
  case True
  then show ?thesis
    by (simp add: fragment_size_for_min_mtu_def checked_sub_def FIXED_FRAGMENT_PACKET_BYTES_eq
        MIN_FRAGMENT_PACKET_SIZE_def)
next
  case False
  have "mtu - 36 < 2 ^ 62"
    using assms by linarith
  with False obtain res where loop: "fragment_size_for_min_mtu mtu = Some res"
    and fit: "largest_fit (mtu - 36) (mtu - 36) res"
    using fragment_size_loop_eq [of "mtu - 36" "mtu - 36"]
    by (auto simp: fragment_size_for_min_mtu_def checked_sub_def FIXED_FRAGMENT_PACKET_BYTES_eq)
  show ?thesis
  proof (intro exI [of _ res] conjI allI impI)
    show "res = None \<longleftrightarrow> mtu < MIN_FRAGMENT_PACKET_SIZE"
    proof (cases res)
      case None
      then have "1 \<le> mtu - 36 \<longrightarrow> mtu - 36 < 2"
        using fit varint_size_eq [of 1] by (auto simp: largest_fit_def)
      with None show ?thesis
        by (auto simp: MIN_FRAGMENT_PACKET_SIZE_def FIXED_FRAGMENT_PACKET_BYTES_eq)
    next
      case (Some k)
      then show ?thesis
        using fit varint_size_pos [of k]
        by (auto simp: largest_fit_def MIN_FRAGMENT_PACKET_SIZE_def FIXED_FRAGMENT_PACKET_BYTES_eq)
    qed
  next
    fix n m assume "res = Some n" "n < m"
    then show "mtu < FIXED_FRAGMENT_PACKET_BYTES + varint_size m + m"
      using fit False by (cases "m \<le> mtu - 36") (auto simp: largest_fit_def FIXED_FRAGMENT_PACKET_BYTES_eq)
  next
    fix n d and channel :: u16
    assume n: "res = Some n" and d: "fragment_data_ok d" "length (fd_bytes d) \<le> n"
    have "n + varint_size n \<le> mtu - 36"
      using fit n by (simp add: largest_fit_def)
    moreover have "length (fragment_data_enc d) \<le> 19 + varint_size n + n"
      using calculation assms by (intro fragment_enc_bound d) simp
    moreover have "length (varint_bytes (ucast channel)) \<le> 4"
      using unsigned_less [of channel, where ?'a = nat]
      by (auto simp: varint_bytes_def word_le_nat_alt unsigned_ucast_eq take_bit_nat_eq_self)
    ultimately show "\<exists>a b. u16_bytes_len channel = Some a \<and> fragment_data_bytes_len d = Some b \<and>
        HEADER_BYTES + a + b \<le> mtu"
      using False d(1)
      by (simp add: u16_codec.blen_ok fragment_data_codec.blen_ok HEADER_BYTES_def header_BYTES_def)
  qed (use loop fit in \<open>auto simp: largest_fit_def\<close>)
qed

theorem fragment_size_is_largest_that_fits_witness:
  "\<exists>n. fragment_size_for_min_mtu 1200 = Some (Some n) \<and> 0 < n"
  using fragment_size_is_largest_that_fits [of 1200]
  by (auto simp: MIN_FRAGMENT_PACKET_SIZE_def FIXED_FRAGMENT_PACKET_BYTES_eq)

lemma FRAGMENT_SIZE_eq: "FRAGMENT_SIZE = 1162"
proof -
  obtain res where "fragment_size_for_min_mtu DEFAULT_MTU = Some res"
    and fit: "largest_fit 1164 1164 res"
    using fragment_size_loop_eq [of 1164 1164]
    by (auto simp: fragment_size_for_min_mtu_def checked_sub_def FIXED_FRAGMENT_PACKET_BYTES_eq DEFAULT_MTU_def)
  moreover have "res = Some 1162"
  proof (cases res)
    case None
    then show ?thesis
      using fit varint_size_eq [of 1] by (auto simp: largest_fit_def)
  next
    case (Some n)
    then have "n + varint_size n \<le> 1164" "n \<ge> 1162"
      using fit varint_size_eq [of 1162] by (auto simp: largest_fit_def not_less [symmetric])
    then show ?thesis
      using Some varint_size_eq [of n] by auto
  qed
  ultimately show ?thesis
    by (simp add: FRAGMENT_SIZE_def)
qed

end
