(* ===== verification/Fragments.thy ===== *)
theory Fragments
  imports Message
begin

text \<open>
  Fragmented messages (\<open>crates/transport/transport/src/channel/fragments/\<close>): splitting a message
  (\<open>send.rs\<close>), reassembling it (\<open>receive.rs\<close>) and tracking the acknowledgement of its fragments
  (\<open>ack.rs\<close>). An operation on \<open>&mut self\<close> that can fail returns the state next to the result,
  because the state is already changed when some of the errors are returned.
\<close>

section \<open>Splitting: send.rs\<close>

record fragment_sender =
  fs_fragment_size :: nat

definition fragment_sender_new :: fragment_sender where
  "fragment_sender_new = \<lparr>fs_fragment_size = FRAGMENT_SIZE\<rparr>"

definition fs_set_fragment_size :: "nat \<Rightarrow> fragment_sender \<Rightarrow> fragment_sender" where
  "fs_set_fragment_size n s = s\<lparr>fs_fragment_size := n\<rparr>"

text \<open>The standard library's \<open>chunks\<close>; it panics on a chunk size of zero, which its caller checks.\<close>

function chunks :: "nat \<Rightarrow> 'a list \<Rightarrow> 'a list list" where
  "chunks n xs = (if xs = [] \<or> n = 0 then [] else take n xs # chunks n (drop n xs))"
  by auto
termination
  by (relation "measure (\<lambda>(n, xs). length xs)") auto

declare chunks.simps [simp del]

text \<open>\<open>None\<close> is a panic here and in \<open>build_fragments\<close>.\<close>

definition build_fragments_with_compression ::
  "message_id \<Rightarrow> bytes \<Rightarrow> fragment_compression \<Rightarrow> fragment_sender \<Rightarrow> fragment_data list option" where
  "build_fragments_with_compression mid fragment_bytes compression s =
     (if fs_fragment_size s = 0 then None
      else let cs = chunks (fs_fragment_size s) fragment_bytes; num_fragments = length cs
           in Some (map (\<lambda>(fragment_index, chunk).
                 \<lparr>fd_message_id = mid, fd_fragment_id = word_of_nat fragment_index,
                  fd_num_fragments = word_of_nat num_fragments,
                  fd_compression = (if fragment_index = 0 then Some compression else None),
                  fd_bytes = chunk\<rparr>) (enumerate 0 cs)))"

definition build_fragments ::
  "message_id \<Rightarrow> bytes \<Rightarrow> fragment_sender \<Rightarrow> fragment_data list option" where
  "build_fragments mid fragment_bytes s =
     (if length fragment_bytes \<le> fs_fragment_size s then None
      else build_fragments_with_compression mid fragment_bytes NoCompression s)"

definition fragment_compression_of :: "compression_config \<Rightarrow> fragment_compression option" where
  "fragment_compression_of config =
     (case algorithm config of Some Lz4_algorithm \<Rightarrow> Some Lz4 | None \<Rightarrow> None)"

definition build_fragments_for_message ::
  "block_ops \<Rightarrow> message_id \<Rightarrow> bytes \<Rightarrow> compression_config \<Rightarrow> fragment_sender \<Rightarrow>
   fragment_data list option" where
  "build_fragments_for_message Z mid message config s =
     (if length message \<le> fs_fragment_size s then None
      else case (compress_fragment Z message config, fragment_compression_of config) of
             (Inr (Candidate_Compressed payload _ _), Some fc) \<Rightarrow>
               build_fragments_with_compression mid payload fc s
           | _ \<Rightarrow> build_fragments mid message s)"

section \<open>Acknowledgements: ack.rs\<close>

record fragment_ack_tracker =
  fat_num_fragments :: nat
  fat_num_received :: nat
  fat_received :: "bool list"
  fat_last_received :: "duration option"

definition fragment_ack_tracker_new :: "nat \<Rightarrow> fragment_ack_tracker" where
  "fragment_ack_tracker_new n =
     \<lparr>fat_num_fragments = n, fat_num_received = 0, fat_received = replicate n False,
      fat_last_received = None\<rparr>"

text \<open>\<open>None\<close> is the panic of the index.\<close>

definition receive_ack ::
  "nat \<Rightarrow> duration option \<Rightarrow> fragment_ack_tracker \<Rightarrow> (bool \<times> fragment_ack_tracker) option" where
  "receive_ack fragment_index received_time tr =
     (let tr = tr\<lparr>fat_last_received := received_time\<rparr> in
      if fragment_index \<ge> length (fat_received tr) then None
      else
        let tr = (if \<not> fat_received tr ! fragment_index
                  then tr\<lparr>fat_received := (fat_received tr)[fragment_index := True],
                          fat_num_received := fat_num_received tr + 1\<rparr>
                  else tr)
        in Some (fat_num_received tr = fat_num_fragments tr, tr))"

type_synonym fragment_ack_receiver = "message_id \<rightharpoonup> fragment_ack_tracker"

definition fragment_ack_receiver_new :: fragment_ack_receiver where
  "fragment_ack_receiver_new = Map.empty"

definition add_new_fragment_to_wait_for ::
  "message_id \<Rightarrow> nat \<Rightarrow> fragment_ack_receiver \<Rightarrow> fragment_ack_receiver" where
  "add_new_fragment_to_wait_for mid num_fragments r = r(mid \<mapsto> fragment_ack_tracker_new num_fragments)"

definition far_discard_message :: "message_id \<Rightarrow> fragment_ack_receiver \<Rightarrow> fragment_ack_receiver" where
  "far_discard_message mid r = r(mid := None)"

definition far_cleanup :: "duration \<Rightarrow> fragment_ack_receiver \<Rightarrow> fragment_ack_receiver" where
  "far_cleanup cleanup_time r =
     (\<lambda>mid. case r mid of
        None \<Rightarrow> None
      | Some c \<Rightarrow>
          if (case fat_last_received c of Some t \<Rightarrow> t > cleanup_time | None \<Rightarrow> True) then Some c else None)"

definition receive_fragment_ack ::
  "message_id \<Rightarrow> fragment_index \<Rightarrow> duration option \<Rightarrow> fragment_ack_receiver \<Rightarrow>
   (bool \<times> fragment_ack_receiver) option" where
  "receive_fragment_ack mid fragment_index current_time r =
     (case r mid of
        None \<Rightarrow> Some (False, r)
      | Some tracker \<Rightarrow>
          (case receive_ack (unat fragment_index) current_time tracker of
             None \<Rightarrow> None
           | Some (True, _) \<Rightarrow> Some (True, r(mid := None))
           | Some (False, tracker) \<Rightarrow> Some (False, r(mid \<mapsto> tracker))))"

section \<open>Reassembly: receive.rs\<close>

definition isize_max :: nat where
  "isize_max = 2 ^ 63 - 1"

record fragment_constructor =
  fc_num_fragments :: nat
  fc_fragment_size :: nat
  fc_num_received :: nat
  fc_received :: "bool list"
  fc_bytes :: bytes
  fc_tick :: tick
  fc_compression :: "fragment_compression option"
  fc_last_received :: "duration option"

text \<open>
  \<open>checked_mul\<close> only rejects a size beyond \<open>usize\<close>; allocating more than \<open>isize::MAX\<close> bytes
  panics.
\<close>

definition fragment_constructor_new ::
  "tick \<Rightarrow> nat \<Rightarrow> nat \<Rightarrow> channel_receive_error + fragment_constructor" where
  "fragment_constructor_new tick num_fragments fragment_size =
     and_then (ok_or (checked_mul num_fragments fragment_size) FragmentedMessageSizeOverflow)
       (\<lambda>max_message_size.
     if num_fragments > isize_max \<or> max_message_size > isize_max then Inl RecvPanicked
     else Inr \<lparr>fc_num_fragments = num_fragments, fc_fragment_size = fragment_size,
               fc_num_received = 0, fc_received = replicate num_fragments False,
               fc_bytes = replicate max_message_size 0, fc_tick = tick, fc_compression = None,
               fc_last_received = None\<rparr>)"

definition set_compression ::
  "fragment_compression \<Rightarrow> fragment_constructor \<Rightarrow> channel_receive_error + fragment_constructor" where
  "set_compression c fc =
     (case fc_compression fc of
        Some expected \<Rightarrow>
          if expected \<noteq> c
          then Inl (FragmentCompressionMismatch (fragment_compression_as_str expected)
                      (fragment_compression_as_str c))
          else Inr fc
      | None \<Rightarrow> Inr (fc\<lparr>fc_compression := Some c\<rparr>))"

definition resize :: "nat \<Rightarrow> 'a \<Rightarrow> 'a list \<Rightarrow> 'a list" where
  "resize n x xs = (if n \<le> length xs then take n xs else xs @ replicate (n - length xs) x)"

text \<open>The body of \<open>if !self.received[fragment_index]\<close>: store the fragment.\<close>

definition store_fragment ::
  "nat \<Rightarrow> bytes \<Rightarrow> fragment_constructor \<Rightarrow> fragment_constructor \<times> (channel_receive_error + unit)" where
  "store_fragment fragment_index bs fc =
     (let is_last_fragment = (fragment_index = fc_num_fragments fc - 1);
          fc = fc\<lparr>fc_received := (fc_received fc)[fragment_index := True],
                  fc_num_received := fc_num_received fc + 1\<rparr>;
          resized = (if is_last_fragment
             then (case checked_mul (fc_num_fragments fc - 1) (fc_fragment_size fc) of
                     None \<Rightarrow> Inl FragmentedMessageSizeOverflow
                   | Some n \<Rightarrow> ok_or (checked_add n (length bs)) FragmentedMessageSizeOverflow)
             else Inr (length (fc_bytes fc)))
      in case resized of
           Inl e \<Rightarrow> (fc, Inl e)
         | Inr len \<Rightarrow>
             (let fc = fc\<lparr>fc_bytes := resize len 0 (fc_bytes fc)\<rparr> in
              case checked_mul fragment_index (fc_fragment_size fc) of
                None \<Rightarrow> (fc, Inl FragmentedMessageSizeOverflow)
              | Some start \<Rightarrow>
                  (case checked_add start (length bs) of
                     None \<Rightarrow> (fc, Inl FragmentedMessageSizeOverflow)
                   | Some finish \<Rightarrow>
                       if finish > length (fc_bytes fc) then (fc, Inl RecvPanicked)
                       else (fc\<lparr>fc_bytes := take start (fc_bytes fc) @ bs @ drop finish (fc_bytes fc)\<rparr>,
                             Inr ()))))"

definition fc_receive_fragment ::
  "nat \<Rightarrow> bytes \<Rightarrow> duration option \<Rightarrow> fragment_constructor \<Rightarrow>
   fragment_constructor \<times> (channel_receive_error + (tick \<times> bytes) option)" where
  "fc_receive_fragment fragment_index bs received_time fc =
     (let fc = fc\<lparr>fc_last_received := received_time\<rparr>;
          is_last_fragment = (fragment_index = fc_num_fragments fc - 1)
      in if \<not> is_last_fragment \<and> length bs \<noteq> fc_fragment_size fc
         then (fc, Inl (InvalidNonFinalFragmentSize (length bs) (fc_fragment_size fc)))
         else if is_last_fragment \<and> length bs > fc_fragment_size fc
         then (fc, Inl (InvalidFinalFragmentSize (length bs) (fc_fragment_size fc)))
         else if fragment_index \<ge> length (fc_received fc) then (fc, Inl RecvPanicked)
         else
           case (if fc_received fc ! fragment_index then (fc, Inr ())
                 else store_fragment fragment_index bs fc) of
             (fc, Inl e) \<Rightarrow> (fc, Inl e)
           | (fc, Inr _) \<Rightarrow>
               if fc_num_received fc = fc_num_fragments fc
               then (fc\<lparr>fc_bytes := []\<rparr>, Inr (Some (fc_tick fc, fc_bytes fc)))
               else (fc, Inr None))"

definition config_for_fragment_compression ::
  "fragment_compression \<Rightarrow> compression_config \<Rightarrow> channel_receive_error + compression_config" where
  "config_for_fragment_compression c config =
     (case c of
        NoCompression \<Rightarrow> Inr config
      | Lz4 \<Rightarrow>
          if algorithm config = Some Lz4_algorithm then Inr config
          else Inl (UnsupportedFragmentCompression (fragment_compression_as_str c)))"

definition map_fragment_decompression_error :: "packet_error \<Rightarrow> channel_receive_error" where
  "map_fragment_decompression_error e =
     (case e of
        UnsupportedCompression \<Rightarrow> UnsupportedFragmentCompression (fragment_compression_as_str Lz4)
      | DecompressionFailed \<Rightarrow> FragmentDecompressionFailed
      | DecompressedPayloadTooLarge actual limit \<Rightarrow> FragmentDecompressedPayloadTooLarge actual limit
      | _ \<Rightarrow> FragmentDecompressionFailed)"

definition decompress_fragment_payload ::
  "block_ops \<Rightarrow> fragment_compression \<Rightarrow> bytes \<Rightarrow> compression_config \<Rightarrow> channel_receive_error + bytes"
where
  "decompress_fragment_payload Z c payload config =
     (case c of
        NoCompression \<Rightarrow> Inr payload
      | Lz4 \<Rightarrow>
          and_then (config_for_fragment_compression c config) (\<lambda>config.
          case decompress_payload Z payload config of
            Inl e \<Rightarrow> Inl (map_fragment_decompression_error e)
          | Inr p \<Rightarrow> Inr p))"

record fragment_receiver =
  fr_messages :: "message_id \<rightharpoonup> fragment_constructor"
  fr_fragment_size :: nat

definition fragment_receiver_new :: fragment_receiver where
  "fragment_receiver_new = \<lparr>fr_messages = Map.empty, fr_fragment_size = FRAGMENT_SIZE\<rparr>"

definition fr_set_fragment_size :: "nat \<Rightarrow> fragment_receiver \<Rightarrow> fragment_receiver" where
  "fr_set_fragment_size n r = r\<lparr>fr_fragment_size := n\<rparr>"

definition fr_cleanup :: "duration \<Rightarrow> fragment_receiver \<Rightarrow> fragment_receiver" where
  "fr_cleanup cleanup_time r = r\<lparr>fr_messages :=
     (\<lambda>mid. case fr_messages r mid of
        None \<Rightarrow> None
      | Some c \<Rightarrow>
          if (case fc_last_received c of Some t \<Rightarrow> t > cleanup_time | None \<Rightarrow> True) then Some c
          else None)\<rparr>"

text \<open>
  \<open>receive_fragment\<close> after its constructor is found or made: the count check, the compression
  metadata, the constructor's own step and the decompression of a completed message.
\<close>

definition receive_into ::
  "block_ops \<Rightarrow> fragment_data \<Rightarrow> duration option \<Rightarrow> compression_config \<Rightarrow> fragment_constructor \<Rightarrow>
   fragment_receiver \<Rightarrow> fragment_receiver \<times> (channel_receive_error + (tick \<times> bytes) option)" where
  "receive_into Z fragment current_time config fc r =
     (let num_fragments = unat (fd_num_fragments fragment);
          fragment_index = unat (fd_fragment_id fragment);
          mid = fd_message_id fragment;
          put = (\<lambda>fc. r\<lparr>fr_messages := (fr_messages r)(mid \<mapsto> fc)\<rparr>)
      in if fc_num_fragments fc \<noteq> num_fragments
         then (put fc, Inl (FragmentCountMismatch (fc_num_fragments fc) num_fragments))
         else
           case (case fd_compression fragment of
                   Some c \<Rightarrow> set_compression c fc
                 | None \<Rightarrow> if fragment_index = 0 then Inl MissingFragmentCompression else Inr fc) of
             Inl e \<Rightarrow> (put fc, Inl e)
           | Inr fc \<Rightarrow>
               (case fc_receive_fragment fragment_index (fd_bytes fragment) current_time fc of
                  (fc, Inl e) \<Rightarrow> (put fc, Inl e)
                | (fc, Inr None) \<Rightarrow> (put fc, Inr None)
                | (fc, Inr (Some (tick, payload))) \<Rightarrow>
                    (case fc_compression fc of
                       None \<Rightarrow> (put fc, Inl MissingFragmentCompression)
                     | Some c \<Rightarrow>
                         (r\<lparr>fr_messages := (fr_messages r)(mid := None)\<rparr>,
                          and_then (decompress_fragment_payload Z c payload config) (\<lambda>payload.
                            Inr (Some (tick, payload)))))))"

definition receive_fragment ::
  "block_ops \<Rightarrow> fragment_data \<Rightarrow> tick \<Rightarrow> duration option \<Rightarrow> compression_config \<Rightarrow> fragment_receiver \<Rightarrow>
   fragment_receiver \<times> (channel_receive_error + (tick \<times> bytes) option)" where
  "receive_fragment Z fragment sent_tick current_time config r =
     (let num_fragments = fd_num_fragments fragment; fragment_index = fd_fragment_id fragment in
      if num_fragments = 0 then (r, Inl (InvalidFragmentCount num_fragments))
      else if fragment_index \<ge> num_fragments
      then (r, Inl (InvalidFragmentIndex fragment_index num_fragments))
      else
        case fr_messages r (fd_message_id fragment) of
          Some fc \<Rightarrow> receive_into Z fragment current_time config fc r
        | None \<Rightarrow>
            (case fragment_constructor_new sent_tick (unat num_fragments) (fr_fragment_size r) of
               Inl e \<Rightarrow> (r, Inl e)
             | Inr fc \<Rightarrow> receive_into Z fragment current_time config fc r))"

section \<open>Chunks\<close>

definition chunk_at :: "nat \<Rightarrow> 'a list \<Rightarrow> nat \<Rightarrow> 'a list" where
  "chunk_at s xs i = take s (drop (i * s) xs)"

lemma chunks_Nil [simp]: "chunks s [] = []"
  by (simp add: chunks.simps)

lemma chunks_bounds:
  assumes "0 < s" and "xs \<noteq> []"
  shows "0 < length (chunks s xs)" and "(length (chunks s xs) - 1) * s < length xs"
    and "length xs \<le> length (chunks s xs) * s"
proof -
  have "0 < length (chunks s xs) \<and> (length (chunks s xs) - 1) * s < length xs \<and>
      length xs \<le> length (chunks s xs) * s"
    using assms
  proof (induction s xs rule: chunks.induct)
    case (1 s xs)
    show ?case
    proof (cases "drop s xs = []")
      case True
      then have "chunks s xs = [xs]"
        using "1.prems" by (subst chunks.simps) simp
      then show ?thesis
        using "1.prems" True by simp
    next
      case False
      have c: "chunks s xs = take s xs # chunks s (drop s xs)"
        using "1.prems" by (subst chunks.simps) simp
      have "0 < length (chunks s (drop s xs)) \<and>
          (length (chunks s (drop s xs)) - 1) * s < length (drop s xs) \<and>
          length (drop s xs) \<le> length (chunks s (drop s xs)) * s"
        using "1.IH" "1.prems" False by simp
      then show ?thesis
        by (cases "length (chunks s (drop s xs))") (auto simp: c)
    qed
  qed
  then show "0 < length (chunks s xs)" and "(length (chunks s xs) - 1) * s < length xs"
    and "length xs \<le> length (chunks s xs) * s" by auto
qed

lemma chunks_nth: "i < length (chunks s xs) \<Longrightarrow> chunks s xs ! i = chunk_at s xs i"
proof (induction s xs arbitrary: i rule: chunks.induct)
  case (1 s xs)
  show ?case
  proof (cases "xs = [] \<or> s = 0")
    case True
    then show ?thesis
      using "1.prems" by (simp add: chunks.simps [of s xs])
  next
    case False
    then have c: "chunks s xs = take s xs # chunks s (drop s xs)"
      by (subst chunks.simps) simp
    show ?thesis
      using "1.IH" [OF False] "1.prems" by (cases i) (auto simp: c chunk_at_def add.commute)
  qed
qed

lemma chunk_at_nth: "k < s \<Longrightarrow> i * s + k < length xs \<Longrightarrow> chunk_at s xs i ! k = xs ! (i * s + k)"
  by (simp add: chunk_at_def)

lemma length_chunk_at: "length (chunk_at s xs i) = min s (length xs - i * s)"
  by (simp add: chunk_at_def)

section \<open>Reassembling a message\<close>

text \<open>
  The invariant of a constructor that has got the fragments with the indices in \<open>S\<close> of the payload
  \<open>p\<close>, split into \<open>n\<close> chunks of size \<open>s\<close>. Until the last chunk is there, the buffer has room for
  \<open>n\<close> full chunks.
\<close>

definition constructor_inv ::
  "bytes \<Rightarrow> nat \<Rightarrow> nat \<Rightarrow> tick \<Rightarrow> nat set \<Rightarrow> fragment_constructor \<Rightarrow> bool" where
  "constructor_inv p s n t S fc \<longleftrightarrow>
     fc_num_fragments fc = n \<and> fc_fragment_size fc = s \<and> fc_tick fc = t \<and>
     length (fc_received fc) = n \<and> (\<forall>i < n. fc_received fc ! i \<longleftrightarrow> i \<in> S) \<and>
     S \<subseteq> {..<n} \<and> fc_num_received fc = card S \<and>
     length (fc_bytes fc) = (if n - 1 \<in> S then length p else n * s) \<and>
     (\<forall>j < length p. j div s \<in> S \<longrightarrow> fc_bytes fc ! j = p ! j)"

text \<open>A payload that is cut into \<open>n\<close> chunks and fits in memory.\<close>

definition split_ok :: "bytes \<Rightarrow> nat \<Rightarrow> nat \<Rightarrow> bool" where
  "split_ok p s n \<longleftrightarrow> 0 < s \<and> 0 < n \<and> (n - 1) * s < length p \<and> length p \<le> n * s \<and> n * s \<le> isize_max"

lemma isize_max_usize [simp]: "k \<le> isize_max \<Longrightarrow> k \<le> usize_max"
  by (simp add: isize_max_def usize_max_def)

lemma constructor_new_inv:
  assumes "split_ok p s n"
  shows "\<exists>fc. fragment_constructor_new t n s = Inr fc \<and> constructor_inv p s n t {} fc \<and>
    fc_compression fc = None"
proof -
  have "n \<le> n * s"
    using assms by (simp add: split_ok_def)
  moreover have "n * s \<le> isize_max"
    using assms by (simp add: split_ok_def)
  ultimately have "n \<le> isize_max" "n * s \<le> isize_max"
    by (blast intro: le_trans)+
  then show ?thesis
    by (auto simp: fragment_constructor_new_def checked_mul_def constructor_inv_def)
qed

lemma chunk_length:
  assumes "split_ok p s n" and "i < n"
  shows "length (chunk_at s p i) = (if i = n - 1 then length p - (n - 1) * s else s)"
    and "i * s + length (chunk_at s p i) \<le> length p"
proof -
  have "i \<le> n - 1" using assms(2) by simp
  then have le: "i * s \<le> (n - 1) * s" by (rule mult_le_mono1)
  have "Suc i * s \<le> (n - 1) * s" if "i \<noteq> n - 1"
    using that \<open>i \<le> n - 1\<close> by (intro mult_le_mono1) simp
  moreover have "length p - (n - 1) * s \<le> s"
    using assms(1) by (cases n) (auto simp: split_ok_def)
  ultimately show "length (chunk_at s p i) = (if i = n - 1 then length p - (n - 1) * s else s)"
    using assms(1) by (auto simp: length_chunk_at split_ok_def)
  show "i * s + length (chunk_at s p i) \<le> length p"
  proof -
    have "i * s < length p"
      using le assms(1) unfolding split_ok_def by linarith
    then show ?thesis
      by (simp add: length_chunk_at min_def) linarith
  qed
qed

lemma nth_splice:
  assumes "start + length ys \<le> length xs" and "j < length xs"
  shows "(take start xs @ ys @ drop (start + length ys) xs) ! j =
    (if start \<le> j \<and> j < start + length ys then ys ! (j - start) else xs ! j)"
  using assms by (auto simp: nth_append)

text \<open>What storing a new fragment does to the buffer: it writes its chunk, in place.\<close>

lemma store_fragment_bytes:
  assumes "split_ok p s n" and inv: "constructor_inv p s n t S fc" and "i < n" and "i \<notin> S"
  shows "\<exists>fc'. store_fragment i (chunk_at s p i) fc = (fc', Inr ()) \<and>
    fc_compression fc' = fc_compression fc \<and> constructor_inv p s n t (insert i S) fc'"
proof -
  let ?c = "chunk_at s p i"
  define b where "b = (if i = n - 1 then take (length p) (fc_bytes fc) else fc_bytes fc)"
  have sp: "0 < s" "0 < n" "(n - 1) * s < length p" "length p \<le> n * s" "n * s \<le> usize_max"
    using assms(1) by (auto simp: split_ok_def)
  have fc: "fc_num_fragments fc = n" "fc_fragment_size fc = s" "length (fc_received fc) = n"
    and bytes: "length (fc_bytes fc) = (if n - 1 \<in> S then length p else n * s)"
      "\<forall>j < length p. j div s \<in> S \<longrightarrow> fc_bytes fc ! j = p ! j"
    using inv by (simp_all add: constructor_inv_def)
  note cl = chunk_length [OF assms(1,3)]
  have fin: "finite S"
    using inv finite_subset [of S "{..<n}"] by (auto simp: constructor_inv_def)
  have len_b: "length b = (if n - 1 \<in> insert i S then length p else n * s)"
    using bytes(1) sp \<open>i \<notin> S\<close> by (auto simp: b_def)
  have fits: "i * s + length ?c \<le> length b"
    using cl(2) sp len_b by auto
  define b' where "b' = take (i * s) b @ ?c @ drop (i * s + length ?c) b"
  have len_b': "length b' = length b"
    using fits by (simp add: b'_def)
  have content: "b' ! j = p ! j" if "j < length p" "j div s \<in> insert i S" for j
  proof -
    have jb: "j < length b"
      using that(1) len_b sp by (auto split: if_splits)
    show ?thesis
    proof (cases "j div s = i")
      case True
      then have j: "i * s + j mod s = j" and lt: "j mod s < s"
        using sp(1) div_mult_mod_eq [of j s] by auto
      then have "j mod s < length ?c"
        using that(1) by (simp add: length_chunk_at)
      then have "b' ! j = ?c ! (j - i * s)"
        using nth_splice [OF fits jb] j unfolding b'_def by simp
      also have "j - i * s = j mod s"
        using j by simp
      also have "?c ! (j mod s) = p ! j"
        using chunk_at_nth [OF lt, of i p] j that(1) by simp
      finally show ?thesis .
    next
      case False
      then have "\<not> (i * s \<le> j \<and> j < i * s + length ?c)"
        using div_nat_eqI [of s i j] by (auto simp: length_chunk_at mult.commute add.commute min_def
            split: if_splits)
      then have "b' ! j = b ! j"
        using nth_splice [OF fits jb] unfolding b'_def by (simp only: if_False simp_thms)
      also have "\<dots> = fc_bytes fc ! j"
        using that(1) by (simp add: b_def)
      finally show ?thesis
        using bytes(2) that False by simp
    qed
  qed
  define fc' where "fc' = fc\<lparr>fc_received := (fc_received fc)[i := True],
    fc_num_received := fc_num_received fc + 1, fc_bytes := b'\<rparr>"
  have mul: "checked_mul (n - 1) s = Some ((n - 1) * s)" "checked_mul i s = Some (i * s)"
    using sp cl(2) by (auto simp: checked_mul_def)
  have add: "checked_add (i * s) (length ?c) = Some (i * s + length ?c)"
    using sp cl(2) by (auto simp: checked_add_def)
  have "store_fragment i ?c fc = (fc', Inr ())"
  proof (cases "i = n - 1")
    case True
    have "checked_add ((n - 1) * s) (length ?c) = Some (length p)"
      using sp cl(1) True by (auto simp: checked_add_def)
    moreover have "resize (length p) 0 (fc_bytes fc) = b"
      using True bytes(1) sp by (simp add: resize_def b_def)
    ultimately show ?thesis
      using fits mul add by (simp add: store_fragment_def fc True Let_def fc'_def b'_def)
  next
    case False
    moreover have "resize (length (fc_bytes fc)) 0 (fc_bytes fc) = b"
      using False by (simp add: resize_def b_def)
    ultimately show ?thesis
      using fits mul add by (simp add: store_fragment_def fc Let_def fc'_def b'_def)
  qed
  moreover have "constructor_inv p s n t (insert i S) fc'"
    using inv \<open>i < n\<close> \<open>i \<notin> S\<close> fin content len_b' len_b
    by (auto simp: constructor_inv_def fc'_def nth_list_update)
  ultimately show ?thesis
    by (intro exI [of _ fc']) (simp add: fc'_def)
qed

lemma constructor_complete:
  assumes "split_ok p s n" and inv: "constructor_inv p s n t {..<n} fc"
  shows "fc_bytes fc = p"
proof (rule nth_equalityI)
  have "n - 1 < n"
    using assms(1) by (simp add: split_ok_def)
  then show len: "length (fc_bytes fc) = length p"
    using inv by (simp add: constructor_inv_def)
  fix j assume "j < length (fc_bytes fc)"
  then have j: "j < length p" by (simp add: len)
  also have "\<dots> \<le> n * s"
    using assms(1) by (simp add: split_ok_def)
  finally have "j div s < n"
    by (simp add: less_mult_imp_div_less)
  then show "fc_bytes fc ! j = p ! j"
    using inv j by (simp add: constructor_inv_def)
qed

lemma constructor_count:
  assumes "constructor_inv p s n t S fc"
  shows "fc_num_received fc = fc_num_fragments fc \<longleftrightarrow> S = {..<n}"
  using assms card_subset_eq [of "{..<n}" S] by (auto simp: constructor_inv_def)

lemma constructor_inv_time [simp]:
  "constructor_inv p s n t S (fc\<lparr>fc_last_received := tm\<rparr>) = constructor_inv p s n t S fc"
  "constructor_inv p s n t S (fc\<lparr>fc_compression := c\<rparr>) = constructor_inv p s n t S fc"
  by (simp_all add: constructor_inv_def)

lemma fc_receive_inv:
  assumes sp: "split_ok p s n" and inv: "constructor_inv p s n t S fc" and "i < n"
  shows "\<exists>fc'. fc_receive_fragment i (chunk_at s p i) tm fc =
      (fc', Inr (if insert i S = {..<n} then Some (t, p) else None)) \<and>
    fc_compression fc' = fc_compression fc \<and>
    (insert i S \<noteq> {..<n} \<longrightarrow> constructor_inv p s n t (insert i S) fc')"
proof -
  let ?fc = "fc\<lparr>fc_last_received := tm\<rparr>"
  let ?stored = "if fc_received ?fc ! i then (?fc, Inr ()) else store_fragment i (chunk_at s p i) ?fc"
  have inv0: "constructor_inv p s n t S ?fc"
    using inv by simp
  then have basic: "fc_num_fragments ?fc = n" "fc_fragment_size ?fc = s" "length (fc_received ?fc) = n"
    "fc_received ?fc ! i \<longleftrightarrow> i \<in> S"
    using \<open>i < n\<close> by (simp_all add: constructor_inv_def)
  obtain fc1 where stored: "?stored = (fc1, Inr ())" "fc_compression fc1 = fc_compression fc"
    "constructor_inv p s n t (insert i S) fc1"
    using store_fragment_bytes [OF sp inv0 \<open>i < n\<close>] basic(4) inv0
    by (cases "i \<in> S") (auto simp: insert_absorb)
  note cl = chunk_length [OF sp \<open>i < n\<close>]
  have sizes: "i \<noteq> n - 1 \<Longrightarrow> length (chunk_at s p i) = s" "length (chunk_at s p i) \<le> s"
    using cl(1) by (auto simp: length_chunk_at)
  have "fc_receive_fragment i (chunk_at s p i) tm fc =
      (if fc_num_received fc1 = fc_num_fragments fc1
       then (fc1\<lparr>fc_bytes := []\<rparr>, Inr (Some (fc_tick fc1, fc_bytes fc1))) else (fc1, Inr None))"
    using stored(1) sizes basic \<open>i < n\<close> unfolding fc_receive_fragment_def Let_def by auto
  moreover have "fc_tick fc1 = t"
    using stored(3) by (simp add: constructor_inv_def)
  moreover have "fc_bytes fc1 = p" if "insert i S = {..<n}"
    using constructor_complete [OF sp] stored(3) that by simp
  ultimately show ?thesis
    using constructor_count [OF stored(3)] stored(2,3) by auto
qed

text \<open>The fragment with index \<open>i\<close> of a payload, and a receiver that has got the ones in \<open>S\<close>.\<close>

definition fragment_of ::
  "message_id \<Rightarrow> bytes \<Rightarrow> nat \<Rightarrow> nat \<Rightarrow> fragment_compression \<Rightarrow> nat \<Rightarrow> fragment_data" where
  "fragment_of mid p s n c i =
     \<lparr>fd_message_id = mid, fd_fragment_id = word_of_nat i, fd_num_fragments = word_of_nat n,
      fd_compression = (if i = 0 then Some c else None), fd_bytes = chunk_at s p i\<rparr>"

definition receiver_inv ::
  "message_id \<Rightarrow> bytes \<Rightarrow> nat \<Rightarrow> nat \<Rightarrow> fragment_compression \<Rightarrow> tick \<Rightarrow> nat set \<Rightarrow> fragment_receiver \<Rightarrow> bool"
where
  "receiver_inv mid p s n c t S r \<longleftrightarrow> fr_fragment_size r = s \<and>
     (case fr_messages r mid of
        None \<Rightarrow> S = {}
      | Some fc \<Rightarrow> constructor_inv p s n t S fc \<and>
          fc_compression fc = (if 0 \<in> S then Some c else None))"

lemma receive_into_inv:
  assumes sp: "split_ok p s n" and inv: "constructor_inv p s n t S fc"
    and comp: "fc_compression fc = (if 0 \<in> S then Some c else None)" and "i < n"
    and size: "fr_fragment_size r = s"
  shows "\<exists>r'. receive_into Z (fragment_of mid p s n c i) tm config fc r =
      (r', if insert i S = {..<n}
           then and_then (decompress_fragment_payload Z c p config) (\<lambda>m. Inr (Some (t, m)))
           else Inr None) \<and>
    (\<forall>m. m \<noteq> mid \<longrightarrow> fr_messages r' m = fr_messages r m) \<and>
    fr_fragment_size r' = s \<and>
    (if insert i S = {..<n} then fr_messages r' mid = None
     else receiver_inv mid p s n c t (insert i S) r')"
proof -
  have "n \<le> n * s"
    using sp by (simp add: split_ok_def)
  then have "n \<le> isize_max"
    using sp unfolding split_ok_def by linarith
  then have bound: "unat (word_of_nat n :: u64) = n" "unat (word_of_nat i :: u64) = i"
    using \<open>i < n\<close> by (simp_all add: isize_max_def unat_of_nat)
  define fc0 where "fc0 = (if i = 0 then fc\<lparr>fc_compression := Some c\<rparr> else fc)"
  have set: "(case fd_compression (fragment_of mid p s n c i) of
       Some c \<Rightarrow> set_compression c fc
     | None \<Rightarrow> if i = 0 then Inl MissingFragmentCompression else Inr fc) = Inr fc0"
    using comp by (auto simp: fragment_of_def set_compression_def fc0_def)
  have inv0: "constructor_inv p s n t S fc0"
    using inv by (simp add: fc0_def)
  have comp0: "fc_compression fc0 = (if 0 \<in> insert i S then Some c else None)"
    using comp by (auto simp: fc0_def)
  obtain fc' where fc': "fc_receive_fragment i (chunk_at s p i) tm fc0 =
      (fc', Inr (if insert i S = {..<n} then Some (t, p) else None))"
    "fc_compression fc' = fc_compression fc0"
    "insert i S \<noteq> {..<n} \<longrightarrow> constructor_inv p s n t (insert i S) fc'"
    using fc_receive_inv [OF sp inv0 \<open>i < n\<close>] by blast
  have n: "fc_num_fragments fc = n"
    using inv by (simp add: constructor_inv_def)
  have fd: "fd_num_fragments (fragment_of mid p s n c i) = word_of_nat n"
    "fd_fragment_id (fragment_of mid p s n c i) = word_of_nat i"
    "fd_message_id (fragment_of mid p s n c i) = mid"
    "fd_bytes (fragment_of mid p s n c i) = chunk_at s p i"
    by (simp_all add: fragment_of_def)
  show ?thesis
  proof (cases "insert i S = {..<n}")
    case True
    then have "0 \<in> insert i S"
      using \<open>i < n\<close> by simp
    then have "fc_compression fc' = Some c"
      using fc'(2) comp0 by simp
    then have "receive_into Z (fragment_of mid p s n c i) tm config fc r =
        (r\<lparr>fr_messages := (fr_messages r)(mid := None)\<rparr>,
         and_then (decompress_fragment_payload Z c p config) (\<lambda>m. Inr (Some (t, m))))"
      unfolding receive_into_def Let_def fd bound set using n fc'(1) True by simp
    then show ?thesis
      using True size by simp
  next
    case False
    then have "receive_into Z (fragment_of mid p s n c i) tm config fc r =
        (r\<lparr>fr_messages := (fr_messages r)(mid \<mapsto> fc')\<rparr>, Inr None)"
      unfolding receive_into_def Let_def fd bound set using n fc'(1) by simp
    then show ?thesis
      using False size fc' comp0 by (simp add: receiver_inv_def)
  qed
qed

lemma receive_fragment_inv:
  assumes sp: "split_ok p s n" and inv: "receiver_inv mid p s n c t S r" and "i < n"
    and t: "S = {} \<Longrightarrow> tick = t"
  shows "\<exists>r'. receive_fragment Z (fragment_of mid p s n c i) tick tm config r =
      (r', if insert i S = {..<n}
           then and_then (decompress_fragment_payload Z c p config) (\<lambda>m. Inr (Some (t, m)))
           else Inr None) \<and>
    (\<forall>m. m \<noteq> mid \<longrightarrow> fr_messages r' m = fr_messages r m) \<and>
    fr_fragment_size r' = s \<and>
    (if insert i S = {..<n} then fr_messages r' mid = None
     else receiver_inv mid p s n c t (insert i S) r')"
proof -
  have "n \<le> n * s"
    using sp by (simp add: split_ok_def)
  then have "n \<le> isize_max"
    using sp unfolding split_ok_def by linarith
  then have bound: "unat (word_of_nat n :: u64) = n" "unat (word_of_nat i :: u64) = i"
    using \<open>i < n\<close> by (simp_all add: isize_max_def unat_of_nat)
  then have guards: "(word_of_nat n :: u64) \<noteq> 0" "\<not> (word_of_nat n :: u64) \<le> word_of_nat i"
    using \<open>i < n\<close> by (auto simp: word_le_nat_alt word_unat_eq_iff)
  have size: "fr_fragment_size r = s"
    using inv by (simp add: receiver_inv_def)
  show ?thesis
  proof (cases "fr_messages r mid")
    case None
    then have S: "S = {}"
      using inv by (simp add: receiver_inv_def)
    obtain fc where fc: "fragment_constructor_new tick n s = Inr fc"
      "constructor_inv p s n t S fc" "fc_compression fc = (if 0 \<in> S then Some c else None)"
      using constructor_new_inv [OF sp, of tick] t [OF S] S by auto
    show ?thesis
      using receive_into_inv [OF sp fc(2,3) \<open>i < n\<close> size, of Z mid tm config] None fc(1) guards size bound
      by (simp add: receive_fragment_def fragment_of_def)
  next
    case (Some fc)
    then have "constructor_inv p s n t S fc" "fc_compression fc = (if 0 \<in> S then Some c else None)"
      using inv by (simp_all add: receiver_inv_def)
    from receive_into_inv [OF sp this \<open>i < n\<close> size, of Z mid tm config] Some guards
    show ?thesis
      by (simp add: receive_fragment_def fragment_of_def)
  qed
qed

text \<open>Fragments delivered one after the other, each with its tick and the time of arrival.\<close>

fun receive_fragments ::
  "block_ops \<Rightarrow> compression_config \<Rightarrow> (fragment_data \<times> tick \<times> duration option) list \<Rightarrow> fragment_receiver \<Rightarrow>
   fragment_receiver \<times> (channel_receive_error + (tick \<times> bytes) option) list" where
  "receive_fragments Z config [] r = (r, [])"
| "receive_fragments Z config ((f, t, tm) # ds) r =
     (let (r, res) = receive_fragment Z f t tm config r;
          (r, ress) = receive_fragments Z config ds r
      in (r, res # ress))"

lemma receive_fragments_run:
  assumes "split_ok p s n" and "receiver_inv mid p s n c t S r" and "S = {} \<Longrightarrow> fst (snd (hd (ds @ [d]))) = t"
    and "\<forall>(i, _) \<in> set (ds @ [d]). i < n"
    and "S \<union> fst ` set ds \<noteq> {..<n}" and "S \<union> fst ` set (ds @ [d]) = {..<n}"
  shows "\<exists>r'. receive_fragments Z config
      (map (\<lambda>(i, t, tm). (fragment_of mid p s n c i, t, tm)) (ds @ [d])) r =
      (r', replicate (length ds) (Inr None) @
         [and_then (decompress_fragment_payload Z c p config) (\<lambda>m. Inr (Some (t, m)))]) \<and>
    fr_messages r' = (fr_messages r)(mid := None) \<and> fr_fragment_size r' = s"
  using assms
proof (induction ds arbitrary: S r)
  case Nil
  obtain i tick tm where d: "d = (i, tick, tm)" by (cases d)
  obtain r' where "receive_fragment Z (fragment_of mid p s n c i) tick tm config r =
      (r', and_then (decompress_fragment_payload Z c p config) (\<lambda>m. Inr (Some (t, m))))"
    "\<forall>m. m \<noteq> mid \<longrightarrow> fr_messages r' m = fr_messages r m" "fr_messages r' mid = None"
    "fr_fragment_size r' = s"
    using receive_fragment_inv [OF Nil.prems(1,2), of i tick Z tm config] Nil.prems(3-6) d by auto
  then show ?case
    by (auto simp: d fun_eq_iff)
next
  case (Cons e ds)
  obtain i tick tm where e: "e = (i, tick, tm)" by (cases e)
  have "insert i S \<noteq> {..<n}"
    using Cons.prems(4,5) unfolding e by auto
  then obtain r1 where r1: "receive_fragment Z (fragment_of mid p s n c i) tick tm config r = (r1, Inr None)"
    "\<forall>m. m \<noteq> mid \<longrightarrow> fr_messages r1 m = fr_messages r m"
    "receiver_inv mid p s n c t (insert i S) r1"
    using receive_fragment_inv [OF Cons.prems(1,2), of i tick Z tm config] Cons.prems(3,4) e by auto
  have rest: "\<forall>(i, _) \<in> set (ds @ [d]). i < n" "insert i S \<union> fst ` set ds \<noteq> {..<n}"
    "insert i S \<union> fst ` set (ds @ [d]) = {..<n}"
    using Cons.prems(4-6) by (simp_all add: e insert_commute)
  obtain r' where r': "receive_fragments Z config
      (map (\<lambda>(i, t, tm). (fragment_of mid p s n c i, t, tm)) (ds @ [d])) r1 =
      (r', replicate (length ds) (Inr None) @
         [and_then (decompress_fragment_payload Z c p config) (\<lambda>m. Inr (Some (t, m)))])"
    "fr_messages r' = (fr_messages r1)(mid := None)" "fr_fragment_size r' = s"
    using Cons.IH [OF Cons.prems(1) r1(3) _ rest] by blast
  then show ?case
    using r1 by (auto simp: e fun_eq_iff)
qed

lemma build_fragments_nth:
  assumes "build_fragments_with_compression mid p c s = Some frags" and "p \<noteq> []"
    and "length frags * fs_fragment_size s \<le> isize_max"
  shows "split_ok p (fs_fragment_size s) (length frags)"
    and "i < length frags \<Longrightarrow>
      frags ! i = fragment_of mid p (fs_fragment_size s) (length frags) c i"
proof -
  have pos: "0 < fs_fragment_size s" and len: "length frags = length (chunks (fs_fragment_size s) p)"
    using assms(1) by (auto simp: build_fragments_with_compression_def Let_def split: if_splits)
  show "split_ok p (fs_fragment_size s) (length frags)"
    using chunks_bounds [OF pos assms(2)] assms(3) pos by (simp add: split_ok_def len)
  show "frags ! i = fragment_of mid p (fs_fragment_size s) (length frags) c i" if "i < length frags"
    using that assms(1) pos
    by (auto simp: build_fragments_with_compression_def Let_def len fragment_of_def chunks_nth
        nth_enumerate_eq)
qed

text \<open>
  How a message is cut: its own bytes without compression, or its compressed form, which the
  receiver's decompression maps back to the message.
\<close>

lemma build_for_message_payload:
  assumes Z: "block_codec Z" and b: "build_fragments_for_message Z mid msg config s = Some frags"
    and rc: "algorithm rconfig = algorithm config" "length msg \<le> max_decompressed_payload_size rconfig"
  shows "\<exists>p c. build_fragments_with_compression mid p c s = Some frags \<and> p \<noteq> [] \<and>
    decompress_fragment_payload Z c p rconfig = Inr msg"
proof (cases "\<exists>p a b. compress_fragment Z msg config = Inr (Candidate_Compressed p a b)")
  case True
  then obtain p x y where p: "compress_fragment Z msg config = Inr (Candidate_Compressed p x y)"
    by blast
  then have alg: "algorithm config = Some Lz4_algorithm" and z: "compress_lz4 Z msg = Inr p"
    by (auto simp: compress_fragment_def compress_into_def Let_def and_then_Inr_iff
        split: option.splits if_splits compression_algorithm.splits)
  have "p \<noteq> []"
    using z by (auto simp: compress_lz4_def and_then_Inr_iff le_bytes_def be_bytes_def split: if_splits)
  moreover have "build_fragments_with_compression mid p Lz4 s = Some frags"
    using b p alg by (auto simp: build_fragments_for_message_def fragment_compression_of_def split: if_splits)
  moreover have "decompress_fragment_payload Z Lz4 p rconfig = Inr msg"
    using block_codec.decompress_compress_lz4 [OF Z z, of rconfig] rc alg
    by (simp add: decompress_fragment_payload_def config_for_fragment_compression_def)
  ultimately show ?thesis by blast
next
  case False
  then have "build_fragments mid msg s = Some frags"
    using b by (auto simp: build_fragments_for_message_def split: if_splits sum.splits option.splits
        payload_compression_candidate.splits)
  then have "build_fragments_with_compression mid msg NoCompression s = Some frags" "msg \<noteq> []"
    by (auto simp: build_fragments_def split: if_splits)
  then show ?thesis
    by (intro exI [of _ msg] exI [of _ NoCompression]) (simp add: decompress_fragment_payload_def)
qed

text \<open>
  C2: a message that is cut into fragments, compressed or not, comes back whole. Delivered in any
  order, any number of times each, the fragments leave the receiver waiting without error as long
  as one of them is missing; the delivery of the last missing one returns exactly the original
  message with the tick of the first fragment delivered, and frees the receiver's state for it,
  without touching any other message being reassembled.
\<close>

theorem fragments_reassemble:
  assumes "block_codec Z" and "build_fragments_for_message Z mid msg config s = Some frags"
    and "length frags * fs_fragment_size s \<le> isize_max"
    and "algorithm rconfig = algorithm config" and "length msg \<le> max_decompressed_payload_size rconfig"
    and "fr_messages r mid = None" and "fr_fragment_size r = fs_fragment_size s"
    and "\<forall>(i, _) \<in> set (ds @ [d]). i < length frags"
    and "fst ` set ds \<noteq> {..<length frags}" and "fst ` set (ds @ [d]) = {..<length frags}"
  shows "\<exists>r'. receive_fragments Z rconfig (map (\<lambda>(i, t, tm). (frags ! i, t, tm)) (ds @ [d])) r =
      (r', replicate (length ds) (Inr None) @ [Inr (Some (fst (snd (hd (ds @ [d]))), msg))]) \<and>
    fr_messages r' = fr_messages r"
proof -
  obtain p c where p: "build_fragments_with_compression mid p c s = Some frags" "p \<noteq> []"
    and dec: "decompress_fragment_payload Z c p rconfig = Inr msg"
    using build_for_message_payload [OF assms(1,2,4,5)] by blast
  note frags = build_fragments_nth [OF p assms(3)]
  have "receiver_inv mid p (fs_fragment_size s) (length frags) c (fst (snd (hd (ds @ [d])))) {} r"
    using assms(6,7) by (simp add: receiver_inv_def)
  from receive_fragments_run [OF frags(1) this, of ds d Z rconfig] assms(8-10)
  obtain r' where "receive_fragments Z rconfig (map (\<lambda>(i, t, tm).
      (fragment_of mid p (fs_fragment_size s) (length frags) c i, t, tm)) (ds @ [d])) r =
      (r', replicate (length ds) (Inr None) @ [Inr (Some (fst (snd (hd (ds @ [d]))), msg))])"
    and "fr_messages r' = (fr_messages r)(mid := None)"
    by (auto simp: dec)
  moreover have "map (\<lambda>(i, t, tm). (fragment_of mid p (fs_fragment_size s) (length frags) c i, t, tm)) (ds @ [d]) =
      map (\<lambda>(i, t, tm). (frags ! i, t, tm)) (ds @ [d])"
    using assms(8) frags(2) by (intro map_cong) auto
  ultimately show ?thesis
    using assms(6) by (metis fun_upd_triv)
qed

definition example_sender :: fragment_sender where
  "example_sender = \<lparr>fs_fragment_size = 2\<rparr>"

theorem fragments_reassemble_witness:
  "\<exists>r'. receive_fragments rle_block DISABLED
     [(fragment_of 5 [1, 2, 3] 2 2 NoCompression 1, 40, None),
      (fragment_of 5 [1, 2, 3] 2 2 NoCompression 1, 41, None),
      (fragment_of 5 [1, 2, 3] 2 2 NoCompression 0, 42, None)]
     \<lparr>fr_messages = Map.empty, fr_fragment_size = 2\<rparr> =
     (r', [Inr None, Inr None, Inr (Some (40, [1, 2, 3]))])"
proof -
  let ?f = "fragment_of 5 [1, 2, 3] 2 2 NoCompression"
  have "build_fragments_for_message rle_block 5 [1, 2, 3] DISABLED example_sender = Some [?f 0, ?f 1]"
    by (simp add: build_fragments_for_message_def compress_fragment_def DISABLED_def example_sender_def
        build_fragments_def build_fragments_with_compression_def chunks.simps fragment_of_def chunk_at_def
        fragment_compression_of_def)
  from fragments_reassemble [OF rle_codec.block_codec_axioms this, of DISABLED
      "\<lparr>fr_messages = Map.empty, fr_fragment_size = 2\<rparr>" "[(1, 40, None), (1, 41, None)]" "(0, 42, None)"]
  show ?thesis
    by (force simp: example_sender_def isize_max_def DISABLED_def lessThan_Suc)
qed

section \<open>A fragment count chosen by the peer\<close>

text \<open>
  C14: the buffers of a new fragmented message are allocated at once from the fragment count in the
  packet, which is only checked against the \<open>usize\<close> range. Whatever fragment it announces, a
  first fragment whose count times the local fragment size lies beyond \<open>isize::MAX\<close> but within
  \<open>usize\<close> makes the receiver panic, and its encoding is a valid one that the peer can send.
\<close>

theorem fragment_count_can_panic_receiver:
  assumes "fr_messages r (fd_message_id f) = None" and "fd_fragment_id f < fd_num_fragments f"
    and "isize_max < unat (fd_num_fragments f) * fr_fragment_size r"
    and "unat (fd_num_fragments f) * fr_fragment_size r \<le> usize_max"
    and "fragment_data_ok f" and "wf_reader (reader_from (fragment_data_enc f))"
  shows "receive_fragment Z f t tm config r = (r, Inl RecvPanicked) \<and>
    fragment_data_from_bytes (reader_from (fragment_data_enc f)) =
      Inr (f, skip (length (fragment_data_enc f)) (reader_from (fragment_data_enc f)))"
proof -
  have "fd_num_fragments f \<noteq> 0"
    using assms(2) by auto
  then have "receive_fragment Z f t tm config r = (r, Inl RecvPanicked)"
    using assms(1-4)
    by (simp add: receive_fragment_def fragment_constructor_new_def checked_mul_def not_le Let_def)
  moreover have "remaining_slice (reader_from (fragment_data_enc f)) = fragment_data_enc f @ []"
    by (simp add: remaining_slice_def reader_from_def)
  ultimately show ?thesis
    using fragment_data_codec.get_ok [OF assms(5,6)] by blast
qed

theorem fragment_count_can_panic_receiver_witness:
  "snd (receive_fragment rle_block \<lparr>fd_message_id = 0, fd_fragment_id = 0, fd_num_fragments = 9007199254740992,
     fd_compression = Some NoCompression, fd_bytes = []\<rparr> 0 None DISABLED fragment_receiver_new) =
   Inl RecvPanicked"
proof -
  let ?f = "\<lparr>fd_message_id = 0, fd_fragment_id = 0, fd_num_fragments = 9007199254740992,
     fd_compression = Some NoCompression, fd_bytes = []\<rparr>"
  have "length (fragment_data_enc ?f) \<le> 19 + varint_size 0 + 0"
    by (rule fragment_enc_bound) (simp_all add: fragment_data_ok_def count_ok_def)
  then have "wf_reader (reader_from (fragment_data_enc ?f))"
    by (simp add: wf_reader_def reader_from_def usize_max_def varint_size_eq)
  with fragment_count_can_panic_receiver [of fragment_receiver_new ?f rle_block 0 None DISABLED]
  show ?thesis
    by (simp add: fragment_receiver_new_def FRAGMENT_SIZE_eq isize_max_def usize_max_def
        fragment_data_ok_def count_ok_def)
qed

section \<open>Acknowledging a fragmented message\<close>

fun receive_fragment_acks ::
  "message_id \<Rightarrow> (fragment_index \<times> duration option) list \<Rightarrow> fragment_ack_receiver \<Rightarrow>
   (bool list \<times> fragment_ack_receiver) option" where
  "receive_fragment_acks mid [] r = Some ([], r)"
| "receive_fragment_acks mid ((i, t) # acks) r =
     (case receive_fragment_ack mid i t r of
        None \<Rightarrow> None
      | Some (b, r) \<Rightarrow> map_option (\<lambda>(bs, r). (b # bs, r)) (receive_fragment_acks mid acks r))"

definition tracker_inv :: "nat \<Rightarrow> nat set \<Rightarrow> fragment_ack_tracker \<Rightarrow> bool" where
  "tracker_inv n S tr \<longleftrightarrow> fat_num_fragments tr = n \<and> length (fat_received tr) = n \<and>
     (\<forall>i < n. fat_received tr ! i \<longleftrightarrow> i \<in> S) \<and> S \<subseteq> {..<n} \<and> fat_num_received tr = card S"

lemma receive_ack_inv:
  assumes inv: "tracker_inv n S tr" and "i < n"
  shows "\<exists>tr'. receive_ack i t tr = Some (insert i S = {..<n}, tr') \<and> tracker_inv n (insert i S) tr'"
proof -
  let ?t = "tr\<lparr>fat_last_received := t\<rparr>"
  define tr' where "tr' = (if i \<in> S then ?t
    else ?t\<lparr>fat_received := (fat_received tr)[i := True], fat_num_received := fat_num_received tr + 1\<rparr>)"
  have "finite S"
    using inv finite_subset [of S "{..<n}"] by (auto simp: tracker_inv_def)
  then have inv': "tracker_inv n (insert i S) tr'"
    using assms by (auto simp: tracker_inv_def tr'_def insert_absorb nth_list_update)
  have "fat_num_received tr' = fat_num_fragments tr' \<longleftrightarrow> insert i S = {..<n}"
    using inv' card_subset_eq [of "{..<n}" "insert i S"] by (auto simp: tracker_inv_def)
  then have "receive_ack i t tr = Some (insert i S = {..<n}, tr')"
    using assms by (auto simp: receive_ack_def Let_def tracker_inv_def tr'_def)
  with inv' show ?thesis by blast
qed

lemma receive_fragment_acks_run:
  assumes "r mid = Some tr" and "tracker_inv n S tr" and "\<forall>(i, _) \<in> set (acks @ [a]). unat i < n"
    and "S \<union> (unat \<circ> fst) ` set acks \<noteq> {..<n}" and "S \<union> (unat \<circ> fst) ` set (acks @ [a]) = {..<n}"
  shows "receive_fragment_acks mid (acks @ [a]) r = Some (replicate (length acks) False @ [True], r(mid := None))"
  using assms
proof (induction acks arbitrary: r tr S)
  case Nil
  obtain i t where a: "a = (i, t)" by (cases a)
  obtain tr' where "receive_ack (unat i) t tr = Some (True, tr')"
    using receive_ack_inv [OF Nil.prems(2), of "unat i" t] Nil.prems(3,5) a by auto
  then show ?case
    using Nil.prems(1) by (simp add: a receive_fragment_ack_def fun_upd_def)
next
  case (Cons b acks)
  obtain i t where b: "b = (i, t)" by (cases b)
  have "insert (unat i) S \<noteq> {..<n}"
    using Cons.prems(3,4) unfolding b by auto
  then obtain tr' where tr': "receive_ack (unat i) t tr = Some (False, tr')" "tracker_inv n (insert (unat i) S) tr'"
    using receive_ack_inv [OF Cons.prems(2), of "unat i" t] Cons.prems(3) b by auto
  have "receive_fragment_acks mid (acks @ [a]) (r(mid \<mapsto> tr')) =
      Some (replicate (length acks) False @ [True], (r(mid \<mapsto> tr'))(mid := None))"
    using Cons.prems(3-5) by (intro Cons.IH [OF _ tr'(2)]) (simp_all add: b insert_commute)
  then show ?case
    using Cons.prems(1) tr'(1) by (auto simp: b receive_fragment_ack_def)
qed

text \<open>
  A fragmented message is reported as acknowledged exactly when the last of its fragments is,
  whatever the order and the repetitions of the acknowledgements, and its tracker is dropped then;
  an acknowledgement for a message that is not tracked changes nothing.
\<close>

theorem fragment_acks_complete_message:
  assumes "\<forall>(i, _) \<in> set (acks @ [a]). unat i < n"
    and "(unat \<circ> fst) ` set acks \<noteq> {..<n}" and "(unat \<circ> fst) ` set (acks @ [a]) = {..<n}"
  shows "receive_fragment_acks mid (acks @ [a]) (add_new_fragment_to_wait_for mid n r) =
      Some (replicate (length acks) False @ [True], r(mid := None)) \<and>
    receive_fragment_ack mid i t (far_discard_message mid r) = Some (False, far_discard_message mid r)"
proof -
  have "tracker_inv n {} (fragment_ack_tracker_new n)"
    by (simp add: tracker_inv_def fragment_ack_tracker_new_def)
  from receive_fragment_acks_run [OF _ this, of "r(mid \<mapsto> fragment_ack_tracker_new n)" mid acks a] assms
  show ?thesis
    by (simp add: add_new_fragment_to_wait_for_def receive_fragment_ack_def far_discard_message_def)
qed

theorem fragment_acks_complete_message_witness:
  "receive_fragment_acks 3 [(1, None), (1, None), (0, Some 9)]
     (add_new_fragment_to_wait_for 3 2 fragment_ack_receiver_new) = Some ([False, False, True], Map.empty)"
  using fragment_acks_complete_message [of "[(1, None), (1, None)]" "(0, Some 9)" 2 3 fragment_ack_receiver_new 0 None]
  by (auto simp: lessThan_Suc fragment_ack_receiver_new_def numeral_2_eq_2)

end
