(* ===== verification/Channel_Receive.thy ===== *)
theory Channel_Receive
  imports Fragments
begin

text \<open>
  The receiving half of a channel (\<open>crates/transport/transport/src/channel/receive.rs\<close>) with its
  five delivery policies, and the channel modes (\<open>channel/builder.rs\<close>).
\<close>

section \<open>Channel modes\<close>

record 'f reliable_settings =
  rtt_resend_factor :: 'f
  rtt_resend_min_delay :: duration

datatype 'f channel_mode =
    UnorderedUnreliableWithAcks
  | UnorderedUnreliable
  | SequencedUnreliable
  | UnorderedReliable "'f reliable_settings"
  | SequencedReliable "'f reliable_settings"
  | OrderedReliable "'f reliable_settings"

definition is_reliable :: "'f channel_mode \<Rightarrow> bool" where
  "is_reliable m =
     (case m of UnorderedUnreliableWithAcks \<Rightarrow> False | UnorderedUnreliable \<Rightarrow> False
      | SequencedUnreliable \<Rightarrow> False | UnorderedReliable _ \<Rightarrow> True | SequencedReliable _ \<Rightarrow> True
      | OrderedReliable _ \<Rightarrow> True)"

text \<open>A timeline is named by its Rust type identifier, kept as a number.\<close>

type_synonym timeline_kind = nat

record 'f channel_settings =
  cs_mode :: "'f channel_mode"
  cs_send_frequency :: duration
  cs_priority :: 'f
  cs_retry_unsent_messages :: bool
  cs_timeline :: "timeline_kind option"

section \<open>Delivery policies\<close>

datatype recv_state =
    RecvUnreliableUnordered "(tick \<times> bytes) list"
  | RecvUnreliableSequenced "(tick \<times> bytes \<times> message_id) option" "message_id option" "message_id option"
  | RecvReliableUnordered message_id "(message_id \<times> tick \<times> bytes) list" "message_id set"
  | RecvReliableOrdered message_id "message_id \<rightharpoonup> tick \<times> bytes"
  | RecvReliableSequenced "(tick \<times> bytes \<times> message_id) option" "message_id option" "message_id option"

definition expires_fragments :: "recv_state \<Rightarrow> bool" where
  "expires_fragments st =
     (case st of RecvUnreliableUnordered _ \<Rightarrow> True | RecvUnreliableSequenced _ _ _ \<Rightarrow> True | _ \<Rightarrow> False)"

text \<open>
  The match on \<open>newest_seen\<close> that the two sequenced policies share: the flag tells whether the
  message goes on, then come the new values of \<open>ready\<close> and \<open>newest_seen\<close>.
\<close>

definition sequenced_seen ::
  "message_id \<Rightarrow> 'r option \<Rightarrow> message_id option \<Rightarrow> bool \<times> 'r option \<times> message_id option" where
  "sequenced_seen mid ready newest_seen =
     (case newest_seen of
        Some newest \<Rightarrow>
          if wid_lt mid newest then (False, ready, newest_seen)
          else if wid_gt mid newest then (True, None, Some mid)
          else (True, ready, newest_seen)
      | None \<Rightarrow> (True, ready, Some mid))"

definition prepare_receive ::
  "message_id option \<Rightarrow> recv_state \<Rightarrow> recv_state \<times> (channel_receive_error + bool)" where
  "prepare_receive message_id st =
     (case st of
        RecvUnreliableUnordered _ \<Rightarrow> (st, Inr True)
      | RecvUnreliableSequenced ready newest_seen newest_completed \<Rightarrow>
          (case message_id of
             None \<Rightarrow> (st, Inl MissingMessageId)
           | Some mid \<Rightarrow>
               (let (ok, ready, newest_seen) = sequenced_seen mid ready newest_seen
                in (RecvUnreliableSequenced ready newest_seen newest_completed, Inr ok)))
      | RecvReliableUnordered pending ready received \<Rightarrow>
          (case message_id of
             None \<Rightarrow> (st, Inl MissingMessageId)
           | Some mid \<Rightarrow> (st, Inr (wid_sub mid pending \<ge> 0 \<and> mid \<notin> received)))
      | RecvReliableOrdered pending ready \<Rightarrow>
          (case message_id of
             None \<Rightarrow> (st, Inl MissingMessageId)
           | Some mid \<Rightarrow> (st, Inr (wid_sub mid pending \<ge> 0 \<and> ready mid = None)))
      | RecvReliableSequenced ready newest_seen newest_completed \<Rightarrow>
          (case message_id of
             None \<Rightarrow> (st, Inl MissingMessageId)
           | Some mid \<Rightarrow>
               if newest_completed = Some mid then (st, Inr False)
               else
                 (let (ok, ready, newest_seen) = sequenced_seen mid ready newest_seen
                  in (RecvReliableSequenced ready newest_seen newest_completed, Inr ok))))"

text \<open>The shared arm of \<open>push_completed\<close>: new values of \<open>ready\<close> and \<open>newest_completed\<close>.\<close>

definition sequenced_completed ::
  "message_id \<Rightarrow> tick \<Rightarrow> bytes \<Rightarrow> (tick \<times> bytes \<times> message_id) option \<Rightarrow> message_id option \<Rightarrow>
   message_id option \<Rightarrow> (tick \<times> bytes \<times> message_id) option \<times> message_id option" where
  "sequenced_completed mid tick bs ready newest_seen newest_completed =
     (if newest_completed = Some mid \<or>
         (case newest_seen of Some newest \<Rightarrow> wid_lt mid newest | None \<Rightarrow> False)
      then (ready, newest_completed)
      else (Some (tick, bs, mid), Some mid))"

text \<open>\<open>None\<close> is the panic of \<open>expect\<close> on a message without identifier.\<close>

definition push_completed ::
  "message_id option \<Rightarrow> tick \<Rightarrow> bytes \<Rightarrow> recv_state \<Rightarrow> recv_state option" where
  "push_completed message_id tick bs st =
     (case st of
        RecvUnreliableUnordered ready \<Rightarrow> Some (RecvUnreliableUnordered (ready @ [(tick, bs)]))
      | RecvUnreliableSequenced ready newest_seen newest_completed \<Rightarrow>
          map_option (\<lambda>mid.
            let (ready, newest_completed) = sequenced_completed mid tick bs ready newest_seen newest_completed
            in RecvUnreliableSequenced ready newest_seen newest_completed) message_id
      | RecvReliableSequenced ready newest_seen newest_completed \<Rightarrow>
          map_option (\<lambda>mid.
            let (ready, newest_completed) = sequenced_completed mid tick bs ready newest_seen newest_completed
            in RecvReliableSequenced ready newest_seen newest_completed) message_id
      | RecvReliableUnordered pending ready received \<Rightarrow>
          map_option (\<lambda>mid.
            RecvReliableUnordered pending (ready @ [(mid, tick, bs)]) (insert mid received)) message_id
      | RecvReliableOrdered pending ready \<Rightarrow>
          map_option (\<lambda>mid. RecvReliableOrdered pending (ready(mid \<mapsto> (tick, bs)))) message_id)"

text \<open>\<open>while received.remove(pending) { *pending += 1; }\<close>\<close>

function advance_pending :: "message_id \<Rightarrow> message_id set \<Rightarrow> message_id \<times> message_id set" where
  "advance_pending pending received =
     (if pending \<in> received then advance_pending (wid_add_assign pending 1) (received - {pending})
      else (pending, received))"
  by auto
termination
proof (relation "measure (\<lambda>(_, received). card received)")
  fix pending :: message_id and received
  assume "pending \<in> received"
  then have "card (received - {pending}) < card received"
    by (rule card_Diff1_less [OF finite])
  then show "((wid_add_assign pending 1, received - {pending}), pending, received)
      \<in> measure (\<lambda>(_, received). card received)"
    by simp
qed simp

declare advance_pending.simps [simp del]

definition recv_state_read_message ::
  "recv_state \<Rightarrow> recv_state \<times> (tick \<times> bytes \<times> message_id option) option" where
  "recv_state_read_message st =
     (case st of
        RecvUnreliableUnordered ready \<Rightarrow>
          (case ready of
             [] \<Rightarrow> (st, None)
           | (tick, bs) # ready \<Rightarrow> (RecvUnreliableUnordered ready, Some (tick, bs, None)))
      | RecvUnreliableSequenced ready newest_seen newest_completed \<Rightarrow>
          (RecvUnreliableSequenced None newest_seen newest_completed,
           map_option (\<lambda>(tick, bs, mid). (tick, bs, Some mid)) ready)
      | RecvReliableSequenced ready newest_seen newest_completed \<Rightarrow>
          (RecvReliableSequenced None newest_seen newest_completed,
           map_option (\<lambda>(tick, bs, mid). (tick, bs, Some mid)) ready)
      | RecvReliableUnordered pending ready received \<Rightarrow>
          (case ready of
             [] \<Rightarrow> (st, None)
           | (mid, tick, bs) # ready \<Rightarrow>
               (let (pending, received) =
                      (if pending = mid then advance_pending pending received else (pending, received))
                in (RecvReliableUnordered pending ready received, Some (tick, bs, Some mid))))
      | RecvReliableOrdered pending ready \<Rightarrow>
          (case ready pending of
             None \<Rightarrow> (st, None)
           | Some (tick, bs) \<Rightarrow>
               (RecvReliableOrdered (wid_add_assign pending 1) (ready(pending := None)),
                Some (tick, bs, Some pending))))"

section \<open>The channel\<close>

definition DISCARD_AFTER :: duration where
  "DISCARD_AFTER = 3000 * 1000000"

record 'c channel_receive =
  cr_channel_kind :: 'c
  cr_fragments :: fragment_receiver
  cr_current_time :: duration
  cr_state :: recv_state

definition channel_receive_new :: "'c \<Rightarrow> 'f channel_settings \<Rightarrow> 'c channel_receive" where
  "channel_receive_new kind settings =
     (let state =
            (case cs_mode settings of
               UnorderedUnreliableWithAcks \<Rightarrow> RecvUnreliableUnordered []
             | UnorderedUnreliable \<Rightarrow> RecvUnreliableUnordered []
             | SequencedUnreliable \<Rightarrow> RecvUnreliableSequenced None None None
             | UnorderedReliable _ \<Rightarrow> RecvReliableUnordered 0 [] {}
             | OrderedReliable _ \<Rightarrow> RecvReliableOrdered 0 Map.empty
             | SequencedReliable _ \<Rightarrow> RecvReliableSequenced None None None)
      in \<lparr>cr_channel_kind = kind, cr_fragments = fragment_receiver_new, cr_current_time = 0,
          cr_state = state\<rparr>)"

definition cr_set_fragment_size :: "nat \<Rightarrow> 'c channel_receive \<Rightarrow> 'c channel_receive" where
  "cr_set_fragment_size n c = c\<lparr>cr_fragments := fr_set_fragment_size n (cr_fragments c)\<rparr>"

definition cr_update :: "duration \<Rightarrow> 'c channel_receive \<Rightarrow> 'c channel_receive" where
  "cr_update now c =
     (let c = c\<lparr>cr_current_time := now\<rparr> in
      if expires_fragments (cr_state c)
      then c\<lparr>cr_fragments := fr_cleanup (cr_current_time c - DISCARD_AFTER) (cr_fragments c)\<rparr>
      else c)"

definition buffer_recv ::
  "block_ops \<Rightarrow> receive_message \<Rightarrow> 'c channel_receive \<Rightarrow> 'c channel_receive \<times> (channel_receive_error + unit)"
where
  "buffer_recv Z message c =
     (let message_id = message_data_message_id (rm_data message);
          (state, prepared) = prepare_receive message_id (cr_state c);
          c = c\<lparr>cr_state := state\<rparr>
      in case prepared of
           Inl e \<Rightarrow> (c, Inl e)
         | Inr False \<Rightarrow> (c, Inr ())
         | Inr True \<Rightarrow>
             (let (c, completed) =
                    (case rm_data message of
                       Single single \<Rightarrow>
                         (c, Inr (Some (remote_sent_tick message, sd_bytes single)))
                     | Fragment fragment \<Rightarrow>
                         (let (fragments, res) =
                                receive_fragment Z fragment (remote_sent_tick message)
                                  (if expires_fragments (cr_state c) then Some (cr_current_time c) else None)
                                  (rm_compression message) (cr_fragments c)
                          in (c\<lparr>cr_fragments := fragments\<rparr>, res)))
              in case completed of
                   Inl e \<Rightarrow> (c, Inl e)
                 | Inr None \<Rightarrow> (c, Inr ())
                 | Inr (Some (tick, bs)) \<Rightarrow>
                     (case push_completed message_id tick bs (cr_state c) of
                        None \<Rightarrow> (c, Inl RecvPanicked)
                      | Some state \<Rightarrow> (c\<lparr>cr_state := state\<rparr>, Inr ()))))"

definition read_message ::
  "'c channel_receive \<Rightarrow> 'c channel_receive \<times> (tick \<times> bytes \<times> message_id option) option" where
  "read_message c =
     (let (state, res) = recv_state_read_message (cr_state c) in (c\<lparr>cr_state := state\<rparr>, res))"

end
