(* ===== verification/Channel_Delivery.thy ===== *)
theory Channel_Delivery
  imports Channel_Receive
begin

text \<open>
  What the channels promise an application: abstract specifications of reliable ordered and
  reliable unordered delivery over counters without wrap-around, and the refinement of them by the
  receiving channel of theory \<open>Channel_Receive\<close>, fed with the parts a sender puts on the wire.
\<close>

section \<open>A stream of messages on the wire\<close>

text \<open>
  Message number \<open>k\<close> of a channel goes out whole when it fits the fragment size and in the
  fragments of \<open>build_fragments_for_message\<close> otherwise.
\<close>

definition wire_parts ::
  "block_ops \<Rightarrow> compression_config \<Rightarrow> nat \<Rightarrow> nat \<Rightarrow> bytes \<Rightarrow> message_data list" where
  "wire_parts Z config s k msg =
     (if length msg \<le> s then [Single \<lparr>sd_id = Some (wid_of k), sd_bytes = msg\<rparr>]
      else map Fragment
             (the (build_fragments_for_message Z (wid_of k) msg config \<lparr>fs_fragment_size = s\<rparr>)))"

text \<open>The payload the fragments of a long message carry.\<close>

definition message_payload :: "block_ops \<Rightarrow> compression_config \<Rightarrow> bytes \<Rightarrow> bytes \<times> fragment_compression" where
  "message_payload Z config msg =
     (case (compress_fragment Z msg config, fragment_compression_of config) of
        (Inr (Candidate_Compressed payload _ _), Some fc) \<Rightarrow> (payload, fc)
      | _ \<Rightarrow> (msg, NoCompression))"

definition parts_count :: "block_ops \<Rightarrow> compression_config \<Rightarrow> nat \<Rightarrow> bytes \<Rightarrow> nat" where
  "parts_count Z config s msg =
     (if length msg \<le> s then 1 else length (chunks s (fst (message_payload Z config msg))))"

text \<open>
  A sender and a receiver that agree on the fragment size and the compression algorithm, and
  messages that both can hold.
\<close>

definition stream_ok ::
  "block_ops \<Rightarrow> compression_config \<Rightarrow> compression_config \<Rightarrow> nat \<Rightarrow> (nat \<Rightarrow> bytes) \<Rightarrow> bool" where
  "stream_ok Z config rconfig s msgs \<longleftrightarrow>
     block_codec Z \<and> 0 < s \<and> algorithm rconfig = algorithm config \<and>
     (\<forall>k. length (msgs k) \<le> max_decompressed_payload_size rconfig \<and>
          parts_count Z config s (msgs k) * s \<le> isize_max)"

lemma message_payload_decompress:
  assumes "block_codec Z" and "algorithm rconfig = algorithm config"
    and "length msg \<le> max_decompressed_payload_size rconfig"
  shows "decompress_fragment_payload Z (snd (message_payload Z config msg))
      (fst (message_payload Z config msg)) rconfig = Inr msg"
    and "msg \<noteq> [] \<Longrightarrow> fst (message_payload Z config msg) \<noteq> []"
proof -
  have "decompress_fragment_payload Z (snd (message_payload Z config msg))
      (fst (message_payload Z config msg)) rconfig = Inr msg \<and>
      (msg \<noteq> [] \<longrightarrow> fst (message_payload Z config msg) \<noteq> [])"
  proof (cases "\<exists>p a b. compress_fragment Z msg config = Inr (Candidate_Compressed p a b)")
    case True
    then obtain p a b where p: "compress_fragment Z msg config = Inr (Candidate_Compressed p a b)"
      by blast
    then have alg: "algorithm config = Some Lz4_algorithm" and z: "compress_lz4 Z msg = Inr p"
      by (auto simp: compress_fragment_def compress_into_def Let_def and_then_Inr_iff
          split: option.splits if_splits compression_algorithm.splits)
    have "p \<noteq> []"
      using z by (auto simp: compress_lz4_def and_then_Inr_iff le_bytes_def be_bytes_def split: if_splits)
    then show ?thesis
      using block_codec.decompress_compress_lz4 [OF assms(1) z, of rconfig] assms(2,3) alg p
      by (simp add: message_payload_def fragment_compression_of_def decompress_fragment_payload_def
          config_for_fragment_compression_def)
  next
    case False
    then have "message_payload Z config msg = (msg, NoCompression)"
      by (auto simp: message_payload_def split: sum.splits option.splits payload_compression_candidate.splits)
    then show ?thesis
      by (simp add: decompress_fragment_payload_def)
  qed
  then show "decompress_fragment_payload Z (snd (message_payload Z config msg))
      (fst (message_payload Z config msg)) rconfig = Inr msg"
    and "msg \<noteq> [] \<Longrightarrow> fst (message_payload Z config msg) \<noteq> []"
    by blast+
qed

lemma wire_parts_long:
  assumes "0 < s" and "s < length msg"
  shows "wire_parts Z config s k msg = map (\<lambda>i. Fragment (fragment_of (wid_of k)
      (fst (message_payload Z config msg)) s (parts_count Z config s msg)
      (snd (message_payload Z config msg)) i)) [0..<parts_count Z config s msg]"
proof -
  let ?p = "fst (message_payload Z config msg)" and ?c = "snd (message_payload Z config msg)"
  have "build_fragments_for_message Z (wid_of k) msg config \<lparr>fs_fragment_size = s\<rparr> =
      build_fragments_with_compression (wid_of k) ?p ?c \<lparr>fs_fragment_size = s\<rparr>"
    using assms by (auto simp: build_fragments_for_message_def message_payload_def build_fragments_def
        split: sum.splits option.splits payload_compression_candidate.splits)
  then show ?thesis
    using assms by (auto simp: wire_parts_def build_fragments_with_compression_def Let_def
        parts_count_def fragment_of_def chunks_nth nth_enumerate_eq intro!: nth_equalityI)
qed

lemma wire_parts_length: "0 < s \<Longrightarrow> length (wire_parts Z config s k msg) = parts_count Z config s msg"
  by (cases "length msg \<le> s") (simp_all add: wire_parts_long, simp add: wire_parts_def parts_count_def)

lemma stream_split_ok:
  assumes "stream_ok Z config rconfig s msgs" and "s < length (msgs k)"
  shows "split_ok (fst (message_payload Z config (msgs k))) s (parts_count Z config s (msgs k))"
proof -
  have "fst (message_payload Z config (msgs k)) \<noteq> []"
    using assms by (intro message_payload_decompress(2) [where rconfig = rconfig]) (auto simp: stream_ok_def)
  then show ?thesis
    using chunks_bounds [of s "fst (message_payload Z config (msgs k))"] assms
    by (auto simp: split_ok_def parts_count_def stream_ok_def dest!: spec [of _ k])
qed

lemma parts_count_pos:
  assumes "stream_ok Z config rconfig s msgs"
  shows "0 < parts_count Z config s (msgs k)"
  using stream_split_ok [OF assms, of k] by (cases "length (msgs k) \<le> s") (auto simp: parts_count_def split_ok_def)

section \<open>Partly received messages\<close>

text \<open>
  \<open>frag_inv\<close> relates the fragment receiver of a channel to the sets \<open>A k\<close> of parts that have
  arrived, for the counters \<open>k\<close> from \<open>P\<close> on that the receive window covers.
\<close>

definition window :: "nat \<Rightarrow> nat set" where
  "window P = {P..<P + 2 ^ 15}"

definition frag_state ::
  "bytes \<times> fragment_compression \<Rightarrow> nat \<Rightarrow> nat \<Rightarrow> nat set \<Rightarrow> fragment_constructor option \<Rightarrow> bool" where
  "frag_state pc s n S fc =
     (case fc of
        None \<Rightarrow> S = {} \<or> S = {..<n}
      | Some fc \<Rightarrow> S \<noteq> {} \<and> S \<noteq> {..<n} \<and> (\<exists>t. constructor_inv (fst pc) s n t S fc) \<and>
          fc_compression fc = (if 0 \<in> S then Some (snd pc) else None))"

definition frag_inv ::
  "block_ops \<Rightarrow> compression_config \<Rightarrow> nat \<Rightarrow> (nat \<Rightarrow> bytes) \<Rightarrow> nat \<Rightarrow> (nat \<Rightarrow> nat set) \<Rightarrow> fragment_receiver \<Rightarrow> bool"
where
  "frag_inv Z config s msgs P A r \<longleftrightarrow> fr_fragment_size r = s \<and>
     (\<forall>k \<in> window P. frag_state (message_payload Z config (msgs k)) s (parts_count Z config s (msgs k))
        (A k) (fr_messages r (wid_of k))) \<and>
     (\<forall>mid. fr_messages r mid \<noteq> None \<longrightarrow> mid \<in> wid_of ` window P)"

lemma window_inj: "j \<in> window P \<Longrightarrow> k \<in> window P \<Longrightarrow> wid_of j = wid_of k \<longleftrightarrow> j = k"
  by (rule wid_of_eq_iff) (auto simp: window_def)

lemma frag_deliver:
  assumes ok: "stream_ok Z config rconfig s msgs" and inv: "frag_inv Z config s msgs P A r"
    and "k \<in> window P" and "s < length (msgs k)" and "A k \<noteq> {..<parts_count Z config s (msgs k)}"
    and "i < parts_count Z config s (msgs k)"
  shows "\<exists>f r' t'. wire_parts Z config s k (msgs k) ! i = Fragment f \<and> fd_message_id f = wid_of k \<and>
    receive_fragment Z f t tm rconfig r =
      (r', Inr (if insert i (A k) = {..<parts_count Z config s (msgs k)} then Some (t', msgs k) else None)) \<and>
    frag_inv Z config s msgs P (A(k := insert i (A k))) r'"
proof -
  let ?p = "fst (message_payload Z config (msgs k))" and ?c = "snd (message_payload Z config (msgs k))"
  let ?n = "parts_count Z config s (msgs k)"
  let ?f = "fragment_of (wid_of k) ?p s ?n ?c i"
  have "0 < s" using ok by (simp add: stream_ok_def)
  then have part: "wire_parts Z config s k (msgs k) ! i = Fragment ?f"
    using assms(4,6) by (simp add: wire_parts_long)
  have dec: "decompress_fragment_payload Z ?c ?p rconfig = Inr (msgs k)"
    using ok by (intro message_payload_decompress(1)) (auto simp: stream_ok_def)
  have size: "fr_fragment_size r = s"
    and st: "frag_state (message_payload Z config (msgs k)) s ?n (A k) (fr_messages r (wid_of k))"
    using inv assms(3) by (auto simp: frag_inv_def)
  obtain t' where t': "receiver_inv (wid_of k) ?p s ?n ?c t' (A k) r" "A k = {} \<Longrightarrow> t = t'"
  proof (cases "fr_messages r (wid_of k)")
    case None
    then show ?thesis
      using that [of t] st size assms(5) by (auto simp: frag_state_def receiver_inv_def)
  next
    case (Some fc)
    then show ?thesis
      using that st size by (auto simp: frag_state_def receiver_inv_def)
  qed
  obtain r' where r': "receive_fragment Z ?f t tm rconfig r =
      (r', Inr (if insert i (A k) = {..<?n} then Some (t', msgs k) else None))"
    and other: "\<forall>m. m \<noteq> wid_of k \<longrightarrow> fr_messages r' m = fr_messages r m" and "fr_fragment_size r' = s"
    and mine: "if insert i (A k) = {..<?n} then fr_messages r' (wid_of k) = None
       else receiver_inv (wid_of k) ?p s ?n ?c t' (insert i (A k)) r'"
    using receive_fragment_inv [OF stream_split_ok [OF ok assms(4)] t'(1) assms(6) t'(2), of Z tm rconfig] dec
    by auto
  have "frag_state (message_payload Z config (msgs k)) s ?n (insert i (A k)) (fr_messages r' (wid_of k))"
  proof (cases "insert i (A k) = {..<?n}")
    case False
    then have "receiver_inv (wid_of k) ?p s ?n ?c t' (insert i (A k)) r'"
      using mine by simp
    with False show ?thesis
      by (cases "fr_messages r' (wid_of k)") (auto simp: frag_state_def receiver_inv_def)
  qed (use mine in \<open>simp add: frag_state_def\<close>)
  moreover have "fr_messages r' (wid_of j) = fr_messages r (wid_of j)" if "j \<in> window P" "j \<noteq> k" for j
    using other window_inj [OF that(1) assms(3)] that(2) by auto
  ultimately have win: "\<forall>j \<in> window P. frag_state (message_payload Z config (msgs j)) s
      (parts_count Z config s (msgs j)) ((A(k := insert i (A k))) j) (fr_messages r' (wid_of j))"
    using inv by (simp add: frag_inv_def)
  have "mid \<in> wid_of ` window P" if "fr_messages r' mid \<noteq> None" for mid
  proof (cases "mid = wid_of k")
    case False
    then show ?thesis
      using that other inv by (simp add: frag_inv_def)
  qed (use assms(3) in simp)
  with win have "frag_inv Z config s msgs P (A(k := insert i (A k))) r'"
    using \<open>fr_fragment_size r' = s\<close> by (simp add: frag_inv_def)
  then show ?thesis
    using part r' by (auto simp: fragment_of_def)
qed

text \<open>Sliding the window past a complete message.\<close>

lemma frag_inv_slide:
  assumes inv: "frag_inv Z config s msgs P A r" and "A P = {..<parts_count Z config s (msgs P)}"
    and "A (P + 2 ^ 15) = {}"
  shows "frag_inv Z config s msgs (Suc P) A r"
proof -
  have P: "P \<in> window P" by (simp add: window_def)
  then have "fr_messages r (wid_of P) = None"
    using inv assms(2) by (auto simp: frag_inv_def frag_state_def split: option.splits)
  moreover have win: "window (Suc P) = insert (P + 2 ^ 15) (window P - {P})"
    by (auto simp: window_def)
  moreover have "\<forall>mid. fr_messages r mid \<noteq> None \<longrightarrow> mid \<in> wid_of ` window P"
    using inv by (simp add: frag_inv_def)
  ultimately have ids: "\<forall>mid. fr_messages r mid \<noteq> None \<longrightarrow> mid \<in> wid_of ` window (Suc P)"
    by fastforce
  have "wid_of (P + 2 ^ 15) \<noteq> wid_of j" if "j \<in> window P" "j \<noteq> P" for j
    using that wid_of_eq_iff [of "P + 2 ^ 15" j] by (auto simp: window_def)
  then have "wid_of (P + 2 ^ 15) \<notin> wid_of ` (window P - {P})"
    by blast
  have "fr_messages r (wid_of (P + 2 ^ 15)) = None"
  proof (rule ccontr)
    assume some: "fr_messages r (wid_of (P + 2 ^ 15)) \<noteq> None"
    then obtain j where "wid_of (P + 2 ^ 15) = wid_of j" "j \<in> window P"
      using inv unfolding frag_inv_def by fastforce
    with some \<open>fr_messages r (wid_of P) = None\<close> show False
      using \<open>wid_of (P + 2 ^ 15) \<notin> wid_of ` (window P - {P})\<close> by (cases "j = P") auto
  qed
  then show ?thesis
    using inv ids assms(3) by (auto simp: frag_inv_def win frag_state_def)
qed

section \<open>Runs of a channel\<close>

text \<open>
  What happens to a receiving channel: part \<open>i\<close> of message \<open>k\<close> arrives with a tick, the application
  reads, the clock advances. A run gives the error or the message, if any, of every event.
\<close>

datatype channel_event = Deliver nat nat tick | Read | Clock duration

type_synonym channel_output = "channel_receive_error + (bytes \<times> message_id option) option"

definition channel_step ::
  "block_ops \<Rightarrow> compression_config \<Rightarrow> compression_config \<Rightarrow> nat \<Rightarrow> (nat \<Rightarrow> bytes) \<Rightarrow> channel_event \<Rightarrow>
   'c channel_receive \<Rightarrow> 'c channel_receive \<times> channel_output" where
  "channel_step Z config rconfig s msgs e c =
     (case e of
        Deliver k i t \<Rightarrow>
          (case buffer_recv Z \<lparr>rm_data = wire_parts Z config s k (msgs k) ! i, remote_sent_tick = t,
                               rm_compression = rconfig\<rparr> c of
             (c, Inl e) \<Rightarrow> (c, Inl e) | (c, Inr _) \<Rightarrow> (c, Inr None))
      | Read \<Rightarrow> (case read_message c of
             (c, res) \<Rightarrow> (c, Inr (map_option (\<lambda>(t, bs, mid). (bs, mid)) res)))
      | Clock now \<Rightarrow> (cr_update now c, Inr None))"

primrec channel_run ::
  "block_ops \<Rightarrow> compression_config \<Rightarrow> compression_config \<Rightarrow> nat \<Rightarrow> (nat \<Rightarrow> bytes) \<Rightarrow> channel_event list \<Rightarrow>
   'c channel_receive \<Rightarrow> channel_output list" where
  "channel_run Z config rconfig s msgs [] c = []"
| "channel_run Z config rconfig s msgs (e # es) c =
     (let (c, out) = channel_step Z config rconfig s msgs e c
      in out # channel_run Z config rconfig s msgs es c)"

section \<open>Reliable ordered delivery\<close>

text \<open>
  The specification: \<open>P\<close> is the next message the application gets, \<open>A k\<close> the parts of message
  \<open>k\<close> that have arrived. A read returns message \<open>P\<close> once all its parts are there, and nothing
  before that.
\<close>

definition ordered_step ::
  "(nat \<Rightarrow> nat) \<Rightarrow> channel_event \<Rightarrow> nat \<Rightarrow> (nat \<Rightarrow> nat set) \<Rightarrow> nat option \<times> nat \<times> (nat \<Rightarrow> nat set)" where
  "ordered_step parts e P A =
     (case e of
        Deliver k i t \<Rightarrow> (None, P, A(k := insert i (A k)))
      | Clock now \<Rightarrow> (None, P, A)
      | Read \<Rightarrow> if A P = {..<parts P} then (Some P, Suc P, A) else (None, P, A))"

primrec ordered_run :: "(nat \<Rightarrow> nat) \<Rightarrow> channel_event list \<Rightarrow> nat \<Rightarrow> (nat \<Rightarrow> nat set) \<Rightarrow> nat option list" where
  "ordered_run parts [] P A = []"
| "ordered_run parts (e # es) P A =
     (case ordered_step parts e P A of (out, P, A) \<Rightarrow> out # ordered_run parts es P A)"

text \<open>The network may lose, repeat and reorder parts, within half of the identifier range of \<open>P\<close>.\<close>

definition event_legal :: "(nat \<Rightarrow> nat) \<Rightarrow> nat \<Rightarrow> channel_event \<Rightarrow> bool" where
  "event_legal parts P e =
     (case e of Deliver k i t \<Rightarrow> i < parts k \<and> \<bar>int k - int P\<bar> < 2 ^ 15 | _ \<Rightarrow> True)"

primrec ordered_legal :: "(nat \<Rightarrow> nat) \<Rightarrow> channel_event list \<Rightarrow> nat \<Rightarrow> (nat \<Rightarrow> nat set) \<Rightarrow> bool" where
  "ordered_legal parts [] P A = True"
| "ordered_legal parts (e # es) P A =
     (event_legal parts P e \<and> (case ordered_step parts e P A of (_, P, A) \<Rightarrow> ordered_legal parts es P A))"

definition ready_ok :: "bytes \<Rightarrow> bool \<Rightarrow> (tick \<times> bytes) option \<Rightarrow> bool" where
  "ready_ok msg complete r =
     (case r of None \<Rightarrow> \<not> complete | Some (t, bs) \<Rightarrow> complete \<and> bs = msg)"

definition ordered_inv ::
  "block_ops \<Rightarrow> compression_config \<Rightarrow> nat \<Rightarrow> (nat \<Rightarrow> bytes) \<Rightarrow> nat \<Rightarrow> (nat \<Rightarrow> nat set) \<Rightarrow> 'c channel_receive \<Rightarrow> bool"
where
  "ordered_inv Z config s msgs P A c \<longleftrightarrow>
     (\<exists>ready. cr_state c = RecvReliableOrdered (wid_of P) ready \<and>
        (\<forall>k \<in> window P.
           ready_ok (msgs k) (A k = {..<parts_count Z config s (msgs k)}) (ready (wid_of k))) \<and>
        (\<forall>mid. ready mid \<noteq> None \<longrightarrow> mid \<in> wid_of ` window P)) \<and>
     (\<forall>k \<ge> P + 2 ^ 15. A k = {}) \<and> frag_inv Z config s msgs P A (cr_fragments c)"

lemma ordered_inv_cong:
  assumes "ordered_inv Z config s msgs P A c" and "\<And>j. P \<le> j \<Longrightarrow> A' j = A j"
  shows "ordered_inv Z config s msgs P A' c"
proof -
  have "A' j = A j" if "j \<in> window P" for j
    using that assms(2) by (simp add: window_def)
  moreover have "A' j = A j" if "P + 2 ^ 15 \<le> j" for j
    using that assms(2) by simp
  ultimately show ?thesis
    using assms(1) unfolding ordered_inv_def frag_inv_def by (simp cong: ball_cong)
qed

lemma wire_parts_id:
  assumes "0 < s" and "i < parts_count Z config s msg"
  shows "message_data_message_id (wire_parts Z config s k msg ! i) = Some (wid_of k)"
proof (cases "length msg \<le> s")
  case True
  then show ?thesis
    using assms by (simp add: wire_parts_def parts_count_def message_data_message_id_def)
next
  case False
  then show ?thesis
    using assms by (simp add: wire_parts_long message_data_message_id_def fragment_of_def)
qed

lemma cr_state_same: "cr_state c = st \<Longrightarrow> c\<lparr>cr_state := st\<rparr> = c"
  by (cases c) simp

lemma buffer_recv_rejected:
  assumes "prepare_receive (message_data_message_id (rm_data m)) (cr_state c) = (st, Inr False)"
  shows "buffer_recv Z m c = (c\<lparr>cr_state := st\<rparr>, Inr ())"
  using assms by (simp add: buffer_recv_def)

lemma buffer_recv_fragment:
  assumes "prepare_receive (Some (fd_message_id f)) (cr_state c) = (st, Inr True)"
    and "receive_fragment Z f t (if expires_fragments st then Some (cr_current_time c) else None) rconfig
      (cr_fragments c) = (r', Inr res)"
  shows "buffer_recv Z \<lparr>rm_data = Fragment f, remote_sent_tick = t, rm_compression = rconfig\<rparr> c =
    (case res of
       None \<Rightarrow> (c\<lparr>cr_state := st, cr_fragments := r'\<rparr>, Inr ())
     | Some (t', bs) \<Rightarrow>
         (case push_completed (Some (fd_message_id f)) t' bs st of
            None \<Rightarrow> (c\<lparr>cr_state := st, cr_fragments := r'\<rparr>, Inl RecvPanicked)
          | Some st' \<Rightarrow> (c\<lparr>cr_state := st', cr_fragments := r'\<rparr>, Inr ())))"
  using assms
  by (cases res) (auto simp: buffer_recv_def message_data_message_id_def Let_def split: option.splits)

text \<open>
  Buffering a part that the policy accepts: the channel's fragments take it in, and the message
  is pushed exactly when the part completes it.
\<close>

lemma buffer_accepted:
  assumes ok: "stream_ok Z config rconfig s msgs" and inv: "frag_inv Z config s msgs P A (cr_fragments c)"
    and "k \<in> window P" and "A k \<noteq> {..<parts_count Z config s (msgs k)}"
    and i: "i < parts_count Z config s (msgs k)"
    and prep: "prepare_receive (Some (wid_of k)) (cr_state c) = (st, Inr True)"
  shows "\<exists>r' t'. frag_inv Z config s msgs P (A(k := insert i (A k))) r' \<and>
    buffer_recv Z \<lparr>rm_data = wire_parts Z config s k (msgs k) ! i, remote_sent_tick = t,
        rm_compression = rconfig\<rparr> c =
      (if insert i (A k) = {..<parts_count Z config s (msgs k)}
       then (case push_completed (Some (wid_of k)) t' (msgs k) st of
               None \<Rightarrow> (c\<lparr>cr_state := st, cr_fragments := r'\<rparr>, Inl RecvPanicked)
             | Some st' \<Rightarrow> (c\<lparr>cr_state := st', cr_fragments := r'\<rparr>, Inr ()))
       else (c\<lparr>cr_state := st, cr_fragments := r'\<rparr>, Inr ()))"
proof -
  have "0 < s" using ok by (simp add: stream_ok_def)
  note mid = wire_parts_id [OF \<open>0 < s\<close> i, of k]
  show ?thesis
  proof (cases "length (msgs k) \<le> s")
    case True
    then have n: "parts_count Z config s (msgs k) = 1" and "i = 0"
      using i by (simp_all add: parts_count_def)
    have part: "wire_parts Z config s k (msgs k) ! 0 = Single \<lparr>sd_id = Some (wid_of k), sd_bytes = msgs k\<rparr>"
      using True by (simp add: wire_parts_def)
    have st: "frag_state (message_payload Z config (msgs k)) s 1 (A k) (fr_messages (cr_fragments c) (wid_of k))"
      using inv assms(3) n by (auto simp: frag_inv_def)
    have "S = {} \<or> S = {..<1}" if "S \<subseteq> {..<1 :: nat}" for S
      using that by auto
    then have empty: "fr_messages (cr_fragments c) (wid_of k) = None \<and> A k = {}"
      using st assms(4) n
      by (cases "fr_messages (cr_fragments c) (wid_of k)") (auto simp: frag_state_def constructor_inv_def)
    then have "frag_inv Z config s msgs P (A(k := insert i (A k))) (cr_fragments c)"
      using inv n \<open>i = 0\<close> by (auto simp: frag_inv_def frag_state_def)
    moreover have "insert i (A k) = {..<parts_count Z config s (msgs k)}"
      using empty n \<open>i = 0\<close> by auto
    ultimately show ?thesis
      using mid prep part \<open>i = 0\<close>
      by (intro exI [of _ "cr_fragments c"] exI [of _ t])
        (simp add: buffer_recv_def Let_def split: option.splits)
  next
    case False
    then have "s < length (msgs k)" by simp
    then obtain f r' t' where f: "wire_parts Z config s k (msgs k) ! i = Fragment f"
      and r': "receive_fragment Z f t (if expires_fragments st then Some (cr_current_time c) else None) rconfig (cr_fragments c) =
        (r', Inr (if insert i (A k) = {..<parts_count Z config s (msgs k)} then Some (t', msgs k) else None))"
      and inv': "frag_inv Z config s msgs P (A(k := insert i (A k))) r'"
      using frag_deliver [OF ok inv assms(3) _ assms(4) i] by blast
    then have "fd_message_id f = wid_of k"
      using mid by (simp add: message_data_message_id_def)
    with buffer_recv_fragment [of f c st Z t rconfig r'] prep r'
    show ?thesis
      unfolding f using inv' by (intro exI [of _ r'] exI [of _ t'] conjI) simp_all
  qed
qed

lemma window_slide_image:
  assumes "\<And>mid. m mid \<noteq> None \<Longrightarrow> mid \<in> wid_of ` window P"
  shows "(m(wid_of P := None)) mid \<noteq> None \<Longrightarrow> mid \<in> wid_of ` window (Suc P)"
    and "(m(wid_of P := None)) (wid_of (P + 2 ^ 15)) = None"
    and "k \<in> window P \<Longrightarrow> k \<noteq> P \<Longrightarrow> (m(wid_of P := None)) (wid_of k) = m (wid_of k)"
proof -
  have P: "P \<in> window P" by (simp add: window_def)
  have other: "mid \<in> wid_of ` (window P - {P})" if "(m(wid_of P := None)) mid \<noteq> None" for mid
    using that assms [of mid] by (auto split: if_splits)
  have sub: "window P - {P} \<subseteq> window (Suc P)"
    by (auto simp: window_def)
  show "mid \<in> wid_of ` window (Suc P)" if "(m(wid_of P := None)) mid \<noteq> None"
    using other [OF that] sub by blast
  show "(m(wid_of P := None)) (wid_of (P + 2 ^ 15)) = None"
  proof (rule ccontr)
    assume "(m(wid_of P := None)) (wid_of (P + 2 ^ 15)) \<noteq> None"
    then obtain j where "j \<in> window P - {P}" "wid_of (P + 2 ^ 15) = wid_of j"
      using other by blast
    then show False
      using wid_of_eq_iff [of "P + 2 ^ 15" j] by (auto simp: window_def)
  qed
  show "(m(wid_of P := None)) (wid_of k) = m (wid_of k)" if "k \<in> window P" "k \<noteq> P"
    using window_inj [OF that(1) P] that(2) by simp
qed

lemma ordered_read:
  assumes ok: "stream_ok Z config rconfig s msgs" and inv: "ordered_inv Z config s msgs P A c"
  shows "\<exists>c'. channel_step Z config rconfig s msgs Read c =
      (c', Inr (if A P = {..<parts_count Z config s (msgs P)} then Some (msgs P, Some (wid_of P)) else None)) \<and>
    ordered_inv Z config s msgs (if A P = {..<parts_count Z config s (msgs P)} then Suc P else P) A c'"
proof -
  obtain ready where st: "cr_state c = RecvReliableOrdered (wid_of P) ready"
    and ready: "\<forall>k \<in> window P. ready_ok (msgs k) (A k = {..<parts_count Z config s (msgs k)}) (ready (wid_of k))"
    and ids: "\<And>mid. ready mid \<noteq> None \<Longrightarrow> mid \<in> wid_of ` window P"
    and far: "\<forall>k \<ge> P + 2 ^ 15. A k = {}" and frags: "frag_inv Z config s msgs P A (cr_fragments c)"
    using inv unfolding ordered_inv_def by blast
  have P: "ready_ok (msgs P) (A P = {..<parts_count Z config s (msgs P)}) (ready (wid_of P))"
    using ready by (simp add: window_def)
  show ?thesis
  proof (cases "ready (wid_of P)")
    case None
    then have "A P \<noteq> {..<parts_count Z config s (msgs P)}"
      using P by (simp add: ready_ok_def)
    then show ?thesis
      using None inv st
      by (simp add: channel_step_def read_message_def recv_state_read_message_def cr_state_same)
  next
    case (Some tb)
    then obtain t where t: "ready (wid_of P) = Some (t, msgs P)"
      and full: "A P = {..<parts_count Z config s (msgs P)}"
      using P by (cases tb) (simp add: ready_ok_def)
    define c' where "c' = c\<lparr>cr_state := RecvReliableOrdered (wid_of (Suc P)) (ready(wid_of P := None))\<rparr>"
    have read: "channel_step Z config rconfig s msgs Read c = (c', Inr (Some (msgs P, Some (wid_of P))))"
      using t st wid_add_assign_of [of P]
      by (simp add: channel_step_def read_message_def recv_state_read_message_def c'_def)
    note slide = window_slide_image [of ready P, OF ids]
    have "ready_ok (msgs k) (A k = {..<parts_count Z config s (msgs k)}) ((ready(wid_of P := None)) (wid_of k))"
      if "k \<in> window (Suc P)" for k
    proof (cases "k = P + 2 ^ 15")
      case True
      then have "A k \<noteq> {..<parts_count Z config s (msgs k)}"
        using far parts_count_pos [OF ok, of k] by auto
      then show ?thesis
        unfolding True using slide(2) by (simp add: ready_ok_def)
    next
      case False
      then have "k \<in> window P" "k \<noteq> P"
        using that by (auto simp: window_def)
      then show ?thesis
        using slide(3) ready by auto
    qed
    then have "ordered_inv Z config s msgs (Suc P) A c'"
      using frag_inv_slide [OF frags full] far slide(1) by (auto simp: ordered_inv_def c'_def)
    then show ?thesis
      using read full by simp
  qed
qed

lemma ordered_deliver:
  assumes ok: "stream_ok Z config rconfig s msgs" and inv: "ordered_inv Z config s msgs P A c"
    and "i < parts_count Z config s (msgs k)" and near: "\<bar>int k - int P\<bar> < 2 ^ 15"
  shows "\<exists>c'. channel_step Z config rconfig s msgs (Deliver k i t) c = (c', Inr None) \<and>
    ordered_inv Z config s msgs P (A(k := insert i (A k))) c'"
proof -
  obtain ready where st: "cr_state c = RecvReliableOrdered (wid_of P) ready"
    and ready: "\<forall>k \<in> window P. ready_ok (msgs k) (A k = {..<parts_count Z config s (msgs k)}) (ready (wid_of k))"
    and ids: "\<forall>mid. ready mid \<noteq> None \<longrightarrow> mid \<in> wid_of ` window P"
    and far: "\<forall>k \<ge> P + 2 ^ 15. A k = {}" and frags: "frag_inv Z config s msgs P A (cr_fragments c)"
    using inv unfolding ordered_inv_def by blast
  let ?n = "parts_count Z config s (msgs k)"
  let ?m = "\<lparr>rm_data = wire_parts Z config s k (msgs k) ! i, remote_sent_tick = t, rm_compression = rconfig\<rparr>"
  have "0 < s" using ok by (simp add: stream_ok_def)
  note mid = wire_parts_id [OF \<open>0 < s\<close> assms(3), of k]
  have sub: "wid_sub (wid_of k) (wid_of P) = int k - int P"
    by (rule wid_sub_of [OF near])
  have prep: "prepare_receive (Some (wid_of k)) (cr_state c) =
      (cr_state c, Inr (P \<le> k \<and> ready (wid_of k) = None))"
    by (simp add: prepare_receive_def st sub)
  show ?thesis
  proof (cases "P \<le> k \<and> ready (wid_of k) = None")
    case False
    then have "prepare_receive (Some (wid_of k)) (cr_state c) = (cr_state c, Inr False)"
      unfolding prep by blast
    then have "buffer_recv Z ?m c = (c, Inr ())"
      using buffer_recv_rejected [of ?m c "cr_state c" Z] mid by (simp add: cr_state_same)
    moreover have "ordered_inv Z config s msgs P (A(k := insert i (A k))) c"
    proof (cases "P \<le> k")
      case True
      then have "A k = {..<?n}"
        using False ready near by (auto simp: window_def ready_ok_def dest!: bspec [of _ _ k])
      then have "A(k := insert i (A k)) = A"
        using assms(3) by (auto simp: fun_eq_iff)
      then show ?thesis using inv by simp
    next
      case False
      then show ?thesis
        by (intro ordered_inv_cong [OF inv]) auto
    qed
    ultimately show ?thesis
      by (simp add: channel_step_def)
  next
    case True
    then have win: "k \<in> window P"
      using near by (simp add: window_def)
    then have notfull: "A k \<noteq> {..<?n}"
      using True ready by (auto simp: ready_ok_def)
    obtain r' t' where r': "frag_inv Z config s msgs P (A(k := insert i (A k))) r'"
      and b: "buffer_recv Z ?m c =
        (if insert i (A k) = {..<?n}
         then (case push_completed (Some (wid_of k)) t' (msgs k) (cr_state c) of
                 None \<Rightarrow> (c\<lparr>cr_state := cr_state c, cr_fragments := r'\<rparr>, Inl RecvPanicked)
               | Some st' \<Rightarrow> (c\<lparr>cr_state := st', cr_fragments := r'\<rparr>, Inr ()))
         else (c\<lparr>cr_state := cr_state c, cr_fragments := r'\<rparr>, Inr ()))"
      using buffer_accepted [OF ok frags win notfull assms(3), of "cr_state c" t] prep True by auto
    define ready' where "ready' = (if insert i (A k) = {..<?n} then ready(wid_of k \<mapsto> (t', msgs k)) else ready)"
    define c' where "c' = c\<lparr>cr_state := RecvReliableOrdered (wid_of P) ready', cr_fragments := r'\<rparr>"
    have "channel_step Z config rconfig s msgs (Deliver k i t) c = (c', Inr None)"
      using b by (auto simp: channel_step_def c'_def ready'_def st push_completed_def)
    moreover have "ready_ok (msgs j) ((A(k := insert i (A k))) j = {..<parts_count Z config s (msgs j)})
        (ready' (wid_of j))" if "j \<in> window P" for j
      using that ready True notfull window_inj [OF that win]
      by (auto simp: ready'_def ready_ok_def)
    moreover have "\<forall>mid. ready' mid \<noteq> None \<longrightarrow> mid \<in> wid_of ` window P"
      using ids win by (auto simp: ready'_def)
    moreover have "\<forall>j \<ge> P + 2 ^ 15. (A(k := insert i (A k))) j = {}"
      using far win by (auto simp: window_def)
    ultimately show ?thesis
      using r' by (auto simp: ordered_inv_def c'_def)
  qed
qed

lemma ordered_run_refines:
  assumes ok: "stream_ok Z config rconfig s msgs" and "ordered_inv Z config s msgs P A c"
    and "ordered_legal (\<lambda>k. parts_count Z config s (msgs k)) es P A"
  shows "channel_run Z config rconfig s msgs es c =
    map (\<lambda>out. Inr (map_option (\<lambda>k. (msgs k, Some (wid_of k))) out))
      (ordered_run (\<lambda>k. parts_count Z config s (msgs k)) es P A)"
  using assms(2,3)
proof (induction es arbitrary: P A c)
  case (Cons e es)
  show ?case
  proof (cases e)
    case (Deliver k i t)
    then obtain c' where c': "channel_step Z config rconfig s msgs e c = (c', Inr None)"
      "ordered_inv Z config s msgs P (A(k := insert i (A k))) c'"
      using ordered_deliver [OF ok Cons.prems(1), of i k t] Cons.prems(2) by (auto simp: event_legal_def)
    define A' where "A' = A(k := insert i (A k))"
    have step: "ordered_step (\<lambda>k. parts_count Z config s (msgs k)) e P A = (None, P, A')"
      by (simp add: Deliver ordered_step_def A'_def)
    then have "ordered_legal (\<lambda>k. parts_count Z config s (msgs k)) es P A'"
      using Cons.prems(2) by simp
    from Cons.IH [OF c'(2) [folded A'_def] this] show ?thesis
      using c'(1) step by simp
  next
    case Read
    then show ?thesis
      using ordered_read [OF ok Cons.prems(1)] Cons.IH Cons.prems(2)
      by (auto simp: ordered_step_def split: if_splits)
  next
    case (Clock now)
    have "expires_fragments (cr_state c) = False"
      using Cons.prems(1) by (auto simp: ordered_inv_def expires_fragments_def)
    then have "channel_step Z config rconfig s msgs e c = (c\<lparr>cr_current_time := now\<rparr>, Inr None)"
      by (simp add: Clock channel_step_def cr_update_def)
    moreover have "ordered_inv Z config s msgs P A (c\<lparr>cr_current_time := now\<rparr>)"
      using Cons.prems(1) by (simp add: ordered_inv_def)
    ultimately show ?thesis
      using Cons.IH Cons.prems(2) Clock by (simp add: ordered_step_def)
  qed
qed simp

lemma ordered_inv_new:
  assumes "stream_ok Z config rconfig s msgs" and "cs_mode settings = OrderedReliable rs"
  shows "ordered_inv Z config s msgs 0 (\<lambda>_. {}) (cr_set_fragment_size s (channel_receive_new kind settings))"
  using parts_count_pos [OF assms(1)]
  by (auto simp: ordered_inv_def channel_receive_new_def assms(2) cr_set_fragment_size_def
      fr_set_fragment_size_def fragment_receiver_new_def frag_inv_def frag_state_def ready_ok_def)

text \<open>
  C1: a reliable ordered channel refines ordered delivery. Whatever the network does to the parts
  of the messages, whole or fragmented, compressed or not, and whenever the application reads, no
  event fails, and a read returns the next message of the stream, with exactly the bytes sent and
  its identifier, as soon as and only when all parts of it have arrived, and nothing otherwise.
\<close>

theorem reliable_ordered_channel_refines:
  assumes "stream_ok Z config rconfig s msgs" and "cs_mode settings = OrderedReliable rs"
    and "ordered_legal (\<lambda>k. parts_count Z config s (msgs k)) es 0 (\<lambda>_. {})"
  shows "channel_run Z config rconfig s msgs es
      (cr_set_fragment_size s (channel_receive_new kind settings)) =
    map (\<lambda>out. Inr (map_option (\<lambda>k. (msgs k, Some (wid_of k))) out))
      (ordered_run (\<lambda>k. parts_count Z config s (msgs k)) es 0 (\<lambda>_. {}))"
  by (rule ordered_run_refines [OF assms(1) ordered_inv_new [OF assms(1,2)] assms(3)])

text \<open>The specification hands out every message once, in the order of the stream.\<close>

lemma ordered_run_order: "\<exists>n. [k. Some k \<leftarrow> ordered_run parts es P A] = [P..<P + n]"
proof (induction es arbitrary: P A)
  case (Cons e es)
  show ?case
  proof (cases "e = Read \<and> A P = {..<parts P}")
    case True
    obtain n where "[k. Some k \<leftarrow> ordered_run parts es (Suc P) A] = [Suc P..<Suc P + n]"
      using Cons.IH by blast
    then have "[k. Some k \<leftarrow> ordered_run parts (e # es) P A] = [P..<P + Suc n]"
      using True by (simp add: ordered_step_def upt_conv_Cons)
    then show ?thesis by blast
  next
    case False
    then show ?thesis
      using Cons.IH by (auto simp: ordered_step_def split: channel_event.splits)
  qed
next
  case Nil
  then show ?case by (intro exI [of _ 0]) simp
qed

definition example_messages :: "nat \<Rightarrow> bytes" where
  "example_messages k = (if k = 0 then [1, 2, 3] else [4])"

lemma example_stream_ok: "stream_ok rle_block DISABLED DISABLED 2 example_messages"
proof -
  have "parts_count rle_block DISABLED 2 [1, 2, 3] = 2" "parts_count rle_block DISABLED 2 [4] = 1"
    by (simp_all add: parts_count_def message_payload_def compress_fragment_def DISABLED_def
        fragment_compression_of_def chunks.simps)
  then show ?thesis
    by (auto simp: stream_ok_def example_messages_def isize_max_def DISABLED_def rle_codec.block_codec_axioms)
qed

theorem reliable_ordered_channel_refines_witness:
  "channel_run rle_block DISABLED DISABLED 2 example_messages
     [Deliver 1 0 7, Read, Deliver 0 1 8, Deliver 0 0 9, Read, Read]
     (cr_set_fragment_size 2 (channel_receive_new () \<lparr>cs_mode = OrderedReliable
        \<lparr>rtt_resend_factor = (), rtt_resend_min_delay = 0\<rparr>, cs_send_frequency = 0, cs_priority = (),
        cs_retry_unsent_messages = True, cs_timeline = None\<rparr>)) =
   [Inr None, Inr None, Inr None, Inr None, Inr (Some ([1, 2, 3], Some 0)), Inr (Some ([4], Some 1))]"
proof -
  let ?parts = "\<lambda>k. parts_count rle_block DISABLED 2 (example_messages k)"
  have parts: "?parts 0 = 2" "?parts 1 = 1"
    by (simp_all add: example_messages_def parts_count_def message_payload_def compress_fragment_def
        DISABLED_def fragment_compression_of_def chunks.simps)
  have two: "{..<2} = {0, 1 :: nat}" "{..<1} = {0 :: nat}"
    by auto
  let ?es = "[Deliver 1 0 7, Read, Deliver 0 1 8, Deliver 0 0 9, Read, Read]"
  have legal: "ordered_legal ?parts ?es 0 (\<lambda>_. {})"
    using parts two by (simp add: event_legal_def ordered_step_def)
  have run: "ordered_run ?parts ?es 0 (\<lambda>_. {}) = [None, None, None, None, Some 0, Some 1]"
    using parts two by (simp add: ordered_step_def)
  have "channel_run rle_block DISABLED DISABLED 2 example_messages ?es
     (cr_set_fragment_size 2 (channel_receive_new () \<lparr>cs_mode = OrderedReliable
        \<lparr>rtt_resend_factor = (), rtt_resend_min_delay = 0\<rparr>, cs_send_frequency = 0, cs_priority = (),
        cs_retry_unsent_messages = True, cs_timeline = None\<rparr>)) =
     map (\<lambda>out. Inr (map_option (\<lambda>k. (example_messages k, Some (wid_of k))) out))
       (ordered_run ?parts ?es 0 (\<lambda>_. {}))"
    by (rule reliable_ordered_channel_refines [OF example_stream_ok _ legal]) simp
  then show ?thesis
    unfolding run by (simp only: list.map option.map) (simp add: example_messages_def)
qed

end
