(* ===== verification/Channel_Send.thy ===== *)
theory Channel_Send
  imports Channel_Delivery "HOL-Library.AList"
begin

text \<open>
  The sending half of a channel (\<open>crates/transport/transport/src/channel/send.rs\<close> and
  \<open>send_reliable.rs\<close>). Priorities are a type \<open>'f\<close> and the timer of the Bevy time crate a
  type \<open>'tm\<close>, each with its operations as a parameter. The map of pending reliable messages, which
  is iterated over, is an association list. \<open>None\<close> is a panic.
\<close>

section \<open>Floats and timers\<close>

record 'f f32_ops =
  f32_zero :: 'f
  f32_one :: 'f
  f32_add :: "'f \<Rightarrow> 'f \<Rightarrow> 'f"
  f32_mul :: "'f \<Rightarrow> 'f \<Rightarrow> 'f"
  f32_ratio :: "nat \<Rightarrow> nat \<Rightarrow> 'f"
  f32_total_key :: "'f \<Rightarrow> int"
  duration_mul_f32 :: "duration \<Rightarrow> 'f \<Rightarrow> duration option"

record 'tm timer_ops =
  tm_new :: "duration \<Rightarrow> 'tm"
  tm_tick :: "duration \<Rightarrow> 'tm \<Rightarrow> 'tm"
  tm_is_finished :: "'tm \<Rightarrow> bool"
  tm_duration :: "'tm \<Rightarrow> duration"

definition resend_delay :: "'f f32_ops \<Rightarrow> 'f reliable_settings \<Rightarrow> duration \<Rightarrow> duration option" where
  "resend_delay N s round_trip =
     map_option (\<lambda>delay. max delay (rtt_resend_min_delay s)) (duration_mul_f32 N round_trip (rtt_resend_factor s))"

definition is_ready_to_send :: "'tm timer_ops \<Rightarrow> 'tm option \<Rightarrow> bool" where
  "is_ready_to_send T timer = (case timer of None \<Rightarrow> True | Some t \<Rightarrow> tm_is_finished T t)"

section \<open>Unreliable channels\<close>

datatype send_flush_outcome = Complete | BandwidthLimited | StagingFailed

datatype unreliable_delivery = Unordered | Sequenced | UnorderedWithAcks

record 'f pending_send_message =
  psm_message :: "'f send_message"
  psm_committed :: bool
  psm_fragment_started :: bool

definition pending_send_message_new :: "'f send_message \<Rightarrow> 'f pending_send_message" where
  "pending_send_message_new m = \<lparr>psm_message = m, psm_committed = False, psm_fragment_started = False\<rparr>"

definition fragment_message_id :: "'f pending_send_message \<Rightarrow> message_id option" where
  "fragment_message_id p =
     (case sm_data (psm_message p) of Fragment f \<Rightarrow> Some (fd_message_id f) | Single _ \<Rightarrow> None)"

record 'f unreliable_send_state =
  us_delivery :: unreliable_delivery
  us_singles :: "'f pending_send_message list"
  us_fragments :: "'f pending_send_message list"
  us_next_message_id :: message_id
  us_fragment_acks :: "fragment_ack_receiver option"
  us_retry_unsent_messages :: bool

definition unreliable_send_state_new :: "unreliable_delivery \<Rightarrow> bool \<Rightarrow> 'f unreliable_send_state" where
  "unreliable_send_state_new delivery retry_unsent_messages =
     \<lparr>us_delivery = delivery, us_singles = [], us_fragments = [], us_next_message_id = 0,
      us_fragment_acks = (if delivery = UnorderedWithAcks then Some fragment_ack_receiver_new else None),
      us_retry_unsent_messages = retry_unsent_messages\<rparr>"

definition us_update :: "duration \<Rightarrow> 'f unreliable_send_state \<Rightarrow> 'f unreliable_send_state" where
  "us_update elapsed st =
     st\<lparr>us_fragment_acks := map_option (far_cleanup (elapsed - DISCARD_AFTER)) (us_fragment_acks st)\<rparr>"

definition us_buffer_send ::
  "block_ops \<Rightarrow> fragment_sender \<Rightarrow> bytes \<Rightarrow> 'f \<Rightarrow> compression_config \<Rightarrow> 'f unreliable_send_state \<Rightarrow>
   ('f unreliable_send_state \<times> message_id option) option" where
  "us_buffer_send Z fragmenter message priority compression st =
     (let message_id = us_next_message_id st;
          is_fragmented = length message > fs_fragment_size fragmenter;
          has_id = (is_fragmented \<or> us_delivery st \<noteq> Unordered);
          queued =
            (if is_fragmented then
               map_option (\<lambda>fragments.
                 st\<lparr>us_fragment_acks := map_option (add_new_fragment_to_wait_for message_id (length fragments)) (us_fragment_acks st),
                    us_fragments := us_fragments st @ map (\<lambda>fragment.
                      pending_send_message_new \<lparr>sm_data = Fragment fragment, sm_priority = priority\<rparr>) fragments\<rparr>)
                 (build_fragments_for_message Z message_id message compression fragmenter)
             else
               Some (st\<lparr>us_singles := us_singles st @ [pending_send_message_new
                 \<lparr>sm_data = Single \<lparr>sd_id = (if has_id then Some message_id else None), sd_bytes = message\<rparr>,
                  sm_priority = priority\<rparr>]\<rparr>))
      in map_option (\<lambda>st.
           if has_id then (st\<lparr>us_next_message_id := wid_add_assign message_id 1\<rparr>, Some message_id)
           else (st, None)) queued)"

text \<open>The candidates of one queue: a key and a message for each entry that is not committed.\<close>

definition queue_candidates ::
  "'c \<Rightarrow> channel_id \<Rightarrow> (nat \<Rightarrow> send_message_key) \<Rightarrow> 'f pending_send_message list \<Rightarrow> ('c, 'f) send_candidate option list" where
  "queue_candidates kind cid key queue =
     map (\<lambda>(index, pending). send_candidate_new kind cid (key index) (psm_message pending))
       (filter (\<lambda>(_, pending). \<not> psm_committed pending) (enumerate 0 queue))"

definition us_collect_candidates ::
  "'c \<Rightarrow> channel_id \<Rightarrow> 'f unreliable_send_state \<Rightarrow> ('c, 'f) send_candidate list option" where
  "us_collect_candidates kind cid st =
     those (queue_candidates kind cid UnreliableSingle (us_singles st) @
            queue_candidates kind cid UnreliableFragment (us_fragments st))"

definition us_commit_send :: "send_message_key \<Rightarrow> 'f unreliable_send_state \<Rightarrow> 'f unreliable_send_state option" where
  "us_commit_send key st =
     (case key of
        UnreliableSingle index \<Rightarrow>
          if index < length (us_singles st)
          then Some (st\<lparr>us_singles := (us_singles st)[index := (us_singles st ! index)\<lparr>psm_committed := True\<rparr>]\<rparr>)
          else Some st
      | UnreliableFragment index \<Rightarrow>
          if index < length (us_fragments st)
          then
            (let pending = us_fragments st ! index in
             case fragment_message_id pending of
               None \<Rightarrow> None
             | Some message_id \<Rightarrow>
                 (let fragments = (us_fragments st)[index := pending\<lparr>psm_committed := True\<rparr>];
                      fragments =
                        (if \<not> psm_fragment_started pending
                         then map (\<lambda>p. if fragment_message_id p = Some message_id
                                       then p\<lparr>psm_fragment_started := True\<rparr> else p) fragments
                         else fragments)
                  in Some (st\<lparr>us_fragments := fragments\<rparr>)))
          else Some st
      | _ \<Rightarrow> Some st)"

definition discarded_messages :: "'f pending_send_message list \<Rightarrow> message_id list" where
  "discarded_messages fragments =
     List.map_filter (\<lambda>pending.
       if \<not> psm_committed pending \<and> \<not> psm_fragment_started pending
       then (case sm_data (psm_message pending) of
               Fragment f \<Rightarrow> if fd_fragment_id f = 0 then Some (fd_message_id f) else None
             | Single _ \<Rightarrow> None)
       else None) fragments"

definition us_finish_send :: "send_flush_outcome \<Rightarrow> bool \<Rightarrow> 'f unreliable_send_state \<Rightarrow> 'f unreliable_send_state" where
  "us_finish_send outcome was_ready st =
     (let discard_unsent = (was_ready \<and> \<not> us_retry_unsent_messages st \<and> outcome = BandwidthLimited) in
      if discard_unsent then
        st\<lparr>us_fragment_acks := map_option (fold far_discard_message (discarded_messages (us_fragments st))) (us_fragment_acks st),
           us_singles := [],
           us_fragments := filter (\<lambda>p. \<not> psm_committed p \<and> psm_fragment_started p) (us_fragments st)\<rparr>
      else
        st\<lparr>us_singles := filter (\<lambda>p. \<not> psm_committed p) (us_singles st),
           us_fragments := filter (\<lambda>p. \<not> psm_committed p) (us_fragments st)\<rparr>)"

definition us_receive_ack :: "message_ack \<Rightarrow> 'f unreliable_send_state \<Rightarrow> ('f unreliable_send_state \<times> bool) option" where
  "us_receive_ack ack st =
     (case ma_fragment_id ack of
        None \<Rightarrow> Some (st, us_delivery st = UnorderedWithAcks)
      | Some fragment_index \<Rightarrow>
          (case us_fragment_acks st of
             None \<Rightarrow> Some (st, False)
           | Some acks \<Rightarrow>
               map_option (\<lambda>(done, acks). (st\<lparr>us_fragment_acks := Some acks\<rparr>, done))
                 (receive_fragment_ack (ma_message_id ack) fragment_index None acks)))"

definition us_receive_nack :: "message_ack \<Rightarrow> 'f unreliable_send_state \<Rightarrow> 'f unreliable_send_state" where
  "us_receive_nack nack st =
     (if ma_fragment_id nack \<noteq> None
      then st\<lparr>us_fragment_acks := map_option (far_discard_message (ma_message_id nack)) (us_fragment_acks st)\<rparr>
      else st)"

section \<open>Reliable channels\<close>

record fragment_ack =
  fa_data :: fragment_data
  fa_acked :: bool
  fa_last_sent :: "duration option"

datatype unacked_message =
    UnackedSingle bytes "duration option"
  | UnackedFragmented "fragment_ack list"

record 'f pending_reliable_message =
  prm_message :: unacked_message
  prm_base_priority :: 'f
  prm_accumulated_priority :: 'f
  prm_send_order :: u64

record 'f reliable_send_state =
  rs_settings :: "'f reliable_settings"
  rs_pending :: "(message_id \<times> 'f pending_reliable_message) list"
  rs_next_message_id :: message_id
  rs_next_send_order :: u64
  rs_current_rtt :: duration
  rs_current_time :: duration
  rs_priority_multiplier :: 'f

definition reliable_send_state_new :: "'f f32_ops \<Rightarrow> 'f reliable_settings \<Rightarrow> 'f reliable_send_state" where
  "reliable_send_state_new N settings =
     \<lparr>rs_settings = settings, rs_pending = [], rs_next_message_id = 0, rs_next_send_order = 0,
      rs_current_rtt = 0, rs_current_time = 0, rs_priority_multiplier = f32_one N\<rparr>"

definition rs_update ::
  "'f f32_ops \<Rightarrow> 'tm timer_ops \<Rightarrow> duration \<Rightarrow> duration \<Rightarrow> link_stats \<Rightarrow> 'tm option \<Rightarrow> 'f reliable_send_state \<Rightarrow> 'f reliable_send_state" where
  "rs_update N T elapsed delta stats timer st =
     (let st = st\<lparr>rs_current_time := elapsed, rs_current_rtt := rtt stats\<rparr> in
      case timer of
        None \<Rightarrow> st
      | Some t \<Rightarrow> st\<lparr>rs_priority_multiplier := f32_ratio N (tm_duration T t) delta\<rparr>)"

definition rs_buffer_send ::
  "'f f32_ops \<Rightarrow> block_ops \<Rightarrow> fragment_sender \<Rightarrow> bytes \<Rightarrow> 'f \<Rightarrow> compression_config \<Rightarrow> 'f reliable_send_state \<Rightarrow>
   ('f reliable_send_state \<times> message_id) option" where
  "rs_buffer_send N Z fragmenter message priority compression st =
     (let message_id = rs_next_message_id st in
      Option.bind
        (if length message > fs_fragment_size fragmenter
         then map_option (\<lambda>fragments. UnackedFragmented
                (map (\<lambda>data. \<lparr>fa_data = data, fa_acked = False, fa_last_sent = None\<rparr>) fragments))
                (build_fragments_for_message Z message_id message compression fragmenter)
         else Some (UnackedSingle message None))
        (\<lambda>message.
           if rs_next_send_order st = - 1 then None
           else Some (st\<lparr>rs_pending := AList.update message_id
                           \<lparr>prm_message = message, prm_base_priority = priority,
                            prm_accumulated_priority = f32_zero N, prm_send_order = rs_next_send_order st\<rparr> (rs_pending st),
                         rs_next_message_id := wid_add_assign message_id 1,
                         rs_next_send_order := rs_next_send_order st + 1\<rparr>, message_id)))"

definition should_send :: "duration \<Rightarrow> duration \<Rightarrow> duration option \<Rightarrow> bool" where
  "should_send delay current_time last_sent =
     (case last_sent of None \<Rightarrow> True | Some t \<Rightarrow> delay \<noteq> 0 \<and> current_time - t > delay)"

definition pending_candidates ::
  "'c \<Rightarrow> channel_id \<Rightarrow> (duration option \<Rightarrow> bool) \<Rightarrow> message_id \<Rightarrow> 'f pending_reliable_message \<Rightarrow> ('c, 'f) send_candidate list" where
  "pending_candidates kind cid should message_id pending =
     (case prm_message pending of
        UnackedSingle bs last_sent \<Rightarrow>
          if should last_sent
          then [send_candidate_new_reliable kind cid (ReliableSingle message_id) (prm_send_order pending)
                  \<lparr>sm_data = Single \<lparr>sd_id = Some message_id, sd_bytes = bs\<rparr>,
                   sm_priority = prm_accumulated_priority pending\<rparr>]
          else []
      | UnackedFragmented fragments \<Rightarrow>
          map (\<lambda>fragment. send_candidate_new_reliable kind cid
                 (ReliableFragment message_id (fd_fragment_id (fa_data fragment))) (prm_send_order pending)
                 \<lparr>sm_data = Fragment (fa_data fragment), sm_priority = prm_accumulated_priority pending\<rparr>)
            (filter (\<lambda>fragment. \<not> fa_acked fragment \<and> should (fa_last_sent fragment)) fragments))"

definition accumulate_priority :: "'f f32_ops \<Rightarrow> 'f \<Rightarrow> 'f pending_reliable_message \<Rightarrow> 'f pending_reliable_message" where
  "accumulate_priority N multiplier p =
     p\<lparr>prm_accumulated_priority := f32_add N (prm_accumulated_priority p) (f32_mul N (prm_base_priority p) multiplier)\<rparr>"

definition rs_collect_candidates ::
  "'f f32_ops \<Rightarrow> 'c \<Rightarrow> channel_id \<Rightarrow> 'f reliable_send_state \<Rightarrow> ('f reliable_send_state \<times> ('c, 'f) send_candidate list) option" where
  "rs_collect_candidates N kind cid st =
     map_option (\<lambda>delay.
       let should = should_send delay (rs_current_time st);
           st = st\<lparr>rs_pending := map (\<lambda>(mid, p). (mid, accumulate_priority N (rs_priority_multiplier st) p)) (rs_pending st)\<rparr>
       in (st, concat (map (\<lambda>(mid, p). pending_candidates kind cid should mid p) (rs_pending st))))
       (resend_delay N (rs_settings st) (rs_current_rtt st))"

definition rs_commit_send :: "send_message_key \<Rightarrow> duration \<Rightarrow> 'f reliable_send_state \<Rightarrow> 'f reliable_send_state" where
  "rs_commit_send key sent_at st =
     (case key of
        ReliableSingle message_id \<Rightarrow>
          (case map_of (rs_pending st) message_id of
             None \<Rightarrow> st
           | Some pending \<Rightarrow>
               (case prm_message pending of
                  UnackedSingle bs _ \<Rightarrow>
                    st\<lparr>rs_pending := AList.update message_id
                         (pending\<lparr>prm_message := UnackedSingle bs (Some sent_at)\<rparr>) (rs_pending st)\<rparr>
                | UnackedFragmented _ \<Rightarrow> st))
      | ReliableFragment message_id fragment_id \<Rightarrow>
          (case map_of (rs_pending st) message_id of
             None \<Rightarrow> st
           | Some pending \<Rightarrow>
               (case prm_message pending of
                  UnackedSingle _ _ \<Rightarrow> st
                | UnackedFragmented fragments \<Rightarrow>
                    if unat fragment_id < length fragments
                    then st\<lparr>rs_pending := AList.update message_id
                           (pending\<lparr>prm_message := UnackedFragmented (fragments[unat fragment_id :=
                              (fragments ! unat fragment_id)\<lparr>fa_last_sent := Some sent_at\<rparr>])\<rparr>) (rs_pending st)\<rparr>
                    else st))
      | _ \<Rightarrow> st)"

definition rs_receive_ack :: "message_ack \<Rightarrow> 'f reliable_send_state \<Rightarrow> ('f reliable_send_state \<times> bool) option" where
  "rs_receive_ack ack st =
     (case map_of (rs_pending st) (ma_message_id ack) of
        None \<Rightarrow> Some (st, False)
      | Some pending \<Rightarrow>
          (case prm_message pending of
             UnackedSingle _ _ \<Rightarrow>
               if ma_fragment_id ack \<noteq> None then None
               else Some (st\<lparr>rs_pending := AList.delete (ma_message_id ack) (rs_pending st)\<rparr>, True)
           | UnackedFragmented fragments \<Rightarrow>
               (case ma_fragment_id ack of
                  None \<Rightarrow> None
                | Some fragment_id \<Rightarrow>
                    if unat fragment_id \<ge> length fragments then None
                    else if fa_acked (fragments ! unat fragment_id) then Some (st, False)
                    else
                      (let fragments = fragments[unat fragment_id := (fragments ! unat fragment_id)\<lparr>fa_acked := True\<rparr>]
                       in if list_all fa_acked fragments
                          then Some (st\<lparr>rs_pending := AList.delete (ma_message_id ack) (rs_pending st)\<rparr>, True)
                          else Some (st\<lparr>rs_pending := AList.update (ma_message_id ack)
                                 (pending\<lparr>prm_message := UnackedFragmented fragments\<rparr>) (rs_pending st)\<rparr>, False)))))"

section \<open>The channel\<close>

datatype 'f send_state =
    SendUnreliable "'f unreliable_send_state"
  | SendReliable "'f reliable_send_state"

record ('c, 'f, 'tm) channel_send =
  ch_channel_kind :: 'c
  ch_channel_id :: channel_id
  ch_mode :: "'f channel_mode"
  ch_fragmenter :: fragment_sender
  ch_timer :: "'tm option"
  ch_state :: "'f send_state"
  ch_message_acks :: "message_id list"
  ch_message_nacks :: "message_id list"
  ch_messages_sent :: "message_id list"

definition channel_send_new ::
  "'f f32_ops \<Rightarrow> 'tm timer_ops \<Rightarrow> 'c \<Rightarrow> channel_id \<Rightarrow> 'f channel_settings \<Rightarrow> nat \<Rightarrow> ('c, 'f, 'tm) channel_send" where
  "channel_send_new N T kind cid settings fragment_size =
     (let state =
            (case cs_mode settings of
               UnorderedUnreliableWithAcks \<Rightarrow>
                 SendUnreliable (unreliable_send_state_new UnorderedWithAcks (cs_retry_unsent_messages settings))
             | UnorderedUnreliable \<Rightarrow>
                 SendUnreliable (unreliable_send_state_new Unordered (cs_retry_unsent_messages settings))
             | SequencedUnreliable \<Rightarrow>
                 SendUnreliable (unreliable_send_state_new Sequenced (cs_retry_unsent_messages settings))
             | UnorderedReliable s \<Rightarrow> SendReliable (reliable_send_state_new N s)
             | SequencedReliable s \<Rightarrow> SendReliable (reliable_send_state_new N s)
             | OrderedReliable s \<Rightarrow> SendReliable (reliable_send_state_new N s))
      in \<lparr>ch_channel_kind = kind, ch_channel_id = cid, ch_mode = cs_mode settings,
          ch_fragmenter = fs_set_fragment_size fragment_size fragment_sender_new,
          ch_timer = (if cs_send_frequency settings \<noteq> 0 then Some (tm_new T (cs_send_frequency settings)) else None),
          ch_state = state, ch_message_acks = [], ch_message_nacks = [], ch_messages_sent = []\<rparr>)"

definition watches_acks :: "('c, 'f, 'tm) channel_send \<Rightarrow> bool" where
  "watches_acks ch =
     (case ch_state ch of SendReliable _ \<Rightarrow> True | SendUnreliable st \<Rightarrow> us_delivery st = UnorderedWithAcks)"

definition ch_set_fragment_size :: "nat \<Rightarrow> ('c, 'f, 'tm) channel_send \<Rightarrow> ('c, 'f, 'tm) channel_send" where
  "ch_set_fragment_size n ch = ch\<lparr>ch_fragmenter := fs_set_fragment_size n (ch_fragmenter ch)\<rparr>"

definition ch_update ::
  "'f f32_ops \<Rightarrow> 'tm timer_ops \<Rightarrow> duration \<Rightarrow> duration \<Rightarrow> link_stats \<Rightarrow> ('c, 'f, 'tm) channel_send \<Rightarrow> ('c, 'f, 'tm) channel_send" where
  "ch_update N T elapsed delta stats ch =
     (let ch = ch\<lparr>ch_timer := map_option (tm_tick T delta) (ch_timer ch)\<rparr> in
      ch\<lparr>ch_state :=
        (case ch_state ch of
           SendUnreliable st \<Rightarrow> SendUnreliable (us_update elapsed st)
         | SendReliable st \<Rightarrow> SendReliable (rs_update N T elapsed delta stats (ch_timer ch) st))\<rparr>)"

definition clear_frame_events :: "('c, 'f, 'tm) channel_send \<Rightarrow> ('c, 'f, 'tm) channel_send" where
  "clear_frame_events ch = ch\<lparr>ch_message_acks := [], ch_message_nacks := [], ch_messages_sent := []\<rparr>"

definition ch_buffer_send ::
  "'f f32_ops \<Rightarrow> block_ops \<Rightarrow> bytes \<Rightarrow> 'f \<Rightarrow> compression_config \<Rightarrow> ('c, 'f, 'tm) channel_send \<Rightarrow>
   (('c, 'f, 'tm) channel_send \<times> message_id option) option" where
  "ch_buffer_send N Z message priority compression ch =
     (case ch_state ch of
        SendUnreliable st \<Rightarrow>
          map_option (\<lambda>(st, mid). (ch\<lparr>ch_state := SendUnreliable st\<rparr>, mid))
            (us_buffer_send Z (ch_fragmenter ch) message priority compression st)
      | SendReliable st \<Rightarrow>
          map_option (\<lambda>(st, mid). (ch\<lparr>ch_state := SendReliable st\<rparr>, Some mid))
            (rs_buffer_send N Z (ch_fragmenter ch) message priority compression st))"

definition collect_send_candidates ::
  "'f f32_ops \<Rightarrow> 'tm timer_ops \<Rightarrow> ('c, 'f, 'tm) channel_send \<Rightarrow>
   (('c, 'f, 'tm) channel_send \<times> ('c, 'f) send_candidate list) option" where
  "collect_send_candidates N T ch =
     (if \<not> is_ready_to_send T (ch_timer ch) then Some (ch, [])
      else case ch_state ch of
             SendUnreliable st \<Rightarrow>
               map_option (\<lambda>cs. (ch, cs)) (us_collect_candidates (ch_channel_kind ch) (ch_channel_id ch) st)
           | SendReliable st \<Rightarrow>
               map_option (\<lambda>(st, cs). (ch\<lparr>ch_state := SendReliable st\<rparr>, cs))
                 (rs_collect_candidates N (ch_channel_kind ch) (ch_channel_id ch) st))"

definition ch_commit_send ::
  "send_message_key \<Rightarrow> duration \<Rightarrow> ('c, 'f, 'tm) channel_send \<Rightarrow> ('c, 'f, 'tm) channel_send option" where
  "ch_commit_send key sent_at ch =
     (case ch_state ch of
        SendUnreliable st \<Rightarrow> map_option (\<lambda>st. ch\<lparr>ch_state := SendUnreliable st\<rparr>) (us_commit_send key st)
      | SendReliable st \<Rightarrow> Some (ch\<lparr>ch_state := SendReliable (rs_commit_send key sent_at st)\<rparr>))"

definition ch_finish_send ::
  "'tm timer_ops \<Rightarrow> send_flush_outcome \<Rightarrow> ('c, 'f, 'tm) channel_send \<Rightarrow> ('c, 'f, 'tm) channel_send" where
  "ch_finish_send T outcome ch =
     (case ch_state ch of
        SendUnreliable st \<Rightarrow>
          ch\<lparr>ch_state := SendUnreliable (us_finish_send outcome (is_ready_to_send T (ch_timer ch)) st)\<rparr>
      | SendReliable _ \<Rightarrow> ch)"

definition ch_receive_ack :: "message_ack \<Rightarrow> ('c, 'f, 'tm) channel_send \<Rightarrow> (('c, 'f, 'tm) channel_send \<times> bool) option" where
  "ch_receive_ack ack ch =
     (case ch_state ch of
        SendUnreliable st \<Rightarrow>
          map_option (\<lambda>(st, done). (ch\<lparr>ch_state := SendUnreliable st\<rparr>, done)) (us_receive_ack ack st)
      | SendReliable st \<Rightarrow>
          map_option (\<lambda>(st, done). (ch\<lparr>ch_state := SendReliable st\<rparr>, done)) (rs_receive_ack ack st))"

definition ch_receive_nack :: "message_ack \<Rightarrow> ('c, 'f, 'tm) channel_send \<Rightarrow> ('c, 'f, 'tm) channel_send" where
  "ch_receive_nack nack ch =
     (case ch_state ch of
        SendUnreliable st \<Rightarrow> ch\<lparr>ch_state := SendUnreliable (us_receive_nack nack st)\<rparr>
      | SendReliable _ \<Rightarrow> ch)"

section \<open>What a reliable sender still owes\<close>

text \<open>
  The specification of a reliable sender: the set of parts that are not acknowledged. A part is a
  message with \<open>None\<close> when it is sent whole, or the index of one of its fragments.
\<close>

type_synonym part = "message_id \<times> fragment_index option"

definition unacked_parts :: "message_id \<Rightarrow> unacked_message \<Rightarrow> part set" where
  "unacked_parts mid m =
     (case m of
        UnackedSingle _ _ \<Rightarrow> {(mid, None)}
      | UnackedFragmented fs \<Rightarrow> {(mid, Some i) | i. unat i < length fs \<and> \<not> fa_acked (fs ! unat i)})"

definition outstanding :: "'f reliable_send_state \<Rightarrow> part set" where
  "outstanding st = {part. case map_of (rs_pending st) (fst part) of
       None \<Rightarrow> False | Some p \<Rightarrow> part \<in> unacked_parts (fst part) (prm_message p)}"

text \<open>The data of a pending message, part by part.\<close>

definition message_contents :: "message_id \<Rightarrow> unacked_message \<Rightarrow> message_data list" where
  "message_contents mid m =
     (case m of
        UnackedSingle bs _ \<Rightarrow> [Single \<lparr>sd_id = Some mid, sd_bytes = bs\<rparr>]
      | UnackedFragmented fs \<Rightarrow> map (\<lambda>f. Fragment (fa_data f)) fs)"

definition contents :: "'f reliable_send_state \<Rightarrow> message_id \<Rightarrow> message_data list option" where
  "contents st mid = map_option (\<lambda>p. message_contents mid (prm_message p)) (map_of (rs_pending st) mid)"

definition part_key :: "part \<Rightarrow> send_message_key" where
  "part_key p = (case p of (mid, None) \<Rightarrow> ReliableSingle mid | (mid, Some i) \<Rightarrow> ReliableFragment mid i)"

text \<open>Fragments are stored in order, and a message with nothing left to acknowledge is gone.\<close>

definition unacked_ok :: "message_id \<Rightarrow> unacked_message \<Rightarrow> bool" where
  "unacked_ok mid m =
     (case m of
        UnackedSingle _ _ \<Rightarrow> True
      | UnackedFragmented fs \<Rightarrow> length fs < 2 ^ 64 \<and> \<not> list_all fa_acked fs \<and>
          (\<forall>i < length fs. fd_fragment_id (fa_data (fs ! i)) = word_of_nat i \<and> fd_message_id (fa_data (fs ! i)) = mid))"

definition rs_ok :: "'f reliable_send_state \<Rightarrow> bool" where
  "rs_ok st \<longleftrightarrow> distinct (map fst (rs_pending st)) \<and>
     (\<forall>mid p. map_of (rs_pending st) mid = Some p \<longrightarrow> unacked_ok mid (prm_message p))"

lemma unacked_parts_fst: "part \<in> unacked_parts mid m \<Longrightarrow> fst part = mid"
  by (auto simp: unacked_parts_def split: unacked_message.splits)

lemma unat_of_nat_u64: "n < 2 ^ 64 \<Longrightarrow> unat (word_of_nat n :: u64) = n"
  by (simp add: unat_of_nat)

lemma unacked_parts_empty:
  assumes "length fs < 2 ^ 64"
  shows "unacked_parts mid (UnackedFragmented fs) = {} \<longleftrightarrow> list_all fa_acked fs"
proof
  assume empty: "unacked_parts mid (UnackedFragmented fs) = {}"
  have "fa_acked (fs ! n)" if "n < length fs" for n
  proof (rule ccontr)
    assume "\<not> fa_acked (fs ! n)"
    then have "(mid, Some (word_of_nat n)) \<in> unacked_parts mid (UnackedFragmented fs)"
      using that assms by (simp add: unacked_parts_def unat_of_nat_u64)
    then show False
      using empty by simp
  qed
  then show "list_all fa_acked fs"
    by (simp add: list_all_length)
qed (simp add: unacked_parts_def list_all_length)

lemma unacked_parts_nonempty: "unacked_ok mid m \<Longrightarrow> unacked_parts mid m \<noteq> {}"
  using unacked_parts_empty by (cases m) (auto simp: unacked_ok_def unacked_parts_def)

lemma outstanding_iff:
  "(mid, k) \<in> outstanding st \<longleftrightarrow>
     (\<exists>p. map_of (rs_pending st) mid = Some p \<and> (mid, k) \<in> unacked_parts mid (prm_message p))"
  by (auto simp: outstanding_def split: option.splits)

lemma outstanding_delete:
  "outstanding (st\<lparr>rs_pending := AList.delete mid (rs_pending st)\<rparr>) = {part \<in> outstanding st. fst part \<noteq> mid}"
  by (auto simp: outstanding_def delete_conv')

lemma contents_delete:
  "contents (st\<lparr>rs_pending := AList.delete mid (rs_pending st)\<rparr>) = (contents st)(mid := None)"
  by (auto simp: contents_def delete_conv')

lemma contents_update:
  "contents (st\<lparr>rs_pending := AList.update mid p (rs_pending st)\<rparr>) =
     (contents st)(mid \<mapsto> message_contents mid (prm_message p))"
  by (auto simp: contents_def update_conv')

lemma rs_ok_update:
  "rs_ok st \<Longrightarrow> unacked_ok mid (prm_message p) \<Longrightarrow> rs_ok (st\<lparr>rs_pending := AList.update mid p (rs_pending st)\<rparr>)"
  by (auto simp: rs_ok_def update_conv' intro: distinct_update split: if_splits)

lemma rs_ok_delete: "rs_ok st \<Longrightarrow> rs_ok (st\<lparr>rs_pending := AList.delete mid (rs_pending st)\<rparr>)"
  by (auto simp: rs_ok_def delete_conv' intro: distinct_delete split: if_splits)

text \<open>An acknowledgement of a part that fits the shape of its message.\<close>

definition ack_fits :: "part \<Rightarrow> 'f reliable_send_state \<Rightarrow> bool" where
  "ack_fits part st =
     (case map_of (rs_pending st) (fst part) of
        None \<Rightarrow> True
      | Some p \<Rightarrow> (case prm_message p of
          UnackedSingle _ _ \<Rightarrow> snd part = None
        | UnackedFragmented fs \<Rightarrow> (case snd part of None \<Rightarrow> False | Some i \<Rightarrow> unat i < length fs)))"

definition ack_of :: "part \<Rightarrow> message_ack" where
  "ack_of part = \<lparr>ma_message_id = fst part, ma_fragment_id = snd part\<rparr>"

lemma fragments_acked:
  assumes "unacked_ok mid (UnackedFragmented fs)" and "unat i < length fs" and "\<not> fa_acked (fs ! unat i)"
  shows "unacked_parts mid (UnackedFragmented (fs[unat i := (fs ! unat i)\<lparr>fa_acked := True\<rparr>])) =
      unacked_parts mid (UnackedFragmented fs) - {(mid, Some i)}"
    and "list_all fa_acked (fs[unat i := (fs ! unat i)\<lparr>fa_acked := True\<rparr>]) \<longleftrightarrow>
      unacked_parts mid (UnackedFragmented fs) = {(mid, Some i)}"
proof -
  let ?fs = "fs[unat i := (fs ! unat i)\<lparr>fa_acked := True\<rparr>]"
  show parts: "unacked_parts mid (UnackedFragmented ?fs) = unacked_parts mid (UnackedFragmented fs) - {(mid, Some i)}"
    using assms(2) by (auto simp: unacked_parts_def nth_list_update word_unat_eq_iff [symmetric] split: if_splits)
  have "unacked_parts mid (UnackedFragmented ?fs) = {} \<longleftrightarrow> list_all fa_acked ?fs"
    using assms(1) by (simp add: unacked_parts_empty unacked_ok_def)
  moreover have "(mid, Some i) \<in> unacked_parts mid (UnackedFragmented fs)"
    using assms(2,3) by (simp add: unacked_parts_def)
  ultimately show "list_all fa_acked ?fs \<longleftrightarrow> unacked_parts mid (UnackedFragmented fs) = {(mid, Some i)}"
    unfolding parts by auto
qed

lemma outstanding_mid:
  "map_of (rs_pending st) mid = Some p \<Longrightarrow> {part \<in> outstanding st. fst part = mid} = unacked_parts mid (prm_message p)"
  by (auto simp: outstanding_iff dest: unacked_parts_fst) (metis fst_conv outstanding_iff unacked_parts_fst)

lemma outstanding_update:
  "outstanding (st\<lparr>rs_pending := AList.update mid p (rs_pending st)\<rparr>) =
     {part \<in> outstanding st. fst part \<noteq> mid} \<union> unacked_parts mid (prm_message p)"
proof (rule set_eqI)
  fix part :: part
  obtain mid' k where [simp]: "part = (mid', k)" by force
  show "part \<in> outstanding (st\<lparr>rs_pending := AList.update mid p (rs_pending st)\<rparr>) \<longleftrightarrow>
      part \<in> {part \<in> outstanding st. fst part \<noteq> mid} \<union> unacked_parts mid (prm_message p)"
    using unacked_parts_fst [of part mid "prm_message p"] by (auto simp: outstanding_iff update_conv')
qed

text \<open>What an acknowledgement of part \<open>(mid, k)\<close> does, when the message is sent whole or in fragments.\<close>

definition ack_result :: "part \<Rightarrow> 'f reliable_send_state \<Rightarrow> 'f reliable_send_state \<times> bool \<Rightarrow> bool" where
  "ack_result part st r \<longleftrightarrow> rs_ok (fst r) \<and> outstanding (fst r) = outstanding st - {part} \<and>
     (snd r \<longleftrightarrow> {q \<in> outstanding st. fst q = fst part} = {part}) \<and>
     contents (fst r) = (if snd r then (contents st)(fst part := None) else contents st) \<and>
     rs_next_message_id (fst r) = rs_next_message_id st \<and> rs_next_send_order (fst r) = rs_next_send_order st"

lemma ack_result_delete:
  assumes "rs_ok st" and "map_of (rs_pending st) mid = Some p" and "unacked_parts mid (prm_message p) = {(mid, k)}"
  shows "ack_result (mid, k) st (st\<lparr>rs_pending := AList.delete mid (rs_pending st)\<rparr>, True)"
proof -
  have "{part \<in> outstanding st. fst part \<noteq> mid} = outstanding st - {(mid, k)}"
    using outstanding_mid [OF assms(2)] assms(3) by auto
  then show ?thesis
    using rs_ok_delete [OF assms(1)] outstanding_mid [OF assms(2)] assms(3)
    by (simp add: ack_result_def outstanding_delete contents_delete)
qed

lemma ack_result_update:
  assumes "rs_ok st" and "map_of (rs_pending st) mid = Some p" and "unacked_ok mid (prm_message p')"
    and "unacked_parts mid (prm_message p') = unacked_parts mid (prm_message p) - {(mid, k)}"
    and "unacked_parts mid (prm_message p) \<noteq> {(mid, k)}"
    and "message_contents mid (prm_message p') = message_contents mid (prm_message p)"
  shows "ack_result (mid, k) st (st\<lparr>rs_pending := AList.update mid p' (rs_pending st)\<rparr>, False)"
proof -
  have "{part \<in> outstanding st. fst part \<noteq> mid} \<union> ({part \<in> outstanding st. fst part = mid} - {(mid, k)}) =
      outstanding st - {(mid, k)}"
    by auto
  moreover have "(contents st)(mid \<mapsto> message_contents mid (prm_message p')) = contents st"
    using assms(2,6) by (auto simp: contents_def)
  ultimately show ?thesis
    using rs_ok_update [OF assms(1,3)] outstanding_mid [OF assms(2)] assms(4,5)
    by (simp add: ack_result_def outstanding_update contents_update)
qed

lemma ack_result_unchanged: "rs_ok st \<Longrightarrow> (mid, k) \<notin> outstanding st \<Longrightarrow> ack_result (mid, k) st (st, False)"
  by (auto simp: ack_result_def)

lemma receive_ack_fragment:
  assumes ok: "rs_ok st" and p: "map_of (rs_pending st) mid = Some p" "prm_message p = UnackedFragmented fs"
    and i: "unat i < length fs"
  shows "\<exists>r. rs_receive_ack (ack_of (mid, Some i)) st = Some r \<and> ack_result (mid, Some i) st r"
proof (cases "fa_acked (fs ! unat i)")
  case True
  then have "(mid, Some i) \<notin> outstanding st"
    using p by (simp add: outstanding_iff unacked_parts_def)
  then show ?thesis
    using ok p i True ack_result_unchanged by (auto simp: rs_receive_ack_def ack_of_def)
next
  case False
  let ?fs = "fs[unat i := (fs ! unat i)\<lparr>fa_acked := True\<rparr>]"
  have fs: "unacked_ok mid (UnackedFragmented fs)"
    using ok p by (force simp: rs_ok_def)
  note acked = fragments_acked [OF fs i False]
  show ?thesis
  proof (cases "list_all fa_acked ?fs")
    case True
    then show ?thesis
      using False i p acked(2) ack_result_delete [OF ok p(1), of "Some i"]
      by (simp add: rs_receive_ack_def ack_of_def not_le)
  next
    case unfinished: False
    then have "unacked_ok mid (UnackedFragmented ?fs)"
      using fs i by (auto simp: unacked_ok_def nth_list_update)
    moreover have "message_contents mid (UnackedFragmented ?fs) = message_contents mid (UnackedFragmented fs)"
      using i by (auto simp: message_contents_def nth_list_update intro!: nth_equalityI)
    ultimately show ?thesis
      using unfinished False i p acked ack_result_update [OF ok p(1), of "p\<lparr>prm_message := UnackedFragmented ?fs\<rparr>" "Some i"]
      by (simp add: rs_receive_ack_def ack_of_def not_le)
  qed
qed

lemma receive_ack_refines:
  assumes "rs_ok st" and "ack_fits part st"
  shows "\<exists>r. rs_receive_ack (ack_of part) st = Some r \<and> ack_result part st r"
proof -
  obtain mid k where part: "part = (mid, k)" by force
  show ?thesis
  proof (cases "map_of (rs_pending st) mid")
    case None
    then show ?thesis
      using assms(1) ack_result_unchanged [of st mid k] by (simp add: part rs_receive_ack_def ack_of_def outstanding_iff)
  next
    case (Some p)
    show ?thesis
    proof (cases "prm_message p")
      case (UnackedSingle bs t)
      then show ?thesis
        using assms(2) Some ack_result_delete [OF assms(1) Some, of k]
        by (simp add: part ack_fits_def rs_receive_ack_def ack_of_def unacked_parts_def)
    next
      case (UnackedFragmented fs)
      then show ?thesis
        using assms Some receive_ack_fragment [OF assms(1) Some] by (cases k) (auto simp: part ack_fits_def)
    qed
  qed
qed

subsection \<open>Buffering\<close>

text \<open>The parts of message \<open>k\<close> of a stream, under the identifier it gets.\<close>

definition part_id :: "nat \<Rightarrow> nat \<Rightarrow> bytes \<Rightarrow> nat \<Rightarrow> part" where
  "part_id s k msg i = (wid_of k, if length msg \<le> s then None else Some (word_of_nat i))"

definition new_message :: "block_ops \<Rightarrow> compression_config \<Rightarrow> nat \<Rightarrow> nat \<Rightarrow> bytes \<Rightarrow> unacked_message" where
  "new_message Z config s k msg =
     (if length msg \<le> s then UnackedSingle msg None
      else UnackedFragmented (map (\<lambda>data. \<lparr>fa_data = data, fa_acked = False, fa_last_sent = None\<rparr>)
             (the (build_fragments_for_message Z (wid_of k) msg config \<lparr>fs_fragment_size = s\<rparr>))))"

lemma part_id_fst [simp]: "fst (part_id s k msg i) = wid_of k"
  by (simp add: part_id_def)

lemma build_fragments_long:
  assumes "0 < s" and "s < length msg"
  shows "build_fragments_for_message Z (wid_of k) msg config \<lparr>fs_fragment_size = s\<rparr> =
    Some (map (\<lambda>i. fragment_of (wid_of k) (fst (message_payload Z config msg)) s (parts_count Z config s msg)
      (snd (message_payload Z config msg)) i) [0..<parts_count Z config s msg])" (is "?lhs = Some ?frags")
proof -
  have "?lhs = build_fragments_with_compression (wid_of k) (fst (message_payload Z config msg))
      (snd (message_payload Z config msg)) \<lparr>fs_fragment_size = s\<rparr>"
    using assms by (auto simp: build_fragments_for_message_def message_payload_def build_fragments_def
        split: sum.splits option.splits payload_compression_candidate.splits)
  then obtain frags where frags: "?lhs = Some frags"
    using assms by (simp add: build_fragments_with_compression_def Let_def)
  moreover have "frags = ?frags"
    using wire_parts_long [OF assms, of Z config k] assms(2) frags
    by (auto simp: wire_parts_def list_eq_iff_nth_eq)
  ultimately show ?thesis by simp
qed

lemma parts_count_u64:
  assumes "stream_ok Z config rconfig s msgs"
  shows "parts_count Z config s (msgs k) < 2 ^ 64"
proof -
  have "parts_count Z config s (msgs k) * 1 \<le> parts_count Z config s (msgs k) * s"
    using assms by (intro mult_le_mono) (auto simp: stream_ok_def)
  also have "\<dots> \<le> isize_max"
    using assms by (simp add: stream_ok_def)
  finally show ?thesis
    by (simp add: isize_max_def)
qed

lemma new_message_ok:
  assumes ok: "stream_ok Z config rconfig s msgs"
  shows "unacked_ok (wid_of k) (new_message Z config s k (msgs k))"
    and "unacked_parts (wid_of k) (new_message Z config s k (msgs k)) =
      part_id s k (msgs k) ` {..<parts_count Z config s (msgs k)}"
    and "message_contents (wid_of k) (new_message Z config s k (msgs k)) = wire_parts Z config s k (msgs k)"
proof -
  have s: "0 < s" using ok by (simp add: stream_ok_def)
  have pos: "0 < parts_count Z config s (msgs k)" by (rule parts_count_pos [OF ok])
  have small: "parts_count Z config s (msgs k) < 2 ^ 64" by (rule parts_count_u64 [OF ok])
  show "unacked_ok (wid_of k) (new_message Z config s k (msgs k))"
    using pos small
    by (auto simp: unacked_ok_def new_message_def build_fragments_long [OF s] fragment_of_def list_all_length)
  show "unacked_parts (wid_of k) (new_message Z config s k (msgs k)) =
      part_id s k (msgs k) ` {..<parts_count Z config s (msgs k)}"
  proof (cases "length (msgs k) \<le> s")
    case True
    then show ?thesis
      by (auto simp: unacked_parts_def new_message_def part_id_def parts_count_def)
  next
    case False
    have "{i :: u64. unat i < n} = word_of_nat ` {..<n}" if "n < 2 ^ 64" for n
    proof (intro set_eqI iffI)
      fix i :: u64 assume "i \<in> {i. unat i < n}"
      then show "i \<in> word_of_nat ` {..<n}"
        by (intro image_eqI [of _ _ "unat i"]) auto
    qed (use that in \<open>auto simp: unat_of_nat_u64\<close>)
    with False small show ?thesis
      by (auto simp: unacked_parts_def new_message_def part_id_def build_fragments_long [OF s] image_image unat_of_nat_u64)
  qed
  show "message_contents (wid_of k) (new_message Z config s k (msgs k)) = wire_parts Z config s k (msgs k)"
    by (simp add: message_contents_def new_message_def wire_parts_def)
qed

definition new_pending :: "'f f32_ops \<Rightarrow> unacked_message \<Rightarrow> 'f \<Rightarrow> u64 \<Rightarrow> 'f pending_reliable_message" where
  "new_pending N m priority order =
     \<lparr>prm_message = m, prm_base_priority = priority, prm_accumulated_priority = f32_zero N, prm_send_order = order\<rparr>"

lemma buffer_send_new:
  assumes "rs_next_message_id st = wid_of k" and "rs_next_send_order st \<noteq> - 1" and "0 < s"
  shows "rs_buffer_send N Z \<lparr>fs_fragment_size = s\<rparr> msg priority config st =
      Some (st\<lparr>rs_pending := AList.update (wid_of k)
                 (new_pending N (new_message Z config s k msg) priority (rs_next_send_order st)) (rs_pending st),
               rs_next_message_id := wid_of (Suc k), rs_next_send_order := rs_next_send_order st + 1\<rparr>, wid_of k)"
  using assms
  by (cases "length msg \<le> s") (simp_all add: rs_buffer_send_def new_message_def new_pending_def build_fragments_long Let_def)

subsection \<open>Sending\<close>

definition part_index :: "part \<Rightarrow> nat" where
  "part_index part = (case snd part of None \<Rightarrow> 0 | Some i \<Rightarrow> unat i)"

definition part_last_sent :: "unacked_message \<Rightarrow> part \<Rightarrow> duration option" where
  "part_last_sent m part =
     (case m of UnackedSingle _ t \<Rightarrow> t | UnackedFragmented fs \<Rightarrow> fa_last_sent (fs ! part_index part))"

definition last_sent_of :: "'f reliable_send_state \<Rightarrow> part \<Rightarrow> duration option" where
  "last_sent_of st part =
     (case map_of (rs_pending st) (fst part) of None \<Rightarrow> None | Some p \<Rightarrow> part_last_sent (prm_message p) part)"

text \<open>Two states that differ only in when their parts were sent and in priorities.\<close>

definition same_parts :: "'f reliable_send_state \<Rightarrow> 'f reliable_send_state \<Rightarrow> bool" where
  "same_parts st st' \<longleftrightarrow> (rs_ok st \<longrightarrow> rs_ok st') \<and> outstanding st' = outstanding st \<and> contents st' = contents st \<and>
     rs_next_message_id st' = rs_next_message_id st \<and> rs_next_send_order st' = rs_next_send_order st"

lemma same_parts_update:
  assumes "map_of (rs_pending st) mid = Some p" and "unacked_ok mid (prm_message p) \<Longrightarrow> unacked_ok mid (prm_message p')"
    and "unacked_parts mid (prm_message p') = unacked_parts mid (prm_message p)"
    and "message_contents mid (prm_message p') = message_contents mid (prm_message p)"
  shows "same_parts st (st\<lparr>rs_pending := AList.update mid p' (rs_pending st)\<rparr>)"
proof -
  have "{part \<in> outstanding st. fst part \<noteq> mid} \<union> {part \<in> outstanding st. fst part = mid} = outstanding st"
    by auto
  moreover have "(contents st)(mid \<mapsto> message_contents mid (prm_message p)) = contents st"
    using assms(1) by (auto simp: contents_def)
  moreover have "rs_ok st \<Longrightarrow> unacked_ok mid (prm_message p)"
    using assms(1) by (simp add: rs_ok_def)
  ultimately show ?thesis
    using assms outstanding_mid [OF assms(1)] rs_ok_update [of st mid p']
    by (simp add: same_parts_def outstanding_update contents_update)
qed

lemma commit_send_same: "same_parts st (rs_commit_send key now st)"
proof (cases key)
  case (ReliableSingle mid)
  then show ?thesis
    by (auto simp: rs_commit_send_def same_parts_def [of st st] unacked_ok_def unacked_parts_def message_contents_def
        intro!: same_parts_update split: option.splits unacked_message.splits)
next
  case (ReliableFragment mid i)
  then show ?thesis
    by (auto simp: rs_commit_send_def same_parts_def [of st st] unacked_ok_def unacked_parts_def message_contents_def
        nth_list_update list_all_length
        intro!: same_parts_update nth_equalityI split: option.splits unacked_message.splits if_splits)
qed (simp_all add: rs_commit_send_def same_parts_def)

lemma commit_send_time:
  assumes "rs_ok st" and "part \<in> outstanding st"
  shows "q \<in> outstanding st \<Longrightarrow>
    last_sent_of (rs_commit_send (part_key part) now st) q = (if q = part then Some now else last_sent_of st q)"
proof -
  assume q: "q \<in> outstanding st"
  obtain mid k where part: "part = (mid, k)" by force
  then obtain p where p: "map_of (rs_pending st) mid = Some p" "part \<in> unacked_parts mid (prm_message p)"
    using assms(2) by (auto simp: outstanding_iff)
  show ?thesis
  proof (cases "fst q = mid")
    case True
    then have q_parts: "q \<in> unacked_parts mid (prm_message p)"
      using q p(1) by (cases q) (auto simp: outstanding_iff)
    show ?thesis
    proof (cases "prm_message p")
      case (UnackedSingle bs t)
      then have "part = (mid, None)" "q = (mid, None)"
        using p(2) q_parts by (simp_all add: unacked_parts_def)
      then show ?thesis
        using p(1) UnackedSingle
        by (simp add: last_sent_of_def rs_commit_send_def part_key_def part_last_sent_def update_conv')
    next
      case (UnackedFragmented fs)
      then obtain i j where "part = (mid, Some i)" "q = (mid, Some j)" "unat i < length fs" "unat j < length fs"
        using p(2) q_parts by (auto simp: unacked_parts_def)
      then show ?thesis
        using p(1) UnackedFragmented
        by (cases "i = j") (simp_all add: last_sent_of_def rs_commit_send_def part_key_def part_last_sent_def update_conv'
            part_index_def nth_list_update word_unat_eq_iff [symmetric])
    qed
  next
    case False
    then have "map_of (rs_pending (rs_commit_send (part_key part) now st)) (fst q) = map_of (rs_pending st) (fst q)"
      using part by (auto simp: rs_commit_send_def part_key_def update_conv' split: option.splits unacked_message.splits)
    with False show ?thesis
      using part by (auto simp: last_sent_of_def)
  qed
qed

lemma pending_candidates_parts:
  assumes "unacked_ok mid (prm_message p)"
  shows "(\<lambda>c. (sc_key c, sm_data (sc_message c))) ` set (pending_candidates kind cid should mid p) =
      (\<lambda>q. (part_key q, message_contents mid (prm_message p) ! part_index q)) `
        {q \<in> unacked_parts mid (prm_message p). should (part_last_sent (prm_message p) q)}"
proof (cases "prm_message p")
  case (UnackedSingle bs t)
  then show ?thesis
    by (cases "should t") (auto simp: pending_candidates_def unacked_parts_def part_last_sent_def part_key_def message_contents_def
        part_index_def send_candidate_new_reliable_def new_with_send_order_def)
next
  case (UnackedFragmented fs)
  have small: "length fs < 2 ^ 64" and ids: "\<And>i. i < length fs \<Longrightarrow> fd_fragment_id (fa_data (fs ! i)) = word_of_nat i"
    using assms UnackedFragmented by (auto simp: unacked_ok_def)
  let ?due = "\<lambda>f. \<not> fa_acked f \<and> should (fa_last_sent f)"
  have "{q \<in> unacked_parts mid (prm_message p). should (part_last_sent (prm_message p) q)} =
      (\<lambda>i. (mid, Some (word_of_nat i))) ` {i. i < length fs \<and> ?due (fs ! i)}" (is "?L = ?R")
  proof (intro set_eqI iffI)
    fix q assume "q \<in> ?L"
    then obtain i where "q = (mid, Some i)" "unat i < length fs" "?due (fs ! unat i)"
      by (auto simp: UnackedFragmented unacked_parts_def part_last_sent_def part_index_def)
    then show "q \<in> ?R"
      by (intro image_eqI [of _ _ "unat i"]) auto
  next
    fix q assume "q \<in> ?R"
    then show "q \<in> ?L"
      using small by (auto simp: UnackedFragmented unacked_parts_def part_last_sent_def part_index_def unat_of_nat_u64)
  qed
  moreover have "set (filter ?due fs) = (!) fs ` {i. i < length fs \<and> ?due (fs ! i)}"
    by (auto simp: in_set_conv_nth)
  moreover have "(mid, Some i) \<in> range (Pair mid)" for i :: u64 by simp
  ultimately show ?thesis
    using small
    by (auto simp: UnackedFragmented pending_candidates_def image_image send_candidate_new_reliable_def new_with_send_order_def
        part_key_def message_contents_def part_index_def unat_of_nat_u64 ids intro!: image_cong)
qed

lemma pending_candidates_distinct:
  assumes "unacked_ok mid (prm_message p)"
  shows "distinct (map sc_key (pending_candidates kind cid should mid p))"
proof (cases "prm_message p")
  case (UnackedFragmented fs)
  let ?key = "\<lambda>f. ReliableFragment mid (fd_fragment_id (fa_data f))"
  have "distinct (map ?key fs)"
    using assms UnackedFragmented
    by (auto simp: unacked_ok_def distinct_conv_nth dest!: arg_cong [of _ _ unat] simp: unat_of_nat_u64)
  then show ?thesis
    using UnackedFragmented distinct_map_filter [of ?key fs]
    by (simp add: pending_candidates_def send_candidate_new_reliable_def new_with_send_order_def comp_def)
qed (simp add: pending_candidates_def)

definition key_message :: "send_message_key \<Rightarrow> message_id" where
  "key_message key = (case key of ReliableSingle mid \<Rightarrow> mid | ReliableFragment mid _ \<Rightarrow> mid | _ \<Rightarrow> 0)"

lemma pending_candidates_key: "c \<in> set (pending_candidates kind cid should mid p) \<Longrightarrow> key_message (sc_key c) = mid"
  by (auto simp: pending_candidates_def send_candidate_new_reliable_def new_with_send_order_def key_message_def
      split: unacked_message.splits if_splits)

lemma all_candidates_distinct:
  assumes "distinct (map fst ps)" and "\<And>mid p. (mid, p) \<in> set ps \<Longrightarrow> unacked_ok mid (prm_message p)"
  shows "distinct (map sc_key (concat (map (\<lambda>(mid, p). pending_candidates kind cid should mid p) ps)))"
  using assms
proof (induction ps)
  case (Cons e ps)
  obtain mid p where e: "e = (mid, p)" by force
  have "key_message (sc_key c) \<noteq> mid" if "c \<in> set (pending_candidates kind cid should mid' p')" "(mid', p') \<in> set ps" for c mid' p'
    using Cons.prems(1) that pending_candidates_key [OF that(1)] by (auto simp: e image_iff)
  moreover have "key_message (sc_key c) = mid" if "c \<in> set (pending_candidates kind cid should mid p)" for c
    by (rule pending_candidates_key [OF that])
  ultimately have "sc_key ` set (pending_candidates kind cid should mid p) \<inter>
      sc_key ` set (concat (map (\<lambda>(mid, p). pending_candidates kind cid should mid p) ps)) = {}"
    by (fastforce dest: arg_cong [of _ _ key_message])
  then show ?case
    using Cons pending_candidates_distinct [of mid p kind cid should] by (auto simp: e)
qed simp

lemma collect_pending:
  assumes "rs_ok st"
  shows "same_parts st (st\<lparr>rs_pending := map (\<lambda>(mid, p). (mid, accumulate_priority N f p)) (rs_pending st)\<rparr>)"
    and "last_sent_of (st\<lparr>rs_pending := map (\<lambda>(mid, p). (mid, accumulate_priority N f p)) (rs_pending st)\<rparr>) = last_sent_of st"
proof -
  have "map_of (map (\<lambda>(mid, p). (mid, accumulate_priority N f p)) (rs_pending st)) =
      map_option (accumulate_priority N f) \<circ> map_of (rs_pending st)"
    by (rule map_of_map)
  moreover have "map fst (map (\<lambda>(mid, p). (mid, accumulate_priority N f p)) (rs_pending st)) = map fst (rs_pending st)"
    by (simp add: comp_def case_prod_beta')
  moreover have "prm_message (accumulate_priority N f p) = prm_message p" for p :: "'a pending_reliable_message"
    by (simp add: accumulate_priority_def)
  ultimately show "same_parts st (st\<lparr>rs_pending := map (\<lambda>(mid, p). (mid, accumulate_priority N f p)) (rs_pending st)\<rparr>)"
    and "last_sent_of (st\<lparr>rs_pending := map (\<lambda>(mid, p). (mid, accumulate_priority N f p)) (rs_pending st)\<rparr>) = last_sent_of st"
    by (auto simp: same_parts_def rs_ok_def outstanding_def contents_def last_sent_of_def fun_eq_iff
        option.map_comp comp_def simp del: map_map split: option.splits)
qed

lemma pending_view:
  assumes ok: "rs_ok st"
  shows "(\<lambda>c. (sc_key c, sm_data (sc_message c))) `
      set (concat (map (\<lambda>(mid, p). pending_candidates kind cid should mid p) (rs_pending st))) =
    (\<lambda>q. (part_key q, the (contents st (fst q)) ! part_index q)) ` {q \<in> outstanding st. should (last_sent_of st q)}"
    (is "?view ` set (concat (map ?cands _)) = ?part ` _")
proof -
  have pending: "(mid, p) \<in> set (rs_pending st) \<longleftrightarrow> map_of (rs_pending st) mid = Some p" for mid p
    using ok by (metis map_of_eq_Some_iff rs_ok_def)
  have one: "?view ` set (?cands (mid, p)) = ?part ` {q \<in> outstanding st. fst q = mid \<and> should (last_sent_of st q)}"
    if "map_of (rs_pending st) mid = Some p" for mid p
  proof -
    have parts: "q \<in> outstanding st \<and> fst q = mid \<longleftrightarrow> q \<in> unacked_parts mid (prm_message p)" for q
      using outstanding_mid [OF that] by blast
    have sent: "last_sent_of st q = part_last_sent (prm_message p) q" if "fst q = mid" for q
      using that \<open>map_of (rs_pending st) mid = Some p\<close> by (simp add: last_sent_of_def)
    have "{q \<in> outstanding st. fst q = mid \<and> should (last_sent_of st q)} =
        {q \<in> unacked_parts mid (prm_message p). should (part_last_sent (prm_message p) q)}"
    proof (rule Collect_cong)
      fix q
      show "q \<in> outstanding st \<and> fst q = mid \<and> should (last_sent_of st q) \<longleftrightarrow>
          q \<in> unacked_parts mid (prm_message p) \<and> should (part_last_sent (prm_message p) q)"
        using parts [of q] sent [of q] by (cases "fst q = mid") auto
    qed
    moreover have "unacked_ok mid (prm_message p)"
      using ok that by (simp add: rs_ok_def)
    moreover have "?part q = (part_key q, message_contents mid (prm_message p) ! part_index q)"
      if "q \<in> unacked_parts mid (prm_message p)" for q
      using unacked_parts_fst [OF that] \<open>map_of (rs_pending st) mid = Some p\<close> by (simp add: contents_def)
    ultimately show ?thesis
      by (simp add: pending_candidates_parts cong: image_cong_simp)
  qed
  have "?view ` set (concat (map ?cands (rs_pending st))) = (\<Union>e \<in> set (rs_pending st). ?view ` set (?cands e))"
    by (simp add: image_UN)
  also have "\<dots> = (\<Union>e \<in> set (rs_pending st). ?part ` {q \<in> outstanding st. fst q = fst e \<and> should (last_sent_of st q)})"
  proof (rule SUP_cong [OF refl])
    fix e assume "e \<in> set (rs_pending st)"
    then show "?view ` set (?cands e) = ?part ` {q \<in> outstanding st. fst q = fst e \<and> should (last_sent_of st q)}"
      using one [of "fst e" "snd e"] pending [of "fst e" "snd e"] by simp
  qed
  also have "\<dots> = ?part ` (\<Union>e \<in> set (rs_pending st). {q \<in> outstanding st. fst q = fst e \<and> should (last_sent_of st q)})"
    by (simp only: image_UN)
  also have "(\<Union>e \<in> set (rs_pending st). {q \<in> outstanding st. fst q = fst e \<and> should (last_sent_of st q)}) =
      {q \<in> outstanding st. should (last_sent_of st q)}"
    using pending by (force simp: outstanding_def split: option.splits)
  finally show ?thesis .
qed

lemma collect_candidates_parts:
  assumes ok: "rs_ok st" and delay: "resend_delay N (rs_settings st) (rs_current_rtt st) = Some delay"
  shows "\<exists>st' cs. rs_collect_candidates N kind cid st = Some (st', cs) \<and> same_parts st st' \<and>
    last_sent_of st' = last_sent_of st \<and> distinct (map sc_key cs) \<and>
    (\<lambda>c. (sc_key c, sm_data (sc_message c))) ` set cs =
      (\<lambda>q. (part_key q, the (contents st (fst q)) ! part_index q)) `
        {q \<in> outstanding st. should_send delay (rs_current_time st) (last_sent_of st q)}"
proof -
  let ?should = "should_send delay (rs_current_time st)"
  let ?st = "st\<lparr>rs_pending := map (\<lambda>(mid, p). (mid, accumulate_priority N (rs_priority_multiplier st) p)) (rs_pending st)\<rparr>"
  have same: "same_parts st ?st" and sent: "last_sent_of ?st = last_sent_of st"
    by (rule collect_pending [OF ok])+
  then have ok': "rs_ok ?st" and parts: "outstanding ?st = outstanding st" "contents ?st = contents st"
    using ok by (simp_all add: same_parts_def)
  have "distinct (map sc_key (concat (map (\<lambda>(mid, p). pending_candidates kind cid ?should mid p) (rs_pending ?st))))"
    using ok' by (intro all_candidates_distinct) (auto simp: rs_ok_def)
  then show ?thesis
    using same sent delay pending_view [OF ok', of kind cid ?should] parts
    by (simp add: rs_collect_candidates_def Let_def)
qed

subsection \<open>Runs of a reliable sender\<close>

text \<open>
  The specification: message \<open>k\<close> of a stream is buffered as the \<open>k\<close>-th one, and \<open>A k\<close> is the set of its
  parts that are acknowledged. The environment keeps an identifier from being used again while a
  message that has it is not acknowledged, and only acknowledges parts of the last \<open>2^16\<close> messages.
\<close>

definition owed :: "(nat \<Rightarrow> nat) \<Rightarrow> nat \<Rightarrow> (nat \<Rightarrow> nat set) \<Rightarrow> (nat \<times> nat) set" where
  "owed parts n A = {(k, i). k < n \<and> i < parts k \<and> i \<notin> A k}"

inductive sender_run ::
  "'f f32_ops \<Rightarrow> 'tm timer_ops \<Rightarrow> 'c \<Rightarrow> channel_id \<Rightarrow> block_ops \<Rightarrow> compression_config \<Rightarrow> nat \<Rightarrow> (nat \<Rightarrow> bytes) \<Rightarrow>
   nat \<Rightarrow> (nat \<Rightarrow> nat set) \<Rightarrow> 'f reliable_send_state \<Rightarrow> bool"
  for N :: "'f f32_ops" and T :: "'tm timer_ops" and kind :: 'c and cid Z config s msgs
where
  sender_new: "sender_run N T kind cid Z config s msgs 0 (\<lambda>_. {}) (reliable_send_state_new N settings)"
| sender_update: "sender_run N T kind cid Z config s msgs n A st \<Longrightarrow>
    sender_run N T kind cid Z config s msgs n A (rs_update N T elapsed delta stats timer st)"
| sender_buffer: "sender_run N T kind cid Z config s msgs n A st \<Longrightarrow> n < 2 ^ 64 - 1 \<Longrightarrow>
    (\<forall>(k, i) \<in> owed (\<lambda>k. parts_count Z config s (msgs k)) n A. n < k + 2 ^ 16) \<Longrightarrow>
    rs_buffer_send N Z \<lparr>fs_fragment_size = s\<rparr> (msgs n) priority config st = Some (st', mid) \<Longrightarrow>
    sender_run N T kind cid Z config s msgs (Suc n) A st'"
| sender_collect: "sender_run N T kind cid Z config s msgs n A st \<Longrightarrow>
    rs_collect_candidates N kind cid st = Some (st', cs) \<Longrightarrow> sender_run N T kind cid Z config s msgs n A st'"
| sender_commit: "sender_run N T kind cid Z config s msgs n A st \<Longrightarrow>
    sender_run N T kind cid Z config s msgs n A (rs_commit_send key now st)"
| sender_ack: "sender_run N T kind cid Z config s msgs n A st \<Longrightarrow>
    k < n \<Longrightarrow> n \<le> k + 2 ^ 16 \<Longrightarrow> i < parts_count Z config s (msgs k) \<Longrightarrow>
    rs_receive_ack (ack_of (part_id s k (msgs k) i)) st = Some (st', finished) \<Longrightarrow>
    sender_run N T kind cid Z config s msgs n (A(k := insert i (A k))) st'"

definition sender_inv ::
  "block_ops \<Rightarrow> compression_config \<Rightarrow> nat \<Rightarrow> (nat \<Rightarrow> bytes) \<Rightarrow> nat \<Rightarrow> (nat \<Rightarrow> nat set) \<Rightarrow> 'f reliable_send_state \<Rightarrow> bool"
where
  "sender_inv Z config s msgs n A st \<longleftrightarrow>
     (let owed_parts = owed (\<lambda>k. parts_count Z config s (msgs k)) n A in
      rs_ok st \<and> n < 2 ^ 64 \<and> rs_next_message_id st = wid_of n \<and> rs_next_send_order st = word_of_nat n \<and>
      (\<forall>k. A k \<noteq> {} \<longrightarrow> k < n) \<and>
      (\<forall>(k, i) \<in> owed_parts. n \<le> k + 2 ^ 16 \<and> contents st (wid_of k) = Some (wire_parts Z config s k (msgs k))) \<and>
      outstanding st = (\<lambda>(k, i). part_id s k (msgs k) i) ` owed_parts)"

lemma wid_of_inj_16:
  assumes "m \<le> k" "k < m + 2 ^ 16" "wid_of m = wid_of k"
  shows "m = k"
proof -
  have "k mod 2 ^ 16 = m mod 2 ^ 16"
    using assms(3) by (simp only: word_of_nat_eq_iff take_bit_eq_mod len_num1 len_bit0) simp
  then have "2 ^ 16 dvd k - m"
    using assms(1) by (simp only: mod_eq_dvd_iff_nat)
  moreover have "k - m < 2 ^ 16"
    using assms by linarith
  ultimately have "k - m = 0"
    using nat_dvd_not_less by blast
  then show ?thesis
    using assms(1) by simp
qed

lemma wid_of_eq_iff_16:
  assumes "m < n" "k < n" "n \<le> m + 2 ^ 16" "n \<le> k + 2 ^ 16"
  shows "wid_of m = wid_of k \<longleftrightarrow> m = k"
  using wid_of_inj_16 [of m k] wid_of_inj_16 [of k m] assms by (cases "m \<le> k") auto

lemma part_id_eq_iff:
  assumes ok: "stream_ok Z config rconfig s msgs"
    and "(k, i) \<in> owed (\<lambda>k. parts_count Z config s (msgs k)) n A" "n \<le> k + 2 ^ 16"
    and "l < n" "n \<le> l + 2 ^ 16" "j < parts_count Z config s (msgs l)"
  shows "part_id s k (msgs k) i = part_id s l (msgs l) j \<longleftrightarrow> k = l \<and> i = j"
proof
  assume eq: "part_id s k (msgs k) i = part_id s l (msgs l) j"
  have "k = l"
    using eq assms by (auto simp: part_id_def owed_def wid_of_eq_iff_16)
  moreover have "i = j"
  proof (cases "length (msgs l) \<le> s")
    case True
    then show ?thesis
      using \<open>k = l\<close> assms by (auto simp: owed_def parts_count_def)
  next
    case False
    then show ?thesis
      using eq \<open>k = l\<close> assms(2,6) parts_count_u64 [OF ok, of l]
      by (auto simp: part_id_def owed_def dest!: arg_cong [of _ _ unat] simp: unat_of_nat_u64)
  qed
  ultimately show "k = l \<and> i = j" ..
qed simp

lemma sender_inv_same: "sender_inv Z config s msgs n A st \<Longrightarrow> same_parts st st' \<Longrightarrow> sender_inv Z config s msgs n A st'"
  by (simp add: sender_inv_def same_parts_def Let_def)

lemma pending_only:
  assumes "rs_pending st' = rs_pending st"
  shows "rs_ok st' \<longleftrightarrow> rs_ok st" and "outstanding st' = outstanding st" and "contents st' = contents st"
  using assms by (auto simp: rs_ok_def outstanding_def contents_def fun_eq_iff)

lemma rs_update_fields [simp]:
  "rs_pending (rs_update N T elapsed delta stats timer st) = rs_pending st"
  "rs_next_message_id (rs_update N T elapsed delta stats timer st) = rs_next_message_id st"
  "rs_next_send_order (rs_update N T elapsed delta stats timer st) = rs_next_send_order st"
  by (simp_all add: rs_update_def Let_def split: option.split)

lemma rs_update_same: "same_parts st (rs_update N T elapsed delta stats timer st)"
  using pending_only [of "rs_update N T elapsed delta stats timer st" st] by (simp add: same_parts_def)

lemma sender_inv_buffer:
  assumes ok: "stream_ok Z config rconfig s msgs" and inv: "sender_inv Z config s msgs n A st" and "n < 2 ^ 64 - 1"
    and free: "\<forall>(k, i) \<in> owed (\<lambda>k. parts_count Z config s (msgs k)) n A. n < k + 2 ^ 16"
    and step: "rs_buffer_send N Z \<lparr>fs_fragment_size = s\<rparr> (msgs n) priority config st = Some (st', mid)"
  shows "sender_inv Z config s msgs (Suc n) A st'"
proof -
  let ?parts = "\<lambda>k. parts_count Z config s (msgs k)"
  have order: "rs_next_send_order st \<noteq> - 1"
  proof
    assume "rs_next_send_order st = - 1"
    then have "unat (word_of_nat n :: u64) = unat (- 1 :: u64)"
      using inv by (simp add: sender_inv_def Let_def)
    then show False
      using assms(3) by (simp add: unat_of_nat_u64 unsigned_minus_1_eq_mask mask_eq_exp_minus_1)
  qed
  have st': "st' = st\<lparr>rs_pending := AList.update (wid_of n)
       (new_pending N (new_message Z config s n (msgs n)) priority (rs_next_send_order st)) (rs_pending st)\<rparr>
       \<lparr>rs_next_message_id := wid_of (Suc n), rs_next_send_order := rs_next_send_order st + 1\<rparr>"
    using step inv order ok buffer_send_new [of st n s N Z "msgs n" priority config]
    by (simp add: sender_inv_def stream_ok_def Let_def)
  have fresh: "wid_of k \<noteq> wid_of n" if "(k, i) \<in> owed ?parts n A" for k i
  proof -
    have "k < n" "n < k + 2 ^ 16"
      using that free by (auto simp: owed_def)
    then show ?thesis
      using wid_of_eq_iff_16 [of k "Suc n" n] by simp
  qed
  let ?st = "st\<lparr>rs_pending := AList.update (wid_of n)
       (new_pending N (new_message Z config s n (msgs n)) priority (rs_next_send_order st)) (rs_pending st)\<rparr>"
  note state = pending_only [of st' ?st]
  have [simp]: "prm_message (new_pending N m p order) = m" for m p order
    by (simp add: new_pending_def)
  have owed: "owed ?parts (Suc n) A = owed ?parts n A \<union> {n} \<times> {..<?parts n}"
    using inv by (force simp: owed_def sender_inv_def Let_def less_Suc_eq)
  have "{q \<in> outstanding st. fst q \<noteq> wid_of n} = outstanding st"
    using inv fresh by (auto simp: sender_inv_def Let_def part_id_def)
  then have "outstanding st' = outstanding st \<union> part_id s n (msgs n) ` {..<?parts n}"
    using state(2) by (simp add: st' outstanding_update new_message_ok [OF ok])
  also have "\<dots> = (\<lambda>(k, i). part_id s k (msgs k) i) ` owed ?parts (Suc n) A"
    using inv by (auto simp: owed sender_inv_def Let_def image_Un image_iff)
  finally have "outstanding st' = (\<lambda>(k, i). part_id s k (msgs k) i) ` owed ?parts (Suc n) A" .
  moreover have "rs_ok st'"
    using state(1) inv by (simp add: st' rs_ok_update new_message_ok [OF ok] sender_inv_def Let_def)
  moreover have "contents st' = (contents st)(wid_of n \<mapsto> wire_parts Z config s n (msgs n))"
    using state(3) by (simp add: st' contents_update new_message_ok [OF ok])
  ultimately show ?thesis
    using inv free fresh assms(3) by (fastforce simp: sender_inv_def Let_def owed st' less_Suc_eq)
qed

lemma sender_pending_owed:
  assumes ok: "stream_ok Z config rconfig s msgs" and inv: "sender_inv Z config s msgs n A st"
    and "k < n" "n \<le> k + 2 ^ 16" and p: "map_of (rs_pending st) (wid_of k) = Some p"
  shows "\<exists>i. (k, i) \<in> owed (\<lambda>k. parts_count Z config s (msgs k)) n A"
    and "message_contents (wid_of k) (prm_message p) = wire_parts Z config s k (msgs k)"
proof -
  have "unacked_ok (wid_of k) (prm_message p)"
    using inv p by (simp add: sender_inv_def Let_def rs_ok_def)
  then obtain q where "q \<in> outstanding st" "fst q = wid_of k"
    using unacked_parts_nonempty outstanding_mid [OF p] by blast
  then obtain l i where li: "(l, i) \<in> owed (\<lambda>k. parts_count Z config s (msgs k)) n A" "wid_of l = wid_of k"
    using inv by (auto simp: sender_inv_def Let_def part_id_def)
  moreover have "n \<le> l + 2 ^ 16" "l < n" "contents st (wid_of l) = Some (wire_parts Z config s l (msgs l))"
    using inv li(1) by (auto simp: sender_inv_def Let_def owed_def)
  ultimately show "\<exists>i. (k, i) \<in> owed (\<lambda>k. parts_count Z config s (msgs k)) n A"
    and "message_contents (wid_of k) (prm_message p) = wire_parts Z config s k (msgs k)"
    using assms(3,4) p wid_of_eq_iff_16 [of l n k] by (auto simp: contents_def)
qed

lemma sender_ack_fits:
  assumes ok: "stream_ok Z config rconfig s msgs" and inv: "sender_inv Z config s msgs n A st"
    and "k < n" "n \<le> k + 2 ^ 16" "i < parts_count Z config s (msgs k)"
  shows "ack_fits (part_id s k (msgs k) i) st"
proof (cases "map_of (rs_pending st) (wid_of k)")
  case (Some p)
  note wire = sender_pending_owed(2) [OF ok inv assms(3,4) Some]
  have len: "length (wire_parts Z config s k (msgs k)) = parts_count Z config s (msgs k)"
    using ok by (intro wire_parts_length) (simp add: stream_ok_def)
  have small: "i < 2 ^ 64"
    using parts_count_u64 [OF ok, of k] assms(5) by simp
  show ?thesis
  proof (cases "prm_message p")
    case (UnackedSingle bs t)
    then have "length (msgs k) \<le> s"
      using wire by (auto simp: message_contents_def wire_parts_def split: if_splits)
    then show ?thesis
      using Some UnackedSingle by (simp add: ack_fits_def part_id_def)
  next
    case (UnackedFragmented fs)
    have "length fs = parts_count Z config s (msgs k)"
      using arg_cong [OF wire, of length] len UnackedFragmented by (simp add: message_contents_def)
    moreover have "\<not> length (msgs k) \<le> s"
      using wire UnackedFragmented by (auto simp: message_contents_def wire_parts_def split: if_splits)
    ultimately show ?thesis
      using Some UnackedFragmented assms(5) small by (simp add: ack_fits_def part_id_def unat_of_nat_u64)
  qed
qed (simp add: ack_fits_def part_id_def)

lemma sender_owed_message:
  assumes ok: "stream_ok Z config rconfig s msgs" and inv: "sender_inv Z config s msgs n A st"
    and "k < n" "n \<le> k + 2 ^ 16"
  shows "{q \<in> outstanding st. fst q = wid_of k} =
    part_id s k (msgs k) ` {i. (k, i) \<in> owed (\<lambda>k. parts_count Z config s (msgs k)) n A}"
proof -
  have "l = k" if "(l, i) \<in> owed (\<lambda>k. parts_count Z config s (msgs k)) n A" "wid_of l = wid_of k" for l i
  proof -
    have "l < n" "n \<le> l + 2 ^ 16"
      using inv that(1) by (auto simp: sender_inv_def Let_def owed_def)
    then show ?thesis
      using that(2) wid_of_eq_iff_16 [of l n k] assms(3,4) by simp
  qed
  note same = this
  have out: "outstanding st = (\<lambda>(k, i). part_id s k (msgs k) i) ` owed (\<lambda>k. parts_count Z config s (msgs k)) n A"
    using inv by (simp add: sender_inv_def Let_def)
  show ?thesis
  proof (intro set_eqI iffI)
    fix q assume "q \<in> {q \<in> outstanding st. fst q = wid_of k}"
    then obtain l i where li: "(l, i) \<in> owed (\<lambda>k. parts_count Z config s (msgs k)) n A"
      "q = part_id s l (msgs l) i" "wid_of l = wid_of k"
      using out by auto
    then show "q \<in> part_id s k (msgs k) ` {i. (k, i) \<in> owed (\<lambda>k. parts_count Z config s (msgs k)) n A}"
      using same [OF li(1,3)] by blast
  qed (auto simp: out)
qed

lemma sender_inv_ack:
  assumes ok: "stream_ok Z config rconfig s msgs" and inv: "sender_inv Z config s msgs n A st"
    and k: "k < n" "n \<le> k + 2 ^ 16" "i < parts_count Z config s (msgs k)"
  shows "\<exists>st'. rs_receive_ack (ack_of (part_id s k (msgs k) i)) st =
        Some (st', \<not> {..<parts_count Z config s (msgs k)} \<subseteq> A k \<and> {..<parts_count Z config s (msgs k)} \<subseteq> insert i (A k)) \<and>
      sender_inv Z config s msgs n (A(k := insert i (A k))) st'"
proof -
  let ?parts = "\<lambda>k. parts_count Z config s (msgs k)" and ?part = "part_id s k (msgs k) i"
  have rs: "rs_ok st" using inv by (simp add: sender_inv_def Let_def)
  obtain st' finished where step: "rs_receive_ack (ack_of ?part) st = Some (st', finished)"
    and res: "ack_result ?part st (st', finished)"
    using receive_ack_refines [OF rs sender_ack_fits [OF ok inv k]] by auto
  have eq: "?part = part_id s l (msgs l) j \<longleftrightarrow> k = l \<and> i = j" if "(l, j) \<in> owed ?parts n A" for l j
    using part_id_eq_iff [OF ok that _ k] inv that by (force simp: sender_inv_def Let_def)
  have owed: "owed ?parts n (A(k := insert i (A k))) = owed ?parts n A - {(k, i)}"
    by (auto simp: owed_def split: if_splits)
  have out: "outstanding st' = (\<lambda>(k, i). part_id s k (msgs k) i) ` (owed ?parts n A - {(k, i)})"
    using res inv eq by (fastforce simp: ack_result_def sender_inv_def Let_def)
  have "finished \<longleftrightarrow> part_id s k (msgs k) ` {j. (k, j) \<in> owed ?parts n A} = {?part}"
    using res sender_owed_message [OF ok inv k(1,2)] by (simp add: ack_result_def)
  also have "\<dots> \<longleftrightarrow> {j. (k, j) \<in> owed ?parts n A} = {i}"
  proof
    assume single: "part_id s k (msgs k) ` {j. (k, j) \<in> owed ?parts n A} = {?part}"
    have "j = i" if j: "(k, j) \<in> owed ?parts n A" for j
    proof -
      have "part_id s k (msgs k) j \<in> {?part}"
        unfolding single [symmetric] using j by (intro imageI) simp
      then show ?thesis
        using eq [OF j] by simp
    qed
    moreover have "{j. (k, j) \<in> owed ?parts n A} \<noteq> {}"
      using single by auto
    ultimately show "{j. (k, j) \<in> owed ?parts n A} = {i}" by blast
  qed simp
  finally have fin: "finished \<longleftrightarrow> {j. (k, j) \<in> owed ?parts n A} = {i}" .
  have "n \<le> l + 2 ^ 16 \<and> contents st' (wid_of l) = Some (wire_parts Z config s l (msgs l))"
    if "(l, j) \<in> owed ?parts n A - {(k, i)}" for l j
  proof -
    have l: "l < n" "n \<le> l + 2 ^ 16" "contents st (wid_of l) = Some (wire_parts Z config s l (msgs l))"
      using inv that by (auto simp: sender_inv_def Let_def owed_def)
    have "l \<noteq> k" if finished
      using fin that \<open>(l, j) \<in> _\<close> by auto
    then show ?thesis
      using res l wid_of_eq_iff_16 [OF l(1) k(1) l(2) k(2)] by (auto simp: ack_result_def)
  qed
  then have "\<forall>(l, j) \<in> owed ?parts n (A(k := insert i (A k))).
      n \<le> l + 2 ^ 16 \<and> contents st' (wid_of l) = Some (wire_parts Z config s l (msgs l))"
    unfolding owed by blast
  moreover have "rs_ok st'" "rs_next_message_id st' = wid_of n" "rs_next_send_order st' = word_of_nat n" "n < 2 ^ 64"
    using res inv by (simp_all add: ack_result_def sender_inv_def Let_def)
  moreover have "\<forall>l. (A(k := insert i (A k))) l \<noteq> {} \<longrightarrow> l < n"
    using inv k(1) by (simp add: sender_inv_def Let_def)
  ultimately have "sender_inv Z config s msgs n (A(k := insert i (A k))) st'"
    using out unfolding sender_inv_def Let_def owed [symmetric] by blast
  moreover have "{j. (k, j) \<in> owed ?parts n A} = {..<?parts k} - A k"
    using k(1) by (auto simp: owed_def)
  then have "finished \<longleftrightarrow> \<not> {..<?parts k} \<subseteq> A k \<and> {..<?parts k} \<subseteq> insert i (A k)"
    using fin k(3) by auto
  ultimately show ?thesis
    using step by simp
qed

lemma sender_run_inv:
  assumes "sender_run N T kind cid Z config s msgs n A st" and ok: "stream_ok Z config rconfig s msgs"
  shows "sender_inv Z config s msgs n A st"
  using assms(1)
proof (induction rule: sender_run.induct)
  case (sender_new settings)
  then show ?case
    by (simp add: sender_inv_def reliable_send_state_new_def rs_ok_def owed_def outstanding_def)
next
  case (sender_update n A st elapsed delta stats timer)
  then show ?case
    using rs_update_same by (rule_tac sender_inv_same)
next
  case (sender_buffer n A st priority st' mid)
  then show ?case
    by (intro sender_inv_buffer [OF ok]) auto
next
  case (sender_collect n A st st' cs)
  then obtain delay where "resend_delay N (rs_settings st) (rs_current_rtt st) = Some delay"
    by (auto simp: rs_collect_candidates_def)
  then have "same_parts st st'"
    using collect_candidates_parts [of st N delay kind cid] sender_collect by (auto simp: sender_inv_def Let_def)
  then show ?case
    using sender_collect sender_inv_same by blast
next
  case (sender_commit n A st key now)
  then show ?case
    using commit_send_same by (rule_tac sender_inv_same)
next
  case (sender_ack n A st k i st' finished)
  obtain st1 f where "rs_receive_ack (ack_of (part_id s k (msgs k) i)) st = Some (st1, f)"
    and inv: "sender_inv Z config s msgs n (A(k := insert i (A k))) st1"
    using sender_inv_ack [OF ok sender_ack.IH sender_ack.hyps(2-4)] by blast
  then have "st1 = st'"
    using sender_ack.hyps by simp
  with inv show ?case by (simp add: fun_upd_def)
qed

lemma part_index_id:
  assumes "stream_ok Z config rconfig s msgs" and "i < parts_count Z config s (msgs k)"
  shows "part_index (part_id s k (msgs k) i) = i"
  using assms(2) parts_count_u64 [OF assms(1), of k]
  by (auto simp: part_index_def part_id_def parts_count_def unat_of_nat_u64)

text \<open>
  C26: a reliable sender owes exactly the parts that are not acknowledged. In every state that a
  sequence of its operations reaches, collecting candidates offers every part of every message that
  was buffered and is not acknowledged, whole or fragment, with the bytes that the fragmentation
  of the message gives it, once, and nothing else, except the parts whose resend delay is not over.
\<close>

theorem reliable_sender_offers_owed_parts:
  assumes "stream_ok Z config rconfig s msgs" and "sender_run N T kind cid Z config s msgs n A st"
    and "resend_delay N (rs_settings st) (rs_current_rtt st) = Some delay"
  shows "\<exists>st' cs. rs_collect_candidates N kind cid st = Some (st', cs) \<and> distinct (map sc_key cs) \<and>
    (\<lambda>c. (sc_key c, sm_data (sc_message c))) ` set cs =
      (\<lambda>(k, i). (part_key (part_id s k (msgs k) i), wire_parts Z config s k (msgs k) ! i)) `
        {(k, i). k < n \<and> i < parts_count Z config s (msgs k) \<and> i \<notin> A k \<and>
          should_send delay (rs_current_time st) (last_sent_of st (part_id s k (msgs k) i))}"
proof -
  let ?parts = "\<lambda>k. parts_count Z config s (msgs k)"
  let ?due = "\<lambda>q. should_send delay (rs_current_time st) (last_sent_of st q)"
  have inv: "sender_inv Z config s msgs n A st"
    by (rule sender_run_inv [OF assms(2,1)])
  then have "{q \<in> outstanding st. ?due q} =
      (\<lambda>(k, i). part_id s k (msgs k) i) ` {(k, i). (k, i) \<in> owed ?parts n A \<and> ?due (part_id s k (msgs k) i)}"
    by (auto simp: sender_inv_def Let_def)
  then have "(\<lambda>q. (part_key q, the (contents st (fst q)) ! part_index q)) ` {q \<in> outstanding st. ?due q} =
      (\<lambda>(k, i). (part_key (part_id s k (msgs k) i), wire_parts Z config s k (msgs k) ! i)) `
        {(k, i). (k, i) \<in> owed ?parts n A \<and> ?due (part_id s k (msgs k) i)}"
    using inv part_index_id [OF assms(1)]
    by (auto simp: sender_inv_def Let_def owed_def image_image split: prod.splits intro!: image_cong)
  then show ?thesis
    using collect_candidates_parts [of st N delay kind cid] inv assms(3)
    by (auto simp: sender_inv_def Let_def owed_def)
qed

text \<open>An example of the parameters: priorities and factors are natural numbers.\<close>

definition example_f32 :: "nat f32_ops" where
  "example_f32 = \<lparr>f32_zero = 0, f32_one = 1, f32_add = (+), f32_mul = (*), f32_ratio = (div),
     f32_total_key = int, duration_mul_f32 = (\<lambda>d x. Some (d * x))\<rparr>"

definition example_timer :: "nat timer_ops" where
  "example_timer = \<lparr>tm_new = id, tm_tick = (\<lambda>d t. t - d), tm_is_finished = (\<lambda>t. t = 0), tm_duration = id\<rparr>"

definition example_sender_state :: "nat reliable_send_state" where
  "example_sender_state = fst (the (rs_buffer_send example_f32 rle_block \<lparr>fs_fragment_size = 2\<rparr> [1, 2, 3] 1 DISABLED
     (reliable_send_state_new example_f32 \<lparr>rtt_resend_factor = 2, rtt_resend_min_delay = 0\<rparr>)))"

lemma example_sender_run:
  "sender_run example_f32 example_timer () 7 rle_block DISABLED 2 example_messages 1 (\<lambda>_. {}) example_sender_state"
proof -
  let ?st = "reliable_send_state_new example_f32 \<lparr>rtt_resend_factor = 2, rtt_resend_min_delay = 0\<rparr>"
  have msg: "example_messages 0 = [1, 2, 3]"
    by (simp add: example_messages_def)
  have step: "rs_buffer_send example_f32 rle_block \<lparr>fs_fragment_size = 2\<rparr> (example_messages 0) 1 DISABLED ?st =
      Some (example_sender_state, wid_of 0)"
    using buffer_send_new [of ?st 0 2 example_f32 rle_block "example_messages 0" 1 DISABLED]
    by (simp add: example_sender_state_def msg reliable_send_state_new_def)
  have start: "sender_run example_f32 example_timer () 7 rle_block DISABLED 2 example_messages 0 (\<lambda>_. {}) ?st"
    by (rule sender_new)
  show ?thesis
    using sender_buffer [OF start _ _ step] by (simp add: owed_def)
qed

lemma new_message_unsent:
  assumes "0 < s" and "i < parts_count Z config s msg" and "i < 2 ^ 64"
  shows "part_last_sent (new_message Z config s k msg) (part_id s k msg i) = None"
  using assms
  by (simp add: part_last_sent_def new_message_def part_id_def part_index_def build_fragments_long unat_of_nat_u64)

theorem reliable_sender_offers_owed_parts_witness:
  "\<exists>st' cs. rs_collect_candidates example_f32 () 7 example_sender_state = Some (st', cs) \<and> distinct (map sc_key cs) \<and>
    sc_key ` set cs = {ReliableFragment 0 0, ReliableFragment 0 1}"
proof -
  have parts: "parts_count rle_block DISABLED 2 (example_messages 0) = 2"
    by (simp add: example_messages_def parts_count_def message_payload_def compress_fragment_def
        DISABLED_def fragment_compression_of_def chunks.simps)
  have msg: "example_messages 0 = [1, 2, 3]"
    by (simp add: example_messages_def)
  have st: "example_sender_state = \<lparr>rs_settings = \<lparr>rtt_resend_factor = 2, rtt_resend_min_delay = 0\<rparr>,
      rs_pending = [(0, new_pending example_f32 (new_message rle_block DISABLED 2 0 [1, 2, 3]) 1 0)],
      rs_next_message_id = 1, rs_next_send_order = 1, rs_current_rtt = 0, rs_current_time = 0, rs_priority_multiplier = 1\<rparr>"
    using buffer_send_new [of "reliable_send_state_new example_f32 \<lparr>rtt_resend_factor = 2, rtt_resend_min_delay = 0\<rparr>"
        0 2 example_f32 rle_block "[1, 2, 3]" 1 DISABLED]
    by (simp add: example_sender_state_def reliable_send_state_new_def example_f32_def)
  have unsent: "last_sent_of example_sender_state (part_id 2 0 [1, 2, 3] i) = None" if "i < 2" for i
    using that new_message_unsent [of 2 i rle_block DISABLED "[1, 2, 3]" 0] parts
    by (simp add: st last_sent_of_def new_pending_def msg)
  have due: "{(k, i). k < 1 \<and> i < parts_count rle_block DISABLED 2 (example_messages k) \<and> i \<notin> {} \<and>
      should_send 0 0 (last_sent_of example_sender_state (part_id 2 k (example_messages k) i))} = {(0, 0), (0, 1)}"
    using parts unsent by (auto simp: msg should_send_def less_Suc_eq numeral_2_eq_2)
  have delay: "resend_delay example_f32 (rs_settings example_sender_state) (rs_current_rtt example_sender_state) = Some 0"
    by (simp add: st resend_delay_def example_f32_def)
  obtain st' cs where "rs_collect_candidates example_f32 () 7 example_sender_state = Some (st', cs)" "distinct (map sc_key cs)"
    and view: "(\<lambda>c. (sc_key c, sm_data (sc_message c))) ` set cs =
      (\<lambda>(k, i). (part_key (part_id 2 k (example_messages k) i), wire_parts rle_block DISABLED 2 k (example_messages k) ! i)) `
        {(0, 0), (0, 1)}"
    using reliable_sender_offers_owed_parts [OF example_stream_ok example_sender_run delay] due by (auto simp: st)
  moreover have "sc_key ` set cs = fst ` (\<lambda>c. (sc_key c, sm_data (sc_message c))) ` set cs"
    by (simp add: image_image)
  ultimately show ?thesis
    by (auto simp: view msg part_id_def part_key_def)
qed

section \<open>Identifiers are reused after 2^16 messages\<close>

fun buffer_all ::
  "'f f32_ops \<Rightarrow> block_ops \<Rightarrow> nat \<Rightarrow> compression_config \<Rightarrow> 'f \<Rightarrow> bytes list \<Rightarrow> 'f reliable_send_state \<Rightarrow>
   'f reliable_send_state option"
where
  "buffer_all N Z s config priority [] st = Some st"
| "buffer_all N Z s config priority (m # ms) st =
     Option.bind (rs_buffer_send N Z \<lparr>fs_fragment_size = s\<rparr> m priority config st)
       (\<lambda>(st, _). buffer_all N Z s config priority ms st)"

lemma buffer_all_append:
  "buffer_all N Z s config priority (ms @ ms') st =
     Option.bind (buffer_all N Z s config priority ms st) (buffer_all N Z s config priority ms')"
  by (induction ms arbitrary: st) (auto split: bind_splits)

lemma buffer_one:
  assumes "rs_next_message_id st = wid_of k" and "rs_next_send_order st = word_of_nat k" and "k < 2 ^ 64 - 1"
    and "length m \<le> s"
  shows "\<exists>st'. rs_buffer_send N Z \<lparr>fs_fragment_size = s\<rparr> m priority config st = Some (st', wid_of k) \<and>
    rs_next_message_id st' = wid_of (Suc k) \<and> rs_next_send_order st' = word_of_nat (Suc k) \<and>
    contents st' = (contents st)(wid_of k \<mapsto> [Single \<lparr>sd_id = Some (wid_of k), sd_bytes = m\<rparr>])"
proof -
  have "(word_of_nat k :: u64) \<noteq> - 1"
    using assms(3) by (auto dest!: arg_cong [of _ _ unat] simp: unat_of_nat_u64 unsigned_minus_1_eq_mask mask_eq_exp_minus_1)
  then show ?thesis
    using assms by (simp add: rs_buffer_send_def fun_eq_iff contents_def message_contents_def update_conv' Let_def)
qed

lemma buffer_all_contents:
  assumes "length ms \<le> 2 ^ 16" and "\<forall>m \<in> set ms. length m \<le> s"
  shows "\<exists>st. buffer_all N Z s config priority ms (reliable_send_state_new N settings) = Some st \<and>
    rs_next_message_id st = wid_of (length ms) \<and> rs_next_send_order st = word_of_nat (length ms) \<and>
    (\<forall>mid. contents st mid =
      (if unat mid < length ms then Some [Single \<lparr>sd_id = Some mid, sd_bytes = ms ! unat mid\<rparr>] else None))"
  using assms
proof (induction ms rule: rev_induct)
  case Nil
  then show ?case
    by (simp add: reliable_send_state_new_def contents_def)
next
  case (snoc m ms)
  then obtain st where st: "buffer_all N Z s config priority ms (reliable_send_state_new N settings) = Some st"
    "rs_next_message_id st = wid_of (length ms)" "rs_next_send_order st = word_of_nat (length ms)"
    "\<And>mid. contents st mid = (if unat mid < length ms then Some [Single \<lparr>sd_id = Some mid, sd_bytes = ms ! unat mid\<rparr>] else None)"
    by auto
  obtain st' where st': "rs_buffer_send N Z \<lparr>fs_fragment_size = s\<rparr> m priority config st = Some (st', wid_of (length ms))"
    "rs_next_message_id st' = wid_of (Suc (length ms))" "rs_next_send_order st' = word_of_nat (Suc (length ms))"
    "contents st' = (contents st)(wid_of (length ms) \<mapsto> [Single \<lparr>sd_id = Some (wid_of (length ms)), sd_bytes = m\<rparr>])"
    using buffer_one [OF st(2,3), of m s N Z priority config] snoc.prems by auto
  have "unat (wid_of (length ms)) = length ms"
    using snoc.prems(1) by (simp add: unat_of_nat)
  then have "contents st' mid = (if unat mid < length (ms @ [m])
      then Some [Single \<lparr>sd_id = Some mid, sd_bytes = (ms @ [m]) ! unat mid\<rparr>] else None)" for mid
    using st(4) st'(4) by (auto simp: nth_append less_Suc_eq dest: arg_cong [of "unat _" _ wid_of])
  then show ?case
    using st(1) st' by (auto simp: buffer_all_append)
qed

text \<open>
  A reliable channel does not keep more messages than there are identifiers. After \<open>2^16\<close> messages
  that are not acknowledged, one more takes the identifier of the first one and replaces it: nothing
  fails, every identifier still has a pending message, and the first one is no longer offered for
  sending, so that it is lost.
\<close>

theorem reliable_sender_loses_message:
  assumes "length ms = 2 ^ 16" and "\<forall>m \<in> set ms. length m \<le> s" and "length m \<le> s"
  shows "\<exists>st. buffer_all N Z s config priority (ms @ [m]) (reliable_send_state_new N settings) = Some st \<and>
    contents st 0 = Some [Single \<lparr>sd_id = Some 0, sd_bytes = m\<rparr>] \<and>
    (\<forall>mid. mid \<noteq> 0 \<longrightarrow> contents st mid = Some [Single \<lparr>sd_id = Some mid, sd_bytes = ms ! unat mid\<rparr>])"
proof -
  obtain st where st: "buffer_all N Z s config priority ms (reliable_send_state_new N settings) = Some st"
    "rs_next_message_id st = wid_of (2 ^ 16)" "rs_next_send_order st = word_of_nat (2 ^ 16)"
    "\<And>mid. contents st mid = (if unat mid < 2 ^ 16 then Some [Single \<lparr>sd_id = Some mid, sd_bytes = ms ! unat mid\<rparr>] else None)"
    using buffer_all_contents [of ms s N Z config priority settings] assms by auto
  obtain st' where st': "rs_buffer_send N Z \<lparr>fs_fragment_size = s\<rparr> m priority config st = Some (st', wid_of (2 ^ 16))"
    "contents st' = (contents st)(wid_of (2 ^ 16) \<mapsto> [Single \<lparr>sd_id = Some (wid_of (2 ^ 16)), sd_bytes = m\<rparr>])"
    using buffer_one [OF st(2,3) _ assms(3), of N Z priority config] by auto
  have "unat mid < 2 ^ 16" for mid :: message_id
    using unsigned_less [of mid] by simp
  moreover have "wid_of (2 ^ 16) = 0"
    by (simp add: word_of_nat_eq_0_iff)
  ultimately show ?thesis
    using st(1,4) st' by (auto simp: buffer_all_append)
qed

theorem reliable_sender_loses_message_witness:
  "\<exists>st. buffer_all example_f32 rle_block 2 DISABLED 1 (replicate (2 ^ 16) [1] @ [[2]])
      (reliable_send_state_new example_f32 \<lparr>rtt_resend_factor = 2, rtt_resend_min_delay = 0\<rparr>) = Some st \<and>
    contents st 0 = Some [Single \<lparr>sd_id = Some 0, sd_bytes = [2]\<rparr>]"
  using reliable_sender_loses_message [of "replicate (2 ^ 16) [1]" 2 "[2]" example_f32 rle_block DISABLED 1
      "\<lparr>rtt_resend_factor = 2, rtt_resend_min_delay = 0\<rparr>"]
  by auto

section \<open>A flush of an unreliable channel\<close>

text \<open>
  The flags of the queued fragments: a fragment that went out marks every fragment of its message as
  started, and messages do not share an identifier.
\<close>

definition flag_ok :: "message_id set \<Rightarrow> 'f pending_send_message \<Rightarrow> bool" where
  "flag_ok started p \<longleftrightarrow> (\<exists>mid. fragment_message_id p = Some mid \<and> (psm_fragment_started p \<longleftrightarrow> mid \<in> started) \<and>
     (psm_committed p \<longrightarrow> mid \<in> started))"

definition flags_ok :: "'f pending_send_message list \<Rightarrow> bool" where
  "flags_ok ps \<longleftrightarrow> (\<exists>started. \<forall>p \<in> set ps. flag_ok started p)"

inductive unreliable_run :: "block_ops \<Rightarrow> compression_config \<Rightarrow> 'f unreliable_send_state \<Rightarrow> bool"
  for Z config
where
  unreliable_new: "unreliable_run Z config (unreliable_send_state_new delivery retry)"
| unreliable_update: "unreliable_run Z config st \<Longrightarrow> unreliable_run Z config (us_update elapsed st)"
| unreliable_buffer: "unreliable_run Z config st \<Longrightarrow>
    (\<forall>p \<in> set (us_fragments st). fragment_message_id p \<noteq> Some (us_next_message_id st)) \<Longrightarrow>
    us_buffer_send Z fragmenter message priority config st = Some (st', mid) \<Longrightarrow> unreliable_run Z config st'"
| unreliable_commit: "unreliable_run Z config st \<Longrightarrow> us_commit_send key st = Some st' \<Longrightarrow> unreliable_run Z config st'"
| unreliable_finish: "unreliable_run Z config st \<Longrightarrow> unreliable_run Z config (us_finish_send outcome was_ready st)"
| unreliable_ack: "unreliable_run Z config st \<Longrightarrow> us_receive_ack ack st = Some (st', finished) \<Longrightarrow>
    unreliable_run Z config st'"
| unreliable_nack: "unreliable_run Z config st \<Longrightarrow> unreliable_run Z config (us_receive_nack nack st)"

lemma flags_ok_filter: "flags_ok ps \<Longrightarrow> flags_ok (filter P ps)"
  by (auto simp: flags_ok_def)

lemma build_for_message_ids:
  assumes "build_fragments_for_message Z mid message config s = Some frags" and "f \<in> set frags"
  shows "fd_message_id f = mid"
  using assms
  by (auto simp: build_fragments_for_message_def build_fragments_def build_fragments_with_compression_def Let_def
      split: if_splits sum.splits option.splits payload_compression_candidate.splits)

lemma flags_ok_append:
  assumes "flags_ok ps" and "\<forall>p \<in> set ps. fragment_message_id p \<noteq> Some mid"
    and "\<forall>q \<in> set qs. fragment_message_id q = Some mid \<and> \<not> psm_committed q \<and> \<not> psm_fragment_started q"
  shows "flags_ok (ps @ qs)"
proof -
  obtain S where "\<forall>p \<in> set ps. flag_ok S p"
    using assms(1) by (auto simp: flags_ok_def)
  then have "\<forall>p \<in> set (ps @ qs). flag_ok (S - {mid}) p"
    using assms(2,3) by (fastforce simp: flag_ok_def)
  then show ?thesis
    unfolding flags_ok_def by blast
qed

lemma flags_ok_buffer:
  assumes "flags_ok (us_fragments st)" and "\<forall>p \<in> set (us_fragments st). fragment_message_id p \<noteq> Some (us_next_message_id st)"
    and "us_buffer_send Z fragmenter message priority config st = Some (st', mid)"
  shows "flags_ok (us_fragments st')"
proof (cases "length message > fs_fragment_size fragmenter")
  case True
  then obtain frags where frags: "build_fragments_for_message Z (us_next_message_id st) message config fragmenter = Some frags"
    using assms(3) by (auto simp: us_buffer_send_def Let_def)
  then have "us_fragments st' = us_fragments st @
      map (\<lambda>f. pending_send_message_new \<lparr>sm_data = Fragment f, sm_priority = priority\<rparr>) frags"
    using assms(3) True by (auto simp: us_buffer_send_def Let_def)
  then show ?thesis
    using flags_ok_append [OF assms(1,2)] build_for_message_ids [OF frags]
    by (auto simp: pending_send_message_new_def fragment_message_id_def)
next
  case False
  then have "us_fragments st' = us_fragments st"
    using assms(3) by (auto simp: us_buffer_send_def Let_def split: if_splits)
  then show ?thesis
    using assms(1) by simp
qed

lemma flags_ok_commit:
  assumes "flags_ok (us_fragments st)" and "us_commit_send key st = Some st'"
  shows "flags_ok (us_fragments st')"
proof (cases "\<exists>index. key = UnreliableFragment index \<and> index < length (us_fragments st)")
  case True
  then obtain index where index: "key = UnreliableFragment index" "index < length (us_fragments st)"
    by blast
  let ?p = "us_fragments st ! index"
  obtain S where S: "\<And>p. p \<in> set (us_fragments st) \<Longrightarrow> flag_ok S p"
    using assms(1) by (auto simp: flags_ok_def)
  obtain mid where mid: "fragment_message_id ?p = Some mid"
    using S [of ?p] index(2) by (auto simp: flag_ok_def)
  let ?fs = "(us_fragments st)[index := ?p\<lparr>psm_committed := True\<rparr>]"
  have id: "fragment_message_id (p\<lparr>psm_committed := b\<rparr>) = fragment_message_id p"
    "fragment_message_id (p\<lparr>psm_fragment_started := b\<rparr>) = fragment_message_id p" for p :: "'a pending_send_message" and b
    by (simp_all add: fragment_message_id_def)
  have upd: "q = ?p\<lparr>psm_committed := True\<rparr> \<or> q \<in> set (us_fragments st)" if "q \<in> set ?fs" for q
    using that set_update_subset_insert [of "us_fragments st" index] by blast
  have p: "flag_ok S ?p"
    using S index(2) by simp
  show ?thesis
  proof (cases "psm_fragment_started ?p")
    case started: True
    then have "us_fragments st' = ?fs"
      using assms(2) index mid by (auto simp: us_commit_send_def Let_def)
    moreover have "flag_ok S q" if "q \<in> set ?fs" for q
      using upd [OF that] S p started by (auto simp: flag_ok_def id)
    ultimately show ?thesis
      unfolding flags_ok_def by auto
  next
    case fresh: False
    then have "us_fragments st' = map (\<lambda>q. if fragment_message_id q = Some mid then q\<lparr>psm_fragment_started := True\<rparr> else q) ?fs"
      using assms(2) index mid by (auto simp: us_commit_send_def Let_def)
    moreover have "flag_ok (insert mid S) (if fragment_message_id q = Some mid then q\<lparr>psm_fragment_started := True\<rparr> else q)"
      if "q \<in> set ?fs" for q
      using upd [OF that] S mid by (fastforce simp: flag_ok_def id)
    ultimately have "\<forall>q \<in> set (us_fragments st'). flag_ok (insert mid S) q"
      by (auto simp only: set_map)
    then show ?thesis
      unfolding flags_ok_def by blast
  qed
next
  case False
  then have "us_fragments st' = us_fragments st"
    using assms(2) by (auto simp: us_commit_send_def split: send_message_key.splits if_splits)
  then show ?thesis
    using assms(1) by simp
qed

lemma unreliable_run_flags: "unreliable_run Z config st \<Longrightarrow> flags_ok (us_fragments st)"
proof (induction rule: unreliable_run.induct)
  case (unreliable_ack st ack st' finished)
  then have "us_fragments st' = us_fragments st"
    by (auto simp: us_receive_ack_def split: option.splits)
  with unreliable_ack show ?case by simp
qed (auto simp: unreliable_send_state_new_def us_update_def us_receive_nack_def us_finish_send_def Let_def flags_ok_def [of "[]"]
    intro: flags_ok_filter flags_ok_buffer flags_ok_commit)

text \<open>
  C27: a flush never truncates a fragmented message. In every state that a sequence of operations of an
  unreliable channel reaches, the end of a flush keeps, for each message, either all fragments of it that
  were not sent, or none of them; it drops them exactly if the bandwidth ran out, the channel was due,
  does not retry, and no queued fragment of the message is marked as started, which all of them are once
  one of them is sent.
\<close>

theorem flush_never_truncates:
  assumes "unreliable_run Z config st"
  shows "filter (\<lambda>p. fragment_message_id p = Some mid) (us_fragments (us_finish_send outcome was_ready st)) =
    (if was_ready \<and> \<not> us_retry_unsent_messages st \<and> outcome = BandwidthLimited \<and>
        \<not> (\<exists>p \<in> set (us_fragments st). fragment_message_id p = Some mid \<and> psm_fragment_started p)
     then [] else filter (\<lambda>p. \<not> psm_committed p \<and> fragment_message_id p = Some mid) (us_fragments st)) \<and>
    (\<forall>p \<in> set (us_fragments st). psm_committed p \<and> fragment_message_id p = Some mid \<longrightarrow>
       (\<forall>q \<in> set (us_fragments st). fragment_message_id q = Some mid \<longrightarrow> psm_fragment_started q))"
proof -
  obtain S where S: "\<And>p. p \<in> set (us_fragments st) \<Longrightarrow> flag_ok S p"
    using unreliable_run_flags [OF assms] by (auto simp: flags_ok_def)
  then have started: "psm_fragment_started p \<longleftrightarrow> mid \<in> S" "psm_committed p \<Longrightarrow> mid \<in> S"
    if "p \<in> set (us_fragments st)" "fragment_message_id p = Some mid" for p
    using that by (fastforce simp: flag_ok_def)+
  then have "filter (\<lambda>p. (\<not> psm_committed p \<and> psm_fragment_started p) \<and> fragment_message_id p = Some mid) (us_fragments st) =
      (if \<exists>p \<in> set (us_fragments st). fragment_message_id p = Some mid \<and> psm_fragment_started p
       then filter (\<lambda>p. \<not> psm_committed p \<and> fragment_message_id p = Some mid) (us_fragments st) else [])"
    by (auto simp: filter_empty_conv intro!: filter_cong)
  then have "filter (\<lambda>p. fragment_message_id p = Some mid) (us_fragments (us_finish_send outcome was_ready st)) =
      (if was_ready \<and> \<not> us_retry_unsent_messages st \<and> outcome = BandwidthLimited \<and>
        \<not> (\<exists>p \<in> set (us_fragments st). fragment_message_id p = Some mid \<and> psm_fragment_started p)
       then [] else filter (\<lambda>p. \<not> psm_committed p \<and> fragment_message_id p = Some mid) (us_fragments st))"
    by (simp add: us_finish_send_def Let_def) blast
  then show ?thesis
    using started by blast
qed

definition example_flush :: "nat unreliable_send_state" where
  "example_flush = the (us_commit_send (UnreliableFragment 0)
     (fst (the (us_buffer_send rle_block \<lparr>fs_fragment_size = 2\<rparr> [1, 2, 3] 1 DISABLED (unreliable_send_state_new Unordered False)))))"

lemma example_flush_run:
  "unreliable_run rle_block DISABLED example_flush"
  "us_fragments example_flush =
     [\<lparr>psm_message = \<lparr>sm_data = Fragment \<lparr>fd_message_id = 0, fd_fragment_id = 0, fd_num_fragments = 2,
         fd_compression = Some NoCompression, fd_bytes = [1, 2]\<rparr>, sm_priority = 1\<rparr>, psm_committed = True, psm_fragment_started = True\<rparr>,
      \<lparr>psm_message = \<lparr>sm_data = Fragment \<lparr>fd_message_id = 0, fd_fragment_id = 1, fd_num_fragments = 2,
         fd_compression = None, fd_bytes = [3]\<rparr>, sm_priority = 1\<rparr>, psm_committed = False, psm_fragment_started = True\<rparr>]"
  "\<not> us_retry_unsent_messages example_flush"
proof -
  let ?new = "unreliable_send_state_new Unordered False :: nat unreliable_send_state"
  let ?buffered = "us_buffer_send rle_block \<lparr>fs_fragment_size = 2\<rparr> [1, 2, 3] 1 DISABLED ?new"
  have frags: "build_fragments_for_message rle_block 0 [1, 2, 3] DISABLED \<lparr>fs_fragment_size = 2\<rparr> =
     Some [\<lparr>fd_message_id = 0, fd_fragment_id = 0, fd_num_fragments = 2, fd_compression = Some NoCompression, fd_bytes = [1, 2]\<rparr>,
       \<lparr>fd_message_id = 0, fd_fragment_id = 1, fd_num_fragments = 2, fd_compression = None, fd_bytes = [3]\<rparr>]"
    by (simp add: build_fragments_for_message_def compress_fragment_def DISABLED_def fragment_compression_of_def
        build_fragments_def build_fragments_with_compression_def chunks.simps numeral_2_eq_2 Let_def)
  then obtain st mid where st: "?buffered = Some (st, mid)"
    by (auto simp: us_buffer_send_def Let_def unreliable_send_state_new_def)
  have run: "unreliable_run rle_block DISABLED st"
    by (rule unreliable_buffer [OF unreliable_new _ st]) (simp add: unreliable_send_state_new_def)
  obtain st' where st': "us_commit_send (UnreliableFragment 0) st = Some st'"
    using st frags by (auto simp: us_buffer_send_def Let_def unreliable_send_state_new_def us_commit_send_def
        pending_send_message_new_def fragment_message_id_def)
  have ex: "example_flush = st'"
    unfolding example_flush_def st using st' by simp
  show "unreliable_run rle_block DISABLED example_flush"
    unfolding ex by (rule unreliable_commit [OF run st'])
  show "us_fragments example_flush =
     [\<lparr>psm_message = \<lparr>sm_data = Fragment \<lparr>fd_message_id = 0, fd_fragment_id = 0, fd_num_fragments = 2,
         fd_compression = Some NoCompression, fd_bytes = [1, 2]\<rparr>, sm_priority = 1\<rparr>, psm_committed = True, psm_fragment_started = True\<rparr>,
      \<lparr>psm_message = \<lparr>sm_data = Fragment \<lparr>fd_message_id = 0, fd_fragment_id = 1, fd_num_fragments = 2,
         fd_compression = None, fd_bytes = [3]\<rparr>, sm_priority = 1\<rparr>, psm_committed = False, psm_fragment_started = True\<rparr>]"
    and "\<not> us_retry_unsent_messages example_flush"
    using frags by (auto simp: example_flush_def us_buffer_send_def Let_def unreliable_send_state_new_def us_commit_send_def
        pending_send_message_new_def fragment_message_id_def)
qed

theorem flush_never_truncates_witness:
  "filter (\<lambda>p. fragment_message_id p = Some 0) (us_fragments (us_finish_send BandwidthLimited True example_flush)) =
     [\<lparr>psm_message = \<lparr>sm_data = Fragment \<lparr>fd_message_id = 0, fd_fragment_id = 1, fd_num_fragments = 2,
         fd_compression = None, fd_bytes = [3]\<rparr>, sm_priority = 1\<rparr>, psm_committed = False, psm_fragment_started = True\<rparr>]"
  using flush_never_truncates [OF example_flush_run(1), of 0 BandwidthLimited True]
  by (simp add: example_flush_run(2,3) fragment_message_id_def)

end
