(* ===== verification/Packet_Builder.thy ===== *)
theory Packet_Builder
  imports Channel_Send "HOL-Library.Product_Lexorder"
begin

text \<open>
  From the candidates of the channels to packets: the order in which they are packed and the
  bandwidth limit (\<open>crates/transport/transport/src/packet/priority_manager.rs\<close>), and the packet
  builder (\<open>packet/packet_builder.rs\<close>, \<open>packet/packet.rs\<close>). The rate limiter of the governor crate is a
  parameter. The pools of reusable buffers save allocations only and are left out. A panic is the
  error \<open>ChannelReceiveError RecvPanicked\<close>, or \<open>None\<close>.
\<close>

section \<open>The order of candidates\<close>

text \<open>
  The governor crate: a quota of bytes per second, a limiter, and its check, which is \<open>None\<close> when the
  quota can never hold the amount and otherwise tells whether it fits now.
\<close>

record ('q, 'l) governor_ops =
  gv_per_second :: "u32 \<Rightarrow> 'q"
  gv_allow_burst :: "u32 \<Rightarrow> 'q \<Rightarrow> 'q"
  gv_direct :: "'q \<Rightarrow> 'l"
  gv_check_n :: "u32 \<Rightarrow> 'l \<Rightarrow> 'l \<times> bool option"

record 'q priority_config =
  pc_bandwidth_quota :: 'q
  pc_enabled :: bool

definition priority_config_default :: "('q, 'l) governor_ops \<Rightarrow> 'q priority_config" where
  "priority_config_default G = \<lparr>pc_bandwidth_quota = gv_per_second G 56000, pc_enabled = False\<rparr>"

text \<open>\<open>None\<close> is the panic of a quota of zero, here and in \<open>with_burst_size\<close>.\<close>

definition priority_config_new :: "('q, 'l) governor_ops \<Rightarrow> u32 \<Rightarrow> 'q priority_config option" where
  "priority_config_new G bytes_per_second_quota =
     (if bytes_per_second_quota = 0 then None
      else Some \<lparr>pc_bandwidth_quota = gv_allow_burst G bytes_per_second_quota (gv_per_second G bytes_per_second_quota),
                 pc_enabled = True\<rparr>)"

definition with_burst_size :: "('q, 'l) governor_ops \<Rightarrow> u32 \<Rightarrow> 'q priority_config \<Rightarrow> 'q priority_config option" where
  "with_burst_size G burst_size c =
     (if burst_size = 0 then None
      else Some (c\<lparr>pc_bandwidth_quota := gv_allow_burst G burst_size (pc_bandwidth_quota c)\<rparr>))"

definition then_with :: "ordering option \<Rightarrow> ordering option \<Rightarrow> ordering option" where
  "then_with a b = (case a of Some Equal \<Rightarrow> b | _ \<Rightarrow> a)"

definition cmp :: "'a :: linorder \<Rightarrow> 'a \<Rightarrow> ordering" where
  "cmp a b = (if a < b then Less else if a = b then Equal else Greater)"

text \<open>\<open>None\<close> is the panic of \<open>bytes_len\<close> on a message whose length has no variable-length encoding.\<close>

definition packing_order :: "('c, 'f) send_candidate \<Rightarrow> ('c, 'f) send_candidate \<Rightarrow> ordering option" where
  "packing_order a b =
     then_with (then_with
       (case (sm_data (sc_message a), sm_data (sc_message b)) of
          (Fragment _, Single _) \<Rightarrow> Some Less
        | (Single _, Fragment _) \<Rightarrow> Some Greater
        | (Single a_message, Single b_message) \<Rightarrow>
            do { a_len \<leftarrow> single_data_bytes_len a_message;
                 b_len \<leftarrow> single_data_bytes_len b_message;
                 then_with (Some (cmp a_len b_len)) (Some (cmp (sc_send_order a) (sc_send_order b))) }
        | (Fragment _, Fragment _) \<Rightarrow> Some (cmp (sc_send_order a) (sc_send_order b)))
       (Some (cmp (sc_channel_id a) (sc_channel_id b))))
       (Some (cmp (packing_tiebreaker (sc_key a)) (packing_tiebreaker (sc_key b))))"

text \<open>
  \<open>sort_unstable_by\<close> of the standard library: a permutation sorted by the comparison. Elements that
  compare equal may come in any order; here they keep theirs. The comparison of some pair may
  panic, and then sorting a list that holds it does.
\<close>

fun insert_by :: "('a \<Rightarrow> 'a \<Rightarrow> ordering option) \<Rightarrow> 'a \<Rightarrow> 'a list \<Rightarrow> 'a list option" where
  "insert_by c x [] = Some [x]"
| "insert_by c x (y # ys) =
     (case c x y of
        None \<Rightarrow> None
      | Some Greater \<Rightarrow> map_option ((#) y) (insert_by c x ys)
      | Some _ \<Rightarrow> Some (x # y # ys))"

fun sort_by :: "('a \<Rightarrow> 'a \<Rightarrow> ordering option) \<Rightarrow> 'a list \<Rightarrow> 'a list option" where
  "sort_by c [] = Some []"
| "sort_by c (x # xs) = Option.bind (sort_by c xs) (insert_by c x)"

definition prioritize ::
  "'f f32_ops \<Rightarrow> (channel_id \<Rightarrow> 'f channel_settings option) \<Rightarrow> bool \<Rightarrow> ('c, 'f) send_candidate list \<Rightarrow>
   ('c, 'f) send_candidate list option" where
  "prioritize N settings_from_net_id enabled candidates =
     (if \<not> enabled
      then sort_by packing_order (map (\<lambda>candidate. candidate\<lparr>sc_effective_priority := f32_zero N\<rparr>) candidates)
      else
        Option.bind (those (map (\<lambda>candidate. map_option (\<lambda>settings.
            candidate\<lparr>sc_effective_priority := f32_mul N (sm_priority (sc_message candidate)) (cs_priority settings)\<rparr>)
            (settings_from_net_id (sc_channel_id candidate))) candidates))
          (sort_by (\<lambda>a b. then_with
             (Some (cmp (f32_total_key N (sc_effective_priority b)) (f32_total_key N (sc_effective_priority a))))
             (packing_order a b))))"

record 'l bandwidth_limiter =
  bl_enabled :: bool
  bl_limiter :: 'l

definition bandwidth_limiter_new :: "('q, 'l) governor_ops \<Rightarrow> 'q priority_config \<Rightarrow> 'l bandwidth_limiter" where
  "bandwidth_limiter_new G config = \<lparr>bl_enabled = pc_enabled config, bl_limiter = gv_direct G (pc_bandwidth_quota config)\<rparr>"

definition consume_packet_quota ::
  "('q, 'l) governor_ops \<Rightarrow> nat \<Rightarrow> 'l bandwidth_limiter \<Rightarrow> ('l bandwidth_limiter \<times> bool) option" where
  "consume_packet_quota G packet_bytes b =
     (if \<not> bl_enabled b then Some (b, True)
      else if packet_bytes \<ge> 2 ^ 32 then Some (b, False)
      else if packet_bytes = 0 then None
      else
        (let (limiter, result) = gv_check_n G (word_of_nat packet_bytes) (bl_limiter b);
             b = b\<lparr>bl_limiter := limiter\<rparr>
         in case result of None \<Rightarrow> Some (b, False) | Some fits \<Rightarrow> Some (b, fits)))"

section \<open>Packets\<close>

record 'c send_commit =
  cm_channel_kind :: 'c
  cm_key :: send_message_key

record 'c message_metadata =
  mm_channel :: channel_id
  mm_message :: "message_id option"
  mm_fragment_index :: "fragment_index option"
  mm_commit :: "'c send_commit"

record 'c packet =
  pk_payload :: bytes
  pk_messages :: "'c message_metadata list"
  pk_packet_id :: packet_id
  pk_compression :: "packet_compression_info option"

definition num_messages :: "'c packet \<Rightarrow> nat" where
  "num_messages p = length (pk_messages p)"

definition record_message_metadata ::
  "channel_id \<Rightarrow> message_id option \<Rightarrow> fragment_index option \<Rightarrow> 'c send_commit \<Rightarrow> 'c packet \<Rightarrow> 'c packet" where
  "record_message_metadata channel message fragment_index commit p =
     p\<lparr>pk_messages := pk_messages p @ [\<lparr>mm_channel = channel, mm_message = message,
         mm_fragment_index = fragment_index, mm_commit = commit\<rparr>]\<rparr>"

record candidate_cursor =
  cu_index :: nat
  cu_single_index :: nat

record single_batch_state =
  sb_channel_id :: channel_id
  sb_count_offset :: nat
  sb_count :: u8

definition MAX_MESSAGES_PER_CHANNEL_BATCH :: u8 where
  "MAX_MESSAGES_PER_CHANNEL_BATCH = 255"

definition new_staged_packet ::
  "(bool, 'b) ring_ops \<Rightarrow> packet_type \<Rightarrow> tick \<Rightarrow> ('f, 'b, 'm) packet_header_manager \<Rightarrow> packet_error + 'c packet" where
  "new_staged_packet R packet_type current_tick hm =
     (let header = preview_send_packet_header R packet_type current_tick hm in
      and_then (lift_serde (header_to_bytes header [])) (\<lambda>payload.
      Inr \<lparr>pk_payload = payload, pk_messages = [], pk_packet_id = hd_packet_id header, pk_compression = None\<rparr>))"

definition build_ack_only_packet ::
  "(bool, 'b) ring_ops \<Rightarrow> tick \<Rightarrow> nat \<Rightarrow> ('f, 'b, 'm) packet_header_manager \<Rightarrow> packet_error + 'c packet" where
  "build_ack_only_packet R current_tick mtu hm =
     (if mtu < HEADER_BYTES then Inl (PacketTooLarge HEADER_BYTES mtu)
      else new_staged_packet R AckOnly current_tick hm)"

text \<open>A byte of the payload is overwritten in place; the index must be in range.\<close>

definition set_byte :: "nat \<Rightarrow> u8 \<Rightarrow> bytes \<Rightarrow> packet_error + bytes" where
  "set_byte i b payload = (if i < length payload then Inr (payload[i := b]) else Inl (ChannelReceiveError RecvPanicked))"

text \<open>The batch a single joins or starts: the payload up to the message and the new batch.\<close>

definition open_batch ::
  "channel_id \<Rightarrow> single_batch_state option \<Rightarrow> bytes \<Rightarrow> packet_error + (bytes \<times> single_batch_state)" where
  "open_batch channel_id batch payload =
     (let start =
        and_then (lift_serde (u16_to_bytes channel_id payload)) (\<lambda>payload.
        let count_offset = length payload in
        and_then (lift_serde (u8_to_bytes 1 payload)) (\<lambda>payload.
        Inr (payload, \<lparr>sb_channel_id = channel_id, sb_count_offset = count_offset, sb_count = 1\<rparr>)))
      in case batch of
           Some state \<Rightarrow>
             if sb_channel_id state = channel_id \<and> sb_count state < MAX_MESSAGES_PER_CHANNEL_BATCH
             then
               (let state = state\<lparr>sb_count := sb_count state + 1\<rparr> in
                and_then (set_byte (sb_count_offset state) (sb_count state) payload) (\<lambda>payload. Inr (payload, state)))
             else start
         | None \<Rightarrow> start)"

definition try_append_single_candidate ::
  "block_ops \<Rightarrow> 'c packet \<Rightarrow> ('c, 'f) send_candidate \<Rightarrow> single_batch_state option \<Rightarrow> compression_config \<Rightarrow> nat \<Rightarrow>
   packet_error + (bool \<times> 'c packet \<times> single_batch_state option)" where
  "try_append_single_candidate Z packet candidate batch compression mtu =
     (case sm_data (sc_message candidate) of
        Fragment _ \<Rightarrow> Inr (False, packet, batch)
      | Single message \<Rightarrow>
          (let payload_len = length (pk_payload packet);
               metadata_len = length (pk_messages packet);
               previous_batch = batch
           in
           and_then (open_batch (sc_channel_id candidate) batch (pk_payload packet)) (\<lambda>(payload, state).
           and_then (lift_serde (single_data_to_bytes message payload)) (\<lambda>payload.
           let packet = record_message_metadata (sc_channel_id candidate) (sd_id message) None
                 \<lparr>cm_channel_kind = sc_channel_kind candidate, cm_key = sc_key candidate\<rparr> (packet\<lparr>pk_payload := payload\<rparr>)
           in
           and_then
             (if length (pk_payload packet) \<le> mtu then Inr True
              else if compression_is_enabled compression
              then and_then (evaluate_packet_compression Z (pk_payload packet) compression mtu) (\<lambda>(outcome, _).
                     Inr (case outcome of Outcome_Compressed _ _ \<Rightarrow> True | _ \<Rightarrow> False))
              else Inr False) (\<lambda>fits.
           if fits then Inr (True, packet, Some state)
           else
             and_then
               (case previous_batch of
                  Some previous \<Rightarrow> set_byte (sb_count_offset previous) (sb_count previous) (pk_payload packet)
                | None \<Rightarrow> Inr (pk_payload packet)) (\<lambda>payload.
             Inr (False, packet\<lparr>pk_payload := take payload_len payload, pk_messages := take metadata_len (pk_messages packet)\<rparr>,
                  previous_batch)))))))"

definition finish_compression_aware_packet ::
  "block_ops \<Rightarrow> 'c packet \<Rightarrow> compression_config \<Rightarrow> nat \<Rightarrow> packet_error + 'c packet" where
  "finish_compression_aware_packet Z packet compression mtu =
     (let uncompressed_len = length (pk_payload packet) in
      and_then (compress_packet Z (pk_payload packet, pk_compression packet) compression mtu)
        (\<lambda>(outcome, payload, info).
      let packet = packet\<lparr>pk_payload := payload, pk_compression := info\<rparr> in
      case outcome of
        Outcome_Compressed _ _ \<Rightarrow> Inr packet
      | _ \<Rightarrow> if uncompressed_len > mtu then Inl (PacketTooLarge uncompressed_len mtu) else Inr packet))"

definition is_single :: "('c, 'f) send_candidate \<Rightarrow> bool" where
  "is_single candidate = (case sm_data (sc_message candidate) of Single _ \<Rightarrow> True | Fragment _ \<Rightarrow> False)"

text \<open>
  The singles that earlier packets took out of order. When a loop fails, the position it had reached
  is lost with the packet: the caller does not use the cursor again after an error.
\<close>

function skip_taken :: "('c, 'f) send_candidate list \<Rightarrow> nat \<Rightarrow> nat \<Rightarrow> nat" where
  "skip_taken candidates index single_index =
     (if index < single_index \<and> index < length candidates \<and> is_single (candidates ! index)
      then skip_taken candidates (index + 1) single_index
      else index)"
  by auto
termination
  by (relation "measure (\<lambda>(_, index, single_index). single_index - index)") auto

declare skip_taken.simps [simp del]

text \<open>The tail of the packet of a last fragment: the remaining singles of the same priority.\<close>

function append_tail ::
  "'f f32_ops \<Rightarrow> block_ops \<Rightarrow> 'f \<Rightarrow> nat \<Rightarrow> ('c, 'f) send_candidate list \<Rightarrow> 'c packet \<Rightarrow> single_batch_state option \<Rightarrow> nat \<Rightarrow>
   packet_error + ('c packet \<times> nat)" where
  "append_tail N Z effective_priority mtu candidates packet batch single_index =
     (if single_index < length candidates then
        (let candidate = candidates ! single_index in
         if f32_total_key N (sc_effective_priority candidate) \<noteq> f32_total_key N effective_priority
         then Inr (packet, single_index)
         else if \<not> is_single candidate
         then append_tail N Z effective_priority mtu candidates packet batch (single_index + 1)
         else
           (case try_append_single_candidate Z packet candidate batch DISABLED mtu of
              Inl e \<Rightarrow> Inl e
            | Inr (False, packet, batch) \<Rightarrow> Inr (packet, single_index)
            | Inr (True, packet, batch) \<Rightarrow>
                append_tail N Z effective_priority mtu candidates packet batch (single_index + 1)))
      else Inr (packet, single_index))"
  by pat_completeness auto
termination
  by (relation "measure (\<lambda>(N, Z, p, mtu, candidates, packet, batch, i). length candidates - i)") auto

declare append_tail.simps [simp del]

text \<open>A packet of singles.\<close>

function append_singles ::
  "block_ops \<Rightarrow> compression_config \<Rightarrow> nat \<Rightarrow> ('c, 'f) send_candidate list \<Rightarrow> 'c packet \<Rightarrow> single_batch_state option \<Rightarrow> nat \<Rightarrow>
   packet_error + ('c packet \<times> nat)" where
  "append_singles Z compression mtu candidates packet batch index =
     (if index < length candidates \<and> is_single (candidates ! index) then
        (case try_append_single_candidate Z packet (candidates ! index) batch compression mtu of
           Inl e \<Rightarrow> Inl e
         | Inr (False, packet, batch) \<Rightarrow> Inr (packet, index)
         | Inr (True, packet, batch) \<Rightarrow> append_singles Z compression mtu candidates packet batch (index + 1))
      else Inr (packet, index))"
  by pat_completeness auto
termination
  by (relation "measure (\<lambda>(Z, c, mtu, candidates, packet, batch, i). length candidates - i)") auto

declare append_singles.simps [simp del]

definition build_next_packet ::
  "'f f32_ops \<Rightarrow> block_ops \<Rightarrow> (bool, 'b) ring_ops \<Rightarrow> tick \<Rightarrow> ('c, 'f) send_candidate list \<Rightarrow> candidate_cursor \<Rightarrow>
   compression_config \<Rightarrow> nat \<Rightarrow> ('g, 'b, 'm) packet_header_manager \<Rightarrow>
   candidate_cursor \<times> (packet_error + 'c packet option)" where
  "build_next_packet N Z R current_tick candidates cursor compression mtu hm =
     (let cursor = cursor\<lparr>cu_index := skip_taken candidates (cu_index cursor) (cu_single_index cursor)\<rparr> in
      if cu_index cursor \<ge> length candidates then (cursor, Inr None)
      else
        (let first = candidates ! cu_index cursor in
         case sm_data (sc_message first) of
           Fragment fragment \<Rightarrow>
             (case and_then (new_staged_packet R DataFragment current_tick hm) (\<lambda>packet.
                   and_then (lift_serde (u16_to_bytes (sc_channel_id first) (pk_payload packet))) (\<lambda>payload.
                   and_then (lift_serde (fragment_data_to_bytes fragment payload)) (\<lambda>payload.
                   Inr (record_message_metadata (sc_channel_id first) (Some (fd_message_id fragment))
                          (Some (fd_fragment_id fragment))
                          \<lparr>cm_channel_kind = sc_channel_kind first, cm_key = sc_key first\<rparr> (packet\<lparr>pk_payload := payload\<rparr>))))) of
                Inl e \<Rightarrow> (cursor, Inl e)
              | Inr packet \<Rightarrow>
                  (let cursor = cursor\<lparr>cu_index := cu_index cursor + 1\<rparr> in
                   if is_last_fragment fragment then
                     (let cursor = cursor\<lparr>cu_single_index := max (cu_single_index cursor) (cu_index cursor)\<rparr> in
                      case append_tail N Z (sc_effective_priority first) mtu candidates packet None (cu_single_index cursor) of
                        Inl e \<Rightarrow> (cursor, Inl e)
                      | Inr (packet, single_index) \<Rightarrow>
                          (cursor\<lparr>cu_single_index := single_index\<rparr>,
                           if length (pk_payload packet) > mtu then Inl (PacketTooLarge (length (pk_payload packet)) mtu)
                           else Inr (Some packet)))
                   else
                     (cursor, if length (pk_payload packet) > mtu then Inl (PacketTooLarge (length (pk_payload packet)) mtu)
                              else Inr (Some packet))))
         | Single _ \<Rightarrow>
             (case and_then (new_staged_packet R Data current_tick hm) (\<lambda>packet.
                   append_singles Z compression mtu candidates packet None (cu_index cursor)) of
                Inl e \<Rightarrow> (cursor, Inl e)
              | Inr (packet, index) \<Rightarrow>
                  (let cursor = cursor\<lparr>cu_index := index, cu_single_index := max (cu_single_index cursor) index\<rparr> in
                   (cursor,
                    if pk_messages packet = [] then
                      (if index < length candidates then
                         (case (u16_bytes_len (sc_channel_id (candidates ! index)),
                                message_data_bytes_len (sm_data (sc_message (candidates ! index)))) of
                            (Some a, Some b) \<Rightarrow> Inl (PacketTooLarge (HEADER_BYTES + a + 1 + b) mtu)
                          | _ \<Rightarrow> Inl (ChannelReceiveError RecvPanicked))
                       else Inl (ChannelReceiveError RecvPanicked))
                    else
                      and_then (finish_compression_aware_packet Z packet compression mtu) (\<lambda>packet. Inr (Some packet)))))))"

section \<open>The layout of a packet\<close>

text \<open>
  After its header, and the fragment of a fragment packet, a packet is a list of batches: a channel and
  between one and 255 messages on it.
\<close>

type_synonym batch = "channel_id \<times> single_data list"

definition chan_enc :: "channel_id \<Rightarrow> bytes" where
  "chan_enc c = varint_bytes (ucast c)"

definition batch_enc :: "batch \<Rightarrow> bytes" where
  "batch_enc b = chan_enc (fst b) @ [word_of_nat (length (snd b))] @ concat (map single_data_enc (snd b))"

definition batches_enc :: "batch list \<Rightarrow> bytes" where
  "batches_enc bs = concat (map batch_enc bs)"

definition batch_ok :: "batch \<Rightarrow> bool" where
  "batch_ok b \<longleftrightarrow> 0 < length (snd b) \<and> length (snd b) \<le> 255 \<and> (\<forall>m \<in> set (snd b). count_ok (length (sd_bytes m)))"

definition batch_messages :: "batch list \<Rightarrow> (channel_id \<times> single_data) list" where
  "batch_messages bs = concat (map (\<lambda>(c, ms). map (Pair c) ms) bs)"

text \<open>A packet under construction holds batches after a prefix, and the builder knows the last one.\<close>

definition batch_state :: "bytes \<Rightarrow> batch list \<Rightarrow> single_batch_state option \<Rightarrow> bool" where
  "batch_state pre bs batch \<longleftrightarrow> (\<forall>b \<in> set bs. batch_ok b) \<and>
     (case batch of
        None \<Rightarrow> bs = []
      | Some st \<Rightarrow> bs \<noteq> [] \<and> sb_channel_id st = fst (last bs) \<and> unat (sb_count st) = length (snd (last bs)) \<and>
          sb_count_offset st = length (pre @ batches_enc (butlast bs) @ chan_enc (fst (last bs))))"

definition add_single :: "channel_id \<Rightarrow> single_data \<Rightarrow> batch list \<Rightarrow> batch list" where
  "add_single c m bs =
     (if bs \<noteq> [] \<and> fst (last bs) = c \<and> length (snd (last bs)) < 255
      then butlast bs @ [(c, snd (last bs) @ [m])] else bs @ [(c, [m])])"

lemma batches_enc_simps [simp]:
  "batches_enc [] = []" "batches_enc (bs @ bs') = batches_enc bs @ batches_enc bs'" "batches_enc [b] = batch_enc b"
  by (simp_all add: batches_enc_def)

lemma batches_enc_nonempty: "bs \<noteq> [] \<Longrightarrow> batches_enc bs \<noteq> []"
  by (cases bs) (simp_all add: batches_enc_def batch_enc_def)

lemma batch_messages_simps [simp]:
  "batch_messages [] = []" "batch_messages (bs @ bs') = batch_messages bs @ batch_messages bs'"
  "batch_messages [(c, ms)] = map (Pair c) ms"
  by (simp_all add: batch_messages_def)

lemma add_single_messages: "batch_messages (add_single c m bs) = batch_messages bs @ [(c, m)]"
proof (cases "bs \<noteq> [] \<and> fst (last bs) = c \<and> length (snd (last bs)) < 255")
  case True
  then have "bs = butlast bs @ [(c, snd (last bs))]"
    by (metis append_butlast_last_id prod.collapse)
  then have "batch_messages bs = batch_messages (butlast bs) @ map (Pair c) (snd (last bs))"
    by (metis batch_messages_simps(2,3))
  with True show ?thesis
    by (simp add: add_single_def)
qed (auto simp: add_single_def)

lemma add_single_ok:
  "\<forall>b \<in> set bs. batch_ok b \<Longrightarrow> count_ok (length (sd_bytes m)) \<Longrightarrow> \<forall>b \<in> set (add_single c m bs). batch_ok b"
  by (auto simp: add_single_def batch_ok_def dest: in_set_butlastD last_in_set)

text \<open>\<open>open_batch\<close> and the message after it add one message to the batches.\<close>

lemma lift_serde_Inr [simp]: "lift_serde (Inr x) = Inr x"
  by (simp add: lift_serde_def)

lemma u16_put: "u16_to_bytes c payload = Inr (payload @ chan_enc c)"
  by (simp add: u16_codec.put_ok chan_enc_def)

lemma batch_state_count:
  assumes "batch_state pre bs (Some st)"
  shows "pre @ batches_enc bs =
      (pre @ batches_enc (butlast bs) @ chan_enc (fst (last bs))) @ sb_count st # concat (map single_data_enc (snd (last bs)))"
proof -
  have bs: "bs = butlast bs @ [last bs]" and n: "length (snd (last bs)) = unat (sb_count st)"
    using assms by (auto simp: batch_state_def)
  have "word_of_nat (length (snd (last bs))) = sb_count st"
    by (simp add: n)
  have "batches_enc bs = batches_enc (butlast bs) @ batch_enc (last bs)"
    by (subst bs) simp
  with \<open>word_of_nat _ = sb_count st\<close> show ?thesis
    by (simp add: batch_enc_def)
qed

lemma open_batch_layout:
  assumes "batch_state pre bs batch" and "count_ok (length (sd_bytes m))"
  shows "\<exists>payload state. open_batch c batch (pre @ batches_enc bs) = Inr (payload, state) \<and>
    single_data_to_bytes m payload = Inr (pre @ batches_enc (add_single c m bs)) \<and>
    batch_state pre (add_single c m bs) (Some state) \<and>
    (case batch of
       Some st \<Rightarrow> (pre @ batches_enc (add_single c m bs))[sb_count_offset st := sb_count st]
     | None \<Rightarrow> pre @ batches_enc (add_single c m bs)) =
      pre @ batches_enc bs @ drop (length (pre @ batches_enc bs)) (pre @ batches_enc (add_single c m bs))"
proof (cases "batch = None \<or> \<not> (bs \<noteq> [] \<and> fst (last bs) = c \<and> length (snd (last bs)) < 255)")
  case True
  let ?state = "\<lparr>sb_channel_id = c, sb_count_offset = length (pre @ batches_enc bs @ chan_enc c), sb_count = 1\<rparr>"
  have add: "add_single c m bs = bs @ [(c, [m])]"
    using True assms(1) by (auto simp: add_single_def batch_state_def)
  have count: "sb_count st < MAX_MESSAGES_PER_CHANNEL_BATCH \<longleftrightarrow> length (snd (last bs)) < 255" if "batch = Some st" for st
    using assms(1) that by (simp add: batch_state_def MAX_MESSAGES_PER_CHANNEL_BATCH_def word_less_nat_alt)
  have chan: "sb_channel_id st = fst (last bs)" "bs \<noteq> []" if "batch = Some st" for st
    using assms(1) that by (simp_all add: batch_state_def)
  have "open_batch c batch (pre @ batches_enc bs) = Inr (pre @ batches_enc bs @ chan_enc c @ [1], ?state)"
    using True count chan
    by (cases batch) (auto simp: open_batch_def Let_def u16_put u8_codec.put_ok)
  moreover have "single_data_to_bytes m (pre @ batches_enc bs @ chan_enc c @ [1]) = Inr (pre @ batches_enc (add_single c m bs))"
    using assms(2) by (simp add: add single_data_codec.put_ok batch_enc_def)
  moreover have "batch_state pre (add_single c m bs) (Some ?state)"
    using assms by (auto simp: batch_state_def add batch_ok_def)
  moreover have "(pre @ batches_enc (add_single c m bs))[sb_count_offset st := sb_count st] = pre @ batches_enc (add_single c m bs)"
    if "batch = Some st" for st
  proof -
    have "sb_count_offset st = length (pre @ batches_enc (butlast bs) @ chan_enc (fst (last bs)))"
      using assms(1) that by (simp add: batch_state_def)
    then have "(pre @ batches_enc bs)[sb_count_offset st := sb_count st] = pre @ batches_enc bs" "sb_count_offset st < length (pre @ batches_enc bs)"
      using batch_state_count [of pre bs st] assms(1) that by (metis list_update_length, simp)
    then show ?thesis
      using list_update_append1 [of "sb_count_offset st" "pre @ batches_enc bs" "batch_enc (c, [m])"] by (simp add: add)
  qed
  ultimately show ?thesis
    by (cases batch) (auto simp: add)
next
  case False
  then obtain st where st: "batch = Some st" and last: "bs \<noteq> []" "fst (last bs) = c" "length (snd (last bs)) < 255"
    by auto
  let ?st = "st\<lparr>sb_count := sb_count st + 1\<rparr>"
  let ?A = "pre @ batches_enc (butlast bs) @ chan_enc c" and ?B = "concat (map single_data_enc (snd (last bs)))"
  have enc: "pre @ batches_enc bs = ?A @ sb_count st # ?B"
    using batch_state_count [of pre bs st] assms(1) st last by simp
  have off: "sb_count_offset st = length ?A" and chan: "sb_channel_id st = c" and n: "unat (sb_count st) = length (snd (last bs))"
    using assms(1) st last by (simp_all add: batch_state_def)
  then have less: "sb_count st < MAX_MESSAGES_PER_CHANNEL_BATCH"
    using last by (simp add: MAX_MESSAGES_PER_CHANNEL_BATCH_def word_less_nat_alt)
  then have "1 + sb_count st \<noteq> 0"
    by (auto simp: MAX_MESSAGES_PER_CHANNEL_BATCH_def add_eq_0_iff)
  then have suc: "unat (sb_count st + 1) = Suc (length (snd (last bs)))"
    using unatSuc [of "sb_count st"] n by (simp add: add.commute)
  have add: "add_single c m bs = butlast bs @ [(c, snd (last bs) @ [m])]"
    using last by (simp add: add_single_def)
  have new: "pre @ batches_enc (add_single c m bs) = ?A @ (sb_count st + 1) # ?B @ single_data_enc m"
    by (simp add: add batch_enc_def n [symmetric])
  have "open_batch c batch (pre @ batches_enc bs) = Inr (?A @ (sb_count st + 1) # ?B, ?st)"
  proof -
    have "(pre @ batches_enc bs)[sb_count_offset st := sb_count st + 1] = ?A @ (sb_count st + 1) # ?B"
      unfolding enc off by (rule list_update_length)
    moreover have "sb_count_offset st < length (pre @ batches_enc bs)"
      unfolding enc off by simp
    ultimately show ?thesis
      using less chan by (simp add: st open_batch_def Let_def set_byte_def)
  qed
  moreover have "single_data_to_bytes m (?A @ (sb_count st + 1) # ?B) = Inr (pre @ batches_enc (add_single c m bs))"
    using assms(2) new by (simp add: single_data_codec.put_ok)
  moreover have "batch_state pre (add_single c m bs) (Some ?st)"
    using assms last off chan suc by (auto simp: batch_state_def add batch_ok_def dest: in_set_butlastD last_in_set)
  moreover have "(pre @ batches_enc (add_single c m bs))[sb_count_offset st := sb_count st] =
      pre @ batches_enc bs @ drop (length (pre @ batches_enc bs)) (pre @ batches_enc (add_single c m bs))"
  proof -
    have "(pre @ batches_enc (add_single c m bs))[sb_count_offset st := sb_count st] = (?A @ sb_count st # ?B) @ single_data_enc m"
      unfolding new off by (subst list_update_length) simp
    moreover have "drop (length (pre @ batches_enc bs)) (pre @ batches_enc (add_single c m bs)) = single_data_enc m"
      unfolding new enc by simp
    ultimately show ?thesis
      unfolding enc [symmetric] by simp
  qed
  ultimately show ?thesis
    by (auto simp: st)
qed

definition fits_in :: "block_ops \<Rightarrow> compression_config \<Rightarrow> nat \<Rightarrow> bytes \<Rightarrow> packet_error + bool" where
  "fits_in Z compression mtu payload =
     (if length payload \<le> mtu then Inr True
      else if compression_is_enabled compression
      then and_then (evaluate_packet_compression Z payload compression mtu) (\<lambda>(outcome, _).
             Inr (case outcome of Outcome_Compressed _ _ \<Rightarrow> True | _ \<Rightarrow> False))
      else Inr False)"

definition candidate_meta :: "('c, 'f) send_candidate \<Rightarrow> 'c message_metadata" where
  "candidate_meta c =
     \<lparr>mm_channel = sc_channel_id c,
      mm_message = (case sm_data (sc_message c) of Single m \<Rightarrow> sd_id m | Fragment f \<Rightarrow> Some (fd_message_id f)),
      mm_fragment_index = (case sm_data (sc_message c) of Single m \<Rightarrow> None | Fragment f \<Rightarrow> Some (fd_fragment_id f)),
      mm_commit = \<lparr>cm_channel_kind = sc_channel_kind c, cm_key = sc_key c\<rparr>\<rparr>"

text \<open>Appending a single either adds it to the batches or leaves the packet exactly as it was.\<close>

lemma try_append_layout:
  assumes st: "batch_state pre bs batch" and payload: "pk_payload packet = pre @ batches_enc bs"
    and m: "sm_data (sc_message c) = Single m" "count_ok (length (sd_bytes m))"
  shows "\<exists>state. batch_state pre (add_single (sc_channel_id c) m bs) (Some state) \<and>
    try_append_single_candidate Z packet c batch compression mtu =
      and_then (fits_in Z compression mtu (pre @ batches_enc (add_single (sc_channel_id c) m bs))) (\<lambda>fits.
      Inr (if fits
           then (True, packet\<lparr>pk_payload := pre @ batches_enc (add_single (sc_channel_id c) m bs),
                              pk_messages := pk_messages packet @ [candidate_meta c]\<rparr>, Some state)
           else (False, packet, batch)))"
proof -
  let ?new = "pre @ batches_enc (add_single (sc_channel_id c) m bs)"
  obtain payload state where open_b: "open_batch (sc_channel_id c) batch (pre @ batches_enc bs) = Inr (payload, state)"
    and put: "single_data_to_bytes m payload = Inr ?new" and state: "batch_state pre (add_single (sc_channel_id c) m bs) (Some state)"
    and undo: "(case batch of Some st \<Rightarrow> ?new[sb_count_offset st := sb_count st] | None \<Rightarrow> ?new) =
      pre @ batches_enc bs @ drop (length (pre @ batches_enc bs)) ?new"
    using open_batch_layout [OF st m(2), of "sc_channel_id c"] by blast
  let ?packet = "record_message_metadata (sc_channel_id c) (sd_id m) None
      \<lparr>cm_channel_kind = sc_channel_kind c, cm_key = sc_key c\<rparr> (packet\<lparr>pk_payload := ?new\<rparr>)"
  have restore: "and_then (case batch of Some st \<Rightarrow> set_byte (sb_count_offset st) (sb_count st) ?new | None \<Rightarrow> Inr ?new)
      (\<lambda>payload. Inr (False, ?packet\<lparr>pk_payload := take (length (pk_payload packet)) payload,
         pk_messages := take (length (pk_messages packet)) (pk_messages ?packet)\<rparr>, batch)) = Inr (False, packet, batch)"
  proof -
    have "(case batch of Some st \<Rightarrow> set_byte (sb_count_offset st) (sb_count st) ?new | None \<Rightarrow> Inr ?new) =
        Inr (pk_payload packet @ drop (length (pre @ batches_enc bs)) ?new)"
    proof (cases batch)
      case (Some b)
      then have "sb_count_offset b < length (pre @ batches_enc bs)"
        using st batch_state_count [of pre bs b] by (simp add: batch_state_def)
      also have "\<dots> \<le> length ?new"
        using arg_cong [OF undo, of length] Some by simp
      finally have "sb_count_offset b < length ?new" .
      with Some undo payload show ?thesis by (simp add: set_byte_def)
    qed (use undo payload in simp)
    then show ?thesis
      by (cases packet) (simp add: record_message_metadata_def)
  qed
  have "try_append_single_candidate Z packet c batch compression mtu =
      and_then (fits_in Z compression mtu ?new) (\<lambda>fits.
        if fits then Inr (True, ?packet, Some state)
        else and_then (case batch of Some st \<Rightarrow> set_byte (sb_count_offset st) (sb_count st) ?new | None \<Rightarrow> Inr ?new)
          (\<lambda>payload. Inr (False, ?packet\<lparr>pk_payload := take (length (pk_payload packet)) payload,
             pk_messages := take (length (pk_messages packet)) (pk_messages ?packet)\<rparr>, batch)))"
    by (cases "evaluate_packet_compression Z ?new compression mtu")
      (auto simp: try_append_single_candidate_def Let_def m(1) payload open_b put fits_in_def record_message_metadata_def
        split: option.split compression_outcome.split)
  then have "try_append_single_candidate Z packet c batch compression mtu =
      and_then (fits_in Z compression mtu ?new) (\<lambda>fits. Inr (if fits then (True, ?packet, Some state) else (False, packet, batch)))"
    unfolding restore by (cases "fits_in Z compression mtu ?new") simp_all
  moreover have new: "?packet = packet\<lparr>pk_payload := ?new, pk_messages := pk_messages packet @ [candidate_meta c]\<rparr>"
    by (simp add: record_message_metadata_def candidate_meta_def m(1))
  ultimately have "try_append_single_candidate Z packet c batch compression mtu =
      and_then (fits_in Z compression mtu ?new) (\<lambda>fits. Inr (if fits
        then (True, packet\<lparr>pk_payload := ?new, pk_messages := pk_messages packet @ [candidate_meta c]\<rparr>, Some state)
        else (False, packet, batch)))"
    by (simp only: new)
  then show ?thesis
    using state by blast
qed

text \<open>What a packet under construction holds: some batches after a prefix, and what was recorded of them.\<close>

definition single_of :: "('c, 'f) send_candidate \<Rightarrow> channel_id \<times> single_data" where
  "single_of c = (sc_channel_id c, case sm_data (sc_message c) of Single m \<Rightarrow> m | Fragment _ \<Rightarrow> \<lparr>sd_id = None, sd_bytes = []\<rparr>)"

definition holds_singles :: "bytes \<Rightarrow> ('c, 'f) send_candidate list \<Rightarrow> 'c packet \<Rightarrow> 'c packet \<Rightarrow> batch list \<Rightarrow> bool" where
  "holds_singles pre cs packet0 packet bs \<longleftrightarrow>
     packet = packet0\<lparr>pk_payload := pre @ batches_enc bs, pk_messages := pk_messages packet0 @ map candidate_meta cs\<rparr> \<and>
     batch_messages bs = map single_of cs \<and> (\<forall>b \<in> set bs. batch_ok b)"

definition candidate_ok :: "('c, 'f) send_candidate \<Rightarrow> bool" where
  "candidate_ok c =
     (case sm_data (sc_message c) of Single m \<Rightarrow> count_ok (length (sd_bytes m)) | Fragment f \<Rightarrow> fragment_data_ok f)"

lemma try_append_holds:
  assumes "holds_singles pre cs packet0 packet bs" and "batch_state pre bs batch" and "is_single c" and "candidate_ok c"
  shows "try_append_single_candidate Z packet c batch compression mtu = Inr (False, packet, batch) \<or>
    (\<exists>packet' batch' bs'. try_append_single_candidate Z packet c batch compression mtu = Inr (True, packet', batch') \<and>
       holds_singles pre (cs @ [c]) packet0 packet' bs' \<and> batch_state pre bs' batch' \<and>
       fits_in Z compression mtu (pk_payload packet') = Inr True) \<or> (\<exists>e. try_append_single_candidate Z packet c batch compression mtu = Inl e)"
proof -
  obtain m where m: "sm_data (sc_message c) = Single m"
    using assms(3) by (auto simp: is_single_def split: message_data.splits)
  have len: "count_ok (length (sd_bytes m))"
    using assms(4) m by (simp add: candidate_ok_def)
  let ?bs = "add_single (sc_channel_id c) m bs"
  obtain state where "batch_state pre ?bs (Some state)"
    and step: "try_append_single_candidate Z packet c batch compression mtu =
      and_then (fits_in Z compression mtu (pre @ batches_enc ?bs)) (\<lambda>fits.
      Inr (if fits then (True, packet\<lparr>pk_payload := pre @ batches_enc ?bs, pk_messages := pk_messages packet @ [candidate_meta c]\<rparr>, Some state)
           else (False, packet, batch)))"
    using try_append_layout [OF assms(2) _ m len, of packet Z compression mtu] assms(1) by (auto simp: holds_singles_def)
  moreover have "holds_singles pre (cs @ [c]) packet0
      (packet\<lparr>pk_payload := pre @ batches_enc ?bs, pk_messages := pk_messages packet @ [candidate_meta c]\<rparr>) ?bs"
    using assms(1) m add_single_ok [OF _ len] by (auto simp: holds_singles_def add_single_messages single_of_def)
  ultimately show ?thesis
    by (cases "fits_in Z compression mtu (pre @ batches_enc ?bs)") (auto split: bool.splits)
qed

abbreviation slice :: "'a list \<Rightarrow> nat \<Rightarrow> nat \<Rightarrow> 'a list" where
  "slice xs i j \<equiv> map ((!) xs) [i..<j]"

lemma append_singles_holds:
  assumes "append_singles Z compression mtu cs packet batch i = Inr (packet', j)"
    and "holds_singles pre done packet0 packet bs" and "batch_state pre bs batch" and "\<forall>c \<in> set cs. candidate_ok c"
    and "done \<noteq> [] \<Longrightarrow> fits_in Z compression mtu (pk_payload packet) = Inr True"
  shows "i \<le> j \<and> (j \<le> length cs \<or> j = i) \<and> (\<forall>k. i \<le> k \<and> k < j \<longrightarrow> is_single (cs ! k)) \<and>
    (\<exists>bs'. holds_singles pre (done @ slice cs i j) packet0 packet' bs') \<and>
    (done @ slice cs i j \<noteq> [] \<longrightarrow> fits_in Z compression mtu (pk_payload packet') = Inr True)"
  using assms
proof (induction Z compression mtu cs packet batch i arbitrary: bs "done" rule: append_singles.induct)
  case (1 Z compression mtu cs packet batch i)
  show ?case
  proof (cases "i < length cs \<and> is_single (cs ! i)")
    case False
    then have "append_singles Z compression mtu cs packet batch i = Inr (packet, i)"
      by (subst append_singles.simps) auto
    with "1.prems" show ?thesis by auto
  next
    case True
    then have ok: "candidate_ok (cs ! i)"
      using "1.prems"(4) by simp
    from try_append_holds [OF "1.prems"(2,3) _ ok, of Z compression mtu] True
    consider (stop) "try_append_single_candidate Z packet (cs ! i) batch compression mtu = Inr (False, packet, batch)"
      | (error) e where "try_append_single_candidate Z packet (cs ! i) batch compression mtu = Inl e"
      | (more) packet1 batch1 bs1 where
        "try_append_single_candidate Z packet (cs ! i) batch compression mtu = Inr (True, packet1, batch1)"
        "holds_singles pre (done @ [cs ! i]) packet0 packet1 bs1" "batch_state pre bs1 batch1"
        "fits_in Z compression mtu (pk_payload packet1) = Inr True"
      by blast
    then show ?thesis
    proof cases
      case stop
      then have "append_singles Z compression mtu cs packet batch i = Inr (packet, i)"
        using True by (subst append_singles.simps) simp
      with "1.prems" show ?thesis by auto
    next
      case error
      then show ?thesis
        using "1.prems"(1) True by (subst (asm) append_singles.simps) simp
    next
      case more
      have "append_singles Z compression mtu cs packet1 batch1 (i + 1) = Inr (packet', j)"
        using "1.prems"(1) True more(1) by (subst (asm) append_singles.simps) simp
      note IH = "1.IH" [OF True more(1) refl refl refl this more(2,3) "1.prems"(4) more(4)]
      have single: "\<forall>k. i \<le> k \<and> k < j \<longrightarrow> is_single (cs ! k)"
        using IH True by (metis Suc_eq_plus1 Suc_leI le_neq_implies_less)
      have "slice cs i j = cs ! i # slice cs (i + 1) j"
        using IH by (simp add: upt_conv_Cons)
      then show ?thesis
        using IH True single by auto
    qed
  qed
qed

lemma append_tail_holds:
  assumes "append_tail N Z p mtu cs packet batch i = Inr (packet', j)"
    and "holds_singles pre done packet0 packet bs" and "batch_state pre bs batch" and "\<forall>c \<in> set cs. candidate_ok c"
    and "done \<noteq> [] \<Longrightarrow> length (pk_payload packet) \<le> mtu"
  shows "i \<le> j \<and> (j \<le> length cs \<or> j = i) \<and>
    (\<exists>bs'. holds_singles pre (done @ filter is_single (slice cs i j)) packet0 packet' bs') \<and>
    (done @ filter is_single (slice cs i j) \<noteq> [] \<longrightarrow> length (pk_payload packet') \<le> mtu)"
  using assms
proof (induction N Z p mtu cs packet batch i arbitrary: bs "done" rule: append_tail.induct)
  case (1 N Z p mtu cs packet batch i)
  let ?c = "cs ! i"
  consider (stop) "append_tail N Z p mtu cs packet batch i = Inr (packet, i)"
    | (skip) "i < length cs" "\<not> is_single ?c" "f32_total_key N (sc_effective_priority ?c) = f32_total_key N p"
    | (single) "i < length cs" "is_single ?c" "f32_total_key N (sc_effective_priority ?c) = f32_total_key N p"
    by (cases "i < length cs"; cases "f32_total_key N (sc_effective_priority ?c) = f32_total_key N p"; cases "is_single ?c")
      (auto simp: append_tail.simps [of N Z p mtu cs packet batch i] Let_def)
  then show ?case
  proof cases
    case stop
    with "1.prems" show ?thesis by auto
  next
    case skip
    then have "append_tail N Z p mtu cs packet batch (i + 1) = Inr (packet', j)"
      using "1.prems"(1) by (subst (asm) append_tail.simps) (simp add: Let_def)
    note IH = "1.IH"(1) [OF skip(1) refl _ skip(2) this "1.prems"(2-5)]
    then have "slice cs i j = cs ! i # slice cs (i + 1) j"
      using skip(3) by (simp add: upt_conv_Cons)
    then show ?thesis
      using IH skip by auto
  next
    case single
    then have ok: "candidate_ok ?c"
      using "1.prems"(4) by simp
    from try_append_holds [OF "1.prems"(2,3) single(2) ok, of Z DISABLED mtu]
    consider (full) "try_append_single_candidate Z packet ?c batch DISABLED mtu = Inr (False, packet, batch)"
      | (error) e where "try_append_single_candidate Z packet ?c batch DISABLED mtu = Inl e"
      | (more) packet1 batch1 bs1 where
        "try_append_single_candidate Z packet ?c batch DISABLED mtu = Inr (True, packet1, batch1)"
        "holds_singles pre (done @ [?c]) packet0 packet1 bs1" "batch_state pre bs1 batch1"
        "fits_in Z DISABLED mtu (pk_payload packet1) = Inr True"
      by blast
    then show ?thesis
    proof cases
      case full
      then have "append_tail N Z p mtu cs packet batch i = Inr (packet, i)"
        using single by (subst append_tail.simps) (simp add: Let_def)
      with "1.prems" show ?thesis by auto
    next
      case error
      then show ?thesis
        using "1.prems"(1) single by (subst (asm) append_tail.simps) (simp add: Let_def)
    next
      case more
      have step: "append_tail N Z p mtu cs packet1 batch1 (i + 1) = Inr (packet', j)"
        using "1.prems"(1) single more(1) by (subst (asm) append_tail.simps) (simp add: Let_def)
      have "length (pk_payload packet1) \<le> mtu"
        using more(4) by (simp add: fits_in_def DISABLED_def compression_is_enabled_def split: if_splits)
      note IH = "1.IH"(2) [OF single(1) refl _ _ more(1) refl refl refl step more(2,3) "1.prems"(4) this]
      then have "slice cs i j = cs ! i # slice cs (i + 1) j"
        using single by (simp add: upt_conv_Cons)
      then show ?thesis
        using IH single by auto
    qed
  qed
qed

section \<open>The cursor over the candidates\<close>

text \<open>The candidates that no packet of this flush carries yet.\<close>

definition cursor_pending :: "('c, 'f) send_candidate list \<Rightarrow> candidate_cursor \<Rightarrow> nat set" where
  "cursor_pending cs cursor =
     {i. i < length cs \<and> cu_index cursor \<le> i \<and> (is_single (cs ! i) \<longrightarrow> cu_single_index cursor \<le> i)}"

lemma skip_taken_spec:
  "i \<le> skip_taken cs i s \<and> (\<forall>k. i \<le> k \<and> k < skip_taken cs i s \<longrightarrow> k < s \<and> is_single (cs ! k)) \<and>
   (skip_taken cs i s < length cs \<and> is_single (cs ! skip_taken cs i s) \<longrightarrow> s \<le> skip_taken cs i s)"
proof (induction cs i s rule: skip_taken.induct)
  case (1 cs i s)
  show ?case
  proof (cases "i < s \<and> i < length cs \<and> is_single (cs ! i)")
    case True
    then have eq: "skip_taken cs i s = skip_taken cs (i + 1) s"
      by (subst skip_taken.simps) simp
    have "k < s \<and> is_single (cs ! k)" if "i \<le> k" "k < skip_taken cs (i + 1) s" for k
      using that 1 [OF True] True by (cases "k = i") auto
    then show ?thesis
      unfolding eq using 1 [OF True] by auto
  next
    case False
    then have "skip_taken cs i s = i"
      by (subst skip_taken.simps) auto
    then show ?thesis
      using False by auto
  qed
qed

lemma cursor_pending_skip:
  "cursor_pending cs (cursor\<lparr>cu_index := skip_taken cs (cu_index cursor) (cu_single_index cursor)\<rparr>) = cursor_pending cs cursor"
  using skip_taken_spec [of "cu_index cursor" cs "cu_single_index cursor"]
  by (fastforce simp: cursor_pending_def not_le)

text \<open>The plain payload of a packet of candidates, and what goes on the wire for it.\<close>

definition plain_payload :: "packet_header \<Rightarrow> ('c, 'f) send_candidate list \<Rightarrow> bytes \<Rightarrow> bool" where
  "plain_payload h cs payload \<longleftrightarrow>
     (\<exists>bs. (\<forall>b \<in> set bs. batch_ok b) \<and>
        (case cs of
           c # rest \<Rightarrow>
             (case sm_data (sc_message c) of
                Fragment f \<Rightarrow> hd_packet_type h = DataFragment \<and> batch_messages bs = map single_of rest \<and>
                  payload = header_enc h @ chan_enc (sc_channel_id c) @ fragment_data_enc f @ batches_enc bs
              | Single _ \<Rightarrow> hd_packet_type h = Data \<and> batch_messages bs = map single_of cs \<and>
                  payload = header_enc h @ batches_enc bs)
         | [] \<Rightarrow> False) \<and> (\<forall>c \<in> set (tl cs). is_single c))"

definition wire_payload :: "block_ops \<Rightarrow> compression_config \<Rightarrow> nat \<Rightarrow> bytes \<Rightarrow> bytes \<Rightarrow> bool" where
  "wire_payload Z config mtu plain payload \<longleftrightarrow>
     payload = plain \<or> (\<exists>a b info. compress_packet Z (plain, None) config mtu = Inr (Outcome_Compressed a b, payload, info))"

lemma new_staged_packet_eq:
  "new_staged_packet R t tick hm =
     Inr \<lparr>pk_payload = header_enc (preview_send_packet_header R t tick hm), pk_messages = [],
          pk_packet_id = next_packet_id hm, pk_compression = None\<rparr>"
  by (simp add: new_staged_packet_def header_codec.put_ok Let_def preview_send_packet_header_def)

text \<open>One call of \<open>build_next_packet\<close>: which candidates a packet takes, and what it looks like.\<close>

definition takes_candidates ::
  "block_ops \<Rightarrow> compression_config \<Rightarrow> nat \<Rightarrow> packet_header \<Rightarrow> packet_id \<Rightarrow> ('c, 'f) send_candidate list \<Rightarrow> nat set \<Rightarrow> nat set \<Rightarrow>
   'c packet \<Rightarrow> bool" where
  "takes_candidates Z config mtu h pid cs pending pending' p \<longleftrightarrow>
     (\<exists>taken plain. distinct taken \<and> taken \<noteq> [] \<and> set taken \<subseteq> pending \<and> pending' = pending - set taken \<and>
        pk_messages p = map (\<lambda>i. candidate_meta (cs ! i)) taken \<and> pk_packet_id p = pid \<and> length (pk_payload p) \<le> mtu \<and>
        plain_payload h (map ((!) cs) taken) plain \<and> wire_payload Z config mtu plain (pk_payload p))"

lemma finish_packet_wire:
  assumes "finish_compression_aware_packet Z packet config mtu = Inr p" and "pk_compression packet = None"
    and "fits_in Z config mtu (pk_payload packet) = Inr True" and "HEADER_BYTES < length (pk_payload packet)" and "block_codec Z"
  shows "pk_messages p = pk_messages packet \<and> pk_packet_id p = pk_packet_id packet \<and> length (pk_payload p) \<le> mtu \<and>
    wire_payload Z config mtu (pk_payload packet) (pk_payload p)"
proof -
  obtain outcome payload info where c: "compress_packet Z (pk_payload packet, None) config mtu = Inr (outcome, payload, info)"
    using assms(1,2) by (auto simp: finish_compression_aware_packet_def Let_def and_then_Inr_iff)
  note spec = compress_packet_spec [OF assms(5,4) c]
  show ?thesis
  proof (cases "\<exists>a b. outcome = Outcome_Compressed a b")
    case True
    then show ?thesis
      using spec c assms(1,2) by (auto simp: finish_compression_aware_packet_def Let_def wire_payload_def)
  next
    case False
    then have "payload = pk_payload packet"
      using spec by (auto split: compression_outcome.splits)
    then show ?thesis
      using False c assms(1,2)
      by (auto simp: finish_compression_aware_packet_def Let_def wire_payload_def split: compression_outcome.splits if_splits)
  qed
qed

lemma build_singles_takes:
  assumes "build_next_packet N Z R tick cs cursor config mtu hm = (cursor', Inr (Some p))"
    and "\<forall>c \<in> set cs. candidate_ok c" and Z: "block_codec Z"
    and first: "i = skip_taken cs (cu_index cursor) (cu_single_index cursor)" "i < length cs" "is_single (cs ! i)"
  shows "cu_index cursor < cu_index cursor' \<and>
    takes_candidates Z config mtu (preview_send_packet_header R Data tick hm) (next_packet_id hm) cs
      (cursor_pending cs cursor) (cursor_pending cs cursor') p"
proof -
  let ?h = "preview_send_packet_header R Data tick hm"
  let ?p0 = "\<lparr>pk_payload = header_enc ?h, pk_messages = [], pk_packet_id = next_packet_id hm, pk_compression = None\<rparr>"
  obtain m where m: "sm_data (sc_message (cs ! i)) = Single m"
    using first(3) by (auto simp: is_single_def split: message_data.splits)
  obtain p1 j where p1: "append_singles Z config mtu cs ?p0 None i = Inr (p1, j)"
    and fin: "finish_compression_aware_packet Z p1 config mtu = Inr p" and ne: "pk_messages p1 \<noteq> []"
    and cursor': "cursor' = cursor\<lparr>cu_index := j, cu_single_index := max (cu_single_index cursor) j\<rparr>"
    using assms(1) first(2) m
    by (auto simp: build_next_packet_def Let_def first(1) [symmetric] new_staged_packet_eq and_then_Inr_iff
        split: sum.splits if_splits prod.splits option.splits)
  have start: "holds_singles (header_enc ?h) [] ?p0 ?p0 []" "batch_state (header_enc ?h) [] None"
    by (simp_all add: holds_singles_def batch_state_def)
  have "i \<le> j \<and> (j \<le> length cs \<or> j = i) \<and> (\<forall>k. i \<le> k \<and> k < j \<longrightarrow> is_single (cs ! k)) \<and>
      (\<exists>bs. holds_singles (header_enc ?h) (slice cs i j) ?p0 p1 bs) \<and>
      (slice cs i j \<noteq> [] \<longrightarrow> fits_in Z config mtu (pk_payload p1) = Inr True)"
    by (rule append_singles_holds [OF p1 start assms(2), simplified append_Nil]) simp
  then obtain bs where bs: "holds_singles (header_enc ?h) (slice cs i j) ?p0 p1 bs" and ij: "i \<le> j" "j \<le> length cs"
    and single: "\<forall>k. i \<le> k \<and> k < j \<longrightarrow> is_single (cs ! k)"
    and fits: "slice cs i j \<noteq> [] \<longrightarrow> fits_in Z config mtu (pk_payload p1) = Inr True"
    using first(2) by (metis less_imp_le)
  have less: "i < j"
    using ne bs ij(1) by (cases "i = j") (auto simp: holds_singles_def)
  have bs_ne: "bs \<noteq> []"
    using bs less by (auto simp: holds_singles_def)
  have plain: "plain_payload ?h (map ((!) cs) [i..<j]) (pk_payload p1)"
  proof -
    have "map ((!) cs) [i..<j] = cs ! i # map ((!) cs) [Suc i..<j]"
      using less by (simp add: upt_conv_Cons)
    moreover have "\<forall>b \<in> set bs. batch_ok b" "batch_messages bs = map single_of (slice cs i j)"
      "pk_payload p1 = header_enc ?h @ batches_enc bs" "hd_packet_type ?h = Data"
      using bs by (simp_all add: holds_singles_def preview_send_packet_header_def Let_def)
    moreover have "\<forall>c \<in> set (map ((!) cs) [Suc i..<j]). is_single c"
      using single by simp
    ultimately show ?thesis
      unfolding plain_payload_def using m by (intro exI [of _ bs]) simp
  qed
  have skip: "cu_index cursor \<le> i" "cu_single_index cursor \<le> i"
    using skip_taken_spec [of "cu_index cursor" cs "cu_single_index cursor"] first by auto
  have pend: "cursor_pending cs cursor = cursor_pending cs (cursor\<lparr>cu_index := i\<rparr>)"
    using cursor_pending_skip [of cs cursor] first(1) by simp
  have pending: "set [i..<j] \<subseteq> cursor_pending cs cursor" "cursor_pending cs cursor' = cursor_pending cs cursor - set [i..<j]"
    unfolding pend using skip ij less single by (auto simp: cursor_pending_def cursor')
  have "HEADER_BYTES < length (pk_payload p1)"
    using bs batches_enc_nonempty [OF bs_ne] by (simp add: holds_singles_def HEADER_BYTES_def header_BYTES_def)
  then have "pk_messages p = pk_messages p1 \<and> pk_packet_id p = pk_packet_id p1 \<and> length (pk_payload p) \<le> mtu \<and>
      wire_payload Z config mtu (pk_payload p1) (pk_payload p)"
    using finish_packet_wire [OF fin] bs fits less Z by (simp add: holds_singles_def)
  then show ?thesis
    using bs plain pending less skip unfolding takes_candidates_def
    by (intro conjI exI [of _ "[i..<j]"] exI [of _ "pk_payload p1"]) (auto simp: holds_singles_def cursor')
qed

abbreviation fragment_prefix :: "packet_header \<Rightarrow> ('c, 'f) send_candidate \<Rightarrow> fragment_data \<Rightarrow> bytes" where
  "fragment_prefix h c f \<equiv> header_enc h @ chan_enc (sc_channel_id c) @ fragment_data_enc f"

lemma build_fragment_eq:
  fixes cs :: "('c, 'f) send_candidate list" and R :: "(bool, 'b) ring_ops" and tick :: tick
    and hm :: "('g, 'b, 'm) packet_header_manager"
  assumes first: "i = skip_taken cs (cu_index cursor) (cu_single_index cursor)" "i < length cs"
      "sm_data (sc_message (cs ! i)) = Fragment f" and f: "fragment_data_ok f"
  defines "pre \<equiv> fragment_prefix (preview_send_packet_header R DataFragment tick hm) (cs ! i) f"
  defines "p0 \<equiv> \<lparr>pk_payload = pre, pk_messages = [candidate_meta (cs ! i)], pk_packet_id = next_packet_id hm, pk_compression = None\<rparr>"
  shows "build_next_packet N Z R tick cs cursor config mtu hm =
     (if is_last_fragment f then
        (case append_tail N Z (sc_effective_priority (cs ! i)) mtu cs p0 None (max (cu_single_index cursor) (i + 1)) of
           Inl e \<Rightarrow> (cursor\<lparr>cu_index := i + 1, cu_single_index := max (cu_single_index cursor) (i + 1)\<rparr>, Inl e)
         | Inr (packet, single_index) \<Rightarrow>
             (cursor\<lparr>cu_index := i + 1, cu_single_index := single_index\<rparr>,
              if length (pk_payload packet) > mtu then Inl (PacketTooLarge (length (pk_payload packet)) mtu) else Inr (Some packet)))
      else (cursor\<lparr>cu_index := i + 1\<rparr>,
            if length pre > mtu then Inl (PacketTooLarge (length pre) mtu) else Inr (Some p0)))"
  using first f unfolding pre_def p0_def
  by (auto simp: build_next_packet_def Let_def new_staged_packet_eq u16_put fragment_data_codec.put_ok
      record_message_metadata_def candidate_meta_def split: sum.splits)

lemma build_fragment_takes:
  assumes "build_next_packet N Z R tick cs cursor config mtu hm = (cursor', Inr (Some p))"
    and "\<forall>c \<in> set cs. candidate_ok c"
    and first: "i = skip_taken cs (cu_index cursor) (cu_single_index cursor)" "i < length cs"
      "sm_data (sc_message (cs ! i)) = Fragment f"
  shows "cu_index cursor < cu_index cursor' \<and>
    takes_candidates Z config mtu (preview_send_packet_header R DataFragment tick hm) (next_packet_id hm) cs
      (cursor_pending cs cursor) (cursor_pending cs cursor') p"
proof -
  let ?h = "preview_send_packet_header R DataFragment tick hm" and ?c = "cs ! i"
  let ?pre = "header_enc ?h @ chan_enc (sc_channel_id ?c) @ fragment_data_enc f"
  let ?p0 = "\<lparr>pk_payload = ?pre, pk_messages = [candidate_meta ?c], pk_packet_id = next_packet_id hm, pk_compression = None\<rparr>"
  have f: "fragment_data_ok f"
    using assms(2) first(2,3) by (auto simp: candidate_ok_def dest!: nth_mem)
  have skip: "cu_index cursor \<le> i"
    using skip_taken_spec [of "cu_index cursor" cs "cu_single_index cursor"] first by auto
  have pend: "cursor_pending cs cursor = cursor_pending cs (cursor\<lparr>cu_index := i\<rparr>)"
    using cursor_pending_skip [of cs cursor] first(1) by simp
  have not_single: "\<not> is_single ?c"
    using first(3) by (simp add: is_single_def)
  note staged = build_fragment_eq [OF first f, of N Z R tick config mtu hm]
  show ?thesis
  proof (cases "is_last_fragment f")
    case True
    then obtain j where tail: "append_tail N Z (sc_effective_priority ?c) mtu cs ?p0 None (max (cu_single_index cursor) (i + 1)) = Inr (p, j)"
      and cursor': "cursor' = cursor\<lparr>cu_index := i + 1, cu_single_index := j\<rparr>" and len: "length (pk_payload p) \<le> mtu"
      using assms(1) staged by (auto split: sum.splits prod.splits if_splits)
    let ?s = "max (cu_single_index cursor) (i + 1)"
    have start: "holds_singles ?pre [] ?p0 ?p0 []" "batch_state ?pre [] None"
      by (simp_all add: holds_singles_def batch_state_def)
    have "?s \<le> j \<and> (j \<le> length cs \<or> j = ?s) \<and>
        (\<exists>bs. holds_singles ?pre (filter is_single (slice cs ?s j)) ?p0 p bs) \<and>
        (filter is_single (slice cs ?s j) \<noteq> [] \<longrightarrow> length (pk_payload p) \<le> mtu)"
      using append_tail_holds [OF tail start assms(2), unfolded append_Nil] by blast
    then obtain bs where bs: "holds_singles ?pre (filter is_single (slice cs ?s j)) ?p0 p bs" and j: "?s \<le> j" "j \<le> length cs \<or> j = ?s"
      by blast
    let ?taken = "i # filter (\<lambda>k. is_single (cs ! k)) [?s..<j]"
    have taken: "map ((!) cs) ?taken = ?c # filter is_single (slice cs ?s j)"
      by (simp add: filter_map comp_def)
    then have "plain_payload ?h (map ((!) cs) ?taken) (pk_payload p)"
      unfolding plain_payload_def taken using bs first(3)
      by (intro exI [of _ bs]) (auto simp: holds_singles_def preview_send_packet_header_def Let_def)
    moreover have "set ?taken \<subseteq> cursor_pending cs cursor" "cursor_pending cs cursor' = cursor_pending cs cursor - set ?taken"
      using not_single first(2) j unfolding pend by (auto simp: cursor_pending_def cursor')
    moreover have "pk_messages p = map (\<lambda>i. candidate_meta (cs ! i)) ?taken"
      using bs by (simp add: holds_singles_def filter_map comp_def)
    ultimately show ?thesis
      using skip cursor' len bs unfolding takes_candidates_def
      by (intro conjI exI [of _ ?taken] exI [of _ "pk_payload p"]) (simp_all add: wire_payload_def holds_singles_def)
  next
    case False
    then have p: "p = ?p0" "length ?pre \<le> mtu" and cursor': "cursor' = cursor\<lparr>cu_index := i + 1\<rparr>"
      using assms(1) staged by (auto split: if_splits)
    have "plain_payload ?h [?c] ?pre"
      unfolding plain_payload_def by (intro exI [of _ "[]"]) (simp add: first(3) preview_send_packet_header_def Let_def)
    moreover have "cursor_pending cs cursor' = cursor_pending cs cursor - {i}" "i \<in> cursor_pending cs cursor"
      using not_single first(2) unfolding pend by (auto simp: cursor_pending_def cursor')
    ultimately show ?thesis
      using p skip cursor' unfolding takes_candidates_def
      by (intro conjI exI [of _ "[i]"] exI [of _ ?pre]) (simp_all add: wire_payload_def)
  qed
qed

lemma build_next_packet_takes:
  assumes "build_next_packet N Z R tick cs cursor config mtu hm = (cursor', Inr (Some p))"
    and "\<forall>c \<in> set cs. candidate_ok c" and "block_codec Z"
  shows "cu_index cursor < cu_index cursor' \<and> cu_index cursor < length cs \<and>
    (\<exists>t. takes_candidates Z config mtu (preview_send_packet_header R t tick hm) (next_packet_id hm) cs
      (cursor_pending cs cursor) (cursor_pending cs cursor') p)"
proof -
  define i where i: "i = skip_taken cs (cu_index cursor) (cu_single_index cursor)"
  have less: "i < length cs"
    using assms(1) i by (auto simp: build_next_packet_def Let_def split: if_splits)
  moreover have "cu_index cursor \<le> i"
    using skip_taken_spec [of "cu_index cursor" cs "cu_single_index cursor"] i by simp
  ultimately show ?thesis
    using build_singles_takes [OF assms i less] build_fragment_takes [OF assms(1,2) i less]
    by (cases "sm_data (sc_message (cs ! i))") (auto simp: is_single_def)
qed

lemma build_next_packet_done:
  assumes "build_next_packet N Z R tick cs cursor config mtu hm = (cursor', Inr None)"
  shows "cursor_pending cs cursor = {}"
proof -
  have "length cs \<le> skip_taken cs (cu_index cursor) (cu_single_index cursor)"
    using assms by (auto simp: build_next_packet_def Let_def and_then_Inr_iff
        split: if_splits sum.splits message_data.splits prod.splits option.splits)
  then have "cursor_pending cs (cursor\<lparr>cu_index := skip_taken cs (cu_index cursor) (cu_single_index cursor)\<rparr>) = {}"
    by (auto simp: cursor_pending_def)
  then show ?thesis
    by (simp only: cursor_pending_skip)
qed

section \<open>Staging does not fail\<close>

text \<open>
  A compression that works: off, or a block compressor that accepts everything the limit of the
  decompressor lets through.
\<close>

definition compression_works :: "block_ops \<Rightarrow> compression_config \<Rightarrow> bool" where
  "compression_works Z config \<longleftrightarrow> algorithm config = None \<or>
     max_decompressed_payload_size config < 2 ^ 32 \<and> (\<forall>p. lz4_compress Z p \<noteq> None)"

definition candidate_fits :: "nat \<Rightarrow> ('c, 'f) send_candidate \<Rightarrow> bool" where
  "candidate_fits mtu c \<longleftrightarrow>
     HEADER_BYTES + length (chan_enc (sc_channel_id c)) +
       (case sm_data (sc_message c) of
          Single m \<Rightarrow> 1 + length (single_data_enc m) | Fragment f \<Rightarrow> length (fragment_data_enc f)) \<le> mtu"

lemma evaluate_total:
  assumes "compression_works Z config" and "HEADER_BYTES < length payload"
    and "packet_type_try_from (payload ! 0) = Inr t"
  shows "\<exists>outcome out. evaluate_packet_compression Z payload config mtu = Inr (outcome, out)"
proof -
  have "\<exists>out. compress_into Z a p = Inr out" if "length p \<le> max_decompressed_payload_size config" "algorithm config = Some a" for a p
  proof -
    obtain y where "lz4_compress Z p = Some y" "max_decompressed_payload_size config < 2 ^ 32"
      using assms(1) \<open>algorithm config = Some a\<close> by (auto simp: compression_works_def)
    then show ?thesis
      using \<open>length p \<le> _\<close> by (auto simp: compress_into_def compress_lz4_def split: compression_algorithm.splits)
  qed
  note works = this
  show ?thesis
  proof (cases "algorithm config")
    case (Some a)
    show ?thesis
    proof (cases "length payload - HEADER_BYTES > max_decompressed_payload_size config")
      case False
      then obtain out where "compress_into Z a (drop HEADER_BYTES payload) = Inr out"
        using works [of "drop HEADER_BYTES payload" a] Some by auto
      then show ?thesis
        using assms(2,3) Some by (simp add: evaluate_packet_compression_def Let_def lift_serde_def)
    qed (use assms(2,3) Some in \<open>simp add: evaluate_packet_compression_def Let_def lift_serde_def\<close>)
  qed (simp add: evaluate_packet_compression_def)
qed

lemma fits_in_total:
  assumes "compression_works Z config" and "x \<noteq> []"
  shows "\<exists>fits. fits_in Z config mtu (header_enc h @ x) = Inr fits"
proof -
  have "packet_type_try_from ((header_enc h @ x) ! 0) = Inr (hd_packet_type h)" "HEADER_BYTES < length (header_enc h @ x)"
    using assms(2) by (simp_all add: header_enc_def HEADER_BYTES_def header_BYTES_def)
  then obtain outcome out where "evaluate_packet_compression Z (header_enc h @ x) config mtu = Inr (outcome, out)"
    using evaluate_total [OF assms(1)] by blast
  then show ?thesis
    by (auto simp: fits_in_def)
qed

lemma try_append_total:
  assumes "compression_works Z config" and "holds_singles (header_enc h @ x) prev packet0 packet bs"
    and "batch_state (header_enc h @ x) bs batch" and "is_single c" and "candidate_ok c"
  shows "\<exists>r. try_append_single_candidate Z packet c batch config mtu = Inr r"
proof -
  obtain m where m: "sm_data (sc_message c) = Single m" "count_ok (length (sd_bytes m))"
    using assms(4,5) by (auto simp: is_single_def candidate_ok_def split: message_data.splits)
  let ?bs = "add_single (sc_channel_id c) m bs"
  have "x @ batches_enc ?bs \<noteq> []"
    using batches_enc_nonempty [of ?bs] by (auto simp: add_single_def)
  then obtain fits where "fits_in Z config mtu (header_enc h @ x @ batches_enc ?bs) = Inr fits"
    using fits_in_total [OF assms(1)] by blast
  then show ?thesis
    using try_append_layout [OF assms(3) _ m, of packet Z config mtu] assms(2) by (auto simp: holds_singles_def)
qed

lemma append_singles_total:
  fixes cs prev :: "('c, 'f) send_candidate list"
  assumes "compression_works Z config" and "holds_singles (header_enc h @ x) prev packet0 packet bs"
    and "batch_state (header_enc h @ x) bs batch" and "\<forall>c \<in> set cs. candidate_ok c"
  shows "\<exists>r. append_singles Z config mtu cs packet batch i = Inr r"
  using assms
proof (induction Z config mtu cs packet batch i arbitrary: bs prev rule: append_singles.induct)
  case (1 Z config mtu cs packet batch i)
  show ?case
  proof (cases "i < length cs \<and> is_single (cs ! i)")
    case True
    then have ok: "candidate_ok (cs ! i)" using "1.prems"(4) by simp
    obtain r where r: "try_append_single_candidate Z packet (cs ! i) batch config mtu = Inr r"
      using try_append_total [OF "1.prems"(1-3) _ ok] True by blast
    with try_append_holds [OF "1.prems"(2,3) _ ok, of Z config mtu] True
    consider "r = (False, packet, batch)" | packet1 batch1 bs1 where "r = (True, packet1, batch1)"
      "holds_singles (header_enc h @ x) (prev @ [cs ! i]) packet0 packet1 bs1" "batch_state (header_enc h @ x) bs1 batch1"
      by auto
    then show ?thesis
    proof cases
      case 1
      then show ?thesis
        using True r by (subst append_singles.simps) simp
    next
      case 2
      then show ?thesis
        using "1.IH" [OF True r 2(1) [symmetric] refl refl "1.prems"(1) 2(2,3) "1.prems"(4)] True r
        by (subst append_singles.simps) simp
    qed
  qed (subst append_singles.simps, auto)
qed

lemma append_tail_total:
  fixes cs prev :: "('c, 'f) send_candidate list"
  assumes "holds_singles (header_enc h @ x) prev packet0 packet bs"
    and "batch_state (header_enc h @ x) bs batch" and "\<forall>c \<in> set cs. candidate_ok c"
  shows "\<exists>r. append_tail N Z p mtu cs packet batch i = Inr r"
  using assms
proof (induction N Z p mtu cs packet batch i arbitrary: bs prev rule: append_tail.induct)
  case (1 N Z p mtu cs packet batch i)
  have works: "compression_works Z DISABLED"
    by (simp add: compression_works_def DISABLED_def)
  consider (stop) "append_tail N Z p mtu cs packet batch i = Inr (packet, i)"
    | (skip) "i < length cs" "\<not> is_single (cs ! i)" "f32_total_key N (sc_effective_priority (cs ! i)) = f32_total_key N p"
    | (single) "i < length cs" "is_single (cs ! i)" "f32_total_key N (sc_effective_priority (cs ! i)) = f32_total_key N p"
    by (cases "i < length cs"; cases "f32_total_key N (sc_effective_priority (cs ! i)) = f32_total_key N p"; cases "is_single (cs ! i)")
      (auto simp: append_tail.simps [of N Z p mtu cs packet batch i] Let_def)
  then show ?case
  proof cases
    case skip
    then show ?thesis
      using "1.IH"(1) [OF skip(1) refl _ skip(2) "1.prems"] by (subst append_tail.simps) (simp add: Let_def)
  next
    case single
    then have ok: "candidate_ok (cs ! i)" using "1.prems"(3) by simp
    obtain r where r: "try_append_single_candidate Z packet (cs ! i) batch DISABLED mtu = Inr r"
      using try_append_total [OF works "1.prems"(1,2) single(2) ok] by blast
    with try_append_holds [OF "1.prems"(1,2) single(2) ok, of Z DISABLED mtu]
    consider "r = (False, packet, batch)" | packet1 batch1 bs1 where "r = (True, packet1, batch1)"
      "holds_singles (header_enc h @ x) (prev @ [cs ! i]) packet0 packet1 bs1" "batch_state (header_enc h @ x) bs1 batch1"
      by auto
    then show ?thesis
    proof cases
      case 1
      then show ?thesis
        using single r by (subst append_tail.simps) (simp add: Let_def)
    next
      case 2
      then show ?thesis
        using "1.IH"(2) [OF single(1) refl _ _ r 2(1) [symmetric] refl refl 2(2,3) "1.prems"(3)] single r
        by (subst append_tail.simps) (simp add: Let_def)
    qed
  qed simp
qed

lemma finish_packet_total:
  assumes "compression_works Z config" and "pk_payload packet = header_enc h @ x" "x \<noteq> []" "pk_compression packet = None"
    and "fits_in Z config mtu (pk_payload packet) = Inr True" and "compressed_variant (hd_packet_type h) \<noteq> None"
  shows "\<exists>p. finish_compression_aware_packet Z packet config mtu = Inr p"
proof -
  have t: "packet_type_try_from (pk_payload packet ! 0) = Inr (hd_packet_type h)" "HEADER_BYTES < length (pk_payload packet)"
    using assms(2,3) by (simp_all add: header_enc_def HEADER_BYTES_def header_BYTES_def)
  obtain outcome out where ev: "evaluate_packet_compression Z (pk_payload packet) config mtu = Inr (outcome, out)"
    using evaluate_total [OF assms(1) t(2,1)] by blast
  obtain payload info where c: "compress_packet Z (pk_payload packet, None) config mtu = Inr (outcome, payload, info)"
    using ev t(1) assms(6) by (cases outcome) (auto simp: compress_packet_def lift_serde_def Let_def)
  show ?thesis
    using c assms(4,5) ev
    by (cases outcome) (auto simp: finish_compression_aware_packet_def Let_def fits_in_def split: if_splits)
qed

lemma build_single_total:
  assumes works: "compression_works Z config" and ok: "\<forall>c \<in> set cs. candidate_ok c \<and> candidate_fits mtu c"
    and first: "i = skip_taken cs (cu_index cursor) (cu_single_index cursor)" "i < length cs" "is_single (cs ! i)"
  shows "\<exists>cursor' r. build_next_packet N Z R tick cs cursor config mtu hm = (cursor', Inr r)"
proof -
  let ?h = "preview_send_packet_header R Data tick hm"
  let ?p0 = "\<lparr>pk_payload = header_enc ?h, pk_messages = [], pk_packet_id = next_packet_id hm, pk_compression = None\<rparr>"
  have start: "holds_singles (header_enc ?h) [] ?p0 ?p0 []" "batch_state (header_enc ?h) [] None"
    by (simp_all add: holds_singles_def batch_state_def)
  have cand: "\<forall>c \<in> set cs. candidate_ok c"
    using ok by blast
  obtain m where m: "sm_data (sc_message (cs ! i)) = Single m" "count_ok (length (sd_bytes m))"
    using first ok by (auto simp: is_single_def candidate_ok_def dest!: nth_mem split: message_data.splits)
  let ?bs = "add_single (sc_channel_id (cs ! i)) m []"
  have len: "length (header_enc ?h @ batches_enc ?bs) \<le> mtu"
    using ok first(2) m(1) by (auto simp: add_single_def batch_enc_def candidate_fits_def HEADER_BYTES_def header_BYTES_def dest!: nth_mem)
  obtain p1 batch1 where step: "try_append_single_candidate Z ?p0 (cs ! i) None config mtu = Inr (True, p1, batch1)"
    using try_append_layout [OF start(2) _ m, of ?p0 Z config mtu] len by (auto simp: fits_in_def)
  obtain bs1 where hold1: "holds_singles (header_enc ?h) [cs ! i] ?p0 p1 bs1" "batch_state (header_enc ?h) bs1 batch1"
    and fits1: "fits_in Z config mtu (pk_payload p1) = Inr True"
    using try_append_holds [OF start first(3), of Z config mtu] step cand first(2) by auto
  obtain p2 j where rest: "append_singles Z config mtu cs p1 batch1 (i + 1) = Inr (p2, j)"
    using append_singles_total [OF works, of ?h "[]" "[cs ! i]" ?p0 p1 bs1 batch1 cs mtu "i + 1"] hold1 cand by auto
  have all: "append_singles Z config mtu cs ?p0 None i = Inr (p2, j)"
    using first step rest by (subst append_singles.simps) simp
  obtain bs2 where hold2: "holds_singles (header_enc ?h) ([cs ! i] @ slice cs (i + 1) j) ?p0 p2 bs2"
    and fits: "fits_in Z config mtu (pk_payload p2) = Inr True"
    using append_singles_holds [OF rest hold1 cand] fits1 by auto
  have "bs2 \<noteq> []"
    using hold2 by (auto simp: holds_singles_def)
  then obtain p where p: "finish_compression_aware_packet Z p2 config mtu = Inr p"
    using finish_packet_total [OF works, of p2 ?h "batches_enc bs2" mtu] hold2 fits batches_enc_nonempty
    by (auto simp: holds_singles_def preview_send_packet_header_def compressed_variant_def Let_def)
  have "pk_messages p2 \<noteq> []"
    using hold2 by (simp add: holds_singles_def)
  then show ?thesis
    using first(2) m(1) all p
    by (simp add: build_next_packet_def Let_def first(1) [symmetric] new_staged_packet_eq)
qed

lemma build_fragment_total:
  assumes ok: "\<forall>c \<in> set cs. candidate_ok c \<and> candidate_fits mtu c"
    and first: "i = skip_taken cs (cu_index cursor) (cu_single_index cursor)" "i < length cs" "sm_data (sc_message (cs ! i)) = Fragment f"
  shows "\<exists>cursor' r. build_next_packet N Z R tick cs cursor config mtu hm = (cursor', Inr r)"
proof -
  let ?h = "preview_send_packet_header R DataFragment tick hm"
  let ?pre = "fragment_prefix ?h (cs ! i) f"
  let ?p0 = "\<lparr>pk_payload = ?pre, pk_messages = [candidate_meta (cs ! i)], pk_packet_id = next_packet_id hm, pk_compression = None\<rparr>"
  let ?s = "max (cu_single_index cursor) (i + 1)"
  have cand: "\<forall>c \<in> set cs. candidate_ok c" and f: "fragment_data_ok f" and len: "length ?pre \<le> mtu"
    using ok first(2,3) by (auto simp: candidate_ok_def candidate_fits_def HEADER_BYTES_def header_BYTES_def dest!: nth_mem)
  have start: "holds_singles ?pre [] ?p0 ?p0 []" "batch_state ?pre [] None"
    by (simp_all add: holds_singles_def batch_state_def)
  obtain p j where tail: "append_tail N Z (sc_effective_priority (cs ! i)) mtu cs ?p0 None ?s = Inr (p, j)"
    using append_tail_total [OF start cand, of N Z "sc_effective_priority (cs ! i)" mtu ?s] by auto
  obtain bs where bs: "holds_singles ?pre (filter is_single (slice cs ?s j)) ?p0 p bs"
    and fits: "filter is_single (slice cs ?s j) \<noteq> [] \<longrightarrow> length (pk_payload p) \<le> mtu"
    using append_tail_holds [OF tail start cand, unfolded append_Nil] by blast
  have "length (pk_payload p) \<le> mtu"
  proof (cases "filter is_single (slice cs ?s j) = []")
    case True
    then have "batch_messages bs = []" "\<forall>b \<in> set bs. batch_ok b" "pk_payload p = ?pre @ batches_enc bs"
      using bs by (simp_all add: holds_singles_def)
    then have "bs = []"
      by (cases bs) (auto simp: batch_messages_def batch_ok_def)
    then show ?thesis
      using len \<open>pk_payload p = _\<close> by simp
  qed (use fits in blast)
  then show ?thesis
    using tail len by (simp add: build_fragment_eq [OF first f])
qed

lemma build_next_packet_total:
  assumes "compression_works Z config" and "\<forall>c \<in> set cs. candidate_ok c \<and> candidate_fits mtu c"
  shows "\<exists>cursor' r. build_next_packet N Z R tick cs cursor config mtu hm = (cursor', Inr r)"
proof -
  define i where i: "i = skip_taken cs (cu_index cursor) (cu_single_index cursor)"
  consider "length cs \<le> i" | "i < length cs" "is_single (cs ! i)" | f where "i < length cs" "sm_data (sc_message (cs ! i)) = Fragment f"
    by (cases "i < length cs"; cases "sm_data (sc_message (cs ! i))") (auto simp: is_single_def not_less)
  then show ?thesis
  proof cases
    case 1
    then show ?thesis
      by (simp add: build_next_packet_def Let_def i [symmetric])
  qed (use build_single_total [OF assms i] build_fragment_total [OF assms(2) i] in blast)+
qed

text \<open>The candidates of a channel fit: its fragment size comes from the smallest MTU of the link.\<close>

lemma chan_enc_le: "length (chan_enc c) \<le> 4"
  using unsigned_less [of c, where ?'a = nat]
  by (auto simp: chan_enc_def varint_bytes_def word_le_nat_alt unsigned_ucast_eq take_bit_nat_eq_self)

lemma fragment_size_room:
  assumes "fragment_size_for_min_mtu min_mtu = Some (Some n)" and "min_mtu < 2 ^ 62"
  shows "n < 2 ^ 62" and "36 + varint_size n + n \<le> min_mtu" and "0 < n"
proof -
  have mtu: "\<not> min_mtu < 36"
    using assms(1) by (auto simp: fragment_size_for_min_mtu_def checked_sub_def FIXED_FRAGMENT_PACKET_BYTES_eq)
  have "min_mtu - 36 < 2 ^ 62"
    using assms(2) by linarith
  then have "largest_fit (min_mtu - 36) (min_mtu - 36) (Some n)"
    using fragment_size_loop_eq [of "min_mtu - 36" "min_mtu - 36"] assms(1) mtu
    by (auto simp: fragment_size_for_min_mtu_def checked_sub_def FIXED_FRAGMENT_PACKET_BYTES_eq)
  then show "n < 2 ^ 62" and "36 + varint_size n + n \<le> min_mtu" and "0 < n"
    using mtu assms(2) by (auto simp: largest_fit_def)
qed

definition candidate_sized :: "nat \<Rightarrow> ('c, 'f) send_candidate \<Rightarrow> bool" where
  "candidate_sized n c \<longleftrightarrow> candidate_ok c \<and>
     (case sm_data (sc_message c) of Single m \<Rightarrow> length (sd_bytes m) \<le> n | Fragment f \<Rightarrow> length (fd_bytes f) \<le> n)"

lemma sized_candidate_fits:
  assumes "fragment_size_for_min_mtu min_mtu = Some (Some n)" and "min_mtu < 2 ^ 62" and "min_mtu \<le> mtu"
    and "candidate_sized n c"
  shows "candidate_fits mtu c"
proof (cases "sm_data (sc_message c)")
  case (Single m)
  note room = fragment_size_room [OF assms(1,2)]
  have len: "length (sd_bytes m) \<le> n"
    using assms(4) Single by (simp add: candidate_sized_def)
  have "length (single_data_enc m) \<le> 3 + varint_size (length (sd_bytes m)) + length (sd_bytes m)"
    by (cases "sd_id m") (simp_all add: single_data_enc_def option_enc_def wid_enc_def bytes_enc_def varint_size_def)
  also have "\<dots> \<le> 3 + varint_size n + n"
    using len varint_size_mono [OF len room(1)] by simp
  finally show ?thesis
    using room(2) chan_enc_le [of "sc_channel_id c"] assms(3) Single
    by (simp add: candidate_fits_def HEADER_BYTES_def header_BYTES_def)
next
  case (Fragment f)
  note room = fragment_size_room [OF assms(1,2)]
  have "length (fragment_data_enc f) \<le> 19 + varint_size n + n"
    using assms(4) Fragment room(1) by (intro fragment_enc_bound) (simp_all add: candidate_sized_def candidate_ok_def)
  then show ?thesis
    using room(2) chan_enc_le [of "sc_channel_id c"] assms(3) Fragment
    by (simp add: candidate_fits_def HEADER_BYTES_def header_BYTES_def)
qed

section \<open>Sorting\<close>

text \<open>
  The packing order is a sorting by keys: the priority, fragments before singles, the length of
  singles, the send order, the channel and the tie breaker.
\<close>

lemma cmp_simps: "cmp a b = Less \<longleftrightarrow> a < b" "cmp a b = Equal \<longleftrightarrow> a = b" "cmp a b = Greater \<longleftrightarrow> b < a"
  by (auto simp: cmp_def)

lemma insert_by_perm: "insert_by c x xs = Some ys \<Longrightarrow> mset ys = add_mset x (mset xs)"
  by (induction xs arbitrary: ys) (auto split: option.splits ordering.splits)

lemma sort_by_perm: "sort_by c xs = Some ys \<Longrightarrow> mset ys = mset xs"
proof (induction xs arbitrary: ys)
  case (Cons x xs)
  then obtain zs where "sort_by c xs = Some zs" "insert_by c x zs = Some ys"
    by (auto split: bind_splits)
  then show ?case
    using Cons.IH insert_by_perm [of c x zs ys] by simp
qed simp

lemma insert_by_total: "(\<And>y. y \<in> set xs \<Longrightarrow> c x y \<noteq> None) \<Longrightarrow> \<exists>ys. insert_by c x xs = Some ys"
proof (induction xs)
  case (Cons y ys)
  then obtain r zs where "c x y = Some r" "insert_by c x ys = Some zs"
    by fastforce
  then show ?case
    by (cases r) auto
qed simp

lemma sort_by_total:
  assumes "\<And>x y. x \<in> set xs \<Longrightarrow> y \<in> set xs \<Longrightarrow> c x y \<noteq> None"
  shows "\<exists>ys. sort_by c xs = Some ys"
  using assms
proof (induction xs)
  case (Cons x xs)
  then obtain ys where ys: "sort_by c xs = Some ys"
    by auto
  then have "set ys = set xs"
    using sort_by_perm by (metis mset_eq_setD)
  then show ?case
    using insert_by_total [of ys c x] Cons.prems ys by auto
qed simp

definition packing_key :: "('c, 'f) send_candidate \<Rightarrow> bool \<times> nat \<times> u64 \<times> channel_id \<times> u64" where
  "packing_key c =
     (is_single c,
      case sm_data (sc_message c) of Single m \<Rightarrow> length (single_data_enc m) | Fragment _ \<Rightarrow> 0,
      sc_send_order c, sc_channel_id c, packing_tiebreaker (sc_key c))"

lemma then_with_cmp: "then_with (Some (cmp a b)) (Some (cmp x y)) = Some (cmp (a, x) (b, y))"
  by (auto simp: then_with_def cmp_def)

lemma packing_order_key:
  assumes "candidate_ok a" and "candidate_ok b"
  shows "packing_order a b = Some (cmp (packing_key a) (packing_key b))"
proof -
  have len: "single_data_bytes_len m = Some (length (single_data_enc m))" if "count_ok (length (sd_bytes m))" for m
    using that by (rule single_data_codec.blen_ok)
  show ?thesis
    using assms len
    by (cases "sm_data (sc_message a)"; cases "sm_data (sc_message b)")
      (auto simp: packing_order_def packing_key_def candidate_ok_def is_single_def then_with_def cmp_def)
qed

lemma insert_by_sorted:
  assumes "\<And>y. y \<in> set xs \<Longrightarrow> c x y = Some (cmp (k x) (k y))" and "sorted (map k xs)" and "insert_by c x xs = Some ys"
  shows "sorted (map k ys)"
  using assms
proof (induction xs arbitrary: ys)
  case (Cons y xs)
  show ?case
  proof (cases "k y < k x")
    case True
    then have cmp: "c x y = Some Greater"
      using Cons.prems(1) by (simp add: cmp_simps)
    then obtain zs where zs: "insert_by c x xs = Some zs" "ys = y # zs"
      using Cons.prems(3) by auto
    have "set zs = insert x (set xs)"
      using insert_by_perm [OF zs(1)] by (metis set_mset_add_mset_insert set_mset_mset)
    then show ?thesis
      using Cons.IH [of zs] Cons.prems(1,2) zs True by auto
  next
    case False
    then have "c x y = Some Less \<or> c x y = Some Equal"
      using Cons.prems(1) by (auto simp: cmp_def)
    then have "ys = x # y # xs"
      using Cons.prems(3) by auto
    then show ?thesis
      using Cons.prems(2) False by auto
  qed
qed auto

lemma sort_by_sorted:
  assumes "\<And>x y. x \<in> set xs \<Longrightarrow> y \<in> set xs \<Longrightarrow> c x y = Some (cmp (k x) (k y))" and "sort_by c xs = Some ys"
  shows "sorted (map k ys)"
  using assms
proof (induction xs arbitrary: ys)
  case (Cons x xs)
  then obtain zs where zs: "sort_by c xs = Some zs" "insert_by c x zs = Some ys"
    by (auto split: bind_splits)
  have "set zs = set xs"
    using sort_by_perm [OF zs(1)] by (metis mset_eq_setD)
  then show ?case
    using insert_by_sorted [of zs c x k ys] Cons.IH [OF _ zs(1)] Cons.prems(1) zs(2) by auto
qed simp

lemma sort_by_key:
  assumes "\<And>x y. x \<in> set xs \<Longrightarrow> y \<in> set xs \<Longrightarrow> c x y = Some (cmp (k x) (k y))"
  shows "\<exists>ys. sort_by c xs = Some ys \<and> mset ys = mset xs \<and> sorted (map k ys)"
proof -
  obtain ys where ys: "sort_by c xs = Some ys"
    using sort_by_total [of xs c] assms by auto
  then show ?thesis
    using sort_by_perm [OF ys] sort_by_sorted [of xs c k, OF assms ys] by blast
qed

text \<open>
  Candidates are packed in the order of their priority. With the bandwidth limit on, prioritizing
  gives every candidate the product of its own priority and that of its channel, keeps all of
  them, and sorts them by descending priority, then fragments before singles, then short singles
  before long ones, then by send order, channel and fragment index; with the limit off all
  candidates have the same priority.
\<close>

theorem candidates_are_packed_by_priority:
  assumes "\<forall>c \<in> set cs. candidate_ok c" and "enabled \<Longrightarrow> \<forall>c \<in> set cs. settings_from_net_id (sc_channel_id c) \<noteq> None"
  shows "\<exists>ys. prioritize N settings_from_net_id enabled cs = Some ys \<and>
    mset ys = mset (map (\<lambda>c. c\<lparr>sc_effective_priority :=
      if enabled then f32_mul N (sm_priority (sc_message c)) (cs_priority (the (settings_from_net_id (sc_channel_id c))))
      else f32_zero N\<rparr>) cs) \<and>
    sorted (map (\<lambda>c. (- f32_total_key N (sc_effective_priority c), packing_key c)) ys)"
proof -
  let ?p = "\<lambda>c. if enabled then f32_mul N (sm_priority (sc_message c)) (cs_priority (the (settings_from_net_id (sc_channel_id c))))
      else f32_zero N"
  let ?cs = "map (\<lambda>c. c\<lparr>sc_effective_priority := ?p c\<rparr>) cs"
  let ?key = "\<lambda>c. (- f32_total_key N (sc_effective_priority c), packing_key c)"
  have ok: "\<forall>c \<in> set ?cs. candidate_ok c"
    using assms(1) by (auto simp: candidate_ok_def)
  have order: "packing_order a b = Some (cmp (packing_key a) (packing_key b))" if "a \<in> set ?cs" "b \<in> set ?cs" for a b
    using ok that packing_order_key by blast
  show ?thesis
  proof (cases enabled)
    case True
    have prio: "those (map (\<lambda>c. map_option (\<lambda>s. c\<lparr>sc_effective_priority := f32_mul N (sm_priority (sc_message c)) (cs_priority s)\<rparr>)
        (settings_from_net_id (sc_channel_id c))) cs) = Some ?cs"
      using assms(2) [OF True] True by (induction cs) auto
    have "then_with (Some (cmp (f32_total_key N (sc_effective_priority b)) (f32_total_key N (sc_effective_priority a)))) (packing_order a b) =
        Some (cmp (?key a) (?key b))" if "a \<in> set ?cs" "b \<in> set ?cs" for a b
      using order [OF that] by (auto simp: then_with_def cmp_def)
    from sort_by_key [of ?cs _ ?key, OF this] show ?thesis
      using prio True by (auto simp: prioritize_def)
  next
    case False
    have "packing_order a b = Some (cmp (?key a) (?key b))" if "a \<in> set ?cs" "b \<in> set ?cs" for a b
      using order [OF that] that False by (auto simp: cmp_def)
    from sort_by_key [of ?cs _ ?key, OF this] show ?thesis
      using False by (auto simp: prioritize_def)
  qed
qed

definition example_candidate :: "channel_id \<Rightarrow> bytes \<Rightarrow> (unit, nat) send_candidate" where
  "example_candidate c bs = new_with_send_order () c (UnreliableSingle 0) 0
     \<lparr>sm_data = Single \<lparr>sd_id = None, sd_bytes = bs\<rparr>, sm_priority = 1\<rparr>"

definition example_settings :: "channel_id \<Rightarrow> nat channel_settings option" where
  "example_settings c = Some \<lparr>cs_mode = UnorderedUnreliable, cs_send_frequency = 0, cs_priority = unat c,
     cs_retry_unsent_messages = True, cs_timeline = None\<rparr>"

theorem candidates_are_packed_by_priority_witness:
  "\<exists>ys. prioritize example_f32 example_settings True [example_candidate 3 [1, 2], example_candidate 5 [3]] = Some ys \<and>
     mset (map sc_effective_priority ys) = {#3, 5#} \<and> sorted (map (\<lambda>c. - int (sc_effective_priority c)) ys)"
proof -
  let ?cs = "[example_candidate 3 [1, 2], example_candidate 5 [3]]"
  have ok: "\<forall>c \<in> set ?cs. candidate_ok c"
    and reg: "\<forall>c \<in> set ?cs. example_settings (sc_channel_id c) \<noteq> None"
    by (simp_all add: example_candidate_def new_with_send_order_def candidate_ok_def count_ok_def example_settings_def)
  obtain ys where ys: "prioritize example_f32 example_settings True ?cs = Some ys"
    and perm: "mset ys = mset (map (\<lambda>c. c\<lparr>sc_effective_priority := f32_mul example_f32 (sm_priority (sc_message c))
      (cs_priority (the (example_settings (sc_channel_id c))))\<rparr>) ?cs)"
    and sorted: "sorted (map (\<lambda>c. (- f32_total_key example_f32 (sc_effective_priority c), packing_key c)) ys)"
    using candidates_are_packed_by_priority [OF ok, of True example_settings example_f32] reg by auto
  have "mset (map sc_effective_priority ys) = image_mset sc_effective_priority (mset ys)"
    by simp
  then have "mset (map sc_effective_priority ys) = {#3, 5#}"
    unfolding perm by (simp add: example_candidate_def new_with_send_order_def example_settings_def example_f32_def)
  moreover have "sorted (map (\<lambda>c. - int (sc_effective_priority c)) ys)"
    using sorted by (simp add: sorted_iff_nth_mono example_f32_def) (meson less_imp_le)
  ultimately show ?thesis
    using ys by blast
qed

end
