(* ===== verification/Link.thy ===== *)
theory Link
  imports Packet_Header Message
begin

text \<open>
  The link between a transport and the input and output layer (\<open>crates/io/link/src/lib.rs\<close>,
  \<open>mtu.rs\<close>, \<open>conditioner.rs\<close>, and the observer of \<open>server.rs\<close> that hands the conditioner of a server
  to its links): two queues of payloads, the maximum payload size, the lifecycle markers and the
  simulated network conditions. A payload is its bytes; an instant is in nanoseconds. The floats of the
  loss model and the random generator are parameters; \<open>None\<close> is a panic.
\<close>

section \<open>Maximum payload size\<close>

record link_mtu =
  lm_min_mtu :: nat
  lm_mtu :: nat

record mtu_too_small =
  mt_mtu :: nat
  mt_min :: nat

definition link_mtu_new :: "nat \<Rightarrow> link_mtu" where
  "link_mtu_new min_mtu = \<lparr>lm_min_mtu = min_mtu, lm_mtu = min_mtu\<rparr>"

definition link_mtu_default :: link_mtu where
  "link_mtu_default = link_mtu_new DEFAULT_MTU"

definition lm_set_mtu :: "nat \<Rightarrow> link_mtu \<Rightarrow> mtu_too_small + link_mtu" where
  "lm_set_mtu mtu m =
     (if mtu < lm_min_mtu m then Inl \<lparr>mt_mtu = mtu, mt_min = lm_min_mtu m\<rparr> else Inr (m\<lparr>lm_mtu := mtu\<rparr>))"

section \<open>Simulated network conditions\<close>

text \<open>
  \<open>lo_lit n d\<close> is the float literal nearest to \<open>n / d\<close>; the comparisons are those of floats.
\<close>

record 'f loss_ops =
  lo_lit :: "nat \<Rightarrow> nat \<Rightarrow> 'f"
  lo_add :: "'f \<Rightarrow> 'f \<Rightarrow> 'f"
  lo_sub :: "'f \<Rightarrow> 'f \<Rightarrow> 'f"
  lo_mul :: "'f \<Rightarrow> 'f \<Rightarrow> 'f"
  lo_div :: "'f \<Rightarrow> 'f \<Rightarrow> 'f"
  lo_lt :: "'f \<Rightarrow> 'f \<Rightarrow> bool"
  lo_le :: "'f \<Rightarrow> 'f \<Rightarrow> bool"

datatype link_conditioner_state = Good | Bad

record 'f link_conditioner_config =
  incoming_latency :: duration
  incoming_jitter :: duration
  good_loss :: 'f
  bad_loss :: 'f
  good_to_bad :: 'f
  bad_to_good :: 'f

definition conditioner_config_default :: "'f loss_ops \<Rightarrow> 'f link_conditioner_config" where
  "conditioner_config_default F =
     \<lparr>incoming_latency = 0, incoming_jitter = 0, good_loss = lo_lit F 0 1, bad_loss = lo_lit F 0 1,
      good_to_bad = lo_lit F 0 1, bad_to_good = lo_lit F 0 1\<rparr>"

definition with_incoming_latency :: "duration \<Rightarrow> 'f link_conditioner_config \<Rightarrow> 'f link_conditioner_config" where
  "with_incoming_latency d c = c\<lparr>incoming_latency := d\<rparr>"

definition with_incoming_jitter :: "duration \<Rightarrow> 'f link_conditioner_config \<Rightarrow> 'f link_conditioner_config" where
  "with_incoming_jitter d c = c\<lparr>incoming_jitter := d\<rparr>"

definition with_fixed_loss :: "'f loss_ops \<Rightarrow> 'f \<Rightarrow> 'f link_conditioner_config \<Rightarrow> 'f link_conditioner_config" where
  "with_fixed_loss F p c = c\<lparr>good_loss := p, bad_loss := p, good_to_bad := lo_lit F 0 1, bad_to_good := lo_lit F 0 1\<rparr>"

definition with_gilbert_elliott_loss ::
  "'f loss_ops \<Rightarrow> 'f \<Rightarrow> 'f \<Rightarrow> 'f \<Rightarrow> 'f \<Rightarrow> 'f link_conditioner_config \<Rightarrow> 'f link_conditioner_config" where
  "with_gilbert_elliott_loss F mean_loss mean_bad_len bad min_loss c =
     (let to_good = lo_div F (lo_lit F 1 1) mean_bad_len;
          stationary_bad = lo_div F (lo_sub F mean_loss min_loss) (lo_sub F bad min_loss);
          to_bad = lo_div F (lo_mul F stationary_bad to_good) (lo_sub F (lo_lit F 1 1) stationary_bad)
      in c\<lparr>good_loss := min_loss, bad_loss := bad, good_to_bad := to_bad, bad_to_good := to_good\<rparr>)"

definition with_gilbert_loss ::
  "'f loss_ops \<Rightarrow> 'f \<Rightarrow> 'f \<Rightarrow> 'f \<Rightarrow> 'f link_conditioner_config \<Rightarrow> 'f link_conditioner_config" where
  "with_gilbert_loss F mean_loss mean_bad_len bad c =
     with_gilbert_elliott_loss F mean_loss mean_bad_len bad (lo_lit F 0 1) c"

definition with_simple_gilbert_loss ::
  "'f loss_ops \<Rightarrow> 'f \<Rightarrow> 'f \<Rightarrow> 'f link_conditioner_config \<Rightarrow> 'f link_conditioner_config" where
  "with_simple_gilbert_loss F mean_loss mean_bad_len c =
     with_gilbert_elliott_loss F mean_loss mean_bad_len (lo_lit F 1 1) (lo_lit F 0 1) c"

definition config_mean_loss :: "'f loss_ops \<Rightarrow> 'f link_conditioner_config \<Rightarrow> 'f" where
  "config_mean_loss F c =
     (let transition = lo_add F (good_to_bad c) (bad_to_good c) in
      if lo_le F transition (lo_lit F 0 1) then good_loss c
      else
        (let stationary_bad = lo_div F (good_to_bad c) transition in
         lo_add F (lo_mul F (lo_sub F (lo_lit F 1 1) stationary_bad) (good_loss c))
           (lo_mul F stationary_bad (bad_loss c))))"

definition half :: "'f loss_ops \<Rightarrow> 'f link_conditioner_config \<Rightarrow> 'f link_conditioner_config" where
  "half F c =
     c\<lparr>incoming_latency := incoming_latency c div 2, incoming_jitter := incoming_jitter c div 2,
       good_loss := lo_div F (good_loss c) (lo_lit F 2 1), bad_loss := lo_div F (bad_loss c) (lo_lit F 2 1)\<rparr>"

definition from_millis :: "nat \<Rightarrow> duration" where
  "from_millis ms = ms * 1000000"

definition as_millis :: "duration \<Rightarrow> nat" where
  "as_millis d = d div 1000000"

definition good_condition :: "'f loss_ops \<Rightarrow> 'f link_conditioner_config" where
  "good_condition F = with_fixed_loss F (lo_lit F 2 1000) (with_incoming_jitter (from_millis 6)
     (with_incoming_latency (from_millis 40) (conditioner_config_default F)))"

definition average_condition :: "'f loss_ops \<Rightarrow> 'f link_conditioner_config" where
  "average_condition F = with_fixed_loss F (lo_lit F 2 100) (with_incoming_jitter (from_millis 15)
     (with_incoming_latency (from_millis 100) (conditioner_config_default F)))"

definition poor_condition :: "'f loss_ops \<Rightarrow> 'f link_conditioner_config" where
  "poor_condition F = with_fixed_loss F (lo_lit F 10 100) (with_incoming_jitter (from_millis 30)
     (with_incoming_latency (from_millis 200) (conditioner_config_default F)))"

text \<open>
  The draws of the random generator for one packet: two floats of the range \<open>0.0..1.0\<close> and, for two bounds,
  an integer of the range between them. Sampling an empty range of integers panics.
\<close>

record 'f draws =
  dr_transition :: 'f
  dr_loss :: 'f
  dr_offset :: "32 word \<Rightarrow> 32 word \<Rightarrow> 32 word"

record ('f, 'p) link_conditioner =
  lc_config :: "'f link_conditioner_config"
  lc_state :: link_conditioner_state
  lc_time_queue :: "(duration, 'p) ready_buffer"

definition link_conditioner_new :: "'f link_conditioner_config \<Rightarrow> ('f, 'p) link_conditioner" where
  "link_conditioner_new config = \<lparr>lc_config = config, lc_state = Good, lc_time_queue = rb_new\<rparr>"

definition random_range :: "32 word \<Rightarrow> 32 word \<Rightarrow> (32 word \<Rightarrow> 32 word \<Rightarrow> 32 word) \<Rightarrow> 32 word option" where
  "random_range low high draw = (if sint low < sint high then Some (draw low high) else None)"

text \<open>The delay of a packet, a signed 32-bit number of milliseconds.\<close>

definition packet_latency :: "'f link_conditioner_config \<Rightarrow> 'f draws \<Rightarrow> 32 word option" where
  "packet_latency config d =
     (let latency = word_of_nat (as_millis (incoming_latency config)) in
      if incoming_jitter config > 0 then
        (let jitter = word_of_nat (as_millis (incoming_jitter config)) in
         map_option (\<lambda>offset. latency + offset) (random_range (- jitter) jitter (dr_offset d)))
      else Some latency)"

definition condition_packet ::
  "'f loss_ops \<Rightarrow> 'f draws \<Rightarrow> 'p \<Rightarrow> duration \<Rightarrow> ('f, 'p) link_conditioner \<Rightarrow> ('f, 'p) link_conditioner option" where
  "condition_packet F d packet instant c =
     (let config = lc_config c;
          (packet_loss_probability, state_transition_probability) =
            (case lc_state c of
               Good \<Rightarrow> (good_loss config, good_to_bad config)
             | Bad \<Rightarrow> (bad_loss config, bad_to_good config));
          c = (if lo_lt F (dr_transition d) state_transition_probability
               then c\<lparr>lc_state := (case lc_state c of Good \<Rightarrow> Bad | Bad \<Rightarrow> Good)\<rparr> else c)
      in
      if lo_lt F (dr_loss d) packet_loss_probability then Some c
      else
        map_option (\<lambda>latency.
          (let packet_timestamp = (if sint latency > 0 then instant + from_millis (nat (sint latency)) else instant)
           in c\<lparr>lc_time_queue := rb_push packet_timestamp packet (lc_time_queue c)\<rparr>)) (packet_latency config d))"

definition pop_packet :: "duration \<Rightarrow> ('f, 'p) link_conditioner \<Rightarrow> 'p option \<times> ('f, 'p) link_conditioner" where
  "pop_packet instant c =
     (let (item, queue) = pop_item instant (lc_time_queue c) in (map_option snd item, c\<lparr>lc_time_queue := queue\<rparr>))"

section \<open>Queues\<close>

record 'f link_receiver =
  lr_buffer :: "bytes list"
  lr_conditioner :: "('f, bytes) link_conditioner option"

definition lr_drain :: "'f link_receiver \<Rightarrow> bytes list \<times> 'f link_receiver" where
  "lr_drain r = (lr_buffer r, r\<lparr>lr_buffer := []\<rparr>)"

definition lr_pop :: "'f link_receiver \<Rightarrow> bytes option \<times> 'f link_receiver" where
  "lr_pop r = (case lr_buffer r of [] \<Rightarrow> (None, r) | x # xs \<Rightarrow> (Some x, r\<lparr>lr_buffer := xs\<rparr>))"

definition push_raw :: "bytes \<Rightarrow> 'f link_receiver \<Rightarrow> 'f link_receiver" where
  "push_raw value r = r\<lparr>lr_buffer := lr_buffer r @ [value]\<rparr>"

definition lr_push :: "'f loss_ops \<Rightarrow> 'f draws \<Rightarrow> bytes \<Rightarrow> duration \<Rightarrow> 'f link_receiver \<Rightarrow> 'f link_receiver option" where
  "lr_push F d value instant r =
     (case lr_conditioner r of
        Some conditioner \<Rightarrow>
          map_option (\<lambda>c. r\<lparr>lr_conditioner := Some c\<rparr>) (condition_packet F d value instant conditioner)
      | None \<Rightarrow> Some (push_raw value r))"

definition lr_len :: "'f link_receiver \<Rightarrow> nat" where
  "lr_len r = length (lr_buffer r)"

type_synonym link_sender = "bytes list"

definition ls_drain :: "link_sender \<Rightarrow> bytes list \<times> link_sender" where
  "ls_drain s = (s, [])"

definition ls_pop :: "link_sender \<Rightarrow> bytes option \<times> link_sender" where
  "ls_pop s = (case s of [] \<Rightarrow> (None, s) | x # xs \<Rightarrow> (Some x, xs))"

definition ls_push :: "bytes \<Rightarrow> link_sender \<Rightarrow> link_sender" where
  "ls_push value s = s @ [value]"

definition ls_push_front :: "bytes \<Rightarrow> link_sender \<Rightarrow> link_sender" where
  "ls_push_front value s = value # s"

definition ls_len :: "link_sender \<Rightarrow> nat" where
  "ls_len s = length s"

section \<open>The link\<close>

datatype link_state = LinkedState | LinkingState | UnlinkedState

record 'f link =
  lk_recv :: "'f link_receiver"
  lk_send :: link_sender
  lk_state :: link_state
  lk_stats :: link_stats
  lk_mtu :: link_mtu

definition link_default :: "'f link" where
  "link_default = \<lparr>lk_recv = \<lparr>lr_buffer = [], lr_conditioner = None\<rparr>, lk_send = [], lk_state = UnlinkedState,
     lk_stats = \<lparr>rtt = 0, jitter = 0\<rparr>, lk_mtu = link_mtu_default\<rparr>"

definition with_conditioner :: "('f, bytes) link_conditioner option \<Rightarrow> 'f link \<Rightarrow> 'f link" where
  "with_conditioner recv_conditioner l = l\<lparr>lk_recv := (lk_recv l)\<lparr>lr_conditioner := recv_conditioner\<rparr>\<rparr>"

definition with_mtu :: "link_mtu \<Rightarrow> 'f link \<Rightarrow> 'f link" where
  "with_mtu mtu l = l\<lparr>lk_mtu := mtu\<rparr>"

definition link_current_mtu :: "'f link \<Rightarrow> nat" where
  "link_current_mtu l = lm_mtu (lk_mtu l)"

definition link_min_mtu :: "'f link \<Rightarrow> nat" where
  "link_min_mtu l = lm_min_mtu (lk_mtu l)"

definition link_set_mtu :: "nat \<Rightarrow> 'f link \<Rightarrow> mtu_too_small + 'f link" where
  "link_set_mtu mtu l = (case lm_set_mtu mtu (lk_mtu l) of Inl e \<Rightarrow> Inl e | Inr m \<Rightarrow> Inr (l\<lparr>lk_mtu := m\<rparr>))"

definition link_send :: "bytes \<Rightarrow> 'f link \<Rightarrow> 'f link" where
  "link_send payload l = l\<lparr>lk_send := ls_push payload (lk_send l)\<rparr>"

text \<open>
  The system reads the clock at each round of its loop: \<open>clock\<close> gives the instants
  it reads. The loop ends since every round takes a packet out of the queue.
\<close>

function move_ready :: "(nat \<Rightarrow> duration) \<Rightarrow> nat \<Rightarrow> ('f, bytes) link_conditioner \<Rightarrow> bytes list \<Rightarrow>
    ('f, bytes) link_conditioner \<times> bytes list" where
  "move_ready clock i conditioner buffer =
     (case pop_packet (clock i) conditioner of
        (Some packet, conditioner) \<Rightarrow> move_ready clock (i + 1) conditioner (buffer @ [packet])
      | (None, conditioner) \<Rightarrow> (conditioner, buffer))"
  by pat_completeness auto
termination
  by (relation "measure (\<lambda>(clock, i, c, b). length (lc_time_queue c))")
    (auto simp: pop_packet_def pop_item_def heap_pop_def split: if_splits list.splits)

declare move_ready.simps [simp del]

definition apply_link_conditioner :: "(nat \<Rightarrow> duration) \<Rightarrow> 'f link \<Rightarrow> 'f link" where
  "apply_link_conditioner clock l =
     (case lr_conditioner (lk_recv l) of
        None \<Rightarrow> l
      | Some conditioner \<Rightarrow>
          (let (conditioner, buffer) = move_ready clock 0 conditioner (lr_buffer (lk_recv l))
           in l\<lparr>lk_recv := \<lparr>lr_buffer = buffer, lr_conditioner = Some conditioner\<rparr>\<rparr>))"

text \<open>The observer of a new link of a server: the queued packets are pushed again, through the conditioner.\<close>

fun push_all :: "'f loss_ops \<Rightarrow> (bytes \<times> duration \<times> 'f draws) list \<Rightarrow> 'f link_receiver \<Rightarrow> 'f link_receiver option" where
  "push_all F [] r = Some r"
| "push_all F ((packet, instant, d) # rest) r = Option.bind (lr_push F d packet instant r) (push_all F rest)"

definition add_server_link_conditioner ::
  "'f loss_ops \<Rightarrow> (nat \<Rightarrow> duration) \<Rightarrow> (nat \<Rightarrow> 'f draws) \<Rightarrow> ('f, bytes) link_conditioner option \<Rightarrow> 'f link \<Rightarrow> 'f link option" where
  "add_server_link_conditioner F clock draw server_conditioner l =
     (case server_conditioner of
        None \<Rightarrow> Some l
      | Some conditioner \<Rightarrow>
          if lr_conditioner (lk_recv l) \<noteq> None then Some l
          else
            (let (queued_packets, recv) = lr_drain (lk_recv l);
                 recv = recv\<lparr>lr_conditioner := Some conditioner\<rparr>
             in map_option (\<lambda>recv. l\<lparr>lk_recv := recv\<rparr>)
                  (push_all F (map (\<lambda>(i, packet). (packet, clock i, draw i)) (enumerate 0 queued_packets)) recv)))"

section \<open>Lifecycle\<close>

datatype unlink_reason =
    Initial
  | UserRequested "string option"
  | ServerStopped
  | ByPeer string
  | TransportError string

definition unlink_reason_fmt :: "unlink_reason \<Rightarrow> string" where
  "unlink_reason_fmt r =
     (case r of
        Initial \<Rightarrow> ''Not connected''
      | UserRequested (Some reason) \<Rightarrow> ''User requested: '' @ reason
      | UserRequested None \<Rightarrow> ''User requested''
      | ServerStopped \<Rightarrow> ''Server stopped''
      | ByPeer reason \<Rightarrow> ''Disconnected by peer: '' @ reason
      | TransportError reason \<Rightarrow> ''Transport error: '' @ reason)"

text \<open>
  The markers of an entity with a link. Inserting one runs its hook; the removals the hook queues
  are applied before the next insertion.
\<close>

record 'f link_entity =
  le_linking :: bool
  le_linked :: bool
  le_unlinked :: "unlink_reason option"
  le_link :: "'f link"

definition insert_linking :: "'f link_entity \<Rightarrow> 'f link_entity" where
  "insert_linking e =
     (let e = e\<lparr>le_linking := True\<rparr> in
      if le_linked e then e
      else e\<lparr>le_link := (le_link e)\<lparr>lk_state := LinkingState\<rparr>, le_linked := False, le_unlinked := None\<rparr>)"

definition insert_linked :: "'f link_entity \<Rightarrow> 'f link_entity" where
  "insert_linked e =
     (let e = e\<lparr>le_linked := True\<rparr> in
      e\<lparr>le_link := (le_link e)\<lparr>lk_state := LinkedState\<rparr>, le_linking := False, le_unlinked := None\<rparr>)"

definition insert_unlinked :: "unlink_reason \<Rightarrow> 'f link_entity \<Rightarrow> 'f link_entity" where
  "insert_unlinked reason e =
     (let e = e\<lparr>le_unlinked := Some reason\<rparr> in
      e\<lparr>le_link := (le_link e)\<lparr>lk_state := UnlinkedState\<rparr>, le_linked := False, le_linking := False\<rparr>)"

definition unlink :: "unlink_reason \<Rightarrow> 'f link_entity \<Rightarrow> 'f link_entity" where
  "unlink reason e = insert_unlinked reason e"

text \<open>The hook of a new server: an entity with no marker becomes unlinked.\<close>

definition server_on_add :: "'f link_entity \<Rightarrow> 'f link_entity" where
  "server_on_add e =
     (if le_unlinked e = None \<and> \<not> le_linked e \<and> \<not> le_linking e then insert_unlinked Initial e else e)"

text \<open>
  The state of the link follows the markers, and the marker of an unlinked entity excludes the
  others. The two other markers do not exclude each other: an entity that is linked keeps the marker of a
  link in progress when it is inserted.
\<close>

definition lifecycle_ok :: "'f link_entity \<Rightarrow> bool" where
  "lifecycle_ok e \<longleftrightarrow>
     (lk_state (le_link e) = LinkedState \<longleftrightarrow> le_linked e) \<and>
     (lk_state (le_link e) = LinkingState \<longleftrightarrow> le_linking e \<and> \<not> le_linked e) \<and>
     (lk_state (le_link e) = UnlinkedState \<longleftrightarrow> le_unlinked e \<noteq> None)"

lemma lifecycle_ok_insert:
  "lifecycle_ok (insert_linked e)" "lifecycle_ok (insert_unlinked reason e)"
  "lifecycle_ok e \<Longrightarrow> lifecycle_ok (insert_linking e)" "lifecycle_ok e \<Longrightarrow> lifecycle_ok (server_on_add e)"
  by (auto simp: lifecycle_ok_def insert_linked_def insert_unlinked_def insert_linking_def server_on_add_def Let_def)

lemma linked_keeps_linking_marker:
  "le_linked (insert_linking (insert_linked e)) \<and> le_linking (insert_linking (insert_linked e))"
  by (simp add: insert_linked_def insert_linking_def Let_def)

section \<open>What a conditioned link delivers\<close>

text \<open>
  The reference: the packets that the two-state loss model keeps, each with the instant at which it
  may be delivered. It does not look at the queue.
\<close>

definition chain_step :: "'f loss_ops \<Rightarrow> 'f link_conditioner_config \<Rightarrow> 'f draws \<Rightarrow> link_conditioner_state \<Rightarrow> link_conditioner_state" where
  "chain_step F config d st =
     (case st of
        Good \<Rightarrow> if lo_lt F (dr_transition d) (good_to_bad config) then Bad else Good
      | Bad \<Rightarrow> if lo_lt F (dr_transition d) (bad_to_good config) then Good else Bad)"

definition packet_lost :: "'f loss_ops \<Rightarrow> 'f link_conditioner_config \<Rightarrow> 'f draws \<Rightarrow> link_conditioner_state \<Rightarrow> bool" where
  "packet_lost F config d st = lo_lt F (dr_loss d) (case st of Good \<Rightarrow> good_loss config | Bad \<Rightarrow> bad_loss config)"

definition delivery_instant :: "duration \<Rightarrow> 32 word \<Rightarrow> duration" where
  "delivery_instant instant latency = instant + from_millis (nat (sint latency))"

fun survivors ::
  "'f loss_ops \<Rightarrow> 'f link_conditioner_config \<Rightarrow> link_conditioner_state \<Rightarrow> (bytes \<times> duration \<times> 'f draws) list \<Rightarrow>
   (duration \<times> bytes) list" where
  "survivors F config st [] = []"
| "survivors F config st ((packet, instant, d) # rest) =
     (if packet_lost F config d st then []
      else [(delivery_instant instant (the (packet_latency config d)), packet)]) @
     survivors F config (chain_step F config d st) rest"

lemma delivery_instant_eq:
  "(if 0 < sint latency then instant + from_millis (nat (sint latency)) else instant) = delivery_instant instant latency"
  by (simp add: delivery_instant_def from_millis_def)

lemma condition_packet_spec:
  assumes "condition_packet F d packet instant c = Some c'"
  shows "lc_config c' = lc_config c" "lc_state c' = chain_step F (lc_config c) d (lc_state c)"
    "mset (lc_time_queue c') = mset (lc_time_queue c) +
       (if packet_lost F (lc_config c) d (lc_state c) then {#}
        else {#(delivery_instant instant (the (packet_latency (lc_config c) d)), packet)#})"
    "sorted (map fst (lc_time_queue c)) \<Longrightarrow> sorted (map fst (lc_time_queue c'))"
  using assms
  by (auto simp: condition_packet_def chain_step_def packet_lost_def delivery_instant_eq
      rb_push_def heap_push_def Let_def sorted_insort_key split: link_conditioner_state.splits if_splits)

lemma push_all_survivors:
  assumes "push_all F sends r = Some r'" "lr_conditioner r = Some c" "sorted (map fst (lc_time_queue c))"
  obtains c' where "lr_conditioner r' = Some c'" "lr_buffer r' = lr_buffer r" "sorted (map fst (lc_time_queue c'))"
    "mset (lc_time_queue c') = mset (lc_time_queue c) + mset (survivors F (lc_config c) (lc_state c) sends)"
proof -
  have "\<exists>c'. lr_conditioner r' = Some c' \<and> lr_buffer r' = lr_buffer r \<and> sorted (map fst (lc_time_queue c')) \<and>
    mset (lc_time_queue c') = mset (lc_time_queue c) + mset (survivors F (lc_config c) (lc_state c) sends)"
    using assms
  proof (induction sends arbitrary: r c)
    case (Cons send sends)
    obtain packet instant d where send: "send = (packet, instant, d)"
      by (cases send)
    with Cons.prems obtain r1 where r1: "lr_push F d packet instant r = Some r1" "push_all F sends r1 = Some r'"
      by (auto simp: bind_eq_Some_conv)
    then obtain c1 where c1: "condition_packet F d packet instant c = Some c1" "r1 = r\<lparr>lr_conditioner := Some c1\<rparr>"
      using Cons.prems(2) by (auto simp: lr_push_def)
    note spec = condition_packet_spec [OF c1(1)]
    from Cons.IH [OF r1(2), of c1] c1(2) spec(4) [OF Cons.prems(3)] show ?case
      by (auto simp: send spec)
  qed auto
  then show ?thesis
    using that by blast
qed

lemma condition_packet_total:
  "packet_latency (lc_config c) d \<noteq> None \<Longrightarrow> \<exists>c'. condition_packet F d packet instant c = Some c'"
  by (auto simp: condition_packet_def Let_def split: link_conditioner_state.splits)

lemma push_all_total:
  assumes "\<forall>(packet, instant, d) \<in> set sends. packet_latency (lc_config c) d \<noteq> None" "lr_conditioner r = Some c"
  shows "\<exists>r'. push_all F sends r = Some r'"
  using assms
proof (induction sends arbitrary: r c)
  case (Cons send sends)
  obtain packet instant d where send: "send = (packet, instant, d)"
    by (cases send)
  with Cons.prems(1) obtain c1 where c1: "condition_packet F d packet instant c = Some c1"
    using condition_packet_total [of c d F packet instant] by auto
  then have "lr_push F d packet instant r = Some (r\<lparr>lr_conditioner := Some c1\<rparr>)"
    using Cons.prems(2) by (simp add: lr_push_def)
  with Cons.IH [of c1 "r\<lparr>lr_conditioner := Some c1\<rparr>"] Cons.prems(1) send show ?case
    by (simp add: condition_packet_spec(1) [OF c1])
qed simp

lemma move_ready_spec:
  assumes "move_ready clock i c buffer = (c', buffer')" "sorted (map fst (lc_time_queue c))"
  obtains moved where "buffer' = buffer @ map snd moved" "lc_time_queue c = moved @ lc_time_queue c'"
    "\<forall>j < length moved. fst (moved ! j) \<le> clock (i + j)"
    "\<forall>x \<in> set (lc_time_queue c'). clock (i + length moved) < fst x"
proof -
  have "\<exists>moved. buffer' = buffer @ map snd moved \<and> lc_time_queue c = moved @ lc_time_queue c' \<and>
    (\<forall>j < length moved. fst (moved ! j) \<le> clock (i + j)) \<and>
    (\<forall>x \<in> set (lc_time_queue c'). clock (i + length moved) < fst x)"
    using assms
  proof (induction "lc_time_queue c" arbitrary: i c buffer)
    case Nil
    then show ?case
      by (auto simp: move_ready.simps [of _ _ c] pop_packet_def pop_item_def has_item_def heap_peek_def)
  next
    case (Cons x q)
    note q = Cons.hyps(2) [symmetric]
    show ?case
    proof (cases "fst x \<le> clock i")
      case True
      let ?c = "c\<lparr>lc_time_queue := q\<rparr>"
      have "move_ready clock (i + 1) ?c (buffer @ [snd x]) = (c', buffer')"
        using Cons.prems(1) True
        by (simp add: move_ready.simps [of _ _ c] pop_packet_def pop_item_def has_item_def heap_peek_def heap_pop_def q)
      from Cons.hyps(1) [of ?c, OF _ this] Cons.prems(2) obtain moved where
        moved: "buffer' = buffer @ map snd (x # moved)" "q = moved @ lc_time_queue c'"
        "\<forall>j < length moved. fst (moved ! j) \<le> clock (i + 1 + j)"
        "\<forall>y \<in> set (lc_time_queue c'). clock (i + length (x # moved)) < fst y"
        by (auto simp: q)
      then show ?thesis
        using True by (intro exI [of _ "x # moved"]) (auto simp: q nth_Cons split: nat.splits)
    next
      case False
      then have "pop_packet (clock i) c = (None, c)"
        using q by (cases c) (simp add: pop_packet_def pop_item_def has_item_def heap_peek_def split: list.splits)
      with Cons.prems(1) have "c' = c" "buffer' = buffer"
        by (simp_all add: move_ready.simps [of _ _ c])
      with False Cons.prems(2) show ?thesis
        by (intro exI [of _ "[]"]) (auto simp: q)
    qed
  qed
  then show ?thesis
    using that by blast
qed

text \<open>
  Packets pushed through the conditioner of a link are delivered exactly once and not early: the
  packets that the loss model keeps are split into those that the next polling appends to the receive
  queue, in the order of their delivery instants and each no later than the instant read when it was
  taken, and those that stay queued, all of which are still in the future when the polling stops. What
  was already available stays in front.
\<close>

theorem conditioned_link_delivers_survivors:
  assumes "lr_conditioner (lk_recv l) = Some (link_conditioner_new config)"
    and "push_all F sends (lk_recv l) = Some recv"
  shows "\<exists>moved left. lr_buffer (lk_recv (apply_link_conditioner clock (l\<lparr>lk_recv := recv\<rparr>))) =
           lr_buffer (lk_recv l) @ map snd moved \<and>
         mset moved + mset left = mset (survivors F config Good sends) \<and> sorted (map fst moved) \<and>
         (\<forall>i < length moved. fst (moved ! i) \<le> clock i) \<and> (\<forall>x \<in> set left. clock (length moved) < fst x)"
proof -
  obtain c where c: "lr_conditioner recv = Some c" "lr_buffer recv = lr_buffer (lk_recv l)" "sorted (map fst (lc_time_queue c))"
    "mset (lc_time_queue c) = mset (survivors F config Good sends)"
    using push_all_survivors [OF assms(2,1)] by (auto simp: link_conditioner_new_def rb_new_def)
  obtain c' buffer where m: "move_ready clock 0 c (lr_buffer recv) = (c', buffer)"
    by fastforce
  from move_ready_spec [OF this c(3)] obtain moved where moved: "buffer = lr_buffer recv @ map snd moved"
    "lc_time_queue c = moved @ lc_time_queue c'" "\<forall>j < length moved. fst (moved ! j) \<le> clock j"
    "\<forall>x \<in> set (lc_time_queue c'). clock (length moved) < fst x"
    by auto
  have "mset moved + mset (lc_time_queue c') = mset (survivors F config Good sends)" "sorted (map fst moved)"
    using c(3) moved(2) by (simp_all add: sorted_append flip: c(4))
  with moved c(1,2) m show ?thesis
    by (intro exI [of _ moved] exI [of _ "lc_time_queue c'"]) (simp add: apply_link_conditioner_def)
qed

definition example_loss :: "nat loss_ops" where
  "example_loss = \<lparr>lo_lit = (\<lambda>n d. n * 1000 div d), lo_add = (+), lo_sub = (-), lo_mul = (\<lambda>a b. a * b div 1000),
     lo_div = (\<lambda>a b. a * 1000 div b), lo_lt = (<), lo_le = (\<le>)\<rparr>"

definition example_link :: "nat link" where
  "example_link = with_conditioner (Some (link_conditioner_new (good_condition example_loss))) link_default"

definition example_draws :: "nat \<Rightarrow> nat draws" where
  "example_draws loss = \<lparr>dr_transition = 500, dr_loss = loss, dr_offset = (\<lambda>a b. a)\<rparr>"

theorem conditioned_link_delivers_survivors_witness:
  "\<exists>recv. push_all example_loss
       [([1], 0, example_draws 500), ([2], 1000000, example_draws 1), ([3], 2000000, example_draws 500)] (lk_recv example_link) = Some recv \<and>
     lr_buffer (lk_recv (apply_link_conditioner (\<lambda>_. from_millis 35) (example_link\<lparr>lk_recv := recv\<rparr>))) = [[1]]"
proof -
  let ?l = example_link
  let ?sends = "[([1], 0, example_draws 500), ([2], 1000000, example_draws 1), ([3], 2000000, example_draws 500)]"
  have latency: "packet_latency (good_condition example_loss) (example_draws x) = Some 34" for x
    by (simp add: packet_latency_def good_condition_def with_fixed_loss_def with_incoming_jitter_def with_incoming_latency_def
        conditioner_config_default_def as_millis_def from_millis_def random_range_def example_draws_def)
  have "\<exists>recv. push_all example_loss ?sends (lk_recv ?l) = Some recv"
    by (rule push_all_total [of _ "link_conditioner_new (good_condition example_loss)"])
      (simp_all add: latency link_conditioner_new_def with_conditioner_def example_link_def)
  then obtain recv where recv: "push_all example_loss ?sends (lk_recv ?l) = Some recv" ..
  have "survivors example_loss (good_condition example_loss) Good ?sends = [(from_millis 34, [1]), (2000000 + from_millis 34, [3])]"
    by (simp add: latency delivery_instant_def packet_lost_def chain_step_def)
      (simp add: good_condition_def with_fixed_loss_def example_loss_def example_draws_def with_incoming_jitter_def
        with_incoming_latency_def conditioner_config_default_def from_millis_def)
  then have kept: "mset (survivors example_loss (good_condition example_loss) Good ?sends) = {#(34000000, [1]), (36000000, [3])#}"
    by (simp only: mset.simps from_millis_def) (simp add: add_mset_commute)
  obtain moved "left" where m: "lr_buffer (lk_recv (apply_link_conditioner (\<lambda>_. from_millis 35) (?l\<lparr>lk_recv := recv\<rparr>))) = map snd moved"
    "mset moved + mset left = {#(34000000 :: nat, [1]), (36000000, [3])#}"
    "\<forall>i < length moved. fst (moved ! i) \<le> 35000000" "\<forall>x \<in> set left. 35000000 < fst x"
    using conditioned_link_delivers_survivors [OF _ recv, of "good_condition example_loss" "\<lambda>_. from_millis 35"]
    unfolding kept by (simp add: example_link_def with_conditioner_def link_default_def from_millis_def) blast
  have "moved = [(34000000, [1])]"
  proof -
    have "(36000000, [3]) \<notin> set moved" "(34000000, [1]) \<notin> set left"
      using m(3,4) by (force simp: in_set_conv_nth)+
    moreover have "(36000000, [3]) \<in># mset moved + mset left" "(34000000, [1]) \<in># mset moved + mset left"
      unfolding m(2) by simp_all
    ultimately obtain a b where "moved = a # b" "(34000000, [1]) \<in> set moved" "(36000000, [3]) \<in> set left"
      by (cases moved) auto
    then obtain m1 l1 where "mset moved = add_mset (34000000, [1]) m1" "mset left = add_mset (36000000, [3]) l1"
      by (metis mset_add set_mset_mset)
    with m(2) have "mset moved = {#(34000000, [1])#}"
      by (simp add: add_mset_commute)
    then show ?thesis
      by simp
  qed
  with m(1) recv show ?thesis
    by simp
qed

text \<open>
  A jitter of less than a millisecond is a positive duration, so the jitter is sampled, and is zero
  milliseconds, so the range that is sampled is empty: the first packet that is not lost panics.
\<close>

theorem submillisecond_jitter_panics:
  assumes "0 < incoming_jitter (lc_config c)" "incoming_jitter (lc_config c) < from_millis 1"
    and "\<not> packet_lost F (lc_config c) d (lc_state c)"
  shows "condition_packet F d packet instant c = None"
  using assms
  by (auto simp: condition_packet_def packet_lost_def packet_latency_def random_range_def as_millis_def from_millis_def
      Let_def split: link_conditioner_state.splits)

theorem submillisecond_jitter_panics_witness:
  "condition_packet example_loss (example_draws 500) [1]
     0 (link_conditioner_new (half example_loss (with_incoming_jitter (from_millis 1) (good_condition example_loss)))) = None"
  by (rule submillisecond_jitter_panics)
    (simp_all add: link_conditioner_new_def half_def with_incoming_jitter_def from_millis_def packet_lost_def
      good_condition_def with_fixed_loss_def example_loss_def example_draws_def)

end
