(* ===== verification/Transport.thy ===== *)
theory Transport
  imports Packet_Builder Link
begin

text \<open>
  The transport of one connection (\<open>crates/transport/transport/src/channel/builder.rs\<close>) with the
  registry of channels (\<open>channel/registry.rs\<close>, \<open>crates/core/utils/src/registry.rs\<close>), and the two systems
  that move packets between the link and the channels (\<open>plugin.rs\<close>). The systems run over the
  entities of a world; here each is the function of one entity. The triggered events are returned as a
  list. The metrics feature, the buffer pools and the tracing are left out. \<open>None\<close> is a panic.
\<close>

section \<open>The registry of channels\<close>

text \<open>A Rust type is given by its kind and its name.\<close>

record 'k type_mapper =
  ty_next_net_id :: u16
  ty_kind_map :: "'k \<rightharpoonup> u16 \<times> string"
  ty_id_map :: "u16 \<rightharpoonup> 'k"

definition type_mapper_new :: "'k type_mapper" where
  "type_mapper_new = \<lparr>ty_next_net_id = 0, ty_kind_map = Map.empty, ty_id_map = Map.empty\<rparr>"

definition ty_add :: "'k \<Rightarrow> string \<Rightarrow> 'k type_mapper \<Rightarrow> 'k type_mapper" where
  "ty_add kind name m =
     (if ty_kind_map m kind \<noteq> None then m
      else
        (let net_id = ty_next_net_id m in
         m\<lparr>ty_kind_map := (ty_kind_map m)(kind \<mapsto> (net_id, name)),
           ty_id_map := (ty_id_map m)(net_id \<mapsto> kind),
           ty_next_net_id := ty_next_net_id m + 1\<rparr>))"

definition ty_kind :: "u16 \<Rightarrow> 'k type_mapper \<Rightarrow> 'k option" where
  "ty_kind net_id m = ty_id_map m net_id"

definition ty_net_id :: "'k \<Rightarrow> 'k type_mapper \<Rightarrow> u16 option" where
  "ty_net_id kind m = map_option fst (ty_kind_map m kind)"

definition ty_name :: "'k \<Rightarrow> 'k type_mapper \<Rightarrow> string option" where
  "ty_name kind m = map_option snd (ty_kind_map m kind)"

text \<open>The hasher of the seahash crate is a parameter.\<close>

record 'h hasher_ops =
  hs_new :: 'h
  hs_write :: "string \<Rightarrow> 'h \<Rightarrow> 'h"
  hs_finish :: "'h \<Rightarrow> u64"

record 'h registry_hasher =
  rh_hasher :: 'h
  rh_hash :: "u64 option"

definition registry_hasher_default :: "'h hasher_ops \<Rightarrow> 'h registry_hasher" where
  "registry_hasher_default H = \<lparr>rh_hasher = hs_new H, rh_hash = None\<rparr>"

text \<open>\<open>None\<close> is the panic of a registration after the protocol was finished.\<close>

definition registry_hash :: "'h hasher_ops \<Rightarrow> string \<Rightarrow> 'h registry_hasher \<Rightarrow> 'h registry_hasher option" where
  "registry_hash H name h = (if rh_hash h \<noteq> None then None else Some (h\<lparr>rh_hasher := hs_write H name (rh_hasher h)\<rparr>))"

definition registry_hasher_finish :: "'h hasher_ops \<Rightarrow> 'h registry_hasher \<Rightarrow> 'h registry_hasher \<times> u64" where
  "registry_hasher_finish H h =
     (case rh_hash h of
        None \<Rightarrow> (let hash = hs_finish H (rh_hasher h) in (h\<lparr>rh_hash := Some hash\<rparr>, hash))
      | Some v \<Rightarrow> (h, v))"

record ('c, 'f, 'h) channel_registry =
  cg_settings_map :: "'c \<rightharpoonup> 'f channel_settings"
  cg_kind_map :: "'c type_mapper"
  cg_hasher :: "'h registry_hasher"

definition channel_registry_default :: "'h hasher_ops \<Rightarrow> ('c, 'f, 'h) channel_registry" where
  "channel_registry_default H =
     \<lparr>cg_settings_map = Map.empty, cg_kind_map = type_mapper_new, cg_hasher = registry_hasher_default H\<rparr>"

definition registry_settings :: "'c \<Rightarrow> ('c, 'f, 'h) channel_registry \<Rightarrow> 'f channel_settings option" where
  "registry_settings kind g = cg_settings_map g kind"

definition settings_from_net_id :: "('c, 'f, 'h) channel_registry \<Rightarrow> channel_id \<Rightarrow> 'f channel_settings option" where
  "settings_from_net_id g net_id = Option.bind (ty_kind net_id (cg_kind_map g)) (cg_settings_map g)"

definition get_net_from_kind :: "'c \<Rightarrow> ('c, 'f, 'h) channel_registry \<Rightarrow> channel_id option" where
  "get_net_from_kind kind g = ty_net_id kind (cg_kind_map g)"

definition get_kind_from_net_id :: "channel_id \<Rightarrow> ('c, 'f, 'h) channel_registry \<Rightarrow> 'c option" where
  "get_kind_from_net_id net_id g = ty_kind net_id (cg_kind_map g)"

definition get_name_from_kind :: "'c \<Rightarrow> ('c, 'f, 'h) channel_registry \<Rightarrow> string" where
  "get_name_from_kind kind g = (case ty_name kind (cg_kind_map g) of Some n \<Rightarrow> n | None \<Rightarrow> ''Unknown'')"

definition get_name_from_net_id :: "channel_id \<Rightarrow> ('c, 'f, 'h) channel_registry \<Rightarrow> string" where
  "get_name_from_net_id net_id g =
     (case Option.bind (ty_kind net_id (cg_kind_map g)) (\<lambda>k. ty_name k (cg_kind_map g)) of
        Some n \<Rightarrow> n | None \<Rightarrow> ''Unknown'')"

definition add_channel_with_timeline ::
  "'h hasher_ops \<Rightarrow> 'c \<Rightarrow> string \<Rightarrow> string \<Rightarrow> timeline_kind option \<Rightarrow> 'f channel_settings \<Rightarrow>
   ('c, 'f, 'h) channel_registry \<Rightarrow> (('c, 'f, 'h) channel_registry \<times> 'c \<times> channel_id) option" where
  "add_channel_with_timeline H kind name timeline_name timeline settings g =
     (case ty_net_id kind (cg_kind_map g) of
        Some net_id \<Rightarrow> Some (g, kind, net_id)
      | None \<Rightarrow>
          do { hasher \<leftarrow> registry_hash H name (cg_hasher g);
               hasher \<leftarrow> registry_hash H timeline_name hasher;
               let g = g\<lparr>cg_hasher := hasher,
                         cg_settings_map := (cg_settings_map g)(kind \<mapsto> settings\<lparr>cs_timeline := timeline\<rparr>),
                         cg_kind_map := ty_add kind name (cg_kind_map g)\<rparr>;
               net_id \<leftarrow> get_net_from_kind kind g;
               Some (g, kind, net_id) })"

definition add_channel ::
  "'h hasher_ops \<Rightarrow> 'c \<Rightarrow> string \<Rightarrow> string \<Rightarrow> 'f channel_settings \<Rightarrow> ('c, 'f, 'h) channel_registry \<Rightarrow>
   (('c, 'f, 'h) channel_registry \<times> 'c \<times> channel_id) option" where
  "add_channel H kind name local_timeline_name settings g =
     add_channel_with_timeline H kind name local_timeline_name None settings g"

definition registry_finish :: "'h hasher_ops \<Rightarrow> ('c, 'f, 'h) channel_registry \<Rightarrow> ('c, 'f, 'h) channel_registry \<times> u64" where
  "registry_finish H g = (let (h, v) = registry_hasher_finish H (cg_hasher g) in (g\<lparr>cg_hasher := h\<rparr>, v))"

section \<open>The transport\<close>

text \<open>The parameters: floats, timers, the rate limiter, the block codec, the two containers and the loss ratio.\<close>

record ('f, 'tm, 'q, 'l, 'b, 'm) transport_ops =
  tp_f32 :: "'f f32_ops"
  tp_timer :: "'tm timer_ops"
  tp_governor :: "('q, 'l) governor_ops"
  tp_block :: block_ops
  tp_ring :: "(bool, 'b) ring_ops"
  tp_index :: "(packet_id, duration, 'm) index_ops"
  tp_loss_ratio :: "u32 \<Rightarrow> u32 \<Rightarrow> 'f"
  tp_nack_default :: "'f packet_nack_settings"

type_synonym 'c packet_message_acks = "packet_id \<rightharpoonup> ('c \<times> message_ack) list"

definition track :: "packet_id \<Rightarrow> 'c \<Rightarrow> message_ack \<Rightarrow> 'c packet_message_acks \<Rightarrow> 'c packet_message_acks" where
  "track packet_id channel_kind message_ack tracked =
     (case tracked packet_id of
        Some message_acks \<Rightarrow> tracked(packet_id \<mapsto> message_acks @ [(channel_kind, message_ack)])
      | None \<Rightarrow> tracked(packet_id \<mapsto> [(channel_kind, message_ack)]))"

definition take_acks ::
  "packet_id \<Rightarrow> 'c packet_message_acks \<Rightarrow> ('c \<times> message_ack) list option \<times> 'c packet_message_acks" where
  "take_acks packet_id tracked = (tracked packet_id, tracked(packet_id := None))"

text \<open>
  The senders are iterated over and are an association list. The queue stands for the two ends of the
  channel that applications write to. The scratch list of candidates is empty between two sends.
\<close>

record ('c, 'f, 'tm, 'q, 'l, 'b, 'm) transport =
  tr_receivers :: "channel_id \<rightharpoonup> 'c channel_receive"
  tr_senders :: "('c \<times> ('c, 'f, 'tm) channel_send) list"
  tr_priority_config :: "'q priority_config"
  tr_bandwidth_limiter :: "'l bandwidth_limiter"
  tr_header_manager :: "('f, 'b, 'm) packet_header_manager"
  tr_fragment_size :: nat
  tr_compression :: compression_config
  tr_packet_message_acks :: "'c packet_message_acks"
  tr_queue :: "('c \<times> bytes \<times> 'f) list"

definition transport_new ::
  "('f, 'tm, 'q, 'l, 'b, 'm) transport_ops \<Rightarrow> 'q priority_config \<Rightarrow>
   ('c, 'f, 'tm, 'q, 'l, 'b, 'm) transport" where
  "transport_new P priority_config =
     \<lparr>tr_receivers = Map.empty, tr_senders = [], tr_priority_config = priority_config,
      tr_bandwidth_limiter = bandwidth_limiter_new (tp_governor P) priority_config,
      tr_header_manager = with_nack_settings (tp_ring P) (tp_index P) (f32_zero (tp_f32 P)) (tp_nack_default P),
      tr_fragment_size = FRAGMENT_SIZE, tr_compression = DISABLED,
      tr_packet_message_acks = Map.empty, tr_queue = []\<rparr>"

definition transport_set_compression ::
  "compression_config \<Rightarrow> ('c, 'f, 'tm, 'q, 'l, 'b, 'm) transport \<Rightarrow> ('c, 'f, 'tm, 'q, 'l, 'b, 'm) transport" where
  "transport_set_compression c t = t\<lparr>tr_compression := c\<rparr>"

definition set_packet_nack_settings ::
  "'f packet_nack_settings \<Rightarrow> ('c, 'f, 'tm, 'q, 'l, 'b, 'm) transport \<Rightarrow> ('c, 'f, 'tm, 'q, 'l, 'b, 'm) transport" where
  "set_packet_nack_settings s t = t\<lparr>tr_header_manager := (tr_header_manager t)\<lparr>nack_settings := s\<rparr>\<rparr>"

definition packet_nack_settings :: "('c, 'f, 'tm, 'q, 'l, 'b, 'm) transport \<Rightarrow> 'f packet_nack_settings" where
  "packet_nack_settings t = nack_settings (tr_header_manager t)"

text \<open>Every sender, or every receiver, in place.\<close>

definition map_senders ::
  "(('c, 'f, 'tm) channel_send \<Rightarrow> ('c, 'f, 'tm) channel_send) \<Rightarrow> ('c, 'f, 'tm, 'q, 'l, 'b, 'm) transport \<Rightarrow>
   ('c, 'f, 'tm, 'q, 'l, 'b, 'm) transport" where
  "map_senders g t = t\<lparr>tr_senders := map (\<lambda>(k, ch). (k, g ch)) (tr_senders t)\<rparr>"

definition map_receivers ::
  "('c channel_receive \<Rightarrow> 'c channel_receive) \<Rightarrow> ('c, 'f, 'tm, 'q, 'l, 'b, 'm) transport \<Rightarrow>
   ('c, 'f, 'tm, 'q, 'l, 'b, 'm) transport" where
  "map_receivers g t = t\<lparr>tr_receivers := map_option g \<circ> tr_receivers t\<rparr>"

definition update_sender ::
  "'c \<Rightarrow> ('c, 'f, 'tm) channel_send \<Rightarrow> ('c, 'f, 'tm, 'q, 'l, 'b, 'm) transport \<Rightarrow> ('c, 'f, 'tm, 'q, 'l, 'b, 'm) transport" where
  "update_sender k ch t = t\<lparr>tr_senders := AList.update k ch (tr_senders t)\<rparr>"

text \<open>The outer \<open>None\<close> is the panic of the search for the fragment size.\<close>

definition initialize_fragment_size ::
  "nat \<Rightarrow> ('c, 'f, 'tm, 'q, 'l, 'b, 'm) transport \<Rightarrow>
   (packet_error + ('c, 'f, 'tm, 'q, 'l, 'b, 'm) transport) option" where
  "initialize_fragment_size min_mtu t =
     map_option (\<lambda>size.
       case size of
         None \<Rightarrow> Inl (PacketMtuTooSmall min_mtu MIN_FRAGMENT_PACKET_SIZE)
       | Some fragment_size \<Rightarrow>
           Inr (if tr_fragment_size t \<noteq> fragment_size
                then map_receivers (cr_set_fragment_size fragment_size)
                       (map_senders (ch_set_fragment_size fragment_size) (t\<lparr>tr_fragment_size := fragment_size\<rparr>))
                else t)) (fragment_size_for_min_mtu min_mtu)"

definition has_channel_send :: "'c \<Rightarrow> ('c, 'f, 'tm, 'q, 'l, 'b, 'm) transport \<Rightarrow> bool" where
  "has_channel_send kind t = (map_of (tr_senders t) kind \<noteq> None)"

definition has_channel_receive :: "'c \<Rightarrow> ('c, 'f, 'tm, 'q, 'l, 'b, 'm) transport \<Rightarrow> bool" where
  "has_channel_receive kind t \<longleftrightarrow> (\<exists>channel \<in> ran (tr_receivers t). cr_channel_kind channel = kind)"

definition add_channel_send ::
  "('f, 'tm, 'q, 'l, 'b, 'm) transport_ops \<Rightarrow> 'c \<Rightarrow> 'f channel_settings \<Rightarrow> channel_id \<Rightarrow>
   ('c, 'f, 'tm, 'q, 'l, 'b, 'm) transport \<Rightarrow> ('c, 'f, 'tm, 'q, 'l, 'b, 'm) transport" where
  "add_channel_send P kind settings channel_id t =
     update_sender kind (channel_send_new (tp_f32 P) (tp_timer P) kind channel_id settings (tr_fragment_size t)) t"

definition add_channel_send_from_registry ::
  "('f, 'tm, 'q, 'l, 'b, 'm) transport_ops \<Rightarrow> 'c \<Rightarrow> ('c, 'f, 'h) channel_registry \<Rightarrow>
   ('c, 'f, 'tm, 'q, 'l, 'b, 'm) transport \<Rightarrow> ('c, 'f, 'tm, 'q, 'l, 'b, 'm) transport option" where
  "add_channel_send_from_registry P kind registry t =
     do { settings \<leftarrow> registry_settings kind registry;
          channel_id \<leftarrow> get_net_from_kind kind registry;
          Some (add_channel_send P kind settings channel_id t) }"

definition add_channel_receive ::
  "'c \<Rightarrow> 'f channel_settings \<Rightarrow> channel_id \<Rightarrow> ('c, 'f, 'tm, 'q, 'l, 'b, 'm) transport \<Rightarrow>
   ('c, 'f, 'tm, 'q, 'l, 'b, 'm) transport" where
  "add_channel_receive kind settings channel_id t =
     (let channel = cr_set_fragment_size (tr_fragment_size t) (channel_receive_new kind settings)
      in t\<lparr>tr_receivers := (tr_receivers t)(channel_id \<mapsto> channel)\<rparr>)"

definition add_channel_receive_from_registry ::
  "'c \<Rightarrow> ('c, 'f, 'h) channel_registry \<Rightarrow> ('c, 'f, 'tm, 'q, 'l, 'b, 'm) transport \<Rightarrow>
   ('c, 'f, 'tm, 'q, 'l, 'b, 'm) transport option" where
  "add_channel_receive_from_registry kind registry t =
     do { settings \<leftarrow> registry_settings kind registry;
          channel_id \<leftarrow> get_net_from_kind kind registry;
          Some (add_channel_receive kind settings channel_id t) }"

text \<open>The unbounded channel of a transport always has its receiver, so that a send does not fail.\<close>

definition send_erased ::
  "'c \<Rightarrow> bytes \<Rightarrow> 'f \<Rightarrow> ('c, 'f, 'tm, 'q, 'l, 'b, 'm) transport \<Rightarrow> ('c, 'f, 'tm, 'q, 'l, 'b, 'm) transport" where
  "send_erased kind bs priority t = t\<lparr>tr_queue := tr_queue t @ [(kind, bs, priority)]\<rparr>"

datatype 'c transport_error =
    TSerializationError serialization_error
  | TPacketError packet_error
  | TChannelNotFound 'c
  | TChannelReceiveError channel_receive_error

definition send_mut_erased ::
  "('f, 'tm, 'q, 'l, 'b, 'm) transport_ops \<Rightarrow> 'c \<Rightarrow> bytes \<Rightarrow> 'f \<Rightarrow> ('c, 'f, 'tm, 'q, 'l, 'b, 'm) transport \<Rightarrow>
   ('c transport_error + ('c, 'f, 'tm, 'q, 'l, 'b, 'm) transport \<times> message_id option) option" where
  "send_mut_erased P kind bs priority t =
     (case map_of (tr_senders t) kind of
        None \<Rightarrow> Some (Inl (TChannelNotFound kind))
      | Some channel_send \<Rightarrow>
          map_option (\<lambda>(channel_send, message_id). Inr (update_sender kind channel_send t, message_id))
            (ch_buffer_send (tp_f32 P) (tp_block P) bs priority (tr_compression t) channel_send))"

definition transport_reset ::
  "('f, 'tm, 'q, 'l, 'b, 'm) transport_ops \<Rightarrow> ('c, 'f, 'h) channel_registry \<Rightarrow> ('c, 'f, 'tm, 'q, 'l, 'b, 'm) transport \<Rightarrow>
   ('c, 'f, 'tm, 'q, 'l, 'b, 'm) transport option" where
  "transport_reset P registry t =
     (if (\<forall>channel_id \<in> dom (tr_receivers t). settings_from_net_id registry channel_id \<noteq> None) then
        map_option (\<lambda>senders.
          t\<lparr>tr_receivers := (\<lambda>channel_id. map_option (\<lambda>r. cr_set_fragment_size (tr_fragment_size t)
               (channel_receive_new (cr_channel_kind r) (the (settings_from_net_id registry channel_id)))) (tr_receivers t channel_id)),
            tr_senders := senders,
            tr_bandwidth_limiter := bandwidth_limiter_new (tp_governor P) (tr_priority_config t),
            tr_header_manager := with_nack_settings (tp_ring P) (tp_index P) (f32_zero (tp_f32 P)) (packet_nack_settings t),
            tr_packet_message_acks := Map.empty, tr_queue := []\<rparr>)
          (those (map (\<lambda>(kind, s). map_option (\<lambda>settings.
             (kind, channel_send_new (tp_f32 P) (tp_timer P) kind (ch_channel_id s) settings (tr_fragment_size t)))
             (registry_settings kind registry)) (tr_senders t)))
      else None)"

section \<open>Receiving\<close>

datatype transport_event =
    PacketReceived tick
  | PacketAcked packet_id duration
  | PacketLost packet_id

text \<open>Whether an error stands for a panic.\<close>

definition packet_panicked :: "packet_error \<Rightarrow> bool" where
  "packet_panicked e \<longleftrightarrow> e = Serialization Panicked \<or> e = ChannelReceiveError RecvPanicked"

definition panicked :: "'c transport_error \<Rightarrow> bool" where
  "panicked e =
     (case e of
        TSerializationError e \<Rightarrow> e = Panicked
      | TPacketError e \<Rightarrow> packet_panicked e
      | TChannelNotFound _ \<Rightarrow> False
      | TChannelReceiveError e \<Rightarrow> e = RecvPanicked)"

definition buffer_message ::
  "block_ops \<Rightarrow> tick \<Rightarrow> channel_id \<Rightarrow> message_data \<Rightarrow> ('c, 'f, 'tm, 'q, 'l, 'b, 'm) transport \<Rightarrow>
   ('c, 'f, 'tm, 'q, 'l, 'b, 'm) transport \<times> ('c transport_error + unit)" where
  "buffer_message Z tick channel_id data t =
     (case tr_receivers t channel_id of
        None \<Rightarrow> (t, Inl (TPacketError ChannelNotFound))
      | Some receiver \<Rightarrow>
          (let (receiver, result) =
                 buffer_recv Z \<lparr>rm_data = data, remote_sent_tick = tick, rm_compression = tr_compression t\<rparr> receiver;
               t = t\<lparr>tr_receivers := (tr_receivers t)(channel_id \<mapsto> receiver)\<rparr>
           in (t, case result of Inl e \<Rightarrow> Inl (TChannelReceiveError e) | Inr _ \<Rightarrow> Inr ())))"

primrec read_singles ::
  "block_ops \<Rightarrow> tick \<Rightarrow> channel_id \<Rightarrow> nat \<Rightarrow> reader \<Rightarrow> ('c, 'f, 'tm, 'q, 'l, 'b, 'm) transport \<Rightarrow>
   ('c, 'f, 'tm, 'q, 'l, 'b, 'm) transport \<times> ('c transport_error + reader)" where
  "read_singles Z tick channel_id 0 cursor t = (t, Inr cursor)"
| "read_singles Z tick channel_id (Suc n) cursor t =
     (case single_data_from_bytes cursor of
        Inl e \<Rightarrow> (t, Inl (TSerializationError e))
      | Inr (single_data, cursor) \<Rightarrow>
          (case buffer_message Z tick channel_id (Single single_data) t of
             (t, Inl e) \<Rightarrow> (t, Inl e)
           | (t, Inr _) \<Rightarrow> read_singles Z tick channel_id n cursor t))"

text \<open>Reading moves the cursor forward, so the loop over the batches of a packet ends.\<close>

definition reads_on :: "reader \<Rightarrow> reader \<Rightarrow> bool" where
  "reads_on r r' \<longleftrightarrow> rd_buf r' = rd_buf r \<and> rd_pos r \<le> rd_pos r'"

lemma reads_on_refl [simp]: "reads_on r r"
  by (simp add: reads_on_def)

lemma reads_on_trans: "reads_on r s \<Longrightarrow> reads_on s t \<Longrightarrow> reads_on r t"
  by (simp add: reads_on_def)

lemma read_exact_on: "read_exact n r = Inr (bs, r') \<Longrightarrow> reads_on r r' \<and> rd_pos r' = rd_pos r + n"
  by (auto simp: read_exact_def reads_on_def split: if_splits)

lemma read_u8_on: "read_u8 r = Inr (b, r') \<Longrightarrow> reads_on r r' \<and> rd_pos r < rd_pos r'"
  by (auto simp: read_u8_def and_then_def split: sum.splits dest!: read_exact_on)

lemma read_u16_on: "read_u16 r = Inr (b, r') \<Longrightarrow> reads_on r r'"
  by (auto simp: read_u16_def and_then_def split: sum.splits dest!: read_exact_on)

lemma read_varint_on: "read_varint r = Inr (v, r') \<Longrightarrow> reads_on r r' \<and> rd_pos r < rd_pos r'"
  by (auto simp: read_varint_def and_then_def reads_on_def split: sum.splits option.splits if_splits
      dest!: read_exact_on read_u8_on)

lemma u16_from_bytes_on: "u16_from_bytes r = Inr (v, r') \<Longrightarrow> reads_on r r' \<and> rd_pos r < rd_pos r'"
  by (auto simp: u16_from_bytes_def and_then_def split: sum.splits dest!: read_varint_on)

lemma bytes_from_bytes_on: "bytes_from_bytes r = Inr (bs, r') \<Longrightarrow> reads_on r r'"
  by (auto simp: bytes_from_bytes_def and_then_def split_len_def checked_add_def reads_on_def
      split: sum.splits option.splits if_splits dest!: read_varint_on)

lemma single_data_from_bytes_on: "single_data_from_bytes r = Inr (d, r') \<Longrightarrow> reads_on r r'"
  by (auto simp: single_data_from_bytes_def option_from_bytes_def wid_from_bytes_def and_then_def Let_def
      split: sum.splits if_splits dest!: bytes_from_bytes_on read_u8_on read_u16_on) (auto simp: reads_on_def)

lemma read_singles_on: "read_singles Z tick c n r t = (t', Inr r') \<Longrightarrow> reads_on r r'"
proof (induction n arbitrary: r t)
  case (Suc n)
  then show ?case
    by (auto split: sum.splits prod.splits dest!: single_data_from_bytes_on intro: reads_on_trans)
qed simp

function read_batches ::
  "block_ops \<Rightarrow> tick \<Rightarrow> reader \<Rightarrow> ('c, 'f, 'tm, 'q, 'l, 'b, 'm) transport \<Rightarrow>
   ('c, 'f, 'tm, 'q, 'l, 'b, 'm) transport \<times> ('c transport_error + unit)" where
  "read_batches Z tick cursor t =
     (if has_remaining cursor then
        (case u16_from_bytes cursor of
           Inl e \<Rightarrow> (t, Inl (TSerializationError e))
         | Inr (channel_id, cursor) \<Rightarrow>
             (case read_u8 cursor of
                Inl e \<Rightarrow> (t, Inl (TSerializationError e))
              | Inr (number, cursor) \<Rightarrow>
                  (case read_singles Z tick channel_id (unat number) cursor t of
                     (t, Inl e) \<Rightarrow> (t, Inl e)
                   | (t, Inr cursor) \<Rightarrow> read_batches Z tick cursor t)))
      else (t, Inr ()))"
  by pat_completeness auto
termination
  by (relation "measure (\<lambda>(Z, tick, cursor, t). remaining cursor)")
    (auto simp: has_remaining_def remaining_def reader_len_def reads_on_def
      dest!: u16_from_bytes_on read_u8_on read_singles_on [OF sym])

declare read_batches.simps [simp del]

text \<open>The plain payload of a packet: the fragment, if any, and then the batches.\<close>

definition read_payload ::
  "block_ops \<Rightarrow> tick \<Rightarrow> packet_type \<Rightarrow> reader \<Rightarrow> ('c, 'f, 'tm, 'q, 'l, 'b, 'm) transport \<Rightarrow>
   ('c, 'f, 'tm, 'q, 'l, 'b, 'm) transport \<times> ('c transport_error + unit)" where
  "read_payload Z tick packet_type cursor t =
     (if packet_type = DataFragment then
        (case u16_from_bytes cursor of
           Inl e \<Rightarrow> (t, Inl (TSerializationError e))
         | Inr (channel_id, cursor) \<Rightarrow>
             (case fragment_data_from_bytes cursor of
                Inl e \<Rightarrow> (t, Inl (TSerializationError e))
              | Inr (fragment_data, cursor) \<Rightarrow>
                  (case buffer_message Z tick channel_id (Fragment fragment_data) t of
                     (t, Inl e) \<Rightarrow> (t, Inl e)
                   | (t, Inr _) \<Rightarrow> read_batches Z tick cursor t)))
      else read_batches Z tick cursor t)"

definition receive_packet ::
  "('f, 'tm, 'q, 'l, 'b, 'm) transport_ops \<Rightarrow> duration \<Rightarrow> bytes \<Rightarrow> ('c, 'f, 'tm, 'q, 'l, 'b, 'm) transport \<Rightarrow>
   (('c, 'f, 'tm, 'q, 'l, 'b, 'm) transport \<times> transport_event list \<times> ('c transport_error + unit)) option" where
  "receive_packet P elapsed packet t =
     (case header_from_bytes (reader_from packet) of
        Inl e \<Rightarrow> Some (t, [], Inl (TSerializationError e))
      | Inr (header, cursor) \<Rightarrow>
          (case process_recv_packet_header (tp_ring P) (tp_index P) header elapsed (tr_header_manager t) of
             None \<Rightarrow> None
           | Some (acked, manager) \<Rightarrow>
               (let t = t\<lparr>tr_header_manager := manager\<rparr>;
                    events = map (\<lambda>(packet_id, rtt_sample). PacketAcked packet_id rtt_sample) acked @
                      [PacketReceived (hd_tick header)];
                    packet_type = hd_packet_type header
                in
                if is_compressed packet_type then
                  (case take_remaining cursor of
                     None \<Rightarrow> None
                   | Some (compressed_payload, _) \<Rightarrow>
                       (case decompress_payload (tp_block P) compressed_payload (tr_compression t) of
                          Inl e \<Rightarrow> Some (t, events, Inl (TPacketError e))
                        | Inr payload \<Rightarrow>
                            (let (t, result) = read_payload (tp_block P) (hd_tick header)
                                   (uncompressed_variant packet_type) (reader_from payload) t
                             in Some (t, events, result))))
                else
                  (let (t, result) = read_payload (tp_block P) (hd_tick header) packet_type cursor t
                   in Some (t, events, result)))))"

text \<open>
  The packets of a frame: the drain stops at the first error, and what it had not yielded is dropped
  with it.
\<close>

fun receive_packets ::
  "('f, 'tm, 'q, 'l, 'b, 'm) transport_ops \<Rightarrow> duration \<Rightarrow> bytes list \<Rightarrow> ('c, 'f, 'tm, 'q, 'l, 'b, 'm) transport \<Rightarrow>
   (('c, 'f, 'tm, 'q, 'l, 'b, 'm) transport \<times> transport_event list) option" where
  "receive_packets P elapsed [] t = Some (t, [])"
| "receive_packets P elapsed (packet # packets) t =
     (case receive_packet P elapsed packet t of
        None \<Rightarrow> None
      | Some (t, events, Inl e) \<Rightarrow> if panicked e then None else Some (t, events)
      | Some (t, events, Inr _) \<Rightarrow>
          map_option (\<lambda>(t, later). (t, events @ later)) (receive_packets P elapsed packets t))"

text \<open>
  The two passes over the packets whose fate is known. Each stops at a message of a channel that is
  gone; what it had not yielded is dropped. The flag is whether it went through.
\<close>

fun nack_messages ::
  "('c \<times> message_ack) list \<Rightarrow> ('c, 'f, 'tm, 'q, 'l, 'b, 'm) transport \<Rightarrow> ('c, 'f, 'tm, 'q, 'l, 'b, 'm) transport \<times> bool" where
  "nack_messages [] t = (t, True)"
| "nack_messages ((channel_kind, message_ack) # rest) t =
     (case map_of (tr_senders t) channel_kind of
        None \<Rightarrow> (t, False)
      | Some channel_send \<Rightarrow>
          (let channel_send = channel_send\<lparr>ch_message_nacks := ch_message_nacks channel_send @ [ma_message_id message_ack]\<rparr>;
               channel_send = ch_receive_nack message_ack channel_send
           in nack_messages rest (update_sender channel_kind channel_send t)))"

fun give_up_packets ::
  "packet_id list \<Rightarrow> ('c, 'f, 'tm, 'q, 'l, 'b, 'm) transport \<Rightarrow>
   ('c, 'f, 'tm, 'q, 'l, 'b, 'm) transport \<times> transport_event list" where
  "give_up_packets [] t = (t, [])"
| "give_up_packets (lost_packet # lost) t =
     (case take_acks lost_packet (tr_packet_message_acks t) of
        (None, tracked) \<Rightarrow>
          (let (t, events) = give_up_packets lost (t\<lparr>tr_packet_message_acks := tracked\<rparr>)
           in (t, PacketLost lost_packet # events))
      | (Some message_acks, tracked) \<Rightarrow>
          (case nack_messages message_acks (t\<lparr>tr_packet_message_acks := tracked\<rparr>) of
             (t, False) \<Rightarrow> (t, [PacketLost lost_packet])
           | (t, True) \<Rightarrow> (let (t, events) = give_up_packets lost t in (t, PacketLost lost_packet # events))))"

fun ack_messages ::
  "('c \<times> message_ack) list \<Rightarrow> ('c, 'f, 'tm, 'q, 'l, 'b, 'm) transport \<Rightarrow>
   (('c, 'f, 'tm, 'q, 'l, 'b, 'm) transport \<times> bool) option" where
  "ack_messages [] t = Some (t, True)"
| "ack_messages ((channel_kind, message_ack) # rest) t =
     (case map_of (tr_senders t) channel_kind of
        None \<Rightarrow> Some (t, False)
      | Some channel_send \<Rightarrow>
          (case ch_receive_ack message_ack channel_send of
             None \<Rightarrow> None
           | Some (channel_send, acked) \<Rightarrow>
               ack_messages rest (update_sender channel_kind
                 (if acked
                  then channel_send\<lparr>ch_message_acks := ch_message_acks channel_send @ [ma_message_id message_ack]\<rparr>
                  else channel_send) t)))"

fun complete_packets ::
  "packet_id list \<Rightarrow> ('c, 'f, 'tm, 'q, 'l, 'b, 'm) transport \<Rightarrow> ('c, 'f, 'tm, 'q, 'l, 'b, 'm) transport option" where
  "complete_packets [] t = Some t"
| "complete_packets (acked_packet # acked) t =
     (case take_acks acked_packet (tr_packet_message_acks t) of
        (None, tracked) \<Rightarrow> complete_packets acked (t\<lparr>tr_packet_message_acks := tracked\<rparr>)
      | (Some message_acks, tracked) \<Rightarrow>
          (case ack_messages message_acks (t\<lparr>tr_packet_message_acks := tracked\<rparr>) of
             None \<Rightarrow> None
           | Some (t, False) \<Rightarrow> Some t
           | Some (t, True) \<Rightarrow> complete_packets acked t))"

definition buffer_receive ::
  "('f, 'tm, 'q, 'l, 'b, 'm) transport_ops \<Rightarrow> duration \<Rightarrow> duration \<Rightarrow> 'f link \<Rightarrow> ('c, 'f, 'tm, 'q, 'l, 'b, 'm) transport \<Rightarrow>
   ('f link \<times> ('c, 'f, 'tm, 'q, 'l, 'b, 'm) transport \<times> transport_event list) option" where
  "buffer_receive P elapsed delta link t =
     (let t = map_senders (\<lambda>ch. clear_frame_events (ch_update (tp_f32 P) (tp_timer P) elapsed delta (lk_stats link) ch)) t;
          t = map_receivers (cr_update elapsed) t;
          (packets, recv) = lr_drain (lk_recv link);
          link = link\<lparr>lk_recv := recv\<rparr>
      in
      case receive_packets P elapsed packets t of
        None \<Rightarrow> None
      | Some (t, events) \<Rightarrow>
          (case phm_update (tp_index P) (duration_mul_f32 (tp_f32 P)) (tp_loss_ratio P) elapsed (lk_stats link)
                  (tr_header_manager t) of
             None \<Rightarrow> None
           | Some manager \<Rightarrow>
               (let lost = lost_packets manager;
                    (t, lost_events) = give_up_packets lost (t\<lparr>tr_header_manager := manager\<lparr>lost_packets := []\<rparr>\<rparr>);
                    manager = tr_header_manager t;
                    acked = map fst (im_iter (tp_index P) (newly_acked_packets manager));
                    t = t\<lparr>tr_header_manager := manager\<lparr>newly_acked_packets := im_new (tp_index P)\<rparr>\<rparr>
                in map_option (\<lambda>t. (link, t, events @ lost_events)) (complete_packets acked t))))"

section \<open>Sending\<close>

text \<open>The messages of the applications go to their senders; the loop stops at a channel that is not there.\<close>

fun buffer_queue ::
  "('f, 'tm, 'q, 'l, 'b, 'm) transport_ops \<Rightarrow> ('c \<times> bytes \<times> 'f) list \<Rightarrow> ('c, 'f, 'tm, 'q, 'l, 'b, 'm) transport \<Rightarrow>
   ('c, 'f, 'tm, 'q, 'l, 'b, 'm) transport option" where
  "buffer_queue P [] t = Some (t\<lparr>tr_queue := []\<rparr>)"
| "buffer_queue P ((channel_kind, bs, priority) # queue) t =
     (case map_of (tr_senders t) channel_kind of
        None \<Rightarrow> Some (t\<lparr>tr_queue := queue\<rparr>)
      | Some _ \<Rightarrow>
          (case send_mut_erased P channel_kind bs priority t of
             None \<Rightarrow> None
           | Some (Inl _) \<Rightarrow> Some (t\<lparr>tr_queue := queue\<rparr>)
           | Some (Inr (t, _)) \<Rightarrow> buffer_queue P queue t))"

fun collect_candidates ::
  "'f f32_ops \<Rightarrow> 'tm timer_ops \<Rightarrow> ('c \<times> ('c, 'f, 'tm) channel_send) list \<Rightarrow>
   (('c \<times> ('c, 'f, 'tm) channel_send) list \<times> ('c, 'f) send_candidate list) option" where
  "collect_candidates N T [] = Some ([], [])"
| "collect_candidates N T ((kind, channel) # senders) =
     do { (channel, candidates) \<leftarrow> collect_send_candidates N T channel;
          (senders, later) \<leftarrow> collect_candidates N T senders;
          Some ((kind, channel) # senders, candidates @ later) }"

text \<open>The bookkeeping of one message of a packet that the link accepted.\<close>

definition commit_message ::
  "duration \<Rightarrow> packet_id \<Rightarrow> 'c message_metadata \<Rightarrow> ('c, 'f, 'tm, 'q, 'l, 'b, 'm) transport \<Rightarrow>
   ('c, 'f, 'tm, 'q, 'l, 'b, 'm) transport option" where
  "commit_message elapsed packet_id metadata t =
     (let commit = mm_commit metadata in
      do { channel_send \<leftarrow> map_of (tr_senders t) (cm_channel_kind commit);
           channel_send \<leftarrow> ch_commit_send (cm_key commit) elapsed channel_send;
           let watches = watches_acks channel_send;
           let t = update_sender (cm_channel_kind commit) channel_send t;
           case mm_message metadata of
             None \<Rightarrow> Some t
           | Some message_id \<Rightarrow>
               (let channel_send = channel_send\<lparr>ch_messages_sent := ch_messages_sent channel_send @ [message_id]\<rparr>;
                    t = update_sender (cm_channel_kind commit) channel_send t
                in Some
                    (if watches
                     then t\<lparr>tr_packet_message_acks := track packet_id (cm_channel_kind commit)
                            \<lparr>ma_message_id = message_id, ma_fragment_id = mm_fragment_index metadata\<rparr> (tr_packet_message_acks t)\<rparr>
                     else t)) })"

fun commit_messages ::
  "duration \<Rightarrow> packet_id \<Rightarrow> 'c message_metadata list \<Rightarrow> ('c, 'f, 'tm, 'q, 'l, 'b, 'm) transport \<Rightarrow>
   ('c, 'f, 'tm, 'q, 'l, 'b, 'm) transport option" where
  "commit_messages elapsed packet_id [] t = Some t"
| "commit_messages elapsed packet_id (metadata # rest) t =
     Option.bind (commit_message elapsed packet_id metadata t) (commit_messages elapsed packet_id rest)"

text \<open>Every packet that is staged moves the cursor forward, so the loop of a flush ends.\<close>

lemma try_append_messages:
  assumes "try_append_single_candidate Z packet c batch compression mtu = Inr (False, packet', batch')"
  shows "pk_messages packet' = pk_messages packet"
  using assms
  by (cases "sm_data (sc_message c)")
    (auto simp: try_append_single_candidate_def Let_def and_then_Inr_iff record_message_metadata_def split: if_splits option.splits)

lemma append_singles_moves:
  assumes "append_singles Z compression mtu cs packet batch i = Inr (packet', j)"
  shows "i \<le> j \<and> (pk_messages packet' \<noteq> pk_messages packet \<longrightarrow> i < j)"
  using assms
proof (induction Z compression mtu cs packet batch i rule: append_singles.induct)
  case (1 Z compression mtu cs packet batch i)
  show ?case
  proof (cases "i < length cs \<and> is_single (cs ! i)")
    case True
    from 1(2) True consider packet1 batch1 where
        "try_append_single_candidate Z packet (cs ! i) batch compression mtu = Inr (True, packet1, batch1)"
        "append_singles Z compression mtu cs packet1 batch1 (i + 1) = Inr (packet', j)"
      | batch1 where "try_append_single_candidate Z packet (cs ! i) batch compression mtu = Inr (False, packet', batch1)" "j = i"
      by (subst (asm) append_singles.simps) (auto split: sum.splits prod.splits bool.splits)
    then show ?thesis
    proof cases
      case a: 1
      then show ?thesis
        using "1.IH" [OF True a(1) refl refl refl a(2)] by auto
    next
      case 2
      then show ?thesis
        using try_append_messages by fastforce
    qed
  next
    case False
    then show ?thesis
      using 1(2) by (subst (asm) append_singles.simps) auto
  qed
qed

lemma build_next_packet_advances:
  assumes "build_next_packet N Z R tick cs cursor config mtu hm = (cursor', Inr (Some p))"
  shows "cu_index cursor < cu_index cursor' \<and> cu_index cursor < length cs"
proof -
  define i where i: "i = skip_taken cs (cu_index cursor) (cu_single_index cursor)"
  have le: "cu_index cursor \<le> i"
    using skip_taken_spec [of "cu_index cursor" cs "cu_single_index cursor"] i by simp
  have less: "i < length cs"
    using assms i by (auto simp: build_next_packet_def Let_def split: if_splits)
  have "i < cu_index cursor'"
  proof (cases "sm_data (sc_message (cs ! i))")
    case (Single m)
    then show ?thesis
      using assms less
      by (auto simp: build_next_packet_def Let_def i [symmetric] new_staged_packet_eq split: sum.splits if_splits prod.splits option.splits
          dest!: append_singles_moves)
  next
    case (Fragment f)
    then show ?thesis
      using assms less
      by (auto simp: build_next_packet_def Let_def i [symmetric] split: sum.splits if_splits)
  qed
  then show ?thesis
    using le less by simp
qed

function send_packets ::
  "('f, 'tm, 'q, 'l, 'b, 'm) transport_ops \<Rightarrow> tick \<Rightarrow> duration \<Rightarrow> nat \<Rightarrow> ('c, 'f) send_candidate list \<Rightarrow> candidate_cursor \<Rightarrow>
   u32 \<Rightarrow> 'f link \<Rightarrow> ('c, 'f, 'tm, 'q, 'l, 'b, 'm) transport \<Rightarrow>
   (send_flush_outcome \<times> u32 \<times> 'f link \<times> ('c, 'f, 'tm, 'q, 'l, 'b, 'm) transport) option" where
  "send_packets P tick elapsed mtu candidates cursor sent link t =
     (case build_next_packet (tp_f32 P) (tp_block P) (tp_ring P) tick candidates cursor (tr_compression t) mtu
             (tr_header_manager t) of
        (_, Inl e) \<Rightarrow> if packet_panicked e then None else Some (StagingFailed, sent, link, t)
      | (_, Inr None) \<Rightarrow> Some (Complete, sent, link, t)
      | (cursor, Inr (Some packet)) \<Rightarrow>
          (case consume_packet_quota (tp_governor P) (length (pk_payload packet)) (tr_bandwidth_limiter t) of
             None \<Rightarrow> None
           | Some (limiter, False) \<Rightarrow> Some (BandwidthLimited, sent, link, t\<lparr>tr_bandwidth_limiter := limiter\<rparr>)
           | Some (limiter, True) \<Rightarrow>
               (let sent = sent + word_of_nat (length (pk_payload packet));
                    link = link\<lparr>lk_send := ls_push (pk_payload packet) (lk_send link)\<rparr>;
                    t = t\<lparr>tr_bandwidth_limiter := limiter,
                          tr_header_manager := commit_send_packet (tp_index P) (pk_packet_id packet) elapsed (tr_header_manager t)\<rparr>
                in case commit_messages elapsed (pk_packet_id packet) (pk_messages packet) t of
                     None \<Rightarrow> None
                   | Some t \<Rightarrow> send_packets P tick elapsed mtu candidates cursor sent link t)))"
  by pat_completeness auto
termination
  by (relation "measure (\<lambda>(P, tick, elapsed, mtu, candidates, cursor, sent, link, t). length candidates - cu_index cursor)")
    (auto dest!: build_next_packet_advances [OF sym])

declare send_packets.simps [simp del]

text \<open>
  The panic of \<open>prioritize\<close> is a candidate of a channel that the registry does not know. The scratch
  list of candidates is dropped at the end.
\<close>

definition buffer_send ::
  "('f, 'tm, 'q, 'l, 'b, 'm) transport_ops \<Rightarrow> ('c, 'f, 'h) channel_registry \<Rightarrow> tick \<Rightarrow> duration \<Rightarrow> 'f link \<Rightarrow>
   ('c, 'f, 'tm, 'q, 'l, 'b, 'm) transport \<Rightarrow> ('f link \<times> ('c, 'f, 'tm, 'q, 'l, 'b, 'm) transport) option" where
  "buffer_send P registry tick elapsed link t =
     (let mtu = link_current_mtu link in
      do { t \<leftarrow> buffer_queue P (tr_queue t) t;
           (senders, candidates) \<leftarrow> collect_candidates (tp_f32 P) (tp_timer P) (tr_senders t);
           let t = t\<lparr>tr_senders := senders\<rparr>;
           candidates \<leftarrow> prioritize (tp_f32 P) (settings_from_net_id registry) (pc_enabled (tr_priority_config t)) candidates;
           (flush_outcome, sent, link, t) \<leftarrow>
             send_packets P tick elapsed mtu candidates \<lparr>cu_index = 0, cu_single_index = 0\<rparr> 0 link t;
           let t = map_senders (ch_finish_send (tp_timer P) flush_outcome) t;
           if sent = 0 \<and> has_pending_ack (tr_header_manager t) then
             (case build_ack_only_packet (tp_ring P) tick mtu (tr_header_manager t) :: packet_error + 'c packet of
                Inl e \<Rightarrow> if packet_panicked e then None else Some (link, t)
              | Inr packet \<Rightarrow>
                  Some (link\<lparr>lk_send := ls_push (pk_payload packet) (lk_send link)\<rparr>,
                        t\<lparr>tr_header_manager := commit_send_ack_only (pk_packet_id packet) (tr_header_manager t)\<rparr>))
           else Some (link, t) })"

text \<open>The client of a host writes its messages into the buffer of the host instead.\<close>

definition buffer_send_host_client ::
  "tick \<Rightarrow> (bytes \<times> 'c \<times> tick) list \<Rightarrow> ('c, 'f, 'tm, 'q, 'l, 'b, 'm) transport \<Rightarrow>
   (bytes \<times> 'c \<times> tick) list \<times> ('c, 'f, 'tm, 'q, 'l, 'b, 'm) transport" where
  "buffer_send_host_client tick buffer t =
     (buffer @ map (\<lambda>(channel_kind, bs, priority). (bs, channel_kind, tick)) (tr_queue t), t\<lparr>tr_queue := []\<rparr>)"

definition handle_disconnection ::
  "('f, 'tm, 'q, 'l, 'b, 'm) transport_ops \<Rightarrow> ('c, 'f, 'h) channel_registry \<Rightarrow> ('c, 'f, 'tm, 'q, 'l, 'b, 'm) transport \<Rightarrow>
   ('c, 'f, 'tm, 'q, 'l, 'b, 'm) transport option" where
  "handle_disconnection P registry t = transport_reset P registry t"

end
