(* ===== verification/Packet_Delivery.thy ===== *)
theory Packet_Delivery
  imports Transport
begin

text \<open>
  What the two systems of the transport do together: a packet is read into exactly the messages it was
  packed from, a flush packs every candidate once, and what an error in one packet costs.
\<close>

section \<open>Reading what was packed\<close>

text \<open>The reference of the receiving side: the messages are buffered one after the other, up to the first error.\<close>

fun buffer_messages ::
  "block_ops \<Rightarrow> tick \<Rightarrow> (channel_id \<times> message_data) list \<Rightarrow> ('c, 'f, 'tm, 'q, 'l, 'b, 'm) transport \<Rightarrow>
   ('c, 'f, 'tm, 'q, 'l, 'b, 'm) transport \<times> ('c transport_error + unit)" where
  "buffer_messages Z tick [] t = (t, Inr ())"
| "buffer_messages Z tick ((channel_id, data) # rest) t =
     (case buffer_message Z tick channel_id data t of
        (t, Inl e) \<Rightarrow> (t, Inl e)
      | (t, Inr _) \<Rightarrow> buffer_messages Z tick rest t)"

lemma buffer_messages_append:
  "buffer_messages Z tick (xs @ ys) t =
     (case buffer_messages Z tick xs t of (t, Inl e) \<Rightarrow> (t, Inl e) | (t, Inr _) \<Rightarrow> buffer_messages Z tick ys t)"
  by (induction Z tick xs t rule: buffer_messages.induct) (auto split: prod.splits sum.splits)

definition singles :: "(channel_id \<times> single_data) list \<Rightarrow> (channel_id \<times> message_data) list" where
  "singles = map (\<lambda>(c, m). (c, Single m))"

lemma read_singles_batch:
  assumes "wf_reader r" "remaining_slice r = concat (map single_data_enc ms) @ rest" "\<forall>m \<in> set ms. count_ok (length (sd_bytes m))"
  shows "read_singles Z tick c (length ms) r t =
    (case buffer_messages Z tick (singles (map (Pair c) ms)) t of
       (t', Inl e) \<Rightarrow> (t', Inl e) | (t', Inr _) \<Rightarrow> (t', Inr (skip (length (concat (map single_data_enc ms))) r)))"
  using assms
proof (induction ms arbitrary: r t)
  case (Cons m ms)
  have "single_data_from_bytes r = Inr (m, skip (length (single_data_enc m)) r)"
    using Cons.prems single_data_codec.get_ok [of m r] by simp
  moreover have "wf_reader (skip (length (single_data_enc m)) r)"
    using Cons.prems by (intro wf_reader_skip) simp_all
  ultimately show ?case
    using Cons.prems Cons.IH [of "skip (length (single_data_enc m)) r"]
    by (auto simp: singles_def split: prod.splits sum.splits)
qed (simp add: singles_def skip_def)

lemma read_batches_layout:
  assumes "wf_reader r" "remaining_slice r = batches_enc bs" "\<forall>b \<in> set bs. batch_ok b"
  shows "read_batches Z tick r t = buffer_messages Z tick (singles (batch_messages bs)) t"
  using assms
proof (induction bs arbitrary: r t)
  case Nil
  then show ?case
    by (simp add: read_batches.simps has_remaining_def remaining_eq_length singles_def)
next
  case (Cons b bs)
  obtain c ms where b: "b = (c, ms)" by (cases b)
  have ok: "batch_ok (c, ms)" using Cons.prems b by simp
  have enc: "remaining_slice r = chan_enc c @ [word_of_nat (length ms)] @ concat (map single_data_enc ms) @ batches_enc bs"
    using Cons.prems(2) by (simp add: b batches_enc_def batch_enc_def)
  let ?r1 = "skip (length (chan_enc c)) r"
  have r1: "u16_from_bytes r = Inr (c, ?r1)"
    using u16_codec.get_ok [OF _ Cons.prems(1), of c] enc by (simp add: chan_enc_def)
  have r2: "read_u8 ?r1 = Inr (word_of_nat (length ms), skip 1 ?r1)"
    by (rule read_u8_append) (simp add: enc)
  have n: "unat (word_of_nat (length ms) :: u8) = length ms"
    using ok by (simp add: batch_ok_def unat_of_nat take_bit_nat_eq_self)
  have wf: "wf_reader (skip (length (chan_enc c) + 1) r)"
    by (rule wf_reader_skip [OF Cons.prems(1)]) (simp add: enc)
  have "read_singles Z tick c (length ms) (skip 1 ?r1) t =
    (case buffer_messages Z tick (singles (map (Pair c) ms)) t of
       (t', Inl e) \<Rightarrow> (t', Inl e) | (t', Inr _) \<Rightarrow> (t', Inr (skip (length (concat (map single_data_enc ms))) (skip 1 ?r1))))"
    by (rule read_singles_batch [where rest = "batches_enc bs"]) (use wf ok in \<open>simp_all add: enc batch_ok_def\<close>)
  moreover have "wf_reader (skip (length (concat (map single_data_enc ms))) (skip 1 ?r1))"
    using wf by (simp only: skip_skip) (rule wf_reader_skip [OF Cons.prems(1)], simp add: enc)
  moreover have "has_remaining r"
    by (simp add: has_remaining_def remaining_eq_length enc)
  ultimately show ?case
    using Cons.prems(3) Cons.IH [of "skip (length (concat (map single_data_enc ms))) (skip 1 ?r1)"] r1 r2 n
    by (subst read_batches.simps)
      (auto simp: enc b singles_def batch_messages_def buffer_messages_append split: prod.splits sum.splits)
qed

lemma read_plain_payload:
  assumes "plain_payload h cs payload" "wf_reader r" "remaining_slice r = drop 13 payload"
    and "\<forall>c \<in> set cs. candidate_ok c"
  shows "read_payload Z tick (hd_packet_type h) r t =
    buffer_messages Z tick (map (\<lambda>c. (sc_channel_id c, sm_data (sc_message c))) cs) t"
proof -
  obtain bs c rest where bs: "\<forall>b \<in> set bs. batch_ok b" and cs: "cs = c # rest" "\<forall>c \<in> set rest. is_single c"
    and cases: "case sm_data (sc_message c) of
         Fragment f \<Rightarrow> hd_packet_type h = DataFragment \<and> batch_messages bs = map single_of rest \<and>
           payload = header_enc h @ chan_enc (sc_channel_id c) @ fragment_data_enc f @ batches_enc bs
       | Single _ \<Rightarrow> hd_packet_type h = Data \<and> batch_messages bs = map single_of cs \<and> payload = header_enc h @ batches_enc bs"
    using assms(1) by (cases cs) (auto simp: plain_payload_def)
  have single: "(sc_channel_id d, sm_data (sc_message d)) = (case single_of d of (c, m) \<Rightarrow> (c, Single m))" if "is_single d" for d
    using that by (auto simp: single_of_def is_single_def split: message_data.splits)
  have rest: "singles (map single_of rest) = map (\<lambda>c. (sc_channel_id c, sm_data (sc_message c))) rest"
    using cs(2) by (simp add: singles_def single)
  show ?thesis
  proof (cases "sm_data (sc_message c)")
    case (Single m)
    with cases have "remaining_slice r = batches_enc bs" "hd_packet_type h = Data" "batch_messages bs = map single_of cs"
      using assms(3) by simp_all
    moreover have "singles (map single_of cs) = map (\<lambda>c. (sc_channel_id c, sm_data (sc_message c))) cs"
      using rest single [of c] Single by (simp add: cs singles_def is_single_def)
    ultimately show ?thesis
      using read_batches_layout [OF assms(2) _ bs] by (simp add: read_payload_def)
  next
    case (Fragment f)
    with cases have enc: "remaining_slice r = chan_enc (sc_channel_id c) @ fragment_data_enc f @ batches_enc bs"
      and h: "hd_packet_type h = DataFragment" "batch_messages bs = map single_of rest"
      using assms(3) by simp_all
    let ?r1 = "skip (length (chan_enc (sc_channel_id c))) r"
    have "u16_from_bytes r = Inr (sc_channel_id c, ?r1)"
      using u16_codec.get_ok [OF _ assms(2), of "sc_channel_id c"] enc by (simp add: chan_enc_def)
    moreover have "fragment_data_from_bytes ?r1 = Inr (f, skip (length (fragment_data_enc f)) ?r1)"
      by (rule fragment_data_codec.get_ok)
        (use assms(4) Fragment cs(1) in \<open>simp_all add: enc candidate_ok_def wf_reader_skip assms(2)\<close>)
    moreover have "wf_reader (skip (length (fragment_data_enc f)) ?r1)"
      by (simp only: skip_skip) (rule wf_reader_skip [OF assms(2)], simp add: enc)
    ultimately show ?thesis
      using read_batches_layout [OF _ _ bs, of "skip (length (fragment_data_enc f)) ?r1"] enc rest
      by (auto simp: read_payload_def h cs(1) Fragment split: prod.splits sum.splits)
  qed
qed

lemma packet_type_byte: "packet_type_try_from b = Inr t \<Longrightarrow> b = packet_type_as_u8 t"
  by (auto simp: packet_type_try_from_def packet_type_as_u8_def split: if_splits)

text \<open>The receiver decompresses whatever this sender compresses.\<close>

definition config_accepts :: "compression_config \<Rightarrow> compression_config \<Rightarrow> bool" where
  "config_accepts sender receiver \<longleftrightarrow>
     (algorithm sender \<noteq> None \<longrightarrow> algorithm receiver \<noteq> None \<and>
        max_decompressed_payload_size sender \<le> max_decompressed_payload_size receiver)"

lemma chan_enc_nonempty: "chan_enc c \<noteq> []"
  by (simp add: chan_enc_def varint_bytes_def be_bytes_def flip: length_greater_0_conv)

lemma plain_payload_header:
  assumes "plain_payload h cs plain"
  shows "\<exists>body. plain = header_enc h @ body \<and> body \<noteq> [] \<and> hd_packet_type h \<in> {Data, DataFragment}"
proof -
  have ne: "batches_enc bs \<noteq> []" if "batch_messages bs = x # xs" for bs x xs
    using that by (cases "bs = []") (simp_all add: batches_enc_nonempty)
  obtain c rest where cs: "cs = c # rest"
    using assms by (cases cs) (auto simp: plain_payload_def)
  show ?thesis
    using assms unfolding cs
    by (cases "sm_data (sc_message c)") (auto simp: plain_payload_def chan_enc_nonempty dest: ne)
qed

lemma compressed_payload_layout:
  assumes "plain_payload h cs plain" "block_codec Z" "config_accepts config receiver"
    and "compress_packet Z (plain, None) config mtu = Inr (Outcome_Compressed a b, payload, info)"
  obtains t' out where "payload = header_enc (h\<lparr>hd_packet_type := t'\<rparr>) @ out" "compressed_variant (hd_packet_type h) = Some t'"
    "decompress_payload Z out receiver = Inr (drop 13 plain)" "length payload < length plain"
    "length plain \<le> HEADER_BYTES + max_decompressed_payload_size config"
proof -
  obtain body where plain: "plain = header_enc h @ body" "body \<noteq> []"
    using plain_payload_header [OF assms(1)] by blast
  have long: "HEADER_BYTES < length plain"
    using plain by (simp add: HEADER_BYTES_def header_BYTES_def)
  obtain res out where ev: "evaluate_packet_compression Z plain config mtu = Inr (res, out)"
    using assms(4) by (auto simp: compress_packet_def and_then_Inr_iff)
  then have "res = Outcome_Compressed a b"
    using assms(4) by (cases res) (auto simp: compress_packet_def and_then_Inr_iff Let_def split: option.splits)
  note ev = ev [unfolded this]
  have accept: "algorithm receiver \<noteq> None" "length plain - HEADER_BYTES \<le> max_decompressed_payload_size receiver"
    and limit: "length plain \<le> HEADER_BYTES + max_decompressed_payload_size config"
    using ev assms(3)
    by (auto simp: evaluate_packet_compression_def config_accepts_def and_then_Inr_iff Let_def
        split: option.splits if_splits)
  obtain t t' where t: "packet_type_try_from (plain ! 0) = Inr t" "compressed_variant t = Some t'"
      "packet_type_try_from (payload ! 0) = Inr t'"
    and rest: "take 12 (drop 1 payload) = take 12 (drop 1 plain)" and len: "b = length payload" "b < length plain"
    and dec: "decompress_payload Z (drop HEADER_BYTES payload) receiver = Inr (drop HEADER_BYTES plain)"
    using compress_packet_spec [OF assms(2) long assms(4)] accept by auto
  have "plain ! 0 = packet_type_as_u8 (hd_packet_type h)"
    by (simp add: plain header_enc_def)
  with t(1) have "t = hd_packet_type h"
    by simp
  moreover have "HEADER_BYTES \<le> length payload"
    using evaluate_compressed(2) [OF ev] len by simp
  then obtain x xs where payload: "payload = x # xs" "12 \<le> length xs"
    by (cases payload) (auto simp: HEADER_BYTES_def header_BYTES_def)
  then have "payload = packet_type_as_u8 t' # take 12 xs @ drop 12 xs"
    using packet_type_byte [OF t(3)] by simp
  moreover have "take 12 xs = drop 1 (header_enc h)"
    using rest payload(1) by (simp add: plain header_enc_def)
  ultimately show ?thesis
    using t(2) dec len payload limit by (intro that [of t' "drop 12 xs"]) (simp_all add: header_enc_def HEADER_BYTES_def header_BYTES_def)
qed

lemma process_header_type:
  "is_ack_eliciting t' = is_ack_eliciting (hd_packet_type h) \<Longrightarrow>
   process_recv_packet_header R I (h\<lparr>hd_packet_type := t'\<rparr>) elapsed m = process_recv_packet_header R I h elapsed m"
  by (simp add: process_recv_packet_header_def get_bitfield_bit_def Let_def cong: if_cong split: option.split)

lemma receive_packet_messages:
  assumes "plain_payload h cs plain" "\<forall>c \<in> set cs. candidate_ok c" "length plain \<le> usize_max"
    and "wire_payload (tp_block P) config mtu plain payload" "block_codec (tp_block P)" "config_accepts config (tr_compression t)"
    and "process_recv_packet_header (tp_ring P) (tp_index P) h elapsed (tr_header_manager t) = Some (acked, manager)"
  shows "receive_packet P elapsed payload t =
    (case buffer_messages (tp_block P) (hd_tick h) (map (\<lambda>c. (sc_channel_id c, sm_data (sc_message c))) cs)
            (t\<lparr>tr_header_manager := manager\<rparr>) of
       (t', result) \<Rightarrow> Some (t', map (\<lambda>(p, rtt_sample). PacketAcked p rtt_sample) acked @ [PacketReceived (hd_tick h)], result))"
proof -
  obtain body where plain: "plain = header_enc h @ body" and type: "hd_packet_type h \<in> {Data, DataFragment}"
    using plain_payload_header [OF assms(1)] by blast
  have body: "drop 13 plain = body"
    by (simp add: plain)
  consider "payload = plain" | a b info where "compress_packet (tp_block P) (plain, None) config mtu = Inr (Outcome_Compressed a b, payload, info)"
    using assms(4) by (auto simp: wire_payload_def)
  then show ?thesis
  proof cases
    case 1
    let ?r = "reader_from plain"
    have "header_from_bytes ?r = Inr (h, skip 13 ?r)"
      by (rule header_from_bytes_append) (simp add: plain reader_from_def remaining_slice_def)
    moreover have "wf_reader (skip 13 ?r)" "remaining_slice (skip 13 ?r) = drop 13 plain"
      using assms(3) by (simp_all add: plain wf_reader_def reader_from_def skip_def remaining_slice_def)
    note read_plain_payload [OF assms(1) this assms(2), of "tp_block P" "hd_tick h" "t\<lparr>tr_header_manager := manager\<rparr>"]
    moreover have "\<not> is_compressed (hd_packet_type h)"
      using type by (auto simp: is_compressed_def)
    ultimately show ?thesis
      by (simp add: receive_packet_def 1 assms(7) Let_def case_prod_beta)
  next
    case 2
    obtain t' out where t': "payload = header_enc (h\<lparr>hd_packet_type := t'\<rparr>) @ out" "compressed_variant (hd_packet_type h) = Some t'"
      "decompress_payload (tp_block P) out (tr_compression t) = Inr (drop 13 plain)" "length payload < length plain"
      using compressed_payload_layout [OF assms(1,5,6) 2] by metis
    let ?h = "h\<lparr>hd_packet_type := t'\<rparr>" and ?r = "reader_from payload"
    have "header_from_bytes ?r = Inr (?h, skip 13 ?r)"
      by (rule header_from_bytes_append) (simp add: t'(1) reader_from_def remaining_slice_def)
    moreover have "take_remaining (skip 13 ?r) = Some (out, (skip 13 ?r)\<lparr>rd_buf := take 13 payload\<rparr>)"
      by (simp add: take_remaining_def reader_from_def skip_def reader_len_def t'(1))
    moreover have "is_compressed t'" "uncompressed_variant t' = hd_packet_type h"
      "is_ack_eliciting t' = is_ack_eliciting (hd_packet_type h)"
      using t'(2) type by (auto simp: compressed_variant_def is_compressed_def is_ack_eliciting_def uncompressed_variant_def
          split: packet_type.splits)
    moreover have "wf_reader (reader_from (drop 13 plain))" "remaining_slice (reader_from (drop 13 plain)) = drop 13 plain"
      using assms(3) by (simp_all add: wf_reader_def reader_from_def remaining_slice_def)
    note read_plain_payload [OF assms(1) this assms(2), of "tp_block P" "hd_tick h" "t\<lparr>tr_header_manager := manager\<rparr>"]
    ultimately show ?thesis
      by (simp add: receive_packet_def t'(3) process_header_type assms(7) Let_def case_prod_beta)
  qed
qed

lemma process_header_total:
  assumes "index_map I" "ring_buffer R 32" "length (ring_iter R (rb_buffer (recv_buffer m))) = 32"
  obtains acked manager where "process_recv_packet_header R I h elapsed m = Some (acked, manager)"
    "recv_packet R (hd_packet_id h) (recv_buffer m) = Some (recv_buffer manager)"
    "has_pending_ack manager = (has_pending_ack m \<or> hd_packet_type h \<noteq> AckOnly)"
proof -
  obtain b where b: "recv_packet R (hd_packet_id h) (recv_buffer m) = Some b"
    using ack_ring_buffer.recv_packet_total [OF ack_ring_buffer.intro [OF assms(2)] assms(3)] by blast
  show ?thesis
    by (rule packet_index.process_effect [OF packet_index.intro [OF assms(1)] b, of elapsed])
      (rule that, auto simp: b has_pending_ack_def)
qed

text \<open>A new transport, with a list for the ring and association lists for the maps.\<close>

definition example_governor :: "(unit, unit) governor_ops" where
  "example_governor = \<lparr>gv_per_second = (\<lambda>_. ()), gv_allow_burst = (\<lambda>_ _. ()), gv_direct = (\<lambda>_. ()),
     gv_check_n = (\<lambda>_ _. ((), Some True))\<rparr>"

definition example_ops :: "(nat, nat, unit, unit, bool list, (packet_id, duration) alist) transport_ops" where
  "example_ops = \<lparr>tp_f32 = example_f32, tp_timer = example_timer, tp_governor = example_governor, tp_block = rle_block,
     tp_ring = list_ring 32, tp_index = alist_index_map, tp_loss_ratio = (\<lambda>_ _. 0),
     tp_nack_default = \<lparr>rtt_multiplier = 2, jitter_multiplier = 0, minimum_timeout = 10, maximum_timeout = 20\<rparr>\<rparr>"

definition example_sent :: "(nat, nat) send_candidate" where
  "example_sent = \<lparr>sc_channel_kind = 7, sc_channel_id = 3, sc_key = ReliableSingle 0, sc_send_order = 0,
     sc_message = \<lparr>sm_data = Single \<lparr>sd_id = Some 0, sd_bytes = [1, 2, 3]\<rparr>, sm_priority = 1\<rparr>, sc_effective_priority = 1\<rparr>"

definition example_receiver :: "(nat, nat, nat, unit, unit, bool list, (packet_id, duration) alist) transport" where
  "example_receiver = transport_new example_ops (priority_config_default example_governor)"

lemma example_ops_laws:
  "block_codec (tp_block example_ops)" "index_map (tp_index example_ops)" "ring_buffer (tp_ring example_ops) 32"
  "length (ring_iter (tp_ring example_ops) (rb_buffer (recv_buffer (tr_header_manager example_receiver)))) = 32"
proof -
  show "ring_buffer (tp_ring example_ops) 32"
    using ring_buffer_list_ring [of 32] by (simp add: example_ops_def)
qed (simp_all add: example_ops_def rle_codec.block_codec_axioms alist_index.index_map_axioms
    example_receiver_def transport_new_def with_nack_settings_def receive_buffer_new_def list_ring_def)

lemma example_sent_ok: "candidate_sized FRAGMENT_SIZE example_sent"
  by (simp add: example_sent_def candidate_sized_def candidate_ok_def count_ok_def FRAGMENT_SIZE_eq)

lemma fragment_size_1200: "fragment_size_for_min_mtu 1200 = Some (Some FRAGMENT_SIZE)"
proof -
  have "(case fragment_size_for_min_mtu 1200 of Some (Some n) \<Rightarrow> n | _ \<Rightarrow> 0) = 1162"
    using FRAGMENT_SIZE_eq by (simp add: FRAGMENT_SIZE_def DEFAULT_MTU_def)
  then show ?thesis
    by (auto simp: FRAGMENT_SIZE_eq split: option.splits)
qed

text \<open>
  C25: The packet builder and the receiving system agree. Whatever packet the builder makes of the
  candidates, with or without a fragment, with or without compression, the system on the other side hands exactly the
  messages it carries to the channels, in the order of the packet, up to the first one that a channel refuses, and
  reports the same tick. Compression may be configured differently on the two sides as long as the receiver accepts what the
  sender makes.
\<close>

theorem built_packet_delivers_its_messages:
  assumes "build_next_packet N (tp_block P) R tick cs cursor config mtu hm = (cursor', Inr (Some p))"
    and "\<forall>c \<in> set cs. candidate_ok c" "block_codec (tp_block P)" "config_accepts config (tr_compression t)"
    and "mtu \<le> usize_max" "HEADER_BYTES + max_decompressed_payload_size config \<le> usize_max"
    and "index_map (tp_index P)" "ring_buffer (tp_ring P) 32"
    and "length (ring_iter (tp_ring P) (rb_buffer (recv_buffer (tr_header_manager t)))) = 32"
  shows "\<exists>taken h acked manager. distinct taken \<and> taken \<noteq> [] \<and> set taken \<subseteq> {..<length cs} \<and>
    pk_messages p = map (\<lambda>i. candidate_meta (cs ! i)) taken \<and>
    hd_packet_id h = next_packet_id hm \<and> pk_packet_id p = next_packet_id hm \<and>
    process_recv_packet_header (tp_ring P) (tp_index P) h elapsed (tr_header_manager t) = Some (acked, manager) \<and>
    receive_packet P elapsed (pk_payload p) t =
      (case buffer_messages (tp_block P) tick (map (\<lambda>i. (sc_channel_id (cs ! i), sm_data (sc_message (cs ! i)))) taken)
              (t\<lparr>tr_header_manager := manager\<rparr>) of
         (t', result) \<Rightarrow> Some (t', map (\<lambda>(q, rtt_sample). PacketAcked q rtt_sample) acked @ [PacketReceived tick], result))"
proof -
  obtain type where "takes_candidates (tp_block P) config mtu (preview_send_packet_header R type tick hm) (next_packet_id hm) cs
      (cursor_pending cs cursor) (cursor_pending cs cursor') p"
    using build_next_packet_takes [OF assms(1-3)] by blast
  then obtain taken plain where taken: "distinct taken" "taken \<noteq> []" "set taken \<subseteq> cursor_pending cs cursor"
    "pk_messages p = map (\<lambda>i. candidate_meta (cs ! i)) taken" "pk_packet_id p = next_packet_id hm" "length (pk_payload p) \<le> mtu"
    "plain_payload (preview_send_packet_header R type tick hm) (map ((!) cs) taken) plain"
    "wire_payload (tp_block P) config mtu plain (pk_payload p)"
    by (auto simp: takes_candidates_def)
  let ?h = "preview_send_packet_header R type tick hm"
  have h: "hd_packet_id ?h = next_packet_id hm" "hd_tick ?h = tick"
    by (simp_all add: preview_send_packet_header_def Let_def)
  have ok: "\<forall>c \<in> set (map ((!) cs) taken). candidate_ok c"
    using assms(2) taken(3) by (auto simp: cursor_pending_def)
  have small: "length plain \<le> usize_max"
  proof (cases "pk_payload p = plain")
    case True
    then show ?thesis
      using taken(6) assms(5) by simp
  next
    case False
    then obtain a b info where c: "compress_packet (tp_block P) (plain, None) config mtu = Inr (Outcome_Compressed a b, pk_payload p, info)"
      using taken(8) by (auto simp: wire_payload_def)
    from compressed_payload_layout [OF taken(7) assms(3,4) c] assms(6) show ?thesis
      by (metis le_trans)
  qed
  obtain acked manager where manager:
    "process_recv_packet_header (tp_ring P) (tp_index P) ?h elapsed (tr_header_manager t) = Some (acked, manager)"
    using process_header_total [OF assms(7-9)] .
  from receive_packet_messages [OF taken(7) ok small taken(8) assms(3,4) manager] taken h manager show ?thesis
    by (intro exI [of _ taken] exI [of _ ?h] exI [of _ acked] exI [of _ manager]) (auto simp: cursor_pending_def comp_def)
qed

theorem built_packet_delivers_its_messages_witness:
  "\<exists>cursor' p r. build_next_packet example_f32 (tp_block example_ops) (tp_ring example_ops) 4 [example_sent] \<lparr>cu_index = 0, cu_single_index = 0\<rparr>
       DISABLED 1200 (tr_header_manager example_receiver) = (cursor', Inr (Some p)) \<and>
     receive_packet example_ops 9 (pk_payload p) example_receiver = Some r"
proof -
  let ?start = "\<lparr>cu_index = 0, cu_single_index = 0\<rparr>"
  have fits: "\<forall>c \<in> set [example_sent]. candidate_ok c \<and> candidate_fits 1200 c"
    using sized_candidate_fits [OF fragment_size_1200 _ _ example_sent_ok, of 1200] example_sent_ok
    by (simp add: candidate_sized_def)
  obtain cursor' r where built: "build_next_packet example_f32 (tp_block example_ops) (tp_ring example_ops) 4 [example_sent] ?start
      DISABLED 1200 (tr_header_manager example_receiver) = (cursor', Inr r)"
    using build_next_packet_total [OF _ fits, of "tp_block example_ops" DISABLED example_f32 "tp_ring example_ops" 4 ?start
        "tr_header_manager example_receiver"] by (auto simp: compression_works_def DISABLED_def)
  have "r \<noteq> None"
    using build_next_packet_done built by (fastforce simp: cursor_pending_def)
  then obtain p where p: "r = Some p" by blast
  from built_packet_delivers_its_messages [OF built [unfolded p] _ example_ops_laws(1) _ _ _ example_ops_laws(2-4), of 9] fits built p
  show ?thesis
    by (fastforce simp: config_accepts_def DISABLED_def usize_max_def HEADER_BYTES_def header_BYTES_def split: prod.splits)
qed

text \<open>
  C28: A packet is acknowledged before its messages are looked at. When its first message is for a channel that the
  receiver does not have, none of its messages is buffered, the packet is recorded all the same and the next packet will
  acknowledge it, so that the sender takes the reliable messages of the other channels for delivered; and
  the packets of the frame that come after it are dropped unread.
\<close>

theorem rejected_packet_is_acknowledged:
  assumes "plain_payload h (c # cs) payload" "\<forall>d \<in> set (c # cs). candidate_ok d" "length payload \<le> usize_max" "block_codec (tp_block P)"
    and "tr_receivers t (sc_channel_id c) = None"
    and "index_map (tp_index P)" "ring_buffer (tp_ring P) 32"
    and "length (ring_iter (tp_ring P) (rb_buffer (recv_buffer (tr_header_manager t)))) = 32"
  shows "\<exists>manager events. receive_packets P elapsed (payload # later) t = Some (t\<lparr>tr_header_manager := manager\<rparr>, events) \<and>
    has_pending_ack manager \<and>
    recv_packet (tp_ring P) (hd_packet_id h) (recv_buffer (tr_header_manager t)) = Some (recv_buffer manager)"
proof -
  obtain acked manager where manager:
    "process_recv_packet_header (tp_ring P) (tp_index P) h elapsed (tr_header_manager t) = Some (acked, manager)"
    "recv_packet (tp_ring P) (hd_packet_id h) (recv_buffer (tr_header_manager t)) = Some (recv_buffer manager)"
    "has_pending_ack manager = (has_pending_ack (tr_header_manager t) \<or> hd_packet_type h \<noteq> AckOnly)"
    using process_header_total [OF assms(6-8)] .
  have "hd_packet_type h \<noteq> AckOnly"
    using plain_payload_header [OF assms(1)] by auto
  moreover have "receive_packet P elapsed payload t =
      Some (t\<lparr>tr_header_manager := manager\<rparr>, map (\<lambda>(q, rtt_sample). PacketAcked q rtt_sample) acked @ [PacketReceived (hd_tick h)],
        Inl (TPacketError ChannelNotFound))"
    using receive_packet_messages [OF assms(1-3) _ assms(4) _ manager(1), of DISABLED 0] assms(5)
    by (simp add: wire_payload_def config_accepts_def DISABLED_def buffer_message_def)
  ultimately show ?thesis
    using manager(2,3) by (intro exI [of _ manager]) (simp add: panicked_def packet_panicked_def)
qed

theorem rejected_packet_is_acknowledged_witness:
  "\<exists>manager events. receive_packets example_ops 9 [header_enc example_header @ [3, 1, 1, 0, 0, 3, 1, 2, 3], [1], [2]] example_receiver =
     Some (example_receiver\<lparr>tr_header_manager := manager\<rparr>, events) \<and> has_pending_ack manager"
proof -
  let ?payload = "header_enc example_header @ [3, 1, 1, 0, 0, 3, 1, 2, 3]"
  have "batches_enc [(3, [\<lparr>sd_id = Some 0, sd_bytes = [1, 2, 3]\<rparr>])] = [3, 1, 1, 0, 0, 3, 1, 2, 3]"
    by (simp add: batch_enc_def chan_enc_def single_data_enc_def option_enc_def wid_enc_def bytes_enc_def varint_bytes_def be_bytes_def upt_rec)
  then have "plain_payload example_header [example_sent] ?payload"
    by (auto simp: plain_payload_def example_sent_def example_header_def batch_ok_def count_ok_def single_of_def
        intro!: exI [of _ "[(3, [\<lparr>sd_id = Some 0, sd_bytes = [1, 2, 3]\<rparr>])]"])
  from rejected_packet_is_acknowledged [OF this _ _ example_ops_laws(1) _ example_ops_laws(2-4), of 9 "[[1], [2]]"]
  show ?thesis
    using example_sent_ok by (auto simp: candidate_sized_def example_receiver_def transport_new_def usize_max_def)
qed

end
