(* ===== verification/Sized_Messages.thy ===== *)
theory Sized_Messages
  imports Transport
begin

text \<open>
  An invariant of the senders of a transport: they all cut their messages at the same size, and everything they
  hold respects it. It is what makes the packets of a flush fit, and it holds at any time since the operations
  of the sending side keep it.
\<close>

section \<open>Cutting\<close>

definition message_sized :: "nat \<Rightarrow> message_data \<Rightarrow> bool" where
  "message_sized n d =
     (case d of
        Single m \<Rightarrow> count_ok (length (sd_bytes m)) \<and> length (sd_bytes m) \<le> n
      | Fragment f \<Rightarrow> fragment_data_ok f \<and> length (fd_bytes f) \<le> n)"

lemma candidate_sized_message: "candidate_sized n c \<longleftrightarrow> message_sized n (sm_data (sc_message c))"
  by (auto simp: candidate_sized_def candidate_ok_def message_sized_def split: message_data.split)

lemma length_chunks_le: "length (chunks s xs) \<le> length xs"
proof (cases "s = 0 \<or> xs = []")
  case True
  then show ?thesis by (subst chunks.simps) auto
next
  case False
  then have "(length (chunks s xs) - 1) * s < length xs" "0 < s"
    using chunks_bounds [of s xs] by auto
  then have "length (chunks s xs) - 1 < length xs"
    by (metis One_nat_def Suc_leI le_less_trans mult.right_neutral mult_le_mono2)
  then show ?thesis by simp
qed

lemma chunk_le: "c \<in> set (chunks s xs) \<Longrightarrow> length c \<le> s"
  by (auto simp: in_set_conv_nth chunks_nth length_chunk_at)

lemma build_fragments_sized:
  assumes "build_fragments_with_compression mid p c s = Some frags" and "length p < 2 ^ 62" and "f \<in> set frags"
  shows "fragment_data_ok f \<and> length (fd_bytes f) \<le> fs_fragment_size s"
proof -
  let ?cs = "chunks (fs_fragment_size s) p"
  obtain i chunk where i: "(i, chunk) \<in> set (enumerate 0 ?cs)" and f: "f = \<lparr>fd_message_id = mid, fd_fragment_id = word_of_nat i,
      fd_num_fragments = word_of_nat (length ?cs), fd_compression = (if i = 0 then Some c else None), fd_bytes = chunk\<rparr>"
    using assms(1,3) by (auto simp: build_fragments_with_compression_def Let_def split: if_splits)
  have less: "i < length ?cs" and chunk: "chunk = ?cs ! i"
    using i by (auto simp: in_set_enumerate_eq)
  have n: "length ?cs < 2 ^ 62"
    using length_chunks_le [of "fs_fragment_size s" p] assms(2) by simp
  have ids: "varint_ok (word_of_nat i)" "varint_ok (word_of_nat (length ?cs))" "(word_of_nat i :: u64) = 0 \<longleftrightarrow> i = 0"
    using less n by (auto simp: word_le_nat_alt unat_of_nat_u64 word_of_nat_eq_0_iff dest: dvd_imp_le)
  have "length chunk \<le> length p"
    using less by (simp add: chunk chunks_nth length_chunk_at)
  then have "count_ok (length chunk)"
    using assms(2) by (simp add: count_ok_def)
  then show ?thesis
    using ids less chunk_le [of chunk "fs_fragment_size s" p] by (simp add: f fragment_data_ok_def chunk)
qed

lemma build_for_message_sized:
  assumes "build_fragments_for_message Z mid msg config s = Some frags" and "length msg < 2 ^ 62" and "f \<in> set frags"
  shows "fragment_data_ok f \<and> length (fd_bytes f) \<le> fs_fragment_size s"
proof -
  have "\<exists>p c. build_fragments_with_compression mid p c s = Some frags \<and> length p < 2 ^ 62"
  proof (cases "\<exists>p a b. compress_fragment Z msg config = Inr (Candidate_Compressed p a b)")
    case True
    then obtain p a b where p: "compress_fragment Z msg config = Inr (Candidate_Compressed p a b)"
      by blast
    then have "length p < length msg"
      by (auto simp: compress_fragment_def Let_def and_then_Inr_iff split: option.splits if_splits compression_algorithm.splits)
    moreover have "(\<exists>c. build_fragments_with_compression mid p c s = Some frags) \<or> build_fragments mid msg s = Some frags"
      using assms(1) p by (auto simp: build_fragments_for_message_def split: if_splits option.splits)
    ultimately show ?thesis
      using assms(2) by (auto simp: build_fragments_def split: if_splits)
  next
    case False
    then have "build_fragments mid msg s = Some frags"
      using assms(1) by (auto simp: build_fragments_for_message_def split: if_splits sum.splits option.splits
          payload_compression_candidate.splits)
    then show ?thesis
      using assms(2) by (auto simp: build_fragments_def split: if_splits)
  qed
  then show ?thesis
    using build_fragments_sized assms(3) by blast
qed

section \<open>The invariant\<close>

definition pending_sized :: "nat \<Rightarrow> 'f pending_reliable_message \<Rightarrow> bool" where
  "pending_sized n p =
     (case prm_message p of
        UnackedSingle bs _ \<Rightarrow> count_ok (length bs) \<and> length bs \<le> n
      | UnackedFragmented frs \<Rightarrow> \<forall>f \<in> set frs. message_sized n (Fragment (fa_data f)))"

definition sender_sized :: "nat \<Rightarrow> 'c \<Rightarrow> ('c, 'f, 'tm) channel_send \<Rightarrow> bool" where
  "sender_sized n kind ch \<longleftrightarrow> ch_channel_kind ch = kind \<and> fs_fragment_size (ch_fragmenter ch) = n \<and>
     (case ch_state ch of
        SendUnreliable st \<Rightarrow>
          (\<forall>p \<in> set (us_singles st @ us_fragments st). message_sized n (sm_data (psm_message p))) \<and>
          (\<forall>p \<in> set (us_fragments st). fragment_message_id p \<noteq> None)
      | SendReliable st \<Rightarrow> \<forall>(mid, p) \<in> set (rs_pending st). pending_sized n p)"

definition transport_sized :: "nat \<Rightarrow> ('c, 'f, 'tm, 'q, 'l, 'b, 'm) transport \<Rightarrow> bool" where
  "transport_sized n t \<longleftrightarrow> tr_fragment_size t = n \<and> (\<forall>(kind, ch) \<in> set (tr_senders t). sender_sized n kind ch)"

lemma map_of_sized: "transport_sized n t \<Longrightarrow> map_of (tr_senders t) kind = Some ch \<Longrightarrow> sender_sized n kind ch"
  by (auto simp: transport_sized_def dest: map_of_SomeD)

lemma set_alist_update: "set (AList.update k v xs) \<subseteq> insert (k, v) (set xs)"
  by (induction xs) auto

lemma update_sender_sized: "transport_sized n t \<Longrightarrow> sender_sized n kind ch \<Longrightarrow> transport_sized n (update_sender kind ch t)"
  by (auto simp: transport_sized_def update_sender_def dest!: set_alist_update [THEN subsetD])

lemma sender_sized_new: "sender_sized n kind (channel_send_new N T kind cid settings n)"
  by (auto simp: sender_sized_def channel_send_new_def Let_def unreliable_send_state_new_def reliable_send_state_new_def
      fragment_sender_new_def fs_set_fragment_size_def split: channel_mode.split)

lemma transport_sized_new: "transport_sized FRAGMENT_SIZE (transport_new P config)"
  by (simp add: transport_sized_def transport_new_def)

lemma add_channel_send_sized: "transport_sized n t \<Longrightarrow> transport_sized n (add_channel_send P kind settings cid t)"
  by (simp add: add_channel_send_def update_sender_sized sender_sized_new transport_sized_def [of _ t])

section \<open>The operations keep it\<close>

lemma us_buffer_send_sized:
  assumes "us_buffer_send Z fragmenter message priority config st = Some (st', mid)" and "length message < 2 ^ 62"
    and "\<forall>p \<in> set (us_singles st @ us_fragments st). message_sized (fs_fragment_size fragmenter) (sm_data (psm_message p))"
    and "\<forall>p \<in> set (us_fragments st). fragment_message_id p \<noteq> None"
  shows "(\<forall>p \<in> set (us_singles st' @ us_fragments st'). message_sized (fs_fragment_size fragmenter) (sm_data (psm_message p))) \<and>
    (\<forall>p \<in> set (us_fragments st'). fragment_message_id p \<noteq> None)"
proof (cases "length message > fs_fragment_size fragmenter")
  case True
  then obtain frags where frags: "build_fragments_for_message Z (us_next_message_id st) message config fragmenter = Some frags"
    using assms(1) by (auto simp: us_buffer_send_def Let_def)
  have "message_sized (fs_fragment_size fragmenter) (Fragment f)" if "f \<in> set frags" for f
    using build_for_message_sized [OF frags assms(2) that] by (simp add: message_sized_def)
  moreover have "us_singles st' = us_singles st" "us_fragments st' = us_fragments st @
      map (\<lambda>f. pending_send_message_new \<lparr>sm_data = Fragment f, sm_priority = priority\<rparr>) frags"
    using assms(1) True frags by (auto simp: us_buffer_send_def Let_def)
  ultimately show ?thesis
    using assms(3,4) by (auto simp: pending_send_message_new_def fragment_message_id_def)
next
  case False
  then have "us_fragments st' = us_fragments st" "\<exists>i. us_singles st' = us_singles st @
      [pending_send_message_new \<lparr>sm_data = Single \<lparr>sd_id = i, sd_bytes = message\<rparr>, sm_priority = priority\<rparr>]"
    using assms(1) by (auto simp: us_buffer_send_def Let_def split: if_splits)
  then show ?thesis
    using assms(2-4) False by (auto simp: pending_send_message_new_def message_sized_def count_ok_def)
qed

lemma rs_buffer_send_sized:
  assumes "rs_buffer_send N Z fragmenter message priority config st = Some (st', mid)" and "length message < 2 ^ 62"
    and "\<forall>(mid, p) \<in> set (rs_pending st). pending_sized (fs_fragment_size fragmenter) p"
  shows "\<forall>(mid, p) \<in> set (rs_pending st'). pending_sized (fs_fragment_size fragmenter) p"
proof -
  obtain m p where m: "rs_pending st' = AList.update (rs_next_message_id st) p (rs_pending st)" "prm_message p = m"
    "m = UnackedSingle message None \<and> length message \<le> fs_fragment_size fragmenter \<or>
     (\<exists>frags. build_fragments_for_message Z (rs_next_message_id st) message config fragmenter = Some frags \<and>
        m = UnackedFragmented (map (\<lambda>data. \<lparr>fa_data = data, fa_acked = False, fa_last_sent = None\<rparr>) frags))"
    using assms(1) by (auto simp: rs_buffer_send_def Let_def bind_eq_Some_conv split: if_splits)
  then have "pending_sized (fs_fragment_size fragmenter) p"
    using build_for_message_sized [OF _ assms(2), of Z _ config fragmenter] assms(2)
    by (fastforce simp: pending_sized_def message_sized_def count_ok_def)
  then show ?thesis
    using assms(3) unfolding m(1) by (auto dest!: set_alist_update [THEN subsetD])
qed

lemma ch_buffer_send_sized:
  assumes "ch_buffer_send N Z message priority config ch = Some (ch', mid)" and "length message < 2 ^ 62" and "sender_sized n kind ch"
  shows "sender_sized n kind ch'"
proof (cases "ch_state ch")
  case (SendUnreliable st)
  then obtain st' where st': "us_buffer_send Z (ch_fragmenter ch) message priority config st = Some (st', mid)"
    "ch' = ch\<lparr>ch_state := SendUnreliable st'\<rparr>"
    using assms(1) by (auto simp: ch_buffer_send_def)
  then show ?thesis
    using us_buffer_send_sized [OF st'(1) assms(2)] assms(3) SendUnreliable by (simp add: sender_sized_def)
next
  case (SendReliable st)
  then obtain st' mid' where st': "rs_buffer_send N Z (ch_fragmenter ch) message priority config st = Some (st', mid')"
    "ch' = ch\<lparr>ch_state := SendReliable st'\<rparr>"
    using assms(1) by (auto simp: ch_buffer_send_def)
  then show ?thesis
    using rs_buffer_send_sized [OF st'(1) assms(2)] assms(3) SendReliable by (simp add: sender_sized_def)
qed

lemma us_commit_send_sized:
  assumes "us_commit_send key st = Some st'" and "\<forall>p \<in> set (us_singles st @ us_fragments st). message_sized n (sm_data (psm_message p))"
    and "\<forall>p \<in> set (us_fragments st). fragment_message_id p \<noteq> None"
  shows "(\<forall>p \<in> set (us_singles st' @ us_fragments st'). message_sized n (sm_data (psm_message p))) \<and>
    (\<forall>p \<in> set (us_fragments st'). fragment_message_id p \<noteq> None)"
proof -
  have "psm_message ` set (us_singles st') \<subseteq> psm_message ` set (us_singles st)"
    "psm_message ` set (us_fragments st') \<subseteq> psm_message ` set (us_fragments st)"
    using assms(1) by (auto simp: us_commit_send_def Let_def image_iff dest!: set_update_subset_insert [THEN subsetD]
        split: send_message_key.splits if_splits option.splits; (metis nth_mem)?)+
  then have "\<forall>p \<in> set (us_singles st'). \<exists>q \<in> set (us_singles st). psm_message q = psm_message p"
    "\<forall>p \<in> set (us_fragments st'). \<exists>q \<in> set (us_fragments st). psm_message q = psm_message p"
    by (auto simp: image_subset_iff image_iff) metis+
  moreover have "fragment_message_id p = fragment_message_id q" if "psm_message p = psm_message q" for p q :: "'a pending_send_message"
    using that by (simp add: fragment_message_id_def)
  ultimately show ?thesis
    using assms(2,3) by (metis Un_iff set_append)
qed

lemma us_commit_send_total:
  "\<forall>p \<in> set (us_fragments st). fragment_message_id p \<noteq> None \<Longrightarrow> \<exists>st'. us_commit_send key st = Some st'"
  by (auto simp: us_commit_send_def Let_def split: send_message_key.split option.split; metis nth_mem option.distinct(1))

lemma rs_commit_send_sized:
  assumes "\<forall>(mid, p) \<in> set (rs_pending st). pending_sized n p"
  shows "\<forall>(mid, p) \<in> set (rs_pending (rs_commit_send key sent_at st)). pending_sized n p"
proof -
  have old: "pending_sized n p" if "map_of (rs_pending st) mid = Some p" for mid p
    using assms that by (auto dest: map_of_SomeD)
  have single: "pending_sized n (p\<lparr>prm_message := UnackedSingle bs x\<rparr>)"
    if "pending_sized n p" "prm_message p = UnackedSingle bs y" for p bs x y
    using that by (simp add: pending_sized_def)
  have fragmented: "pending_sized n (p\<lparr>prm_message := UnackedFragmented (frs[i := (frs ! i)\<lparr>fa_last_sent := x\<rparr>])\<rparr>)"
    if "pending_sized n p" "prm_message p = UnackedFragmented frs" "i < length frs" for p frs i x
    using that set_update_subset_insert [of frs i "(frs ! i)\<lparr>fa_last_sent := x\<rparr>"] by (auto simp: pending_sized_def)
  show ?thesis
    using assms
    by (auto simp: rs_commit_send_def split: send_message_key.splits option.splits unacked_message.splits if_splits
        dest!: set_alist_update [THEN subsetD] intro: single fragmented old)
qed

lemma ch_commit_send_sized:
  assumes "sender_sized n kind ch"
  shows "\<exists>ch'. ch_commit_send key sent_at ch = Some ch' \<and> sender_sized n kind ch'"
proof (cases "ch_state ch")
  case (SendUnreliable st)
  then obtain st' where "us_commit_send key st = Some st'"
    using us_commit_send_total [of st key] assms by (auto simp: sender_sized_def)
  then show ?thesis
    using us_commit_send_sized [of key st st' n] assms SendUnreliable by (simp add: ch_commit_send_def sender_sized_def)
next
  case (SendReliable st)
  then show ?thesis
    using rs_commit_send_sized [of st n key sent_at] assms by (simp add: ch_commit_send_def sender_sized_def)
qed

text \<open>The candidates of a sender are sized and name its channel.\<close>

lemma those_set: "those xs = Some ys \<Longrightarrow> y \<in> set ys \<Longrightarrow> Some y \<in> set xs"
  by (induction xs arbitrary: ys) (auto split: option.splits)

lemma us_collect_sized:
  assumes "us_collect_candidates kind cid st = Some cs" and "c \<in> set cs"
    and "\<forall>p \<in> set (us_singles st @ us_fragments st). message_sized n (sm_data (psm_message p))"
  shows "candidate_sized n c \<and> sc_channel_kind c = kind"
proof -
  have "Some c \<in> set (queue_candidates kind cid UnreliableSingle (us_singles st) @
      queue_candidates kind cid UnreliableFragment (us_fragments st))"
    by (rule those_set [OF assms(1) [unfolded us_collect_candidates_def] assms(2)])
  then show ?thesis
    using assms(3)
    by (auto simp: queue_candidates_def send_candidate_new_def new_with_send_order_def candidate_sized_message
        in_set_enumerate_eq unreliable_send_order_def)
qed

lemma pending_candidates_sized:
  "pending_sized n p \<Longrightarrow> c \<in> set (pending_candidates kind cid should mid p) \<Longrightarrow> candidate_sized n c \<and> sc_channel_kind c = kind"
  by (auto simp: pending_candidates_def pending_sized_def send_candidate_new_reliable_def new_with_send_order_def
      candidate_sized_message message_sized_def split: unacked_message.splits if_splits)

lemma rs_collect_sized:
  assumes "rs_collect_candidates N kind cid st = Some (st', cs)" and "\<forall>(mid, p) \<in> set (rs_pending st). pending_sized n p"
  shows "(\<forall>(mid, p) \<in> set (rs_pending st'). pending_sized n p) \<and>
    (\<forall>c \<in> set cs. candidate_sized n c \<and> sc_channel_kind c = kind)"
proof -
  obtain delay where st': "st' = st\<lparr>rs_pending := map (\<lambda>(mid, p). (mid, accumulate_priority N (rs_priority_multiplier st) p)) (rs_pending st)\<rparr>"
    "cs = concat (map (\<lambda>(mid, p). pending_candidates kind cid (should_send delay (rs_current_time st')) mid p) (rs_pending st'))"
    using assms(1) by (auto simp: rs_collect_candidates_def Let_def)
  have "\<forall>(mid, p) \<in> set (rs_pending st'). pending_sized n p"
    using assms(2) by (auto simp: st'(1) pending_sized_def accumulate_priority_def)
  then show ?thesis
    using pending_candidates_sized by (fastforce simp: st'(2))
qed

lemma collect_send_sized:
  assumes "collect_send_candidates N T ch = Some (ch', cs)" and "sender_sized n kind ch"
  shows "sender_sized n kind ch' \<and> (\<forall>c \<in> set cs. candidate_sized n c \<and> sc_channel_kind c = kind)"
proof (cases "is_ready_to_send T (ch_timer ch)")
  case True
  show ?thesis
  proof (cases "ch_state ch")
    case (SendUnreliable st)
    then show ?thesis
      using assms True us_collect_sized [of "ch_channel_kind ch" "ch_channel_id ch" st cs]
      by (auto simp: collect_send_candidates_def sender_sized_def)
  next
    case (SendReliable st)
    then show ?thesis
      using assms True rs_collect_sized [of N "ch_channel_kind ch" "ch_channel_id ch" st]
      by (auto simp: collect_send_candidates_def sender_sized_def)
  qed
qed (use assms in \<open>auto simp: collect_send_candidates_def\<close>)

lemma collect_candidates_sized:
  assumes "collect_candidates N T senders = Some (senders', cs)" and "\<forall>(kind, ch) \<in> set senders. sender_sized n kind ch"
  shows "map fst senders' = map fst senders \<and> (\<forall>(kind, ch) \<in> set senders'. sender_sized n kind ch) \<and>
    (\<forall>c \<in> set cs. candidate_sized n c \<and> sc_channel_kind c \<in> fst ` set senders)"
  using assms
proof (induction senders arbitrary: senders' cs)
  case (Cons sender senders)
  obtain kind ch where sender: "sender = (kind, ch)"
    by (cases sender)
  obtain ch' cs1 senders1 cs2 where step: "collect_send_candidates N T ch = Some (ch', cs1)"
    "collect_candidates N T senders = Some (senders1, cs2)" "senders' = (kind, ch') # senders1" "cs = cs1 @ cs2"
    using Cons.prems(1) by (auto simp: sender bind_eq_Some_conv)
  show ?case
    using Cons.IH [OF step(2)] collect_send_sized [OF step(1), of n kind] Cons.prems(2) by (auto simp: step sender)
qed simp

lemma buffer_queue_sized:
  assumes "buffer_queue P queue t = Some t'" and "transport_sized n t" and "\<forall>(kind, message, priority) \<in> set queue. length message < 2 ^ 62"
  shows "transport_sized n t'"
  using assms
proof (induction queue arbitrary: t)
  case Nil
  then show ?case by (auto simp: transport_sized_def)
next
  case (Cons item queue)
  obtain kind message priority where item: "item = (kind, message, priority)"
    by (cases item)
  show ?case
  proof (cases "map_of (tr_senders t) kind")
    case None
    then show ?thesis
      using Cons.prems by (auto simp: transport_sized_def item)
  next
    case (Some ch)
    then obtain ch' mid where ch': "ch_buffer_send (tp_f32 P) (tp_block P) message priority (tr_compression t) ch = Some (ch', mid)"
      using Cons.prems(1) by (auto simp: send_mut_erased_def item split: option.splits)
    let ?t = "update_sender kind ch' t"
    have "transport_sized n ?t"
      using ch_buffer_send_sized [OF ch' _ map_of_sized [OF Cons.prems(2) Some]] Cons.prems(2,3)
      by (intro update_sender_sized) (auto simp: item)
    moreover have "send_mut_erased P kind message priority t = Some (Inr (?t, mid))"
      using Some ch' by (simp add: send_mut_erased_def)
    ultimately show ?thesis
      using Cons.IH [of ?t] Cons.prems Some by (simp add: item)
  qed
qed

lemma commit_message_sized:
  assumes "transport_sized n t" and "map_of (tr_senders t) (cm_channel_kind (mm_commit m)) \<noteq> None"
  shows "\<exists>t'. commit_message elapsed q m t = Some t' \<and> transport_sized n t' \<and>
    dom (map_of (tr_senders t')) = dom (map_of (tr_senders t))"
proof -
  let ?kind = "cm_channel_kind (mm_commit m)"
  obtain ch where ch: "map_of (tr_senders t) ?kind = Some ch"
    using assms(2) by blast
  note sized = map_of_sized [OF assms(1) ch]
  obtain ch' where ch': "ch_commit_send (cm_key (mm_commit m)) elapsed ch = Some ch'" "sender_sized n ?kind ch'"
    using ch_commit_send_sized [OF sized] by blast
  let ?t = "update_sender ?kind ch' t"
  have t: "transport_sized n ?t" "dom (map_of (tr_senders ?t)) = dom (map_of (tr_senders t))"
    using update_sender_sized [OF assms(1) ch'(2)] ch by (auto simp: update_sender_def update_conv')
  show ?thesis
  proof (cases "mm_message m")
    case None
    then show ?thesis
      using ch ch' t by (simp add: commit_message_def)
  next
    case (Some mid)
    let ?ch = "ch'\<lparr>ch_messages_sent := ch_messages_sent ch' @ [mid]\<rparr>"
    have "sender_sized n ?kind ?ch"
      using ch'(2) by (simp add: sender_sized_def)
    then have "transport_sized n (update_sender ?kind ?ch ?t)"
      "dom (map_of (tr_senders (update_sender ?kind ?ch ?t))) = dom (map_of (tr_senders t))"
      using t ch by (auto simp: update_sender_sized) (auto simp: update_sender_def update_conv')
    then show ?thesis
      using ch ch' Some by (auto simp: commit_message_def Let_def transport_sized_def)
  qed
qed

lemma commit_messages_sized:
  assumes "transport_sized n t" and "\<forall>m \<in> set ms. map_of (tr_senders t) (cm_channel_kind (mm_commit m)) \<noteq> None"
  shows "\<exists>t'. commit_messages elapsed q ms t = Some t' \<and> transport_sized n t' \<and>
    dom (map_of (tr_senders t')) = dom (map_of (tr_senders t))"
  using assms
proof (induction ms arbitrary: t)
  case (Cons m ms)
  obtain t1 where t1: "commit_message elapsed q m t = Some t1" "transport_sized n t1"
    "dom (map_of (tr_senders t1)) = dom (map_of (tr_senders t))"
    using commit_message_sized [of n t m elapsed q] Cons.prems by auto
  then have "\<forall>m \<in> set ms. map_of (tr_senders t1) (cm_channel_kind (mm_commit m)) \<noteq> None"
    using Cons.prems(2) by (auto simp: dom_def)
  with Cons.IH [OF t1(2)] t1 show ?case
    by auto
qed simp

text \<open>The receiving side: acknowledgements, losses, the clock and the end of a flush only remove messages.\<close>

lemma rs_receive_ack_sized:
  assumes "rs_receive_ack ack st = Some (st', finished)" and "\<forall>(mid, p) \<in> set (rs_pending st). pending_sized n p"
  shows "\<forall>(mid, p) \<in> set (rs_pending st'). pending_sized n p"
proof -
  have fragmented: "pending_sized n (p\<lparr>prm_message := UnackedFragmented (frs[i := (frs ! i)\<lparr>fa_acked := x\<rparr>])\<rparr>)"
    if "pending_sized n p" "prm_message p = UnackedFragmented frs" "\<not> length frs \<le> i" for p frs i x
    using that set_update_subset_insert [of frs i "(frs ! i)\<lparr>fa_acked := x\<rparr>"] by (auto simp: pending_sized_def)
  have old: "pending_sized n p" if "map_of (rs_pending st) mid = Some p" for mid p
    using assms that by (auto dest: map_of_SomeD)
  have upd: "pending_sized n p" if "(mid, p) \<in> set (AList.update mid' p' (rs_pending st))" "pending_sized n p'" for mid p mid' p'
    using assms(2) that by (auto dest!: set_alist_update [THEN subsetD])
  have del: "pending_sized n p" if "(mid, p) \<in> set (AList.delete mid' (rs_pending st))" for mid p mid'
    using assms(2) that by (auto simp: AList.delete_eq)
  show ?thesis
  proof (cases "map_of (rs_pending st) (ma_message_id ack)")
    case (Some p)
    note sized = old [OF this]
    show ?thesis
    proof (cases "prm_message p")
      case (UnackedSingle bs x)
      then show ?thesis
        using assms(1) Some by (auto simp: rs_receive_ack_def dest: del split: if_splits)
    next
      case (UnackedFragmented frs)
      then obtain i where i: "ma_fragment_id ack = Some i" "\<not> length frs \<le> unat i"
        using assms(1) Some by (auto simp: rs_receive_ack_def split: option.splits if_splits)
      show ?thesis
        using assms Some UnackedFragmented i
        by (auto simp: rs_receive_ack_def Let_def dest: del upd [OF _ fragmented [OF sized UnackedFragmented i(2)]] split: if_splits)
    qed
  qed (use assms in \<open>auto simp: rs_receive_ack_def\<close>)
qed

lemma sender_sized_kept:
  "sender_sized n kind ch \<Longrightarrow> sender_sized n kind (ch_update N T elapsed delta stats ch)"
  "sender_sized n kind ch \<Longrightarrow> sender_sized n kind (clear_frame_events ch)"
  "sender_sized n kind ch \<Longrightarrow> sender_sized n kind (ch_finish_send T outcome ch)"
  "sender_sized n kind ch \<Longrightarrow> sender_sized n kind (ch_receive_nack ack ch)"
  "sender_sized n kind ch \<Longrightarrow> sender_sized n kind (ch\<lparr>ch_message_nacks := ids\<rparr>)"
  "sender_sized n kind ch \<Longrightarrow> sender_sized n kind (ch\<lparr>ch_message_acks := ids\<rparr>)"
  by (auto simp: sender_sized_def ch_update_def clear_frame_events_def ch_finish_send_def ch_receive_nack_def us_update_def
      rs_update_def us_finish_send_def us_receive_nack_def Let_def split: send_state.splits option.splits)

lemma sender_sized_ack: "ch_receive_ack ack ch = Some (ch', acked) \<Longrightarrow> sender_sized n kind ch \<Longrightarrow> sender_sized n kind ch'"
  by (auto simp: sender_sized_def ch_receive_ack_def us_receive_ack_def split: send_state.splits option.splits
      dest!: rs_receive_ack_sized [of _ _ _ _ n])

lemma nack_messages_sized: "nack_messages acks t = (t', ok) \<Longrightarrow> transport_sized n t \<Longrightarrow> transport_sized n t'"
proof (induction acks arbitrary: t)
  case (Cons ack acks)
  obtain kind message_ack where ack: "ack = (kind, message_ack)"
    by (cases ack)
  show ?case
  proof (cases "map_of (tr_senders t) kind")
    case (Some ch)
    note sized = map_of_sized [OF Cons.prems(2) Some]
    show ?thesis
      using Cons.prems(1) Cons.IH [OF _ update_sender_sized [OF Cons.prems(2) sender_sized_kept(4) [OF sender_sized_kept(5) [OF sized]]]]
      by (simp add: ack Some Let_def)
  qed (use Cons.prems in \<open>simp add: ack\<close>)
qed simp

lemma ack_messages_sized: "ack_messages acks t = Some (t', ok) \<Longrightarrow> transport_sized n t \<Longrightarrow> transport_sized n t'"
proof (induction acks arbitrary: t)
  case (Cons ack acks)
  obtain kind message_ack where ack: "ack = (kind, message_ack)"
    by (cases ack)
  show ?case
  proof (cases "map_of (tr_senders t) kind")
    case (Some ch)
    then obtain ch' acked where ch': "ch_receive_ack message_ack ch = Some (ch', acked)"
      using Cons.prems(1) by (auto simp: ack split: option.splits)
    let ?ch = "if acked then ch'\<lparr>ch_message_acks := ch_message_acks ch' @ [ma_message_id message_ack]\<rparr> else ch'"
    have "sender_sized n kind ?ch"
      using sender_sized_ack [OF ch' map_of_sized [OF Cons.prems(2) Some]] by (simp add: sender_sized_kept)
    from Cons.IH [OF _ update_sender_sized [OF Cons.prems(2) this]] show ?thesis
      using Cons.prems(1) by (simp add: ack Some ch')
  qed (use Cons.prems in \<open>simp add: ack\<close>)
qed simp

end
