(* ===== verification/Flush.thy ===== *)
theory Flush
  imports Packet_Delivery Sized_Messages
begin

text \<open>
  One flush of a transport: which packets reach the link, what they carry, and which messages are
  waiting for the acknowledgement of which packet.
\<close>

section \<open>The packets of a flush\<close>

text \<open>The \<open>k\<close>-th packet of a flush carries these candidates.\<close>

definition carries ::
  "('f, 'tm, 'q, 'l, 'b, 'm) transport_ops \<Rightarrow> tick \<Rightarrow> nat \<Rightarrow> compression_config \<Rightarrow> ('f, 'b, 'm) packet_header_manager \<Rightarrow>
   nat \<Rightarrow> ('c, 'f) send_candidate list \<Rightarrow> bytes \<Rightarrow> bool" where
  "carries P tick mtu config hm k cs payload \<longleftrightarrow>
     length payload \<le> mtu \<and>
     (\<exists>type plain. wire_payload (tp_block P) config mtu plain payload \<and>
        plain_payload ((preview_send_packet_header (tp_ring P) type tick hm)
           \<lparr>hd_packet_id := next_packet_id hm + word_of_nat k\<rparr>) cs plain)"

lemma carries_first:
  assumes "takes_candidates (tp_block P) config mtu (preview_send_packet_header (tp_ring P) type tick hm)
    (next_packet_id hm) cs pending pending' p"
  obtains taken where "distinct taken" "set taken \<subseteq> pending" "pending' = pending - set taken"
    "pk_messages p = map (\<lambda>i. candidate_meta (cs ! i)) taken" "pk_packet_id p = next_packet_id hm"
    "carries P tick mtu config hm 0 (map ((!) cs) taken) (pk_payload p)"
proof -
  have "(preview_send_packet_header (tp_ring P) type tick hm)\<lparr>hd_packet_id := next_packet_id hm + word_of_nat 0\<rparr> =
    preview_send_packet_header (tp_ring P) type tick hm"
    by (simp add: preview_send_packet_header_def Let_def)
  then show ?thesis
    using assms that unfolding takes_candidates_def carries_def by metis
qed

lemma carries_next:
  "carries P tick mtu config (commit_send_packet I q elapsed hm) k cs payload = carries P tick mtu config hm (Suc k) cs payload"
  by (simp add: carries_def preview_send_packet_header_def commit_send_packet_def wid_add_assign_def Let_def add.assoc)

lemma commit_message_frame:
  assumes "commit_message elapsed q metadata t = Some t'"
  shows "tr_header_manager t' = tr_header_manager t" "tr_compression t' = tr_compression t"
    "tr_bandwidth_limiter t' = tr_bandwidth_limiter t" "tr_receivers t' = tr_receivers t"
  using assms
  by (auto simp: commit_message_def Let_def update_sender_def bind_eq_Some_conv split: option.splits)

lemma commit_messages_frame:
  assumes "commit_messages elapsed q ms t = Some t'"
  shows "tr_header_manager t' = tr_header_manager t \<and> tr_compression t' = tr_compression t \<and>
    tr_bandwidth_limiter t' = tr_bandwidth_limiter t \<and> tr_receivers t' = tr_receivers t"
  using assms
  by (induction ms arbitrary: t) (auto simp: bind_eq_Some_conv dest: commit_message_frame)

text \<open>The messages that wait for the acknowledgement of a packet, and what a packet adds to them.\<close>

definition acks_at :: "'c packet_message_acks \<Rightarrow> packet_id \<Rightarrow> ('c \<times> message_ack) list" where
  "acks_at tracked q = (case tracked q of None \<Rightarrow> [] | Some acks \<Rightarrow> acks)"

definition watching :: "('c, 'f, 'tm, 'q, 'l, 'b, 'm) transport \<Rightarrow> 'c \<Rightarrow> bool" where
  "watching t kind = (case map_of (tr_senders t) kind of Some ch \<Rightarrow> watches_acks ch | None \<Rightarrow> False)"

definition meta_acks :: "('c \<Rightarrow> bool) \<Rightarrow> 'c message_metadata \<Rightarrow> ('c \<times> message_ack) list" where
  "meta_acks watch m =
     (case mm_message m of
        Some message_id \<Rightarrow>
          if watch (cm_channel_kind (mm_commit m))
          then [(cm_channel_kind (mm_commit m), \<lparr>ma_message_id = message_id, ma_fragment_id = mm_fragment_index m\<rparr>)] else []
      | None \<Rightarrow> [])"

lemma acks_at_track [simp]: "acks_at (track q kind ack tracked) p = acks_at tracked p @ (if p = q then [(kind, ack)] else [])"
  by (simp add: acks_at_def track_def split: option.split)

lemma watches_acks_commit: "ch_commit_send key elapsed ch = Some ch' \<Longrightarrow> watches_acks ch' = watches_acks ch"
  by (auto simp: ch_commit_send_def watches_acks_def us_commit_send_def Let_def bind_eq_Some_conv
      split: send_state.splits send_message_key.splits option.splits if_splits)

lemma watching_update:
  "watching (update_sender kind ch t) = (watching t)(kind := watches_acks ch)"
  by (rule ext) (simp add: watching_def update_sender_def update_conv')

lemma watching_simps [simp]:
  "watching (t\<lparr>tr_packet_message_acks := tracked\<rparr>) = watching t"
  "watches_acks (ch\<lparr>ch_messages_sent := ids\<rparr>) = watches_acks ch"
  "tr_packet_message_acks (update_sender kind ch t) = tr_packet_message_acks t"
  by (simp_all add: watching_def watches_acks_def update_sender_def fun_eq_iff)

lemma commit_message_track:
  assumes "commit_message elapsed q m t = Some t'"
  shows "acks_at (tr_packet_message_acks t') p =
      acks_at (tr_packet_message_acks t) p @ (if p = q then meta_acks (watching t) m else [])"
    and "watching t' = watching t"
proof -
  obtain ch ch' where ch: "map_of (tr_senders t) (cm_channel_kind (mm_commit m)) = Some ch"
    "ch_commit_send (cm_key (mm_commit m)) elapsed ch = Some ch'"
    using assms by (auto simp: commit_message_def Let_def bind_eq_Some_conv)
  note w = watches_acks_commit [OF ch(2)]
  have kind: "watching t (cm_channel_kind (mm_commit m)) = watches_acks ch'"
    using ch(1) w by (simp add: watching_def)
  show "watching t' = watching t"
    using assms ch kind
    by (auto simp: commit_message_def Let_def watching_update split: option.splits if_splits)
  show "acks_at (tr_packet_message_acks t') p =
      acks_at (tr_packet_message_acks t) p @ (if p = q then meta_acks (watching t) m else [])"
    using assms ch kind
    by (auto simp: commit_message_def Let_def meta_acks_def split: option.splits if_splits)
qed

lemma commit_messages_track:
  assumes "commit_messages elapsed q ms t = Some t'"
  shows "acks_at (tr_packet_message_acks t') p =
      acks_at (tr_packet_message_acks t) p @ (if p = q then concat (map (meta_acks (watching t)) ms) else []) \<and>
    watching t' = watching t"
  using assms
  by (induction ms arbitrary: t) (auto simp: bind_eq_Some_conv commit_message_track)

lemma meta_acks_candidate:
  "meta_acks watch (candidate_meta c) =
     (case message_data_message_id (sm_data (sc_message c)) of
        Some message_id \<Rightarrow>
          if watch (sc_channel_kind c)
          then [(sc_channel_kind c, \<lparr>ma_message_id = message_id,
                  ma_fragment_id = (case sm_data (sc_message c) of Single _ \<Rightarrow> None | Fragment f \<Rightarrow> Some (fd_fragment_id f))\<rparr>)]
          else []
      | None \<Rightarrow> [])"
  by (simp add: meta_acks_def candidate_meta_def message_data_message_id_def split: message_data.split option.split)

text \<open>The packets of a flush, each given by the positions of its candidates and its payload.\<close>

definition packet_acks :: "('c \<Rightarrow> bool) \<Rightarrow> ('c, 'f) send_candidate list \<Rightarrow> nat list \<Rightarrow> ('c \<times> message_ack) list" where
  "packet_acks watch cs taken = concat (map (\<lambda>i. meta_acks watch (candidate_meta (cs ! i))) taken)"

lemma send_packets_cases:
  assumes "send_packets P tick elapsed mtu cs cursor sent link t = Some (outcome, sent', link', t')"
    and "build_next_packet (tp_f32 P) (tp_block P) (tp_ring P) tick cs cursor (tr_compression t) mtu (tr_header_manager t) = (cursor1, r)"
  obtains (none) "r = Inr None" "outcome = Complete" "link' = link" "t' = t" "sent' = sent"
  | (failed) e where "r = Inl e" "outcome = StagingFailed" "link' = link" "t' = t" "sent' = sent"
  | (limited) packet limiter where "r = Inr (Some packet)"
      "consume_packet_quota (tp_governor P) (length (pk_payload packet)) (tr_bandwidth_limiter t) = Some (limiter, False)"
      "outcome = BandwidthLimited" "link' = link" "t' = t\<lparr>tr_bandwidth_limiter := limiter\<rparr>" "sent' = sent"
  | (sent) packet limiter t1 where "r = Inr (Some packet)"
      "consume_packet_quota (tp_governor P) (length (pk_payload packet)) (tr_bandwidth_limiter t) = Some (limiter, True)"
      "commit_messages elapsed (pk_packet_id packet) (pk_messages packet)
         (t\<lparr>tr_bandwidth_limiter := limiter,
            tr_header_manager := commit_send_packet (tp_index P) (pk_packet_id packet) elapsed (tr_header_manager t)\<rparr>) = Some t1"
      "send_packets P tick elapsed mtu cs cursor1 (sent + word_of_nat (length (pk_payload packet)))
         (link\<lparr>lk_send := ls_push (pk_payload packet) (lk_send link)\<rparr>) t1 = Some (outcome, sent', link', t')"
proof (cases r)
  case (Inl e)
  then show ?thesis
    using assms failed by (subst (asm) send_packets.simps) (auto split: if_splits)
next
  case (Inr made)
  show ?thesis
  proof (cases made)
    case None
    then show ?thesis
      using assms Inr none by (subst (asm) send_packets.simps) auto
  next
    case (Some packet)
    note built = assms(2) [unfolded Inr Some]
    obtain limiter fits where quota: "consume_packet_quota (tp_governor P) (length (pk_payload packet)) (tr_bandwidth_limiter t) =
        Some (limiter, fits)"
      using assms(1) built
      by (cases "consume_packet_quota (tp_governor P) (length (pk_payload packet)) (tr_bandwidth_limiter t)")
        (auto simp: send_packets.simps [of P tick elapsed mtu cs cursor])
    show ?thesis
    proof (cases fits)
      case True
      then show ?thesis
        using assms(1) built quota Some Inr sent
        by (simp add: send_packets.simps [of P tick elapsed mtu cs cursor] Let_def split: option.splits)
    next
      case False
      then show ?thesis
        using assms(1) built quota Some Inr limited
        by (simp add: send_packets.simps [of P tick elapsed mtu cs cursor] Let_def)
    qed
  qed
qed

definition flush_packets ::
  "('f, 'tm, 'q, 'l, 'b, 'm) transport_ops \<Rightarrow> tick \<Rightarrow> nat \<Rightarrow> ('c, 'f) send_candidate list \<Rightarrow>
   ('c, 'f, 'tm, 'q, 'l, 'b, 'm) transport \<Rightarrow> (nat list \<times> bytes) list \<Rightarrow> bool" where
  "flush_packets P tick mtu cs t packets \<longleftrightarrow> distinct (concat (map fst packets)) \<and>
     (\<forall>k < length packets. carries P tick mtu (tr_compression t) (tr_header_manager t) k
        (map ((!) cs) (fst (packets ! k))) (snd (packets ! k)))"

definition flush_acks ::
  "('c \<Rightarrow> bool) \<Rightarrow> packet_id \<Rightarrow> ('c, 'f) send_candidate list \<Rightarrow> (nat list \<times> bytes) list \<Rightarrow> packet_id \<Rightarrow> ('c \<times> message_ack) list" where
  "flush_acks watch first cs packets q =
     concat (map (\<lambda>k. if first + word_of_nat k = q then packet_acks watch cs (fst (packets ! k)) else []) [0..<length packets])"

lemma flush_acks_Cons:
  "flush_acks watch first cs (p # packets) q =
     (if first = q then packet_acks watch cs (fst p) else []) @ flush_acks watch (first + 1) cs packets q"
proof -
  have "[0..<Suc (length packets)] = 0 # map Suc [0..<length packets]"
    by (simp add: upt_conv_Cons map_Suc_upt del: upt_Suc)
  then show ?thesis
    by (simp add: flush_acks_def comp_def add.assoc del: upt_Suc cong: if_cong)
qed

lemma send_packets_groups:
  assumes "send_packets P tick elapsed mtu cs cursor sent link t = Some (outcome, sent', link', t')"
    and "\<forall>c \<in> set cs. candidate_ok c" "block_codec (tp_block P)"
  shows "\<exists>packets. lk_send link' = lk_send link @ map snd packets \<and> flush_packets P tick mtu cs t packets \<and>
    set (concat (map fst packets)) \<subseteq> cursor_pending cs cursor \<and>
    (outcome = Complete \<longrightarrow> set (concat (map fst packets)) = cursor_pending cs cursor) \<and>
    (\<forall>q. acks_at (tr_packet_message_acks t') q =
       acks_at (tr_packet_message_acks t) q @ flush_acks (watching t) (next_packet_id (tr_header_manager t)) cs packets q)"
  using assms
proof (induction P tick elapsed mtu cs cursor sent link t rule: send_packets.induct)
  case (1 P tick elapsed mtu cs cursor sent link t)
  obtain cursor1 r where built: "build_next_packet (tp_f32 P) (tp_block P) (tp_ring P) tick cs cursor (tr_compression t) mtu
      (tr_header_manager t) = (cursor1, r)"
    by fastforce
  from "1.prems"(1) built show ?case
  proof (cases rule: send_packets_cases)
    case none
    then show ?thesis
      using build_next_packet_done [OF built [unfolded none(1)]]
      by (intro exI [of _ "[]"]) (simp add: flush_packets_def flush_acks_def)
  next
    case failed
    then show ?thesis
      by (intro exI [of _ "[]"]) (simp add: flush_packets_def flush_acks_def)
  next
    case limited
    then show ?thesis
      by (intro exI [of _ "[]"]) (simp add: flush_packets_def flush_acks_def)
  next
    case (sent packet limiter t1)
    let ?hm = "tr_header_manager t"
    obtain type where takes: "takes_candidates (tp_block P) (tr_compression t) mtu
        (preview_send_packet_header (tp_ring P) type tick ?hm) (next_packet_id ?hm) cs
        (cursor_pending cs cursor) (cursor_pending cs cursor1) packet"
      using build_next_packet_takes [OF built [unfolded sent(1)] "1.prems"(2,3)] by blast
    obtain taken where taken: "distinct taken" "set taken \<subseteq> cursor_pending cs cursor"
      "cursor_pending cs cursor1 = cursor_pending cs cursor - set taken"
      "pk_messages packet = map (\<lambda>i. candidate_meta (cs ! i)) taken" "pk_packet_id packet = next_packet_id ?hm"
      "carries P tick mtu (tr_compression t) ?hm 0 (map ((!) cs) taken) (pk_payload packet)"
      using carries_first [OF takes] by blast
    note frame = commit_messages_frame [OF sent(3)] and track = commit_messages_track [OF sent(3)]
    have watch: "watching (t\<lparr>tr_bandwidth_limiter := limiter, tr_header_manager := x\<rparr>) = watching t" for x
      by (simp add: watching_def fun_eq_iff)
    obtain packets where IH: "lk_send link' = lk_send link @ pk_payload packet # map snd packets"
        "flush_packets P tick mtu cs t1 packets" "set (concat (map fst packets)) \<subseteq> cursor_pending cs cursor1"
        "outcome = Complete \<longrightarrow> set (concat (map fst packets)) = cursor_pending cs cursor1"
        "\<forall>q. acks_at (tr_packet_message_acks t') q = acks_at (tr_packet_message_acks t1) q @
           flush_acks (watching t1) (next_packet_id (tr_header_manager t1)) cs packets q"
      using "1.IH" [OF built [symmetric, unfolded sent(1)] refl refl sent(2) refl refl refl refl refl sent(3,4) "1.prems"(2,3)]
      by (auto simp: ls_push_def)
    have carries: "carries P tick mtu (tr_compression t) ?hm k (map ((!) cs) (fst (((taken, pk_payload packet) # packets) ! k)))
        (snd (((taken, pk_payload packet) # packets) ! k))" if "k < Suc (length packets)" for k
      using that taken(6) IH(2) frame by (cases k) (simp_all add: flush_packets_def carries_next)
    have "next_packet_id (tr_header_manager t1) = next_packet_id ?hm + 1"
      using frame by (simp add: commit_send_packet_def wid_add_assign_def)
    then have "flush_acks (watching t) (next_packet_id ?hm) cs ((taken, pk_payload packet) # packets) q =
        (if next_packet_id ?hm = q then packet_acks (watching t) cs taken else []) @
        flush_acks (watching t1) (next_packet_id (tr_header_manager t1)) cs packets q" for q
      using track by (simp add: flush_acks_Cons watch)
    then have "acks_at (tr_packet_message_acks t') q = acks_at (tr_packet_message_acks t) q @
        flush_acks (watching t) (next_packet_id ?hm) cs ((taken, pk_payload packet) # packets) q" for q
      using IH(5) track by (auto simp: taken(4,5) watch packet_acks_def comp_def)
    moreover have "distinct (taken @ concat (map fst packets))"
      using taken(1,3) IH(2,3) by (auto simp: flush_packets_def)
    ultimately show ?thesis
      using carries IH taken(2,3)
      by (intro exI [of _ "(taken, pk_payload packet) # packets"]) (auto simp: flush_packets_def)
  qed
qed

section \<open>A whole flush\<close>

lemma prioritize_messages:
  assumes "prioritize N settings enabled cs = Some ordered"
  shows "mset (map (\<lambda>c. c\<lparr>sc_effective_priority := p\<rparr>) ordered) = mset (map (\<lambda>c. c\<lparr>sc_effective_priority := p\<rparr>) cs)"
proof -
  obtain cs' where perm: "mset ordered = mset cs'" and cs': "map (\<lambda>c. c\<lparr>sc_effective_priority := p\<rparr>) cs' = map (\<lambda>c. c\<lparr>sc_effective_priority := p\<rparr>) cs"
  proof (cases enabled)
    case False
    then show ?thesis
      using assms that [of "map (\<lambda>c. c\<lparr>sc_effective_priority := f32_zero N\<rparr>) cs"]
      by (auto simp: prioritize_def dest: sort_by_perm)
  next
    case True
    then obtain cs' where cs': "those (map (\<lambda>candidate. map_option (\<lambda>settings.
            candidate\<lparr>sc_effective_priority := f32_mul N (sm_priority (sc_message candidate)) (cs_priority settings)\<rparr>)
            (settings (sc_channel_id candidate))) cs) = Some cs'" "mset ordered = mset cs'"
      using assms by (auto simp: prioritize_def bind_eq_Some_conv dest: sort_by_perm)
    have "map (\<lambda>c. c\<lparr>sc_effective_priority := p\<rparr>) cs' = map (\<lambda>c. c\<lparr>sc_effective_priority := p\<rparr>) cs"
      using cs'(1) by (induction cs arbitrary: cs') (auto split: option.splits)
    with cs'(2) that show ?thesis by blast
  qed
  then show ?thesis
    by (metis mset_map)
qed

lemma prioritize_set:
  assumes "prioritize N settings enabled cs = Some ordered" and "\<And>c p. Q (c\<lparr>sc_effective_priority := p\<rparr>) \<longleftrightarrow> Q c"
  shows "(\<forall>c \<in> set ordered. Q c) \<longleftrightarrow> (\<forall>c \<in> set cs. Q c)"
proof -
  have "set (map (\<lambda>c. c\<lparr>sc_effective_priority := f32_zero N\<rparr>) ordered) = set (map (\<lambda>c. c\<lparr>sc_effective_priority := f32_zero N\<rparr>) cs)"
    using prioritize_messages [OF assms(1), of "f32_zero N"] by (metis set_mset_mset)
  then have "(\<forall>c \<in> set ordered. Q (c\<lparr>sc_effective_priority := f32_zero N\<rparr>)) \<longleftrightarrow> (\<forall>c \<in> set cs. Q (c\<lparr>sc_effective_priority := f32_zero N\<rparr>))"
    by (metis (no_types, lifting) imageE image_eqI list.set_map)
  then show ?thesis
    by (simp add: assms(2))
qed

lemma candidate_sized_priority [simp]: "candidate_sized n (c\<lparr>sc_effective_priority := p\<rparr>) \<longleftrightarrow> candidate_sized n c"
  by (simp add: candidate_sized_def candidate_ok_def)

lemma buffer_queue_frame:
  "buffer_queue P queue t = Some t' \<Longrightarrow>
   tr_header_manager t' = tr_header_manager t \<and> tr_compression t' = tr_compression t \<and>
   tr_bandwidth_limiter t' = tr_bandwidth_limiter t \<and> tr_priority_config t' = tr_priority_config t"
  by (induction P queue t rule: buffer_queue.induct)
    (auto simp: send_mut_erased_def update_sender_def split: option.splits sum.splits prod.splits)

lemma send_packets_outcome:
  assumes "send_packets P tick elapsed mtu cs cursor sent link t = Some (outcome, sent', link', t')"
    and "compression_works (tp_block P) (tr_compression t)" "\<forall>c \<in> set cs. candidate_ok c \<and> candidate_fits mtu c"
  shows "outcome \<noteq> StagingFailed \<and> (\<not> bl_enabled (tr_bandwidth_limiter t) \<longrightarrow> outcome = Complete)"
  using assms
proof (induction P tick elapsed mtu cs cursor sent link t rule: send_packets.induct)
  case (1 P tick elapsed mtu cs cursor sent link t)
  obtain cursor1 r where built: "build_next_packet (tp_f32 P) (tp_block P) (tp_ring P) tick cs cursor (tr_compression t) mtu
      (tr_header_manager t) = (cursor1, Inr r)"
    using build_next_packet_total [OF "1.prems"(2,3)] by blast
  from "1.prems"(1) built show ?case
  proof (cases rule: send_packets_cases)
    case (sent packet limiter t1)
    have made: "r = Some packet" using sent(1) by simp
    have "bl_enabled limiter = bl_enabled (tr_bandwidth_limiter t)"
      using sent(2) by (auto simp: consume_packet_quota_def Let_def split: if_splits prod.splits option.splits)
    then show ?thesis
      using "1.IH" [OF built [symmetric, unfolded made] refl refl sent(2) refl refl refl refl refl sent(3,4)]
        "1.prems"(2,3) commit_messages_frame [OF sent(3)] by simp
  next
    case (limited packet limiter)
    then show ?thesis
      by (auto simp: consume_packet_quota_def split: if_splits)
  qed simp_all
qed

lemma takes_payload_nonempty:
  assumes "takes_candidates Z config mtu h pid cs pending pending' p" and "block_codec Z"
  shows "pk_payload p \<noteq> []"
proof -
  obtain taken plain where p: "plain_payload h (map ((!) cs) taken) plain" "wire_payload Z config mtu plain (pk_payload p)"
    using assms(1) by (auto simp: takes_candidates_def)
  from p(2) consider "pk_payload p = plain" | a b info where
      "compress_packet Z (plain, None) config mtu = Inr (Outcome_Compressed a b, pk_payload p, info)"
    by (auto simp: wire_payload_def)
  then show ?thesis
  proof cases
    case 1
    then show ?thesis
      using plain_payload_header [OF p(1)] by auto
  next
    case 2
    have "config_accepts config config"
      by (simp add: config_accepts_def)
    from compressed_payload_layout [OF p(1) assms(2) this 2] obtain t' out
      where "pk_payload p = header_enc (h\<lparr>hd_packet_type := t'\<rparr>) @ out" .
    then show ?thesis
      by (simp add: header_enc_def)
  qed
qed

lemma quota_checked: "n \<noteq> 0 \<Longrightarrow> \<exists>limiter fits. consume_packet_quota G n b = Some (limiter, fits)"
  by (cases "gv_check_n G (word_of_nat n) (bl_limiter b)") (auto simp: consume_packet_quota_def Let_def split: option.split)

lemma send_packets_returns:
  assumes "transport_sized n t" "compression_works (tp_block P) (tr_compression t)" "block_codec (tp_block P)"
    and "\<forall>c \<in> set cs. candidate_ok c \<and> candidate_fits mtu c \<and> map_of (tr_senders t) (sc_channel_kind c) \<noteq> None"
  shows "\<exists>r. send_packets P tick elapsed mtu cs cursor sent link t = Some r"
  using assms
proof (induction P tick elapsed mtu cs cursor sent link t rule: send_packets.induct)
  case (1 P tick elapsed mtu cs cursor sent link t)
  obtain cursor1 r where built: "build_next_packet (tp_f32 P) (tp_block P) (tp_ring P) tick cs cursor (tr_compression t) mtu
      (tr_header_manager t) = (cursor1, Inr r)"
    using build_next_packet_total [OF "1.prems"(2)] "1.prems"(4) by blast
  show ?case
  proof (cases r)
    case None
    then show ?thesis
      using built by (simp add: send_packets.simps [of P tick elapsed mtu cs cursor])
  next
    case (Some packet)
    note built = built [unfolded Some]
    obtain h pid pending pending' where takes: "takes_candidates (tp_block P) (tr_compression t) mtu h pid cs pending pending' packet"
      using build_next_packet_takes [OF built _ "1.prems"(3)] "1.prems"(4) by blast
    then obtain limiter fits where quota: "consume_packet_quota (tp_governor P) (length (pk_payload packet)) (tr_bandwidth_limiter t) =
        Some (limiter, fits)"
      using takes_payload_nonempty [OF takes "1.prems"(3)] quota_checked [of "length (pk_payload packet)"] by fastforce
    show ?thesis
    proof (cases fits)
      case False
      then show ?thesis
        using built quota by (simp add: send_packets.simps [of P tick elapsed mtu cs cursor])
    next
      case True
      then have quota: "consume_packet_quota (tp_governor P) (length (pk_payload packet)) (tr_bandwidth_limiter t) =
          Some (limiter, True)"
        using quota by simp
      let ?t = "t\<lparr>tr_bandwidth_limiter := limiter,
        tr_header_manager := commit_send_packet (tp_index P) (pk_packet_id packet) elapsed (tr_header_manager t)\<rparr>"
      have "\<exists>c \<in> set cs. m = candidate_meta c" if "m \<in> set (pk_messages packet)" for m
      proof -
        obtain taken where taken: "set taken \<subseteq> cursor_pending cs cursor" "pk_messages packet = map (\<lambda>i. candidate_meta (cs ! i)) taken"
          using build_next_packet_takes [OF built _ "1.prems"(3)] "1.prems"(4) by (auto simp: takes_candidates_def)
        with that obtain i where "i \<in> set taken" "m = candidate_meta (cs ! i)"
          by auto
        then show ?thesis
          using taken(1) by (intro bexI [of _ "cs ! i"]) (auto simp: cursor_pending_def)
      qed
      then have known: "\<forall>m \<in> set (pk_messages packet). map_of (tr_senders ?t) (cm_channel_kind (mm_commit m)) \<noteq> None"
        using "1.prems"(4) by (fastforce simp: candidate_meta_def)
      have "transport_sized n ?t"
        using "1.prems"(1) by (simp add: transport_sized_def)
      from commit_messages_sized [OF this known, of elapsed "pk_packet_id packet"] obtain t1 where
        t1: "commit_messages elapsed (pk_packet_id packet) (pk_messages packet) ?t = Some t1" "transport_sized n t1"
          "dom (map_of (tr_senders t1)) = dom (map_of (tr_senders t))"
        by auto
      have "\<forall>c \<in> set cs. candidate_ok c \<and> candidate_fits mtu c \<and> map_of (tr_senders t1) (sc_channel_kind c) \<noteq> None"
        using "1.prems"(4) t1(3) by (auto simp: dom_def set_eq_iff)
      then have "\<exists>r. send_packets P tick elapsed mtu cs cursor1 (sent + word_of_nat (length (pk_payload packet)))
         (link\<lparr>lk_send := ls_push (pk_payload packet) (lk_send link)\<rparr>) t1 = Some r"
        using "1.IH" [OF built [symmetric] refl refl quota refl refl refl refl refl t1(1)] t1(2) "1.prems"(2,3)
          commit_messages_frame [OF t1(1)] by simp
      then show ?thesis
        using built quota t1(1) by (simp add: send_packets.simps [of P tick elapsed mtu cs cursor] Let_def)
    qed
  qed
qed

text \<open>Once queueing, collecting and prioritising are over, the rest of the flush packs the candidates.\<close>

lemma flush_packs_collected:
  assumes "transport_sized n t" "\<forall>(kind, message, priority) \<in> set (tr_queue t). length message < 2 ^ 62"
    and "fragment_size_for_min_mtu (link_min_mtu link) = Some (Some n)" "link_min_mtu link < 2 ^ 62"
    and "link_min_mtu link \<le> link_current_mtu link"
    and "block_codec (tp_block P)" "compression_works (tp_block P) (tr_compression t)"
    and "buffer_queue P (tr_queue t) t = Some t1"
    and "collect_candidates (tp_f32 P) (tp_timer P) (tr_senders t1) = Some (senders, cs)"
    and "prioritize (tp_f32 P) (settings_from_net_id registry) (pc_enabled (tr_priority_config t)) cs = Some ordered"
  shows "\<exists>link' t' packets ack. buffer_send P registry tick elapsed link t = Some (link', t') \<and>
     lk_send link' = lk_send link @ map snd packets @ ack \<and> length ack \<le> 1 \<and>
     flush_packets P tick (link_current_mtu link) ordered t packets \<and>
     set (concat (map fst packets)) \<subseteq> {..<length ordered} \<and>
     (\<not> bl_enabled (tr_bandwidth_limiter t) \<longrightarrow> set (concat (map fst packets)) = {..<length ordered}) \<and>
     (\<forall>q. acks_at (tr_packet_message_acks t') q = acks_at (tr_packet_message_acks t1) q @
        flush_acks (watching (t1\<lparr>tr_senders := senders\<rparr>)) (next_packet_id (tr_header_manager t)) ordered packets q)"
proof -
  let ?t = "t1\<lparr>tr_senders := senders\<rparr>" and ?cursor = "\<lparr>cu_index = 0, cu_single_index = 0\<rparr>"
  let ?mtu = "link_current_mtu link"
  note frame = buffer_queue_frame [OF assms(8)]
  have t1: "transport_sized n t1"
    by (rule buffer_queue_sized [OF assms(8,1,2)])
  note collected = collect_candidates_sized [OF assms(9), of n]
  have t: "transport_sized n ?t"
    using t1 collected by (simp add: transport_sized_def)
  have keys: "fst ` set (tr_senders t1) = fst ` set senders"
    using collected t1 by (metis list.set_map transport_sized_def)
  have "\<forall>c \<in> set cs. candidate_sized n c \<and> map_of senders (sc_channel_kind c) \<noteq> None"
    using collected t1 keys by (simp add: transport_sized_def map_of_eq_None_iff)
  then have ok: "\<forall>c \<in> set ordered. candidate_sized n c \<and> map_of senders (sc_channel_kind c) \<noteq> None"
    using prioritize_set [OF assms(10), of "\<lambda>c. candidate_sized n c \<and> map_of senders (sc_channel_kind c) \<noteq> None"] by simp
  then have fits: "\<forall>c \<in> set ordered. candidate_ok c \<and> candidate_fits ?mtu c \<and> map_of (tr_senders ?t) (sc_channel_kind c) \<noteq> None"
    using sized_candidate_fits [OF assms(3-5)] by (auto simp: candidate_sized_def)
  obtain outcome sent link2 t2 where
    loop: "send_packets P tick elapsed ?mtu ordered ?cursor 0 link ?t = Some (outcome, sent, link2, t2)"
    using send_packets_returns [OF t _ assms(6) fits, of tick elapsed ?cursor 0 link] assms(7) frame by auto
  have pending: "cursor_pending ordered ?cursor = {..<length ordered}"
    by (auto simp: cursor_pending_def)
  have outcome: "\<not> bl_enabled (tr_bandwidth_limiter t) \<longrightarrow> outcome = Complete"
    using send_packets_outcome [OF loop] fits assms(7) frame by simp
  obtain packets where packets: "lk_send link2 = lk_send link @ map snd packets"
    "flush_packets P tick ?mtu ordered ?t packets"
    "set (concat (map fst packets)) \<subseteq> {..<length ordered}"
    "outcome = Complete \<longrightarrow> set (concat (map fst packets)) = {..<length ordered}"
    "\<forall>q. acks_at (tr_packet_message_acks t2) q = acks_at (tr_packet_message_acks ?t) q @
       flush_acks (watching ?t) (next_packet_id (tr_header_manager ?t)) ordered packets q"
    using send_packets_groups [OF loop _ assms(6)] fits unfolding pending by blast
  obtain link' t' where "buffer_send P registry tick elapsed link t = Some (link', t')"
    "\<exists>ack. lk_send link' = lk_send link2 @ ack \<and> length ack \<le> 1" "tr_packet_message_acks t' = tr_packet_message_acks t2"
  proof -
    have mtu: "\<not> ?mtu < HEADER_BYTES"
      using fragment_size_room(2) [OF assms(3,4)] assms(5) by (simp add: HEADER_BYTES_def header_BYTES_def)
    show thesis
      using that assms(8-10) loop frame mtu
      by (cases "sent = 0 \<and> has_pending_ack (tr_header_manager t2)")
        (auto simp: buffer_send_def Let_def map_senders_def ls_push_def build_ack_only_packet_def new_staged_packet_eq)
  qed
  moreover have "flush_packets P tick ?mtu ordered t packets"
    using packets(2) frame by (simp add: flush_packets_def)
  ultimately show ?thesis
    using packets outcome frame by auto
qed

section \<open>Queueing, collecting and prioritising do not panic\<close>

text \<open>
  What the first three phases of a flush rely on: with priorities enabled, the registry knows every channel (the
  \<open>expect\<close> of \<open>prioritize\<close>); the resend delay of a reliable sender is a duration (\<open>Duration::mul_f32\<close> panics on a
  negative, infinite or too large product); and there are \<open>k\<close> send orders left (the \<open>checked_add\<close> of
  \<open>ReliableSendState::buffer_send\<close>).
\<close>

definition sender_safe :: "'f f32_ops \<Rightarrow> (channel_id \<Rightarrow> 'f channel_settings option) \<Rightarrow> bool \<Rightarrow> nat \<Rightarrow> ('c, 'f, 'tm) channel_send \<Rightarrow> bool" where
  "sender_safe N settings enabled k ch \<longleftrightarrow>
     (enabled \<longrightarrow> settings (ch_channel_id ch) \<noteq> None) \<and>
     (case ch_state ch of
        SendUnreliable _ \<Rightarrow> True
      | SendReliable st \<Rightarrow>
          resend_delay N (rs_settings st) (rs_current_rtt st) \<noteq> None \<and> unat (rs_next_send_order st) + k < 2 ^ 64)"

definition flush_safe ::
  "('f, 'tm, 'q, 'l, 'b, 'm) transport_ops \<Rightarrow> ('c, 'f, 'h) channel_registry \<Rightarrow> nat \<Rightarrow>
   ('c, 'f, 'tm, 'q, 'l, 'b, 'm) transport \<Rightarrow> bool" where
  "flush_safe P registry k t \<longleftrightarrow>
     (\<forall>(kind, ch) \<in> set (tr_senders t).
        sender_safe (tp_f32 P) (settings_from_net_id registry) (pc_enabled (tr_priority_config t)) k ch)"

lemma build_fragments_total:
  assumes "fs_fragment_size s < length message" and "0 < fs_fragment_size s"
  shows "\<exists>frags. build_fragments_for_message Z mid message config s = Some frags"
  using assms
  by (auto simp: build_fragments_for_message_def build_fragments_def build_fragments_with_compression_def Let_def
      split: sum.split option.split payload_compression_candidate.split)

lemma ch_buffer_send_safe:
  assumes "sender_safe N settings enabled (Suc k) ch" and "0 < fs_fragment_size (ch_fragmenter ch)"
  shows "\<exists>ch' mid. ch_buffer_send N Z message priority config ch = Some (ch', mid) \<and> sender_safe N settings enabled k ch'"
proof (cases "ch_state ch")
  case (SendUnreliable st)
  then show ?thesis
    using assms build_fragments_total [of "ch_fragmenter ch" message Z "us_next_message_id st" config]
    by (cases "length message > fs_fragment_size (ch_fragmenter ch)")
      (auto simp: ch_buffer_send_def us_buffer_send_def sender_safe_def Let_def)
next
  case (SendReliable st)
  have room: "unat (rs_next_send_order st) + Suc k < 2 ^ 64"
    using assms(1) SendReliable by (simp add: sender_safe_def)
  have order: "rs_next_send_order st \<noteq> - 1" "unat (rs_next_send_order st + 1) = Suc (unat (rs_next_send_order st))"
    using room by (auto simp: unat_word_ariths unsigned_minus_1_eq_mask mask_eq_exp_minus_1)
  show ?thesis
    using assms SendReliable order room build_fragments_total [of "ch_fragmenter ch" message Z "rs_next_message_id st" config]
    by (cases "length message > fs_fragment_size (ch_fragmenter ch)")
      (auto simp: ch_buffer_send_def rs_buffer_send_def sender_safe_def Let_def)
qed

lemma sender_safe_mono: "sender_safe N settings enabled k ch \<Longrightarrow> j \<le> k \<Longrightarrow> sender_safe N settings enabled j ch"
  by (auto simp: sender_safe_def split: send_state.splits)

lemma flush_safe_mono: "flush_safe P registry k t \<Longrightarrow> j \<le> k \<Longrightarrow> flush_safe P registry j t"
  using sender_safe_mono by (fastforce simp: flush_safe_def)

lemma buffer_queue_safe:
  assumes "flush_safe P registry (length queue) t" and "transport_sized n t" and "0 < n"
    and "\<forall>(kind, message, priority) \<in> set queue. length message < 2 ^ 62"
  shows "\<exists>t'. buffer_queue P queue t = Some t' \<and> flush_safe P registry 0 t'"
  using assms(1,2,4)
proof (induction queue arbitrary: t)
  case Nil
  then show ?case by (auto simp: flush_safe_def)
next
  case (Cons item queue)
  obtain kind message priority where item: "item = (kind, message, priority)"
    by (cases item)
  show ?case
  proof (cases "map_of (tr_senders t) kind")
    case None
    then show ?thesis
      using flush_safe_mono [OF Cons.prems(1), of 0] by (auto simp: item flush_safe_def)
  next
    case (Some ch)
    note sized = map_of_sized [OF Cons.prems(2) Some]
    have "sender_safe (tp_f32 P) (settings_from_net_id registry) (pc_enabled (tr_priority_config t)) (Suc (length queue)) ch"
      using Cons.prems(1) Some by (auto simp: flush_safe_def dest: map_of_SomeD)
    from ch_buffer_send_safe [OF this, of "tp_block P" message priority "tr_compression t"] sized assms(3)
    obtain ch' mid where ch': "ch_buffer_send (tp_f32 P) (tp_block P) message priority (tr_compression t) ch = Some (ch', mid)"
      "sender_safe (tp_f32 P) (settings_from_net_id registry) (pc_enabled (tr_priority_config t)) (length queue) ch'"
      by (auto simp: sender_sized_def)
    let ?t = "update_sender kind ch' t"
    have "transport_sized n ?t"
      using ch_buffer_send_sized [OF ch'(1) _ sized] Cons.prems(2,3) by (intro update_sender_sized) (auto simp: item)
    moreover have "flush_safe P registry (length queue) ?t"
      using flush_safe_mono [OF Cons.prems(1), of "length queue"] ch'(2)
      by (auto simp: flush_safe_def update_sender_def dest!: set_alist_update [THEN subsetD])
    ultimately show ?thesis
      using Cons.IH [of ?t] Cons.prems(3) Some ch'(1) by (simp add: item send_mut_erased_def)
  qed
qed

lemma those_total: "None \<notin> set xs \<Longrightarrow> \<exists>ys. those xs = Some ys"
proof (induction xs)
  case (Cons x xs)
  then show ?case by (cases x) auto
qed simp

lemma collect_send_safe:
  assumes "sender_safe N settings enabled k ch"
  shows "\<exists>ch' cs. collect_send_candidates N T ch = Some (ch', cs) \<and> (\<forall>c \<in> set cs. enabled \<longrightarrow> settings (sc_channel_id c) \<noteq> None)"
proof (cases "ch_state ch")
  case (SendUnreliable st)
  let ?queues = "queue_candidates (ch_channel_kind ch) (ch_channel_id ch) UnreliableSingle (us_singles st) @
    queue_candidates (ch_channel_kind ch) (ch_channel_id ch) UnreliableFragment (us_fragments st)"
  have "None \<notin> set ?queues"
    by (auto simp: queue_candidates_def send_candidate_new_def unreliable_send_order_def)
  then obtain cs where cs: "those ?queues = Some cs"
    using those_total by blast
  have "sc_channel_id c = ch_channel_id ch" if "c \<in> set cs" for c
    using those_set [OF cs that]
    by (auto simp: queue_candidates_def send_candidate_new_def new_with_send_order_def unreliable_send_order_def)
  then show ?thesis
    using assms SendUnreliable cs
    by (auto simp: collect_send_candidates_def us_collect_candidates_def sender_safe_def)
next
  case (SendReliable st)
  have "sc_channel_id c = cid" if "c \<in> set (pending_candidates kind cid should mid p)" for c kind cid should mid and p :: "'a pending_reliable_message"
    using that by (auto simp: pending_candidates_def send_candidate_new_reliable_def new_with_send_order_def
        split: unacked_message.splits if_splits)
  then show ?thesis
    using assms SendReliable
    by (fastforce simp: collect_send_candidates_def rs_collect_candidates_def sender_safe_def Let_def)
qed

lemma collect_candidates_safe:
  assumes "\<forall>(kind, ch) \<in> set senders. sender_safe N settings enabled k ch"
  shows "\<exists>senders' cs. collect_candidates N T senders = Some (senders', cs) \<and>
    (\<forall>c \<in> set cs. enabled \<longrightarrow> settings (sc_channel_id c) \<noteq> None)"
  using assms
proof (induction senders)
  case (Cons sender senders)
  obtain kind ch where sender: "sender = (kind, ch)"
    by (cases sender)
  obtain ch' cs1 where "collect_send_candidates N T ch = Some (ch', cs1)"
    "\<forall>c \<in> set cs1. enabled \<longrightarrow> settings (sc_channel_id c) \<noteq> None"
    using collect_send_safe [of N settings enabled k ch T] Cons.prems sender by auto
  moreover obtain senders' cs2 where "collect_candidates N T senders = Some (senders', cs2)"
    "\<forall>c \<in> set cs2. enabled \<longrightarrow> settings (sc_channel_id c) \<noteq> None"
    using Cons by auto
  ultimately show ?case
    by (auto simp: sender)
qed simp

text \<open>
  C24: A flush packs every candidate exactly once and does not panic. Every sender cuts its messages at the size
  that the smallest MTU of the link gives, the registry knows the channels, the resend delays are durations, send
  orders are left, and the codec, if compression is on, compresses. Then, whatever the applications queued, the queue
  is taken over, candidates are collected and ordered, and staging never fails: the link
  receives, after what was already queued, packets that partition the prioritised candidates without repetition, plus at most one
  acknowledgement packet. The \<open>k\<close>-th packet fits the current MTU, carries the \<open>k\<close>-th next packet id and is, up to
  compression, the encoding of its candidates. Without a bandwidth limit no candidate is left out. And every
  message of a channel that watches acknowledgements waits for the id of the packet it went into.
\<close>

theorem flush_packs_every_candidate_once:
  assumes "transport_sized n t" "\<forall>(kind, message, priority) \<in> set (tr_queue t). length message < 2 ^ 62"
    and "fragment_size_for_min_mtu (link_min_mtu link) = Some (Some n)" "link_min_mtu link < 2 ^ 62"
    and "link_min_mtu link \<le> link_current_mtu link"
    and "block_codec (tp_block P)" "compression_works (tp_block P) (tr_compression t)"
    and "flush_safe P registry (length (tr_queue t)) t"
  shows "\<exists>t1 senders cs ordered link' t' packets ack.
     buffer_queue P (tr_queue t) t = Some t1 \<and>
     collect_candidates (tp_f32 P) (tp_timer P) (tr_senders t1) = Some (senders, cs) \<and>
     prioritize (tp_f32 P) (settings_from_net_id registry) (pc_enabled (tr_priority_config t)) cs = Some ordered \<and>
     buffer_send P registry tick elapsed link t = Some (link', t') \<and>
     lk_send link' = lk_send link @ map snd packets @ ack \<and> length ack \<le> 1 \<and>
     flush_packets P tick (link_current_mtu link) ordered t packets \<and>
     set (concat (map fst packets)) \<subseteq> {..<length ordered} \<and>
     (\<not> bl_enabled (tr_bandwidth_limiter t) \<longrightarrow> set (concat (map fst packets)) = {..<length ordered}) \<and>
     (\<forall>q. acks_at (tr_packet_message_acks t') q = acks_at (tr_packet_message_acks t1) q @
        flush_acks (watching (t1\<lparr>tr_senders := senders\<rparr>)) (next_packet_id (tr_header_manager t)) ordered packets q)"
proof -
  have "0 < n"
    using fragment_size_room [OF assms(3,4)] by simp
  then obtain t1 where queued: "buffer_queue P (tr_queue t) t = Some t1" and safe: "flush_safe P registry 0 t1"
    using buffer_queue_safe [OF assms(8,1) _ assms(2)] by blast
  note frame = buffer_queue_frame [OF queued]
  obtain senders cs where collected: "collect_candidates (tp_f32 P) (tp_timer P) (tr_senders t1) = Some (senders, cs)"
    and known: "\<forall>c \<in> set cs. pc_enabled (tr_priority_config t) \<longrightarrow> settings_from_net_id registry (sc_channel_id c) \<noteq> None"
    using collect_candidates_safe [OF safe [unfolded flush_safe_def]] frame by metis
  have "transport_sized n t1"
    by (rule buffer_queue_sized [OF queued assms(1,2)])
  then have "\<forall>c \<in> set cs. candidate_ok c"
    using collect_candidates_sized [OF collected, of n] by (simp add: transport_sized_def candidate_sized_def)
  from candidates_are_packed_by_priority [OF this] known
  obtain ordered where "prioritize (tp_f32 P) (settings_from_net_id registry) (pc_enabled (tr_priority_config t)) cs = Some ordered"
    by blast
  with flush_packs_collected [OF assms(1-7) queued collected this, of tick elapsed] queued collected show ?thesis
    by blast
qed

definition example_channel :: "nat channel_settings" where
  "example_channel = \<lparr>cs_mode = UnorderedReliable \<lparr>rtt_resend_factor = 2, rtt_resend_min_delay = 0\<rparr>, cs_send_frequency = 0,
     cs_priority = 1, cs_retry_unsent_messages = True, cs_timeline = None\<rparr>"

definition example_registry :: "(nat, nat, unit) channel_registry" where
  "example_registry = \<lparr>cg_settings_map = Map.empty, cg_kind_map = type_mapper_new, cg_hasher = \<lparr>rh_hasher = (), rh_hash = None\<rparr>\<rparr>"

definition example_transport :: "(nat, nat, nat, unit, unit, bool list, (packet_id, duration) alist) transport" where
  "example_transport = send_erased 7 [1, 2, 3] 1 (add_channel_send example_ops 7 example_channel 3
     (transport_new example_ops (priority_config_default example_governor)))"

lemma example_collected:
  "\<exists>t1 senders. buffer_queue example_ops (tr_queue example_transport) example_transport = Some t1 \<and>
     collect_candidates example_f32 example_timer (tr_senders t1) = Some (senders, [example_sent]) \<and>
     watching (t1\<lparr>tr_senders := senders\<rparr>) 7 \<and> acks_at (tr_packet_message_acks t1) 0 = []"
  by (simp add: example_transport_def example_channel_def send_erased_def add_channel_send_def transport_new_def update_sender_def
      channel_send_new_def Let_def send_mut_erased_def ch_buffer_send_def rs_buffer_send_def fragment_sender_new_def
      fs_set_fragment_size_def FRAGMENT_SIZE_eq reliable_send_state_new_def collect_send_candidates_def is_ready_to_send_def
      rs_collect_candidates_def resend_delay_def example_ops_def example_f32_def pending_candidates_def should_send_def accumulate_priority_def
      send_candidate_new_reliable_def new_with_send_order_def example_sent_def watching_def watches_acks_def acks_at_def)

theorem flush_packs_every_candidate_once_witness:
  "\<exists>link' t'. buffer_send example_ops example_registry 4 9 link_default example_transport = Some (link', t') \<and>
     lk_send link' \<noteq> []"
proof -
  obtain t1 senders where run: "buffer_queue example_ops (tr_queue example_transport) example_transport = Some t1"
      "collect_candidates (tp_f32 example_ops) (tp_timer example_ops) (tr_senders t1) = Some (senders, [example_sent])"
    using example_collected by (auto simp: example_ops_def)
  have sized: "transport_sized FRAGMENT_SIZE example_transport"
    unfolding example_transport_def send_erased_def
    using add_channel_send_sized [OF transport_sized_new] by (simp add: transport_sized_def)
  have ordered: "prioritize (tp_f32 example_ops) (settings_from_net_id example_registry)
      (pc_enabled (tr_priority_config example_transport)) [example_sent] = Some [example_sent\<lparr>sc_effective_priority := 0\<rparr>]"
    by (simp add: prioritize_def example_transport_def send_erased_def add_channel_send_def update_sender_def transport_new_def
        priority_config_default_def example_ops_def example_f32_def)
  have "length (tr_queue example_transport) = 1"
    "\<forall>(kind, message, priority) \<in> set (tr_queue example_transport). length message < 2 ^ 62"
    "\<not> bl_enabled (tr_bandwidth_limiter example_transport)"
    "compression_works (tp_block example_ops) (tr_compression example_transport)"
    by (simp_all add: example_transport_def send_erased_def add_channel_send_def update_sender_def transport_new_def
        bandwidth_limiter_new_def priority_config_default_def compression_works_def DISABLED_def)
  moreover have "block_codec (tp_block example_ops)"
    by (simp add: example_ops_def rle_codec.block_codec_axioms)
  moreover have "flush_safe example_ops example_registry 1 example_transport"
    by (simp add: flush_safe_def sender_safe_def example_transport_def send_erased_def add_channel_send_def update_sender_def
        transport_new_def priority_config_default_def example_channel_def channel_send_new_def reliable_send_state_new_def
        resend_delay_def example_ops_def example_f32_def)
  ultimately obtain t1' senders' cs ordered' link' t' packets ack where
    "buffer_queue example_ops (tr_queue example_transport) example_transport = Some t1'"
    "collect_candidates (tp_f32 example_ops) (tp_timer example_ops) (tr_senders t1') = Some (senders', cs)"
    "prioritize (tp_f32 example_ops) (settings_from_net_id example_registry)
      (pc_enabled (tr_priority_config example_transport)) cs = Some ordered'"
    "buffer_send example_ops example_registry 4 9 link_default example_transport = Some (link', t')"
    "lk_send link' = lk_send link_default @ map snd packets @ ack" "set (concat (map fst packets)) = {..<length ordered'}"
    using flush_packs_every_candidate_once [OF sized, of link_default example_ops example_registry 4 9] fragment_size_1200
    by (fastforce simp: link_default_def link_min_mtu_def link_current_mtu_def link_mtu_default_def link_mtu_new_def DEFAULT_MTU_def)
  then show ?thesis
    using run ordered by (cases packets) auto
qed

end
