(* ===== verification/Network_Target.thy ===== *)
theory Network_Target
  imports Serde
begin

text \<open>
  Peers and sets of peers: \<open>PeerId\<close> with its codec (\<open>crates/core/core/src/id.rs\<close>) and the
  targets of a message with their set algebra, codec and resolution to connected entities
  (\<open>crates/connection/connection/src/network_target.rs\<close>).
\<close>

section \<open>Peer identifiers\<close>

text \<open>
  \<open>SocketAddr\<close> of the standard library: an IPv6 address also carries a flow label and a scope.
\<close>

datatype socket_addr =
    V4 (v4_ip: "u8 \<times> u8 \<times> u8 \<times> u8") (v4_port: u16)
  | V6 (v6_segments: "u16 list") (v6_port: u16) (v6_flowinfo: u32) (v6_scope_id: u32)

datatype peer_id =
    PeerEntity u64
  | PeerRaw socket_addr
  | PeerNetcode u64
  | PeerSteam u64
  | PeerLocal u64
  | PeerServer

definition peer_id_bytes_len :: "peer_id \<Rightarrow> nat option" where
  "peer_id_bytes_len p =
     (case p of
        PeerEntity _ \<Rightarrow> Some (1 + 8)
      | PeerRaw socket_addr \<Rightarrow>
          (case socket_addr of V4 _ _ \<Rightarrow> Some (1 + 4 + 2) | V6 _ _ _ _ \<Rightarrow> Some (1 + 16 + 2))
      | PeerNetcode _ \<Rightarrow> Some (1 + 8)
      | PeerSteam _ \<Rightarrow> Some (1 + 8)
      | PeerLocal _ \<Rightarrow> Some (1 + 8)
      | PeerServer \<Rightarrow> Some 1)"

definition peer_id_to_bytes :: "peer_id \<Rightarrow> bytes \<Rightarrow> bytes serde_result" where
  "peer_id_to_bytes p buf =
     (case p of
        PeerEntity n \<Rightarrow> and_then (write_u8 0 buf) (write_u64 n)
      | PeerRaw socket \<Rightarrow>
          (case socket of
             V4 (a, b, c, d) port \<Rightarrow>
               and_then (write_u8 1 buf) (\<lambda>buf.
               and_then (try_for_each_to_bytes write_u8 [a, b, c, d] buf) (write_u16 port))
           | V6 segments port _ _ \<Rightarrow>
               and_then (write_u8 2 buf) (\<lambda>buf.
               and_then (try_for_each_to_bytes write_u16 segments buf) (write_u16 port)))
      | PeerNetcode n \<Rightarrow> and_then (write_u8 3 buf) (write_u64 n)
      | PeerSteam n \<Rightarrow> and_then (write_u8 4 buf) (write_u64 n)
      | PeerLocal n \<Rightarrow> and_then (write_u8 5 buf) (write_u64 n)
      | PeerServer \<Rightarrow> write_u8 6 buf)"

text \<open>\<open>SocketAddr::new\<close> sets the flow label and the scope of an IPv6 address to zero.\<close>

definition peer_id_from_bytes :: "reader \<Rightarrow> (peer_id \<times> reader) serde_result" where
  "peer_id_from_bytes r =
     and_then (read_u8 r) (\<lambda>(tag, r).
     let id64 = (\<lambda>f. and_then (read_u64 r) (\<lambda>(n, r). Inr (f n, r))) in
     if tag = 0 then id64 PeerEntity
     else if tag = 1 then
       and_then (read_u8 r) (\<lambda>(a, r).
       and_then (read_u8 r) (\<lambda>(b, r).
       and_then (read_u8 r) (\<lambda>(c, r).
       and_then (read_u8 r) (\<lambda>(d, r).
       and_then (read_u16 r) (\<lambda>(port, r). Inr (PeerRaw (V4 (a, b, c, d) port), r))))))
     else if tag = 2 then
       and_then (read_n read_u16 8 r) (\<lambda>(segments, r).
       and_then (read_u16 r) (\<lambda>(port, r). Inr (PeerRaw (V6 segments port 0 0), r)))
     else if tag = 3 then id64 PeerNetcode
     else if tag = 4 then id64 PeerSteam
     else if tag = 5 then id64 PeerLocal
     else if tag = 6 then Inr (PeerServer, r)
     else Inl InvalidValue)"

text \<open>\<open>to_bits\<close>: the 64-bit summary of a peer.\<close>

definition peer_id_to_bits :: "peer_id \<Rightarrow> u64" where
  "peer_id_to_bits p =
     (case p of
        PeerEntity x \<Rightarrow> x
      | PeerRaw socket \<Rightarrow>
          (case socket of
             V4 (a, b, c, d) port \<Rightarrow>
               0x0200 OR push_bit 24 (ucast a) OR push_bit 16 (ucast b) OR push_bit 8 (ucast c)
                 OR ucast d OR push_bit 32 (ucast port)
           | V6 segments port _ _ \<Rightarrow>
               foldl (\<lambda>hash (i, segment). hash XOR push_bit (i mod 4 * 16) (ucast segment)) 0x0600
                 (enumerate 0 segments) XOR push_bit 48 (ucast port))
      | PeerNetcode x \<Rightarrow> x
      | PeerSteam x \<Rightarrow> x
      | PeerLocal x \<Rightarrow> x
      | PeerServer \<Rightarrow> 1)"

definition peer_id_is_local :: "peer_id \<Rightarrow> bool" where
  "peer_id_is_local p = (case p of PeerLocal _ \<Rightarrow> True | _ \<Rightarrow> False)"

section \<open>Targets\<close>

datatype 'a target =
    TargetNone
  | AllExceptSingle 'a
  | AllExcept "'a list"
  | TargetAll
  | Only "'a list"
  | TargetSingle 'a

type_synonym network_target = "peer_id target"

definition INLINE_TARGET_CAPACITY :: nat where
  "INLINE_TARGET_CAPACITY = 4"

definition target_bytes_len :: "network_target \<Rightarrow> nat option" where
  "target_bytes_len t =
     (case t of
        TargetNone \<Rightarrow> Some 1
      | AllExceptSingle client_id \<Rightarrow> map_option ((+) 1) (peer_id_bytes_len client_id)
      | AllExcept client_ids \<Rightarrow> map_option ((+) 1) (vec_bytes_len peer_id_bytes_len client_ids)
      | TargetAll \<Rightarrow> Some 1
      | Only client_ids \<Rightarrow> map_option ((+) 1) (vec_bytes_len peer_id_bytes_len client_ids)
      | TargetSingle client_id \<Rightarrow> map_option ((+) 1) (peer_id_bytes_len client_id))"

definition target_to_bytes :: "network_target \<Rightarrow> bytes \<Rightarrow> bytes serde_result" where
  "target_to_bytes t buf =
     (case t of
        TargetNone \<Rightarrow> write_u8 0 buf
      | AllExceptSingle client_id \<Rightarrow> and_then (write_u8 1 buf) (peer_id_to_bytes client_id)
      | AllExcept client_ids \<Rightarrow> and_then (write_u8 2 buf) (vec_to_bytes peer_id_to_bytes client_ids)
      | TargetAll \<Rightarrow> write_u8 3 buf
      | Only client_ids \<Rightarrow> and_then (write_u8 4 buf) (vec_to_bytes peer_id_to_bytes client_ids)
      | TargetSingle client_id \<Rightarrow> and_then (write_u8 5 buf) (peer_id_to_bytes client_id))"

definition target_from_bytes :: "reader \<Rightarrow> (network_target \<times> reader) serde_result" where
  "target_from_bytes r =
     and_then (read_u8 r) (\<lambda>(tag, r).
     let one = (\<lambda>f. and_then (peer_id_from_bytes r) (\<lambda>(p, r). Inr (f p, r)));
         many = (\<lambda>f. and_then (vec_from_bytes peer_id_from_bytes r) (\<lambda>(ps, r). Inr (f ps, r)))
     in if tag = 0 then Inr (TargetNone, r)
        else if tag = 1 then one AllExceptSingle
        else if tag = 2 then many AllExcept
        else if tag = 3 then Inr (TargetAll, r)
        else if tag = 4 then many Only
        else if tag = 5 then one TargetSingle
        else Inl InvalidPacketType)"

definition target_from_iter :: "'a list \<Rightarrow> 'a target" where
  "target_from_iter iter =
     (case iter of
        [] \<Rightarrow> TargetNone
      | [first] \<Rightarrow> TargetSingle first
      | first # second # iter \<Rightarrow> Only ([first, second] @ iter))"

definition target_from_list :: "'a list \<Rightarrow> 'a target" where
  "target_from_list value =
     (case value of [] \<Rightarrow> TargetNone | [x] \<Rightarrow> TargetSingle x | _ \<Rightarrow> Only value)"

definition target_is_empty :: "'a target \<Rightarrow> bool" where
  "target_is_empty t = (case t of TargetNone \<Rightarrow> True | Only ids \<Rightarrow> ids = [] | _ \<Rightarrow> False)"

definition targets :: "'a target \<Rightarrow> 'a \<Rightarrow> bool" where
  "targets t client_id =
     (case t of
        TargetAll \<Rightarrow> True
      | AllExceptSingle single \<Rightarrow> client_id \<noteq> single
      | AllExcept client_ids \<Rightarrow> client_id \<notin> set client_ids
      | Only client_ids \<Rightarrow> client_id \<in> set client_ids
      | TargetSingle single \<Rightarrow> client_id = single
      | TargetNone \<Rightarrow> False)"

text \<open>\<open>capacity\<close> only sizes the allocation of a new list, and is left out.\<close>

definition target_insert :: "'a \<Rightarrow> 'a target \<Rightarrow> 'a target" where
  "target_insert client_id t =
     (case t of
        TargetAll \<Rightarrow> TargetAll
      | AllExceptSingle excluded \<Rightarrow> if excluded = client_id then TargetAll else t
      | AllExcept excluded \<Rightarrow> AllExcept (filter (\<lambda>x. x \<noteq> client_id) excluded)
      | Only included \<Rightarrow> if client_id \<notin> set included then Only (included @ [client_id]) else t
      | TargetSingle existing \<Rightarrow> if existing \<noteq> client_id then Only [existing, client_id] else t
      | TargetNone \<Rightarrow> TargetSingle client_id)"

text \<open>\<open>retain(|id| seen.insert(id))\<close>: keep what the hash set has not seen, and remember it.\<close>

fun retain_unseen :: "'a set \<Rightarrow> 'a list \<Rightarrow> 'a list" where
  "retain_unseen seen [] = []"
| "retain_unseen seen (x # xs) =
     (if x \<in> seen then retain_unseen seen xs else x # retain_unseen (insert x seen) xs)"

text \<open>\<open>retain(|id| remaining.remove(id))\<close>: keep what is still in the hash set, and take it out.\<close>

fun retain_remaining :: "'a set \<Rightarrow> 'a list \<Rightarrow> 'a list" where
  "retain_remaining rem [] = []"
| "retain_remaining rem (x # xs) =
     (if x \<in> rem then x # retain_remaining (rem - {x}) xs else retain_remaining rem xs)"

text \<open>The loop of the short lists: element \<open>index\<close> goes when an earlier one equals it.\<close>

function dedup_loop :: "nat \<Rightarrow> 'a list \<Rightarrow> 'a list" where
  "dedup_loop index client_ids =
     (if index < length client_ids
      then if client_ids ! index \<in> set (take index client_ids)
           then dedup_loop index (take index client_ids @ drop (Suc index) client_ids)
           else dedup_loop (Suc index) client_ids
      else client_ids)"
  by auto
termination
  by (relation "measure (\<lambda>(index, client_ids). length client_ids - index)") auto

declare dedup_loop.simps [simp del]

definition deduplicate :: "'a list \<Rightarrow> 'a list" where
  "deduplicate client_ids =
     (if length client_ids > INLINE_TARGET_CAPACITY then retain_unseen {} client_ids
      else dedup_loop 1 client_ids)"

definition only_unique :: "'a list \<Rightarrow> 'a target" where
  "only_unique client_ids =
     (case client_ids of
        [] \<Rightarrow> TargetNone
      | [first] \<Rightarrow> TargetSingle first
      | first # second # iter \<Rightarrow> target_from_list (deduplicate ([first, second] @ iter)))"

text \<open>Inverting an inclusive target; the other variants are the code's \<open>unreachable!\<close>.\<close>

definition exclusive_of :: "'a target \<Rightarrow> 'a target" where
  "exclusive_of t =
     (case t of
        TargetNone \<Rightarrow> TargetAll
      | TargetSingle client_id \<Rightarrow> AllExceptSingle client_id
      | Only client_ids \<Rightarrow> AllExcept client_ids
      | _ \<Rightarrow> t)"

definition all_except_unique :: "'a list \<Rightarrow> 'a target" where
  "all_except_unique client_ids = exclusive_of (only_unique client_ids)"

definition all_except_from_list :: "'a list \<Rightarrow> 'a target" where
  "all_except_from_list client_ids =
     (case client_ids of [] \<Rightarrow> TargetAll | [x] \<Rightarrow> AllExceptSingle x | _ \<Rightarrow> AllExcept client_ids)"

definition normalize :: "'a target \<Rightarrow> 'a target" where
  "normalize t =
     (case t of
        Only client_ids \<Rightarrow> target_from_list (deduplicate client_ids)
      | AllExcept client_ids \<Rightarrow> all_except_from_list (deduplicate client_ids)
      | _ \<Rightarrow> t)"

definition compact :: "'a target \<Rightarrow> 'a target" where
  "compact t =
     (case t of
        Only client_ids \<Rightarrow> target_from_list client_ids
      | AllExcept client_ids \<Rightarrow> all_except_from_list client_ids
      | _ \<Rightarrow> t)"

definition target_extend :: "'a list \<Rightarrow> 'a target \<Rightarrow> 'a target" where
  "target_extend iter t = normalize (fold target_insert iter (normalize t))"

text \<open>The loop of \<open>append_unique\<close> over short lists.\<close>

definition push_if_absent :: "'a \<Rightarrow> 'a list \<Rightarrow> 'a list" where
  "push_if_absent x xs = (if x \<notin> set xs then xs @ [x] else xs)"

definition append_unique :: "'a list \<Rightarrow> 'a list \<Rightarrow> 'a list" where
  "append_unique client_ids extra =
     (if length client_ids \<le> INLINE_TARGET_CAPACITY \<or> length extra \<le> INLINE_TARGET_CAPACITY
      then fold push_if_absent extra client_ids
      else retain_unseen {} client_ids @ retain_unseen (set client_ids) extra)"

definition retain_membership :: "'a list \<Rightarrow> 'a list \<Rightarrow> bool \<Rightarrow> 'a list" where
  "retain_membership client_ids other keep_present =
     (if length client_ids \<le> INLINE_TARGET_CAPACITY \<or> length other \<le> INLINE_TARGET_CAPACITY
      then filter (\<lambda>client_id. (client_id \<in> set other) = keep_present) client_ids
      else if keep_present then retain_remaining (set other) client_ids
      else retain_unseen (set other) client_ids)"

definition only_difference :: "'a list \<Rightarrow> 'a list \<Rightarrow> 'a target" where
  "only_difference left right =
     (if length left \<le> INLINE_TARGET_CAPACITY \<or> length right \<le> INLINE_TARGET_CAPACITY
      then only_unique (filter (\<lambda>x. x \<notin> set right) left)
      else target_from_list (retain_unseen (set right) left))"

definition all_except_difference :: "'a list \<Rightarrow> 'a list \<Rightarrow> 'a target" where
  "all_except_difference left right = exclusive_of (only_difference left right)"

section \<open>The set operations\<close>

definition intersection_body :: "'a target \<Rightarrow> 'a target \<Rightarrow> 'a target" where
  "intersection_body self target =
     (case self of
        TargetAll \<Rightarrow> target
      | AllExceptSingle existing \<Rightarrow>
          (case target of
             TargetNone \<Rightarrow> TargetNone
           | AllExceptSingle t \<Rightarrow> all_except_unique [existing, t]
           | AllExcept ts \<Rightarrow> all_except_unique (existing # ts)
           | TargetAll \<Rightarrow> AllExceptSingle existing
           | Only ts \<Rightarrow> only_unique (filter (\<lambda>x. x \<noteq> existing) ts)
           | TargetSingle t \<Rightarrow> if existing = t then TargetNone else TargetSingle t)
      | AllExcept existing \<Rightarrow>
          (case target of
             TargetNone \<Rightarrow> TargetNone
           | AllExceptSingle t \<Rightarrow> AllExcept (push_if_absent t existing)
           | AllExcept ts \<Rightarrow> AllExcept (append_unique existing ts)
           | TargetAll \<Rightarrow> self
           | Only ts \<Rightarrow> only_difference ts existing
           | TargetSingle t \<Rightarrow> if t \<in> set existing then TargetNone else TargetSingle t)
      | Only existing \<Rightarrow>
          (case target of
             TargetNone \<Rightarrow> TargetNone
           | AllExceptSingle t \<Rightarrow> Only (filter (\<lambda>x. x \<noteq> t) existing)
           | AllExcept ts \<Rightarrow> Only (retain_membership existing ts False)
           | TargetAll \<Rightarrow> self
           | TargetSingle t \<Rightarrow> Only (filter (\<lambda>x. x = t) existing)
           | Only ts \<Rightarrow> Only (retain_membership existing ts True))
      | TargetSingle existing \<Rightarrow> if \<not> targets target existing then TargetNone else self
      | TargetNone \<Rightarrow> TargetNone)"

definition intersection :: "'a target \<Rightarrow> 'a target \<Rightarrow> 'a target" where
  "intersection self target =
     (if self = TargetNone \<or> target = TargetAll then self
      else if target = TargetNone then TargetNone
      else if self = TargetAll then target
      else compact (intersection_body self target))"

definition union_body :: "'a target \<Rightarrow> 'a target \<Rightarrow> 'a target" where
  "union_body self target =
     (case self of
        TargetAll \<Rightarrow> TargetAll
      | AllExceptSingle existing \<Rightarrow> if targets target existing then TargetAll else self
      | AllExcept existing \<Rightarrow>
          (case target of
             TargetNone \<Rightarrow> self
           | AllExceptSingle t \<Rightarrow> if t \<in> set existing then AllExceptSingle t else TargetAll
           | AllExcept ts \<Rightarrow> AllExcept (retain_membership existing ts True)
           | TargetAll \<Rightarrow> TargetAll
           | Only ts \<Rightarrow> AllExcept (retain_membership existing ts False)
           | TargetSingle t \<Rightarrow> AllExcept (filter (\<lambda>x. x \<noteq> t) existing))
      | Only existing \<Rightarrow>
          (case target of
             TargetNone \<Rightarrow> self
           | AllExceptSingle t \<Rightarrow> if t \<in> set existing then TargetAll else AllExceptSingle t
           | AllExcept ts \<Rightarrow> all_except_difference ts existing
           | TargetAll \<Rightarrow> TargetAll
           | TargetSingle t \<Rightarrow> Only (push_if_absent t existing)
           | Only ts \<Rightarrow> Only (append_unique existing ts))
      | TargetSingle existing \<Rightarrow>
          (case target of
             TargetNone \<Rightarrow> self
           | AllExceptSingle t \<Rightarrow> if existing = t then TargetAll else AllExceptSingle t
           | AllExcept ts \<Rightarrow> all_except_unique (filter (\<lambda>x. x \<noteq> existing) ts)
           | TargetAll \<Rightarrow> TargetAll
           | Only ts \<Rightarrow> only_unique (existing # ts)
           | TargetSingle t \<Rightarrow> if existing \<noteq> t then Only [existing, t] else self)
      | TargetNone \<Rightarrow> target)"

definition target_union :: "'a target \<Rightarrow> 'a target \<Rightarrow> 'a target" where
  "target_union self target =
     (if self = TargetAll \<or> target = TargetNone then self
      else if target = TargetAll then TargetAll
      else if self = TargetNone then target
      else compact (union_body self target))"

definition target_inverse :: "'a target \<Rightarrow> 'a target" where
  "target_inverse t =
     (case t of
        TargetAll \<Rightarrow> TargetNone
      | AllExceptSingle client_id \<Rightarrow> TargetSingle client_id
      | AllExcept client_ids \<Rightarrow> Only client_ids
      | Only client_ids \<Rightarrow> AllExcept client_ids
      | TargetSingle client_id \<Rightarrow> AllExceptSingle client_id
      | TargetNone \<Rightarrow> TargetAll)"

definition exclude_body :: "'a target \<Rightarrow> 'a target \<Rightarrow> 'a target" where
  "exclude_body self target =
     (case self of
        TargetAll \<Rightarrow>
          (case target of
             TargetNone \<Rightarrow> TargetAll
           | AllExceptSingle t \<Rightarrow> TargetSingle t
           | AllExcept ts \<Rightarrow> target_from_list ts
           | TargetAll \<Rightarrow> TargetNone
           | Only ts \<Rightarrow> all_except_from_list ts
           | TargetSingle t \<Rightarrow> AllExceptSingle t)
      | AllExceptSingle existing \<Rightarrow>
          (case target of
             TargetNone \<Rightarrow> AllExceptSingle existing
           | AllExceptSingle t \<Rightarrow> if existing = t then TargetNone else TargetSingle t
           | AllExcept ts \<Rightarrow> only_unique (filter (\<lambda>x. x \<noteq> existing) ts)
           | TargetAll \<Rightarrow> TargetNone
           | Only ts \<Rightarrow> all_except_unique (existing # ts)
           | TargetSingle t \<Rightarrow> all_except_unique [existing, t])
      | AllExcept existing \<Rightarrow>
          (case target of
             TargetNone \<Rightarrow> self
           | AllExceptSingle t \<Rightarrow> if t \<in> set existing then TargetNone else TargetSingle t
           | AllExcept ts \<Rightarrow> only_difference ts existing
           | TargetAll \<Rightarrow> TargetNone
           | Only ts \<Rightarrow> AllExcept (append_unique existing ts)
           | TargetSingle t \<Rightarrow> AllExcept (push_if_absent t existing))
      | Only existing \<Rightarrow>
          (case target of
             TargetNone \<Rightarrow> self
           | AllExceptSingle t \<Rightarrow> Only (filter (\<lambda>x. x = t) existing)
           | AllExcept ts \<Rightarrow> Only (retain_membership existing ts True)
           | TargetAll \<Rightarrow> TargetNone
           | Only ts \<Rightarrow> Only (retain_membership existing ts False)
           | TargetSingle t \<Rightarrow> Only (filter (\<lambda>x. x \<noteq> t) existing))
      | TargetSingle existing \<Rightarrow> if targets target existing then TargetNone else self
      | TargetNone \<Rightarrow> TargetNone)"

definition target_exclude :: "'a target \<Rightarrow> 'a target \<Rightarrow> 'a target" where
  "target_exclude self target =
     (if self = TargetNone \<or> target = TargetNone then self
      else if target = TargetAll then TargetNone
      else compact (exclude_body self target))"

definition from_exclude :: "'a list \<Rightarrow> 'a target" where
  "from_exclude client_ids = target_inverse (target_extend client_ids TargetNone)"

section \<open>Resolution to connected entities\<close>

record 'e network_target_resolver =
  nr_targets :: "'e set"
  nr_requested :: "'e set"

definition remove_mapped :: "('p \<rightharpoonup> 'e) \<Rightarrow> 'p \<Rightarrow> 'e set \<Rightarrow> 'e set" where
  "remove_mapped mapping p es = (case mapping p of Some e \<Rightarrow> es - {e} | None \<Rightarrow> es)"

definition resolve ::
  "'p target \<Rightarrow> 'e list \<Rightarrow> ('p \<rightharpoonup> 'e) \<Rightarrow> 'e network_target_resolver \<Rightarrow> 'e network_target_resolver" where
  "resolve target clients mapping r =
     (let r = r\<lparr>nr_targets := {}, nr_requested := {}\<rparr>;
          all = nr_targets r \<union> set clients
      in case target of
           TargetAll \<Rightarrow> r\<lparr>nr_targets := all\<rparr>
         | AllExceptSingle p \<Rightarrow> r\<lparr>nr_targets := remove_mapped mapping p all\<rparr>
         | AllExcept ps \<Rightarrow> r\<lparr>nr_targets := fold (remove_mapped mapping) ps all\<rparr>
         | TargetSingle p \<Rightarrow>
             (case mapping p of
                Some e \<Rightarrow> if e \<in> set clients then r\<lparr>nr_targets := insert e (nr_targets r)\<rparr> else r
              | None \<Rightarrow> r)
         | Only ps \<Rightarrow>
             if length clients \<le> INLINE_TARGET_CAPACITY \<and> length ps \<le> INLINE_TARGET_CAPACITY
             then (let requested = List.map_filter mapping ps
                   in r\<lparr>nr_targets := nr_targets r \<union> set (filter (\<lambda>e. e \<in> set requested) clients)\<rparr>)
             else (let r = r\<lparr>nr_requested := nr_requested r \<union> set (List.map_filter mapping ps)\<rparr>
                   in r\<lparr>nr_targets := nr_targets r \<union> set (filter (\<lambda>e. e \<in> nr_requested r) clients)\<rparr>)
         | TargetNone \<Rightarrow> r)"

text \<open>The entities \<open>func\<close> is called on, in order; \<open>placeholder\<close> is \<open>Entity::PLACEHOLDER\<close>.\<close>

definition apply_targets ::
  "'e \<Rightarrow> 'p target \<Rightarrow> 'e list \<Rightarrow> ('p \<rightharpoonup> 'e) \<Rightarrow> 'e list" where
  "apply_targets placeholder t clients mapping =
     (let get = (\<lambda>p. case mapping p of Some e \<Rightarrow> e | None \<Rightarrow> placeholder) in
      case t of
        TargetAll \<Rightarrow> clients
      | AllExceptSingle p \<Rightarrow> filter (\<lambda>e. e \<noteq> get p) clients
      | AllExcept ps \<Rightarrow> filter (\<lambda>e. e \<notin> set (map get ps)) clients
      | TargetSingle p \<Rightarrow> (case List.find (\<lambda>e. e = get p) clients of Some e \<Rightarrow> [e] | None \<Rightarrow> [])
      | Only ps \<Rightarrow> filter (\<lambda>e. e \<in> set (map get ps)) clients
      | TargetNone \<Rightarrow> [])"

section \<open>Lists without repetitions\<close>

lemma set_retain_unseen [simp]: "set (retain_unseen seen xs) = set xs - seen"
  by (induction xs arbitrary: seen) auto

lemma distinct_retain_unseen [simp]: "distinct (retain_unseen seen xs)"
  by (induction xs arbitrary: seen) auto

lemma set_retain_remaining [simp]: "set (retain_remaining rem xs) = set xs \<inter> rem"
  by (induction xs arbitrary: rem) auto

lemma distinct_retain_remaining [simp]: "distinct (retain_remaining rem xs)"
  by (induction xs arbitrary: rem) auto

lemma dedup_loop_correct:
  "distinct (take index xs) \<Longrightarrow> set (dedup_loop index xs) = set xs \<and> distinct (dedup_loop index xs)"
proof (induction index xs rule: dedup_loop.induct)
  case (1 index xs)
  show ?case
  proof (cases "index < length xs")
    case True
    then have split: "xs = take index xs @ xs ! index # drop (Suc index) xs"
      by (rule id_take_nth_drop)
    show ?thesis
    proof (cases "xs ! index \<in> set (take index xs)")
      case dup: True
      have "set (take index xs @ drop (Suc index) xs) = set xs"
        using dup by (subst (3) split) auto
      then show ?thesis
        using "1.IH"(1) [OF True dup] "1.prems" True dup by (subst (1 2) dedup_loop.simps) simp
    next
      case False
      then have "distinct (take (Suc index) xs)"
        using "1.prems" True by (simp add: take_Suc_conv_app_nth)
      then show ?thesis
        using "1.IH"(2) [OF True False] True False by (subst (1 2) dedup_loop.simps) simp
    qed
  next
    case False
    then show ?thesis
      using "1.prems" by (subst (1 2) dedup_loop.simps) simp
  qed
qed

lemma set_deduplicate [simp]: "set (deduplicate xs) = set xs"
  and distinct_deduplicate [simp]: "distinct (deduplicate xs)"
proof -
  have "distinct (take 1 xs)"
    by (cases xs) auto
  from dedup_loop_correct [OF this]
  show "set (deduplicate xs) = set xs" and "distinct (deduplicate xs)"
    by (simp_all add: deduplicate_def)
qed

lemma set_push_if_absent [simp]: "set (push_if_absent x xs) = insert x (set xs)"
  by (auto simp: push_if_absent_def)

lemma distinct_push_if_absent [simp]: "distinct xs \<Longrightarrow> distinct (push_if_absent x xs)"
  by (simp add: push_if_absent_def)

lemma fold_push_if_absent:
  "set (fold push_if_absent extra xs) = set xs \<union> set extra \<and>
   (distinct xs \<longrightarrow> distinct (fold push_if_absent extra xs))"
  by (induction extra arbitrary: xs) auto

lemma set_append_unique [simp]: "set (append_unique xs extra) = set xs \<union> set extra"
  using fold_push_if_absent [of extra xs] by (auto simp: append_unique_def)

lemma distinct_append_unique [simp]: "distinct xs \<Longrightarrow> distinct (append_unique xs extra)"
  using fold_push_if_absent [of extra xs] by (auto simp: append_unique_def)

lemma set_retain_membership [simp]:
  "set (retain_membership xs other keep) = {x \<in> set xs. (x \<in> set other) = keep}"
  by (auto simp: retain_membership_def)

lemma distinct_retain_membership [simp]: "distinct xs \<Longrightarrow> distinct (retain_membership xs other keep)"
  by (simp add: retain_membership_def)

lemma length_push_if_absent: "length xs \<le> length (push_if_absent x xs)"
  by (simp add: push_if_absent_def)

lemma length_append_unique: "distinct xs \<Longrightarrow> length xs \<le> length (append_unique xs extra)"
  by (metis card_mono distinct_append_unique distinct_card finite_set set_append_unique sup_ge1)

section \<open>The set a target stands for\<close>

definition members :: "'a target \<Rightarrow> 'a set" where
  "members t = {x. targets t x}"

lemma members_simps [simp]:
  "members TargetNone = {}"
  "members TargetAll = UNIV"
  "members (AllExceptSingle x) = - {x}"
  "members (AllExcept xs) = - set xs"
  "members (Only xs) = set xs"
  "members (TargetSingle x) = {x}"
  by (auto simp: members_def targets_def)

lemma targets_iff: "targets t x \<longleftrightarrow> x \<in> members t"
  by (simp add: members_def)

lemma members_target_from_list [simp]: "members (target_from_list xs) = set xs"
  by (cases xs rule: remdups_adj.cases) (auto simp: target_from_list_def)

lemma members_all_except_from_list [simp]: "members (all_except_from_list xs) = - set xs"
  by (cases xs rule: remdups_adj.cases) (auto simp: all_except_from_list_def)

lemma members_compact [simp]: "members (compact t) = members t"
  by (simp add: compact_def split: target.split)

lemma members_normalize [simp]: "members (normalize t) = members t"
  by (simp add: normalize_def split: target.split)

lemma members_only_unique [simp]: "members (only_unique xs) = set xs"
  by (cases xs rule: remdups_adj.cases) (auto simp: only_unique_def)

lemma exclusive_of_only_unique: "members (exclusive_of (only_unique xs)) = - set xs"
proof (cases xs rule: remdups_adj.cases)
  case (3 x y zs)
  then show ?thesis
    by (cases "deduplicate (x # y # zs)" rule: remdups_adj.cases)
      (use set_deduplicate [of "x # y # zs"] in
        \<open>auto simp: only_unique_def target_from_list_def exclusive_of_def simp del: set_deduplicate\<close>)
qed (auto simp: only_unique_def exclusive_of_def)

lemma members_all_except_unique [simp]: "members (all_except_unique xs) = - set xs"
  by (simp add: all_except_unique_def exclusive_of_only_unique)

lemma members_only_difference [simp]: "members (only_difference xs ys) = set xs - set ys"
  by (auto simp: only_difference_def)

lemma exclusive_of_target_from_list: "members (exclusive_of (target_from_list xs)) = - set xs"
  by (cases xs rule: remdups_adj.cases) (auto simp: target_from_list_def exclusive_of_def)

lemma members_all_except_difference [simp]:
  "members (all_except_difference xs ys) = - (set xs - set ys)"
  by (auto simp: all_except_difference_def only_difference_def exclusive_of_only_unique
      exclusive_of_target_from_list)

lemma members_insert [simp]: "members (target_insert x t) = insert x (members t)"
  by (auto simp: target_insert_def split: target.split)

lemma members_intersection_body: "members (intersection_body s t) = members s \<inter> members t"
  by (cases s; cases t) (auto simp: intersection_body_def targets_iff)

lemma members_union_body: "members (union_body s t) = members s \<union> members t"
  by (cases s; cases t) (auto simp: union_body_def targets_iff)

lemma members_exclude_body: "members (exclude_body s t) = members s - members t"
  by (cases s; cases t) (auto simp: exclude_body_def targets_iff)

lemma members_inverse: "members (target_inverse t) = - members t"
  by (cases t) (auto simp: target_inverse_def)

lemma members_extend: "members (target_extend xs t) = members t \<union> set xs"
proof -
  have "members (fold target_insert xs t) = members t \<union> set xs" for t
    by (induction xs arbitrary: t) auto
  then show ?thesis by (simp add: target_extend_def)
qed

text \<open>
  C15: the operations on targets are the set operations on the clients they stand for, whichever of
  the short-list and hash-set paths is taken and whatever repetitions the lists have.
\<close>

theorem target_operations_are_set_operations:
  "members (intersection s t) = members s \<inter> members t \<and>
   members (target_union s t) = members s \<union> members t \<and>
   members (target_exclude s t) = members s - members t \<and>
   members (target_inverse t) = - members t \<and>
   members (target_extend xs t) = members t \<union> set xs \<and>
   members (from_exclude xs) = - set xs \<and>
   members (target_from_iter xs) = set xs \<and> members (target_from_list xs) = set xs"
proof (intro conjI)
  show "members (intersection s t) = members s \<inter> members t"
    by (auto simp: intersection_def members_intersection_body)
  show "members (target_union s t) = members s \<union> members t"
    by (auto simp: target_union_def members_union_body)
  show "members (target_exclude s t) = members s - members t"
    by (auto simp: target_exclude_def members_exclude_body)
  show "members (target_from_iter xs) = set xs"
    by (cases xs rule: remdups_adj.cases) (auto simp: target_from_iter_def)
qed (simp_all add: members_inverse members_extend from_exclude_def)

text \<open>
  A target is canonical when a list variant lists at least two clients, each once.
\<close>

definition canonical :: "'a target \<Rightarrow> bool" where
  "canonical t =
     (case t of Only xs \<Rightarrow> 2 \<le> length xs \<and> distinct xs
      | AllExcept xs \<Rightarrow> 2 \<le> length xs \<and> distinct xs | _ \<Rightarrow> True)"

lemma canonical_simps [simp]:
  "canonical TargetNone" "canonical TargetAll" "canonical (TargetSingle x)"
  "canonical (AllExceptSingle x)"
  "canonical (Only xs) \<longleftrightarrow> 2 \<le> length xs \<and> distinct xs"
  "canonical (AllExcept xs) \<longleftrightarrow> 2 \<le> length xs \<and> distinct xs"
  by (simp_all add: canonical_def)

lemma canonical_target_from_list [simp]: "distinct xs \<Longrightarrow> canonical (target_from_list xs)"
  by (cases xs rule: remdups_adj.cases) (auto simp: target_from_list_def)

lemma canonical_all_except_from_list [simp]: "distinct xs \<Longrightarrow> canonical (all_except_from_list xs)"
  by (cases xs rule: remdups_adj.cases) (auto simp: all_except_from_list_def)

lemma canonical_only_unique [simp]: "canonical (only_unique xs)"
  by (cases xs rule: remdups_adj.cases) (auto simp: only_unique_def)

lemma canonical_exclusive_of [simp]: "canonical t \<Longrightarrow> canonical (exclusive_of t)"
  by (cases t) (simp_all add: exclusive_of_def)

lemma canonical_inverse: "canonical t \<Longrightarrow> canonical (target_inverse t)"
  by (cases t) (simp_all add: target_inverse_def)

lemma canonical_all_except_unique [simp]: "canonical (all_except_unique xs)"
  by (simp add: all_except_unique_def)

lemma canonical_only_difference [simp]: "canonical (only_difference xs ys)"
  by (simp add: only_difference_def)

lemma canonical_all_except_difference [simp]: "canonical (all_except_difference xs ys)"
  by (simp add: all_except_difference_def)

lemma canonical_normalize [simp]: "canonical (normalize t)"
  by (simp add: normalize_def split: target.split)

text \<open>All that \<open>compact\<close> needs: the lists of the target have no repetition.\<close>

definition target_distinct :: "'a target \<Rightarrow> bool" where
  "target_distinct t = (case t of Only xs \<Rightarrow> distinct xs | AllExcept xs \<Rightarrow> distinct xs | _ \<Rightarrow> True)"

lemma target_distinct_simps [simp]:
  "target_distinct TargetNone" "target_distinct TargetAll" "target_distinct (TargetSingle x)"
  "target_distinct (AllExceptSingle x)"
  "target_distinct (Only xs) \<longleftrightarrow> distinct xs" "target_distinct (AllExcept xs) \<longleftrightarrow> distinct xs"
  by (simp_all add: target_distinct_def)

lemma canonical_distinct: "canonical t \<Longrightarrow> target_distinct t"
  by (cases t) auto

lemma canonical_compact: "target_distinct t \<Longrightarrow> canonical (compact t)"
  by (cases t) (auto simp: compact_def)

lemma target_distinct_bodies:
  assumes "target_distinct s" and "target_distinct t"
  shows "target_distinct (intersection_body s t)" and "target_distinct (union_body s t)"
    and "target_distinct (exclude_body s t)"
  using assms
  by (cases s; cases t; auto intro!: canonical_distinct simp: intersection_body_def union_body_def exclude_body_def)+

text \<open>
  Every operation keeps targets canonical: equal sets of clients are never stored as an empty
  or one-element list, and no list names a client twice. \<open>extend\<close> makes any target canonical.
\<close>

theorem target_operations_keep_canonical:
  assumes "canonical s" and "canonical t"
  shows "canonical (intersection s t) \<and> canonical (target_union s t) \<and>
    canonical (target_exclude s t) \<and> canonical (target_inverse t) \<and>
    canonical (target_extend xs u) \<and> canonical (from_exclude xs)"
proof (intro conjI)
  note bodies = target_distinct_bodies [OF canonical_distinct canonical_distinct, OF assms]
  show "canonical (intersection s t)" "canonical (target_union s t)" "canonical (target_exclude s t)"
    using assms by (simp_all add: intersection_def target_union_def target_exclude_def
        canonical_compact bodies)
  show "canonical (target_inverse t)"
    by (rule canonical_inverse [OF assms(2)])
  show "canonical (target_extend xs u)" "canonical (from_exclude xs)"
    by (simp_all add: target_extend_def from_exclude_def canonical_inverse)
qed

theorem target_operations_keep_canonical_witness:
  "canonical (target_union (TargetSingle (1::nat)) (Only [1, 2])) \<and>
   target_union (TargetSingle (1::nat)) (Only [1, 2]) = Only [1, 2]"
  using target_operations_keep_canonical [of "TargetSingle (1::nat)" "Only [1, 2]" "[]" TargetNone]
  by (simp add: target_union_def union_body_def only_unique_def deduplicate_def
      INLINE_TARGET_CAPACITY_def dedup_loop.simps compact_def target_from_list_def take_Cons')

section \<open>Resolution\<close>

lemma set_map_filter_mapping: "set (List.map_filter m ps) = {e. \<exists>p \<in> set ps. m p = Some e}"
  by (induction ps) (auto simp: List.map_filter_simps split: option.split)

lemma fold_remove_mapped:
  "fold (remove_mapped m) ps es = es - {e. \<exists>p \<in> set ps. m p = Some e}"
  by (induction ps arbitrary: es) (auto simp: remove_mapped_def split: option.split)

lemma nr_targets_resolve:
  "nr_targets (resolve t clients m r) =
     (case t of
        TargetNone \<Rightarrow> {}
      | TargetAll \<Rightarrow> set clients
      | AllExceptSingle p \<Rightarrow> set clients - {e. m p = Some e}
      | AllExcept ps \<Rightarrow> set clients - {e. \<exists>p \<in> set ps. m p = Some e}
      | Only ps \<Rightarrow> set clients \<inter> {e. \<exists>p \<in> set ps. m p = Some e}
      | TargetSingle p \<Rightarrow> set clients \<inter> {e. m p = Some e})"
  by (cases t)
    (auto simp: resolve_def Let_def remove_mapped_def fold_remove_mapped set_map_filter_mapping
      split: option.splits)

lemma find_eq: "List.find (\<lambda>e. e = x) xs = (if x \<in> set xs then Some x else None)"
  by (induction xs) auto

lemma set_apply_targets:
  assumes "placeholder \<notin> set clients"
  shows "set (apply_targets placeholder t clients m) = nr_targets (resolve t clients m r)"
proof -
  have "e \<in> (\<lambda>p. case m p of None \<Rightarrow> placeholder | Some e \<Rightarrow> e) ` set ps \<longleftrightarrow> (\<exists>p \<in> set ps. m p = Some e)"
    if "e \<in> set clients" for e ps
    using that assms by (force simp: image_iff split: option.splits)
  then show ?thesis
    using assms by (cases t) (auto simp: apply_targets_def nr_targets_resolve find_eq split: option.splits)
qed

text \<open>
  C16: the reusable resolver selects exactly the entities that the iterator \<open>apply_targets\<close> visits,
  whatever it held before and whichever path it takes; and when every connected client has one
  peer, these are the clients whose peer the target contains.
\<close>

theorem resolver_equals_apply_targets:
  assumes "placeholder \<notin> set clients" and "set clients \<subseteq> ran m" and "inj_on m (dom m)"
  shows "nr_targets (resolve t clients m r) = set (apply_targets placeholder t clients m) \<and>
    nr_targets (resolve t clients m r) = {e \<in> set clients. \<exists>p. m p = Some e \<and> targets t p}"
proof
  show "nr_targets (resolve t clients m r) = set (apply_targets placeholder t clients m)"
    by (rule set_apply_targets [OF assms(1), symmetric])
  have "\<exists>!p. m p = Some e" if "e \<in> set clients" for e
    using that assms(2,3) by (auto simp: ran_def dom_def inj_on_def subset_eq)
  then show "nr_targets (resolve t clients m r) = {e \<in> set clients. \<exists>p. m p = Some e \<and> targets t p}"
    by (cases t; simp add: nr_targets_resolve targets_def; fast)
qed

theorem resolver_equals_apply_targets_witness:
  "nr_targets (resolve (AllExceptSingle ''b'') [1, 2, 3]
     [''a'' \<mapsto> 1, ''b'' \<mapsto> 2, ''c'' \<mapsto> (3::nat)] \<lparr>nr_targets = {9}, nr_requested = {}\<rparr>) = {1, 3}"
proof -
  let ?m = "[''a'' \<mapsto> 1, ''b'' \<mapsto> 2, ''c'' \<mapsto> (3::nat)]"
  have "inj_on ?m (dom ?m)"
    by (simp add: inj_on_def)
  moreover have "set [1, 2, 3] \<subseteq> ran ?m"
    by (simp add: ran_map_upd)
  ultimately show ?thesis
    using resolver_equals_apply_targets [of 0 "[1, 2, 3]" ?m "AllExceptSingle ''b''"]
    by (simp add: apply_targets_def)
qed

section \<open>On the wire\<close>

definition peer_id_enc :: "peer_id \<Rightarrow> bytes" where
  "peer_id_enc p =
     (case p of
        PeerEntity n \<Rightarrow> 0 # be_bytes 8 (unat n)
      | PeerRaw (V4 (a, b, c, d) port) \<Rightarrow> [1, a, b, c, d] @ be_bytes 2 (unat port)
      | PeerRaw (V6 segments port _ _) \<Rightarrow>
          2 # concat (map (\<lambda>n. be_bytes 2 (unat n)) segments) @ be_bytes 2 (unat port)
      | PeerNetcode n \<Rightarrow> 3 # be_bytes 8 (unat n)
      | PeerSteam n \<Rightarrow> 4 # be_bytes 8 (unat n)
      | PeerLocal n \<Rightarrow> 5 # be_bytes 8 (unat n)
      | PeerServer \<Rightarrow> [6])"

text \<open>An IPv6 address has eight segments; on the wire it has no flow label and no scope.\<close>

definition peer_id_ok :: "peer_id \<Rightarrow> bool" where
  "peer_id_ok p = (case p of PeerRaw (V6 segments _ _ _) \<Rightarrow> length segments = 8 | _ \<Rightarrow> True)"

definition unscoped :: "peer_id \<Rightarrow> peer_id" where
  "unscoped p = (case p of PeerRaw (V6 segments port _ _) \<Rightarrow> PeerRaw (V6 segments port 0 0) | _ \<Rightarrow> p)"

interpretation be_u16_codec: codec "\<lambda>_. Some 2" write_u16 read_u16 "\<lambda>n. be_bytes 2 (unat n)" "\<lambda>_. True"
  by unfold_locales (simp_all add: write_defs read_u16_append)

lemma concat_be_u16_length: "length (concat (map (\<lambda>n :: u16. be_bytes 2 (unat n)) xs)) = 2 * length xs"
  by (induction xs) auto

lemma read_tagged_u64:
  assumes "remaining_slice r = tag # be_bytes 8 (unat n) @ rest"
  shows "read_u8 r = Inr (tag, skip 1 r) \<and> read_u64 (skip 1 r) = Inr (n, skip 9 r)"
  using read_u8_append [OF assms] read_u64_append [of "skip 1 r" n rest] assms by simp

lemma peer_id_from_bytes_V4:
  assumes "remaining_slice r = [1, a, b, c, d] @ be_bytes 2 (unat port) @ rest"
  shows "peer_id_from_bytes r = Inr (PeerRaw (V4 (a, b, c, d) port), skip 7 r)"
  using assms read_u8_append [of r 1] read_u8_append [of "skip 1 r" a] read_u8_append [of "skip 2 r" b]
    read_u8_append [of "skip 3 r" c] read_u8_append [of "skip 4 r" d] read_u16_append [of "skip 5 r" port rest]
  by (simp add: peer_id_from_bytes_def eval_nat_numeral)

lemma peer_id_from_bytes_V6:
  assumes "remaining_slice r = 2 # concat (map (\<lambda>n. be_bytes 2 (unat n)) segments) @ be_bytes 2 (unat port) @ rest"
    and "length segments = 8" and "wf_reader r"
  shows "peer_id_from_bytes r = Inr (PeerRaw (V6 segments port 0 0), skip 19 r)"
proof -
  have tag: "read_u8 r = Inr (2, skip 1 r)"
    by (rule read_u8_append [OF assms(1)])
  have "wf_reader (skip 1 r)"
    using assms(1,3) by (intro wf_reader_skip) auto
  then have segs: "read_n read_u16 8 (skip 1 r) = Inr (segments, skip 17 r)"
    using be_u16_codec.read_n_ok [of segments "skip 1 r" "be_bytes 2 (unat port) @ rest"] assms(1,2)
      concat_be_u16_length [of segments] by (simp add: list_all_iff)
  have "read_u16 (skip 17 r) = Inr (port, skip 2 (skip 17 r))"
    using assms(1,2) concat_be_u16_length [of segments] by (intro read_u16_append [where rest = rest]) simp
  with tag segs show ?thesis
    by (simp add: peer_id_from_bytes_def)
qed

lemma peer_id_from_bytes_enc:
  assumes "peer_id_ok p" and "wf_reader r" and "remaining_slice r = peer_id_enc p @ rest"
  shows "peer_id_from_bytes r = Inr (unscoped p, skip (length (peer_id_enc p)) r)"
proof (cases p)
  case (PeerRaw sa)
  show ?thesis
  proof (cases sa)
    case (V4 ip port)
    then show ?thesis
      using assms(3) PeerRaw peer_id_from_bytes_V4 [of r]
      by (cases ip) (simp add: peer_id_enc_def unscoped_def)
  next
    case (V6 segments port flow scope)
    then have "length segments = 8"
      using assms(1) PeerRaw by (simp add: peer_id_ok_def)
    then show ?thesis
      using assms(2,3) PeerRaw V6 peer_id_from_bytes_V6 [of r segments port rest]
        concat_be_u16_length [of segments]
      by (simp add: peer_id_enc_def unscoped_def)
  qed
next
  case PeerServer
  then show ?thesis
    using assms(3) read_u8_append [of r 6]
    by (simp add: peer_id_enc_def peer_id_from_bytes_def unscoped_def)
qed (use assms(3) read_tagged_u64 [of r _ _ rest] in
      \<open>auto simp: peer_id_enc_def peer_id_from_bytes_def unscoped_def Let_def\<close>)

lemma peer_id_to_bytes_enc: "peer_id_to_bytes p buf = Inr (buf @ peer_id_enc p)"
proof (cases p)
  case (PeerRaw sa)
  then show ?thesis
    using be_u16_codec.try_for_each_ok
    by (cases sa)
      (auto simp: peer_id_to_bytes_def peer_id_enc_def write_defs list_all_iff split: prod.split)
qed (simp_all add: peer_id_to_bytes_def peer_id_enc_def write_defs)

lemma peer_id_bytes_len_enc: "peer_id_ok p \<Longrightarrow> peer_id_bytes_len p = Some (length (peer_id_enc p))"
  by (auto simp: peer_id_bytes_len_def peer_id_enc_def peer_id_ok_def concat_be_u16_length
      split: peer_id.splits socket_addr.splits)

interpretation peer_id_codec: codec peer_id_bytes_len peer_id_to_bytes peer_id_from_bytes peer_id_enc
  "\<lambda>p. peer_id_ok p \<and> unscoped p = p"
  by unfold_locales (simp_all add: peer_id_bytes_len_enc peer_id_to_bytes_enc, metis peer_id_from_bytes_enc)

lemmas peer_ids_codec = codec_vec [OF peer_id_codec.codec_axioms]

definition target_enc :: "network_target \<Rightarrow> bytes" where
  "target_enc t =
     (case t of
        TargetNone \<Rightarrow> [0]
      | AllExceptSingle p \<Rightarrow> 1 # peer_id_enc p
      | AllExcept ps \<Rightarrow> 2 # vec_enc peer_id_enc ps
      | TargetAll \<Rightarrow> [3]
      | Only ps \<Rightarrow> 4 # vec_enc peer_id_enc ps
      | TargetSingle p \<Rightarrow> 5 # peer_id_enc p)"

definition target_ok :: "network_target \<Rightarrow> bool" where
  "target_ok t =
     ((\<forall>p \<in> set_target t. peer_id_ok p) \<and>
      (case t of AllExcept ps \<Rightarrow> count_ok (length ps) | Only ps \<Rightarrow> count_ok (length ps) | _ \<Rightarrow> True))"

lemma target_tag:
  assumes "wf_reader r" and "remaining_slice r = (tag # bs) @ rest"
  shows "read_u8 r = Inr (tag, skip 1 r)" and "wf_reader (skip 1 r)"
    and "remaining_slice (skip 1 r) = bs @ rest"
  using assms read_u8_append [of r tag "bs @ rest"] wf_reader_skip [OF assms(1), of 1] by simp_all

lemma target_from_bytes_enc:
  assumes "target_ok t" and "\<forall>p \<in> set_target t. unscoped p = p" and "wf_reader r"
    and "remaining_slice r = target_enc t @ rest"
  shows "target_from_bytes r = Inr (t, skip (length (target_enc t)) r)"
proof (cases t)
  case (AllExcept ps)
  note tag = target_tag [OF assms(3), of 2 "vec_enc peer_id_enc ps" rest]
  show ?thesis
    using AllExcept assms tag codec.get_ok [OF peer_ids_codec, of ps "skip 1 r" rest]
    by (simp add: target_enc_def target_from_bytes_def target_ok_def list_all_iff)
next
  case (Only ps)
  note tag = target_tag [OF assms(3), of 4 "vec_enc peer_id_enc ps" rest]
  show ?thesis
    using Only assms tag codec.get_ok [OF peer_ids_codec, of ps "skip 1 r" rest]
    by (simp add: target_enc_def target_from_bytes_def target_ok_def list_all_iff)
next
  case (AllExceptSingle p)
  note tag = target_tag [OF assms(3), of 1 "peer_id_enc p" rest]
  show ?thesis
    using AllExceptSingle assms tag peer_id_codec.get_ok [of p "skip 1 r" rest]
    by (simp add: target_enc_def target_from_bytes_def target_ok_def)
next
  case (TargetSingle p)
  note tag = target_tag [OF assms(3), of 5 "peer_id_enc p" rest]
  show ?thesis
    using TargetSingle assms tag peer_id_codec.get_ok [of p "skip 1 r" rest]
    by (simp add: target_enc_def target_from_bytes_def target_ok_def)
qed (use assms(3,4) read_u8_append [of r] in \<open>simp_all add: target_enc_def target_from_bytes_def\<close>)

lemma vec_unscoped: "map peer_id_enc (map unscoped ps) = map peer_id_enc ps"
  by (auto simp: peer_id_enc_def unscoped_def split: peer_id.split socket_addr.split)

lemma peer_id_enc_unscoped [simp]: "peer_id_enc (unscoped p) = peer_id_enc p"
  using vec_unscoped [of "[p]"] by simp

lemma unscoped_unscoped [simp]: "unscoped (unscoped p) = unscoped p"
  and peer_id_ok_unscoped [simp]: "peer_id_ok (unscoped p) = peer_id_ok p"
  by (auto simp: unscoped_def peer_id_ok_def split: peer_id.split socket_addr.split)

lemma target_enc_unscoped: "target_enc (map_target unscoped t) = target_enc t"
  by (cases t) (simp_all add: target_enc_def vec_enc_def o_def)

lemma target_ok_unscoped: "target_ok t \<Longrightarrow> target_ok (map_target unscoped t)"
  by (cases t) (auto simp: target_ok_def)

lemma peer_ids_put:
  assumes "count_ok (length ps)" and "\<forall>p \<in> set ps. peer_id_ok p"
  shows "vec_to_bytes peer_id_to_bytes ps buf = Inr (buf @ vec_enc peer_id_enc ps)"
    and "vec_bytes_len peer_id_bytes_len ps = Some (length (vec_enc peer_id_enc ps))"
proof -
  have "try_for_each_to_bytes peer_id_to_bytes ps b = Inr (b @ concat (map peer_id_enc ps))" for b
    by (induction ps arbitrary: b) (simp_all add: peer_id_to_bytes_enc)
  then show "vec_to_bytes peer_id_to_bytes ps buf = Inr (buf @ vec_enc peer_id_enc ps)"
    using count_ok_varint [OF assms(1)] by (simp add: vec_to_bytes_def vec_enc_def write_varint_eq)
  have "sum_bytes_len peer_id_bytes_len ps = Some (length (concat (map peer_id_enc ps)))"
    using assms(2) by (induction ps) (simp_all add: peer_id_bytes_len_enc)
  then show "vec_bytes_len peer_id_bytes_len ps = Some (length (vec_enc peer_id_enc ps))"
    using count_ok_varint [OF assms(1)] by (simp add: vec_bytes_len_def vec_enc_def varint_len_eq)
qed

lemma target_put_enc:
  assumes "target_ok t"
  shows "target_to_bytes t buf = Inr (buf @ target_enc t) \<and>
    target_bytes_len t = Some (length (target_enc t))"
  using assms
  by (cases t) (simp_all add: target_to_bytes_def target_bytes_len_def target_enc_def target_ok_def
      write_defs peer_id_to_bytes_enc peer_id_bytes_len_enc peer_ids_put)

text \<open>
  C17: a target is read back from its encoding, which has the announced length and may be followed
  by anything, with its peers in order. The one thing that does not survive is the flow label and
  the scope of an IPv6 peer: they are not written, and come back as zero.
\<close>

theorem target_roundtrip:
  assumes "target_ok t"
  shows "\<exists>wire. target_to_bytes t buf = Inr (buf @ wire) \<and> target_bytes_len t = Some (length wire) \<and>
    (\<forall>r rest. wf_reader r \<longrightarrow> remaining_slice r = wire @ rest \<longrightarrow>
       target_from_bytes r = Inr (map_target unscoped t, skip (length wire) r))"
proof (intro exI conjI allI impI)
  show "target_to_bytes t buf = Inr (buf @ target_enc t)"
    and "target_bytes_len t = Some (length (target_enc t))"
    using target_put_enc [OF assms] by simp_all
  fix r rest
  assume "wf_reader r" and "remaining_slice r = target_enc t @ rest"
  then show "target_from_bytes r = Inr (map_target unscoped t, skip (length (target_enc t)) r)"
    using target_from_bytes_enc [OF target_ok_unscoped [OF assms], of r rest]
    by (simp add: target_enc_unscoped target.set_map)
qed

theorem target_roundtrip_witness:
  "target_from_bytes (reader_from
      (target_enc (TargetSingle (PeerRaw (V6 [0xfe80, 0, 0, 0, 0, 0, 0, 1] 80 0 3))) @ [9])) =
   Inr (TargetSingle (PeerRaw (V6 [0xfe80, 0, 0, 0, 0, 0, 0, 1] 80 0 0)),
     skip 20 (reader_from
      (target_enc (TargetSingle (PeerRaw (V6 [0xfe80, 0, 0, 0, 0, 0, 0, 1] 80 0 3))) @ [9])))"
proof -
  let ?t = "TargetSingle (PeerRaw (V6 [0xfe80, 0, 0, 0, 0, 0, 0, 1] 80 0 3))"
  let ?r = "reader_from (target_enc ?t @ [9])"
  have ok: "target_ok ?t"
    by (simp add: target_ok_def peer_id_ok_def)
  have len: "length (target_enc ?t) = 20"
    by (simp add: target_enc_def peer_id_enc_def)
  then have "wf_reader ?r" and "remaining_slice ?r = target_enc ?t @ [9]"
    by (simp_all add: wf_reader_def reader_from_def usize_max_def remaining_slice_def)
  moreover obtain wire where "target_to_bytes ?t [] = Inr ([] @ wire)"
    and "\<forall>r rest. wf_reader r \<longrightarrow> remaining_slice r = wire @ rest \<longrightarrow>
      target_from_bytes r = Inr (map_target unscoped ?t, skip (length wire) r)"
    using target_roundtrip [OF ok, of "[]"] by blast
  moreover from this have "wire = target_enc ?t"
    using target_put_enc [OF ok, of "[]"] by simp
  ultimately have "target_from_bytes ?r = Inr (map_target unscoped ?t, skip (length (target_enc ?t)) ?r)"
    by blast
  then show ?thesis
    unfolding len by (simp add: unscoped_def)
qed

end
