(* ===== verification/Free_List.thy ===== *)
theory Free_List
  imports Prelude
begin

text \<open>
  The fixed-capacity free list (\<open>crates/core/utils/src/free_list.rs\<close>), which netcode uses for the
  server addresses of a connect token. The capacity \<open>N\<close> is the length of the slot array.
\<close>

record 'a free_list =
  fl_len :: nat
  fl_inner :: "'a option list"

definition fl_new :: "nat \<Rightarrow> 'a free_list" where
  "fl_new N = \<lparr>fl_len = 0, fl_inner = replicate N None\<rparr>"

text \<open>\<open>iter().position(|x| x.is_none())\<close>\<close>

definition position_none :: "'a option list \<Rightarrow> nat option" where
  "position_none xs =
     (let i = partition_point (\<lambda>x. x \<noteq> None) xs in if i < length xs then Some i else None)"

text \<open>\<open>None\<close> is the panic on a full list, and on a list whose \<open>len\<close> says otherwise.\<close>

definition fl_insert :: "'a \<Rightarrow> 'a free_list \<Rightarrow> ('a free_list \<times> nat) option" where
  "fl_insert value l =
     (if fl_len l \<ge> length (fl_inner l) then None
      else map_option (\<lambda>index.
             (l\<lparr>fl_len := fl_len l + 1, fl_inner := (fl_inner l)[index := Some value]\<rparr>, index))
           (position_none (fl_inner l)))"

text \<open>\<open>None\<close> is the panic of the index operator.\<close>

definition fl_remove :: "nat \<Rightarrow> 'a free_list \<Rightarrow> 'a free_list option" where
  "fl_remove index l =
     (if index \<ge> length (fl_inner l) then None
      else if fl_inner l ! index \<noteq> None
      then Some (l\<lparr>fl_len := fl_len l - 1, fl_inner := (fl_inner l)[index := None]\<rparr>)
      else Some l)"

definition fl_get :: "'a free_list \<Rightarrow> nat \<Rightarrow> 'a option" where
  "fl_get l index = (if index < length (fl_inner l) then fl_inner l ! index else None)"

text \<open>\<open>get_mut\<close> followed by an assignment.\<close>

definition fl_set :: "nat \<Rightarrow> 'a \<Rightarrow> 'a free_list \<Rightarrow> 'a free_list option" where
  "fl_set index v l =
     (case fl_get l index of None \<Rightarrow> None | Some _ \<Rightarrow> Some (l\<lparr>fl_inner := (fl_inner l)[index := Some v]\<rparr>))"

text \<open>\<open>FreeListIter::next\<close> from a position: the next occupied slot, and the position after it.\<close>

function iter_next :: "'a free_list \<Rightarrow> nat \<Rightarrow> ((nat \<times> 'a) \<times> nat) option" where
  "iter_next l index =
     (if index < length (fl_inner l)
      then (case fl_get l index of
              Some value \<Rightarrow> Some ((index, value), Suc index)
            | None \<Rightarrow> iter_next l (Suc index))
      else None)"
  by auto
termination
  by (relation "measure (\<lambda>(l, index). length (fl_inner l) - index)") auto

declare iter_next.simps [simp del]

lemma iter_next_bounds: "iter_next l index = Some (p, j) \<Longrightarrow> index < j \<and> j \<le> length (fl_inner l)"
proof (induction l index rule: iter_next.induct)
  case (1 l index)
  from "1.prems" show ?case
    by (subst (asm) iter_next.simps) (use "1.IH" in \<open>auto split: if_splits option.splits\<close>)
qed

text \<open>Running the iterator to its end.\<close>

function iter_from :: "'a free_list \<Rightarrow> nat \<Rightarrow> (nat \<times> 'a) list" where
  "iter_from l index =
     (case iter_next l index of None \<Rightarrow> [] | Some (p, j) \<Rightarrow> p # iter_from l j)"
  by auto
termination
  by (relation "measure (\<lambda>(l, index). length (fl_inner l) - index)") (auto dest: iter_next_bounds)

declare iter_from.simps [simp del]

definition fl_iter :: "'a free_list \<Rightarrow> (nat \<times> 'a) list" where
  "fl_iter l = iter_from l 0"

section \<open>Correctness\<close>

definition free_list_ok :: "'a free_list \<Rightarrow> bool" where
  "free_list_ok l \<longleftrightarrow> fl_len l = length (filter (\<lambda>x. x \<noteq> None) (fl_inner l))"

text \<open>The occupied slots of an array, from position \<open>index\<close> on.\<close>

definition occupied :: "nat \<Rightarrow> 'a option list \<Rightarrow> (nat \<times> 'a) list" where
  "occupied index xs = [(i, v). (i, Some v) \<leftarrow> enumerate index xs]"

lemma occupied_simps:
  "occupied index [] = []"
  "occupied index (None # xs) = occupied (Suc index) xs"
  "occupied index (Some v # xs) = (index, v) # occupied (Suc index) xs"
  by (simp_all add: occupied_def)

lemma iter_from_eq: "iter_from l index = occupied index (drop index (fl_inner l))"
proof (induction "length (fl_inner l) - index" arbitrary: index)
  case 0
  then show ?case by (simp add: iter_from.simps iter_next.simps occupied_simps)
next
  case (Suc n)
  then have lt: "index < length (fl_inner l)" and IH: "iter_from l (Suc index) = occupied (Suc index) (drop (Suc index) (fl_inner l))"
    by auto
  have drop: "drop index (fl_inner l) = fl_inner l ! index # drop (Suc index) (fl_inner l)"
    using lt by (simp add: Cons_nth_drop_Suc)
  show ?case
  proof (cases "fl_inner l ! index")
    case None
    then have "iter_next l index = iter_next l (Suc index)"
      using lt by (subst iter_next.simps) (simp add: fl_get_def)
    then have "iter_from l index = iter_from l (Suc index)"
      by (subst (1 2) iter_from.simps) simp
    with IH None drop show ?thesis by (simp add: occupied_simps)
  next
    case (Some v)
    then have "iter_next l index = Some ((index, v), Suc index)"
      using lt by (subst iter_next.simps) (simp add: fl_get_def)
    with IH Some drop show ?thesis by (subst iter_from.simps) (simp add: occupied_simps)
  qed
qed

lemma set_fl_iter: "set (fl_iter l) = {(i, v). fl_get l i = Some v}"
proof -
  have "(i, v) \<in> set (occupied 0 xs) \<longleftrightarrow> i < length xs \<and> xs ! i = Some v" for i v and xs :: "'a option list"
  proof -
    have "(i, v) \<in> set (occupied 0 xs) \<longleftrightarrow> (i, Some v) \<in> set (enumerate 0 xs)"
      by (force simp: occupied_def split: option.splits prod.splits)
    then show ?thesis by (auto simp: in_set_enumerate_eq)
  qed
  then show ?thesis
    by (auto simp: fl_iter_def iter_from_eq fl_get_def split: if_splits)
qed

lemma occupied_filter: "length (occupied index xs) = length (filter (\<lambda>x. x \<noteq> None) xs)"
proof (induction xs arbitrary: index)
  case (Cons x xs)
  then show ?case by (cases x) (simp_all add: occupied_simps)
qed (simp add: occupied_simps)

lemma occupied_bounds: "(i, v) \<in> set (occupied index xs) \<Longrightarrow> index \<le> i"
proof (induction xs arbitrary: index)
  case (Cons x xs)
  then show ?case by (cases x) (auto simp: occupied_simps intro: Suc_leD)
qed (simp add: occupied_simps)

lemma sorted_occupied: "sorted_wrt (<) (map fst (occupied index xs))"
proof (induction xs arbitrary: index)
  case (Cons x xs)
  then show ?case
    by (cases x) (auto simp: occupied_simps Suc_le_eq dest!: occupied_bounds)
qed (simp add: occupied_simps)

lemma count_update_Some:
  "index < length xs \<Longrightarrow> xs ! index = None \<Longrightarrow>
   length (filter (\<lambda>x. x \<noteq> None) (xs[index := Some v])) = Suc (length (filter (\<lambda>x. x \<noteq> None) xs))"
proof (induction xs arbitrary: index)
  case (Cons x xs)
  then show ?case by (cases index) auto
qed simp

lemma count_update_None:
  "index < length xs \<Longrightarrow> xs ! index \<noteq> None \<Longrightarrow>
   Suc (length (filter (\<lambda>x. x \<noteq> None) (xs[index := None]))) = length (filter (\<lambda>x. x \<noteq> None) xs)"
proof (induction xs arbitrary: index)
  case (Cons x xs)
  then show ?case by (cases index) auto
qed simp

lemma position_none_simps:
  "position_none [] = None"
  "position_none (x # xs) = (if x = None then Some 0 else map_option Suc (position_none xs))"
  by (simp_all add: position_none_def partition_point_def Let_def)

lemma position_none_Some:
  "position_none xs = Some i \<Longrightarrow> i < length xs \<and> xs ! i = None \<and> (\<forall>j < i. xs ! j \<noteq> None)"
proof (induction xs arbitrary: i)
  case (Cons x xs)
  then show ?case
    by (auto simp: position_none_simps nth_Cons split: if_splits nat.splits)
qed (simp add: position_none_simps)

lemma position_none_None: "position_none xs = None \<longleftrightarrow> filter (\<lambda>x. x \<noteq> None) xs = xs"
  unfolding filter_id_conv by (induction xs) (auto simp: position_none_simps)

lemma filter_all_iff: "filter P xs = xs \<longleftrightarrow> length xs \<le> length (filter P xs)"
  by (metis filter_True filter_id_conv le_antisym length_filter_le length_filter_less less_irrefl order_refl)

text \<open>
  The free list keeps its count right. While it does, an insertion panics exactly when every
  slot is taken; it uses the first free slot and leaves the others alone; a removal frees its slot
  and only that; and the iterator visits every occupied slot once, in ascending order.
\<close>

theorem free_list_operations:
  assumes "free_list_ok l"
  shows "(fl_insert v l = None \<longleftrightarrow> (\<forall>i < length (fl_inner l). fl_get l i \<noteq> None)) \<and>
    (\<forall>l' i. fl_insert v l = Some (l', i) \<longrightarrow>
       free_list_ok l' \<and> fl_get l i = None \<and> (\<forall>j < i. fl_get l j \<noteq> None) \<and>
       fl_get l' = (fl_get l)(i := Some v)) \<and>
    (\<forall>i < length (fl_inner l). \<exists>l'. fl_remove i l = Some l' \<and> free_list_ok l' \<and>
       fl_get l' = (fl_get l)(i := None)) \<and>
    set (fl_iter l) = {(i, v). fl_get l i = Some v} \<and> sorted_wrt (<) (map fst (fl_iter l)) \<and>
    length (fl_iter l) = fl_len l"
proof (intro conjI allI impI)
  have cnt: "fl_len l = length (filter (\<lambda>x. x \<noteq> None) (fl_inner l))"
    using assms by (simp add: free_list_ok_def)
  have full: "fl_len l \<ge> length (fl_inner l) \<longleftrightarrow> position_none (fl_inner l) = None"
    by (simp add: cnt position_none_None filter_all_iff)
  have "position_none (fl_inner l) = None \<longleftrightarrow> (\<forall>i < length (fl_inner l). fl_get l i \<noteq> None)"
    unfolding position_none_None filter_id_conv by (simp add: all_set_conv_all_nth fl_get_def)
  then show "fl_insert v l = None \<longleftrightarrow> (\<forall>i < length (fl_inner l). fl_get l i \<noteq> None)"
    by (simp add: fl_insert_def full)
  show "set (fl_iter l) = {(i, v). fl_get l i = Some v}"
    by (rule set_fl_iter)
  show "sorted_wrt (<) (map fst (fl_iter l))" "length (fl_iter l) = fl_len l"
    by (simp_all add: fl_iter_def iter_from_eq sorted_occupied occupied_filter cnt)
  fix l' i
  assume "fl_insert v l = Some (l', i)"
  then have pos: "position_none (fl_inner l) = Some i"
    and l': "l' = l\<lparr>fl_len := fl_len l + 1, fl_inner := (fl_inner l)[i := Some v]\<rparr>"
    by (auto simp: fl_insert_def split: if_splits)
  note i = position_none_Some [OF pos]
  show "free_list_ok l'"
    using i cnt by (simp add: l' free_list_ok_def count_update_Some del: not_None_eq)
  show "fl_get l i = None" "fl_get l' = (fl_get l)(i := Some v)"
    using i by (auto simp: l' fl_get_def nth_list_update fun_eq_iff)
  show "fl_get l j \<noteq> None" if "j < i" for j
    using i that by (simp add: fl_get_def)
next
  fix i
  assume i: "i < length (fl_inner l)"
  show "\<exists>l'. fl_remove i l = Some l' \<and> free_list_ok l' \<and> fl_get l' = (fl_get l)(i := None)"
  proof (cases "fl_inner l ! i = None")
    case True
    with i show ?thesis
      using assms by (auto simp: fl_remove_def fl_get_def fun_eq_iff)
  next
    case False
    then show ?thesis
      using i assms count_update_None [OF i False]
      by (auto simp: fl_remove_def fl_get_def fun_eq_iff nth_list_update free_list_ok_def)
  qed
qed

theorem free_list_operations_witness:
  "fl_insert (9::nat) \<lparr>fl_len = 1, fl_inner = [Some 7, None]\<rparr> =
     Some (\<lparr>fl_len = 2, fl_inner = [Some 7, Some 9]\<rparr>, 1) \<and>
   free_list_ok \<lparr>fl_len = 2, fl_inner = [Some (7::nat), Some 9]\<rparr>"
proof -
  let ?l = "\<lparr>fl_len = 1, fl_inner = [Some 7, None]\<rparr> :: nat free_list"
  have ok: "free_list_ok ?l"
    by (simp add: free_list_ok_def)
  have ins: "fl_insert 9 ?l = Some (\<lparr>fl_len = 2, fl_inner = [Some 7, Some 9]\<rparr>, 1)"
    by (simp add: fl_insert_def position_none_def partition_point_def numeral_2_eq_2)
  then show ?thesis
    using free_list_operations [OF ok, of 9] by blast
qed

end
