(* ===== verification/Netcode_Crypto.thy ===== *)
theory Netcode_Crypto
  imports Network_Target
begin

text \<open>
  The constants, errors and encryption calls of netcode
  (\<open>crates/connection/netcode/src/lib.rs\<close>, \<open>error.rs\<close>, \<open>crypto.rs\<close>). The authenticated ciphers
  themselves are crates: an interface, the locale \<open>aead_cipher\<close>.
\<close>

section \<open>Constants and errors\<close>

definition MAC_BYTES :: nat where "MAC_BYTES = 16"
definition MAX_PKT_BUF_SIZE :: nat where "MAX_PKT_BUF_SIZE = 1300"
definition PRIVATE_KEY_BYTES :: nat where "PRIVATE_KEY_BYTES = 32"
definition USER_DATA_BYTES :: nat where "USER_DATA_BYTES = 256"
definition CONNECT_TOKEN_BYTES :: nat where "CONNECT_TOKEN_BYTES = 2048"
definition MAX_PACKET_SIZE :: nat where "MAX_PACKET_SIZE = 1200"
definition CONNECTION_TIMEOUT_SEC :: int where "CONNECTION_TIMEOUT_SEC = 15"

text \<open>The bytes of \<open>NETCODE 1.02\<close> and a zero.\<close>

definition NETCODE_VERSION :: bytes where
  "NETCODE_VERSION = [78, 69, 84, 67, 79, 68, 69, 32, 49, 46, 48, 50, 0]"

lemmas netcode_sizes = MAC_BYTES_def MAX_PKT_BUF_SIZE_def PRIVATE_KEY_BYTES_def USER_DATA_BYTES_def
  CONNECT_TOKEN_BYTES_def MAX_PACKET_SIZE_def

lemma length_NETCODE_VERSION [simp]: "length NETCODE_VERSION = 13"
  by (simp add: NETCODE_VERSION_def)

type_synonym key = bytes
type_synonym client_id = u64

datatype crypto_error = CryptoIo io_error | BufferSizeMismatch | CryptoFailed | GenerateKey

datatype netcode_packet_error =
    InvalidType u8
  | InvalidSequenceBytes u8
  | TooSmall
  | TooLarge
  | LengthMismatch nat nat
  | BadVersion
  | BadProtocolId u64 u64
  | TokenExpired
  | AlreadyReceived u64
  | InvalidPayload

datatype invalid_token_error =
    AddressListLength u32
  | InvalidIpAddressType u8
  | InvalidTimestamp
  | InvalidVersion
  | TokenIo io_error

text \<open>
  The variants of the Rust enum that the modelled code can return, over the entity type \<open>'e\<close>.
  \<open>NetcodePanicked\<close> is not one of them: it stands for a panic.
\<close>

datatype 'e netcode_error =
    SizeMismatch nat nat
  | ClientNotFound peer_id
  | ClientNotConnected peer_id
  | ConnectTokenInUse peer_id
  | ConnectTokenEncryptionFailure peer_id
  | ConnectTokenDecryptionFailure
  | UnindexableConnectToken
  | ClientEntityInUse 'e
  | EntityNotFound 'e
  | ClientIdInUse peer_id
  | UnknownClient peer_id
  | ServerIsFull peer_id
  | Denied peer_id
  | Ignored 'e
  | InvalidToken invalid_token_error
  | Crypto crypto_error
  | PacketErr netcode_packet_error
  | NetIo io_error
  | NetcodePanicked

text \<open>The conversions of the question-mark operator.\<close>

definition lift_io :: "'a serde_result \<Rightarrow> 'e netcode_error + 'a" where
  "lift_io m = (case m of Inr x \<Rightarrow> Inr x | Inl (Io e) \<Rightarrow> Inl (NetIo e) | Inl _ \<Rightarrow> Inl (NetIo Other))"

definition lift_crypto :: "crypto_error + 'a \<Rightarrow> 'e netcode_error + 'a" where
  "lift_crypto m = (case m of Inr x \<Rightarrow> Inr x | Inl e \<Rightarrow> Inl (Crypto e))"

definition lift_packet :: "netcode_packet_error + 'a \<Rightarrow> 'e netcode_error + 'a" where
  "lift_packet m = (case m of Inr x \<Rightarrow> Inr x | Inl e \<Rightarrow> Inl (PacketErr e))"

lemma lift_simps [simp]:
  "lift_io (Inr x) = Inr x" "lift_crypto (Inr x) = Inr x" "lift_packet (Inr x) = Inr x"
  "lift_crypto (Inl e) = Inl (Crypto e)" "lift_packet (Inl pe) = Inl (PacketErr pe)"
  "lift_io (Inl (Io UnexpectedEof)) = Inl (NetIo UnexpectedEof)"
  by (simp_all add: lift_io_def lift_crypto_def lift_packet_def)

lemma lift_Inr_iff [simp]:
  "lift_io m = Inr x \<longleftrightarrow> m = Inr x"
  "lift_crypto c = Inr y \<longleftrightarrow> c = Inr y"
  "lift_packet p = Inr z \<longleftrightarrow> p = Inr z"
  by (auto simp: lift_io_def lift_crypto_def lift_packet_def split: sum.splits serialization_error.splits)

section \<open>The ciphers\<close>

text \<open>
  \<open>encrypt_in_place_detached\<close> and \<open>decrypt_in_place_detached\<close> of an authenticated cipher: key,
  nonce, associated data and text give a ciphertext and a tag, and back.
\<close>

record aead_ops =
  seal :: "key \<Rightarrow> bytes \<Rightarrow> bytes \<Rightarrow> bytes \<Rightarrow> (bytes \<times> bytes) option"
  unseal :: "key \<Rightarrow> bytes \<Rightarrow> bytes \<Rightarrow> bytes \<Rightarrow> bytes \<Rightarrow> bytes option"

text \<open>
  What the crate documents: sealing succeeds on any text of moderate size, keeps its length and
  gives a tag of 16 bytes; unsealing gives the text back; and a text is only unsealed from what
  sealing it under the same key, nonce and associated data gives.
\<close>

locale aead_cipher =
  fixes A :: aead_ops and nonce_len :: nat
  assumes seal_total: "length k = PRIVATE_KEY_BYTES \<Longrightarrow> length n = nonce_len \<Longrightarrow> length a \<le> 2 ^ 16 \<Longrightarrow>
      length p \<le> 2 ^ 16 \<Longrightarrow> \<exists>c t. seal A k n a p = Some (c, t)"
    and seal_length: "seal A k n a p = Some (c, t) \<Longrightarrow> length c = length p \<and> length t = MAC_BYTES"
    and unseal_seal: "seal A k n a p = Some (c, t) \<Longrightarrow> unseal A k n a c t = Some p"
    and unseal_genuine: "unseal A k n a c t = Some p \<Longrightarrow> length t = MAC_BYTES \<Longrightarrow> seal A k n a p = Some (c, t)"

text \<open>ChaCha20Poly1305 for packets, XChaCha20Poly1305 for connect tokens.\<close>

record crypto_ops =
  chacha :: aead_ops
  xchacha :: aead_ops

section \<open>crypto.rs\<close>

text \<open>
  The buffer holds the text and 16 spare bytes, then the ciphertext and the tag. The packet nonce
  is the sequence number, big-endian, in the last eight of twelve bytes.
\<close>

definition final_nonce :: "u64 \<Rightarrow> bytes" where
  "final_nonce nonce = replicate 4 0 @ be_bytes 8 (unat nonce)"

definition aead_encrypt :: "aead_ops \<Rightarrow> bytes \<Rightarrow> bytes option \<Rightarrow> bytes \<Rightarrow> key \<Rightarrow> crypto_error + bytes" where
  "aead_encrypt A buf associated_data nonce key =
     (let size = length buf in
      if size < MAC_BYTES then Inl BufferSizeMismatch
      else case seal A key nonce (case associated_data of Some a \<Rightarrow> a | None \<Rightarrow> []) (take (size - MAC_BYTES) buf) of
             None \<Rightarrow> Inl CryptoFailed
           | Some (c, mac) \<Rightarrow> Inr (c @ mac))"

definition aead_decrypt :: "aead_ops \<Rightarrow> bytes \<Rightarrow> bytes option \<Rightarrow> bytes \<Rightarrow> key \<Rightarrow> crypto_error + bytes" where
  "aead_decrypt A buf associated_data nonce key =
     (if length buf < MAC_BYTES then Inl BufferSizeMismatch
      else
        (let text = take (length buf - MAC_BYTES) buf; mac = drop (length buf - MAC_BYTES) buf in
         case unseal A key nonce (case associated_data of Some a \<Rightarrow> a | None \<Rightarrow> []) text mac of
           None \<Rightarrow> Inl CryptoFailed
         | Some p \<Rightarrow> Inr (p @ mac)))"

definition chacha_encrypt :: "crypto_ops \<Rightarrow> bytes \<Rightarrow> bytes option \<Rightarrow> u64 \<Rightarrow> key \<Rightarrow> crypto_error + bytes" where
  "chacha_encrypt C buf associated_data nonce key =
     aead_encrypt (chacha C) buf associated_data (final_nonce nonce) key"

definition chacha_decrypt :: "crypto_ops \<Rightarrow> bytes \<Rightarrow> bytes option \<Rightarrow> u64 \<Rightarrow> key \<Rightarrow> crypto_error + bytes" where
  "chacha_decrypt C buf associated_data nonce key =
     aead_decrypt (chacha C) buf associated_data (final_nonce nonce) key"

definition xchacha_encrypt :: "crypto_ops \<Rightarrow> bytes \<Rightarrow> bytes option \<Rightarrow> bytes \<Rightarrow> key \<Rightarrow> crypto_error + bytes" where
  "xchacha_encrypt C buf associated_data nonce key = aead_encrypt (xchacha C) buf associated_data nonce key"

definition xchacha_decrypt :: "crypto_ops \<Rightarrow> bytes \<Rightarrow> bytes option \<Rightarrow> bytes \<Rightarrow> key \<Rightarrow> crypto_error + bytes" where
  "xchacha_decrypt C buf associated_data nonce key = aead_decrypt (xchacha C) buf associated_data nonce key"

context aead_cipher
begin

text \<open>Encrypting a text, and decrypting what comes out.\<close>

lemma aead_encrypt_ok:
  assumes "length key = PRIVATE_KEY_BYTES" and "length nonce = nonce_len" and "length text \<le> 2 ^ 16"
    and "\<forall>a. aad = Some a \<longrightarrow> length a \<le> 2 ^ 16" and "length spare = MAC_BYTES"
  obtains c mac where "aead_encrypt A (text @ spare) aad nonce key = Inr (c @ mac)"
    and "length c = length text" and "length mac = MAC_BYTES"
    and "aead_decrypt A (c @ mac) aad nonce key = Inr (text @ mac)"
proof -
  let ?a = "case aad of Some a \<Rightarrow> a | None \<Rightarrow> []"
  have "length ?a \<le> 2 ^ 16"
    using assms(4) by (simp split: option.split)
  then obtain c mac where seal: "seal A key nonce ?a text = Some (c, mac)"
    using seal_total [OF assms(1,2) _ assms(3)] by blast
  note len = seal_length [OF seal]
  show thesis
  proof (rule that)
    show "aead_encrypt A (text @ spare) aad nonce key = Inr (c @ mac)"
      using seal assms(5) by (simp add: aead_encrypt_def)
    show "aead_decrypt A (c @ mac) aad nonce key = Inr (text @ mac)"
      using len unseal_seal [OF seal] by (simp add: aead_decrypt_def)
  qed (use len in simp_all)
qed

text \<open>What decrypts was encrypted with the same key, nonce and associated data.\<close>

lemma aead_decrypt_genuine:
  assumes "aead_decrypt A buf aad nonce key = Inr out"
  shows "\<exists>text. out = text @ drop (length buf - MAC_BYTES) buf \<and> length text = length buf - MAC_BYTES \<and>
    MAC_BYTES \<le> length buf \<and> (\<forall>spare. length spare = MAC_BYTES \<longrightarrow> aead_encrypt A (text @ spare) aad nonce key = Inr buf)"
proof -
  let ?a = "case aad of Some a \<Rightarrow> a | None \<Rightarrow> []" and ?n = "length buf - MAC_BYTES"
  obtain p where size: "MAC_BYTES \<le> length buf" and p: "unseal A key nonce ?a (take ?n buf) (drop ?n buf) = Some p"
    and out: "out = p @ drop ?n buf"
    using assms by (auto simp: aead_decrypt_def Let_def split: if_splits option.splits)
  have "seal A key nonce ?a p = Some (take ?n buf, drop ?n buf)"
    using unseal_genuine [OF p] size by simp
  moreover from seal_length [OF this] have "length p = ?n"
    by simp
  ultimately show ?thesis
    using out size by (auto simp: aead_encrypt_def)
qed

end

section \<open>An instance of the cipher interface\<close>

text \<open>
  A keyed, checked but not secret cipher: the tag is the exclusive-or of all inputs, repeated. It shows
  that the laws can hold together, and evaluates in the examples.
\<close>

definition mix :: "bytes \<Rightarrow> u8" where
  "mix bs = foldr (XOR) bs 0"

definition toy_tag :: "key \<Rightarrow> bytes \<Rightarrow> bytes \<Rightarrow> bytes \<Rightarrow> bytes" where
  "toy_tag k n a p = replicate MAC_BYTES (mix k XOR mix n XOR mix a XOR mix p)"

definition toy_aead :: aead_ops where
  "toy_aead = \<lparr>seal = (\<lambda>k n a p. Some (map (\<lambda>b. b XOR mix k) p, toy_tag k n a p)),
     unseal = (\<lambda>k n a c t. let p = map (\<lambda>b. b XOR mix k) c in if t = toy_tag k n a p then Some p else None)\<rparr>"

definition toy_crypto :: crypto_ops where
  "toy_crypto = \<lparr>chacha = toy_aead, xchacha = toy_aead\<rparr>"

lemma map_mix_mix [simp]: "map (\<lambda>b. b XOR mix k) (map (\<lambda>b. b XOR mix k) p) = p"
  by (simp add: o_def xor.assoc)

interpretation toy_cipher: aead_cipher toy_aead nonce_len
  by unfold_locales
    (auto simp: toy_aead_def toy_tag_def Let_def simp del: map_map split: if_splits)

end
