(* ===== verification/Netcode_Token.thy ===== *)
theory Netcode_Token
  imports Netcode_Crypto Free_List
begin

text \<open>
  Connect tokens and challenge tokens (\<open>crates/connection/netcode/src/token.rs\<close>). A cursor over a
  slice of \<open>n\<close> bytes accepts the same writes as a list of bytes and fails when they go past the
  end; the bytes of the slice that are not written keep their value.
\<close>

definition into_slice :: "bytes \<Rightarrow> bytes serde_result \<Rightarrow> bytes serde_result" where
  "into_slice dst w =
     and_then w (\<lambda>bs. if length bs \<le> length dst then Inr (bs @ drop (length bs) dst)
                       else Inl (Io Other))"

section \<open>Address lists\<close>

definition MAX_SERVERS_PER_CONNECT :: nat where
  "MAX_SERVERS_PER_CONNECT = 32"

definition TOKEN_EXPIRE_SEC :: int where
  "TOKEN_EXPIRE_SEC = 30"

type_synonym address_list = "socket_addr free_list"

text \<open>The loop that inserts the addresses; \<open>None\<close> is the panic of a full list.\<close>

fun insert_addresses :: "socket_addr list \<Rightarrow> address_list \<Rightarrow> address_list option" where
  "insert_addresses [] l = Some l"
| "insert_addresses (a # as) l =
     (case fl_insert a l of None \<Rightarrow> None | Some (l, _) \<Rightarrow> insert_addresses as l)"

definition address_list_new :: "socket_addr list \<Rightarrow> address_list option" where
  "address_list_new addrs =
     insert_addresses (take MAX_SERVERS_PER_CONNECT addrs) (fl_new MAX_SERVERS_PER_CONNECT)"

definition address_list_len :: "address_list \<Rightarrow> nat" where
  "address_list_len l = fl_len l"

text \<open>\<open>None\<close> is the panic of an index out of bounds.\<close>

definition address_list_index :: "address_list \<Rightarrow> nat \<Rightarrow> socket_addr option" where
  "address_list_index l index = fl_get l index"

definition ipv6_octets :: "u16 list \<Rightarrow> bytes" where
  "ipv6_octets segments = concat (map (\<lambda>n. be_bytes 2 (unat n)) segments)"

definition IPV4 :: u8 where "IPV4 = 1"
definition IPV6 :: u8 where "IPV6 = 2"

definition address_write_to :: "socket_addr \<Rightarrow> bytes \<Rightarrow> bytes serde_result" where
  "address_write_to addr buf =
     (case addr of
        V4 (a, b, c, d) port \<Rightarrow>
          and_then (write_u8 IPV4 buf) (\<lambda>buf.
          and_then (write_all [a, b, c, d] buf) (write_u16 port))
      | V6 segments port _ _ \<Rightarrow>
          and_then (write_u8 IPV6 buf) (\<lambda>buf.
          and_then (write_all (ipv6_octets segments) buf) (write_u16 port)))"

definition address_list_write_to :: "address_list \<Rightarrow> bytes \<Rightarrow> bytes serde_result" where
  "address_list_write_to l buf =
     and_then (write_u32 (word_of_nat (address_list_len l)) buf)
       (try_for_each_to_bytes address_write_to (map snd (fl_iter l)))"

definition lift_token_io :: "'a serde_result \<Rightarrow> invalid_token_error + 'a" where
  "lift_token_io m = (case m of Inr x \<Rightarrow> Inr x | Inl (Io e) \<Rightarrow> Inl (TokenIo e) | Inl _ \<Rightarrow> Inl (TokenIo Other))"

lemma lift_token_io_Inr [simp]: "lift_token_io (Inr x) = Inr x"
  by (simp add: lift_token_io_def)

text \<open>\<open>Ipv6Addr::from\<close> of sixteen bytes: pairs of bytes, big-endian.\<close>

fun ipv6_segments :: "bytes \<Rightarrow> u16 list" where
  "ipv6_segments (a # b # bs) = word_of_nat (be_nat [a, b]) # ipv6_segments bs"
| "ipv6_segments _ = []"

definition address_read_from :: "reader \<Rightarrow> invalid_token_error + (socket_addr \<times> reader)" where
  "address_read_from r =
     and_then (lift_token_io (read_u8 r)) (\<lambda>(addr_type, r).
     if addr_type = IPV4 then
       and_then (lift_token_io (read_exact 4 r)) (\<lambda>(octets, r).
       and_then (lift_token_io (read_u16 r)) (\<lambda>(port, r).
         Inr (V4 (octets ! 0, octets ! 1, octets ! 2, octets ! 3) port, r)))
     else if addr_type = IPV6 then
       and_then (lift_token_io (read_exact 16 r)) (\<lambda>(octets, r).
       and_then (lift_token_io (read_u16 r)) (\<lambda>(port, r).
         Inr (V6 (ipv6_segments octets) port 0 0, r)))
     else Inl (InvalidIpAddressType addr_type))"

text \<open>The reading loop inserts every address at once; a full list would panic.\<close>

fun read_addresses :: "nat \<Rightarrow> reader \<Rightarrow> address_list \<Rightarrow> invalid_token_error + (address_list option \<times> reader)" where
  "read_addresses 0 r l = Inr (Some l, r)"
| "read_addresses (Suc n) r l =
     and_then (address_read_from r) (\<lambda>(addr, r).
       case fl_insert addr l of
         None \<Rightarrow> Inr (None, r)
       | Some (l, _) \<Rightarrow> read_addresses n r l)"

text \<open>\<open>None\<close> inside the result is a panic.\<close>

definition address_list_read_from :: "reader \<Rightarrow> invalid_token_error + (address_list option \<times> reader)" where
  "address_list_read_from r =
     and_then (lift_token_io (read_u32 r)) (\<lambda>(len, r).
     if \<not> (1 \<le> unat len \<and> unat len \<le> MAX_SERVERS_PER_CONNECT) then Inl (AddressListLength len)
     else read_addresses (unat len) r (fl_new MAX_SERVERS_PER_CONNECT))"

section \<open>The private part of a connect token\<close>

record connect_token_private =
  ctp_client_id :: u64
  ctp_timeout_seconds :: int
  ctp_server_addresses :: address_list
  ctp_client_to_server_key :: key
  ctp_server_to_client_key :: key
  ctp_user_data :: bytes

definition CTP_SIZE :: nat where
  "CTP_SIZE = 1024"

definition ctp_aead :: "u64 \<Rightarrow> u64 \<Rightarrow> bytes" where
  "ctp_aead protocol_id expire_timestamp =
     NETCODE_VERSION @ be_bytes 8 (unat protocol_id) @ be_bytes 8 (unat expire_timestamp)"

definition ctp_write_to :: "connect_token_private \<Rightarrow> bytes \<Rightarrow> bytes serde_result" where
  "ctp_write_to t buf =
     and_then (write_u64 (ctp_client_id t) buf) (\<lambda>buf.
     and_then (write_i32 (ctp_timeout_seconds t) buf) (\<lambda>buf.
     and_then (address_list_write_to (ctp_server_addresses t) buf) (\<lambda>buf.
     and_then (write_all (ctp_client_to_server_key t) buf) (\<lambda>buf.
     and_then (write_all (ctp_server_to_client_key t) buf) (\<lambda>buf.
       write_all (ctp_user_data t) buf)))))"

text \<open>Every error of the address list becomes an \<open>io::Error::other\<close>.\<close>

definition address_list_io :: "reader \<Rightarrow> (address_list \<times> reader) serde_result" where
  "address_list_io r =
     (case address_list_read_from r of
        Inl _ \<Rightarrow> Inl (Io Other)
      | Inr (None, _) \<Rightarrow> Inl Panicked
      | Inr (Some l, r) \<Rightarrow> Inr (l, r))"

definition ctp_read_from :: "reader \<Rightarrow> (connect_token_private \<times> reader) serde_result" where
  "ctp_read_from r =
     and_then (read_u64 r) (\<lambda>(client_id, r).
     and_then (read_i32 r) (\<lambda>(timeout_seconds, r).
     and_then (address_list_io r) (\<lambda>(server_addresses, r).
     and_then (read_exact PRIVATE_KEY_BYTES r) (\<lambda>(client_to_server_key, r).
     and_then (read_exact PRIVATE_KEY_BYTES r) (\<lambda>(server_to_client_key, r).
     and_then (read_exact USER_DATA_BYTES r) (\<lambda>(user_data, r).
       Inr (\<lparr>ctp_client_id = client_id, ctp_timeout_seconds = timeout_seconds,
             ctp_server_addresses = server_addresses, ctp_client_to_server_key = client_to_server_key,
             ctp_server_to_client_key = server_to_client_key, ctp_user_data = user_data\<rparr>, r)))))))"

definition ctp_encrypt ::
  "crypto_ops \<Rightarrow> connect_token_private \<Rightarrow> u64 \<Rightarrow> u64 \<Rightarrow> bytes \<Rightarrow> key \<Rightarrow> 'e netcode_error + bytes" where
  "ctp_encrypt C t protocol_id expire_timestamp nonce private_key =
     and_then (lift_io (into_slice (replicate CTP_SIZE 0) (ctp_write_to t []))) (\<lambda>buf.
       lift_crypto (xchacha_encrypt C buf (Some (ctp_aead protocol_id expire_timestamp)) nonce private_key))"

text \<open>The decrypted buffer, which the caller sees, and the token read from it.\<close>

definition ctp_decrypt ::
  "crypto_ops \<Rightarrow> bytes \<Rightarrow> u64 \<Rightarrow> u64 \<Rightarrow> bytes \<Rightarrow> key \<Rightarrow> 'e netcode_error + (connect_token_private \<times> bytes)" where
  "ctp_decrypt C encrypted protocol_id expire_timestamp nonce private_key =
     and_then (lift_crypto (xchacha_decrypt C encrypted (Some (ctp_aead protocol_id expire_timestamp)) nonce private_key))
       (\<lambda>buf. and_then (lift_io (ctp_read_from (reader_from buf))) (\<lambda>(t, _). Inr (t, buf)))"

section \<open>Challenge tokens\<close>

record challenge_token =
  cht_client_id :: u64
  cht_user_data :: bytes

definition CHALLENGE_SIZE :: nat where
  "CHALLENGE_SIZE = 300"

definition cht_write_to :: "challenge_token \<Rightarrow> bytes \<Rightarrow> bytes serde_result" where
  "cht_write_to t buf =
     and_then (write_u64 (cht_client_id t) buf) (write_all (cht_user_data t))"

definition cht_read_from :: "reader \<Rightarrow> (challenge_token \<times> reader) serde_result" where
  "cht_read_from r =
     and_then (read_u64 r) (\<lambda>(client_id, r).
     and_then (read_exact USER_DATA_BYTES r) (\<lambda>(user_data, r).
       Inr (\<lparr>cht_client_id = client_id, cht_user_data = user_data\<rparr>, r)))"

definition cht_encrypt :: "crypto_ops \<Rightarrow> challenge_token \<Rightarrow> u64 \<Rightarrow> key \<Rightarrow> 'e netcode_error + bytes" where
  "cht_encrypt C t sequence private_key =
     and_then (lift_io (into_slice (replicate CHALLENGE_SIZE 0) (cht_write_to t []))) (\<lambda>buf.
       lift_crypto (chacha_encrypt C buf None sequence private_key))"

definition cht_decrypt :: "crypto_ops \<Rightarrow> bytes \<Rightarrow> u64 \<Rightarrow> key \<Rightarrow> 'e netcode_error + challenge_token" where
  "cht_decrypt C encrypted sequence private_key =
     and_then (lift_crypto (chacha_decrypt C encrypted None sequence private_key)) (\<lambda>buf.
     and_then (lift_io (cht_read_from (reader_from buf))) (\<lambda>(t, _). Inr t))"

section \<open>Connect tokens\<close>

record connect_token =
  ct_version_info :: bytes
  ct_protocol_id :: u64
  ct_create_timestamp :: u64
  ct_expire_timestamp :: u64
  ct_nonce :: bytes
  ct_private_data :: bytes
  ct_timeout_seconds :: int
  ct_server_addresses :: address_list
  ct_client_to_server_key :: key
  ct_server_to_client_key :: key

record connect_token_builder =
  ctb_protocol_id :: u64
  ctb_client_id :: u64
  ctb_expire_seconds :: int
  ctb_private_key :: key
  ctb_timeout_seconds :: int
  ctb_public_server_addresses :: "socket_addr list"
  ctb_internal_server_addresses :: "address_list option"
  ctb_user_data :: bytes

definition connect_token_build :: "socket_addr list \<Rightarrow> u64 \<Rightarrow> u64 \<Rightarrow> key \<Rightarrow> connect_token_builder" where
  "connect_token_build server_addresses protocol_id client_id private_key =
     \<lparr>ctb_protocol_id = protocol_id, ctb_client_id = client_id, ctb_expire_seconds = TOKEN_EXPIRE_SEC,
      ctb_private_key = private_key, ctb_timeout_seconds = CONNECTION_TIMEOUT_SEC,
      ctb_public_server_addresses = server_addresses, ctb_internal_server_addresses = None,
      ctb_user_data = replicate USER_DATA_BYTES 0\<rparr>"

definition expire_seconds :: "int \<Rightarrow> connect_token_builder \<Rightarrow> connect_token_builder" where
  "expire_seconds n b = b\<lparr>ctb_expire_seconds := n\<rparr>"

definition timeout_seconds :: "int \<Rightarrow> connect_token_builder \<Rightarrow> connect_token_builder" where
  "timeout_seconds n b = b\<lparr>ctb_timeout_seconds := n\<rparr>"

definition user_data :: "bytes \<Rightarrow> connect_token_builder \<Rightarrow> connect_token_builder" where
  "user_data d b = b\<lparr>ctb_user_data := d\<rparr>"

definition internal_addresses :: "socket_addr list \<Rightarrow> connect_token_builder \<Rightarrow> connect_token_builder option" where
  "internal_addresses as b =
     map_option (\<lambda>l. b\<lparr>ctb_internal_server_addresses := Some l\<rparr>) (address_list_new as)"

text \<open>
  The clock, the two session keys and the nonce come from outside. The addition of the expiry wraps
  as in a release build.
\<close>

definition token_generate ::
  "crypto_ops \<Rightarrow> u64 \<Rightarrow> key \<Rightarrow> key \<Rightarrow> bytes \<Rightarrow> connect_token_builder \<Rightarrow> 'e netcode_error + connect_token" where
  "token_generate C now client_to_server_key server_to_client_key nonce b =
     (let expire_timestamp = (if ctb_expire_seconds b < 0 then - 1 else now + word_of_int (ctb_expire_seconds b))
      in case address_list_new (ctb_public_server_addresses b) of
           None \<Rightarrow> Inl NetcodePanicked
         | Some public_server_addresses \<Rightarrow>
             (let internal_server_addresses =
                    (case ctb_internal_server_addresses b of Some l \<Rightarrow> l | None \<Rightarrow> public_server_addresses)
              in and_then
                   (ctp_encrypt C
                      \<lparr>ctp_client_id = ctb_client_id b, ctp_timeout_seconds = ctb_timeout_seconds b,
                       ctp_server_addresses = internal_server_addresses,
                       ctp_client_to_server_key = client_to_server_key,
                       ctp_server_to_client_key = server_to_client_key, ctp_user_data = ctb_user_data b\<rparr>
                      (ctb_protocol_id b) expire_timestamp nonce (ctb_private_key b))
                   (\<lambda>private_data.
                      Inr \<lparr>ct_version_info = NETCODE_VERSION, ct_protocol_id = ctb_protocol_id b,
                           ct_create_timestamp = now, ct_expire_timestamp = expire_timestamp,
                           ct_nonce = nonce, ct_private_data = private_data,
                           ct_timeout_seconds = ctb_timeout_seconds b,
                           ct_server_addresses = public_server_addresses,
                           ct_client_to_server_key = client_to_server_key,
                           ct_server_to_client_key = server_to_client_key\<rparr>)))"

definition ct_write_to :: "connect_token \<Rightarrow> bytes \<Rightarrow> bytes serde_result" where
  "ct_write_to t buf =
     and_then (write_all (ct_version_info t) buf) (\<lambda>buf.
     and_then (write_u64 (ct_protocol_id t) buf) (\<lambda>buf.
     and_then (write_u64 (ct_create_timestamp t) buf) (\<lambda>buf.
     and_then (write_u64 (ct_expire_timestamp t) buf) (\<lambda>buf.
     and_then (write_all (ct_nonce t) buf) (\<lambda>buf.
     and_then (write_all (ct_private_data t) buf) (\<lambda>buf.
     and_then (write_i32 (ct_timeout_seconds t) buf) (\<lambda>buf.
     and_then (address_list_write_to (ct_server_addresses t) buf) (\<lambda>buf.
     and_then (write_all (ct_client_to_server_key t) buf) (\<lambda>buf.
       write_all (ct_server_to_client_key t) buf)))))))))"

definition ct_read_from :: "reader \<Rightarrow> invalid_token_error + (connect_token option \<times> reader)" where
  "ct_read_from r =
     and_then (lift_token_io (read_exact 13 r)) (\<lambda>(version_info, r).
     if version_info \<noteq> NETCODE_VERSION then Inl InvalidVersion
     else
       and_then (lift_token_io (read_u64 r)) (\<lambda>(protocol_id, r).
       and_then (lift_token_io (read_u64 r)) (\<lambda>(create_timestamp, r).
       and_then (lift_token_io (read_u64 r)) (\<lambda>(expire_timestamp, r).
       if create_timestamp > expire_timestamp then Inl InvalidTimestamp
       else
         and_then (lift_token_io (read_exact 24 r)) (\<lambda>(nonce, r).
         and_then (lift_token_io (read_exact CTP_SIZE r)) (\<lambda>(private_data, r).
         and_then (lift_token_io (read_i32 r)) (\<lambda>(timeout_seconds, r).
         and_then (address_list_read_from r) (\<lambda>(server_addresses, r).
         case server_addresses of
           None \<Rightarrow> Inr (None, r)
         | Some server_addresses \<Rightarrow>
             and_then (lift_token_io (read_exact PRIVATE_KEY_BYTES r)) (\<lambda>(client_to_server_key, r).
             and_then (lift_token_io (read_exact PRIVATE_KEY_BYTES r)) (\<lambda>(server_to_client_key, r).
               Inr (Some \<lparr>ct_version_info = version_info, ct_protocol_id = protocol_id,
                     ct_create_timestamp = create_timestamp, ct_expire_timestamp = expire_timestamp,
                     ct_nonce = nonce, ct_private_data = private_data,
                     ct_timeout_seconds = timeout_seconds, ct_server_addresses = server_addresses,
                     ct_client_to_server_key = client_to_server_key,
                     ct_server_to_client_key = server_to_client_key\<rparr>, r)))))))))))"

definition try_into_bytes :: "connect_token \<Rightarrow> bytes serde_result" where
  "try_into_bytes t =
     (case into_slice (replicate CONNECT_TOKEN_BYTES 0) (ct_write_to t []) of
        Inl _ \<Rightarrow> Inl (Io Other) | Inr buf \<Rightarrow> Inr buf)"

definition try_from_bytes :: "bytes \<Rightarrow> invalid_token_error + connect_token option" where
  "try_from_bytes bs = and_then (ct_read_from (reader_from bs)) (\<lambda>(t, _). Inr t)"

section \<open>Address lists on the wire\<close>

text \<open>A list that was only inserted into: the addresses fill the first slots.\<close>

definition packed :: "socket_addr list \<Rightarrow> address_list" where
  "packed as = \<lparr>fl_len = length as, fl_inner = map Some as @ replicate (MAX_SERVERS_PER_CONNECT - length as) None\<rparr>"

lemma position_none_packed:
  "position_none (map Some as @ replicate (Suc n) None) = Some (length as)"
  by (induction as) (simp_all add: position_none_simps)

lemma fl_insert_packed:
  assumes "length as < MAX_SERVERS_PER_CONNECT"
  shows "fl_insert a (packed as) = Some (packed (as @ [a]), length as)"
proof -
  obtain n where n: "MAX_SERVERS_PER_CONNECT - length as = Suc n"
    using assms by (metis Suc_diff_Suc)
  then have "MAX_SERVERS_PER_CONNECT - length (as @ [a]) = n"
    by simp
  with n show ?thesis
    using position_none_packed [of as n] assms
    by (simp add: fl_insert_def packed_def list_update_append del: replicate.simps)
      (simp add: replicate.simps)
qed

lemma insert_addresses_packed:
  "length bs + length as \<le> MAX_SERVERS_PER_CONNECT \<Longrightarrow> insert_addresses as (packed bs) = Some (packed (bs @ as))"
  by (induction as arbitrary: bs) (simp_all add: fl_insert_packed)

lemma packed_Nil: "packed [] = fl_new MAX_SERVERS_PER_CONNECT"
  by (simp add: packed_def fl_new_def)

lemma address_list_new_eq: "address_list_new as = Some (packed (take MAX_SERVERS_PER_CONNECT as))"
  using insert_addresses_packed [of "[]" "take MAX_SERVERS_PER_CONNECT as"]
  by (simp add: address_list_new_def packed_Nil)

lemma fl_iter_packed: "map snd (fl_iter (packed as)) = as"
proof -
  have "map snd (occupied k (replicate n None)) = ([] :: socket_addr list)" for k n
    by (induction n arbitrary: k) (simp_all add: occupied_simps)
  then have "map snd (occupied k (map Some as @ replicate n None)) = as" for k n
    by (induction as arbitrary: k) (simp_all add: occupied_simps)
  then show ?thesis
    by (simp add: fl_iter_def iter_from_eq packed_def)
qed

lemma fl_len_packed [simp]: "fl_len (packed as) = length as"
  by (simp add: packed_def)

definition address_enc :: "socket_addr \<Rightarrow> bytes" where
  "address_enc addr =
     (case addr of
        V4 (a, b, c, d) port \<Rightarrow> [IPV4, a, b, c, d] @ be_bytes 2 (unat port)
      | V6 segments port _ _ \<Rightarrow> IPV6 # ipv6_octets segments @ be_bytes 2 (unat port))"

definition address_ok :: "socket_addr \<Rightarrow> bool" where
  "address_ok addr =
     (case addr of V4 _ _ \<Rightarrow> True
      | V6 segments _ flowinfo scope_id \<Rightarrow> length segments = 8 \<and> flowinfo = 0 \<and> scope_id = 0)"

definition address_list_enc :: "socket_addr list \<Rightarrow> bytes" where
  "address_list_enc as = be_bytes 4 (length as) @ concat (map address_enc as)"

lemma ipv6_segments_octets: "ipv6_segments (ipv6_octets segments) = segments"
proof (induction segments)
  case (Cons n segments)
  have "be_bytes 2 (unat n) = [word_of_nat (unat n div 256), word_of_nat (unat n)]"
    by (simp add: be_bytes_def numeral_2_eq_2)
  moreover have "word_of_nat (be_nat (be_bytes 2 (unat n))) = n"
    by (rule word_of_be_nat) simp
  ultimately show ?case
    using Cons by (simp add: ipv6_octets_def)
qed (simp add: ipv6_octets_def)

lemma length_ipv6_octets: "length (ipv6_octets segments) = 2 * length segments"
  by (simp add: ipv6_octets_def concat_be_u16_length)

lemma address_write_enc: "address_write_to addr buf = Inr (buf @ address_enc addr)"
  by (auto simp: address_write_to_def address_enc_def write_defs split: socket_addr.split prod.split)

lemma address_list_write_enc:
  assumes "length as \<le> MAX_SERVERS_PER_CONNECT"
  shows "address_list_write_to (packed as) buf = Inr (buf @ address_list_enc as)"
proof -
  have "try_for_each_to_bytes address_write_to as b = Inr (b @ concat (map address_enc as))" for b
    by (induction as arbitrary: b) (simp_all add: address_write_enc)
  then show ?thesis
    using assms
    by (simp add: address_list_write_to_def fl_iter_packed address_list_len_def address_list_enc_def
        write_defs MAX_SERVERS_PER_CONNECT_def unat_of_nat)
qed

lemma address_read_enc:
  assumes "address_ok addr" and rs: "remaining_slice r = address_enc addr @ rest"
  shows "address_read_from r = Inr (addr, skip (length (address_enc addr)) r)"
proof (cases addr)
  case (V4 ip port)
  obtain a b c d where ip: "ip = (a, b, c, d)" by (cases ip)
  have "read_u8 r = Inr (IPV4, skip 1 r)"
    by (rule read_u8_append) (use rs in \<open>simp add: V4 ip address_enc_def\<close>)
  moreover have "read_exact 4 (skip 1 r) = Inr ([a, b, c, d], skip 4 (skip 1 r))"
    by (rule read_exact_append [where rest = "be_bytes 2 (unat port) @ rest"])
      (use rs in \<open>simp_all add: V4 ip address_enc_def\<close>)
  moreover have "read_u16 (skip 5 r) = Inr (port, skip 2 (skip 5 r))"
    by (rule read_u16_append [where rest = rest]) (use rs in \<open>simp add: V4 ip address_enc_def\<close>)
  ultimately show ?thesis
    by (simp add: V4 ip address_read_from_def address_enc_def)
next
  case (V6 segments port flowinfo scope_id)
  then have len: "length (ipv6_octets segments) = 16" and zero: "flowinfo = 0" "scope_id = 0"
    using assms(1) by (simp_all add: address_ok_def length_ipv6_octets)
  have "read_u8 r = Inr (IPV6, skip 1 r)"
    by (rule read_u8_append) (use rs in \<open>simp add: V6 address_enc_def\<close>)
  moreover have "read_exact 16 (skip 1 r) = Inr (ipv6_octets segments, skip 16 (skip 1 r))"
    by (rule read_exact_append [where rest = "be_bytes 2 (unat port) @ rest"])
      (use rs len in \<open>simp_all add: V6 address_enc_def\<close>)
  moreover have "read_u16 (skip 17 r) = Inr (port, skip 2 (skip 17 r))"
    by (rule read_u16_append [where rest = rest]) (use rs len in \<open>simp add: V6 address_enc_def\<close>)
  ultimately show ?thesis
    using len zero by (simp add: V6 address_read_from_def address_enc_def IPV4_def IPV6_def ipv6_segments_octets)
qed

lemma read_addresses_enc:
  "list_all address_ok as \<Longrightarrow> length bs + length as \<le> MAX_SERVERS_PER_CONNECT \<Longrightarrow>
   remaining_slice r = concat (map address_enc as) @ rest \<Longrightarrow>
   read_addresses (length as) r (packed bs) =
     Inr (Some (packed (bs @ as)), skip (length (concat (map address_enc as))) r)"
proof (induction as arbitrary: bs r)
  case (Cons a as)
  have "address_read_from r = Inr (a, skip (length (address_enc a)) r)"
    using Cons.prems by (intro address_read_enc [where rest = "concat (map address_enc as) @ rest"]) simp_all
  then show ?case
    using Cons.prems Cons.IH [of "bs @ [a]" "skip (length (address_enc a)) r"]
    by (simp add: fl_insert_packed)
qed (simp add: skip_def)

lemma address_list_read_enc:
  assumes "list_all address_ok as" and "as \<noteq> []" and "length as \<le> MAX_SERVERS_PER_CONNECT"
    and rs: "remaining_slice r = address_list_enc as @ rest"
  shows "address_list_read_from r = Inr (Some (packed as), skip (length (address_list_enc as)) r)"
proof -
  let ?n = "word_of_nat (length as) :: u32"
  have n: "unat ?n = length as"
    using assms(3) by (simp add: unat_of_nat MAX_SERVERS_PER_CONNECT_def)
  have "read_u32 r = Inr (?n, skip 4 r)"
    by (rule read_u32_append [where rest = "concat (map address_enc as) @ rest"])
      (use rs n in \<open>simp add: address_list_enc_def\<close>)
  moreover have "read_addresses (length as) (skip 4 r) (packed []) =
      Inr (Some (packed ([] @ as)), skip (length (concat (map address_enc as))) (skip 4 r))"
    by (rule read_addresses_enc [where rest = rest]) (use assms in \<open>simp_all add: address_list_enc_def\<close>)
  moreover have "1 \<le> length as"
    using assms(2) by (cases as) auto
  ultimately show ?thesis
    using assms(3) n by (simp add: address_list_read_from_def packed_Nil address_list_enc_def)
qed

section \<open>Tokens on the wire\<close>

definition i32_ok :: "int \<Rightarrow> bool" where
  "i32_ok n \<longleftrightarrow> - (2 ^ 31) \<le> n \<and> n < 2 ^ 31"

lemma read_i32_append:
  assumes "i32_ok n" and "remaining_slice r = be_bytes 4 (unat (word_of_int n :: u32)) @ rest"
  shows "read_i32 r = Inr (n, skip 4 r)"
proof -
  have "sint (word_of_int n :: u32) = n"
    using assms(1) by (simp add: i32_ok_def sint_sbintrunc' signed_take_bit_int_eq_self)
  then show ?thesis
    using read_exact_append [OF assms(2), of 4] by (simp add: read_i32_def word_of_be_nat)
qed

text \<open>What a private token must satisfy to be written: the arrays have their sizes.\<close>

definition ctp_ok :: "socket_addr list \<Rightarrow> connect_token_private \<Rightarrow> bool" where
  "ctp_ok as t \<longleftrightarrow>
     ctp_server_addresses t = packed as \<and> list_all address_ok as \<and> as \<noteq> [] \<and>
     length as \<le> MAX_SERVERS_PER_CONNECT \<and> i32_ok (ctp_timeout_seconds t) \<and>
     length (ctp_client_to_server_key t) = PRIVATE_KEY_BYTES \<and>
     length (ctp_server_to_client_key t) = PRIVATE_KEY_BYTES \<and> length (ctp_user_data t) = USER_DATA_BYTES"

definition ctp_enc :: "socket_addr list \<Rightarrow> connect_token_private \<Rightarrow> bytes" where
  "ctp_enc as t =
     be_bytes 8 (unat (ctp_client_id t)) @ be_bytes 4 (unat (word_of_int (ctp_timeout_seconds t) :: u32)) @
     address_list_enc as @ ctp_client_to_server_key t @ ctp_server_to_client_key t @ ctp_user_data t"

lemma ctp_write_enc: "ctp_ok as t \<Longrightarrow> ctp_write_to t buf = Inr (buf @ ctp_enc as t)"
  by (simp add: ctp_write_to_def ctp_ok_def ctp_enc_def write_i32_def write_defs address_list_write_enc)

lemma address_enc_length: "address_ok a \<Longrightarrow> length (address_enc a) \<le> 19"
  by (auto simp: address_enc_def address_ok_def length_ipv6_octets split: socket_addr.splits)

lemma address_list_enc_length:
  assumes "list_all address_ok as" and "length as \<le> MAX_SERVERS_PER_CONNECT"
  shows "length (address_list_enc as) \<le> 612"
proof -
  have "length (concat (map address_enc as)) \<le> 19 * length as"
    using assms(1)
  proof (induction as)
    case (Cons a as)
    then show ?case using address_enc_length [of a] by simp
  qed simp
  then show ?thesis
    using assms(2) by (simp add: address_list_enc_def MAX_SERVERS_PER_CONNECT_def)
qed

lemma ctp_enc_length: "ctp_ok as t \<Longrightarrow> length (ctp_enc as t) \<le> CTP_SIZE - MAC_BYTES"
  using address_list_enc_length [of as] by (simp add: ctp_ok_def ctp_enc_def CTP_SIZE_def netcode_sizes)

lemma ctp_read_enc:
  assumes ok: "ctp_ok as t" and rs: "remaining_slice r = ctp_enc as t @ rest"
  shows "ctp_read_from r = Inr (t, skip (length (ctp_enc as t)) r)"
proof -
  let ?l = "length (address_list_enc as)"
  note flat = rs [unfolded ctp_enc_def append_assoc]
  have len: "length (ctp_client_to_server_key t) = 32" "length (ctp_server_to_client_key t) = 32"
    "length (ctp_user_data t) = 256"
    using ok by (simp_all add: ctp_ok_def netcode_sizes)
  have "read_u64 r = Inr (ctp_client_id t, skip 8 r)"
    by (rule read_u64_append [OF flat])
  moreover have "read_i32 (skip 8 r) = Inr (ctp_timeout_seconds t, skip 4 (skip 8 r))"
    by (rule read_i32_append) (use ok flat in \<open>simp_all add: ctp_ok_def\<close>)
  moreover have "address_list_read_from (skip 12 r) = Inr (Some (packed as), skip ?l (skip 12 r))"
    by (rule address_list_read_enc) (use ok flat in \<open>simp_all add: ctp_ok_def\<close>)
  moreover have "read_exact 32 (skip (12 + ?l) r) =
      Inr (ctp_client_to_server_key t, skip 32 (skip (12 + ?l) r))"
    by (rule read_exact_append) (use flat len in simp_all)
  moreover have "read_exact 32 (skip (44 + ?l) r) =
      Inr (ctp_server_to_client_key t, skip 32 (skip (44 + ?l) r))"
    by (rule read_exact_append) (use flat len in simp_all)
  moreover have "read_exact 256 (skip (76 + ?l) r) = Inr (ctp_user_data t, skip 256 (skip (76 + ?l) r))"
    by (rule read_exact_append) (use flat len in simp_all)
  ultimately show ?thesis
    using ok len by (simp add: ctp_read_from_def address_list_io_def ctp_enc_def netcode_sizes ctp_ok_def add.commute)
qed

definition cht_ok :: "challenge_token \<Rightarrow> bool" where
  "cht_ok t \<longleftrightarrow> length (cht_user_data t) = USER_DATA_BYTES"

lemma cht_write_enc: "cht_write_to t [] = Inr (be_bytes 8 (unat (cht_client_id t)) @ cht_user_data t)"
  by (simp add: cht_write_to_def write_defs)

lemma cht_read_enc:
  assumes "cht_ok t" and rs: "remaining_slice r = be_bytes 8 (unat (cht_client_id t)) @ cht_user_data t @ rest"
  shows "cht_read_from r = Inr (t, skip 264 r)"
proof -
  have "read_u64 r = Inr (cht_client_id t, skip 8 r)"
    by (rule read_u64_append [OF rs])
  moreover have "read_exact 256 (skip 8 r) = Inr (cht_user_data t, skip 256 (skip 8 r))"
    by (rule read_exact_append) (use rs assms(1) in \<open>simp_all add: cht_ok_def netcode_sizes\<close>)
  ultimately show ?thesis
    by (simp add: cht_read_from_def netcode_sizes)
qed

section \<open>Encrypted tokens\<close>

lemma into_slice_ok:
  "w = Inr bs \<Longrightarrow> length bs \<le> length dst \<Longrightarrow> into_slice dst w = Inr (bs @ drop (length bs) dst)"
  by (simp add: into_slice_def)

lemma split_padding:
  "n + m \<le> k \<Longrightarrow> drop n (replicate k x) = replicate (k - m - n) x @ replicate m x"
  by (simp add: replicate_add [symmetric])

text \<open>A private token survives its encryption; the tag is kept at the end of the buffer.\<close>

lemma ctp_encrypt_decrypt:
  assumes cipher: "aead_cipher (xchacha C) 24" and ok: "ctp_ok as t"
    and "length private_key = PRIVATE_KEY_BYTES" and "length nonce = 24"
  shows "\<exists>enc mac. ctp_encrypt C t protocol_id expire nonce private_key = (Inr enc :: 'e netcode_error + bytes) \<and>
    length enc = CTP_SIZE \<and> length mac = MAC_BYTES \<and>
    ctp_decrypt C enc protocol_id expire nonce private_key =
      (Inr (t, ctp_enc as t @ replicate (CTP_SIZE - MAC_BYTES - length (ctp_enc as t)) 0 @ mac) ::
        'f netcode_error + connect_token_private \<times> bytes)"
proof -
  let ?e = "ctp_enc as t" and ?aad = "Some (ctp_aead protocol_id expire)"
  let ?text = "?e @ replicate (CTP_SIZE - MAC_BYTES - length ?e) 0"
  have len: "length ?e \<le> CTP_SIZE - MAC_BYTES"
    by (rule ctp_enc_length [OF ok])
  have buf: "into_slice (replicate CTP_SIZE 0) (ctp_write_to t []) = Inr (?text @ replicate MAC_BYTES 0)"
  proof -
    have "drop (length ?e) (replicate CTP_SIZE (0::u8)) =
        replicate (CTP_SIZE - MAC_BYTES - length ?e) 0 @ replicate MAC_BYTES 0"
      by (rule split_padding) (use len in \<open>simp add: CTP_SIZE_def netcode_sizes\<close>)
    then show ?thesis
      using into_slice_ok [OF ctp_write_enc [OF ok, of "[]"], of "replicate CTP_SIZE 0"] len by simp
  qed
  have small: "length ?text \<le> 2 ^ 16" "length (ctp_aead protocol_id expire) \<le> 2 ^ 16"
    using len by (simp_all add: CTP_SIZE_def ctp_aead_def)
  obtain c mac where enc: "aead_encrypt (xchacha C) (?text @ replicate MAC_BYTES 0) ?aad nonce private_key = Inr (c @ mac)"
    and lens: "length c = length ?text" "length mac = MAC_BYTES"
    and dec: "aead_decrypt (xchacha C) (c @ mac) ?aad nonce private_key = Inr (?text @ mac)"
    by (rule aead_cipher.aead_encrypt_ok [OF cipher assms(3,4) small(1), of ?aad "replicate MAC_BYTES 0"])
      (use small(2) in auto)
  have "ctp_read_from (reader_from (?text @ mac)) = Inr (t, skip (length ?e) (reader_from (?text @ mac)))"
    by (rule ctp_read_enc [OF ok]) (simp add: reader_from_def remaining_slice_def)
  then have "ctp_decrypt C (c @ mac) protocol_id expire nonce private_key =
      (Inr (t, ?text @ mac) :: 'f netcode_error + connect_token_private \<times> bytes)"
    using dec by (simp add: ctp_decrypt_def xchacha_decrypt_def)
  moreover have "ctp_encrypt C t protocol_id expire nonce private_key = (Inr (c @ mac) :: 'e netcode_error + bytes)"
    using buf enc by (simp add: ctp_encrypt_def xchacha_encrypt_def)
  moreover have "length (c @ mac) = CTP_SIZE"
    using lens len by (simp add: CTP_SIZE_def netcode_sizes)
  ultimately show ?thesis
    using lens(2) by (intro exI [of _ "c @ mac"] exI [of _ mac]) simp
qed

lemma length_final_nonce [simp]: "length (final_nonce n) = 12"
  by (simp add: final_nonce_def)

lemma cht_encrypt_decrypt:
  assumes cipher: "aead_cipher (chacha C) 12" and ok: "cht_ok t" and "length k = PRIVATE_KEY_BYTES"
  shows "\<exists>enc. cht_encrypt C t sequence k = (Inr enc :: 'e netcode_error + bytes) \<and> length enc = CHALLENGE_SIZE \<and>
    cht_decrypt C enc sequence k = (Inr t :: 'f netcode_error + challenge_token)"
proof -
  let ?e = "be_bytes 8 (unat (cht_client_id t)) @ cht_user_data t"
  let ?text = "?e @ replicate 20 0"
  have len: "length ?e = 264"
    using ok by (simp add: cht_ok_def netcode_sizes)
  have buf: "into_slice (replicate CHALLENGE_SIZE 0) (cht_write_to t []) = Inr (?text @ replicate MAC_BYTES 0)"
    using into_slice_ok [OF cht_write_enc [of t], of "replicate CHALLENGE_SIZE 0"] len
      split_padding [of 264 16 300 "0::u8"]
    by (simp add: CHALLENGE_SIZE_def netcode_sizes)
  have small: "length ?text \<le> 2 ^ 16"
    using len by simp
  obtain c mac where enc: "aead_encrypt (chacha C) (?text @ replicate MAC_BYTES 0) None (final_nonce sequence) k = Inr (c @ mac)"
    and lens: "length c = length ?text" "length mac = MAC_BYTES"
    and dec: "aead_decrypt (chacha C) (c @ mac) None (final_nonce sequence) k = Inr (?text @ mac)"
    by (rule aead_cipher.aead_encrypt_ok [OF cipher assms(3) length_final_nonce small, of None "replicate MAC_BYTES 0"]) auto
  have "cht_read_from (reader_from (?text @ mac)) = Inr (t, skip 264 (reader_from (?text @ mac)))"
    by (rule cht_read_enc [OF ok]) (simp add: reader_from_def remaining_slice_def)
  then have "cht_decrypt C (c @ mac) sequence k = (Inr t :: 'f netcode_error + challenge_token)"
    using dec by (simp add: cht_decrypt_def chacha_decrypt_def)
  moreover have "cht_encrypt C t sequence k = (Inr (c @ mac) :: 'e netcode_error + bytes)"
    using buf enc by (simp add: cht_encrypt_def chacha_encrypt_def)
  ultimately show ?thesis
    using lens len by (intro exI [of _ "c @ mac"]) (simp add: CHALLENGE_SIZE_def netcode_sizes)
qed

section \<open>A connect token, from the backend to the client and the server\<close>

definition ct_ok :: "socket_addr list \<Rightarrow> connect_token \<Rightarrow> bool" where
  "ct_ok as t \<longleftrightarrow>
     ct_version_info t = NETCODE_VERSION \<and> ct_create_timestamp t \<le> ct_expire_timestamp t \<and>
     length (ct_nonce t) = 24 \<and> length (ct_private_data t) = CTP_SIZE \<and> i32_ok (ct_timeout_seconds t) \<and>
     ct_server_addresses t = packed as \<and> list_all address_ok as \<and> as \<noteq> [] \<and>
     length as \<le> MAX_SERVERS_PER_CONNECT \<and> length (ct_client_to_server_key t) = PRIVATE_KEY_BYTES \<and>
     length (ct_server_to_client_key t) = PRIVATE_KEY_BYTES"

definition ct_enc :: "socket_addr list \<Rightarrow> connect_token \<Rightarrow> bytes" where
  "ct_enc as t =
     ct_version_info t @ be_bytes 8 (unat (ct_protocol_id t)) @ be_bytes 8 (unat (ct_create_timestamp t)) @
     be_bytes 8 (unat (ct_expire_timestamp t)) @ ct_nonce t @ ct_private_data t @
     be_bytes 4 (unat (word_of_int (ct_timeout_seconds t) :: u32)) @ address_list_enc as @
     ct_client_to_server_key t @ ct_server_to_client_key t"

lemma ct_write_enc: "ct_ok as t \<Longrightarrow> ct_write_to t buf = Inr (buf @ ct_enc as t)"
  by (simp add: ct_write_to_def ct_ok_def ct_enc_def write_i32_def write_defs address_list_write_enc)

lemma ct_read_enc:
  assumes ok: "ct_ok as t" and rs: "remaining_slice r = ct_enc as t @ rest"
  shows "ct_read_from r = Inr (Some t, skip (length (ct_enc as t)) r)"
proof -
  let ?l = "length (address_list_enc as)"
  note flat = rs [unfolded ct_enc_def append_assoc]
  have len: "length (ct_nonce t) = 24" "length (ct_private_data t) = 1024"
    "length (ct_client_to_server_key t) = 32" "length (ct_server_to_client_key t) = 32"
    and version: "ct_version_info t = NETCODE_VERSION"
    and addrs: "ct_server_addresses t = packed as" "list_all address_ok as" "as \<noteq> []"
      "length as \<le> MAX_SERVERS_PER_CONNECT"
    and times: "ct_create_timestamp t \<le> ct_expire_timestamp t" "i32_ok (ct_timeout_seconds t)"
    using ok by (simp_all add: ct_ok_def netcode_sizes CTP_SIZE_def)
  have "read_exact 13 r = Inr (NETCODE_VERSION, skip 13 r)"
    by (rule read_exact_append) (use flat version in simp_all)
  moreover have "read_u64 (skip 13 r) = Inr (ct_protocol_id t, skip 8 (skip 13 r))"
    by (rule read_u64_append) (use flat version in simp)
  moreover have "read_u64 (skip 21 r) = Inr (ct_create_timestamp t, skip 8 (skip 21 r))"
    by (rule read_u64_append) (use flat version in simp)
  moreover have "read_u64 (skip 29 r) = Inr (ct_expire_timestamp t, skip 8 (skip 29 r))"
    by (rule read_u64_append) (use flat version in simp)
  moreover have "read_exact 24 (skip 37 r) = Inr (ct_nonce t, skip 24 (skip 37 r))"
    by (rule read_exact_append) (use flat version len in simp_all)
  moreover have "read_exact 1024 (skip 61 r) = Inr (ct_private_data t, skip 1024 (skip 61 r))"
    by (rule read_exact_append) (use flat version len in simp_all)
  moreover have "read_i32 (skip 1085 r) = Inr (ct_timeout_seconds t, skip 4 (skip 1085 r))"
    by (rule read_i32_append) (use times flat version len in simp_all)
  moreover have "address_list_read_from (skip 1089 r) = Inr (Some (packed as), skip ?l (skip 1089 r))"
    by (rule address_list_read_enc) (use addrs flat version len in simp_all)
  moreover have "read_exact 32 (skip (1089 + ?l) r) =
      Inr (ct_client_to_server_key t, skip 32 (skip (1089 + ?l) r))"
    by (rule read_exact_append) (use flat version len in simp_all)
  moreover have "read_exact 32 (skip (1121 + ?l) r) =
      Inr (ct_server_to_client_key t, skip 32 (skip (1121 + ?l) r))"
    by (rule read_exact_append) (use flat version len in simp_all)
  ultimately show ?thesis
    using len version addrs times
    by (simp add: ct_read_from_def ct_enc_def netcode_sizes CTP_SIZE_def not_less add.commute)
qed

lemma ct_bytes_roundtrip:
  assumes "ct_ok as t"
  shows "\<exists>wire. try_into_bytes t = Inr wire \<and> length wire = CONNECT_TOKEN_BYTES \<and> try_from_bytes wire = Inr (Some t)"
proof -
  let ?wire = "ct_enc as t @ drop (length (ct_enc as t)) (replicate CONNECT_TOKEN_BYTES 0)"
  have len: "length (ct_enc as t) \<le> CONNECT_TOKEN_BYTES"
    using assms address_list_enc_length [of as]
    by (simp add: ct_enc_def ct_ok_def netcode_sizes CTP_SIZE_def)
  have "try_into_bytes t = Inr ?wire"
    using into_slice_ok [OF ct_write_enc [OF assms, of "[]"], of "replicate CONNECT_TOKEN_BYTES 0"] len
    by (simp add: try_into_bytes_def)
  moreover have "ct_read_from (reader_from ?wire) = Inr (Some t, skip (length (ct_enc as t)) (reader_from ?wire))"
    by (rule ct_read_enc [OF assms]) (simp add: reader_from_def remaining_slice_def)
  ultimately show ?thesis
    using len by (auto simp: try_from_bytes_def)
qed

text \<open>What a builder must satisfy: between 1 and 32 addresses are kept, and the arrays have their sizes.\<close>

definition builder_ok :: "connect_token_builder \<Rightarrow> bool" where
  "builder_ok b \<longleftrightarrow>
     ctb_public_server_addresses b \<noteq> [] \<and>
     list_all address_ok (take MAX_SERVERS_PER_CONNECT (ctb_public_server_addresses b)) \<and>
     (\<forall>l. ctb_internal_server_addresses b = Some l \<longrightarrow>
        (\<exists>as. l = packed as \<and> as \<noteq> [] \<and> length as \<le> MAX_SERVERS_PER_CONNECT \<and> list_all address_ok as)) \<and>
     length (ctb_private_key b) = PRIVATE_KEY_BYTES \<and> i32_ok (ctb_timeout_seconds b) \<and>
     i32_ok (ctb_expire_seconds b) \<and> length (ctb_user_data b) = USER_DATA_BYTES"

lemma expiry_not_before:
  fixes now :: u64
  assumes "i32_ok e" and "unat now + 2 ^ 31 < 2 ^ 64"
  shows "now \<le> (if e < 0 then - 1 else now + word_of_int e)"
proof (cases "e < 0")
  case True
  then show ?thesis by simp
next
  case False
  then have "unat (word_of_int e :: u64) < 2 ^ 31"
    using assms(1) by (simp add: i32_ok_def unsigned_of_int take_bit_int_eq_self nat_less_iff)
  then have "unat (now + word_of_int e) = unat now + unat (word_of_int e :: u64)"
    using assms(2) by (simp add: unat_word_ariths(1))
  with False show ?thesis by (simp add: word_le_nat_alt)
qed

definition token_for :: "connect_token_builder \<Rightarrow> u64 \<Rightarrow> key \<Rightarrow> key \<Rightarrow> bytes \<Rightarrow> bytes \<Rightarrow> connect_token" where
  "token_for b now c2s s2c nonce enc =
     \<lparr>ct_version_info = NETCODE_VERSION, ct_protocol_id = ctb_protocol_id b, ct_create_timestamp = now,
      ct_expire_timestamp = (if ctb_expire_seconds b < 0 then - 1 else now + word_of_int (ctb_expire_seconds b)),
      ct_nonce = nonce, ct_private_data = enc, ct_timeout_seconds = ctb_timeout_seconds b,
      ct_server_addresses = packed (take MAX_SERVERS_PER_CONNECT (ctb_public_server_addresses b)),
      ct_client_to_server_key = c2s, ct_server_to_client_key = s2c\<rparr>"

definition private_for :: "connect_token_builder \<Rightarrow> key \<Rightarrow> key \<Rightarrow> connect_token_private" where
  "private_for b c2s s2c =
     \<lparr>ctp_client_id = ctb_client_id b, ctp_timeout_seconds = ctb_timeout_seconds b,
      ctp_server_addresses = (case ctb_internal_server_addresses b of Some l \<Rightarrow> l
        | None \<Rightarrow> packed (take MAX_SERVERS_PER_CONNECT (ctb_public_server_addresses b))),
      ctp_client_to_server_key = c2s, ctp_server_to_client_key = s2c, ctp_user_data = ctb_user_data b\<rparr>"

lemma token_generate_ok:
  assumes "aead_cipher (xchacha C) 24" and "builder_ok b" and "length nonce = 24"
    and "length c2s = PRIVATE_KEY_BYTES" and "length s2c = PRIVATE_KEY_BYTES"
    and "unat now + 2 ^ 31 < 2 ^ 64"
  shows "\<exists>t enc as ias buf. t = token_for b now c2s s2c nonce enc \<and>
    token_generate C now c2s s2c nonce b = (Inr t :: 'e netcode_error + connect_token) \<and> ct_ok as t \<and>
    ctp_ok ias (private_for b c2s s2c) \<and> length buf = CTP_SIZE \<and>
    ctp_decrypt C (ct_private_data t) (ct_protocol_id t) (ct_expire_timestamp t) (ct_nonce t) (ctb_private_key b) =
      (Inr (private_for b c2s s2c, buf) :: 'f netcode_error + connect_token_private \<times> bytes)"
proof -
  let ?as = "take MAX_SERVERS_PER_CONNECT (ctb_public_server_addresses b)" and ?priv = "private_for b c2s s2c"
  define expire :: u64
    where "expire = (if ctb_expire_seconds b < 0 then - 1 else now + word_of_int (ctb_expire_seconds b))"
  have public: "?as \<noteq> []" "length ?as \<le> MAX_SERVERS_PER_CONNECT" "list_all address_ok ?as"
    using assms(2) by (auto simp: builder_ok_def MAX_SERVERS_PER_CONNECT_def)
  obtain ias where ias: "(case ctb_internal_server_addresses b of Some l \<Rightarrow> l | None \<Rightarrow> packed ?as) = packed ias"
    "ias \<noteq> []" "length ias \<le> MAX_SERVERS_PER_CONNECT" "list_all address_ok ias"
    using assms(2) public by (cases "ctb_internal_server_addresses b") (auto simp: builder_ok_def)
  have priv: "ctp_ok ias ?priv"
    using assms(2,4,5) ias by (simp add: ctp_ok_def private_for_def builder_ok_def)
  have len: "length (ctp_enc ias ?priv) \<le> CTP_SIZE - MAC_BYTES"
    by (rule ctp_enc_length [OF priv])
  from ctp_encrypt_decrypt [where ?'e = 'e and ?'f = 'f, OF assms(1) priv, of "ctb_private_key b" nonce "ctb_protocol_id b" expire]
  obtain enc mac where enc: "ctp_encrypt C ?priv (ctb_protocol_id b) expire nonce (ctb_private_key b) = (Inr enc :: 'e netcode_error + bytes)"
    "length enc = CTP_SIZE" "length mac = MAC_BYTES"
    "ctp_decrypt C enc (ctb_protocol_id b) expire nonce (ctb_private_key b) = (Inr (?priv,
       ctp_enc ias ?priv @ replicate (CTP_SIZE - MAC_BYTES - length (ctp_enc ias ?priv)) 0 @ mac) ::
       'f netcode_error + connect_token_private \<times> bytes)"
    using assms(2,3) by (auto simp: builder_ok_def)
  have gen: "token_generate C now c2s s2c nonce b = (Inr (token_for b now c2s s2c nonce enc) :: 'e netcode_error + connect_token)"
    using enc(1) unfolding token_generate_def Let_def expire_def [symmetric] address_list_new_eq option.case
      private_for_def
    by (simp add: token_for_def expire_def)
  have "now \<le> expire"
    using assms(2,6) unfolding expire_def by (intro expiry_not_before) (simp_all add: builder_ok_def)
  then have "ct_ok ?as (token_for b now c2s s2c nonce enc)"
    using assms(2-5) public enc(2) by (simp add: ct_ok_def token_for_def builder_ok_def expire_def)
  then show ?thesis
    using gen priv enc(2-4) len
    by (intro exI [of _ "token_for b now c2s s2c nonce enc"] exI [of _ enc] exI [of _ ?as] exI [of _ ias]
        exI [of _ "ctp_enc ias ?priv @ replicate (CTP_SIZE - MAC_BYTES - length (ctp_enc ias ?priv)) 0 @ mac"])
      (simp add: token_for_def expire_def netcode_sizes CTP_SIZE_def)
qed

text \<open>
  C19: a connect token works for both of its readers. Generated by the backend, it serialises to
  exactly 2048 bytes from which the client reads the same token; and with its private key the
  server decrypts the private part, which names the client, the timeout, the addresses it may
  connect to, the user data and the same two session keys the client has.
\<close>

theorem connect_token_end_to_end:
  assumes "aead_cipher (xchacha C) 24" and "builder_ok b" and "length nonce = 24"
    and "length c2s = PRIVATE_KEY_BYTES" and "length s2c = PRIVATE_KEY_BYTES"
    and "unat now + 2 ^ 31 < 2 ^ 64"
  shows "\<exists>t wire priv buf. token_generate C now c2s s2c nonce b = (Inr t :: 'e netcode_error + connect_token) \<and>
    try_into_bytes t = Inr wire \<and> length wire = CONNECT_TOKEN_BYTES \<and> try_from_bytes wire = Inr (Some t) \<and>
    ct_client_to_server_key t = c2s \<and> ct_server_to_client_key t = s2c \<and>
    ctp_decrypt C (ct_private_data t) (ct_protocol_id t) (ct_expire_timestamp t) (ct_nonce t)
      (ctb_private_key b) = (Inr (priv, buf) :: 'e netcode_error + connect_token_private \<times> bytes) \<and>
    ctp_client_id priv = ctb_client_id b \<and> ctp_timeout_seconds priv = ctb_timeout_seconds b \<and>
    ctp_server_addresses priv = (case ctb_internal_server_addresses b of Some l \<Rightarrow> l | None \<Rightarrow> ct_server_addresses t) \<and>
    ctp_client_to_server_key priv = c2s \<and> ctp_server_to_client_key priv = s2c \<and>
    ctp_user_data priv = ctb_user_data b"
proof -
  obtain t enc as ias buf where t: "t = token_for b now c2s s2c nonce enc"
    "token_generate C now c2s s2c nonce b = (Inr t :: 'e netcode_error + connect_token)" "ct_ok as t"
    "ctp_decrypt C (ct_private_data t) (ct_protocol_id t) (ct_expire_timestamp t) (ct_nonce t) (ctb_private_key b) =
      (Inr (private_for b c2s s2c, buf) :: 'e netcode_error + connect_token_private \<times> bytes)"
    using token_generate_ok [where ?'e = 'e and ?'f = 'e, OF assms] by blast
  from ct_bytes_roundtrip [OF t(3)] obtain wire where "try_into_bytes t = Inr wire"
    "length wire = CONNECT_TOKEN_BYTES" "try_from_bytes wire = Inr (Some t)" by blast
  with t show ?thesis
    by (intro exI [of _ t] exI [of _ wire] exI [of _ "private_for b c2s s2c"] exI [of _ buf])
      (simp add: token_for_def private_for_def split: option.split)
qed

theorem connect_token_end_to_end_witness:
  "\<exists>t wire. token_generate toy_crypto 1000 (replicate 32 1) (replicate 32 2) (replicate 24 3)
      (connect_token_build [V4 (127, 0, 0, 1) 5000] 7 42 (replicate 32 9)) = (Inr t :: unit netcode_error + connect_token) \<and>
    try_into_bytes t = Inr wire \<and> try_from_bytes wire = Inr (Some t)"
proof -
  let ?b = "connect_token_build [V4 (127, 0, 0, 1) 5000] 7 42 (replicate 32 9)"
  have "builder_ok ?b"
    by (simp add: builder_ok_def connect_token_build_def address_ok_def netcode_sizes i32_ok_def
        TOKEN_EXPIRE_SEC_def CONNECTION_TIMEOUT_SEC_def MAX_SERVERS_PER_CONNECT_def)
  moreover have "aead_cipher (xchacha toy_crypto) 24"
    by (simp add: toy_crypto_def toy_cipher.aead_cipher_axioms)
  ultimately show ?thesis
    using connect_token_end_to_end [of toy_crypto ?b "replicate 24 3" "replicate 32 1" "replicate 32 2" 1000]
    by (auto simp: netcode_sizes)
qed

end
