(* ===== verification/Replay_Protection.thy ===== *)
theory Replay_Protection
  imports Prelude
begin

text \<open>
  The replay window of netcode connections (\<open>crates/connection/netcode/src/replay.rs\<close>): 256 slots
  indexed by the low bits of the packet sequence number.
\<close>

record replay_protection =
  most_recent_sequence :: u64
  received_packet :: "u64 list"

definition REPLAY_PROTECTION_BUFFER_SIZE :: nat where
  "REPLAY_PROTECTION_BUFFER_SIZE = 256"

definition UNRECEIVED :: u64 where
  "UNRECEIVED = - 1"

definition replay_protection_new :: replay_protection where
  "replay_protection_new =
     \<lparr>most_recent_sequence = 0,
      received_packet = replicate REPLAY_PROTECTION_BUFFER_SIZE UNRECEIVED\<rparr>"

definition advance_sequence :: "u64 \<Rightarrow> replay_protection \<Rightarrow> replay_protection" where
  "advance_sequence sequence rp =
     (let rp = (if sequence > most_recent_sequence rp then rp\<lparr>most_recent_sequence := sequence\<rparr> else rp);
          index = unat sequence mod length (received_packet rp)
      in rp\<lparr>received_packet := (received_packet rp)[index := sequence]\<rparr>)"

text \<open>The addition wraps as in a release build.\<close>

definition is_already_received :: "u64 \<Rightarrow> replay_protection \<Rightarrow> bool" where
  "is_already_received sequence rp =
     (if sequence + word_of_nat (length (received_packet rp)) \<le> most_recent_sequence rp then True
      else
        (let index = unat sequence mod length (received_packet rp) in
         if received_packet rp ! index = UNRECEIVED then False
         else received_packet rp ! index \<ge> sequence))"

section \<open>Correctness\<close>

text \<open>
  How the packet reader uses the window: a sequence number is checked first, and recorded when the
  packet is accepted. The list tells which packets were accepted.
\<close>

primrec replay_run :: "u64 list \<Rightarrow> replay_protection \<Rightarrow> bool list" where
  "replay_run [] rp = []"
| "replay_run (s # ss) rp =
     (if is_already_received s rp then False # replay_run ss rp
      else True # replay_run ss (advance_sequence s rp))"

text \<open>
  The specification: a packet is accepted when it was never accepted before and no accepted packet
  is 256 or more ahead of it.
\<close>

primrec replay_spec :: "u64 list \<Rightarrow> u64 set \<Rightarrow> bool list" where
  "replay_spec [] R = []"
| "replay_spec (s # ss) R =
     (if s \<in> R \<or> (\<exists>t \<in> R. unat s + 256 \<le> unat t) then False # replay_spec ss R
      else True # replay_spec ss (insert s R))"

text \<open>Slot \<open>i\<close> holds the largest accepted number that ends in \<open>i\<close>.\<close>

definition slot_ok :: "u64 set \<Rightarrow> nat \<Rightarrow> u64 \<Rightarrow> bool" where
  "slot_ok R i v \<longleftrightarrow>
     (if \<exists>s \<in> R. unat s mod 256 = i
      then v \<in> R \<and> unat v mod 256 = i \<and> (\<forall>s \<in> R. unat s mod 256 = i \<longrightarrow> s \<le> v)
      else v = UNRECEIVED)"

definition replay_inv :: "u64 set \<Rightarrow> replay_protection \<Rightarrow> bool" where
  "replay_inv R rp \<longleftrightarrow>
     length (received_packet rp) = 256 \<and> (\<forall>s \<in> R. unat s + 256 < 2 ^ 64) \<and>
     (\<forall>s \<in> R. s \<le> most_recent_sequence rp) \<and>
     (most_recent_sequence rp \<in> R \<or> most_recent_sequence rp = 0) \<and>
     (\<forall>i < 256. slot_ok R i (received_packet rp ! i))"

lemma replay_inv_new: "replay_inv {} replay_protection_new"
  by (simp add: replay_inv_def replay_protection_new_def REPLAY_PROTECTION_BUFFER_SIZE_def slot_ok_def)

lemma unat_add_256: "unat s + 256 < 2 ^ 64 \<Longrightarrow> unat (s + 256 :: u64) = unat s + 256"
  by (simp add: unat_word_ariths(1))

lemma unat_UNRECEIVED: "unat UNRECEIVED = 2 ^ 64 - 1"
  by (simp add: UNRECEIVED_def unsigned_minus_1_eq_mask mask_eq_exp_minus_1)

lemma same_slot:
  fixes a b n :: nat
  assumes "a mod n = b mod n" and "b \<le> a" and "a < b + n"
  shows "a = b"
proof -
  have "n dvd a - b"
    using mod_eq_dvd_iff_nat [OF assms(2), of n] assms(1) by blast
  then show ?thesis
    using assms(2,3) nat_dvd_not_less [of "a - b" n] by linarith
qed

lemma is_already_received_iff:
  assumes inv: "replay_inv R rp" and s: "unat s + 256 < 2 ^ 64"
  shows "is_already_received s rp \<longleftrightarrow> s \<in> R \<or> (\<exists>t \<in> R. unat s + 256 \<le> unat t)"
proof -
  let ?i = "unat s mod 256" and ?mr = "most_recent_sequence rp"
  let ?v = "received_packet rp ! ?i"
  have len: "length (received_packet rp) = 256" and slot: "slot_ok R ?i ?v"
    and mr: "\<forall>t \<in> R. t \<le> ?mr" "?mr \<in> R \<or> ?mr = 0" and bound: "\<forall>t \<in> R. unat t + 256 < 2 ^ 64"
    using inv by (auto simp: replay_inv_def)
  from bound have small: "\<forall>t \<in> R. t \<noteq> UNRECEIVED"
    using unat_UNRECEIVED by fastforce
  have ahead: "s + 256 \<le> ?mr \<longleftrightarrow> (\<exists>t \<in> R. unat s + 256 \<le> unat t)"
  proof
    assume "s + 256 \<le> ?mr"
    then have "unat s + 256 \<le> unat ?mr"
      by (simp add: word_le_nat_alt unat_add_256 [OF s])
    moreover from this have "?mr \<in> R"
      using mr(2) by auto
    ultimately show "\<exists>t \<in> R. unat s + 256 \<le> unat t" ..
  next
    assume "\<exists>t \<in> R. unat s + 256 \<le> unat t"
    then obtain t where "t \<in> R" and "unat s + 256 \<le> unat t" by blast
    moreover have "unat t \<le> unat ?mr"
      using mr(1) \<open>t \<in> R\<close> by (simp add: word_le_nat_alt)
    ultimately show "s + 256 \<le> ?mr"
      by (simp add: word_le_nat_alt unat_add_256 [OF s])
  qed
  have slot_iff: "?v \<noteq> UNRECEIVED \<and> s \<le> ?v \<longleftrightarrow> s \<in> R" if no: "\<not> (\<exists>t \<in> R. unat s + 256 \<le> unat t)"
  proof
    assume v: "?v \<noteq> UNRECEIVED \<and> s \<le> ?v"
    then have "?v \<in> R" and "unat ?v mod 256 = ?i"
      using slot by (auto simp: slot_ok_def split: if_splits)
    moreover from this no have "unat ?v < unat s + 256" by auto
    moreover have "unat s \<le> unat ?v"
      using v by (simp add: word_le_nat_alt)
    ultimately have "unat ?v = unat s"
      using same_slot by blast
    then have "?v = s" by (simp only: unsigned_word_eqI)
    with \<open>?v \<in> R\<close> show "s \<in> R" by simp
  next
    assume "s \<in> R"
    with slot small show "?v \<noteq> UNRECEIVED \<and> s \<le> ?v"
      by (auto simp: slot_ok_def split: if_splits)
  qed
  show ?thesis
    using ahead slot_iff by (auto simp: is_already_received_def len Let_def)
qed

lemma replay_inv_advance:
  assumes inv: "replay_inv R rp" and s: "unat s + 256 < 2 ^ 64"
    and fresh: "\<not> is_already_received s rp"
  shows "replay_inv (insert s R) (advance_sequence s rp)"
proof -
  let ?i = "unat s mod 256"
  have len: "length (received_packet rp) = 256"
    using inv by (simp add: replay_inv_def)
  have no: "s \<notin> R" "\<forall>t \<in> R. unat t < unat s + 256"
    using fresh by (auto simp: is_already_received_iff [OF inv s])
  have max: "t \<le> s" if "t \<in> R" and "unat t mod 256 = ?i" for t
  proof (rule ccontr)
    assume "\<not> t \<le> s"
    then have "unat s < unat t" by (simp add: word_le_nat_alt)
    moreover from this have "unat t = unat s"
      using same_slot [OF that(2) less_imp_le] no(2) that(1) by blast
    ultimately show False by simp
  qed
  have slots: "slot_ok (insert s R) i ((received_packet rp)[?i := s] ! i)" if "i < 256" for i
  proof (cases "i = ?i")
    case True
    then show ?thesis using len max by (auto simp: slot_ok_def)
  next
    case False
    moreover have "slot_ok R i (received_packet rp ! i)"
      using inv that by (simp add: replay_inv_def)
    ultimately show ?thesis by (auto simp: slot_ok_def split: if_splits)
  qed
  show ?thesis
    using inv s slots unfolding replay_inv_def advance_sequence_def
    by (auto simp: Let_def len not_less)
qed

text \<open>
  C18: replay protection is exact. Whatever sequence numbers arrive, in whatever order, a packet is
  accepted if and only if it was not accepted before and no packet at least 256 ahead of it was:
  nothing is delivered twice, and nothing fresh inside the window is dropped. The numbers stay
  below the last 256 of the 64-bit range, where the window check wraps.
\<close>

theorem replay_protection_exact:
  assumes "\<forall>s \<in> set ss. unat s + 256 < 2 ^ 64"
  shows "replay_run ss replay_protection_new = replay_spec ss {}"
proof -
  have "replay_run ss rp = replay_spec ss R" if "replay_inv R rp" for R rp
    using that assms
  proof (induction ss arbitrary: R rp)
    case (Cons s ss)
    then show ?case
      using is_already_received_iff [of R rp s] replay_inv_advance [of R rp s] by auto
  qed simp
  from this [OF replay_inv_new] show ?thesis .
qed

theorem replay_protection_exact_witness:
  "replay_run [5, 300, 5, 40, 299, 300, 44, 45] replay_protection_new =
     [True, True, False, False, True, False, False, True]"
  using replay_protection_exact [of "[5, 300, 5, 40, 299, 300, 44, 45]"] by simp

end
