(* ===== verification/Netcode_Packet.thy ===== *)
theory Netcode_Packet
  imports Netcode_Token Replay_Protection
begin

text \<open>
  Netcode packets (\<open>crates/connection/netcode/src/packet.rs\<close>): the seven kinds, their bodies, and
  the encrypted framing with its replay check. Overflows wrap as in a release build.
\<close>

section \<open>Sequence numbers\<close>

definition leading_zeros :: "u64 \<Rightarrow> nat" where
  "leading_zeros w = length (takeWhile (\<lambda>i. \<not> bit w (63 - i)) [0..<64])"

definition sequence_len :: "u64 \<Rightarrow> nat" where
  "sequence_len sequence = max (8 - leading_zeros sequence div 8) 1"

definition sequence_bytes :: "u64 \<Rightarrow> bytes" where
  "sequence_bytes sequence =
     map (\<lambda>shift. ucast (drop_bit (shift * 8) sequence AND 0xFF)) [0..<sequence_len sequence]"

definition write_sequence :: "u64 \<Rightarrow> bytes \<Rightarrow> bytes serde_result" where
  "write_sequence sequence buf = write_all (sequence_bytes sequence) buf"

text \<open>The slice of the eight-byte array panics when the length is larger.\<close>

definition read_sequence :: "nat \<Rightarrow> reader \<Rightarrow> (u64 \<times> reader) serde_result" where
  "read_sequence n r =
     (if n > 8 then Inl Panicked
      else and_then (read_exact n r) (\<lambda>(bs, r). Inr (word_of_nat (be_nat (rev (bs @ replicate (8 - n) 0))), r)))"

section \<open>Packet bodies\<close>

record request_packet =
  rq_version_info :: bytes
  rq_protocol_id :: u64
  rq_expire_timestamp :: u64
  rq_token_nonce :: bytes
  rq_token_data :: bytes

text \<open>A \<open>String\<close> is its UTF-8 bytes.\<close>

datatype denied_reason =
    ServerFull
  | Banned
  | InternalError
  | AlreadyConnected
  | TokenAlreadyUsed
  | InvalidTokenReason
  | CustomReason bytes

datatype netcode_packet =
    RequestPkt request_packet
  | DeniedPkt denied_reason
  | ChallengePkt (ch_sequence: u64) (ch_token: bytes)
  | ResponsePkt (rs_sequence: u64) (rs_token: bytes)
  | KeepAlivePkt client_id
  | PayloadPkt bytes
  | DisconnectPkt

definition request_create :: "u64 \<Rightarrow> u64 \<Rightarrow> bytes \<Rightarrow> bytes \<Rightarrow> netcode_packet" where
  "request_create protocol_id expire_timestamp token_nonce token_data =
     RequestPkt \<lparr>rq_version_info = NETCODE_VERSION, rq_protocol_id = protocol_id,
       rq_expire_timestamp = expire_timestamp, rq_token_nonce = token_nonce, rq_token_data = token_data\<rparr>"

definition request_validate :: "request_packet \<Rightarrow> u64 \<Rightarrow> u64 \<Rightarrow> netcode_packet_error + unit" where
  "request_validate p protocol_id current_timestamp =
     (if rq_version_info p \<noteq> NETCODE_VERSION then Inl BadVersion
      else if rq_protocol_id p \<noteq> protocol_id then Inl (BadProtocolId protocol_id (rq_protocol_id p))
      else if rq_expire_timestamp p \<le> current_timestamp then Inl TokenExpired
      else Inr ())"

text \<open>The token data is decrypted in place, then its fields are written over it once more.\<close>

definition decrypt_token_data ::
  "crypto_ops \<Rightarrow> request_packet \<Rightarrow> key \<Rightarrow> 'e netcode_error + request_packet" where
  "decrypt_token_data C p private_key =
     and_then (ctp_decrypt C (rq_token_data p) (rq_protocol_id p) (rq_expire_timestamp p) (rq_token_nonce p) private_key)
       (\<lambda>(decrypted, buf).
     and_then (lift_io (into_slice buf (ctp_write_to decrypted []))) (\<lambda>buf.
       Inr (p\<lparr>rq_token_data := buf\<rparr>)))"

definition request_write_to :: "request_packet \<Rightarrow> bytes \<Rightarrow> bytes serde_result" where
  "request_write_to p buf =
     and_then (write_all (rq_version_info p) buf) (\<lambda>buf.
     and_then (write_u64 (rq_protocol_id p) buf) (\<lambda>buf.
     and_then (write_u64 (rq_expire_timestamp p) buf) (\<lambda>buf.
     and_then (write_all (rq_token_nonce p) buf) (\<lambda>buf.
       write_all (rq_token_data p) buf))))"

definition request_read_from :: "reader \<Rightarrow> (request_packet \<times> reader) serde_result" where
  "request_read_from r =
     and_then (read_exact 13 r) (\<lambda>(version_info, r).
     and_then (read_u64 r) (\<lambda>(protocol_id, r).
     and_then (read_u64 r) (\<lambda>(expire_timestamp, r).
     and_then (read_exact 24 r) (\<lambda>(token_nonce, r).
     and_then (read_exact CTP_SIZE r) (\<lambda>(token_data, r).
       Inr (\<lparr>rq_version_info = version_info, rq_protocol_id = protocol_id,
             rq_expire_timestamp = expire_timestamp, rq_token_nonce = token_nonce,
             rq_token_data = token_data\<rparr>, r))))))"

text \<open>The well-formed UTF-8 sequences: one character at a time.\<close>

definition utf8_step :: "bytes \<Rightarrow> bytes option" where
  "utf8_step bs =
     (let cont = (\<lambda>b. 0x80 \<le> b \<and> b \<le> (0xBF :: u8)) in
      case bs of
        a # rest \<Rightarrow>
          if a \<le> 0x7F then Some rest
          else (case rest of
                  b # rest \<Rightarrow>
                    if 0xC2 \<le> a \<and> a \<le> 0xDF \<and> cont b then Some rest
                    else (case rest of
                            c # rest \<Rightarrow>
                              if 0xE0 \<le> a \<and> a \<le> 0xEF \<and> cont b \<and> cont c \<and>
                                 (a = 0xE0 \<longrightarrow> 0xA0 \<le> b) \<and> (a = 0xED \<longrightarrow> b \<le> 0x9F) then Some rest
                              else (case rest of
                                      d # rest \<Rightarrow>
                                        if 0xF0 \<le> a \<and> a \<le> 0xF4 \<and> cont b \<and> cont c \<and> cont d \<and>
                                           (a = 0xF0 \<longrightarrow> 0x90 \<le> b) \<and> (a = 0xF4 \<longrightarrow> b \<le> 0x8F) then Some rest
                                        else None
                                    | [] \<Rightarrow> None)
                          | [] \<Rightarrow> None)
                | [] \<Rightarrow> None)
      | [] \<Rightarrow> None)"

lemma utf8_step_shorter: "utf8_step bs = Some rest \<Longrightarrow> length rest < length bs"
  by (auto simp: utf8_step_def Let_def split: list.splits if_splits)

function utf8_valid :: "bytes \<Rightarrow> bool" where
  "utf8_valid bs =
     (if bs = [] then True
      else case utf8_step bs of None \<Rightarrow> False | Some rest \<Rightarrow> utf8_valid rest)"
  by auto
termination
  by (relation "measure length") (auto dest: utf8_step_shorter)

declare utf8_valid.simps [simp del]

definition denied_reason_write_to :: "denied_reason \<Rightarrow> bytes \<Rightarrow> bytes serde_result" where
  "denied_reason_write_to reason buf =
     (case reason of
        ServerFull \<Rightarrow> write_u8 0 buf
      | Banned \<Rightarrow> write_u8 1 buf
      | InternalError \<Rightarrow> write_u8 2 buf
      | AlreadyConnected \<Rightarrow> write_u8 3 buf
      | TokenAlreadyUsed \<Rightarrow> write_u8 4 buf
      | InvalidTokenReason \<Rightarrow> write_u8 5 buf
      | CustomReason text \<Rightarrow>
          and_then (write_u8 6 buf) (\<lambda>buf.
          if length text > 255 then Inl (Io Other)
          else and_then (write_u8 (word_of_nat (length text)) buf) (write_all text)))"

definition denied_reason_read_from :: "reader \<Rightarrow> (denied_reason \<times> reader) serde_result" where
  "denied_reason_read_from r =
     and_then (read_u8 r) (\<lambda>(variant, r).
     if variant = 0 then Inr (ServerFull, r)
     else if variant = 1 then Inr (Banned, r)
     else if variant = 2 then Inr (InternalError, r)
     else if variant = 3 then Inr (AlreadyConnected, r)
     else if variant = 4 then Inr (TokenAlreadyUsed, r)
     else if variant = 5 then Inr (InvalidTokenReason, r)
     else if variant = 6 then
       and_then (read_u8 r) (\<lambda>(len, r).
       and_then (read_exact (unat len) r) (\<lambda>(text, r).
         if utf8_valid text then Inr (CustomReason text, r) else Inl (Io Other)))
     else Inl (Io Other))"

definition token_packet_write_to :: "u64 \<Rightarrow> bytes \<Rightarrow> bytes \<Rightarrow> bytes serde_result" where
  "token_packet_write_to sequence token buf = and_then (write_u64 sequence buf) (write_all token)"

definition token_packet_read_from :: "(u64 \<Rightarrow> bytes \<Rightarrow> netcode_packet) \<Rightarrow> reader \<Rightarrow> (netcode_packet \<times> reader) serde_result" where
  "token_packet_read_from f r =
     and_then (read_u64 r) (\<lambda>(sequence, r).
     and_then (read_exact CHALLENGE_SIZE r) (\<lambda>(token, r). Inr (f sequence token, r)))"

definition keep_alive_write_to :: "client_id \<Rightarrow> bytes \<Rightarrow> bytes serde_result" where
  "keep_alive_write_to client_id buf = write_u64 client_id buf"

definition keep_alive_read_from :: "reader \<Rightarrow> (netcode_packet \<times> reader) serde_result" where
  "keep_alive_read_from r = and_then (read_u64 r) (\<lambda>(client_id, r). Inr (KeepAlivePkt client_id, r))"

section \<open>Framing\<close>

definition REQUEST :: u8 where "REQUEST = 0"
definition DENIED :: u8 where "DENIED = 1"
definition CHALLENGE :: u8 where "CHALLENGE = 2"
definition RESPONSE :: u8 where "RESPONSE = 3"
definition KEEP_ALIVE :: u8 where "KEEP_ALIVE = 4"
definition PAYLOAD :: u8 where "PAYLOAD = 5"
definition DISCONNECT :: u8 where "DISCONNECT = 6"

lemmas packet_kinds = REQUEST_def DENIED_def CHALLENGE_def RESPONSE_def KEEP_ALIVE_def PAYLOAD_def
  DISCONNECT_def

definition packet_kind :: "netcode_packet \<Rightarrow> u8" where
  "packet_kind p =
     (case p of RequestPkt _ \<Rightarrow> REQUEST | DeniedPkt _ \<Rightarrow> DENIED | ChallengePkt _ _ \<Rightarrow> CHALLENGE
      | ResponsePkt _ _ \<Rightarrow> RESPONSE | KeepAlivePkt _ \<Rightarrow> KEEP_ALIVE | PayloadPkt _ \<Rightarrow> PAYLOAD
      | DisconnectPkt \<Rightarrow> DISCONNECT)"

definition packet_prefix :: "u8 \<Rightarrow> u64 \<Rightarrow> u8" where
  "packet_prefix kind sequence = push_bit 4 (word_of_nat (sequence_len sequence)) OR kind"

definition packet_aead :: "u64 \<Rightarrow> u8 \<Rightarrow> bytes" where
  "packet_aead protocol_id prefix = NETCODE_VERSION @ be_bytes 8 (unat protocol_id) @ [prefix]"

definition get_prefix :: "u8 \<Rightarrow> nat \<times> u8" where
  "get_prefix prefix_byte = (unat (drop_bit 4 prefix_byte), prefix_byte AND 0xF)"

text \<open>
  \<open>len\<close> is the length of the output buffer; the result is its written part. \<open>write_body\<close> appends
  the body.
\<close>

definition write_encrypted ::
  "crypto_ops \<Rightarrow> nat \<Rightarrow> u8 \<Rightarrow> u64 \<Rightarrow> key \<Rightarrow> u64 \<Rightarrow> (bytes \<Rightarrow> bytes serde_result) \<Rightarrow> 'e netcode_error + bytes" where
  "write_encrypted C len kind sequence packet_key protocol_id write_body =
     (let prefix = packet_prefix kind sequence in
      and_then (lift_io (and_then (write_u8 prefix []) (write_sequence sequence))) (\<lambda>header.
      and_then (lift_io (write_body header)) (\<lambda>out.
      if length out > len then Inl (NetIo Other)
      else if len < MAC_BYTES then Inl NetcodePanicked
      else if length out > len - MAC_BYTES then Inl (PacketErr TooLarge)
      else and_then (lift_crypto (chacha_encrypt C (drop (length header) out @ replicate MAC_BYTES 0)
                       (Some (packet_aead protocol_id prefix)) sequence packet_key))
             (\<lambda>encrypted. Inr (header @ encrypted)))))"

definition packet_write_body :: "netcode_packet \<Rightarrow> bytes \<Rightarrow> bytes serde_result" where
  "packet_write_body p buf =
     (case p of
        DeniedPkt reason \<Rightarrow> denied_reason_write_to reason buf
      | ChallengePkt sequence token \<Rightarrow> token_packet_write_to sequence token buf
      | ResponsePkt sequence token \<Rightarrow> token_packet_write_to sequence token buf
      | KeepAlivePkt client_id \<Rightarrow> keep_alive_write_to client_id buf
      | DisconnectPkt \<Rightarrow> Inr buf
      | PayloadPkt payload \<Rightarrow> write_all payload buf
      | RequestPkt _ \<Rightarrow> Inl Panicked)"

definition packet_write ::
  "crypto_ops \<Rightarrow> nat \<Rightarrow> netcode_packet \<Rightarrow> u64 \<Rightarrow> key \<Rightarrow> u64 \<Rightarrow> 'e netcode_error + bytes" where
  "packet_write C len p sequence packet_key protocol_id =
     (case p of
        RequestPkt rq \<Rightarrow>
          and_then (lift_io (and_then (write_u8 REQUEST []) (request_write_to rq))) (\<lambda>out.
            if length out > len then Inl (NetIo Other) else Inr out)
      | _ \<Rightarrow> write_encrypted C len (packet_kind p) sequence packet_key protocol_id (packet_write_body p))"

definition write_payload :: "crypto_ops \<Rightarrow> nat \<Rightarrow> bytes \<Rightarrow> u64 \<Rightarrow> key \<Rightarrow> u64 \<Rightarrow> 'e netcode_error + bytes" where
  "write_payload C len payload sequence packet_key protocol_id =
     write_encrypted C len PAYLOAD sequence packet_key protocol_id (write_all payload)"

text \<open>The body of a decrypted packet, followed by the tag.\<close>

definition packet_parse :: "u8 \<Rightarrow> bytes \<Rightarrow> 'e netcode_error + netcode_packet" where
  "packet_parse pkt_kind suffix =
     (let r = reader_from suffix; body = (\<lambda>m. and_then (lift_io m) (\<lambda>(p, _). Inr p)) in
      if pkt_kind = REQUEST then
        and_then (lift_io (request_read_from r)) (\<lambda>(p, _). Inr (RequestPkt p))
      else if pkt_kind = DENIED then
        and_then (lift_io (denied_reason_read_from r)) (\<lambda>(p, _). Inr (DeniedPkt p))
      else if pkt_kind = CHALLENGE then body (token_packet_read_from ChallengePkt r)
      else if pkt_kind = RESPONSE then body (token_packet_read_from ResponsePkt r)
      else if pkt_kind = KEEP_ALIVE then body (keep_alive_read_from r)
      else if pkt_kind = DISCONNECT then Inr DisconnectPkt
      else if pkt_kind = PAYLOAD then Inr (PayloadPkt (take (length suffix - MAC_BYTES) suffix))
      else Inl (PacketErr (InvalidType pkt_kind)))"

text \<open>
  \<open>Packet::read\<close>. The test of \<open>allowed_packets\<close> only writes a log line, so it has no place here.
  The result comes with the replay window, which is updated in place.
\<close>

definition packet_read ::
  "crypto_ops \<Rightarrow> bytes \<Rightarrow> u64 \<Rightarrow> u64 \<Rightarrow> key \<Rightarrow> replay_protection option \<Rightarrow>
   replay_protection option \<times> ('e netcode_error + netcode_packet)" where
  "packet_read C buf protocol_id timestamp key rp =
     (if length buf < 1 then (rp, Inl (PacketErr TooSmall))
      else if length buf > MAX_PKT_BUF_SIZE then (rp, Inl (PacketErr TooLarge))
      else
        (let prefix_byte = hd buf; (sequence_len, pkt_kind) = get_prefix prefix_byte;
             r = skip 1 (reader_from buf)
         in if prefix_byte = REQUEST then
              (rp, and_then (lift_io (request_read_from r)) (\<lambda>(packet, _).
                   and_then (lift_packet (request_validate packet protocol_id timestamp)) (\<lambda>_.
                   and_then (decrypt_token_data C packet key) (\<lambda>packet. Inr (RequestPkt packet)))))
            else if length buf < 1 + sequence_len + MAC_BYTES then (rp, Inl (PacketErr TooSmall))
            else
              (case read_sequence sequence_len r of
                 Inl Panicked \<Rightarrow> (rp, Inl NetcodePanicked)
               | Inl e \<Rightarrow> (rp, lift_io (Inl e))
               | Inr (sequence, r) \<Rightarrow>
                   if pkt_kind \<ge> KEEP_ALIVE \<and> (case rp of Some w \<Rightarrow> is_already_received sequence w | None \<Rightarrow> False)
                   then (rp, Inl (PacketErr (AlreadyReceived sequence)))
                   else
                     (case chacha_decrypt C (drop (rd_pos r) buf) (Some (packet_aead protocol_id prefix_byte))
                             sequence key of
                        Inl e \<Rightarrow> (rp, Inl (Crypto e))
                      | Inr suffix \<Rightarrow>
                          (if pkt_kind \<ge> KEEP_ALIVE then map_option (advance_sequence sequence) rp else rp,
                           packet_parse pkt_kind suffix)))))"

section \<open>Sequence numbers on the wire\<close>

lemma leading_zeros_bits: "i < leading_zeros s \<Longrightarrow> \<not> bit s (63 - i)"
proof -
  assume i: "i < leading_zeros s"
  then have "takeWhile (\<lambda>i. \<not> bit s (63 - i)) [0..<64] ! i = [0..<64] ! i"
    unfolding leading_zeros_def by (rule takeWhile_nth)
  moreover have "takeWhile (\<lambda>i. \<not> bit s (63 - i)) [0..<64] ! i \<in> set (takeWhile (\<lambda>i. \<not> bit s (63 - i)) [0..<64])"
    using i unfolding leading_zeros_def by (rule nth_mem)
  moreover have "i < 64"
    using i length_takeWhile_le [of "\<lambda>i. \<not> bit s (63 - i)" "[0..<64]"] by (simp add: leading_zeros_def)
  ultimately show ?thesis
    by (auto dest: set_takeWhileD)
qed

lemma leading_zeros_le: "leading_zeros s \<le> 64"
  using length_takeWhile_le [of "\<lambda>i. \<not> bit s (63 - i)" "[0..<64]"] by (simp add: leading_zeros_def)

lemma unat_less_leading_zeros: "unat s < 2 ^ (64 - leading_zeros s)"
proof -
  have "take_bit (64 - leading_zeros s) s = s"
  proof (rule bit_eqI)
    fix n
    show "bit (take_bit (64 - leading_zeros s) s) n \<longleftrightarrow> bit s n"
    proof (cases "n < 64 - leading_zeros s")
      case False
      have "\<not> bit s n"
      proof (cases "n < 64")
        case True
        then show ?thesis
          using leading_zeros_bits [of "63 - n" s] False leading_zeros_le [of s] by simp
      next
        case False
        then show ?thesis using bit_imp_le_length [of s n] by auto
      qed
      with False show ?thesis by (simp add: bit_take_bit_iff)
    qed (simp add: bit_take_bit_iff)
  qed
  then have "unat s = take_bit (64 - leading_zeros s) (unat s)"
    by (metis unsigned_take_bit_eq)
  also have "\<dots> < 2 ^ (64 - leading_zeros s)"
    by (rule take_bit_nat_less_exp)
  finally show ?thesis .
qed

lemma sequence_len_bounds: "1 \<le> sequence_len s" "sequence_len s \<le> 8"
  by (simp_all add: sequence_len_def)

lemma unat_less_sequence_len: "unat s < 256 ^ sequence_len s"
proof -
  have "unat s < 2 ^ (64 - leading_zeros s)"
    by (rule unat_less_leading_zeros)
  also have "(2 :: nat) ^ (64 - leading_zeros s) \<le> 2 ^ (8 * sequence_len s)"
    using leading_zeros_le [of s] by (intro power_increasing) (auto simp: sequence_len_def)
  also have "\<dots> = 256 ^ sequence_len s"
    by (simp add: power_mult)
  finally show ?thesis .
qed

lemma sequence_byte: "(ucast (drop_bit (i * 8) s AND 0xFF) :: u8) = word_of_nat (unat s div 256 ^ i)"
  for s :: u64
proof -
  have "unat (drop_bit (i * 8) s) = unat s div 2 ^ (i * 8)"
    using unsigned_less [where ?'a = nat, of s]
    by (subst unsigned_drop_bit_eq) (simp add: take_bit_nat_eq_self drop_bit_eq_div)
  moreover have "(2 :: nat) ^ (i * 8) = 256 ^ i"
    by (simp add: mult.commute [of i] power_mult)
  ultimately have "unat (drop_bit (i * 8) s AND 0xFF) = unat s div 256 ^ i mod 256"
    using unat_and_mask [of "drop_bit (i * 8) s" 8] by (simp add: mask_eq_exp_minus_1)
  then have "(ucast (drop_bit (i * 8) s AND 0xFF) :: u8) = word_of_nat (unat s div 256 ^ i mod 256)"
    by (metis of_nat_unat)
  also have "\<dots> = word_of_nat (unat s div 256 ^ i)"
    by (rule word_unat_eq_iff [THEN iffD2]) (simp add: unat_of_nat)
  finally show ?thesis .
qed

lemma rev_sequence_bytes: "rev (sequence_bytes s) = be_bytes (sequence_len s) (unat s)"
  by (simp add: sequence_bytes_def be_bytes_def sequence_byte rev_map)

lemma length_sequence_bytes [simp]: "length (sequence_bytes s) = sequence_len s"
  by (simp add: sequence_bytes_def)

lemma be_nat_leading_zeros: "be_nat (replicate n 0 @ bs) = be_nat bs"
  by (induction n) (simp_all add: be_nat_Cons)

lemma read_sequence_append:
  assumes "remaining_slice r = sequence_bytes s @ rest"
  shows "read_sequence (sequence_len s) r = Inr (s, skip (sequence_len s) r)"
proof -
  have "be_nat (rev (sequence_bytes s @ replicate (8 - sequence_len s) 0)) = unat s"
    using unat_less_sequence_len [of s]
    by (simp add: rev_sequence_bytes be_nat_leading_zeros be_nat_be_bytes)
  moreover have "read_exact (sequence_len s) r = Inr (sequence_bytes s, skip (sequence_len s) r)"
    by (rule read_exact_append [OF assms]) simp
  ultimately show ?thesis
    using sequence_len_bounds [of s] by (simp add: read_sequence_def)
qed

lemma get_prefix_prefix:
  assumes "kind \<in> {0, 1, 2, 3, 4, 5, 6}"
  shows "get_prefix (packet_prefix kind s) = (sequence_len s, kind)" and "packet_prefix kind s \<noteq> 0"
proof -
  note assms
  moreover have "sequence_len s \<in> {1, 2, 3, 4, 5, 6, 7, 8}"
    using sequence_len_bounds [of s] by auto
  ultimately show "get_prefix (packet_prefix kind s) = (sequence_len s, kind)" "packet_prefix kind s \<noteq> 0"
    unfolding get_prefix_def packet_prefix_def by auto
qed

section \<open>Reading what was written\<close>

definition kind_ok :: "u8 \<Rightarrow> bool" where
  "kind_ok kind \<longleftrightarrow> kind \<in> {0, 1, 2, 3, 4, 5, 6}"

definition window_accepts :: "u8 \<Rightarrow> u64 \<Rightarrow> replay_protection option \<Rightarrow> bool" where
  "window_accepts kind s rp \<longleftrightarrow>
     \<not> (kind \<ge> KEEP_ALIVE \<and> (case rp of Some w \<Rightarrow> is_already_received s w | None \<Rightarrow> False))"

definition window_advance :: "u8 \<Rightarrow> u64 \<Rightarrow> replay_protection option \<Rightarrow> replay_protection option" where
  "window_advance kind s rp = (if kind \<ge> KEEP_ALIVE then map_option (advance_sequence s) rp else rp)"

text \<open>The encrypted part of \<open>Packet::read\<close>, once the sequence number is known.\<close>

lemma packet_read_encrypted:
  assumes "buf = packet_prefix kind s # sequence_bytes s @ enc" and "kind_ok kind"
    and "length buf \<le> MAX_PKT_BUF_SIZE" and "MAC_BYTES \<le> length enc"
  shows "packet_read C buf protocol_id ts key rp =
    (if \<not> window_accepts kind s rp then (rp, Inl (PacketErr (AlreadyReceived s)))
     else case chacha_decrypt C enc (Some (packet_aead protocol_id (packet_prefix kind s))) s key of
            Inl e \<Rightarrow> (rp, Inl (Crypto e))
          | Inr suffix \<Rightarrow> (window_advance kind s rp, packet_parse kind suffix))"
proof -
  note prefix = get_prefix_prefix [OF assms(2) [unfolded kind_ok_def], of s]
  have "read_sequence (sequence_len s) (skip 1 (reader_from buf)) =
      Inr (s, skip (sequence_len s) (skip 1 (reader_from buf)))"
    by (rule read_sequence_append [where rest = enc])
      (simp add: assms(1) reader_from_def remaining_slice_def skip_def)
  moreover have "drop (rd_pos (skip (sequence_len s) (skip 1 (reader_from buf)))) buf = enc"
    by (simp add: assms(1) reader_from_def skip_def)
  ultimately show ?thesis
    using prefix assms(3,4)
    by (simp add: packet_read_def window_accepts_def window_advance_def assms(1) REQUEST_def split: sum.split)
qed

lemma write_encrypted_read:
  assumes cipher: "aead_cipher (chacha C) 12" and key: "length key = PRIVATE_KEY_BYTES"
    and kind: "kind_ok kind" and body: "\<And>h. write_body h = Inr (h @ body)"
    and len: "length body \<le> MAX_PKT_BUF_SIZE - MAC_BYTES - 9"
  shows "\<exists>wire mac. write_encrypted C MAX_PKT_BUF_SIZE kind s key protocol_id write_body =
      (Inr wire :: 'e netcode_error + bytes) \<and> hd wire \<noteq> REQUEST \<and> 1 < length wire \<and> length mac = MAC_BYTES \<and>
    (\<forall>ts rp. window_accepts kind s rp \<longrightarrow> packet_read C wire protocol_id ts key rp =
      (window_advance kind s rp, packet_parse kind (body @ mac) :: 'f netcode_error + netcode_packet)) \<and>
    (\<forall>ts rp. \<not> window_accepts kind s rp \<longrightarrow> packet_read C wire protocol_id ts key rp =
      (rp, Inl (PacketErr (AlreadyReceived s)) :: 'f netcode_error + netcode_packet))"
proof -
  let ?prefix = "packet_prefix kind s"
  let ?aad = "Some (packet_aead protocol_id ?prefix)"
  have small: "length body \<le> 2 ^ 16" "\<forall>a. ?aad = Some a \<longrightarrow> length a \<le> 2 ^ 16"
    using len by (simp_all add: netcode_sizes packet_aead_def)
  obtain c mac where enc: "aead_encrypt (chacha C) (body @ replicate MAC_BYTES 0) ?aad (final_nonce s) key = Inr (c @ mac)"
    and lens: "length c = length body" "length mac = MAC_BYTES"
    and dec: "aead_decrypt (chacha C) (c @ mac) ?aad (final_nonce s) key = Inr (body @ mac)"
    by (rule aead_cipher.aead_encrypt_ok [OF cipher key length_final_nonce small, of "replicate MAC_BYTES 0"]) auto
  define wire where "wire = ?prefix # sequence_bytes s @ c @ mac"
  have "write_encrypted C MAX_PKT_BUF_SIZE kind s key protocol_id write_body = (Inr wire :: 'e netcode_error + bytes)"
    using enc len sequence_len_bounds [of s]
    by (simp add: write_encrypted_def Let_def write_defs write_sequence_def body chacha_encrypt_def
        netcode_sizes wire_def)
  moreover have "length wire \<le> MAX_PKT_BUF_SIZE"
    using lens len sequence_len_bounds [of s] by (simp add: wire_def netcode_sizes)
  then have "packet_read C wire protocol_id ts key rp =
      (if \<not> window_accepts kind s rp then (rp, Inl (PacketErr (AlreadyReceived s)))
       else (window_advance kind s rp, packet_parse kind (body @ mac) :: 'f netcode_error + netcode_packet))" for ts rp
    using dec lens(2)
    by (subst packet_read_encrypted [OF wire_def kind]) (simp_all add: chacha_decrypt_def)
  moreover have "hd wire \<noteq> REQUEST" "1 < length wire"
    using get_prefix_prefix(2) [OF kind [unfolded kind_ok_def]] lens(2)
    by (simp_all add: wire_def REQUEST_def netcode_sizes)
  ultimately show ?thesis
    using lens(2) by (intro exI [of _ wire] exI [of _ mac]) simp
qed

text \<open>The packets that are encrypted, and whose fields have the sizes of their types.\<close>

definition packet_ok :: "netcode_packet \<Rightarrow> bool" where
  "packet_ok p =
     (case p of
        RequestPkt _ \<Rightarrow> False
      | DeniedPkt (CustomReason text) \<Rightarrow> length text \<le> 255 \<and> utf8_valid text
      | DeniedPkt _ \<Rightarrow> True
      | ChallengePkt _ token \<Rightarrow> length token = CHALLENGE_SIZE
      | ResponsePkt _ token \<Rightarrow> length token = CHALLENGE_SIZE
      | KeepAlivePkt _ \<Rightarrow> True
      | PayloadPkt payload \<Rightarrow> length payload \<le> MAX_PACKET_SIZE
      | DisconnectPkt \<Rightarrow> True)"

definition packet_body :: "netcode_packet \<Rightarrow> bytes" where
  "packet_body p = (case packet_write_body p [] of Inr body \<Rightarrow> body | Inl _ \<Rightarrow> [])"

lemmas body_write_defs = packet_write_body_def denied_reason_write_to_def token_packet_write_to_def
  keep_alive_write_to_def write_defs

lemma packet_write_body_append:
  assumes "packet_ok p"
  shows "packet_write_body p h = Inr (h @ packet_body p)"
    and "length (packet_body p) \<le> MAX_PKT_BUF_SIZE - MAC_BYTES - 9"
  using assms
  by (auto simp: packet_ok_def packet_body_def body_write_defs netcode_sizes CHALLENGE_SIZE_def
      split: netcode_packet.splits denied_reason.splits)

lemma token_packet_parse:
  assumes "length token = CHALLENGE_SIZE"
  shows "token_packet_read_from f (reader_from (be_bytes 8 (unat n) @ token @ mac)) =
    Inr (f n token, skip 308 (reader_from (be_bytes 8 (unat n) @ token @ mac)))"
proof -
  let ?r = "reader_from (be_bytes 8 (unat n) @ token @ mac)"
  have rs: "remaining_slice ?r = be_bytes 8 (unat n) @ token @ mac"
    by (simp add: reader_from_def remaining_slice_def)
  have "read_u64 ?r = Inr (n, skip 8 ?r)"
    by (rule read_u64_append [OF rs])
  moreover have "read_exact CHALLENGE_SIZE (skip 8 ?r) = Inr (token, skip CHALLENGE_SIZE (skip 8 ?r))"
    by (rule read_exact_append [where rest = mac]) (simp_all add: rs assms)
  ultimately show ?thesis
    by (simp add: token_packet_read_from_def CHALLENGE_SIZE_def)
qed

lemma denied_parse:
  assumes "packet_ok (DeniedPkt reason)"
  shows "\<exists>r. denied_reason_read_from (reader_from (packet_body (DeniedPkt reason) @ mac)) = Inr (reason, r)"
proof (cases reason)
  case (CustomReason msg)
  let ?n = "word_of_nat (length msg) :: u8"
  let ?r = "reader_from (6 # ?n # msg @ mac)"
  have n: "unat ?n = length msg" and msg: "utf8_valid msg"
    using assms by (simp_all add: CustomReason packet_ok_def unat_of_nat)
  have rs: "remaining_slice ?r = 6 # ?n # msg @ mac"
    by (simp add: reader_from_def remaining_slice_def)
  have "read_u8 ?r = Inr (6, skip 1 ?r)"
    by (rule read_u8_append [OF rs])
  moreover have "read_u8 (skip 1 ?r) = Inr (?n, skip 1 (skip 1 ?r))"
    by (rule read_u8_append) (simp add: rs)
  moreover have "read_exact (length msg) (skip 1 (skip 1 ?r)) = Inr (msg, skip (length msg) (skip 1 (skip 1 ?r)))"
    by (rule read_exact_append [where rest = mac]) (simp_all add: rs)
  ultimately have "denied_reason_read_from ?r = Inr (reason, skip (length msg) (skip 1 (skip 1 ?r)))"
    using n msg by (simp add: denied_reason_read_from_def CustomReason)
  then show ?thesis
    using assms by (auto simp: CustomReason packet_body_def body_write_defs packet_ok_def)
qed (use read_u8_append [of "reader_from (_ # mac)" _ mac] in
      \<open>simp_all add: packet_body_def body_write_defs denied_reason_read_from_def reader_from_def remaining_slice_def\<close>)

lemma packet_parse_body:
  assumes "packet_ok p" and "length mac = MAC_BYTES"
  shows "packet_parse (packet_kind p) (packet_body p @ mac) = Inr p"
proof (cases p)
  case (DeniedPkt reason)
  then show ?thesis
    using denied_parse [of reason mac] assms(1) by (auto simp: packet_parse_def packet_kind_def packet_kinds)
next
  case (KeepAlivePkt n)
  have "read_u64 (reader_from (be_bytes 8 (unat n) @ mac)) = Inr (n, skip 8 (reader_from (be_bytes 8 (unat n) @ mac)))"
    by (rule read_u64_append [where rest = mac]) (simp add: reader_from_def remaining_slice_def)
  then show ?thesis
    by (simp add: KeepAlivePkt packet_parse_def packet_kind_def packet_kinds packet_body_def body_write_defs
        keep_alive_read_from_def)
qed (use assms token_packet_parse in
      \<open>simp_all add: packet_ok_def packet_parse_def packet_kind_def packet_kinds packet_body_def body_write_defs\<close>)

lemma kind_ok_packet_kind [simp]: "kind_ok (packet_kind p)"
  by (simp add: kind_ok_def packet_kind_def packet_kinds split: netcode_packet.split)

lemma packet_write_read:
  assumes "aead_cipher (chacha C) 12" and "length key = PRIVATE_KEY_BYTES" and "packet_ok p"
  shows "\<exists>wire. packet_write C MAX_PKT_BUF_SIZE p s key protocol_id = (Inr wire :: 'e netcode_error + bytes) \<and>
    hd wire \<noteq> REQUEST \<and> 1 < length wire \<and>
    (\<forall>ts rp. packet_read C wire protocol_id ts key rp =
       (if window_accepts (packet_kind p) s rp then (window_advance (packet_kind p) s rp, Inr p)
        else (rp, Inl (PacketErr (AlreadyReceived s)) :: 'f netcode_error + netcode_packet)))"
proof -
  obtain wire mac where written: "write_encrypted C MAX_PKT_BUF_SIZE (packet_kind p) s key protocol_id
      (packet_write_body p) = (Inr wire :: 'e netcode_error + bytes)" and mac: "length mac = MAC_BYTES"
    and first: "hd wire \<noteq> REQUEST" "1 < length wire"
    and ok: "\<forall>ts rp. window_accepts (packet_kind p) s rp \<longrightarrow> packet_read C wire protocol_id ts key rp =
      (window_advance (packet_kind p) s rp, packet_parse (packet_kind p) (packet_body p @ mac) :: 'f netcode_error + netcode_packet)"
    and replay: "\<forall>ts rp. \<not> window_accepts (packet_kind p) s rp \<longrightarrow> packet_read C wire protocol_id ts key rp =
      (rp, Inl (PacketErr (AlreadyReceived s)) :: 'f netcode_error + netcode_packet)"
    using write_encrypted_read [OF assms(1,2) kind_ok_packet_kind [of p] packet_write_body_append(1) [OF assms(3)]
        packet_write_body_append(2) [OF assms(3)], of s protocol_id] by blast
  have "packet_write C MAX_PKT_BUF_SIZE p s key protocol_id = (Inr wire :: 'e netcode_error + bytes)"
    using written assms(3) by (cases p) (simp_all add: packet_write_def packet_ok_def)
  then show ?thesis
    using ok replay first packet_parse_body [OF assms(3) mac] by auto
qed

text \<open>
  C20: an encrypted packet of any kind is read back unchanged by the peer that has the key. Only a
  keep-alive, a payload or a disconnect takes part in the replay protection: it has to be one that
  the window has not seen, the window then records it, and the same bytes are refused from then on.
  A denied, challenge or response packet is read whatever the window says, and leaves it alone.
\<close>

theorem netcode_packet_roundtrip:
  assumes "aead_cipher (chacha C) 12" and "length key = PRIVATE_KEY_BYTES" and "packet_ok p"
    and "s \<noteq> UNRECEIVED" and "received_packet w \<noteq> []"
    and "KEEP_ALIVE \<le> packet_kind p \<Longrightarrow> \<not> is_already_received s w"
  shows "\<exists>wire. packet_write C MAX_PKT_BUF_SIZE p s key protocol_id = (Inr wire :: 'e netcode_error + bytes) \<and>
    packet_read C wire protocol_id ts key (Some w) =
      (Some (if KEEP_ALIVE \<le> packet_kind p then advance_sequence s w else w),
       Inr p :: 'f netcode_error + netcode_packet) \<and>
    (KEEP_ALIVE \<le> packet_kind p \<longrightarrow>
       packet_read C wire protocol_id ts key (Some (advance_sequence s w)) =
         (Some (advance_sequence s w), Inl (PacketErr (AlreadyReceived s)) :: 'f netcode_error + netcode_packet))"
proof -
  have "is_already_received s (advance_sequence s w)"
    using assms(4,5) by (simp add: is_already_received_def advance_sequence_def Let_def)
  then have "KEEP_ALIVE \<le> packet_kind p \<longrightarrow> \<not> window_accepts (packet_kind p) s (Some (advance_sequence s w))"
    by (simp add: window_accepts_def)
  then show ?thesis
    using packet_write_read [where ?'e = 'e and ?'f = 'f and s = s and protocol_id = protocol_id, OF assms(1-3)] assms(6)
    by (auto simp: window_accepts_def window_advance_def)
qed

section \<open>Connection requests on the wire\<close>

definition request_ok :: "request_packet \<Rightarrow> bool" where
  "request_ok rq \<longleftrightarrow> length (rq_version_info rq) = 13 \<and> length (rq_token_nonce rq) = 24 \<and>
     length (rq_token_data rq) = CTP_SIZE"

definition request_enc :: "request_packet \<Rightarrow> bytes" where
  "request_enc rq = rq_version_info rq @ be_bytes 8 (unat (rq_protocol_id rq)) @
     be_bytes 8 (unat (rq_expire_timestamp rq)) @ rq_token_nonce rq @ rq_token_data rq"

lemma request_write_enc: "request_write_to rq h = Inr (h @ request_enc rq)"
  by (simp add: request_write_to_def write_defs request_enc_def)

lemma length_request_enc: "request_ok rq \<Longrightarrow> length (request_enc rq) = 1077"
  by (simp add: request_ok_def request_enc_def CTP_SIZE_def)

lemma request_read_enc:
  assumes ok: "request_ok rq" and "remaining_slice r = request_enc rq @ rest"
  shows "request_read_from r = Inr (rq, skip 1077 r)"
proof -
  have len: "length (rq_version_info rq) = 13" "length (rq_token_nonce rq) = 24" "length (rq_token_data rq) = 1024"
    using ok by (simp_all add: request_ok_def CTP_SIZE_def)
  have rs: "remaining_slice r = rq_version_info rq @ be_bytes 8 (unat (rq_protocol_id rq)) @
      be_bytes 8 (unat (rq_expire_timestamp rq)) @ rq_token_nonce rq @ rq_token_data rq @ rest"
    using assms(2) by (simp add: request_enc_def)
  have "read_exact 13 r = Inr (rq_version_info rq, skip 13 r)"
    by (rule read_exact_append [OF rs]) (use len in simp)
  moreover have "read_u64 (skip 13 r) = Inr (rq_protocol_id rq, skip 8 (skip 13 r))"
    by (rule read_u64_append) (use rs len in simp)
  moreover have "read_u64 (skip 21 r) = Inr (rq_expire_timestamp rq, skip 8 (skip 21 r))"
    by (rule read_u64_append) (use rs len in simp)
  moreover have "read_exact 24 (skip 29 r) = Inr (rq_token_nonce rq, skip 24 (skip 29 r))"
    by (rule read_exact_append) (use rs len in simp_all)
  moreover have "read_exact 1024 (skip 53 r) = Inr (rq_token_data rq, skip 1024 (skip 53 r))"
    by (rule read_exact_append) (use rs len in simp_all)
  ultimately show ?thesis
    by (simp add: request_read_from_def CTP_SIZE_def)
qed

text \<open>A plain request: written, read, validated and decrypted with the server's private key.\<close>

lemma request_write_read:
  assumes "request_ok rq" and "request_validate rq protocol_id ts = Inr ()"
    and "ctp_decrypt C (rq_token_data rq) (rq_protocol_id rq) (rq_expire_timestamp rq) (rq_token_nonce rq) private_key =
      (Inr (priv, buf) :: 'f netcode_error + connect_token_private \<times> bytes)"
    and "ctp_ok as priv" and "length buf = CTP_SIZE"
  shows "\<exists>wire rq'. packet_write C MAX_PKT_BUF_SIZE (RequestPkt rq) s key protocol_id' = (Inr wire :: 'e netcode_error + bytes) \<and>
    hd wire = REQUEST \<and> 1 < length wire \<and>
    packet_read C wire protocol_id ts private_key rp = (rp, Inr (RequestPkt rq') :: 'f netcode_error + netcode_packet) \<and>
    (\<exists>r. ctp_read_from (reader_from (rq_token_data rq')) = Inr (priv, r)) \<and> rq' = rq\<lparr>rq_token_data := rq_token_data rq'\<rparr>"
proof -
  define wire where "wire = REQUEST # request_enc rq"
  let ?data = "ctp_enc as priv @ drop (length (ctp_enc as priv)) buf"
  have len: "length wire = 1078"
    using length_request_enc [OF assms(1)] by (simp add: wire_def)
  have "packet_write C MAX_PKT_BUF_SIZE (RequestPkt rq) s key protocol_id' = (Inr wire :: 'e netcode_error + bytes)"
    using len by (simp add: packet_write_def request_write_enc write_defs wire_def netcode_sizes)
  moreover have "request_read_from (skip 1 (reader_from wire)) = Inr (rq, skip 1077 (skip 1 (reader_from wire)))"
    by (rule request_read_enc [OF assms(1)]) (simp add: wire_def reader_from_def remaining_slice_def skip_def)
  moreover have "into_slice buf (ctp_write_to priv []) = Inr ?data"
    using into_slice_ok [OF ctp_write_enc [OF assms(4), of "[]"], of buf] ctp_enc_length [OF assms(4)] assms(5)
    by (simp add: netcode_sizes CTP_SIZE_def)
  then have "decrypt_token_data C rq private_key = (Inr (rq\<lparr>rq_token_data := ?data\<rparr>) :: 'f netcode_error + request_packet)"
    using assms(3) by (simp add: decrypt_token_data_def)
  ultimately have "packet_write C MAX_PKT_BUF_SIZE (RequestPkt rq) s key protocol_id' = (Inr wire :: 'e netcode_error + bytes)"
    "packet_read C wire protocol_id ts private_key rp =
      (rp, Inr (RequestPkt (rq\<lparr>rq_token_data := ?data\<rparr>)) :: 'f netcode_error + netcode_packet)"
    using len assms(2) by (simp_all add: packet_read_def wire_def netcode_sizes Let_def split: prod.split)
  moreover have "\<exists>r. ctp_read_from (reader_from ?data) = Inr (priv, r)"
    using ctp_read_enc [OF assms(4)] by (metis reader_from_def remaining_slice_def drop_0 reader.select_convs)
  ultimately show ?thesis
    using len by (intro exI [of _ wire] exI [of _ "rq\<lparr>rq_token_data := ?data\<rparr>"]) (simp add: wire_def)
qed

lemma toy_chacha: "aead_cipher (chacha toy_crypto) n"
  by (simp add: toy_crypto_def toy_cipher.aead_cipher_axioms)

theorem netcode_packet_roundtrip_witness:
  "\<exists>wire. packet_write toy_crypto MAX_PKT_BUF_SIZE (KeepAlivePkt 5) 1 (replicate 32 9) 7 =
      (Inr wire :: unit netcode_error + bytes) \<and>
    packet_read toy_crypto wire 7 0 (replicate 32 9) (Some replay_protection_new) =
      (Some (advance_sequence 1 replay_protection_new), Inr (KeepAlivePkt 5) :: unit netcode_error + netcode_packet) \<and>
    packet_read toy_crypto wire 7 0 (replicate 32 9) (Some (advance_sequence 1 replay_protection_new)) =
      (Some (advance_sequence 1 replay_protection_new), Inl (PacketErr (AlreadyReceived 1)) :: unit netcode_error + netcode_packet)"
proof -
  have "\<not> is_already_received 1 replay_protection_new"
    by (simp add: is_already_received_def replay_protection_new_def REPLAY_PROTECTION_BUFFER_SIZE_def)
  moreover have "packet_ok (KeepAlivePkt 5)" "(1 :: u64) \<noteq> UNRECEIVED" "received_packet replay_protection_new \<noteq> []"
    by (simp_all add: packet_ok_def UNRECEIVED_def replay_protection_new_def REPLAY_PROTECTION_BUFFER_SIZE_def)
  ultimately show ?thesis
    using netcode_packet_roundtrip [where ?'e = unit and ?'f = unit, OF toy_chacha, of "replicate 32 9"
        "KeepAlivePkt 5" 1 replay_protection_new 7 0]
    by (auto simp: netcode_sizes packet_kind_def packet_kinds)
qed

section \<open>What an accepted packet shows\<close>

text \<open>
  C21: a packet that is accepted, and whose first byte is not that of a plain connection request, is
  genuine: its bytes after the sequence number are the encryption of some text under the connection's
  key, with the sequence number as nonce and the protocol and the prefix byte as associated data. If
  it is read with a replay window and is a keep-alive, a payload or a disconnect, it is also fresh:
  the window had not seen its sequence number and has recorded it. A denied, challenge or response
  packet is not checked against the window, and no window changes in any other case.
\<close>

theorem accepted_packets_are_genuine:
  assumes cipher: "aead_cipher (chacha C) 12" and "hd buf \<noteq> REQUEST"
    and read: "packet_read C buf protocol_id ts key rp = (rp', Inr p)"
  shows "\<exists>n kind s body. get_prefix (hd buf) = (n, kind) \<and> n \<le> 8 \<and>
    s = word_of_nat (be_nat (rev (take n (tl buf) @ replicate (8 - n) 0))) \<and>
    chacha_encrypt C (body @ replicate MAC_BYTES 0) (Some (packet_aead protocol_id (hd buf))) s key =
      Inr (drop (Suc n) buf) \<and>
    (case rp of
       Some w \<Rightarrow> if KEEP_ALIVE \<le> kind then \<not> is_already_received s w \<and> rp' = Some (advance_sequence s w)
         else rp' = Some w
     | None \<Rightarrow> rp' = None)"
proof -
  obtain n kind where prefix: "get_prefix (hd buf) = (n, kind)"
    by (cases "get_prefix (hd buf)")
  let ?s = "word_of_nat (be_nat (rev (take n (tl buf) @ replicate (8 - n) 0))) :: u64"
  have size: "1 \<le> length buf" "length buf \<le> MAX_PKT_BUF_SIZE" "1 + n + MAC_BYTES \<le> length buf"
    using read assms(2) prefix by (auto simp: packet_read_def not_le Let_def split: if_splits)
  have "n \<le> 8"
    using read assms(2) prefix size by (auto simp: packet_read_def read_sequence_def Let_def split: if_splits)
  have rs: "remaining_slice (skip 1 (reader_from buf)) = tl buf"
    by (simp add: reader_from_def remaining_slice_def skip_def drop_Suc)
  have "read_exact n (skip 1 (reader_from buf)) = Inr (take n (tl buf), skip n (skip 1 (reader_from buf)))"
    by (rule read_exact_append [where rest = "drop n (tl buf)"]) (use size rs in simp_all)
  then have seq: "read_sequence n (skip 1 (reader_from buf)) = Inr (?s, skip n (skip 1 (reader_from buf)))"
    using \<open>n \<le> 8\<close> by (simp add: read_sequence_def)
  have pos: "rd_pos (skip n (skip 1 (reader_from buf))) = Suc n"
    by (simp add: reader_from_def skip_def)
  obtain suffix where acc: "window_accepts kind ?s rp"
    and dec: "chacha_decrypt C (drop (Suc n) buf) (Some (packet_aead protocol_id (hd buf))) ?s key = Inr suffix"
    and rp': "rp' = window_advance kind ?s rp"
    using read assms(2) prefix size seq pos
    by (auto simp: packet_read_def Let_def window_accepts_def window_advance_def split: if_splits sum.splits)
  from aead_cipher.aead_decrypt_genuine [OF cipher dec [unfolded chacha_decrypt_def]]
  obtain body where "chacha_encrypt C (body @ replicate MAC_BYTES 0) (Some (packet_aead protocol_id (hd buf))) ?s key =
      Inr (drop (Suc n) buf)"
    unfolding chacha_encrypt_def by (metis length_replicate)
  moreover have "case rp of
       Some w \<Rightarrow> if KEEP_ALIVE \<le> kind then \<not> is_already_received ?s w \<and> rp' = Some (advance_sequence ?s w)
         else rp' = Some w
     | None \<Rightarrow> rp' = None"
    using acc rp' by (auto simp: window_accepts_def window_advance_def split: option.split)
  ultimately show ?thesis
    using prefix \<open>n \<le> 8\<close> by blast
qed

theorem accepted_packets_are_genuine_witness:
  "\<exists>wire w s body. packet_read toy_crypto wire 7 0 (replicate 32 9) (Some replay_protection_new) =
      (Some w, Inr (KeepAlivePkt 5) :: unit netcode_error + netcode_packet) \<and>
    chacha_encrypt toy_crypto (body @ replicate MAC_BYTES 0) (Some (packet_aead 7 (hd wire))) s (replicate 32 9) =
      Inr (drop (Suc (fst (get_prefix (hd wire)))) wire)"
proof -
  let ?w = "replay_protection_new"
  have "packet_ok (KeepAlivePkt 5)" and key: "length (replicate 32 (9 :: u8)) = PRIVATE_KEY_BYTES"
    by (simp_all add: packet_ok_def netcode_sizes)
  have "window_accepts (packet_kind (KeepAlivePkt 5)) 1 (Some ?w)"
    by (simp add: window_accepts_def is_already_received_def replay_protection_new_def
        REPLAY_PROTECTION_BUFFER_SIZE_def)
  with packet_write_read [where ?'e = unit and ?'f = unit, OF toy_chacha key \<open>packet_ok (KeepAlivePkt 5)\<close>, of 1 7]
  obtain wire where hd: "hd wire \<noteq> REQUEST"
    and read: "packet_read toy_crypto wire 7 0 (replicate 32 9) (Some ?w) =
      (window_advance (packet_kind (KeepAlivePkt 5)) 1 (Some ?w), Inr (KeepAlivePkt 5) :: unit netcode_error + netcode_packet)"
    by auto
  have "window_advance (packet_kind (KeepAlivePkt 5)) 1 (Some ?w) = Some (advance_sequence 1 ?w)"
    by (simp add: window_advance_def packet_kind_def packet_kinds)
  from accepted_packets_are_genuine [OF toy_chacha hd read [unfolded this]] read [unfolded this] show ?thesis
    by fastforce
qed

text \<open>
  C22: the length of the sequence number is taken from the packet and never checked. Any packet of
  the right size whose first byte announces more than eight bytes makes the reader panic, whatever
  its content: no key is needed.
\<close>

theorem sequence_length_panics_reader:
  assumes "8 < unat (drop_bit 4 (hd buf))" and "length buf \<le> MAX_PKT_BUF_SIZE"
    and "1 + unat (drop_bit 4 (hd buf)) + MAC_BYTES \<le> length buf"
  shows "packet_read C buf protocol_id ts key rp = (rp, Inl NetcodePanicked)"
proof -
  have "hd buf \<noteq> REQUEST" "buf \<noteq> []"
    using assms(1,3) by (auto simp: REQUEST_def)
  with assms show ?thesis
    by (simp add: packet_read_def get_prefix_def read_sequence_def Let_def)
qed

theorem sequence_length_panics_reader_witness:
  "packet_read toy_crypto (0x95 # replicate 40 0) 7 0 (replicate 32 9) None = (None, Inl NetcodePanicked)"
  by (rule sequence_length_panics_reader) (simp_all add: netcode_sizes)

text \<open>
  A connection request that is sent inside an encrypted packet skips every check. Whoever holds
  a connection key can make the reader return a request with any version, protocol and expiry and
  with any token data, neither validated nor decrypted with the server's private key.
\<close>

theorem encrypted_request_is_not_validated:
  assumes "aead_cipher (chacha C) 12" and "length key = PRIVATE_KEY_BYTES"
    and "length (rq_version_info rq) = 13" and "length (rq_token_nonce rq) = 24"
    and "length (rq_token_data rq) = CTP_SIZE"
  shows "\<exists>wire. write_encrypted C MAX_PKT_BUF_SIZE REQUEST s key protocol_id (request_write_to rq) =
      (Inr wire :: 'e netcode_error + bytes) \<and> hd wire \<noteq> REQUEST \<and> wire \<noteq> [] \<and>
    (\<forall>ts rp. packet_read C wire protocol_id ts key rp =
      (rp, Inr (RequestPkt rq) :: 'f netcode_error + netcode_packet))"
proof -
  have ok: "request_ok rq"
    using assms(3-5) by (simp add: request_ok_def)
  have small: "length (request_enc rq) \<le> MAX_PKT_BUF_SIZE - MAC_BYTES - 9" and kind: "kind_ok REQUEST"
    using length_request_enc [OF ok] by (simp_all add: netcode_sizes kind_ok_def REQUEST_def)
  from write_encrypted_read [OF assms(1,2) kind request_write_enc small, of s protocol_id]
  obtain wire mac where w: "write_encrypted C MAX_PKT_BUF_SIZE REQUEST s key protocol_id (request_write_to rq) =
      (Inr wire :: 'e netcode_error + bytes)" "hd wire \<noteq> REQUEST" "1 < length wire"
    and rd: "\<forall>ts rp. window_accepts REQUEST s rp \<longrightarrow> packet_read C wire protocol_id ts key rp =
      (window_advance REQUEST s rp, packet_parse REQUEST (request_enc rq @ mac) :: 'f netcode_error + netcode_packet)"
    by blast
  have "request_read_from (reader_from (request_enc rq @ mac)) = Inr (rq, skip 1077 (reader_from (request_enc rq @ mac)))"
    by (rule request_read_enc [OF ok]) (simp add: reader_from_def remaining_slice_def)
  then have "packet_parse REQUEST (request_enc rq @ mac) = (Inr (RequestPkt rq) :: 'f netcode_error + netcode_packet)"
    by (simp add: packet_parse_def)
  moreover have "window_accepts REQUEST s rp" "window_advance REQUEST s rp = rp" for rp
    by (simp_all add: window_accepts_def window_advance_def packet_kinds)
  moreover have "wire \<noteq> []"
    using w(3) by auto
  ultimately show ?thesis
    using w(1,2) rd by auto
qed

definition forged_request :: request_packet where
  "forged_request = \<lparr>rq_version_info = replicate 13 0, rq_protocol_id = 8, rq_expire_timestamp = 0,
     rq_token_nonce = replicate 24 0, rq_token_data = replicate 1024 1\<rparr>"

theorem encrypted_request_is_not_validated_witness:
  "\<exists>wire. packet_read toy_crypto wire 7 0 (replicate 32 9) None =
     (None, Inr (RequestPkt forged_request) :: unit netcode_error + netcode_packet)"
proof -
  have "length (rq_version_info forged_request) = 13" "length (rq_token_nonce forged_request) = 24"
    "length (rq_token_data forged_request) = CTP_SIZE" "length (replicate 32 (9 :: u8)) = PRIVATE_KEY_BYTES"
    by (simp_all add: forged_request_def netcode_sizes CTP_SIZE_def)
  from encrypted_request_is_not_validated [where ?'e = unit and ?'f = unit, OF toy_chacha this(4,1,2,3), of 1 7]
  show ?thesis by blast
qed

end
