(* ===== verification/Netcode_Server.thy ===== *)
theory Netcode_Server
  imports Netcode_Packet "HOL-Library.AList"
begin

text \<open>
  The netcode server (\<open>crates/connection/netcode/src/server.rs\<close>). Entities are a type \<open>'e\<close> and the
  64-bit float times a type \<open>'t\<close> whose operations are a parameter. A hash map that is iterated over
  is an association list, whose order stands for the iteration order. The callbacks and the
  \<open>Connecting\<close> marker are recorded as events; counters wrap as in a release build; the reused
  buffers \<open>writer\<close> and \<open>client_ids_scratch\<close> have no visible effect and are left out.
\<close>

section \<open>Time\<close>

text \<open>The arithmetic on \<open>f64\<close> that the code uses, with its comparisons.\<close>

record 't f64_ops =
  f_zero :: 't
  f_neg_infinity :: 't
  f_infinity :: 't
  f_one :: 't
  f_add :: "'t \<Rightarrow> 't \<Rightarrow> 't"
  f_sub :: "'t \<Rightarrow> 't \<Rightarrow> 't"
  f_lt :: "'t \<Rightarrow> 't \<Rightarrow> bool"
  f_ge :: "'t \<Rightarrow> 't \<Rightarrow> bool"
  f_of_i32 :: "int \<Rightarrow> 't"
  f_of_u64 :: "u64 \<Rightarrow> 't"

section \<open>Token entries\<close>

record ('e, 't) token_entry =
  te_time :: 't
  te_mac :: bytes
  te_entity :: 'e

text \<open>The scan over the saved entries: the position of the oldest one and of a matching one.\<close>

primrec scan_entries ::
  "'t f64_ops \<Rightarrow> ('e, 't) token_entry \<Rightarrow> nat \<Rightarrow> ('e, 't) token_entry list \<Rightarrow>
   nat option \<times> 't \<times> nat option \<Rightarrow> nat option \<times> 't \<times> nat option" where
  "scan_entries F entry idx [] acc = acc"
| "scan_entries F entry idx (saved # es) acc =
     (let (oldest, oldest_time, matching) = acc;
          (oldest, oldest_time) =
            (if f_lt F (te_time entry) oldest_time then (Some idx, te_time saved) else (oldest, oldest_time));
          matching = (if te_mac entry = te_mac saved then Some idx else matching)
      in scan_entries F entry (Suc idx) es (oldest, oldest_time, matching))"

definition find_or_insert ::
  "'t f64_ops \<Rightarrow> ('e, 't) token_entry \<Rightarrow> ('e, 't) token_entry list \<Rightarrow> ('e, 't) token_entry list \<times> bool" where
  "find_or_insert F entry inner =
     (case scan_entries F entry 0 inner (None, f_infinity F, None) of
        (None, _, _) \<Rightarrow> (inner @ [entry], True)
      | (Some oldest, _, matching) \<Rightarrow>
          (case matching of
             Some _ \<Rightarrow> (inner, True)
           | None \<Rightarrow> (inner[oldest := entry], True)))"

section \<open>Connections\<close>

record ('e, 't) connection =
  cn_confirmed :: bool
  cn_connected :: bool
  cn_client_id :: client_id
  cn_entity :: 'e
  cn_timeout :: int
  cn_last_access_time :: 't
  cn_last_send_time :: 't
  cn_last_receive_time :: 't
  cn_send_key :: key
  cn_receive_key :: key
  cn_sequence :: u64
  cn_user_data :: bytes

record ('e, 't) connection_cache =
  cc_clients :: "(client_id \<times> ('e, 't) connection) list"
  cc_client_id_map :: "'e \<rightharpoonup> client_id"
  cc_replay_protection :: "client_id \<rightharpoonup> replay_protection"
  cc_time :: 't

definition connection_cache_new :: "'t \<Rightarrow> ('e, 't) connection_cache" where
  "connection_cache_new server_time =
     \<lparr>cc_clients = [], cc_client_id_map = Map.empty, cc_replay_protection = Map.empty, cc_time = server_time\<rparr>"

definition find_by_id :: "client_id \<Rightarrow> ('e, 't) connection_cache \<Rightarrow> ('e, 't) connection option" where
  "find_by_id client_id cc = map_of (cc_clients cc) client_id"

text \<open>\<open>mut_by_id\<close>: change the connection stored under a key, when there is one.\<close>

definition modify_by_id ::
  "client_id \<Rightarrow> (('e, 't) connection \<Rightarrow> ('e, 't) connection) \<Rightarrow> ('e, 't) connection_cache \<Rightarrow> ('e, 't) connection_cache" where
  "modify_by_id client_id f cc =
     (case find_by_id client_id cc of
        Some conn \<Rightarrow> cc\<lparr>cc_clients := AList.update client_id (f conn) (cc_clients cc)\<rparr>
      | None \<Rightarrow> cc)"

definition find_by_entity :: "'e \<Rightarrow> ('e, 't) connection_cache \<Rightarrow> ('e, 't) connection option" where
  "find_by_entity entity cc = Option.bind (cc_client_id_map cc entity) (\<lambda>client_id. find_by_id client_id cc)"

text \<open>An entity that has a connection keeps it, under its old key, with the new contents.\<close>

definition cache_add ::
  "'t f64_ops \<Rightarrow> client_id \<Rightarrow> 'e \<Rightarrow> int \<Rightarrow> key \<Rightarrow> key \<Rightarrow> bytes \<Rightarrow> ('e, 't) connection_cache \<Rightarrow> ('e, 't) connection_cache" where
  "cache_add F client_id entity timeout send_key receive_key udata cc =
     (case cc_client_id_map cc entity of
        Some old_id \<Rightarrow>
          if find_by_id old_id cc \<noteq> None
          then modify_by_id old_id (\<lambda>existing. existing\<lparr>cn_client_id := client_id, cn_timeout := timeout,
                 cn_send_key := send_key, cn_receive_key := receive_key,
                 cn_last_access_time := cc_time cc, cn_user_data := udata\<rparr>) cc
          else
            cc\<lparr>cc_clients := AList.update client_id
                 \<lparr>cn_confirmed = False, cn_connected = False, cn_client_id = client_id, cn_entity = entity,
                  cn_timeout = timeout, cn_last_access_time = cc_time cc,
                  cn_last_send_time = f_neg_infinity F, cn_last_receive_time = f_neg_infinity F,
                  cn_send_key = send_key, cn_receive_key = receive_key, cn_sequence = push_bit 62 1,
                  cn_user_data = udata\<rparr> (cc_clients cc),
               cc_replay_protection := (cc_replay_protection cc)(client_id \<mapsto> replay_protection_new),
               cc_client_id_map := (cc_client_id_map cc)(entity \<mapsto> client_id)\<rparr>
      | None \<Rightarrow>
          cc\<lparr>cc_clients := AList.update client_id
               \<lparr>cn_confirmed = False, cn_connected = False, cn_client_id = client_id, cn_entity = entity,
                cn_timeout = timeout, cn_last_access_time = cc_time cc,
                cn_last_send_time = f_neg_infinity F, cn_last_receive_time = f_neg_infinity F,
                cn_send_key = send_key, cn_receive_key = receive_key, cn_sequence = push_bit 62 1,
                cn_user_data = udata\<rparr> (cc_clients cc),
             cc_replay_protection := (cc_replay_protection cc)(client_id \<mapsto> replay_protection_new),
             cc_client_id_map := (cc_client_id_map cc)(entity \<mapsto> client_id)\<rparr>)"

definition cache_remove :: "client_id \<Rightarrow> ('e, 't) connection_cache \<Rightarrow> ('e, 't) connection_cache" where
  "cache_remove client_id cc =
     (case find_by_id client_id cc of
        None \<Rightarrow> cc
      | Some conn \<Rightarrow>
          if \<not> cn_connected conn then cc
          else cc\<lparr>cc_client_id_map := (cc_client_id_map cc)(cn_entity conn := None),
                  cc_replay_protection := (cc_replay_protection cc)(client_id := None),
                  cc_clients := AList.delete client_id (cc_clients cc)\<rparr>)"

definition cache_clear :: "('e, 't) connection_cache \<Rightarrow> ('e, 't) connection_cache" where
  "cache_clear cc =
     cc\<lparr>cc_clients := [], cc_client_id_map := Map.empty, cc_replay_protection := Map.empty\<rparr>"

definition cache_update :: "'t f64_ops \<Rightarrow> 't \<Rightarrow> ('e, 't) connection_cache \<Rightarrow> ('e, 't) connection_cache" where
  "cache_update F delta_ms cc = cc\<lparr>cc_time := f_add F (cc_time cc) delta_ms\<rparr>"

definition take_client_ids :: "('e, 't) connection_cache \<Rightarrow> client_id list" where
  "take_client_ids cc = map fst (cc_clients cc)"

section \<open>The server\<close>

text \<open>\<open>handle_request\<close> is the user's handler: \<open>Some\<close> reason denies the connection.\<close>

record 't server_config =
  cfg_max_clients :: nat
  cfg_num_disconnect_packets :: nat
  cfg_keep_alive_send_rate :: 't
  cfg_token_expire_secs :: int
  cfg_client_timeout_secs :: int
  cfg_handle_request :: "peer_id \<Rightarrow> denied_reason option"
  cfg_additional_expected_addresses :: "socket_addr list"

definition MAX_CLIENTS :: nat where "MAX_CLIENTS = 256"
definition CLIENT_TIMEOUT_SECS :: int where "CLIENT_TIMEOUT_SECS = 10"

text \<open>\<open>rate\<close> is the constant \<open>PACKET_SEND_RATE_SEC\<close>; the default handler accepts every request.\<close>

definition server_config_default :: "'t \<Rightarrow> 't server_config" where
  "server_config_default rate =
     \<lparr>cfg_max_clients = MAX_CLIENTS, cfg_num_disconnect_packets = 10, cfg_keep_alive_send_rate = rate,
      cfg_token_expire_secs = TOKEN_EXPIRE_SEC, cfg_client_timeout_secs = CLIENT_TIMEOUT_SECS,
      cfg_handle_request = (\<lambda>_. None), cfg_additional_expected_addresses = []\<rparr>"

definition max_clients :: "nat \<Rightarrow> 't server_config \<Rightarrow> 't server_config" where
  "max_clients n cfg = cfg\<lparr>cfg_max_clients := n\<rparr>"

definition num_disconnect_packets :: "nat \<Rightarrow> 't server_config \<Rightarrow> 't server_config" where
  "num_disconnect_packets num cfg = cfg\<lparr>cfg_num_disconnect_packets := num\<rparr>"

definition keep_alive_send_rate :: "'t \<Rightarrow> 't server_config \<Rightarrow> 't server_config" where
  "keep_alive_send_rate rate_seconds cfg = cfg\<lparr>cfg_keep_alive_send_rate := rate_seconds\<rparr>"

definition client_timeout_secs :: "int \<Rightarrow> 't server_config \<Rightarrow> 't server_config" where
  "client_timeout_secs secs cfg = cfg\<lparr>cfg_client_timeout_secs := secs\<rparr>"

definition token_expire_secs :: "int \<Rightarrow> 't server_config \<Rightarrow> 't server_config" where
  "token_expire_secs secs cfg = cfg\<lparr>cfg_token_expire_secs := secs\<rparr>"

definition connection_request_handler ::
  "(peer_id \<Rightarrow> denied_reason option) \<Rightarrow> 't server_config \<Rightarrow> 't server_config" where
  "connection_request_handler handler cfg = cfg\<lparr>cfg_handle_request := handler\<rparr>"

definition additional_expected_addresses :: "socket_addr list \<Rightarrow> 't server_config \<Rightarrow> 't server_config" where
  "additional_expected_addresses addresses cfg = cfg\<lparr>cfg_additional_expected_addresses := addresses\<rparr>"

datatype 'e server_event =
    OnConnect client_id 'e bytes
  | OnDisconnect client_id 'e
  | InsertConnecting 'e

record ('e, 't) server =
  sv_time :: 't
  sv_private_key :: key
  sv_sequence :: u64
  sv_token_sequence :: u64
  sv_challenge_sequence :: u64
  sv_challenge_key :: key
  sv_protocol_id :: u64
  sv_conn_cache :: "('e, 't) connection_cache"
  sv_token_entries :: "('e, 't) token_entry list"
  sv_cfg :: "'t server_config"
  sv_send_queue :: "'e \<rightharpoonup> bytes list"
  sv_client_errors :: "'e netcode_error list"
  sv_events :: "'e server_event list"

type_synonym ('e, 't, 'a) server_op = "('e, 't) server \<times> ('e netcode_error + 'a)"

text \<open>The question-mark operator of a method: an error returns with the state reached so far.\<close>

definition sbind ::
  "('e, 't, 'a) server_op \<Rightarrow> ('a \<Rightarrow> ('e, 't) server \<Rightarrow> ('e, 't, 'b) server_op) \<Rightarrow> ('e, 't, 'b) server_op" where
  "sbind m f = (case m of (s, Inl e) \<Rightarrow> (s, Inl e) | (s, Inr x) \<Rightarrow> f x s)"

lemma sbind_simps [simp]: "sbind (s, Inl e) f = (s, Inl e)" "sbind (s, Inr x) f = f x s"
  by (simp_all add: sbind_def)

definition with_config :: "'t f64_ops \<Rightarrow> key \<Rightarrow> u64 \<Rightarrow> key \<Rightarrow> 't server_config \<Rightarrow> ('e, 't) server" where
  "with_config F challenge_key protocol_id private_key cfg =
     \<lparr>sv_time = f_zero F, sv_private_key = private_key, sv_sequence = push_bit 23 1, sv_token_sequence = 0,
      sv_challenge_sequence = 0, sv_challenge_key = challenge_key, sv_protocol_id = protocol_id,
      sv_conn_cache = connection_cache_new (f_zero F), sv_token_entries = [], sv_cfg = cfg,
      sv_send_queue = Map.empty, sv_client_errors = [], sv_events = []\<rparr>"

definition server_new :: "'t f64_ops \<Rightarrow> 't \<Rightarrow> key \<Rightarrow> u64 \<Rightarrow> key \<Rightarrow> ('e, 't) server" where
  "server_new F rate challenge_key protocol_id private_key =
     with_config F challenge_key protocol_id private_key (server_config_default rate)"

definition set_connection_request_handler ::
  "(peer_id \<Rightarrow> denied_reason option) \<Rightarrow> ('e, 't) server \<Rightarrow> ('e, 't) server" where
  "set_connection_request_handler h s = s\<lparr>sv_cfg := (sv_cfg s)\<lparr>cfg_handle_request := h\<rparr>\<rparr>"

text \<open>The new challenge key comes from the operating system.\<close>

definition server_reset :: "key \<Rightarrow> ('e, 't) server \<Rightarrow> ('e, 't) server" where
  "server_reset challenge_key s =
     s\<lparr>sv_challenge_key := challenge_key, sv_conn_cache := cache_clear (sv_conn_cache s),
       sv_token_entries := [], sv_send_queue := Map.empty, sv_client_errors := []\<rparr>"

definition on_connect :: "client_id \<Rightarrow> 'e \<Rightarrow> bytes \<Rightarrow> ('e, 't) server \<Rightarrow> ('e, 't) server" where
  "on_connect client_id entity udata s = s\<lparr>sv_events := sv_events s @ [OnConnect client_id entity udata]\<rparr>"

definition on_disconnect :: "client_id \<Rightarrow> 'e \<Rightarrow> ('e, 't) server \<Rightarrow> ('e, 't) server" where
  "on_disconnect client_id entity s = s\<lparr>sv_events := sv_events s @ [OnDisconnect client_id entity]\<rparr>"

definition connected_client_ids :: "('e, 't) server \<Rightarrow> client_id list" where
  "connected_client_ids s = map fst (filter (\<lambda>(_, c). cn_connected c) (cc_clients (sv_conn_cache s)))"

definition num_connected_clients :: "('e, 't) server \<Rightarrow> nat" where
  "num_connected_clients s = length (filter (\<lambda>(_, c). cn_connected c) (cc_clients (sv_conn_cache s)))"

definition touch_client :: "client_id \<Rightarrow> ('e, 't) server \<Rightarrow> ('e, 't) server" where
  "touch_client client_id s =
     s\<lparr>sv_conn_cache := modify_by_id client_id
         (\<lambda>conn. conn\<lparr>cn_last_receive_time := sv_time s, cn_confirmed := True\<rparr>) (sv_conn_cache s)\<rparr>"

text \<open>\<open>entry(entity).or_default().push(..)\<close>\<close>

definition queue_push :: "'e \<Rightarrow> bytes \<Rightarrow> ('e \<rightharpoonup> bytes list) \<Rightarrow> ('e \<rightharpoonup> bytes list)" where
  "queue_push entity buf q = q(entity \<mapsto> (case q entity of Some bs \<Rightarrow> bs | None \<Rightarrow> []) @ [buf])"

definition send_netcode_packet ::
  "crypto_ops \<Rightarrow> netcode_packet \<Rightarrow> key \<Rightarrow> 'e \<Rightarrow> ('e, 't) server \<Rightarrow> ('e, 't, unit) server_op" where
  "send_netcode_packet C packet key entity s =
     (case packet_write C MAX_PKT_BUF_SIZE packet (sv_sequence s) key (sv_protocol_id s) of
        Inl e \<Rightarrow> (s, Inl e)
      | Inr buf \<Rightarrow>
          (s\<lparr>sv_send_queue := queue_push entity buf (sv_send_queue s), sv_sequence := sv_sequence s + 1\<rparr>, Inr ()))"

definition sent_to :: "'t \<Rightarrow> ('e, 't) connection \<Rightarrow> ('e, 't) connection" where
  "sent_to now conn =
     conn\<lparr>cn_last_access_time := now, cn_last_send_time := now, cn_sequence := cn_sequence conn + 1\<rparr>"

text \<open>The three sends to a client: \<open>write\<close> serialises, the result is the datagram to push.\<close>

definition send_with ::
  "(u64 \<Rightarrow> key \<Rightarrow> u64 \<Rightarrow> 'e netcode_error + bytes) \<Rightarrow> client_id \<Rightarrow> ('e, 't) server \<Rightarrow> ('e, 't, bytes) server_op" where
  "send_with wr client_id s =
     (case find_by_id client_id (sv_conn_cache s) of
        None \<Rightarrow> (s, Inl (ClientNotFound (PeerNetcode client_id)))
      | Some conn \<Rightarrow>
          (case wr (cn_sequence conn) (cn_send_key conn) (sv_protocol_id s) of
             Inl e \<Rightarrow> (s, Inl e)
           | Inr buf \<Rightarrow>
               (s\<lparr>sv_conn_cache := modify_by_id client_id (sent_to (sv_time s)) (sv_conn_cache s)\<rparr>, Inr buf)))"

definition send_to_client ::
  "crypto_ops \<Rightarrow> netcode_packet \<Rightarrow> client_id \<Rightarrow> bytes list \<Rightarrow> ('e, 't) server \<Rightarrow> ('e, 't, bytes list) server_op" where
  "send_to_client C packet client_id sender s =
     sbind (send_with (packet_write C MAX_PKT_BUF_SIZE packet) client_id s) (\<lambda>buf s. (s, Inr (sender @ [buf])))"

definition send_payload_to_client ::
  "crypto_ops \<Rightarrow> bytes \<Rightarrow> client_id \<Rightarrow> bytes list \<Rightarrow> ('e, 't) server \<Rightarrow> ('e, 't, bytes list) server_op" where
  "send_payload_to_client C payload client_id sender s =
     sbind (send_with (write_payload C MAX_PKT_BUF_SIZE payload) client_id s) (\<lambda>buf s. (s, Inr (sender @ [buf])))"

definition send_netcode_to_client ::
  "crypto_ops \<Rightarrow> netcode_packet \<Rightarrow> client_id \<Rightarrow> 'e \<Rightarrow> ('e, 't) server \<Rightarrow> ('e, 't, unit) server_op" where
  "send_netcode_to_client C packet client_id entity s =
     sbind (send_with (packet_write C MAX_PKT_BUF_SIZE packet) client_id s)
       (\<lambda>buf s. (s\<lparr>sv_send_queue := queue_push entity buf (sv_send_queue s)\<rparr>, Inr ()))"

section \<open>The handshake\<close>

definition addr_port :: "socket_addr \<Rightarrow> u16" where
  "addr_port a = (case a of V4 _ port \<Rightarrow> port | V6 _ port _ _ \<Rightarrow> port)"

definition is_ipv4 :: "socket_addr \<Rightarrow> bool" where
  "is_ipv4 a = (case a of V4 _ _ \<Rightarrow> True | V6 _ _ _ _ \<Rightarrow> False)"

definition same_ip :: "socket_addr \<Rightarrow> socket_addr \<Rightarrow> bool" where
  "same_ip a b =
     (case a of
        V4 ip _ \<Rightarrow> (case b of V4 ip' _ \<Rightarrow> ip = ip' | V6 _ _ _ _ \<Rightarrow> False)
      | V6 ip _ _ _ \<Rightarrow> (case b of V4 _ _ \<Rightarrow> False | V6 ip' _ _ _ \<Rightarrow> ip = ip'))"

definition is_unspecified :: "socket_addr \<Rightarrow> bool" where
  "is_unspecified a =
     (case a of V4 ip _ \<Rightarrow> ip = (0, 0, 0, 0) | V6 ip _ _ _ \<Rightarrow> ip = [0, 0, 0, 0, 0, 0, 0, 0])"

definition is_loopback :: "socket_addr \<Rightarrow> bool" where
  "is_loopback a =
     (case a of V4 ip _ \<Rightarrow> fst ip = 127 | V6 ip _ _ _ \<Rightarrow> ip = [0, 0, 0, 0, 0, 0, 0, 1])"

definition server_addr_matches :: "socket_addr \<Rightarrow> socket_addr \<Rightarrow> bool" where
  "server_addr_matches local_addr token_addr =
     (if addr_port local_addr \<noteq> addr_port token_addr \<or> is_ipv4 local_addr \<noteq> is_ipv4 token_addr then False
      else same_ip local_addr token_addr \<or>
           is_unspecified local_addr \<and> is_loopback token_addr \<or>
           is_loopback local_addr \<and> is_unspecified token_addr)"

definition address_allowed :: "socket_addr list \<Rightarrow> socket_addr option \<Rightarrow> address_list \<Rightarrow> bool" where
  "address_allowed additional server_addr addresses =
     (case server_addr of
        None \<Rightarrow> True
      | Some a \<Rightarrow>
          list_ex (\<lambda>token_addr. server_addr_matches a token_addr \<or>
                     list_ex (\<lambda>expected_addr. server_addr_matches expected_addr token_addr) additional)
            (map snd (fl_iter addresses)))"

definition process_connection_request ::
  "'t f64_ops \<Rightarrow> crypto_ops \<Rightarrow> request_packet \<Rightarrow> 'e \<Rightarrow> socket_addr option \<Rightarrow> ('e, 't) server \<Rightarrow> ('e, 't, unit) server_op" where
  "process_connection_request F C packet entity server_addr s =
     (case lift_io (ctp_read_from (reader_from (rq_token_data packet))) of
        Inl e \<Rightarrow> (s, Inl e)
      | Inr (token, _) \<Rightarrow>
          (let peer = PeerNetcode (ctp_client_id token);
               connected = (\<lambda>conn. case conn of Some c \<Rightarrow> cn_connected c | None \<Rightarrow> False)
           in if \<not> address_allowed (cfg_additional_expected_addresses (sv_cfg s)) server_addr (ctp_server_addresses token)
              then (s, Inr ())
              else if connected (find_by_entity entity (sv_conn_cache s)) then (s, Inl (ClientEntityInUse entity))
              else if connected (find_by_id (ctp_client_id token) (sv_conn_cache s)) then (s, Inl (ClientIdInUse peer))
              else
                (let entry = \<lparr>te_time = sv_time s,
                              te_mac = take MAC_BYTES (drop (CTP_SIZE - MAC_BYTES) (rq_token_data packet)),
                              te_entity = entity\<rparr>;
                     (entries, fresh) = find_or_insert F entry (sv_token_entries s);
                     s = s\<lparr>sv_token_entries := entries\<rparr>
                 in if \<not> fresh then (s, Inl (ConnectTokenInUse peer))
                    else if num_connected_clients s \<ge> cfg_max_clients (sv_cfg s)
                    then sbind (send_netcode_packet C (DeniedPkt ServerFull) (ctp_server_to_client_key token) entity s)
                           (\<lambda>_ s. (s, Inl (ServerIsFull peer)))
                    else
                      (case cfg_handle_request (sv_cfg s) peer of
                         Some reason \<Rightarrow>
                           sbind (send_netcode_packet C (DeniedPkt reason) (ctp_server_to_client_key token) entity s)
                             (\<lambda>_ s. (s, Inl (Denied peer)))
                       | None \<Rightarrow>
                           (case cht_encrypt C \<lparr>cht_client_id = ctp_client_id token, cht_user_data = ctp_user_data token\<rparr>
                                   (sv_challenge_sequence s) (sv_challenge_key s) :: 'e netcode_error + bytes of
                              Inl _ \<Rightarrow> (s, Inl (ConnectTokenEncryptionFailure peer))
                            | Inr encrypted \<Rightarrow>
                                sbind (send_netcode_packet C (ChallengePkt (sv_challenge_sequence s) encrypted)
                                         (ctp_server_to_client_key token) entity s)
                                  (\<lambda>_ s. (s\<lparr>sv_conn_cache := cache_add F (ctp_client_id token) entity
                                              (ctp_timeout_seconds token) (ctp_server_to_client_key token)
                                              (ctp_client_to_server_key token) (ctp_user_data token) (sv_conn_cache s),
                                            sv_events := sv_events s @ [InsertConnecting entity],
                                            sv_challenge_sequence := sv_challenge_sequence s + 1\<rparr>, Inr ())))))))"

definition process_connection_response ::
  "crypto_ops \<Rightarrow> u64 \<Rightarrow> bytes \<Rightarrow> 'e \<Rightarrow> ('e, 't) server \<Rightarrow> ('e, 't, unit) server_op" where
  "process_connection_response C sequence token entity s =
     (case cht_decrypt C token sequence (sv_challenge_key s) :: 'e netcode_error + challenge_token of
        Inl _ \<Rightarrow> (s, Inl ConnectTokenDecryptionFailure)
      | Inr challenge_token \<Rightarrow>
          (let client_id = cht_client_id challenge_token; peer = PeerNetcode client_id in
           case find_by_id client_id (sv_conn_cache s) of
             None \<Rightarrow> (s, Inl (UnknownClient peer))
           | Some client \<Rightarrow>
               if cn_connected client then (s, Inr ())
               else if num_connected_clients s \<ge> cfg_max_clients (sv_cfg s)
               then sbind (send_netcode_packet C (DeniedPkt ServerFull) (cn_send_key client) entity s)
                      (\<lambda>_ s. (s, Inl (ServerIsFull peer)))
               else
                 (let s = s\<lparr>sv_conn_cache := modify_by_id client_id
                              (\<lambda>c. c\<lparr>cn_connected := True, cn_last_send_time := sv_time s,
                                     cn_last_receive_time := sv_time s\<rparr>) (sv_conn_cache s)\<rparr>
                  in sbind (send_netcode_to_client C (KeepAlivePkt client_id) client_id entity s)
                       (\<lambda>_ s. (on_connect client_id entity (cn_user_data client) s, Inr ())))))"

definition process_packet ::
  "'t f64_ops \<Rightarrow> crypto_ops \<Rightarrow> netcode_packet \<Rightarrow> 'e \<Rightarrow> socket_addr option \<Rightarrow> ('e, 't) server \<Rightarrow> ('e, 't, bytes option) server_op" where
  "process_packet F C packet entity server_addr s =
     (let client_id = map_option cn_client_id (find_by_entity entity (sv_conn_cache s)) in
      case packet of
        RequestPkt rq \<Rightarrow> sbind (process_connection_request F C rq entity server_addr s) (\<lambda>_ s. (s, Inr None))
      | ResponsePkt sequence token \<Rightarrow> sbind (process_connection_response C sequence token entity s) (\<lambda>_ s. (s, Inr None))
      | KeepAlivePkt _ \<Rightarrow>
          (case client_id of Some n \<Rightarrow> (touch_client n s, Inr None) | None \<Rightarrow> (s, Inr None))
      | PayloadPkt buf \<Rightarrow>
          (case client_id of Some n \<Rightarrow> (touch_client n s, Inr (Some buf)) | None \<Rightarrow> (s, Inr None))
      | DisconnectPkt \<Rightarrow>
          (case client_id of
             Some n \<Rightarrow>
               (let s = on_disconnect n entity s
                in (s\<lparr>sv_conn_cache := cache_remove n (sv_conn_cache s)\<rparr>, Inr None))
           | None \<Rightarrow> (s, Inr None))
      | _ \<Rightarrow> (s, Inl NetcodePanicked))"

section \<open>Receiving\<close>

definition server_recv_packet ::
  "'t f64_ops \<Rightarrow> crypto_ops \<Rightarrow> bytes \<Rightarrow> u64 \<Rightarrow> 'e \<Rightarrow> socket_addr option \<Rightarrow> ('e, 't) server \<Rightarrow> ('e, 't, bytes option) server_op" where
  "server_recv_packet F C buf now entity server_addr s =
     (if length buf \<le> 1 then (s, Inr None)
      else
        (let go = (\<lambda>key rp put.
               case packet_read C buf (sv_protocol_id s) now key rp of
                 (rp, Inl e) \<Rightarrow> (put rp s, Inl e)
               | (rp, Inr packet) \<Rightarrow> process_packet F C packet entity server_addr (put rp s))
         in if hd buf = REQUEST then go (sv_private_key s) None (\<lambda>_ s. s)
            else
              (case find_by_entity entity (sv_conn_cache s) of
                 None \<Rightarrow> (s, Inl (Ignored entity))
               | Some c \<Rightarrow>
                   (let client_id = cn_client_id c in
                    case find_by_id client_id (sv_conn_cache s) of
                      None \<Rightarrow> (s, Inl (ClientNotFound (PeerNetcode client_id)))
                    | Some conn \<Rightarrow>
                        go (cn_receive_key conn) (cc_replay_protection (sv_conn_cache s) client_id)
                          (\<lambda>rp s. s\<lparr>sv_conn_cache := (sv_conn_cache s)\<lparr>cc_replay_protection :=
                             (cc_replay_protection (sv_conn_cache s))(client_id := rp)\<rparr>\<rparr>)))))"

text \<open>
  The loop of \<open>recv_packets\<close> over the packets that were waiting: what it pushes back is the list of
  payloads, in order, and errors are kept for the caller. A panic ends it.
\<close>

fun server_recv_packets ::
  "'t f64_ops \<Rightarrow> crypto_ops \<Rightarrow> bytes list \<Rightarrow> u64 \<Rightarrow> 'e \<Rightarrow> socket_addr option \<Rightarrow> ('e, 't) server \<Rightarrow> ('e, 't, bytes list) server_op" where
  "server_recv_packets F C [] now entity server_addr s = (s, Inr [])"
| "server_recv_packets F C (buf # bufs) now entity server_addr s =
     (case server_recv_packet F C buf now entity server_addr s of
        (s, Inl NetcodePanicked) \<Rightarrow> (s, Inl NetcodePanicked)
      | (s, Inl e) \<Rightarrow>
          server_recv_packets F C bufs now entity server_addr (s\<lparr>sv_client_errors := sv_client_errors s @ [e]\<rparr>)
      | (s, Inr None) \<Rightarrow> server_recv_packets F C bufs now entity server_addr s
      | (s, Inr (Some payload)) \<Rightarrow>
          sbind (server_recv_packets F C bufs now entity server_addr s) (\<lambda>ps s. (s, Inr (payload # ps))))"

definition server_receive ::
  "'t f64_ops \<Rightarrow> crypto_ops \<Rightarrow> bytes list \<Rightarrow> u64 \<Rightarrow> 'e \<Rightarrow> socket_addr option \<Rightarrow> ('e, 't) server \<Rightarrow>
   ('e, 't, bytes list \<times> 'e netcode_error list) server_op" where
  "server_receive F C bufs now entity server_addr s =
     sbind (server_recv_packets F C bufs now entity server_addr s)
       (\<lambda>payloads s. (s\<lparr>sv_client_errors := []\<rparr>, Inr (payloads, sv_client_errors s)))"

definition timeout_step :: "'t f64_ops \<Rightarrow> client_id \<Rightarrow> ('e, 't) server \<Rightarrow> ('e, 't) server" where
  "timeout_step F client_id s =
     (case find_by_id client_id (sv_conn_cache s) of
        None \<Rightarrow> s
      | Some client \<Rightarrow>
          if \<not> cn_connected client then s
          else if cn_timeout client > 0 \<and>
                  f_lt F (f_add F (cn_last_receive_time client) (f_of_i32 F (cn_timeout client))) (sv_time s)
          then (let s = on_disconnect client_id (cn_entity client) s
                in s\<lparr>sv_conn_cache := cache_remove client_id (sv_conn_cache s)\<rparr>)
          else s)"

definition check_for_timeouts :: "'t f64_ops \<Rightarrow> ('e, 't) server \<Rightarrow> ('e, 't) server" where
  "check_for_timeouts F s = fold (timeout_step F) (take_client_ids (sv_conn_cache s)) s"

definition server_update_state :: "'t f64_ops \<Rightarrow> 't \<Rightarrow> ('e, 't) server \<Rightarrow> ('e, 't) server" where
  "server_update_state F delta_ms s =
     check_for_timeouts F (s\<lparr>sv_time := f_add F (sv_time s) delta_ms,
                             sv_conn_cache := cache_update F delta_ms (sv_conn_cache s)\<rparr>)"

section \<open>Sending\<close>

definition send_keepalives ::
  "'t f64_ops \<Rightarrow> crypto_ops \<Rightarrow> client_id \<Rightarrow> bytes list \<Rightarrow> ('e, 't) server \<Rightarrow> ('e, 't, bytes list) server_op" where
  "send_keepalives F C client_id sender s =
     (case find_by_id client_id (sv_conn_cache s) of
        None \<Rightarrow> (s, Inl (ClientNotFound (PeerNetcode client_id)))
      | Some client \<Rightarrow>
          if \<not> cn_connected client then (s, Inr sender)
          else if f_ge F (f_add F (cn_last_send_time client) (cfg_keep_alive_send_rate (sv_cfg s))) (sv_time s)
          then (s, Inr sender)
          else send_to_client C (KeepAlivePkt client_id) client_id sender s)"

definition send_netcode_packets :: "'e \<Rightarrow> bytes list \<Rightarrow> ('e, 't) server \<Rightarrow> ('e, 't) server \<times> bytes list" where
  "send_netcode_packets entity sender s =
     (case sv_send_queue s entity of
        None \<Rightarrow> (s, sender)
      | Some queue \<Rightarrow> (s\<lparr>sv_send_queue := (sv_send_queue s)(entity \<mapsto> [])\<rparr>, sender @ queue))"

definition server_send ::
  "crypto_ops \<Rightarrow> bytes \<Rightarrow> client_id \<Rightarrow> bytes list \<Rightarrow> ('e, 't) server \<Rightarrow> ('e, 't, bytes list) server_op" where
  "server_send C buf client_id sender s =
     (if length buf > MAX_PACKET_SIZE then (s, Inl (SizeMismatch MAX_PACKET_SIZE (length buf)))
      else case find_by_id client_id (sv_conn_cache s) of
             None \<Rightarrow> (s, Inl (ClientNotFound (PeerNetcode client_id)))
           | Some conn \<Rightarrow>
               if \<not> cn_connected conn then (s, Inl (ClientNotConnected (PeerNetcode client_id)))
               else if \<not> cn_confirmed conn
               then sbind (send_to_client C (KeepAlivePkt client_id) client_id sender s)
                      (\<lambda>sender s. send_payload_to_client C buf client_id sender s)
               else send_payload_to_client C buf client_id sender s)"

fun server_send_all ::
  "crypto_ops \<Rightarrow> bytes \<Rightarrow> client_id list \<Rightarrow> bytes list \<Rightarrow> ('e, 't) server \<Rightarrow> ('e, 't, bytes list) server_op" where
  "server_send_all C buf [] sender s = (s, Inr sender)"
| "server_send_all C buf (client_id # ids) sender s =
     (case server_send C buf client_id sender s of
        (s, Inr sender) \<Rightarrow> server_send_all C buf ids sender s
      | (s, Inl (ClientNotConnected _)) \<Rightarrow> server_send_all C buf ids sender s
      | (s, Inl (ClientNotFound _)) \<Rightarrow> server_send_all C buf ids sender s
      | (s, Inl e) \<Rightarrow> (s, Inl e))"

definition send_all :: "crypto_ops \<Rightarrow> bytes \<Rightarrow> bytes list \<Rightarrow> ('e, 't) server \<Rightarrow> ('e, 't, bytes list) server_op" where
  "send_all C buf sender s = server_send_all C buf (take_client_ids (sv_conn_cache s)) sender s"

definition server_token :: "client_id \<Rightarrow> socket_addr \<Rightarrow> ('e, 't) server \<Rightarrow> ('e, 't) server \<times> connect_token_builder" where
  "server_token client_id server_addr s =
     (s\<lparr>sv_token_sequence := sv_token_sequence s + 1\<rparr>,
      connect_token_build [server_addr] (sv_protocol_id s) client_id (sv_private_key s))"

text \<open>The redundant disconnect packets; an error of one does not stop the next.\<close>

fun send_disconnects :: "crypto_ops \<Rightarrow> nat \<Rightarrow> client_id \<Rightarrow> bytes list \<Rightarrow> ('e, 't) server \<Rightarrow> ('e, 't) server \<times> bytes list" where
  "send_disconnects C 0 client_id sender s = (s, sender)"
| "send_disconnects C (Suc n) client_id sender s =
     (case send_to_client C DisconnectPkt client_id sender s of
        (s, Inl _) \<Rightarrow> send_disconnects C n client_id sender s
      | (s, Inr sender) \<Rightarrow> send_disconnects C n client_id sender s)"

definition server_disconnect :: "crypto_ops \<Rightarrow> client_id \<Rightarrow> bytes list \<Rightarrow> ('e, 't) server \<Rightarrow> ('e, 't) server \<times> bytes list" where
  "server_disconnect C client_id sender s =
     (case find_by_id client_id (sv_conn_cache s) of
        None \<Rightarrow> (s, sender)
      | Some conn \<Rightarrow>
          if \<not> cn_connected conn then (s, sender)
          else
            (let s = on_disconnect client_id (cn_entity conn) s;
                 (s, sender) = send_disconnects C (cfg_num_disconnect_packets (sv_cfg s)) client_id sender s
             in (s\<lparr>sv_conn_cache := cache_remove client_id (sv_conn_cache s),
                   sv_send_queue := (sv_send_queue s)(cn_entity conn := None)\<rparr>, sender)))"

definition disconnect_by_entity ::
  "crypto_ops \<Rightarrow> 'e \<Rightarrow> bytes list \<Rightarrow> ('e, 't) server \<Rightarrow> ('e, 't, bytes list) server_op" where
  "disconnect_by_entity C entity sender s =
     (case cc_client_id_map (sv_conn_cache s) entity of
        None \<Rightarrow> (s, Inl (EntityNotFound entity))
      | Some client_id \<Rightarrow> (case server_disconnect C client_id sender s of (s, sender) \<Rightarrow> (s, Inr sender)))"

definition disconnect_all_step :: "crypto_ops \<Rightarrow> client_id \<Rightarrow> ('e, 't) server \<times> bytes list \<Rightarrow> ('e, 't) server \<times> bytes list" where
  "disconnect_all_step C client_id x =
     (case x of (s, sender) \<Rightarrow>
        (case find_by_id client_id (sv_conn_cache s) of
           Some conn \<Rightarrow> if cn_connected conn then server_disconnect C client_id sender s else (s, sender)
         | None \<Rightarrow> (s, sender)))"

definition disconnect_all :: "crypto_ops \<Rightarrow> bytes list \<Rightarrow> ('e, 't) server \<Rightarrow> ('e, 't) server \<times> bytes list" where
  "disconnect_all C sender s = fold (disconnect_all_step C) (take_client_ids (sv_conn_cache s)) (s, sender)"

definition client_entity :: "client_id \<Rightarrow> ('e, 't) server \<Rightarrow> 'e option" where
  "client_entity client_id s = map_option cn_entity (find_by_id client_id (sv_conn_cache s))"

section \<open>Steps of the server\<close>

text \<open>Every operation the plugin calls on the server.\<close>

inductive server_step ::
  "'t f64_ops \<Rightarrow> crypto_ops \<Rightarrow> ('e, 't) server \<Rightarrow> ('e, 't) server \<Rightarrow> bool" for F C where
  step_handler: "server_step F C s (set_connection_request_handler h s)"
| step_reset: "server_step F C s (server_reset challenge_key s)"
| step_receive: "server_step F C s (fst (server_receive F C bufs now entity server_addr s))"
| step_update: "server_step F C s (server_update_state F delta_ms s)"
| step_keepalives: "server_step F C s (fst (send_keepalives F C client_id sender s))"
| step_netcode: "server_step F C s (fst (send_netcode_packets entity sender s))"
| step_send: "server_step F C s (fst (server_send C buf client_id sender s))"
| step_send_all: "server_step F C s (fst (send_all C buf sender s))"
| step_token: "server_step F C s (fst (server_token client_id addr s))"
| step_disconnect: "server_step F C s (fst (server_disconnect C client_id sender s))"
| step_disconnect_entity: "server_step F C s (fst (disconnect_by_entity C entity sender s))"
| step_disconnect_all: "server_step F C s (fst (disconnect_all C sender s))"

section \<open>Relations that every operation respects\<close>

text \<open>
  A relation between the state before and after an operation, kept by composing operations: the
  question-mark operator, a fold over the clients and the loop over the received packets.
\<close>

locale server_preorder =
  fixes R :: "('e, 't) server \<Rightarrow> ('e, 't) server \<Rightarrow> bool"
  assumes R_refl: "R s s"
    and R_trans: "R s s' \<Longrightarrow> R s' s'' \<Longrightarrow> R s s''"
begin

lemma R_sbind:
  assumes "R s (fst m)" and "\<And>x s'. R s' (fst (f x s'))"
  shows "R s (fst (sbind m f))"
proof (cases m)
  case (Pair s1 r)
  then show ?thesis
    using assms R_trans by (cases r) fastforce+
qed

lemma R_fold:
  assumes "\<And>x s. R s (f x s)"
  shows "R s (fold f xs s)"
proof (induction xs arbitrary: s)
  case (Cons x xs)
  show ?case
    using R_trans [OF assms Cons.IH] by simp
qed (simp add: R_refl)

lemma R_fold_fst:
  assumes "\<And>x p. R (fst p) (fst (f x p))"
  shows "R (fst p) (fst (fold f xs p))"
proof (induction xs arbitrary: p)
  case (Cons x xs)
  show ?case
    using R_trans [OF assms Cons.IH] by simp
qed (simp add: R_refl)

end

subsection \<open>The number of connected clients\<close>

text \<open>
  An operation that starts with at most as many connected clients as the configuration allows ends
  so, and no operation changes the limit.
\<close>

definition keeps_capacity :: "('e, 't) server \<Rightarrow> ('e, 't) server \<Rightarrow> bool" where
  "keeps_capacity s s' \<longleftrightarrow>
     cfg_max_clients (sv_cfg s') = cfg_max_clients (sv_cfg s) \<and>
     num_connected_clients s' \<le> max (num_connected_clients s) (cfg_max_clients (sv_cfg s)) \<and>
     (distinct (map fst (cc_clients (sv_conn_cache s))) \<longrightarrow> distinct (map fst (cc_clients (sv_conn_cache s'))))"

interpretation capacity: server_preorder keeps_capacity
  by unfold_locales (auto simp: keeps_capacity_def)

abbreviation connected_in :: "(client_id \<times> ('e, 't) connection) list \<Rightarrow> nat" where
  "connected_in xs \<equiv> length (filter (\<lambda>(_, c). cn_connected c) xs)"

lemma connected_update:
  "map_of xs k = Some c \<Longrightarrow>
   connected_in (AList.update k c' xs) + of_bool (cn_connected c) = connected_in xs + of_bool (cn_connected c')"
  by (induction xs) auto

lemma connected_update_fresh: "\<not> cn_connected c' \<Longrightarrow> connected_in (AList.update k c' xs) \<le> connected_in xs"
  by (induction xs) auto

lemma connected_delete: "connected_in (AList.delete k xs) \<le> connected_in xs"
  by (induction xs) auto

lemma modify_by_id_connected:
  assumes "\<And>c. cn_connected (f c) = cn_connected c"
  shows "connected_in (cc_clients (modify_by_id k f cc)) = connected_in (cc_clients cc)"
proof (cases "map_of (cc_clients cc) k")
  case (Some c)
  then show ?thesis
    using connected_update [OF Some, of "f c"] assms by (simp add: modify_by_id_def find_by_id_def)
qed (simp add: modify_by_id_def find_by_id_def)

lemma modify_by_id_distinct:
  "distinct (map fst (cc_clients cc)) \<Longrightarrow> distinct (map fst (cc_clients (modify_by_id k f cc)))"
  by (auto simp: modify_by_id_def intro: distinct_update split: option.split)

lemma modify_by_id_capacity:
  assumes "\<And>c. cn_connected (f c) = cn_connected c"
  shows "keeps_capacity s (s\<lparr>sv_conn_cache := modify_by_id k f (sv_conn_cache s)\<rparr>)"
  using modify_by_id_connected [of f, OF assms] modify_by_id_distinct [of "sv_conn_cache s" k f]
  by (simp add: keeps_capacity_def num_connected_clients_def)

lemma cache_remove_capacity:
  "keeps_capacity s (s\<lparr>sv_conn_cache := cache_remove k (sv_conn_cache s)\<rparr>)"
  using connected_delete [of k "cc_clients (sv_conn_cache s)"]
  by (auto simp: keeps_capacity_def num_connected_clients_def cache_remove_def intro: distinct_delete
      split: option.split)

lemma cache_add_capacity:
  "keeps_capacity s (s\<lparr>sv_conn_cache := cache_add F k e timeout sk rk udata (sv_conn_cache s)\<rparr>)"
proof (cases "find_by_entity e (sv_conn_cache s)")
  case (Some conn)
  then obtain old_id where "cc_client_id_map (sv_conn_cache s) e = Some old_id"
    and "find_by_id old_id (sv_conn_cache s) = Some conn"
    by (auto simp: find_by_entity_def split: bind_splits)
  then show ?thesis
    using modify_by_id_capacity [of "\<lambda>existing. existing\<lparr>cn_client_id := k, cn_timeout := timeout,
        cn_send_key := sk, cn_receive_key := rk, cn_last_access_time := cc_time (sv_conn_cache s),
        cn_user_data := udata\<rparr>" s old_id]
    by (simp add: cache_add_def)
next
  case None
  then show ?thesis
    by (auto simp: find_by_entity_def cache_add_def keeps_capacity_def num_connected_clients_def le_max_iff_disj
        intro: connected_update_fresh distinct_update split: bind_splits option.split)
qed

text \<open>Only the connections and the limit matter.\<close>

lemma capacity_cong:
  assumes "keeps_capacity s s'"
    and "cc_clients (sv_conn_cache s'') = cc_clients (sv_conn_cache s')" and "sv_cfg s'' = sv_cfg s'"
  shows "keeps_capacity s s''"
  using assms by (simp add: keeps_capacity_def num_connected_clients_def)

lemma capacity_unchanged:
  assumes "cc_clients (sv_conn_cache s') = cc_clients (sv_conn_cache s)" and "sv_cfg s' = sv_cfg s"
  shows "keeps_capacity s s'"
  using capacity_cong [OF capacity.R_refl assms] .

lemma connect_capacity:
  assumes "num_connected_clients s < cfg_max_clients (sv_cfg s)"
  shows "keeps_capacity s (s\<lparr>sv_conn_cache := modify_by_id k f (sv_conn_cache s)\<rparr>)"
proof (cases "map_of (cc_clients (sv_conn_cache s)) k")
  case (Some c)
  have "connected_in (AList.update k (f c) (cc_clients (sv_conn_cache s))) \<le>
        Suc (connected_in (cc_clients (sv_conn_cache s)))"
    using connected_update [OF Some, of "f c"] by (cases "cn_connected (f c)") simp_all
  then show ?thesis
    using assms modify_by_id_distinct [of "sv_conn_cache s" k f] Some
    by (auto simp: keeps_capacity_def num_connected_clients_def modify_by_id_def find_by_id_def split: if_splits)
qed (auto simp: modify_by_id_def find_by_id_def intro: capacity_unchanged)

lemma send_netcode_packet_capacity: "keeps_capacity s (fst (send_netcode_packet C packet key e s))"
  by (auto simp: send_netcode_packet_def intro: capacity_unchanged capacity.R_refl split: sum.split)

lemma send_with_capacity: "keeps_capacity s (fst (send_with wr k s))"
  by (auto simp: send_with_def sent_to_def intro: modify_by_id_capacity capacity.R_refl split: sum.split option.split)

lemmas capacity_intros = capacity.R_refl capacity.R_sbind capacity_unchanged send_with_capacity
  send_netcode_packet_capacity

lemma send_to_client_capacity: "keeps_capacity s (fst (send_to_client C packet k sender s))"
  unfolding send_to_client_def by (rule capacity_intros)+ simp_all

lemma send_payload_to_client_capacity: "keeps_capacity s (fst (send_payload_to_client C payload k sender s))"
  unfolding send_payload_to_client_def by (rule capacity_intros)+ simp_all

lemma send_netcode_to_client_capacity: "keeps_capacity s (fst (send_netcode_to_client C packet k e s))"
  unfolding send_netcode_to_client_def by (rule capacity.R_sbind send_with_capacity capacity_unchanged)+ simp_all

lemma touch_client_capacity: "keeps_capacity s (touch_client k s)"
  by (auto simp: touch_client_def intro: modify_by_id_capacity)

lemma event_capacity: "keeps_capacity s (s\<lparr>sv_events := evs\<rparr>)"
  by (simp add: capacity_unchanged)

lemma on_disconnect_remove_capacity:
  "keeps_capacity s (let s = on_disconnect k e s in s\<lparr>sv_conn_cache := cache_remove k (sv_conn_cache s)\<rparr>)"
  unfolding Let_def on_disconnect_def by (rule capacity.R_trans [OF event_capacity cache_remove_capacity])

lemma accept_request_capacity:
  "keeps_capacity s (s\<lparr>sv_conn_cache := cache_add F k e timeout sk rk udata (sv_conn_cache s),
                       sv_events := evs, sv_challenge_sequence := n\<rparr>)"
  by (rule capacity_cong [OF cache_add_capacity]) simp_all

lemma entries_capacity: "keeps_capacity s (s\<lparr>sv_token_entries := es\<rparr>)"
  by (simp add: capacity_unchanged)

lemma reply_capacity:
  assumes "\<And>x s'. keeps_capacity s' (fst (f x s'))"
  shows "keeps_capacity s (fst (sbind (send_netcode_packet C p k e (s\<lparr>sv_token_entries := es\<rparr>)) f))"
  by (rule capacity.R_sbind [OF capacity.R_trans [OF entries_capacity send_netcode_packet_capacity] assms])

lemma process_connection_request_capacity:
  "keeps_capacity s (fst (process_connection_request F C packet e server_addr s))"
proof (cases "lift_io (ctp_read_from (reader_from (rq_token_data packet))) :: 'a netcode_error + _")
  case (Inr x)
  obtain token r where x: "x = (token, r)" by fastforce
  show ?thesis
    unfolding process_connection_request_def Inr x
    by (auto simp: Let_def intro!: capacity.R_refl entries_capacity reply_capacity accept_request_capacity
        split: prod.split sum.split option.split)
qed (simp add: process_connection_request_def capacity.R_refl)

lemma process_connection_response_capacity:
  "keeps_capacity s (fst (process_connection_response C sequence token e s))"
proof -
  have accept: "keeps_capacity s (fst (sbind (send_netcode_to_client C p k e
      (s\<lparr>sv_conn_cache := modify_by_id k f (sv_conn_cache s)\<rparr>)) (\<lambda>_ s. (on_connect k e udata s, Inr ()))))"
    if "num_connected_clients s < cfg_max_clients (sv_cfg s)" for p k f udata
    by (rule capacity.R_sbind [OF capacity.R_trans [OF connect_capacity [OF that] send_netcode_to_client_capacity]])
      (simp add: on_connect_def capacity_unchanged)
  show ?thesis
    by (auto simp: process_connection_response_def Let_def not_le intro!: accept capacity.R_refl capacity.R_sbind
        send_netcode_packet_capacity split: sum.split option.split)
qed

lemma process_packet_capacity: "keeps_capacity s (fst (process_packet F C packet e server_addr s))"
  using on_disconnect_remove_capacity
  by (auto simp: process_packet_def Let_def intro!: capacity.R_refl capacity.R_sbind touch_client_capacity
      process_connection_request_capacity process_connection_response_capacity
      split: netcode_packet.split option.split)

lemma server_recv_packet_capacity: "keeps_capacity s (fst (server_recv_packet F C buf now e server_addr s))"
proof -
  have put: "keeps_capacity s (fst (process_packet F C packet e server_addr
      (s\<lparr>sv_conn_cache := (sv_conn_cache s)\<lparr>cc_replay_protection := rps\<rparr>\<rparr>)))" for packet rps
    by (rule capacity.R_trans [OF capacity_unchanged process_packet_capacity]) simp_all
  show ?thesis
    by (auto simp: server_recv_packet_def Let_def intro!: capacity.R_refl process_packet_capacity put
        intro: capacity_unchanged split: option.split sum.split prod.split)
qed

lemma server_recv_packets_capacity: "keeps_capacity s (fst (server_recv_packets F C bufs now e server_addr s))"
proof (induction bufs arbitrary: s)
  case (Cons buf bufs)
  obtain s1 r where r: "server_recv_packet F C buf now e server_addr s = (s1, r)" by fastforce
  have 1: "keeps_capacity s s1"
    using server_recv_packet_capacity [of s F C buf now e server_addr] r by simp
  have err: "keeps_capacity s1 (fst (server_recv_packets F C bufs now e server_addr (s1\<lparr>sv_client_errors := errs\<rparr>)))" for errs
    by (rule capacity.R_trans [OF capacity_unchanged Cons.IH]) simp_all
  have payload: "keeps_capacity s1 (fst (sbind (server_recv_packets F C bufs now e server_addr s1) (\<lambda>ps s. (s, Inr (f ps)))))" for f
    by (rule capacity.R_sbind [OF Cons.IH]) (simp add: capacity.R_refl)
  have "keeps_capacity s1 (fst (server_recv_packets F C (buf # bufs) now e server_addr s))"
    by (auto simp: r intro: err payload Cons.IH capacity.R_refl
        split: sum.split option.split netcode_error.split)
  then show ?case
    by (rule capacity.R_trans [OF 1])
qed (simp add: capacity.R_refl)

lemma server_receive_capacity: "keeps_capacity s (fst (server_receive F C bufs now e server_addr s))"
  unfolding server_receive_def
  by (rule capacity.R_sbind [OF server_recv_packets_capacity]) (simp add: capacity_unchanged)

lemma timeout_step_capacity: "keeps_capacity s (timeout_step F k s)"
  using on_disconnect_remove_capacity
  by (auto simp: timeout_step_def Let_def intro: capacity.R_refl split: option.split)

lemma server_update_state_capacity: "keeps_capacity s (server_update_state F delta_ms s)"
  unfolding server_update_state_def check_for_timeouts_def
  by (rule capacity.R_trans [OF _ capacity.R_fold [OF timeout_step_capacity]])
    (simp add: capacity_unchanged cache_update_def)

lemma send_keepalives_capacity: "keeps_capacity s (fst (send_keepalives F C k sender s))"
  by (auto simp: send_keepalives_def intro: capacity.R_refl send_to_client_capacity split: option.split)

lemma server_send_capacity: "keeps_capacity s (fst (server_send C buf k sender s))"
  by (auto simp: server_send_def intro!: capacity.R_refl capacity.R_sbind send_to_client_capacity
      send_payload_to_client_capacity split: option.split)

lemma server_send_all_capacity: "keeps_capacity s (fst (server_send_all C buf ids sender s))"
proof (induction ids arbitrary: sender s)
  case (Cons k ids)
  obtain s1 r where r: "server_send C buf k sender s = (s1, r)" by fastforce
  have "keeps_capacity s1 (fst (server_send_all C buf (k # ids) sender s))"
    by (auto simp: r intro: Cons.IH capacity.R_refl split: sum.split netcode_error.split)
  then show ?case
    using server_send_capacity [of s C buf k sender] r by (auto intro: capacity.R_trans)
qed (simp add: capacity.R_refl)

lemma send_disconnects_capacity: "keeps_capacity s (fst (send_disconnects C n k sender s))"
proof (induction n arbitrary: sender s)
  case (Suc n)
  obtain s1 r where r: "send_to_client C DisconnectPkt k sender s = (s1, r)" by fastforce
  have "keeps_capacity s1 (fst (send_disconnects C (Suc n) k sender s))"
    by (auto simp: r intro: Suc.IH split: sum.split)
  then show ?case
    using send_to_client_capacity [of s C DisconnectPkt k sender] r by (auto intro: capacity.R_trans)
qed (simp add: capacity.R_refl)

lemma server_disconnect_capacity: "keeps_capacity s (fst (server_disconnect C k sender s))"
proof (cases "find_by_id k (sv_conn_cache s)")
  case (Some conn)
  let ?s = "on_disconnect k (cn_entity conn) s"
  obtain s2 sender2 where s2: "send_disconnects C (cfg_num_disconnect_packets (sv_cfg ?s)) k sender ?s = (s2, sender2)"
    by fastforce
  have "keeps_capacity s ?s"
    by (simp add: on_disconnect_def event_capacity)
  moreover have "keeps_capacity ?s s2"
    using send_disconnects_capacity [of ?s C "cfg_num_disconnect_packets (sv_cfg ?s)" k sender] s2 by simp
  moreover have "keeps_capacity s2 (s2\<lparr>sv_conn_cache := cache_remove k (sv_conn_cache s2), sv_send_queue := q\<rparr>)" for q
    by (rule capacity_cong [OF cache_remove_capacity]) simp_all
  ultimately show ?thesis
    using s2 Some by (auto simp: server_disconnect_def Let_def intro: capacity.R_refl capacity.R_trans)
qed (simp add: server_disconnect_def capacity.R_refl)

lemma disconnect_by_entity_capacity: "keeps_capacity s (fst (disconnect_by_entity C e sender s))"
  using server_disconnect_capacity [of s C _ sender]
  by (auto simp: disconnect_by_entity_def intro: capacity.R_refl split: option.split prod.split)
    (metis fst_conv)

lemma disconnect_all_capacity: "keeps_capacity s (fst (disconnect_all C sender s))"
proof -
  have "keeps_capacity (fst p) (fst (disconnect_all_step C k p))" for k and p :: "('a, 'b) server \<times> bytes list"
    by (cases p) (auto simp: disconnect_all_step_def intro: capacity.R_refl server_disconnect_capacity split: option.split)
  from capacity.R_fold_fst [of "disconnect_all_step C", OF this, of "(s, sender)"] show ?thesis
    by (simp add: disconnect_all_def)
qed

lemma server_step_capacity: "server_step F C s s' \<Longrightarrow> keeps_capacity s s'"
proof (induction rule: server_step.induct)
  case (step_handler h s)
  then show ?case by (simp add: set_connection_request_handler_def keeps_capacity_def num_connected_clients_def)
next
  case (step_reset key s)
  then show ?case by (simp add: server_reset_def cache_clear_def keeps_capacity_def num_connected_clients_def)
next
  case (step_netcode entity sender s)
  then show ?case by (auto simp: send_netcode_packets_def intro: capacity_unchanged split: option.split)
next
  case (step_token k addr s)
  then show ?case by (simp add: server_token_def capacity_unchanged)
qed (simp_all add: server_receive_capacity server_update_state_capacity send_keepalives_capacity
    server_send_capacity server_send_all_capacity send_all_def server_disconnect_capacity
    disconnect_by_entity_capacity disconnect_all_capacity)

text \<open>
  C6: However the server is driven (received datagrams of any content, from any entity, at any time,
  time updates, sends, disconnections, resets, new request handlers), a server started with a
  configuration never has more connected clients than its \<open>max_clients\<close>, which stays what it was,
  and never has two connected clients of the same id.
\<close>

theorem server_capacity:
  assumes "(server_step F C)\<^sup>*\<^sup>* (with_config F challenge_key protocol_id private_key cfg) s"
  shows "num_connected_clients s \<le> cfg_max_clients cfg \<and> cfg_max_clients (sv_cfg s) = cfg_max_clients cfg \<and>
    distinct (connected_client_ids s)"
proof -
  let ?s0 = "with_config F challenge_key protocol_id private_key cfg :: ('a, 'b) server"
  have "keeps_capacity ?s0 s"
    using assms by induction (auto intro: capacity.R_refl capacity.R_trans server_step_capacity)
  then show ?thesis
    by (auto simp: keeps_capacity_def with_config_def connection_cache_new_def num_connected_clients_def
        connected_client_ids_def distinct_map intro: inj_on_subset)
qed

text \<open>A clock of whole seconds, for the examples.\<close>

definition seconds_clock :: "int f64_ops" where
  "seconds_clock =
     \<lparr>f_zero = 0, f_neg_infinity = - (10 ^ 18), f_infinity = 10 ^ 18, f_one = 1, f_add = (+), f_sub = (-),
      f_lt = (<), f_ge = (\<ge>), f_of_i32 = id, f_of_u64 = uint\<rparr>"

theorem server_capacity_witness:
  "let s0 = server_new seconds_clock 1 (replicate 32 1) 7 (replicate 32 2) :: (nat, int) server;
       s = server_update_state seconds_clock 20
             (fst (server_receive seconds_clock toy_crypto [[0, 1], [0x15, 1, 1]] 0 3 None s0))
   in num_connected_clients s \<le> 256 \<and> distinct (connected_client_ids s)"
proof -
  let ?init = "server_new seconds_clock 1 (replicate 32 1) 7 (replicate 32 2) :: (nat, int) server"
  let ?s = "fst (server_receive seconds_clock toy_crypto [[0, 1], [0x15, 1, 1]] 0 3 None ?init)"
  have "server_step seconds_clock toy_crypto ?init ?s"
    by (rule step_receive)
  moreover have "server_step seconds_clock toy_crypto ?s (server_update_state seconds_clock 20 ?s)"
    by (rule step_update)
  ultimately have "(server_step seconds_clock toy_crypto)\<^sup>*\<^sup>* ?init (server_update_state seconds_clock 20 ?s)"
    by (meson r_into_rtranclp rtranclp.rtrancl_into_rtrancl)
  from server_capacity [OF this [unfolded server_new_def]] show ?thesis
    by (simp add: server_new_def server_config_default_def MAX_CLIENTS_def Let_def)
qed

section \<open>Pending connections\<close>

lemma map_of_update_other: "k' \<noteq> k \<Longrightarrow> map_of (AList.update k v xs) k' = map_of xs k'"
  by (simp add: update_conv')

lemma find_by_id_modify [simp]:
  "find_by_id k' (modify_by_id k f cc) =
     (if k' = k then map_option f (find_by_id k cc) else find_by_id k' cc)"
  by (auto simp: modify_by_id_def find_by_id_def update_conv' split: option.split)

lemma update_twice: "AList.update k v (AList.update k v' xs) = AList.update k v xs"
  by (induction xs) auto

lemma modify_by_id_modify: "modify_by_id k g (modify_by_id k f cc) = modify_by_id k (\<lambda>c. g (f c)) cc"
  by (simp add: modify_by_id_def find_by_id_def update_conv' update_twice split: option.split)

lemma modify_by_id_maps [simp]:
  "cc_client_id_map (modify_by_id k f cc) = cc_client_id_map cc"
  "cc_replay_protection (modify_by_id k f cc) = cc_replay_protection cc"
  "cc_time (modify_by_id k f cc) = cc_time cc"
  by (simp_all add: modify_by_id_def split: option.split)

text \<open>What an accepted connection request does: it queues a challenge and stores the connection.\<close>

lemma request_accepted:
  fixes e :: 'e
  assumes "process_connection_request F C packet e server_addr s = (s', Inr ())"
    and "ctp_read_from (reader_from (rq_token_data packet)) = Inr (token, r)"
    and "address_allowed (cfg_additional_expected_addresses (sv_cfg s)) server_addr (ctp_server_addresses token)"
  shows "sv_conn_cache s' = cache_add F (ctp_client_id token) e (ctp_timeout_seconds token)
      (ctp_server_to_client_key token) (ctp_client_to_server_key token) (ctp_user_data token) (sv_conn_cache s) \<and>
    (\<exists>challenge wire.
       cht_encrypt C \<lparr>cht_client_id = ctp_client_id token, cht_user_data = ctp_user_data token\<rparr>
         (sv_challenge_sequence s) (sv_challenge_key s) = (Inr challenge :: 'e netcode_error + bytes) \<and>
       packet_write C MAX_PKT_BUF_SIZE (ChallengePkt (sv_challenge_sequence s) challenge) (sv_sequence s)
         (ctp_server_to_client_key token) (sv_protocol_id s) = (Inr wire :: 'e netcode_error + bytes) \<and>
       sv_send_queue s' = queue_push e wire (sv_send_queue s))"
  using assms
  by (auto simp: process_connection_request_def send_netcode_packet_def Let_def sbind_def
      split: if_splits prod.splits sum.splits option.splits)

text \<open>
  C23: A pending connection pins its entity to the first client id. When a second request is accepted
  from the same entity for another client id, the server queues a challenge for the new id, but the
  connection, with the new id inside, stays stored under the first id and the entity keeps pointing to
  it: nothing is stored under the new id. Every datagram of the client that is not a plain connection
  request, its response to that challenge included, is then refused as coming from an unknown client,
  without any change of the server's state. Another request for the same new id finds the connections
  as this theorem assumes them, and is challenged again with the same outcome.
\<close>

theorem second_id_is_locked_out:
  fixes e :: 'e
  assumes "process_connection_request F C packet e server_addr s = (s', Inr ())"
    and "ctp_read_from (reader_from (rq_token_data packet)) = Inr (token, r)"
    and "address_allowed (cfg_additional_expected_addresses (sv_cfg s)) server_addr (ctp_server_addresses token)"
    and "cc_client_id_map (sv_conn_cache s) e = Some old_id" and "find_by_id old_id (sv_conn_cache s) = Some conn"
    and "ctp_client_id token \<noteq> old_id" and "find_by_id (ctp_client_id token) (sv_conn_cache s) = None"
    and "hd buf \<noteq> REQUEST" and "1 < length buf"
  shows "(\<exists>challenge wire.
       cht_encrypt C \<lparr>cht_client_id = ctp_client_id token, cht_user_data = ctp_user_data token\<rparr>
         (sv_challenge_sequence s) (sv_challenge_key s) = (Inr challenge :: 'e netcode_error + bytes) \<and>
       packet_write C MAX_PKT_BUF_SIZE (ChallengePkt (sv_challenge_sequence s) challenge) (sv_sequence s)
         (ctp_server_to_client_key token) (sv_protocol_id s) = (Inr wire :: 'e netcode_error + bytes) \<and>
       sv_send_queue s' = queue_push e wire (sv_send_queue s)) \<and>
    cc_client_id_map (sv_conn_cache s') e = Some old_id \<and>
    map_option cn_client_id (find_by_id old_id (sv_conn_cache s')) = Some (ctp_client_id token) \<and>
    find_by_id (ctp_client_id token) (sv_conn_cache s') = None \<and>
    server_recv_packet F C buf now e server_addr s' = (s', Inl (ClientNotFound (PeerNetcode (ctp_client_id token))))"
proof -
  note accepted = request_accepted [OF assms(1-3)]
  have "cc_client_id_map (sv_conn_cache s') e = Some old_id"
    "map_option cn_client_id (find_by_id old_id (sv_conn_cache s')) = Some (ctp_client_id token)"
    "find_by_id (ctp_client_id token) (sv_conn_cache s') = None"
    "map_option cn_client_id (find_by_entity e (sv_conn_cache s')) = Some (ctp_client_id token)"
    using assms(4-7) unfolding conjunct1 [OF accepted] by (simp_all add: cache_add_def find_by_entity_def)
  moreover from this have "server_recv_packet F C buf now e server_addr s' =
      (s', Inl (ClientNotFound (PeerNetcode (ctp_client_id token))))"
    using assms(8,9) by (auto simp: server_recv_packet_def)
  ultimately show ?thesis
    using conjunct2 [OF accepted] by blast
qed

section \<open>Accepting a client\<close>

lemma find_or_insert_accepts: "snd (find_or_insert F entry inner) = True"
  by (simp add: find_or_insert_def split: prod.split option.split)

lemma request_succeeds:
  fixes e :: 'e
  assumes cipher: "aead_cipher (chacha C) 12"
    and token: "ctp_read_from (reader_from (rq_token_data packet)) = Inr (token, r)"
    and "length (ctp_server_to_client_key token) = PRIVATE_KEY_BYTES" and "length (ctp_user_data token) = USER_DATA_BYTES"
    and challenge_key: "length (sv_challenge_key s) = PRIVATE_KEY_BYTES"
    and addr: "address_allowed (cfg_additional_expected_addresses (sv_cfg s)) server_addr (ctp_server_addresses token)"
    and free: "\<And>c. find_by_entity e (sv_conn_cache s) = Some c \<Longrightarrow> \<not> cn_connected c"
      "\<And>c. find_by_id (ctp_client_id token) (sv_conn_cache s) = Some c \<Longrightarrow> \<not> cn_connected c"
    and room: "num_connected_clients s < cfg_max_clients (sv_cfg s)"
    and handler: "cfg_handle_request (sv_cfg s) (PeerNetcode (ctp_client_id token)) = None"
  shows "\<exists>entries challenge wire.
    process_connection_request F C packet e server_addr s =
      (s\<lparr>sv_token_entries := entries, sv_send_queue := queue_push e wire (sv_send_queue s),
         sv_sequence := sv_sequence s + 1, sv_challenge_sequence := sv_challenge_sequence s + 1,
         sv_conn_cache := cache_add F (ctp_client_id token) e (ctp_timeout_seconds token)
           (ctp_server_to_client_key token) (ctp_client_to_server_key token) (ctp_user_data token) (sv_conn_cache s),
         sv_events := sv_events s @ [InsertConnecting e]\<rparr>, Inr ()) \<and>
    length challenge = CHALLENGE_SIZE \<and>
    cht_decrypt C challenge (sv_challenge_sequence s) (sv_challenge_key s) =
      (Inr \<lparr>cht_client_id = ctp_client_id token, cht_user_data = ctp_user_data token\<rparr> :: 'e netcode_error + challenge_token) \<and>
    1 < length wire \<and>
    (\<forall>ts. packet_read C wire (sv_protocol_id s) ts (ctp_server_to_client_key token) None =
       (None, Inr (ChallengePkt (sv_challenge_sequence s) challenge) :: 'f netcode_error + netcode_packet))"
proof -
  let ?t = "\<lparr>cht_client_id = ctp_client_id token, cht_user_data = ctp_user_data token\<rparr>"
  let ?entry = "\<lparr>te_time = sv_time s, te_mac = take MAC_BYTES (drop (CTP_SIZE - MAC_BYTES) (rq_token_data packet)), te_entity = e\<rparr>"
  obtain entries where entries: "find_or_insert F ?entry (sv_token_entries s) = (entries, True)"
    using find_or_insert_accepts [of F ?entry "sv_token_entries s"] by (cases "find_or_insert F ?entry (sv_token_entries s)") simp
  have "cht_ok ?t"
    using assms(4) by (simp add: cht_ok_def)
  from cht_encrypt_decrypt [where ?'e = 'e and ?'f = 'e, OF cipher this challenge_key]
  obtain challenge where enc: "cht_encrypt C ?t (sv_challenge_sequence s) (sv_challenge_key s) = (Inr challenge :: 'e netcode_error + bytes)"
    "length challenge = CHALLENGE_SIZE"
    "cht_decrypt C challenge (sv_challenge_sequence s) (sv_challenge_key s) = (Inr ?t :: 'e netcode_error + challenge_token)"
    by blast
  have "packet_ok (ChallengePkt (sv_challenge_sequence s) challenge)"
    using enc(2) by (simp add: packet_ok_def)
  from packet_write_read [where ?'e = 'e and ?'f = 'f, OF cipher assms(3) this, of "sv_sequence s" "sv_protocol_id s"]
  obtain wire where wire: "packet_write C MAX_PKT_BUF_SIZE (ChallengePkt (sv_challenge_sequence s) challenge)
      (sv_sequence s) (ctp_server_to_client_key token) (sv_protocol_id s) = (Inr wire :: 'e netcode_error + bytes)"
    "1 < length wire"
    "\<forall>ts. packet_read C wire (sv_protocol_id s) ts (ctp_server_to_client_key token) None =
       (None, Inr (ChallengePkt (sv_challenge_sequence s) challenge) :: 'f netcode_error + netcode_packet)"
    by (auto simp: window_accepts_def window_advance_def)
  have room': "num_connected_clients (s\<lparr>sv_token_entries := entries\<rparr>) < cfg_max_clients (sv_cfg s)"
    using room by (simp add: num_connected_clients_def)
  have unconnected: "\<not> (case find_by_entity e (sv_conn_cache s) of None \<Rightarrow> False | Some c \<Rightarrow> cn_connected c)"
    "\<not> (case find_by_id (ctp_client_id token) (sv_conn_cache s) of None \<Rightarrow> False | Some c \<Rightarrow> cn_connected c)"
    using free by (simp_all split: option.split)
  have "process_connection_request F C packet e server_addr s =
      (s\<lparr>sv_token_entries := entries, sv_send_queue := queue_push e wire (sv_send_queue s),
         sv_sequence := sv_sequence s + 1, sv_challenge_sequence := sv_challenge_sequence s + 1,
         sv_conn_cache := cache_add F (ctp_client_id token) e (ctp_timeout_seconds token)
           (ctp_server_to_client_key token) (ctp_client_to_server_key token) (ctp_user_data token) (sv_conn_cache s),
         sv_events := sv_events s @ [InsertConnecting e]\<rparr>, Inr ())"
    using room' by (simp add: process_connection_request_def token addr unconnected entries handler enc(1) wire(1)
        Let_def send_netcode_packet_def not_le)
  then show ?thesis
    using enc(2,3) wire(2,3) by blast
qed

lemma response_succeeds:
  fixes e :: 'e
  assumes cipher: "aead_cipher (chacha C) 12"
    and token: "cht_decrypt C token seq (sv_challenge_key s) = (Inr t :: 'e netcode_error + challenge_token)"
    and client: "find_by_id (cht_client_id t) (sv_conn_cache s) = Some client" "\<not> cn_connected client"
    and key: "length (cn_send_key client) = PRIVATE_KEY_BYTES"
    and room: "num_connected_clients s < cfg_max_clients (sv_cfg s)"
  shows "\<exists>wire. process_connection_response C seq token e s =
      (s\<lparr>sv_conn_cache := modify_by_id (cht_client_id t)
           (\<lambda>c. sent_to (sv_time s) (c\<lparr>cn_connected := True, cn_last_send_time := sv_time s, cn_last_receive_time := sv_time s\<rparr>))
           (sv_conn_cache s),
         sv_send_queue := queue_push e wire (sv_send_queue s),
         sv_events := sv_events s @ [OnConnect (cht_client_id t) e (cn_user_data client)]\<rparr>, Inr ()) \<and>
    1 < length wire \<and>
    (\<forall>ts. packet_read C wire (sv_protocol_id s) ts (cn_send_key client) None =
       (None, Inr (KeepAlivePkt (cht_client_id t)) :: 'f netcode_error + netcode_packet))"
proof -
  let ?id = "cht_client_id t"
  have "packet_ok (KeepAlivePkt ?id)"
    by (simp add: packet_ok_def)
  from packet_write_read [where ?'e = 'e and ?'f = 'f, OF cipher key this, of "cn_sequence client" "sv_protocol_id s"]
  obtain wire where wire: "packet_write C MAX_PKT_BUF_SIZE (KeepAlivePkt ?id) (cn_sequence client) (cn_send_key client)
      (sv_protocol_id s) = (Inr wire :: 'e netcode_error + bytes)" "1 < length wire"
    "\<forall>ts. packet_read C wire (sv_protocol_id s) ts (cn_send_key client) None =
       (None, Inr (KeepAlivePkt ?id) :: 'f netcode_error + netcode_packet)"
    by (auto simp: window_accepts_def window_advance_def)
  have "process_connection_response C seq token e s =
      (s\<lparr>sv_conn_cache := modify_by_id ?id
           (\<lambda>c. sent_to (sv_time s) (c\<lparr>cn_connected := True, cn_last_send_time := sv_time s, cn_last_receive_time := sv_time s\<rparr>))
           (sv_conn_cache s),
         sv_send_queue := queue_push e wire (sv_send_queue s),
         sv_events := sv_events s @ [OnConnect ?id e (cn_user_data client)]\<rparr>, Inr ())"
    using room wire(1) client
    by (simp add: process_connection_response_def token Let_def not_le send_netcode_to_client_def send_with_def
        on_connect_def modify_by_id_modify)
  then show ?thesis
    using wire(2,3) by blast
qed

section \<open>Examples\<close>

definition sample_private :: "u64 \<Rightarrow> connect_token_private" where
  "sample_private client_id =
     \<lparr>ctp_client_id = client_id, ctp_timeout_seconds = 15, ctp_server_addresses = packed [V4 (127, 0, 0, 1) 5000],
      ctp_client_to_server_key = replicate 32 3, ctp_server_to_client_key = replicate 32 4,
      ctp_user_data = replicate 256 5\<rparr>"

definition sample_request :: "u64 \<Rightarrow> request_packet" where
  "sample_request client_id =
     \<lparr>rq_version_info = NETCODE_VERSION, rq_protocol_id = 7, rq_expire_timestamp = 1000, rq_token_nonce = replicate 24 6,
      rq_token_data = ctp_enc [V4 (127, 0, 0, 1) 5000] (sample_private client_id) @ replicate 700 0\<rparr>"

definition sample_server :: "(nat, int) server" where
  "sample_server = server_new seconds_clock 1 (replicate 32 1) 7 (replicate 32 2)"

definition pending_server :: "(nat, int) server" where
  "pending_server = sample_server\<lparr>sv_conn_cache := cache_add seconds_clock 1 3 15 (replicate 32 4) (replicate 32 3)
     (replicate 256 5) (sv_conn_cache sample_server)\<rparr>"

lemma sample_private_ok: "ctp_ok [V4 (127, 0, 0, 1) 5000] (sample_private client_id)"
  by (simp add: ctp_ok_def sample_private_def address_ok_def MAX_SERVERS_PER_CONNECT_def netcode_sizes i32_ok_def)

lemma sample_request_read:
  "\<exists>r. ctp_read_from (reader_from (rq_token_data (sample_request client_id))) = Inr (sample_private client_id, r)"
  using ctp_read_enc [OF sample_private_ok, of "reader_from (rq_token_data (sample_request client_id))" client_id]
  by (simp add: sample_request_def reader_from_def remaining_slice_def)

lemmas sample_server_defs = pending_server_def sample_server_def server_new_def with_config_def
  connection_cache_new_def server_config_default_def MAX_CLIENTS_def

theorem second_id_is_locked_out_witness:
  "\<exists>s'. process_connection_request seconds_clock toy_crypto (sample_request 2) 3 None pending_server = (s', Inr ()) \<and>
     map_option cn_client_id (find_by_id 1 (sv_conn_cache s')) = Some 2 \<and> find_by_id 2 (sv_conn_cache s') = None \<and>
     server_recv_packet seconds_clock toy_crypto [0x13, 0, 0] 0 3 None s' = (s', Inl (ClientNotFound (PeerNetcode 2)))"
proof -
  obtain r where read: "ctp_read_from (reader_from (rq_token_data (sample_request 2))) = Inr (sample_private 2, r)"
    using sample_request_read by blast
  have addr: "address_allowed (cfg_additional_expected_addresses (sv_cfg pending_server)) None
      (ctp_server_addresses (sample_private 2))"
    by (simp add: address_allowed_def)
  have ids: "cc_client_id_map (sv_conn_cache pending_server) 3 = Some 1"
    "find_by_id 2 (sv_conn_cache pending_server) = None"
    by (simp_all add: sample_server_defs cache_add_def find_by_id_def)
  obtain conn where conn: "find_by_id 1 (sv_conn_cache pending_server) = Some conn" "\<not> cn_connected conn"
    by (auto simp: sample_server_defs cache_add_def find_by_id_def)
  have "\<exists>s'. process_connection_request seconds_clock toy_crypto (sample_request 2) 3 None pending_server = (s', Inr ())"
    using request_succeeds [where ?'e = nat and ?'f = unit, OF toy_chacha read _ _ _ addr, of 3 seconds_clock] ids conn
    by (auto simp: sample_private_def netcode_sizes sample_server_defs find_by_entity_def num_connected_clients_def
        cache_add_def find_by_id_def)
  then obtain s' where s': "process_connection_request seconds_clock toy_crypto (sample_request 2) 3 None pending_server = (s', Inr ())"
    by blast
  have "ctp_client_id (sample_private 2) = 2"
    by (simp add: sample_private_def)
  with second_id_is_locked_out [OF s' read addr ids(1) conn(1), of "[0x13, 0, 0]" 0] ids(2) s' show ?thesis
    by (simp add: REQUEST_def)
qed

section \<open>The table of used connect tokens\<close>

lemma scan_entries_late:
  assumes "\<not> f_lt F (te_time entry) time"
  shows "\<exists>matching'. scan_entries F entry idx es (oldest, time, matching) = (oldest, time, matching') \<and>
    (matching' = None \<longleftrightarrow> matching = None \<and> (\<forall>saved \<in> set es. te_mac entry \<noteq> te_mac saved))"
proof (induction es arbitrary: idx matching)
  case (Cons saved es)
  show ?case
    using assms Cons.IH [of "Suc idx" "if te_mac entry = te_mac saved then Some idx else matching"]
    by (auto simp: Let_def simp del: not_None_eq)
qed simp

lemma find_or_insert_late:
  assumes "f_lt F (te_time entry) (f_infinity F)"
    and "\<And>saved. saved \<in> set inner \<Longrightarrow> \<not> f_lt F (te_time entry) (te_time saved)"
  shows "find_or_insert F entry inner =
    ((if inner = [] then [entry]
      else if \<exists>saved \<in> set inner. te_mac entry = te_mac saved then inner else entry # tl inner), True)"
proof (cases inner)
  case Nil
  then show ?thesis by (simp add: find_or_insert_def)
next
  case (Cons first es)
  have "\<not> f_lt F (te_time entry) (te_time first)"
    using assms(2) Cons by simp
  from scan_entries_late [OF this, of 1 es "Some 0" "if te_mac entry = te_mac first then Some 0 else None"]
  show ?thesis
    using assms(1) by (auto simp: find_or_insert_def Cons Let_def split: option.split)
qed

text \<open>A server whose clock does not run backwards inserts the entries one after the other.\<close>

fun insert_entries ::
  "'t f64_ops \<Rightarrow> ('e, 't) token_entry list \<Rightarrow> ('e, 't) token_entry list \<Rightarrow> ('e, 't) token_entry list \<times> bool list" where
  "insert_entries F [] inner = (inner, [])"
| "insert_entries F (entry # entries) inner =
     (let (inner, fresh) = find_or_insert F entry inner; (inner, rest) = insert_entries F entries inner
      in (inner, fresh # rest))"

text \<open>
  The table of used tokens remembers one token. For entries at finite times that never run
  backwards, whatever their tokens and entities, no entry is ever refused and the table never holds
  more than one entry: the entry that is looked at as the oldest is always the first, since the time
  of the new entry and not that of the saved one is compared. A token can be used any number of
  times, by any number of entities.
\<close>

theorem token_table_refuses_nothing:
  assumes "list_all (\<lambda>entry. f_lt F (te_time entry) (f_infinity F)) entries"
    and "sorted_wrt (\<lambda>a b. \<not> f_lt F (te_time b) (te_time a)) entries"
  shows "length (fst (insert_entries F entries [])) \<le> 1 \<and>
    snd (insert_entries F entries []) = replicate (length entries) True"
proof -
  have "length (fst (insert_entries F entries inner)) \<le> 1 \<and>
      snd (insert_entries F entries inner) = replicate (length entries) True"
    if "length inner \<le> 1" "\<forall>saved \<in> set inner. \<forall>entry \<in> set entries. \<not> f_lt F (te_time entry) (te_time saved)" for inner
    using that assms
  proof (induction entries arbitrary: inner)
    case (Cons entry entries)
    define inner' where "inner' = (if inner = [] then [entry]
      else if \<exists>saved \<in> set inner. te_mac entry = te_mac saved then inner else entry # tl inner)"
    have find: "find_or_insert F entry inner = (inner', True)"
      unfolding inner'_def by (rule find_or_insert_late) (use Cons.prems in auto)
    have "length inner' \<le> 1" "set inner' \<subseteq> insert entry (set inner)"
      using Cons.prems(1) by (auto simp: inner'_def dest: list.set_sel(2) split: if_splits)
    moreover have "\<forall>saved \<in> set inner'. \<forall>entry \<in> set entries. \<not> f_lt F (te_time entry) (te_time saved)"
      using Cons.prems(2,4) \<open>set inner' \<subseteq> insert entry (set inner)\<close> by auto
    ultimately show ?case
      using Cons.IH [of inner'] Cons.prems(3,4) by (auto simp: find split: prod.split)
  qed simp
  from this [of "[]"] show ?thesis by simp
qed

definition replayed_entry :: "nat \<Rightarrow> (nat, int) token_entry" where
  "replayed_entry e = \<lparr>te_time = int e, te_mac = replicate 16 7, te_entity = e\<rparr>"

theorem token_table_refuses_nothing_witness:
  "insert_entries seconds_clock [replayed_entry 1, replayed_entry 2, replayed_entry 3] [] =
     ([replayed_entry 1], [True, True, True]) \<and>
   length (fst (insert_entries seconds_clock [replayed_entry 1, replayed_entry 2] [])) \<le> 1"
  using token_table_refuses_nothing [of seconds_clock "[replayed_entry 1, replayed_entry 2]"]
  by (simp add: replayed_entry_def seconds_clock_def find_or_insert_def)

section \<open>Packets of an unexpected kind\<close>

lemma put_same_window [simp]:
  "s\<lparr>sv_conn_cache := (sv_conn_cache s)\<lparr>cc_replay_protection := (cc_replay_protection (sv_conn_cache s))
     (k := cc_replay_protection (sv_conn_cache s) k)\<rparr>\<rparr> = s"
  by simp

text \<open>
  The server can be crashed by any peer it has challenged. The holder of the key of a connection,
  pending or established, can send a denial or a challenge, kinds that only a server sends: the
  packet is authentic, nothing filters its kind, and the server reaches \<open>unreachable!\<close>.
\<close>

theorem server_panics_on_server_packets:
  fixes e :: 'e
  assumes "aead_cipher (chacha C) 12" and "length (cn_receive_key conn) = PRIVATE_KEY_BYTES"
    and "packet_ok p" and "packet_kind p = DENIED \<or> packet_kind p = CHALLENGE"
    and "find_by_entity e (sv_conn_cache s) = Some c"
    and "find_by_id (cn_client_id c) (sv_conn_cache s) = Some conn"
  shows "\<exists>wire. packet_write C MAX_PKT_BUF_SIZE p sequence (cn_receive_key conn) (sv_protocol_id s) =
      (Inr wire :: 'f netcode_error + bytes) \<and>
    server_recv_packet F C wire now e server_addr s = (s, Inl NetcodePanicked)"
proof -
  have kind: "packet_kind p < KEEP_ALIVE"
    using assms(4) by (auto simp: packet_kinds)
  then have win: "window_accepts (packet_kind p) sequence rp" "window_advance (packet_kind p) sequence rp = rp" for rp
    by (simp_all add: window_accepts_def window_advance_def not_le [symmetric])
  from packet_write_read [where ?'e = 'f and ?'f = 'e, OF assms(1-3), of sequence "sv_protocol_id s"] win
  obtain wire where wire: "packet_write C MAX_PKT_BUF_SIZE p sequence (cn_receive_key conn) (sv_protocol_id s) =
      (Inr wire :: 'f netcode_error + bytes)" "hd wire \<noteq> REQUEST" "1 < length wire"
    "\<forall>ts rp. packet_read C wire (sv_protocol_id s) ts (cn_receive_key conn) rp = (rp, Inr p :: 'e netcode_error + netcode_packet)"
    by auto
  have "process_packet F C p e server_addr s = (s, Inl NetcodePanicked)"
    using assms(4) by (cases p) (simp_all add: process_packet_def packet_kind_def packet_kinds)
  then show ?thesis
    using wire assms(5,6) by (intro exI [of _ wire]) (simp add: server_recv_packet_def)
qed

theorem server_panics_on_server_packets_witness:
  "\<exists>wire. server_recv_packet seconds_clock toy_crypto wire 0 3 None pending_server = (pending_server, Inl NetcodePanicked)"
proof -
  obtain conn where conn: "find_by_entity 3 (sv_conn_cache pending_server) = Some conn" "cn_client_id conn = 1"
    "find_by_id 1 (sv_conn_cache pending_server) = Some conn" "length (cn_receive_key conn) = PRIVATE_KEY_BYTES"
    by (auto simp: sample_server_defs cache_add_def find_by_id_def find_by_entity_def netcode_sizes)
  have "packet_ok (DeniedPkt ServerFull)" "packet_kind (DeniedPkt ServerFull) = DENIED"
    by (simp_all add: packet_ok_def packet_kind_def)
  from server_panics_on_server_packets [where ?'f = unit, OF toy_chacha conn(4) this(1) _ conn(1)] this(2) conn(2,3)
  show ?thesis by (metis (no_types, lifting))
qed

text \<open>
  A client that gives up before it is connected is never forgotten. Its disconnect packet makes
  the server call the disconnection callback, for a client for which it never called the connection
  callback, and leaves the pending connection in place: every further disconnect packet of the
  redundant series calls the callback again.
\<close>

theorem pending_disconnect_repeats:
  assumes "find_by_entity e (sv_conn_cache s) = Some c" and "cn_client_id c = client_id"
    and "find_by_id client_id (sv_conn_cache s) = Some c" and "\<not> cn_connected c"
  shows "((\<lambda>s. fst (process_packet F C DisconnectPkt e server_addr s)) ^^ n) s =
    s\<lparr>sv_events := sv_events s @ replicate n (OnDisconnect client_id e)\<rparr>"
proof (induction n)
  case (Suc n)
  let ?s = "s\<lparr>sv_events := sv_events s @ replicate n (OnDisconnect client_id e)\<rparr>"
  have "fst (process_packet F C DisconnectPkt e server_addr ?s) =
      ?s\<lparr>sv_events := sv_events ?s @ [OnDisconnect client_id e]\<rparr>"
    using assms by (simp add: process_packet_def on_disconnect_def cache_remove_def Let_def)
  then show ?case
    using Suc by (simp add: replicate_append_same [symmetric])
qed simp

theorem pending_disconnect_repeats_witness:
  "((\<lambda>s. fst (process_packet seconds_clock toy_crypto DisconnectPkt 3 None s)) ^^ 10) pending_server =
     pending_server\<lparr>sv_events := sv_events pending_server @ replicate 10 (OnDisconnect 1 3)\<rparr>"
proof -
  obtain conn where conn: "find_by_entity 3 (sv_conn_cache pending_server) = Some conn" "cn_client_id conn = 1"
    "find_by_id 1 (sv_conn_cache pending_server) = Some conn" "\<not> cn_connected conn"
    by (auto simp: sample_server_defs cache_add_def find_by_id_def find_by_entity_def)
  show ?thesis
    by (rule pending_disconnect_repeats [OF conn])
qed

end
