(* ===== verification/Netcode_Client.thy ===== *)
theory Netcode_Client
  imports Netcode_Server
begin

text \<open>
  The netcode client (\<open>crates/connection/netcode/src/client.rs\<close>) and its handshake with the server.
  The callback \<open>on_state_change\<close> is recorded as the list of its calls. The unused queue
  \<open>packet_queue\<close>, the buffer \<open>writer\<close> and the log messages are left out.
\<close>

section \<open>State\<close>

text \<open>In the order of the Rust enum, which \<open>is_error\<close> compares by.\<close>

datatype client_state =
    ConnectTokenExpired
  | ConnectionTimedOut
  | ConnectionRequestTimedOut
  | ChallengeResponseTimedOut
  | ConnectionDenied
  | Disconnected
  | SendingConnectionRequest
  | SendingChallengeResponse
  | Connected

primrec client_state_rank :: "client_state \<Rightarrow> nat" where
  "client_state_rank ConnectTokenExpired = 0"
| "client_state_rank ConnectionTimedOut = 1"
| "client_state_rank ConnectionRequestTimedOut = 2"
| "client_state_rank ChallengeResponseTimedOut = 3"
| "client_state_rank ConnectionDenied = 4"
| "client_state_rank Disconnected = 5"
| "client_state_rank SendingConnectionRequest = 6"
| "client_state_rank SendingChallengeResponse = 7"
| "client_state_rank Connected = 8"

lemma client_state_rank_inj: "client_state_rank a = client_state_rank b \<longleftrightarrow> a = b"
  by (cases a; cases b; simp)

instantiation client_state :: linorder
begin

definition less_eq_client_state :: "client_state \<Rightarrow> client_state \<Rightarrow> bool" where
  "less_eq_client_state a b \<longleftrightarrow> client_state_rank a \<le> client_state_rank b"

definition less_client_state :: "client_state \<Rightarrow> client_state \<Rightarrow> bool" where
  "less_client_state a b \<longleftrightarrow> client_state_rank a < client_state_rank b"

instance
  by standard (auto simp: less_eq_client_state_def less_client_state_def client_state_rank_inj [symmetric])

end

record 't client_config =
  ccfg_num_disconnect_packets :: nat
  ccfg_packet_send_rate :: 't

definition client_config_default :: "'t \<Rightarrow> 't client_config" where
  "client_config_default rate = \<lparr>ccfg_num_disconnect_packets = 10, ccfg_packet_send_rate = rate\<rparr>"

record 't client =
  cl_id :: client_id
  cl_state :: client_state
  cl_time :: 't
  cl_start_time :: 't
  cl_last_send_time :: 't
  cl_last_receive_time :: 't
  cl_server_addr_idx :: nat
  cl_sequence :: u64
  cl_challenge_token_sequence :: u64
  cl_challenge_token_data :: bytes
  cl_token :: connect_token
  cl_replay_protection :: replay_protection
  cl_should_disconnect :: bool
  cl_should_disconnect_state :: client_state
  cl_send_queue :: "bytes list"
  cl_cfg :: "'t client_config"
  cl_changes :: "(client_state \<times> client_state) list"

type_synonym ('t, 'a) client_op = "'t client \<times> (unit netcode_error + 'a)"

definition cbind :: "('t, 'a) client_op \<Rightarrow> ('a \<Rightarrow> 't client \<Rightarrow> ('t, 'b) client_op) \<Rightarrow> ('t, 'b) client_op" where
  "cbind m f = (case m of (c, Inl e) \<Rightarrow> (c, Inl e) | (c, Inr x) \<Rightarrow> f x c)"

lemma cbind_simps [simp]: "cbind (c, Inl e) f = (c, Inl e)" "cbind (c, Inr x) f = f x c"
  by (simp_all add: cbind_def)

definition from_token :: "'t f64_ops \<Rightarrow> bytes \<Rightarrow> 't client_config \<Rightarrow> unit netcode_error + 't client" where
  "from_token F token_bytes cfg =
     (if length token_bytes \<noteq> CONNECT_TOKEN_BYTES then Inl (SizeMismatch CONNECT_TOKEN_BYTES (length token_bytes))
      else case ct_read_from (reader_from token_bytes) of
             Inl err \<Rightarrow> Inl (InvalidToken err)
           | Inr (None, _) \<Rightarrow> Inl NetcodePanicked
           | Inr (Some token, _) \<Rightarrow>
               Inr \<lparr>cl_id = 0, cl_state = Disconnected, cl_time = f_zero F, cl_start_time = f_zero F,
                    cl_last_send_time = f_neg_infinity F, cl_last_receive_time = f_neg_infinity F,
                    cl_server_addr_idx = 0, cl_sequence = 0, cl_challenge_token_sequence = 0,
                    cl_challenge_token_data = replicate CHALLENGE_SIZE 0, cl_token = token,
                    cl_replay_protection = replay_protection_new, cl_should_disconnect = False,
                    cl_should_disconnect_state = Disconnected, cl_send_queue = [], cl_cfg = cfg, cl_changes = []\<rparr>)"

section \<open>Operations\<close>

definition set_state :: "client_state \<Rightarrow> 't client \<Rightarrow> 't client" where
  "set_state state c = c\<lparr>cl_state := state, cl_changes := cl_changes c @ [(cl_state c, state)]\<rparr>"

definition reset_connection :: "'t f64_ops \<Rightarrow> 't client \<Rightarrow> 't client" where
  "reset_connection F c =
     c\<lparr>cl_start_time := cl_time c, cl_last_send_time := f_sub F (cl_time c) (f_one F),
       cl_last_receive_time := cl_time c, cl_should_disconnect := False,
       cl_should_disconnect_state := Disconnected, cl_challenge_token_sequence := 0,
       cl_replay_protection := replay_protection_new\<rparr>"

definition client_reset :: "'t f64_ops \<Rightarrow> client_state \<Rightarrow> 't client \<Rightarrow> 't client" where
  "client_reset F new_state c =
     reset_connection F (set_state new_state (c\<lparr>cl_sequence := 0, cl_start_time := f_zero F, cl_server_addr_idx := 0\<rparr>))"

definition client_connect :: "'t f64_ops \<Rightarrow> 't client \<Rightarrow> 't client" where
  "client_connect F c = set_state SendingConnectionRequest (reset_connection F c)"

definition connect_to_next_server :: "'t f64_ops \<Rightarrow> 't client \<Rightarrow> 't client option" where
  "connect_to_next_server F c =
     (if cl_server_addr_idx c + 1 \<ge> address_list_len (ct_server_addresses (cl_token c)) then None
      else Some (client_connect F (c\<lparr>cl_server_addr_idx := cl_server_addr_idx c + 1\<rparr>)))"

text \<open>The three sends serialise with the client's key; \<open>client_send_with\<close> is what they share.\<close>

definition client_send_with ::
  "(u64 \<Rightarrow> key \<Rightarrow> u64 \<Rightarrow> unit netcode_error + bytes) \<Rightarrow> 't client \<Rightarrow> ('t, bytes) client_op" where
  "client_send_with wr c =
     (case wr (cl_sequence c) (ct_client_to_server_key (cl_token c)) (ct_protocol_id (cl_token c)) of
        Inl e \<Rightarrow> (c, Inl e)
      | Inr buf \<Rightarrow> (c\<lparr>cl_last_send_time := cl_time c, cl_sequence := cl_sequence c + 1\<rparr>, Inr buf))"

definition send_packet :: "crypto_ops \<Rightarrow> netcode_packet \<Rightarrow> bytes list \<Rightarrow> 't client \<Rightarrow> ('t, bytes list) client_op" where
  "send_packet C packet sender c =
     cbind (client_send_with (packet_write C MAX_PKT_BUF_SIZE packet) c) (\<lambda>buf c. (c, Inr (sender @ [buf])))"

definition send_payload_packet :: "crypto_ops \<Rightarrow> bytes \<Rightarrow> bytes list \<Rightarrow> 't client \<Rightarrow> ('t, bytes list) client_op" where
  "send_payload_packet C payload sender c =
     cbind (client_send_with (write_payload C MAX_PKT_BUF_SIZE payload) c) (\<lambda>buf c. (c, Inr (sender @ [buf])))"

definition client_send_netcode_packet :: "crypto_ops \<Rightarrow> netcode_packet \<Rightarrow> 't client \<Rightarrow> ('t, unit) client_op" where
  "client_send_netcode_packet C packet c =
     cbind (client_send_with (packet_write C MAX_PKT_BUF_SIZE packet) c)
       (\<lambda>buf c. (c\<lparr>cl_send_queue := cl_send_queue c @ [buf]\<rparr>, Inr ()))"

definition send_packets :: "'t f64_ops \<Rightarrow> crypto_ops \<Rightarrow> 't client \<Rightarrow> ('t, unit) client_op" where
  "send_packets F C c =
     (if f_ge F (f_add F (cl_last_send_time c) (ccfg_packet_send_rate (cl_cfg c))) (cl_time c) then (c, Inr ())
      else
        (case cl_state c of
           SendingConnectionRequest \<Rightarrow>
             client_send_netcode_packet C
               (request_create (ct_protocol_id (cl_token c)) (ct_expire_timestamp (cl_token c))
                  (ct_nonce (cl_token c)) (ct_private_data (cl_token c))) c
         | SendingChallengeResponse \<Rightarrow>
             client_send_netcode_packet C (ResponsePkt (cl_challenge_token_sequence c) (cl_challenge_token_data c)) c
         | Connected \<Rightarrow> client_send_netcode_packet C (KeepAlivePkt 0) c
         | _ \<Rightarrow> (c, Inr ())))"

text \<open>\<open>None\<close> is the panic of an index out of bounds.\<close>

definition client_server_addr :: "'t client \<Rightarrow> socket_addr option" where
  "client_server_addr c = address_list_index (ct_server_addresses (cl_token c)) (cl_server_addr_idx c)"

definition client_process_packet :: "netcode_packet \<Rightarrow> 't client \<Rightarrow> 't client \<times> bytes option" where
  "client_process_packet packet c =
     (let received = (\<lambda>c r. (c\<lparr>cl_last_receive_time := cl_time c\<rparr>, r)) in
      case packet of
        DeniedPkt _ \<Rightarrow>
          if cl_state c = SendingConnectionRequest \<or> cl_state c = SendingChallengeResponse
          then received (c\<lparr>cl_should_disconnect := True, cl_should_disconnect_state := ConnectionDenied\<rparr>) None
          else (c, None)
      | ChallengePkt sequence token \<Rightarrow>
          if cl_state c = SendingConnectionRequest
          then received (set_state SendingChallengeResponse
                 (c\<lparr>cl_challenge_token_sequence := sequence, cl_challenge_token_data := token\<rparr>)) None
          else (c, None)
      | KeepAlivePkt client_id \<Rightarrow>
          if cl_state c = Connected then received c None
          else if cl_state c = SendingChallengeResponse
          then received ((set_state Connected c)\<lparr>cl_id := client_id\<rparr>) None
          else (c, None)
      | PayloadPkt buf \<Rightarrow> if cl_state c = Connected then received c (Some buf) else (c, None)
      | DisconnectPkt \<Rightarrow>
          if cl_state c = Connected
          then received (c\<lparr>cl_should_disconnect := True, cl_should_disconnect_state := Disconnected\<rparr>) None
          else (c, None)
      | _ \<Rightarrow> (c, None))"

text \<open>The branches of \<open>update_state\<close>, in the order of its match arms.\<close>

definition is_token_expired :: "'t f64_ops \<Rightarrow> 't client \<Rightarrow> bool" where
  "is_token_expired F c =
     f_ge F (f_sub F (cl_time c) (cl_start_time c))
       (f_sub F (f_of_u64 F (ct_expire_timestamp (cl_token c))) (f_of_u64 F (ct_create_timestamp (cl_token c))))"

definition is_connection_timed_out :: "'t f64_ops \<Rightarrow> 't client \<Rightarrow> bool" where
  "is_connection_timed_out F c =
     (ct_timeout_seconds (cl_token c) > 0 \<and>
      f_lt F (f_add F (cl_last_receive_time c) (f_of_i32 F (ct_timeout_seconds (cl_token c)))) (cl_time c))"

definition next_server_or :: "'t f64_ops \<Rightarrow> client_state \<Rightarrow> 't client \<Rightarrow> 't client" where
  "next_server_or F new_state c =
     (case connect_to_next_server F c of Some c \<Rightarrow> c | None \<Rightarrow> client_reset F new_state c)"

definition client_update_state :: "'t f64_ops \<Rightarrow> 't client \<Rightarrow> 't client" where
  "client_update_state F c =
     (if (cl_state c = SendingConnectionRequest \<or> cl_state c = SendingChallengeResponse) \<and> is_token_expired F c
      then client_reset F ConnectTokenExpired c
      else if cl_should_disconnect c then next_server_or F (cl_should_disconnect_state c) c
      else if cl_state c = SendingConnectionRequest \<and> is_connection_timed_out F c
      then next_server_or F ConnectionRequestTimedOut c
      else if cl_state c = SendingChallengeResponse \<and> is_connection_timed_out F c
      then next_server_or F ChallengeResponseTimedOut c
      else if cl_state c = Connected \<and> is_connection_timed_out F c
      then client_reset F ConnectionTimedOut c
      else c)"

text \<open>A packet that cannot be read is dropped; a panic of the reader is not caught.\<close>

definition client_recv_packet :: "crypto_ops \<Rightarrow> bytes \<Rightarrow> u64 \<Rightarrow> 't client \<Rightarrow> ('t, bytes option) client_op" where
  "client_recv_packet C buf now c =
     (if length buf \<le> 1 then (c, Inr None)
      else
        (let rp = (if cl_state c = Connected then Some (cl_replay_protection c) else None) in
         case packet_read C buf (ct_protocol_id (cl_token c)) now (ct_server_to_client_key (cl_token c)) rp ::
                replay_protection option \<times> (unit netcode_error + netcode_packet) of
           (rp, r) \<Rightarrow>
             (let c = (case rp of Some w \<Rightarrow> c\<lparr>cl_replay_protection := w\<rparr> | None \<Rightarrow> c) in
              case r of
                Inl NetcodePanicked \<Rightarrow> (c, Inl NetcodePanicked)
              | Inl _ \<Rightarrow> (c, Inr None)
              | Inr packet \<Rightarrow> (case client_process_packet packet c of (c, payload) \<Rightarrow> (c, Inr payload)))))"

fun client_recv_packets :: "crypto_ops \<Rightarrow> bytes list \<Rightarrow> u64 \<Rightarrow> 't client \<Rightarrow> ('t, bytes list) client_op" where
  "client_recv_packets C [] now c = (c, Inr [])"
| "client_recv_packets C (buf # bufs) now c =
     cbind (client_recv_packet C buf now c) (\<lambda>payload c.
     cbind (client_recv_packets C bufs now c) (\<lambda>payloads c.
       (c, Inr (case payload of Some p \<Rightarrow> p # payloads | None \<Rightarrow> payloads))))"

text \<open>\<open>bufs\<close> are the datagrams that wait in the receiver; the result are the payloads put back.\<close>

definition try_update ::
  "'t f64_ops \<Rightarrow> crypto_ops \<Rightarrow> 't \<Rightarrow> u64 \<Rightarrow> bytes list \<Rightarrow> 't client \<Rightarrow> ('t, client_state \<times> bytes list) client_op" where
  "try_update F C delta_ms now bufs c =
     cbind (client_recv_packets C bufs now (c\<lparr>cl_time := f_add F (cl_time c) delta_ms\<rparr>)) (\<lambda>payloads c.
     cbind (send_packets F C c) (\<lambda>_ c.
       (let c = client_update_state F c in (c, Inr (cl_state c, payloads)))))"

definition drain_send_netcode_packets :: "bytes list \<Rightarrow> 't client \<Rightarrow> 't client \<times> bytes list" where
  "drain_send_netcode_packets sender c = (c\<lparr>cl_send_queue := []\<rparr>, sender @ cl_send_queue c)"

definition client_send :: "crypto_ops \<Rightarrow> bytes \<Rightarrow> bytes list \<Rightarrow> 't client \<Rightarrow> ('t, bytes list) client_op" where
  "client_send C buf sender c =
     (if cl_state c \<noteq> Connected then (c, Inr sender)
      else if length buf > MAX_PACKET_SIZE then (c, Inl (SizeMismatch MAX_PACKET_SIZE (length buf)))
      else send_payload_packet C buf sender c)"

fun client_send_disconnects :: "crypto_ops \<Rightarrow> nat \<Rightarrow> 't client \<Rightarrow> ('t, unit) client_op" where
  "client_send_disconnects C 0 c = (c, Inr ())"
| "client_send_disconnects C (Suc n) c =
     cbind (client_send_netcode_packet C DisconnectPkt c) (\<lambda>_ c. client_send_disconnects C n c)"

definition client_disconnect :: "'t f64_ops \<Rightarrow> crypto_ops \<Rightarrow> 't client \<Rightarrow> ('t, unit) client_op" where
  "client_disconnect F C c =
     cbind (client_send_disconnects C (ccfg_num_disconnect_packets (cl_cfg c)) c)
       (\<lambda>_ c. (client_reset F Disconnected c, Inr ()))"

definition is_error :: "'t client \<Rightarrow> bool" where
  "is_error c = (cl_state c < Disconnected)"

definition is_pending :: "'t client \<Rightarrow> bool" where
  "is_pending c = (cl_state c = SendingConnectionRequest \<or> cl_state c = SendingChallengeResponse)"

definition client_is_connected :: "'t client \<Rightarrow> bool" where
  "client_is_connected c = (cl_state c = Connected)"

definition client_is_disconnected :: "'t client \<Rightarrow> bool" where
  "client_is_disconnected c = (cl_state c = Disconnected)"

section \<open>Steps of the client\<close>

inductive client_step :: "'t f64_ops \<Rightarrow> crypto_ops \<Rightarrow> 't client \<Rightarrow> 't client \<Rightarrow> bool" for F C where
  c_connect: "client_step F C c (client_connect F c)"
| c_update: "client_step F C c (fst (try_update F C delta_ms now bufs c))"
| c_drain: "client_step F C c (fst (drain_send_netcode_packets sender c))"
| c_send: "client_step F C c (fst (client_send C buf sender c))"
| c_disconnect: "client_step F C c (fst (client_disconnect F C c))"

section \<open>The state machine\<close>

text \<open>
  The changes of state that the documentation of \<open>ClientState\<close> lists: the error states are those of
  its variants.
\<close>

definition documented_change :: "client_state \<Rightarrow> client_state \<Rightarrow> bool" where
  "documented_change a b =
     (case a of
        Disconnected \<Rightarrow> b = SendingConnectionRequest
      | SendingConnectionRequest \<Rightarrow>
          b \<in> {SendingChallengeResponse, ConnectTokenExpired, ConnectionRequestTimedOut, ConnectionDenied}
      | SendingChallengeResponse \<Rightarrow>
          b \<in> {Connected, ConnectTokenExpired, ChallengeResponseTimedOut, ConnectionDenied}
      | Connected \<Rightarrow> b \<in> {ConnectionTimedOut, Disconnected}
      | _ \<Rightarrow> False)"

text \<open>The recorded changes lead from one state to another.\<close>

fun change_chain :: "client_state \<Rightarrow> (client_state \<times> client_state) list \<Rightarrow> client_state \<Rightarrow> bool" where
  "change_chain a [] b \<longleftrightarrow> a = b"
| "change_chain a ((x, y) # xs) b \<longleftrightarrow> x = a \<and> change_chain y xs b"

lemma change_chain_append:
  "change_chain a xs b \<Longrightarrow> change_chain b ys c \<Longrightarrow> change_chain a (xs @ ys) c"
  by (induction a xs b rule: change_chain.induct) auto

lemma change_chain_snoc: "change_chain a (xs @ [(x, y)]) b \<longleftrightarrow> change_chain a xs x \<and> y = b"
  by (induction a xs b rule: change_chain.induct) auto

text \<open>
  A client that is to disconnect is still connecting or connected, and connected if it is to end as
  \<open>Disconnected\<close>.
\<close>

definition client_ok :: "'t client \<Rightarrow> bool" where
  "client_ok c \<longleftrightarrow>
     change_chain Disconnected (cl_changes c) (cl_state c) \<and>
     (\<exists>as. ct_server_addresses (cl_token c) = packed as \<and> cl_server_addr_idx c < length as) \<and>
     (cl_should_disconnect c \<longrightarrow>
        cl_state c \<in> {SendingConnectionRequest, SendingChallengeResponse, Connected} \<and>
        (cl_should_disconnect_state c = ConnectionDenied \<or>
         cl_should_disconnect_state c = Disconnected \<and> cl_state c = Connected))"

lemma client_ok_cong:
  assumes "client_ok c" and "cl_changes c' = cl_changes c" and "cl_state c' = cl_state c" and "cl_token c' = cl_token c"
    and "cl_server_addr_idx c' = cl_server_addr_idx c" and "cl_should_disconnect c' = cl_should_disconnect c"
    and "cl_should_disconnect_state c' = cl_should_disconnect_state c"
  shows "client_ok c'"
  using assms by (simp add: client_ok_def)

lemma client_reset_ok: "client_ok c \<Longrightarrow> client_ok (client_reset F b c)"
  by (auto simp: client_ok_def client_reset_def reset_connection_def set_state_def change_chain_snoc)

lemma client_connect_ok: "client_ok c \<Longrightarrow> client_ok (client_connect F c)"
  by (auto simp: client_ok_def client_connect_def reset_connection_def set_state_def change_chain_snoc)

lemma connect_to_next_server_ok:
  assumes "client_ok c" and "connect_to_next_server F c = Some c'"
  shows "client_ok c'"
proof -
  have "client_ok (c\<lparr>cl_server_addr_idx := cl_server_addr_idx c + 1\<rparr>)"
    using assms by (auto simp: connect_to_next_server_def client_ok_def address_list_len_def split: if_splits)
  from client_connect_ok [OF this] show ?thesis
    using assms(2) by (auto simp: connect_to_next_server_def split: if_splits)
qed

lemma next_server_or_ok: "client_ok c \<Longrightarrow> client_ok (next_server_or F b c)"
  by (auto simp: next_server_or_def intro: client_reset_ok connect_to_next_server_ok split: option.split)

lemma client_update_state_ok: "client_ok c \<Longrightarrow> client_ok (client_update_state F c)"
  by (auto simp: client_update_state_def intro!: client_reset_ok next_server_or_ok)

lemma client_process_packet_ok: "client_ok c \<Longrightarrow> client_ok (fst (client_process_packet packet c))"
  by (auto simp: client_process_packet_def client_ok_def set_state_def change_chain_snoc
      split: netcode_packet.split)

lemma client_recv_packet_ok:
  assumes "client_ok c"
  shows "client_ok (fst (client_recv_packet C buf now c))"
proof -
  have put: "client_ok (case rp of Some w \<Rightarrow> c\<lparr>cl_replay_protection := w\<rparr> | None \<Rightarrow> c)" for rp
    using assms by (auto intro: client_ok_cong split: option.split)
  obtain rp r where r: "(packet_read C buf (ct_protocol_id (cl_token c)) now (ct_server_to_client_key (cl_token c))
      (if cl_state c = Connected then Some (cl_replay_protection c) else None) ::
        replay_protection option \<times> (unit netcode_error + netcode_packet)) = (rp, r)" by fastforce
  show ?thesis
  proof (cases r)
    case (Inl e)
    then show ?thesis
      using assms put [of rp] by (cases e) (simp_all add: client_recv_packet_def r Let_def)
  next
    case (Inr packet)
    have "client_ok (fst (client_process_packet packet (case rp of Some w \<Rightarrow> c\<lparr>cl_replay_protection := w\<rparr> | None \<Rightarrow> c)))"
      by (rule client_process_packet_ok [OF put])
    with Inr assms show ?thesis
      by (auto simp: client_recv_packet_def r Let_def split: prod.split)
  qed
qed

lemma cbind_ok:
  assumes "client_ok (fst m)" and "\<And>x c. client_ok c \<Longrightarrow> client_ok (fst (f x c))"
  shows "client_ok (fst (cbind m f))"
  using assms by (cases m; cases "snd m") auto

lemma client_recv_packets_ok: "client_ok c \<Longrightarrow> client_ok (fst (client_recv_packets C bufs now c))"
proof (induction bufs arbitrary: c)
  case (Cons buf bufs)
  show ?case
    unfolding client_recv_packets.simps
    by (intro cbind_ok client_recv_packet_ok Cons) simp_all
qed simp

lemma client_send_with_ok: "client_ok c \<Longrightarrow> client_ok (fst (client_send_with wr c))"
  by (auto simp: client_send_with_def intro: client_ok_cong split: sum.split)

lemma client_send_netcode_packet_ok: "client_ok c \<Longrightarrow> client_ok (fst (client_send_netcode_packet C packet c))"
  unfolding client_send_netcode_packet_def by (rule cbind_ok) (auto intro: client_send_with_ok client_ok_cong)

lemma send_packets_ok: "client_ok c \<Longrightarrow> client_ok (fst (send_packets F C c))"
  by (auto simp: send_packets_def intro: client_send_netcode_packet_ok split: client_state.split)

lemma client_send_disconnects_ok: "client_ok c \<Longrightarrow> client_ok (fst (client_send_disconnects C n c))"
proof (induction n arbitrary: c)
  case (Suc n)
  show ?case
    unfolding client_send_disconnects.simps
    by (intro cbind_ok client_send_netcode_packet_ok Suc)
qed simp

lemma client_step_ok: "client_step F C c c' \<Longrightarrow> client_ok c \<Longrightarrow> client_ok c'"
proof (induction rule: client_step.induct)
  case (c_update c delta_ms now bufs)
  have "client_ok (c\<lparr>cl_time := f_add F (cl_time c) delta_ms\<rparr>)"
    using c_update by (auto intro: client_ok_cong)
  then show ?case
    by (auto simp: try_update_def Let_def intro!: cbind_ok client_recv_packets_ok send_packets_ok client_update_state_ok)
next
  case (c_send c buf sender)
  then show ?case
    by (auto simp: client_send_def send_payload_packet_def intro!: cbind_ok client_send_with_ok)
next
  case (c_disconnect c)
  then show ?case
    by (auto simp: client_disconnect_def intro!: cbind_ok client_send_disconnects_ok client_reset_ok)
qed (auto simp: drain_send_netcode_packets_def intro: client_connect_ok client_ok_cong)

text \<open>A token that was read has a list of addresses without holes, and at least one.\<close>

lemma read_addresses_packed:
  assumes "read_addresses n r (packed as) = Inr (Some l, r')" and "length as + n \<le> MAX_SERVERS_PER_CONNECT"
  shows "\<exists>bs. l = packed (as @ bs) \<and> length bs = n"
  using assms
proof (induction n arbitrary: r as)
  case (Suc n)
  obtain a r1 where a: "address_read_from r = Inr (a, r1)"
    and rest: "(case fl_insert a (packed as) of None \<Rightarrow> Inr (None, r1) | Some (l, _) \<Rightarrow> read_addresses n r1 l) = Inr (Some l, r')"
    using Suc.prems(1) by (auto simp: and_then_def split: sum.splits prod.splits)
  have "fl_insert a (packed as) = Some (packed (as @ [a]), length as)"
    using Suc.prems(2) by (intro fl_insert_packed) simp
  with rest have "read_addresses n r1 (packed (as @ [a])) = Inr (Some l, r')"
    by simp
  from Suc.IH [OF this] Suc.prems(2) obtain bs where "l = packed ((as @ [a]) @ bs)" "length bs = n"
    by auto
  then show ?case
    by (intro exI [of _ "a # bs"]) simp
qed simp

lemma address_list_read_packed:
  assumes "address_list_read_from r = Inr (Some l, r')"
  shows "\<exists>as. as \<noteq> [] \<and> l = packed as"
proof -
  obtain len :: u32 and r1 where len: "1 \<le> unat len" "unat len \<le> MAX_SERVERS_PER_CONNECT"
    and read: "read_addresses (unat len) r1 (packed []) = Inr (Some l, r')"
    using assms by (auto simp: address_list_read_from_def packed_Nil and_then_def split: sum.splits if_splits prod.splits)
  obtain bs where "l = packed bs" "length bs = unat len"
    using read_addresses_packed [OF read] len(2) by auto
  with len(1) show ?thesis
    by (intro exI [of _ bs]) auto
qed

lemma ct_read_packed:
  assumes "ct_read_from r = Inr (Some token, r')"
  shows "\<exists>as. as \<noteq> [] \<and> ct_server_addresses token = packed as"
  using assms
  by (auto simp: ct_read_from_def and_then_def dest!: address_list_read_packed
      split: sum.splits if_splits prod.splits option.splits)

lemma address_list_index_packed: "i < length as \<Longrightarrow> address_list_index (packed as) i = Some (as ! i)"
  by (simp add: address_list_index_def fl_get_def packed_def nth_append)

lemma from_token_ok: "from_token F token_bytes cfg = Inr c \<Longrightarrow> client_ok c"
  using ct_read_packed
  by (fastforce simp: from_token_def client_ok_def split: if_splits sum.splits prod.splits option.splits)

text \<open>What the datagrams of a frame change: only documented steps towards the connection.\<close>

definition moves :: "'t client \<Rightarrow> 't client \<Rightarrow> bool" where
  "moves c c' \<longleftrightarrow>
     cl_server_addr_idx c' = cl_server_addr_idx c \<and> cl_token c' = cl_token c \<and>
     (\<exists>new. cl_changes c' = cl_changes c @ new \<and> change_chain (cl_state c) new (cl_state c') \<and>
        (\<forall>(a, b) \<in> set new. documented_change a b))"

lemma moves_same:
  "cl_server_addr_idx c' = cl_server_addr_idx c \<Longrightarrow> cl_token c' = cl_token c \<Longrightarrow>
   cl_changes c' = cl_changes c \<Longrightarrow> cl_state c' = cl_state c \<Longrightarrow> moves c c'"
  by (simp add: moves_def)

lemma moves_trans: "moves c c' \<Longrightarrow> moves c' c'' \<Longrightarrow> moves c c''"
  by (fastforce simp: moves_def intro: change_chain_append)

lemma moves_cbind:
  assumes "moves c (fst m)" and "\<And>x c'. moves c c' \<Longrightarrow> moves c (fst (f x c'))"
  shows "moves c (fst (cbind m f))"
  using assms by (cases m; cases "snd m") auto

lemma client_process_packet_moves: "moves c (fst (client_process_packet packet c))"
  by (auto simp: client_process_packet_def set_state_def moves_def documented_change_def
      split: netcode_packet.split)

lemma client_recv_packet_moves: "moves c (fst (client_recv_packet C buf now c))"
proof -
  obtain rp r where r: "(packet_read C buf (ct_protocol_id (cl_token c)) now (ct_server_to_client_key (cl_token c))
      (if cl_state c = Connected then Some (cl_replay_protection c) else None) ::
        replay_protection option \<times> (unit netcode_error + netcode_packet)) = (rp, r)" by fastforce
  let ?c = "case rp of Some w \<Rightarrow> c\<lparr>cl_replay_protection := w\<rparr> | None \<Rightarrow> c"
  have put: "moves c ?c"
    by (rule moves_same) (simp_all split: option.split)
  have same: "moves c c"
    by (rule moves_same) simp_all
  show ?thesis
  proof (cases r)
    case (Inl e)
    then show ?thesis
      using put same by (cases e) (simp_all add: client_recv_packet_def r Let_def)
  next
    case (Inr packet)
    have "moves c (fst (client_process_packet packet ?c))"
      by (rule moves_trans [OF put client_process_packet_moves])
    with Inr same show ?thesis
      by (auto simp: client_recv_packet_def r Let_def split: prod.split)
  qed
qed

lemma client_recv_packets_moves: "moves c (fst (client_recv_packets C bufs now c))"
proof (induction bufs arbitrary: c)
  case (Cons buf bufs)
  show ?case
    unfolding client_recv_packets.simps
    by (intro moves_cbind client_recv_packet_moves)
      (auto intro: moves_trans [OF _ Cons])
qed (simp add: moves_same)

lemma client_send_netcode_packet_moves: "moves c (fst (client_send_netcode_packet C packet c))"
  by (rule moves_same)
    (simp_all add: client_send_netcode_packet_def client_send_with_def split: sum.split)

lemma send_packets_moves: "moves c (fst (send_packets F C c))"
  using client_send_netcode_packet_moves [of c] moves_same [OF refl refl refl refl, of c]
  by (simp add: send_packets_def split: client_state.split)

text \<open>The step of \<open>update_state\<close>: none, a documented one, or one of the two others.\<close>

definition frame_change :: "'t client \<Rightarrow> 't client \<Rightarrow> client_state \<times> client_state \<Rightarrow> bool" where
  "frame_change c c' change \<longleftrightarrow>
     (case change of (a, b) \<Rightarrow>
        documented_change a b \<or>
        a \<in> {SendingConnectionRequest, SendingChallengeResponse, Connected} \<and>
          b = SendingConnectionRequest \<and> cl_server_addr_idx c' = cl_server_addr_idx c + 1 \<or>
        a = Connected \<and> b = ConnectionDenied)"

lemma client_update_state_change:
  assumes "client_ok c" and "client_update_state F c \<noteq> c"
  shows "\<exists>b. cl_changes (client_update_state F c) = cl_changes c @ [(cl_state c, b)] \<and>
    cl_state (client_update_state F c) = b \<and> frame_change c (client_update_state F c) (cl_state c, b)"
proof -
  have reset: "cl_changes (client_reset F b c) = cl_changes c @ [(cl_state c, b)]" "cl_state (client_reset F b c) = b" for b
    by (simp_all add: client_reset_def reset_connection_def set_state_def)
  have doc: "documented_change (cl_state c) b \<Longrightarrow> frame_change c c' (cl_state c, b)" for b c'
    by (simp add: frame_change_def)
  have next_server: "\<exists>b. cl_changes (next_server_or F e c) = cl_changes c @ [(cl_state c, b)] \<and>
      cl_state (next_server_or F e c) = b \<and> frame_change c (next_server_or F e c) (cl_state c, b)"
    if "cl_state c \<in> {SendingConnectionRequest, SendingChallengeResponse, Connected}"
      and "frame_change c (client_reset F e c) (cl_state c, e)" for e
  proof (cases "connect_to_next_server F c")
    case None
    with reset [of e] that(2) show ?thesis by (simp add: next_server_or_def)
  next
    case (Some c')
    then have "cl_changes c' = cl_changes c @ [(cl_state c, SendingConnectionRequest)]"
      "cl_state c' = SendingConnectionRequest" "cl_server_addr_idx c' = cl_server_addr_idx c + 1"
      by (auto simp: connect_to_next_server_def client_connect_def reset_connection_def set_state_def split: if_splits)
    with Some that(1) show ?thesis by (simp add: next_server_or_def frame_change_def)
  qed
  have denied: "cl_state c \<in> {SendingConnectionRequest, SendingChallengeResponse, Connected} \<and>
      frame_change c c' (cl_state c, cl_should_disconnect_state c)" if "cl_should_disconnect c" for c'
    using assms(1) that by (auto simp: client_ok_def frame_change_def documented_change_def)
  consider
      (expired) "cl_state c = SendingConnectionRequest \<or> cl_state c = SendingChallengeResponse"
        "client_update_state F c = client_reset F ConnectTokenExpired c"
    | (told) "cl_should_disconnect c"
        "client_update_state F c = next_server_or F (cl_should_disconnect_state c) c"
    | (request) "cl_state c = SendingConnectionRequest"
        "client_update_state F c = next_server_or F ConnectionRequestTimedOut c"
    | (response) "cl_state c = SendingChallengeResponse"
        "client_update_state F c = next_server_or F ChallengeResponseTimedOut c"
    | (lost) "cl_state c = Connected" "client_update_state F c = client_reset F ConnectionTimedOut c"
    using assms(2)
    by (cases "(cl_state c = SendingConnectionRequest \<or> cl_state c = SendingChallengeResponse) \<and> is_token_expired F c";
        cases "cl_should_disconnect c"; cases "is_connection_timed_out F c"; cases "cl_state c")
      (simp_all add: client_update_state_def)
  then show ?thesis
  proof cases
    case expired
    with reset doc show ?thesis by (auto simp: documented_change_def)
  next
    case told
    with next_server denied show ?thesis by simp
  next
    case request
    with next_server [of ConnectionRequestTimedOut] doc show ?thesis by (simp add: documented_change_def)
  next
    case response
    with next_server [of ChallengeResponseTimedOut] doc show ?thesis by (simp add: documented_change_def)
  next
    case lost
    with reset doc show ?thesis by (simp add: documented_change_def)
  qed
qed

text \<open>
  C7: what a frame can do to the state of a client. Whatever datagrams arrive, in whatever order, and
  however late the update comes, the changes of state that an update of a reachable client makes form a
  chain from the old state to the new one, and each of them is documented, but for two that the
  documentation of \<open>ClientState\<close> leaves out: starting over at the next address of the token (which a
  connected client that receives a disconnect packet does too, where the documentation says that it
  becomes \<open>Disconnected\<close>), and the denial of a client that was connected in the same frame. The index of
  the server it talks to always names an address of its token.
\<close>

theorem client_state_machine:
  assumes "from_token F token_bytes cfg = Inr c0" and "(client_step F C)\<^sup>*\<^sup>* c0 c"
    and "c' = fst (try_update F C delta_ms now bufs c)"
  shows "client_server_addr c' \<noteq> None \<and>
    (\<exists>new. cl_changes c' = cl_changes c @ new \<and> change_chain (cl_state c) new (cl_state c') \<and>
       (\<forall>(a, b) \<in> set new. documented_change a b \<or>
          a \<in> {SendingConnectionRequest, SendingChallengeResponse, Connected} \<and>
            b = SendingConnectionRequest \<and> cl_server_addr_idx c' = cl_server_addr_idx c + 1 \<or>
          a = Connected \<and> b = ConnectionDenied))"
proof -
  define c0' where "c0' = c\<lparr>cl_time := f_add F (cl_time c) delta_ms\<rparr>"
  define c1 where "c1 = fst (client_recv_packets C bufs now c0')"
  define c2 where "c2 = fst (send_packets F C c1)"
  have "client_ok c"
    using assms(2) from_token_ok [OF assms(1)] by induction (auto intro: client_step_ok)
  then have ok: "client_ok c0'"
    by (rule client_ok_cong) (simp_all add: c0'_def)
  then have ok2: "client_ok c1" "client_ok c2"
    by (auto simp: c1_def c2_def intro: client_recv_packets_ok send_packets_ok)
  have "moves c c0'"
    by (rule moves_same) (simp_all add: c0'_def)
  then have m1: "moves c c1"
    unfolding c1_def by (rule moves_trans [OF _ client_recv_packets_moves])
  then have m2: "moves c c2"
    unfolding c2_def by (rule moves_trans [OF _ send_packets_moves])
  have "c' = c1 \<or> c' = c2 \<or> c' = client_update_state F c2"
    using assms(3) by (auto simp: try_update_def Let_def cbind_def c0'_def c1_def c2_def
        split: prod.splits sum.splits)
  then consider "moves c c'" "client_ok c'" | "c' = client_update_state F c2" "c' \<noteq> c2"
    using m1 m2 ok2 by metis
  then show ?thesis
  proof cases
    case 1
    then show ?thesis
      by (auto simp: moves_def client_ok_def client_server_addr_def address_list_index_packed)
  next
    case 2
    then obtain b where b: "cl_changes c' = cl_changes c2 @ [(cl_state c2, b)]" "cl_state c' = b"
        "frame_change c2 c' (cl_state c2, b)"
      using client_update_state_change [OF ok2(2), of F] by auto
    have "client_ok c'"
      using 2(1) client_update_state_ok [OF ok2(2)] by simp
    then have "client_server_addr c' \<noteq> None"
      by (auto simp: client_ok_def client_server_addr_def address_list_index_packed)
    moreover obtain new where "cl_changes c2 = cl_changes c @ new"
        "change_chain (cl_state c) new (cl_state c2)" "\<forall>(a, b) \<in> set new. documented_change a b"
        "cl_server_addr_idx c2 = cl_server_addr_idx c"
      using m2 by (auto simp: moves_def)
    ultimately show ?thesis
      using b by (intro conjI exI [of _ "new @ [(cl_state c2, b)]"])
        (auto simp: change_chain_snoc frame_change_def)
  qed
qed

section \<open>The handshake\<close>

text \<open>
  One frame of both plugins over a link that loses nothing: the client processes what waits for it
  and its queue is drained; the server receives that and drains what it has for the client.
\<close>

definition link_round ::
  "'t f64_ops \<Rightarrow> crypto_ops \<Rightarrow> 't \<Rightarrow> u64 \<Rightarrow> 'e \<Rightarrow> socket_addr option \<Rightarrow>
   't client \<times> ('e, 't) server \<times> bytes list \<Rightarrow> 't client \<times> ('e, 't) server \<times> bytes list" where
  "link_round F C delta_ms now e server_addr x =
     (case x of (c, s, inbox) \<Rightarrow>
        case try_update F C delta_ms now inbox c of (c, _) \<Rightarrow>
        case drain_send_netcode_packets [] c of (c, out) \<Rightarrow>
        case server_receive F C out now e server_addr s of (s, _) \<Rightarrow>
        case send_netcode_packets e [] s of (s, inbox) \<Rightarrow> (c, s, inbox))"

text \<open>Time to send, and neither limit reached.\<close>

definition on_time :: "'t f64_ops \<Rightarrow> 't client \<Rightarrow> bool" where
  "on_time F c \<longleftrightarrow> \<not> f_ge F (f_add F (cl_last_send_time c) (ccfg_packet_send_rate (cl_cfg c))) (cl_time c) \<and>
     \<not> is_token_expired F c \<and> \<not> is_connection_timed_out F c \<and> \<not> cl_should_disconnect c"

lemma client_update_state_idle:
  assumes "\<not> (is_pending c \<and> is_token_expired F c)" and "\<not> is_connection_timed_out F c" and "\<not> cl_should_disconnect c"
  shows "client_update_state F c = c"
  using assms by (auto simp: client_update_state_def is_pending_def)

lemma limits_after_send [simp]:
  "is_token_expired F (c\<lparr>cl_last_send_time := t, cl_sequence := n, cl_send_queue := q\<rparr>) = is_token_expired F c"
  "is_connection_timed_out F (c\<lparr>cl_last_send_time := t, cl_sequence := n, cl_send_queue := q\<rparr>) = is_connection_timed_out F c"
  by (simp_all add: is_token_expired_def is_connection_timed_out_def)

text \<open>The state after a packet was put in the queue.\<close>

definition after_send :: "bytes \<Rightarrow> 't client \<Rightarrow> 't client" where
  "after_send wire c = c\<lparr>cl_last_send_time := cl_time c, cl_sequence := cl_sequence c + 1,
     cl_send_queue := cl_send_queue c @ [wire]\<rparr>"

lemma packet_sends:
  assumes "packet_write C MAX_PKT_BUF_SIZE packet (cl_sequence c) (ct_client_to_server_key (cl_token c))
      (ct_protocol_id (cl_token c)) = (Inr wire :: unit netcode_error + bytes)"
  shows "client_send_netcode_packet C packet c = (after_send wire c, Inr ())"
  using assms by (simp add: client_send_netcode_packet_def client_send_with_def after_send_def)

lemma pending_client_sends:
  assumes "client_recv_packets C bufs now (c0\<lparr>cl_time := f_add F (cl_time c0) delta_ms\<rparr>) = (c, Inr payloads)"
    and "on_time F c" and "send_packets F C c = (after_send wire c, Inr ())"
  shows "try_update F C delta_ms now bufs c0 = (after_send wire c, Inr (cl_state c, payloads))"
proof -
  have "client_update_state F (after_send wire c) = after_send wire c"
    using assms(2) by (intro client_update_state_idle) (simp_all add: on_time_def after_send_def)
  with assms(1,3) show ?thesis
    by (simp add: try_update_def Let_def after_send_def)
qed

lemma server_receive_one:
  assumes "server_recv_packet F C wire now e server_addr s = (s', Inr None)"
  shows "server_receive F C [wire] now e server_addr s = (s'\<lparr>sv_client_errors := []\<rparr>, Inr ([], sv_client_errors s'))"
  using assms by (simp add: server_receive_def)

text \<open>The server's half of the first frame: it reads the request and queues a challenge.\<close>

lemma server_challenges:
  fixes e :: 'e
  assumes cipher: "aead_cipher (chacha C) 12" and rq: "request_ok rq" "request_validate rq (sv_protocol_id s) now = Inr ()"
    and dec: "ctp_decrypt C (rq_token_data rq) (rq_protocol_id rq) (rq_expire_timestamp rq) (rq_token_nonce rq)
      (sv_private_key s) = (Inr (priv, buf) :: 'e netcode_error + connect_token_private \<times> bytes)"
    and priv: "ctp_ok as priv" "length buf = CTP_SIZE" and ck: "length (sv_challenge_key s) = PRIVATE_KEY_BYTES"
    and addr: "address_allowed (cfg_additional_expected_addresses (sv_cfg s)) server_addr (ctp_server_addresses priv)"
    and fresh: "cc_client_id_map (sv_conn_cache s) e = None" "find_by_id (ctp_client_id priv) (sv_conn_cache s) = None"
    and room: "num_connected_clients s < cfg_max_clients (sv_cfg s)"
    and handler: "cfg_handle_request (sv_cfg s) (PeerNetcode (ctp_client_id priv)) = None"
  shows "\<exists>wire entries challenge reply.
    packet_write C MAX_PKT_BUF_SIZE (RequestPkt rq) sequence key protocol_id = (Inr wire :: unit netcode_error + bytes) \<and>
    server_recv_packet F C wire now e server_addr s =
      (s\<lparr>sv_token_entries := entries, sv_send_queue := queue_push e reply (sv_send_queue s),
         sv_sequence := sv_sequence s + 1, sv_challenge_sequence := sv_challenge_sequence s + 1,
         sv_conn_cache := cache_add F (ctp_client_id priv) e (ctp_timeout_seconds priv)
           (ctp_server_to_client_key priv) (ctp_client_to_server_key priv) (ctp_user_data priv) (sv_conn_cache s),
         sv_events := sv_events s @ [InsertConnecting e]\<rparr>, Inr None) \<and>
    length challenge = CHALLENGE_SIZE \<and>
    cht_decrypt C challenge (sv_challenge_sequence s) (sv_challenge_key s) =
      (Inr \<lparr>cht_client_id = ctp_client_id priv, cht_user_data = ctp_user_data priv\<rparr> :: 'e netcode_error + challenge_token) \<and>
    1 < length reply \<and>
    (\<forall>ts. packet_read C reply (sv_protocol_id s) ts (ctp_server_to_client_key priv) None =
       (None, Inr (ChallengePkt (sv_challenge_sequence s) challenge) :: unit netcode_error + netcode_packet))"
proof -
  obtain wire rq' r where wire: "packet_write C MAX_PKT_BUF_SIZE (RequestPkt rq) sequence key protocol_id =
      (Inr wire :: unit netcode_error + bytes)" "hd wire = REQUEST" "1 < length wire"
    "packet_read C wire (sv_protocol_id s) now (sv_private_key s) None =
      (None, Inr (RequestPkt rq') :: 'e netcode_error + netcode_packet)"
    and token: "ctp_read_from (reader_from (rq_token_data rq')) = Inr (priv, r)"
    using request_write_read [where ?'e = unit and ?'f = 'e, OF rq dec priv, of sequence key protocol_id None] by blast
  have keys: "length (ctp_server_to_client_key priv) = PRIVATE_KEY_BYTES" "length (ctp_user_data priv) = USER_DATA_BYTES"
    using priv(1) by (simp_all add: ctp_ok_def)
  have free: "\<not> cn_connected c" if "find_by_entity e (sv_conn_cache s) = Some c" for c
    using that fresh(1) by (simp add: find_by_entity_def)
  have free': "\<not> cn_connected c" if "find_by_id (ctp_client_id priv) (sv_conn_cache s) = Some c" for c
    using that fresh(2) by simp
  note req = request_succeeds [where ?'e = 'e and ?'f = unit and e = e and F = F,
      OF cipher token keys ck addr free free' room handler]
  have recv: "server_recv_packet F C wire now e server_addr s =
      sbind (process_connection_request F C rq' e server_addr s) (\<lambda>_ s. (s, Inr None))"
    using wire(2-4) by (simp add: server_recv_packet_def process_packet_def)
  have "\<exists>entries challenge reply. server_recv_packet F C wire now e server_addr s = (f entries reply, Inr None) \<and> P challenge reply"
    if "\<exists>entries challenge reply. process_connection_request F C rq' e server_addr s = (f entries reply, Inr ()) \<and> P challenge reply"
    for f P
    using that unfolding recv by fastforce
  from this [OF req] wire(1) show ?thesis by blast
qed

text \<open>The server's half of the second frame: it reads the response and accepts the client.\<close>

lemma server_accepts:
  fixes e :: 'e
  assumes cipher: "aead_cipher (chacha C) 12"
    and token: "cht_decrypt C challenge seq (sv_challenge_key s) = (Inr t :: 'e netcode_error + challenge_token)"
      "length challenge = CHALLENGE_SIZE"
    and conn: "cc_client_id_map (sv_conn_cache s) e = Some (cht_client_id t)"
      "find_by_id (cht_client_id t) (sv_conn_cache s) = Some conn" "cn_client_id conn = cht_client_id t" "\<not> cn_connected conn"
    and keys: "length (cn_send_key conn) = PRIVATE_KEY_BYTES" "length (cn_receive_key conn) = PRIVATE_KEY_BYTES"
    and room: "num_connected_clients s < cfg_max_clients (sv_cfg s)"
  shows "\<exists>wire reply.
    packet_write C MAX_PKT_BUF_SIZE (ResponsePkt seq challenge) sequence (cn_receive_key conn) (sv_protocol_id s) =
      (Inr wire :: unit netcode_error + bytes) \<and>
    server_recv_packet F C wire now e server_addr s =
      (s\<lparr>sv_conn_cache := modify_by_id (cht_client_id t)
           (\<lambda>c. sent_to (sv_time s) (c\<lparr>cn_connected := True, cn_last_send_time := sv_time s, cn_last_receive_time := sv_time s\<rparr>))
           (sv_conn_cache s),
         sv_send_queue := queue_push e reply (sv_send_queue s),
         sv_events := sv_events s @ [OnConnect (cht_client_id t) e (cn_user_data conn)]\<rparr>, Inr None) \<and>
    1 < length reply \<and>
    (\<forall>ts. packet_read C reply (sv_protocol_id s) ts (cn_send_key conn) None =
       (None, Inr (KeepAlivePkt (cht_client_id t)) :: unit netcode_error + netcode_packet))"
proof -
  let ?p = "ResponsePkt seq challenge"
  have "packet_ok ?p"
    using token(2) by (simp add: packet_ok_def)
  from packet_write_read [where ?'e = unit and ?'f = 'e, OF cipher keys(2) this, of sequence "sv_protocol_id s"]
  obtain wire where wire: "packet_write C MAX_PKT_BUF_SIZE ?p sequence (cn_receive_key conn) (sv_protocol_id s) =
      (Inr wire :: unit netcode_error + bytes)" "hd wire \<noteq> REQUEST" "1 < length wire"
    "\<forall>ts rp. packet_read C wire (sv_protocol_id s) ts (cn_receive_key conn) rp = (rp, Inr ?p :: 'e netcode_error + netcode_packet)"
    by (auto simp: window_accepts_def window_advance_def packet_kind_def packet_kinds)
  have recv: "server_recv_packet F C wire now e server_addr s =
      sbind (process_connection_response C seq challenge e s) (\<lambda>_ s. (s, Inr None))"
    using wire(2-4) conn(1-3) by (simp add: server_recv_packet_def process_packet_def find_by_entity_def)
  have "\<exists>reply. server_recv_packet F C wire now e server_addr s = (f reply, Inr None) \<and> P reply"
    if "\<exists>reply. process_connection_response C seq challenge e s = (f reply, Inr ()) \<and> P reply" for f P
    using that unfolding recv by fastforce
  from this [OF response_succeeds [where ?'f = unit, OF cipher token(1) conn(2,4) keys(1) room]] wire(1) show ?thesis
    by blast
qed

lemma client_recv_one:
  assumes "packet_read C reply (ct_protocol_id (cl_token c)) now (ct_server_to_client_key (cl_token c)) None =
      (None, Inr packet :: unit netcode_error + netcode_packet)"
    and "1 < length reply" and "cl_state c \<noteq> Connected" and "client_process_packet packet c = (c', None)"
  shows "client_recv_packets C [reply] now c = (c', Inr [])"
  using assms by (simp add: client_recv_packet_def)

lemma connected_client_update:
  assumes "client_recv_packets C bufs now (c0\<lparr>cl_time := f_add F (cl_time c0) delta_ms\<rparr>) = (c, Inr payloads)"
    and "cl_state c = Connected" and "\<not> is_connection_timed_out F c" and "\<not> cl_should_disconnect c"
    and "aead_cipher (chacha C) 12" and "length (ct_client_to_server_key (cl_token c)) = PRIVATE_KEY_BYTES"
  shows "\<exists>c'. try_update F C delta_ms now bufs c0 = (c', Inr (Connected, payloads)) \<and>
    cl_state c' = Connected \<and> cl_id c' = cl_id c"
proof -
  have "packet_ok (KeepAlivePkt 0)"
    by (simp add: packet_ok_def)
  from packet_write_read [where ?'e = unit and ?'f = unit, OF assms(5,6) this]
  obtain wire where "packet_write C MAX_PKT_BUF_SIZE (KeepAlivePkt 0) (cl_sequence c)
      (ct_client_to_server_key (cl_token c)) (ct_protocol_id (cl_token c)) = (Inr wire :: unit netcode_error + bytes)"
    by blast
  then have "send_packets F C c = (c, Inr ()) \<or> send_packets F C c = (after_send wire c, Inr ())"
    using assms(2) packet_sends by (auto simp: send_packets_def)
  moreover have "client_update_state F c = c" "client_update_state F (after_send wire c) = after_send wire c"
    using assms(2-4) by (auto intro!: client_update_state_idle simp: after_send_def is_pending_def)
  ultimately show ?thesis
    using assms(1,2) by (auto simp: try_update_def Let_def after_send_def)
qed

lemma cache_add_fresh:
  assumes "cc_client_id_map cc e = None"
  shows "cc_client_id_map (cache_add F k e timeout sk rk udata cc) e = Some k"
    and "\<exists>conn. find_by_id k (cache_add F k e timeout sk rk udata cc) = Some conn \<and> cn_client_id conn = k \<and>
      \<not> cn_connected conn \<and> cn_send_key conn = sk \<and> cn_receive_key conn = rk \<and> cn_user_data conn = udata"
    and "connected_in (cc_clients (cache_add F k e timeout sk rk udata cc)) \<le> connected_in (cc_clients cc)"
  using assms by (auto simp: cache_add_def find_by_id_def update_conv' intro: connected_update_fresh)

lemma round_sends_one:
  assumes "try_update F C delta_ms now inbox c = (after_send wire c', r)" and "cl_send_queue c' = []"
    and "server_recv_packet F C wire now e server_addr s = (s', Inr None)"
    and "sv_send_queue s' e = Some queue"
  shows "link_round F C delta_ms now e server_addr (c, s, inbox) =
    ((after_send wire c')\<lparr>cl_send_queue := []\<rparr>,
     s'\<lparr>sv_client_errors := [], sv_send_queue := (sv_send_queue s')(e \<mapsto> [])\<rparr>, queue)"
  using assms
  by (simp add: link_round_def drain_send_netcode_packets_def after_send_def server_receive_one [OF assms(3)]
      send_netcode_packets_def)

text \<open>
  The situation before the handshake: the token is fresh and made with the server's key, the client
  has started to connect, and the server has room for it and does not know it or its link.
\<close>

definition can_connect ::
  "crypto_ops \<Rightarrow> connect_token_builder \<Rightarrow> key \<Rightarrow> key \<Rightarrow> u64 \<Rightarrow> 'e \<Rightarrow> socket_addr option \<Rightarrow> 't client \<Rightarrow> ('e, 't) server \<Rightarrow> bool" where
  "can_connect C b c2s s2c now e server_addr c s \<longleftrightarrow>
     cl_state c = SendingConnectionRequest \<and> cl_send_queue c = [] \<and> now < ct_expire_timestamp (cl_token c) \<and>
     sv_protocol_id s = ctb_protocol_id b \<and> sv_private_key s = ctb_private_key b \<and>
     length (sv_challenge_key s) = PRIVATE_KEY_BYTES \<and> sv_send_queue s e = None \<and>
     cc_client_id_map (sv_conn_cache s) e = None \<and> find_by_id (ctb_client_id b) (sv_conn_cache s) = None \<and>
     num_connected_clients s < cfg_max_clients (sv_cfg s) \<and>
     cfg_handle_request (sv_cfg s) (PeerNetcode (ctb_client_id b)) = None \<and>
     address_allowed (cfg_additional_expected_addresses (sv_cfg s)) server_addr
       (ctp_server_addresses (private_for b c2s s2c))"

text \<open>The server after it answered the request of that client.\<close>

definition challenged ::
  "'t f64_ops \<Rightarrow> connect_token_private \<Rightarrow> 'e \<Rightarrow> ('e, 't) token_entry list \<Rightarrow> bytes \<Rightarrow> ('e, 't) server \<Rightarrow> ('e, 't) server" where
  "challenged F priv e entries reply s =
     s\<lparr>sv_token_entries := entries, sv_send_queue := queue_push e reply (sv_send_queue s),
       sv_sequence := sv_sequence s + 1, sv_challenge_sequence := sv_challenge_sequence s + 1,
       sv_conn_cache := cache_add F (ctp_client_id priv) e (ctp_timeout_seconds priv)
         (ctp_server_to_client_key priv) (ctp_client_to_server_key priv) (ctp_user_data priv) (sv_conn_cache s),
       sv_events := sv_events s @ [InsertConnecting e]\<rparr>"

lemma private_for_simps [simp]:
  "ctp_client_id (private_for b c2s s2c) = ctb_client_id b" "ctp_server_to_client_key (private_for b c2s s2c) = s2c"
  "ctp_client_to_server_key (private_for b c2s s2c) = c2s" "ctp_user_data (private_for b c2s s2c) = ctb_user_data b"
  by (simp_all add: private_for_def)

lemma token_for_simps [simp]:
  "ct_protocol_id (token_for b now c2s s2c nonce enc) = ctb_protocol_id b"
  "ct_client_to_server_key (token_for b now c2s s2c nonce enc) = c2s"
  "ct_server_to_client_key (token_for b now c2s s2c nonce enc) = s2c"
  by (simp_all add: token_for_def)

lemma request_answered:
  fixes e :: 'e
  assumes ciphers: "aead_cipher (chacha C) 12" "aead_cipher (xchacha C) 24"
    and token: "builder_ok b" "length nonce = 24" "length c2s = PRIVATE_KEY_BYTES" "length s2c = PRIVATE_KEY_BYTES"
      "unat created + 2 ^ 31 < 2 ^ 64"
      "token_generate C created c2s s2c nonce b = (Inr (cl_token c) :: unit netcode_error + connect_token)"
    and can: "can_connect C b c2s s2c now e server_addr c s"
  shows "\<exists>enc rq wire entries challenge reply. cl_token c = token_for b created c2s s2c nonce enc \<and>
    RequestPkt rq = request_create (ct_protocol_id (cl_token c)) (ct_expire_timestamp (cl_token c)) (ct_nonce (cl_token c))
      (ct_private_data (cl_token c)) \<and>
    packet_write C MAX_PKT_BUF_SIZE (RequestPkt rq) (cl_sequence c) c2s (ctb_protocol_id b) =
      (Inr wire :: unit netcode_error + bytes) \<and>
    server_recv_packet F C wire now e server_addr s = (challenged F (private_for b c2s s2c) e entries reply s, Inr None) \<and>
    length challenge = CHALLENGE_SIZE \<and>
    cht_decrypt C challenge (sv_challenge_sequence s) (sv_challenge_key s) =
      (Inr \<lparr>cht_client_id = ctb_client_id b, cht_user_data = ctb_user_data b\<rparr> :: 'e netcode_error + challenge_token) \<and>
    1 < length reply \<and>
    (\<forall>ts. packet_read C reply (sv_protocol_id s) ts s2c None =
       (None, Inr (ChallengePkt (sv_challenge_sequence s) challenge) :: unit netcode_error + netcode_packet))"
proof -
  let ?priv = "private_for b c2s s2c"
  obtain enc as ias buf where t: "cl_token c = token_for b created c2s s2c nonce enc" and ct: "ct_ok as (cl_token c)"
    and priv: "ctp_ok ias ?priv" "length buf = CTP_SIZE"
    and dec: "ctp_decrypt C (ct_private_data (cl_token c)) (ct_protocol_id (cl_token c)) (ct_expire_timestamp (cl_token c))
      (ct_nonce (cl_token c)) (ctb_private_key b) = (Inr (?priv, buf) :: 'e netcode_error + connect_token_private \<times> bytes)"
    using token_generate_ok [where ?'e = unit and ?'f = 'e, OF ciphers(2) token(1-5)] unfolding token(6) by auto
  define rq where "rq = \<lparr>rq_version_info = NETCODE_VERSION, rq_protocol_id = ct_protocol_id (cl_token c),
    rq_expire_timestamp = ct_expire_timestamp (cl_token c), rq_token_nonce = ct_nonce (cl_token c),
    rq_token_data = ct_private_data (cl_token c)\<rparr>"
  have rq: "request_ok rq" "request_validate rq (sv_protocol_id s) now = Inr ()"
    using ct can t by (simp_all add: request_ok_def rq_def ct_ok_def request_validate_def can_connect_def not_le)
  have dec': "ctp_decrypt C (rq_token_data rq) (rq_protocol_id rq) (rq_expire_timestamp rq) (rq_token_nonce rq)
      (sv_private_key s) = (Inr (?priv, buf) :: 'e netcode_error + connect_token_private \<times> bytes)"
    using dec can by (simp add: rq_def can_connect_def)
  have conds: "length (sv_challenge_key s) = PRIVATE_KEY_BYTES"
    "address_allowed (cfg_additional_expected_addresses (sv_cfg s)) server_addr (ctp_server_addresses ?priv)"
    "cc_client_id_map (sv_conn_cache s) e = None" "find_by_id (ctp_client_id ?priv) (sv_conn_cache s) = None"
    "num_connected_clients s < cfg_max_clients (sv_cfg s)"
    "cfg_handle_request (sv_cfg s) (PeerNetcode (ctp_client_id ?priv)) = None"
    using can by (simp_all add: can_connect_def)
  note answer = server_challenges [where sequence = "cl_sequence c" and key = c2s and protocol_id = "ctb_protocol_id b" and F = F,
      OF ciphers(1) rq dec' priv conds, folded challenged_def, unfolded private_for_simps]
  have "RequestPkt rq = request_create (ct_protocol_id (cl_token c)) (ct_expire_timestamp (cl_token c)) (ct_nonce (cl_token c))
      (ct_private_data (cl_token c))"
    by (simp add: request_create_def rq_def)
  with answer t show ?thesis by blast
qed

text \<open>The first frame.\<close>

lemma first_round:
  fixes e :: 'e
  assumes ciphers: "aead_cipher (chacha C) 12" "aead_cipher (xchacha C) 24"
    and token: "builder_ok b" "length nonce = 24" "length c2s = PRIVATE_KEY_BYTES" "length s2c = PRIVATE_KEY_BYTES"
      "unat created + 2 ^ 31 < 2 ^ 64"
      "token_generate C created c2s s2c nonce b = (Inr (cl_token c) :: unit netcode_error + connect_token)"
    and can: "can_connect C b c2s s2c now e server_addr c s"
    and time: "on_time F (c\<lparr>cl_time := f_add F (cl_time c) d1\<rparr>)"
  shows "\<exists>enc wire s1 conn challenge reply. cl_token c = token_for b created c2s s2c nonce enc \<and>
    link_round F C d1 now e server_addr (c, s, []) =
      ((after_send wire (c\<lparr>cl_time := f_add F (cl_time c) d1\<rparr>))\<lparr>cl_send_queue := []\<rparr>, s1, [reply]) \<and>
    1 < length reply \<and> length challenge = CHALLENGE_SIZE \<and> sv_protocol_id s1 = ctb_protocol_id b \<and>
    packet_read C reply (ctb_protocol_id b) now s2c None =
       (None, Inr (ChallengePkt (sv_challenge_sequence s) challenge) :: unit netcode_error + netcode_packet) \<and>
    cht_decrypt C challenge (sv_challenge_sequence s) (sv_challenge_key s1) =
      (Inr \<lparr>cht_client_id = ctb_client_id b, cht_user_data = ctb_user_data b\<rparr> :: 'e netcode_error + challenge_token) \<and>
    cc_client_id_map (sv_conn_cache s1) e = Some (ctb_client_id b) \<and>
    find_by_id (ctb_client_id b) (sv_conn_cache s1) = Some conn \<and> cn_client_id conn = ctb_client_id b \<and>
    \<not> cn_connected conn \<and> cn_send_key conn = s2c \<and> cn_receive_key conn = c2s \<and> cn_user_data conn = ctb_user_data b \<and>
    num_connected_clients s1 < cfg_max_clients (sv_cfg s1) \<and> sv_send_queue s1 e = Some []"
proof -
  let ?priv = "private_for b c2s s2c" and ?c1 = "c\<lparr>cl_time := f_add F (cl_time c) d1\<rparr>"
  obtain enc rq wire entries challenge reply where t: "cl_token c = token_for b created c2s s2c nonce enc"
    and rq: "RequestPkt rq = request_create (ct_protocol_id (cl_token c)) (ct_expire_timestamp (cl_token c)) (ct_nonce (cl_token c))
      (ct_private_data (cl_token c))"
    and wire: "packet_write C MAX_PKT_BUF_SIZE (RequestPkt rq) (cl_sequence c) c2s (ctb_protocol_id b) =
      (Inr wire :: unit netcode_error + bytes)"
    and recv: "server_recv_packet F C wire now e server_addr s = (challenged F ?priv e entries reply s, Inr None)"
    and challenge: "length challenge = CHALLENGE_SIZE" "1 < length reply"
      "cht_decrypt C challenge (sv_challenge_sequence s) (sv_challenge_key s) =
        (Inr \<lparr>cht_client_id = ctb_client_id b, cht_user_data = ctb_user_data b\<rparr> :: 'e netcode_error + challenge_token)"
      "packet_read C reply (sv_protocol_id s) now s2c None =
        (None, Inr (ChallengePkt (sv_challenge_sequence s) challenge) :: unit netcode_error + netcode_packet)"
    using request_answered [where F = F, OF ciphers token can] by blast
  define s1 where "s1 = (challenged F ?priv e entries reply s)\<lparr>sv_client_errors := [],
    sv_send_queue := (sv_send_queue (challenged F ?priv e entries reply s))(e \<mapsto> [])\<rparr>"
  have e: "cc_client_id_map (sv_conn_cache s) e = None"
    using can by (simp add: can_connect_def)
  note added = cache_add_fresh [OF e, where F = F and k = "ctb_client_id b" and timeout = "ctp_timeout_seconds ?priv"
      and sk = s2c and rk = c2s and udata = "ctb_user_data b"]
  have send: "send_packets F C ?c1 = (after_send wire ?c1, Inr ())"
    using packet_sends [of C "RequestPkt rq" ?c1 wire] wire can time rq t
    by (simp add: send_packets_def on_time_def can_connect_def)
  have "try_update F C d1 now [] c = (after_send wire ?c1, Inr (cl_state ?c1, []))"
    by (rule pending_client_sends [OF _ time send]) simp
  from round_sends_one [OF this _ recv, of "[reply]"] can
  have round: "link_round F C d1 now e server_addr (c, s, []) = ((after_send wire ?c1)\<lparr>cl_send_queue := []\<rparr>, s1, [reply])"
    by (simp add: queue_push_def can_connect_def s1_def challenged_def)
  obtain conn where "find_by_id (ctb_client_id b) (sv_conn_cache s1) = Some conn" "cn_client_id conn = ctb_client_id b"
    "\<not> cn_connected conn" "cn_send_key conn = s2c" "cn_receive_key conn = c2s" "cn_user_data conn = ctb_user_data b"
    using added(2) by (auto simp: s1_def challenged_def)
  moreover have "cc_client_id_map (sv_conn_cache s1) e = Some (ctb_client_id b)" "sv_send_queue s1 e = Some []"
    "num_connected_clients s1 < cfg_max_clients (sv_cfg s1)" "sv_protocol_id s1 = ctb_protocol_id b"
    "sv_challenge_key s1 = sv_challenge_key s" "sv_protocol_id s = ctb_protocol_id b"
    using added(1,3) can by (auto simp: s1_def challenged_def can_connect_def num_connected_clients_def)
  ultimately show ?thesis
    using round challenge t by metis
qed

text \<open>The second frame, from a server that has challenged the client.\<close>

lemma second_round:
  fixes e :: 'e
  assumes cipher: "aead_cipher (chacha C) 12"
    and client: "cl_state c = SendingConnectionRequest" "cl_send_queue c = []" "ct_protocol_id (cl_token c) = sv_protocol_id s"
      "ct_server_to_client_key (cl_token c) = cn_send_key conn" "ct_client_to_server_key (cl_token c) = cn_receive_key conn"
    and reply: "1 < length reply" "packet_read C reply (sv_protocol_id s) now (cn_send_key conn) None =
       (None, Inr (ChallengePkt seq challenge) :: unit netcode_error + netcode_packet)"
    and challenge: "length challenge = CHALLENGE_SIZE" "cht_decrypt C challenge seq (sv_challenge_key s) =
      (Inr t :: 'e netcode_error + challenge_token)"
    and conn: "cc_client_id_map (sv_conn_cache s) e = Some (cht_client_id t)"
      "find_by_id (cht_client_id t) (sv_conn_cache s) = Some conn" "cn_client_id conn = cht_client_id t" "\<not> cn_connected conn"
    and keys: "length (cn_send_key conn) = PRIVATE_KEY_BYTES" "length (cn_receive_key conn) = PRIVATE_KEY_BYTES"
    and room: "num_connected_clients s < cfg_max_clients (sv_cfg s)" and queue: "sv_send_queue s e = Some []"
    and time: "on_time F (c\<lparr>cl_time := f_add F (cl_time c) d2, cl_last_receive_time := f_add F (cl_time c) d2\<rparr>)"
  shows "\<exists>c2 s2 conn2 reply2. link_round F C d2 now e server_addr (c, s, [reply]) = (c2, s2, [reply2]) \<and>
    cl_state c2 = SendingChallengeResponse \<and> cl_token c2 = cl_token c \<and> \<not> cl_should_disconnect c2 \<and>
    cl_time c2 = f_add F (cl_time c) d2 \<and> cl_cfg c2 = cl_cfg c \<and>
    find_by_entity e (sv_conn_cache s2) = Some conn2 \<and> cn_connected conn2 \<and> cn_client_id conn2 = cht_client_id t \<and>
    cn_send_key conn2 = cn_send_key conn \<and> cn_receive_key conn2 = cn_receive_key conn \<and>
    sv_events s2 = sv_events s @ [OnConnect (cht_client_id t) e (cn_user_data conn)] \<and> 1 < length reply2 \<and>
    packet_read C reply2 (sv_protocol_id s) now (cn_send_key conn) None =
      (None, Inr (KeepAlivePkt (cht_client_id t)) :: unit netcode_error + netcode_packet)"
proof -
  let ?c = "c\<lparr>cl_time := f_add F (cl_time c) d2\<rparr>"
  define c1 where "c1 = (set_state SendingChallengeResponse
    (?c\<lparr>cl_challenge_token_sequence := seq, cl_challenge_token_data := challenge\<rparr>))\<lparr>cl_last_receive_time := cl_time ?c\<rparr>"
  have recv: "client_recv_packets C [reply] now ?c = (c1, Inr [])"
    by (rule client_recv_one [where packet = "ChallengePkt seq challenge"])
      (use reply client in \<open>simp_all add: client_process_packet_def c1_def set_state_def\<close>)
  have c1: "on_time F c1" "cl_state c1 = SendingChallengeResponse" "cl_send_queue c1 = []"
    using time client(2) by (simp_all add: on_time_def c1_def set_state_def is_token_expired_def is_connection_timed_out_def)
  obtain wire reply2 where wire: "packet_write C MAX_PKT_BUF_SIZE (ResponsePkt seq challenge) (cl_sequence c1)
      (cn_receive_key conn) (sv_protocol_id s) = (Inr wire :: unit netcode_error + bytes)"
    and srv: "server_recv_packet F C wire now e server_addr s =
      (s\<lparr>sv_conn_cache := modify_by_id (cht_client_id t)
           (\<lambda>c. sent_to (sv_time s) (c\<lparr>cn_connected := True, cn_last_send_time := sv_time s, cn_last_receive_time := sv_time s\<rparr>))
           (sv_conn_cache s),
         sv_send_queue := queue_push e reply2 (sv_send_queue s),
         sv_events := sv_events s @ [OnConnect (cht_client_id t) e (cn_user_data conn)]\<rparr>, Inr None)"
    and reply2: "1 < length reply2" "packet_read C reply2 (sv_protocol_id s) now (cn_send_key conn) None =
      (None, Inr (KeepAlivePkt (cht_client_id t)) :: unit netcode_error + netcode_packet)"
    using server_accepts [where F = F, OF cipher challenge(2,1) conn keys room] by blast
  have "send_packets F C c1 = (after_send wire c1, Inr ())"
    using packet_sends [of C "ResponsePkt seq challenge" c1 wire] wire c1 client
    by (simp add: send_packets_def on_time_def) (simp add: c1_def set_state_def)
  from round_sends_one [OF pending_client_sends [OF recv c1(1) this] c1(3) srv, of "[reply2]"] queue
  show ?thesis
    using conn reply2 time
    by (simp add: queue_push_def find_by_entity_def sent_to_def)
      (simp add: c1_def after_send_def set_state_def on_time_def)
qed

text \<open>The client's update in the third frame.\<close>

lemma third_update:
  assumes "aead_cipher (chacha C) 12" and "length (ct_client_to_server_key (cl_token c)) = PRIVATE_KEY_BYTES"
    and "cl_state c = SendingChallengeResponse" and "\<not> cl_should_disconnect c" and "1 < length reply"
    and "packet_read C reply (ct_protocol_id (cl_token c)) now (ct_server_to_client_key (cl_token c)) None =
      (None, Inr (KeepAlivePkt client_id) :: unit netcode_error + netcode_packet)"
    and "\<not> is_connection_timed_out F (c\<lparr>cl_time := f_add F (cl_time c) d3, cl_last_receive_time := f_add F (cl_time c) d3\<rparr>)"
  shows "\<exists>c3 r. try_update F C d3 now [reply] c = (c3, r) \<and> client_is_connected c3 \<and> cl_id c3 = client_id"
proof -
  let ?c = "c\<lparr>cl_time := f_add F (cl_time c) d3\<rparr>"
  define c1 where "c1 = ((set_state Connected ?c)\<lparr>cl_id := client_id\<rparr>)\<lparr>cl_last_receive_time := cl_time ?c\<rparr>"
  have "client_recv_packets C [reply] now ?c = (c1, Inr [])"
    by (rule client_recv_one [where packet = "KeepAlivePkt client_id"])
      (use assms in \<open>simp_all add: client_process_packet_def c1_def set_state_def\<close>)
  moreover have "cl_state c1 = Connected" "\<not> is_connection_timed_out F c1" "\<not> cl_should_disconnect c1"
    "length (ct_client_to_server_key (cl_token c1)) = PRIVATE_KEY_BYTES" "cl_id c1 = client_id"
    using assms by (simp_all add: c1_def set_state_def is_connection_timed_out_def)
  ultimately show ?thesis
    using connected_client_update [OF _ _ _ _ assms(1)] unfolding client_is_connected_def by metis
qed

text \<open>
  C3: The handshake ends with both sides connected. A client that has started to connect with a token
  made with the server's key, and a server that has room, whose handler accepts the client and that
  knows neither the client id nor the link: over a link that delivers what it is given, after two
  frames the server has the client connected under its id and its link, has called the connection
  callback with the user data of the token, and both sides hold the same two keys; one more update of
  the client and it is connected, under the same id. The clock must let the client send in the first
  two frames and not reach the expiry or the time-out in the meantime.
\<close>

theorem handshake_connects:
  fixes e :: 'e
  assumes ciphers: "aead_cipher (chacha C) 12" "aead_cipher (xchacha C) 24"
    and token: "builder_ok b" "length nonce = 24" "length c2s = PRIVATE_KEY_BYTES" "length s2c = PRIVATE_KEY_BYTES"
      "unat created + 2 ^ 31 < 2 ^ 64"
      "token_generate C created c2s s2c nonce b = (Inr (cl_token c) :: unit netcode_error + connect_token)"
    and can: "can_connect C b c2s s2c now e server_addr c s"
    and times: "t1 = f_add F (cl_time c) d1" "t2 = f_add F t1 d2" "t3 = f_add F t2 d3"
      "on_time F (c\<lparr>cl_time := t1\<rparr>)"
      "on_time F (c\<lparr>cl_time := t2, cl_last_send_time := t1, cl_last_receive_time := t2\<rparr>)"
      "\<not> is_connection_timed_out F (c\<lparr>cl_time := t3, cl_last_receive_time := t3\<rparr>)"
  shows "\<exists>c2 s2 inbox conn c3 r.
    link_round F C d2 now e server_addr (link_round F C d1 now e server_addr (c, s, [])) = (c2, s2, inbox) \<and>
    find_by_entity e (sv_conn_cache s2) = Some conn \<and> cn_connected conn \<and> cn_client_id conn = ctb_client_id b \<and>
    cn_send_key conn = ct_server_to_client_key (cl_token c2) \<and> cn_receive_key conn = ct_client_to_server_key (cl_token c2) \<and>
    OnConnect (ctb_client_id b) e (ctb_user_data b) \<in> set (sv_events s2) \<and>
    try_update F C d3 now inbox c2 = (c3, r) \<and> client_is_connected c3 \<and> cl_id c3 = ctb_client_id b"
proof -
  obtain enc wire s1 conn challenge reply where tok: "cl_token c = token_for b created c2s s2c nonce enc"
    and r1: "link_round F C d1 now e server_addr (c, s, []) =
      ((after_send wire (c\<lparr>cl_time := t1\<rparr>))\<lparr>cl_send_queue := []\<rparr>, s1, [reply])"
    and reply: "1 < length reply" "length challenge = CHALLENGE_SIZE" "sv_protocol_id s1 = ctb_protocol_id b"
      "packet_read C reply (sv_protocol_id s1) now (cn_send_key conn) None =
         (None, Inr (ChallengePkt (sv_challenge_sequence s) challenge) :: unit netcode_error + netcode_packet)"
      "cht_decrypt C challenge (sv_challenge_sequence s) (sv_challenge_key s1) =
        (Inr \<lparr>cht_client_id = ctb_client_id b, cht_user_data = ctb_user_data b\<rparr> :: 'e netcode_error + challenge_token)"
    and conn: "cc_client_id_map (sv_conn_cache s1) e = Some (ctb_client_id b)"
      "find_by_id (ctb_client_id b) (sv_conn_cache s1) = Some conn" "cn_client_id conn = ctb_client_id b"
      "\<not> cn_connected conn" "cn_send_key conn = s2c" "cn_receive_key conn = c2s" "cn_user_data conn = ctb_user_data b"
      "num_connected_clients s1 < cfg_max_clients (sv_cfg s1)" "sv_send_queue s1 e = Some []"
    using first_round [OF ciphers token can times(4) [unfolded times(1)]] unfolding times(1) [symmetric] by metis
  let ?c1 = "(after_send wire (c\<lparr>cl_time := t1\<rparr>))\<lparr>cl_send_queue := []\<rparr>"
  have c1: "cl_state ?c1 = SendingConnectionRequest" "cl_send_queue ?c1 = []"
    "ct_protocol_id (cl_token ?c1) = sv_protocol_id s1" "ct_server_to_client_key (cl_token ?c1) = cn_send_key conn"
    "ct_client_to_server_key (cl_token ?c1) = cn_receive_key conn" "cl_time ?c1 = t1" "cl_token ?c1 = cl_token c"
    using can conn(5,6) reply(3) tok by (simp_all add: after_send_def can_connect_def)
  have keys: "length (cn_send_key conn) = PRIVATE_KEY_BYTES" "length (cn_receive_key conn) = PRIVATE_KEY_BYTES"
    using token(3,4) conn(5,6) by simp_all
  have "on_time F (?c1\<lparr>cl_time := f_add F (cl_time ?c1) d2, cl_last_receive_time := f_add F (cl_time ?c1) d2\<rparr>)"
    using times(5) by (simp add: times(2) [symmetric] after_send_def on_time_def is_token_expired_def is_connection_timed_out_def)
  from second_round [where t = "\<lparr>cht_client_id = ctb_client_id b, cht_user_data = ctb_user_data b\<rparr>" and server_addr = server_addr,
      OF ciphers(1) c1(1-5) reply(1,4,2,5) _ _ _ conn(4) keys conn(8,9) this, simplified, OF conn(1-3)]
  obtain c2 s2 conn2 reply2 where r2: "link_round F C d2 now e server_addr (?c1, s1, [reply]) = (c2, s2, [reply2])"
    and c2: "cl_state c2 = SendingChallengeResponse" "cl_token c2 = cl_token c" "\<not> cl_should_disconnect c2" "cl_time c2 = t2"
    and s2: "find_by_entity e (sv_conn_cache s2) = Some conn2" "cn_connected conn2" "cn_client_id conn2 = ctb_client_id b"
      "cn_send_key conn2 = cn_send_key conn" "cn_receive_key conn2 = cn_receive_key conn"
      "OnConnect (ctb_client_id b) e (ctb_user_data b) \<in> set (sv_events s2)"
    and reply2: "1 < length reply2" "packet_read C reply2 (ctb_protocol_id b) now s2c None =
      (None, Inr (KeepAlivePkt (ctb_client_id b)) :: unit netcode_error + netcode_packet)"
    by (auto simp: reply(3) conn(5,7) after_send_def times(2))
  have "\<not> is_connection_timed_out F (c2\<lparr>cl_time := f_add F (cl_time c2) d3, cl_last_receive_time := f_add F (cl_time c2) d3\<rparr>)"
    using times(6) by (simp add: c2 times(3) is_connection_timed_out_def)
  moreover have "packet_read C reply2 (ct_protocol_id (cl_token c2)) now (ct_server_to_client_key (cl_token c2)) None =
      (None, Inr (KeepAlivePkt (ctb_client_id b)) :: unit netcode_error + netcode_packet)"
    "length (ct_client_to_server_key (cl_token c2)) = PRIVATE_KEY_BYTES"
    using reply2(2) token(3) by (simp_all add: c2(2) tok)
  ultimately obtain c3 r where "try_update F C d3 now [reply2] c2 = (c3, r)" "client_is_connected c3" "cl_id c3 = ctb_client_id b"
    using third_update [OF ciphers(1) _ c2(1,3) reply2(1)] by blast
  then show ?thesis
    using r1 r2 s2 conn(5,6) c2(2) tok by (auto intro!: exI)
qed

definition sample_builder :: connect_token_builder where
  "sample_builder = connect_token_build [V4 (127, 0, 0, 1) 5000, V4 (127, 0, 0, 1) 5001] 7 42 (replicate 32 2)"

definition sample_client :: "connect_token \<Rightarrow> int client" where
  "sample_client token =
     \<lparr>cl_id = 0, cl_state = SendingConnectionRequest, cl_time = 0, cl_start_time = 0, cl_last_send_time = - 10,
      cl_last_receive_time = 0, cl_server_addr_idx = 0, cl_sequence = 0, cl_challenge_token_sequence = 0,
      cl_challenge_token_data = [], cl_token = token, cl_replay_protection = replay_protection_new,
      cl_should_disconnect = False, cl_should_disconnect_state = Disconnected, cl_send_queue = [],
      cl_cfg = client_config_default 1, cl_changes = []\<rparr>"

lemma sample_builder_ok: "builder_ok sample_builder"
  by (simp add: builder_ok_def sample_builder_def connect_token_build_def address_ok_def netcode_sizes i32_ok_def
      TOKEN_EXPIRE_SEC_def CONNECTION_TIMEOUT_SEC_def MAX_SERVERS_PER_CONNECT_def)

lemma toy_xchacha: "aead_cipher (xchacha toy_crypto) n"
  by (simp add: toy_crypto_def toy_cipher.aead_cipher_axioms)

lemmas sample_builder_defs = sample_builder_def connect_token_build_def TOKEN_EXPIRE_SEC_def CONNECTION_TIMEOUT_SEC_def

theorem handshake_connects_witness:
  "\<exists>t c2 s2 inbox c3 r. token_generate toy_crypto 1000 (replicate 32 3) (replicate 32 4) (replicate 24 5) sample_builder =
      (Inr t :: unit netcode_error + connect_token) \<and>
    link_round seconds_clock toy_crypto 2 1001 3 None
      (link_round seconds_clock toy_crypto 2 1001 3 None (sample_client t, sample_server, [])) = (c2, s2, inbox) \<and>
    OnConnect 42 3 (replicate 256 0) \<in> set (sv_events s2) \<and>
    try_update seconds_clock toy_crypto 2 1001 inbox c2 = (c3, r) \<and> client_is_connected c3 \<and> cl_id c3 = 42"
proof -
  have lens: "length (replicate 24 (5 :: u8)) = 24" "length (replicate 32 (3 :: u8)) = PRIVATE_KEY_BYTES"
    "length (replicate 32 (4 :: u8)) = PRIVATE_KEY_BYTES" "unat (1000 :: u64) + 2 ^ 31 < 2 ^ 64"
    by (simp_all add: netcode_sizes)
  obtain t enc where t: "t = token_for sample_builder 1000 (replicate 32 3) (replicate 32 4) (replicate 24 5) enc"
    "token_generate toy_crypto 1000 (replicate 32 3) (replicate 32 4) (replicate 24 5) sample_builder =
      (Inr t :: unit netcode_error + connect_token)"
    using token_generate_ok [where ?'e = unit and ?'f = unit, OF toy_xchacha sample_builder_ok lens] by blast
  have "can_connect toy_crypto sample_builder (replicate 32 3) (replicate 32 4) 1001 3 None (sample_client t) sample_server"
    by (simp add: can_connect_def sample_client_def t(1) token_for_def sample_builder_defs sample_server_defs
        netcode_sizes find_by_id_def num_connected_clients_def address_allowed_def)
  moreover have "on_time seconds_clock ((sample_client t)\<lparr>cl_time := 2\<rparr>)"
    "on_time seconds_clock ((sample_client t)\<lparr>cl_time := 4, cl_last_send_time := 2, cl_last_receive_time := 4\<rparr>)"
    "\<not> is_connection_timed_out seconds_clock ((sample_client t)\<lparr>cl_time := 6, cl_last_receive_time := 6\<rparr>)"
    by (simp_all add: on_time_def is_token_expired_def is_connection_timed_out_def sample_client_def t(1) token_for_def
        sample_builder_defs seconds_clock_def client_config_default_def)
  moreover have "(2 :: int) = f_add seconds_clock (cl_time (sample_client t)) 2" "(4 :: int) = f_add seconds_clock 2 2"
    "(6 :: int) = f_add seconds_clock 4 2" "cl_token (sample_client t) = t"
    by (simp_all add: seconds_clock_def sample_client_def)
  moreover have "ctb_client_id sample_builder = 42" "ctb_user_data sample_builder = replicate 256 0"
    by (simp_all add: sample_builder_defs netcode_sizes)
  ultimately show ?thesis
    using handshake_connects [where c = "sample_client t" and F = seconds_clock and ?t1.0 = 2 and ?t2.0 = 4 and ?t3.0 = 6,
        OF toy_chacha toy_xchacha sample_builder_ok lens, of 1001 3 None sample_server 2 2 2] t(2)
    by metis
qed

lemma from_token_bytes:
  assumes "ct_ok as t"
  shows "\<exists>wire c. try_into_bytes t = Inr wire \<and> from_token F wire cfg = Inr c \<and> cl_token c = t"
proof -
  obtain wire where wire: "try_into_bytes t = Inr wire" "length wire = CONNECT_TOKEN_BYTES" "try_from_bytes wire = Inr (Some t)"
    using ct_bytes_roundtrip [OF assms] by blast
  from wire(3) obtain r where "ct_read_from (reader_from wire) = Inr (Some t, r)"
    by (auto simp: try_from_bytes_def and_then_def split: sum.splits)
  with wire(1,2) show ?thesis
    by (simp add: from_token_def)
qed

theorem client_state_machine_witness:
  "\<exists>t wire c0. try_into_bytes t = Inr wire \<and> from_token seconds_clock wire (client_config_default 1) = Inr c0 \<and>
     client_server_addr (fst (try_update seconds_clock toy_crypto 40 0 [[0x15, 1, 1]] (client_connect seconds_clock c0))) \<noteq> None"
proof -
  have lens: "length (replicate 24 (5 :: u8)) = 24" "length (replicate 32 (3 :: u8)) = PRIVATE_KEY_BYTES"
    "length (replicate 32 (4 :: u8)) = PRIVATE_KEY_BYTES" "unat (1000 :: u64) + 2 ^ 31 < 2 ^ 64"
    by (simp_all add: netcode_sizes)
  obtain t as where "ct_ok as t"
    using token_generate_ok [where ?'e = unit and ?'f = unit, OF toy_xchacha sample_builder_ok lens] by blast
  from from_token_bytes [OF this] obtain wire c0 where wire: "try_into_bytes t = Inr wire"
    and c0: "from_token seconds_clock wire (client_config_default 1) = Inr c0" by blast
  have "client_step seconds_clock toy_crypto c0 (client_connect seconds_clock c0)"
    by (rule c_connect)
  then have "(client_step seconds_clock toy_crypto)\<^sup>*\<^sup>* c0 (client_connect seconds_clock c0)"
    by (rule r_into_rtranclp)
  from client_state_machine [OF c0 this refl] wire c0 show ?thesis by blast
qed

section \<open>Trying the servers of a token\<close>

text \<open>Updates at the given times, with nothing received.\<close>

definition silent_run :: "'t f64_ops \<Rightarrow> 't list \<Rightarrow> 't client \<Rightarrow> 't client" where
  "silent_run F ts c = fold (\<lambda>t c. client_update_state F (c\<lparr>cl_time := t\<rparr>)) ts c"

text \<open>Each time is past the time-out that started at the previous one, but within the token's life.\<close>

fun time_outs :: "'t f64_ops \<Rightarrow> connect_token \<Rightarrow> 't \<Rightarrow> 't list \<Rightarrow> bool" where
  "time_outs F token p [] = True"
| "time_outs F token p (t # ts) =
     (f_lt F (f_add F p (f_of_i32 F (ct_timeout_seconds token))) t \<and>
      \<not> f_ge F (f_sub F t p) (f_sub F (f_of_u64 F (ct_expire_timestamp token)) (f_of_u64 F (ct_create_timestamp token))) \<and>
      time_outs F token t ts)"

definition awaiting :: "'t \<Rightarrow> nat \<Rightarrow> 't client \<Rightarrow> bool" where
  "awaiting p i c \<longleftrightarrow> cl_state c = SendingConnectionRequest \<and> \<not> cl_should_disconnect c \<and> cl_start_time c = p \<and>
     cl_last_receive_time c = p \<and> cl_server_addr_idx c = i"

lemma timed_out_update:
  assumes "awaiting p i c" and "ct_server_addresses (cl_token c) = packed as" and "0 < ct_timeout_seconds (cl_token c)"
    and "time_outs F (cl_token c) p (t # ts)"
  shows "if i + 1 < length as
    then awaiting t (i + 1) (client_update_state F (c\<lparr>cl_time := t\<rparr>)) \<and>
      cl_token (client_update_state F (c\<lparr>cl_time := t\<rparr>)) = cl_token c
    else cl_state (client_update_state F (c\<lparr>cl_time := t\<rparr>)) = ConnectionRequestTimedOut"
  using assms
  by (simp add: awaiting_def client_update_state_def is_token_expired_def is_connection_timed_out_def next_server_or_def
      connect_to_next_server_def address_list_len_def client_connect_def client_reset_def reset_connection_def set_state_def)

text \<open>
  C8: A client whose servers stay silent tries all of them, in order, and then gives up. Starting at
  the address of index \<open>i\<close> of its token, after each time-out it turns to the next address, until it
  has waited for the last one; one more time-out and it stops with \<open>ConnectionRequestTimedOut\<close>.
\<close>

theorem client_tries_every_server:
  assumes "awaiting p i c" and "ct_server_addresses (cl_token c) = packed as" and "0 < ct_timeout_seconds (cl_token c)"
    and "i < length as" and "time_outs F (cl_token c) p ts"
  shows "(i + length ts < length as \<longrightarrow>
      cl_state (silent_run F ts c) = SendingConnectionRequest \<and>
      client_server_addr (silent_run F ts c) = Some (as ! (i + length ts))) \<and>
    (i + length ts = length as \<longrightarrow> cl_state (silent_run F ts c) = ConnectionRequestTimedOut)"
  using assms
proof (induction ts arbitrary: p i c)
  case Nil
  then show ?case
    by (simp add: silent_run_def awaiting_def client_server_addr_def address_list_index_packed)
next
  case (Cons t ts)
  let ?c = "client_update_state F (c\<lparr>cl_time := t\<rparr>)"
  have run: "silent_run F (t # ts) c = silent_run F ts ?c"
    by (simp add: silent_run_def)
  note step = timed_out_update [OF Cons.prems(1-3,5)]
  show ?case
  proof (cases "i + 1 < length as")
    case True
    then show ?thesis
      using Cons.IH [of t "i + 1" ?c] step Cons.prems(2,3,5) by (simp add: run)
  next
    case False
    then show ?thesis
      using step Cons.prems(4) by (cases ts) (auto simp: silent_run_def)
  qed
qed

theorem client_tries_every_server_witness:
  "\<exists>t. cl_state (silent_run seconds_clock [16] (sample_client t)) = SendingConnectionRequest \<and>
     client_server_addr (silent_run seconds_clock [16] (sample_client t)) = Some (V4 (127, 0, 0, 1) 5001) \<and>
     cl_state (silent_run seconds_clock [16, 32] (sample_client t)) = ConnectionRequestTimedOut"
proof -
  let ?t = "token_for sample_builder 1000 (replicate 32 3) (replicate 32 4) (replicate 24 5) []"
  let ?as = "[V4 (127, 0, 0, 1) 5000, V4 (127, 0, 0, 1) 5001]"
  have c: "awaiting 0 0 (sample_client ?t)" "ct_server_addresses (cl_token (sample_client ?t)) = packed ?as"
    "0 < ct_timeout_seconds (cl_token (sample_client ?t))" "0 < length ?as"
    by (simp_all add: awaiting_def sample_client_def token_for_def sample_builder_defs MAX_SERVERS_PER_CONNECT_def)
  have "time_outs seconds_clock (cl_token (sample_client ?t)) 0 [16]"
    "time_outs seconds_clock (cl_token (sample_client ?t)) 0 [16, 32]"
    by (simp_all add: seconds_clock_def sample_client_def token_for_def sample_builder_defs)
  from this [THEN client_tries_every_server [OF c]] show ?thesis
    by (intro exI [of _ ?t]) simp
qed

text \<open>
  A connected client that is told to disconnect goes on to the next address of its token, if there is
  one, and is connecting again; without one it is disconnected.
\<close>

lemma disconnect_packet_fails_over:
  assumes "cl_state c = Connected" and "ct_server_addresses (cl_token c) = packed as" and "cl_server_addr_idx c < length as"
  shows "cl_state (client_update_state F (fst (client_process_packet DisconnectPkt c))) =
    (if cl_server_addr_idx c + 1 < length as then SendingConnectionRequest else Disconnected)"
  using assms
  by (simp add: client_process_packet_def client_update_state_def next_server_or_def connect_to_next_server_def
      address_list_len_def client_connect_def client_reset_def reset_connection_def set_state_def)

end
