(* ===== verification/History_Buffer.thy ===== *)
theory History_Buffer
  imports Tick
begin

text \<open>
  The history of a predicted value (\<open>crates/core/core/src/history_buffer.rs\<close>): the states a
  component went through, each with the tick of its change, oldest first. The theory also holds the
  interface \<open>state_history\<close> that this history and the confirmed one share: what was recorded is
  what a lookup finds, and pruning forgets only what lies before the pruned tick.
\<close>

section \<open>The buffer and its operations\<close>

datatype 'a history_state = Removed | Updated 'a

definition is_present :: "'a history_state \<Rightarrow> bool" where
  "is_present s = (case s of Updated _ \<Rightarrow> True | Removed \<Rightarrow> False)"

definition into_value :: "'a history_state \<Rightarrow> 'a option" where
  "into_value s = (case s of Updated v \<Rightarrow> Some v | Removed \<Rightarrow> None)"

text \<open>\<open>buffer.get(n)\<close> of the standard library.\<close>

definition get_index :: "'a list \<Rightarrow> nat \<Rightarrow> 'a option" where
  "get_index xs n = (if n < length xs then Some (xs ! n) else None)"

definition get_back :: "'a list \<Rightarrow> 'a option" where
  "get_back xs = (if xs = [] then None else Some (last xs))"

record 'a history_buffer =
  hb_buffer :: "(tick \<times> 'a history_state) list"

definition hb_default :: "'a history_buffer" where
  "hb_default = \<lparr>hb_buffer = []\<rparr>"

definition hb_len :: "'a history_buffer \<Rightarrow> nat" where
  "hb_len h = length (hb_buffer h)"

definition hb_is_empty :: "'a history_buffer \<Rightarrow> bool" where
  "hb_is_empty h \<longleftrightarrow> hb_buffer h = []"

definition oldest :: "'a history_buffer \<Rightarrow> (tick \<times> 'a history_state) option" where
  "oldest h = get_index (hb_buffer h) 0"

definition most_recent :: "'a history_buffer \<Rightarrow> (tick \<times> 'a history_state) option" where
  "most_recent h = get_back (hb_buffer h)"

definition hb_peek :: "'a history_buffer \<Rightarrow> (tick \<times> 'a history_state) option" where
  "hb_peek h = get_back (hb_buffer h)"

definition get_nth :: "'a history_buffer \<Rightarrow> nat \<Rightarrow> (tick \<times> 'a history_state) option" where
  "get_nth h n = get_index (hb_buffer h) n"

definition second_most_recent :: "'a history_buffer \<Rightarrow> tick \<Rightarrow> 'a option" where
  "second_most_recent h t =
     (case most_recent h of
        None \<Rightarrow> None
      | Some (most_recent_tick, state) \<Rightarrow>
          if most_recent_tick < t then into_value state
          else
            (let len = length (hb_buffer h) in
             if len < 2 then None
             else Option.bind (get_index (hb_buffer h) (len - 2)) (\<lambda>(_, x). into_value x)))"

definition hb_get :: "'a history_buffer \<Rightarrow> tick \<Rightarrow> 'a option" where
  "hb_get h t =
     (let partition = partition_point (\<lambda>(buffer_tick, _). buffer_tick \<le> t) (hb_buffer h) in
      if partition = 0 then None
      else Option.bind (get_index (hb_buffer h) (partition - 1)) (\<lambda>(_, x). into_value x))"

definition hb_get_state :: "'a history_buffer \<Rightarrow> tick \<Rightarrow> 'a history_state option" where
  "hb_get_state h t =
     (let partition = partition_point (\<lambda>(buffer_tick, _). buffer_tick \<le> t) (hb_buffer h) in
      if partition = 0 then None
      else map_option (\<lambda>(_, state). state) (get_index (hb_buffer h) (partition - 1)))"

definition hb_clear :: "'a history_buffer \<Rightarrow> 'a history_buffer" where
  "hb_clear h = h\<lparr>hb_buffer := []\<rparr>"

definition set_front_tick :: "tick \<Rightarrow> (tick \<times> 'a) list \<Rightarrow> (tick \<times> 'a) list" where
  "set_front_tick t xs = (case xs of [] \<Rightarrow> [] | (_, state) # rest \<Rightarrow> (t, state) # rest)"

definition hb_clear_until_tick :: "tick \<Rightarrow> 'a history_buffer \<Rightarrow> 'a history_buffer" where
  "hb_clear_until_tick t h =
     (let partition = partition_point (\<lambda>(buffer_tick, _). buffer_tick \<le> t) (hb_buffer h) in
      if partition = 0 then h
      else h\<lparr>hb_buffer := set_front_tick t (drop (partition - 1) (hb_buffer h))\<rparr>)"

definition add_state ::
  "tick \<Rightarrow> 'a history_state \<Rightarrow> 'a history_buffer \<Rightarrow> 'a history_buffer" where
  "add_state t state h =
     (let buffer = (case hb_peek h of
          Some (last_tick, _) \<Rightarrow>
            if last_tick = t then butlast (hb_buffer h) else hb_buffer h
        | None \<Rightarrow> hb_buffer h)
      in h\<lparr>hb_buffer := buffer @ [(t, state)]\<rparr>)"

definition hb_add :: "tick \<Rightarrow> 'a option \<Rightarrow> 'a history_buffer \<Rightarrow> 'a history_buffer" where
  "hb_add t value h =
     add_state t (case value of Some v \<Rightarrow> Updated v | None \<Rightarrow> Removed) h"

definition add_update :: "tick \<Rightarrow> 'a \<Rightarrow> 'a history_buffer \<Rightarrow> 'a history_buffer" where
  "add_update t value h = hb_add t (Some value) h"

definition add_remove :: "tick \<Rightarrow> 'a history_buffer \<Rightarrow> 'a history_buffer" where
  "add_remove t h = hb_add t None h"

definition set_most_recent_tick :: "tick \<Rightarrow> 'a history_buffer \<Rightarrow> 'a history_buffer" where
  "set_most_recent_tick t h =
     (case get_back (hb_buffer h) of
        Some (_, state) \<Rightarrow> h\<lparr>hb_buffer := butlast (hb_buffer h) @ [(t, state)]\<rparr>
      | None \<Rightarrow> h)"

definition hb_update_ticks :: "int \<Rightarrow> 'a history_buffer \<Rightarrow> 'a history_buffer" where
  "hb_update_ticks delta h =
     h\<lparr>hb_buffer := map (\<lambda>(t, state). (tick_add_i32 t delta, state)) (hb_buffer h)\<rparr>"

definition clear_after_tick :: "tick \<Rightarrow> 'a history_buffer \<Rightarrow> 'a history_buffer" where
  "clear_after_tick t h =
     (let partition = partition_point (\<lambda>(buffer_tick, _). buffer_tick \<le> t) (hb_buffer h) in
      h\<lparr>hb_buffer := take partition (hb_buffer h)\<rparr>)"

definition hb_pop ::
  "'a history_buffer \<Rightarrow> (tick \<times> 'a history_state) option \<times> 'a history_buffer" where
  "hb_pop h = (get_index (hb_buffer h) 0, h\<lparr>hb_buffer := tl (hb_buffer h)\<rparr>)"

definition hb_iter :: "'a history_buffer \<Rightarrow> (tick \<times> 'a) list" where
  "hb_iter h = List.map_filter
     (\<lambda>(t, state). case state of Updated value \<Rightarrow> Some (t, value) | Removed \<Rightarrow> None) (hb_buffer h)"

definition pop_until_tick ::
  "tick \<Rightarrow> 'a history_buffer \<Rightarrow> 'a history_state option \<times> 'a history_buffer" where
  "pop_until_tick t h =
     (let partition = partition_point (\<lambda>(buffer_tick, _). buffer_tick \<le> t) (hb_buffer h) in
      if partition = 0 then (None, h)
      else
        let rest = drop (partition - 1) (hb_buffer h);
            res = map_option snd (get_index rest 0)
        in (res, h\<lparr>hb_buffer := (case res of None \<Rightarrow> tl rest | Some r \<Rightarrow> (t, r) # tl rest)\<rparr>))"

definition clear_except_tick ::
  "tick \<Rightarrow> 'a history_buffer \<Rightarrow> 'a history_state option \<times> 'a history_buffer" where
  "clear_except_tick t h =
     (let partition = partition_point (\<lambda>(buffer_tick, _). buffer_tick \<le> t) (hb_buffer h) in
      if partition = 0 then (None, hb_clear h)
      else
        let rest = drop (partition - 1) (hb_buffer h);
            res = map_option snd (get_index rest 0)
        in (res, h\<lparr>hb_buffer := (case res of None \<Rightarrow> [] | Some r \<Rightarrow> [(t, r)])\<rparr>))"

section \<open>Sequences ordered by tick\<close>

text \<open>
  The reference lookup: the newest entry at or before a tick. On a sequence ordered by tick it is
  what the binary search of the code finds.
\<close>

definition ordered :: "(tick \<times> 'a) list \<Rightarrow> bool" where
  "ordered xs \<longleftrightarrow> sorted (map fst xs)"

definition at_or_before :: "(tick \<times> 'a) list \<Rightarrow> tick \<Rightarrow> 'a option" where
  "at_or_before xs t = map_option snd (get_back (filter (\<lambda>e. fst e \<le> t) xs))"

lemma get_back_simps [simp]:
  "get_back [] = None"
  "get_back [x] = Some x"
  "get_back (xs @ [x]) = Some x"
  by (simp_all add: get_back_def)

lemma get_back_append: "get_back (xs @ ys) = (if ys = [] then get_back xs else get_back ys)"
  by (simp add: get_back_def)

lemma get_back_Cons: "get_back (x # xs) = (if xs = [] then Some x else get_back xs)"
  by (simp add: get_back_def)

lemma at_or_before_Nil [simp]: "at_or_before [] t = None"
  by (simp add: at_or_before_def)

lemma at_or_before_single [simp]: "at_or_before [(u, s)] t = (if u \<le> t then Some s else None)"
  by (simp add: at_or_before_def)

lemma at_or_before_append:
  "at_or_before (xs @ ys) t =
     (case at_or_before ys t of Some s \<Rightarrow> Some s | None \<Rightarrow> at_or_before xs t)"
  by (auto simp: at_or_before_def get_back_append get_back_def)

lemma at_or_before_snoc:
  "at_or_before (xs @ [(u, s)]) t = (if u \<le> t then Some s else at_or_before xs t)"
  by (simp add: at_or_before_def get_back_append)

lemma at_or_before_Cons:
  "at_or_before ((u, s) # xs) t =
     (case at_or_before xs t of Some r \<Rightarrow> Some r | None \<Rightarrow> if u \<le> t then Some s else None)"
  using at_or_before_append [of "[(u, s)]" xs t] at_or_before_snoc [of "[]" u s t]
  by (simp split: option.splits)

lemma at_or_before_None: "at_or_before xs t = None \<longleftrightarrow> (\<forall>e \<in> set xs. t < fst e)"
  by (auto simp: at_or_before_def get_back_def filter_empty_conv not_le split: if_splits)

lemma ordered_simps [simp]:
  "ordered []"
  "ordered [e]"
  by (simp_all add: ordered_def)

lemma ordered_append:
  "ordered (xs @ ys) \<longleftrightarrow> ordered xs \<and> ordered ys \<and> (\<forall>x \<in> set xs. \<forall>y \<in> set ys. fst x \<le> fst y)"
  by (auto simp: ordered_def sorted_append)

lemma ordered_Cons: "ordered (x # xs) \<longleftrightarrow> ordered xs \<and> (\<forall>y \<in> set xs. fst x \<le> fst y)"
  by (auto simp: ordered_def)

lemma ordered_takeWhile:
  "ordered xs \<Longrightarrow> takeWhile (\<lambda>(u, _). u \<le> t) xs = filter (\<lambda>e. fst e \<le> t) xs"
proof (induction xs)
  case (Cons x xs)
  have "filter (\<lambda>e. fst e \<le> t) xs = []" if "\<not> fst x \<le> t"
    using that Cons.prems by (auto simp: ordered_Cons filter_empty_conv)
  with Cons show ?case by (auto simp: ordered_Cons case_prod_beta)
qed simp

lemma ordered_dropWhile:
  "ordered xs \<Longrightarrow> dropWhile (\<lambda>(u, _). u \<le> t) xs = filter (\<lambda>e. t < fst e) xs"
proof (induction xs)
  case (Cons x xs)
  have "filter (\<lambda>e. t < fst e) xs = xs" if "\<not> fst x \<le> t"
    using that Cons.prems by (force simp: ordered_Cons filter_id_conv not_le)
  with Cons show ?case by (auto simp: ordered_Cons case_prod_beta)
qed simp

lemma ordered_filter: "ordered xs \<Longrightarrow> ordered (filter P xs)"
  by (simp add: ordered_def sorted_filter)

text \<open>An ordered sequence, cut at a tick.\<close>

lemma ordered_split:
  assumes "ordered xs"
  obtains old new where "xs = old @ new" and "\<forall>e \<in> set old. fst e \<le> t" and "\<forall>e \<in> set new. t < fst e"
    and "takeWhile (\<lambda>(u, _). u \<le> t) xs = old" and "dropWhile (\<lambda>(u, _). u \<le> t) xs = new"
    and "ordered old" and "ordered new"
proof
  let ?P = "\<lambda>(u, _ :: 'a). u \<le> t"
  show "xs = takeWhile ?P xs @ dropWhile ?P xs" by simp
  show "\<forall>e \<in> set (takeWhile ?P xs). fst e \<le> t" "\<forall>e \<in> set (dropWhile ?P xs). t < fst e"
    "ordered (takeWhile ?P xs)" "ordered (dropWhile ?P xs)"
    using assms by (auto simp: ordered_takeWhile ordered_dropWhile ordered_filter)
qed simp_all


lemma at_or_before_split:
  assumes "xs = old @ new" "\<forall>e \<in> set old. fst e \<le> t" "\<forall>e \<in> set new. t < fst e"
  shows "at_or_before xs t = map_option snd (get_back old)"
proof -
  have "filter (\<lambda>e. fst e \<le> t) new = []" "filter (\<lambda>e. fst e \<le> t) old = old"
    using assms(2,3) by (auto simp: filter_empty_conv filter_id_conv not_le)
  then show ?thesis
    using assms(1) by (simp add: at_or_before_def)
qed

lemma hb_get_state_ordered:
  assumes "ordered (hb_buffer h)"
  shows "hb_get_state h t = at_or_before (hb_buffer h) t"
proof -
  obtain old new where s: "hb_buffer h = old @ new" "\<forall>e \<in> set old. fst e \<le> t"
    "\<forall>e \<in> set new. t < fst e" "takeWhile (\<lambda>(u, _). u \<le> t) (hb_buffer h) = old"
    by (rule ordered_split [OF assms])
  then show ?thesis
    using at_or_before_split [OF s(1,2,3)]
    by (cases old rule: rev_cases)
      (simp_all add: hb_get_state_def partition_point_def get_index_def nth_append case_prod_beta)
qed

lemma hb_get_get_state: "hb_get h t = Option.bind (hb_get_state h t) into_value"
  by (simp add: hb_get_def hb_get_state_def Let_def Option.bind_map_option comp_def case_prod_beta')

section \<open>The interface of a history\<close>

text \<open>
  A history is a function from ticks to the state in force at that tick. Recording a state at a
  tick that is not older than anything recorded replaces the state from that tick on, pruning until
  a tick keeps the states in force from that tick on.
\<close>

datatype 's history_step = Record tick 's | Prune tick

fun step_tick :: "'s history_step \<Rightarrow> tick" where
  "step_tick (Record t _) = t"
| "step_tick (Prune t) = t"

text \<open>
  The reference: the list of everything recorded, from which nothing is ever removed. A history is
  driven in order when each recorded tick is at least every tick used before.
\<close>

fun recorded :: "'s history_step list \<Rightarrow> (tick \<times> 's) list" where
  "recorded [] = []"
| "recorded (Record t s # steps) = (t, s) # recorded steps"
| "recorded (Prune _ # steps) = recorded steps"

fun in_order :: "tick \<Rightarrow> 's history_step list \<Rightarrow> bool" where
  "in_order bound [] \<longleftrightarrow> True"
| "in_order bound (Record t _ # steps) \<longleftrightarrow> bound \<le> t \<and> in_order t steps"
| "in_order bound (Prune t # steps) \<longleftrightarrow> in_order (max bound t) steps"

definition last_prune :: "'s history_step list \<Rightarrow> tick" where
  "last_prune steps = foldl max 0 (map step_tick (filter (\<lambda>p. case p of Prune _ \<Rightarrow> True | _ \<Rightarrow> False) steps))"

lemma foldl_max_word: "foldl max a xs = max a (foldl max 0 xs)" for a :: "'w :: len word"
proof (induction xs arbitrary: a)
  case (Cons x xs)
  show ?case
    using Cons [of "max a x"] Cons [of "max 0 x"] by (simp add: max.assoc)
qed simp

lemma last_prune_simps [simp]:
  "last_prune [] = 0"
  "last_prune (Record t s # steps) = last_prune steps"
  "last_prune (Prune t # steps) = max t (last_prune steps)"
  using foldl_max_word [of t] by (simp_all add: last_prune_def)

fun run_history ::
  "(tick \<Rightarrow> 's \<Rightarrow> 'h \<Rightarrow> 'h) \<Rightarrow> (tick \<Rightarrow> 'h \<Rightarrow> 'h) \<Rightarrow> 's history_step list \<Rightarrow> 'h \<Rightarrow> 'h" where
  "run_history record_state prune [] h = h"
| "run_history record_state prune (Record t s # steps) h =
     run_history record_state prune steps (record_state t s h)"
| "run_history record_state prune (Prune t # steps) h =
     run_history record_state prune steps (prune t h)"

locale state_history =
  fixes wf :: "'h \<Rightarrow> bool"
    and newest :: "'h \<Rightarrow> tick option"
    and state_at :: "'h \<Rightarrow> tick \<Rightarrow> 's option"
    and record_state :: "tick \<Rightarrow> 's \<Rightarrow> 'h \<Rightarrow> 'h"
    and prune :: "tick \<Rightarrow> 'h \<Rightarrow> 'h"
  assumes wf_record: "wf h \<Longrightarrow> (\<And>n. newest h = Some n \<Longrightarrow> n \<le> t) \<Longrightarrow> wf (record_state t s h)"
    and newest_record:
      "wf h \<Longrightarrow> (\<And>n. newest h = Some n \<Longrightarrow> n \<le> t) \<Longrightarrow> newest (record_state t s h) = Some t"
    and state_at_record: "wf h \<Longrightarrow> (\<And>n. newest h = Some n \<Longrightarrow> n \<le> t) \<Longrightarrow>
      state_at (record_state t s h) u = (if t \<le> u then Some s else state_at h u)"
    and wf_prune: "wf h \<Longrightarrow> wf (prune t h)"
    and newest_prune: "wf h \<Longrightarrow> newest (prune t h) = Some n \<Longrightarrow> n = t \<or> newest h = Some n"
    and state_at_prune: "wf h \<Longrightarrow> t \<le> u \<Longrightarrow> state_at (prune t h) u = state_at h u"
begin

text \<open>Whatever the history, after an ordered run it answers as the reference does.\<close>

lemma run_state_at:
  assumes "wf h" and "\<And>n. newest h = Some n \<Longrightarrow> n \<le> bound"
    and "in_order bound steps" and "last_prune steps \<le> u"
  shows "wf (run_history record_state prune steps h) \<and>
    state_at (run_history record_state prune steps h) u =
    (case at_or_before (recorded steps) u of Some s \<Rightarrow> Some s | None \<Rightarrow> state_at h u)"
  using assms
proof (induction steps arbitrary: h bound)
  case (Cons p steps)
  show ?case
  proof (cases p)
    case (Record t s)
    have le: "n \<le> t" if "newest h = Some n" for n
      using Cons.prems(2) [OF that] Cons.prems(3) Record by auto
    let ?run = "run_history record_state prune"
    have "wf (?run steps (record_state t s h)) \<and> state_at (?run steps (record_state t s h)) u =
      (case at_or_before (recorded steps) u of Some s \<Rightarrow> Some s
       | None \<Rightarrow> state_at (record_state t s h) u)"
      using Cons.prems Record le
      by (intro Cons.IH [of _ t]) (auto simp: wf_record newest_record)
    then show ?thesis
      using state_at_record [OF Cons.prems(1) le] Record
      by (auto simp: at_or_before_Cons split: option.splits)
  next
    case (Prune t)
    let ?run = "run_history record_state prune"
    have le: "n \<le> max bound t" if "newest (prune t h) = Some n" for n
      using newest_prune [OF Cons.prems(1) that] Cons.prems(2) by (auto simp: le_max_iff_disj)
    have "wf (?run steps (prune t h)) \<and> state_at (?run steps (prune t h)) u =
      (case at_or_before (recorded steps) u of Some s \<Rightarrow> Some s | None \<Rightarrow> state_at (prune t h) u)"
      using Cons.prems Prune
      by (intro Cons.IH [of _ "max bound t"])
        (simp_all add: wf_prune le)
    then show ?thesis
      using Cons.prems Prune by (auto simp: state_at_prune split: option.splits)
  qed
qed simp

end

text \<open>
  A history that can also forget what lies after a tick: a rollback goes back to a tick, and the
  ticks after it are recorded again.
\<close>

locale rewindable_history = state_history wf newest state_at record_state prune
  for wf :: "'h \<Rightarrow> bool" and newest and state_at :: "'h \<Rightarrow> tick \<Rightarrow> 's option"
    and record_state and prune +
  fixes rewind :: "tick \<Rightarrow> 'h \<Rightarrow> 'h"
  assumes wf_rewind: "wf h \<Longrightarrow> wf (rewind t h)"
    and newest_rewind: "wf h \<Longrightarrow> newest (rewind t h) = Some n \<Longrightarrow> n \<le> t"
    and state_at_rewind: "wf h \<Longrightarrow> state_at (rewind t h) u = state_at h (min t u)"
begin

lemma replay_state_at:
  assumes "wf h" and "newest h = None" and "\<And>u. state_at h u = None"
    and "in_order 0 steps" and "in_order r replay"
    and "last_prune steps \<le> min r u" and "last_prune replay \<le> u"
  shows "state_at (run_history record_state prune replay
      (rewind r (run_history record_state prune steps h))) u =
    (case at_or_before (recorded replay) u of
       Some s \<Rightarrow> Some s
     | None \<Rightarrow> at_or_before (recorded steps) (min r u))"
proof -
  let ?h = "run_history record_state prune steps h"
  have first: "wf ?h \<and> state_at ?h (min r u) = at_or_before (recorded steps) (min r u)"
    using run_state_at [OF assms(1) _ assms(4,6)] assms(2,3) by (simp split: option.splits)
  then have wf: "wf ?h" and le: "\<And>n. newest (rewind r ?h) = Some n \<Longrightarrow> n \<le> r"
    using newest_rewind by blast+
  from run_state_at [OF wf_rewind [OF wf] le assms(5,7)] first show ?thesis
    by (simp add: state_at_rewind split: option.splits)
qed

end

section \<open>The history buffer keeps the interface\<close>

definition hb_newest :: "'a history_buffer \<Rightarrow> tick option" where
  "hb_newest h = map_option fst (most_recent h)"

definition hb_ordered :: "'a history_buffer \<Rightarrow> bool" where
  "hb_ordered h \<longleftrightarrow> ordered (hb_buffer h)"

lemma hb_newest_eq:
  "hb_newest h = (if hb_buffer h = [] then None else Some (fst (last (hb_buffer h))))"
  by (simp add: hb_newest_def most_recent_def get_back_def)

lemma ordered_le_last: "ordered xs \<Longrightarrow> e \<in> set xs \<Longrightarrow> fst e \<le> fst (last xs)"
  by (cases xs rule: rev_cases) (auto simp: ordered_append)

lemma hb_newest_bound:
  assumes "hb_ordered h" and "\<And>n. hb_newest h = Some n \<Longrightarrow> n \<le> t"
  shows "\<forall>e \<in> set (hb_buffer h). fst e \<le> t"
proof
  fix e assume e: "e \<in> set (hb_buffer h)"
  then have "hb_newest h = Some (fst (last (hb_buffer h)))"
    by (auto simp: hb_newest_eq)
  with assms(2) ordered_le_last [OF assms(1) [unfolded hb_ordered_def] e] show "fst e \<le> t"
    by (meson order_trans)
qed

lemma add_state_buffer:
  "hb_buffer (add_state t s h) =
     (if hb_buffer h \<noteq> [] \<and> fst (last (hb_buffer h)) = t then butlast (hb_buffer h) else hb_buffer h)
     @ [(t, s)]"
  by (auto simp: add_state_def hb_peek_def get_back_def case_prod_beta)

lemma add_state_ordered:
  assumes "hb_ordered h" and "\<And>n. hb_newest h = Some n \<Longrightarrow> n \<le> t"
  shows "hb_ordered (add_state t s h)"
    and "hb_get_state (add_state t s h) u = (if t \<le> u then Some s else hb_get_state h u)"
proof -
  note le = hb_newest_bound [OF assms]
  have o: "ordered (hb_buffer h)"
    using assms(1) by (simp add: hb_ordered_def)
  then have "ordered (butlast (hb_buffer h))"
    by (cases "hb_buffer h" rule: rev_cases) (auto simp: ordered_append)
  with o le show "hb_ordered (add_state t s h)"
    by (auto simp: hb_ordered_def add_state_buffer ordered_append dest: in_set_butlastD)
  then have "hb_get_state (add_state t s h) u = at_or_before (hb_buffer (add_state t s h)) u"
    by (simp add: hb_get_state_ordered hb_ordered_def)
  also have "\<dots> = (if t \<le> u then Some s else at_or_before (hb_buffer h) u)"
    by (cases "hb_buffer h" rule: rev_cases) (auto simp: add_state_buffer at_or_before_snoc)
  finally show "hb_get_state (add_state t s h) u = (if t \<le> u then Some s else hb_get_state h u)"
    by (simp add: hb_get_state_ordered o)
qed

lemma clear_until_buffer:
  assumes "hb_ordered h"
  shows "hb_buffer (hb_clear_until_tick t h) =
    (case at_or_before (hb_buffer h) t of
       None \<Rightarrow> hb_buffer h
     | Some s \<Rightarrow> (t, s) # filter (\<lambda>e. t < fst e) (hb_buffer h))"
proof -
  obtain old new where s: "hb_buffer h = old @ new" "\<forall>e \<in> set old. fst e \<le> t"
    "\<forall>e \<in> set new. t < fst e" "takeWhile (\<lambda>(u, _). u \<le> t) (hb_buffer h) = old"
    by (rule ordered_split [OF assms [unfolded hb_ordered_def]])
  have "filter (\<lambda>e. t < fst e) old = []" "filter (\<lambda>e. t < fst e) new = new"
    using s(2,3) by (auto simp: filter_empty_conv filter_id_conv not_less)
  then show ?thesis
    using at_or_before_split [OF s(1,2,3)] s
    by (cases old rule: rev_cases)
      (auto simp: hb_clear_until_tick_def partition_point_def set_front_tick_def case_prod_beta)
qed

lemma at_or_before_cut:
  "at_or_before xs t = Some s \<Longrightarrow> ordered xs \<Longrightarrow>
   at_or_before ((t, s) # filter (\<lambda>e. t < fst e) xs) u =
     (if t \<le> u then at_or_before xs u else None)"
proof (induction xs rule: rev_induct)
  case (snoc e xs)
  obtain v r where e: "e = (v, r)" by (cases e)
  have "\<forall>x \<in> set xs. fst x \<le> v" "ordered xs"
    using snoc.prems(2) e by (auto simp: ordered_append)
  then have none: "v \<le> t \<Longrightarrow> filter (\<lambda>e. t < fst e) xs = []"
    by (auto simp: filter_empty_conv not_less intro: order_trans)
  show ?case
  proof (cases "v \<le> t")
    case True
    with snoc.prems(1) e none show ?thesis
      by (auto simp: at_or_before_snoc at_or_before_Cons not_less)
  next
    case False
    with snoc e \<open>ordered xs\<close> show ?thesis
      by (auto simp: at_or_before_snoc at_or_before_Cons at_or_before_append not_le
          split: option.splits if_splits dest: less_le_trans)
  qed
qed simp

lemma at_or_before_mono_Some:
  "at_or_before xs t = Some s \<Longrightarrow> t \<le> u \<Longrightarrow> at_or_before xs u \<noteq> None"
  by (auto simp: at_or_before_def get_back_def filter_empty_conv split: if_splits intro: order_trans)

lemma clear_until_ordered:
  assumes "hb_ordered h"
  shows "hb_ordered (hb_clear_until_tick t h)"
    and "hb_newest (hb_clear_until_tick t h) = Some n \<Longrightarrow> n = t \<or> hb_newest h = Some n"
    and "hb_get_state (hb_clear_until_tick t h) u =
      (if t \<le> u \<or> hb_get_state h t = None then hb_get_state h u else None)"
proof -
  have o: "ordered (hb_buffer h)"
    using assms by (simp add: hb_ordered_def)
  show o': "hb_ordered (hb_clear_until_tick t h)"
    using o by (auto simp: hb_ordered_def clear_until_buffer [OF assms] ordered_Cons ordered_filter
        split: option.splits)
  show "hb_get_state (hb_clear_until_tick t h) u =
      (if t \<le> u \<or> hb_get_state h t = None then hb_get_state h u else None)"
    using o o' at_or_before_cut [OF _ o]
    by (auto simp: hb_get_state_ordered hb_ordered_def clear_until_buffer [OF assms]
        split: option.splits)
  show "n = t \<or> hb_newest h = Some n" if "hb_newest (hb_clear_until_tick t h) = Some n"
  proof -
    have "fst (last (filter (\<lambda>e. t < fst e) (hb_buffer h))) = fst (last (hb_buffer h))"
      if "filter (\<lambda>e. t < fst e) (hb_buffer h) \<noteq> []"
      using that o by (cases "hb_buffer h" rule: rev_cases)
        (force simp: ordered_append filter_empty_conv not_less split: if_splits)+
    with that show ?thesis
      by (auto simp: hb_newest_eq clear_until_buffer [OF assms]
          split: option.splits if_splits)
  qed
qed

lemma clear_after_ordered:
  assumes "hb_ordered h"
  shows "hb_buffer (clear_after_tick t h) = filter (\<lambda>e. fst e \<le> t) (hb_buffer h)"
    and "hb_ordered (clear_after_tick t h)"
    and "hb_newest (clear_after_tick t h) = Some n \<Longrightarrow> n \<le> t"
    and "hb_get_state (clear_after_tick t h) u = hb_get_state h (min t u)"
proof -
  have o: "ordered (hb_buffer h)"
    using assms by (simp add: hb_ordered_def)
  show b: "hb_buffer (clear_after_tick t h) = filter (\<lambda>e. fst e \<le> t) (hb_buffer h)"
    using o by (simp add: clear_after_tick_def Let_def ordered_takeWhile)
  then show o': "hb_ordered (clear_after_tick t h)"
    using o by (simp add: hb_ordered_def ordered_filter)
  show "n \<le> t" if "hb_newest (clear_after_tick t h) = Some n"
    using that last_in_set [of "filter (\<lambda>e. fst e \<le> t) (hb_buffer h)"]
    by (auto simp: hb_newest_eq b split: if_splits)
  have "at_or_before (filter (\<lambda>e. fst e \<le> t) xs) u = at_or_before xs (min t u)"
    for xs :: "(tick \<times> 'a history_state) list"
    by (simp add: at_or_before_def min_le_iff_disj conj_commute)
  then show "hb_get_state (clear_after_tick t h) u = hb_get_state h (min t u)"
    using o o' b by (simp add: hb_get_state_ordered hb_ordered_def)
qed

interpretation history: rewindable_history hb_ordered hb_newest hb_get_state add_state
  hb_clear_until_tick clear_after_tick
proof unfold_locales
  fix h :: "'a history_buffer" and t s
  assume "hb_ordered h" and "\<And>n. hb_newest h = Some n \<Longrightarrow> n \<le> t"
  show "hb_newest (add_state t s h) = Some t"
    by (simp add: hb_newest_eq add_state_buffer)
qed (auto simp: add_state_ordered clear_until_ordered clear_after_ordered
       dest: clear_until_ordered(2) clear_after_ordered(3))

section \<open>The other operations\<close>

text \<open>
  \<open>pop_until_tick\<close> is \<open>clear_until_tick\<close> that also returns the state in force, and
  \<open>clear_except_tick\<close> returns the same state and keeps nothing else.
\<close>

lemma pop_until_tick_eq:
  assumes "hb_ordered h"
  shows "pop_until_tick t h = (hb_get_state h t, hb_clear_until_tick t h)"
proof -
  obtain old new where s: "hb_buffer h = old @ new"
    "takeWhile (\<lambda>(u, _). u \<le> t) (hb_buffer h) = old"
    by (rule ordered_split [OF assms [unfolded hb_ordered_def]])
  then show ?thesis
    by (cases old rule: rev_cases)
      (simp_all add: pop_until_tick_def hb_get_state_def hb_clear_until_tick_def set_front_tick_def
        partition_point_def get_index_def nth_append case_prod_beta)
qed

lemma clear_except_tick_eq:
  assumes "hb_ordered h"
  shows "clear_except_tick t h = (hb_get_state h t,
    h\<lparr>hb_buffer := (case hb_get_state h t of None \<Rightarrow> [] | Some s \<Rightarrow> [(t, s)])\<rparr>)"
proof -
  obtain old new where s: "hb_buffer h = old @ new"
    "takeWhile (\<lambda>(u, _). u \<le> t) (hb_buffer h) = old"
    by (rule ordered_split [OF assms [unfolded hb_ordered_def]])
  then show ?thesis
    by (cases old rule: rev_cases)
      (simp_all add: clear_except_tick_def hb_get_state_def hb_clear_def
        partition_point_def get_index_def nth_append case_prod_beta)
qed

lemma less_imp_le_pred: "a < t \<Longrightarrow> a \<le> t - 1" for t :: tick
  using unat_minus_one [of t] by (cases "t = 0") (auto simp: word_less_nat_alt word_le_nat_alt)

lemma not_le_pred: "0 < t \<Longrightarrow> \<not> t \<le> t - 1" for t :: tick
  using unat_minus_one [of t] by (cases "t = 0") (auto simp: word_less_nat_alt word_le_nat_alt)

text \<open>
  With one entry per tick, at the current tick or before, the second most recent value is the value
  in force at the previous tick.
\<close>

lemma second_most_recent_previous:
  assumes "sorted_wrt (<) (map fst (hb_buffer h))"
    and "\<And>n. hb_newest h = Some n \<Longrightarrow> n \<le> t" and "0 < t"
  shows "second_most_recent h t = hb_get h (t - 1)"
proof -
  have o: "ordered (hb_buffer h)"
    using strict_sorted_imp_sorted [OF assms(1)] by (simp add: ordered_def)
  have get: "hb_get h (t - 1) = Option.bind (at_or_before (hb_buffer h) (t - 1)) into_value"
    by (simp add: hb_get_get_state hb_get_state_ordered [OF o])
  show ?thesis
  proof (cases "hb_buffer h" rule: rev_cases)
    case Nil
    then show ?thesis
      by (simp add: get second_most_recent_def most_recent_def)
  next
    case (snoc ys e)
    obtain n s where e: "e = (n, s)" by (cases e)
    have le: "n \<le> t" and less: "\<forall>y \<in> set ys. fst y < n"
      using assms(1,2) snoc e by (auto simp: hb_newest_eq sorted_wrt_append)
    show ?thesis
    proof (cases "n < t")
      case True
      then show ?thesis
        using snoc e less_imp_le_pred [OF True]
        by (simp add: get at_or_before_snoc second_most_recent_def most_recent_def)
    next
      case False
      with le have n: "n = t" by simp
      then have "filter (\<lambda>e. fst e \<le> t - 1) ys = ys"
        using less by (auto simp: filter_id_conv intro: less_imp_le_pred)
      then have "at_or_before (hb_buffer h) (t - 1) = map_option snd (get_back ys)"
        using snoc e n not_le_pred [OF assms(3)] by (simp add: at_or_before_snoc) (simp add: at_or_before_def)
      then show ?thesis
        using snoc e n
        by (cases ys rule: rev_cases)
          (auto simp: get second_most_recent_def most_recent_def get_index_def nth_append case_prod_beta
            get_back_append get_back_Cons)
    qed
  qed
qed

lemma uint_tick_add_i32: "uint (tick_add_i32 a d) = max 0 (min (2 ^ 32 - 1) (uint a + d))"
  by (simp add: tick_add_i32_def uint_word_of_int)

lemma tick_add_i32_mono: "a \<le> b \<Longrightarrow> tick_add_i32 a d \<le> tick_add_i32 b d"
  by (auto simp: word_le_def uint_tick_add_i32)

text \<open>Shifting the ticks keeps their order, although ticks that saturate may become equal.\<close>

lemma hb_update_ticks_ordered:
  "hb_ordered h \<Longrightarrow> hb_ordered (hb_update_ticks d h)"
  by (auto simp: hb_ordered_def ordered_def hb_update_ticks_def sorted_map sorted_wrt_map case_prod_beta
      intro: sorted_wrt_mono_rel [rotated] tick_add_i32_mono)

section \<open>The history replays what was recorded\<close>

text \<open>
  C37: a prediction history gives, at every tick that was not pruned, the state most recently
  recorded at or before it. It does so for every sequence of records and prunes with ticks that do
  not go back, and after a rollback to a tick, with the ticks after it recorded again: what was
  recorded before the rollback is still in force up to the rollback tick, and nothing of what came
  after it survives.
\<close>

theorem history_replays_recorded_states:
  assumes "in_order 0 steps" and "in_order r replay"
    and "last_prune steps \<le> min r t" and "last_prune replay \<le> t"
  shows "hb_get_state
      (run_history add_state hb_clear_until_tick replay
        (clear_after_tick r (run_history add_state hb_clear_until_tick steps hb_default))) t =
    (case at_or_before (recorded replay) t of
       Some s \<Rightarrow> Some s
     | None \<Rightarrow> at_or_before (recorded steps) (min r t))"
  using assms
  by (intro history.replay_state_at)
    (simp_all add: hb_ordered_def hb_newest_eq hb_default_def hb_get_state_def partition_point_def)

theorem history_replays_recorded_states_witness:
  "hb_get_state
      (run_history add_state hb_clear_until_tick [Record 6 (Updated (7 :: int)), Prune 4, Record 9 Removed]
        (clear_after_tick 5 (run_history add_state hb_clear_until_tick
          [Record 2 (Updated 1), Record 4 (Updated 5), Prune 3, Record 8 (Updated 6)] hb_default))) 5 =
    Some (Updated 5)"
proof -
  let ?steps = "[Record 2 (Updated 1), Record 4 (Updated 5), Prune 3, Record 8 (Updated (6 :: int))]"
  let ?replay = "[Record 6 (Updated (7 :: int)), Prune 4, Record 9 Removed]"
  have "at_or_before (recorded ?replay) 5 = None" "at_or_before (recorded ?steps) (min 5 5) = Some (Updated 5)"
    by (simp_all add: at_or_before_Cons)
  then show ?thesis
    using history_replays_recorded_states [of ?steps 5 ?replay 5] by simp
qed

end
