(* ===== verification/Confirmed_History.thy ===== *)
theory Confirmed_History
  imports History_Buffer
begin

text \<open>
  The history of the states that the remote confirmed
  (\<open>crates/core/core/src/confirmed_history.rs\<close>) and its use for interpolation
  (\<open>crates/replication/interpolation/src/interpolate.rs\<close>). Samples arrive in any order; an entry
  is an explicit state, or a marker that the state is that of the closest preceding entry. Shown: a
  lookup sees only the explicit entries; explicit insertions may arrive in any order, while the
  compression of equal states by \<open>insert\<close> is only right for samples that arrive in order; pruning,
  popping and draining do not change what is looked up or interpolated afterwards.
\<close>

section \<open>The buffer and its lookups\<close>

datatype 'a confirmed_state = Explicit "'a history_state" | Same_As_Precedent

definition explicit_state :: "'a confirmed_state \<Rightarrow> 'a history_state option" where
  "explicit_state s = (case s of Explicit state \<Rightarrow> Some state | Same_As_Precedent \<Rightarrow> None)"

definition is_same_as_precedent :: "'a confirmed_state \<Rightarrow> bool" where
  "is_same_as_precedent s = (case s of Same_As_Precedent \<Rightarrow> True | _ \<Rightarrow> False)"

record 'a confirmed_history =
  ch_buffer :: "(tick \<times> 'a confirmed_state) list"

definition ch_default :: "'a confirmed_history" where
  "ch_default = \<lparr>ch_buffer = []\<rparr>"

definition ch_len :: "'a confirmed_history \<Rightarrow> nat" where
  "ch_len h = length (ch_buffer h)"

definition ch_is_empty :: "'a confirmed_history \<Rightarrow> bool" where
  "ch_is_empty h \<longleftrightarrow> ch_buffer h = []"

definition get_nth_tick :: "'a confirmed_history \<Rightarrow> nat \<Rightarrow> tick option" where
  "get_nth_tick h n = map_option fst (get_index (ch_buffer h) n)"

fun find_map :: "('a \<Rightarrow> 'b option) \<Rightarrow> 'a list \<Rightarrow> 'b option" where
  "find_map f [] = None"
| "find_map f (x # xs) = (case f x of Some y \<Rightarrow> Some y | None \<Rightarrow> find_map f xs)"

definition resolve_state_at_index :: "'a confirmed_history \<Rightarrow> nat \<Rightarrow> 'a history_state option" where
  "resolve_state_at_index h index =
     find_map (\<lambda>i. Option.bind (get_index (ch_buffer h) i) (\<lambda>(_, state). explicit_state state))
       (rev [0..<Suc index])"

definition get_nth_state :: "'a confirmed_history \<Rightarrow> nat \<Rightarrow> (tick \<times> 'a history_state) option" where
  "get_nth_state h n =
     Option.bind (get_index (ch_buffer h) n)
       (\<lambda>(t, _). map_option (Pair t) (resolve_state_at_index h n))"

definition get_nth_present :: "'a confirmed_history \<Rightarrow> nat \<Rightarrow> (tick \<times> 'a) option" where
  "get_nth_present h n =
     Option.bind (get_nth_state h n) (\<lambda>(t, state). map_option (Pair t) (into_value state))"

definition start_present :: "'a confirmed_history \<Rightarrow> (tick \<times> 'a) option" where
  "start_present h = get_nth_present h 0"

definition newest_present :: "'a confirmed_history \<Rightarrow> (tick \<times> 'a) option" where
  "newest_present h =
     Option.bind (checked_sub (length (ch_buffer h)) 1) (\<lambda>index.
     Option.bind (get_index (ch_buffer h) index) (\<lambda>(t, _).
     map_option (Pair t) (Option.bind (resolve_state_at_index h index) into_value)))"

definition index_at_or_before :: "'a confirmed_history \<Rightarrow> tick \<Rightarrow> nat option" where
  "index_at_or_before h t =
     checked_sub (partition_point (\<lambda>(buffer_tick, _). buffer_tick \<le> t) (ch_buffer h)) 1"

definition index_before :: "'a confirmed_history \<Rightarrow> tick \<Rightarrow> nat option" where
  "index_before h t =
     checked_sub (partition_point (\<lambda>(buffer_tick, _). buffer_tick < t) (ch_buffer h)) 1"

definition get_state_at_or_before :: "'a confirmed_history \<Rightarrow> tick \<Rightarrow> 'a history_state option" where
  "get_state_at_or_before h t = Option.bind (index_at_or_before h t) (resolve_state_at_index h)"

definition get_present :: "'a confirmed_history \<Rightarrow> tick \<Rightarrow> 'a option" where
  "get_present h t = Option.bind (get_state_at_or_before h t) into_value"

definition get_state_at :: "'a confirmed_history \<Rightarrow> tick \<Rightarrow> 'a history_state option" where
  "get_state_at h t =
     (let pos = partition_point (\<lambda>(buffer_tick, _). buffer_tick < t) (ch_buffer h) in
      Option.bind
        (Option.bind (get_index (ch_buffer h) pos)
          (\<lambda>(buffer_tick, _). if buffer_tick = t then Some pos else None))
        (resolve_state_at_index h))"

definition state_before :: "'a confirmed_history \<Rightarrow> tick \<Rightarrow> 'a history_state option" where
  "state_before h t = Option.bind (index_before h t) (resolve_state_at_index h)"

section \<open>Insertions\<close>

definition insert_raw ::
  "tick \<Rightarrow> 'a confirmed_state \<Rightarrow> 'a confirmed_history \<Rightarrow> 'a confirmed_history" where
  "insert_raw t state h =
     (let pos = partition_point (\<lambda>(buffer_tick, _). buffer_tick < t) (ch_buffer h) in
      if pos < length (ch_buffer h) \<and> fst (ch_buffer h ! pos) = t
      then h\<lparr>ch_buffer := (ch_buffer h)[pos := (t, state)]\<rparr>
      else h\<lparr>ch_buffer := take pos (ch_buffer h) @ (t, state) # drop pos (ch_buffer h)\<rparr>)"

definition insert_explicit ::
  "tick \<Rightarrow> 'a history_state \<Rightarrow> 'a confirmed_history \<Rightarrow> 'a confirmed_history" where
  "insert_explicit t state h = insert_raw t (Explicit state) h"

definition insert_present_explicit ::
  "tick \<Rightarrow> 'a \<Rightarrow> 'a confirmed_history \<Rightarrow> 'a confirmed_history" where
  "insert_present_explicit t value h = insert_explicit t (Updated value) h"

definition ch_clear :: "'a confirmed_history \<Rightarrow> 'a confirmed_history" where
  "ch_clear h = h\<lparr>ch_buffer := []\<rparr>"

definition ch_update_ticks :: "int \<Rightarrow> 'a confirmed_history \<Rightarrow> 'a confirmed_history" where
  "ch_update_ticks delta h =
     h\<lparr>ch_buffer := map (\<lambda>(t, state). (tick_add_i32 t delta, state)) (ch_buffer h)\<rparr>"

text \<open>Equality of values is that of the type: the code asks for \<open>PartialEq\<close>.\<close>

definition ch_insert ::
  "tick \<Rightarrow> 'a history_state \<Rightarrow> 'a confirmed_history \<Rightarrow> 'a confirmed_history" where
  "ch_insert t state h =
     insert_raw t (if state_before h t = Some state then Same_As_Precedent else Explicit state) h"

definition insert_present :: "tick \<Rightarrow> 'a \<Rightarrow> 'a confirmed_history \<Rightarrow> 'a confirmed_history" where
  "insert_present t value h = ch_insert t (Updated value) h"

definition insert_removed :: "tick \<Rightarrow> 'a confirmed_history \<Rightarrow> 'a confirmed_history" where
  "insert_removed t h = ch_insert t Removed h"

definition insert_assume_sorted ::
  "tick \<Rightarrow> 'a history_state \<Rightarrow> 'a confirmed_history \<Rightarrow> 'a confirmed_history" where
  "insert_assume_sorted t state h =
     (let h = (case get_back (ch_buffer h) of
          Some (last_tick, _) \<Rightarrow>
            if last_tick = t then h\<lparr>ch_buffer := butlast (ch_buffer h)\<rparr> else h
        | None \<Rightarrow> h);
        entry = (if state_before h t = Some state then Same_As_Precedent else Explicit state)
      in h\<lparr>ch_buffer := ch_buffer h @ [(t, entry)]\<rparr>)"

definition insert_present_assume_sorted ::
  "tick \<Rightarrow> 'a \<Rightarrow> 'a confirmed_history \<Rightarrow> 'a confirmed_history" where
  "insert_present_assume_sorted t value h = insert_assume_sorted t (Updated value) h"

definition add_unchanged :: "tick \<Rightarrow> 'a confirmed_history \<Rightarrow> bool \<times> 'a confirmed_history" where
  "add_unchanged t h =
     (if get_state_at h t \<noteq> None \<or> state_before h t = None then (False, h)
      else (True, insert_raw t Same_As_Precedent h))"

definition push_unchanged ::
  "tick \<Rightarrow> 'a confirmed_history \<Rightarrow> tick option \<times> 'a confirmed_history" where
  "push_unchanged t h =
     (case checked_sub (length (ch_buffer h)) 1 of
        None \<Rightarrow> (None, h)
      | Some newest_index \<Rightarrow>
          (case get_index (ch_buffer h) newest_index of
             None \<Rightarrow> (None, h)
           | Some (newest_tick, _) \<Rightarrow>
               if t \<le> newest_tick \<or>
                  Option.bind (resolve_state_at_index h newest_index) into_value = None
               then (None, h)
               else
                 (case add_unchanged t h of
                    (False, h) \<Rightarrow> (None, h)
                  | (True, h) \<Rightarrow> (Some newest_tick, h))))"

section \<open>Removals\<close>

definition materialize_front ::
  "'a history_state \<Rightarrow> 'a confirmed_history \<Rightarrow> 'a confirmed_history" where
  "materialize_front state h =
     (case ch_buffer h of
        (t, raw_state) # rest \<Rightarrow>
          if is_same_as_precedent raw_state then h\<lparr>ch_buffer := (t, Explicit state) # rest\<rparr> else h
      | [] \<Rightarrow> h)"

definition pop_present :: "'a confirmed_history \<Rightarrow> (tick \<times> 'a) option \<times> 'a confirmed_history" where
  "pop_present h =
     (let popped_state =
        Option.bind (get_index (ch_buffer h) 0) (\<lambda>(_, state). explicit_state state);
        popped = (case ch_buffer h of
          (t, Explicit (Updated value)) # _ \<Rightarrow> Some (t, value)
        | _ \<Rightarrow> None);
        h = h\<lparr>ch_buffer := tl (ch_buffer h)\<rparr>
      in (popped,
          case popped_state of
            Some state \<Rightarrow>
              (case ch_buffer h of
                 (_, raw) # _ \<Rightarrow> if is_same_as_precedent raw then materialize_front state h else h
               | [] \<Rightarrow> h)
          | None \<Rightarrow> h))"

definition ch_clear_until_tick :: "tick \<Rightarrow> 'a confirmed_history \<Rightarrow> 'a confirmed_history" where
  "ch_clear_until_tick t h =
     (let state_at_cut = get_state_at_or_before h t;
          partition = partition_point (\<lambda>(buffer_tick, _). buffer_tick < t) (ch_buffer h);
          h = (if partition > 0 then h\<lparr>ch_buffer := drop partition (ch_buffer h)\<rparr> else h)
      in case state_at_cut of
           None \<Rightarrow> h
         | Some state \<Rightarrow>
             (case ch_buffer h of
                (front_tick, _) # _ \<Rightarrow>
                  if front_tick = t then materialize_front state h
                  else if front_tick > t
                  then h\<lparr>ch_buffer := (t, Explicit state) # ch_buffer h\<rparr>
                  else h
              | [] \<Rightarrow> h\<lparr>ch_buffer := [(t, Explicit state)]\<rparr>))"

text \<open>The iterator carries the last explicit state and yields the ticks where a value is present.\<close>

fun ch_iter :: "'a history_state option \<Rightarrow> (tick \<times> 'a confirmed_state) list \<Rightarrow> (tick \<times> 'a) list" where
  "ch_iter current [] = []"
| "ch_iter current ((t, state) # rest) =
     (let current = (case explicit_state state of Some s \<Rightarrow> Some s | None \<Rightarrow> current) in
      case current of
        Some (Updated value) \<Rightarrow> (t, value) # ch_iter current rest
      | _ \<Rightarrow> ch_iter current rest)"

definition ch_into_iter :: "'a confirmed_history \<Rightarrow> (tick \<times> 'a) list" where
  "ch_into_iter h = ch_iter None (ch_buffer h)"

section \<open>A lookup sees the explicit entries\<close>

definition explicits :: "(tick \<times> 'a confirmed_state) list \<Rightarrow> (tick \<times> 'a history_state) list" where
  "explicits xs = List.map_filter (\<lambda>(t, s). map_option (Pair t) (explicit_state s)) xs"

definition newest_entry :: "(tick \<times> 'a) list \<Rightarrow> tick \<Rightarrow> (tick \<times> 'a) option" where
  "newest_entry xs t = get_back (filter (\<lambda>e. fst e \<le> t) xs)"

text \<open>
  The invariant: one entry per tick, in order, and the oldest one is explicit, so that every marker
  has a state to refer to.
\<close>

definition ch_wf :: "'a confirmed_history \<Rightarrow> bool" where
  "ch_wf h \<longleftrightarrow> sorted_wrt (<) (map fst (ch_buffer h)) \<and>
     (ch_buffer h \<noteq> [] \<longrightarrow> explicit_state (snd (hd (ch_buffer h))) \<noteq> None)"

lemma explicit_state_simps [simp]:
  "explicit_state (Explicit s) = Some s"
  "explicit_state Same_As_Precedent = None"
  by (simp_all add: explicit_state_def)

lemma explicit_state_None: "explicit_state s = None \<longleftrightarrow> s = Same_As_Precedent"
  by (cases s) auto

lemma is_same_simps [simp]:
  "is_same_as_precedent (Explicit s) = False"
  "is_same_as_precedent Same_As_Precedent = True"
  by (simp_all add: is_same_as_precedent_def)

lemma explicits_simps [simp]:
  "explicits [] = []"
  "explicits ((t, Explicit s) # xs) = (t, s) # explicits xs"
  "explicits ((t, Same_As_Precedent) # xs) = explicits xs"
  "explicits (xs @ ys) = explicits xs @ explicits ys"
  by (simp_all add: explicits_def List.map_filter_def)

lemma fst_explicits: "e \<in> set (explicits xs) \<Longrightarrow> fst e \<in> fst ` set xs"
proof (induction xs)
  case (Cons x xs)
  then show ?case by (cases x; cases "snd x") auto
qed simp

lemma filter_explicits:
  "filter (\<lambda>e. P (fst e)) (explicits xs) = explicits (filter (\<lambda>e. P (fst e)) xs)"
proof (induction xs)
  case (Cons x xs)
  then show ?case by (cases x; cases "snd x") auto
qed simp

lemma explicits_front:
  "xs \<noteq> [] \<Longrightarrow> explicit_state (snd (hd xs)) \<noteq> None \<Longrightarrow> explicits xs \<noteq> []"
  by (cases xs; cases "hd xs"; cases "snd (hd xs)") auto

lemma find_map_rev_index:
  "find_map (\<lambda>i. Option.bind (get_index xs i) (\<lambda>(_, s). explicit_state s)) (rev [0..<n]) =
   map_option snd (get_back (explicits (take n xs)))"
proof (induction n)
  case (Suc n)
  show ?case
  proof (cases "n < length xs")
    case True
    obtain t s where "xs ! n = (t, s)" by (cases "xs ! n")
    with True Suc show ?thesis
      by (cases s) (simp_all add: take_Suc_conv_app_nth get_index_def get_back_append)
  next
    case False
    with Suc show ?thesis by (simp add: get_index_def)
  qed
qed simp

lemma resolve_state:
  "resolve_state_at_index h i = map_option snd (get_back (explicits (take (Suc i) (ch_buffer h))))"
  unfolding resolve_state_at_index_def by (rule find_map_rev_index)

lemma strict_ordered: "sorted_wrt (<) (map fst xs) \<Longrightarrow> ordered xs"
  by (simp add: ordered_def strict_sorted_imp_sorted)

lemma ch_wf_ordered: "ch_wf h \<Longrightarrow> ordered (ch_buffer h)"
  by (simp add: ch_wf_def strict_ordered)

lemma ordered_takeWhile_less:
  "ordered xs \<Longrightarrow> takeWhile (\<lambda>(u, _). u < t) xs = filter (\<lambda>e. fst e < t) xs"
proof (induction xs)
  case (Cons x xs)
  have "filter (\<lambda>e. fst e < t) xs = []" if "\<not> fst x < t"
    using that Cons.prems by (auto simp: ordered_Cons filter_empty_conv)
  with Cons show ?case by (auto simp: ordered_Cons case_prod_beta)
qed simp

lemma ordered_dropWhile_less:
  "ordered xs \<Longrightarrow> dropWhile (\<lambda>(u, _). u < t) xs = filter (\<lambda>e. t \<le> fst e) xs"
proof (induction xs)
  case (Cons x xs)
  have "filter (\<lambda>e. t \<le> fst e) xs = xs" if "\<not> fst x < t"
    using that Cons.prems by (force simp: ordered_Cons filter_id_conv not_less)
  with Cons show ?case by (auto simp: ordered_Cons case_prod_beta)
qed simp

lemma take_filter_ordered:
  "ordered xs \<Longrightarrow> take (length (filter (\<lambda>e. fst e \<le> t) xs)) xs = filter (\<lambda>e. fst e \<le> t) xs"
  "ordered xs \<Longrightarrow> take (length (filter (\<lambda>e. fst e < t) xs)) xs = filter (\<lambda>e. fst e < t) xs"
  by (metis ordered_takeWhile takeWhile_eq_take) (metis ordered_takeWhile_less takeWhile_eq_take)

lemma at_or_before_entry: "at_or_before xs t = map_option snd (newest_entry xs t)"
  by (simp add: at_or_before_def newest_entry_def)

lemma bind_checked_sub_resolve:
  "Option.bind (checked_sub (length old) 1) (resolve_state_at_index h) =
    map_option snd (get_back (explicits old))"
  if "take (length old) (ch_buffer h) = old"
  using that by (cases "old = []") (auto simp: checked_sub_def resolve_state Suc_le_eq)

lemma get_state_at_or_before_eq:
  assumes "ordered (ch_buffer h)"
  shows "get_state_at_or_before h t = at_or_before (explicits (ch_buffer h)) t"
  using assms bind_checked_sub_resolve [OF take_filter_ordered(1) [OF assms]]
  by (simp add: get_state_at_or_before_def index_at_or_before_def partition_point_def
      ordered_takeWhile at_or_before_def filter_explicits [of "\<lambda>u. u \<le> t"])

lemma state_before_eq:
  assumes "ordered (ch_buffer h)"
  shows "state_before h t = map_option snd (get_back (explicits (filter (\<lambda>e. fst e < t) (ch_buffer h))))"
  using assms bind_checked_sub_resolve [OF take_filter_ordered(2) [OF assms]]
  by (simp add: state_before_def index_before_def partition_point_def ordered_takeWhile_less)

section \<open>Insertions, in any order\<close>

lemma strict_split:
  fixes t :: tick
  assumes "sorted_wrt (<) (map fst xs)"
  shows "xs = filter (\<lambda>e. fst e < t) xs @ filter (\<lambda>e. fst e = t) xs @ filter (\<lambda>e. t < fst e) xs"
    and "length (filter (\<lambda>e. fst e = t) xs) \<le> 1"
    and "filter (\<lambda>e. t \<le> fst e) xs = filter (\<lambda>e. fst e = t) xs @ filter (\<lambda>e. t < fst e) xs"
  using assms
proof (atomize(full), induction xs)
  case (Cons x xs)
  have gt: "\<forall>y \<in> set xs. fst x < fst y" using Cons.prems by auto
  show ?case
  proof (cases "fst x < t")
    case True
    with Cons show ?thesis by auto
  next
    case False
    then have "\<forall>y \<in> set xs. t < fst y"
      using gt by (meson le_less_trans not_le)
    then have "filter (\<lambda>e. fst e < t) xs = []" "filter (\<lambda>e. fst e = t) xs = []"
      "filter (\<lambda>e. t < fst e) xs = xs" "filter (\<lambda>e. t \<le> fst e) xs = xs"
      by (auto simp: filter_empty_conv filter_id_conv)
    with False show ?thesis
      by (cases "fst x = t") (auto simp: not_less order.order_iff_strict)
  qed
qed simp

lemma middle_of_list:
  "xs = A @ e # B \<Longrightarrow> length A < length xs \<and> xs ! length A = e \<and> xs[length A := y] = A @ y # B"
  by simp

lemma take_middle: "xs = A @ e # B \<Longrightarrow> take (Suc (length A)) xs = A @ [e]"
  by simp

lemma filter_middle: "xs = A @ B \<Longrightarrow> filter P xs = filter P A @ filter P B"
  by simp

lemma insert_raw_buffer:
  assumes "sorted_wrt (<) (map fst (ch_buffer h))"
  shows "ch_buffer (insert_raw t s h) =
    filter (\<lambda>e. fst e < t) (ch_buffer h) @ (t, s) # filter (\<lambda>e. t < fst e) (ch_buffer h)"
proof -
  let ?xs = "ch_buffer h"
  let ?A = "filter (\<lambda>e. fst e < t) ?xs" and ?M = "filter (\<lambda>e. fst e = t) ?xs"
    and ?B = "filter (\<lambda>e. t < fst e) ?xs"
  have s: "?xs = ?A @ ?M @ ?B" "length ?M \<le> 1"
    using strict_split [OF assms, of t] by blast+
  have p: "partition_point (\<lambda>(u, _). u < t) ?xs = length ?A"
    using assms by (simp add: partition_point_def ordered_takeWhile_less strict_ordered)
  have tk: "take (length ?A) ?xs = ?A" "drop (length ?A) ?xs = ?M @ ?B"
    using s(1) by (metis append_eq_conv_conj)+
  show ?thesis
  proof (cases "?M = []")
    case True
    have "\<not> (length ?A < length ?xs \<and> fst (?xs ! length ?A) = t)"
      using True nth_mem [of "length ?A" ?xs] by (auto simp: filter_empty_conv)
    then show ?thesis
      using True tk by (auto simp: insert_raw_def p Let_def)
  next
    case False
    then obtain e where e: "?M = [e]" "fst e = t"
      using s(2) by (cases ?M) (auto dest: filter_eq_ConsD)
    then have "?xs = ?A @ e # ?B"
      using s(1) by simp
    from middle_of_list [OF this, of "(t, s)"] show ?thesis
      using e(2) by (simp add: insert_raw_def p)
  qed
qed

lemma ordered_explicits: "ordered xs \<Longrightarrow> ordered (explicits xs)"
proof (induction xs)
  case (Cons x xs)
  have "fst x \<le> fst e" if "e \<in> set (explicits xs)" for e
    using fst_explicits [OF that] Cons.prems by (auto simp: ordered_Cons)
  with Cons show ?case
    by (cases x; cases "snd x") (auto simp: ordered_Cons)
qed simp

lemma newest_entry_append:
  "newest_entry (xs @ ys) u =
     (case newest_entry ys u of Some e \<Rightarrow> Some e | None \<Rightarrow> newest_entry xs u)"
  by (auto simp: newest_entry_def get_back_append get_back_def)

lemma newest_entry_Some: "newest_entry xs u = Some e \<Longrightarrow> e \<in> set xs \<and> fst e \<le> u"
  using last_in_set [of "filter (\<lambda>e. fst e \<le> u) xs"]
  by (auto simp: newest_entry_def get_back_def split: if_splits)

lemma newest_entry_None: "(\<And>e. e \<in> set xs \<Longrightarrow> u < fst e) \<Longrightarrow> newest_entry xs u = None"
proof -
  assume "\<And>e. e \<in> set xs \<Longrightarrow> u < fst e"
  then have "filter (\<lambda>e. fst e \<le> u) xs = []"
    by (auto simp: filter_empty_conv not_le)
  then show ?thesis by (simp add: newest_entry_def)
qed

lemma newest_entry_simps [simp]:
  "newest_entry [] u = None"
  "newest_entry [e] u = (if fst e \<le> u then Some e else None)"
  by (simp_all add: newest_entry_def)

lemma newest_entry_Cons:
  "newest_entry (e # xs) u =
     (case newest_entry xs u of Some r \<Rightarrow> Some r | None \<Rightarrow> if fst e \<le> u then Some e else None)"
  using newest_entry_append [of "[e]" xs u] by (simp split: option.splits)

abbreviation entries_before :: "tick \<Rightarrow> 'a confirmed_history \<Rightarrow> (tick \<times> 'a confirmed_state) list" where
  "entries_before t h \<equiv> filter (\<lambda>e. fst e < t) (ch_buffer h)"

abbreviation entries_after :: "tick \<Rightarrow> 'a confirmed_history \<Rightarrow> (tick \<times> 'a confirmed_state) list" where
  "entries_after t h \<equiv> filter (\<lambda>e. t < fst e) (ch_buffer h)"

lemma ch_buffer_split:
  assumes "ch_wf h"
  obtains M where "ch_buffer h = entries_before t h @ M @ entries_after t h"
    and "\<forall>e \<in> set M. fst e = t" and "length M \<le> 1"
    and "filter (\<lambda>e. t \<le> fst e) (ch_buffer h) = M @ entries_after t h"
proof (rule that)
  have strict: "sorted_wrt (<) (map fst (ch_buffer h))"
    using assms by (simp add: ch_wf_def)
  show "ch_buffer h =
      entries_before t h @ filter (\<lambda>e. fst e = t) (ch_buffer h) @ entries_after t h"
    by (rule strict_split(1) [OF strict])
qed (use strict_split(2,3) [of "ch_buffer h" t] assms in \<open>simp_all add: ch_wf_def\<close>)

lemma no_entry_below:
  "u \<le> t \<Longrightarrow> newest_entry (explicits (filter (\<lambda>e. t < fst e) xs)) u = None"
  "u < t \<Longrightarrow> \<forall>e \<in> set M. fst e = t \<Longrightarrow> newest_entry (explicits M) u = None"
  by (intro newest_entry_None; force dest: fst_explicits)+

lemma insert_raw_wf:
  assumes "ch_wf h" and "explicit_state s \<noteq> None \<or> entries_before t h \<noteq> []"
  shows "ch_wf (insert_raw t s h)"
proof -
  have strict: "sorted_wrt (<) (map fst (ch_buffer h))"
    using assms(1) by (simp add: ch_wf_def)
  then have "sorted_wrt (<) (map fst (filter P (ch_buffer h)))" for P
    by (induction "ch_buffer h" arbitrary: h) (simp_all add: sorted_wrt_map sorted_wrt_filter)
  moreover obtain M where "ch_buffer h = entries_before t h @ M @ entries_after t h"
    by (rule ch_buffer_split [OF assms(1)])
  then have "entries_before t h \<noteq> [] \<Longrightarrow> hd (entries_before t h) = hd (ch_buffer h) \<and> ch_buffer h \<noteq> []"
    by (metis hd_append2 Nil_is_append_conv)
  ultimately show ?thesis
    using assms by (auto simp: ch_wf_def insert_raw_buffer [OF strict] sorted_wrt_append hd_append)
qed

lemma insert_raw_newest:
  assumes "ch_wf h"
  shows "newest_entry (explicits (ch_buffer (insert_raw t s h))) u =
    (if t \<le> u \<and> newest_entry (explicits (entries_after t h)) u = None
     then (case explicit_state s of
         Some state \<Rightarrow> Some (t, state)
       | None \<Rightarrow> newest_entry (explicits (entries_before t h)) u)
     else newest_entry (explicits (ch_buffer h)) u)"
proof -
  have strict: "sorted_wrt (<) (map fst (ch_buffer h))"
    using assms by (simp add: ch_wf_def)
  obtain M where M: "ch_buffer h = entries_before t h @ M @ entries_after t h" "\<forall>e \<in> set M. fst e = t"
    by (rule ch_buffer_split [OF assms])
  have old: "newest_entry (explicits (ch_buffer h)) u =
      (case newest_entry (explicits (entries_after t h)) u of
         Some e \<Rightarrow> Some e
       | None \<Rightarrow> newest_entry (explicits (entries_before t h) @ explicits M) u)"
    by (subst M(1)) (simp add: newest_entry_append split: option.splits)
  show ?thesis
  proof (cases "t \<le> u")
    case True
    with old show ?thesis
      by (cases s) (auto simp: insert_raw_buffer [OF strict] newest_entry_append newest_entry_Cons
          split: option.splits)
  next
    case False
    then have "u < t" by simp
    from old no_entry_below(1) [of u t "ch_buffer h"] no_entry_below(2) [OF this M(2)] this False
    show ?thesis
      by (cases s) (auto simp: insert_raw_buffer [OF strict] newest_entry_append newest_entry_Cons)
  qed
qed

text \<open>
  The reference for samples in any order: of the samples at or before a tick, the one with the
  largest tick, and of two with the same tick the one that arrived later.
\<close>

definition latest_sample :: "(tick \<times> 's) list \<Rightarrow> tick \<Rightarrow> (tick \<times> 's) option" where
  "latest_sample samples u =
     fold (\<lambda>(t, s) best.
         if t \<le> u \<and> (case best of None \<Rightarrow> True | Some (t', _) \<Rightarrow> t' \<le> t) then Some (t, s) else best)
       samples None"

definition insert_samples ::
  "(tick \<Rightarrow> 'a history_state \<Rightarrow> 'a confirmed_history \<Rightarrow> 'a confirmed_history) \<Rightarrow>
   (tick \<times> 'a history_state) list \<Rightarrow> 'a confirmed_history" where
  "insert_samples insertion samples = fold (\<lambda>(t, s). insertion t s) samples ch_default"

lemma insert_explicit_samples:
  "ch_wf (insert_samples insert_explicit samples) \<and>
   newest_entry (explicits (ch_buffer (insert_samples insert_explicit samples))) u =
     latest_sample samples u"
proof (induction samples rule: rev_induct)
  case Nil
  show ?case by (simp add: insert_samples_def latest_sample_def ch_default_def ch_wf_def)
next
  case (snoc e samples)
  obtain t s where e: "e = (t, s)" by (cases e)
  let ?h = "insert_samples insert_explicit samples"
  let ?best = "newest_entry (explicits (ch_buffer ?h)) u"
  have wf: "ch_wf ?h" using snoc by simp
  obtain M where M: "ch_buffer ?h = entries_before t ?h @ M @ entries_after t ?h" "\<forall>e \<in> set M. fst e = t"
    by (rule ch_buffer_split [OF wf])
  have best: "?best = (case newest_entry (explicits (entries_after t ?h)) u of
         Some e \<Rightarrow> Some e
       | None \<Rightarrow> newest_entry (explicits (entries_before t ?h @ M)) u)"
    by (subst M(1)) (simp add: newest_entry_append split: option.splits)
  have "newest_entry (explicits (entries_after t ?h)) u = None \<longleftrightarrow>
      (case ?best of None \<Rightarrow> True | Some (t', _) \<Rightarrow> t' \<le> t)"
  proof (cases "newest_entry (explicits (entries_after t ?h)) u")
    case None
    have "fst e \<le> t" if "newest_entry (explicits (entries_before t ?h @ M)) u = Some e" for e
      using newest_entry_Some [OF that] M(2) fst_explicits [of e "entries_before t ?h @ M"] by force
    with None best show ?thesis by (auto split: option.splits)
  next
    case (Some e)
    have "t < fst e"
      using newest_entry_Some [OF Some] fst_explicits [of e "entries_after t ?h"] by auto
    with Some best show ?thesis by (auto simp: not_le)
  qed
  moreover have "insert_samples insert_explicit (samples @ [e]) = insert_raw t (Explicit s) ?h"
    by (simp add: insert_samples_def insert_explicit_def e)
  ultimately show ?case
    using snoc.IH insert_raw_wf [OF wf, of "Explicit s" t] insert_raw_newest [OF wf, of t "Explicit s" u]
    by (simp add: latest_sample_def e split: option.splits if_splits)
qed

section \<open>Insertions that compress\<close>

text \<open>
  Whether it stores the state or a marker, \<open>insert\<close> has the same effect on lookups at the moment of
  the insertion: the state is in force from its tick to the next explicit entry.
\<close>

lemma state_before_newest:
  assumes "ch_wf h" and "t \<le> u"
  shows "state_before h t = map_option snd (newest_entry (explicits (entries_before t h)) u)"
proof -
  have "filter (\<lambda>e. fst e \<le> u) (explicits (entries_before t h)) = explicits (entries_before t h)"
    using assms(2) by (auto simp: filter_id_conv dest!: fst_explicits)
  then show ?thesis
    by (simp add: state_before_eq ch_wf_ordered [OF assms(1)] newest_entry_def)
qed

lemma state_before_entries: "ch_wf h \<Longrightarrow> state_before h t = Some s \<Longrightarrow> entries_before t h \<noteq> []"
  by (auto simp: state_before_eq ch_wf_ordered)

lemma ch_insert_wf: "ch_wf h \<Longrightarrow> ch_wf (ch_insert t s h)"
  using insert_raw_wf [of h] state_before_entries [of h t s] by (simp add: ch_insert_def)

lemma ch_lookup:
  "ch_wf h \<Longrightarrow> get_state_at_or_before h u = map_option snd (newest_entry (explicits (ch_buffer h)) u)"
  by (simp add: get_state_at_or_before_eq ch_wf_ordered at_or_before_entry)

lemma ch_insert_lookup:
  assumes "ch_wf h"
  shows "get_state_at_or_before (ch_insert t s h) u =
    (if t \<le> u \<and> newest_entry (explicits (entries_after t h)) u = None then Some s
     else get_state_at_or_before h u)"
  using assms ch_insert_wf [OF assms, of t s] state_before_newest [OF assms, of t u]
    insert_raw_newest [OF assms, of t _ u]
  by (auto simp: ch_lookup ch_insert_def split: if_splits)

text \<open>The variant for sorted samples is the same operation where its precondition holds.\<close>

definition ch_newest :: "'a confirmed_history \<Rightarrow> tick option" where
  "ch_newest h = map_option fst (get_back (ch_buffer h))"

lemma ch_newest_eq:
  "ch_newest h = (if ch_buffer h = [] then None else Some (fst (last (ch_buffer h))))"
  by (simp add: ch_newest_def get_back_def)

lemma ch_newest_bound:
  assumes "ch_wf h" and "\<And>n. ch_newest h = Some n \<Longrightarrow> n \<le> t"
  shows "entries_after t h = []"
    and "ch_buffer h = entries_before t h \<or> (\<exists>s. ch_buffer h = entries_before t h @ [(t, s)])"
proof -
  have "fst e \<le> t" if "e \<in> set (ch_buffer h)" for e
  proof -
    have "ch_newest h = Some (fst (last (ch_buffer h)))"
      using that by (auto simp: ch_newest_eq)
    with assms(2) ordered_le_last [OF ch_wf_ordered [OF assms(1)] that] show ?thesis
      by (meson order_trans)
  qed
  then show after: "entries_after t h = []"
    by (auto simp: filter_empty_conv not_less)
  obtain M where "ch_buffer h = entries_before t h @ M @ entries_after t h"
    "\<forall>e \<in> set M. fst e = t" "length M \<le> 1"
    by (rule ch_buffer_split [OF assms(1)])
  with after show "ch_buffer h = entries_before t h \<or> (\<exists>s. ch_buffer h = entries_before t h @ [(t, s)])"
    by (cases M) (auto simp: le_Suc_eq)
qed

lemma ch_insert_newest:
  assumes "ch_wf h" and "\<And>n. ch_newest h = Some n \<Longrightarrow> n \<le> t"
  shows "ch_newest (ch_insert t s h) = Some t"
  using assms(1) ch_newest_bound(1) [OF assms]
  by (simp add: ch_newest_eq ch_insert_def insert_raw_buffer ch_wf_def)

lemma insert_assume_sorted_eq:
  assumes "ch_wf h" and "\<And>n. ch_newest h = Some n \<Longrightarrow> n \<le> t"
  shows "insert_assume_sorted t s h = ch_insert t s h"
proof -
  have strict: "sorted_wrt (<) (map fst (ch_buffer h))"
    using assms(1) by (simp add: ch_wf_def)
  have same: "state_before (h\<lparr>ch_buffer := entries_before t h\<rparr>) t = state_before h t"
    using ch_wf_ordered [OF assms(1)]
    by (simp add: state_before_eq ordered_filter)
  have no_t: "(t, r) \<notin> set (entries_before t h)" for r by auto
  have after: "entries_after t h = []"
    and "ch_buffer h = entries_before t h \<or> (\<exists>r. ch_buffer h = entries_before t h @ [(t, r)])"
    using ch_newest_bound [of h t] assms by blast+
  from this(2) show ?thesis
  proof (elim disjE exE)
    assume b: "ch_buffer h = entries_before t h"
    have "fst (last (ch_buffer h)) \<noteq> t" if "ch_buffer h \<noteq> []"
    proof -
      have "last (ch_buffer h) \<in> set (entries_before t h)"
        using last_in_set [OF that] b by metis
      then show ?thesis by auto
    qed
    with b after show ?thesis
      by (auto simp: insert_assume_sorted_def ch_insert_def get_back_def case_prod_beta
          confirmed_history.equality insert_raw_buffer [OF strict] intro!: confirmed_history.equality)
  next
    fix r assume b: "ch_buffer h = entries_before t h @ [(t, r)]"
    then have "butlast (ch_buffer h) = entries_before t h" "get_back (ch_buffer h) = Some (t, r)"
      by (metis butlast_snoc, metis get_back_simps(3))
    with same after show ?thesis
      by (auto simp: insert_assume_sorted_def ch_insert_def insert_raw_buffer [OF strict]
          intro!: confirmed_history.equality)
  qed
qed

section \<open>Pruning\<close>

lemma drain_front:
  "(if 0 < p then h\<lparr>ch_buffer := drop p (ch_buffer h)\<rparr> else h) =
    h\<lparr>ch_buffer := drop p (ch_buffer h)\<rparr>" for h :: "'a confirmed_history"
  by simp

lemma ch_clear_until_buffer:
  assumes "ch_wf h"
  shows "ch_buffer (ch_clear_until_tick t h) =
    (case get_state_at_or_before h t of
       None \<Rightarrow> ch_buffer h
     | Some s \<Rightarrow> (t, Explicit s) # entries_after t h)"
proof -
  obtain M where M: "ch_buffer h = entries_before t h @ M @ entries_after t h"
    "\<forall>e \<in> set M. fst e = t" "length M \<le> 1"
    "filter (\<lambda>e. t \<le> fst e) (ch_buffer h) = M @ entries_after t h"
    by (rule ch_buffer_split [OF assms])
  have drop: "drop (partition_point (\<lambda>(u, _). u < t) (ch_buffer h)) (ch_buffer h) = M @ entries_after t h"
    using M(4) by (simp add: ordered_dropWhile_less ch_wf_ordered [OF assms])
  have look: "get_state_at_or_before h t =
      map_option snd (newest_entry (explicits (entries_before t h @ M)) t)"
    by (subst (1) ch_lookup [OF assms], subst M(1))
      (simp add: newest_entry_append no_entry_below(1))
  show ?thesis
  proof (cases "get_state_at_or_before h t")
    case None
    have "entries_before t h @ M = []"
    proof (rule ccontr)
      assume ne: "entries_before t h @ M \<noteq> []"
      then have "hd (ch_buffer h) = hd (entries_before t h @ M)" "ch_buffer h \<noteq> []"
        using M(1) by (metis append.assoc hd_append2, auto)
      then have ex: "explicits (entries_before t h @ M) \<noteq> []"
        using explicits_front [OF ne] assms by (simp add: ch_wf_def)
      have "fst e \<le> t" if "e \<in> set (explicits (entries_before t h @ M))" for e
        using fst_explicits [OF that] M(2) by force
      then have "filter (\<lambda>e. fst e \<le> t) (explicits (entries_before t h @ M)) \<noteq> []"
        using ex by (metis filter_True)
      with None look show False
        by (auto simp: newest_entry_def get_back_def)
    qed
    with None M(1) drop show ?thesis
      by (auto simp: ch_clear_until_tick_def Let_def drain_front simp del: drop_partition_point)
  next
    case (Some s)
    have front: "\<forall>e \<in> set (entries_after t h). t < fst e" by simp
    have "M = [] \<or> (\<exists>r. M = [(t, r)])"
      using M(2,3) by (cases M) (auto simp: le_Suc_eq)
    then show ?thesis
    proof (elim disjE exE)
      assume "M = []"
      with Some drop front show ?thesis
        by (cases "entries_after t h") (auto simp: ch_clear_until_tick_def Let_def drain_front simp del: drop_partition_point)
    next
      fix r assume r: "M = [(t, r)]"
      then have "r = Explicit s \<or> r = Same_As_Precedent"
        using look Some by (cases r) (auto simp: newest_entry_append)
      with r Some drop show ?thesis
        by (auto simp: ch_clear_until_tick_def Let_def drain_front materialize_front_def simp del: drop_partition_point)
    qed
  qed
qed

lemma strict_filter: "sorted_wrt (<) (map fst xs) \<Longrightarrow> sorted_wrt (<) (map fst (filter P xs))"
  by (simp add: sorted_wrt_map sorted_wrt_filter)

lemma ch_clear_until_wf:
  assumes "ch_wf h"
  shows "ch_wf (ch_clear_until_tick t h)"
    and "ch_newest (ch_clear_until_tick t h) = Some n \<Longrightarrow> n = t \<or> ch_newest h = Some n"
    and "t \<le> u \<Longrightarrow> get_state_at_or_before (ch_clear_until_tick t h) u = get_state_at_or_before h u"
proof -
  have o: "ordered (ch_buffer h)" by (rule ch_wf_ordered [OF assms])
  note b = ch_clear_until_buffer [OF assms, of t]
  show wf: "ch_wf (ch_clear_until_tick t h)"
    using assms strict_filter [of "ch_buffer h" "\<lambda>e. t < fst e"]
    by (auto simp: ch_wf_def b split: option.splits)
  show "n = t \<or> ch_newest h = Some n" if "ch_newest (ch_clear_until_tick t h) = Some n"
  proof -
    have "fst (last (entries_after t h)) = fst (last (ch_buffer h))" if "entries_after t h \<noteq> []"
      using that o by (cases "ch_buffer h" rule: rev_cases)
        (force simp: ordered_append filter_empty_conv not_less split: if_splits)+
    with that show ?thesis
      by (auto simp: ch_newest_eq b split: option.splits if_splits)
  qed
  show "get_state_at_or_before (ch_clear_until_tick t h) u = get_state_at_or_before h u" if "t \<le> u"
    using that at_or_before_cut [OF _ ordered_explicits [OF o], of t _ u]
      get_state_at_or_before_eq [OF o] get_state_at_or_before_eq [OF ch_wf_ordered [OF wf]]
    by (cases "get_state_at_or_before h t") (auto simp: b filter_explicits [of "\<lambda>u. t < u"])
qed

interpretation confirmed: state_history ch_wf ch_newest get_state_at_or_before ch_insert
  ch_clear_until_tick
proof unfold_locales
  fix h :: "'a confirmed_history" and t s u
  assume wf: "ch_wf h" and le: "\<And>n. ch_newest h = Some n \<Longrightarrow> n \<le> t"
  show "ch_newest (ch_insert t s h) = Some t"
    by (rule ch_insert_newest [OF wf le])
  show "get_state_at_or_before (ch_insert t s h) u = (if t \<le> u then Some s else get_state_at_or_before h u)"
    using ch_newest_bound(1) [OF wf le] by (simp add: ch_insert_lookup [OF wf])
qed (auto simp: ch_insert_wf ch_clear_until_wf dest: ch_clear_until_wf(2))

section \<open>Unchanged samples\<close>

lemma get_index_append: "get_index (xs @ ys) (length xs) = get_index ys 0"
  by (simp add: get_index_def nth_append)

lemma get_state_at_eq:
  assumes "ch_wf h"
  shows "get_state_at h t = (if t \<in> fst ` set (ch_buffer h) then get_state_at_or_before h t else None)"
proof -
  obtain M where M: "ch_buffer h = entries_before t h @ M @ entries_after t h"
    "\<forall>e \<in> set M. fst e = t" "length M \<le> 1"
    by (rule ch_buffer_split [OF assms])
  have p: "partition_point (\<lambda>(u, _). u < t) (ch_buffer h) = length (entries_before t h)"
    using assms by (simp add: partition_point_def ordered_takeWhile_less ch_wf_ordered)
  show ?thesis
  proof (cases M)
    case Nil
    then have "ch_buffer h = entries_before t h @ entries_after t h" using M(1) by simp
    then have "get_index (ch_buffer h) (length (entries_before t h)) = get_index (entries_after t h) 0"
      using get_index_append by metis
    moreover have "t \<notin> fst ` set (entries_before t h @ entries_after t h)"
      by auto
    then have "t \<notin> fst ` set (ch_buffer h)"
      using M(1) Nil by (metis append_Nil)
    moreover have "fst e \<noteq> t" if "get_index (entries_after t h) 0 = Some e" for e
    proof -
      have "e \<in> set (entries_after t h)"
        using that nth_mem [of 0 "entries_after t h"] by (simp add: get_index_def split: if_splits)
      then show ?thesis by auto
    qed
    ultimately show ?thesis
      by (cases "get_index (entries_after t h) 0") (auto simp: get_state_at_def p Let_def)
  next
    case (Cons e rest)
    with M(2,3) obtain s where e: "M = [(t, s)]" by (cases e) auto
    then have b: "ch_buffer h = entries_before t h @ (t, s) # entries_after t h"
      using M(1) by simp
    note mid = middle_of_list [OF b]
    have "t \<in> fst ` set (ch_buffer h)" by (subst b) simp
    moreover have "take (Suc (length (entries_before t h))) (ch_buffer h) = filter (\<lambda>e. fst e \<le> t) (ch_buffer h)"
    proof -
      have "filter (\<lambda>e. fst e \<le> t) (entries_before t h) = entries_before t h"
        by (rule filter_True) auto
      moreover have "filter (\<lambda>e. fst e \<le> t) (entries_after t h) = []"
        by (rule filter_False) auto
      moreover note filter_middle [OF b, of "\<lambda>e. fst e \<le> t"]
      ultimately show ?thesis
        using take_middle [OF b] by (simp del: filter_filter)
    qed
    ultimately show ?thesis
      using mid
      by (simp add: get_state_at_def p Let_def get_index_def resolve_state
          get_state_at_or_before_eq ch_wf_ordered [OF assms] at_or_before_def
          filter_explicits [of "\<lambda>u. u \<le> t"])
  qed
qed

lemma wf_lookup_None:
  assumes "ch_wf h"
  shows "get_state_at_or_before h t = None \<longleftrightarrow> (\<forall>e \<in> set (ch_buffer h). t < fst e)"
proof (cases "ch_buffer h")
  case Nil
  then show ?thesis by (simp add: ch_lookup [OF assms])
next
  case (Cons e xs)
  obtain s where s: "e = (fst e, Explicit s)"
    using assms Cons by (cases e; cases "snd e") (auto simp: ch_wf_def)
  have le: "\<forall>x \<in> set xs. fst e < fst x"
    using assms Cons by (simp add: ch_wf_def)
  have "get_state_at_or_before h t = None \<longleftrightarrow> t < fst e"
  proof
    assume "get_state_at_or_before h t = None"
    then show "t < fst e"
      using Cons s by (cases e) (auto simp: ch_lookup [OF assms] newest_entry_Cons split: option.splits if_splits)
  next
    assume "t < fst e"
    then have "newest_entry (explicits (ch_buffer h)) t = None"
      using Cons le by (intro newest_entry_None) (force dest!: fst_explicits)
    then show "get_state_at_or_before h t = None" by (simp add: ch_lookup [OF assms])
  qed
  with Cons le show ?thesis by (auto intro: less_trans)
qed

text \<open>An unchanged sample never changes a lookup.\<close>

lemma add_unchanged_lookup:
  assumes "ch_wf h"
  shows "ch_wf (snd (add_unchanged t h))"
    and "get_state_at_or_before (snd (add_unchanged t h)) u = get_state_at_or_before h u"
    and "fst (add_unchanged t h) \<longleftrightarrow>
      t \<notin> fst ` set (ch_buffer h) \<and> (\<exists>e \<in> set (ch_buffer h). fst e < t)"
proof -
  have sb: "state_before h t = None \<longleftrightarrow> entries_before t h = []"
  proof
    assume "state_before h t = None"
    then have ex: "explicits (entries_before t h) = []"
      by (auto simp: state_before_eq ch_wf_ordered [OF assms] get_back_def split: if_splits)
    show "entries_before t h = []"
    proof (rule ccontr)
      assume ne: "entries_before t h \<noteq> []"
      obtain M where "ch_buffer h = entries_before t h @ M @ entries_after t h"
        by (rule ch_buffer_split [OF assms])
      then have "hd (ch_buffer h) = hd (entries_before t h)" "ch_buffer h \<noteq> []"
        using ne by (metis hd_append2, metis Nil_is_append_conv)
      with explicits_front [OF ne] assms ex show False by (simp add: ch_wf_def)
    qed
  qed (auto simp: state_before_eq ch_wf_ordered [OF assms])
  have sa: "get_state_at h t = None \<longleftrightarrow> t \<notin> fst ` set (ch_buffer h)"
    using wf_lookup_None [OF assms, of t] by (auto simp: get_state_at_eq [OF assms])
  show "fst (add_unchanged t h) \<longleftrightarrow>
      t \<notin> fst ` set (ch_buffer h) \<and> (\<exists>e \<in> set (ch_buffer h). fst e < t)"
    by (auto simp: add_unchanged_def sa sb filter_empty_conv)
  show wf: "ch_wf (snd (add_unchanged t h))"
    using insert_raw_wf [OF assms, of Same_As_Precedent t] assms
    by (auto simp: add_unchanged_def sb)
  have "newest_entry (explicits (ch_buffer (insert_raw t Same_As_Precedent h))) u =
      newest_entry (explicits (ch_buffer h)) u" if "t \<notin> fst ` set (ch_buffer h)"
  proof -
    obtain M where M: "ch_buffer h = entries_before t h @ M @ entries_after t h" "\<forall>e \<in> set M. fst e = t"
      by (rule ch_buffer_split [OF assms])
    have "M = []"
    proof (cases M)
      case (Cons e N)
      then have "e \<in> set (ch_buffer h)" by (subst M(1)) simp
      with Cons M(2) that show ?thesis by force
    qed
    then have b: "ch_buffer h = entries_before t h @ entries_after t h" using M(1) by simp
    have "explicits (ch_buffer h) = explicits (entries_before t h) @ explicits (entries_after t h)"
      by (subst b) (rule explicits_simps(4))
    then have "explicits (ch_buffer (insert_raw t Same_As_Precedent h)) = explicits (ch_buffer h)"
      using assms by (simp add: insert_raw_buffer ch_wf_def)
    then show ?thesis by simp
  qed
  then show "get_state_at_or_before (snd (add_unchanged t h)) u = get_state_at_or_before h u"
    using ch_lookup [OF wf, of u] ch_lookup [OF assms, of u] sa
    by (auto simp: add_unchanged_def)
qed

lemma push_unchanged_lookup:
  assumes "ch_wf h"
  shows "ch_wf (snd (push_unchanged t h))"
    and "get_state_at_or_before (snd (push_unchanged t h)) u = get_state_at_or_before h u"
  using add_unchanged_lookup(1,2) [OF assms, of t] assms
  by (auto simp: push_unchanged_def case_prod_beta split: option.splits bool.splits prod.splits)

section \<open>Interpolation\<close>

text \<open>
  The interpolation of \<open>interpolate.rs\<close>: the frame's completed tick is pushed as unchanged, old
  entries are drained while the second oldest has been passed, and a frame interpolates between
  the entries around its tick.
\<close>

definition drain_condition :: "tick \<Rightarrow> 'a confirmed_history \<Rightarrow> bool" where
  "drain_condition current_interpolate_tick h \<longleftrightarrow>
     ch_len h \<ge> 3 \<and>
     (case get_nth_tick h 1 of Some t \<Rightarrow> t \<le> current_interpolate_tick | None \<Rightarrow> False)"

lemma pop_present_length: "ch_buffer (snd (pop_present h)) = [] \<or>
    length (ch_buffer (snd (pop_present h))) = length (ch_buffer h) - 1"
  by (cases "ch_buffer h")
    (auto simp: pop_present_def materialize_front_def Let_def split: list.splits option.splits)

function drain_old_history :: "tick \<Rightarrow> 'a confirmed_history \<Rightarrow> 'a confirmed_history" where
  "drain_old_history current_interpolate_tick h =
     (if drain_condition current_interpolate_tick h
      then drain_old_history current_interpolate_tick (snd (pop_present h))
      else h)"
  by pat_completeness auto
termination
proof (relation "measure (\<lambda>(_, h). length (ch_buffer h))")
  fix c and h :: "'a confirmed_history"
  assume "drain_condition c h"
  then show "((c, snd (pop_present h)), (c, h)) \<in> measure (\<lambda>(_, h). length (ch_buffer h))"
    using pop_present_length [of h] by (auto simp: drain_condition_def ch_len_def)
qed simp

declare drain_old_history.simps [simp del]

definition update_history_inner ::
  "tick option \<Rightarrow> tick \<Rightarrow> 'a confirmed_history \<Rightarrow> 'a confirmed_history" where
  "update_history_inner server_complete_tick current_interpolate_tick h =
     drain_old_history current_interpolate_tick
       (case server_complete_tick of
          Some t \<Rightarrow> snd (push_unchanged t h)
        | None \<Rightarrow> h)"

definition present_history_bracket ::
  "'a confirmed_history \<Rightarrow> tick \<Rightarrow> (tick \<times> 'a \<times> (tick \<times> 'a) option) option" where
  "present_history_bracket h interpolation_tick =
     Option.bind
       (get_back (takeWhile (\<lambda>i. case get_nth_tick h i of
            Some t \<Rightarrow> t \<le> interpolation_tick | None \<Rightarrow> False) [0..<ch_len h]))
       (\<lambda>previous_index.
     Option.bind (get_nth_state h previous_index) (\<lambda>(start_tick, start_state).
       case start_state of
         Removed \<Rightarrow> None
       | Updated start \<Rightarrow>
           Some (start_tick, start,
             (case get_nth_state h (previous_index + 1) of
                Some (end_tick, Updated end_value) \<Rightarrow> Some (end_tick, end_value)
              | Some (_, Removed) \<Rightarrow> None
              | None \<Rightarrow> None))))"

text \<open>Popping the oldest entry, when there is another one.\<close>

lemma pop_present_two:
  assumes "ch_wf h" and "ch_buffer h = e # f # rest"
  obtains s where "e = (fst e, Explicit s)"
    and "ch_buffer (snd (pop_present h)) =
      (fst f, (case snd f of Explicit r \<Rightarrow> Explicit r | Same_As_Precedent \<Rightarrow> Explicit s)) # rest"
    and "ch_wf (snd (pop_present h))"
proof -
  obtain s where s: "e = (fst e, Explicit s)"
    using assms by (cases e; cases "snd e") (auto simp: ch_wf_def)
  then have b: "ch_buffer (snd (pop_present h)) =
      (fst f, (case snd f of Explicit r \<Rightarrow> Explicit r | Same_As_Precedent \<Rightarrow> Explicit s)) # rest"
    using assms(2)
    by (cases e; cases f; cases "snd f")
      (auto simp: pop_present_def get_index_def materialize_front_def)
  moreover have "ch_wf (snd (pop_present h))"
    using assms by (auto simp: ch_wf_def b split: confirmed_state.splits)
  ultimately show ?thesis using s that by blast
qed

lemma pop_present_shift:
  assumes "ch_wf h" and "ch_buffer h = e # f # rest"
  shows "get_nth_tick (snd (pop_present h)) n = get_nth_tick h (Suc n)"
    and "get_nth_state (snd (pop_present h)) n = get_nth_state h (Suc n)"
    and "ch_len h = Suc (ch_len (snd (pop_present h)))"
proof -
  obtain s where s: "e = (fst e, Explicit s)"
    "ch_buffer (snd (pop_present h)) =
      (fst f, (case snd f of Explicit r \<Rightarrow> Explicit r | Same_As_Precedent \<Rightarrow> Explicit s)) # rest"
    by (rule pop_present_two [OF assms])
  have index: "map_option fst (get_index (ch_buffer (snd (pop_present h))) n) =
      map_option fst (get_index (ch_buffer h) (Suc n))"
    using s(2) assms(2) by (cases n) (auto simp: get_index_def)
  then show "get_nth_tick (snd (pop_present h)) n = get_nth_tick h (Suc n)"
    by (simp add: get_nth_tick_def)
  have "get_back (explicits (take (Suc n) (ch_buffer (snd (pop_present h))))) = 
        get_back (explicits (take (Suc (Suc n)) (ch_buffer h))) \<or>
      map_option snd (get_back (explicits (take (Suc n) (ch_buffer (snd (pop_present h)))))) = 
        map_option snd (get_back (explicits (take (Suc (Suc n)) (ch_buffer h))))"
    using s assms(2) by (cases e; cases f; cases "snd f") (auto simp: get_back_Cons)
  then have "resolve_state_at_index (snd (pop_present h)) n = resolve_state_at_index h (Suc n)"
    by (auto simp: resolve_state)
  with index show "get_nth_state (snd (pop_present h)) n = get_nth_state h (Suc n)"
    by (cases "get_index (ch_buffer (snd (pop_present h))) n"; cases "get_index (ch_buffer h) (Suc n)")
      (auto simp: get_nth_state_def case_prod_beta)
  show "ch_len h = Suc (ch_len (snd (pop_present h)))"
    using s(2) assms(2) by (simp add: ch_len_def)
qed

lemma takeWhile_shift:
  "takeWhile P [0..<Suc n] = (if P 0 then 0 # map Suc (takeWhile (\<lambda>i. P (Suc i)) [0..<n]) else [])"
proof -
  have "[0..<Suc n] = 0 # map Suc [0..<n]"
    by (metis map_Suc_upt upt_conv_Cons zero_less_Suc)
  then show ?thesis by (simp add: takeWhile_map comp_def)
qed

lemma get_back_map: "get_back (map f xs) = map_option f (get_back xs)"
  by (simp add: get_back_def last_map)

lemma pop_present_bracket:
  assumes "ch_wf h" and "drain_condition current h" and "current \<le> u"
  shows "ch_wf (snd (pop_present h))"
    and "present_history_bracket (snd (pop_present h)) u = present_history_bracket h u"
proof -
  obtain e f rest where b: "ch_buffer h = e # f # rest" and f: "fst f \<le> current"
    using assms(2) by (cases "ch_buffer h"; cases "tl (ch_buffer h)")
      (auto simp: drain_condition_def ch_len_def get_nth_tick_def get_index_def)
  show "ch_wf (snd (pop_present h))"
    by (rule pop_present_two [OF assms(1) b])
  note shift = pop_present_shift [OF assms(1) b]
  let ?h = "snd (pop_present h)"
  let ?P = "\<lambda>h i. case get_nth_tick h i of Some t \<Rightarrow> t \<le> u | None \<Rightarrow> False"
  have "fst e < fst f" using assms(1) b by (simp add: ch_wf_def)
  then have P: "?P h 0" "?P h 1"
    using b f assms(3) by (auto simp: get_nth_tick_def get_index_def)
  have len: "0 < ch_len ?h"
    using shift(3) b by (auto simp: ch_len_def)
  have "takeWhile (?P h) [0..<ch_len h] = 0 # map Suc (takeWhile (?P ?h) [0..<ch_len ?h])"
  proof -
    have "?P ?h = (\<lambda>i. ?P h (Suc i))"
      by (simp add: shift(1))
    then show ?thesis
      using takeWhile_shift [of "?P h" "ch_len ?h"] P(1) by (simp add: shift(3))
  qed
  moreover have "takeWhile (?P ?h) [0..<ch_len ?h] \<noteq> []"
    using P(2) len by (simp add: upt_conv_Cons shift(1))
  ultimately have "get_back (takeWhile (?P h) [0..<ch_len h]) =
      map_option Suc (get_back (takeWhile (?P ?h) [0..<ch_len ?h]))"
    by (simp add: get_back_Cons get_back_map)
  moreover have "get_nth_state ?h = (\<lambda>n. get_nth_state h (Suc n))"
    using shift(2) by blast
  ultimately show "present_history_bracket ?h u = present_history_bracket h u"
    unfolding present_history_bracket_def by (simp add: Option.bind_map_option comp_def)
qed

lemma drain_old_history_bracket:
  assumes "ch_wf h" and "current \<le> u"
  shows "ch_wf (drain_old_history current h) \<and>
    present_history_bracket (drain_old_history current h) u = present_history_bracket h u \<and>
    \<not> drain_condition current (drain_old_history current h)"
  using assms
proof (induction current h rule: drain_old_history.induct)
  case (1 current h)
  show ?case
  proof (cases "drain_condition current h")
    case True
    with 1 pop_present_bracket [OF 1(2) True 1(3)] show ?thesis
      by (subst (1 2 3) drain_old_history.simps) simp
  next
    case False
    with 1 show ?thesis by (subst (1 2 3) drain_old_history.simps) simp
  qed
qed

text \<open>The index that the bracket starts from is that of the newest entry at or before the tick.\<close>

lemma takeWhile_upt: "takeWhile (\<lambda>i. P (xs ! i)) [0..<length xs] = [0..<length (takeWhile P xs)]"
proof -
  have "takeWhile P xs = map ((!) xs) (takeWhile (\<lambda>i. P (xs ! i)) [0..<length xs])"
    using takeWhile_map [of P "(!) xs" "[0..<length xs]"] by (simp add: map_nth comp_def)
  then have "length (takeWhile (\<lambda>i. P (xs ! i)) [0..<length xs]) = length (takeWhile P xs)"
    by (metis length_map)
  then show ?thesis
    using length_takeWhile_le [of P xs] by (subst takeWhile_eq_take) simp
qed

lemma get_back_upt: "get_back [0..<n] = checked_sub n 1"
  by (cases n) (auto simp: checked_sub_def)

lemma bracket_index:
  "get_back (takeWhile (\<lambda>i. case get_nth_tick h i of Some t \<Rightarrow> t \<le> u | None \<Rightarrow> False) [0..<ch_len h]) =
    index_at_or_before h u"
proof -
  let ?P = "\<lambda>(v, _). v \<le> u"
  have "takeWhile (\<lambda>i. case get_nth_tick h i of Some t \<Rightarrow> t \<le> u | None \<Rightarrow> False) [0..<ch_len h] =
      takeWhile (\<lambda>i. ?P (ch_buffer h ! i)) [0..<length (ch_buffer h)]"
    by (auto simp: get_nth_tick_def get_index_def ch_len_def case_prod_beta intro!: takeWhile_cong)
  then show ?thesis
    by (simp add: takeWhile_upt get_back_upt index_at_or_before_def partition_point_def)
qed

lemma index_bound: "index_at_or_before h u = Some i \<Longrightarrow> i < length (ch_buffer h)"
  using partition_point_le [of "\<lambda>(v, _). v \<le> u" "ch_buffer h"]
  by (auto simp: index_at_or_before_def checked_sub_def simp del: partition_point_le split: if_splits)

lemma bracket_starts_in_force:
  "map_option (\<lambda>(_, value, _). value) (present_history_bracket h u) = get_present h u"
proof (cases "index_at_or_before h u")
  case None
  then show ?thesis
    by (simp add: present_history_bracket_def bracket_index get_present_def get_state_at_or_before_def)
next
  case (Some i)
  then have "get_index (ch_buffer h) i = Some (ch_buffer h ! i)"
    using index_bound by (simp add: get_index_def)
  with Some show ?thesis
    by (cases "resolve_state_at_index h i")
      (auto simp: present_history_bracket_def bracket_index get_present_def get_state_at_or_before_def
        get_nth_state_def into_value_def case_prod_beta split: history_state.splits)
qed

lemma insert_samples_wf: "ch_wf (insert_samples ch_insert samples)"
proof -
  have "ch_wf h \<Longrightarrow> ch_wf (fold (\<lambda>(t, s). ch_insert t s) samples h)" for h :: "'a confirmed_history"
    by (induction samples arbitrary: h) (auto simp: ch_insert_wf)
  then show ?thesis
    by (simp add: insert_samples_def ch_default_def ch_wf_def)
qed

section \<open>Properties\<close>

text \<open>
  C38: explicit confirmed samples may arrive in any order. Whatever the order, the state that the
  history gives for a tick is that of the sample with the largest tick at or before it, and of two
  samples for the same tick the one that arrived last.
\<close>

theorem explicit_samples_in_any_order:
  "get_state_at_or_before (insert_samples insert_explicit samples) u =
    map_option snd (latest_sample samples u)"
  using insert_explicit_samples [of samples] by (simp add: ch_lookup)

text \<open>
  For samples that arrive in the order of their ticks the compressed history loses nothing
  either: after any sequence of insertions and prunes the state at every tick that was not pruned
  is the one last confirmed at or before it, although equal states are stored as markers.
\<close>

theorem compressed_samples_in_order:
  assumes "in_order 0 steps" and "last_prune steps \<le> u"
  shows "get_state_at_or_before (run_history ch_insert ch_clear_until_tick steps ch_default) u =
    at_or_before (recorded steps) u"
  using confirmed.run_state_at [of ch_default 0 steps u] assms
  by (simp add: ch_default_def ch_wf_def ch_newest_eq ch_lookup split: option.splits)

theorem compressed_samples_in_order_witness:
  "get_state_at_or_before
      (run_history ch_insert ch_clear_until_tick
        [Record 2 (Updated (1 :: int)), Record 5 (Updated 1), Prune 3, Record 9 Removed] ch_default) 6 =
    Some (Updated 1)"
proof -
  let ?steps = "[Record 2 (Updated (1 :: int)), Record 5 (Updated 1), Prune 3, Record 9 Removed]"
  have "at_or_before (recorded ?steps) 6 = Some (Updated 1)"
    by (simp add: at_or_before_Cons)
  then show ?thesis
    using compressed_samples_in_order [of ?steps 6] by simp
qed

text \<open>
  C39: the compression is wrong for samples that arrive late. The remote confirmed a state at
  \<open>t1\<close>, another one at \<open>t2\<close>, and the first one again at \<open>t3\<close>; when the sample of \<open>t2\<close> is the
  last to arrive, the history answers with it at \<open>t3\<close> and after, where the newest sample says
  otherwise, because the equal state of \<open>t3\<close> was stored as a marker that now refers to \<open>t2\<close>.
\<close>

theorem late_sample_overrides_newer_one:
  assumes "t1 < t2" and "t2 < t3" and "t3 \<le> u" and "a \<noteq> b"
  shows "get_state_at_or_before (insert_samples ch_insert [(t1, a), (t3, a), (t2, b)]) u = Some b \<and>
    latest_sample [(t1, a), (t3, a), (t2, b)] u = Some (t3, a)"
proof -
  have lt: "t1 < t3" "t1 < u" "t2 < u" "\<not> t2 < t1" "t1 \<le> u" "t2 \<le> u" "t1 \<le> t3" "\<not> t3 \<le> t2"
    using assms by auto
  let ?h1 = "ch_insert t1 a ch_default" and ?h = "insert_samples ch_insert [(t1, a), (t3, a)]"
  have b1: "ch_buffer ?h1 = [(t1, Explicit a)]"
    by (simp add: ch_insert_def ch_default_def insert_raw_buffer state_before_eq)
  have "state_before ?h1 t3 = Some a"
    using lt b1 by (simp add: state_before_eq ordered_def)
  then have "ch_buffer (ch_insert t3 a ?h1) = [(t1, Explicit a), (t3, Same_As_Precedent)]"
    using lt b1 by (auto simp: ch_insert_def insert_raw_buffer)
  then have b: "ch_buffer ?h = [(t1, Explicit a), (t3, Same_As_Precedent)]"
    by (simp add: insert_samples_def)
  then have "newest_entry (explicits (entries_after t2 ?h)) u = None"
    using assms lt by simp
  then have "get_state_at_or_before (ch_insert t2 b ?h) u = Some b"
    using lt by (simp add: ch_insert_lookup [OF insert_samples_wf])
  with assms lt show ?thesis
    by (simp add: insert_samples_def latest_sample_def)
qed

theorem late_sample_overrides_newer_one_witness:
  "get_state_at_or_before
      (insert_samples ch_insert [(2, Updated (1 :: int)), (6, Updated 1), (4, Removed)]) 7 = Some Removed"
  using late_sample_overrides_newer_one [of 2 4 6 7 "Updated (1 :: int)" Removed] by simp

text \<open>
  C40: draining the history of an interpolated component never changes what is interpolated. From
  any samples in any order, after the entries that were passed at the current tick have been
  drained, a frame at this tick or later finds the same pair of values around it as before, it
  starts from the value in force, and no further entry can be drained.
\<close>

theorem draining_keeps_interpolation:
  assumes "current \<le> u"
  shows "present_history_bracket (drain_old_history current (insert_samples ch_insert samples)) u =
      present_history_bracket (insert_samples ch_insert samples) u \<and>
    map_option (\<lambda>(_, value, _). value)
      (present_history_bracket (drain_old_history current (insert_samples ch_insert samples)) u) =
      get_present (insert_samples ch_insert samples) u \<and>
    \<not> drain_condition current (drain_old_history current (insert_samples ch_insert samples))"
  using drain_old_history_bracket [OF insert_samples_wf assms, of samples]
    bracket_starts_in_force [of "insert_samples ch_insert samples" u] by simp

theorem draining_keeps_interpolation_witness:
  "present_history_bracket (drain_old_history 6
      (insert_samples ch_insert [(1, Updated (1 :: int)), (5, Updated 2), (9, Updated 2)])) 7 =
    present_history_bracket
      (insert_samples ch_insert [(1, Updated (1 :: int)), (5, Updated 2), (9, Updated 2)]) 7"
  using draining_keeps_interpolation
    [of 6 7 "[(1, Updated (1 :: int)), (5, Updated 2), (9, Updated 2)]"] by simp

end
