(* ===== verification/Prediction.thy ===== *)
theory Prediction
  imports Confirmed_History
begin

text \<open>
  Client prediction and rollback (\<open>crates/replication/prediction/src\<close>: \<open>manager.rs\<close>,
  \<open>registry.rs\<close>, \<open>predicted_history.rs\<close>, \<open>rollback.rs\<close>). A predicted component has its live
  value, the history of what was predicted and the history of what the server confirmed. The theory
  holds the recording of confirmed values with the check for a mismatch, the decision whether to
  roll back, the preparation of a component for a rollback, and the replay.
\<close>

section \<open>Policy, metadata and manager\<close>

datatype rollback_mode = Always | Check | Disabled

text \<open>\<open>maximum_predicted_ticks\<close> of the input timeline is an argument.\<close>

record rollback_policy =
  policy_state :: rollback_mode
  policy_input :: rollback_mode
  max_rollback_ticks :: u16

definition rollback_policy_default :: rollback_policy where
  "rollback_policy_default = \<lparr>policy_state = Check, policy_input = Check, max_rollback_ticks = 20\<rparr>"

definition effective_max_rollback_ticks :: "rollback_policy \<Rightarrow> u16 \<Rightarrow> u16" where
  "effective_max_rollback_ticks p maximum_predicted_ticks =
     (if maximum_predicted_ticks = 0 then max_rollback_ticks p
      else min (max_rollback_ticks p) maximum_predicted_ticks)"

definition no_prediction_history :: "rollback_policy \<Rightarrow> bool" where
  "no_prediction_history p \<longleftrightarrow> policy_state p \<noteq> Disabled \<and> policy_input p = Disabled"

record state_rollback_metadata =
  last_processed_tick :: "tick option"
  earliest_pending_mismatch_tick :: "tick option"
  received_messages_this_frame :: bool
  forced_rollback_tick :: "tick option"

definition metadata_default :: state_rollback_metadata where
  "metadata_default = \<lparr>last_processed_tick = None, earliest_pending_mismatch_tick = None,
     received_messages_this_frame = False, forced_rollback_tick = None\<rparr>"

definition record_mismatch :: "tick \<Rightarrow> state_rollback_metadata \<Rightarrow> state_rollback_metadata" where
  "record_mismatch t md =
     (case earliest_pending_mismatch_tick md of
        None \<Rightarrow> md\<lparr>earliest_pending_mismatch_tick := Some t\<rparr>
      | Some existing \<Rightarrow>
          if t < existing then md\<lparr>earliest_pending_mismatch_tick := Some t\<rparr> else md)"

definition pending_mismatch_at_or_before :: "state_rollback_metadata \<Rightarrow> tick \<Rightarrow> tick option" where
  "pending_mismatch_at_or_before md completed_tick =
     (case earliest_pending_mismatch_tick md of
        Some mismatch_tick \<Rightarrow> if mismatch_tick \<le> completed_tick then Some mismatch_tick else None
      | None \<Rightarrow> None)"

definition should_check_mismatch_at :: "state_rollback_metadata \<Rightarrow> tick \<Rightarrow> bool" where
  "should_check_mismatch_at md t =
     (if (case last_processed_tick md of Some last_processed \<Rightarrow> t < last_processed | None \<Rightarrow> False)
      then False
      else (case earliest_pending_mismatch_tick md of
              Some pending_tick \<Rightarrow> t < pending_tick
            | None \<Rightarrow> True))"

definition request_forced_rollback :: "tick \<Rightarrow> state_rollback_metadata \<Rightarrow> state_rollback_metadata" where
  "request_forced_rollback t md =
     (case forced_rollback_tick md of
        None \<Rightarrow> md\<lparr>forced_rollback_tick := Some t\<rparr>
      | Some existing \<Rightarrow> if t < existing then md\<lparr>forced_rollback_tick := Some t\<rparr> else md)"

definition reset_connection_state :: "state_rollback_metadata \<Rightarrow> state_rollback_metadata" where
  "reset_connection_state md = metadata_default"

definition reset_frame_state :: "state_rollback_metadata \<Rightarrow> state_rollback_metadata" where
  "reset_frame_state md = md\<lparr>received_messages_this_frame := False\<rparr>"

definition clear_mismatch_history :: "state_rollback_metadata \<Rightarrow> state_rollback_metadata" where
  "clear_mismatch_history md = md\<lparr>earliest_pending_mismatch_tick := None\<rparr>"

definition set_last_processed_tick :: "tick \<Rightarrow> state_rollback_metadata \<Rightarrow> state_rollback_metadata" where
  "set_last_processed_tick t md = md\<lparr>last_processed_tick := Some t\<rparr>"

definition has_confirmed_tick_advanced :: "state_rollback_metadata \<Rightarrow> tick \<Rightarrow> bool" where
  "has_confirmed_tick_advanced md current_tick =
     (case last_processed_tick md of None \<Rightarrow> True | Some last_tick \<Rightarrow> last_tick < current_tick)"

text \<open>The counts of received messages come from the replication library.\<close>

definition check_received_replication_messages ::
  "bool \<Rightarrow> state_rollback_metadata \<Rightarrow> state_rollback_metadata" where
  "check_received_replication_messages received md =
     (let md = reset_frame_state md in
      if received then md\<lparr>received_messages_this_frame := True\<rparr> else md)"

text \<open>A B-tree map of entity sets is the list of its entries in the order of their ticks.\<close>

type_synonym 'e pending_checks = "(tick \<times> 'e set) list"

fun pending_record :: "tick \<Rightarrow> 'e \<Rightarrow> 'e pending_checks \<Rightarrow> 'e pending_checks" where
  "pending_record t e [] = [(t, {e})]"
| "pending_record t e ((u, es) # rest) =
     (if t < u then (t, {e}) # (u, es) # rest
      else if t = u then (u, insert e es) # rest
      else (u, es) # pending_record t e rest)"

fun take_through :: "tick \<Rightarrow> 'e pending_checks \<Rightarrow> 'e set \<times> 'e pending_checks" where
  "take_through completed_tick [] = ({}, [])"
| "take_through completed_tick ((t, pending) # rest) =
     (if t \<le> completed_tick
      then (let (entities, rest) = take_through completed_tick rest in (pending \<union> entities, rest))
      else ({}, (t, pending) # rest))"

datatype rollback_state = Rollback_Default | Rollback_Start tick
datatype rollback = From_State | From_Inputs

record last_confirmed_input =
  lci_tick :: tick
  previous_frame_tick :: tick
  received_any_messages :: bool
  received_for_all_clients :: bool

definition last_confirmed_input_default :: last_confirmed_input where
  "last_confirmed_input_default = \<lparr>lci_tick = atomic_new_max, previous_frame_tick = - 1,
     received_any_messages = False, received_for_all_clients = False\<rparr>"

definition received_input :: "last_confirmed_input \<Rightarrow> bool" where
  "received_input l = received_any_messages l"

definition lci_get :: "last_confirmed_input \<Rightarrow> tick option" where
  "lci_get l = (if lci_tick l = - 1 then None else Some (lci_tick l))"

definition previous_frame :: "last_confirmed_input \<Rightarrow> tick option" where
  "previous_frame l = (if previous_frame_tick l = - 1 then None else Some (previous_frame_tick l))"

definition finalize_frame :: "last_confirmed_input \<Rightarrow> last_confirmed_input" where
  "finalize_frame l = l\<lparr>previous_frame_tick := lci_tick l\<rparr>"

record 'e prediction_manager =
  policy :: rollback_policy
  mismatch_tick :: tick
  has_mismatches :: bool
  input_rollback_floor :: "tick option"
  deterministic_despawn :: "(tick \<times> 'e) list"
  deterministic_skip_despawn :: "(tick \<times> 'e) list"
  pending_entity_state_checks :: "'e pending_checks"
  rollback_state :: rollback_state

definition prediction_manager_default :: "'e prediction_manager" where
  "prediction_manager_default = \<lparr>policy = rollback_policy_default, mismatch_tick = atomic_new_max,
     has_mismatches = False, input_rollback_floor = None, deterministic_despawn = [],
     deterministic_skip_despawn = [], pending_entity_state_checks = [],
     rollback_state = Rollback_Default\<rparr>"

definition input_rollback_is_allowed :: "'e prediction_manager \<Rightarrow> tick \<Rightarrow> bool" where
  "input_rollback_is_allowed m rollback_tick =
     (case input_rollback_floor m of Some floor \<Rightarrow> floor \<le> rollback_tick | None \<Rightarrow> True)"

definition is_rollback :: "'e prediction_manager \<Rightarrow> bool" where
  "is_rollback m = (case rollback_state m of Rollback_Start _ \<Rightarrow> True | Rollback_Default \<Rightarrow> False)"

definition get_rollback_start_tick :: "'e prediction_manager \<Rightarrow> tick option" where
  "get_rollback_start_tick m =
     (case rollback_state m of Rollback_Start t \<Rightarrow> Some t | Rollback_Default \<Rightarrow> None)"

definition set_non_rollback :: "'e prediction_manager \<Rightarrow> 'e prediction_manager" where
  "set_non_rollback m = m\<lparr>rollback_state := Rollback_Default\<rparr>"

definition set_rollback_tick :: "tick \<Rightarrow> 'e prediction_manager \<Rightarrow> 'e prediction_manager" where
  "set_rollback_tick t m = m\<lparr>rollback_state := Rollback_Start t\<rparr>"

definition set_p2p_input_rollback_floor :: "tick \<Rightarrow> 'e prediction_manager \<Rightarrow> 'e prediction_manager" where
  "set_p2p_input_rollback_floor start_tick m =
     m\<lparr>input_rollback_floor := Some (tick_sub_u32 start_tick 1)\<rparr>"

definition clear_p2p_input_rollback_floor :: "'e prediction_manager \<Rightarrow> 'e prediction_manager" where
  "clear_p2p_input_rollback_floor m = m\<lparr>input_rollback_floor := None\<rparr>"

definition reset_input_rollback_tracker ::
  "last_confirmed_input \<Rightarrow> 'e prediction_manager option \<Rightarrow>
   last_confirmed_input \<times> 'e prediction_manager option" where
  "reset_input_rollback_tracker l m =
     (l\<lparr>lci_tick := - 1, received_any_messages := False, received_for_all_clients := True\<rparr>,
      map_option (\<lambda>m. m\<lparr>mismatch_tick := - 1, has_mismatches := False\<rparr>) m)"

record deterministic_predicted =
  skip_despawn :: bool
  enable_rollback_after :: u8

definition deterministic_predicted_on_add ::
  "deterministic_predicted \<Rightarrow> 'e \<Rightarrow> tick \<Rightarrow> 'e prediction_manager \<Rightarrow> 'e prediction_manager" where
  "deterministic_predicted_on_add d entity t m =
     (if \<not> skip_despawn d
      then m\<lparr>deterministic_despawn := deterministic_despawn m @ [(t, entity)]\<rparr>
      else m\<lparr>deterministic_skip_despawn := deterministic_skip_despawn m @
        [(tick_add_i32 t (uint (enable_rollback_after d)), entity)]\<rparr>)"

section \<open>A predicted component\<close>

record 'c predicted_component =
  live :: "'c option"
  p_history :: "'c history_buffer option"
  c_history :: "'c confirmed_history option"
  previous_visual :: "'c option"

definition add_predicted :: "tick \<Rightarrow> 'c option \<Rightarrow> 'c history_buffer \<Rightarrow> 'c history_buffer" where
  "add_predicted t value h = hb_add t value h"

text \<open>
  \<open>update_prediction_history\<close> for one entity: \<open>changed\<close> is the change detection of the engine.
\<close>

definition update_prediction_history ::
  "u16 \<Rightarrow> tick \<Rightarrow> bool \<Rightarrow> 'c predicted_component \<Rightarrow> 'c predicted_component" where
  "update_prediction_history max_ticks t changed c =
     (let oldest_rollback_tick = tick_sub_u32 t (ucast max_ticks) in
      case (live c, p_history c) of
        (Some component, Some hist) \<Rightarrow>
          let hist = (if changed then add_predicted t (Some component) hist else hist)
          in c\<lparr>p_history := Some (hb_clear_until_tick oldest_rollback_tick hist)\<rparr>
      | _ \<Rightarrow> c)"

definition apply_component_removal_predicted ::
  "tick \<Rightarrow> 'c predicted_component \<Rightarrow> 'c predicted_component" where
  "apply_component_removal_predicted t c =
     c\<lparr>p_history := map_option (add_predicted t None) (p_history c)\<rparr>"

definition shift_prediction_history :: "int \<Rightarrow> 'c predicted_component \<Rightarrow> 'c predicted_component" where
  "shift_prediction_history delta c = c\<lparr>p_history := map_option (hb_update_ticks delta) (p_history c)\<rparr>"

text \<open>
  The observers that give a component its histories: an empty prediction history when the component
  appears on an eligible entity (always on one that waits for a catch-up), and the replicated value
  as the first confirmed one when an already replicated entity becomes predicted. \<open>tick\<close> is the
  server tick of the last confirmation of the entity, when it is known.
\<close>

definition add_prediction_history ::
  "bool \<Rightarrow> bool \<Rightarrow> 'c predicted_component \<Rightarrow> 'c predicted_component" where
  "add_prediction_history catch_up_gated eligible c =
     (if \<not> (catch_up_gated \<or> (live c \<noteq> None \<and> eligible)) then c
      else c\<lparr>p_history := Some (case p_history c of Some hist \<Rightarrow> hist | None \<Rightarrow> hb_default)\<rparr>)"

definition backfill_confirmed_history_on_predicted ::
  "bool \<Rightarrow> tick option \<Rightarrow> 'c predicted_component \<Rightarrow> 'c predicted_component" where
  "backfill_confirmed_history_on_predicted added_together tick c =
     (if added_together then c
      else case (live c, c_history c, tick) of
        (Some component, None, Some t) \<Rightarrow>
          c\<lparr>c_history := Some (insert_present_explicit t component ch_default)\<rparr>
      | _ \<Rightarrow> c)"

definition oldest_retained_tick :: "'c history_buffer \<Rightarrow> tick option" where
  "oldest_retained_tick h = map_option (\<lambda>(t, _). t) (oldest h)"

text \<open>The comparison that a component is registered with is \<open>cmp\<close>.\<close>

definition should_rollback_check ::
  "('c \<Rightarrow> 'c \<Rightarrow> bool) \<Rightarrow> 'c option \<Rightarrow> 'c option \<Rightarrow> bool" where
  "should_rollback_check cmp confirmed predicted =
     (case (confirmed, predicted) of
        (Some c, Some p) \<Rightarrow> cmp c p
      | (Some c, None) \<Rightarrow> True
      | (None, Some p) \<Rightarrow> True
      | (None, None) \<Rightarrow> False)"

definition check_rollback_for_unchanged_component ::
  "('c \<Rightarrow> 'c \<Rightarrow> bool) \<Rightarrow> tick \<Rightarrow> 'c predicted_component \<Rightarrow> bool \<times> 'c predicted_component" where
  "check_rollback_for_unchanged_component cmp confirmed_tick c =
     (case c_history c of
        None \<Rightarrow> (False, c)
      | Some confirmed_history \<Rightarrow>
          (case get_state_at_or_before confirmed_history confirmed_tick of
             None \<Rightarrow> (False, c)
           | Some last_confirmed_state \<Rightarrow>
               let confirmed_value = into_value last_confirmed_state;
                   c = c\<lparr>c_history := Some (snd (add_unchanged confirmed_tick confirmed_history))\<rparr>
               in (case p_history c of
                     None \<Rightarrow> (False, c)
                   | Some prediction_history \<Rightarrow>
                       (case hb_get_state prediction_history confirmed_tick of
                          None \<Rightarrow> (False, c)
                        | Some predicted_state \<Rightarrow>
                            (should_rollback_check cmp confirmed_value (into_value predicted_state), c)))))"

text \<open>
  The result is whether to roll back, whether a deferred check was recorded for the entity at the
  confirmed tick, and the component.
\<close>

definition record_confirmed_and_maybe_check ::
  "('c \<Rightarrow> 'c \<Rightarrow> bool) \<Rightarrow> tick \<Rightarrow> 'c option \<Rightarrow> bool \<Rightarrow> tick \<Rightarrow> bool \<Rightarrow> 'c predicted_component \<Rightarrow>
   bool \<times> bool \<times> 'c predicted_component" where
  "record_confirmed_and_maybe_check cmp confirmed_tick confirmed_component check_mismatch current_tick
      materialized_initial c =
     (let never_predicted_insert = confirmed_component \<noteq> None \<and> \<not> materialized_initial \<and>
            p_history c = None \<and> live c = None;
          history_was_pruned_past_confirmed =
            (case Option.bind (p_history c) oldest_retained_tick of
               Some oldest_tick \<Rightarrow> confirmed_tick < oldest_tick
             | None \<Rightarrow> False);
          should_rollback =
            (if check_mismatch \<and> confirmed_tick \<le> current_tick \<and> \<not> history_was_pruned_past_confirmed
             then should_rollback_check cmp confirmed_component
               (Option.bind (p_history c) (\<lambda>hist. hb_get hist confirmed_tick))
             else False);
          deferred = (check_mismatch \<and> current_tick < confirmed_tick);
          confirmed_state =
            (case confirmed_component of Some component \<Rightarrow> Updated component | None \<Rightarrow> Removed);
          c = c\<lparr>c_history := Some (ch_insert confirmed_tick confirmed_state
            (case c_history c of Some hist \<Rightarrow> hist | None \<Rightarrow> ch_default))\<rparr>;
          c = (if never_predicted_insert
               then c\<lparr>p_history := Some (add_state (min confirmed_tick current_tick) Removed hb_default)\<rparr>
               else c)
      in (should_rollback, deferred, c))"

text \<open>
  \<open>write_history_inner\<close>, from the resolved tick of the message on: the component is materialized
  when it is the first authoritative value of an entity that has neither value nor history, the
  value is recorded, and a mismatch is noted.
\<close>

definition add_resolved_confirmed_to_history_inner ::
  "('c \<Rightarrow> 'c \<Rightarrow> bool) \<Rightarrow> tick \<Rightarrow> 'c option \<Rightarrow> bool \<Rightarrow> bool \<Rightarrow> rollback_policy option \<Rightarrow> tick \<Rightarrow>
   state_rollback_metadata \<Rightarrow> 'c predicted_component \<Rightarrow> bool \<times> bool \<times> 'c predicted_component" where
  "add_resolved_confirmed_to_history_inner cmp t confirmed_component check_state_rollback
      materialized_initial manager_policy current_tick md c =
     (let should_check = (case manager_policy of Some p \<Rightarrow> policy_state p = Check | None \<Rightarrow> False);
          check_state_rollback = (check_state_rollback \<and> should_check_mismatch_at md t)
      in record_confirmed_and_maybe_check cmp t confirmed_component
           (check_state_rollback \<and> should_check) current_tick materialized_initial c)"

definition write_history_inner ::
  "('c \<Rightarrow> 'c \<Rightarrow> bool) \<Rightarrow> tick \<Rightarrow> 'c \<Rightarrow> bool \<Rightarrow> rollback_policy option \<Rightarrow> tick \<Rightarrow>
   state_rollback_metadata \<times> 'c predicted_component \<Rightarrow>
   bool \<times> state_rollback_metadata \<times> 'c predicted_component" where
  "write_history_inner cmp t component materialize_initial manager_policy current_tick = (\<lambda>(md, c).
     let materialized_initial = (materialize_initial \<and> live c = None \<and> p_history c = None \<and>
           c_history c = None);
         c = (if materialized_initial then c\<lparr>live := Some component\<rparr> else c);
         (should_rollback, deferred, c) = add_resolved_confirmed_to_history_inner cmp t (Some component)
           (\<not> materialized_initial) materialized_initial manager_policy current_tick md c
     in (deferred, if should_rollback then record_mismatch t md else md, c))"

definition remove_history ::
  "('c \<Rightarrow> 'c \<Rightarrow> bool) \<Rightarrow> tick \<Rightarrow> rollback_policy option \<Rightarrow> tick \<Rightarrow>
   state_rollback_metadata \<times> 'c predicted_component \<Rightarrow>
   bool \<times> state_rollback_metadata \<times> 'c predicted_component" where
  "remove_history cmp t manager_policy current_tick = (\<lambda>(md, c).
     let should_check = ((case manager_policy of Some p \<Rightarrow> policy_state p = Check | None \<Rightarrow> False) \<and>
           should_check_mismatch_at md t);
         (should_rollback, deferred, c) =
           record_confirmed_and_maybe_check cmp t None should_check current_tick False c
     in (deferred, if should_rollback then record_mismatch t md else md, c))"

text \<open>\<open>pop_until_tick_and_hash\<close> feeds the value at the tick, if there is one, to the hasher.\<close>

definition pop_until_tick_and_hash ::
  "('c \<Rightarrow> 's \<Rightarrow> 's) \<Rightarrow> tick \<Rightarrow> 'c history_buffer \<Rightarrow> 's \<Rightarrow> bool \<times> 's" where
  "pop_until_tick_and_hash f t hist hasher =
     (case hb_get hist t of Some v \<Rightarrow> (True, f v hasher) | None \<Rightarrow> (False, hasher))"

section \<open>The decision to roll back\<close>

text \<open>
  The closure \<open>do_rollback\<close> of \<open>check_rollback\<close>: it sets the rollback tick of the manager and inserts
  the \<open>Rollback\<close> resource, unless the tick is below the floor of the session or too far away.
\<close>

definition do_rollback ::
  "tick \<Rightarrow> u16 \<Rightarrow> tick \<Rightarrow> rollback \<Rightarrow> 'e prediction_manager \<times> rollback option \<Rightarrow>
   'e prediction_manager \<times> rollback option" where
  "do_rollback t max_ticks rollback_tick kind = (\<lambda>(m, resource).
     if kind = From_Inputs \<and> \<not> input_rollback_is_allowed m rollback_tick
     then (set_non_rollback m, resource)
     else
       let delta = tick_sub t rollback_tick in
       if delta < 0 \<or> int (unat max_ticks) < delta then (set_non_rollback m, resource)
       else (set_rollback_tick rollback_tick m, Some kind))"

text \<open>
  The scan of the predicted components of an entity, in the order of the registry: its entries hold
  whether the component is replicated and its comparison. The scan stops at the first mismatch.
\<close>

fun scan_components ::
  "tick \<Rightarrow> ('m \<Rightarrow> 'm) \<Rightarrow> ('m \<Rightarrow> bool) \<Rightarrow> (bool \<times> ('c \<Rightarrow> 'c \<Rightarrow> bool)) list \<Rightarrow>
   'c predicted_component list \<Rightarrow> 'm \<Rightarrow> 'c predicted_component list \<times> 'm" where
  "scan_components t rollback in_rollback ((replicated, cmp) # registry) (c # cs) m =
     (if replicated \<and> \<not> in_rollback m
      then
        let (should_rollback, c) = check_rollback_for_unchanged_component cmp t c in
        if should_rollback then (c # cs, rollback m)
        else let (cs, m) = scan_components t rollback in_rollback registry cs m in (c # cs, m)
      else let (cs, m) = scan_components t rollback in_rollback registry cs m in (c # cs, m))"
| "scan_components t rollback in_rollback _ cs m = (cs, m)"

record ('e, 'c) predicted_entity =
  entity_id :: 'e
  confirmed_at_checkpoint :: bool
  components :: "'c predicted_component list"

text \<open>
  The scan of the entities. The engine may run it in parallel; here it goes through the entities in
  order. \<open>confirmed_at_checkpoint\<close> is whether the entity was explicitly confirmed at the completed
  checkpoint (\<open>ConfirmHistory::contains\<close>).
\<close>

fun scan_entities ::
  "tick \<Rightarrow> ('m \<Rightarrow> 'm) \<Rightarrow> ('m \<Rightarrow> bool) \<Rightarrow> (bool \<times> ('c \<Rightarrow> 'c \<Rightarrow> bool)) list \<Rightarrow> 'e set \<Rightarrow>
   ('e, 'c) predicted_entity list \<Rightarrow> 'm \<Rightarrow> ('e, 'c) predicted_entity list \<times> 'm" where
  "scan_entities t rollback in_rollback registry deferred [] m = ([], m)"
| "scan_entities t rollback in_rollback registry deferred (e # es) m =
     (if in_rollback m \<or> (confirmed_at_checkpoint e \<and> entity_id e \<notin> deferred)
      then let (es, m) = scan_entities t rollback in_rollback registry deferred es m in (e # es, m)
      else
        let (cs, m) = scan_components t rollback in_rollback registry (components e) m;
            (es, m) = scan_entities t rollback in_rollback registry deferred es m
        in (e\<lparr>components := cs\<rparr> # es, m))"

record ('e, 'c) rollback_world =
  manager :: "'e prediction_manager"
  metadata :: state_rollback_metadata
  rollback_resource :: "rollback option"
  entities :: "('e, 'c) predicted_entity list"

definition set_rollback ::
  "tick \<Rightarrow> u16 \<Rightarrow> tick \<Rightarrow> rollback \<Rightarrow> ('e, 'c) rollback_world \<Rightarrow> ('e, 'c) rollback_world" where
  "set_rollback t max_ticks rollback_tick kind w =
     (let (m, resource) = do_rollback t max_ticks rollback_tick kind (manager w, rollback_resource w)
      in w\<lparr>manager := m, rollback_resource := resource\<rparr>)"

text \<open>
  The part of \<open>check_rollback\<close> for a policy that checks state: \<open>completed\<close> is the server tick up to
  which everything was received.
\<close>

definition check_state_mismatch ::
  "tick \<Rightarrow> u16 \<Rightarrow> (bool \<times> ('c \<Rightarrow> 'c \<Rightarrow> bool)) list \<Rightarrow> tick \<Rightarrow>
   ('e, 'c) rollback_world \<Rightarrow> ('e, 'c) rollback_world" where
  "check_state_mismatch t max_ticks registry completed w =
     (if is_rollback (manager w) \<or> \<not> has_confirmed_tick_advanced (metadata w) completed
      then w
      else if t < completed then w
      else
        let (deferred, checks) = take_through completed (pending_entity_state_checks (manager w));
            w = w\<lparr>manager := (manager w)\<lparr>pending_entity_state_checks := checks\<rparr>\<rparr>;
            w = (case pending_mismatch_at_or_before (metadata w) completed of
                Some _ \<Rightarrow>
                  set_rollback t max_ticks completed From_State
                    (w\<lparr>metadata := clear_mismatch_history (metadata w)\<rparr>)
              | None \<Rightarrow>
                  let (es, (m, resource)) =
                    scan_entities completed (do_rollback t max_ticks completed From_State)
                      (\<lambda>(m, _). is_rollback m) registry deferred (entities w)
                      (manager w, rollback_resource w)
                  in w\<lparr>manager := m, rollback_resource := resource, entities := es\<rparr>);
            w = w\<lparr>metadata := set_last_processed_tick completed (metadata w)\<rparr>
        in if is_rollback (manager w)
           then w\<lparr>metadata := clear_mismatch_history (metadata w)\<rparr> else w)"

text \<open>The policies for state and for input, in this order of precedence.\<close>

definition check_state_policy ::
  "tick \<Rightarrow> u16 \<Rightarrow> (bool \<times> ('c \<Rightarrow> 'c \<Rightarrow> bool)) list \<Rightarrow> tick option \<Rightarrow> bool \<Rightarrow>
   ('e, 'c) rollback_world \<Rightarrow> ('e, 'c) rollback_world" where
  "check_state_policy t max_ticks registry checkpoint received_state w =
     (case policy_state (policy (manager w)) of
        Always \<Rightarrow>
          (case checkpoint of
             Some completed \<Rightarrow>
               if received_state \<and> entities w \<noteq> []
               then set_rollback t max_ticks completed From_State w else w
           | None \<Rightarrow> w)
      | Check \<Rightarrow>
          (case checkpoint of
             Some completed \<Rightarrow> check_state_mismatch t max_ticks registry completed w
           | None \<Rightarrow> w)
      | Disabled \<Rightarrow> w)"

definition check_input_policy ::
  "tick \<Rightarrow> u16 \<Rightarrow> last_confirmed_input \<Rightarrow> ('e, 'c) rollback_world \<Rightarrow> ('e, 'c) rollback_world" where
  "check_input_policy t max_ticks lci w =
     (case policy_input (policy (manager w)) of
        Always \<Rightarrow>
          if is_rollback (manager w) then w
          else if received_input lci
          then (case previous_frame lci of
                  Some rollback_tick \<Rightarrow> set_rollback t max_ticks rollback_tick From_Inputs w
                | None \<Rightarrow> w)
          else w
      | Check \<Rightarrow>
          if is_rollback (manager w) then w
          else if has_mismatches (manager w)
          then set_rollback t max_ticks (tick_sub_u32 (mismatch_tick (manager w)) 1) From_Inputs w
          else w
      | Disabled \<Rightarrow> w)"

text \<open>
  \<open>check_rollback\<close> up to the rollback decision. \<open>checkpoint\<close> is the last confirmed tick of the
  checkpoint map (both its replication tick and its authoritative tick are known or neither is),
  \<open>awaiting_catchup\<close> whether an entity waits for a catch-up snapshot.
\<close>

definition decide_rollback ::
  "tick \<Rightarrow> u16 \<Rightarrow> (bool \<times> ('c \<Rightarrow> 'c \<Rightarrow> bool)) list \<Rightarrow> tick option \<Rightarrow> bool \<Rightarrow> last_confirmed_input \<Rightarrow>
   ('e, 'c) rollback_world \<Rightarrow> bool \<times> ('e, 'c) rollback_world" where
  "decide_rollback t maximum_predicted_ticks registry checkpoint awaiting_catchup lci w =
     (let max_ticks = effective_max_rollback_ticks (policy (manager w)) maximum_predicted_ticks;
          received_state = received_messages_this_frame (metadata w);
          forced = forced_rollback_tick (metadata w);
          w = w\<lparr>metadata := (metadata w)\<lparr>forced_rollback_tick := None\<rparr>\<rparr>
      in case forced of
           Some forced_tick \<Rightarrow> (True, set_rollback t max_ticks forced_tick From_State w)
         | None \<Rightarrow>
             if awaiting_catchup then (False, w)
             else
               (False, check_input_policy t max_ticks lci
                 (check_state_policy t max_ticks registry checkpoint received_state w)))"

text \<open>
  The end of \<open>check_rollback\<close>: the entities that did not exist at the rollback tick are despawned
  and the protected ones are excluded from the rollback. The result lists the entities despawned,
  those that get \<open>DisableRollback\<close> and those that lose it, among the ones that still exist.
\<close>

definition despawn_after_rollback ::
  "('e \<Rightarrow> bool) \<Rightarrow> bool \<Rightarrow> 'e prediction_manager \<Rightarrow>
   'e list \<times> 'e list \<times> 'e list \<times> 'e prediction_manager" where
  "despawn_after_rollback exists forced_rollback_requested m =
     (case get_rollback_start_tick m of
        None \<Rightarrow> ([], [], [], m)
      | Some rollback_tick \<Rightarrow>
          let despawned = map snd (filter (\<lambda>(t, e). rollback_tick < t \<and> exists e) (deterministic_despawn m));
              m = m\<lparr>deterministic_despawn := []\<rparr>
          in if forced_rollback_requested
             then (despawned, [], filter exists (map snd (deterministic_skip_despawn m)),
               m\<lparr>deterministic_skip_despawn := []\<rparr>)
             else
               let split_idx = partition_point (\<lambda>(t, _). t \<le> rollback_tick) (deterministic_skip_despawn m);
                   should_disable = drop split_idx (deterministic_skip_despawn m);
                   rest = take split_idx (deterministic_skip_despawn m)
               in (despawned, filter exists (map snd should_disable), filter exists (map snd rest),
                 m\<lparr>deterministic_skip_despawn := should_disable\<rparr>))"

definition check_rollback ::
  "('e \<Rightarrow> bool) \<Rightarrow> tick \<Rightarrow> u16 \<Rightarrow> (bool \<times> ('c \<Rightarrow> 'c \<Rightarrow> bool)) list \<Rightarrow> tick option \<Rightarrow> bool \<Rightarrow>
   last_confirmed_input \<Rightarrow> ('e, 'c) rollback_world \<Rightarrow>
   'e list \<times> 'e list \<times> 'e list \<times> ('e, 'c) rollback_world" where
  "check_rollback exists t maximum_predicted_ticks registry checkpoint awaiting_catchup lci w =
     (let (forced, w) =
        decide_rollback t maximum_predicted_ticks registry checkpoint awaiting_catchup lci w;
        (despawned, disabled, enabled, m) = despawn_after_rollback exists forced (manager w)
      in (despawned, disabled, enabled, w\<lparr>manager := m\<rparr>))"

section \<open>The rollback itself\<close>

definition restored_state ::
  "rollback \<Rightarrow> tick \<Rightarrow> 'c history_buffer \<Rightarrow> 'c predicted_component \<Rightarrow> 'c history_state option" where
  "restored_state rollback rollback_tick predicted_history c =
     (case rollback of
        From_State \<Rightarrow>
          (case c_history c of
             Some hist \<Rightarrow> get_state_at_or_before hist rollback_tick
           | None \<Rightarrow> hb_get_state predicted_history rollback_tick)
      | From_Inputs \<Rightarrow> hb_get_state predicted_history rollback_tick)"

text \<open>
  \<open>current_tick\<close> is the tick of the timeline, which \<open>run_rollback\<close> puts back only later: when the
  component is removed here, the observer of removals records the removal at the current tick,
  behind the state restored at the rollback tick.
\<close>

definition prepare_rollback ::
  "tick \<Rightarrow> bool \<Rightarrow> rollback \<Rightarrow> tick \<Rightarrow> 'c predicted_component \<Rightarrow> 'c predicted_component" where
  "prepare_rollback current_tick has_correction rollback rollback_tick c =
     (case p_history c of
        None \<Rightarrow> c
      | Some predicted_history \<Rightarrow>
          let restore_state = restored_state rollback rollback_tick predicted_history c;
              predicted_history = clear_after_tick rollback_tick predicted_history;
              predicted_history =
                (case restore_state of
                   Some state \<Rightarrow> add_state rollback_tick state predicted_history
                 | None \<Rightarrow>
                     (case live c of
                        Some current \<Rightarrow> add_state rollback_tick (Updated current) predicted_history
                      | None \<Rightarrow> predicted_history));
              c = c\<lparr>p_history := Some predicted_history\<rparr>
          in case restore_state of
               None \<Rightarrow> c
             | Some Removed \<Rightarrow>
                 if live c \<noteq> None then apply_component_removal_predicted current_tick (c\<lparr>live := None\<rparr>) else c
             | Some (Updated correct) \<Rightarrow>
                 (case live c of
                    None \<Rightarrow> c\<lparr>live := Some correct\<rparr>
                  | Some value \<Rightarrow>
                      let c = (if has_correction then c\<lparr>previous_visual := Some value\<rparr> else c)
                      in c\<lparr>live := Some correct\<rparr>))"

text \<open>
  In a replay, a predicted entity takes over the state that was confirmed at exactly the tick, before
  the application simulates the tick.
\<close>

definition snap_to_confirmed_during_rollback ::
  "tick \<Rightarrow> 'c predicted_component \<Rightarrow> 'c predicted_component" where
  "snap_to_confirmed_during_rollback t c =
     (case Option.bind (c_history c) (\<lambda>hist. get_state_at hist t) of
        None \<Rightarrow> c
      | Some (Updated confirmed_value) \<Rightarrow> c\<lparr>live := Some confirmed_value\<rparr>
      | Some Removed \<Rightarrow>
          if live c \<noteq> None then apply_component_removal_predicted t (c\<lparr>live := None\<rparr>) else c)"

text \<open>The local timeline (\<open>crates/core/core/src/timeline.rs\<close>).\<close>

definition timeline_apply_delta :: "int \<Rightarrow> tick \<Rightarrow> tick" where
  "timeline_apply_delta delta t = tick_add_i32 t delta"

definition increment_local_tick :: "tick \<Rightarrow> tick" where
  "increment_local_tick t = tick_add_assign t 1"

text \<open>
  One run of the fixed schedule: the tick is incremented first, then the application simulates it.
  \<open>run_rollback\<close> puts the timeline back to the rollback tick and runs the schedule up to the tick
  it came from; the clock resources that it saves and restores are not modelled.
\<close>

definition fixed_main :: "(tick \<Rightarrow> 'w \<Rightarrow> 'w) \<Rightarrow> tick \<times> 'w \<Rightarrow> tick \<times> 'w" where
  "fixed_main simulate = (\<lambda>(t, w). let t = increment_local_tick t in (t, simulate t w))"

definition run_rollback :: "(tick \<Rightarrow> 'w \<Rightarrow> 'w) \<Rightarrow> tick \<Rightarrow> tick \<times> 'w \<Rightarrow> tick \<times> 'w" where
  "run_rollback simulate rollback_start_tick = (\<lambda>(current_tick, w).
     let num_rollback_ticks = tick_sub current_tick rollback_start_tick;
         t = timeline_apply_delta (- num_rollback_ticks) current_tick
     in (fixed_main simulate ^^ nat num_rollback_ticks) (t, w))"

definition end_rollback :: "('e, 'c) rollback_world \<Rightarrow> ('e, 'c) rollback_world" where
  "end_rollback w = w\<lparr>manager := set_non_rollback (manager w), rollback_resource := None\<rparr>"

section \<open>A rollback stays in its window\<close>

definition in_window :: "tick \<Rightarrow> u16 \<Rightarrow> tick \<Rightarrow> bool" where
  "in_window t max_ticks r \<longleftrightarrow> r \<le> t \<and> uint t - uint r \<le> uint max_ticks"

text \<open>
  What holds of the manager and the \<open>Rollback\<close> resource between the checks of a frame, which each
  start outside a rollback.
\<close>

definition rollback_ok :: "tick \<Rightarrow> u16 \<Rightarrow> 'e prediction_manager \<times> rollback option \<Rightarrow> bool" where
  "rollback_ok t max_ticks = (\<lambda>(m, resource).
     case rollback_state m of
       Rollback_Default \<Rightarrow> resource = None
     | Rollback_Start r \<Rightarrow> in_window t max_ticks r \<and>
         (resource = Some From_State \<or> resource = Some From_Inputs \<and> input_rollback_is_allowed m r))"

lemma tick_sub_window:
  fixes max_ticks :: u16
  shows "\<not> (tick_sub t r < 0 \<or> int (unat max_ticks) < tick_sub t r) \<longleftrightarrow> in_window t max_ticks r"
proof -
  have "uint max_ticks < 2 ^ 16" using uint_lt2p [of max_ticks] by simp
  moreover have "tick_sub t r = max (- (2 ^ 31)) (min (2 ^ 31 - 1) (uint t - uint r))"
    by (simp add: tick_sub_def i32_min_def i32_max_def)
  ultimately show ?thesis
    by (auto simp: in_window_def word_le_def)
qed

lemma do_rollback_cases:
  "do_rollback t max_ticks r kind (m, resource) =
     (if (kind = From_Inputs \<longrightarrow> input_rollback_is_allowed m r) \<and> in_window t max_ticks r
      then (set_rollback_tick r m, Some kind) else (set_non_rollback m, resource))"
  using tick_sub_window [of t r max_ticks] by (auto simp: do_rollback_def Let_def)

lemma manager_simps [simp]:
  "rollback_state (set_rollback_tick r m) = Rollback_Start r"
  "rollback_state (set_non_rollback m) = Rollback_Default"
  "input_rollback_is_allowed (set_rollback_tick r m) = input_rollback_is_allowed m"
  "input_rollback_is_allowed (m\<lparr>pending_entity_state_checks := ps\<rparr>) = input_rollback_is_allowed m"
  "policy (set_rollback_tick r m) = policy m"
  "policy (set_non_rollback m) = policy m"
  by (simp_all add: set_rollback_tick_def set_non_rollback_def input_rollback_is_allowed_def fun_eq_iff)

lemma is_rollback_iff: "is_rollback m \<longleftrightarrow> rollback_state m \<noteq> Rollback_Default"
  by (simp add: is_rollback_def split: rollback_state.splits)

lemma do_rollback_ok:
  assumes "\<not> is_rollback (fst mr)" and "rollback_ok t max_ticks mr"
  shows "rollback_ok t max_ticks (do_rollback t max_ticks r kind mr)"
  using assms
  by (cases mr) (auto simp: do_rollback_cases rollback_ok_def is_rollback_iff
      split: rollback.splits intro: rollback.exhaust [of kind])

lemma do_rollback_policy: "policy (fst (do_rollback t max_ticks r kind mr)) = policy (fst mr)"
  by (cases mr) (simp add: do_rollback_cases)

text \<open>A scan only acts on the manager through rollbacks that start outside a rollback.\<close>

lemma scan_components_inv:
  assumes "\<And>m. P m \<Longrightarrow> \<not> in_rollback m \<Longrightarrow> P (rollback m)" and "P m"
  shows "P (snd (scan_components t rollback in_rollback registry cs m))"
  using assms(2)
proof (induction registry arbitrary: cs m)
  case (Cons e registry)
  obtain replicated cmp where e: "e = (replicated, cmp)" by (cases e)
  show ?case
  proof (cases cs)
    case (Cons c cs)
    with Cons.IH [OF Cons.prems, of cs] Cons.prems assms(1) [OF Cons.prems] e show ?thesis
      by (auto simp: Let_def split: prod.splits)
  qed (simp add: e Cons.prems)
qed simp

lemma scan_entities_inv:
  assumes "\<And>m. P m \<Longrightarrow> \<not> in_rollback m \<Longrightarrow> P (rollback m)" and "P m"
  shows "P (snd (scan_entities t rollback in_rollback registry deferred es m))"
  using assms(2)
proof (induction es arbitrary: m)
  case (Cons e es)
  obtain cs m1 where comps: "scan_components t rollback in_rollback registry (components e) m = (cs, m1)"
    by fastforce
  have "P m1"
    using scan_components_inv [of P in_rollback rollback m t registry "components e", OF assms(1) Cons.prems]
      comps by simp
  from Cons.IH [OF this] Cons.IH [OF Cons.prems] comps show ?case
    by (simp add: case_prod_beta Let_def)
qed simp

definition world_ok :: "tick \<Rightarrow> u16 \<Rightarrow> ('e, 'c) rollback_world \<Rightarrow> bool" where
  "world_ok t max_ticks w \<longleftrightarrow> rollback_ok t max_ticks (manager w, rollback_resource w)"

lemma set_rollback_ok:
  "\<not> is_rollback (manager w) \<Longrightarrow> world_ok t max_ticks w \<Longrightarrow>
   world_ok t max_ticks (set_rollback t max_ticks r kind w)"
  using do_rollback_ok [of "(manager w, rollback_resource w)" t max_ticks r kind]
  by (simp add: world_ok_def set_rollback_def case_prod_beta)

lemma world_ok_metadata [simp]: "world_ok t max_ticks (w\<lparr>metadata := md\<rparr>) = world_ok t max_ticks w"
  by (simp add: world_ok_def)

lemma rollback_ok_checks [simp]:
  "rollback_ok t max_ticks (m\<lparr>pending_entity_state_checks := ps\<rparr>, res) = rollback_ok t max_ticks (m, res)"
  "is_rollback (m\<lparr>pending_entity_state_checks := ps\<rparr>) = is_rollback m"
  by (simp_all add: rollback_ok_def is_rollback_def split: rollback_state.splits)

lemma check_state_mismatch_ok:
  assumes "world_ok t max_ticks w"
  shows "world_ok t max_ticks (check_state_mismatch t max_ticks registry completed w)"
proof (cases "is_rollback (manager w) \<or> \<not> has_confirmed_tick_advanced (metadata w) completed \<or>
    t < completed")
  case True
  with assms show ?thesis by (auto simp: check_state_mismatch_def)
next
  case False
  obtain deferred checks where tt:
    "take_through completed (pending_entity_state_checks (manager w)) = (deferred, checks)"
    by fastforce
  let ?m = "(manager w)\<lparr>pending_entity_state_checks := checks\<rparr>"
  let ?w = "w\<lparr>manager := ?m\<rparr>"
  have w: "world_ok t max_ticks ?w" "\<not> is_rollback (manager ?w)"
    using assms False by (simp_all add: world_ok_def)
  then have set: "world_ok t max_ticks
      (set_rollback t max_ticks completed From_State (?w\<lparr>metadata := clear_mismatch_history (metadata ?w)\<rparr>))"
    by (intro set_rollback_ok) simp_all
  obtain es m resource where scan: "scan_entities completed (do_rollback t max_ticks completed From_State)
      (\<lambda>(m, _). is_rollback m) registry deferred (entities w) (?m, rollback_resource w) = (es, m, resource)"
    by (metis prod_cases3)
  have "rollback_ok t max_ticks (m, resource)"
    using scan_entities_inv [of "rollback_ok t max_ticks" "\<lambda>(m, _). is_rollback m"
        "do_rollback t max_ticks completed From_State" "(?m, rollback_resource w)" completed registry
        deferred "entities w"] w(1) scan
    by (auto simp: world_ok_def case_prod_beta intro: do_rollback_ok)
  with set scan False tt show ?thesis
    by (auto simp: check_state_mismatch_def Let_def world_ok_def split: option.splits)
qed

lemma decide_rollback_ok:
  assumes "\<not> is_rollback (manager w)" and "rollback_resource w = None"
  shows "world_ok t (effective_max_rollback_ticks (policy (manager w)) mpt)
    (snd (decide_rollback t mpt registry checkpoint awaiting_catchup lci w))"
proof -
  let ?max = "effective_max_rollback_ticks (policy (manager w)) mpt"
  let ?w0 = "w\<lparr>metadata := (metadata w)\<lparr>forced_rollback_tick := None\<rparr>\<rparr>"
  have ok: "world_ok t ?max ?w0" "\<not> is_rollback (manager ?w0)"
    using assms by (simp_all add: world_ok_def rollback_ok_def is_rollback_iff)
  note set = set_rollback_ok [OF ok(2,1)]
  have state: "world_ok t ?max (check_state_policy t ?max registry checkpoint received ?w0)" for received
    using ok(1) set check_state_mismatch_ok [OF ok(1)]
    by (auto simp: check_state_policy_def split: rollback_mode.splits option.splits)
  have input: "world_ok t ?max (check_input_policy t ?max lci u)" if "world_ok t ?max u"
    for u :: "('a, 'b) rollback_world"
    using that by (auto simp: check_input_policy_def split: rollback_mode.splits option.splits
        intro: set_rollback_ok)
  show ?thesis
    using ok(1) set input [OF state]
    by (simp add: decide_rollback_def Let_def split: option.splits)
qed

lemma despawn_after_rollback_state:
  assumes "despawn_after_rollback exists forced m = (despawned, disabled, enabled, m')"
  shows "rollback_state m' = rollback_state m" and "input_rollback_floor m' = input_rollback_floor m"
  using assms
  by (auto simp: despawn_after_rollback_def Let_def split: option.splits if_splits)

text \<open>
  C31: whatever the policy, the metadata, the entities and the inputs, a rollback that is decided
  goes back to a tick that is not in the future and at most the effective maximum away, and one
  that is driven by inputs never goes back beyond the floor of the session; the \<open>Rollback\<close> resource
  is present exactly when a rollback was decided.
\<close>

theorem rollback_stays_in_window:
  assumes "rollback_state (manager w) = Rollback_Default" and "rollback_resource w = None"
    and "check_rollback exists t mpt registry checkpoint awaiting_catchup lci w =
      (despawned, disabled, enabled, w')"
  shows "case get_rollback_start_tick (manager w') of
      None \<Rightarrow> rollback_resource w' = None
    | Some r \<Rightarrow> r \<le> t \<and>
        uint t - uint r \<le> uint (effective_max_rollback_ticks (policy (manager w)) mpt) \<and>
        (rollback_resource w' = Some From_State \<or>
         rollback_resource w' = Some From_Inputs \<and>
         (\<forall>floor. input_rollback_floor (manager w') = Some floor \<longrightarrow> floor \<le> r))"
proof -
  obtain forced w1 where w1: "decide_rollback t mpt registry checkpoint awaiting_catchup lci w = (forced, w1)"
    by fastforce
  have ok: "world_ok t (effective_max_rollback_ticks (policy (manager w)) mpt) w1"
    using decide_rollback_ok [of w t mpt registry checkpoint awaiting_catchup lci] assms(1,2) w1
    by (simp add: is_rollback_iff)
  obtain m where m: "despawn_after_rollback exists forced (manager w1) = (despawned, disabled, enabled, m)"
    "w' = w1\<lparr>manager := m\<rparr>"
    using assms(3) w1 by (auto simp: check_rollback_def split: prod.splits)
  show ?thesis
    using ok despawn_after_rollback_state [OF m(1)] m(2)
    by (auto simp: world_ok_def rollback_ok_def in_window_def get_rollback_start_tick_def
        input_rollback_is_allowed_def split: rollback_state.splits option.splits)
qed

definition window_example :: "(nat, int) rollback_world" where
  "window_example = \<lparr>manager = prediction_manager_default,
     metadata = metadata_default\<lparr>forced_rollback_tick := Some 8\<rparr>, rollback_resource = None,
     entities = []\<rparr>"

lemma window_example_run:
  "check_rollback (\<lambda>_. True) 10 7 [] None False last_confirmed_input_default window_example =
    ([], [], [], window_example\<lparr>manager := set_rollback_tick 8 prediction_manager_default,
       metadata := metadata_default, rollback_resource := Some From_State\<rparr>)"
  by (simp add: check_rollback_def decide_rollback_def window_example_def Let_def set_rollback_def
      do_rollback_cases in_window_def effective_max_rollback_ticks_def prediction_manager_default_def
      rollback_policy_default_def despawn_after_rollback_def get_rollback_start_tick_def
      metadata_default_def set_rollback_tick_def min_def)

theorem rollback_stays_in_window_witness:
  "case get_rollback_start_tick (set_rollback_tick 8 (prediction_manager_default :: nat prediction_manager)) of
      None \<Rightarrow> False
    | Some r \<Rightarrow> r \<le> (10 :: tick) \<and> uint (10 :: tick) - uint r \<le> 7"
  using rollback_stays_in_window [OF _ _ window_example_run]
  by (simp add: window_example_def prediction_manager_default_def rollback_policy_default_def
      get_rollback_start_tick_def set_rollback_tick_def effective_max_rollback_ticks_def min_def)

section \<open>A mismatch leads to a rollback\<close>

lemma write_history_mismatch:
  assumes "p_history c = Some h" and "policy_state pol = Check"
    and "should_check_mismatch_at md s" and "s \<le> cur"
    and "\<And>n. oldest_retained_tick h = Some n \<Longrightarrow> n \<le> s"
    and "should_rollback_check cmp (Some v) (hb_get h s)"
  shows "write_history_inner cmp s v False (Some pol) cur (md, c) =
    (False, md\<lparr>earliest_pending_mismatch_tick := Some s\<rparr>,
     c\<lparr>c_history := Some (ch_insert s (Updated v)
        (case c_history c of Some ch \<Rightarrow> ch | None \<Rightarrow> ch_default))\<rparr>)"
proof -
  have "\<not> (case oldest_retained_tick h of Some n \<Rightarrow> s < n | None \<Rightarrow> False)"
    using assms(5) by (auto split: option.splits)
  moreover have "record_mismatch s md = md\<lparr>earliest_pending_mismatch_tick := Some s\<rparr>"
    using assms(3) by (auto simp: record_mismatch_def should_check_mismatch_at_def
        split: option.splits if_splits)
  ultimately show ?thesis
    using assms
    by (simp add: write_history_inner_def add_resolved_confirmed_to_history_inner_def
        record_confirmed_and_maybe_check_def Let_def not_less)
qed

lemma pending_mismatch_rolls_back:
  assumes "earliest_pending_mismatch_tick (metadata w) = Some s" and "s \<le> completed"
    and "has_confirmed_tick_advanced (metadata w) completed"
    and "forced_rollback_tick (metadata w) = None"
    and "rollback_state (manager w) = Rollback_Default" and "policy_state (policy (manager w)) = Check"
    and "in_window t (effective_max_rollback_ticks (policy (manager w)) mpt) completed"
    and "check_rollback exists t mpt registry (Some completed) False lci w = (despawned, disabled, enabled, w')"
  shows "get_rollback_start_tick (manager w') = Some completed"
    and "rollback_resource w' = Some From_State"
    and "earliest_pending_mismatch_tick (metadata w') = None"
    and "last_processed_tick (metadata w') = Some completed"
proof -
  let ?max = "effective_max_rollback_ticks (policy (manager w)) mpt"
  let ?w0 = "w\<lparr>metadata := (metadata w)\<lparr>forced_rollback_tick := None\<rparr>\<rparr>"
  obtain deferred checks where tt:
    "take_through completed (pending_entity_state_checks (manager w)) = (deferred, checks)"
    by fastforce
  have le: "\<not> t < completed" using assms(7) by (simp add: in_window_def not_less)
  have adv: "has_confirmed_tick_advanced (metadata ?w0) completed"
    using assms(3) by (simp add: has_confirmed_tick_advanced_def)
  have pending: "pending_mismatch_at_or_before (metadata ?w0) completed = Some s"
    using assms(1,2) by (simp add: pending_mismatch_at_or_before_def)
  have "check_state_mismatch t ?max registry completed ?w0 =
      ?w0\<lparr>manager := set_rollback_tick completed ((manager w)\<lparr>pending_entity_state_checks := checks\<rparr>),
        rollback_resource := Some From_State,
        metadata := (metadata ?w0)\<lparr>earliest_pending_mismatch_tick := None,
          last_processed_tick := Some completed\<rparr>\<rparr>"
    using assms(5) adv pending le assms(7) tt
    by (simp add: check_state_mismatch_def set_rollback_def do_rollback_cases is_rollback_iff
        clear_mismatch_history_def set_last_processed_tick_def)
  then have "check_state_policy t ?max registry (Some completed) received ?w0 = \<dots>" for received
    using assms(6) by (simp add: check_state_policy_def)
  moreover have "check_input_policy t ?max lci u = u" if "is_rollback (manager u)"
    for u :: "('a, 'b) rollback_world"
    using that by (simp add: check_input_policy_def split: rollback_mode.splits)
  ultimately have "decide_rollback t mpt registry (Some completed) False lci w = (False,
      ?w0\<lparr>manager := set_rollback_tick completed ((manager w)\<lparr>pending_entity_state_checks := checks\<rparr>),
        rollback_resource := Some From_State,
        metadata := (metadata ?w0)\<lparr>earliest_pending_mismatch_tick := None,
          last_processed_tick := Some completed\<rparr>\<rparr>)"
    using assms(4) by (simp add: decide_rollback_def Let_def is_rollback_iff)
  with assms(8) obtain forced m where w': "w' = (snd (decide_rollback t mpt registry (Some completed) False lci w))\<lparr>manager := m\<rparr>"
      "despawn_after_rollback exists forced
        (set_rollback_tick completed ((manager w)\<lparr>pending_entity_state_checks := checks\<rparr>)) =
        (despawned, disabled, enabled, m)"
      "snd (decide_rollback t mpt registry (Some completed) False lci w) =
        ?w0\<lparr>manager := set_rollback_tick completed ((manager w)\<lparr>pending_entity_state_checks := checks\<rparr>),
        rollback_resource := Some From_State,
        metadata := (metadata ?w0)\<lparr>earliest_pending_mismatch_tick := None,
          last_processed_tick := Some completed\<rparr>\<rparr>"
    by (auto simp: check_rollback_def Let_def split: prod.splits)
  show "get_rollback_start_tick (manager w') = Some completed"
    using w'(1) despawn_after_rollback_state(1) [OF w'(2)] by (simp add: get_rollback_start_tick_def)
  show "rollback_resource w' = Some From_State" "earliest_pending_mismatch_tick (metadata w') = None"
    "last_processed_tick (metadata w') = Some completed"
    using w'(1,3) by simp_all
qed

lemma prepare_rollback_live:
  "p_history c = Some h \<Longrightarrow> live (prepare_rollback now corr kind r c) =
    (case restored_state kind r h c of None \<Rightarrow> live c | Some state \<Rightarrow> into_value state)"
  by (simp add: prepare_rollback_def apply_component_removal_predicted_def Let_def into_value_def
      split: option.splits history_state.splits)

lemma prepare_rollback_confirmed [simp]: "c_history (prepare_rollback now corr kind r c) = c_history c"
  by (simp add: prepare_rollback_def apply_component_removal_predicted_def Let_def split: option.split history_state.split)

text \<open>The history after the preparation, without the entry of the observer.\<close>

definition prepared_history :: "rollback \<Rightarrow> tick \<Rightarrow> 'c history_buffer \<Rightarrow> 'c predicted_component \<Rightarrow> 'c history_buffer" where
  "prepared_history kind r h c =
     (case restored_state kind r h c of
        Some state \<Rightarrow> add_state r state (clear_after_tick r h)
      | None \<Rightarrow> (case live c of
          Some v \<Rightarrow> add_state r (Updated v) (clear_after_tick r h) | None \<Rightarrow> clear_after_tick r h))"

lemma prepare_rollback_history:
  "p_history c = Some h \<Longrightarrow> p_history (prepare_rollback now corr kind r c) =
    Some (if restored_state kind r h c = Some Removed \<and> live c \<noteq> None
      then hb_add now None (prepared_history kind r h c) else prepared_history kind r h c)"
  by (auto simp: prepare_rollback_def prepared_history_def apply_component_removal_predicted_def add_predicted_def Let_def
      split: option.splits history_state.splits)

text \<open>
  A recorded mismatch waits: the frames and the receptions that may come before the completed tick
  reaches the tick \<open>s\<close> of the mismatch. No rollback is decided in these frames, and their completed
  ticks are in the rollback window; further mismatches may be recorded, and the other systems may
  change the entities and the manager, though not the policy.
\<close>

inductive waiting :: "tick \<Rightarrow> ('e, 'c) rollback_world \<Rightarrow> ('e, 'c) rollback_world \<Rightarrow> bool" for s w0 where
  waiting_start: "waiting s w0 w0"
| waiting_frame: "waiting s w0 w \<Longrightarrow>
    check_rollback exists t mpt registry checkpoint awaiting_catchup lci w = (despawned, disabled, enabled, w1) \<Longrightarrow>
    rollback_state (manager w1) = Rollback_Default \<Longrightarrow>
    (\<And>c. checkpoint = Some c \<Longrightarrow> c < s \<and> in_window t (effective_max_rollback_ticks (policy (manager w)) mpt) c) \<Longrightarrow>
    waiting s w0 w1"
| waiting_mismatch: "waiting s w0 w \<Longrightarrow> waiting s w0 (w\<lparr>metadata := record_mismatch u (metadata w)\<rparr>)"
| waiting_systems: "waiting s w0 w \<Longrightarrow> policy m = policy (manager w) \<Longrightarrow> rollback_state m = Rollback_Default \<Longrightarrow>
    waiting s w0 (w\<lparr>manager := m, entities := es, metadata := check_received_replication_messages received (metadata w)\<rparr>)"

lemma set_rollback_frame [simp]: "metadata (set_rollback t max_ticks r kind w) = metadata w"
  by (simp add: set_rollback_def Let_def split: prod.split)

lemma set_rollback_policy [simp]: "policy (manager (set_rollback t max_ticks r kind w)) = policy (manager w)"
  using do_rollback_policy [of t max_ticks r kind "(manager w, rollback_resource w)"]
  by (auto simp: set_rollback_def Let_def split: prod.split)

lemma check_input_policy_frame [simp]:
  "metadata (check_input_policy t max_ticks lci w) = metadata w"
  "policy (manager (check_input_policy t max_ticks lci w)) = policy (manager w)"
  "is_rollback (manager w) \<Longrightarrow> check_input_policy t max_ticks lci w = w"
  by (simp_all add: check_input_policy_def split: rollback_mode.split option.split)

lemma in_window_rolls_back:
  "in_window t max_ticks r \<Longrightarrow> is_rollback (manager (set_rollback t max_ticks r From_State w))"
  using tick_sub_window [of t r] by (simp add: set_rollback_def do_rollback_cases in_window_def is_rollback_iff set_rollback_tick_def)

lemma check_state_mismatch_quiet:
  assumes "\<not> is_rollback (manager (check_state_mismatch t max_ticks registry c w))" and "in_window t max_ticks c"
  shows "earliest_pending_mismatch_tick (metadata (check_state_mismatch t max_ticks registry c w)) =
      earliest_pending_mismatch_tick (metadata w) \<and>
    policy (manager (check_state_mismatch t max_ticks registry c w)) = policy (manager w) \<and>
    last_processed_tick (metadata (check_state_mismatch t max_ticks registry c w)) \<in>
      {last_processed_tick (metadata w), Some c}"
proof (cases "is_rollback (manager w) \<or> \<not> has_confirmed_tick_advanced (metadata w) c \<or> t < c")
  case True
  then show ?thesis by (auto simp: check_state_mismatch_def)
next
  case False
  obtain deferred checks where tt: "take_through c (pending_entity_state_checks (manager w)) = (deferred, checks)"
    by fastforce
  let ?w = "w\<lparr>manager := (manager w)\<lparr>pending_entity_state_checks := checks\<rparr>\<rparr>"
  show ?thesis
  proof (cases "pending_mismatch_at_or_before (metadata w) c")
    case (Some s)
    then have "check_state_mismatch t max_ticks registry c w =
        (let u = set_rollback t max_ticks c From_State (?w\<lparr>metadata := clear_mismatch_history (metadata w)\<rparr>);
             u = u\<lparr>metadata := set_last_processed_tick c (metadata u)\<rparr>
         in if is_rollback (manager u) then u\<lparr>metadata := clear_mismatch_history (metadata u)\<rparr> else u)"
      using False tt by (simp add: check_state_mismatch_def)
    then have "is_rollback (manager (check_state_mismatch t max_ticks registry c w))"
      using in_window_rolls_back [OF assms(2)] by (simp add: Let_def)
    with assms(1) show ?thesis by blast
  next
    case None
    let ?scan = "scan_entities c (do_rollback t max_ticks c From_State) (\<lambda>(m, _). is_rollback m) registry deferred
      (entities w) (manager ?w, rollback_resource w)"
    obtain es m resource where scan: "?scan = (es, m, resource)"
      by (cases ?scan) auto
    have "policy (fst (snd ?scan)) = policy (manager w)"
      by (rule scan_entities_inv [where P = "\<lambda>mr. policy (fst mr) = policy (manager w)"])
        (simp_all add: do_rollback_policy)
    then show ?thesis
      using assms(1) False tt None scan
      by (simp add: check_state_mismatch_def Let_def set_last_processed_tick_def split: if_splits)
  qed
qed

lemma frame_keeps_mismatch:
  assumes run: "check_rollback exists t mpt registry checkpoint awaiting_catchup lci w = (despawned, disabled, enabled, w1)"
    and quiet: "rollback_state (manager w1) = Rollback_Default" and check: "policy_state (policy (manager w)) = Check"
    and window: "\<And>c. checkpoint = Some c \<Longrightarrow> in_window t (effective_max_rollback_ticks (policy (manager w)) mpt) c"
  shows "earliest_pending_mismatch_tick (metadata w1) = earliest_pending_mismatch_tick (metadata w) \<and>
    policy (manager w1) = policy (manager w) \<and>
    last_processed_tick (metadata w1) \<in> {last_processed_tick (metadata w), checkpoint}"
proof -
  let ?max = "effective_max_rollback_ticks (policy (manager w)) mpt"
  let ?w0 = "w\<lparr>metadata := (metadata w)\<lparr>forced_rollback_tick := None\<rparr>\<rparr>"
  let ?received = "received_messages_this_frame (metadata w)"
  obtain forced u where decide: "decide_rollback t mpt registry checkpoint awaiting_catchup lci w = (forced, u)"
    by fastforce
  obtain m where m: "despawn_after_rollback exists forced (manager u) = (despawned, disabled, enabled, m)" "w1 = u\<lparr>manager := m\<rparr>"
    using run decide by (auto simp: check_rollback_def split: prod.splits)
  have same: "policy m = policy (manager u)" "metadata w1 = metadata u"
    using m by (auto simp: despawn_after_rollback_def Let_def split: option.splits if_splits)
  have u: "\<not> is_rollback (manager u)"
    using quiet m despawn_after_rollback_state(1) [OF m(1)] by (simp add: is_rollback_iff)
  have "earliest_pending_mismatch_tick (metadata u) = earliest_pending_mismatch_tick (metadata w) \<and>
    policy (manager u) = policy (manager w) \<and>
    last_processed_tick (metadata u) \<in> {last_processed_tick (metadata w), checkpoint}"
  proof (cases "forced_rollback_tick (metadata w) \<noteq> None \<or> awaiting_catchup")
    case True
    then show ?thesis
      using decide by (auto simp: decide_rollback_def Let_def split: option.splits if_splits)
  next
    case False
    let ?u = "check_state_policy t ?max registry checkpoint ?received ?w0"
    have dec: "u = check_input_policy t ?max lci ?u"
      using decide False by (auto simp: decide_rollback_def Let_def)
    then have not_rb: "\<not> is_rollback (manager ?u)"
      using u by auto
    show ?thesis
    proof (cases checkpoint)
      case None
      then show ?thesis
        using dec check by (simp add: check_state_policy_def)
    next
      case (Some c)
      then have "?u = check_state_mismatch t ?max registry c ?w0"
        using check by (simp add: check_state_policy_def)
      then show ?thesis
        using check_state_mismatch_quiet [OF _ window [OF Some], of registry ?w0] not_rb dec Some by simp
    qed
  qed
  then show ?thesis
    using m same by simp
qed

lemma waiting_keeps_mismatch:
  assumes "waiting s w0 w" and "earliest_pending_mismatch_tick (metadata w0) = Some s" and "rollback_state (manager w0) = Rollback_Default"
    and "policy_state (policy (manager w0)) = Check" and "has_confirmed_tick_advanced (metadata w0) completed" and "s \<le> completed"
  shows "rollback_state (manager w) = Rollback_Default \<and> policy (manager w) = policy (manager w0) \<and>
    (\<exists>s' \<le> s. earliest_pending_mismatch_tick (metadata w) = Some s') \<and> has_confirmed_tick_advanced (metadata w) completed"
  using assms(1)
proof induction
  case waiting_start
  show ?case using assms(2,3,5) by auto
next
  case (waiting_frame w t mpt registry checkpoint awaiting_catchup exists lci despawned disabled enabled w1)
  have "policy_state (policy (manager w)) = Check"
    using waiting_frame.IH assms(4) by simp
  note kept = frame_keeps_mismatch [OF waiting_frame.hyps(2,3) this waiting_frame.hyps(4) [THEN conjunct2]]
  have "has_confirmed_tick_advanced (metadata w1) completed"
    using kept waiting_frame.IH waiting_frame.hyps(4) assms(6)
    by (auto simp: has_confirmed_tick_advanced_def split: option.splits)
  then show ?case
    using kept waiting_frame by auto
next
  case (waiting_mismatch w u)
  then show ?case
    by (auto simp: record_mismatch_def has_confirmed_tick_advanced_def)
next
  case (waiting_systems w m es received)
  then show ?case
    by (auto simp: check_received_replication_messages_def reset_frame_state_def has_confirmed_tick_advanced_def Let_def)
qed

text \<open>
  C30: a mismatch is rolled back. A confirmed value arrives for a tick that the client has
  predicted, still retains and predicted differently, before any mismatch of the same or an earlier
  tick. Then frames may pass whose completed ticks are before that tick and in the rollback window,
  and other mismatches may be recorded, as long as none of these frames rolls back: a rollback in
  between would forget all recorded mismatches. In the first frame in which the server's
  completed tick has reached the tick, and this completed tick is new and in the rollback window, with no
  forced rollback requested and no catch-up awaited, a rollback to the
  completed tick is decided, the mismatch is forgotten and the tick is marked as processed; and
  when nothing newer was confirmed for the component up to that tick, the preparation puts the confirmed value into
  the component and into its history at the rollback tick, whatever was predicted in the meantime.
\<close>

theorem mismatch_is_rolled_back:
  assumes "p_history c = Some h" and "policy_state pol = Check"
    and "should_check_mismatch_at md s" and "s \<le> cur"
    and "\<And>n. oldest_retained_tick h = Some n \<Longrightarrow> n \<le> s"
    and "should_rollback_check cmp (Some v) (hb_get h s)"
    and "write_history_inner cmp s v False (Some pol) cur (md, c) = (deferred, md', c')"
    and "metadata w0 = md'" and "policy (manager w0) = pol" and "rollback_state (manager w0) = Rollback_Default"
    and "waiting s w0 w" and "forced_rollback_tick (metadata w) = None"
    and "s \<le> completed" and "has_confirmed_tick_advanced md completed"
    and "in_window t (effective_max_rollback_ticks pol mpt) completed"
    and "check_rollback exists t mpt registry (Some completed) False lci w = (despawned, disabled, enabled, w')"
    and "\<And>ch. c_history c = Some ch \<Longrightarrow>
      ch_wf ch \<and> (\<forall>e \<in> set (ch_buffer ch). fst e \<le> s \<or> completed < fst e)"
    and "c_history d = c_history c'" and "p_history d = Some h2" and "hb_ordered h2"
  shows "get_rollback_start_tick (manager w') = Some completed \<and>
    rollback_resource w' = Some From_State \<and>
    earliest_pending_mismatch_tick (metadata w') = None \<and>
    last_processed_tick (metadata w') = Some completed \<and>
    live (prepare_rollback t corr From_State completed d) = Some v \<and>
    (\<exists>h'. p_history (prepare_rollback t corr From_State completed d) = Some h' \<and>
      hb_get h' completed = Some v)"
proof -
  let ?ch = "case c_history c of Some ch \<Rightarrow> ch | None \<Rightarrow> ch_default"
  have wr: "md' = md\<lparr>earliest_pending_mismatch_tick := Some s\<rparr>"
    "c_history c' = Some (ch_insert s (Updated v) ?ch)"
    using write_history_mismatch [OF assms(1,2,3,4) assms(5) assms(6)] assms(7) by auto
  have ch: "ch_wf ?ch" "\<forall>e \<in> set (ch_buffer ?ch). fst e \<le> s \<or> completed < fst e"
    using assms(17) by (auto simp: ch_default_def ch_wf_def split: option.splits)
  have "newest_entry (explicits (entries_after s ?ch)) completed = None"
  proof (rule newest_entry_None)
    fix e assume "e \<in> set (explicits (entries_after s ?ch))"
    then obtain e' where "e' \<in> set (ch_buffer ?ch)" "s < fst e'" "fst e = fst e'"
      using fst_explicits by fastforce
    with ch(2) show "completed < fst e" by (metis not_le)
  qed
  then have "get_state_at_or_before (ch_insert s (Updated v) ?ch) completed = Some (Updated v)"
    using assms(13) by (simp add: ch_insert_lookup [OF ch(1)])
  then have restore: "restored_state From_State completed h2 d = Some (Updated v)"
    using wr(2) assms(18) by (simp add: restored_state_def)
  note after = clear_after_ordered [OF assms(20), of completed]
  have "hb_get_state (add_state completed (Updated v) (clear_after_tick completed h2)) completed = Some (Updated v)"
    using add_state_ordered(2) [OF after(2), of completed "Updated v" completed] after(3) by auto
  then have "\<exists>h'. p_history (prepare_rollback t corr From_State completed d) = Some h' \<and> hb_get h' completed = Some v"
    using prepare_rollback_history [OF assms(19), of t corr From_State completed] restore
    by (simp add: prepared_history_def hb_get_get_state into_value_def)
  moreover have "live (prepare_rollback t corr From_State completed d) = Some v"
    using prepare_rollback_live [OF assms(19), of t corr From_State completed] restore by (simp add: into_value_def)
  moreover have "has_confirmed_tick_advanced (metadata w0) completed"
    using assms(8,14) wr(1) by (simp add: has_confirmed_tick_advanced_def)
  then obtain s' where "rollback_state (manager w) = Rollback_Default" "policy (manager w) = pol" "s' \<le> s"
    "earliest_pending_mismatch_tick (metadata w) = Some s'" "has_confirmed_tick_advanced (metadata w) completed"
    using waiting_keeps_mismatch [OF assms(11), of completed] assms(2,8,9,10,13) wr(1) by auto
  ultimately show ?thesis
    using pending_mismatch_rolls_back [of w s' completed t mpt, OF _ _ _ assms(12) _ _ _ assms(16)] assms(2,13,15)
    by (meson order_trans)
qed

definition mismatch_component :: "int predicted_component" where
  "mismatch_component = \<lparr>live = Some 7, p_history = Some \<lparr>hb_buffer = [(3, Updated 7)]\<rparr>,
     c_history = None, previous_visual = None\<rparr>"

definition mismatch_world :: "(nat, int) rollback_world" where
  "mismatch_world = \<lparr>manager = prediction_manager_default,
     metadata = metadata_default\<lparr>earliest_pending_mismatch_tick := Some 5\<rparr>, rollback_resource = None,
     entities = []\<rparr>"

lemma mismatch_example_write:
  "write_history_inner (\<noteq>) 5 8 False (Some rollback_policy_default) 9 (metadata_default, mismatch_component) =
    (False, metadata mismatch_world,
     mismatch_component\<lparr>c_history := Some (ch_insert 5 (Updated 8) ch_default)\<rparr>)"
  by (subst write_history_mismatch [of _ "\<lparr>hb_buffer = [(3, Updated 7)]\<rparr>"])
    (simp_all add: mismatch_component_def mismatch_world_def rollback_policy_default_def metadata_default_def
      should_check_mismatch_at_def oldest_retained_tick_def oldest_def get_index_def hb_get_def
      partition_point_def should_rollback_check_def into_value_def)

text \<open>In the example a frame passes with the completed tick 4, before the mismatch at tick 5 is reached.\<close>

lemma mismatch_example_waiting:
  "waiting 5 mismatch_world (mismatch_world\<lparr>metadata := (metadata mismatch_world)\<lparr>last_processed_tick := Some 4\<rparr>\<rparr>)"
proof (rule waiting_frame [OF waiting_start])
  show "check_rollback (\<lambda>_. True) 8 0 [] (Some 4) False last_confirmed_input_default mismatch_world =
      ([], [], [], mismatch_world\<lparr>metadata := (metadata mismatch_world)\<lparr>last_processed_tick := Some 4\<rparr>\<rparr>)"
    by code_simp
qed (simp_all add: mismatch_world_def prediction_manager_default_def rollback_policy_default_def in_window_def
    effective_max_rollback_ticks_def)

theorem mismatch_is_rolled_back_witness:
  "get_rollback_start_tick (manager (snd (snd (snd (check_rollback (\<lambda>_. True) 9 0 [] (Some 6) False
      last_confirmed_input_default
      (mismatch_world\<lparr>metadata := (metadata mismatch_world)\<lparr>last_processed_tick := Some 4\<rparr>\<rparr>)))))) = Some 6 \<and>
   live (prepare_rollback 9 False From_State 6
      (mismatch_component\<lparr>c_history := Some (ch_insert 5 (Updated 8) ch_default)\<rparr>)) = Some 8"
proof -
  let ?w = "mismatch_world\<lparr>metadata := (metadata mismatch_world)\<lparr>last_processed_tick := Some 4\<rparr>\<rparr>"
  let ?r = "check_rollback (\<lambda>_. True) 9 0 [] (Some 6) False last_confirmed_input_default ?w"
  let ?h = "\<lparr>hb_buffer = [(3, Updated (7 :: int))]\<rparr>"
  have r: "?r = (fst ?r, fst (snd ?r), fst (snd (snd ?r)), snd (snd (snd ?r)))"
    by simp
  have "forced_rollback_tick (metadata ?w) = None"
    by (simp add: mismatch_world_def metadata_default_def)
  from mismatch_is_rolled_back [OF _ _ _ _ _ _ mismatch_example_write refl _ _ mismatch_example_waiting this _ _ _ r,
      of ?h "mismatch_component\<lparr>c_history := Some (ch_insert 5 (Updated 8) ch_default)\<rparr>" ?h]
  show ?thesis
    by (simp add: mismatch_component_def mismatch_world_def rollback_policy_default_def metadata_default_def
      should_check_mismatch_at_def oldest_retained_tick_def oldest_def get_index_def hb_get_def
      partition_point_def should_rollback_check_def into_value_def hb_ordered_def
      prediction_manager_default_def has_confirmed_tick_advanced_def in_window_def
      effective_max_rollback_ticks_def)
qed

section \<open>The replay\<close>

text \<open>
  One replayed tick of a component: the confirmed value of the tick is taken over when the entity is
  predicted (components registered for local rollback only are not), the application computes the
  next value (or removes the component), a removal is recorded by the observer, a change by the
  history system. \<open>touched\<close> says where the application wrote the component without changing its value.
\<close>

definition simulate_component ::
  "bool \<Rightarrow> (tick \<Rightarrow> 'c option \<Rightarrow> 'c option) \<Rightarrow> (tick \<Rightarrow> bool) \<Rightarrow> u16 \<Rightarrow> tick \<Rightarrow>
   'c predicted_component \<Rightarrow> 'c predicted_component" where
  "simulate_component predicted f touched max_ticks t c =
     (let before = live c;
          c = (if predicted then snap_to_confirmed_during_rollback t c else c);
          new = f t (live c);
          removed = (live c \<noteq> None \<and> new = None);
          changed = (touched t \<or> live c \<noteq> before \<or> new \<noteq> live c);
          c = c\<lparr>live := new\<rparr>;
          c = (if removed then apply_component_removal_predicted t c else c)
      in update_prediction_history max_ticks t changed c)"

text \<open>The reference: the confirmed value of a tick, when there is one, goes before the simulated one.\<close>

definition confirmed_or :: "bool \<Rightarrow> 'c confirmed_history option \<Rightarrow> tick \<Rightarrow> 'c option \<Rightarrow> 'c option" where
  "confirmed_or predicted ch t v =
     (if predicted
      then case Option.bind ch (\<lambda>hist. get_state_at hist t) of Some s \<Rightarrow> into_value s | None \<Rightarrow> v
      else v)"

text \<open>The reference: the value that the simulation reaches from a value after some ticks.\<close>

primrec simulated :: "(tick \<Rightarrow> 'c option \<Rightarrow> 'c option) \<Rightarrow> tick \<Rightarrow> 'c option \<Rightarrow> nat \<Rightarrow> 'c option" where
  "simulated f r v 0 = v"
| "simulated f r v (Suc k) = f (r + of_nat (Suc k)) (simulated f r v k)"

text \<open>The step of the reference: the confirmed state of a tick is the input of its simulation.\<close>

definition replayed ::
  "bool \<Rightarrow> (tick \<Rightarrow> 'c option \<Rightarrow> 'c option) \<Rightarrow> 'c confirmed_history option \<Rightarrow> tick \<Rightarrow> 'c option \<Rightarrow> 'c option"
where
  "replayed predicted f ch t v = f t (confirmed_or predicted ch t v)"

lemma hb_get_beyond_newest:
  assumes "hb_ordered h" and "\<And>n. hb_newest h = Some n \<Longrightarrow> n \<le> a" and "a \<le> b"
  shows "hb_get h b = hb_get h a"
proof -
  have "\<forall>e \<in> set (hb_buffer h). fst e \<le> a" by (rule hb_newest_bound [OF assms(1,2)])
  then have "filter (\<lambda>e. fst e \<le> a) (hb_buffer h) = hb_buffer h"
    "filter (\<lambda>e. fst e \<le> b) (hb_buffer h) = hb_buffer h"
    using assms(3) by (auto simp: filter_id_conv intro: order_trans)
  then show ?thesis
    using assms(1) by (simp add: hb_get_get_state hb_get_state_ordered hb_ordered_def at_or_before_def)
qed

lemma hb_add_ordered:
  assumes "hb_ordered h" and "\<And>n. hb_newest h = Some n \<Longrightarrow> n \<le> t"
  shows "hb_ordered (hb_add t v h)" and "hb_newest (hb_add t v h) = Some t"
    and "hb_get (hb_add t v h) u = (if t \<le> u then v else hb_get h u)"
  using add_state_ordered [OF assms] history.newest_record [OF assms]
  by (auto simp: hb_add_def hb_get_get_state into_value_def split: option.splits)

lemma hb_clear_until_get:
  "hb_ordered h \<Longrightarrow> t \<le> u \<Longrightarrow> hb_get (hb_clear_until_tick t h) u = hb_get h u"
  by (simp add: hb_get_get_state clear_until_ordered)

lemma snap_step:
  assumes "p_history c = Some h" and "hb_ordered h"
    and "\<And>n. hb_newest h = Some n \<Longrightarrow> n \<le> t" and "hb_get h t = live c"
  shows "\<exists>h'. p_history (if predicted then snap_to_confirmed_during_rollback t c else c) = Some h' \<and>
    live (if predicted then snap_to_confirmed_during_rollback t c else c) =
      confirmed_or predicted (c_history c) t (live c) \<and>
    hb_ordered h' \<and> (\<forall>n. hb_newest h' = Some n \<longrightarrow> n \<le> t) \<and>
    (confirmed_or predicted (c_history c) t (live c) \<in> {None, live c} \<longrightarrow>
      hb_get h' t = confirmed_or predicted (c_history c) t (live c)) \<and>
    (\<forall>u < t. hb_get h' u = hb_get h u)"
proof -
  note add = hb_add_ordered [OF assms(2,3), where v = None]
  note defs = snap_to_confirmed_during_rollback_def confirmed_or_def into_value_def
    apply_component_removal_predicted_def add_predicted_def
  consider "predicted" "Option.bind (c_history c) (\<lambda>hist. get_state_at hist t) = Some Removed" "live c \<noteq> None"
    | "predicted" "Option.bind (c_history c) (\<lambda>hist. get_state_at hist t) = Some Removed" "live c = None"
    | v where "predicted" "Option.bind (c_history c) (\<lambda>hist. get_state_at hist t) = Some (Updated v)"
    | "\<not> predicted \<or> Option.bind (c_history c) (\<lambda>hist. get_state_at hist t) = None"
    by (metis history_state.exhaust not_None_eq)
  then show ?thesis
  proof cases
    case 1
    show ?thesis by (rule exI [of _ "hb_add t None h"]) (use 1 assms add in \<open>auto simp: defs\<close>)
  next
    case 2
    show ?thesis by (rule exI [of _ h]) (use 2 assms in \<open>auto simp: defs\<close>)
  next
    case 3
    show ?thesis by (rule exI [of _ h]) (use 3 assms in \<open>auto simp: defs\<close>)
  next
    case 4
    show ?thesis by (rule exI [of _ h]) (use 4 assms in \<open>auto simp: defs\<close>)
  qed
qed

lemma c_history_removal [simp]: "c_history (apply_component_removal_predicted t c) = c_history c"
  by (simp add: apply_component_removal_predicted_def)

lemma c_history_update [simp]: "c_history (update_prediction_history max_ticks t changed c) = c_history c"
  by (simp add: update_prediction_history_def Let_def split: option.split)

lemma c_history_snap [simp]: "c_history (snap_to_confirmed_during_rollback t c) = c_history c"
  by (simp add: snap_to_confirmed_during_rollback_def split: option.split history_state.split)

lemma c_history_simulate_component [simp]:
  "c_history (simulate_component predicted f touched max_ticks t c) = c_history c"
  by (simp add: simulate_component_def Let_def)

lemma tick_sub_u32_le: "tick_sub_u32 t d \<le> t"
  by (auto simp: tick_sub_u32_def word_sub_le)

lemma simulate_step:
  assumes "p_history c = Some h" and "hb_ordered h"
    and newest: "\<And>n. hb_newest h = Some n \<Longrightarrow> n \<le> t" and stay: "hb_get h t = live c"
    and new: "new = f t (confirmed_or predicted (c_history c) t (live c))"
  obtains h' where "p_history (simulate_component predicted f touched max_ticks t c) = Some h'"
    and "live (simulate_component predicted f touched max_ticks t c) = new"
    and "hb_ordered h'" and "\<And>n. hb_newest h' = Some n \<Longrightarrow> n \<le> t"
    and "hb_get h' t = new"
    and "\<And>u. tick_sub_u32 t (ucast max_ticks) \<le> u \<Longrightarrow> u < t \<Longrightarrow> hb_get h' u = hb_get h u"
proof -
  let ?o = "tick_sub_u32 t (ucast max_ticks)"
  let ?c = "if predicted then snap_to_confirmed_during_rollback t c else c"
  let ?v = "confirmed_or predicted (c_history c) t (live c)"
  note o = tick_sub_u32_le [of t "ucast max_ticks"]
  obtain h1 where h1: "p_history ?c = Some h1" "live ?c = ?v" "hb_ordered h1"
    "\<And>n. hb_newest h1 = Some n \<Longrightarrow> n \<le> t" "?v \<in> {None, live c} \<Longrightarrow> hb_get h1 t = ?v"
    "\<And>u. u < t \<Longrightarrow> hb_get h1 u = hb_get h u"
    using snap_step [OF assms(1,2) _ stay, of predicted] newest by auto
  note add = hb_add_ordered [OF h1(3,4)]
  have prune: "hb_ordered (hb_clear_until_tick ?o g)"
      "\<And>n. hb_newest (hb_clear_until_tick ?o g) = Some n \<Longrightarrow> n \<le> t"
      "\<And>u. ?o \<le> u \<Longrightarrow> hb_get (hb_clear_until_tick ?o g) u = hb_get g u"
    if "hb_ordered g" "\<And>n. hb_newest g = Some n \<Longrightarrow> n \<le> t" for g :: "'a history_buffer"
    using clear_until_ordered(1,2) [OF that(1), of ?o] hb_clear_until_get [OF that(1)] that(2) o
    by blast+
  have step: "simulate_component predicted f touched max_ticks t c =
      update_prediction_history max_ticks t (touched t \<or> ?v \<noteq> live c \<or> new \<noteq> ?v)
        (if ?v \<noteq> None \<and> new = None then apply_component_removal_predicted t (?c\<lparr>live := new\<rparr>)
         else ?c\<lparr>live := new\<rparr>)"
    using h1(2) new by (simp add: simulate_component_def Let_def)
  note defs = step update_prediction_history_def add_predicted_def apply_component_removal_predicted_def
  consider v where "new = Some v" "touched t \<or> ?v \<noteq> live c \<or> new \<noteq> ?v"
    | v where "new = Some v" "?v = Some v" "live c = Some v" "\<not> touched t"
    | "new = None" "?v \<noteq> None"
    | "new = None" "?v = None"
    by (metis not_None_eq)
  then show thesis
  proof cases
    case (1 v)
    show thesis
      by (rule that [of "hb_clear_until_tick ?o (hb_add t (Some v) h1)"])
        (use 1 h1 o prune [OF add(1), of "Some v"] add in \<open>auto simp: defs Let_def\<close>)
  next
    case (2 v)
    show thesis
      by (rule that [of "hb_clear_until_tick ?o h1"])
        (use 2 h1 o prune [OF h1(3,4)] in \<open>auto simp: defs Let_def\<close>)
  next
    case 3
    show thesis
      by (rule that [of "hb_add t None h1"]) (use 3 h1 add in \<open>auto simp: defs Let_def\<close>)
  next
    case 4
    show thesis
      by (rule that [of h1]) (use 4 h1 in \<open>auto simp: defs Let_def\<close>)
  qed
qed

lemma unat_add_of_nat: "unat (r + of_nat k) = unat r + k" if "unat r + k \<le> unat cur" for r cur :: tick
proof -
  have "unat r + k < 2 ^ 32"
    using that unsigned_less [of cur, where ?'a = nat] by simp
  then show ?thesis
    by (simp add: unat_word_ariths unat_of_nat)
qed

lemma tick_sub_saturates: "uint (tick_sub_u32 a b) = max 0 (uint a - uint b)"
proof -
  have "(uint a - uint b) mod 2 ^ 32 = uint a - uint b" if "uint b \<le> uint a"
  proof (rule mod_pos_pos_trivial)
    have "uint b \<le> uint a" "uint a < 2 ^ 32" "0 \<le> uint b"
      using that uint_lt2p [of a] by (simp_all add: word_le_def)
    then show "uint a - uint b < 2 ^ 32" "0 \<le> uint a - uint b"
      by linarith+
  qed
  then show ?thesis
    by (auto simp: tick_sub_u32_def uint_word_ariths word_less_def not_less)
qed

lemma fixed_main_step:
  "fixed_main simulate (t, w) = (increment_local_tick t, simulate (increment_local_tick t) w)"
  by (simp add: fixed_main_def Let_def)

lemma replay_steps:
  assumes "p_history c = Some h" and "hb_ordered h"
    and "\<And>n. hb_newest h = Some n \<Longrightarrow> n \<le> r" and "hb_get h r = live c"
    and "unat r + n \<le> unat cur" and "unat cur \<le> unat r + unat max_ticks"
  shows "\<exists>h'. (fixed_main (simulate_component predicted f touched max_ticks) ^^ n) (r, c) =
        (r + of_nat n, snd ((fixed_main (simulate_component predicted f touched max_ticks) ^^ n) (r, c))) \<and>
      p_history (snd ((fixed_main (simulate_component predicted f touched max_ticks) ^^ n) (r, c))) = Some h' \<and>
      live (snd ((fixed_main (simulate_component predicted f touched max_ticks) ^^ n) (r, c))) =
        simulated (replayed predicted f (c_history c)) r (live c) n \<and>
      c_history (snd ((fixed_main (simulate_component predicted f touched max_ticks) ^^ n) (r, c))) = c_history c \<and>
      hb_ordered h' \<and> (\<forall>m. hb_newest h' = Some m \<longrightarrow> m \<le> r + of_nat n) \<and>
      (\<forall>k \<le> n. hb_get h' (r + of_nat k) = simulated (replayed predicted f (c_history c)) r (live c) k) \<and>
      (\<forall>u < r. tick_sub_u32 cur (ucast max_ticks) \<le> u \<longrightarrow> hb_get h' u = hb_get h u)"
  using assms(5)
proof (induction n)
  case 0
  show ?case using assms by auto
next
  case (Suc n)
  let ?sim = "simulate_component predicted f touched max_ticks"
  let ?s = "(fixed_main ?sim ^^ n) (r, c)"
  obtain h' where IH: "?s = (r + of_nat n, snd ?s)" "p_history (snd ?s) = Some h'"
    "live (snd ?s) = simulated (replayed predicted f (c_history c)) r (live c) n" "hb_ordered h'"
    "c_history (snd ?s) = c_history c"
    "\<And>m. hb_newest h' = Some m \<Longrightarrow> m \<le> r + of_nat n"
    "\<And>k. k \<le> n \<Longrightarrow> hb_get h' (r + of_nat k) = simulated (replayed predicted f (c_history c)) r (live c) k"
    "\<And>u. u < r \<Longrightarrow> tick_sub_u32 cur (ucast max_ticks) \<le> u \<Longrightarrow> hb_get h' u = hb_get h u"
    using Suc.IH Suc.prems by auto
  let ?t = "r + of_nat (Suc n)"
  have un: "unat (r + of_nat k) = unat r + k" if "k \<le> Suc n" for k
    using unat_add_of_nat [of r k cur] that Suc.prems by simp
  have less: "r + of_nat n < ?t"
    using un [of n] un [of "Suc n"] by (simp add: word_less_nat_alt)
  have inc: "increment_local_tick (r + of_nat n) = ?t"
  proof -
    have "unat (r + of_nat n) + 1 < 4294967296"
      using un [of n] Suc.prems unsigned_less [of cur, where ?'a = nat] by simp
    then have lt: "uint (r + of_nat n) + uint (1 :: tick) < 4294967296"
      using uint_nat [of "r + of_nat n"] uint_1 [where ?'a = 32] by linarith
    have "increment_local_tick (r + of_nat n) = r + of_nat n + 1"
      using lt by (simp add: increment_local_tick_def tick_add_assign_def saturating_add_u32_def)
    then show ?thesis
      by (simp add: ac_simps)
  qed
  have "(fixed_main ?sim ^^ Suc n) (r, c) = fixed_main ?sim ?s"
    by simp
  also have "\<dots> = fixed_main ?sim (r + of_nat n, snd ?s)"
    by (rule arg_cong [OF IH(1)])
  also have "\<dots> = (?t, ?sim ?t (snd ?s))"
    by (simp only: fixed_main_step inc)
  finally have step: "(fixed_main ?sim ^^ Suc n) (r, c) = (?t, ?sim ?t (snd ?s))" .
  have at: "hb_get h' ?t = live (snd ?s)"
    using hb_get_beyond_newest [OF IH(4,6), of ?t] IH(3) IH(7) [of n] less by simp
  have newest: "m \<le> ?t" if "hb_newest h' = Some m" for m
    using IH(6) [OF that] less by simp
  let ?new = "replayed predicted f (c_history c) ?t (live (snd ?s))"
  have new: "?new = f ?t (confirmed_or predicted (c_history (snd ?s)) ?t (live (snd ?s)))"
    by (simp only: replayed_def IH(5))
  obtain h'' where h'': "p_history (?sim ?t (snd ?s)) = Some h''"
    "live (?sim ?t (snd ?s)) = ?new" "hb_ordered h''"
    "\<And>m. hb_newest h'' = Some m \<Longrightarrow> m \<le> ?t" "hb_get h'' ?t = ?new"
    "\<And>u. tick_sub_u32 ?t (ucast max_ticks) \<le> u \<Longrightarrow> u < ?t \<Longrightarrow> hb_get h'' u = hb_get h' u"
    using simulate_step [where f = f and predicted = predicted and touched = touched and
      max_ticks = max_ticks and c = "snd ?s", OF IH(2,4) newest at new] by metis
  have oldest: "tick_sub_u32 ?t (ucast max_ticks) \<le> tick_sub_u32 cur (ucast max_ticks)"
    "tick_sub_u32 ?t (ucast max_ticks) \<le> r"
  proof -
    have "uint (ucast max_ticks :: tick) = uint max_ticks"
      by (simp add: unsigned_ucast_eq take_bit_int_eq_self uint_lt2p order_less_le_trans [OF uint_lt2p])
    moreover have "uint ?t \<le> uint cur" "uint cur \<le> uint r + uint max_ticks"
      using un [of "Suc n"] Suc.prems assms(6) by (simp_all only: uint_nat of_nat_le_iff of_nat_add [symmetric])
    ultimately show "tick_sub_u32 ?t (ucast max_ticks) \<le> tick_sub_u32 cur (ucast max_ticks)"
      "tick_sub_u32 ?t (ucast max_ticks) \<le> r"
      by (simp_all only: word_le_def tick_sub_saturates) auto
  qed
  have "hb_get h'' (r + of_nat k) = simulated (replayed predicted f (c_history c)) r (live c) k" if "k \<le> Suc n" for k
  proof (cases "k = Suc n")
    case True
    with h''(5) IH(3) show ?thesis by simp
  next
    case False
    with that have "r + of_nat k < ?t" "r \<le> r + of_nat k" "k \<le> n"
      using un [of k] un [of "Suc n"] by (simp_all add: word_less_nat_alt word_le_nat_alt)
    then show ?thesis
      using h''(6) [OF order_trans [OF oldest(2)], of "r + of_nat k"] IH(7) [of k] by simp
  qed
  moreover have "hb_get h'' u = hb_get h u" if "u < r" "tick_sub_u32 cur (ucast max_ticks) \<le> u" for u
  proof -
    have "u < ?t" using that(1) un [of "Suc n"] by (simp add: word_less_nat_alt)
    then show ?thesis
      using h''(6) [OF order_trans [OF oldest(1) that(2)]] IH(8) [OF that] by simp
  qed
  ultimately show ?case
    using h''(1-4) IH(3,5) by (simp add: step del: of_nat_Suc funpow.simps)
qed

lemma run_rollback_replays:
  assumes "r \<le> cur" and "uint cur - uint r \<le> i32_max"
  shows "run_rollback simulate r (cur, c) = (fixed_main simulate ^^ (unat cur - unat r)) (r, c)"
proof -
  have le: "uint r \<le> uint cur"
    using assms(1) by (simp add: word_le_def)
  have "tick_sub cur r = uint cur - uint r"
    using assms(2) le by (simp add: tick_sub_def Let_def i32_min_def)
  moreover have "timeline_apply_delta (- (uint cur - uint r)) cur = r"
    using uint_lt2p [of r] by (simp add: timeline_apply_delta_def tick_add_i32_def)
  moreover have "nat (uint cur - uint r) = unat cur - unat r"
    using le by (simp only: uint_nat nat_minus_as_int [symmetric] nat_int)
  ultimately show ?thesis
    by (simp add: run_rollback_def)
qed

lemma prepared_component:
  assumes "hb_ordered h" and "restored_state kind r h c \<noteq> None \<or> live c \<noteq> None \<or> hb_get h r = None"
  shows "hb_ordered (prepared_history kind r h c)"
    and "\<And>n. hb_newest (prepared_history kind r h c) = Some n \<Longrightarrow> n \<le> r"
    and "hb_get (prepared_history kind r h c) r =
      (case restored_state kind r h c of None \<Rightarrow> live c | Some state \<Rightarrow> into_value state)"
    and "\<And>u. u < r \<Longrightarrow> hb_get (prepared_history kind r h c) u = hb_get h u"
proof -
  note cl = clear_after_ordered [OF assms(1), of r]
  have added: "hb_ordered (add_state r s (clear_after_tick r h))"
      "hb_newest (add_state r s (clear_after_tick r h)) = Some n \<Longrightarrow> n \<le> r"
      "hb_get (add_state r s (clear_after_tick r h)) u =
        (if r \<le> u then into_value s else hb_get h u)" for s n u
    using add_state_ordered [OF cl(2), of r s] history.newest_record [OF cl(2), of r s] cl(3,4)
    by (auto simp: hb_get_get_state min_def)
  have get: "hb_get (clear_after_tick r h) u = hb_get h (min r u)" for u
    by (simp add: hb_get_get_state cl(4))
  show "hb_ordered (prepared_history kind r h c)"
    using added(1) cl(2) by (simp add: prepared_history_def split: option.split)
  show "\<And>n. hb_newest (prepared_history kind r h c) = Some n \<Longrightarrow> n \<le> r"
    using added(2) cl(3) by (auto simp: prepared_history_def split: option.splits)
  show "hb_get (prepared_history kind r h c) r =
      (case restored_state kind r h c of None \<Rightarrow> live c | Some state \<Rightarrow> into_value state)"
    using added(3) get assms(2) by (auto simp: prepared_history_def into_value_def split: option.splits)
  show "\<And>u. u < r \<Longrightarrow> hb_get (prepared_history kind r h c) u = hb_get h u"
    using added(3) get by (auto simp: prepared_history_def min_def split: option.split)
qed

text \<open>
  What a replay has to give: the clock is back at \<open>cur\<close>, and the component and its history hold the
  values \<open>value k\<close> of the ticks \<open>r + k\<close>, with the older ticks of the window as before.
\<close>

definition recomputed ::
  "tick \<Rightarrow> tick \<Rightarrow> u16 \<Rightarrow> (nat \<Rightarrow> 'c option) \<Rightarrow> 'c history_buffer \<Rightarrow> tick \<times> 'c predicted_component \<Rightarrow> bool" where
  "recomputed r cur max_ticks value h = (\<lambda>(t', c'). t' = cur \<and> live c' = value (unat cur - unat r) \<and>
     (\<exists>h'. p_history c' = Some h' \<and> hb_ordered h' \<and>
        (\<forall>k. unat r + k \<le> unat cur \<longrightarrow> hb_get h' (r + of_nat k) = value k) \<and>
        (\<forall>u < r. tick_sub_u32 cur (ucast max_ticks) \<le> u \<longrightarrow> hb_get h' u = hb_get h u)))"

lemma window_distance:
  assumes "in_window cur max_ticks r"
  shows "unat r + (unat cur - unat r) = unat cur" and "unat cur \<le> unat r + unat max_ticks"
    and "r + of_nat (unat cur - unat r) = cur"
    and "run_rollback simulate r (cur, c) = (fixed_main simulate ^^ (unat cur - unat r)) (r, c)"
proof -
  have le: "r \<le> cur" "uint cur - uint r \<le> uint max_ticks"
    using assms by (simp_all add: in_window_def)
  show n: "unat r + (unat cur - unat r) = unat cur"
    using le(1) by (simp add: word_le_nat_alt)
  show "unat cur \<le> unat r + unat max_ticks"
    using le(2) by (simp only: uint_nat)
  show "r + of_nat (unat cur - unat r) = cur"
    by (rule word_unat_eq_iff [THEN iffD2]) (simp add: unat_add_of_nat [where cur = cur] n)
  show "run_rollback simulate r (cur, c) = (fixed_main simulate ^^ (unat cur - unat r)) (r, c)"
    by (rule run_rollback_replays) (use le uint_lt2p [of max_ticks] in \<open>simp_all add: i32_max_def\<close>)
qed

lemma replay_from:
  assumes "p_history c = Some h" and "hb_ordered h" and "\<And>n. hb_newest h = Some n \<Longrightarrow> n \<le> r"
    and "hb_get h r = live c" and "in_window cur max_ticks r"
  shows "recomputed r cur max_ticks (simulated (replayed predicted f (c_history c)) r (live c)) h
    (run_rollback (simulate_component predicted f touched max_ticks) r (cur, c))"
proof -
  note n = window_distance [OF assms(5)]
  let ?n = "unat cur - unat r"
  let ?s = "(fixed_main (simulate_component predicted f touched max_ticks) ^^ ?n) (r, c)"
  note steps = replay_steps [OF assms(1-4), of ?n cur max_ticks predicted f touched]
  from steps n(1,2) obtain h' where h': "?s = (r + of_nat ?n, snd ?s)" "p_history (snd ?s) = Some h'"
    "live (snd ?s) = simulated (replayed predicted f (c_history c)) r (live c) ?n" "hb_ordered h'"
    "\<forall>k \<le> ?n. hb_get h' (r + of_nat k) = simulated (replayed predicted f (c_history c)) r (live c) k"
    "\<forall>u < r. tick_sub_u32 cur (ucast max_ticks) \<le> u \<longrightarrow> hb_get h' u = hb_get h u"
    by auto
  have "?s = (cur, snd ?s)"
    using h'(1) n(3) by (simp only:)
  then obtain c' where c': "?s = (cur, c')"
    by blast
  have "k \<le> ?n" if "unat r + k \<le> unat cur" for k
    using that n(1) by linarith
  then show ?thesis
    unfolding n(4) c' recomputed_def using h'(2-6) [unfolded c' snd_conv] by blast
qed

text \<open>A component that the preparation removed stays as it is while nothing adds it again.\<close>

lemma absent_step:
  assumes "live c = None" and "confirmed_or predicted (c_history c) t None = None" and "f t None = None"
  shows "simulate_component predicted f touched max_ticks t c = c"
proof -
  have "(if predicted then snap_to_confirmed_during_rollback t c else c) = c"
    using assms(1,2)
    by (auto simp: snap_to_confirmed_during_rollback_def confirmed_or_def into_value_def split: option.splits history_state.splits)
  moreover have "c\<lparr>live := None\<rparr> = c"
    using assms(1) by simp
  ultimately show ?thesis
    using assms(1,3) by (simp add: simulate_component_def update_prediction_history_def Let_def)
qed

lemma absent_steps:
  assumes "live c = None" and "unat r + m < unat cur"
    and "\<And>t. r < t \<Longrightarrow> t < cur \<Longrightarrow> confirmed_or predicted (c_history c) t None = None \<and> f t None = None"
  shows "(fixed_main (simulate_component predicted f touched max_ticks) ^^ m) (r, c) = (r + of_nat m, c) \<and>
    (\<forall>k \<le> m. simulated (replayed predicted f (c_history c)) r None k = None)"
  using assms(2)
proof (induction m)
  case (Suc m)
  have un: "unat (r + of_nat k) = unat r + k" if "k \<le> Suc m" for k
    using unat_add_of_nat [of r k cur] that Suc.prems by simp
  have inc: "increment_local_tick (r + of_nat m) = r + of_nat (Suc m)"
  proof -
    have "unat (r + of_nat m) + 1 < 4294967296"
      using un [of m] Suc.prems unsigned_less [of cur, where ?'a = nat] by simp
    then have lt: "uint (r + of_nat m) + uint (1 :: tick) < 4294967296"
      using uint_nat [of "r + of_nat m"] uint_1 [where ?'a = 32] by linarith
    show ?thesis
      using lt by (simp add: increment_local_tick_def tick_add_assign_def saturating_add_u32_def ac_simps)
  qed
  have between: "r < r + of_nat (Suc m)" "r + of_nat (Suc m) < cur"
    using un [of "Suc m"] Suc.prems by (simp_all add: word_less_nat_alt del: of_nat_Suc)
  note absent = assms(3) [OF between]
  have "simulate_component predicted f touched max_ticks (r + of_nat (Suc m)) c = c"
    by (rule absent_step) (use assms(1) absent in simp_all)
  then show ?case
    using Suc inc absent by (simp add: fixed_main_step replayed_def le_Suc_eq del: of_nat_Suc)
qed simp

lemma replay_of_removed:
  assumes "live c = None" and "p_history c = Some (hb_add cur None h)" and "hb_ordered h"
    and "\<And>n. hb_newest h = Some n \<Longrightarrow> n \<le> r" and "hb_get h r = None" and "in_window cur max_ticks r"
    and absent: "\<And>t. r < t \<Longrightarrow> t < cur \<Longrightarrow> confirmed_or predicted (c_history c) t None = None \<and> f t None = None"
  shows "recomputed r cur max_ticks (simulated (replayed predicted f (c_history c)) r (live c)) h
    (run_rollback (simulate_component predicted f touched max_ticks) r (cur, c))"
proof (cases "unat cur - unat r")
  case 0
  then have "r = cur"
    using window_distance(1) [OF assms(6)] by (simp add: word_unat_eq_iff)
  then have add: "hb_ordered (hb_add cur None h)" "\<And>u. hb_get (hb_add cur None h) u = (if cur \<le> u then None else hb_get h u)"
    "\<And>n. hb_newest (hb_add cur None h) = Some n \<Longrightarrow> n \<le> r"
    using hb_add_ordered [OF assms(3), of cur None] assms(4) by auto
  have "recomputed r cur max_ticks (simulated (replayed predicted f (c_history c)) r (live c)) (hb_add cur None h)
    (run_rollback (simulate_component predicted f touched max_ticks) r (cur, c))"
    by (rule replay_from) (use assms add \<open>r = cur\<close> in auto)
  then show ?thesis
    using add(2) \<open>r = cur\<close> by (auto simp: recomputed_def)
next
  case (Suc m)
  note n = window_distance [OF assms(6)]
  let ?sim = "simulate_component predicted f touched max_ticks" and ?h = "hb_add cur None h"
  let ?val = "simulated (replayed predicted f (c_history c)) r (live c)"
  have m: "unat r + m < unat cur" "r + of_nat (Suc m) = cur" "r < cur"
    using n(1,3) Suc by (simp_all add: word_less_nat_alt)
  note gone = absent_steps [where c = c and touched = touched and max_ticks = max_ticks and f = f and predicted = predicted
      and r = r and cur = cur, OF assms(1) m(1) absent]
  have vals: "?val k = None" if "k \<le> m" for k
    using gone that assms(1) by simp
  have run: "run_rollback ?sim r (cur, c) = fixed_main ?sim (r + of_nat m, c)"
    using n(4) [of ?sim c] Suc gone by simp
  have inc: "increment_local_tick (r + of_nat m) = cur"
  proof -
    have "unat (r + of_nat m) + 1 < 4294967296"
      using unat_add_of_nat [of r m cur] m(1) unsigned_less [of cur, where ?'a = nat] by simp
    then have lt: "uint (r + of_nat m) + uint (1 :: tick) < 4294967296"
      using uint_nat [of "r + of_nat m"] uint_1 [where ?'a = 32] by linarith
    show ?thesis
      using lt m(2) by (simp add: increment_local_tick_def tick_add_assign_def saturating_add_u32_def ac_simps)
  qed
  have newest: "n \<le> cur" if "hb_newest h = Some n" for n
    using assms(4) [OF that] m(3) by simp
  note add = hb_add_ordered [OF assms(3) newest, where v = None]
  have stay: "hb_get ?h cur = live c"
    using add(3) [of cur] assms(1) by simp
  have le: "n \<le> cur" if "hb_newest ?h = Some n" for n
    using add(2) that by simp
  have new: "replayed predicted f (c_history c) cur None = f cur (confirmed_or predicted (c_history c) cur (live c))"
    using assms(1) by (simp add: replayed_def)
  obtain h' where h': "p_history (?sim cur c) = Some h'" "live (?sim cur c) = replayed predicted f (c_history c) cur None"
    "hb_ordered h'" "hb_get h' cur = replayed predicted f (c_history c) cur None"
    "\<And>u. tick_sub_u32 cur (ucast max_ticks) \<le> u \<Longrightarrow> u < cur \<Longrightarrow> hb_get h' u = hb_get ?h u"
    by (rule simulate_step [where f = f and predicted = predicted and touched = touched and max_ticks = max_ticks,
        OF assms(2) add(1) le stay new]; (assumption | rule that))
  have last: "?val (Suc m) = replayed predicted f (c_history c) cur None"
    using vals [of m] m(2) by simp
  have oldest: "tick_sub_u32 cur (ucast max_ticks) \<le> r"
  proof -
    have "uint (ucast max_ticks :: tick) = uint max_ticks"
      by (simp add: unsigned_ucast_eq take_bit_int_eq_self uint_lt2p order_less_le_trans [OF uint_lt2p])
    then show ?thesis
      using assms(6) by (simp add: in_window_def word_le_def tick_sub_saturates)
  qed
  have "hb_get h' (r + of_nat k) = ?val k" if "unat r + k \<le> unat cur" for k
  proof (cases "k = Suc m")
    case True
    then show ?thesis using h'(4) last m(2) by simp
  next
    case False
    then have "r + of_nat k < cur" "r \<le> r + of_nat k" "k \<le> m"
      using that n(1) Suc unat_add_of_nat [OF that] by (simp_all add: word_less_nat_alt word_le_nat_alt)
    moreover from this have "hb_get h (r + of_nat k) = None"
      using hb_get_beyond_newest [OF assms(3,4), of "r + of_nat k"] assms(5) by simp
    ultimately show ?thesis
      using h'(5) [of "r + of_nat k"] oldest add(3) vals by auto
  qed
  moreover have "hb_get h' u = hb_get h u" if "u < r" "tick_sub_u32 cur (ucast max_ticks) \<le> u" for u
    using h'(5) [OF that(2)] that(1) m(3) add(3) by (auto simp: not_le)
  ultimately show ?thesis
    unfolding run fixed_main_step inc recomputed_def using h'(1-3) last Suc by simp
qed

text \<open>
  C29: a rollback recomputes the predicted timeline. Let the history of a component be ordered and
  the rollback tick within the window. After the component has been prepared and the simulation
  replayed, the clock is back at the tick where it was; the live value is the one that the
  simulation computes from the restored value (after every state confirmed for exactly one of the
  replayed ticks, when the entity is predicted); the history answers every tick from the rollback
  tick to the present with the value that the simulation has there; and the ticks before the
  rollback that are still in the window are answered as before. Two states are excluded. One is
  a component that was removed, with a confirmed history that starts later, and a prediction
  at the rollback tick, where the code leaves the value of the history without its component. The
  other is a component that exists and that the rollback removes, if the simulation or a confirmed
  value adds it again before the present tick: the removal was recorded at the present tick already,
  and \<open>removal_by_rollback_disorders_history\<close> shows what follows.
\<close>

theorem rollback_replays_simulation:
  assumes "p_history c = Some h" and "hb_ordered h"
    and "restored_state kind r h c \<noteq> None \<or> live c \<noteq> None \<or> hb_get h r = None"
    and "in_window cur max_ticks r"
    and "\<And>t. restored_state kind r h c = Some Removed \<Longrightarrow> live c \<noteq> None \<Longrightarrow> r < t \<Longrightarrow> t < cur \<Longrightarrow>
      confirmed_or predicted (c_history c) t None = None \<and> f t None = None"
  shows "\<exists>c' h'. run_rollback (simulate_component predicted f touched max_ticks) r
        (cur, prepare_rollback cur corr kind r c) = (cur, c') \<and>
      live c' = simulated (replayed predicted f (c_history c)) r (live (prepare_rollback cur corr kind r c)) (unat cur - unat r) \<and>
      p_history c' = Some h' \<and> hb_ordered h' \<and>
      (\<forall>k. unat r + k \<le> unat cur \<longrightarrow>
        hb_get h' (r + of_nat k) = simulated (replayed predicted f (c_history c)) r (live (prepare_rollback cur corr kind r c)) k) \<and>
      (\<forall>u < r. tick_sub_u32 cur (ucast max_ticks) \<le> u \<longrightarrow> hb_get h' u = hb_get h u)"
proof -
  let ?c = "prepare_rollback cur corr kind r c" and ?h = "prepared_history kind r h c"
  note prep = prepared_component [OF assms(2,3)]
  have live: "hb_get ?h r = live ?c"
    using prep(3) prepare_rollback_live [OF assms(1)] by simp
  have "recomputed r cur max_ticks (simulated (replayed predicted f (c_history ?c)) r (live ?c)) ?h
    (run_rollback (simulate_component predicted f touched max_ticks) r (cur, ?c))"
  proof (cases "restored_state kind r h c = Some Removed \<and> live c \<noteq> None")
    case True
    then have "live ?c = None"
      using prepare_rollback_live [OF assms(1)] by (simp add: into_value_def)
    then show ?thesis
      using True prepare_rollback_history [OF assms(1), of cur corr kind r] live assms(4,5) prep(1,2)
      by (intro replay_of_removed) auto
  next
    case False
    then show ?thesis
      using prepare_rollback_history [OF assms(1), of cur corr kind r] live assms(4) prep(1,2)
      by (intro replay_from) auto
  qed
  then show ?thesis
    using prep(4) by (auto simp: recomputed_def split: prod.splits)
qed

definition replay_component :: "int predicted_component" where
  "replay_component = \<lparr>live = Some 30, p_history = Some \<lparr>hb_buffer = [(3, Updated 10), (4, Updated 20), (5, Updated 30)]\<rparr>,
     c_history = Some (ch_insert 4 (Updated 21) ch_default), previous_visual = None\<rparr>"

theorem rollback_replays_simulation_witness:
  "live (snd (run_rollback (simulate_component True (\<lambda>t. map_option (\<lambda>v. v + 10)) (\<lambda>_. False) 20) 4
      (5, prepare_rollback 5 False From_State 4 replay_component))) = Some 31"
proof -
  let ?h = "\<lparr>hb_buffer = [(3, Updated 10), (4, Updated 20), (5, Updated (30 :: int))]\<rparr>"
  let ?f = "\<lambda>t. map_option (\<lambda>v :: int. v + 10)"
  have "hb_ordered ?h" "p_history replay_component = Some ?h" "in_window 5 20 4"
    by (simp_all add: hb_ordered_def ordered_def replay_component_def in_window_def)
  moreover have "live replay_component \<noteq> None" "restored_state From_State 4 ?h replay_component \<noteq> Some Removed"
    by code_simp+
  ultimately have "\<exists>c'. run_rollback (simulate_component True ?f (\<lambda>_. False) 20) 4
      (5, prepare_rollback 5 False From_State 4 replay_component) = (5, c') \<and>
      live c' = simulated (replayed True ?f (c_history replay_component)) 4 (live (prepare_rollback 5 False From_State 4 replay_component))
        (unat (5 :: tick) - unat (4 :: tick))"
    using rollback_replays_simulation [of replay_component ?h From_State 4 5 20 True ?f "\<lambda>_. False" False]
    by auto
  moreover have "live (prepare_rollback 5 False From_State 4 replay_component) = Some 21"
    by code_simp
  moreover have "replayed True ?f (c_history replay_component) 5 (Some 21) = Some 31"
    by code_simp
  ultimately show ?thesis
    by auto
qed

text \<open>
  C32: a confirmed value is simulated again. The value that the server confirms for a tick is its
  value at the end of that tick: it is compared with the history entry written at the end of the
  tick and restored as the state from which the next tick is simulated. During a replay it is put in
  place before the simulation of its own tick, so at the end of the tick the component and its
  history hold the next value, and wherever the application changes the value, the next check at
  that tick finds the same mismatch again.
\<close>

theorem confirmed_value_is_simulated_again:
  assumes "p_history c = Some h" and "hb_ordered h"
    and "\<And>n. hb_newest h = Some n \<Longrightarrow> n \<le> a" and "hb_get h a = live c"
    and "increment_local_tick a = t" and "a < t"
    and "c_history c = Some ch" and "get_state_at ch t = Some (Updated v)"
  shows "\<exists>c' h'. fixed_main (simulate_component True f touched max_ticks) (a, c) = (t, c') \<and>
      live c' = f t (Some v) \<and> p_history c' = Some h' \<and> hb_get h' t = f t (Some v) \<and>
      (f t (Some v) \<noteq> Some v \<longrightarrow> should_rollback_check (\<noteq>) (Some v) (hb_get h' t))"
proof -
  have "f t (Some v) = f t (confirmed_or True (c_history c) t (live c))"
    using assms(7,8) by (simp add: confirmed_or_def into_value_def)
  moreover have "n \<le> t" if "hb_newest h = Some n" for n
    using assms(3) [OF that] assms(6) by simp
  moreover have "hb_get h t = live c"
    using hb_get_beyond_newest [OF assms(2,3), of t] assms(4,6) by simp
  ultimately
  obtain h' where "p_history (simulate_component True f touched max_ticks t c) = Some h'"
    "live (simulate_component True f touched max_ticks t c) = f t (Some v)" "hb_get h' t = f t (Some v)"
    using simulate_step [where f = f and predicted = True and touched = touched and max_ticks = max_ticks, OF assms(1,2)]
    by metis
  then show ?thesis
    by (auto simp: fixed_main_step assms(5) should_rollback_check_def split: option.split)
qed

definition twice_component :: "int predicted_component" where
  "twice_component = \<lparr>live = Some 21, p_history = Some \<lparr>hb_buffer = [(4, Updated 21)]\<rparr>,
     c_history = Some (ch_insert 5 (Updated 31) (ch_insert 4 (Updated 21) ch_default)),
     previous_visual = None\<rparr>"

theorem confirmed_value_is_simulated_again_witness:
  "live (snd (fixed_main (simulate_component True (\<lambda>t. map_option (\<lambda>v. v + 10)) (\<lambda>_. False) 20)
     (4, twice_component))) = Some 41"
proof -
  let ?ch = "ch_insert 5 (Updated 31) (ch_insert 4 (Updated (21 :: int)) ch_default)"
  let ?h = "\<lparr>hb_buffer = [(4, Updated (21 :: int))]\<rparr>"
  have "get_state_at ?ch 5 = Some (Updated 31)" "increment_local_tick 4 = 5" "hb_get ?h 4 = Some 21"
    by code_simp+
  moreover have "hb_ordered ?h" "\<And>n. hb_newest ?h = Some n \<Longrightarrow> n \<le> 4"
    by (simp_all add: hb_ordered_def ordered_def hb_newest_def most_recent_def get_back_def)
  ultimately show ?thesis
    using confirmed_value_is_simulated_again [of twice_component ?h 4 5 ?ch 31 "\<lambda>t. map_option (\<lambda>v. v + 10)"
        "\<lambda>_. False" 20]
    by (auto simp: twice_component_def)
qed

text \<open>
  When the confirmed history starts after the rollback tick, the prediction of that tick is not
  consulted: whatever it was, the present value is written there and the replay starts from it.
\<close>

lemma later_confirmed_history_hides_prediction:
  assumes "p_history c = Some h" and "hb_ordered h" and "live c = Some v"
    and "c_history c = Some ch" and "get_state_at_or_before ch r = None"
  shows "live (prepare_rollback now corr From_State r c) = Some v \<and>
    (\<exists>h'. p_history (prepare_rollback now corr From_State r c) = Some h' \<and> hb_get h' r = Some v)"
proof -
  have "restored_state From_State r h c = None"
    using assms(4,5) by (simp add: restored_state_def)
  then show ?thesis
    using prepare_rollback_live [OF assms(1)] prepare_rollback_history [OF assms(1), of now corr From_State r]
      prepared_component(3) [OF assms(2), of From_State r c] assms(3) by simp
qed

text \<open>
  When a rollback removes a component that exists, the removal is recorded at the present tick. If the
  simulation adds the component again in the replay, its value is appended behind that entry: the
  history, which every lookup takes to be ordered, is not ordered any more.
\<close>

lemma clear_until_keeps_end:
  assumes "hb_buffer h = pre @ (a, s) # rest" and "b < a"
  shows "\<exists>pre'. hb_buffer (hb_clear_until_tick b h) = pre' @ (a, s) # rest"
proof -
  let ?p = "partition_point (\<lambda>(buffer_tick, _). buffer_tick \<le> b) (hb_buffer h)"
  have p: "?p \<le> length pre"
  proof (cases "\<forall>x \<in> set pre. (\<lambda>(buffer_tick, _). buffer_tick \<le> b) x")
    case True
    then show ?thesis
      using assms(2) by (simp add: assms(1) partition_point_def takeWhile_append)
  next
    case False
    then show ?thesis
      by (auto simp: assms(1) partition_point_def takeWhile_append length_takeWhile_le)
  qed
  show ?thesis
  proof (cases "?p = 0")
    case True
    then show ?thesis
      using assms(1) by (auto simp: hb_clear_until_tick_def)
  next
    case False
    then obtain x y ys where "drop (?p - 1) pre = (x, y) # ys"
      using p by (cases "drop (?p - 1) pre") auto
    then have "hb_buffer (hb_clear_until_tick b h) = ((b, y) # ys) @ (a, s) # rest"
      using False p by (simp add: hb_clear_until_tick_def set_front_tick_def assms(1))
    then show ?thesis by blast
  qed
qed

lemma removal_by_rollback_disorders_history:
  assumes "p_history c = Some h" and "hb_ordered h" and "restored_state kind r h c = Some Removed" and "live c \<noteq> None"
    and "increment_local_tick r = t" and "r < t" and "t < cur"
    and "confirmed_or predicted (c_history c) t None = None" and "f t None = Some v"
  shows "\<exists>c' h' pre. fixed_main (simulate_component predicted f touched max_ticks) (r, prepare_rollback cur corr kind r c) = (t, c') \<and>
    live c' = Some v \<and> p_history c' = Some h' \<and> hb_buffer h' = pre @ [(cur, Removed), (t, Updated v)] \<and> \<not> hb_ordered h'"
proof -
  let ?c = "prepare_rollback cur corr kind r c" and ?h = "prepared_history kind r h c"
  let ?oldest = "tick_sub_u32 t (ucast max_ticks)" and ?h1 = "hb_add t (Some v) (hb_add cur None ?h)"
  have c: "live ?c = None" "p_history ?c = Some (hb_add cur None ?h)"
    using assms(3,4) prepare_rollback_live [OF assms(1)] prepare_rollback_history [OF assms(1), of cur corr kind r]
    by (simp_all add: into_value_def)
  obtain pre where "hb_buffer (hb_add cur None ?h) = pre @ [(cur, Removed)]"
    by (auto simp: hb_add_def add_state_def Let_def)
  then have "hb_buffer ?h1 = pre @ [(cur, Removed), (t, Updated v)]"
    using assms(7) by (auto simp: hb_add_def add_state_def hb_peek_def get_back_def Let_def)
  moreover have "?oldest < cur"
    using assms(7) tick_sub_u32_le [of t "ucast max_ticks"] by simp
  ultimately obtain pre' where pre': "hb_buffer (hb_clear_until_tick ?oldest ?h1) = pre' @ [(cur, Removed), (t, Updated v)]"
    using clear_until_keeps_end [of ?h1 pre cur Removed "[(t, Updated v)]"] by auto
  have "(if predicted then snap_to_confirmed_during_rollback t ?c else ?c) = ?c"
    using c(1) assms(8)
    by (auto simp: snap_to_confirmed_during_rollback_def confirmed_or_def into_value_def split: option.splits history_state.splits)
  then have "simulate_component predicted f touched max_ticks t ?c =
      ?c\<lparr>live := Some v, p_history := Some (hb_clear_until_tick ?oldest ?h1)\<rparr>"
    using c assms(9) by (simp add: simulate_component_def update_prediction_history_def add_predicted_def Let_def)
  moreover have "\<not> cur \<le> t"
    using assms(7) by simp
  then have "\<not> hb_ordered (hb_clear_until_tick ?oldest ?h1)"
    using pre' by (simp add: hb_ordered_def ordered_def sorted_wrt_append)
  ultimately show ?thesis
    using pre' by (simp add: fixed_main_step assms(5))
qed

end
