(* ===== verification/Input_Buffer.thy ===== *)
theory Input_Buffer
  imports Prediction
begin

text \<open>
  Player inputs (\<open>crates/inputs/inputs/src\<close>: \<open>input_buffer.rs\<close>, \<open>input_message.rs\<close>, \<open>client.rs\<close>,
  \<open>server.rs\<close>, and \<open>crates/inputs/inputs_native/src/input_message.rs\<close>): the compressed buffer of one
  entity's inputs, the sequence of inputs that a message carries, the update of a buffer from a
  message with the detection of mispredicted inputs, and the systems that write, read and prune the
  buffer. A Rust function that panics, or recurses for ever, has the result \<open>None\<close>.
\<close>

section \<open>The buffer\<close>

datatype 'a compressed = Absent | SameAsPrecedent | Input 'a

definition compressed_from :: "'a option \<Rightarrow> 'a compressed" where
  "compressed_from value = (case value of Some v \<Rightarrow> Input v | None \<Rightarrow> Absent)"

record 'a input_buffer =
  start_tick :: "tick option"
  inputs :: "'a compressed list"
  last_remote_tick :: "tick option"

definition input_buffer_default :: "'a input_buffer" where
  "input_buffer_default = \<lparr>start_tick = None, inputs = [], last_remote_tick = None\<rparr>"

definition ib_len :: "'a input_buffer \<Rightarrow> nat" where
  "ib_len b = length (inputs b)"

text \<open>\<open>len as i32\<close> keeps the low 32 bits; \<open>last_index\<close> is the subexpression \<open>len as i32 - 1\<close>.\<close>

definition last_index :: "'a input_buffer \<Rightarrow> int" where
  "last_index b = sint (word_of_nat (length (inputs b)) - 1 :: 32 word)"

definition end_tick :: "'a input_buffer \<Rightarrow> tick option" where
  "end_tick b = map_option (\<lambda>start. tick_add_i32 start (last_index b)) (start_tick b)"

text \<open>A negative \<open>i32\<close> that is cast to \<open>usize\<close> exceeds every length.\<close>

definition index_of :: "tick \<Rightarrow> tick \<Rightarrow> nat" where
  "index_of t start = (if tick_sub t start < 0 then usize_max else nat (tick_sub t start))"

definition clip_after :: "tick \<Rightarrow> 'a input_buffer \<Rightarrow> 'a input_buffer option" where
  "clip_after t b =
     (case (end_tick b, start_tick b) of
        (Some e, Some start) \<Rightarrow>
          if t < start then Some (b\<lparr>start_tick := None, inputs := []\<rparr>)
          else if e \<le> t then Some b
          else if tick_sub t start = i32_max then None
          else
            let new_end = nat (tick_sub t start + 1) in
            if length (inputs b) < new_end then None
            else Some (b\<lparr>inputs := take new_end (inputs b)\<rparr>)
      | _ \<Rightarrow> Some b)"

definition extend_to_range :: "tick \<Rightarrow> tick \<Rightarrow> 'a input_buffer \<Rightarrow> 'a input_buffer" where
  "extend_to_range range_start range_end b =
     (let current_start = (case start_tick b of Some s \<Rightarrow> s | None \<Rightarrow> range_start);
          b = b\<lparr>start_tick := Some current_start\<rparr>;
          b = (if range_start < current_start
               then b\<lparr>start_tick := Some range_start,
                 inputs := replicate (index_of current_start range_start) Absent @ inputs b\<rparr>
               else b);
          current_start = (if range_start < current_start then range_start else current_start);
          current_end = tick_add_i32 current_start (last_index b)
      in if current_end < range_end
         then b\<lparr>inputs := inputs b @ replicate (index_of range_end current_end) Absent\<rparr>
         else b)"

definition set_raw :: "tick \<Rightarrow> 'a compressed \<Rightarrow> 'a input_buffer \<Rightarrow> 'a input_buffer option" where
  "set_raw t value b =
     (case start_tick b of
        None \<Rightarrow> Some (b\<lparr>start_tick := Some t, inputs := inputs b @ [value]\<rparr>)
      | Some start \<Rightarrow>
          if t < start then Some b
          else
            let e = tick_add_i32 start (last_index b);
                buf = (if e < t
                       then inputs b @ replicate (nat (tick_sub t e - 1)) SameAsPrecedent @ [Absent]
                       else inputs b);
                i = index_of t start
            in if i < length buf then Some (b\<lparr>inputs := buf[i := value]\<rparr>) else None)"

definition set_empty :: "tick \<Rightarrow> 'a input_buffer \<Rightarrow> 'a input_buffer option" where
  "set_empty t b = set_raw t Absent b"

definition get_raw :: "tick \<Rightarrow> 'a input_buffer \<Rightarrow> 'a compressed option" where
  "get_raw t b =
     (case start_tick b of
        None \<Rightarrow> Some Absent
      | Some start \<Rightarrow>
          if inputs b = [] then Some Absent
          else if t < start \<or> tick_add_i32 start (last_index b) < t then Some Absent
          else get_index (inputs b) (index_of t start))"

partial_function (option) ib_get :: "'a input_buffer \<Rightarrow> tick \<Rightarrow> 'a option option" where
  "ib_get b t =
     (case start_tick b of
        None \<Rightarrow> Some None
      | Some start \<Rightarrow>
          if inputs b = [] then Some None
          else if t < start \<or> tick_add_i32 start (last_index b) < t then Some None
          else
            (case get_index (inputs b) (index_of t start) of
               None \<Rightarrow> None
             | Some Absent \<Rightarrow> Some None
             | Some SameAsPrecedent \<Rightarrow> ib_get b (tick_sub_u32 t 1)
             | Some (Input v) \<Rightarrow> Some (Some v)))"

definition ib_set :: "tick \<Rightarrow> 'a \<Rightarrow> 'a input_buffer \<Rightarrow> 'a input_buffer option" where
  "ib_set t value b =
     do {
       precedent \<leftarrow> ib_get b (tick_sub_u32 t 1);
       if precedent = Some value then set_raw t SameAsPrecedent b
       else set_raw t (Input value) b
     }"

definition get_last :: "'a input_buffer \<Rightarrow> 'a option option" where
  "get_last b =
     (case start_tick b of
        None \<Rightarrow> Some None
      | Some start \<Rightarrow>
          if inputs b = [] then Some None else ib_get b (tick_add_i32 start (last_index b)))"

definition get_last_with_tick :: "'a input_buffer \<Rightarrow> (tick \<times> 'a) option option" where
  "get_last_with_tick b =
     (case start_tick b of
        None \<Rightarrow> Some None
      | Some start \<Rightarrow>
          if inputs b = [] then Some None
          else
            let e = tick_add_i32 start (last_index b) in
            map_option (map_option (Pair e)) (ib_get b e))"

definition get_predict :: "'a input_buffer \<Rightarrow> tick \<Rightarrow> 'a option option" where
  "get_predict b t =
     (case start_tick b of
        None \<Rightarrow> Some None
      | Some start \<Rightarrow>
          if inputs b = [] then Some None
          else if t < start then Some None
          else if tick_add_i32 start (last_index b) < t then get_last b
          else
            (case get_index (inputs b) (index_of t start) of
               None \<Rightarrow> None
             | Some Absent \<Rightarrow> Some None
             | Some SameAsPrecedent \<Rightarrow> ib_get b (tick_sub_u32 t 1)
             | Some (Input v) \<Rightarrow> Some (Some v)))"

text \<open>The loop of \<open>pop\<close> takes the front entry out a number of times and remembers the last state.\<close>

fun pop_front_times ::
  "nat \<Rightarrow> 'a compressed \<Rightarrow> 'a compressed list \<Rightarrow> ('a compressed \<times> 'a compressed list) option" where
  "pop_front_times 0 popped buf = Some (popped, buf)"
| "pop_front_times (Suc n) popped [] = None"
| "pop_front_times (Suc n) popped (data # buf) =
     pop_front_times n (case data of SameAsPrecedent \<Rightarrow> popped | _ \<Rightarrow> data) buf"

definition ib_pop :: "tick \<Rightarrow> 'a input_buffer \<Rightarrow> ('a option \<times> 'a input_buffer) option" where
  "ib_pop t b =
     (case start_tick b of
        None \<Rightarrow> Some (None, b)
      | Some start \<Rightarrow>
          if t < start then Some (None, b)
          else if tick_add_i32 start (last_index b) < t
          then Some (None, b\<lparr>inputs := [], start_tick := Some (tick_add_i32 t 1)\<rparr>)
          else
            do {
              (popped, buf) \<leftarrow> pop_front_times (nat (tick_sub (tick_add_i32 t 1) start)) Absent (inputs b);
              let buf = (case buf of SameAsPrecedent # rest \<Rightarrow> popped # rest | _ \<Rightarrow> buf);
              Some (case popped of Input v \<Rightarrow> Some v | _ \<Rightarrow> None,
                b\<lparr>inputs := buf, start_tick := Some (tick_add_i32 t 1)\<rparr>)
            })"

definition pop_keeping_last :: "tick \<Rightarrow> 'a input_buffer \<Rightarrow> ('a option \<times> 'a input_buffer) option" where
  "pop_keeping_last t b =
     do {
       newest \<leftarrow> get_last_with_tick b;
       case newest of
         None \<Rightarrow> ib_pop t b
       | Some (last_tick, _) \<Rightarrow> ib_pop (if last_tick \<le> t then tick_sub_u32 last_tick 1 else t) b
     }"

section \<open>Input sequences\<close>

text \<open>
  A sequence of the native inputs is its list of states. The decay of a snapshot (\<open>decay_tick\<close>) is
  the parameter \<open>decay\<close>; for native inputs it is the identity.
\<close>

definition build_from_input_buffer ::
  "'a input_buffer \<Rightarrow> u32 \<Rightarrow> tick \<Rightarrow> 'a compressed list option option" where
  "build_from_input_buffer b num_ticks end_of_message =
     (case start_tick b of
        None \<Rightarrow> Some None
      | Some buffer_start_tick \<Rightarrow>
          do {
            let first = max (tick_add_i32 (tick_sub_u32 end_of_message num_ticks) 1) buffer_start_tick;
            start_state \<leftarrow> ib_get b first;
            let buffer_start = index_of (tick_add_i32 first 1) buffer_start_tick;
            let buffer_end = index_of (tick_add_i32 end_of_message 1) buffer_start_tick;
            Some (Some (compressed_from start_state #
              map (\<lambda>i. case get_index (inputs b) i of None \<Rightarrow> Absent | Some state \<Rightarrow> state)
                [buffer_start..<buffer_end]))
          })"

text \<open>
  \<open>update_buffer\<close> goes through the states of a message. Its loop keeps the input that was predicted
  for the tick, the earliest mismatch, and the input last received.
\<close>

record 'a update_state =
  previous_predicted_input :: "'a option"
  earliest_mismatch :: "tick option"
  latest_received_input :: "'a option"
  input_buffer :: "'a input_buffer"

definition receive_state :: "'a compressed \<Rightarrow> 'a option \<Rightarrow> 'a option" where
  "receive_state state latest =
     (case state of Absent \<Rightarrow> None | Input v \<Rightarrow> Some v | SameAsPrecedent \<Rightarrow> latest)"

definition update_tick ::
  "('a \<Rightarrow> 'a) \<Rightarrow> tick option \<Rightarrow> tick option \<Rightarrow> tick \<Rightarrow> 'a compressed \<Rightarrow>
   'a update_state \<Rightarrow> 'a update_state option" where
  "update_tick decay last_remote previous_end_tick t state u =
     do {
       previous \<leftarrow> (if (case previous_end_tick of Some e \<Rightarrow> t \<le> e | None \<Rightarrow> False)
         then ib_get (input_buffer u) t
         else Some (map_option decay (previous_predicted_input u)));
       let u = u\<lparr>previous_predicted_input := previous\<rparr>;
       if earliest_mismatch u \<noteq> None
       then do { b \<leftarrow> set_raw t state (input_buffer u); Some (u\<lparr>input_buffer := b\<rparr>) }
       else
         do {
           let latest = receive_state state (latest_received_input u);
           let u = u\<lparr>latest_received_input := latest\<rparr>;
           if (case last_remote of Some l \<Rightarrow> l < t | None \<Rightarrow> True)
           then
             if previous = latest
             then
               if (case previous_end_tick of Some e \<Rightarrow> e < t | None \<Rightarrow> True)
               then do {
                 b \<leftarrow> set_raw t (compressed_from latest) (input_buffer u);
                 Some (u\<lparr>input_buffer := b\<rparr>)
               }
               else Some u
             else do {
               b \<leftarrow> set_raw t (compressed_from latest) (input_buffer u);
               b \<leftarrow> clip_after t b;
               Some (u\<lparr>input_buffer := b, earliest_mismatch := Some t\<rparr>)
             }
           else Some u
         }
     }"

fun update_ticks ::
  "('a \<Rightarrow> 'a) \<Rightarrow> tick option \<Rightarrow> tick option \<Rightarrow> tick \<Rightarrow> nat \<Rightarrow> 'a compressed list \<Rightarrow>
   'a update_state \<Rightarrow> 'a update_state option" where
  "update_ticks decay last_remote previous_end_tick first delta [] u = Some u"
| "update_ticks decay last_remote previous_end_tick first delta (state # states) u =
     Option.bind
       (update_tick decay last_remote previous_end_tick (tick_add first (word_of_nat delta)) state u)
       (update_ticks decay last_remote previous_end_tick first (Suc delta) states)"

definition message_start :: "tick \<Rightarrow> 'a compressed list \<Rightarrow> tick" where
  "message_start end_of_message states =
     tick_sub_u32 (tick_add_i32 end_of_message 1) (word_of_nat (length states))"

definition update_buffer ::
  "('a \<Rightarrow> 'a) \<Rightarrow> 'a compressed list \<Rightarrow> tick \<Rightarrow> 'a input_buffer \<Rightarrow>
   (tick option \<times> 'a input_buffer) option" where
  "update_buffer decay states end_of_message b =
     do {
       predicted \<leftarrow> (case last_remote_tick b of None \<Rightarrow> Some None | Some l \<Rightarrow> ib_get b l);
       u \<leftarrow> update_ticks decay (last_remote_tick b) (end_tick b) (message_start end_of_message states) 0 states
         \<lparr>previous_predicted_input = predicted, earliest_mismatch = None,
          latest_received_input = None, input_buffer = b\<rparr>;
       Some (earliest_mismatch u, (input_buffer u)\<lparr>last_remote_tick := Some end_of_message\<rparr>)
     }"

section \<open>The systems\<close>

text \<open>
  What the systems do with the buffer of one entity. The state of the action is a snapshot;
  \<open>transitions\<close> is \<open>from_snapshot_transitions\<close>, which depends on the kind of input.
\<close>

definition HISTORY_DEPTH :: u32 where
  "HISTORY_DEPTH = 20"

definition buffer_action_state :: "tick \<Rightarrow> u16 \<Rightarrow> 'a \<Rightarrow> 'a input_buffer \<Rightarrow> 'a input_buffer option" where
  "buffer_action_state current_tick input_delay state b =
     ib_set (tick_add_i32 current_tick (uint input_delay)) state b"

definition get_action_state ::
  "('a \<Rightarrow> 'a) \<Rightarrow> bool \<Rightarrow> bool \<Rightarrow> bool \<Rightarrow> u16 \<Rightarrow> tick \<Rightarrow> bool \<Rightarrow> 'a \<times> 'a input_buffer \<Rightarrow>
   ('a \<times> 'a input_buffer) option" where
  "get_action_state decay ignore_rollbacks remote_inputs in_rollback input_delay t is_local = (\<lambda>(action_state, b).
     if in_rollback \<and> ignore_rollbacks then Some (action_state, b)
     else if \<not> in_rollback \<and> is_local \<and> input_delay = 0 then Some (action_state, b)
     else
       do {
         snapshot \<leftarrow> ib_get b t;
         case snapshot of
           Some v \<Rightarrow> Some (v, b)
         | None \<Rightarrow>
             if \<not> is_local \<and> remote_inputs
             then do { b \<leftarrow> ib_set t (decay action_state) b; Some (decay action_state, b) }
             else Some (action_state, b)
       })"

definition get_delayed_action_state ::
  "bool \<Rightarrow> u16 \<Rightarrow> tick \<Rightarrow> 'a input_buffer \<Rightarrow> 'a \<Rightarrow> 'a option" where
  "get_delayed_action_state in_rollback input_delay t b action_state =
     (if in_rollback \<or> input_delay = 0 then Some action_state
      else do {
        delayed \<leftarrow> ib_get b (tick_add_i32 t (uint input_delay));
        Some (case delayed of Some v \<Rightarrow> v | None \<Rightarrow> action_state)
      })"

text \<open>\<open>prediction\<close> is the policy of the prediction manager with \<open>maximum_predicted_ticks\<close>.\<close>

definition input_history_depth :: "(rollback_policy \<times> u16) option \<Rightarrow> u32" where
  "input_history_depth prediction =
     max (case prediction of
        Some (p, maximum_predicted_ticks) \<Rightarrow>
          ucast (effective_max_rollback_ticks p maximum_predicted_ticks) + 1
      | None \<Rightarrow> 0) HISTORY_DEPTH"

definition clean_buffer ::
  "(rollback_policy \<times> u16) option \<Rightarrow> tick \<Rightarrow> 'a input_buffer \<Rightarrow> 'a input_buffer option" where
  "clean_buffer prediction t b =
     map_option snd (ib_pop (tick_sub_u32 t (input_history_depth prediction)) b)"

text \<open>The shared minimum \<open>set_if_lower\<close> of the mismatch tick, for one thread.\<close>

definition update_buffer_from_remote_player_message ::
  "('a \<Rightarrow> 'a) \<Rightarrow> 'a compressed list \<Rightarrow> tick \<Rightarrow> tick \<Rightarrow> 'a input_buffer \<times> 'e prediction_manager \<Rightarrow>
   ('a input_buffer \<times> 'e prediction_manager) option" where
  "update_buffer_from_remote_player_message decay states t end_of_message = (\<lambda>(b, m).
     do {
       (mismatch, b) \<leftarrow> update_buffer decay states end_of_message b;
       Some (b, case mismatch of
           Some mismatch \<Rightarrow>
             if policy_input (policy m) = Check \<and> mismatch \<le> t
             then m\<lparr>has_mismatches := True, mismatch_tick := min mismatch (mismatch_tick m)\<rparr>
             else m
         | None \<Rightarrow> m)
     })"

text \<open>
  One target of a message that a client receives for a remote player: \<open>b\<close> is the buffer of the
  entity, when it has one. The result says whether the input was relevant, and gives the buffer and,
  when the components are inserted, the action state.
\<close>

definition receive_remote_player_input ::
  "('a \<Rightarrow> 'a) \<Rightarrow> 'a \<Rightarrow> tick \<Rightarrow> tick \<Rightarrow> 'a compressed list \<Rightarrow>
   'a input_buffer option \<times> 'e prediction_manager \<Rightarrow>
   (bool \<times> 'a input_buffer \<times> 'a option \<times> 'e prediction_manager) option" where
  "receive_remote_player_input decay base_value t end_of_message states = (\<lambda>(existing, m).
     case existing of
       Some b \<Rightarrow>
         if (case last_remote_tick b of Some l \<Rightarrow> end_of_message \<le> l | None \<Rightarrow> False)
         then Some (False, b, None, m)
         else do {
           (b, m) \<leftarrow> update_buffer_from_remote_player_message decay states t end_of_message (b, m);
           Some (True, b, None, m)
         }
     | None \<Rightarrow>
         do {
           (b, m) \<leftarrow> update_buffer_from_remote_player_message decay states t end_of_message
             (input_buffer_default, m);
           newest \<leftarrow> get_last b;
           Some (True, b, Some (case newest of Some v \<Rightarrow> v | None \<Rightarrow> base_value), m)
         })"

text \<open>\<open>update_last_confirmed_input\<close>: the buffers of the remote players, in query order.\<close>

fun confirm_inputs :: "'a input_buffer list \<Rightarrow> last_confirmed_input \<Rightarrow> bool \<times> last_confirmed_input" where
  "confirm_inputs [] l = (True, l)"
| "confirm_inputs (b # bs) l =
     (let (all, l) = confirm_inputs bs
        (case last_remote_tick b of Some e \<Rightarrow> l\<lparr>lci_tick := min e (lci_tick l)\<rparr> | None \<Rightarrow> l)
      in (last_remote_tick b \<noteq> None \<and> all, l))"

definition update_last_confirmed_input ::
  "bool \<Rightarrow> tick \<Rightarrow> 'a input_buffer list \<Rightarrow> last_confirmed_input \<Rightarrow> last_confirmed_input" where
  "update_last_confirmed_input lockstep t buffers l =
     (if lockstep then l\<lparr>lci_tick := min t (lci_tick l)\<rparr>
      else
        let (all, l) = confirm_inputs buffers l
        in l\<lparr>received_for_all_clients := received_for_all_clients l \<and> all\<rparr>)"

definition MAX_INPUT_LOOKAHEAD_TICKS :: int where
  "MAX_INPUT_LOOKAHEAD_TICKS = 64"

definition MAX_INPUT_PAST_TICKS :: int where
  "MAX_INPUT_PAST_TICKS = 256"

definition is_input_within_lookahead :: "tick \<Rightarrow> tick \<Rightarrow> bool" where
  "is_input_within_lookahead end_of_message server_tick =
     (let delta = uint end_of_message - uint server_tick
      in - MAX_INPUT_PAST_TICKS \<le> delta \<and> delta \<le> MAX_INPUT_LOOKAHEAD_TICKS)"

text \<open>
  One target of a message that the server receives. The detection of rewritten inputs only writes to
  the log; it is not part of the result.
\<close>

definition receive_input ::
  "('a \<Rightarrow> 'a) \<Rightarrow> tick \<Rightarrow> tick \<Rightarrow> 'a compressed list \<Rightarrow> 'a input_buffer option \<Rightarrow>
   'a input_buffer option option" where
  "receive_input decay t end_of_message states existing =
     (if \<not> is_input_within_lookahead end_of_message t then Some existing
      else do {
        (_, b) \<leftarrow> update_buffer decay states end_of_message
          (case existing of Some b \<Rightarrow> b | None \<Rightarrow> input_buffer_default);
        Some (Some b)
      })"

definition update_action_state ::
  "('s \<Rightarrow> 'a \<Rightarrow> 's) \<Rightarrow> bool \<Rightarrow> tick \<Rightarrow> 's \<times> 'a input_buffer \<Rightarrow> ('s \<times> 'a input_buffer) option" where
  "update_action_state transitions host_client t = (\<lambda>(action_state, b).
     do {
       snapshot \<leftarrow> get_predict b t;
       let action_state = (case snapshot of Some v \<Rightarrow> transitions action_state v | None \<Rightarrow> action_state);
       let history_depth = (if host_client then HISTORY_DEPTH else 1);
       (_, b) \<leftarrow> pop_keeping_last (tick_sub_u32 t history_depth) b;
       Some (action_state, b)
     })"

section \<open>Lookups\<close>

text \<open>The input that a compressed sequence has at its end, and that a buffer has at a tick.\<close>

definition resolve :: "'a compressed list \<Rightarrow> 'a option" where
  "resolve xs = fold receive_state xs None"

definition input_at :: "'a input_buffer \<Rightarrow> nat \<Rightarrow> 'a option" where
  "input_at b n =
     (case start_tick b of
        None \<Rightarrow> None
      | Some s \<Rightarrow>
          if unat s \<le> n \<and> n < unat s + length (inputs b)
          then resolve (take (Suc (n - unat s)) (inputs b)) else None)"

text \<open>
  A buffer is well formed when it does not reach the last tick, holds less than \<open>2 ^ 31\<close> entries, and
  does not start at tick zero with nothing or with a reference to a precedent.
\<close>

definition ib_wf :: "'a input_buffer \<Rightarrow> bool" where
  "ib_wf b \<longleftrightarrow> length (inputs b) < 2 ^ 31 \<and>
     (case start_tick b of
        None \<Rightarrow> inputs b = []
      | Some s \<Rightarrow> unat s + length (inputs b) < 2 ^ 32 \<and>
          (s = 0 \<longrightarrow> inputs b \<noteq> [] \<and> hd (inputs b) \<noteq> SameAsPrecedent))"

lemma resolve_simps [simp]:
  "resolve [] = None"
  "resolve (xs @ [Absent]) = None"
  "resolve (xs @ [Input v]) = Some v"
  "resolve (xs @ [SameAsPrecedent]) = resolve xs"
  "resolve (xs @ [compressed_from w]) = w"
  by (simp_all add: resolve_def receive_state_def compressed_from_def split: option.split)

lemma resolve_append: "resolve (xs @ ys) = fold receive_state ys (resolve xs)"
  by (simp add: resolve_def)

lemma resolve_snoc: "resolve (xs @ [x]) = receive_state x (resolve xs)"
  by (simp add: resolve_def)

lemma sint_of_nat_u32: "n < 2 ^ 31 \<Longrightarrow> sint (word_of_nat n :: 32 word) = int n"
  by (simp add: signed_of_nat signed_take_bit_int_eq_self)

lemma last_index_eq:
  assumes "length (inputs b) < 2 ^ 31"
  shows "last_index b = int (length (inputs b)) - 1"
proof (cases "inputs b")
  case Nil
  then show ?thesis by (simp add: last_index_def)
next
  case (Cons x xs)
  then have "word_of_nat (length (inputs b)) - (1 :: 32 word) = word_of_nat (length xs)"
    by simp
  with Cons assms show ?thesis
    by (simp add: last_index_def sint_of_nat_u32)
qed

lemma uint_tick_add_i32_exact:
  "0 \<le> uint t + n \<Longrightarrow> uint t + n < 2 ^ 32 \<Longrightarrow> uint (tick_add_i32 t n) = uint t + n"
  by (simp only: tick_add_i32_def uint_word_of_int) (simp add: min_def max_def)

lemma unat_tick_sub_u32: "unat (tick_sub_u32 a n) = unat a - unat n"
  by (auto simp: tick_sub_u32_def unat_sub word_le_nat_alt word_less_nat_alt)

lemma index_of_eq:
  assumes "s \<le> t" and "unat t - unat s < 2 ^ 31"
  shows "index_of t s = unat t - unat s" and "tick_sub t s = uint t - uint s"
proof -
  have le: "unat s \<le> unat t"
    using assms(1) by (simp add: word_le_nat_alt)
  have "unat t - unat s < 2147483648"
    using assms(2) by simp
  with le have "0 \<le> uint t - uint s" "uint t - uint s < 2147483648"
    unfolding uint_nat by linarith+
  then show sub: "tick_sub t s = uint t - uint s"
    by (simp add: tick_sub_def Let_def i32_min_def i32_max_def)
  show "index_of t s = unat t - unat s"
  proof -
    have "nat (int (unat t) - int (unat s)) = unat t - unat s"
      by (simp only: nat_minus_as_int)
    then show ?thesis
      using \<open>0 \<le> uint t - uint s\<close> unfolding index_of_def sub by (simp only: uint_nat) simp
  qed
qed

text \<open>The last tick of a well-formed buffer, and the membership of a tick.\<close>

lemma wf_end:
  assumes "ib_wf b" and "start_tick b = Some s"
  shows "unat (tick_add_i32 s (last_index b)) + 1 = unat s + length (inputs b)"
proof -
  have len: "length (inputs b) < 2 ^ 31" "unat s + length (inputs b) < 2 ^ 32" "s = 0 \<longrightarrow> inputs b \<noteq> []"
    using assms by (auto simp: ib_wf_def)
  then have "0 < unat s + length (inputs b)"
    by (metis add_gr_0 length_greater_0_conv neq0_conv unat_eq_zero)
  moreover have "unat s + length (inputs b) < 4294967296"
    using len(2) by simp
  ultimately have "0 \<le> uint s + (int (length (inputs b)) - 1)"
    "uint s + (int (length (inputs b)) - 1) < 4294967296"
    unfolding uint_nat by linarith+
  from uint_tick_add_i32_exact [OF this(1)] this
  have "uint (tick_add_i32 s (last_index b)) = uint s + (int (length (inputs b)) - 1)"
    using len(1) by (simp add: last_index_eq)
  then show ?thesis
    by (simp only: uint_nat)
qed

lemma wf_range:
  assumes "ib_wf b" and "start_tick b = Some s"
  shows "tick_add_i32 s (last_index b) < t \<longleftrightarrow> unat s + length (inputs b) \<le> unat t"
  using wf_end [OF assms] by (auto simp: word_less_nat_alt)

lemma take_Suc_snoc: "i < length xs \<Longrightarrow> take (Suc i) xs = take i xs @ [xs ! i]"
  by (simp add: take_Suc_conv_app_nth)

lemma ib_get_input_at:
  assumes "ib_wf b"
  shows "ib_get b t = Some (input_at b (unat t))"
proof (cases "start_tick b")
  case None
  then show ?thesis by (subst ib_get.simps) (simp add: input_at_def)
next
  case (Some s)
  note rng = wf_range [OF assms Some]
  have len: "length (inputs b) < 2 ^ 31" "s = 0 \<Longrightarrow> inputs b \<noteq> [] \<and> hd (inputs b) \<noteq> SameAsPrecedent"
    using assms Some by (auto simp: ib_wf_def)
  show ?thesis
  proof (induction "unat t - unat s" arbitrary: t rule: less_induct)
    case less
    show ?case
    proof (cases "inputs b = [] \<or> t < s \<or> tick_add_i32 s (last_index b) < t")
      case True
      then show ?thesis
        using Some rng [of t] by (subst ib_get.simps) (auto simp: input_at_def word_less_nat_alt)
    next
      case False
      let ?i = "unat t - unat s"
      have st: "s \<le> t" "unat s \<le> unat t" and i: "?i < length (inputs b)"
        using False rng [of t] by (auto simp: word_le_nat_alt not_less)
      have idx: "index_of t s = ?i"
        using index_of_eq(1) [OF st(1)] i len(1) by simp
      have at: "input_at b (unat t) = receive_state (inputs b ! ?i) (resolve (take ?i (inputs b)))"
        using Some st i by (simp add: input_at_def take_Suc_snoc resolve_snoc) linarith
      show ?thesis
      proof (cases "inputs b ! ?i")
        case SameAsPrecedent
        have n: "unat t < unat s + length (inputs b)"
          using st i by linarith
        have prev: "ib_get b t = ib_get b (tick_sub_u32 t 1)"
          using Some False idx i SameAsPrecedent by (subst ib_get.simps) (simp add: get_index_def)
        show ?thesis
        proof (cases "?i = 0")
          case True
          then have "t = s" using st by (simp add: word_unat_eq_iff)
          have "s \<noteq> 0" using len(2) True SameAsPrecedent by (auto simp: hd_conv_nth)
          then have "tick_sub_u32 t 1 < s"
            using \<open>t = s\<close> unat_gt_0 [of s] by (simp add: word_less_nat_alt unat_tick_sub_u32)
          then have "ib_get b (tick_sub_u32 t 1) = Some None"
            using Some by (subst ib_get.simps) simp
          with prev at True SameAsPrecedent show ?thesis by (simp add: receive_state_def)
        next
          case False
          then have t: "unat (tick_sub_u32 t 1) = unat t - 1"
            by (simp add: unat_tick_sub_u32)
          moreover have "input_at b (unat t - 1) = resolve (take ?i (inputs b))"
          proof -
            have "unat s \<le> unat t - 1" "unat t - 1 < unat s + length (inputs b)"
              "Suc (unat t - 1 - unat s) = ?i"
              using False st i by linarith+
            with Some show ?thesis by (simp add: input_at_def)
          qed
          ultimately show ?thesis
            using less [of "tick_sub_u32 t 1"] prev at SameAsPrecedent False by (simp add: receive_state_def)
        qed
      qed (use Some False idx i at in \<open>subst ib_get.simps, simp add: get_index_def receive_state_def\<close>)+
    qed
  qed
qed

section \<open>Writing and clipping\<close>

lemma wf_parts:
  assumes "ib_wf b" and "start_tick b = Some s"
  shows "length (inputs b) < 2147483648" and "unat s + length (inputs b) < 4294967296"
    and "s = 0 \<Longrightarrow> inputs b \<noteq> [] \<and> hd (inputs b) \<noteq> SameAsPrecedent"
  using assms by (auto simp: ib_wf_def)

lemma set_raw_within:
  assumes "ib_wf b" and "start_tick b = Some s" and "s \<le> t"
    and "unat t < unat s + length (inputs b)"
  shows "set_raw t v b = Some (b\<lparr>inputs := (inputs b)[unat t - unat s := v]\<rparr>)"
proof -
  have i: "unat t - unat s < length (inputs b)"
    using assms(3,4) by (simp add: word_le_nat_alt)
  have "index_of t s = unat t - unat s"
    by (rule index_of_eq(1)) (use assms(3) i wf_parts(1) [OF assms(1,2)] in simp_all)
  moreover have "\<not> tick_add_i32 s (last_index b) < t"
    using assms(4) by (simp add: wf_range [OF assms(1,2)])
  ultimately show ?thesis
    using assms(2,3) i by (simp add: set_raw_def Let_def not_less)
qed

lemma set_raw_beyond:
  assumes "ib_wf b" and "start_tick b = Some s" and "unat s + length (inputs b) \<le> unat t"
    and "unat t - unat s < 2147483647"
  shows "set_raw t v b = Some (b\<lparr>inputs := inputs b @
    replicate (unat t - (unat s + length (inputs b))) SameAsPrecedent @ [v]\<rparr>)"
proof -
  let ?e = "tick_add_i32 s (last_index b)"
  note e = wf_end [OF assms(1,2)]
  have less: "?e < t"
    using assms(3) by (simp add: wf_range [OF assms(1,2)])
  have "index_of t s = unat t - unat s"
    by (rule index_of_eq(1)) (use assms(3,4) in \<open>simp_all add: word_le_nat_alt\<close>)
  moreover have "nat (tick_sub t ?e - 1) = unat t - (unat s + length (inputs b))"
  proof -
    have "?e \<le> t" "unat t - unat ?e < 2 ^ 31"
      using less e assms(4) by simp_all
    then have "tick_sub t ?e = uint t - uint ?e"
      by (rule index_of_eq(2))
    then show ?thesis
      using e assms(3) by (simp only: uint_nat)
  qed
  moreover have "unat t - unat s = length (inputs b) + (unat t - (unat s + length (inputs b)))" "s \<le> t"
    using assms(3) by (simp_all add: word_le_nat_alt)
  ultimately show ?thesis
    using assms(2) less by (simp add: set_raw_def Let_def not_less list_update_append)
qed

lemma clip_after_within:
  assumes "ib_wf b" and "start_tick b = Some s" and "s \<le> t"
    and "unat t < unat s + length (inputs b)"
  shows "clip_after t b = Some (b\<lparr>inputs := take (Suc (unat t - unat s)) (inputs b)\<rparr>)"
proof -
  let ?e = "tick_add_i32 s (last_index b)"
  have i: "unat t - unat s < length (inputs b)"
    using assms(3,4) by (simp add: word_le_nat_alt)
  note len = wf_parts(1) [OF assms(1,2)] and e = wf_end [OF assms(1,2)]
  have sub: "tick_sub t s = uint t - uint s"
    by (rule index_of_eq(2)) (use assms(3) i len in simp_all)
  have nat: "nat (tick_sub t s + 1) = Suc (unat t - unat s)" "tick_sub t s \<noteq> i32_max"
  proof -
    have le: "unat s \<le> unat t" using assms(3) by (simp add: word_le_nat_alt)
    then show "nat (tick_sub t s + 1) = Suc (unat t - unat s)"
      unfolding sub uint_nat by linarith
    have "uint t - uint s < 2147483647"
      unfolding uint_nat using le i len by linarith
    then show "tick_sub t s \<noteq> i32_max"
      unfolding sub i32_max_def by simp
  qed
  show ?thesis
  proof (cases "?e \<le> t")
    case True
    then have "Suc (unat t - unat s) = length (inputs b)"
      using e assms(3,4) by (simp add: word_le_nat_alt)
    with True assms(2,3) show ?thesis
      by (simp add: clip_after_def end_tick_def)
  next
    case False
    with assms(2,3) i nat show ?thesis
      by (simp add: clip_after_def end_tick_def Let_def not_less)
  qed
qed

lemma wf_inputs:
  assumes "ib_wf b" and "start_tick b = Some s" and "length xs < 2147483648"
    and "unat s + length xs < 4294967296" and "s = 0 \<Longrightarrow> xs \<noteq> [] \<and> hd xs \<noteq> SameAsPrecedent"
  shows "ib_wf (b\<lparr>inputs := xs\<rparr>)"
  using assms by (simp add: ib_wf_def)

text \<open>
  An input that is set after the last one is found at its tick, the ticks of a gap repeat the last
  input before them, and the other ticks are unchanged.
\<close>

lemma resolve_repeated [simp]: "resolve (xs @ replicate k SameAsPrecedent) = resolve xs"
proof (induction k)
  case (Suc k)
  have "resolve ((xs @ replicate k SameAsPrecedent) @ [SameAsPrecedent]) = resolve xs"
    using Suc by (simp only: resolve_simps)
  then show ?case by (simp add: replicate_append_same)
qed simp

lemma input_at_last:
  assumes "start_tick b = Some s" and "inputs b \<noteq> []" and "n + 1 = unat s + length (inputs b)"
  shows "input_at b n = resolve (inputs b)"
proof -
  have "unat s \<le> n" "n < unat s + length (inputs b)" "length (inputs b) \<le> Suc (n - unat s)"
    using assms(2,3) by (cases "inputs b"; simp)+
  with assms(1) show ?thesis by (simp add: input_at_def)
qed

lemma ib_set_result:
  assumes "ib_wf b" and "start_tick b = Some s" and "unat s + length (inputs b) \<le> unat t"
    and "unat t < 4294967295" and "unat t - unat s < 2147483647"
  shows "\<exists>b'. ib_set t v b = Some b' \<and> ib_wf b' \<and>
    (\<forall>n. input_at b' n =
      (if n = unat t then Some v
       else if unat s + length (inputs b) \<le> n \<and> n < unat t then resolve (inputs b)
       else input_at b n))"
proof -
  note w = wf_parts [OF assms(1,2)]
  let ?E = "unat s + length (inputs b)" and ?k = "unat t - (unat s + length (inputs b))"
  let ?p = "input_at b (unat (tick_sub_u32 t 1))"
  let ?x = "if ?p = Some v then SameAsPrecedent else Input v"
  let ?xs = "inputs b @ replicate ?k SameAsPrecedent @ [?x]"
  have set: "ib_set t v b = Some (b\<lparr>inputs := ?xs\<rparr>)"
    using set_raw_beyond [OF assms(1,2,3,5)] by (simp add: ib_set_def ib_get_input_at [OF assms(1)])
  have newest: "resolve ?xs = Some v"
  proof (cases "?p = Some v")
    case True
    then have p: "inputs b \<noteq> []" "unat t - 1 < ?E"
      using assms(2) by (auto simp: input_at_def unat_tick_sub_u32 split: if_splits)
    then have "0 < unat t" "unat t - 1 + 1 = ?E"
      using assms(3) by (cases "inputs b"; simp)+
    then have "input_at b (unat t - 1) = resolve (inputs b)"
      by (intro input_at_last [OF assms(2) p(1)])
    then have "resolve (inputs b) = Some v"
      using True by (simp add: unat_tick_sub_u32)
    moreover have "?xs = inputs b @ replicate (Suc ?k) SameAsPrecedent"
      using True by (simp add: replicate_append_same)
    ultimately show ?thesis by (simp only: resolve_repeated)
  next
    case False
    then show ?thesis
      using resolve_simps(3) [of "inputs b @ replicate ?k SameAsPrecedent" v] by simp
  qed
  have len: "length ?xs = Suc (unat t - unat s)"
    using assms(3) by simp
  have "ib_wf (b\<lparr>inputs := ?xs\<rparr>)"
    by (rule wf_inputs [OF assms(1,2)]) (use len assms(3-5) w(3) in \<open>simp_all add: hd_append\<close>)
  moreover have "input_at (b\<lparr>inputs := ?xs\<rparr>) n =
      (if n = unat t then Some v else if ?E \<le> n \<and> n < unat t then resolve (inputs b) else input_at b n)" for n
  proof -
    consider "n < unat s" | "unat s \<le> n" "n < ?E" | "?E \<le> n" "n < unat t" | "n = unat t" | "unat t < n"
      by linarith
    then show ?thesis
    proof cases
      case 3
      then have "take (Suc (n - unat s)) ?xs = inputs b @ replicate (Suc (n - ?E)) SameAsPrecedent"
        by (simp add: Suc_diff_le min_def del: replicate_Suc)
      with 3 assms(2) len show ?thesis
        by (simp add: input_at_def del: replicate_Suc)
    next
      case 4
      then have "take (Suc (n - unat s)) ?xs = ?xs" using len by (simp only: take_all)
      moreover have "unat s \<le> n" "n < unat s + length ?xs" using 4 assms(3) len by simp_all
      ultimately show ?thesis using 4 assms(2) newest by (simp add: input_at_def)
    qed (use assms(2,3) len in \<open>simp_all add: input_at_def\<close>)
  qed
  ultimately show ?thesis
    using set by blast
qed

section \<open>The update of a buffer\<close>

text \<open>
  The input that was predicted for a tick: the buffered one, and beyond the end of the buffer the
  last one, decayed once per tick.
\<close>

definition predicted_at :: "('a \<Rightarrow> 'a) \<Rightarrow> 'a input_buffer \<Rightarrow> nat \<Rightarrow> 'a option" where
  "predicted_at decay b n =
     (case end_tick b of
        None \<Rightarrow> None
      | Some e \<Rightarrow>
          if n \<le> unat e then input_at b n
          else map_option (decay ^^ (n - unat e)) (input_at b (unat e)))"

lemma predicted_at_Suc:
  "end_tick b = Some e \<Longrightarrow> unat e \<le> n \<Longrightarrow>
   predicted_at decay b (Suc n) = map_option decay (predicted_at decay b n)"
  by (cases "input_at b (unat e)") (auto simp: predicted_at_def Suc_diff_le not_le)

text \<open>The ticks of a message.\<close>

lemma unat_tick_add: "unat a + unat b < 4294967296 \<Longrightarrow> unat (tick_add a b) = unat a + unat b"
proof -
  assume n: "unat a + unat b < 4294967296"
  then have "uint a + uint b < 4294967296"
    unfolding uint_nat by linarith
  then show ?thesis
    using n by (simp add: tick_add_def saturating_add_u32_def unat_word_ariths)
qed

lemma message_tick:
  "unat first + d < 4294967296 \<Longrightarrow> unat (tick_add first (word_of_nat d)) = unat first + d"
  by (simp add: unat_tick_add unat_of_nat)

lemma ib_get_inputs:
  assumes "ib_wf b" and "start_tick b = Some s" and "unat s \<le> unat t"
    and "unat t < unat s + length (inputs b)"
  shows "ib_get b t = Some (resolve (take (Suc (unat t - unat s)) (inputs b)))"
  using assms by (simp add: ib_get_input_at input_at_def)

text \<open>After the first mismatch the states of the message are appended as they are.\<close>

lemma update_ticks_after_mismatch:
  assumes "ib_wf (input_buffer u)" and "start_tick (input_buffer u) = Some s"
    and "earliest_mismatch u = Some m"
    and "unat first + d = unat s + length (inputs (input_buffer u))"
    and "unat first + d + length states < 4294967295"
    and "unat first + d + length states - unat s < 2147483647"
    and "0 < length (inputs (input_buffer u))"
  shows "\<exists>u'. update_ticks decay last_remote previous_end first d states u = Some u' \<and>
    earliest_mismatch u' = Some m \<and>
    input_buffer u' = (input_buffer u)\<lparr>inputs := inputs (input_buffer u) @ states\<rparr>"
  using assms
proof (induction states arbitrary: d u)
  case Nil
  then show ?case by simp
next
  case (Cons state states)
  let ?b = "input_buffer u" and ?t = "tick_add first (word_of_nat d)"
  have t: "unat ?t = unat s + length (inputs ?b)"
    using Cons.prems(4,5) by (simp add: message_tick)
  have raw: "set_raw ?t state ?b = Some (?b\<lparr>inputs := inputs ?b @ [state]\<rparr>)"
    using set_raw_beyond [OF Cons.prems(1,2), of ?t state] t Cons.prems(4,6) by simp
  define previous where "previous = (if (case previous_end of Some e \<Rightarrow> ?t \<le> e | None \<Rightarrow> False)
      then input_at ?b (unat ?t) else map_option decay (previous_predicted_input u))"
  let ?u = "u\<lparr>previous_predicted_input := previous, input_buffer := ?b\<lparr>inputs := inputs ?b @ [state]\<rparr>\<rparr>"
  have step: "update_tick decay last_remote previous_end ?t state u = Some ?u"
    using Cons.prems(1,3) raw
    by (simp add: update_tick_def ib_get_input_at previous_def Let_def split: option.split)
  have "ib_wf (input_buffer ?u)"
    using wf_inputs [OF Cons.prems(1,2), of "inputs ?b @ [state]"] wf_parts [OF Cons.prems(1,2)]
      Cons.prems(4,5,6,7) by auto
  then have "\<exists>u'. update_ticks decay last_remote previous_end first (Suc d) states ?u = Some u' \<and>
    earliest_mismatch u' = Some m \<and>
    input_buffer u' = (input_buffer ?u)\<lparr>inputs := inputs (input_buffer ?u) @ states\<rparr>"
    by (rule Cons.IH) (use Cons.prems in simp_all)
  then show ?case
    using step by auto
qed

text \<open>
  Up to the first mismatch the received inputs are appended beyond the end of the buffer.
  \<open>message_at\<close> is the input that a message has for a tick.
\<close>

definition message_at :: "'a compressed list \<Rightarrow> nat \<Rightarrow> nat \<Rightarrow> 'a option" where
  "message_at states first n = resolve (take (Suc (n - first)) states)"

definition extended_inputs ::
  "'a input_buffer \<Rightarrow> nat \<Rightarrow> 'a compressed list \<Rightarrow> nat \<Rightarrow> nat \<Rightarrow> 'a compressed list" where
  "extended_inputs b s states first stop =
     inputs b @ map (\<lambda>n. compressed_from (message_at states first n)) [s + length (inputs b)..<stop]"

lemma extended_inputs_Suc:
  "extended_inputs b s states first (Suc n) =
    (if s + length (inputs b) \<le> n
     then extended_inputs b s states first n @ [compressed_from (message_at states first n)]
     else extended_inputs b s states first n)"
  by (auto simp: extended_inputs_def)

lemma length_extended_inputs:
  "length (extended_inputs b s states first stop) = length (inputs b) + (stop - (s + length (inputs b)))"
  by (simp add: extended_inputs_def)

lemma extended_inputs_within:
  "stop \<le> s + length (inputs b) \<Longrightarrow> extended_inputs b s states first stop = inputs b"
  by (simp add: extended_inputs_def)

lemma wf_extended_inputs:
  assumes "ib_wf b" and "start_tick b = Some s" and "inputs b \<noteq> []"
    and "stop < 4294967296" and "stop - unat s < 2147483648"
  shows "ib_wf (b\<lparr>inputs := extended_inputs b (unat s) states first stop\<rparr>)"
proof (rule wf_inputs [OF assms(1,2)])
  note w = wf_parts [OF assms(1,2)]
  show "length (extended_inputs b (unat s) states first stop) < 2147483648"
    "unat s + length (extended_inputs b (unat s) states first stop) < 4294967296"
    using w(1,2) assms(4,5) by (simp_all only: length_extended_inputs)
  show "extended_inputs b (unat s) states first stop \<noteq> [] \<and>
    hd (extended_inputs b (unat s) states first stop) \<noteq> SameAsPrecedent" if "s = 0"
    using w(3) [OF that] by (simp add: extended_inputs_def)
qed

lemma hd_update: "i \<noteq> 0 \<Longrightarrow> hd (xs[i := x]) = hd xs"
  by (cases xs; cases i) auto

lemma update_tick_before_mismatch:
  assumes "ib_wf b" and "start_tick b = Some s" and "inputs b \<noteq> []"
    and "earliest_mismatch u = None" and "latest_received_input u = resolve (take d states)"
    and "input_buffer u = b\<lparr>inputs := extended_inputs b (unat s) states first n\<rparr>"
    and "unat s + length (inputs b) \<le> n \<Longrightarrow> previous_predicted_input u = predicted_at decay b (n - 1)"
    and "d < length states" and "n = first + d" and "unat t = n"
    and "n < 4294967295" and "n - unat s < 2147483646"
    and "unat s \<le> unat l" and "unat l < unat s + length (inputs b)"
  shows "update_tick decay (Some l) (end_tick b) t (states ! d) u =
    Some (if n \<le> unat l \<or> predicted_at decay b n = message_at states first n
      then u\<lparr>previous_predicted_input := predicted_at decay b n,
        latest_received_input := message_at states first n,
        input_buffer := b\<lparr>inputs := extended_inputs b (unat s) states first (Suc n)\<rparr>\<rparr>
      else u\<lparr>previous_predicted_input := predicted_at decay b n, earliest_mismatch := Some t,
        latest_received_input := message_at states first n,
        input_buffer := b\<lparr>inputs := take (n - unat s) (extended_inputs b (unat s) states first n) @
          [compressed_from (message_at states first n)]\<rparr>\<rparr>)"
proof -
  let ?E = "unat s + length (inputs b)" and ?b = "input_buffer u"
    and ?xs = "extended_inputs b (unat s) states first n" and ?x = "compressed_from (message_at states first n)"
  obtain e where e: "end_tick b = Some e" "Suc (unat e) = ?E"
    using wf_end [OF assms(1,2)] assms(2) by (simp add: end_tick_def)
  have in_buffer: "t \<le> e \<longleftrightarrow> n < ?E" "e < t \<longleftrightarrow> ?E \<le> n"
    using e(2) assms(10) by (auto simp: word_le_nat_alt word_less_nat_alt)
  have wf: "ib_wf ?b" and start: "start_tick ?b = Some s"
    using wf_extended_inputs [OF assms(1-3), of n states first] assms(2,6,11,12) by simp_all
  have latest: "receive_state (states ! d) (latest_received_input u) = message_at states first n"
    using assms(5,8,9) by (simp add: message_at_def take_Suc_snoc resolve_snoc)
  have previous: "(if (case end_tick b of Some e \<Rightarrow> t \<le> e | None \<Rightarrow> False)
      then ib_get ?b t else Some (map_option decay (previous_predicted_input u))) = Some (predicted_at decay b n)"
  proof (cases "n < ?E")
    case True
    then have "?b = b" using assms(6) by (simp add: extended_inputs_within)
    with True show ?thesis
      using e in_buffer(1) assms(10) by (simp add: ib_get_input_at [OF assms(1)] predicted_at_def)
  next
    case False
    then have "map_option decay (previous_predicted_input u) = predicted_at decay b n"
      using predicted_at_Suc [OF e(1), of "n - 1" decay] assms(7) e(2) by simp
    with False show ?thesis
      using e(1) in_buffer(1) by simp
  qed
  have le: "unat s \<le> unat t" "s \<le> t" if "unat l < n"
    using that assms(10,13) by (simp_all add: word_le_nat_alt)
  have len: "length ?xs = length (inputs b) + (n - ?E)"
    by (simp add: length_extended_inputs)
  have appended: "set_raw t ?x ?b = Some (b\<lparr>inputs := ?xs @ [?x]\<rparr>)" if "?E \<le> n"
    using set_raw_beyond [OF wf start, of t ?x] that assms(6,10,12) len by simp
  have raw: "Option.bind (set_raw t ?x ?b) (clip_after t) =
      Some (b\<lparr>inputs := take (n - unat s) ?xs @ [?x]\<rparr>)" if l: "unat l < n"
  proof (cases "n < ?E")
    case True
    then have xs: "?xs = inputs b" and b: "?b = b"
      using assms(6) by (simp_all add: extended_inputs_within)
    have i: "n - unat s < length (inputs b)"
      using True l assms(13) by linarith
    have "set_raw t ?x b = Some (b\<lparr>inputs := (inputs b)[n - unat s := ?x]\<rparr>)"
      using set_raw_within [OF assms(1,2) le(2) [OF l], of ?x] True assms(10) by simp
    moreover have "clip_after t (b\<lparr>inputs := (inputs b)[n - unat s := ?x]\<rparr>) =
        Some (b\<lparr>inputs := take (n - unat s) (inputs b) @ [?x]\<rparr>)"
    proof -
      have "n - unat s \<noteq> 0" using l assms(13) by simp
      then have "ib_wf (b\<lparr>inputs := (inputs b)[n - unat s := ?x]\<rparr>)"
        using wf_inputs [OF assms(1,2), of "(inputs b)[n - unat s := ?x]"] wf_parts [OF assms(1,2)] assms(3)
        by (auto simp: hd_update)
      from clip_after_within [OF this _ le(2) [OF l]] show ?thesis
        using assms(2,10) True i by (simp add: take_Suc_snoc)
    qed
    ultimately show ?thesis using xs b by simp
  next
    case False
    then have n: "n - unat s = length ?xs" using len by linarith
    have "ib_wf (b\<lparr>inputs := ?xs @ [?x]\<rparr>)"
      using wf_extended_inputs [OF assms(1-3), of "Suc n" states first] assms(11,12) False
      by (simp add: extended_inputs_Suc)
    then have "clip_after t (b\<lparr>inputs := ?xs @ [?x]\<rparr>) =
        Some (b\<lparr>inputs := take (Suc (length ?xs)) (?xs @ [?x])\<rparr>)"
      using clip_after_within [of "b\<lparr>inputs := ?xs @ [?x]\<rparr>" s t] assms(2) le [OF l]
      by (simp add: assms(10) n [symmetric] del: take_append)
    moreover have "take (n - unat s) ?xs = ?xs"
      by (simp add: n)
    ultimately show ?thesis
      using appended False by simp
  qed
  have keep: "?b = b\<lparr>inputs := extended_inputs b (unat s) states first (Suc n)\<rparr>" if "n < ?E"
    using that assms(6) by (simp add: extended_inputs_Suc)
  have same: "u\<lparr>previous_predicted_input := predicted_at decay b n,
        latest_received_input := message_at states first n,
        input_buffer := b\<lparr>inputs := extended_inputs b (unat s) states first (Suc n)\<rparr>\<rparr> =
      u\<lparr>previous_predicted_input := predicted_at decay b n,
        latest_received_input := message_at states first n\<rparr>" if "n < ?E"
    using keep [OF that] by (cases u) simp
  have tick: "update_tick decay (Some l) (end_tick b) t (states ! d) u =
    (let u = u\<lparr>previous_predicted_input := predicted_at decay b n,
        latest_received_input := message_at states first n\<rparr> in
     if l < t
     then if predicted_at decay b n = message_at states first n
       then if e < t then do { b \<leftarrow> set_raw t ?x ?b; Some (u\<lparr>input_buffer := b\<rparr>) } else Some u
       else do { b \<leftarrow> Option.bind (set_raw t ?x ?b) (clip_after t);
         Some (u\<lparr>input_buffer := b, earliest_mismatch := Some t\<rparr>) }
     else Some u)"
    unfolding update_tick_def using previous latest assms(4) e(1)
    by (simp add: Let_def bind_assoc del: bind_split)
  show ?thesis
  proof (cases "n \<le> unat l")
    case True
    then have "\<not> l < t" "n < ?E"
      using assms(10,14) by (simp_all add: word_less_nat_alt)
    with True same show ?thesis
      by (simp add: tick)
  next
    case False
    then have l: "l < t" "unat l < n"
      using assms(10) by (simp_all add: word_less_nat_alt)
    show ?thesis
    proof (cases "predicted_at decay b n = message_at states first n")
      case True
      show ?thesis
      proof (cases "e < t")
        case beyond: True
        with True l appended in_buffer(2) show ?thesis
          by (simp add: tick extended_inputs_Suc)
      next
        case within: False
        then have "n < ?E" using in_buffer(2) by simp
        with within True l same show ?thesis
          by (simp add: tick)
      qed
    next
      case mismatch: False
      with l raw [OF l(2)] show ?thesis
        by (simp add: tick)
    qed
  qed
qed

text \<open>The whole loop: the first mismatch after the last received tick, and the resulting entries.\<close>

definition first_mismatch ::
  "('a \<Rightarrow> 'a) \<Rightarrow> 'a input_buffer \<Rightarrow> 'a compressed list \<Rightarrow> nat \<Rightarrow> nat \<Rightarrow> nat \<Rightarrow> tick option \<Rightarrow> bool" where
  "first_mismatch decay b states first l stop m \<longleftrightarrow>
     (case m of
        None \<Rightarrow> \<forall>n. l < n \<and> n < stop \<longrightarrow> predicted_at decay b n = message_at states first n
      | Some t \<Rightarrow> l < unat t \<and> unat t < stop \<and>
          predicted_at decay b (unat t) \<noteq> message_at states first (unat t) \<and>
          (\<forall>n. l < n \<and> n < unat t \<longrightarrow> predicted_at decay b n = message_at states first n))"

definition updated_inputs ::
  "'a input_buffer \<Rightarrow> nat \<Rightarrow> 'a compressed list \<Rightarrow> nat \<Rightarrow> tick option \<Rightarrow> 'a compressed list" where
  "updated_inputs b s states first m =
     (case m of
        None \<Rightarrow> extended_inputs b s states first (first + length states)
      | Some t \<Rightarrow> take (unat t - s) (extended_inputs b s states first (unat t)) @
          [compressed_from (message_at states first (unat t))] @ drop (Suc (unat t - first)) states)"

lemma update_ticks_result:
  assumes "ib_wf b" and "start_tick b = Some s" and "inputs b \<noteq> []"
    and "unat s \<le> unat l" and "unat l < unat s + length (inputs b)" and "unat first \<le> Suc (unat l)"
    and "unat first + length states < 4294967295" and "unat first + length states - unat s < 2147483646"
    and "earliest_mismatch u = None" and "latest_received_input u = resolve (take d states)"
    and "input_buffer u = b\<lparr>inputs := extended_inputs b (unat s) states (unat first) (unat first + d)\<rparr>"
    and "unat s + length (inputs b) \<le> unat first + d \<Longrightarrow>
      previous_predicted_input u = predicted_at decay b (unat first + d - 1)"
    and "d \<le> length states"
    and "\<forall>n. unat l < n \<and> n < unat first + d \<longrightarrow> predicted_at decay b n = message_at states (unat first) n"
  shows "\<exists>u'. update_ticks decay (Some l) (end_tick b) first d (drop d states) u = Some u' \<and>
    first_mismatch decay b states (unat first) (unat l) (unat first + length states) (earliest_mismatch u') \<and>
    input_buffer u' = b\<lparr>inputs := updated_inputs b (unat s) states (unat first) (earliest_mismatch u')\<rparr>"
  using assms(9-14)
proof (induction "length states - d" arbitrary: d u)
  case 0
  then have "d = length states" by simp
  with 0 show ?case
    by (auto simp: first_mismatch_def updated_inputs_def)
next
  case (Suc k)
  then have d: "d < length states" by simp
  let ?n = "unat first + d" and ?t = "tick_add first (word_of_nat d)"
  have n: "unat ?t = ?n"
    by (rule message_tick) (use d assms(7) in simp)
  have drop: "drop d states = states ! d # drop (Suc d) states"
    using d by (simp add: Cons_nth_drop_Suc)
  have tick: "update_tick decay (Some l) (end_tick b) ?t (states ! d) u =
    Some (if ?n \<le> unat l \<or> predicted_at decay b ?n = message_at states (unat first) ?n
      then u\<lparr>previous_predicted_input := predicted_at decay b ?n,
        latest_received_input := message_at states (unat first) ?n,
        input_buffer := b\<lparr>inputs := extended_inputs b (unat s) states (unat first) (Suc ?n)\<rparr>\<rparr>
      else u\<lparr>previous_predicted_input := predicted_at decay b ?n, earliest_mismatch := Some ?t,
        latest_received_input := message_at states (unat first) ?n,
        input_buffer := b\<lparr>inputs := take (?n - unat s) (extended_inputs b (unat s) states (unat first) ?n) @
          [compressed_from (message_at states (unat first) ?n)]\<rparr>\<rparr>)"
    by (rule update_tick_before_mismatch [OF assms(1-3) Suc.prems(1-4) d refl n])
      (use d assms(4-8) in simp_all)
  show ?case
  proof (cases "?n \<le> unat l \<or> predicted_at decay b ?n = message_at states (unat first) ?n")
    case True
    let ?u = "u\<lparr>previous_predicted_input := predicted_at decay b ?n,
        latest_received_input := message_at states (unat first) ?n,
        input_buffer := b\<lparr>inputs := extended_inputs b (unat s) states (unat first) (Suc ?n)\<rparr>\<rparr>"
    have "\<exists>u'. update_ticks decay (Some l) (end_tick b) first (Suc d) (drop (Suc d) states) ?u = Some u' \<and>
      first_mismatch decay b states (unat first) (unat l) (unat first + length states) (earliest_mismatch u') \<and>
      input_buffer u' = b\<lparr>inputs := updated_inputs b (unat s) states (unat first) (earliest_mismatch u')\<rparr>"
    proof (rule Suc.hyps(1))
      show "\<forall>m. unat l < m \<and> m < unat first + Suc d \<longrightarrow>
          predicted_at decay b m = message_at states (unat first) m"
        using True Suc.prems(6) by (auto simp: less_Suc_eq)
    qed (use Suc.hyps(2) Suc.prems(1) d in \<open>simp_all add: message_at_def\<close>)
    with True tick drop show ?thesis by simp
  next
    case False
    let ?u = "u\<lparr>previous_predicted_input := predicted_at decay b ?n, earliest_mismatch := Some ?t,
        latest_received_input := message_at states (unat first) ?n,
        input_buffer := b\<lparr>inputs := take (?n - unat s) (extended_inputs b (unat s) states (unat first) ?n) @
          [compressed_from (message_at states (unat first) ?n)]\<rparr>\<rparr>"
    let ?ys = "take (?n - unat s) (extended_inputs b (unat s) states (unat first) ?n)"
    have len: "length ?ys = ?n - unat s" "?n - unat s \<noteq> 0"
      using False assms(4,5) by (simp_all add: length_extended_inputs)
    then have "?ys \<noteq> []" by (metis length_0_conv)
    moreover have "hd ?ys = hd (inputs b)"
      using len(2) assms(3) by (simp add: hd_take extended_inputs_def)
    moreover have "length (?ys @ [compressed_from (message_at states (unat first) ?n)]) = Suc (?n - unat s)"
      using len(1) by simp
    ultimately have ys: "?ys \<noteq> []" "hd ?ys = hd (inputs b)"
      "length (?ys @ [compressed_from (message_at states (unat first) ?n)]) = Suc (?n - unat s)"
      by blast+
    have "ib_wf (b\<lparr>inputs := ?ys @ [compressed_from (message_at states (unat first) ?n)]\<rparr>)"
    proof (rule wf_inputs [OF assms(1,2)])
      show "length (?ys @ [compressed_from (message_at states (unat first) ?n)]) < 2147483648"
        unfolding ys(3) using assms(8) d by linarith
      show "unat s + length (?ys @ [compressed_from (message_at states (unat first) ?n)]) < 4294967296"
        unfolding ys(3) using assms(7) d len(2) by linarith
      show "?ys @ [compressed_from (message_at states (unat first) ?n)] \<noteq> [] \<and>
          hd (?ys @ [compressed_from (message_at states (unat first) ?n)]) \<noteq> SameAsPrecedent" if "s = 0"
        using wf_parts(3) [OF assms(1,2) that] ys(1,2) by (metis hd_append2 append_is_Nil_conv)
    qed
    then have wf: "ib_wf (input_buffer ?u)" by simp
    have "\<exists>u'. update_ticks decay (Some l) (end_tick b) first (Suc d) (drop (Suc d) states) ?u = Some u' \<and>
      earliest_mismatch u' = Some ?t \<and>
      input_buffer u' = (input_buffer ?u)\<lparr>inputs := inputs (input_buffer ?u) @ drop (Suc d) states\<rparr>"
      by (rule update_ticks_after_mismatch [OF wf])
        (use assms(2,7,8) len d in \<open>simp_all add: Suc_diff_le, linarith+\<close>)
    with False tick drop n Suc.prems(6) d show ?thesis
      by (auto simp: first_mismatch_def updated_inputs_def)
  qed
qed

lemma take_past: "take (Suc (length ys) + k) (ys @ [x] @ zs) = (ys @ [x]) @ take k zs"
  by simp

lemma ib_wf_remote [simp]: "ib_wf (b\<lparr>last_remote_tick := l\<rparr>) \<longleftrightarrow> ib_wf b"
  by (simp add: ib_wf_def split: option.split)

lemma resolve_extended_inputs:
  assumes "ib_wf b" and "start_tick b = Some s" and "unat s \<le> n" and "n < stop"
    and "n < unat s + length (inputs b) \<Longrightarrow> input_at b n = message_at states first n"
  shows "resolve (take (Suc (n - unat s)) (extended_inputs b (unat s) states first stop)) =
    message_at states first n"
proof (cases "n < unat s + length (inputs b)")
  case True
  then have "Suc (n - unat s) \<le> length (inputs b)"
    using assms(3) by linarith
  then show ?thesis
    using assms(2,3,5) True by (simp add: extended_inputs_def input_at_def)
next
  case False
  let ?E = "unat s + length (inputs b)"
  have "[?E..<stop] = [?E..<Suc n] @ [Suc n..<stop]"
    using False assms(4) upt_add_eq_append [of ?E "Suc n" "stop - Suc n"]
    by (simp del: upt_Suc)
  moreover have "Suc (n - unat s) = length (inputs b) + length [?E..<Suc n]"
    using False assms(3) by simp
  ultimately have "take (Suc (n - unat s)) (extended_inputs b (unat s) states first stop) =
      extended_inputs b (unat s) states first (Suc n)"
    by (simp add: extended_inputs_def del: upt_Suc)
  then show ?thesis
    using False by (simp add: extended_inputs_Suc)
qed

lemma resolve_updated_inputs:
  assumes "ib_wf b" and "start_tick b = Some s" and "unat s \<le> unat l"
    and "unat l < unat s + length (inputs b)" and "first \<le> Suc (unat l)" and "end_tick b = Some e"
    and "stop = first + length states"
    and "first_mismatch decay b states first (unat l) stop m"
  shows "unat s \<le> n \<Longrightarrow> n \<le> unat l \<Longrightarrow>
      resolve (take (Suc (n - unat s)) (updated_inputs b (unat s) states first m)) = input_at b n"
    and "unat l < n \<Longrightarrow> n < stop \<Longrightarrow>
      resolve (take (Suc (n - unat s)) (updated_inputs b (unat s) states first m)) =
        message_at states first n"
proof -
  have e: "Suc (unat e) = unat s + length (inputs b)"
    using wf_end [OF assms(1,2)] assms(2,6) by (simp add: end_tick_def)
  have kept: "take (Suc (n - unat s)) (extended_inputs b (unat s) states first k) =
      take (Suc (n - unat s)) (inputs b)" if "n \<le> unat l" "unat s \<le> n" for n k
    using that assms(4) by (simp add: extended_inputs_def)
  have predicted: "predicted_at decay b n = input_at b n" if "n < unat s + length (inputs b)" for n
    using that e assms(6) by (simp add: predicted_at_def)
  show "resolve (take (Suc (n - unat s)) (updated_inputs b (unat s) states first m)) = input_at b n"
    if n: "unat s \<le> n" "n \<le> unat l"
  proof -
    have "take (Suc (n - unat s)) (updated_inputs b (unat s) states first m) =
        take (Suc (n - unat s)) (inputs b)"
    proof (cases m)
      case None
      with n show ?thesis by (simp add: updated_inputs_def kept)
    next
      case (Some t)
      then have "unat l < unat t" using assms(8) by (simp add: first_mismatch_def)
      with n have "Suc (n - unat s) \<le> unat t - unat s" by linarith
      moreover from this have "Suc (n - unat s) \<le>
          length (take (unat t - unat s) (extended_inputs b (unat s) states first (unat t)))"
        using n assms(4) by (simp add: length_extended_inputs)
      ultimately show ?thesis
        using Some n by (simp add: updated_inputs_def kept min_absorb1)
    qed
    then show ?thesis
      using n assms(2,4) by (simp add: input_at_def)
  qed
  show "resolve (take (Suc (n - unat s)) (updated_inputs b (unat s) states first m)) =
      message_at states first n" if n: "unat l < n" "n < stop"
  proof (cases m)
    case None
    with n assms(3,7,8) predicted show ?thesis
      by (auto simp: updated_inputs_def first_mismatch_def intro!: resolve_extended_inputs [OF assms(1,2)])
  next
    case (Some t)
    let ?ys = "take (unat t - unat s) (extended_inputs b (unat s) states first (unat t))"
    have t: "unat l < unat t" "unat t < stop"
      "\<And>n. unat l < n \<Longrightarrow> n < unat t \<Longrightarrow> predicted_at decay b n = message_at states first n"
      using assms(8) Some by (simp_all add: first_mismatch_def)
    have len: "length ?ys = unat t - unat s"
      using t(1) assms(3,4) by (simp add: length_extended_inputs)
    have m: "updated_inputs b (unat s) states first m =
        ?ys @ [compressed_from (message_at states first (unat t))] @ drop (Suc (unat t - first)) states"
      using Some by (simp add: updated_inputs_def)
    consider "n < unat t" | "n = unat t" | "unat t < n" by linarith
    then show ?thesis
    proof cases
      case 1
      then have "Suc (n - unat s) \<le> unat t - unat s" using n assms(3) by linarith
      then have "take (Suc (n - unat s)) (updated_inputs b (unat s) states first m) =
          take (Suc (n - unat s)) (extended_inputs b (unat s) states first (unat t))"
        using m len by (simp add: min_absorb1)
      moreover have "input_at b n = message_at states first n" if "n < unat s + length (inputs b)"
        using predicted [OF that] t(3) [OF n(1) 1] by simp
      ultimately show ?thesis
        using resolve_extended_inputs [OF assms(1,2), of n "unat t" states first] 1 n assms(3)
        by simp
    next
      case 2
      then have "Suc (n - unat s) = Suc (length ?ys)" using len by simp
      then have "take (Suc (n - unat s)) (updated_inputs b (unat s) states first m) =
          ?ys @ [compressed_from (message_at states first (unat t))]"
        unfolding m by (simp only: take_append append_Cons append_Nil take_Suc_Cons len) simp
      with 2 show ?thesis by simp
    next
      case 3
      then have k: "Suc (n - unat s) = Suc (length ?ys) + (n - unat t)"
        using len t(1) assms(3) by linarith
      have "take (Suc (n - unat s)) (updated_inputs b (unat s) states first m) =
          (?ys @ [compressed_from (message_at states first (unat t))]) @
          take (n - unat t) (drop (Suc (unat t - first)) states)"
        unfolding k m by (rule take_past)
      then have "resolve (take (Suc (n - unat s)) (updated_inputs b (unat s) states first m)) =
          fold receive_state (take (n - unat t) (drop (Suc (unat t - first)) states))
            (resolve (take (Suc (unat t - first)) states))"
        by (simp only: resolve_append [of "?ys @ [compressed_from (message_at states first (unat t))]"]
            resolve_simps(5)) (simp only: message_at_def)
      also have "\<dots> = resolve (take (Suc (unat t - first) + (n - unat t)) states)"
        by (simp only: take_add resolve_append)
      also have "Suc (unat t - first) + (n - unat t) = Suc (n - first)"
        using 3 t(1) assms(5) by linarith
      finally show ?thesis by (simp add: message_at_def)
    qed
  qed
qed

lemma wf_updated_inputs:
  assumes "ib_wf b" and "start_tick b = Some s" and "unat s \<le> unat l"
    and "unat l < unat s + length (inputs b)" and "first \<le> Suc (unat l)"
    and "stop = first + length states" and "stop < 4294967296" and "stop - unat s < 2147483648"
    and "first_mismatch decay b states first (unat l) stop m"
  shows "ib_wf (b\<lparr>inputs := updated_inputs b (unat s) states first m\<rparr>)"
proof (cases m)
  case None
  have "inputs b \<noteq> []" using assms(3,4) by auto
  with None show ?thesis
    using wf_extended_inputs [OF assms(1,2), of stop states first] assms(6-8)
    by (simp add: updated_inputs_def)
next
  case (Some t)
  have t: "unat l < unat t" "unat t < stop"
    using assms(9) Some by (simp_all add: first_mismatch_def)
  let ?ys = "take (unat t - unat s) (extended_inputs b (unat s) states first (unat t))"
  have len: "length ?ys = unat t - unat s"
    using t(1) assms(3,4) by (simp add: length_extended_inputs)
  then have "?ys \<noteq> []"
    using t(1) assms(3) by (metis length_0_conv diff_is_0_eq not_le le_less_trans)
  moreover have "hd ?ys = hd (inputs b)"
  proof -
    have "inputs b \<noteq> []" "0 < unat t - unat s"
      using t(1) assms(3,4) by auto
    then show ?thesis by (simp add: hd_take extended_inputs_def)
  qed
  moreover have "length (updated_inputs b (unat s) states first m) = stop - unat s"
    using len t assms(3,5,6) by (simp add: Some updated_inputs_def)
  ultimately have xs: "updated_inputs b (unat s) states first m \<noteq> []"
    "hd (updated_inputs b (unat s) states first m) = hd (inputs b)"
    "length (updated_inputs b (unat s) states first m) = stop - unat s"
    by (simp_all add: Some updated_inputs_def)
  show ?thesis
  proof (rule wf_inputs [OF assms(1,2)])
    show "length (updated_inputs b (unat s) states first m) < 2147483648"
      unfolding xs(3) by (rule assms(8))
    show "unat s + length (updated_inputs b (unat s) states first m) < 4294967296"
      unfolding xs(3) using assms(3,7) t by linarith
  qed (use xs(1,2) wf_parts(3) [OF assms(1,2)] in simp_all)
qed

lemma update_buffer_result:
  assumes "ib_wf b" and "last_remote_tick b = Some l" and "start_tick b = Some s" and "s \<le> l"
    and "end_tick b = Some e" and "l \<le> e"
    and "length states \<le> Suc (unat m_end)" and "Suc (unat m_end) - length states \<le> Suc (unat l)"
    and "unat m_end < 4294967294" and "unat m_end - unat s < 2147483645"
  shows "\<exists>m b'. update_buffer decay states m_end b = Some (m, b') \<and>
      first_mismatch decay b states (Suc (unat m_end) - length states) (unat l) (Suc (unat m_end)) m \<and>
      last_remote_tick b' = Some m_end \<and> ib_wf b' \<and>
      (\<forall>t. s \<le> t \<and> t \<le> l \<longrightarrow> ib_get b' t = ib_get b t) \<and>
      (\<forall>t. l < t \<and> t \<le> m_end \<longrightarrow>
        ib_get b' t = Some (message_at states (Suc (unat m_end) - length states) (unat t)))"
proof -
  let ?first = "message_start m_end states" and ?stop = "Suc (unat m_end)"
  have e: "Suc (unat e) = unat s + length (inputs b)"
    using wf_end [OF assms(1,3)] assms(3,5) by (simp add: end_tick_def)
  have l: "unat s \<le> unat l" "unat l < unat s + length (inputs b)"
    using assms(4,6) e by (simp_all add: word_le_nat_alt)
  then have ne: "inputs b \<noteq> []" by auto
  have first: "unat ?first = ?stop - length states"
  proof -
    have "unat m_end + 1 < 4294967296" using assms(9) by linarith
    then have "0 \<le> uint m_end + 1" "uint m_end + 1 < 4294967296"
      unfolding uint_nat by linarith+
    then have "uint (tick_add_i32 m_end 1) = uint m_end + 1"
      by (simp add: uint_tick_add_i32_exact)
    then have "unat (tick_add_i32 m_end 1) = ?stop"
      unfolding uint_nat by linarith
    moreover have "unat (word_of_nat (length states) :: u32) = length states"
      using assms(7,9) by (simp add: unat_of_nat)
    ultimately show ?thesis
      by (simp add: message_start_def unat_tick_sub_u32)
  qed
  then have stop: "unat ?first + length states = ?stop"
    using assms(7) by simp
  let ?u = "\<lparr>previous_predicted_input = input_at b (unat l), earliest_mismatch = None,
    latest_received_input = None, input_buffer = b\<rparr>"
  have "\<exists>u'. update_ticks decay (Some l) (end_tick b) ?first 0 (drop 0 states) ?u = Some u' \<and>
    first_mismatch decay b states (unat ?first) (unat l) (unat ?first + length states) (earliest_mismatch u') \<and>
    input_buffer u' = b\<lparr>inputs := updated_inputs b (unat s) states (unat ?first) (earliest_mismatch u')\<rparr>"
  proof (rule update_ticks_result [OF assms(1,3) ne l])
    show "previous_predicted_input ?u = predicted_at decay b (unat ?first + 0 - 1)"
      if "unat s + length (inputs b) \<le> unat ?first + 0"
    proof -
      have "unat ?first - 1 = unat l" "unat l = unat e"
        using that first assms(8) l e by linarith+
      then show ?thesis using assms(5) by (simp add: predicted_at_def)
    qed
    show "input_buffer ?u = b\<lparr>inputs := extended_inputs b (unat s) states (unat ?first) (unat ?first + 0)\<rparr>"
      using first assms(8) l by (simp add: extended_inputs_within)
  qed (use first stop assms(8-10) l in auto)
  then obtain u' where u': "update_ticks decay (Some l) (end_tick b) ?first 0 states ?u = Some u'"
    "first_mismatch decay b states (unat ?first) (unat l) ?stop (earliest_mismatch u')"
    "input_buffer u' = b\<lparr>inputs := updated_inputs b (unat s) states (unat ?first) (earliest_mismatch u')\<rparr>"
    unfolding stop by auto
  let ?b' = "(input_buffer u')\<lparr>last_remote_tick := Some m_end\<rparr>"
  have update: "update_buffer decay states m_end b = Some (earliest_mismatch u', ?b')"
    using assms(2) u'(1) by (simp add: update_buffer_def ib_get_input_at [OF assms(1)])
  have fst: "unat ?first \<le> Suc (unat l)" using first assms(8) by simp
  have "ib_wf (input_buffer u')"
    unfolding u'(3)
    by (rule wf_updated_inputs [OF assms(1,3) l fst stop [symmetric] _ _ u'(2)]) (use assms(9,10) in simp_all)
  then have wf: "ib_wf ?b'" by simp
  note res = resolve_updated_inputs [OF assms(1,3) l fst assms(5) stop [symmetric] u'(2)]
  have long: "?stop \<le> unat s + length (updated_inputs b (unat s) states (unat ?first) (earliest_mismatch u')) \<and>
      unat l < unat s + length (updated_inputs b (unat s) states (unat ?first) (earliest_mismatch u'))"
    using u'(2) l fst stop
    by (auto simp: updated_inputs_def first_mismatch_def length_extended_inputs split: option.splits)
  have get: "ib_get ?b' t = Some (resolve (take (Suc (unat t - unat s))
      (updated_inputs b (unat s) states (unat ?first) (earliest_mismatch u'))))"
    if "unat s \<le> unat t" "unat t \<le> unat l \<or> unat t < ?stop" for t
    using ib_get_inputs [OF wf, of s t] that long assms(3) u'(3) by auto
  show ?thesis
    using update u'(2) wf res get ib_get_input_at [OF assms(1)] l first
    by (auto simp: word_le_nat_alt word_less_nat_alt)
qed

text \<open>
  C33: inputs are predicted until they are received. Take a well-formed buffer of a remote player
  that holds the last received tick \<open>l\<close>, and a message for the ticks up to \<open>m_end\<close> that leaves no
  gap after \<open>l\<close>. The update does not panic. The tick that it returns is the first one after \<open>l\<close> for
  which the buffer, with its last input decayed once per missing tick, predicts another input than
  the message has, and it returns none when every prediction was right. Afterwards the buffer has
  the inputs of the message for every tick after \<open>l\<close>, and those up to \<open>l\<close> are unchanged.
\<close>

theorem update_finds_first_misprediction:
  assumes "ib_wf b" and "last_remote_tick b = Some l" and "start_tick b = Some s" and "s \<le> l"
    and "end_tick b = Some e" and "l \<le> e"
    and "length states \<le> Suc (unat m_end)" and "Suc (unat m_end) - length states \<le> Suc (unat l)"
    and "unat m_end < 4294967294" and "unat m_end - unat s < 2147483645"
  shows "\<exists>m b'. update_buffer decay states m_end b = Some (m, b') \<and>
      (let received = message_at states (Suc (unat m_end) - length states) in
       (case m of
          None \<Rightarrow> \<forall>n. unat l < n \<and> n \<le> unat m_end \<longrightarrow> predicted_at decay b n = received n
        | Some t \<Rightarrow> l < t \<and> t \<le> m_end \<and> predicted_at decay b (unat t) \<noteq> received (unat t) \<and>
            (\<forall>n. unat l < n \<and> n < unat t \<longrightarrow> predicted_at decay b n = received n)) \<and>
       (\<forall>t. s \<le> t \<and> t \<le> l \<longrightarrow> ib_get b' t = ib_get b t) \<and>
       (\<forall>t. l < t \<and> t \<le> m_end \<longrightarrow> ib_get b' t = Some (received (unat t)))) \<and>
      last_remote_tick b' = Some m_end"
proof -
  let ?received = "message_at states (Suc (unat m_end) - length states)"
  obtain m b' where r: "update_buffer decay states m_end b = Some (m, b')"
    "first_mismatch decay b states (Suc (unat m_end) - length states) (unat l) (Suc (unat m_end)) m"
    "last_remote_tick b' = Some m_end" "\<forall>t. s \<le> t \<and> t \<le> l \<longrightarrow> ib_get b' t = ib_get b t"
    "\<forall>t. l < t \<and> t \<le> m_end \<longrightarrow> ib_get b' t = Some (?received (unat t))"
    using update_buffer_result [OF assms, of decay] by blast
  have "case m of
      None \<Rightarrow> \<forall>n. unat l < n \<and> n \<le> unat m_end \<longrightarrow> predicted_at decay b n = ?received n
    | Some t \<Rightarrow> l < t \<and> t \<le> m_end \<and> predicted_at decay b (unat t) \<noteq> ?received (unat t) \<and>
        (\<forall>n. unat l < n \<and> n < unat t \<longrightarrow> predicted_at decay b n = ?received n)"
    using r(2) by (cases m) (simp_all add: first_mismatch_def less_Suc_eq_le word_less_nat_alt word_le_nat_alt)
  with r show ?thesis
    unfolding Let_def by blast
qed

definition remote_buffer :: "nat input_buffer" where
  "remote_buffer = \<lparr>start_tick = Some 10, inputs = [Input 0, SameAsPrecedent, SameAsPrecedent],
     last_remote_tick = Some 12\<rparr>"

definition remote_message :: "nat compressed list" where
  "remote_message = [Input 0, SameAsPrecedent, SameAsPrecedent, Input 1]"

lemma remote_buffer_ok:
  "ib_wf remote_buffer" "end_tick remote_buffer = Some 12" "start_tick remote_buffer = Some 10"
  "last_remote_tick remote_buffer = Some 12" "length remote_message = 4"
  by (simp_all add: ib_wf_def remote_buffer_def remote_message_def end_tick_def last_index_def tick_add_i32_def)

lemma remote_prediction:
  "predicted_at id remote_buffer 14 = Some 0" "predicted_at id remote_buffer 13 = Some 0"
  "message_at remote_message 11 13 = Some 0" "message_at remote_message 11 14 = Some 1"
proof -
  show "predicted_at id remote_buffer 14 = Some 0" "predicted_at id remote_buffer 13 = Some 0"
    by (simp_all add: predicted_at_def remote_buffer_ok input_at_def)
      (simp_all add: remote_buffer_def resolve_def receive_state_def)
  show "message_at remote_message 11 13 = Some 0" "message_at remote_message 11 14 = Some 1"
    by (simp_all add: remote_message_def message_at_def resolve_def receive_state_def numeral_eq_Suc)
qed

theorem update_finds_first_misprediction_witness:
  "\<exists>m b'. update_buffer id remote_message 14 remote_buffer = Some (m, b') \<and> m \<noteq> None \<and>
     ib_get b' 13 = Some (Some 0) \<and> ib_get b' 14 = Some (Some 1)"
  using update_finds_first_misprediction [of remote_buffer 12 10 12 remote_message 14 id]
    remote_prediction
  by (auto simp: remote_buffer_ok Let_def split: option.splits)

section \<open>A message built from a buffer\<close>

lemma input_at_Suc:
  assumes "start_tick b = Some s" and "unat s \<le> n"
  shows "input_at b (Suc n) =
    (if Suc n - unat s < length (inputs b)
     then receive_state (inputs b ! (Suc n - unat s)) (input_at b n) else None)"
proof (cases "Suc n - unat s < length (inputs b)")
  case True
  moreover from this assms(2) have "n < unat s + length (inputs b)" "Suc n < unat s + length (inputs b)"
    "Suc n - unat s = Suc (n - unat s)"
    by linarith+
  ultimately show ?thesis
    using assms by (simp add: input_at_def take_Suc_snoc [of "Suc (n - unat s)"] resolve_snoc)
next
  case False
  then have "\<not> Suc n < unat s + length (inputs b)"
    using assms(2) by linarith
  with False assms show ?thesis by (simp add: input_at_def)
qed

lemma resolve_built:
  assumes "start_tick b = Some s" and "unat s \<le> first" and "i = Suc first - unat s"
    and "k \<le> length xs" and "xs = map (\<lambda>i. case get_index (inputs b) i of None \<Rightarrow> Absent | Some state \<Rightarrow> state) [i..<stop]"
  shows "resolve (compressed_from (input_at b first) # take k xs) = input_at b (first + k)"
  using assms(4)
proof (induction k)
  case 0
  show ?case using resolve_simps(5) [of "[]"] by simp
next
  case (Suc k)
  then have k: "k < length xs" by simp
  then have "resolve (compressed_from (input_at b first) # take k xs) = input_at b (first + k)"
    by (intro Suc.IH) simp
  then have "resolve (compressed_from (input_at b first) # take (Suc k) xs) =
      receive_state (xs ! k) (input_at b (first + k))"
    using k by (simp add: take_Suc_snoc resolve_def)
  also have "xs ! k = (case get_index (inputs b) (Suc (first + k) - unat s) of None \<Rightarrow> Absent | Some state \<Rightarrow> state)"
    using k assms(2,3,5) by (simp add: Suc_diff_le)
  also have "receive_state \<dots> (input_at b (first + k)) = input_at b (Suc (first + k))"
    using assms(1,2) by (simp add: input_at_Suc get_index_def receive_state_def split: compressed.split)
  finally show ?case by simp
qed

lemma unat_tick_plus_one: "unat t < 4294967295 \<Longrightarrow> unat (tick_add_i32 t 1) = Suc (unat t)"
proof -
  assume t: "unat t < 4294967295"
  then have "0 \<le> uint t + 1" "uint t + 1 < 4294967296"
    unfolding uint_nat by linarith+
  then have "uint (tick_add_i32 t 1) = uint t + 1"
    by (simp add: uint_tick_add_i32_exact)
  then show ?thesis
    unfolding uint_nat by linarith
qed

text \<open>The first tick of a message of \<open>n\<close> ticks.\<close>

definition built_start :: "tick \<Rightarrow> u32 \<Rightarrow> tick \<Rightarrow> nat" where
  "built_start s n m_end = max (Suc (unat m_end - unat n)) (unat s)"

lemma build_from_input_buffer_result:
  assumes "ib_wf b" and "start_tick b = Some s" and "s \<le> m_end" and "0 < n" and "0 < m_end"
    and "unat m_end < 4294967294" and "unat m_end - unat s < 2147483645"
  shows "\<exists>states. build_from_input_buffer b n m_end = Some (Some states) \<and>
    length states = Suc (unat m_end) - built_start s n m_end \<and>
    (\<forall>t. built_start s n m_end \<le> t \<and> t \<le> unat m_end \<longrightarrow>
      message_at states (built_start s n m_end) t = input_at b t)"
proof -
  let ?first = "max (tick_add_i32 (tick_sub_u32 m_end n) 1) s" and ?F = "built_start s n m_end"
  let ?i = "Suc ?F - unat s" and ?j = "Suc (unat m_end) - unat s"
  let ?xs = "map (\<lambda>i. case get_index (inputs b) i of None \<Rightarrow> Absent | Some state \<Rightarrow> state) [?i..<?j]"
  have pos: "0 < unat m_end" "0 < unat n" "unat s \<le> unat m_end"
    using assms(3-5) by (simp_all add: word_less_nat_alt word_le_nat_alt)
  have "unat (tick_add_i32 (tick_sub_u32 m_end n) 1) = Suc (unat m_end - unat n)"
    using assms(6) by (subst unat_tick_plus_one) (simp_all add: unat_tick_sub_u32)
  then have first: "unat ?first = ?F"
    by (simp add: built_start_def max_def word_le_nat_alt)
  have F: "unat s \<le> ?F" "?F \<le> unat m_end"
    using pos by (auto simp: built_start_def)
  have i: "index_of (tick_add_i32 ?first 1) s = ?i"
  proof -
    have "unat (tick_add_i32 ?first 1) = Suc ?F"
      using unat_tick_plus_one [of ?first] first F(2) assms(6) by simp
    then show ?thesis
      using F assms(7) by (subst index_of_eq(1)) (simp_all add: word_le_nat_alt)
  qed
  have j: "index_of (tick_add_i32 m_end 1) s = ?j"
  proof -
    have "unat (tick_add_i32 m_end 1) = Suc (unat m_end)"
      using unat_tick_plus_one [of m_end] assms(6) by simp
    then show ?thesis
      using pos(3) assms(7) by (subst index_of_eq(1)) (simp_all add: word_le_nat_alt)
  qed
  have "build_from_input_buffer b n m_end = Some (Some (compressed_from (input_at b ?F) # ?xs))"
    using assms(2) i j by (simp add: build_from_input_buffer_def ib_get_input_at [OF assms(1)] first Let_def)
  moreover have "message_at (compressed_from (input_at b ?F) # ?xs) ?F t = input_at b t"
    if "?F \<le> t" "t \<le> unat m_end" for t
  proof -
    have "resolve (compressed_from (input_at b ?F) # take (t - ?F) ?xs) = input_at b (?F + (t - ?F))"
      by (rule resolve_built [OF assms(2) F(1) refl _ refl]) (use that F in simp)
    with that show ?thesis by (simp add: message_at_def)
  qed
  ultimately show ?thesis
    using F by auto
qed

text \<open>
  C34: inputs reach the other side. The sender's buffer has an input for every tick from its start,
  the receiver has the inputs up to \<open>l\<close>, and the message of \<open>n\<close> ticks up to \<open>m_end\<close> leaves no gap
  after \<open>l\<close>. Then neither the construction of the message nor the update of the receiver's buffer
  panics, and afterwards the receiver has, for every tick from \<open>l + 1\<close> to \<open>m_end\<close>, exactly the
  input that the sender has (or none, where the sender has none).
\<close>

theorem inputs_reach_receiver:
  assumes "ib_wf bs" and "start_tick bs = Some s0" and "s0 \<le> m_end" and "0 < n" and "0 < m_end"
    and "unat m_end - unat s0 < 2147483645"
    and "ib_wf b" and "last_remote_tick b = Some l" and "start_tick b = Some s" and "s \<le> l"
    and "end_tick b = Some e" and "l \<le> e"
    and "built_start s0 n m_end \<le> Suc (unat l)"
    and "unat m_end < 4294967294" and "unat m_end - unat s < 2147483645"
  shows "\<exists>states m b'. build_from_input_buffer bs n m_end = Some (Some states) \<and>
      update_buffer decay states m_end b = Some (m, b') \<and> last_remote_tick b' = Some m_end \<and>
      (\<forall>t. l < t \<and> t \<le> m_end \<longrightarrow> ib_get b' t = ib_get bs t)"
proof -
  let ?F = "built_start s0 n m_end"
  obtain states where st: "build_from_input_buffer bs n m_end = Some (Some states)"
    "length states = Suc (unat m_end) - ?F"
    "\<forall>t. ?F \<le> t \<and> t \<le> unat m_end \<longrightarrow> message_at states ?F t = input_at bs t"
    using build_from_input_buffer_result [OF assms(1-5,14,6)] by blast
  have "?F \<le> unat m_end"
    using assms(3-5) by (auto simp: built_start_def word_less_nat_alt word_le_nat_alt)
  then have F: "Suc (unat m_end) - length states = ?F" "length states \<le> Suc (unat m_end)"
    using st(2) by simp_all
  then have "Suc (unat m_end) - length states \<le> Suc (unat l)"
    using assms(13) by simp
  from update_buffer_result [OF assms(7-12) F(2) this assms(14,15), of decay]
  obtain m b' where u: "update_buffer decay states m_end b = Some (m, b')" "last_remote_tick b' = Some m_end"
    "\<forall>t. l < t \<and> t \<le> m_end \<longrightarrow> ib_get b' t = Some (message_at states ?F (unat t))"
    unfolding F(1) by blast
  have "ib_get b' t = ib_get bs t" if "l < t" "t \<le> m_end" for t
    using u(3) st(3) that assms(13) by (simp add: ib_get_input_at [OF assms(1)] word_less_nat_alt word_le_nat_alt)
  with st(1) u(1,2) show ?thesis by blast
qed

definition sender_buffer :: "nat input_buffer" where
  "sender_buffer = \<lparr>start_tick = Some 8,
     inputs = [Input 4, Absent, Input 0, SameAsPrecedent, SameAsPrecedent, SameAsPrecedent, Input 1],
     last_remote_tick = None\<rparr>"

theorem inputs_reach_receiver_witness:
  "\<exists>states m b'. build_from_input_buffer sender_buffer 4 14 = Some (Some states) \<and>
     update_buffer id states 14 remote_buffer = Some (m, b') \<and> ib_get b' 14 = Some (Some 1)"
proof -
  have "ib_wf sender_buffer" "start_tick sender_buffer = Some 8"
    by (simp_all add: ib_wf_def sender_buffer_def)
  moreover from this have "ib_get sender_buffer 14 = Some (Some 1)"
    by (simp add: ib_get_input_at input_at_def) (simp add: sender_buffer_def resolve_def receive_state_def)
  ultimately show ?thesis
    using inputs_reach_receiver [of sender_buffer 8 14 4 remote_buffer 12 10 12 id]
    by (auto simp: remote_buffer_ok built_start_def)
qed

section \<open>Pruning\<close>

lemma pop_front_times_result:
  "n \<le> length xs \<Longrightarrow> pop_front_times n (compressed_from w) xs =
    Some (compressed_from (fold receive_state (take n xs) w), drop n xs)"
proof (induction n arbitrary: w xs)
  case 0
  then show ?case by simp
next
  case (Suc n)
  then obtain x ys where xs: "xs = x # ys" by (cases xs) auto
  have "(case x of SameAsPrecedent \<Rightarrow> compressed_from w | _ \<Rightarrow> x) = compressed_from (receive_state x w)"
    by (cases x) (simp_all add: compressed_from_def receive_state_def)
  with Suc xs show ?case by simp
qed

lemma resolve_replaced_front:
  "resolve (take (Suc k) (case xs of SameAsPrecedent # rest \<Rightarrow> compressed_from w # rest | _ \<Rightarrow> xs)) =
    fold receive_state (take (Suc k) xs) (if xs = [] then None else w)"
  by (auto simp: resolve_def receive_state_def compressed_from_def
      split: list.split compressed.split option.split)

lemma length_replaced_front:
  "length (case xs of SameAsPrecedent # rest \<Rightarrow> y # rest | _ \<Rightarrow> xs) = length xs"
  by (simp split: list.split compressed.split)

lemma ib_pop_within:
  assumes "ib_wf b" and "start_tick b = Some s" and "s \<le> t" and "unat t < unat s + length (inputs b)"
  shows "\<exists>b'. ib_pop t b = Some (input_at b (unat t), b') \<and> ib_wf b' \<and>
    start_tick b' = Some (tick_add_i32 t 1) \<and> unat (tick_add_i32 t 1) = Suc (unat t) \<and>
    Suc (unat t) + length (inputs b') = unat s + length (inputs b) \<and>
    last_remote_tick b' = last_remote_tick b \<and> (\<forall>u > unat t. input_at b' u = input_at b u)"
proof -
  note w = wf_parts [OF assms(1,2)]
  let ?n = "Suc (unat t - unat s)" and ?xs = "inputs b"
  have t: "unat s \<le> unat t" "?n \<le> length ?xs"
    using assms(3,4) by (simp_all add: word_le_nat_alt)
  have t1: "unat (tick_add_i32 t 1) = Suc (unat t)"
    by (rule unat_tick_plus_one) (use assms(4) w(2) in linarith)
  have "tick_sub (tick_add_i32 t 1) s = uint (tick_add_i32 t 1) - uint s"
    by (rule index_of_eq(2)) (use t1 t w(1) in \<open>simp_all add: word_le_nat_alt\<close>)
  then have n: "nat (tick_sub (tick_add_i32 t 1) s) = ?n"
    using t(1) by (simp only: uint_nat nat_minus_as_int [symmetric] t1 Suc_diff_le)
  have "pop_front_times ?n Absent ?xs = Some (compressed_from (resolve (take ?n ?xs)), drop ?n ?xs)"
    using pop_front_times_result [OF t(2), of None] by (simp add: resolve_def compressed_from_def)
  moreover have at: "resolve (take ?n ?xs) = input_at b (unat t)"
    using assms(2,4) t(1) by (simp add: input_at_def)
  moreover have "(case compressed_from v of Input v \<Rightarrow> Some v | _ \<Rightarrow> None) = v" for v :: "'a option"
    by (cases v) (simp_all add: compressed_from_def)
  ultimately have pop: "ib_pop t b = Some (input_at b (unat t),
      b\<lparr>inputs := (case drop ?n ?xs of SameAsPrecedent # rest \<Rightarrow> compressed_from (input_at b (unat t)) # rest
        | _ \<Rightarrow> drop ?n ?xs), start_tick := Some (tick_add_i32 t 1)\<rparr>)"
    using assms(2,4) n leD [OF assms(3)]
    by (simp add: ib_pop_def wf_range [OF assms(1,2)] Let_def)
  define buf where "buf = (case drop ?n ?xs of SameAsPrecedent # rest \<Rightarrow> compressed_from (input_at b (unat t)) # rest
      | _ \<Rightarrow> drop ?n ?xs)"
  let ?b' = "b\<lparr>inputs := buf, start_tick := Some (tick_add_i32 t 1)\<rparr>"
  have "length buf = length (drop ?n ?xs)"
    unfolding buf_def by (rule length_replaced_front)
  then have len: "Suc (unat t) + length buf = unat s + length ?xs" "length buf \<le> length ?xs"
    using t by simp_all
  moreover have "ib_wf ?b'"
    using w(1,2) len t1 by (auto simp: ib_wf_def)
  moreover have "input_at ?b' u = input_at b u" if u: "unat t < u" for u
  proof (cases "u < unat s + length ?xs")
    case True
    let ?k = "u - Suc (unat t)"
    have "drop ?n ?xs \<noteq> []" using True t u by simp
    then have "resolve (take (Suc ?k) buf) = fold receive_state (take (Suc ?k) (drop ?n ?xs)) (input_at b (unat t))"
      by (simp only: buf_def resolve_replaced_front if_False)
    also have "\<dots> = resolve (take (?n + Suc ?k) ?xs)"
      by (simp only: take_add resolve_append at)
    also have "?n + Suc ?k = Suc (u - unat s)"
      using t u by simp
    finally show ?thesis
      using True u t assms(2) t1 len(1) by (simp add: input_at_def)
  next
    case False
    with u t assms(2) t1 len(1) show ?thesis by (simp add: input_at_def)
  qed
  ultimately show ?thesis
    using pop t1 by (auto simp: buf_def)
qed

lemma get_predict_result:
  assumes "ib_wf b"
  shows "get_predict b t = Some (predicted_at id b (unat t))"
proof (cases "start_tick b")
  case None
  then show ?thesis by (simp add: get_predict_def predicted_at_def end_tick_def)
next
  case (Some s)
  let ?e = "tick_add_i32 s (last_index b)"
  note e = wf_end [OF assms Some] and rng = wf_range [OF assms Some]
  have p: "predicted_at id b (unat t) = (if t \<le> ?e then input_at b (unat t) else input_at b (unat ?e))"
    using Some by (simp add: predicted_at_def end_tick_def word_le_nat_alt option.map_id)
  consider "inputs b = []" | "t < s" "inputs b \<noteq> []" | "?e < t" "\<not> t < s" "inputs b \<noteq> []"
    | "\<not> ?e < t" "\<not> t < s" "inputs b \<noteq> []"
    by blast
  then show ?thesis
  proof cases
    case 1
    with Some p show ?thesis by (simp add: get_predict_def input_at_def)
  next
    case 2
    then have "t \<le> ?e"
      using e by (simp add: word_less_nat_alt word_le_nat_alt)
    with 2 Some p show ?thesis
      by (simp add: get_predict_def input_at_def not_less word_less_nat_alt)
  next
    case 3
    with Some p show ?thesis
      by (simp add: get_predict_def get_last_def ib_get_input_at [OF assms] not_le [symmetric])
  next
    case 4
    have "get_predict b t = ib_get b t"
      using 4 Some by (subst ib_get.simps) (simp add: get_predict_def)
    with 4 p show ?thesis
      by (simp add: ib_get_input_at [OF assms] not_less)
  qed
qed

lemma get_last_with_tick_result:
  assumes "ib_wf b" and "start_tick b = Some s"
  shows "get_last_with_tick b = Some
    (if inputs b = [] then None
     else map_option (Pair (tick_add_i32 s (last_index b))) (input_at b (unat (tick_add_i32 s (last_index b)))))"
  using assms(2) by (simp add: get_last_with_tick_def ib_get_input_at [OF assms(1)] Let_def)

lemma predicted_at_pop:
  assumes "ib_wf b" and "start_tick b = Some s" and "s \<le> t" and "unat t < unat s + length (inputs b)"
    and "ib_pop t b = Some (v, b')" and "unat t < u"
    and "unat t + 1 = unat s + length (inputs b) \<Longrightarrow> input_at b (unat t) = None"
  shows "predicted_at id b' u = predicted_at id b u"
proof -
  have b': "ib_wf b'" "start_tick b' = Some (tick_add_i32 t 1)" "unat (tick_add_i32 t 1) = Suc (unat t)"
    "Suc (unat t) + length (inputs b') = unat s + length (inputs b)"
    "\<And>u. unat t < u \<Longrightarrow> input_at b' u = input_at b u"
    using ib_pop_within [OF assms(1-4)] assms(5) by auto
  have e: "end_tick b = Some (tick_add_i32 s (last_index b))"
    "end_tick b' = Some (tick_add_i32 (tick_add_i32 t 1) (last_index b'))"
    "unat (tick_add_i32 (tick_add_i32 t 1) (last_index b')) = unat (tick_add_i32 s (last_index b))"
    "unat (tick_add_i32 s (last_index b)) + 1 = unat s + length (inputs b)"
    using wf_end [OF assms(1,2)] wf_end [OF b'(1,2)] b' assms(2) by (simp_all add: end_tick_def)
  show ?thesis
  proof (cases "unat t < unat (tick_add_i32 s (last_index b))")
    case True
    with e b'(5) assms(6) show ?thesis by (simp add: predicted_at_def)
  next
    case False
    then have t: "unat t = unat (tick_add_i32 s (last_index b))" "unat t + 1 = unat s + length (inputs b)"
      using e(4) assms(4) by linarith+
    then have "inputs b' = []" using b'(4) by simp
    then have "input_at b' n = None" for n
      by (simp add: input_at_def split: option.split)
    with e t assms(6,7) show ?thesis by (simp add: predicted_at_def)
  qed
qed

text \<open>The floor of the buffer can be advanced without a change to what is predicted after it.\<close>

lemma pop_keeping_last_result:
  assumes "ib_wf b" and "start_tick b \<noteq> Some 0"
  shows "\<exists>v b'. pop_keeping_last t b = Some (v, b') \<and> ib_wf b' \<and> start_tick b' \<noteq> Some 0 \<and>
    (\<forall>u > unat t. predicted_at id b' u = predicted_at id b u)"
proof (cases "start_tick b")
  case None
  then show ?thesis
    using assms by (simp add: pop_keeping_last_def get_last_with_tick_def ib_pop_def)
next
  case (Some s)
  let ?e = "tick_add_i32 s (last_index b)"
  note e = wf_end [OF assms(1) Some] and newest = get_last_with_tick_result [OF assms(1) Some]
  have s: "0 < unat s" using assms(2) Some by (simp add: unat_gt_0)
  have keep: "ib_pop t' b = Some (None, b)" if "t' < s" for t'
    using that Some by (simp add: ib_pop_def)
  have within: "\<exists>v b'. ib_pop t' b = Some (v, b') \<and> ib_wf b' \<and> start_tick b' \<noteq> Some 0 \<and>
      (\<forall>u > unat t'. predicted_at id b' u = predicted_at id b u)"
    if t': "s \<le> t'" "unat t' < unat s + length (inputs b)"
      "unat t' + 1 = unat s + length (inputs b) \<Longrightarrow> input_at b (unat t') = None" for t'
  proof -
    obtain b' where b': "ib_pop t' b = Some (input_at b (unat t'), b')" "ib_wf b'"
      "start_tick b' = Some (tick_add_i32 t' 1)" "unat (tick_add_i32 t' 1) = Suc (unat t')"
      using ib_pop_within [OF assms(1) Some t'(1,2)] by blast
    moreover have "start_tick b' \<noteq> Some 0" using b'(3,4) by auto
    ultimately show ?thesis
      using predicted_at_pop [OF assms(1) Some t'(1,2) b'(1) _ t'(3)] by blast
  qed
  show ?thesis
  proof (cases "inputs b = [] \<or> input_at b (unat ?e) = None")
    case True
    then have pop: "pop_keeping_last t b = ib_pop t b"
      using newest by (auto simp: pop_keeping_last_def)
    consider "t < s" | "s \<le> t" "unat t < unat s + length (inputs b)"
      | "unat s + length (inputs b) \<le> unat t"
      by (meson not_le)
    then show ?thesis
    proof cases
      case 1
      with pop keep assms show ?thesis by auto
    next
      case 2
      moreover have "input_at b (unat t) = None" if "unat t + 1 = unat s + length (inputs b)"
      proof -
        have "unat t = unat ?e" "inputs b \<noteq> []"
          using that e 2 by (auto simp: word_le_nat_alt)
        with True show ?thesis by simp
      qed
      ultimately show ?thesis using pop within by metis
    next
      case 3
      let ?b' = "b\<lparr>inputs := [], start_tick := Some (tick_add_i32 t 1)\<rparr>"
      have "\<not> t < s" using 3 by (simp add: word_less_nat_alt)
      then have "ib_pop t b = Some (None, ?b')"
        using 3 Some by (simp add: ib_pop_def wf_range [OF assms(1) Some])
      moreover have "tick_add_i32 t 1 \<noteq> 0"
      proof
        assume "tick_add_i32 t 1 = 0"
        moreover have "uint (tick_add_i32 t 1) = max 0 (min (2 ^ 32 - 1) (uint t + 1))"
          by (simp only: tick_add_i32_def uint_word_of_int) (simp add: min_def max_def)
        ultimately show False
          using uint_ge_0 [of t] by (simp add: min_def max_def split: if_splits) (use uint_ge_0 [of t] in linarith)
      qed
      moreover from this have "ib_wf ?b'"
        using unsigned_less [of "tick_add_i32 t 1", where ?'a = nat] by (simp add: ib_wf_def)
      moreover have "predicted_at id ?b' u = predicted_at id b u" if "unat t < u" for u
      proof -
        have "input_at b (unat ?e) = None"
          using True Some by (auto simp: input_at_def)
        moreover have "unat ?e < u" using that 3 e by linarith
        moreover have "input_at ?b' n = None" for n by (simp add: input_at_def)
        ultimately show ?thesis
          using Some by (simp add: predicted_at_def end_tick_def)
      qed
      ultimately show ?thesis using pop by auto
    qed
  next
    case False
    then have "0 < length (inputs b)" by simp
    with e have "unat s \<le> unat ?e" by linarith
    with False have e_in: "?e \<ge> s" "inputs b \<noteq> []"
      by (simp_all add: word_le_nat_alt)
    let ?t = "if ?e \<le> t then tick_sub_u32 ?e 1 else t"
    from False obtain v where v: "input_at b (unat ?e) = Some v" by auto
    have pop: "pop_keeping_last t b = ib_pop ?t b"
      using newest e_in(2) v by (simp add: pop_keeping_last_def)
    have less: "unat ?t < unat ?e" "unat ?t \<le> unat t"
      using e_in(1) s by (auto simp: unat_tick_sub_u32 word_le_nat_alt)
    show ?thesis
    proof (cases "?t < s")
      case True
      with pop keep [OF True] assms show ?thesis by auto
    next
      case outside: False
      have "s \<le> ?t" using outside by simp
      moreover have "unat ?t < unat s + length (inputs b)" "unat ?t + 1 \<noteq> unat s + length (inputs b)"
        using less(1) e by linarith+
      ultimately obtain v b' where "ib_pop ?t b = Some (v, b')" "ib_wf b'" "start_tick b' \<noteq> Some 0"
        "\<forall>u > unat ?t. predicted_at id b' u = predicted_at id b u"
        using within [of ?t] by blast
      moreover from this have "\<forall>u > unat t. predicted_at id b' u = predicted_at id b u"
        using le_less_trans [OF less(2)] by blast
      ultimately show ?thesis
        unfolding pop by blast
    qed
  qed
qed

text \<open>
  The server without pruning: at every tick it plays the input that the buffer has or predicts.
\<close>

fun play_unpruned :: "('s \<Rightarrow> 'a \<Rightarrow> 's) \<Rightarrow> 'a input_buffer \<Rightarrow> tick list \<Rightarrow> 's \<Rightarrow> 's list" where
  "play_unpruned transitions b [] action_state = []"
| "play_unpruned transitions b (t # ts) action_state =
     (let action_state = (case predicted_at id b (unat t) of
          Some v \<Rightarrow> transitions action_state v | None \<Rightarrow> action_state)
      in action_state # play_unpruned transitions b ts action_state)"

fun play :: "('s \<Rightarrow> 'a \<Rightarrow> 's) \<Rightarrow> bool \<Rightarrow> tick list \<Rightarrow> 's \<times> 'a input_buffer \<Rightarrow> 's list option" where
  "play transitions host_client [] sb = Some []"
| "play transitions host_client (t # ts) sb =
     do {
       sb \<leftarrow> update_action_state transitions host_client t sb;
       rest \<leftarrow> play transitions host_client ts sb;
       Some (fst sb # rest)
     }"

lemma play_unpruned_cong:
  "(\<And>t. t \<in> set ts \<Longrightarrow> predicted_at id b (unat t) = predicted_at id b' (unat t)) \<Longrightarrow>
   play_unpruned transitions b ts st = play_unpruned transitions b' ts st"
  by (induction ts arbitrary: st) (simp_all add: Let_def)

text \<open>
  Between two messages pruning is invisible. A server that plays a well-formed buffer at increasing ticks, and after
  each of them throws away the inputs that it no longer needs, never panics and goes through exactly
  the action states of a server that keeps the whole buffer: at every tick the buffered input, or
  the last one when the client's inputs are late. The buffer must not start at tick zero, and no
  message may arrive in between: \<open>pruning_loses_late_input\<close> below is what can happen then.
\<close>

theorem pruning_is_invisible:
  assumes "ib_wf b" and "start_tick b \<noteq> Some 0" and "sorted_wrt (<) ts"
  shows "play transitions host_client ts (action_state, b) =
    Some (play_unpruned transitions b ts action_state)"
  using assms
proof (induction ts arbitrary: b action_state)
  case Nil
  show ?case by simp
next
  case (Cons t ts)
  let ?floor = "tick_sub_u32 t (if host_client then HISTORY_DEPTH else 1)"
  obtain v b' where pop: "pop_keeping_last ?floor b = Some (v, b')" "ib_wf b'" "start_tick b' \<noteq> Some 0"
    "\<forall>u > unat ?floor. predicted_at id b' u = predicted_at id b u"
    using pop_keeping_last_result [OF Cons.prems(1,2), of ?floor] by blast
  have "unat ?floor < unat u" if "u \<in> set ts" for u
  proof -
    have "t < u" using that Cons.prems(3) by simp
    moreover have "unat ?floor \<le> unat t" by (simp add: unat_tick_sub_u32)
    ultimately show ?thesis by (simp add: word_less_nat_alt)
  qed
  then have same: "play_unpruned transitions b' ts st = play_unpruned transitions b ts st" for st
    by (intro play_unpruned_cong) (use pop(4) in simp)
  have "sorted_wrt (<) ts" using Cons.prems(3) by simp
  from Cons.IH [OF pop(2,3) this] show ?case
    using pop(1) by (simp add: update_action_state_def get_predict_result [OF Cons.prems(1)] Let_def same)
qed

theorem pruning_is_invisible_witness:
  "play (\<lambda>_ v. v) False [11, 12, 14] (0, remote_buffer\<lparr>inputs := [Input 3, SameAsPrecedent, Input 5]\<rparr>) =
    Some [3, 5, 5]"
proof -
  let ?b = "remote_buffer\<lparr>inputs := [Input 3, SameAsPrecedent, Input 5]\<rparr>"
  have "ib_wf ?b" "start_tick ?b \<noteq> Some 0"
    by (simp_all add: ib_wf_def remote_buffer_def)
  then have "play (\<lambda>_ v. v) False [11, 12, 14] (0, ?b) = Some (play_unpruned (\<lambda>_ v. v) ?b [11, 12, 14] 0)"
    by (rule pruning_is_invisible) simp
  also have "play_unpruned (\<lambda>_ v. v) ?b [11, 12, 14] 0 = [3, 5, 5]"
    by (simp add: predicted_at_def end_tick_def last_index_def tick_add_i32_def remote_buffer_def input_at_def)
      (simp add: resolve_def receive_state_def)
  finally show ?thesis .
qed

section \<open>Pruning and late inputs\<close>

text \<open>What a message does to a buffer whose only states are a held input after an absent one.\<close>

definition held_message :: "'a \<Rightarrow> nat \<Rightarrow> 'a compressed list" where
  "held_message v k = [Absent, Input v] @ replicate (Suc k) SameAsPrecedent"

lemma message_start_held:
  assumes "unat t = unat l + (k + 2)" and "unat t < 4294967295"
  shows "message_start t (held_message v k) = l"
proof -
  have "0 \<le> uint t + 1" "uint t + 1 < 4294967296"
    using assms(2) unfolding uint_nat by linarith+
  then have "uint (tick_add_i32 t 1) = uint t + 1"
    by (simp add: uint_tick_add_i32_exact)
  then have "unat (tick_add_i32 t 1) = Suc (unat t)"
    unfolding uint_nat by linarith
  moreover have "unat (word_of_nat (length (held_message v k)) :: u32) = k + 3"
    using assms by (simp add: held_message_def unat_of_nat del: of_nat_Suc of_nat_add)
  ultimately have "unat (message_start t (held_message v k)) = unat l"
    using assms(1) by (simp add: message_start_def unat_tick_sub_u32)
  then show ?thesis
    by (rule word_unat_eq_iff [THEN iffD2])
qed

lemma within_lookahead: "is_input_within_lookahead t t"
  by (simp add: is_input_within_lookahead_def MAX_INPUT_PAST_TICKS_def MAX_INPUT_LOOKAHEAD_TICKS_def)

text \<open>The buffer that was emptied.\<close>

lemma emptied_end: "0 < unat t \<Longrightarrow> unat (tick_add_i32 t (- 1)) = unat t - 1"
proof -
  assume "0 < unat t"
  moreover have "unat t < 4294967296"
    using unsigned_less [of t, where ?'a = nat] by simp
  ultimately have "0 \<le> uint t - 1" "uint t - 1 < 4294967296"
    unfolding uint_nat by linarith+
  then have "uint (tick_add_i32 t (- 1)) = uint t - 1"
    using uint_tick_add_i32_exact [of t "- 1"] by simp
  then show ?thesis
    unfolding uint_nat by linarith
qed

lemma emptied_update:
  assumes t: "unat t = unat l + (k + 2)" "unat t < 4294967294" and "k < 2147483640"
  shows "update_buffer decay (held_message v k) t \<lparr>start_tick = Some t, inputs = [], last_remote_tick = Some l\<rparr> =
    Some (Some (tick_add l 1), \<lparr>start_tick = Some (tick_add l 2), inputs = replicate (Suc k) SameAsPrecedent, last_remote_tick = Some t\<rparr>)"
proof -
  let ?b = "\<lparr>start_tick = Some t, inputs = [], last_remote_tick = Some l\<rparr> :: 'a input_buffer"
  let ?e = "tick_add_i32 t (- 1)"
  have e: "end_tick ?b = Some ?e" "unat ?e = Suc (unat l + k)"
    using emptied_end [of t] t by (simp_all add: end_tick_def last_index_def)
  have ticks: "unat (tick_add l (word_of_nat d)) = unat l + d" if "d \<le> k + 2" for d
    by (rule message_tick) (use t that in linarith)
  have none: "ib_get ?b u = Some None" "ib_get (?b\<lparr>start_tick := None\<rparr>) u = Some None" for u
    by (subst ib_get.simps, simp)+
  have l0: "tick_add l (word_of_nat 0) = l"
    using ticks [of 0] by (simp add: word_unat_eq_iff)
  have one: "l < tick_add l 1" "tick_add l 1 < t" "tick_add l 1 \<le> ?e"
    using ticks [of 1] t e(2) by (simp_all add: word_less_nat_alt word_le_nat_alt)
  have "\<exists>u. update_ticks decay (Some l) (Some ?e) l 0 (held_message v k)
     \<lparr>previous_predicted_input = None, earliest_mismatch = None, latest_received_input = None, input_buffer = ?b\<rparr> = Some u \<and>
     earliest_mismatch u = Some (tick_add l 1) \<and>
     input_buffer u = \<lparr>start_tick = Some (tick_add l 2), inputs = replicate (Suc k) SameAsPrecedent, last_remote_tick = Some l\<rparr>"
  proof -
    let ?u0 = "\<lparr>previous_predicted_input = None, earliest_mismatch = None, latest_received_input = None, input_buffer = ?b\<rparr>"
    have s0: "update_tick decay (Some l) (Some ?e) l Absent ?u0 = Some ?u0"
      using one none(1) e(2) ticks [of 1]
      by (simp add: update_tick_def receive_state_def word_le_nat_alt Let_def)
    have "set_raw (tick_add l 1) (Input v) ?b = Some ?b"
      using one(2) by (simp add: set_raw_def)
    moreover have "clip_after (tick_add l 1) ?b = Some (?b\<lparr>start_tick := None\<rparr>)"
      using one(2) e(1) by (simp add: clip_after_def)
    ultimately have s1: "update_tick decay (Some l) (Some ?e) (tick_add l 1) (Input v) ?u0 =
        Some (?u0\<lparr>earliest_mismatch := Some (tick_add l 1), latest_received_input := Some v,
          input_buffer := ?b\<lparr>start_tick := None\<rparr>\<rparr>)"
      using one none(1) by (simp add: update_tick_def receive_state_def compressed_from_def Let_def)
    define u1 where "u1 = ?u0\<lparr>earliest_mismatch := Some (tick_add l 1), latest_received_input := Some v,
          input_buffer := ?b\<lparr>start_tick := None\<rparr>\<rparr>"
    let ?b2 = "\<lparr>start_tick = Some (tick_add l 2), inputs = [SameAsPrecedent], last_remote_tick = Some l\<rparr> :: 'a input_buffer"
    obtain u2 where s2: "update_tick decay (Some l) (Some ?e) (tick_add l 2) SameAsPrecedent u1 = Some u2"
      "earliest_mismatch u2 = Some (tick_add l 1)" "input_buffer u2 = ?b2"
      using none(2) by (auto simp: u1_def update_tick_def set_raw_def Let_def)
    have wf: "ib_wf ?b2"
      using ticks [of 2] t by (auto simp: ib_wf_def)
    obtain u3 where u3: "update_ticks decay (Some l) (Some ?e) l 3 (replicate k SameAsPrecedent) u2 = Some u3"
      "earliest_mismatch u3 = Some (tick_add l 1)" "input_buffer u3 = ?b2\<lparr>inputs := [SameAsPrecedent] @ replicate k SameAsPrecedent\<rparr>"
      using update_ticks_after_mismatch [of u2 "tick_add l 2" "tick_add l 1" l 3 "replicate k SameAsPrecedent" decay "Some l" "Some ?e"]
        s2 wf ticks [of 2] t assms(3) by auto
    then show ?thesis
      using s0 s1 s2(1) [unfolded u1_def] l0 u3 [unfolded numeral_3_eq_3] by (simp add: held_message_def)
  qed
  then show ?thesis
    using e(1) message_start_held [of t l k v] t none(1) by (auto simp: update_buffer_def)
qed

text \<open>The buffer that was kept.\<close>

lemma kept_update:
  assumes b: "ib_wf b" "start_tick b = Some s" "inputs b = xs @ [Absent]" "last_remote_tick b = Some l" "end_tick b = Some l"
    and t: "unat t = unat l + (k + 2)" "unat t < 4294967294" and "unat t - unat s < 2147483640"
  shows "update_buffer decay (held_message v k) t b =
    Some (Some (tick_add l 1), b\<lparr>inputs := inputs b @ [Input v] @ replicate (Suc k) SameAsPrecedent, last_remote_tick := Some t\<rparr>)"
proof -
  have l: "Suc (unat l) = unat s + length (inputs b)"
    using wf_end [OF b(1,2)] b(2,5) by (simp add: end_tick_def)
  have ticks: "unat (tick_add l (word_of_nat d)) = unat l + d" if "d \<le> k + 2" for d
    by (rule message_tick) (use t that in linarith)
  have l0: "tick_add l (word_of_nat 0) = l"
    using ticks [of 0] by (simp add: word_unat_eq_iff)
  have absent: "ib_get b l = Some None"
    using l b(3) ib_get_inputs [OF b(1,2), of l] by simp
  have one: "l < tick_add l 1" "\<not> tick_add l 1 \<le> l"
    using ticks [of 1] by (simp_all add: word_less_nat_alt word_le_nat_alt)
  let ?u0 = "\<lparr>previous_predicted_input = None, earliest_mismatch = None, latest_received_input = None, input_buffer = b\<rparr>"
  let ?b1 = "b\<lparr>inputs := inputs b @ [Input v]\<rparr>"
  have s0: "update_tick decay (Some l) (Some l) l Absent ?u0 = Some ?u0"
    using absent by (simp add: update_tick_def receive_state_def Let_def)
  have wf: "ib_wf ?b1"
    by (rule wf_inputs [OF b(1,2)]) (use wf_parts(3) [OF b(1,2)] l t assms(8) in auto)
  have "set_raw (tick_add l 1) (Input v) b = Some ?b1"
    using set_raw_beyond [OF b(1,2), of "tick_add l 1" "Input v"] ticks [of 1] l assms(8) t by simp
  moreover have "clip_after (tick_add l 1) ?b1 = Some ?b1"
    using clip_after_within [OF wf, of s "tick_add l 1"] ticks [of 1] l b(2) by (simp add: word_le_nat_alt)
  ultimately have s1: "update_tick decay (Some l) (Some l) (tick_add l 1) (Input v) ?u0 =
      Some (?u0\<lparr>earliest_mismatch := Some (tick_add l 1), latest_received_input := Some v, input_buffer := ?b1\<rparr>)"
    using one by (simp add: update_tick_def receive_state_def compressed_from_def Let_def)
  let ?u1 = "?u0\<lparr>earliest_mismatch := Some (tick_add l 1), latest_received_input := Some v, input_buffer := ?b1\<rparr>"
  have "length (inputs b) + k < 2147483639"
    using l t(1) assms(8) by linarith
  then obtain u2 where u2: "update_ticks decay (Some l) (Some l) l 2 (replicate (Suc k) SameAsPrecedent) ?u1 = Some u2"
    "earliest_mismatch u2 = Some (tick_add l 1)" "input_buffer u2 = ?b1\<lparr>inputs := inputs ?b1 @ replicate (Suc k) SameAsPrecedent\<rparr>"
    using update_ticks_after_mismatch [of ?u1 s "tick_add l 1" l 2 "replicate (Suc k) SameAsPrecedent" decay "Some l" "Some l"]
      wf b(2) l t assms(8) by auto
  then have "update_ticks decay (Some l) (Some l) l 0 (held_message v k) ?u0 = Some u2"
    using s0 s1 l0 by (simp add: held_message_def numeral_2_eq_2)
  then show ?thesis
    using u2 b(4,5) message_start_held [of t l k v] t absent by (simp add: update_buffer_def)
qed

text \<open>
  A server that prunes loses a late input. The inputs of a client end with an absent one, at the
  tick \<open>l\<close> of the last message. The server plays the tick \<open>t\<close>, two or more ticks later, and prunes:
  as the newest input is absent, \<open>pop_keeping_last\<close> keeps nothing and moves the start of the buffer to
  \<open>t\<close>. Then a message for the ticks up to \<open>t\<close> arrives: an input was pressed at the tick after \<open>l\<close> and
  is still held at \<open>t\<close>. The pruned buffer drops the input, which is before its start, and keeps only references
  to it, so the server plays no input at any later tick; a server that keeps its buffer plays the input.
\<close>

theorem pruning_loses_late_input:
  assumes "ib_wf b" "start_tick b = Some s" "inputs b = xs @ [Absent]" "last_remote_tick b = Some l" "end_tick b = Some l"
    and "unat l + 2 \<le> unat t" "unat t < 4294967294" "unat t - unat s < 2147483640"
  shows "\<exists>pruned pruned' kept'. let states = held_message v (unat t - unat l - 2) in
    update_action_state transitions False t (action_state, b) = Some (action_state, pruned) \<and>
    receive_input decay t t states (Some pruned) = Some (Some pruned') \<and>
    receive_input decay t t states (Some b) = Some (Some kept') \<and>
    (\<forall>u > t. get_predict pruned' u = Some None \<and> get_predict kept' u = Some (Some v))"
proof -
  define k where "k = unat t - unat l - 2"
  have t: "unat t = unat l + (k + 2)" "unat t < 4294967294"
    using assms(6,7) by (simp_all add: k_def)
  have l: "Suc (unat l) = unat s + length (inputs b)"
    using wf_end [OF assms(1,2)] assms(2,5) by (simp add: end_tick_def)
  have e: "tick_add_i32 s (last_index b) = l"
    using assms(2,5) by (simp add: end_tick_def)
  have absent: "input_at b (unat l) = None"
    using input_at_last [OF assms(2), of "unat l"] l assms(3) by simp
  have "get_predict b t = Some None"
    using get_predict_result [OF assms(1), of t] absent assms(5) t by (simp add: predicted_at_def)
  moreover have "pop_keeping_last (tick_sub_u32 t 1) b = Some (None, b\<lparr>inputs := [], start_tick := Some t\<rparr>)"
  proof -
    have t1: "unat (tick_sub_u32 t 1) = Suc (unat l + k)"
      using t by (simp add: unat_tick_sub_u32)
    then have "0 \<le> uint (tick_sub_u32 t 1) + 1" "uint (tick_sub_u32 t 1) + 1 < 4294967296"
      using t unfolding uint_nat by linarith+
    then have "uint (tick_add_i32 (tick_sub_u32 t 1) 1) = uint (tick_sub_u32 t 1) + 1"
      by (simp add: uint_tick_add_i32_exact)
    then have "unat (tick_add_i32 (tick_sub_u32 t 1) 1) = unat t"
      using t t1 unfolding uint_nat by linarith
    then have "tick_add_i32 (tick_sub_u32 t 1) 1 = t"
      by (rule word_unat_eq_iff [THEN iffD2])
    moreover have "\<not> tick_sub_u32 t 1 < s" "l < tick_sub_u32 t 1"
      using t1 l assms(3) by (simp_all add: word_less_nat_alt)
    ultimately show ?thesis
      using get_last_with_tick_result [OF assms(1,2)] assms(2,3) absent e
      by (simp add: pop_keeping_last_def ib_pop_def)
  qed
  ultimately have played: "update_action_state transitions False t (action_state, b) =
      Some (action_state, b\<lparr>inputs := [], start_tick := Some t\<rparr>)"
    by (simp add: update_action_state_def Let_def)
  have small: "k < 2147483640"
    using t l assms(3,8) by simp
  let ?pruned = "\<lparr>start_tick = Some (tick_add l 2), inputs = replicate (Suc k) SameAsPrecedent, last_remote_tick = Some t\<rparr> :: 'a input_buffer"
  let ?kept = "b\<lparr>inputs := inputs b @ [Input v] @ replicate (Suc k) SameAsPrecedent, last_remote_tick := Some t\<rparr>"
  have "b\<lparr>inputs := [], start_tick := Some t\<rparr> = \<lparr>start_tick = Some t, inputs = [], last_remote_tick = Some l\<rparr>"
    using assms(4) by (cases b) simp
  then have pruned: "receive_input decay t t (held_message v k) (Some (b\<lparr>inputs := [], start_tick := Some t\<rparr>)) = Some (Some ?pruned)"
    using emptied_update [OF t small, of decay v] within_lookahead by (simp add: receive_input_def)
  have kept: "receive_input decay t t (held_message v k) (Some b) = Some (Some ?kept)"
    using kept_update [OF assms(1-5) t assms(8), of decay v] within_lookahead by (simp add: receive_input_def)
  have l2: "unat (tick_add l 2) = unat l + 2"
    using message_tick [of l 2] t by simp
  have wf: "ib_wf ?pruned"
    using l2 t small by (auto simp: ib_wf_def)
  have "ib_wf (b\<lparr>inputs := inputs b @ [Input v] @ replicate (Suc k) SameAsPrecedent\<rparr>)"
    by (rule wf_inputs [OF assms(1,2)]) (use wf_parts(3) [OF assms(1,2)] l t assms(8) in auto)
  then have wf': "ib_wf ?kept"
    by simp
  have "resolve (replicate m SameAsPrecedent) = (None :: 'a option)" for m
    using resolve_repeated [of "[]" m] by simp
  then have "predicted_at id ?pruned n = None" for n
    by (simp add: predicted_at_def input_at_def end_tick_def take_replicate del: replicate_Suc)
  moreover have "predicted_at id ?kept (unat u) = Some v" if "t < u" for u
  proof -
    have "unat (tick_add_i32 s (last_index ?kept)) = unat t"
      using wf_end [OF wf', of s] assms(2) l t by simp
    moreover have "input_at ?kept (unat t) = Some v"
      using input_at_last [of ?kept s "unat t"] assms(2) l t resolve_repeated [of "inputs b @ [Input v]" "Suc k"] by simp
    ultimately show ?thesis
      using that assms(2) by (simp add: predicted_at_def end_tick_def word_less_nat_alt)
  qed
  ultimately have "\<forall>u > t. get_predict ?pruned u = Some None \<and> get_predict ?kept u = Some (Some v)"
    using get_predict_result [OF wf] get_predict_result [OF wf'] by simp
  then show ?thesis
    unfolding k_def [symmetric] Let_def using played pruned kept by blast
qed

theorem pruning_loses_late_input_witness:
  "\<exists>pruned pruned' kept'.
     update_action_state (\<lambda>_ v. v) False 13 (0, remote_buffer\<lparr>inputs := [Input 3, Absent], last_remote_tick := Some 11\<rparr>) =
       Some (0, pruned) \<and>
     receive_input id 13 13 [Absent, Input 7, SameAsPrecedent] (Some pruned) = Some (Some pruned') \<and>
     receive_input id 13 13 [Absent, Input 7, SameAsPrecedent]
       (Some (remote_buffer\<lparr>inputs := [Input 3, Absent], last_remote_tick := Some 11\<rparr>)) = Some (Some kept') \<and>
     get_predict pruned' 14 = Some None \<and> get_predict kept' 14 = Some (Some 7)"
proof -
  let ?b = "remote_buffer\<lparr>inputs := [Input 3, Absent], last_remote_tick := Some 11\<rparr>"
  have "ib_wf ?b" "start_tick ?b = Some 10" "inputs ?b = [Input 3] @ [Absent]" "last_remote_tick ?b = Some 11" "end_tick ?b = Some 11"
    by (simp_all add: ib_wf_def remote_buffer_def end_tick_def last_index_def tick_add_i32_def)
  from pruning_loses_late_input [OF this, of 13 7 "\<lambda>_ v. v" 0 id] show ?thesis
    by (auto simp: Let_def held_message_def)
qed

section \<open>Tick zero\<close>

text \<open>
  A buffer that starts at tick zero with a reference to the precedent: the precedent of tick zero
  is tick zero again, so the lookup recurses for ever. Setting the same input twice at tick zero
  gives such a buffer.
\<close>

lemma lookup_at_tick_zero_does_not_return:
  "ib_get \<lparr>start_tick = Some 0, inputs = [SameAsPrecedent], last_remote_tick = l\<rparr> 0 = None"
proof -
  let ?b = "\<lparr>start_tick = Some 0, inputs = [SameAsPrecedent], last_remote_tick = l\<rparr>"
  have "\<not> (b = ?b \<and> t = 0)" if "ib_get b t = Some r" for b t r
    using that
  proof (rule ib_get.raw_induct [rotated])
    fix get b' t' r'
    assume ih: "\<And>b t r. get b t = Some r \<Longrightarrow> \<not> (b = ?b \<and> t = 0)"
      and step: "(case start_tick b' of None \<Rightarrow> Some None
        | Some start \<Rightarrow>
            if inputs b' = [] then Some None
            else if t' < start \<or> tick_add_i32 start (last_index b') < t' then Some None
            else (case get_index (inputs b') (index_of t' start) of None \<Rightarrow> None
              | Some Absent \<Rightarrow> Some None
              | Some SameAsPrecedent \<Rightarrow> get b' (tick_sub_u32 t' 1)
              | Some (Input v) \<Rightarrow> Some (Some v))) = Some r'"
    show "\<not> (b' = ?b \<and> t' = 0)"
    proof
      assume b: "b' = ?b \<and> t' = 0"
      then have "get b' t' = Some r'"
        using step by (simp add: last_index_def tick_add_i32_def index_of_def tick_sub_def Let_def
            i32_min_def i32_max_def get_index_def tick_sub_u32_def)
      with ih b show False by blast
    qed
  qed
  then show ?thesis by (meson not_Some_eq)
qed

lemma setting_tick_zero_twice:
  "Option.bind (ib_set 0 v input_buffer_default) (ib_set 0 v) =
    Some \<lparr>start_tick = Some 0, inputs = [SameAsPrecedent], last_remote_tick = None\<rparr>"
proof -
  have "ib_set 0 v input_buffer_default = Some \<lparr>start_tick = Some 0, inputs = [Input v], last_remote_tick = None\<rparr>"
    by (subst ib_set_def, subst ib_get.simps) (simp add: input_buffer_default_def set_raw_def)
  moreover have "ib_get \<lparr>start_tick = Some 0, inputs = [Input v], last_remote_tick = None\<rparr> 0 = Some (Some v)"
    by (subst ib_get_input_at) (simp_all add: ib_wf_def input_at_def resolve_def receive_state_def)
  ultimately show ?thesis
    by (simp add: ib_set_def tick_sub_u32_def set_raw_def last_index_def tick_add_i32_def index_of_def
        tick_sub_def Let_def i32_min_def i32_max_def)
qed

section \<open>From a misprediction to a rollback\<close>

text \<open>The check of the state comes first: it leaves the tracker of mismatched inputs alone.\<close>

definition keeps_tracker :: "'e prediction_manager \<Rightarrow> 'e prediction_manager \<times> rollback option \<Rightarrow> bool" where
  "keeps_tracker m = (\<lambda>(m', resource). policy m' = policy m \<and> mismatch_tick m' = mismatch_tick m \<and>
     has_mismatches m' = has_mismatches m \<and> input_rollback_floor m' = input_rollback_floor m \<and>
     (is_rollback m' \<longrightarrow> resource = Some From_State))"

lemma do_rollback_keeps_tracker:
  "keeps_tracker m mr \<Longrightarrow> \<not> is_rollback (fst mr) \<Longrightarrow> keeps_tracker m (do_rollback t max_ticks r From_State mr)"
  by (cases mr) (auto simp: keeps_tracker_def do_rollback_cases is_rollback_iff set_rollback_tick_def set_non_rollback_def)

lemma set_rollback_keeps_tracker:
  "keeps_tracker m (manager w, rollback_resource w) \<Longrightarrow> \<not> is_rollback (manager w) \<Longrightarrow>
   keeps_tracker m (manager (set_rollback t max_ticks r From_State w), rollback_resource (set_rollback t max_ticks r From_State w))"
  using do_rollback_keeps_tracker [of m "(manager w, rollback_resource w)" t max_ticks r]
  by (auto simp: set_rollback_def Let_def split: prod.split)

lemma check_state_policy_keeps_tracker:
  assumes "\<not> is_rollback (manager w)"
  shows "keeps_tracker (manager w) (manager (check_state_policy t max_ticks registry checkpoint received w),
    rollback_resource (check_state_policy t max_ticks registry checkpoint received w))"
proof -
  have start: "keeps_tracker (manager w) (manager w, rollback_resource w)"
    using assms by (simp add: keeps_tracker_def)
  have mismatch: "keeps_tracker (manager w) (manager (check_state_mismatch t max_ticks registry c w),
      rollback_resource (check_state_mismatch t max_ticks registry c w))" for c
  proof -
    obtain deferred checks where tt: "take_through c (pending_entity_state_checks (manager w)) = (deferred, checks)"
      by fastforce
    let ?w = "w\<lparr>manager := (manager w)\<lparr>pending_entity_state_checks := checks\<rparr>\<rparr>"
    let ?u = "set_rollback t max_ticks c From_State (?w\<lparr>metadata := clear_mismatch_history (metadata w)\<rparr>)"
    have w: "keeps_tracker (manager w) (manager ?w, rollback_resource ?w)" "\<not> is_rollback (manager ?w)"
      using assms by (simp_all add: keeps_tracker_def is_rollback_iff)
    have u: "keeps_tracker (manager w) (manager ?u, rollback_resource ?u)"
      by (rule set_rollback_keeps_tracker) (use w in simp_all)
    let ?scan = "scan_entities c (do_rollback t max_ticks c From_State) (\<lambda>(m, _). is_rollback m) registry deferred
      (entities w) (manager ?w, rollback_resource w)"
    obtain es m resource where scan: "?scan = (es, m, resource)"
      by (cases ?scan) auto
    have "keeps_tracker (manager w) (snd ?scan)"
      by (rule scan_entities_inv) (use w in \<open>auto intro!: do_rollback_keeps_tracker\<close>)
    then show ?thesis
      using u scan start tt
      by (simp add: check_state_mismatch_def Let_def split: option.split)
  qed
  then show ?thesis
    using start set_rollback_keeps_tracker [OF start assms]
    by (auto simp: check_state_policy_def split: rollback_mode.split option.split)
qed

lemma first_mismatch_unique:
  assumes "first_mismatch decay b states n0 (unat l) (Suc (unat m_end)) found" and "received = message_at states n0"
    and "l < mis" "mis \<le> m_end" "predicted_at decay b (unat mis) \<noteq> received (unat mis)"
    and "\<And>n. unat l < n \<Longrightarrow> n < unat mis \<Longrightarrow> predicted_at decay b n = received n"
  shows "found = Some mis"
proof (cases found)
  case None
  then show ?thesis
    using assms(1-5) by (auto simp: first_mismatch_def word_less_nat_alt word_le_nat_alt)
next
  case (Some f)
  then have f: "unat l < unat f" "predicted_at decay b (unat f) \<noteq> received (unat f)"
    "\<And>n. unat l < n \<Longrightarrow> n < unat f \<Longrightarrow> predicted_at decay b n = received n"
    using assms(1,2) by (auto simp: first_mismatch_def)
  have "unat f = unat mis"
    using f assms(3,5,6) unfolding word_less_nat_alt by (metis linorder_neqE_nat)
  then show ?thesis
    using Some by (simp add: word_unat_eq_iff)
qed

text \<open>A tracked mismatch is rolled back by the next check, unless the policy for state rolls back first.\<close>

lemma tracked_mismatch_rolls_back:
  fixes w :: "('e, 'v) rollback_world"
  assumes "policy_input (policy (manager w)) = Check" and "rollback_state (manager w) = Rollback_Default"
    and "has_mismatches (manager w)" and "forced_rollback_tick (metadata w) = None"
    and "r = tick_sub_u32 (mismatch_tick (manager w)) 1"
    and "in_window t (effective_max_rollback_ticks (policy (manager w)) mpt) r"
    and "input_rollback_is_allowed (manager w) r"
    and run: "check_rollback exists t mpt registry checkpoint False lci w = (despawned, disabled, enabled, w')"
    and u: "u = check_state_policy t (effective_max_rollback_ticks (policy (manager w)) mpt) registry checkpoint
      (received_messages_this_frame (metadata w)) (w\<lparr>metadata := (metadata w)\<lparr>forced_rollback_tick := None\<rparr>\<rparr>)"
  shows "if is_rollback (manager u)
    then rollback_resource w' = Some From_State \<and> get_rollback_start_tick (manager w') = get_rollback_start_tick (manager u)
    else rollback_resource w' = Some From_Inputs \<and> get_rollback_start_tick (manager w') = Some r"
proof -
  let ?max = "effective_max_rollback_ticks (policy (manager w)) mpt"
  have "\<not> is_rollback (manager (w\<lparr>metadata := (metadata w)\<lparr>forced_rollback_tick := None\<rparr>\<rparr>))"
    using assms(2) by (simp add: is_rollback_iff)
  from check_state_policy_keeps_tracker [OF this]
  have kept: "policy (manager u) = policy (manager w)" "mismatch_tick (manager u) = mismatch_tick (manager w)"
    "has_mismatches (manager u)" "input_rollback_floor (manager u) = input_rollback_floor (manager w)"
    "is_rollback (manager u) \<Longrightarrow> rollback_resource u = Some From_State"
    using assms(3) unfolding u by (simp_all add: keeps_tracker_def)
  have dec: "decide_rollback t mpt registry checkpoint False lci w = (False, check_input_policy t ?max lci u)"
    using assms(4) by (simp add: decide_rollback_def Let_def u)
  have inp: "check_input_policy t ?max lci u =
      (if is_rollback (manager u) then u
       else u\<lparr>manager := set_rollback_tick r (manager u), rollback_resource := Some From_Inputs\<rparr>)"
    using kept assms(1,5-7)
    by (simp add: check_input_policy_def set_rollback_def do_rollback_cases input_rollback_is_allowed_def)
  obtain m'' where w': "w' = (check_input_policy t ?max lci u)\<lparr>manager := m''\<rparr>"
    "despawn_after_rollback exists False (manager (check_input_policy t ?max lci u)) = (despawned, disabled, enabled, m'')"
    using run dec by (auto simp: check_rollback_def split: prod.splits)
  show ?thesis
    using w'(1) despawn_after_rollback_state(1) [OF w'(2)] kept(5) unfolding inp
    by (simp add: get_rollback_start_tick_def)
qed

text \<open>
  C35: a misprediction is rolled back. A client that checks inputs for mismatches receives a message for
  a remote player that leaves no gap after the last received tick \<open>l\<close> (the conditions on the buffer and the message are those
  of \<open>update_finds_first_misprediction\<close>), and \<open>mis\<close> is the first tick whose input it predicted
  wrongly, already simulated. The message is relevant, the buffer afterwards has its inputs, and the
  next check for rollbacks, with no forced rollback requested and no catch-up awaited, decides a rollback. If the policy for state
  decides one, this one takes precedence, and inputs are not consulted. Otherwise it is a rollback from
  inputs to the tick before the earliest mismatch that the tracker of the frame has, at \<open>mis\<close> or before, as long
  as that tick is in the rollback window and not before the session.
\<close>

theorem misprediction_rolls_back:
  assumes "ib_wf b" and "last_remote_tick b = Some l" and "start_tick b = Some s" and "s \<le> l"
    and "end_tick b = Some e" and "l \<le> e"
    and "length states \<le> Suc (unat m_end)" and "Suc (unat m_end) - length states \<le> Suc (unat l)"
    and "unat m_end < 4294967294" and "unat m_end - unat s < 2147483645"
    and received: "received = message_at states (Suc (unat m_end) - length states)"
    and mis: "l < mis" "mis \<le> m_end" "mis \<le> t" "predicted_at decay b (unat mis) \<noteq> received (unat mis)"
      "\<And>n. unat l < n \<Longrightarrow> n < unat mis \<Longrightarrow> predicted_at decay b n = received n"
    and m: "policy_input (policy (m :: 'e prediction_manager)) = Check" "rollback_state m = Rollback_Default"
    and r: "r = tick_sub_u32 (min mis (mismatch_tick m)) 1"
    and "in_window t (effective_max_rollback_ticks (policy m) mpt) r" and "input_rollback_is_allowed m r"
  shows "\<exists>b' m'. receive_remote_player_input decay base_value t m_end states (Some b, m) = Some (True, b', None, m') \<and>
    (\<forall>u. l < u \<and> u \<le> m_end \<longrightarrow> ib_get b' u = Some (received (unat u))) \<and>
    (\<forall>w despawned disabled enabled w'. manager w = m' \<longrightarrow> forced_rollback_tick (metadata w) = None \<longrightarrow>
      check_rollback exists t mpt registry checkpoint False lci w = (despawned, disabled, enabled, w') \<longrightarrow>
      (let u = check_state_policy t (effective_max_rollback_ticks (policy m) mpt) registry checkpoint
                 (received_messages_this_frame (metadata w)) (w\<lparr>metadata := (metadata w)\<lparr>forced_rollback_tick := None\<rparr>\<rparr>)
       in if is_rollback (manager u)
          then rollback_resource w' = Some From_State \<and> get_rollback_start_tick (manager w') = get_rollback_start_tick (manager u)
          else rollback_resource w' = Some From_Inputs \<and> get_rollback_start_tick (manager w') = Some r))"
proof -
  obtain found b' where upd: "update_buffer decay states m_end b = Some (found, b')"
    "first_mismatch decay b states (Suc (unat m_end) - length states) (unat l) (Suc (unat m_end)) found"
    "\<forall>u. l < u \<and> u \<le> m_end \<longrightarrow> ib_get b' u = Some (received (unat u))"
    using update_buffer_result [OF assms(1-10), of decay] received by blast
  have "found = Some mis"
    by (rule first_mismatch_unique [OF upd(2) received mis(1,2,4,5)])
  let ?m = "m\<lparr>has_mismatches := True, mismatch_tick := min mis (mismatch_tick m)\<rparr>"
  have "\<not> m_end \<le> l"
    using mis(1,2) by simp
  then have rcv: "receive_remote_player_input decay base_value t m_end states (Some b, m) = Some (True, b', None, ?m)"
    using assms(2) upd(1) \<open>found = Some mis\<close> mis(3) m(1)
    by (simp add: receive_remote_player_input_def update_buffer_from_remote_player_message_def)
  have "let u = check_state_policy t (effective_max_rollback_ticks (policy m) mpt) registry checkpoint
                 (received_messages_this_frame (metadata w)) (w\<lparr>metadata := (metadata w)\<lparr>forced_rollback_tick := None\<rparr>\<rparr>)
       in if is_rollback (manager u)
          then rollback_resource w' = Some From_State \<and> get_rollback_start_tick (manager w') = get_rollback_start_tick (manager u)
          else rollback_resource w' = Some From_Inputs \<and> get_rollback_start_tick (manager w') = Some r"
    if "manager w = ?m" "forced_rollback_tick (metadata w) = None"
      and "check_rollback exists t mpt registry checkpoint False lci w = (despawned, disabled, enabled, w')"
    for w despawned disabled enabled w'
    unfolding Let_def
    by (rule tracked_mismatch_rolls_back [where t = t and mpt = mpt and registry = registry and checkpoint = checkpoint
          and w = w and r = r, OF _ _ _ that(2) _ _ _ that(3)])
      (use that(1) m r assms(20,21) in \<open>simp_all add: input_rollback_is_allowed_def\<close>)
  then show ?thesis
    using rcv upd(3) by blast
qed

definition mispredicting_world :: "'e prediction_manager \<Rightarrow> ('e, int) rollback_world" where
  "mispredicting_world m = \<lparr>manager = m, metadata = metadata_default, rollback_resource = None, entities = []\<rparr>"

text \<open>The default policy checks both the state and the inputs.\<close>

theorem misprediction_rolls_back_witness:
  "\<exists>b' m' d dis en w'.
     receive_remote_player_input id 0 15 14 remote_message (Some remote_buffer, prediction_manager_default :: nat prediction_manager) =
       Some (True, b', None, m') \<and> ib_get b' 14 = Some (Some 1) \<and>
     check_rollback (\<lambda>_. True) 15 0 [] (Some 13) False last_confirmed_input_default (mispredicting_world m') =
       (d, dis, en, w') \<and>
     rollback_resource w' = Some From_Inputs \<and> get_rollback_start_tick (manager w') = Some 13"
proof -
  let ?m = "prediction_manager_default :: nat prediction_manager"
  let ?received = "message_at remote_message (Suc (unat (14 :: tick)) - length remote_message)"
  have eq: "predicted_at id remote_buffer n = ?received n" if "unat (12 :: tick) < n" "n < unat (14 :: tick)" for n
  proof -
    have "n = 13" using that by simp
    then show ?thesis using remote_prediction remote_buffer_ok by simp
  qed
  have "\<exists>b' m'. receive_remote_player_input id 0 15 14 remote_message (Some remote_buffer, ?m) = Some (True, b', None, m') \<and>
    (\<forall>u. 12 < u \<and> u \<le> 14 \<longrightarrow> ib_get b' u = Some (?received (unat u))) \<and>
    (\<forall>w despawned disabled enabled w'. manager w = m' \<longrightarrow> forced_rollback_tick (metadata w) = None \<longrightarrow>
      check_rollback (\<lambda>_. True) 15 0 [] (Some 13) False last_confirmed_input_default (w :: (nat, int) rollback_world) = (despawned, disabled, enabled, w') \<longrightarrow>
      (let u = check_state_policy 15 (effective_max_rollback_ticks (policy ?m) 0) [] (Some 13)
                 (received_messages_this_frame (metadata w)) (w\<lparr>metadata := (metadata w)\<lparr>forced_rollback_tick := None\<rparr>\<rparr>)
       in if is_rollback (manager u)
          then rollback_resource w' = Some From_State \<and> get_rollback_start_tick (manager w') = get_rollback_start_tick (manager u)
          else rollback_resource w' = Some From_Inputs \<and> get_rollback_start_tick (manager w') = Some (13 :: tick)))"
    by (rule misprediction_rolls_back [where s = 10 and e = 12 and mis = 14, OF _ _ _ _ _ _ _ _ _ _ refl _ _ _ _ eq])
      (simp_all add: remote_buffer_ok remote_prediction prediction_manager_default_def rollback_policy_default_def
        atomic_new_max_def min_def in_window_def effective_max_rollback_ticks_def tick_sub_u32_def input_rollback_is_allowed_def)
  then obtain b' m' where rcv: "receive_remote_player_input id 0 15 14 remote_message (Some remote_buffer, ?m) = Some (True, b', None, m')"
    "ib_get b' 14 = Some (?received (unat (14 :: tick)))"
    and chk: "\<And>w despawned disabled enabled w'. manager w = m' \<Longrightarrow> forced_rollback_tick (metadata w) = None \<Longrightarrow>
      check_rollback (\<lambda>_. True) 15 0 [] (Some 13) False last_confirmed_input_default (w :: (nat, int) rollback_world) = (despawned, disabled, enabled, w') \<Longrightarrow>
      (let u = check_state_policy 15 (effective_max_rollback_ticks (policy ?m) 0) [] (Some 13)
                 (received_messages_this_frame (metadata w)) (w\<lparr>metadata := (metadata w)\<lparr>forced_rollback_tick := None\<rparr>\<rparr>)
       in if is_rollback (manager u)
          then rollback_resource w' = Some From_State \<and> get_rollback_start_tick (manager w') = get_rollback_start_tick (manager u)
          else rollback_resource w' = Some From_Inputs \<and> get_rollback_start_tick (manager w') = Some (13 :: tick))"
    by auto
  obtain d dis en w' where run: "check_rollback (\<lambda>_. True) 15 0 [] (Some 13) False last_confirmed_input_default
      (mispredicting_world m') = (d, dis, en, w')"
    by (metis prod_cases4)
  have "pending_entity_state_checks m' = pending_entity_state_checks ?m \<and> policy m' = policy ?m \<and> rollback_state m' = rollback_state ?m"
    using rcv(1) by (auto simp: receive_remote_player_input_def update_buffer_from_remote_player_message_def remote_buffer_ok
        bind_eq_Some_conv split: option.splits if_splits)
  then have m': "pending_entity_state_checks m' = []" "policy m' = rollback_policy_default" "rollback_state m' = Rollback_Default"
    by (simp_all add: prediction_manager_default_def)
  have "\<not> is_rollback (manager (check_state_policy 15 (effective_max_rollback_ticks (policy ?m) 0) [] (Some 13) False (mispredicting_world m')))"
    using m' by (simp add: check_state_policy_def check_state_mismatch_def mispredicting_world_def metadata_default_def
        rollback_policy_default_def is_rollback_iff has_confirmed_tick_advanced_def pending_mismatch_at_or_before_def Let_def)
  then have "rollback_resource w' = Some From_Inputs \<and> get_rollback_start_tick (manager w') = Some 13"
    using chk [OF _ _ run] by (simp add: mispredicting_world_def metadata_default_def)
  moreover have "?received (unat (14 :: tick)) = Some 1"
    using remote_prediction remote_buffer_ok by simp
  ultimately show ?thesis
    using rcv run by auto
qed

end
