(* ===== verification/Network_Topology.thy ===== *)
theory Network_Topology
  imports Prelude "HOL-Library.Multiset"
begin

text \<open>
  The networking role of an application
  (\<open>crates/connection/connection/src/network_topology.rs\<close>, \<open>p2p.rs\<close>): which of client, server, host
  client or peer the ready connection entities make it, or why they make none. A query of the engine is
  the list of its rows, in an order that the engine does not promise; an entity is a type parameter with
  its index in the entity store. Shown: the role does not depend on the order of the rows.
\<close>

section \<open>Data\<close>

datatype p2p = Inactive | Candidate | Joined

datatype 'e topology_error =
    MixedP2PAndConventional (mixed_p2p: 'e) (mixed_client: "'e option") (mixed_server: "'e option")
  | MultipleConnectedClients "'e list"
  | MultipleStartedServers "'e list"
  | HostClientWithoutClient 'e
  | HostClientMissingLinkOf 'e
  | HostClientServerNotStarted (hcs_client: 'e) (hcs_server: 'e)
  | MixedClientServer (mcs_client: 'e) (mcs_server: 'e)

datatype 'e topology =
    TopologyUndefined
  | TopologyClient 'e
  | TopologyServer 'e
  | TopologyHostClient (host_server: 'e) (host_client: 'e)
  | TopologyP2P "'e list"
  | TopologyInvalid "'e topology_error"

definition topology_is_client :: "'e topology \<Rightarrow> bool" where
  "topology_is_client t = (case t of TopologyClient _ \<Rightarrow> True | _ \<Rightarrow> False)"

definition topology_is_server :: "'e topology \<Rightarrow> bool" where
  "topology_is_server t =
     (case t of TopologyServer _ \<Rightarrow> True | TopologyHostClient _ _ \<Rightarrow> True | _ \<Rightarrow> False)"

definition topology_is_headless_server :: "'e topology \<Rightarrow> bool" where
  "topology_is_headless_server t = (case t of TopologyServer _ \<Rightarrow> True | _ \<Rightarrow> False)"

definition topology_is_host_server :: "'e topology \<Rightarrow> bool" where
  "topology_is_host_server t = (case t of TopologyHostClient _ _ \<Rightarrow> True | _ \<Rightarrow> False)"

definition topology_is_p2p :: "'e topology \<Rightarrow> bool" where
  "topology_is_p2p t = (case t of TopologyP2P _ \<Rightarrow> True | _ \<Rightarrow> False)"

record ('p, 'e) networking_metadata =
  nm_mode :: "'e topology"
  nm_peer_map :: "'p \<rightharpoonup> 'e"
  nm_dirty :: bool

definition networking_metadata_default :: "('p, 'e) networking_metadata" where
  "networking_metadata_default =
     \<lparr>nm_mode = TopologyUndefined, nm_peer_map = Map.empty, nm_dirty = True\<rparr>"

definition mark_dirty :: "('p, 'e) networking_metadata \<Rightarrow> ('p, 'e) networking_metadata" where
  "mark_dirty metadata = metadata\<lparr>nm_dirty := True\<rparr>"

definition network_topology_is_dirty :: "('p, 'e) networking_metadata \<Rightarrow> bool" where
  "network_topology_is_dirty metadata = nm_dirty metadata"

section \<open>Inference\<close>

text \<open>
  The rows of the queries. \<open>min_by_key\<close> gives the first of the least elements;
  \<open>sort_unstable_by_key\<close> is the sort by key, which for keys without repetition is unique.
\<close>

record 'e ready_client =
  rc_entity :: 'e
  rc_is_host :: bool
  rc_server :: "'e option"

record 'e p2p_row =
  pr_entity :: 'e
  pr_state :: p2p
  pr_connected :: bool

record 'e client_row =
  cw_entity :: 'e
  cw_is_p2p :: bool
  cw_is_host :: bool
  cw_link_of :: "'e option"

fun min_by_key :: "('a \<Rightarrow> u32) \<Rightarrow> 'a list \<Rightarrow> 'a option" where
  "min_by_key key [] = None"
| "min_by_key key (x # xs) =
     (case min_by_key key xs of
        None \<Rightarrow> Some x
      | Some y \<Rightarrow> if key y < key x then Some y else Some x)"

definition unique_ready_client ::
  "('e \<Rightarrow> u32) \<Rightarrow> 'e ready_client list \<Rightarrow> 'e topology_error + 'e ready_client option" where
  "unique_ready_client index clients =
     (case clients of
        [] \<Rightarrow> Inr None
      | [first] \<Rightarrow> Inr (Some first)
      | first # second # rest \<Rightarrow>
          (let entities = [rc_entity first, rc_entity second] @ map rc_entity rest
           in Inl (MultipleConnectedClients (sort_key index entities))))"

definition unique_ready_server ::
  "('e \<Rightarrow> u32) \<Rightarrow> 'e list \<Rightarrow> 'e topology_error + 'e option" where
  "unique_ready_server index servers =
     (case servers of
        [] \<Rightarrow> Inr None
      | [first] \<Rightarrow> Inr (Some first)
      | first # second # rest \<Rightarrow>
          Inl (MultipleStartedServers (sort_key index ([first, second] @ rest))))"

definition infer_standard_topology :: "'e ready_client option \<Rightarrow> 'e option \<Rightarrow> 'e topology" where
  "infer_standard_topology client server =
     (case (client, server) of
        (None, None) \<Rightarrow> TopologyUndefined
      | (None, Some server) \<Rightarrow> TopologyServer server
      | (Some client, None) \<Rightarrow>
          if rc_is_host client then
            (case rc_server client of
               Some server \<Rightarrow>
                 TopologyInvalid (HostClientServerNotStarted (rc_entity client) server)
             | None \<Rightarrow> TopologyInvalid (HostClientMissingLinkOf (rc_entity client)))
          else TopologyClient (rc_entity client)
      | (Some client, Some server) \<Rightarrow>
          if rc_is_host client then
            (case rc_server client of
               Some linked_server \<Rightarrow>
                 if linked_server = server then TopologyHostClient server (rc_entity client)
                 else TopologyInvalid (HostClientServerNotStarted (rc_entity client) linked_server)
             | None \<Rightarrow> TopologyInvalid (HostClientMissingLinkOf (rc_entity client)))
          else TopologyInvalid (MixedClientServer (rc_entity client) server))"

definition joined_links :: "('e \<Rightarrow> u32) \<Rightarrow> 'e p2p_row list \<Rightarrow> 'e list" where
  "joined_links index p2p_links =
     sort_key index
       (map pr_entity (filter (\<lambda>row. pr_state row = Joined \<and> pr_connected row) p2p_links))"

definition infer_p2p_topology ::
  "('e \<Rightarrow> u32) \<Rightarrow> 'e \<Rightarrow> 'e p2p_row list \<Rightarrow> 'e client_row list \<Rightarrow> 'e list \<Rightarrow> 'e topology" where
  "infer_p2p_topology index p2p p2p_links ready_clients ready_servers =
     (let conventional_client =
            min_by_key index
              (map cw_entity (filter (\<lambda>row. \<not> cw_is_p2p row \<or> cw_is_host row) ready_clients));
          server = min_by_key index ready_servers
      in if conventional_client \<noteq> None \<or> server \<noteq> None then
           TopologyInvalid (MixedP2PAndConventional p2p conventional_client server)
         else
           (let has_candidates = (\<exists>row \<in> set p2p_links. pr_state row = Candidate);
                joined = joined_links index p2p_links
            in if has_candidates \<or> joined = [] then TopologyUndefined else TopologyP2P joined))"

definition infer_topology ::
  "('e \<Rightarrow> u32) \<Rightarrow> 'e p2p_row list \<Rightarrow> 'e client_row list \<Rightarrow> 'e list \<Rightarrow> 'e list \<Rightarrow> 'e topology" where
  "infer_topology index p2p_links ready_clients ready_servers malformed_hosts =
     (let malformed_host = min_by_key index malformed_hosts;
          first_active_p2p =
            min_by_key index (map pr_entity (filter (\<lambda>row. pr_state row \<noteq> Inactive) p2p_links))
      in case malformed_host of
           Some client \<Rightarrow> TopologyInvalid (HostClientWithoutClient client)
         | None \<Rightarrow>
             (case first_active_p2p of
                Some p2p \<Rightarrow> infer_p2p_topology index p2p p2p_links ready_clients ready_servers
              | None \<Rightarrow>
                  (case unique_ready_client index
                      (map (\<lambda>row. \<lparr>rc_entity = cw_entity row, rc_is_host = cw_is_host row,
                                   rc_server = cw_link_of row\<rparr>)
                        (filter (\<lambda>row. \<not> cw_is_p2p row) ready_clients)) of
                     Inl error \<Rightarrow> TopologyInvalid error
                   | Inr client \<Rightarrow>
                       (case unique_ready_server index ready_servers of
                          Inl error \<Rightarrow> TopologyInvalid error
                        | Inr server \<Rightarrow> infer_standard_topology client server))))"

definition refresh_network_topology ::
  "('e \<Rightarrow> u32) \<Rightarrow> 'e p2p_row list \<Rightarrow> 'e client_row list \<Rightarrow> 'e list \<Rightarrow> 'e list \<Rightarrow>
   ('p, 'e) networking_metadata \<Rightarrow> ('p, 'e) networking_metadata" where
  "refresh_network_topology index p2p_links ready_clients ready_servers malformed_hosts metadata =
     (let next = infer_topology index p2p_links ready_clients ready_servers malformed_hosts;
          mode_changed = nm_mode metadata \<noteq> next;
          metadata = metadata\<lparr>nm_dirty := False\<rparr>
      in if mode_changed then metadata\<lparr>nm_mode := next\<rparr> else metadata)"

section \<open>The order of the rows does not matter\<close>

lemma min_by_key_None: "min_by_key key xs = None \<longleftrightarrow> xs = []"
  by (cases xs) (auto split: option.splits)

lemma min_by_key_Some:
  "min_by_key key xs = Some m \<Longrightarrow> m \<in> set xs \<and> (\<forall>x \<in> set xs. key m \<le> key x)"
  by (induction xs arbitrary: m) (force split: option.splits if_splits simp: min_by_key_None)+

lemma min_by_key_set:
  assumes "set xs = set ys" and "inj_on key (set xs)"
  shows "min_by_key key xs = min_by_key key ys"
proof (cases "min_by_key key xs")
  case None
  with assms(1) have "ys = []" by (simp add: min_by_key_None)
  with None show ?thesis by simp
next
  case (Some m)
  with assms(1) have "min_by_key key ys \<noteq> None"
    by (auto simp: min_by_key_None)
  then obtain n where n: "min_by_key key ys = Some n" by blast
  have "key m = key n"
    using min_by_key_Some [OF Some] min_by_key_Some [OF n] assms(1) by (force intro: antisym)
  with assms n min_by_key_Some [OF Some] min_by_key_Some [OF n] have "m = n"
    by (auto dest: inj_onD)
  with Some n show ?thesis by simp
qed

text \<open>What a permutation of the rows keeps: the rows that a filter and a projection select.\<close>

lemma mset_rows:
  assumes "mset xs = mset ys"
  shows "mset (map f (filter P xs)) = mset (map f (filter P ys))"
  using assms by (metis mset_filter mset_map)

lemma sort_rows:
  assumes "mset xs = mset ys" and "inj_on key (set (map f (filter P xs)))"
  shows "sort_key key (map f (filter P xs)) = sort_key key (map f (filter P ys))"
  by (rule sort_key_eq_sort_key [OF mset_rows [OF assms(1)] assms(2)])

lemma unique_ready_server_perm:
  assumes "mset xs = mset ys" and "inj_on key (set xs)"
  shows "unique_ready_server key xs = unique_ready_server key ys"
proof (cases "length xs < 2")
  case True
  with assms(1) have "length ys < 2"
    using mset_eq_length by fastforce
  with True assms(1) have "xs = ys"
    by (cases xs; cases ys) (auto dest: mset_eq_length)
  then show ?thesis by simp
next
  case False
  then have "length ys \<ge> 2"
    using mset_eq_length [OF assms(1)] by simp
  with False obtain a b r c d r' where "xs = a # b # r" and "ys = c # d # r'"
    by (metis One_nat_def Suc_1 Suc_le_length_iff not_less)
  with sort_key_eq_sort_key [OF assms] show ?thesis
    by (simp add: unique_ready_server_def)
qed

lemma unique_ready_client_perm:
  assumes "mset xs = mset ys" and "inj_on (\<lambda>c. key (rc_entity c)) (set xs)"
  shows "unique_ready_client key xs = unique_ready_client key ys"
proof (cases "length xs < 2")
  case True
  with assms(1) have "length ys < 2"
    using mset_eq_length by fastforce
  with True assms(1) have "xs = ys"
    by (cases xs; cases ys) (auto dest: mset_eq_length)
  then show ?thesis by simp
next
  case False
  then have "length ys \<ge> 2"
    using mset_eq_length [OF assms(1)] by simp
  with False obtain a b r c d r' where "xs = a # b # r" and "ys = c # d # r'"
    by (metis One_nat_def Suc_1 Suc_le_length_iff not_less)
  moreover have "sort_key key (map rc_entity xs) = sort_key key (map rc_entity ys)"
    using assms mset_map [of rc_entity xs] mset_map [of rc_entity ys]
    by (intro sort_key_eq_sort_key) (auto simp: inj_on_def)
  ultimately show ?thesis
    by (simp add: unique_ready_client_def)
qed


text \<open>
  An entity appears in at most one row of a query, and live entities have different indices.
\<close>

definition distinct_rows :: "('e \<Rightarrow> u32) \<Rightarrow> 'e list \<Rightarrow> bool" where
  "distinct_rows index entities \<longleftrightarrow> distinct entities \<and> inj_on index (set entities)"

lemma distinct_rows_inj:
  assumes "distinct_rows index (map f rows)"
  shows "inj_on (\<lambda>row. index (f row)) (set rows)" and "inj_on index (f ` set rows)"
  using assms by (auto simp: distinct_rows_def distinct_map comp_inj_on [unfolded comp_def])

lemma joined_links_perm:
  assumes "mset links = mset links'" and "distinct_rows index (map pr_entity links)"
  shows "joined_links index links = joined_links index links'"
  unfolding joined_links_def
  by (rule sort_rows [OF assms(1)])
    (use distinct_rows_inj(2) [OF assms(2)] in \<open>auto intro: inj_on_subset\<close>)

lemma infer_p2p_topology_perm:
  assumes "mset links = mset links'" and "mset clients = mset clients'"
    and "mset servers = mset servers'"
    and "distinct_rows index (map pr_entity links)"
    and "distinct_rows index (map cw_entity clients)" and "distinct_rows index servers"
  shows "infer_p2p_topology index p2p links clients servers =
    infer_p2p_topology index p2p links' clients' servers'"
proof -
  note sets = assms(1-3) [THEN mset_eq_setD]
  have "min_by_key index (map cw_entity (filter P clients)) =
      min_by_key index (map cw_entity (filter P clients'))" for P
    by (rule min_by_key_set)
      (use sets distinct_rows_inj(2) [OF assms(5)] in \<open>auto intro: inj_on_subset\<close>)
  moreover have "min_by_key index servers = min_by_key index servers'"
    by (rule min_by_key_set) (use sets assms(6) in \<open>auto simp: distinct_rows_def\<close>)
  ultimately show ?thesis
    using sets joined_links_perm [OF assms(1,4)] by (simp add: infer_p2p_topology_def Let_def)
qed

text \<open>
  The role that an application infers depends on which entities its queries return and not on the
  order in which the engine iterates over them, on the error paths too: whatever permutation of the
  rows a refresh sees, it leaves the same metadata.
\<close>

theorem topology_ignores_query_order:
  assumes "mset links = mset links'" and "mset clients = mset clients'"
    and "mset servers = mset servers'" and "mset hosts = mset hosts'"
    and "distinct_rows index (map pr_entity links)"
    and "distinct_rows index (map cw_entity clients)" and "distinct_rows index servers"
    and "distinct_rows index hosts"
  shows "refresh_network_topology index links clients servers hosts metadata =
    refresh_network_topology index links' clients' servers' hosts' metadata"
proof -
  note sets = assms(1-4) [THEN mset_eq_setD]
  have hosts: "min_by_key index hosts = min_by_key index hosts'"
    by (rule min_by_key_set) (use sets assms(8) in \<open>auto simp: distinct_rows_def\<close>)
  have active: "min_by_key index (map pr_entity (filter P links)) =
      min_by_key index (map pr_entity (filter P links'))" for P
    by (rule min_by_key_set)
      (use sets distinct_rows_inj(2) [OF assms(5)] in \<open>auto intro: inj_on_subset\<close>)
  let ?ready = "\<lambda>row. \<lparr>rc_entity = cw_entity row, rc_is_host = cw_is_host row,
      rc_server = cw_link_of row\<rparr>"
  have client: "unique_ready_client index (map ?ready (filter P clients)) =
      unique_ready_client index (map ?ready (filter P clients'))" for P
  proof (rule unique_ready_client_perm [OF mset_rows [OF assms(2)]])
    show "inj_on (\<lambda>c. index (rc_entity c)) (set (map ?ready (filter P clients)))"
      using distinct_rows_inj(1) [OF assms(6)] by (auto simp: inj_on_def)
  qed
  have server: "unique_ready_server index servers = unique_ready_server index servers'"
    by (rule unique_ready_server_perm [OF assms(3)]) (use assms(7) in \<open>simp add: distinct_rows_def\<close>)
  note p2p = infer_p2p_topology_perm [OF assms(1-3,5-7)]
  show ?thesis
    unfolding refresh_network_topology_def infer_topology_def hosts active client server p2p ..
qed

theorem topology_ignores_query_order_witness:
  "refresh_network_topology of_nat
     [\<lparr>pr_entity = 7, pr_state = Joined, pr_connected = True\<rparr>,
      \<lparr>pr_entity = (3 :: nat), pr_state = Joined, pr_connected = True\<rparr>] [] [] []
     (networking_metadata_default :: (nat, nat) networking_metadata) =
   refresh_network_topology of_nat
     [\<lparr>pr_entity = 3, pr_state = Joined, pr_connected = True\<rparr>,
      \<lparr>pr_entity = 7, pr_state = Joined, pr_connected = True\<rparr>] [] [] []
     networking_metadata_default \<and>
   nm_mode (refresh_network_topology of_nat
     [\<lparr>pr_entity = 7, pr_state = Joined, pr_connected = True\<rparr>,
      \<lparr>pr_entity = (3 :: nat), pr_state = Joined, pr_connected = True\<rparr>] [] [] []
     (networking_metadata_default :: (nat, nat) networking_metadata)) = TopologyP2P [3, 7]"
  (is "?equal \<and> ?role")
proof
  show ?equal
    by (rule topology_ignores_query_order) (simp_all add: distinct_rows_def)
  show ?role
    by (simp add: refresh_network_topology_def infer_topology_def infer_p2p_topology_def
        joined_links_def networking_metadata_default_def Let_def)
qed

end
