(* ===== verification/P2P_Session.thy ===== *)
theory P2P_Session
  imports Network_Topology Network_Target Tick "HOL-Library.List_Lexorder"
begin

text \<open>
  The start barrier of a peer-to-peer session (\<open>crates/connection/p2p/src/session.rs\<close>): the peers of a
  frozen cohort advertise the earliest tick at which each can start, take the latest of them,
  acknowledge it, and start the deterministic simulation at that tick once all have acknowledged it.
  First one peer with its session and its links, then any number of peers with a network that loses,
  repeats, delays and reorders. Shown: two peers of a cohort never start at different ticks, no peer
  starts before its own earliest tick, and when the messages arrive in time all peers start.

  A link is its row in the queries of the systems; the commands a system issues are applied to the
  rows at its end. \<open>None\<close> is a panic. The seahash hasher is a parameter.
\<close>

section \<open>Session\<close>

definition DEFAULT_START_DELAY_TICKS :: u16 where
  "DEFAULT_START_DELAY_TICKS = 120"

definition DEFAULT_START_TIMEOUT :: duration where
  "DEFAULT_START_TIMEOUT = 5 * 10 ^ 9"

datatype session_state = SessionStopped | SessionStarting "tick option" | SessionStarted tick

record remote_peer_start =
  rp_peer_id :: peer_id
  rp_ready_tick :: "tick option"
  rp_acknowledged_tick :: "tick option"

definition remote_peer_start_new :: "peer_id \<Rightarrow> remote_peer_start" where
  "remote_peer_start_new peer_id =
     \<lparr>rp_peer_id = peer_id, rp_ready_tick = None, rp_acknowledged_tick = None\<rparr>"

record p2p_session =
  ss_start_delay_ticks :: u16
  ss_start_timeout :: duration
  ss_start_started_at :: "duration option"
  ss_state :: session_state
  ss_generation :: u32
  ss_local_ready_tick :: "tick option"
  ss_local_ready_sent :: bool
  ss_local_acknowledgement_sent :: bool
  ss_roster_hash :: "u64 option"
  ss_remote_peers :: "remote_peer_start list"
  ss_roster_mismatch :: bool

definition p2p_session_default :: p2p_session where
  "p2p_session_default =
     \<lparr>ss_start_delay_ticks = DEFAULT_START_DELAY_TICKS, ss_start_timeout = DEFAULT_START_TIMEOUT,
      ss_start_started_at = None, ss_state = SessionStopped, ss_generation = 0,
      ss_local_ready_tick = None, ss_local_ready_sent = False,
      ss_local_acknowledgement_sent = False, ss_roster_hash = None, ss_remote_peers = [],
      ss_roster_mismatch = False\<rparr>"

definition with_start_delay_ticks :: "u16 \<Rightarrow> p2p_session \<Rightarrow> p2p_session" where
  "with_start_delay_ticks ticks session = session\<lparr>ss_start_delay_ticks := ticks\<rparr>"

definition with_start_timeout :: "duration \<Rightarrow> p2p_session \<Rightarrow> p2p_session" where
  "with_start_timeout timeout session = session\<lparr>ss_start_timeout := timeout\<rparr>"

definition session_start_tick :: "p2p_session \<Rightarrow> tick option" where
  "session_start_tick session =
     (case ss_state session of
        SessionStarting start_tick \<Rightarrow> start_tick
      | SessionStarted start_tick \<Rightarrow> Some start_tick
      | SessionStopped \<Rightarrow> None)"

definition is_started :: "p2p_session \<Rightarrow> bool" where
  "is_started session = (case ss_state session of SessionStarted _ \<Rightarrow> True | _ \<Rightarrow> False)"

definition is_starting :: "p2p_session \<Rightarrow> bool" where
  "is_starting session = (case ss_state session of SessionStarting _ \<Rightarrow> True | _ \<Rightarrow> False)"

definition begin_session :: "peer_id list \<Rightarrow> u64 \<Rightarrow> duration \<Rightarrow> p2p_session \<Rightarrow> p2p_session" where
  "begin_session remote_peer_ids roster_hash started_at session =
     session\<lparr>ss_generation := ss_generation session + 1, ss_start_started_at := Some started_at,
       ss_local_ready_tick := None, ss_local_ready_sent := False,
       ss_local_acknowledgement_sent := False, ss_roster_hash := Some roster_hash,
       ss_remote_peers := map remote_peer_start_new remote_peer_ids, ss_roster_mismatch := False,
       ss_state := SessionStarting None\<rparr>"

definition clear_barrier_progress :: "p2p_session \<Rightarrow> p2p_session" where
  "clear_barrier_progress session =
     session\<lparr>ss_start_started_at := None, ss_local_ready_tick := None, ss_local_ready_sent := False,
       ss_local_acknowledgement_sent := False, ss_roster_hash := None, ss_remote_peers := [],
       ss_roster_mismatch := False\<rparr>"

definition session_stop :: "p2p_session \<Rightarrow> p2p_session" where
  "session_stop session = clear_barrier_progress (session\<lparr>ss_state := SessionStopped\<rparr>)"

definition contains_remote :: "peer_id \<Rightarrow> p2p_session \<Rightarrow> bool" where
  "contains_remote peer_id session = (\<exists>peer \<in> set (ss_remote_peers session). rp_peer_id peer = peer_id)"

definition timed_out_at :: "duration \<Rightarrow> p2p_session \<Rightarrow> bool" where
  "timed_out_at now session =
     (case ss_start_started_at session of
        None \<Rightarrow> False
      | Some started_at \<Rightarrow> ss_start_timeout session \<le> now - started_at)"

subsection \<open>Messages\<close>

datatype session_message =
    Ready (sm_generation: u32) (sm_roster_hash: u64) (sm_earliest_start_tick: tick)
  | StartAcknowledgement (sm_generation: u32) (sm_roster_hash: u64) (sm_start_tick: tick)

text \<open>The first value a peer sends is the one that counts; a conflicting repeat is only logged.\<close>

definition record_message :: "session_message \<Rightarrow> remote_peer_start \<Rightarrow> remote_peer_start" where
  "record_message message peer =
     (case message of
        Ready _ _ earliest_start_tick \<Rightarrow>
          (case rp_ready_tick peer of
             None \<Rightarrow> peer\<lparr>rp_ready_tick := Some earliest_start_tick\<rparr>
           | Some _ \<Rightarrow> peer)
      | StartAcknowledgement _ _ start_tick \<Rightarrow>
          (case rp_acknowledged_tick peer of
             None \<Rightarrow> peer\<lparr>rp_acknowledged_tick := Some start_tick\<rparr>
           | Some _ \<Rightarrow> peer))"

fun update_first :: "('a \<Rightarrow> bool) \<Rightarrow> ('a \<Rightarrow> 'a) \<Rightarrow> 'a list \<Rightarrow> 'a list" where
  "update_first P f [] = []"
| "update_first P f (x # xs) = (if P x then f x # xs else x # update_first P f xs)"

definition session_receive :: "peer_id \<Rightarrow> session_message \<Rightarrow> p2p_session \<Rightarrow> p2p_session" where
  "session_receive peer_id message session =
     (if sm_generation message \<noteq> ss_generation session then session
      else if \<not> contains_remote peer_id session then session
      else if ss_roster_hash session \<noteq> Some (sm_roster_hash message) then
        session\<lparr>ss_roster_mismatch := True\<rparr>
      else session\<lparr>ss_remote_peers :=
        update_first (\<lambda>peer. rp_peer_id peer = peer_id) (record_message message)
          (ss_remote_peers session)\<rparr>)"

subsection \<open>Progress of the barrier\<close>

datatype advance_result = Waiting | Agreed tick | AdvanceFailed

fun latest_ready_tick :: "tick \<Rightarrow> remote_peer_start list \<Rightarrow> tick option" where
  "latest_ready_tick latest [] = Some latest"
| "latest_ready_tick latest (peer # peers) =
     (case rp_ready_tick peer of
        None \<Rightarrow> None
      | Some ready \<Rightarrow> latest_ready_tick (max latest ready) peers)"

definition session_advance :: "tick \<Rightarrow> bool \<Rightarrow> p2p_session \<Rightarrow> p2p_session \<times> advance_result" where
  "session_advance tick timeline_synced session =
     (if \<not> is_starting session then (session, Waiting)
      else if ss_roster_mismatch session then (session, AdvanceFailed)
      else
        let session =
          (if timeline_synced \<and> ss_local_ready_tick session = None then
             session\<lparr>ss_local_ready_tick :=
               Some (tick_add_i32 tick (uint (ss_start_delay_ticks session)))\<rparr>
           else session)
        in case ss_local_ready_tick session of
             None \<Rightarrow> (session, Waiting)
           | Some local_ready_tick \<Rightarrow>
               (case latest_ready_tick local_ready_tick (ss_remote_peers session) of
                  None \<Rightarrow> (session, Waiting)
                | Some start_tick \<Rightarrow>
                    (let session = session\<lparr>ss_state := SessionStarting (Some start_tick)\<rparr> in
                     if \<exists>peer \<in> set (ss_remote_peers session). rp_acknowledged_tick peer = None then
                       (session, Waiting)
                     else if \<exists>peer \<in> set (ss_remote_peers session).
                         rp_acknowledged_tick peer \<noteq> Some start_tick then
                       (session, AdvanceFailed)
                     else if start_tick \<le> tick then (session, AdvanceFailed)
                     else (session, Agreed start_tick))))"

definition agreed_start_tick :: "p2p_session \<Rightarrow> tick option" where
  "agreed_start_tick session =
     (case ss_state session of
        SessionStarting (Some start_tick) \<Rightarrow>
          if \<exists>peer \<in> set (ss_remote_peers session). rp_acknowledged_tick peer \<noteq> Some start_tick
          then None else Some start_tick
      | _ \<Rightarrow> None)"

definition collect_outbound :: "p2p_session \<Rightarrow> p2p_session \<times> session_message list" where
  "collect_outbound session =
     (case ss_roster_hash session of
        None \<Rightarrow> (session, [])
      | Some roster_hash \<Rightarrow>
          let (session, ready) =
            (case ss_local_ready_tick session of
               Some earliest_start_tick \<Rightarrow>
                 if \<not> ss_local_ready_sent session then
                   (session\<lparr>ss_local_ready_sent := True\<rparr>,
                    [Ready (ss_generation session) roster_hash earliest_start_tick])
                 else (session, [])
             | None \<Rightarrow> (session, []));
            (session, acknowledgement) =
            (case session_start_tick session of
               Some start_tick \<Rightarrow>
                 if \<not> ss_local_acknowledgement_sent session then
                   (session\<lparr>ss_local_acknowledgement_sent := True\<rparr>,
                    [StartAcknowledgement (ss_generation session) roster_hash start_tick])
                 else (session, [])
             | None \<Rightarrow> (session, []))
          in (session, ready @ acknowledgement))"

section \<open>Systems\<close>

record 'e p2p_link =
  pl_entity :: 'e
  pl_state :: p2p
  pl_local_id :: "peer_id option"
  pl_remote_id :: "peer_id option"
  pl_connected :: bool
  pl_sender :: "session_message list option"
  pl_receiver :: "session_message list option"

subsection \<open>The hash of the roster\<close>

record 'h byte_hasher_ops =
  bh_new :: 'h
  bh_write :: "bytes \<Rightarrow> 'h \<Rightarrow> 'h"
  bh_finish :: "'h \<Rightarrow> u64"

fun encode_peers :: "peer_id list \<Rightarrow> bytes list option" where
  "encode_peers [] = Some []"
| "encode_peers (peer_id # peer_ids) =
     (case peer_id_to_bytes peer_id [] of
        Inl _ \<Rightarrow> None
      | Inr encoded \<Rightarrow> map_option ((#) encoded) (encode_peers peer_ids))"

definition roster_hash :: "'h byte_hasher_ops \<Rightarrow> peer_id \<Rightarrow> peer_id list \<Rightarrow> u64 option" where
  "roster_hash H local_id remote_ids =
     map_option
       (\<lambda>encoded_peers. bh_finish H (fold (bh_write H) (sort encoded_peers) (bh_new H)))
       (encode_peers (local_id # remote_ids))"

subsection \<open>Start and stop\<close>

fun candidate_ids :: "peer_id \<Rightarrow> 'e p2p_link list \<Rightarrow> peer_id list \<Rightarrow> peer_id list option" where
  "candidate_ids local_id [] remote_ids = Some remote_ids"
| "candidate_ids local_id (link # links) remote_ids =
     (case pl_remote_id link of
        None \<Rightarrow> None
      | Some remote_id \<Rightarrow>
          if remote_id = local_id then None
          else if remote_id \<in> set remote_ids then None
          else candidate_ids local_id links (remote_ids @ [remote_id]))"

definition make_candidate :: "'e p2p_link \<Rightarrow> 'e p2p_link" where
  "make_candidate link =
     (if pl_state link = Inactive then
        link\<lparr>pl_state := Candidate,
          pl_receiver := (case pl_receiver link of None \<Rightarrow> Some [] | Some inbox \<Rightarrow> Some inbox)\<rparr>
      else link)"

definition start_session ::
  "'h byte_hasher_ops \<Rightarrow> duration \<Rightarrow> p2p_session \<Rightarrow> 'e p2p_link list \<Rightarrow>
   (p2p_session \<times> 'e p2p_link list) option" where
  "start_session H elapsed session links =
     (if ss_state session \<noteq> SessionStopped then Some (session, links)
      else
        let candidates = filter (\<lambda>link. pl_state link = Inactive) links in
        if candidates = [] then Some (session, links)
        else
          case pl_local_id (hd candidates) of
            None \<Rightarrow> Some (session, links)
          | Some local_id \<Rightarrow>
              if \<exists>link \<in> set candidates. pl_local_id link \<noteq> Some local_id then Some (session, links)
              else
                (case candidate_ids local_id candidates [] of
                   None \<Rightarrow> Some (session, links)
                 | Some remote_ids \<Rightarrow>
                     (case roster_hash H local_id remote_ids of
                        None \<Rightarrow> None
                      | Some hash \<Rightarrow>
                          Some (begin_session remote_ids hash elapsed session,
                            map make_candidate links))))"

text \<open>The result has the entities to unlink and whether \<open>P2PStopped\<close> is triggered.\<close>

definition stop_session ::
  "bool \<Rightarrow> p2p_session \<Rightarrow> 'e p2p_link list \<Rightarrow> p2p_session \<times> 'e p2p_link list \<times> 'e list \<times> bool" where
  "stop_session unlink session links =
     (let was_running = ss_state session \<noteq> SessionStopped
      in (if was_running then session_stop session else session,
          map (\<lambda>link. link\<lparr>pl_state := Inactive\<rparr>) links,
          if unlink then map pl_entity links else [],
          was_running))"

subsection \<open>The systems of a frame\<close>

definition transition_candidates :: "p2p \<Rightarrow> 'e p2p_link list \<Rightarrow> 'e p2p_link list" where
  "transition_candidates next_state links =
     map (\<lambda>link. if pl_state link = Candidate then link\<lparr>pl_state := next_state\<rparr> else link) links"

definition start_session_before_agreed_tick ::
  "('e \<Rightarrow> u32) \<Rightarrow> tick \<Rightarrow> p2p_session \<Rightarrow> ('p, 'e) networking_metadata \<Rightarrow> 'e p2p_link list \<Rightarrow>
   p2p_session \<times> ('p, 'e) networking_metadata \<times> 'e p2p_link list \<times> tick option" where
  "start_session_before_agreed_tick index tick session metadata links =
     (case agreed_start_tick session of
        None \<Rightarrow> (session, metadata, links, None)
      | Some start_tick \<Rightarrow>
          if tick_add_i32 tick 1 \<noteq> start_tick then (session, metadata, links, None)
          else
            let candidates = filter (\<lambda>link. pl_state link = Candidate) links in
            if \<exists>link \<in> set candidates. \<not> pl_connected link then (session, metadata, links, None)
            else if length candidates \<noteq> length (ss_remote_peers session) then
              (session, metadata, links, None)
            else
              (clear_barrier_progress (session\<lparr>ss_state := SessionStarted start_tick\<rparr>),
               metadata\<lparr>nm_mode := TopologyP2P (sort_key index (map pl_entity candidates))\<rparr>,
               transition_candidates Joined links,
               Some start_tick))"

text \<open>
  The loop over the links: the peers found so far, whether the cohort is intact, whether all of it is
  connected.
\<close>

fun drive_links ::
  "'e p2p_link list \<Rightarrow> p2p_session \<Rightarrow> peer_id list \<Rightarrow> bool \<Rightarrow> bool \<Rightarrow>
   p2p_session \<times> 'e p2p_link list \<times> peer_id list \<times> bool \<times> bool" where
  "drive_links [] session found_peers cohort_intact all_connected =
     (session, [], found_peers, cohort_intact, all_connected)"
| "drive_links (link # links) session found_peers cohort_intact all_connected =
     (let skip = (\<lambda>intact connected.
            let (session, links, rest) = drive_links links session found_peers intact connected
            in (session, link # links, rest))
      in if pl_state link \<noteq> Candidate then skip cohort_intact all_connected
         else
           case pl_remote_id link of
             None \<Rightarrow> skip False False
           | Some remote_id \<Rightarrow>
               if \<not> contains_remote remote_id session \<or> remote_id \<in> set found_peers then
                 skip False False
               else
                 let found_peers = found_peers @ [remote_id];
                     all_connected =
                       (if \<not> pl_connected link \<or> pl_sender link = None then False else all_connected);
                     (session, link) =
                       (case pl_receiver link of
                          None \<Rightarrow> (session, link)
                        | Some inbox \<Rightarrow>
                            (fold (session_receive remote_id) inbox session,
                             link\<lparr>pl_receiver := Some []\<rparr>));
                     (session, links, rest) =
                       drive_links links session found_peers cohort_intact all_connected
                 in (session, link # links, rest))"

definition send_to_link :: "p2p_session \<Rightarrow> session_message list \<Rightarrow> 'e p2p_link \<Rightarrow> 'e p2p_link" where
  "send_to_link session outbound link =
     (if pl_state link \<noteq> Candidate
         \<or> \<not> (case pl_remote_id link of
                 None \<Rightarrow> False
               | Some remote_id \<Rightarrow> contains_remote remote_id session) then link
      else
        case pl_sender link of
          None \<Rightarrow> link
        | Some queue \<Rightarrow> link\<lparr>pl_sender := Some (queue @ outbound)\<rparr>)"

definition drive_session ::
  "tick \<Rightarrow> bool \<Rightarrow> duration \<Rightarrow> p2p_session \<Rightarrow> 'e p2p_link list \<Rightarrow> p2p_session \<times> 'e p2p_link list" where
  "drive_session tick synced elapsed session links =
     (if \<not> is_starting session then (session, links)
      else
        let expected_peer_count = length (ss_remote_peers session);
            (session, links, found_peers, cohort_intact, all_connected) =
              drive_links links session [] True True;
            cohort_intact = (cohort_intact \<and> length found_peers = expected_peer_count);
            abort = (\<lambda>session. (session_stop session, transition_candidates Inactive links))
        in if \<not> cohort_intact then abort session
           else if ss_roster_mismatch session then abort session
           else if \<not> all_connected then
             (if timed_out_at elapsed session then abort session else (session, links))
           else
             let (session, result) = session_advance tick synced session
             in if result = AdvanceFailed then abort session
                else if agreed_start_tick session = None \<and> timed_out_at elapsed session then
                  abort session
                else
                  let (session, outbound) = collect_outbound session
                  in (session, map (send_to_link session outbound) links))"


section \<open>Any number of peers\<close>

text \<open>
  The sessions of all peers, the messages that were ever sent, and what is recorded for the statements:
  the number of attempts of each peer, and each start with its attempt, its cohort and its tick. The
  links of a peer are arbitrary in each step, so they may connect, disconnect, appear and vanish at any
  time; a message that a peer receives over a link was sent to it by the peer at the other end, some time
  before, and may be received late, repeatedly or never. The number of attempts is less than the number
  of generations, as the source requires.
\<close>

record p2p_world =
  w_sessions :: "peer_id \<Rightarrow> p2p_session"
  w_attempts :: "peer_id \<Rightarrow> nat"
  w_sent :: "(peer_id \<times> peer_id \<times> session_message) set"
  w_starts :: "(peer_id \<times> u32 \<times> peer_id set \<times> tick) set"

definition cohort :: "p2p_session \<Rightarrow> peer_id set" where
  "cohort session = rp_peer_id ` set (ss_remote_peers session)"

definition authentic ::
  "(peer_id \<times> peer_id \<times> session_message) set \<Rightarrow> peer_id \<Rightarrow> 'e p2p_link list \<Rightarrow> bool" where
  "authentic sent p links \<longleftrightarrow>
     (\<forall>link \<in> set links. \<forall>q inbox m.
        pl_remote_id link = Some q \<longrightarrow> pl_receiver link = Some inbox \<longrightarrow> m \<in> set inbox \<longrightarrow>
        (q, p, m) \<in> sent)"

definition sends_of :: "peer_id \<Rightarrow> 'e p2p_link list \<Rightarrow> (peer_id \<times> peer_id \<times> session_message) set" where
  "sends_of p links =
     {(p, q, m) | q m link queue. link \<in> set links \<and> pl_remote_id link = Some q \<and>
        pl_sender link = Some queue \<and> m \<in> set queue}"

inductive p2p_step ::
  "'h byte_hasher_ops \<Rightarrow> ('e \<Rightarrow> u32) \<Rightarrow> p2p_world \<Rightarrow> p2p_world \<Rightarrow> bool" for H index where
  start: "start_session H now (w_sessions w p) (links :: 'e p2p_link list) = Some (s, links') \<Longrightarrow>
     w_attempts w p + 1 < 2 ^ 32 \<Longrightarrow>
     p2p_step H index w (w\<lparr>w_sessions := (w_sessions w)(p := s),
       w_attempts := (w_attempts w)
         (p := w_attempts w p + (if s = w_sessions w p then 0 else 1))\<rparr>)"
| stop: "stop_session unlink (w_sessions w p) (links :: 'e p2p_link list) = (s, rest) \<Longrightarrow>
     p2p_step H index w (w\<lparr>w_sessions := (w_sessions w)(p := s)\<rparr>)"
| drive: "authentic (w_sent w) p links \<Longrightarrow> sends_of p links \<subseteq> w_sent w \<Longrightarrow>
     drive_session tick synced now (w_sessions w p) (links :: 'e p2p_link list) = (s, links') \<Longrightarrow>
     p2p_step H index w (w\<lparr>w_sessions := (w_sessions w)(p := s),
       w_sent := w_sent w \<union> sends_of p links'\<rparr>)"
| boundary: "start_session_before_agreed_tick index tick (w_sessions w p)
       (metadata :: (peer_id, 'e) networking_metadata) links = (s, metadata', links', event) \<Longrightarrow>
     p2p_step H index w (w\<lparr>w_sessions := (w_sessions w)(p := s),
       w_starts := w_starts w \<union>
         {(p, ss_generation (w_sessions w p), cohort (w_sessions w p), t) | t. event = Some t}\<rparr>)"

definition p2p_initial :: "p2p_world \<Rightarrow> bool" where
  "p2p_initial w \<longleftrightarrow>
     (\<forall>p. \<exists>delay timeout. w_sessions w p =
        with_start_timeout timeout (with_start_delay_ticks delay p2p_session_default)) \<and>
     w_attempts w = (\<lambda>_. 0) \<and> w_sent w = {} \<and> w_starts w = {}"

inductive p2p_reachable :: "'h byte_hasher_ops \<Rightarrow> ('e \<Rightarrow> u32) \<Rightarrow> p2p_world \<Rightarrow> bool" for H index where
  initial: "p2p_initial w \<Longrightarrow> p2p_reachable H index w"
| step: "p2p_reachable H index w \<Longrightarrow> p2p_step H index w w' \<Longrightarrow> p2p_reachable H index w'"

section \<open>What one peer knows\<close>

definition known :: "(peer_id \<times> peer_id \<times> session_message) set \<Rightarrow> peer_id \<Rightarrow> p2p_session \<Rightarrow> bool" where
  "known sent p s \<longleftrightarrow>
     (\<forall>peer \<in> set (ss_remote_peers s).
        (\<forall>e. rp_ready_tick peer = Some e \<longrightarrow>
           (\<exists>h. (rp_peer_id peer, p, Ready (ss_generation s) h e) \<in> sent)) \<and>
        (\<forall>t. rp_acknowledged_tick peer = Some t \<longrightarrow>
           (\<exists>h. (rp_peer_id peer, p, StartAcknowledgement (ss_generation s) h t) \<in> sent)))"

definition settled :: "p2p_session \<Rightarrow> bool" where
  "settled s \<longleftrightarrow>
     (\<forall>t. ss_state s = SessionStarting (Some t) \<longrightarrow>
        (\<exists>l. ss_local_ready_tick s = Some l \<and> latest_ready_tick l (ss_remote_peers s) = Some t))"

definition advances :: "p2p_session \<Rightarrow> p2p_session \<Rightarrow> bool" where
  "advances s s' \<longleftrightarrow>
     ss_generation s' = ss_generation s \<and>
     (is_starting s' \<longrightarrow> is_starting s \<and>
       (\<forall>e. ss_local_ready_tick s = Some e \<longrightarrow> ss_local_ready_tick s' = Some e) \<and>
       (\<forall>t. ss_state s = SessionStarting (Some t) \<longrightarrow> ss_state s' = SessionStarting (Some t)))"

lemma advances_refl [simp]: "advances s s"
  by (simp add: advances_def)

lemma advances_trans: "advances s s' \<Longrightarrow> advances s' s'' \<Longrightarrow> advances s s''"
  by (auto simp: advances_def)

lemma is_starting_iff: "is_starting s \<longleftrightarrow> (\<exists>o'. ss_state s = SessionStarting o')"
  by (auto simp: is_starting_def split: session_state.splits)

text \<open>Receiving only fills in what was missing.\<close>

lemma map_update_first:
  "(\<And>x. g (f x) = g x) \<Longrightarrow> map g (update_first P f xs) = map g xs"
  by (induction xs) auto

lemma set_update_first:
  "set (update_first P f xs) \<subseteq> set xs \<union> {f x | x. x \<in> set xs \<and> P x}"
  by (induction xs) auto

lemma record_message_id [simp]: "rp_peer_id (record_message m peer) = rp_peer_id peer"
  by (auto simp: record_message_def split: session_message.splits option.splits)

lemma latest_ready_record:
  "latest_ready_tick l peers = Some t \<Longrightarrow>
   latest_ready_tick l (update_first P (record_message m) peers) = Some t"
  by (induction peers arbitrary: l)
    (auto simp: record_message_def split: session_message.splits option.splits)

definition receives ::
  "(peer_id \<times> peer_id \<times> session_message) set \<Rightarrow> peer_id \<Rightarrow> p2p_session \<Rightarrow> p2p_session \<Rightarrow> bool" where
  "receives sent p s s' \<longleftrightarrow>
     (\<exists>peers mismatch. s' = s\<lparr>ss_remote_peers := peers, ss_roster_mismatch := mismatch\<rparr> \<and>
        map rp_peer_id peers = map rp_peer_id (ss_remote_peers s)) \<and>
     (known sent p s \<longrightarrow> known sent p s') \<and> (settled s \<longrightarrow> settled s')"

lemma receives_refl [simp]: "receives sent p s s"
  by (auto simp: receives_def intro!: exI [of _ "ss_remote_peers s"] exI [of _ "ss_roster_mismatch s"])

lemma receives_trans: "receives sent p s s' \<Longrightarrow> receives sent p s' s'' \<Longrightarrow> receives sent p s s''"
  by (fastforce simp: receives_def)

lemma receives_cohort: "receives sent p s s' \<Longrightarrow> cohort s' = cohort s"
  by (auto simp: receives_def cohort_def) (metis list.set_map image_eqI)+

lemma receives_fields:
  assumes "receives sent p s s'"
  shows "ss_state s' = ss_state s" and "ss_generation s' = ss_generation s"
    and "ss_local_ready_tick s' = ss_local_ready_tick s" and "is_starting s' = is_starting s"
    and "ss_roster_hash s' = ss_roster_hash s"
    and "length (ss_remote_peers s') = length (ss_remote_peers s)"
  using assms by (auto simp: receives_def is_starting_def dest: map_eq_imp_length_eq)

lemma receives_advances: "receives sent p s s' \<Longrightarrow> advances s s'"
  by (auto simp: advances_def receives_fields)

lemma session_receive_receives:
  assumes "(q, p, m) \<in> sent"
  shows "receives sent p s (session_receive q m s)"
proof -
  let ?peers = "update_first (\<lambda>peer. rp_peer_id peer = q) (record_message m) (ss_remote_peers s)"
  have "known sent p (s\<lparr>ss_remote_peers := ?peers\<rparr>)"
    if gen: "sm_generation m = ss_generation s" and known: "known sent p s"
  proof -
    have "(\<forall>e. rp_ready_tick peer = Some e \<longrightarrow>
           (\<exists>h. (rp_peer_id peer, p, Ready (ss_generation s) h e) \<in> sent)) \<and>
        (\<forall>t. rp_acknowledged_tick peer = Some t \<longrightarrow>
           (\<exists>h. (rp_peer_id peer, p, StartAcknowledgement (ss_generation s) h t) \<in> sent))"
      if peer: "peer \<in> set ?peers" for peer
    proof -
      from peer set_update_first [of "\<lambda>peer. rp_peer_id peer = q"] consider
          "peer \<in> set (ss_remote_peers s)"
        | x where "x \<in> set (ss_remote_peers s)" "rp_peer_id x = q" "peer = record_message m x"
        by fastforce
      then show ?thesis
      proof cases
        case 1
        with known show ?thesis by (auto simp: known_def)
      next
        case 2
        with known assms gen show ?thesis
          by (auto simp: known_def record_message_def
              split: session_message.splits option.splits)
      qed
    qed
    then show ?thesis by (simp add: known_def)
  qed
  moreover have "settled s \<Longrightarrow> settled (s\<lparr>ss_remote_peers := ?peers\<rparr>)"
    by (auto simp: settled_def dest: latest_ready_record)
  moreover have "map rp_peer_id ?peers = map rp_peer_id (ss_remote_peers s)"
    by (rule map_update_first) simp
  ultimately have "receives sent p s (s\<lparr>ss_remote_peers := ?peers\<rparr>)"
    if "sm_generation m = ss_generation s"
    using that by (auto simp: receives_def intro!: exI [of _ ?peers] exI [of _ "ss_roster_mismatch s"])
  moreover have "receives sent p s (s\<lparr>ss_roster_mismatch := True\<rparr>)"
    by (auto simp: receives_def known_def settled_def intro!: exI [of _ "ss_remote_peers s"] exI [of _ True])
  ultimately show ?thesis
    by (simp add: session_receive_def)
qed

lemma fold_session_receive:
  "\<forall>m \<in> set inbox. (q, p, m) \<in> sent \<Longrightarrow> receives sent p s (fold (session_receive q) inbox s)"
proof (induction inbox arbitrary: s)
  case (Cons m inbox)
  then show ?case
    by (auto intro: receives_trans [OF session_receive_receives])
qed simp


lemma sends_of_Cons: "sends_of p (link # links) = sends_of p [link] \<union> sends_of p links"
  by (auto simp: sends_of_def)

lemma sends_of_Nil [simp]: "sends_of p [] = {}"
  by (simp add: sends_of_def)

lemma sends_of_receiver [simp]: "sends_of p [link\<lparr>pl_receiver := inbox\<rparr>] = sends_of p [link]"
  by (simp add: sends_of_def)

lemma authentic_Cons:
  "authentic sent p (link # links) \<longleftrightarrow> authentic sent p [link] \<and> authentic sent p links"
  by (auto simp: authentic_def)

lemma drive_links_receives:
  assumes "authentic sent p links"
    and "drive_links links s found intact connected = (s', links', rest)"
  shows "receives sent p s s' \<and> sends_of p links' = sends_of p links"
  using assms
proof (induction links arbitrary: s found intact connected s' links' rest)
  case Nil
  then show ?case by auto
next
  case (Cons link links)
  have auth: "authentic sent p [link]" "authentic sent p links"
    using Cons.prems(1) authentic_Cons by blast+
  note IH = Cons.IH [OF auth(2)]
  consider (skip) i c where
      "drive_links (link # links) s found intact connected =
         (let (s, ls, r) = drive_links links s found i c in (s, link # ls, r))"
    | (take) q f c where "pl_remote_id link = Some q" and
      "drive_links (link # links) s found intact connected =
         (let (s, l) = (case pl_receiver link of
              None \<Rightarrow> (s, link)
            | Some inbox \<Rightarrow> (fold (session_receive q) inbox s, link\<lparr>pl_receiver := Some []\<rparr>));
              (s, ls, r) = drive_links links s f intact c
          in (s, l # ls, r))"
  proof (cases "pl_state link = Candidate \<and> (\<exists>q. pl_remote_id link = Some q \<and> contains_remote q s \<and>
      q \<notin> set found)")
    case True
    then obtain q where "pl_state link = Candidate" "pl_remote_id link = Some q"
      "contains_remote q s" "q \<notin> set found" by blast
    then show ?thesis
      by (intro take [of q "found @ [q]"]) (simp_all add: Let_def)
  next
    case False
    have "drive_links (link # links) s found intact connected =
      (let (s, ls, r) = drive_links links s found
          (if pl_state link = Candidate then False else intact)
          (if pl_state link = Candidate then False else connected) in (s, link # ls, r))"
      using False by (cases "pl_remote_id link") (auto simp: Let_def)
    then show ?thesis by (rule skip)
  qed
  then show ?case
  proof cases
    case skip
    with Cons.prems(2) obtain ls r where
      "drive_links links s found i c = (s', ls, r)" and "links' = link # ls"
      by (auto split: prod.splits)
    with IH show ?thesis
      using sends_of_Cons by metis
  next
    case take
    show ?thesis
    proof (cases "pl_receiver link")
      case None
      with take Cons.prems(2) obtain ls r where
        "drive_links links s f intact c = (s', ls, r)" and "links' = link # ls"
        by (auto split: prod.splits)
      with IH show ?thesis
        using sends_of_Cons by metis
    next
      case (Some inbox)
      let ?s = "fold (session_receive q) inbox s"
      obtain ls r where "drive_links links ?s f intact c = (s', ls, r)"
        and links': "links' = link\<lparr>pl_receiver := Some []\<rparr> # ls"
        using Some take Cons.prems(2) by (auto split: prod.splits)
      with IH have "receives sent p ?s s'" and "sends_of p ls = sends_of p links"
        by blast+
      moreover have "receives sent p s ?s"
        using auth(1) take(1) Some by (intro fold_session_receive) (auto simp: authentic_def)
      ultimately show ?thesis
        using links' sends_of_Cons [of p link links] sends_of_Cons [of p "link\<lparr>pl_receiver := Some []\<rparr>" ls]
        by (simp add: receives_trans [of sent p s ?s s'])
    qed
  qed
qed

lemma latest_ready_ge: "latest_ready_tick l peers = Some t \<Longrightarrow> l \<le> t"
  by (induction peers arbitrary: l) (force split: option.splits)+

lemma latest_ready_iff:
  "latest_ready_tick l peers = Some t \<Longrightarrow>
   \<forall>peer \<in> set peers. \<exists>e. rp_ready_tick peer = Some e \<and> e \<le> t"
  by (induction peers arbitrary: l) (force split: option.splits dest: latest_ready_ge)+

text \<open>Advancing picks the start tick once.\<close>

lemma session_advance_advances:
  assumes "session_advance tick synced s = (s', result)" and "settled s" and "is_starting s"
    and "known sent p s"
  shows "advances s s'" and "settled s'" and "is_starting s'" and "known sent p s'"
    and "ss_remote_peers s' = ss_remote_peers s"
proof -
  let ?s = "if synced \<and> ss_local_ready_tick s = None then
      s\<lparr>ss_local_ready_tick := Some (tick_add_i32 tick (uint (ss_start_delay_ticks s)))\<rparr> else s"
  have frame: "ss_remote_peers ?s = ss_remote_peers s" "ss_state ?s = ss_state s"
    "ss_generation ?s = ss_generation s"
    "\<And>e. ss_local_ready_tick s = Some e \<Longrightarrow> ss_local_ready_tick ?s = Some e"
    by auto
  have "s' = s \<or> s' = ?s \<or>
      (\<exists>l t. ss_local_ready_tick ?s = Some l \<and> latest_ready_tick l (ss_remote_peers s) = Some t \<and>
         s' = ?s\<lparr>ss_state := SessionStarting (Some t)\<rparr>)"
    using assms(1,3) frame(1)
    by (auto simp: session_advance_def Let_def split: if_splits option.splits)
  moreover have "\<exists>l. ss_local_ready_tick s = Some l \<and> latest_ready_tick l (ss_remote_peers s) = Some t"
    if "ss_state s = SessionStarting (Some t)" for t
    using assms(2) that by (simp add: settled_def)
  ultimately show "advances s s'" and "settled s'" and "is_starting s'" and "known sent p s'"
    and "ss_remote_peers s' = ss_remote_peers s"
    using assms(2-4) by (auto simp: advances_def settled_def is_starting_iff known_def)
qed


lemma collect_outbound_result:
  assumes "collect_outbound s = (s', out)"
  shows "ss_state s' = ss_state s" and "ss_generation s' = ss_generation s"
    and "ss_local_ready_tick s' = ss_local_ready_tick s"
    and "ss_remote_peers s' = ss_remote_peers s"
    and "m \<in> set out \<Longrightarrow>
      (\<exists>h e. m = Ready (ss_generation s) h e \<and> ss_local_ready_tick s = Some e) \<or>
      (\<exists>h t. m = StartAcknowledgement (ss_generation s) h t \<and> session_start_tick s = Some t)"
  using assms
  by (auto simp: collect_outbound_def session_start_tick_def Let_def
      split: option.splits if_splits prod.splits session_state.splits)

lemma sends_of_map:
  "sends_of p (map f links) = (\<Union>link \<in> set links. sends_of p [f link])"
  by (auto simp: sends_of_def)

lemma sends_send_to_link_one:
  "sends_of p [send_to_link s out link] \<subseteq> sends_of p [link] \<union> {(p, q, m) | q m. m \<in> set out}"
  by (auto simp: sends_of_def send_to_link_def split: if_splits option.splits)

lemma sends_send_to_link:
  "sends_of p (map (send_to_link s out) links) \<subseteq> sends_of p links \<union> {(p, q, m) | q m. m \<in> set out}"
  using sends_send_to_link_one [of p s out] sends_of_map [of p "\<lambda>l. l" links]
  unfolding sends_of_map [of p "send_to_link s out"] by fastforce

lemma sends_transition_candidates [simp]:
  "sends_of p (transition_candidates state links) = sends_of p links"
proof -
  have "sends_of p [if pl_state link = Candidate then link\<lparr>pl_state := state\<rparr> else link] =
      sends_of p [link]" for link :: "'a p2p_link"
    by (simp add: sends_of_def)
  then have "sends_of p (transition_candidates state links) = (\<Union>link \<in> set links. sends_of p [link])"
    unfolding transition_candidates_def
      sends_of_map [of p "\<lambda>l. if pl_state l = Candidate then l\<lparr>pl_state := state\<rparr> else l"] by simp
  then show ?thesis
    using sends_of_map [of p "\<lambda>l. l" links] by simp
qed

lemma session_stop_simps [simp]:
  "ss_state (session_stop s) = SessionStopped" "ss_generation (session_stop s) = ss_generation s"
  "ss_remote_peers (session_stop s) = []" "is_starting (session_stop s) = False"
  by (simp_all add: session_stop_def clear_barrier_progress_def is_starting_def)

lemma session_stop_rel [simp]:
  "advances s (session_stop s)" "settled (session_stop s)" "known sent p (session_stop s)"
  by (simp_all add: advances_def settled_def known_def)

text \<open>What one peer may send in the current attempt.\<close>

definition own_message :: "p2p_session \<Rightarrow> session_message \<Rightarrow> bool" where
  "own_message s m \<longleftrightarrow>
     (\<exists>h e. m = Ready (ss_generation s) h e \<and> ss_local_ready_tick s = Some e) \<or>
     (\<exists>h t. m = StartAcknowledgement (ss_generation s) h t \<and> ss_state s = SessionStarting (Some t))"

definition drives ::
  "(peer_id \<times> peer_id \<times> session_message) set \<Rightarrow> peer_id \<Rightarrow> p2p_session \<Rightarrow> p2p_session \<Rightarrow>
   (peer_id \<times> peer_id \<times> session_message) set \<Rightarrow> bool" where
  "drives sent p s s' sends \<longleftrightarrow>
     advances s s' \<and> settled s' \<and> known sent p s' \<and>
     (\<forall>x \<in> sends. x \<in> sent \<or> (\<exists>q m. x = (p, q, m) \<and> is_starting s' \<and> own_message s' m))"

lemma drive_session_drives:
  assumes "authentic sent p links" and "sends_of p links \<subseteq> sent"
    and "drive_session tick synced now s links = (s', links')"
    and "settled s" and "known sent p s"
  shows "drives sent p s s' (sends_of p links')"
proof (cases "is_starting s")
  case False
  with assms show ?thesis
    by (auto simp: drive_session_def drives_def)
next
  case True
  obtain s1 links1 found intact connected where
    drive: "drive_links links s [] True True = (s1, links1, found, intact, connected)"
    by (metis prod_cases5)
  have rec: "receives sent p s s1" and sends: "sends_of p links1 \<subseteq> sent"
    using drive_links_receives [OF assms(1) drive] assms(2) by auto
  have s1: "advances s s1" "settled s1" "known sent p s1" "is_starting s1"
    using rec assms(4,5) True receives_advances [OF rec] receives_fields(4) [OF rec]
    by (auto simp: receives_def)
  obtain s2 result where adv: "session_advance tick synced s1 = (s2, result)"
    by (metis surj_pair)
  note s2 = session_advance_advances [OF adv s1(2,4,3)]
  obtain s3 out where out: "collect_outbound s2 = (s3, out)"
    by (metis surj_pair)
  note s3 = collect_outbound_result [OF out]
  have stopped: "drives sent p s (session_stop x) (sends_of p (transition_candidates state links1))"
    if "ss_generation x = ss_generation s" for x state
    using sends that by (auto simp: drives_def advances_def)
  have waiting: "drives sent p s s1 (sends_of p links1)"
    using s1 sends by (auto simp: drives_def)
  have gen: "ss_generation s1 = ss_generation s" "ss_generation s2 = ss_generation s"
    using s1(1) s2(1) by (auto simp: advances_def)
  have sent: "drives sent p s s3 (sends_of p (map (send_to_link s3 out) links1))"
  proof -
    have "advances s1 s3"
      using s2(1,3) s3(1-3) by (auto simp: advances_def is_starting_iff)
    moreover have "settled s3" "known sent p s3" "is_starting s3"
      using s2(2-4) s3(1-4) by (auto simp: settled_def known_def is_starting_iff)
    moreover have "own_message s3 m" if "m \<in> set out" for m
      using s3(5) [OF that] s3(1-3) s2(3)
      by (auto simp: own_message_def session_start_tick_def is_starting_iff)
    moreover note sends_send_to_link [of p s3 out links1]
    ultimately show ?thesis
      using sends advances_trans [OF s1(1)] unfolding drives_def by blast
  qed
  show ?thesis
    using assms(3) True drive adv out stopped gen waiting sent
    by (auto simp: drive_session_def Let_def split: if_splits)
qed


section \<open>Agreement\<close>

text \<open>
  What holds of one peer, from what it and its cohort have sent: the generation of its session counts its
  attempts; while it is starting, all it sent in this attempt is what its session says and it has not
  started in it; a start has one tick, which all its acknowledgements name and none of its earliest ticks
  exceeds, and every member of the cohort has acknowledged it.
\<close>

definition fits_start :: "tick \<Rightarrow> session_message \<Rightarrow> bool" where
  "fits_start t m =
     (case m of Ready _ _ e \<Rightarrow> e \<le> t | StartAcknowledgement _ _ t' \<Rightarrow> t' = t)"

definition acknowledged ::
  "(peer_id \<times> peer_id \<times> session_message) set \<Rightarrow> peer_id \<Rightarrow> peer_id \<Rightarrow> u32 \<Rightarrow> tick \<Rightarrow> bool" where
  "acknowledged sent q p g t \<longleftrightarrow>
     (\<exists>h. (q, p, StartAcknowledgement g h t) \<in> sent) \<and>
     (\<exists>h e. (q, p, Ready g h e) \<in> sent \<and> e \<le> t)"

definition start_ok ::
  "(peer_id \<times> peer_id \<times> session_message) set \<Rightarrow> (peer_id \<times> u32 \<times> peer_id set \<times> tick) set \<Rightarrow>
   peer_id \<Rightarrow> u32 \<Rightarrow> peer_id set \<Rightarrow> tick \<Rightarrow> bool" where
  "start_ok sent starts p g C t \<longleftrightarrow>
     (\<forall>r m. (p, r, m) \<in> sent \<longrightarrow> sm_generation m = g \<longrightarrow> fits_start t m) \<and>
     (\<forall>C' t'. (p, g, C', t') \<in> starts \<longrightarrow> t' = t) \<and>
     (\<forall>q \<in> C. acknowledged sent q p g t)"

definition peer_inv ::
  "peer_id \<Rightarrow> p2p_session \<Rightarrow> nat \<Rightarrow> (peer_id \<times> peer_id \<times> session_message) set \<Rightarrow>
   (peer_id \<times> u32 \<times> peer_id set \<times> tick) set \<Rightarrow> bool" where
  "peer_inv p s n sent starts \<longleftrightarrow>
     ss_generation s = of_nat n \<and> n < 2 ^ 32 \<and> settled s \<and> known sent p s \<and>
     (is_starting s \<longrightarrow>
        (\<forall>r m. (p, r, m) \<in> sent \<longrightarrow> sm_generation m = ss_generation s \<longrightarrow> own_message s m) \<and>
        (\<forall>C t. (p, ss_generation s, C, t) \<notin> starts)) \<and>
     (\<forall>r m. (p, r, m) \<in> sent \<longrightarrow> (\<exists>k \<le> n. sm_generation m = of_nat k)) \<and>
     (\<forall>g C t. (p, g, C, t) \<in> starts \<longrightarrow> (\<exists>k \<le> n. g = of_nat k) \<and> start_ok sent starts p g C t)"

definition world_inv :: "p2p_world \<Rightarrow> bool" where
  "world_inv w \<longleftrightarrow>
     (\<forall>p. peer_inv p (w_sessions w p) (w_attempts w p) (w_sent w) (w_starts w))"

lemma known_mono: "known sent p s \<Longrightarrow> sent \<subseteq> sent' \<Longrightarrow> known sent' p s"
  unfolding known_def by blast

lemma acknowledged_mono: "acknowledged sent q p g t \<Longrightarrow> sent \<subseteq> sent' \<Longrightarrow> acknowledged sent' q p g t"
  unfolding acknowledged_def by blast

lemma own_message_generation: "own_message s m \<Longrightarrow> sm_generation m = ss_generation s"
  by (auto simp: own_message_def)

lemma own_message_advances:
  "own_message s m \<Longrightarrow> advances s s' \<Longrightarrow> is_starting s' \<Longrightarrow> own_message s' m"
  by (auto simp: own_message_def advances_def)

lemma peer_inv_other:
  assumes "peer_inv q s n sent starts"
    and "\<forall>x \<in> sent'. fst x = p" and "\<forall>x \<in> starts'. fst x = p" and "q \<noteq> p"
  shows "peer_inv q s n (sent \<union> sent') (starts \<union> starts')"
proof -
  have eq: "(q, x) \<in> sent \<union> sent' \<longleftrightarrow> (q, x) \<in> sent" "(q, y) \<in> starts \<union> starts' \<longleftrightarrow> (q, y) \<in> starts" for x y
    using assms(2-4) by auto
  have "known sent q s \<Longrightarrow> known (sent \<union> sent') q s"
    "\<And>p g t. acknowledged sent p q g t \<Longrightarrow> acknowledged (sent \<union> sent') p q g t"
    by (auto intro: known_mono acknowledged_mono)
  then show ?thesis
    using assms(1) unfolding peer_inv_def start_ok_def eq
    by (elim conjE) (intro conjI allI impI; simp)
qed

lemma peer_inv_drives:
  assumes inv: "peer_inv p s n sent starts" and "drives sent p s s' sends"
  shows "peer_inv p s' n (sent \<union> sends) starts"
proof -
  have adv: "advances s s'" and s': "settled s'" "known sent p s'"
    and new: "\<And>r m. (p, r, m) \<in> sends \<Longrightarrow> (p, r, m) \<notin> sent \<Longrightarrow> is_starting s' \<and> own_message s' m"
    using assms(2) unfolding drives_def by blast+
  have gen: "ss_generation s' = ss_generation s"
    using adv by (simp add: advances_def)
  have starting: "is_starting s' \<Longrightarrow> is_starting s"
    using adv by (simp add: advances_def)
  have own: "own_message s' m"
    if "is_starting s'" "(p, r, m) \<in> sent \<union> sends" "sm_generation m = ss_generation s'" for r m
    using that inv new starting gen adv own_message_advances unfolding peer_inv_def
    by (metis Un_iff)
  have "start_ok (sent \<union> sends) starts p g C t" if "(p, g, C, t) \<in> starts" for g C t
  proof -
    have old: "start_ok sent starts p g C t"
      using that inv unfolding peer_inv_def by blast
    have "fits_start t m" if m: "(p, r, m) \<in> sent \<union> sends" "sm_generation m = g" for r m
    proof (cases "(p, r, m) \<in> sent")
      case True
      with old m show ?thesis by (auto simp: start_ok_def)
    next
      case False
      then have "is_starting s'" "own_message s' m"
        using m new by auto
      then have "g = ss_generation s" "is_starting s"
        using own_message_generation m gen starting by auto
      then show ?thesis
        using \<open>(p, g, C, t) \<in> starts\<close> inv unfolding peer_inv_def by blast
    qed
    with old acknowledged_mono [of sent _ p g t "sent \<union> sends"] show ?thesis
      unfolding start_ok_def by blast
  qed
  moreover have "\<exists>k \<le> n. sm_generation m = of_nat k" if "(p, r, m) \<in> sent \<union> sends" for r m
    using that inv new gen own_message_generation unfolding peer_inv_def
    by (metis Un_iff order_refl)
  ultimately show ?thesis
    using inv s' own starting gen known_mono [OF s'(2), of "sent \<union> sends"]
    unfolding peer_inv_def by (metis Un_upper1)
qed


lemma peer_inv_advances:
  assumes "peer_inv p s n sent starts" and "advances s s'" and "settled s'" and "known sent p s'"
  shows "peer_inv p s' n sent starts"
  using peer_inv_drives [of p s n sent starts s' "{}"] assms by (simp add: drives_def)

lemma boundary_result:
  assumes "start_session_before_agreed_tick index tick s metadata links =
      (s', metadata', links', event)"
  shows "event = None \<Longrightarrow> s' = s"
    and "event = Some t \<Longrightarrow>
      ss_state s = SessionStarting (Some t) \<and> tick_add_i32 tick 1 = t \<and>
      (\<forall>peer \<in> set (ss_remote_peers s). rp_acknowledged_tick peer = Some t) \<and>
      s' = clear_barrier_progress (s\<lparr>ss_state := SessionStarted t\<rparr>)"
  using assms
  by (auto simp: start_session_before_agreed_tick_def agreed_start_tick_def Let_def
      split: session_state.splits option.splits if_splits)

lemma peer_inv_boundary:
  assumes inv: "peer_inv p s n sent starts"
    and "start_session_before_agreed_tick index tick s metadata links =
      (s', metadata', links', Some t)"
  shows "peer_inv p s' n sent (starts \<union> {(p, ss_generation s, cohort s, t)})"
proof -
  note b = boundary_result(2) [OF assms(2) refl]
  have starting: "is_starting s" and s': "advances s s'" "settled s'" "known sent p s'"
    "\<not> is_starting s'"
    using b by (auto simp: is_starting_def advances_def settled_def known_def clear_barrier_progress_def)
  obtain l where l: "ss_local_ready_tick s = Some l"
    "latest_ready_tick l (ss_remote_peers s) = Some t"
    using inv b by (auto simp: peer_inv_def settled_def)
  have none: "(p, ss_generation s, C, t') \<notin> starts" for C t'
    using inv starting unfolding peer_inv_def by metis
  have "acknowledged sent q p (ss_generation s) t" if q: "q \<in> cohort s" for q
  proof -
    obtain peer where peer: "peer \<in> set (ss_remote_peers s)" "rp_peer_id peer = q"
      using q unfolding cohort_def by blast
    with latest_ready_iff [OF l(2)] obtain e where "rp_ready_tick peer = Some e" "e \<le> t"
      by blast
    with peer b inv show ?thesis
      unfolding acknowledged_def peer_inv_def known_def by blast
  qed
  moreover have "fits_start t m" if "(p, r, m) \<in> sent" "sm_generation m = ss_generation s" for r m
  proof -
    have "own_message s m"
      using inv starting that unfolding peer_inv_def by metis
    then show ?thesis
      using l(1) b latest_ready_ge [OF l(2)] by (auto simp: own_message_def fits_start_def)
  qed
  moreover have "start_ok sent (starts \<union> {(p, ss_generation s, cohort s, t)}) p g C t'"
    if "(p, g, C, t') \<in> starts" for g C t'
    using that none inv unfolding peer_inv_def start_ok_def by auto
  ultimately have "start_ok sent (starts \<union> {(p, ss_generation s, cohort s, t)}) p g C t'"
    if "(p, g, C, t') \<in> starts \<union> {(p, ss_generation s, cohort s, t)}" for g C t'
    using that none unfolding start_ok_def by auto
  moreover have "ss_generation s' = ss_generation s"
    using s'(1) by (simp add: advances_def)
  ultimately show ?thesis
    using inv s' unfolding peer_inv_def by auto
qed

lemma start_session_result:
  "start_session H now s links = Some (s', links') \<Longrightarrow>
   s' = s \<or> (ss_state s = SessionStopped \<and> (\<exists>ids h. s' = begin_session ids h now s))"
  by (auto simp: start_session_def Let_def split: if_splits option.splits)

lemma peer_inv_begin:
  assumes inv: "peer_inv p s n sent starts" and "n + 1 < 2 ^ 32" and "s' = begin_session ids h now s"
  shows "peer_inv p s' (n + 1) sent starts"
proof -
  have fresh: "of_nat k \<noteq> (of_nat (n + 1) :: u32)" if "k \<le> n" for k
  proof
    assume "of_nat k = (of_nat (n + 1) :: u32)"
    then have "k mod 2 ^ 32 = (n + 1) mod 2 ^ 32"
      unfolding word_of_nat_eq_iff take_bit_eq_mod by simp
    with that assms(2) show False by simp
  qed
  have gen: "ss_generation s' = of_nat (n + 1)"
    using inv assms(3) by (simp add: peer_inv_def begin_session_def)
  have old: "\<exists>k \<le> n. sm_generation m = of_nat k" if "(p, r, m) \<in> sent" for r m
    using that inv unfolding peer_inv_def by blast
  have "sm_generation m \<noteq> ss_generation s'" if "(p, r, m) \<in> sent" for r m
    using old [OF that] fresh gen by metis
  moreover have "(p, ss_generation s', C, t) \<notin> starts" for C t
    using inv fresh gen unfolding peer_inv_def by metis
  moreover have "settled s'" "known sent p s'"
    using assms(3) by (auto simp: settled_def known_def begin_session_def remote_peer_start_new_def)
  moreover have "\<exists>k \<le> n + 1. sm_generation m = of_nat k" if "(p, r, m) \<in> sent" for r m
    using old [OF that] le_trans [OF _ le_add1] by blast
  moreover have "(\<exists>k \<le> n + 1. g = of_nat k) \<and> start_ok sent starts p g C t"
    if "(p, g, C, t) \<in> starts" for g C t
    using inv that le_trans [OF _ le_add1 [of n 1]] unfolding peer_inv_def by metis
  ultimately show ?thesis
    using assms(2) gen unfolding peer_inv_def by (intro conjI allI impI; simp)
qed


lemma world_inv_initial: "p2p_initial w \<Longrightarrow> world_inv w"
  unfolding world_inv_def
proof
  fix p
  assume init: "p2p_initial w"
  then obtain delay timeout where "w_sessions w p =
      with_start_timeout timeout (with_start_delay_ticks delay p2p_session_default)"
    unfolding p2p_initial_def by blast
  with init show "peer_inv p (w_sessions w p) (w_attempts w p) (w_sent w) (w_starts w)"
    by (simp add: p2p_initial_def peer_inv_def with_start_timeout_def with_start_delay_ticks_def
        p2p_session_default_def settled_def known_def is_starting_def)
qed

text \<open>A step changes one peer, and adds only messages and starts of that peer.\<close>

lemma world_inv_peer:
  assumes "world_inv w"
    and "peer_inv p s n (w_sent w \<union> sends) (w_starts w \<union> new)"
    and "\<forall>x \<in> sends. fst x = p" and "\<forall>x \<in> new. fst x = p"
  shows "world_inv (w\<lparr>w_sessions := (w_sessions w)(p := s), w_attempts := (w_attempts w)(p := n),
    w_sent := w_sent w \<union> sends, w_starts := w_starts w \<union> new\<rparr>)"
  using assms peer_inv_other [OF _ assms(3,4)] by (simp add: world_inv_def)

lemma world_inv_step:
  assumes "p2p_step H index w w'" and inv: "world_inv w"
  shows "world_inv w'"
proof -
  have peer: "peer_inv p (w_sessions w p) (w_attempts w p) (w_sent w) (w_starts w)" for p
    using inv by (simp add: world_inv_def)
  have rel: "settled (w_sessions w p)" "known (w_sent w) p (w_sessions w p)" for p
    using peer [of p] by (auto simp: peer_inv_def)
  show ?thesis
    using assms(1)
  proof cases
    case (start now p links s links')
    show ?thesis
    proof (cases "s = w_sessions w p")
      case True
      with start inv show ?thesis by simp
    next
      case False
      with start_session_result [OF start(2)] obtain ids h where
        "s = begin_session ids h now (w_sessions w p)" by blast
      from peer_inv_begin [OF peer start(3) this]
        world_inv_peer [OF inv, of p s "w_attempts w p + 1" "{}" "{}"] False start(1)
      show ?thesis by simp
    qed
  next
    case (stop unlink p links s rest)
    then have "s = w_sessions w p \<or> s = session_stop (w_sessions w p)"
      by (auto simp: stop_session_def Let_def split: if_splits)
    then have "peer_inv p s (w_attempts w p) (w_sent w) (w_starts w)"
      using peer_inv_advances [OF peer, of p s] rel [of p] by auto
    from world_inv_peer [OF inv, of p s "w_attempts w p" "{}" "{}"] this stop(1)
    show ?thesis by simp
  next
    case (drive p links tick synced now s links')
    have "\<forall>x \<in> sends_of p links'. fst x = p"
      by (auto simp: sends_of_def)
    from world_inv_peer [OF inv, of p s "w_attempts w p" "sends_of p links'" "{}"] this drive(1)
      peer_inv_drives [OF peer drive_session_drives [OF drive(2-4) rel]]
    show ?thesis by simp
  next
    case (boundary tick p metadata links s metadata' links' event)
    show ?thesis
    proof (cases event)
      case None
      with boundary inv boundary_result(1) [OF boundary(2)] show ?thesis by simp
    next
      case (Some t)
      from world_inv_peer [OF inv, of p s "w_attempts w p" "{}"
          "{(p, ss_generation (w_sessions w p), cohort (w_sessions w p), t)}"]
        peer_inv_boundary [OF peer boundary(2) [unfolded Some]] boundary(1) Some
      show ?thesis by simp
    qed
  qed
qed

lemma p2p_reachable_inv: "p2p_reachable H index w \<Longrightarrow> world_inv w"
  by (induction rule: p2p_reachable.induct) (auto intro: world_inv_initial world_inv_step)

text \<open>
  C36: peers never start at different ticks. Whatever the links do, however messages are lost, repeated,
  delayed and reordered, and however often sessions are started, stopped and aborted: if a peer and a
  member of its cohort both start in the same attempt, they start at the same tick, which is not before
  the earliest tick that either of them ever advertised in this attempt.
\<close>

theorem p2p_start_agreement:
  assumes "p2p_reachable H index w"
    and "(p, g, C, t) \<in> w_starts w" and "(q, g, D, t') \<in> w_starts w" and "q \<in> C"
  shows "t' = t \<and>
    (\<forall>peer \<in> {p, q}. \<forall>r h e. (peer, r, Ready g h e) \<in> w_sent w \<longrightarrow> e \<le> t)"
proof -
  have inv: "peer_inv x (w_sessions w x) (w_attempts w x) (w_sent w) (w_starts w)" for x
    using p2p_reachable_inv [OF assms(1)] by (simp add: world_inv_def)
  have p: "start_ok (w_sent w) (w_starts w) p g C t" and q: "start_ok (w_sent w) (w_starts w) q g D t'"
    using inv [of p] inv [of q] assms(2,3) unfolding peer_inv_def by blast+
  from p assms(4) obtain h where "(q, p, StartAcknowledgement g h t) \<in> w_sent w"
    unfolding start_ok_def acknowledged_def by blast
  with q have "fits_start t' (StartAcknowledgement g h t)"
    unfolding start_ok_def by (metis session_message.sel(2))
  then have t: "t' = t"
    by (simp add: fits_start_def)
  have "fits_start t (Ready g h e)" if "(x, r, Ready g h e) \<in> w_sent w" and "x = p \<or> x = q" for x r h e
    using that p q t unfolding start_ok_def by (metis session_message.sel(1))
  with t show ?thesis by (auto simp: fits_start_def)
qed


section \<open>A round of messages\<close>

text \<open>
  Three frames of a cohort whose links are connected: in a round every peer drives its session, and what
  it queued on a link is what the peer at the other end receives in the next round. The peers may be at
  different ticks, but all messages of a round arrive before the next one.
\<close>

definition lobby_links :: "(peer_id \<Rightarrow> 'e) \<Rightarrow> peer_id \<Rightarrow> peer_id list \<Rightarrow> 'e p2p_link list" where
  "lobby_links entity p peers =
     map (\<lambda>q. \<lparr>pl_entity = entity q, pl_state = Inactive, pl_local_id = Some p,
           pl_remote_id = Some q, pl_connected = True, pl_sender = Some [], pl_receiver = None\<rparr>) peers"

definition barrier_links ::
  "(peer_id \<Rightarrow> 'e) \<Rightarrow> peer_id \<Rightarrow> (peer_id \<Rightarrow> session_message list) \<Rightarrow> peer_id list \<Rightarrow> 'e p2p_link list" where
  "barrier_links entity p inbox peers =
     map (\<lambda>q. \<lparr>pl_entity = entity q, pl_state = Candidate, pl_local_id = Some p,
           pl_remote_id = Some q, pl_connected = True, pl_sender = Some [],
           pl_receiver = Some (inbox q)\<rparr>) peers"

definition queued_for :: "peer_id \<Rightarrow> 'e p2p_link list \<Rightarrow> session_message list" where
  "queued_for q links =
     concat (map (\<lambda>link. case pl_sender link of None \<Rightarrow> [] | Some queue \<Rightarrow> queue)
       (filter (\<lambda>link. pl_remote_id link = Some q) links))"

definition barrier_round ::
  "(peer_id \<Rightarrow> 'e) \<Rightarrow> peer_id list \<Rightarrow> (peer_id \<Rightarrow> tick) \<Rightarrow> duration \<Rightarrow>
   (peer_id \<Rightarrow> p2p_session) \<times> (peer_id \<Rightarrow> peer_id \<Rightarrow> session_message list) \<Rightarrow>
   (peer_id \<Rightarrow> p2p_session) \<times> (peer_id \<Rightarrow> peer_id \<Rightarrow> session_message list)" where
  "barrier_round entity peers ticks now state =
     (let (sessions, mail) = state;
          driven = (\<lambda>p. drive_session (ticks p) True now (sessions p)
            (barrier_links entity p (\<lambda>q. mail p q) (remove1 p peers)))
      in (\<lambda>p. fst (driven p), \<lambda>p q. queued_for p (snd (driven q))))"

text \<open>All members of a cohort compute the same hash, whatever the order of their links.\<close>

lemma encode_peers_eq: "encode_peers peer_ids = Some (map peer_id_enc peer_ids)"
  by (induction peer_ids) (simp_all add: peer_id_to_bytes_enc)

lemma roster_hash_cohort:
  assumes "mset (p # ps) = mset (q # qs)"
  shows "roster_hash H p ps = roster_hash H q qs"
proof -
  have "mset (map peer_id_enc (p # ps)) = mset (map peer_id_enc (q # qs))"
    using arg_cong [OF assms, of "image_mset peer_id_enc"] by simp
  moreover have "sort xs = sort ys" if "mset xs = mset ys" for xs ys :: "bytes list"
    by (rule properties_for_sort) (simp_all add: that)
  ultimately have "sort (map peer_id_enc (p # ps)) = sort (map peer_id_enc (q # qs))"
    by blast
  then show ?thesis
    by (simp add: roster_hash_def encode_peers_eq del: sort_key_simps)
qed

lemma candidate_ids_lobby:
  "distinct (ids @ peers) \<Longrightarrow> p \<notin> set peers \<Longrightarrow>
   candidate_ids p (lobby_links entity p peers) ids = Some (ids @ peers)"
  by (induction peers arbitrary: ids) (auto simp: lobby_links_def)

lemma start_session_lobby:
  assumes "ss_state s = SessionStopped" and "distinct (p # peers)" and "peers \<noteq> []"
    and "roster_hash H p peers = Some hash"
  shows "start_session H now s (lobby_links entity p peers) =
    Some (begin_session peers hash now s, barrier_links entity p (\<lambda>_. []) peers)"
proof -
  have "filter (\<lambda>link. pl_state link = Inactive) (lobby_links entity p peers) = lobby_links entity p peers"
    by (simp add: lobby_links_def filter_id_conv)
  moreover have "lobby_links entity p peers \<noteq> []" "\<forall>link \<in> set (lobby_links entity p peers). pl_local_id link = Some p"
    "pl_local_id (hd (lobby_links entity p peers)) = Some p"
    using assms(3) by (auto simp: lobby_links_def hd_map)
  moreover have "map make_candidate (lobby_links entity p peers) = barrier_links entity p (\<lambda>_. []) peers"
    by (simp add: lobby_links_def barrier_links_def make_candidate_def)
  ultimately show ?thesis
    using assms candidate_ids_lobby [of "[]" peers p entity]
    by (simp add: start_session_def Let_def)
qed

text \<open>Driving the links of an intact cohort receives all its mail.\<close>

definition receive_mail :: "(peer_id \<Rightarrow> session_message list) \<Rightarrow> peer_id list \<Rightarrow> p2p_session \<Rightarrow> p2p_session" where
  "receive_mail inbox peers s = fold (\<lambda>q. fold (session_receive q) (inbox q)) peers s"

lemma contains_remote_iff: "contains_remote q s \<longleftrightarrow> q \<in> cohort s"
  by (auto simp: contains_remote_def cohort_def)

lemma contains_remote_receive [simp]: "contains_remote q (session_receive p m s) = contains_remote q s"
proof -
  have "receives {(p, p, m)} p s (session_receive p m s)"
    by (rule session_receive_receives) simp
  from receives_cohort [OF this] show ?thesis
    by (simp add: contains_remote_iff)
qed

lemma contains_remote_fold [simp]:
  "contains_remote q (fold (session_receive p) ms s) = contains_remote q s"
  by (induction ms arbitrary: s) simp_all

lemma drive_links_barrier:
  "distinct (found @ peers) \<Longrightarrow> \<forall>q \<in> set peers. contains_remote q s \<Longrightarrow>
   drive_links (barrier_links entity p inbox peers) s found intact connected =
     (receive_mail inbox peers s, barrier_links entity p (\<lambda>_. []) peers, found @ peers, intact, connected)"
proof (induction peers arbitrary: s found)
  case Nil
  then show ?case by (simp add: barrier_links_def receive_mail_def)
next
  case (Cons q peers)
  have "drive_links (barrier_links entity p inbox peers) (fold (session_receive q) (inbox q) s)
      (found @ [q]) intact connected =
    (receive_mail inbox peers (fold (session_receive q) (inbox q) s),
     barrier_links entity p (\<lambda>_. []) peers, (found @ [q]) @ peers, intact, connected)"
    using Cons.prems by (intro Cons.IH) auto
  with Cons.prems show ?case
    by (simp add: barrier_links_def receive_mail_def Let_def)
qed

text \<open>One message from each peer of the cohort.\<close>

lemma update_first_skip: "\<forall>x \<in> set xs. \<not> P x \<Longrightarrow> update_first P f (xs @ ys) = xs @ update_first P f ys"
  by (induction xs) auto

lemma receive_mail_one:
  assumes "ss_remote_peers s = map F (pre @ peers)" and "distinct (pre @ peers)"
    and "\<And>q. rp_peer_id (F q) = q"
    and "\<And>q. sm_generation (m q) = ss_generation s \<and> Some (sm_roster_hash (m q)) = ss_roster_hash s"
  shows "receive_mail (\<lambda>q. [m q]) peers s =
    s\<lparr>ss_remote_peers := map F pre @ map (\<lambda>q. record_message (m q) (F q)) peers\<rparr>"
  using assms
proof (induction peers arbitrary: s pre F)
  case Nil
  then show ?case by (simp add: receive_mail_def)
next
  case (Cons q peers)
  let ?F = "F(q := record_message (m q) (F q))"
  have "\<forall>x \<in> set (map F pre). rp_peer_id x \<noteq> q"
    using Cons.prems(2,3) by auto
  then have "update_first (\<lambda>peer. rp_peer_id peer = q) (record_message (m q)) (map F (pre @ q # peers)) =
      map F pre @ record_message (m q) (F q) # map F peers"
    using Cons.prems(3) by (simp add: update_first_skip)
  also have "\<dots> = map ?F ((pre @ [q]) @ peers)"
    using Cons.prems(2) by auto
  finally have upd: "update_first (\<lambda>peer. rp_peer_id peer = q) (record_message (m q)) (ss_remote_peers s) =
      map ?F ((pre @ [q]) @ peers)"
    using Cons.prems(1) by simp
  have "contains_remote q s"
    using Cons.prems(1,3) by (auto simp: contains_remote_def)
  then have "session_receive q (m q) s = s\<lparr>ss_remote_peers := map ?F ((pre @ [q]) @ peers)\<rparr>"
    using Cons.prems(4) upd by (simp add: session_receive_def)
  moreover have "receive_mail (\<lambda>q. [m q]) peers (s\<lparr>ss_remote_peers := map ?F ((pre @ [q]) @ peers)\<rparr>) =
    (s\<lparr>ss_remote_peers := map ?F ((pre @ [q]) @ peers)\<rparr>)\<lparr>ss_remote_peers :=
      map ?F (pre @ [q]) @ map (\<lambda>q. record_message (m q) (?F q)) peers\<rparr>"
    using Cons.prems by (intro Cons.IH) auto
  moreover have "map ?F (pre @ [q]) @ map (\<lambda>q. record_message (m q) (?F q)) peers =
      map F pre @ map (\<lambda>q. record_message (m q) (F q)) (q # peers)"
    using Cons.prems(2) by auto
  ultimately show ?case
    by (simp add: receive_mail_def)
qed


lemma queued_for_barrier:
  assumes "distinct peers" and "q \<in> set peers" and "\<forall>q \<in> set peers. contains_remote q s"
  shows "queued_for q (map (send_to_link s out) (barrier_links entity p inbox peers)) = out"
  using assms
proof (induction peers)
  case (Cons x peers)
  have none: "queued_for q (map (send_to_link s out) (barrier_links entity p inbox ps)) = []"
    if "q \<notin> set ps" for ps
    using that by (induction ps) (auto simp: queued_for_def barrier_links_def send_to_link_def)
  with Cons show ?case
    by (cases "q = x") (auto simp: queued_for_def barrier_links_def send_to_link_def)
qed simp

lemma latest_ready_all:
  "latest_ready_tick l (map (\<lambda>q. \<lparr>rp_peer_id = q, rp_ready_tick = Some (e q), rp_acknowledged_tick = a q\<rparr>) ids) =
   Some (Max (insert l (e ` set ids)))"
proof (induction ids arbitrary: l)
  case (Cons q ids)
  have "Max (insert (max l (e q)) (e ` set ids)) = Max (insert l (insert (e q) (e ` set ids)))"
    by (cases "set ids = {}") (simp_all add: max.assoc)
  with Cons show ?case by simp
qed simp

text \<open>The three frames of one peer.\<close>

definition barrier_peers ::
  "(peer_id \<Rightarrow> tick option) \<Rightarrow> (peer_id \<Rightarrow> tick option) \<Rightarrow> peer_id list \<Rightarrow> remote_peer_start list" where
  "barrier_peers ready ack ids =
     map (\<lambda>q. \<lparr>rp_peer_id = q, rp_ready_tick = ready q, rp_acknowledged_tick = ack q\<rparr>) ids"

lemma begin_barrier_peers: "map remote_peer_start_new ids = barrier_peers (\<lambda>_. None) (\<lambda>_. None) ids"
  by (simp add: barrier_peers_def remote_peer_start_new_def)

lemma contains_barrier_peers:
  "ss_remote_peers s = barrier_peers r a ids \<Longrightarrow> contains_remote q s \<longleftrightarrow> q \<in> set ids"
  by (auto simp: contains_remote_def barrier_peers_def)

lemma drive_session_barrier:
  assumes "distinct ids" and "ss_remote_peers s = barrier_peers r a ids" and "is_starting s"
    and "receive_mail inbox ids s = s1" and "ss_remote_peers s1 = barrier_peers r1 a1 ids"
    and "\<not> ss_roster_mismatch s1"
    and "session_advance tick True s1 = (s2, result)" and "result \<noteq> AdvanceFailed"
    and "\<not> timed_out_at now s2 \<or> agreed_start_tick s2 \<noteq> None"
    and "collect_outbound s2 = (s3, out)"
  shows "drive_session tick True now s (barrier_links entity p inbox ids) =
    (s3, map (send_to_link s3 out) (barrier_links entity p (\<lambda>_. []) ids))"
proof -
  have "drive_links (barrier_links entity p inbox ids) s [] True True =
      (s1, barrier_links entity p (\<lambda>_. []) ids, ids, True, True)"
    using drive_links_barrier [of "[]" ids s entity p inbox True True] assms(1,2,4)
      contains_barrier_peers [OF assms(2)] by simp
  moreover have "length (ss_remote_peers s) = length ids"
    using assms(2) by (simp add: barrier_peers_def)
  ultimately show ?thesis
    using assms(3,6-10) by (auto simp: drive_session_def Let_def)
qed

lemma receive_mail_nothing: "receive_mail (\<lambda>_. []) ids s = s"
  by (induction ids) (simp_all add: receive_mail_def)

lemma barrier_first_round:
  assumes "distinct ids" and "ids \<noteq> []" and "now - started < ss_start_timeout s"
    and "e = tick_add_i32 tick (uint (ss_start_delay_ticks s))"
  shows "drive_session tick True now (begin_session ids h started s) (barrier_links entity p (\<lambda>_. []) ids) =
    (let s1 = (begin_session ids h started s)\<lparr>ss_local_ready_tick := Some e, ss_local_ready_sent := True\<rparr>
     in (s1, map (send_to_link s1 [Ready (ss_generation s + 1) h e]) (barrier_links entity p (\<lambda>_. []) ids)))"
proof -
  let ?s = "begin_session ids h started s"
  have peers: "ss_remote_peers ?s = barrier_peers (\<lambda>_. None) (\<lambda>_. None) ids"
    by (simp add: begin_session_def begin_barrier_peers)
  have mail: "receive_mail (\<lambda>_. []) ids ?s = ?s"
    by (rule receive_mail_nothing)
  obtain q qs where ids: "ids = q # qs"
    using assms(2) by (cases ids) auto
  have adv: "session_advance tick True ?s = (?s\<lparr>ss_local_ready_tick := Some e\<rparr>, Waiting)"
    using assms(4) by (simp add: session_advance_def begin_session_def is_starting_def ids remote_peer_start_new_def)
  have "\<not> timed_out_at now (?s\<lparr>ss_local_ready_tick := Some e\<rparr>)"
    using assms(3) by (simp add: timed_out_at_def begin_session_def)
  moreover have "collect_outbound (?s\<lparr>ss_local_ready_tick := Some e\<rparr>) =
      (?s\<lparr>ss_local_ready_tick := Some e, ss_local_ready_sent := True\<rparr>, [Ready (ss_generation s + 1) h e])"
    by (simp add: collect_outbound_def begin_session_def session_start_tick_def)
  moreover have "is_starting ?s" "\<not> ss_roster_mismatch ?s"
    by (simp_all add: begin_session_def is_starting_def)
  ultimately show ?thesis
    unfolding Let_def
    by (intro drive_session_barrier [OF assms(1) peers _ mail peers _ adv]) simp_all
qed


lemma barrier_second_round:
  assumes "distinct ids" and "ids \<noteq> []" and "now - started < ss_start_timeout s"
    and "s1 = (begin_session ids h started s)\<lparr>ss_local_ready_tick := Some l, ss_local_ready_sent := True\<rparr>"
    and "t = Max (insert l (e ` set ids))"
  shows "drive_session tick True now s1
      (barrier_links entity p (\<lambda>q. [Ready (ss_generation s + 1) h (e q)]) ids) =
    (let s2 = s1\<lparr>ss_remote_peers := barrier_peers (\<lambda>q. Some (e q)) (\<lambda>_. None) ids,
           ss_state := SessionStarting (Some t), ss_local_acknowledgement_sent := True\<rparr>
     in (s2, map (send_to_link s2 [StartAcknowledgement (ss_generation s + 1) h t])
          (barrier_links entity p (\<lambda>_. []) ids)))"
proof -
  let ?r = "s1\<lparr>ss_remote_peers := barrier_peers (\<lambda>q. Some (e q)) (\<lambda>_. None) ids\<rparr>"
  let ?s = "?r\<lparr>ss_state := SessionStarting (Some t)\<rparr>"
  note s1 = assms(4) [unfolded begin_session_def]
  have peers: "ss_remote_peers s1 = barrier_peers (\<lambda>_. None) (\<lambda>_. None) ids"
    by (simp add: s1 begin_barrier_peers)
  have mail: "receive_mail (\<lambda>q. [Ready (ss_generation s + 1) h (e q)]) ids s1 = ?r"
    using receive_mail_one [of s1 remote_peer_start_new "[]" ids "\<lambda>q. Ready (ss_generation s + 1) h (e q)"]
      assms(1) by (simp add: s1 remote_peer_start_new_def record_message_def barrier_peers_def)
  obtain q qs where ids: "ids = q # qs"
    using assms(2) by (cases ids) auto
  have latest: "latest_ready_tick l (barrier_peers (\<lambda>q. Some (e q)) (\<lambda>_. None) ids) = Some t"
    using latest_ready_all [of l e "\<lambda>_. None" ids] assms(5) by (simp add: barrier_peers_def)
  have "\<exists>peer \<in> set (barrier_peers (\<lambda>q. Some (e q)) (\<lambda>_. None) ids). rp_acknowledged_tick peer = None"
    by (simp add: barrier_peers_def ids)
  then have adv: "session_advance tick True ?r = (?s, Waiting)"
    using latest by (simp add: session_advance_def s1 is_starting_def)
  have "\<not> timed_out_at now ?s"
    using assms(3) by (simp add: timed_out_at_def s1)
  moreover have "collect_outbound ?s =
      (?s\<lparr>ss_local_acknowledgement_sent := True\<rparr>, [StartAcknowledgement (ss_generation s + 1) h t])"
    by (simp add: collect_outbound_def s1 session_start_tick_def)
  moreover have "is_starting s1" "\<not> ss_roster_mismatch ?r"
    by (simp_all add: s1 is_starting_def)
  ultimately show ?thesis
    unfolding Let_def
    by (intro drive_session_barrier [OF assms(1) peers _ mail _ _ adv]) simp_all
qed

lemma barrier_third_round:
  assumes "distinct ids" and "tick < t"
    and "s2 = (begin_session ids h started s)\<lparr>ss_local_ready_tick := Some l, ss_local_ready_sent := True,
      ss_remote_peers := barrier_peers (\<lambda>q. Some (e q)) (\<lambda>_. None) ids,
      ss_state := SessionStarting (Some t), ss_local_acknowledgement_sent := True\<rparr>"
    and "t = Max (insert l (e ` set ids))"
  shows "fst (drive_session tick True now s2
      (barrier_links entity p (\<lambda>_. [StartAcknowledgement (ss_generation s + 1) h t]) ids)) =
    s2\<lparr>ss_remote_peers := barrier_peers (\<lambda>q. Some (e q)) (\<lambda>_. Some t) ids\<rparr>"
proof -
  let ?r = "s2\<lparr>ss_remote_peers := barrier_peers (\<lambda>q. Some (e q)) (\<lambda>_. Some t) ids\<rparr>"
  note s2 = assms(3) [unfolded begin_session_def]
  have peers: "ss_remote_peers s2 = barrier_peers (\<lambda>q. Some (e q)) (\<lambda>_. None) ids"
    by (simp add: s2)
  have mail: "receive_mail (\<lambda>_. [StartAcknowledgement (ss_generation s + 1) h t]) ids s2 = ?r"
    using receive_mail_one [of s2 "\<lambda>q. \<lparr>rp_peer_id = q, rp_ready_tick = Some (e q), rp_acknowledged_tick = None\<rparr>"
        "[]" ids "\<lambda>_. StartAcknowledgement (ss_generation s + 1) h t"]
      assms(1) by (simp add: s2 record_message_def barrier_peers_def)
  have latest: "latest_ready_tick l (barrier_peers (\<lambda>q. Some (e q)) (\<lambda>_. Some t) ids) = Some t"
    using latest_ready_all [of l e "\<lambda>_. Some t" ids] assms(4) by (simp add: barrier_peers_def)
  have "\<forall>peer \<in> set (barrier_peers (\<lambda>q. Some (e q)) (\<lambda>_. Some t) ids). rp_acknowledged_tick peer = Some t"
    by (simp add: barrier_peers_def)
  moreover from this have adv: "session_advance tick True ?r = (?r, Agreed t)"
    using latest assms(2) by (auto simp: session_advance_def s2 is_starting_def Let_def not_le intro!: p2p_session.equality)
  ultimately have "agreed_start_tick ?r = Some t"
    by (simp add: agreed_start_tick_def s2)
  moreover have "collect_outbound ?r = (?r, [])"
    by (simp add: collect_outbound_def s2 session_start_tick_def)
  moreover have "is_starting s2" "\<not> ss_roster_mismatch ?r"
    by (simp_all add: s2 is_starting_def)
  ultimately have "drive_session tick True now s2
      (barrier_links entity p (\<lambda>_. [StartAcknowledgement (ss_generation s + 1) h t]) ids) =
    (?r, map (send_to_link ?r []) (barrier_links entity p (\<lambda>_. []) ids))"
    by (intro drive_session_barrier [OF assms(1) peers _ mail _ _ adv]) simp_all
  then show ?thesis by simp
qed


lemma barrier_links_cong:
  "(\<And>q. q \<in> set ids \<Longrightarrow> inbox q = inbox' q) \<Longrightarrow>
   barrier_links entity p inbox ids = barrier_links entity p inbox' ids"
  by (simp add: barrier_links_def)

lemma fst_barrier_round:
  "fst (barrier_round entity peers ticks now state) p =
   fst (drive_session (ticks p) True now (fst state p) (barrier_links entity p (snd state p) (remove1 p peers)))"
  by (simp add: barrier_round_def split_beta)

lemma snd_barrier_round:
  "snd (barrier_round entity peers ticks now state) p q = queued_for p
   (snd (drive_session (ticks q) True now (fst state q) (barrier_links entity q (snd state q) (remove1 q peers))))"
  by (simp add: barrier_round_def split_beta)

text \<open>
  The barrier does not stall. When every peer of a cohort of at least two triggers the start in the
  same generation, the links are connected, the messages of each of three rounds arrive before the next
  round, no attempt times out before the third, and all this happens before the agreed tick, then every
  peer starts, at the latest of the ticks at which each of them could.
\<close>

theorem p2p_session_starts:
  fixes entity :: "peer_id \<Rightarrow> 'e" and H :: "'h byte_hasher_ops"
  assumes "distinct peers" and "2 \<le> length peers"
    and lobby: "\<forall>p \<in> set peers. ss_state (lobby p) = SessionStopped \<and> ss_generation (lobby p) = g"
    and start: "\<forall>p \<in> set peers. start_session H started (lobby p)
        (lobby_links entity p (remove1 p peers)) = Some (sessions p, links p)"
    and time: "\<forall>p \<in> set peers. now1 - started < ss_start_timeout (lobby p) \<and>
        now2 - started < ss_start_timeout (lobby p)"
    and t: "t = Max ((\<lambda>p. tick_add_i32 (tick1 p) (uint (ss_start_delay_ticks (lobby p)))) ` set peers)"
    and early: "\<forall>p \<in> set peers. tick3 p < t"
    and rounds: "state = barrier_round entity peers tick3 now3 (barrier_round entity peers tick2 now2
        (barrier_round entity peers tick1 now1 (sessions, \<lambda>_ _. [])))"
    and p: "p \<in> set peers"
  shows "\<exists>metadata' links'. start_session_before_agreed_tick index (t - 1) (fst state p) metadata
      (barrier_links entity p (\<lambda>_. []) (remove1 p peers)) =
    (clear_barrier_progress ((fst state p)\<lparr>ss_state := SessionStarted t\<rparr>), metadata', links', Some t)"
proof -
  define ids where "ids = (\<lambda>p. remove1 p peers)"
  have ids_eq: "remove1 q peers = ids q" for q by (simp add: ids_def)
  define e where "e = (\<lambda>p. tick_add_i32 (tick1 p) (uint (ss_start_delay_ticks (lobby p))))"
  have ids: "distinct (ids q)" "ids q \<noteq> []" "set (ids q) = set peers - {q}" if "q \<in> set peers" for q
    using that assms(1,2) by (auto simp: ids_def length_remove1 simp flip: length_0_conv)
  obtain h where h: "roster_hash H p (ids p) = Some h"
    by (auto simp: roster_hash_def encode_peers_eq)
  have hash: "roster_hash H q (ids q) = Some h" if "q \<in> set peers" for q
    using roster_hash_cohort [of q "ids q" p "ids p" H] h that p by (simp add: ids_def)
  have s0: "sessions q = begin_session (ids q) h started (lobby q)" if q: "q \<in> set peers" for q
    using start_session_lobby [OF _ _ ids(2) [OF q] hash [OF q], of "lobby q" started entity]
      lobby start q ids [OF q] by (auto simp: ids_def)
  have t: "t = Max (insert (e q) (e ` set (ids q)))" if q: "q \<in> set peers" for q
  proof -
    have "insert (e q) (e ` set (ids q)) = e ` set peers"
      using ids(3) [OF q] q by auto
    then show ?thesis using t by (simp add: e_def)
  qed
  define s1 where "s1 = (\<lambda>q. (begin_session (ids q) h started (lobby q))
    \<lparr>ss_local_ready_tick := Some (e q), ss_local_ready_sent := True\<rparr>)"
  define s2 where "s2 = (\<lambda>q. (s1 q)\<lparr>ss_remote_peers := barrier_peers (\<lambda>r. Some (e r)) (\<lambda>_. None) (ids q),
    ss_state := SessionStarting (Some t), ss_local_acknowledgement_sent := True\<rparr>)"
  define w1 where "w1 = barrier_round entity peers tick1 now1 (sessions, \<lambda>_ _. [])"
  define w2 where "w2 = barrier_round entity peers tick2 now2 w1"
  have contains: "\<forall>r \<in> set (ids q). contains_remote r (s1 q)" "\<forall>r \<in> set (ids q). contains_remote r (s2 q)" for q
    by (auto simp: s1_def s2_def begin_session_def begin_barrier_peers contains_barrier_peers)
  have mail: "queued_for r (map (send_to_link s out) (barrier_links entity q (\<lambda>_. []) (ids q))) = out"
    if "r \<in> set peers" "q \<in> set (ids r)" "\<forall>r \<in> set (ids q). contains_remote r s" for q r s out
    using that ids [of r] ids [of q] by (intro queued_for_barrier) auto
  have w1: "fst w1 q = s1 q \<and> (\<forall>r. r \<in> set peers \<longrightarrow> q \<in> set (ids r) \<longrightarrow> snd w1 r q = [Ready (g + 1) h (e q)])"
    if q: "q \<in> set peers" for q
  proof -
    have "drive_session (tick1 q) True now1 (sessions q) (barrier_links entity q (\<lambda>_. []) (ids q)) =
        (s1 q, map (send_to_link (s1 q) [Ready (g + 1) h (e q)]) (barrier_links entity q (\<lambda>_. []) (ids q)))"
      using barrier_first_round [OF ids(1,2) [OF q], of now1 started "lobby q" "e q" "tick1 q" h entity q]
        lobby time q by (simp add: s0 s1_def e_def Let_def)
    with mail [OF _ _ contains(1)] show ?thesis
      by (simp add: w1_def fst_barrier_round snd_barrier_round ids_eq)
  qed
  have w2: "fst w2 q = s2 q \<and> (\<forall>r. r \<in> set peers \<longrightarrow> q \<in> set (ids r) \<longrightarrow>
      snd w2 r q = [StartAcknowledgement (g + 1) h t])" if q: "q \<in> set peers" for q
  proof -
    have "barrier_links entity q (snd w1 q) (ids q) =
        barrier_links entity q (\<lambda>r. [Ready (ss_generation (lobby q) + 1) h (e r)]) (ids q)"
      using w1 q ids(3) [OF q] lobby by (intro barrier_links_cong) auto
    moreover have "drive_session (tick2 q) True now2 (s1 q)
          (barrier_links entity q (\<lambda>r. [Ready (ss_generation (lobby q) + 1) h (e r)]) (ids q)) =
        (s2 q, map (send_to_link (s2 q) [StartAcknowledgement (g + 1) h t]) (barrier_links entity q (\<lambda>_. []) (ids q)))"
      using barrier_second_round [OF ids(1,2) [OF q], where now = now2 and started = started and s = "lobby q"
            and ?s1.0 = "s1 q" and h = h and l = "e q" and t = t and e = e]
        lobby time q t [OF q] by (simp add: s1_def s2_def Let_def)
    ultimately show ?thesis
      using w1 [OF q] mail [OF _ _ contains(2)]
      by (simp add: w2_def fst_barrier_round snd_barrier_round ids_eq)
  qed
  have "barrier_links entity p (snd w2 p) (ids p) =
      barrier_links entity p (\<lambda>_. [StartAcknowledgement (ss_generation (lobby p) + 1) h t]) (ids p)"
    using w2 p ids(3) [OF p] lobby by (intro barrier_links_cong) auto
  moreover have "fst state p = fst (drive_session (tick3 p) True now3 (s2 p) (barrier_links entity p (snd w2 p) (ids p)))"
    using rounds w2 [OF p] by (simp add: fst_barrier_round ids_eq flip: w1_def w2_def)
  ultimately have final: "fst state p = (s2 p)\<lparr>ss_remote_peers :=
      barrier_peers (\<lambda>r. Some (e r)) (\<lambda>_. Some t) (ids p)\<rparr>"
    using barrier_third_round [OF ids(1) [OF p], where tick = "tick3 p" and t = t and ?s2.0 = "s2 p" and h = h
        and started = started and s = "lobby p" and l = "e p" and e = e and now = now3
        and entity = entity and p = p]
      early p t [OF p] by (simp add: s2_def s1_def)
  have "agreed_start_tick (fst state p) = Some t"
    by (simp add: final agreed_start_tick_def s2_def barrier_peers_def)
  moreover have "tick_add_i32 (t - 1) 1 = t"
  proof -
    have "t \<noteq> 0"
      using early p by (metis word_not_simps(1))
    then have "1 \<le> uint t"
      using uint_0_iff [of t] uint_ge_0 [of t] by linarith
    then have "uint (t - 1) = uint t - 1"
      unfolding uint_sub_if' by simp
    moreover have "0 \<le> uint t" "uint t < 2 ^ 32"
      using uint_lt2p [of t] by simp_all
    ultimately show ?thesis
      by (simp add: tick_add_i32_def)
  qed
  moreover have "filter (\<lambda>link. pl_state link = Candidate) (barrier_links entity p (\<lambda>_. []) (ids p)) =
      barrier_links entity p (\<lambda>_. []) (ids p)"
    by (simp add: barrier_links_def filter_id_conv)
  moreover have "\<forall>link \<in> set (barrier_links entity p (\<lambda>_. []) (ids p)). pl_connected link"
    by (simp add: barrier_links_def)
  moreover have "length (barrier_links entity p (\<lambda>_. []) (ids p)) = length (ss_remote_peers (fst state p))"
    by (simp add: final barrier_links_def barrier_peers_def)
  ultimately show ?thesis
    by (simp add: start_session_before_agreed_tick_def Let_def ids_eq)
qed

definition example_byte_hasher :: "u64 byte_hasher_ops" where
  "example_byte_hasher =
     \<lparr>bh_new = 0, bh_write = (\<lambda>bytes hash. foldl (\<lambda>hash b. hash * 31 + ucast b) hash bytes),
      bh_finish = (\<lambda>hash. hash)\<rparr>"

definition example_peers :: "peer_id list" where
  "example_peers = [PeerEntity 1, PeerEntity 2, PeerEntity 3]"

definition example_entity :: "peer_id \<Rightarrow> nat" where
  "example_entity p = (case p of PeerEntity n \<Rightarrow> unat n | _ \<Rightarrow> 0)"

definition example_started :: "peer_id \<Rightarrow> (p2p_session \<times> nat p2p_link list) option" where
  "example_started p = start_session example_byte_hasher 0 p2p_session_default
     (lobby_links example_entity p (remove1 p example_peers))"

lemma example_started_all: "p \<in> set example_peers \<Longrightarrow> example_started p \<noteq> None"
proof -
  assume "p \<in> set example_peers"
  then have "ss_state p2p_session_default = SessionStopped" "distinct (p # remove1 p example_peers)"
    "remove1 p example_peers \<noteq> []"
    by (auto simp: example_peers_def p2p_session_default_def)
  moreover obtain hash where "roster_hash example_byte_hasher p (remove1 p example_peers) = Some hash"
    by (auto simp: roster_hash_def encode_peers_eq)
  ultimately show ?thesis
    using start_session_lobby [of p2p_session_default p "remove1 p example_peers" example_byte_hasher hash 0 example_entity]
    by (simp add: example_started_def)
qed

theorem p2p_session_starts_witness:
  "\<exists>metadata' links'. start_session_before_agreed_tick of_nat (123 - 1)
      (fst (barrier_round example_entity example_peers (\<lambda>_. 10) 2 (barrier_round example_entity example_peers (\<lambda>_. 5) 1
        (barrier_round example_entity example_peers (\<lambda>p. if p = PeerEntity 3 then 3 else 0) 0
          (fst \<circ> the \<circ> example_started, \<lambda>_ _. [])))) (PeerEntity 1))
      (networking_metadata_default :: (nat, nat) networking_metadata)
      (barrier_links example_entity (PeerEntity 1) (\<lambda>_. []) (remove1 (PeerEntity 1) example_peers)) =
    (clear_barrier_progress
      ((fst (barrier_round example_entity example_peers (\<lambda>_. 10) 2 (barrier_round example_entity example_peers (\<lambda>_. 5) 1
        (barrier_round example_entity example_peers (\<lambda>p. if p = PeerEntity 3 then 3 else 0) 0
          (fst \<circ> the \<circ> example_started, \<lambda>_ _. [])))) (PeerEntity 1))\<lparr>ss_state := SessionStarted 123\<rparr>),
      metadata', links', Some 123)"
proof -
  have started: "start_session example_byte_hasher 0 p2p_session_default
      (lobby_links example_entity p (remove1 p example_peers)) =
      Some ((fst \<circ> the \<circ> example_started) p, (snd \<circ> the \<circ> example_started) p)"
    if "p \<in> set example_peers" for p
    using example_started_all that by (auto simp: example_started_def)
  note starts = p2p_session_starts [where peers = example_peers and H = example_byte_hasher
        and lobby = "\<lambda>_. p2p_session_default" and started = 0 and entity = example_entity
        and sessions = "fst \<circ> the \<circ> example_started" and links = "snd \<circ> the \<circ> example_started"
        and ?now1.0 = 0 and ?now2.0 = 1 and ?now3.0 = 2 and ?tick1.0 = "\<lambda>p. if p = PeerEntity 3 then 3 else 0"
        and ?tick2.0 = "\<lambda>_. 5" and ?tick3.0 = "\<lambda>_. 10" and t = 123 and g = 0 and index = of_nat and p = "PeerEntity 1"
        and metadata = "networking_metadata_default :: (nat, nat) networking_metadata", OF _ _ _ _ _ _ _ refl]
  show ?thesis
    by (rule starts)
      (use started in \<open>simp_all add: example_peers_def p2p_session_default_def DEFAULT_START_DELAY_TICKS_def
        DEFAULT_START_TIMEOUT_def tick_add_i32_def\<close>)
qed

text \<open>Two peers that start: the agreement applied to a run of ten steps.\<close>

lemma run_start:
  assumes "p2p_reachable H index w" and "start_session H now (w_sessions w p) (links :: 'e p2p_link list) = Some (s, links')"
    and "w_attempts w p = 0"
  shows "\<exists>w'. p2p_reachable H (index :: 'e \<Rightarrow> u32) w' \<and> w_sessions w' = (w_sessions w)(p := s) \<and>
    (\<forall>r. r \<noteq> p \<longrightarrow> w_attempts w' r = w_attempts w r) \<and> w_sent w' = w_sent w \<and> w_starts w' = w_starts w"
  by (intro exI conjI, rule p2p_reachable.step [OF assms(1) p2p_step.start [OF assms(2)]]) (use assms(3) in simp_all)

lemma run_drive:
  assumes "p2p_reachable H index w" and "\<forall>m \<in> set mail. (q, p, m) \<in> w_sent w"
    and "drive_session tick synced now (w_sessions w p) (barrier_links (entity :: peer_id \<Rightarrow> 'e) p (\<lambda>_. mail) [q]) = (s, links')"
  shows "\<exists>w'. p2p_reachable H (index :: 'e \<Rightarrow> u32) w' \<and> w_sessions w' = (w_sessions w)(p := s) \<and>
    w_sent w' = w_sent w \<union> sends_of p links' \<and> w_starts w' = w_starts w"
proof -
  have "authentic (w_sent w) p (barrier_links entity p (\<lambda>_. mail) [q])"
    "sends_of p (barrier_links entity p (\<lambda>_. mail) [q]) \<subseteq> w_sent w"
    using assms(2) by (auto simp: barrier_links_def authentic_def sends_of_def)
  note reached = p2p_reachable.step [OF assms(1) p2p_step.drive [OF this assms(3)]]
  show ?thesis
    by (intro exI conjI, rule reached) simp_all
qed

lemma run_boundary:
  assumes "p2p_reachable H index w"
    and "start_session_before_agreed_tick index tick (w_sessions w p) (metadata :: (peer_id, 'e) networking_metadata) links =
      (s, metadata', links', Some t)"
  shows "\<exists>w'. p2p_reachable H (index :: 'e \<Rightarrow> u32) w' \<and> w_sessions w' = (w_sessions w)(p := s) \<and>
    w_starts w' = w_starts w \<union> {(p, ss_generation (w_sessions w p), cohort (w_sessions w p), t)}"
  by (intro exI conjI, rule p2p_reachable.step [OF assms(1) p2p_step.boundary [OF assms(2)]]) simp_all

lemma pair_sends:
  "contains_remote q s \<Longrightarrow> sends_of p (map (send_to_link s out) (barrier_links entity p (\<lambda>_. []) [q])) = {(p, q, m) | m. m \<in> set out}"
  by (auto simp: sends_of_def barrier_links_def send_to_link_def)

text \<open>The sessions of one of two peers after the three rounds, and what it sends.\<close>

definition pair_session :: "peer_id \<Rightarrow> u64 \<Rightarrow> nat \<Rightarrow> p2p_session" where
  "pair_session q h n =
     (let s1 = (begin_session [q] h 0 p2p_session_default)\<lparr>ss_local_ready_tick := Some 120, ss_local_ready_sent := True\<rparr>;
          s2 = s1\<lparr>ss_remote_peers := barrier_peers (\<lambda>_. Some 120) (\<lambda>_. None) [q],
            ss_state := SessionStarting (Some 120), ss_local_acknowledgement_sent := True\<rparr>
      in if n = 0 then begin_session [q] h 0 p2p_session_default
         else if n = 1 then s1
         else if n = 2 then s2
         else s2\<lparr>ss_remote_peers := barrier_peers (\<lambda>_. Some 120) (\<lambda>_. Some 120) [q]\<rparr>)"

definition pair_mail :: "u64 \<Rightarrow> nat \<Rightarrow> session_message list" where
  "pair_mail h n = (if n = 0 then [] else if n = 1 then [Ready 1 h 120] else if n = 2 then [StartAcknowledgement 1 h 120] else [])"

lemma pair_round:
  fixes entity :: "peer_id \<Rightarrow> nat"
  assumes "n < 3"
  shows "\<exists>links. drive_session 0 True 0 (pair_session q h n) (barrier_links entity p (\<lambda>_. pair_mail h n) [q]) =
      (pair_session q h (Suc n), links) \<and> {(p, q, m) | m. m \<in> set (pair_mail h (Suc n))} \<subseteq> sends_of p links"
proof -
  have contains: "contains_remote q (pair_session q h k)" for k
    by (simp add: pair_session_def begin_session_def contains_remote_def remote_peer_start_new_def barrier_peers_def Let_def)
  have zero: "ss_generation p2p_session_default = 0" "ss_start_delay_ticks p2p_session_default = 120"
    "0 < ss_start_timeout p2p_session_default"
    by (simp_all add: p2p_session_default_def DEFAULT_START_DELAY_TICKS_def DEFAULT_START_TIMEOUT_def)
  consider "n = 0" | "n = 1" | "n = 2"
    using assms by linarith
  then show ?thesis
  proof cases
    case 1
    have "drive_session 0 True 0 (pair_session q h 0) (barrier_links entity p (\<lambda>_. []) [q]) =
        (pair_session q h 1, map (send_to_link (pair_session q h 1) [Ready 1 h 120]) (barrier_links entity p (\<lambda>_. []) [q]))"
      using barrier_first_round [of "[q]" 0 0 p2p_session_default 120 0 h entity p] zero
      by (simp add: pair_session_def Let_def tick_add_i32_def)
    then show ?thesis
      using 1 by (simp add: pair_mail_def pair_sends [OF contains])
  next
    case 2
    have "drive_session 0 True 0 (pair_session q h 1) (barrier_links entity p (\<lambda>_. [Ready 1 h 120]) [q]) =
        (pair_session q h 2, map (send_to_link (pair_session q h 2) [StartAcknowledgement 1 h 120]) (barrier_links entity p (\<lambda>_. []) [q]))"
      using barrier_second_round [where ids = "[q]" and now = 0 and started = 0 and s = p2p_session_default and ?s1.0 = "pair_session q h 1"
        and h = h and l = 120 and t = 120 and e = "\<lambda>_. 120" and tick = 0 and entity = entity and p = p] zero
      by (simp add: pair_session_def Let_def)
    then show ?thesis
      using 2 by (simp add: pair_mail_def pair_sends [OF contains] numeral_2_eq_2)
  next
    case 3
    have "fst (drive_session 0 True 0 (pair_session q h 2) (barrier_links entity p (\<lambda>_. [StartAcknowledgement 1 h 120]) [q])) =
        pair_session q h 3"
      using barrier_third_round [where ids = "[q]" and tick = 0 and t = 120 and ?s2.0 = "pair_session q h 2" and h = h and started = 0
        and s = p2p_session_default and l = 120 and e = "\<lambda>_. 120" and now = 0 and entity = entity and p = p] zero
      by (simp add: pair_session_def Let_def)
    then show ?thesis
      using 3 by (simp add: pair_mail_def) (metis prod.collapse numeral_3_eq_3 numeral_2_eq_2)
  qed
qed

text \<open>Both peers drive their sessions \<open>n\<close> times in turn.\<close>

lemma pair_rounds:
  assumes "roster_hash H p [q] = Some h" and "roster_hash H q [p] = Some h" and "p \<noteq> q" and "n \<le> 3"
  shows "\<exists>w. p2p_reachable H (of_nat :: nat \<Rightarrow> u32) w \<and> w_sessions w p = pair_session q h n \<and> w_sessions w q = pair_session p h n \<and>
    (\<forall>m \<in> set (pair_mail h n). (p, q, m) \<in> w_sent w \<and> (q, p, m) \<in> w_sent w) \<and> w_starts w = {}"
  using assms(4)
proof (induction n)
  case 0
  let ?w = "\<lparr>w_sessions = \<lambda>_. p2p_session_default, w_attempts = \<lambda>_. 0, w_sent = {}, w_starts = {}\<rparr>"
  have default: "p2p_session_default = with_start_timeout DEFAULT_START_TIMEOUT (with_start_delay_ticks DEFAULT_START_DELAY_TICKS p2p_session_default)"
    by (simp add: with_start_timeout_def with_start_delay_ticks_def p2p_session_default_def)
  have "p2p_reachable H (of_nat :: nat \<Rightarrow> u32) ?w"
    by (rule p2p_reachable.initial) (use default in \<open>auto simp: p2p_initial_def\<close>)
  have start: "start_session H 0 p2p_session_default (lobby_links (\<lambda>_. 0 :: nat) x [y]) =
      Some (pair_session y h 0, barrier_links (\<lambda>_. 0) x (\<lambda>_. []) [y])" if "roster_hash H x [y] = Some h" "x \<noteq> y" for x y
    using start_session_lobby [of p2p_session_default x "[y]" H h 0] that
    by (simp add: p2p_session_default_def pair_session_def Let_def)
  have "start_session H 0 (w_sessions ?w p) (lobby_links (\<lambda>_. 0 :: nat) p [q]) =
      Some (pair_session q h 0, barrier_links (\<lambda>_. 0) p (\<lambda>_. []) [q])"
    using start [OF assms(1,3)] by simp
  from run_start [OF \<open>p2p_reachable H of_nat ?w\<close> this]
  obtain w1 where w1: "p2p_reachable H (of_nat :: nat \<Rightarrow> u32) w1" "w_sessions w1 = (\<lambda>_. p2p_session_default)(p := pair_session q h 0)"
    "\<forall>r. r \<noteq> p \<longrightarrow> w_attempts w1 r = 0" "w_starts w1 = {}"
    by auto
  have "start_session H 0 (w_sessions w1 q) (lobby_links (\<lambda>_. 0 :: nat) q [p]) =
      Some (pair_session p h 0, barrier_links (\<lambda>_. 0) q (\<lambda>_. []) [p])"
    using start [OF assms(2) assms(3) [symmetric]] w1(2) assms(3) by simp
  from run_start [OF w1(1) this] w1(3) assms(3)
  obtain w2 where w2: "p2p_reachable H (of_nat :: nat \<Rightarrow> u32) w2" "w_sessions w2 = (w_sessions w1)(q := pair_session p h 0)"
    "w_starts w2 = w_starts w1"
    by auto
  then show ?case
    using w1(2,4) assms(3) by (intro exI [of _ w2]) (simp add: pair_mail_def)
next
  case (Suc n)
  then obtain w where w: "p2p_reachable H (of_nat :: nat \<Rightarrow> u32) w" "w_sessions w p = pair_session q h n" "w_sessions w q = pair_session p h n"
    "\<forall>m \<in> set (pair_mail h n). (p, q, m) \<in> w_sent w \<and> (q, p, m) \<in> w_sent w" "w_starts w = {}"
    by auto
  from pair_round [of n q h "\<lambda>_. 0" p] Suc.prems obtain links where
    "drive_session 0 True 0 (w_sessions w p) (barrier_links (\<lambda>_. 0 :: nat) p (\<lambda>_. pair_mail h n) [q]) = (pair_session q h (Suc n), links)"
    and sent: "{(p, q, m) | m. m \<in> set (pair_mail h (Suc n))} \<subseteq> sends_of p links"
    using w(2) by auto
  from run_drive [OF w(1) _ this(1)] w obtain w1 where w1: "p2p_reachable H (of_nat :: nat \<Rightarrow> u32) w1"
    "w_sessions w1 = (w_sessions w)(p := pair_session q h (Suc n))" "w_sent w1 = w_sent w \<union> sends_of p links" "w_starts w1 = {}"
    by auto
  from pair_round [of n p h "\<lambda>_. 0" q] Suc.prems obtain links' where
    "drive_session 0 True 0 (w_sessions w1 q) (barrier_links (\<lambda>_. 0 :: nat) q (\<lambda>_. pair_mail h n) [p]) = (pair_session p h (Suc n), links')"
    and sent': "{(q, p, m) | m. m \<in> set (pair_mail h (Suc n))} \<subseteq> sends_of q links'"
    using w(3) w1(2) assms(3) by auto
  from run_drive [OF w1(1) _ this(1)] w(4) w1 obtain w2 where "p2p_reachable H (of_nat :: nat \<Rightarrow> u32) w2"
    "w_sessions w2 = (w_sessions w1)(q := pair_session p h (Suc n))" "w_sent w2 = w_sent w1 \<union> sends_of q links'" "w_starts w2 = {}"
    by auto
  then show ?case
    using w1(2,3) sent sent' assms(3) by (intro exI [of _ w2]) auto
qed

theorem p2p_start_agreement_witness:
  "\<exists>w. p2p_reachable example_byte_hasher (of_nat :: nat \<Rightarrow> u32) w \<and>
    (\<exists>t t'. (PeerEntity 1, 1, {PeerEntity 2}, t) \<in> w_starts w \<and> (PeerEntity 2, 1, {PeerEntity 1}, t') \<in> w_starts w \<and> t' = t)"
proof -
  let ?p = "PeerEntity 1" and ?q = "PeerEntity 2"
  obtain h where p: "roster_hash example_byte_hasher ?p [?q] = Some h"
    by (auto simp: roster_hash_def encode_peers_eq)
  then have q: "roster_hash example_byte_hasher ?q [?p] = Some h"
    using roster_hash_cohort [of ?p "[?q]" ?q "[?p]" example_byte_hasher] by auto
  obtain w where w: "p2p_reachable example_byte_hasher (of_nat :: nat \<Rightarrow> u32) w" "w_sessions w ?p = pair_session ?q h 3"
    "w_sessions w ?q = pair_session ?p h 3"
    using pair_rounds [OF p q, of 3] by auto
  have boundary: "\<exists>s metadata' links'. start_session_before_agreed_tick (of_nat :: nat \<Rightarrow> u32) 119 (pair_session y h 3)
      (networking_metadata_default :: (peer_id, nat) networking_metadata) (barrier_links (\<lambda>_. 0) x (\<lambda>_. []) [y]) = (s, metadata', links', Some 120)"
    for x y
    by (simp add: start_session_before_agreed_tick_def agreed_start_tick_def pair_session_def begin_session_def barrier_peers_def
        barrier_links_def tick_add_i32_def Let_def)
  have facts: "ss_generation (pair_session y h 3) = 1" "cohort (pair_session y h 3) = {y}" for y
    by (simp_all add: pair_session_def begin_session_def barrier_peers_def cohort_def p2p_session_default_def Let_def)
  obtain s1 m1 l1 where "start_session_before_agreed_tick (of_nat :: nat \<Rightarrow> u32) 119 (w_sessions w ?p)
      (networking_metadata_default :: (peer_id, nat) networking_metadata) (barrier_links (\<lambda>_. 0) ?p (\<lambda>_. []) [?q]) = (s1, m1, l1, Some 120)"
    using boundary [of ?q ?p] w(2) by auto
  from run_boundary [OF w(1) this] w(2,3) facts
  obtain w1 where w1: "p2p_reachable example_byte_hasher (of_nat :: nat \<Rightarrow> u32) w1"
    "w_sessions w1 ?q = pair_session ?p h 3" "(?p, 1, {?q}, 120) \<in> w_starts w1"
    by auto
  obtain s2 m2 l2 where "start_session_before_agreed_tick (of_nat :: nat \<Rightarrow> u32) 119 (w_sessions w1 ?q)
      (networking_metadata_default :: (peer_id, nat) networking_metadata) (barrier_links (\<lambda>_. 0) ?q (\<lambda>_. []) [?p]) = (s2, m2, l2, Some 120)"
    using boundary [of ?p ?q] w1(2) by auto
  from run_boundary [OF w1(1) this] w1(2,3) facts
  obtain w2 where w2: "p2p_reachable example_byte_hasher (of_nat :: nat \<Rightarrow> u32) w2"
    "(?p, 1, {?q}, 120) \<in> w_starts w2" "(?q, 1, {?p}, 120) \<in> w_starts w2"
    by auto
  then show ?thesis
    using p2p_start_agreement [OF w2] by blast
qed

end
