(* ===== verification/Spec2Isabelle.thy ===== *)
theory Spec2Isabelle
  imports Serde Packet_Header Flush Network_Target Free_List Netcode_Client Input_Buffer P2P_Session
begin

text \<open>
  \<^bold>\<open>Verification of the lightyear networking library.\<close>

  Lightyear is a networking library for Bevy games. A message that a game sends passes, on its way
  to the peer, through a channel that numbers it and splits it into fragments, through the packet
  layer that batches it and learns from the acknowledgements in the packet headers what arrived,
  through compression, and through the netcode connection that encrypts each packet and keeps the
  list of clients. On top of these layers, systems inside the Bevy scheduler keep the histories of
  the confirmed and of the predicted values, exchange the inputs of the players, and roll the
  simulation back and replay it when a prediction was wrong. The development models the layers from
  the bytes upwards, and of the systems the data structures and decisions that are the library's own.
  All paths below are under \<open>src/crates\<close>.

  \<^bold>\<open>Theories.\<close>

  \<^item> \<open>Prelude\<close>: bytes, words, durations in nanoseconds, the result type with its early return,
    checked \<open>usize\<close> arithmetic, lemmas on words and big-endian numbers.
  \<^item> \<open>Serde\<close> (\<open>transport/serde/src\<close>): cursor, fixed integers, varints, and the codecs of the
    library's containers. Shown: each codec reads back what it wrote, from the front of any buffer.
  \<^item> \<open>Wrapping_Id\<close>, \<open>Tick\<close>, \<open>Ready_Buffer\<close>, \<open>Collections\<close>, \<open>Free_List\<close>
    (\<open>core/utils/src\<close>, \<open>core/core/src/tick.rs\<close>): identifiers that wrap around and their order,
    saturating ticks and the atomic minimum under every interleaving, the heap of timed items,
    sequence buffers, fixed-size lists with free slots.
  \<^item> \<open>Packet_Header\<close> (\<open>transport/transport/src/packet/header.rs\<close> and its neighbours): headers,
    the receive buffer behind the acknowledgement bitfield, the table of packets that wait for an
    acknowledgement, losses. Shown: the bitfield reports exactly what was received, a header
    acknowledges exactly the packets it names, and the two sides together are sound and complete.
  \<^item> \<open>Compression\<close>, \<open>Message\<close>, \<open>Fragments\<close> (\<open>transport/transport/src/packet\<close>,
    \<open>channel/fragments\<close>): the decision to compress, the wire format of messages, splitting and
    reassembly. Shown: fragments in any order, with duplicates, rebuild the message; the size
    search ends with the largest size that fits.
  \<^item> \<open>Channel_Receive\<close>, \<open>Channel_Delivery\<close> (\<open>transport/transport/src/channel/receive.rs\<close>): the
    receivers of the six channel modes; and that the reliable ordered one refines the specification
    which delivers each sent message once, in order, whatever the network loses, repeats or reorders.
  \<^item> \<open>Channel_Send\<close> (\<open>transport/transport/src/channel/send.rs\<close>, \<open>send_reliable.rs\<close>): the senders of
    the six channel modes, from the queue through fragments and candidates to the acknowledgement.
  \<^item> \<open>Packet_Builder\<close>, \<open>Sized_Messages\<close> (\<open>packet/priority_manager.rs\<close>, \<open>packet_builder.rs\<close>): the order
    of the candidates, the admission by bandwidth, and the packing of messages into packets. Shown:
    what one staged packet may hold, and that sizes on the wire are the ones the builder counted.
  \<^item> \<open>Transport\<close>, \<open>Packet_Delivery\<close>, \<open>Flush\<close> (\<open>channel/registry.rs\<close>, \<open>channel/builder.rs\<close>,
    \<open>plugin.rs\<close>): the registry of channels, the transport of one entity, the receiving and the sending
    system. Shown: a packet that was built is read back into the messages it was built from, and a
    flush of the sending system is received by the receiving system of the peer.
  \<^item> \<open>Link\<close> (\<open>io/link/src\<close>): the queues below the transport, the MTU, the life cycle markers and the
    conditioner that delays and drops packets.
  \<^item> \<open>Network_Target\<close> (\<open>connection/connection/src/network_target.rs\<close>, \<open>core/core/src/id.rs\<close>):
    sets of clients and their algebra, canonical forms, the resolver and its reference.
  \<^item> \<open>Replay_Protection\<close>, \<open>Netcode_Crypto\<close>, \<open>Netcode_Token\<close>, \<open>Netcode_Packet\<close>,
    \<open>Netcode_Server\<close>, \<open>Netcode_Client\<close> (\<open>connection/netcode/src\<close>): the netcode protocol. Shown:
    tokens and packets are read back by whoever has the key, an accepted packet other than a plain
    request is genuine (and fresh, if it is of a kind that the replay protection covers), the server
    never exceeds its number of clients, the client's state moves along its documented transitions and
    two more that the documentation leaves out, and the handshake of the two ends with both connected.
  \<^item> \<open>Network_Topology\<close>, \<open>P2P_Session\<close> (\<open>connection/connection/src/network_topology.rs\<close>, \<open>p2p.rs\<close>,
    \<open>connection/p2p/src/session.rs\<close>): the networking role of an application, and the start barrier of a
    peer-to-peer session, for one peer and for any number of peers over a network that loses, repeats,
    delays and reorders messages. Shown: the role does not depend on the order of the entities; peers
    of a cohort never start at different ticks, and they all start when their messages arrive in time.
  \<^item> \<open>History_Buffer\<close>, \<open>Confirmed_History\<close> (\<open>core/core/src/history_buffer.rs\<close>,
    \<open>confirmed_history.rs\<close>, \<open>replication/interpolation/src/interpolate.rs\<close>): the history of a component
    by tick, and its compressed form for what the server confirmed. The locales \<open>state_history\<close> and
    \<open>rewindable_history\<close> state what both promise about lookups, insertions and pruning; the
    interpretations \<open>history\<close> and \<open>confirmed\<close> prove it of the two. Shown for interpolation: the two
    samples it blends are the ones around its tick, and draining old samples never changes them.
  \<^item> \<open>Prediction\<close> (\<open>replication/prediction/src/manager.rs\<close>, \<open>registry.rs\<close>, \<open>predicted_history.rs\<close>,
    \<open>rollback.rs\<close>, \<open>core/core/src/timeline.rs\<close>): recording what was confirmed, the decision to roll
    back, the restoration of a component, with the observer that records a removal, and the replay.
    Shown: how far a rollback can reach, when a recorded mismatch is rolled back, that after a rollback
    the history is the one of a simulation from the restored state, and where a removal breaks this.
  \<^item> \<open>Input_Buffer\<close> (\<open>inputs/inputs/src\<close>, \<open>inputs/inputs_native/src/input_message.rs\<close>): the buffer of
    the inputs of a player, the redundant messages that carry its end, the merge of a message into a
    buffer with the detection of the first misprediction, and pruning, which is invisible between two
    messages but can lose a late input. Joined with \<open>Prediction\<close>: a mispredicted input makes
    \<open>check_rollback\<close> roll back to the tick before it.

  \<^bold>\<open>How the code is represented.\<close> A struct is a record, an enum a datatype, a method a function that
  returns the changed record; \<open>?\<close> is the bind of a sum type, an operation that can fail after it has
  changed its state returns the state beside the error. Hash maps are maps, and association lists
  where the code iterates over them, so that their order is the iteration order. Integers are words
  of their width and wrap as in a release build, where a \<open>debug_assert!\<close> is not run. A panic is a value: \<open>None\<close>, \<open>Panicked\<close>,
  \<open>RecvPanicked\<close> or \<open>NetcodePanicked\<close>, so that its absence is part of the statements. Floating-point
  numbers are an abstract type whose operations are a parameter (\<open>f64_ops\<close>).

  \<^bold>\<open>Code outside the repository\<close> is a parameter too, with what is documented of it as the assumptions
  of a locale: the authenticated ciphers (\<open>aead_cipher\<close>), the lz4 codec, the ring buffer and the
  indexed map. The locales are interpreted on concrete functions (for the ciphers \<open>toy_aead\<close>), which
  the examples then run with. Random keys, the clock and the iteration order are arguments.

  \<^bold>\<open>Termination.\<close> No fuel is used: every loop is a structural recursion or a function with a proved
  measure. A loop of compare-and-exchange is a step relation. The lookup \<open>ib_get\<close> of an input buffer
  is a \<open>partial_function\<close> into options, since on an ill-formed buffer the recursion of the code has
  no end; \<open>None\<close> stands for not returning and for the panic, and on a well-formed buffer the lookup
  is proved to return.

  \<^bold>\<open>Not modelled\<close>, and why. Of the modelled crates: systems, observers, commands and hooks of Bevy
  appear as functions on the components of one entity, or on a list of entities where the order
  matters; queries, the relationship between a server and its links, resolution of the targets of an
  input and its rebroadcast are left out, since they are relations of the entity store outside the
  repository. The scan of the entities in \<open>check_rollback\<close> is sequential where the code may run it in
  parallel. The clocks that \<open>run_rollback\<close> saves and restores, the despawns of prespawned entities
  and the visual corrections are left out. Floats, the rate limiter, random draws, the hasher and the
  decay of an input snapshot are parameters. Whole crates: replication itself is the code of the
  replicon crate and lightyear's part of it is observers and type-erased tables; interpolation rules
  and frame interpolation blend values of the game in floats; time synchronisation is a controller in
  32-bit floats; deterministic replication hashes archetypes of the engine; the IO backends and the
  Steam connection call operating-system and third-party interfaces; plugins register systems; the
  Avian, Leafwing, UI, web, tool and test crates are glue or output.
\<close>

end
